(* ===== verification/Prelude.thy ===== *)
theory Prelude
  imports Main "HOL-Library.Word"
begin

text \<open>
  The vocabulary every component shares: machine integers at the widths the C++ code uses,
  the exceptions the code throws as values, sequencing of computations that may throw, and
  the generic lemmas on lists and words that the component proofs are built from.
\<close>

unbundle bit_operations_syntax

section \<open>Types\<close>

type_synonym byte = "8 word"
type_synonym u16 = "16 word"
type_synonym u32 = "32 word"
type_synonym u64 = "64 word"

text \<open>
  The exceptions of the C++ standard library that the code throws and catches, with their
  messages. A computation that may throw has type \<open>exn + 'a\<close>: \<open>Inl\<close> is the exception.
\<close>

datatype exn =
    InvalidArgument string
  | OutOfRange string
  | LogicError string
  | RuntimeError string
  | LengthError string
  | BadVariantAccess string

type_synonym 'a result = "exn + 'a"

fun exn_what :: "exn \<Rightarrow> string" where
  "exn_what (InvalidArgument m) = m"
| "exn_what (OutOfRange m) = m"
| "exn_what (LogicError m) = m"
| "exn_what (RuntimeError m) = m"
| "exn_what (LengthError m) = m"
| "exn_what (BadVariantAccess m) = m"

section \<open>Sequencing\<close>

text \<open>
  \<open>andThen m f\<close> runs \<open>m\<close> and, unless it throws, continues with \<open>f\<close> on its value.
  \<open>mapE\<close> runs a throwing function over a list from the front, as a \<open>for\<close> loop with
  \<open>push_back\<close> does; \<open>foldE\<close> threads a state through a loop whose body may throw.
\<close>

definition andThen :: "'e + 'a \<Rightarrow> ('a \<Rightarrow> 'e + 'b) \<Rightarrow> 'e + 'b" where
  "andThen m f = (case m of Inl e \<Rightarrow> Inl e | Inr x \<Rightarrow> f x)"

fun mapE :: "('a \<Rightarrow> 'e + 'b) \<Rightarrow> 'a list \<Rightarrow> 'e + 'b list" where
  "mapE f [] = Inr []"
| "mapE f (x # xs) = andThen (f x) (\<lambda>y. andThen (mapE f xs) (\<lambda>ys. Inr (y # ys)))"

fun foldE :: "('a \<Rightarrow> 's \<Rightarrow> 'e + 's) \<Rightarrow> 'a list \<Rightarrow> 's \<Rightarrow> 'e + 's" where
  "foldE f [] s = Inr s"
| "foldE f (x # xs) s = andThen (f x s) (foldE f xs)"

named_theorems result_simps \<open>equations that run a computation that may throw\<close>
named_theorems ok_dests \<open>what a computation that returned normally has established\<close>

lemma andThen_simps [simp, result_simps]:
  "andThen (Inr x) f = f x"
  "andThen (Inl e) f = Inl e"
  by (simp_all add: andThen_def)

lemma andThen_Inr_iff [result_simps]:
  "andThen m f = Inr y \<longleftrightarrow> (\<exists>x. m = Inr x \<and> f x = Inr y)"
  by (cases m) auto

lemma andThen_InrE [elim!]:
  assumes "andThen m f = Inr y"
  obtains x where "m = Inr x" "f x = Inr y"
  using assms by (auto simp: andThen_Inr_iff)

lemma andThen_cong [fundef_cong]:
  assumes "m = m'" "\<And>x. m' = Inr x \<Longrightarrow> f x = f' x"
  shows "andThen m f = andThen m' f'"
  using assms by (cases m') auto

lemma isl_iff_not_Inr: "isl m \<longleftrightarrow> (\<forall>y. m \<noteq> Inr y)"
  by (cases m) auto

lemma mapE_Inr_iff:
  "mapE f xs = Inr ys \<longleftrightarrow> list_all2 (\<lambda>x y. f x = Inr y) xs ys"
proof (induction xs arbitrary: ys)
  case Nil
  then show ?case by auto
next
  case (Cons x xs)
  then show ?case by (cases ys) (auto simp: andThen_Inr_iff)
qed

lemma mapE_length [ok_dests]: "mapE f xs = Inr ys \<Longrightarrow> length ys = length xs"
  by (auto simp: mapE_Inr_iff dest: list_all2_lengthD)

lemma mapE_nth [ok_dests]:
  "mapE f xs = Inr ys \<Longrightarrow> i < length xs \<Longrightarrow> f (xs ! i) = Inr (ys ! i)"
  by (auto simp: mapE_Inr_iff dest: list_all2_nthD)

lemma mapE_total:
  assumes "\<And>x. x \<in> set xs \<Longrightarrow> f x = Inr (g x)"
  shows "mapE f xs = Inr (map g xs)"
  using assms by (induction xs) auto

lemma mapE_append:
  "mapE f (xs @ ys) = andThen (mapE f xs) (\<lambda>us. andThen (mapE f ys) (\<lambda>vs. Inr (us @ vs)))"
proof (induction xs)
  case Nil
  then show ?case by (cases "mapE f ys") auto
next
  case (Cons x xs)
  then show ?case
    by (cases "f x"; cases "mapE f xs"; cases "mapE f ys") auto
qed

lemma foldE_append: "foldE f (xs @ ys) s = andThen (foldE f xs s) (foldE f ys)"
proof (induction xs arbitrary: s)
  case Nil
  then show ?case by simp
next
  case (Cons x xs)
  then show ?case by (cases "f x s") auto
qed

text \<open>An invariant of the body is an invariant of the loop.\<close>

lemma foldE_invariant:
  assumes "foldE f xs s = Inr s'" "P s"
    and "\<And>x s t. x \<in> set xs \<Longrightarrow> P s \<Longrightarrow> f x s = Inr t \<Longrightarrow> P t"
  shows "P s'"
  using assms by (induction xs arbitrary: s) (auto simp: andThen_Inr_iff)

section \<open>Lists\<close>

text \<open>The positions of a list, in order: what a \<open>for (i = 0; i < n; ++i)\<close> loop visits.\<close>

lemma filter_upt_sorted [simp]: "sorted (filter P [0..<n])"
  by (simp add: sorted_wrt_filter)

lemma filter_upt_distinct [simp]: "distinct (filter P [0..<n])"
  by simp

lemma take_padded [simp]: "length xs = n \<Longrightarrow> take n (xs @ ys) = xs"
  by simp

lemma nth_update_eq: "i < length xs \<Longrightarrow> xs[i := x] ! j = (if j = i then x else xs ! j)"
  by (auto simp: nth_list_update)

section \<open>Words\<close>

text \<open>
  The arithmetic the code does on indexes that start at one: no wrap-around as long as the
  index is positive.
\<close>

lemma unat_minus_one_pos: "w \<noteq> 0 \<Longrightarrow> unat (w - 1) = unat w - 1" for w :: "'a::len word"
  by (rule unat_minus_one)

lemma unat_gt_0_iff: "0 < unat w \<longleftrightarrow> w \<noteq> 0" for w :: "'a::len word"
  by (simp add: unat_gt_0)

lemma unat_plus_no_wrap:
  "unat a + unat b < 2 ^ LENGTH('a) \<Longrightarrow> unat (a + b) = unat a + unat b"
  for a b :: "'a::len word"
  by (simp add: unat_word_ariths)

lemma unat_Suc_no_wrap:
  "unat a + 1 < 2 ^ LENGTH('a) \<Longrightarrow> unat (a + 1) = unat a + 1"
  for a :: "'a::len word"
  by (metis unat_plus_no_wrap unat_1)

lemma unat_lt_u32 [simp]: "unat (w :: u32) < 4294967296"
  using unsigned_less [of w, where 'a = nat] by simp

lemma unat_ucast_u64 [simp]: "unat (ucast (w :: u32) :: u64) = unat w"
  by (simp add: unsigned_ucast_eq take_bit_nat_eq_self less_trans [OF unat_lt_u32])

lemma unat_lt_u64 [simp]: "unat (w :: u64) < 18446744073709551616"
  using unsigned_less [of w, where 'a = nat] by simp

end
