(* ===== verification/KsRs.thy ===== *)
theory KsRs
  imports Prelude "HOL-Library.While_Combinator"
begin

text \<open>
  \<open>KsRsMatrix.cpp\<close>, the construction half: the search for a prime field and a code length,
  and the binary selection matrix built from polynomial evaluations. \<open>std::size_t\<close> values
  are natural numbers here; the places where the code itself guards against overflow are
  kept (\<open>SIZE_MAX\<close>).
\<close>

section \<open>Definitions\<close>

definition MAX_FIELD_SIZE :: nat where "MAX_FIELD_SIZE = 10000"

definition MAX_MESSAGE_LENGTH :: nat where "MAX_MESSAGE_LENGTH = 64"

definition SIZE_MAX :: nat where "SIZE_MAX = 2 ^ 64 - 1"

function bIsPrime_loop :: "nat \<Rightarrow> nat \<Rightarrow> bool" where
  "bIsPrime_loop nValue nDivisor =
     (if nDivisor \<le> nValue div nDivisor
      then if nValue mod nDivisor = 0 then False else bIsPrime_loop nValue (nDivisor + 2)
      else True)"
  by pat_completeness auto
termination
proof (relation "measure (\<lambda>(nValue, nDivisor). Suc nValue - nDivisor)", goal_cases)
  case (2 nValue nDivisor)
  have "nValue div nDivisor \<le> nValue" by simp
  with 2(1) have "nDivisor \<le> nValue" by (rule le_trans)
  then show ?case by simp
qed simp

declare bIsPrime_loop.simps [simp del]

definition bIsPrime :: "nat \<Rightarrow> bool" where
  "bIsPrime nValue =
     (if nValue \<le> 1 then False
      else if nValue = 2 \<or> nValue = 3 then True
      else if nValue mod 2 = 0 then False
      else bIsPrime_loop nValue 3)"

function nMinExponent_loop :: "nat \<Rightarrow> nat \<Rightarrow> nat \<Rightarrow> nat \<Rightarrow> nat" where
  "nMinExponent_loop nGroupSize nFieldSize nCapacity nExponent =
     (if nCapacity < nGroupSize \<and> nExponent < MAX_MESSAGE_LENGTH
      then if nCapacity > SIZE_MAX div nFieldSize then 0
           else nMinExponent_loop nGroupSize nFieldSize (nCapacity * nFieldSize) (nExponent + 1)
      else if nCapacity \<ge> nGroupSize \<and> nExponent > 0 then nExponent else 0)"
  by pat_completeness auto
termination
  by (relation "measure (\<lambda>(_, _, _, e). MAX_MESSAGE_LENGTH - e)") auto

declare nMinExponent_loop.simps [simp del]

definition nMinExponent :: "nat \<Rightarrow> nat \<Rightarrow> nat" where
  "nMinExponent nGroupSize nFieldSize = nMinExponent_loop nGroupSize nFieldSize 1 0"

definition nNextPrime :: "nat \<Rightarrow> nat" where
  "nNextPrime nValue =
     (if nValue \<le> 2 then 2
      else while (\<lambda>nCandidate. \<not> bIsPrime nCandidate) (\<lambda>nCandidate. nCandidate + 2)
             (if nValue mod 2 = 0 then nValue + 1 else nValue))"

function nPowMod_loop :: "nat \<Rightarrow> nat \<Rightarrow> nat \<Rightarrow> nat \<Rightarrow> nat" where
  "nPowMod_loop nModulus nResult nFactor nRemainingExponent =
     (if nRemainingExponent > 0
      then nPowMod_loop nModulus
             (if nRemainingExponent mod 2 \<noteq> 0 then (nResult * nFactor) mod nModulus else nResult)
             ((nFactor * nFactor) mod nModulus) (nRemainingExponent div 2)
      else nResult)"
  by pat_completeness auto
termination
  by (relation "measure (\<lambda>(_, _, _, e). e)") auto

declare nPowMod_loop.simps [simp del]

definition nPowMod :: "nat \<Rightarrow> nat \<Rightarrow> nat \<Rightarrow> nat" where
  "nPowMod nBase nExponent nModulus = nPowMod_loop nModulus 1 (nBase mod nModulus) nExponent"

section \<open>Primality\<close>

text \<open>Primality, on the natural numbers the code uses.\<close>

definition is_prime :: "nat \<Rightarrow> bool" where
  "is_prime p \<longleftrightarrow> 1 < p \<and> (\<forall>d. d dvd p \<longrightarrow> d = 1 \<or> d = p)"

lemma bIsPrime_loop_True:
  assumes "bIsPrime_loop n d" "odd d" "3 \<le> d"
  shows "\<forall>e. odd e \<and> d \<le> e \<and> e * e \<le> n \<longrightarrow> \<not> e dvd n"
  using assms
proof (induction n d rule: bIsPrime_loop.induct)
  case (1 n d)
  show ?case
  proof (cases "d \<le> n div d")
    case True
    with 1(2) have nd: "n mod d \<noteq> 0" and rec: "bIsPrime_loop n (d + 2)"
      by (auto simp: bIsPrime_loop.simps [of n d] split: if_splits)
    from 1(1) [OF True nd rec] 1(3,4)
    have IH: "\<forall>e. odd e \<and> d + 2 \<le> e \<and> e * e \<le> n \<longrightarrow> \<not> e dvd n" by simp
    have "\<not> e dvd n" if e: "odd e" "d \<le> e" "e * e \<le> n" for e
    proof -
      have "e \<noteq> d + 1" using e(1) 1(3) by auto
      then have "e = d \<or> d + 2 \<le> e" using e(2) by linarith
      then show ?thesis using IH e nd by (auto simp: dvd_eq_mod_eq_0)
    qed
    then show ?thesis by blast
  next
    case False
    have "False" if "d \<le> e" "e * e \<le> n" for e
    proof -
      have "d * d \<le> n" using that mult_le_mono [OF that(1) that(1)] by linarith
      then have "d \<le> n div d" using 1(4) by (metis div_mult_self1_is_m div_le_mono not_numeral_le_zero
          not_gr_zero)
      with False show ?thesis by simp
    qed
    then show ?thesis by blast
  qed
qed

lemma bIsPrime_loop_False:
  "\<not> bIsPrime_loop n d \<Longrightarrow> 3 \<le> d \<Longrightarrow> \<exists>e. e dvd n \<and> 3 \<le> e \<and> e \<le> n div e"
proof (induction n d rule: bIsPrime_loop.induct)
  case (1 n d)
  then show ?case
    by (cases "d \<le> n div d"; cases "n mod d = 0")
      (auto simp: bIsPrime_loop.simps [of n d] mod_eq_0_iff_dvd)
qed

text \<open>A composite number has a divisor whose square does not exceed it.\<close>

lemma small_divisor:
  fixes n d :: nat
  assumes "d dvd n" "d \<noteq> 1" "d \<noteq> n" "0 < n"
  obtains e where "e dvd n" "1 < e" "e * e \<le> n"
proof -
  from assms(1) obtain f where f: "n = d * f" by (auto elim: dvdE)
  with assms have "d \<noteq> 0" "f \<noteq> 0" "f \<noteq> 1" by auto
  with assms(2) have "1 < d" and "1 < f" by linarith+
  show thesis
  proof (cases "d \<le> f")
    case True
    then have "d * d \<le> n" using f by simp
    with assms(1) \<open>1 < d\<close> that show ?thesis by blast
  next
    case False
    then have "f * f \<le> n" using f by simp
    moreover have "f dvd n" using f by simp
    ultimately show ?thesis using \<open>1 < f\<close> that by blast
  qed
qed

lemma odd_dvd_odd: "e dvd n \<Longrightarrow> odd n \<Longrightarrow> odd e" for e n :: nat
  by (meson dvd_trans)

theorem bIsPrime_iff: "bIsPrime n \<longleftrightarrow> is_prime n"
proof
  assume p: "bIsPrime n"
  show "is_prime n"
  proof (cases "n = 2 \<or> n = 3")
    case True
    have "d = 1 \<or> d = n" if "d dvd n" for d
    proof -
      have "d \<le> n" using that True by (auto intro: dvd_imp_le)
      then have "d = 0 \<or> d = 1 \<or> d = 2 \<or> d = 3" using True by auto
      then show ?thesis using that True by auto
    qed
    with True show ?thesis by (auto simp: is_prime_def)
  next
    case False
    with p have n: "1 < n" "odd n" and loop: "bIsPrime_loop n 3"
      by (auto simp: bIsPrime_def split: if_splits)
    from bIsPrime_loop_True [OF loop]
    have none: "\<not> e dvd n" if "odd e" "3 \<le> e" "e * e \<le> n" for e
      using that by auto
    have "d = 1 \<or> d = n" if d: "d dvd n" for d
    proof (rule ccontr)
      assume "\<not> (d = 1 \<or> d = n)"
      with d n(1) obtain e where e: "e dvd n" "1 < e" "e * e \<le> n"
        using small_divisor by (metis less_trans zero_less_one)
      have "odd e" using odd_dvd_odd e(1) n(2) .
      with e(2) have "3 \<le> e" by (cases "e = 2") auto
      with \<open>odd e\<close> e none show False by blast
    qed
    with n(1) show ?thesis by (simp add: is_prime_def)
  qed
next
  assume p: "is_prime n"
  then have n: "1 < n" by (simp add: is_prime_def)
  show "bIsPrime n"
  proof (rule ccontr)
    assume np: "\<not> bIsPrime n"
    show False
    proof (cases "even n")
      case True
      then have "2 dvd n" by simp
      with p have "n = 2" by (auto simp: is_prime_def)
      with np show False by (simp add: bIsPrime_def)
    next
      case False
      with np n have "\<not> bIsPrime_loop n 3"
        by (auto simp: bIsPrime_def split: if_splits)
      then obtain e where e: "e dvd n" "3 \<le> e" "e \<le> n div e"
        using bIsPrime_loop_False by blast
      with p have "e = n" by (auto simp: is_prime_def)
      with e(2,3) show False by simp
    qed
  qed
qed

lemma is_prime_coprime: "is_prime p \<Longrightarrow> \<not> p dvd a \<Longrightarrow> coprime p a"
  by (metis is_prime_def coprime_iff_gcd_eq_1 gcd_dvd1 gcd_dvd2)

lemma is_prime_dvd_mult: "is_prime p \<Longrightarrow> p dvd a * b \<Longrightarrow> p dvd a \<or> p dvd b"
  using is_prime_coprime [of p a] coprime_dvd_mult_right_iff [of p a b] by blast

lemma is_prime_dvd_mult_int:
  assumes "is_prime p" "int p dvd a * b"
  shows "int p dvd a \<or> int p dvd b"
proof -
  have "p dvd nat \<bar>a\<bar> * nat \<bar>b\<bar>"
    using assms(2) by (simp add: dvd_nat_abs_iff flip: nat_abs_mult_distrib)
  with assms(1) have "p dvd nat \<bar>a\<bar> \<or> p dvd nat \<bar>b\<bar>" by (rule is_prime_dvd_mult)
  then show ?thesis by (simp add: dvd_nat_abs_iff)
qed

text \<open>There are primes above every number: the least divisor of \<open>n! + 1\<close>.\<close>

lemma least_divisor_prime:
  assumes "1 < n"
  obtains p where "is_prime p" "p dvd n"
proof -
  define p where "p = (LEAST d. 1 < d \<and> d dvd n)"
  have ex: "1 < n \<and> n dvd n" using assms by simp
  then have p: "1 < p \<and> p dvd n" unfolding p_def by (rule LeastI)
  have "d = 1 \<or> d = p" if "d dvd p" for d
  proof (rule ccontr)
    assume d: "\<not> (d = 1 \<or> d = p)"
    have "d \<noteq> 0" using that p by (auto intro: Nat.gr0I)
    with d have "1 < d" by simp
    moreover have "d dvd n" using that p dvd_trans by blast
    ultimately have "p \<le> d" unfolding p_def by (intro Least_le) simp
    moreover have "d \<le> p" using that p by (intro dvd_imp_le) auto
    ultimately show False using d by simp
  qed
  with p that show thesis by (auto simp: is_prime_def)
qed

lemma prime_above: obtains p where "is_prime p" "n < p"
proof -
  have "1 < fact n + (1::nat)" by simp
  then obtain p where p: "is_prime p" "p dvd fact n + (1::nat)" by (rule least_divisor_prime)
  have "\<not> p \<le> n"
  proof
    assume "p \<le> n"
    then have "p dvd fact n" using p(1) by (intro dvd_fact) (auto simp: is_prime_def)
    with p(2) have "p dvd 1" using dvd_add_right_iff by blast
    with p(1) show False by (simp add: is_prime_def)
  qed
  with p that show thesis by simp
qed

lemma is_prime_odd: "is_prime p \<Longrightarrow> 2 < p \<Longrightarrow> odd p"
  by (auto simp: is_prime_def)

section \<open>The next prime\<close>

lemma nNextPrime_while:
  assumes "odd m" "n \<le> m" "2 < n" "\<And>p. is_prime p \<Longrightarrow> n \<le> p \<Longrightarrow> m \<le> p"
  shows "\<exists>p. while_option (\<lambda>c. \<not> bIsPrime c) (\<lambda>c. c + 2) m = Some p
    \<and> is_prime p \<and> n \<le> p \<and> (\<forall>p'. is_prime p' \<and> n \<le> p' \<longrightarrow> p \<le> p')"
proof -
  define I where "I c \<longleftrightarrow> odd c \<and> n \<le> c \<and> (\<forall>p. is_prime p \<and> n \<le> p \<longrightarrow> c \<le> p)" for c
  obtain P where P: "is_prime P" "n < P" by (rule prime_above)
  have step: "I (c + 2) \<and> P - (c + 2) < P - c" if "I c" "\<not> bIsPrime c" for c
  proof -
    have "c + 2 \<le> p" if p: "is_prime p" "n \<le> p" for p
    proof -
      have "c \<le> p" "odd c" using \<open>I c\<close> p by (auto simp: I_def)
      moreover have "c \<noteq> p" using \<open>\<not> bIsPrime c\<close> p(1) by (auto simp: bIsPrime_iff)
      moreover have "odd p" using p assms(3) by (intro is_prime_odd) auto
      ultimately show ?thesis by (cases "p = c + 1") auto
    qed
    moreover from this P have "c + 2 \<le> P" by simp
    ultimately show ?thesis using \<open>I c\<close> unfolding I_def by simp
  qed
  have "I m" using assms by (auto simp: I_def)
  with measure_while_option_Some [of I "\<lambda>c. \<not> bIsPrime c" "\<lambda>c. c + 2" "\<lambda>c. P - c" m, OF step]
  obtain p where p: "while_option (\<lambda>c. \<not> bIsPrime c) (\<lambda>c. c + 2) m = Some p"
    by auto
  moreover have "I p" by (rule while_option_rule [where P = I, OF _ p \<open>I m\<close>]) (use step in blast)
  moreover have "bIsPrime p" using while_option_stop [OF p] by simp
  ultimately show ?thesis by (auto simp: I_def bIsPrime_iff)
qed

text \<open>The search always ends, at the least prime that is not below its argument.\<close>

lemma nNextPrime_least:
  "is_prime (nNextPrime n) \<and> n \<le> nNextPrime n \<and>
   (\<forall>p. is_prime p \<and> n \<le> p \<longrightarrow> nNextPrime n \<le> p)"
proof (cases "n \<le> 2")
  case True
  moreover have "is_prime 2" by (simp flip: bIsPrime_iff add: bIsPrime_def)
  moreover have "2 \<le> p" if "is_prime p" for p using that by (simp add: is_prime_def)
  ultimately show ?thesis by (simp add: nNextPrime_def)
next
  case False
  define m where "m = (if n mod 2 = 0 then n + 1 else n)"
  have "odd m" "n \<le> m" by (auto simp: m_def)
  moreover have "m \<le> p" if "is_prime p" "n \<le> p" for p
    using that False is_prime_odd [of p] by (cases "p = n") (auto simp: m_def odd_iff_mod_2_eq_one)
  ultimately obtain p where "while_option (\<lambda>c. \<not> bIsPrime c) (\<lambda>c. c + 2) m = Some p"
    "is_prime p" "n \<le> p" "\<forall>p'. is_prime p' \<and> n \<le> p' \<longrightarrow> p \<le> p'"
    using nNextPrime_while [of m n] False by auto
  then show ?thesis using False by (simp add: nNextPrime_def while_def m_def)
qed

lemma nNextPrime_prime: "is_prime (nNextPrime n)"
  and nNextPrime_ge: "n \<le> nNextPrime n"
  and nNextPrime_le: "is_prime p \<Longrightarrow> n \<le> p \<Longrightarrow> nNextPrime n \<le> p"
  using nNextPrime_least by blast+

lemma nNextPrime_eqI:
  assumes "is_prime p" "n \<le> p" "\<And>i. n \<le> i \<Longrightarrow> i < p \<Longrightarrow> \<not> is_prime i"
  shows "nNextPrime n = p"
  using assms nNextPrime_prime nNextPrime_ge nNextPrime_le
  by (metis le_neq_implies_less)

section \<open>Exponents and powers\<close>

lemma nMinExponent_loop_pos:
  assumes "nMinExponent_loop n q (q ^ e) e = r" "0 < r"
  shows "e \<le> r \<and> n \<le> q ^ r \<and> (\<forall>j. e \<le> j \<and> j < r \<longrightarrow> q ^ j < n)"
  using assms
proof (induction "MAX_MESSAGE_LENGTH - e" arbitrary: e)
  case (0)
  then show ?case
    by (subst (asm) nMinExponent_loop.simps) (auto split: if_splits)
next
  case (Suc x)
  show ?case
  proof (cases "q ^ e < n")
    case True
    with Suc.prems Suc.hyps(2) have rec: "nMinExponent_loop n q (q ^ Suc e) (Suc e) = r"
      by (subst (asm) nMinExponent_loop.simps) (auto split: if_splits simp: mult.commute)
    have "x = MAX_MESSAGE_LENGTH - Suc e" using Suc.hyps(2) by simp
    from Suc.hyps(1) [OF this rec Suc.prems(2)]
    have IH: "Suc e \<le> r" "n \<le> q ^ r" "\<forall>j. Suc e \<le> j \<and> j < r \<longrightarrow> q ^ j < n" by auto
    have "q ^ j < n" if "e \<le> j" "j < r" for j
      using that IH(3) True by (cases "j = e") auto
    with IH show ?thesis by auto
  next
    case False
    with Suc.prems show ?thesis
      by (subst (asm) nMinExponent_loop.simps) (auto split: if_splits)
  qed
qed

lemma nMinExponent_pos:
  assumes "nMinExponent n q = k" "0 < k"
  shows "n \<le> q ^ k" "\<And>j. j < k \<Longrightarrow> q ^ j < n"
  using nMinExponent_loop_pos [of n q 0 k] assms by (auto simp: nMinExponent_def)

lemma nPowMod_loop_eq:
  "nPowMod_loop m r f e mod m = (r * f ^ e) mod m"
proof (induction m r f e rule: nPowMod_loop.induct)
  case (1 m r f e)
  show ?case
  proof (cases "e = 0")
    case True
    then show ?thesis by (simp add: nPowMod_loop.simps)
  next
    case False
    let ?r = "if e mod 2 \<noteq> 0 then (r * f) mod m else r"
    have "nPowMod_loop m r f e mod m = (?r * ((f * f) mod m) ^ (e div 2)) mod m"
      using 1 False by (simp add: nPowMod_loop.simps [of m r f e])
    also have "\<dots> = (?r * (f * f) ^ (e div 2)) mod m"
      by (metis mod_mult_right_eq power_mod)
    also have "\<dots> = (r * f ^ e) mod m"
    proof (cases "e mod 2 = 0")
      case True
      then have "(f * f) ^ (e div 2) = f ^ e"
        by (metis dvd_mult_div_cancel mod_0_imp_dvd power2_eq_square power_mult)
      with True show ?thesis by simp
    next
      case odd: False
      then have "f * (f * f) ^ (e div 2) = f ^ e"
        by (metis mod2_eq_if odd_two_times_div_two_succ power2_eq_square power_Suc power_mult
            Suc_eq_plus1)
      with odd show ?thesis by (simp add: mod_mult_left_eq mult.assoc)
    qed
    finally show ?thesis .
  qed
qed

lemma nPowMod_loop_less: "1 < m \<Longrightarrow> r < m \<Longrightarrow> nPowMod_loop m r f e < m"
proof (induction m r f e rule: nPowMod_loop.induct)
  case (1 m r f e)
  then show ?case by (subst nPowMod_loop.simps) auto
qed

text \<open>Square-and-multiply computes the power.\<close>

lemma nPowMod_eq: "1 < m \<Longrightarrow> nPowMod b e m = b ^ e mod m"
proof -
  assume m: "1 < m"
  have "nPowMod b e m = nPowMod b e m mod m"
    using nPowMod_loop_less [of m 1 "b mod m" e] m by (simp add: nPowMod_def)
  also have "\<dots> = (1 * (b mod m) ^ e) mod m" by (simp add: nPowMod_def nPowMod_loop_eq)
  finally show ?thesis by (simp add: power_mod)
qed

end
