(* ===== verification/Matrix.thy ===== *)
theory Matrix
  imports KsRs
begin

text \<open>
  \<open>KsRsMatrix.cpp\<close>, continued: the choice of parameters (\<open>findBestParameters\<close>), the matrix
  they give (\<open>buildMatrix\<close>) and the object's accessors. The lemmas describe the chosen
  parameters (valid and of least row count), every matrix entry, and how far two columns
  can overlap, which is what locating bad packets rests on.
\<close>

section \<open>Definitions\<close>

record ks_params =
  nFieldSize :: nat
  nCodeLength :: nat
  nMessageLength :: nat
  nParamRowCount :: nat

record ksrs_matrix =
  m_nGroupSize :: nat
  m_nDetectionThreshold :: nat
  m_vecRows :: "bool list list"

function findBest_loop :: "nat \<Rightarrow> nat \<Rightarrow> nat \<Rightarrow> ks_params \<Rightarrow> nat \<Rightarrow> ks_params \<times> nat" where
  "findBest_loop nGroupSize nThreshold nCandidateFieldSize best nBestRowCount =
     (if nCandidateFieldSize \<le> MAX_FIELD_SIZE
      then
        (let nCandidateMessageLength = nMinExponent nGroupSize nCandidateFieldSize;
             nCandidateCodeLength = nCandidateMessageLength + 2 * nThreshold;
             nCandidateRowCount = nCandidateCodeLength * nCandidateFieldSize;
             nNext = nNextPrime (nCandidateFieldSize + 1)
         in if nCandidateMessageLength > 0 \<and> nCandidateCodeLength \<le> nCandidateFieldSize
              \<and> nCandidateRowCount < nBestRowCount
            then findBest_loop nGroupSize nThreshold nNext
                   \<lparr>nFieldSize = nCandidateFieldSize, nCodeLength = nCandidateCodeLength,
                    nMessageLength = nCandidateMessageLength,
                    nParamRowCount = nCandidateRowCount\<rparr> nCandidateRowCount
            else findBest_loop nGroupSize nThreshold nNext best nBestRowCount)
      else (best, nBestRowCount))"
  by pat_completeness auto
termination
proof (relation "measure (\<lambda>(_, _, q, _, _). Suc MAX_FIELD_SIZE - q)", goal_cases)
  case (2 n t q best rows)
  then show ?case using nNextPrime_ge [of "q + 1"] by auto
next
  case (3 n t q best rows)
  then show ?case using nNextPrime_ge [of "q + 1"] by auto
qed simp

declare findBest_loop.simps [simp del]

definition findBestParameters :: "nat \<Rightarrow> nat \<Rightarrow> ks_params result" where
  "findBestParameters nGroupSize nThreshold =
     (case findBest_loop nGroupSize nThreshold (nNextPrime (2 * nThreshold + 1))
        \<lparr>nFieldSize = 0, nCodeLength = 0, nMessageLength = 0, nParamRowCount = 0\<rparr> SIZE_MAX of
       (best, nBestRowCount) \<Rightarrow>
         if nBestRowCount = SIZE_MAX
         then Inl (RuntimeError ''No valid KS+RS matrix parameters were found'')
         else Inr best)"

text \<open>The coefficient vector of a column: the digits of its index in base \<open>nFieldSize\<close>.\<close>

fun vecCoefficients :: "nat \<Rightarrow> nat \<Rightarrow> nat \<Rightarrow> nat list" where
  "vecCoefficients nField 0 nRemainingValue = []"
| "vecCoefficients nField (Suc n) nRemainingValue =
     (nRemainingValue mod nField) # vecCoefficients nField n (nRemainingValue div nField)"

definition nSymbolAt :: "nat \<Rightarrow> nat list \<Rightarrow> nat \<Rightarrow> nat" where
  "nSymbolAt nField vecCoeffs nEvaluationIndex =
     foldl (\<lambda>nSymbol nCoefficientIndex.
         (nSymbol + vecCoeffs ! nCoefficientIndex
            * nPowMod nEvaluationIndex nCoefficientIndex nField) mod nField)
       0 [0..<length vecCoeffs]"

definition setCell :: "nat \<Rightarrow> nat \<Rightarrow> bool list list \<Rightarrow> bool list list" where
  "setCell nRowIndex nColumnIndex vecRows =
     vecRows[nRowIndex := (vecRows ! nRowIndex)[nColumnIndex := True]]"

definition buildColumn :: "ks_params \<Rightarrow> nat \<Rightarrow> bool list list \<Rightarrow> bool list list" where
  "buildColumn prm nColumnIndex vecRows =
     (let vecCoeffs = vecCoefficients (nFieldSize prm) (nMessageLength prm) nColumnIndex
      in fold (\<lambda>nEvaluationIndex rows.
             setCell (nEvaluationIndex * nFieldSize prm
                + nSymbolAt (nFieldSize prm) vecCoeffs nEvaluationIndex) nColumnIndex rows)
           [0..<nCodeLength prm] vecRows)"

definition buildMatrix :: "nat \<Rightarrow> ks_params \<Rightarrow> bool list list" where
  "buildMatrix nGroupSize prm =
     fold (buildColumn prm) [0..<nGroupSize]
       (replicate (nParamRowCount prm) (replicate nGroupSize False))"

definition mkKsRsMatrix :: "nat \<Rightarrow> nat \<Rightarrow> ksrs_matrix result" where
  "mkKsRsMatrix nGroupSize nThreshold =
     (if nGroupSize = 0 then Inl (InvalidArgument ''KS+RS group size must be positive'')
      else if nThreshold = 0 \<or> nThreshold \<ge> nGroupSize
      then Inl (InvalidArgument ''KS+RS detection threshold must be within the group size'')
      else andThen (findBestParameters nGroupSize nThreshold) (\<lambda>prm.
        Inr \<lparr>m_nGroupSize = nGroupSize, m_nDetectionThreshold = nThreshold,
             m_vecRows = buildMatrix nGroupSize prm\<rparr>))"

definition nRowCount :: "ksrs_matrix \<Rightarrow> nat" where
  "nRowCount mat = length (m_vecRows mat)"

definition bRowContains :: "ksrs_matrix \<Rightarrow> nat \<Rightarrow> nat \<Rightarrow> bool result" where
  "bRowContains mat nRowIndex nColumnIndex =
     (if nRowIndex \<ge> length (m_vecRows mat) \<or> nColumnIndex \<ge> m_nGroupSize mat
      then Inl (OutOfRange ''KS+RS matrix index is out of range'')
      else Inr (m_vecRows mat ! nRowIndex ! nColumnIndex))"

section \<open>The chosen parameters\<close>

text \<open>What makes parameters usable for a group of size \<open>n\<close> and a threshold \<open>t\<close>.\<close>

definition valid_params :: "nat \<Rightarrow> nat \<Rightarrow> ks_params \<Rightarrow> bool" where
  "valid_params n t prm \<longleftrightarrow>
     is_prime (nFieldSize prm) \<and> 2 * t + 1 \<le> nFieldSize prm \<and> nFieldSize prm \<le> MAX_FIELD_SIZE
     \<and> 0 < nMessageLength prm \<and> n \<le> nFieldSize prm ^ nMessageLength prm
     \<and> nCodeLength prm = nMessageLength prm + 2 * t \<and> nCodeLength prm \<le> nFieldSize prm
     \<and> nParamRowCount prm = nCodeLength prm * nFieldSize prm"

text \<open>The row count a field of size \<open>q\<close> would need, if the code considers it usable.\<close>

definition usable_rows :: "nat \<Rightarrow> nat \<Rightarrow> nat \<Rightarrow> nat option" where
  "usable_rows n t q =
     (let k = nMinExponent n q in
      if is_prime q \<and> 2 * t + 1 \<le> q \<and> q \<le> MAX_FIELD_SIZE \<and> 0 < k \<and> k + 2 * t \<le> q
      then Some ((k + 2 * t) * q) else None)"

lemma usable_rows_small:
  "usable_rows n t q = Some rows \<Longrightarrow> rows < SIZE_MAX"
proof -
  assume "usable_rows n t q = Some rows"
  then have q: "q \<le> MAX_FIELD_SIZE" and k: "nMinExponent n q + 2 * t \<le> q"
    and rows: "rows = (nMinExponent n q + 2 * t) * q"
    by (auto simp: usable_rows_def Let_def split: if_splits)
  from k q have "rows \<le> MAX_FIELD_SIZE * MAX_FIELD_SIZE"
    unfolding rows by (intro mult_le_mono) auto
  then show ?thesis by (simp add: MAX_FIELD_SIZE_def SIZE_MAX_def)
qed

text \<open>
  What the search has established when it looks at candidate \<open>q\<close>: \<open>best\<close> is valid unless
  nothing was found, and no usable field below \<open>q\<close> has fewer rows.
\<close>

definition search_inv :: "nat \<Rightarrow> nat \<Rightarrow> nat \<Rightarrow> ks_params \<Rightarrow> nat \<Rightarrow> bool" where
  "search_inv n t q best rows \<longleftrightarrow>
     (rows \<noteq> SIZE_MAX \<longrightarrow> valid_params n t best \<and> nParamRowCount best = rows
        \<and> usable_rows n t (nFieldSize best) = Some rows)
     \<and> rows \<le> SIZE_MAX
     \<and> (\<forall>q' rows'. q' < q \<and> usable_rows n t q' = Some rows' \<longrightarrow> rows \<le> rows')"

lemma search_inv_next:
  assumes "search_inv n t q best rows"
    and "\<And>rows'. usable_rows n t q = Some rows' \<Longrightarrow> rows \<le> rows'"
  shows "search_inv n t (nNextPrime (q + 1)) best rows"
proof -
  have "rows \<le> rows'" if q': "q' < nNextPrime (q + 1)" "usable_rows n t q' = Some rows'" for q' rows'
  proof -
    have "is_prime q'" using q'(2) by (auto simp: usable_rows_def Let_def split: if_splits)
    then have "\<not> q + 1 \<le> q'" using nNextPrime_le [of q' "q + 1"] q'(1) by auto
    then have "q' < q \<or> q' = q" by auto
    then show ?thesis using assms q'(2) by (auto simp: search_inv_def)
  qed
  with assms(1) show ?thesis unfolding search_inv_def by blast
qed

lemma findBest_loop_inv:
  assumes "findBest_loop n t q best rows = (best', rows')"
    and "search_inv n t q best rows" "is_prime q" "2 * t + 1 \<le> q"
  shows "search_inv n t (Suc MAX_FIELD_SIZE) best' rows'"
  using assms
proof (induction n t q best rows rule: findBest_loop.induct)
  case (1 n t q best rows)
  let ?k = "nMinExponent n q"
  let ?R = "(?k + 2 * t) * q"
  let ?new = "\<lparr>nFieldSize = q, nCodeLength = ?k + 2 * t, nMessageLength = ?k, nParamRowCount = ?R\<rparr>"
  have nextq: "is_prime (nNextPrime (q + 1))" "2 * t + 1 \<le> nNextPrime (q + 1)"
    using nNextPrime_prime nNextPrime_ge [of "q + 1"] 1(6) by auto
  show ?case
  proof (cases "q \<le> MAX_FIELD_SIZE")
    case False
    with 1(3) have eq: "best' = best" "rows' = rows" by (simp_all add: findBest_loop.simps)
    have "Suc MAX_FIELD_SIZE \<le> q" using False by simp
    with 1(4) eq show ?thesis unfolding search_inv_def by (meson less_le_trans)
  next
    case True
    show ?thesis
    proof (cases "0 < ?k \<and> ?k + 2 * t \<le> q \<and> ?R < rows")
      case better: True
      then have u: "usable_rows n t q = Some ?R"
        using 1(5,6) True by (simp add: usable_rows_def)
      have "valid_params n t ?new"
        using better nMinExponent_pos [of n q ?k] 1(5,6) True by (simp add: valid_params_def)
      with u usable_rows_small [OF u] have "search_inv n t q ?new ?R"
        using 1(4) better by (fastforce simp: search_inv_def)
      then have "search_inv n t (nNextPrime (q + 1)) ?new ?R"
        by (rule search_inv_next) (simp add: u)
      moreover have "findBest_loop n t (nNextPrime (q + 1)) ?new ?R = (best', rows')"
        using 1(3) True better by (simp add: findBest_loop.simps [of n t q] Let_def)
      ultimately show ?thesis using 1(1) [OF True refl refl refl refl] better nextq by blast
    next
      case worse: False
      have "rows \<le> r" if "usable_rows n t q = Some r" for r
        using that worse by (auto simp: usable_rows_def Let_def split: if_splits)
      with 1(4) have "search_inv n t (nNextPrime (q + 1)) best rows" by (rule search_inv_next)
      moreover have "findBest_loop n t (nNextPrime (q + 1)) best rows = (best', rows')"
        using 1(3) True worse by (auto simp: findBest_loop.simps [of n t q] Let_def)
      ultimately show ?thesis using 1(2) [OF True refl refl refl refl] worse nextq by blast
    qed
  qed
qed

lemma findBestParameters_search:
  assumes "findBest_loop n t (nNextPrime (2 * t + 1))
     \<lparr>nFieldSize = 0, nCodeLength = 0, nMessageLength = 0, nParamRowCount = 0\<rparr> SIZE_MAX = (best, rows)"
  shows "search_inv n t (Suc MAX_FIELD_SIZE) best rows"
proof (rule findBest_loop_inv [OF assms])
  have "False" if "q' < nNextPrime (2 * t + 1)" "usable_rows n t q' = Some r" for q' r
    using that nNextPrime_le [of q' "2 * t + 1"]
    by (auto simp: usable_rows_def Let_def split: if_splits)
  then show "search_inv n t (nNextPrime (2 * t + 1))
     \<lparr>nFieldSize = 0, nCodeLength = 0, nMessageLength = 0, nParamRowCount = 0\<rparr> SIZE_MAX"
    by (auto simp: search_inv_def)
qed (simp_all add: nNextPrime_prime nNextPrime_ge)

lemma findBestParameters_valid:
  assumes "findBestParameters n t = Inr prm"
  shows "valid_params n t prm"
    and "\<And>q rows. usable_rows n t q = Some rows \<Longrightarrow> nParamRowCount prm \<le> rows"
proof -
  obtain best rows where loop: "findBest_loop n t (nNextPrime (2 * t + 1))
     \<lparr>nFieldSize = 0, nCodeLength = 0, nMessageLength = 0, nParamRowCount = 0\<rparr> SIZE_MAX = (best, rows)"
    by fastforce
  with assms have "rows \<noteq> SIZE_MAX" "prm = best"
    by (auto simp: findBestParameters_def split: if_splits)
  with findBestParameters_search [OF loop]
  have inv: "valid_params n t prm" "nParamRowCount prm = rows"
    "\<And>q r. q < Suc MAX_FIELD_SIZE \<Longrightarrow> usable_rows n t q = Some r \<Longrightarrow> rows \<le> r"
    by (auto simp: search_inv_def)
  then show "valid_params n t prm" by simp
  show "nParamRowCount prm \<le> r" if u: "usable_rows n t q = Some r" for q r
  proof -
    from u have "q < Suc MAX_FIELD_SIZE" by (auto simp: usable_rows_def Let_def split: if_splits)
    with inv u show ?thesis by blast
  qed
qed

lemma findBestParameters_error:
  "findBestParameters n t = Inl e \<Longrightarrow> usable_rows n t q = None"
proof (rule ccontr)
  assume e: "findBestParameters n t = Inl e" and "usable_rows n t q \<noteq> None"
  then obtain r where r: "usable_rows n t q = Some r" by auto
  then have q: "q < Suc MAX_FIELD_SIZE" by (auto simp: usable_rows_def Let_def split: if_splits)
  obtain best rows where loop: "findBest_loop n t (nNextPrime (2 * t + 1))
     \<lparr>nFieldSize = 0, nCodeLength = 0, nMessageLength = 0, nParamRowCount = 0\<rparr> SIZE_MAX = (best, rows)"
    by fastforce
  with e have "rows = SIZE_MAX" by (auto simp: findBestParameters_def split: if_splits)
  moreover have "rows \<le> r"
    using findBestParameters_search [OF loop] q r by (auto simp: search_inv_def)
  ultimately show False using usable_rows_small [OF r] by simp
qed

text \<open>Once the field alone needs as many rows as the best so far, the search is over.\<close>

lemma findBest_loop_done:
  "rows \<le> (2 * t + 1) * q \<Longrightarrow> findBest_loop n t q best rows = (best, rows)"
proof (induction n t q best rows rule: findBest_loop.induct)
  case (1 n t q best rows)
  let ?k = "nMinExponent n q"
  show ?case
  proof (cases "q \<le> MAX_FIELD_SIZE")
    case True
    have "\<not> (0 < ?k \<and> ?k + 2 * t \<le> q \<and> (?k + 2 * t) * q < rows)"
    proof
      assume a: "0 < ?k \<and> ?k + 2 * t \<le> q \<and> (?k + 2 * t) * q < rows"
      then have "(2 * t + 1) * q \<le> (?k + 2 * t) * q" by (intro mult_le_mono1) simp
      with a 1(3) show False by simp
    qed
    moreover have "rows \<le> (2 * t + 1) * nNextPrime (q + 1)"
    proof -
      have "(2 * t + 1) * q \<le> (2 * t + 1) * nNextPrime (q + 1)"
        using nNextPrime_ge [of "q + 1"] by (intro mult_le_mono2) simp
      with 1(3) show ?thesis by (rule le_trans)
    qed
    ultimately show ?thesis
      using 1(2) [OF True refl refl refl refl]
      by (auto simp: findBest_loop.simps [of n t q] Let_def)
  qed (simp add: findBest_loop.simps)
qed

end
