(* ===== verification/Disjunct.thy ===== *)
theory Disjunct
  imports Matrix
begin

text \<open>
  Why the matrix of \<open>KsRsMatrix.cpp\<close> separates packets: every column carries one cell per
  evaluation point, two distinct columns are distinct polynomials over a prime field and
  share at most \<open>nMessageLength - 1\<close> cells, so a good column keeps a row of its own against
  any \<open>t\<close> others as long as \<open>t * (nMessageLength - 1) < nCodeLength\<close>.
\<close>

section \<open>Polynomials over a prime field\<close>

fun horner :: "int list \<Rightarrow> int \<Rightarrow> int" where
  "horner [] x = 0"
| "horner (a # as) x = a + x * horner as x"

text \<open>The values of the suffixes at \<open>r\<close>: the quotient of the division by \<open>X - r\<close>.\<close>

fun suffixes_at :: "int \<Rightarrow> int list \<Rightarrow> int list" where
  "suffixes_at r [] = []"
| "suffixes_at r (a # as) = horner (a # as) r # suffixes_at r as"

lemma length_suffixes_at [simp]: "length (suffixes_at r as) = length as"
  by (induction as) auto

lemma horner_division:
  "horner (a # as) x = (x - r) * horner (suffixes_at r as) x + horner (a # as) r"
proof (induction as arbitrary: a)
  case Nil
  then show ?case by simp
next
  case (Cons b bs)
  define H S where "H = horner (b # bs) r" and "S = horner (suffixes_at r bs) x"
  have IH: "horner (b # bs) x = (x - r) * S + H"
    unfolding H_def S_def by (rule Cons)
  have "horner (a # b # bs) x = a + x * horner (b # bs) x" by (rule horner.simps)
  also have "\<dots> = (x - r) * (H + x * S) + (a + r * H)"
    unfolding IH by (simp add: algebra_simps)
  also have "H + x * S = horner (suffixes_at r (b # bs)) x" by (simp add: H_def S_def)
  also have "a + r * H = horner (a # b # bs) r" by (simp add: H_def)
  finally show ?case .
qed

lemma suffixes_at_dvd:
  assumes "\<forall>b \<in> set (suffixes_at r as). p dvd b"
  shows "\<forall>a \<in> set as. p dvd a"
  using assms
proof (induction as)
  case Nil
  then show ?case by simp
next
  case (Cons a as)
  have "p dvd horner as r"
    using Cons.prems by (cases as) auto
  moreover have "p dvd a + r * horner as r" using Cons.prems by simp
  ultimately have "p dvd a" by (metis dvd_add_left_iff dvd_mult)
  with Cons show ?case by simp
qed

definition roots :: "nat \<Rightarrow> int list \<Rightarrow> nat set" where
  "roots p as = {x. x < p \<and> int p dvd horner as (int x)}"

lemma finite_roots [simp]: "finite (roots p as)"
  by (rule finite_subset [of _ "{..<p}"]) (auto simp: roots_def)

text \<open>A polynomial that is not zero modulo a prime has fewer roots than coefficients.\<close>

lemma card_roots:
  assumes "is_prime p" "\<not> (\<forall>a \<in> set as. int p dvd a)"
  shows "card (roots p as) < length as"
  using assms(2)
proof (induction "length as" arbitrary: as)
  case 0
  then show ?case by simp
next
  case (Suc k)
  then obtain a bs where as: "as = a # bs" and k: "k = length bs" by (cases as) auto
  show ?case
  proof (cases "roots p as = {}")
    case True
    then show ?thesis using as by simp
  next
    case False
    then obtain r where r: "r < p" "int p dvd horner as (int r)" by (auto simp: roots_def)
    let ?qs = "suffixes_at (int r) bs"
    have "\<not> (\<forall>b \<in> set ?qs. int p dvd b)"
    proof
      assume all: "\<forall>b \<in> set ?qs. int p dvd b"
      then have "\<forall>b \<in> set (suffixes_at (int r) as). int p dvd b" using r as by simp
      then have "\<forall>a \<in> set as. int p dvd a" by (rule suffixes_at_dvd)
      with Suc.prems show False by simp
    qed
    with Suc.hyps(1) [of ?qs] k have IH: "card (roots p ?qs) < length bs" by simp
    have "roots p as \<subseteq> insert r (roots p ?qs)"
    proof
      fix x assume x: "x \<in> roots p as"
      then have xp: "x < p" "int p dvd horner as (int x)" by (auto simp: roots_def)
      have "horner as (int x) = (int x - int r) * horner ?qs (int x) + horner as (int r)"
        unfolding as by (rule horner_division)
      with xp r(2) have "int p dvd (int x - int r) * horner ?qs (int x)"
        by (metis dvd_add_left_iff)
      with assms(1) have "int p dvd int x - int r \<or> int p dvd horner ?qs (int x)"
        by (rule is_prime_dvd_mult_int)
      moreover have "x = r" if "int p dvd int x - int r"
        using that xp(1) r(1) zdvd_not_zless [of "int x - int r" "int p"]
          zdvd_not_zless [of "int r - int x" "int p"] dvd_diff_commute [of "int p"]
        by (cases "int x < int r"; cases "int r < int x") auto
      ultimately show "x \<in> insert r (roots p ?qs)" using xp by (auto simp: roots_def)
    qed
    then have "card (roots p as) \<le> card (insert r (roots p ?qs))"
      by (rule card_mono [rotated]) simp
    also have "\<dots> \<le> Suc (card (roots p ?qs))" by (rule card_insert_le_m1) simp_all
    finally show ?thesis using IH as by simp
  qed
qed

section \<open>Columns as polynomials\<close>

lemma length_vecCoefficients [simp]: "length (vecCoefficients q k c) = k"
  by (induction k arbitrary: c) auto

lemma vecCoefficients_less: "0 < q \<Longrightarrow> x \<in> set (vecCoefficients q k c) \<Longrightarrow> x < q"
  by (induction k arbitrary: c) auto

lemma vecCoefficients_inject:
  "0 < q \<Longrightarrow> c < q ^ k \<Longrightarrow> c' < q ^ k \<Longrightarrow>
   vecCoefficients q k c = vecCoefficients q k c' \<longleftrightarrow> c = c'"
proof (induction k arbitrary: c c')
  case 0
  then show ?case by simp
next
  case (Suc k)
  have "c div q < q ^ k" "c' div q < q ^ k"
    using Suc.prems by (auto simp: less_mult_imp_div_less mult.commute)
  with Suc.IH Suc.prems(1) have "vecCoefficients q k (c div q) = vecCoefficients q k (c' div q)
    \<longleftrightarrow> c div q = c' div q" by blast
  then show ?case by (auto) (metis div_mult_mod_eq)
qed

lemma horner_sum:
  "horner (map int cs) x = (\<Sum>i < length cs. int (cs ! i) * x ^ i)"
proof (induction cs)
  case Nil
  then show ?case by simp
next
  case (Cons c cs)
  then show ?case
    by (simp add: sum.lessThan_Suc_shift sum_distrib_left mult_ac del: sum.lessThan_Suc)
qed

lemma nSymbolAt_foldl:
  assumes "1 < q"
  shows "foldl (\<lambda>s i. (s + cs ! i * nPowMod e i q) mod q) 0 [0..<m] = (\<Sum>i < m. cs ! i * e ^ i) mod q"
proof (induction m)
  case 0
  then show ?case by simp
next
  case (Suc m)
  have "(cs ! m * nPowMod e m q) mod q = (cs ! m * e ^ m) mod q"
    using assms by (simp add: nPowMod_eq mod_mult_right_eq)
  then have "((\<Sum>i < m. cs ! i * e ^ i) mod q + cs ! m * nPowMod e m q) mod q
    = ((\<Sum>i < m. cs ! i * e ^ i) + cs ! m * e ^ m) mod q"
    by (intro mod_add_cong) simp_all
  with Suc show ?case by simp
qed

lemma nSymbolAt_horner:
  assumes "1 < q"
  shows "int (nSymbolAt q cs e) = horner (map int cs) (int e) mod int q"
proof -
  have "nSymbolAt q cs e = (\<Sum>i < length cs. cs ! i * e ^ i) mod q"
    unfolding nSymbolAt_def using assms by (rule nSymbolAt_foldl)
  then show ?thesis by (simp add: horner_sum zmod_int)
qed

lemma nSymbolAt_less: "1 < q \<Longrightarrow> nSymbolAt q cs e < q"
  by (simp add: nSymbolAt_def nSymbolAt_foldl)

text \<open>Distinct columns agree at fewer than \<open>k\<close> of the evaluation points.\<close>

lemma horner_diff:
  "length as = length bs \<Longrightarrow>
   horner (map2 (-) as bs) x = horner as x - horner bs x"
  by (induction as bs rule: list_induct2) (simp_all add: right_diff_distrib)

lemma dvd_diff_small:
  assumes "int q dvd int x - int y" "x < q" "y < q"
  shows "x = y"
proof -
  have "int x mod int q = int y mod int q" using assms(1) by (simp add: mod_eq_dvd_iff)
  then have "int (x mod q) = int (y mod q)" by (simp add: of_nat_mod)
  with assms(2,3) show ?thesis by simp
qed

lemma agreement_small:
  assumes q: "is_prime q" and c: "c < q ^ k" "c' < q ^ k" "c \<noteq> c'"
  shows "card {e. e < q \<and> nSymbolAt q (vecCoefficients q k c) e
                        = nSymbolAt q (vecCoefficients q k c') e} < k"
proof -
  have q1: "1 < q" using q by (simp add: is_prime_def)
  let ?a = "map int (vecCoefficients q k c)" and ?b = "map int (vecCoefficients q k c')"
  let ?d = "map2 (-) ?a ?b"
  have "\<not> (\<forall>x \<in> set ?d. int q dvd x)"
  proof
    assume all: "\<forall>x \<in> set ?d. int q dvd x"
    have "vecCoefficients q k c = vecCoefficients q k c'"
    proof (rule nth_equalityI)
      fix i assume i: "i < length (vecCoefficients q k c)"
      let ?x = "vecCoefficients q k c ! i" and ?y = "vecCoefficients q k c' ! i"
      from i have "?d ! i = int ?x - int ?y" "i < length ?d" by simp_all
      then have "int ?x - int ?y \<in> set ?d" by (metis nth_mem)
      with all have "int q dvd int ?x - int ?y" by blast
      moreover have "?x < q" "?y < q"
        using i q1 by (simp_all add: vecCoefficients_less [OF _ nth_mem])
      ultimately show "?x = ?y"
        by (rule dvd_diff_small)
    qed simp
    with c q1 show False using vecCoefficients_inject [of q c k c'] by simp
  qed
  with q have "card (roots q ?d) < length ?d" by (rule card_roots)
  moreover have "card {e. e < q \<and> nSymbolAt q (vecCoefficients q k c) e
      = nSymbolAt q (vecCoefficients q k c') e} \<le> card (roots q ?d)"
  proof (rule card_mono [OF finite_roots], clarify)
    fix e assume e: "e < q" and eq: "nSymbolAt q (vecCoefficients q k c) e
      = nSymbolAt q (vecCoefficients q k c') e"
    have "horner ?a (int e) mod int q = horner ?b (int e) mod int q"
      using eq q1 by (metis nSymbolAt_horner)
    then have "int q dvd horner ?a (int e) - horner ?b (int e)" by (simp add: mod_eq_dvd_iff)
    then have "int q dvd horner ?d (int e)" by (subst horner_diff) simp_all
    with e show "e \<in> roots q ?d" by (simp add: roots_def)
  qed
  ultimately show ?thesis by simp
qed

section \<open>The entries of the matrix\<close>

definition shape :: "nat \<Rightarrow> nat \<Rightarrow> bool list list \<Rightarrow> bool" where
  "shape nRows nColumns rows \<longleftrightarrow> length rows = nRows \<and> (\<forall>r < nRows. length (rows ! r) = nColumns)"

lemma shape_setCell: "shape R n rows \<Longrightarrow> shape R n (setCell r c rows)"
  by (cases "r < R") (auto simp: shape_def setCell_def nth_list_update)

lemma setCell_nth:
  "shape R n rows \<Longrightarrow> r < R \<Longrightarrow> c < n \<Longrightarrow> r' < R \<Longrightarrow>
   setCell r c rows ! r' ! c' = (rows ! r' ! c' \<or> (r' = r \<and> c' = c))"
  by (auto simp: shape_def setCell_def nth_list_update)

lemma setCells_nth:
  assumes "shape R n rows" "c < n" "\<And>e. e \<in> set es \<Longrightarrow> row e < R" "r < R"
  shows "shape R n (fold (\<lambda>e. setCell (row e) c) es rows)
    \<and> fold (\<lambda>e. setCell (row e) c) es rows ! r ! c'
      = (rows ! r ! c' \<or> (c' = c \<and> (\<exists>e \<in> set es. r = row e)))"
  using assms
proof (induction es arbitrary: rows)
  case Nil
  then show ?case by simp
next
  case (Cons e es)
  then have "shape R n (setCell (row e) c rows)" by (simp add: shape_setCell)
  with Cons show ?case by (auto simp: setCell_nth [OF Cons.prems(1)])
qed

text \<open>The row a column occupies at an evaluation point.\<close>

definition row_at :: "ks_params \<Rightarrow> nat \<Rightarrow> nat \<Rightarrow> nat" where
  "row_at prm c e = e * nFieldSize prm
     + nSymbolAt (nFieldSize prm) (vecCoefficients (nFieldSize prm) (nMessageLength prm) c) e"

lemma mult_add_less: "e < L \<Longrightarrow> s < q \<Longrightarrow> e * q + s < L * q" for e L s q :: nat
proof -
  assume "e < L" "s < q"
  then have "e * q + s < Suc e * q" "Suc e * q \<le> L * q"
    by (simp, intro mult_le_mono1, simp)
  then show ?thesis by linarith
qed

lemma row_at_less:
  "valid_params n t prm \<Longrightarrow> e < nCodeLength prm \<Longrightarrow> row_at prm c e < nParamRowCount prm"
  unfolding row_at_def valid_params_def
  using mult_add_less nSymbolAt_less by (auto simp: is_prime_def)

lemma row_at_inject:
  assumes "valid_params n t prm" "row_at prm c e = row_at prm c' e'"
  shows "e = e' \<and> nSymbolAt (nFieldSize prm) (vecCoefficients (nFieldSize prm) (nMessageLength prm) c) e
    = nSymbolAt (nFieldSize prm) (vecCoefficients (nFieldSize prm) (nMessageLength prm) c') e'"
proof -
  let ?q = "nFieldSize prm"
  have q: "1 < ?q" using assms(1) by (simp add: valid_params_def is_prime_def)
  have "row_at prm c e div ?q = e" "row_at prm c' e' div ?q = e'"
    using nSymbolAt_less [OF q] q by (simp_all add: row_at_def div_mult_self3)
  with assms(2) show ?thesis by (simp add: row_at_def)
qed

lemma buildColumn_nth:
  assumes "valid_params n t prm" "shape (nParamRowCount prm) n rows" "c < n" "r < nParamRowCount prm"
  shows "shape (nParamRowCount prm) n (buildColumn prm c rows)
    \<and> buildColumn prm c rows ! r ! c'
      = (rows ! r ! c' \<or> (c' = c \<and> (\<exists>e < nCodeLength prm. r = row_at prm c e)))"
  using setCells_nth [OF assms(2,3), of "[0..<nCodeLength prm]" "row_at prm c" r c']
    row_at_less [OF assms(1)] assms(4)
  by (auto simp: buildColumn_def Let_def row_at_def)

lemma buildMatrix_fold:
  assumes "valid_params n t prm" "r < nParamRowCount prm" "m \<le> n"
  shows "shape (nParamRowCount prm) n (fold (buildColumn prm) [0..<m]
       (replicate (nParamRowCount prm) (replicate n False)))
    \<and> (\<forall>c < n. fold (buildColumn prm) [0..<m]
       (replicate (nParamRowCount prm) (replicate n False)) ! r ! c
      = (c < m \<and> (\<exists>e < nCodeLength prm. r = row_at prm c e)))"
  using assms(3)
proof (induction m)
  case 0
  then show ?case using assms(2) by (simp add: shape_def)
next
  case (Suc m)
  let ?rows = "fold (buildColumn prm) [0..<m] (replicate (nParamRowCount prm) (replicate n False))"
  from Suc have IH: "shape (nParamRowCount prm) n ?rows"
    "\<forall>c < n. ?rows ! r ! c = (c < m \<and> (\<exists>e < nCodeLength prm. r = row_at prm c e))"
    by auto
  with Suc.prems buildColumn_nth [OF assms(1) IH(1) _ assms(2), of m]
  show ?case by (auto simp: less_Suc_eq)
qed

text \<open>A cell is set exactly where the column's polynomial takes the row's symbol.\<close>

lemma buildMatrix_nth:
  assumes "valid_params n t prm" "r < nParamRowCount prm" "c < n"
  shows "buildMatrix n prm ! r ! c \<longleftrightarrow> (\<exists>e < nCodeLength prm. r = row_at prm c e)"
  using buildMatrix_fold [OF assms(1,2), of n] assms(3) by (simp add: buildMatrix_def)

lemma shape_buildMatrix:
  assumes "valid_params n t prm"
  shows "shape (nParamRowCount prm) n (buildMatrix n prm)"
proof -
  have "0 < nParamRowCount prm"
    using assms by (auto simp: valid_params_def is_prime_def)
  from buildMatrix_fold [OF assms this, of n] show ?thesis by (simp add: buildMatrix_def)
qed

section \<open>Overlap of columns\<close>

text \<open>The rows of a column, as evaluation points of the others' agreement.\<close>

lemma shared_rows_small:
  assumes prm: "valid_params n t prm" and c: "c < n" "c' < n" "c \<noteq> c'"
  shows "card {e. e < nCodeLength prm \<and> buildMatrix n prm ! row_at prm c e ! c'}
    < nMessageLength prm"
proof -
  let ?q = "nFieldSize prm" and ?k = "nMessageLength prm"
  have q: "is_prime ?q" "n \<le> ?q ^ ?k" "nCodeLength prm \<le> ?q"
    using prm by (auto simp: valid_params_def)
  let ?A = "{e. e < ?q \<and> nSymbolAt ?q (vecCoefficients ?q ?k c) e
                        = nSymbolAt ?q (vecCoefficients ?q ?k c') e}"
  have "{e. e < nCodeLength prm \<and> buildMatrix n prm ! row_at prm c e ! c'} \<subseteq> ?A"
  proof clarify
    fix e assume e: "e < nCodeLength prm" and "buildMatrix n prm ! row_at prm c e ! c'"
    with buildMatrix_nth [OF prm row_at_less [OF prm e] c(2)]
    obtain e' where "row_at prm c e = row_at prm c' e'" by blast
    from row_at_inject [OF prm this] e q(3)
    show "e < ?q \<and> nSymbolAt ?q (vecCoefficients ?q ?k c) e
            = nSymbolAt ?q (vecCoefficients ?q ?k c') e" by auto
  qed
  then have "card {e. e < nCodeLength prm \<and> buildMatrix n prm ! row_at prm c e ! c'} \<le> card ?A"
    by (rule card_mono [rotated]) simp
  also have "card ?A < ?k"
    using q c by (intro agreement_small) auto
  finally show ?thesis .
qed

text \<open>
  Against any set of columns whose size times \<open>nMessageLength - 1\<close> is below the code length,
  a column outside the set keeps a row that none of them occupies.
\<close>

lemma private_row:
  assumes prm: "valid_params n t prm" and c: "c < n" "c \<notin> B" and B: "B \<subseteq> {..<n}"
    and small: "card B * (nMessageLength prm - 1) < nCodeLength prm"
  obtains r where "r < nParamRowCount prm" "buildMatrix n prm ! r ! c"
    "\<And>b. b \<in> B \<Longrightarrow> \<not> buildMatrix n prm ! r ! b"
proof -
  let ?M = "buildMatrix n prm" and ?L = "nCodeLength prm"
  let ?hit = "\<lambda>b. {e. e < ?L \<and> ?M ! row_at prm c e ! b}"
  have fin: "finite B" using B finite_subset by blast
  have "card (\<Union>b \<in> B. ?hit b) \<le> (\<Sum>b \<in> B. card (?hit b))" by (rule card_UN_le [OF fin])
  also have "\<dots> \<le> (\<Sum>b \<in> B. nMessageLength prm - 1)"
  proof (rule sum_mono)
    fix b assume "b \<in> B"
    then have "b < n" "c \<noteq> b" using B c(2) by auto
    from shared_rows_small [OF prm c(1) this] show "card (?hit b) \<le> nMessageLength prm - 1" by simp
  qed
  also have "\<dots> = card B * (nMessageLength prm - 1)" by simp
  finally have "card (\<Union>b \<in> B. ?hit b) < card {..<?L}" using small by simp
  moreover have "finite (\<Union>b \<in> B. ?hit b)" using fin by simp
  ultimately have "\<not> {..<?L} \<subseteq> (\<Union>b \<in> B. ?hit b)"
    using card_mono not_less by blast
  then obtain e where e: "e < ?L" "e \<notin> (\<Union>b \<in> B. ?hit b)" by blast
  show thesis
  proof (rule that)
    show "row_at prm c e < nParamRowCount prm" using prm e(1) by (rule row_at_less)
    show "?M ! row_at prm c e ! c"
      using buildMatrix_nth [OF prm row_at_less [OF prm e(1)] c(1)] e(1) by blast
    show "\<not> ?M ! row_at prm c e ! b" if "b \<in> B" for b using e that by blast
  qed
qed

end
