(* ===== verification/Bytes.thy ===== *)
theory Bytes
  imports Prelude
begin

text \<open>
  Byte buffers and their big-endian fields: \<open>BinaryCodecUtilities.h\<close> (the append functions
  and \<open>BinaryReader\<close>) and the fixed 32-byte block \<open>std::array<std::uint8_t, 32>\<close> that
  \<open>CryptoTypes.h\<close> calls \<open>Digest\<close>, \<open>ProtocolTypes.h\<close> calls \<open>BinaryBlock\<close> and the
  packet inputs and workloads call \<open>Message\<close>. The locale \<open>field_codec\<close> is the contract
  between an append function and its read function; every field type interprets it.
\<close>

section \<open>The 32-byte block\<close>

typedef block = "{xs :: byte list. length xs = 32}"
  morphisms block_bytes Abs_block
  by (rule exI [of _ "replicate 32 0"]) simp

text \<open>
  \<open>block_of xs\<close> is \<open>std::array<uint8_t, 32> a{}; std::copy(xs, a)\<close>: the bytes of \<open>xs\<close>,
  zero-filled to 32.
\<close>

definition block_of :: "byte list \<Rightarrow> block" where
  "block_of xs = Abs_block (take 32 (xs @ replicate 32 0))"

lemma length_block_bytes [simp]: "length (block_bytes b) = 32"
  using block_bytes [of b] by simp

lemma block_bytes_block_of: "block_bytes (block_of xs) = take 32 (xs @ replicate 32 0)"
  unfolding block_of_def by (subst Abs_block_inverse) auto

lemma block_bytes_block_of_32 [simp]: "length xs = 32 \<Longrightarrow> block_bytes (block_of xs) = xs"
  by (simp add: block_bytes_block_of)

lemma block_of_block_bytes [simp]: "block_of (block_bytes b) = b"
  by (simp add: block_bytes_block_of flip: block_bytes_inject)

text \<open>Blocks evaluate through their bytes.\<close>

lemma block_code [code abstype]: "Abs_block (block_bytes b) = b"
  by (rule block_bytes_inverse)

declare block_bytes_block_of [code]

lemma block_bytes_eq_iff: "block_bytes a = block_bytes b \<longleftrightarrow> a = b"
  by (rule block_bytes_inject)

lemma block_bytes_ne_Nil [simp]: "block_bytes b \<noteq> []"
  by (metis length_block_bytes list.size(3) zero_neq_numeral)

instantiation block :: equal
begin

definition equal_block :: "block \<Rightarrow> block \<Rightarrow> bool" where
  "equal_block a b \<longleftrightarrow> block_bytes a = block_bytes b"

instance
  by standard (simp add: equal_block_def block_bytes_eq_iff)

end

section \<open>Appending big-endian integers\<close>

definition appendBytes :: "byte list \<Rightarrow> byte list \<Rightarrow> byte list" where
  "appendBytes vecOutput pData = vecOutput @ pData"

definition appendUint16 :: "byte list \<Rightarrow> u16 \<Rightarrow> byte list" where
  "appendUint16 vecOutput v =
     vecOutput @ [ucast (drop_bit 8 v AND 0xFF), ucast (v AND 0xFF)]"

definition appendUint32 :: "byte list \<Rightarrow> u32 \<Rightarrow> byte list" where
  "appendUint32 vecOutput v =
     vecOutput @ [ucast (drop_bit 24 v AND 0xFF), ucast (drop_bit 16 v AND 0xFF),
                  ucast (drop_bit 8 v AND 0xFF), ucast (v AND 0xFF)]"

definition appendUint64 :: "byte list \<Rightarrow> u64 \<Rightarrow> byte list" where
  "appendUint64 vecOutput v =
     fold (\<lambda>nShift out. out @ [ucast (drop_bit nShift v AND 0xFF)])
       [56, 48, 40, 32, 24, 16, 8, 0] vecOutput"

definition appendBlock :: "byte list \<Rightarrow> block \<Rightarrow> byte list" where
  "appendBlock vecOutput arrBlock = appendBytes vecOutput (block_bytes arrBlock)"

lemma append_into_empty:
  "appendBytes out xs = out @ appendBytes [] xs"
  "appendUint16 out a = out @ appendUint16 [] a"
  "appendUint32 out b = out @ appendUint32 [] b"
  "appendUint64 out c = out @ appendUint64 [] c"
  "appendBlock out d = out @ appendBlock [] d"
  by (simp_all add: appendBytes_def appendUint16_def appendUint32_def appendUint64_def
      appendBlock_def)

lemma length_append_fields [simp]:
  "length (appendBytes out xs) = length out + length xs"
  "length (appendUint16 out a) = length out + 2"
  "length (appendUint32 out b) = length out + 4"
  "length (appendUint64 out c) = length out + 8"
  "length (appendBlock out d) = length out + 32"
  by (simp_all add: appendBytes_def appendUint16_def appendUint32_def appendUint64_def
      appendBlock_def)

section \<open>The reader\<close>

text \<open>
  \<open>BinaryReader\<close>: a buffer and an offset into it. Every read first checks that enough
  bytes remain and throws \<open>std::out_of_range\<close> otherwise.
\<close>

record reader =
  m_vecInput :: "byte list"
  m_nOffset :: nat

definition BinaryReader :: "byte list \<Rightarrow> reader" where
  "BinaryReader vecInput = \<lparr>m_vecInput = vecInput, m_nOffset = 0\<rparr>"

definition nRemaining :: "reader \<Rightarrow> nat" where
  "nRemaining r = length (m_vecInput r) - m_nOffset r"

definition ensureAvailable :: "reader \<Rightarrow> nat \<Rightarrow> unit result" where
  "ensureAvailable r nSize =
     (if nSize > nRemaining r
      then Inl (OutOfRange ''Binary input is shorter than the requested field'')
      else Inr ())"

definition u16_step :: "u16 \<Rightarrow> byte \<Rightarrow> u16" where
  "u16_step v b = push_bit 8 v OR ucast b"

definition u32_step :: "u32 \<Rightarrow> byte \<Rightarrow> u32" where
  "u32_step v b = push_bit 8 v OR ucast b"

definition u64_step :: "u64 \<Rightarrow> byte \<Rightarrow> u64" where
  "u64_step v b = push_bit 8 v OR ucast b"

definition u32Read :: "reader \<Rightarrow> (u32 \<times> reader) result" where
  "u32Read r =
     andThen (ensureAvailable r 4) (\<lambda>_.
       Inr (foldl (\<lambda>v nIndex. u32_step v (m_vecInput r ! (m_nOffset r + nIndex))) 0 [0..<4],
            r\<lparr>m_nOffset := m_nOffset r + 4\<rparr>))"

definition u64Read :: "reader \<Rightarrow> (u64 \<times> reader) result" where
  "u64Read r =
     andThen (ensureAvailable r 8) (\<lambda>_.
       Inr (foldl (\<lambda>v nIndex. u64_step v (m_vecInput r ! (m_nOffset r + nIndex))) 0 [0..<8],
            r\<lparr>m_nOffset := m_nOffset r + 8\<rparr>))"

definition vecRead :: "nat \<Rightarrow> reader \<Rightarrow> (byte list \<times> reader) result" where
  "vecRead nSize r =
     andThen (ensureAvailable r nSize) (\<lambda>_.
       Inr (take nSize (drop (m_nOffset r) (m_vecInput r)),
            r\<lparr>m_nOffset := m_nOffset r + nSize\<rparr>))"

text \<open>\<open>arrRead<32>\<close>, the only width besides one byte that the code reads.\<close>

definition arrRead32 :: "reader \<Rightarrow> (block \<times> reader) result" where
  "arrRead32 r =
     andThen (ensureAvailable r 32) (\<lambda>_.
       Inr (block_of (take 32 (drop (m_nOffset r) (m_vecInput r))),
            r\<lparr>m_nOffset := m_nOffset r + 32\<rparr>))"

definition arrRead1 :: "reader \<Rightarrow> (byte \<times> reader) result" where
  "arrRead1 r =
     andThen (ensureAvailable r 1) (\<lambda>_.
       Inr (m_vecInput r ! m_nOffset r, r\<lparr>m_nOffset := m_nOffset r + 1\<rparr>))"

text \<open>The bytes a reader has not consumed yet; all reads are described through it.\<close>

definition rest :: "reader \<Rightarrow> byte list" where
  "rest r = drop (m_nOffset r) (m_vecInput r)"

lemma rest_BinaryReader [simp]: "rest (BinaryReader xs) = xs"
  by (simp add: rest_def BinaryReader_def)

lemma nRemaining_rest: "nRemaining r = length (rest r)"
  by (simp add: nRemaining_def rest_def)

lemma rest_advance [simp]: "rest (r\<lparr>m_nOffset := m_nOffset r + n\<rparr>) = drop n (rest r)"
  by (simp add: rest_def add.commute)

lemma rest_nth:
  "n < length (rest r) \<Longrightarrow> m_vecInput r ! (m_nOffset r + n) = rest r ! n"
  by (simp add: rest_def)

section \<open>Each read inverts its append\<close>

lemma byte_mask: "(0xFF :: 'a::len word) = mask 8"
  by (simp add: mask_eq_exp_minus_1)

lemma low_byte_mask: "(ucast (w AND 0xFF) :: byte) = ucast w" for w :: "'a::len word"
  unfolding byte_mask
  by (rule bit_word_eqI) (auto simp: bit_simps dest: bit_imp_le_length)

lemma u32_bytes_of_steps:
  "appendUint32 [] (u32_step (u32_step (u32_step (u32_step 0 a) b) c) d) = [a, b, c, d]"
  by (simp add: appendUint32_def u32_step_def low_byte_mask; intro conjI bit_word_eqI)
    (auto simp: bit_simps dest: bit_imp_le_length)

lemma u32_step_drop_bit:
  "u32_step (drop_bit (m + 8) v) (ucast (drop_bit m v)) = drop_bit m v"
proof (rule bit_word_eqI, goal_cases)
  case (1 n)
  then show ?case
    by (cases "n < 8") (auto simp: u32_step_def bit_simps not_less dest: bit_imp_le_length)
qed

lemma u32_steps_of_bytes:
  "u32_step (u32_step (u32_step (u32_step 0
     (ucast (drop_bit 24 v))) (ucast (drop_bit 16 v))) (ucast (drop_bit 8 v))) (ucast v) = v"
proof -
  have "drop_bit 32 v = 0" by (rule bit_word_eqI) (auto simp: bit_simps dest: bit_imp_le_length)
  then show ?thesis
    using u32_step_drop_bit [of 24 v] u32_step_drop_bit [of 16 v]
      u32_step_drop_bit [of 8 v] u32_step_drop_bit [of 0 v]
    by simp
qed

lemma u64_bytes_of_steps:
  "appendUint64 [] (u64_step (u64_step (u64_step (u64_step (u64_step (u64_step (u64_step
     (u64_step 0 a) b) c) d) e) f) g) h) = [a, b, c, d, e, f, g, h]"
  by (simp add: appendUint64_def u64_step_def low_byte_mask; intro conjI bit_word_eqI)
    (auto simp: bit_simps dest: bit_imp_le_length)

lemma u64_step_drop_bit:
  "u64_step (drop_bit (m + 8) v) (ucast (drop_bit m v)) = drop_bit m v"
proof (rule bit_word_eqI, goal_cases)
  case (1 n)
  then show ?case
    by (cases "n < 8") (auto simp: u64_step_def bit_simps not_less dest: bit_imp_le_length)
qed

lemma u64_steps_of_bytes:
  "u64_step (u64_step (u64_step (u64_step (u64_step (u64_step (u64_step (u64_step 0
     (ucast (drop_bit 56 v))) (ucast (drop_bit 48 v))) (ucast (drop_bit 40 v)))
     (ucast (drop_bit 32 v))) (ucast (drop_bit 24 v))) (ucast (drop_bit 16 v)))
     (ucast (drop_bit 8 v))) (ucast v) = v"
proof -
  have "drop_bit 64 v = 0" by (rule bit_word_eqI) (auto simp: bit_simps dest: bit_imp_le_length)
  then show ?thesis
    using u64_step_drop_bit [of 56 v] u64_step_drop_bit [of 48 v]
      u64_step_drop_bit [of 40 v] u64_step_drop_bit [of 32 v]
      u64_step_drop_bit [of 24 v] u64_step_drop_bit [of 16 v]
      u64_step_drop_bit [of 8 v] u64_step_drop_bit [of 0 v]
    by simp
qed

text \<open>
  The contract of a fixed-width field: appending produces \<open>width\<close> bytes, reading consumes
  exactly \<open>width\<close> bytes and gives the value those bytes are the encoding of, and reading
  from a shorter rest throws. A loop that reads \<open>n\<close> fields in a row (the tau loop of the UDP
  codec) inverts the loop that appends them.
\<close>

fun readMany :: "(reader \<Rightarrow> ('v \<times> reader) result) \<Rightarrow> nat \<Rightarrow> reader \<Rightarrow> ('v list \<times> reader) result"
where
  "readMany get 0 r = Inr ([], r)"
| "readMany get (Suc n) r =
     andThen (get r) (\<lambda>(v, r'). andThen (readMany get n r') (\<lambda>(vs, r''). Inr (v # vs, r'')))"

locale field_codec =
  fixes put :: "'v \<Rightarrow> byte list"
    and get :: "reader \<Rightarrow> ('v \<times> reader) result"
    and width :: nat
  assumes length_put: "length (put v) = width"
    and put_inject: "put v = put w \<Longrightarrow> v = w"
    and get_reads: "width \<le> length (rest r) \<Longrightarrow>
      \<exists>v. get r = Inr (v, r\<lparr>m_nOffset := m_nOffset r + width\<rparr>) \<and> put v = take width (rest r)"
    and get_short: "length (rest r) < width \<Longrightarrow>
      get r = Inl (OutOfRange ''Binary input is shorter than the requested field'')"
begin

lemma get_put:
  assumes "rest r = put v @ ys"
  obtains r' where "get r = Inr (v, r')" "rest r' = ys"
proof -
  from assms have "width \<le> length (rest r)" by (simp add: length_put)
  then obtain w where w: "get r = Inr (w, r\<lparr>m_nOffset := m_nOffset r + width\<rparr>)"
    and "put w = take width (rest r)"
    using get_reads by blast
  with assms have "w = v" by (intro put_inject) (simp add: length_put)
  with w assms that show thesis by (simp add: length_put)
qed

lemma put_get:
  assumes "get r = Inr (v, r')"
  shows "rest r = put v @ rest r'"
proof (cases "width \<le> length (rest r)")
  case True
  then obtain w where "get r = Inr (w, r\<lparr>m_nOffset := m_nOffset r + width\<rparr>)"
    and "put w = take width (rest r)"
    using get_reads by blast
  with assms show ?thesis by auto
next
  case False
  with assms get_short [of r] show ?thesis by simp
qed

lemma get_total: "width \<le> length (rest r) \<Longrightarrow> \<exists>v r'. get r = Inr (v, r')"
  using get_reads by blast

lemma readMany_put:
  assumes "rest r = concat (map put vs) @ ys"
  obtains r' where "readMany get (length vs) r = Inr (vs, r')" "rest r' = ys"
  using assms
proof (induction vs arbitrary: r thesis)
  case Nil
  then show ?case by simp
next
  case (Cons v vs)
  from Cons.prems(2) have "rest r = put v @ (concat (map put vs) @ ys)" by simp
  then obtain r1 where "get r = Inr (v, r1)" "rest r1 = concat (map put vs) @ ys"
    by (rule get_put)
  moreover from this(2) obtain r2 where "readMany get (length vs) r1 = Inr (vs, r2)" "rest r2 = ys"
    using Cons.IH by blast
  ultimately show ?case using Cons.prems(1) by simp
qed

lemma put_readMany:
  "readMany get n r = Inr (vs, r') \<Longrightarrow> length vs = n \<and> rest r = concat (map put vs) @ rest r'"
proof (induction n arbitrary: r vs r')
  case 0
  then show ?case by simp
next
  case (Suc n)
  from Suc.prems obtain v r1 ws where "get r = Inr (v, r1)" "readMany get n r1 = Inr (ws, r')"
    "vs = v # ws"
    by (auto simp: andThen_Inr_iff)
  then show ?case using Suc.IH put_get by fastforce
qed

lemma readMany_total: "n * width \<le> length (rest r) \<Longrightarrow> \<exists>vs r'. readMany get n r = Inr (vs, r')"
proof (induction n arbitrary: r)
  case 0
  then show ?case by simp
next
  case (Suc n)
  then have "width \<le> length (rest r)" by simp
  then obtain v where "get r = Inr (v, r\<lparr>m_nOffset := m_nOffset r + width\<rparr>)"
    using get_reads by blast
  moreover have "n * width \<le> length (rest (r\<lparr>m_nOffset := m_nOffset r + width\<rparr>))"
    using Suc.prems by simp
  ultimately show ?case using Suc.IH by fastforce
qed

end

section \<open>The fields of the code\<close>

lemma ensureAvailable_eq:
  "ensureAvailable r n =
     (if length (rest r) < n
      then Inl (OutOfRange ''Binary input is shorter than the requested field'') else Inr ())"
  by (simp add: ensureAvailable_def nRemaining_rest)

lemma take_eq_map_nth: "n \<le> length xs \<Longrightarrow> take n xs = map (nth xs) [0..<n]"
  by (rule nth_equalityI) auto

lemma take_4: "4 \<le> length xs \<Longrightarrow> take 4 xs = [xs ! 0, xs ! 1, xs ! 2, xs ! 3]"
  by (simp add: take_eq_map_nth upt_conv_Cons eval_nat_numeral)

lemma take_8: "8 \<le> length xs \<Longrightarrow>
    take 8 xs = [xs ! 0, xs ! 1, xs ! 2, xs ! 3, xs ! 4, xs ! 5, xs ! 6, xs ! 7]"
  by (simp add: take_eq_map_nth upt_conv_Cons eval_nat_numeral)

lemma u32Read_rest: "4 \<le> length (rest r) \<Longrightarrow>
    u32Read r = Inr (u32_step (u32_step (u32_step (u32_step 0
      (rest r ! 0)) (rest r ! 1)) (rest r ! 2)) (rest r ! 3), r\<lparr>m_nOffset := m_nOffset r + 4\<rparr>)"
  by (simp add: u32Read_def ensureAvailable_eq rest_def upt_conv_Cons eval_nat_numeral)

lemma u64Read_rest: "8 \<le> length (rest r) \<Longrightarrow>
    u64Read r = Inr (u64_step (u64_step (u64_step (u64_step (u64_step (u64_step (u64_step
      (u64_step 0 (rest r ! 0)) (rest r ! 1)) (rest r ! 2)) (rest r ! 3)) (rest r ! 4))
      (rest r ! 5)) (rest r ! 6)) (rest r ! 7), r\<lparr>m_nOffset := m_nOffset r + 8\<rparr>)"
  by (simp add: u64Read_def ensureAvailable_eq rest_def upt_conv_Cons eval_nat_numeral)

interpretation u32f: field_codec "appendUint32 []" u32Read 4
proof (unfold_locales, goal_cases)
  case (2 v w)
  then show ?case
    by (simp add: appendUint32_def low_byte_mask) (metis u32_steps_of_bytes)
next
  case (3 r)
  then show ?case by (auto simp: u32Read_rest u32_bytes_of_steps take_4)
qed (auto simp: u32Read_def ensureAvailable_eq)

interpretation u64f: field_codec "appendUint64 []" u64Read 8
proof (unfold_locales, goal_cases)
  case (2 v w)
  then show ?case
    by (simp add: appendUint64_def low_byte_mask) (metis u64_steps_of_bytes)
next
  case (3 r)
  then show ?case by (auto simp: u64Read_rest u64_bytes_of_steps take_8)
qed (auto simp: u64Read_def ensureAvailable_eq)

interpretation blockf: field_codec "appendBlock []" arrRead32 32
proof (unfold_locales, goal_cases)
  case (2 v w)
  then show ?case by (simp add: appendBlock_def appendBytes_def block_bytes_eq_iff)
next
  case (3 r)
  then show ?case
    by (auto simp: arrRead32_def ensureAvailable_eq appendBlock_def appendBytes_def
        rest_def block_bytes_block_of)
qed (auto simp: arrRead32_def ensureAvailable_eq)

interpretation bytef: field_codec "\<lambda>b. [b]" arrRead1 1
proof (unfold_locales, goal_cases)
  case (3 r)
  then show ?case
    using rest_nth [of 0 r] by (cases "rest r") (auto simp: arrRead1_def ensureAvailable_eq)
qed (auto simp: arrRead1_def ensureAvailable_eq)

lemma vecRead_rest:
  "vecRead n r = (if length (rest r) < n
     then Inl (OutOfRange ''Binary input is shorter than the requested field'')
     else Inr (take n (rest r), r\<lparr>m_nOffset := m_nOffset r + n\<rparr>))"
  by (simp add: vecRead_def ensureAvailable_eq rest_def)

section \<open>Evaluation\<close>

text \<open>Reading and writing bytes over the integers: fewer operations on words when a term is evaluated.\<close>

lemma byte_step:
  fixes v :: "'a :: len word" and b :: byte
  shows "push_bit 8 v OR ucast b = v * 256 + ucast b"
proof -
  have "push_bit 8 v AND ucast b = (0 :: 'a word)"
    by (rule bit_word_eqI) (auto simp: bit_simps dest: bit_imp_le_length)
  then have "push_bit 8 v OR ucast b = push_bit 8 v + ucast b" by (rule disjunctive_add_eq_or [symmetric])
  then show ?thesis by (simp add: push_bit_eq_mult)
qed

lemma byte_steps_int:
  "foldl (\<lambda>v n. u32_step v (f n)) (of_int k) ns = of_int (foldl (\<lambda>k n. k * 256 + uint (f n)) k ns)"
  "foldl (\<lambda>v n. u64_step v (f n)) (of_int k) ns = of_int (foldl (\<lambda>k n. k * 256 + uint (f n)) k ns)"
proof (induction ns arbitrary: k)
  case (Cons n ns)
  { case 1 show ?case using Cons(1) [of "k * 256 + uint (f n)"] by (simp add: u32_step_def byte_step) }
  { case 2 show ?case using Cons(2) [of "k * 256 + uint (f n)"] by (simp add: u64_step_def byte_step) }
qed simp_all

lemma u32Read_code [code]:
  "u32Read r = andThen (ensureAvailable r 4) (\<lambda>_.
     Inr (of_int (foldl (\<lambda>k nIndex. k * 256 + uint (m_vecInput r ! (m_nOffset r + nIndex))) 0 [0..<4]),
          r\<lparr>m_nOffset := m_nOffset r + 4\<rparr>))"
  by (simp add: u32Read_def byte_steps_int(1) [where k = 0, simplified])

lemma u64Read_code [code]:
  "u64Read r = andThen (ensureAvailable r 8) (\<lambda>_.
     Inr (of_int (foldl (\<lambda>k nIndex. k * 256 + uint (m_vecInput r ! (m_nOffset r + nIndex))) 0 [0..<8]),
          r\<lparr>m_nOffset := m_nOffset r + 8\<rparr>))"
  by (simp add: u64Read_def byte_steps_int(2) [where k = 0, simplified])
lemma low_byte_int: "ucast (drop_bit n v) = (of_int (uint v div 2 ^ n) :: byte)" for v :: "'a :: len word"
proof -
  have "ucast (drop_bit n v) = (of_int (drop_bit n (uint v)) :: byte)"
    by (rule bit_word_eqI) (auto simp: bit_simps dest: bit_imp_le_length)
  then show ?thesis by (simp add: drop_bit_eq_div)
qed

lemma append_code [code]:
  "appendUint16 vecOutput u = vecOutput @ (let k = uint u in map of_int [k div 0x100, k])"
  "appendUint32 vecOutput v = vecOutput @ (let k = uint v in map of_int
     [k div 0x1000000, k div 0x10000, k div 0x100, k])"
  "appendUint64 vecOutput w = vecOutput @ (let k = uint w in map of_int
     [k div 0x100000000000000, k div 0x1000000000000, k div 0x10000000000, k div 0x100000000,
      k div 0x1000000, k div 0x10000, k div 0x100, k])"
  by (simp_all add: appendUint16_def appendUint32_def appendUint64_def Let_def low_byte_mask low_byte_int)

end
