(* ===== verification/Crypto.thy ===== *)
theory Crypto
  imports Bytes
begin

text \<open>
  \<open>common/crypto\<close>: the provider interface for digests and HMACs, its OpenSSL
  implementation, the secure random source, and the TESLA key chain with the verifier of
  disclosed keys. OpenSSL itself is a parameter (\<open>openssl\<close>).
\<close>

section \<open>Algorithms and providers\<close>

datatype CryptoAlgorithm = Sha256 | Sm3 | Sha3_256

text \<open>
  \<open>CryptoProvider\<close>: an object with three methods. \<open>digHash\<close> and \<open>digHmac\<close> may throw.
\<close>

record crypto_provider =
  algAlgorithm :: CryptoAlgorithm
  digHash :: "byte list \<Rightarrow> block result"
  digHmac :: "byte list \<Rightarrow> byte list \<Rightarrow> block result"

text \<open>
  The OpenSSL functions the code calls. \<open>EVP_Digest\<close> and \<open>HMAC\<close> give the status (for HMAC:
  whether the returned pointer is non-null), the length written and the bytes of the result
  buffer; \<open>RAND_bytes\<close> gives the status and the bytes, from a generator state.
\<close>

record 'g openssl =
  EVP_Digest :: "CryptoAlgorithm \<Rightarrow> byte list \<Rightarrow> int \<times> nat \<times> byte list"
  HMAC :: "CryptoAlgorithm \<Rightarrow> byte list \<Rightarrow> byte list \<Rightarrow> bool \<times> nat \<times> byte list"
  RAND_bytes :: "'g \<Rightarrow> nat \<Rightarrow> (int \<times> byte list) \<times> 'g"

definition INT_MAX :: nat where
  "INT_MAX = 2 ^ 31 - 1"

definition OpenSsl_digHash :: "'g openssl \<Rightarrow> CryptoAlgorithm \<Rightarrow> byte list \<Rightarrow> block result" where
  "OpenSsl_digHash ssl alg vecData =
     (case EVP_Digest ssl alg vecData of (status, nDigestLength, vecResult) \<Rightarrow>
        if status \<noteq> 1 \<or> nDigestLength \<noteq> 32
        then Inl (RuntimeError ''OpenSSL hash calculation failed'')
        else Inr (block_of vecResult))"

definition OpenSsl_digHmac ::
  "'g openssl \<Rightarrow> CryptoAlgorithm \<Rightarrow> byte list \<Rightarrow> byte list \<Rightarrow> block result" where
  "OpenSsl_digHmac ssl alg vecKey vecData =
     (if length vecKey > INT_MAX then Inl (InvalidArgument ''HMAC key is too large'')
      else case HMAC ssl alg vecKey vecData of (ok, nDigestLength, vecResult) \<Rightarrow>
        if \<not> ok \<or> nDigestLength \<noteq> 32
        then Inl (RuntimeError ''OpenSSL HMAC calculation failed'')
        else Inr (block_of vecResult))"

definition OpenSslCryptoProvider :: "'g openssl \<Rightarrow> CryptoAlgorithm \<Rightarrow> crypto_provider" where
  "OpenSslCryptoProvider ssl alg =
     \<lparr>algAlgorithm = alg, digHash = OpenSsl_digHash ssl alg, digHmac = OpenSsl_digHmac ssl alg\<rparr>"

text \<open>\<open>OpenSslSecureRandomProvider::vecGenerateBytes\<close>, with the generator's state passed on.\<close>

definition OpenSsl_vecGenerateBytes ::
  "'g openssl \<Rightarrow> nat \<Rightarrow> 'g \<Rightarrow> byte list result \<times> 'g" where
  "OpenSsl_vecGenerateBytes ssl nSize g =
     (if nSize = 0
      then (Inl (InvalidArgument ''Secure random byte count must be positive''), g)
      else if nSize > INT_MAX
      then (Inl (InvalidArgument ''Secure random byte count is too large''), g)
      else case RAND_bytes ssl g nSize of ((status, vecBytes), g') \<Rightarrow>
        if status \<noteq> 1
        then (Inl (RuntimeError ''OpenSSL secure random generation failed''), g')
        else (Inr vecBytes, g'))"

lemma OpenSsl_digHash_Inr:
  "OpenSsl_digHash ssl alg xs = Inr d \<longleftrightarrow>
     (\<exists>v. EVP_Digest ssl alg xs = (1, 32, v) \<and> d = block_of v)"
  by (auto simp: OpenSsl_digHash_def split: prod.splits if_splits)

text \<open>
  Short keys never hit the size guard: every key of the protocol is a 32-byte block, so
  \<open>digHmac\<close> on it fails only when OpenSSL itself does.
\<close>

lemma OpenSsl_digHmac_block:
  "OpenSsl_digHmac ssl alg (block_bytes k) xs =
     (case HMAC ssl alg (block_bytes k) xs of (ok, n, v) \<Rightarrow>
        if \<not> ok \<or> n \<noteq> 32 then Inl (RuntimeError ''OpenSSL HMAC calculation failed'')
        else Inr (block_of v))"
  by (simp add: OpenSsl_digHmac_def INT_MAX_def)

section \<open>Utilities\<close>

text \<open>\<open>CRYPTO_memcmp\<close> gives 0 exactly when the two buffers hold the same bytes.\<close>

definition bDigestEquals :: "block \<Rightarrow> block \<Rightarrow> bool" where
  "bDigestEquals digLeft digRight \<longleftrightarrow> block_bytes digLeft = block_bytes digRight"

definition vecToByteBuffer :: "block \<Rightarrow> byte list" where
  "vecToByteBuffer digValue = block_bytes digValue"

lemma bDigestEquals_iff [simp]: "bDigestEquals a b \<longleftrightarrow> a = b"
  by (simp add: bDigestEquals_def block_bytes_eq_iff)

section \<open>The key chain\<close>

record key_chain =
  m_vecKeys :: "block list"

fun keyCreate_loop :: "crypto_provider \<Rightarrow> nat \<Rightarrow> block list \<Rightarrow> block list result" where
  "keyCreate_loop crp 0 vecKeys = Inr vecKeys"
| "keyCreate_loop crp (Suc n) vecKeys =
     andThen (digHash crp (vecToByteBuffer (vecKeys ! Suc n))) (\<lambda>digKey.
       keyCreate_loop crp n (vecKeys[n := digKey]))"

definition keyCreate :: "crypto_provider \<Rightarrow> byte list \<Rightarrow> nat \<Rightarrow> key_chain result" where
  "keyCreate crp vecSeed nDataIntervalCount =
     (if vecSeed = [] then Inl (InvalidArgument ''Key-chain seed must not be empty'')
      else if nDataIntervalCount = 0
      then Inl (InvalidArgument ''Key chain requires at least one data interval'')
      else andThen (digHash crp vecSeed) (\<lambda>digTail.
        andThen
          (keyCreate_loop crp nDataIntervalCount
            ((replicate (nDataIntervalCount + 1) (block_of []))[nDataIntervalCount := digTail]))
          (\<lambda>vecKeys. Inr \<lparr>m_vecKeys = vecKeys\<rparr>)))"

definition digCommitmentKey :: "key_chain \<Rightarrow> block" where
  "digCommitmentKey kc = hd (m_vecKeys kc)"

definition digDataKey :: "key_chain \<Rightarrow> nat \<Rightarrow> block result" where
  "digDataKey kc nIntervalIndex =
     (if nIntervalIndex = 0 \<or> nIntervalIndex \<ge> length (m_vecKeys kc)
      then Inl (OutOfRange ''Data-key interval index is out of range'')
      else Inr (m_vecKeys kc ! nIntervalIndex))"

definition keyChain_nDataIntervalCount :: "key_chain \<Rightarrow> nat" where
  "keyChain_nDataIntervalCount kc = length (m_vecKeys kc) - 1"

fun hashTimes :: "crypto_provider \<Rightarrow> nat \<Rightarrow> block \<Rightarrow> block result" where
  "hashTimes crp 0 digCurrent = Inr digCurrent"
| "hashTimes crp (Suc n) digCurrent =
     andThen (digHash crp (vecToByteBuffer digCurrent)) (hashTimes crp n)"

definition bVerifyDisclosedKey ::
  "crypto_provider \<Rightarrow> block \<Rightarrow> nat \<Rightarrow> block \<Rightarrow> bool result" where
  "bVerifyDisclosedKey crp digDisclosedKey nDisclosedKeyIndex digCommitment =
     andThen (hashTimes crp nDisclosedKeyIndex digDisclosedKey) (\<lambda>digCurrent.
       Inr (bDigestEquals digCurrent digCommitment))"

subsection \<open>What a created chain looks like\<close>

text \<open>Consecutive keys are linked by the hash, from the tail down to \<open>K0\<close>.\<close>

definition chain_linked :: "crypto_provider \<Rightarrow> block list \<Rightarrow> bool" where
  "chain_linked crp ks \<longleftrightarrow>
     (\<forall>i. Suc i < length ks \<longrightarrow> digHash crp (vecToByteBuffer (ks ! Suc i)) = Inr (ks ! i))"

lemma keyCreate_loop_linked:
  assumes "keyCreate_loop crp n ks = Inr ks'" "n < length ks"
  shows "length ks' = length ks \<and> (\<forall>i. n \<le> i \<longrightarrow> ks' ! i = ks ! i)
    \<and> (\<forall>i < n. digHash crp (vecToByteBuffer (ks' ! Suc i)) = Inr (ks' ! i))"
  using assms
proof (induction n arbitrary: ks)
  case 0
  then show ?case by simp
next
  case (Suc n)
  from Suc.prems(1) obtain d where
    d: "digHash crp (vecToByteBuffer (ks ! Suc n)) = Inr d"
    and loop: "keyCreate_loop crp n (ks[n := d]) = Inr ks'"
    by auto
  from loop Suc.prems(2) have IH: "length ks' = length (ks[n := d])"
    "\<forall>i \<ge> n. ks' ! i = ks[n := d] ! i"
    "\<forall>i < n. digHash crp (vecToByteBuffer (ks' ! Suc i)) = Inr (ks' ! i)"
    using Suc.IH by auto
  have "digHash crp (vecToByteBuffer (ks' ! Suc i)) = Inr (ks' ! i)" if "i < Suc n" for i
    using that IH d Suc.prems(2) by (cases "i = n") auto
  with IH show ?case by auto
qed

lemma keyCreate_loop_total:
  assumes "\<And>xs. \<exists>d. digHash crp xs = Inr d"
  shows "\<exists>ks'. keyCreate_loop crp n ks = Inr ks'"
proof (induction n arbitrary: ks)
  case 0
  then show ?case by simp
next
  case (Suc n)
  obtain d where "digHash crp (vecToByteBuffer (ks ! Suc n)) = Inr d"
    using assms by blast
  then show ?case using Suc.IH by simp
qed

lemma keyCreate_ok:
  assumes "keyCreate crp seed n = Inr kc"
  shows "length (m_vecKeys kc) = n + 1" "chain_linked crp (m_vecKeys kc)"
    "digHash crp seed = Inr (m_vecKeys kc ! n)" "seed \<noteq> []" "0 < n"
proof -
  from assms obtain t ks where n: "seed \<noteq> []" "0 < n" and t: "digHash crp seed = Inr t"
    and ks: "keyCreate_loop crp n ((replicate (n + 1) (block_of []))[n := t]) = Inr ks"
    and kc: "kc = \<lparr>m_vecKeys = ks\<rparr>"
    by (auto simp: keyCreate_def split: if_splits)
  have len: "length ((replicate (n + 1) (block_of []))[n := t]) = n + 1"
    by (simp only: length_list_update length_replicate)
  then have "((replicate (n + 1) (block_of []))[n := t]) ! n = t"
    by (simp only: nth_list_update_eq length_list_update less_add_one)
  with keyCreate_loop_linked [OF ks] len
  have *: "length ks = n + 1" "ks ! n = t"
    "\<forall>i < n. digHash crp (vecToByteBuffer (ks ! Suc i)) = Inr (ks ! i)"
    by (simp_all only: less_add_one) auto
  from * kc show "length (m_vecKeys kc) = n + 1" by simp
  from * kc show "chain_linked crp (m_vecKeys kc)" by (simp add: chain_linked_def)
  from * kc t show "digHash crp seed = Inr (m_vecKeys kc ! n)" by simp
qed (use assms in \<open>auto simp: keyCreate_def split: if_splits\<close>)

lemma keyCreate_total:
  assumes "\<And>xs. \<exists>d. digHash crp xs = Inr d" "seed \<noteq> []" "0 < n"
  shows "\<exists>kc. keyCreate crp seed n = Inr kc"
proof -
  obtain t where "digHash crp seed = Inr t" using assms(1) by blast
  moreover obtain ks where
    "keyCreate_loop crp n ((replicate (n + 1) (block_of []))[n := t]) = Inr ks"
    using keyCreate_loop_total [OF assms(1)] by blast
  ultimately show ?thesis using assms(2,3) by (simp add: keyCreate_def)
qed

lemma digCommitmentKey_nth: "m_vecKeys kc \<noteq> [] \<Longrightarrow> digCommitmentKey kc = m_vecKeys kc ! 0"
  by (simp add: digCommitmentKey_def hd_conv_nth)

lemma hashTimes_chain:
  "chain_linked crp ks \<Longrightarrow> i + j < length ks \<Longrightarrow> hashTimes crp j (ks ! (i + j)) = Inr (ks ! i)"
proof (induction j)
  case 0
  then show ?case by simp
next
  case (Suc j)
  then have "digHash crp (vecToByteBuffer (ks ! Suc (i + j))) = Inr (ks ! (i + j))"
    by (simp add: chain_linked_def)
  with Suc show ?case by simp
qed

lemma hashTimes_add:
  "hashTimes crp (i + j) d = andThen (hashTimes crp i d) (hashTimes crp j)"
proof (induction i arbitrary: d)
  case 0
  then show ?case by simp
next
  case (Suc i)
  then show ?case by (cases "digHash crp (vecToByteBuffer d)") auto
qed

text \<open>Two distinct keys that reach the same value in the same number of steps collide.\<close>

definition hash_collision :: "crypto_provider \<Rightarrow> block \<Rightarrow> block \<Rightarrow> bool" where
  "hash_collision crp a b \<longleftrightarrow> a \<noteq> b \<and>
     (\<exists>d. digHash crp (vecToByteBuffer a) = Inr d \<and> digHash crp (vecToByteBuffer b) = Inr d)"

lemma hashTimes_collision:
  assumes "hashTimes crp n a = Inr d" "hashTimes crp n b = Inr d" "a \<noteq> b"
  shows "\<exists>j < n. \<exists>x y. hashTimes crp j a = Inr x \<and> hashTimes crp j b = Inr y \<and> hash_collision crp x y"
  using assms
proof (induction n arbitrary: a b)
  case 0
  then show ?case by simp
next
  case (Suc n)
  from Suc.prems(1,2) obtain a' b' where
    a': "digHash crp (vecToByteBuffer a) = Inr a'" "hashTimes crp n a' = Inr d" and
    b': "digHash crp (vecToByteBuffer b) = Inr b'" "hashTimes crp n b' = Inr d"
    by auto
  show ?case
  proof (cases "a' = b'")
    case True
    with a' b' Suc.prems(3) have "hash_collision crp a b" by (simp add: hash_collision_def)
    then show ?thesis by (intro exI [of _ 0]) simp
  next
    case False
    with Suc.IH a' b' obtain j x y where "j < n" "hashTimes crp j a' = Inr x"
      "hashTimes crp j b' = Inr y" "hash_collision crp x y" by blast
    with a' b' show ?thesis by (intro exI [of _ "Suc j"]) simp
  qed
qed

section \<open>The interface the sender and the receivers rely on\<close>

text \<open>
  A key schedule: keys indexed from 1, a public commitment, and a verifier such that every
  key of a schedule verifies against its commitment, and a verified key leads to verified
  predecessors.
\<close>

locale key_schedule =
  fixes create :: "'seed \<Rightarrow> nat \<Rightarrow> 'kc result"
    and key :: "'kc \<Rightarrow> nat \<Rightarrow> 'k result"
    and commitment :: "'kc \<Rightarrow> 'k"
    and count :: "'kc \<Rightarrow> nat"
    and verify :: "'k \<Rightarrow> nat \<Rightarrow> 'k \<Rightarrow> bool result"
    and predecessor :: "'k \<Rightarrow> 'k result"
  assumes create_count: "create s n = Inr kc \<Longrightarrow> count kc = n"
    and key_in_range: "create s n = Inr kc \<Longrightarrow> 1 \<le> i \<Longrightarrow> i \<le> n \<Longrightarrow>
      \<exists>k. key kc i = Inr k \<and> verify k i (commitment kc) = Inr True"
    and key_out_of_range: "create s n = Inr kc \<Longrightarrow> i = 0 \<or> n < i \<Longrightarrow>
      \<exists>m. key kc i = Inl (OutOfRange m)"
    and predecessor_verifies: "verify k (Suc i) c = Inr True \<Longrightarrow>
      \<exists>k'. predecessor k = Inr k' \<and> verify k' i c = Inr True"
begin

lemma key_defined_iff:
  "create s n = Inr kc \<Longrightarrow> (\<exists>k. key kc i = Inr k) \<longleftrightarrow> 1 \<le> i \<and> i \<le> n"
  using key_in_range [of s n kc i] key_out_of_range [of s n kc i] by force

lemma disclosed_key_accepted:
  assumes "create s n = Inr kc" "key kc i = Inr k"
  shows "verify k i (commitment kc) = Inr True"
proof -
  from assms have "1 \<le> i \<and> i \<le> n" using key_defined_iff by blast
  with assms key_in_range show ?thesis by fastforce
qed

text \<open>A verified key lets a receiver recover every earlier key, however many were lost.\<close>

lemma recover_earlier:
  assumes "verify k (i + j) c = Inr True"
  shows "\<exists>k'. verify k' i c = Inr True"
  using assms
proof (induction j arbitrary: k)
  case 0
  then show ?case by auto
next
  case (Suc j)
  then show ?case using predecessor_verifies by fastforce
qed

end

interpretation chain: key_schedule "keyCreate crp" digDataKey digCommitmentKey
  keyChain_nDataIntervalCount "bVerifyDisclosedKey crp" "\<lambda>k. digHash crp (vecToByteBuffer k)"
  for crp
proof (unfold_locales, goal_cases)
  case (1 s n kc)
  then show ?case by (simp add: keyChain_nDataIntervalCount_def keyCreate_ok(1))
next
  case (2 s n kc i)
  note kc = keyCreate_ok [OF 2(1)]
  then have "hashTimes crp i (m_vecKeys kc ! i) = Inr (m_vecKeys kc ! 0)"
    using hashTimes_chain [of crp "m_vecKeys kc" 0 i] 2(3) by simp
  moreover have "m_vecKeys kc \<noteq> []" using kc(1) by auto
  ultimately show ?case using kc(1) 2(2,3)
    by (simp add: digDataKey_def bVerifyDisclosedKey_def digCommitmentKey_nth)
next
  case (3 s n kc i)
  then show ?case using keyCreate_ok(1) [OF 3(1)] by (auto simp: digDataKey_def)
next
  case (4 k i c)
  then show ?case by (auto simp: bVerifyDisclosedKey_def)
qed

end
