(* ===== verification/PacketInput.thy ===== *)
theory PacketInput
  imports Crypto
begin

text \<open>
  The algorithm-side packets: \<open>AuthenticationPacketInput.cpp\<close> (single packets and groups of
  fixed slots), \<open>AuthenticationInputEncoder.cpp\<close> (the canonical byte encodings that are
  MACed) and \<open>TeslaMac.cpp\<close> (key derivation, packet MACs and fast group tags). The main
  facts: both encodings determine their input, so a MAC is bound to every field.
\<close>

section \<open>Strings as bytes\<close>

definition strBytes :: "string \<Rightarrow> byte list" where
  "strBytes s = map of_char s"

lemma length_strBytes [simp]: "length (strBytes s) = length s"
  by (simp add: strBytes_def)

lemma of_char_byte_inject: "(of_char c :: byte) = of_char d \<longleftrightarrow> c = d"
proof
  assume "(of_char c :: byte) = of_char d"
  then have "unat (word_of_nat (of_char c) :: byte) = unat (word_of_nat (of_char d) :: byte)"
    by (simp add: of_nat_of_char)
  moreover have "of_char x < (256 :: nat)" for x :: char
    by (rule nat_of_char_less_256)
  ultimately have "(of_char c :: nat) = of_char d" by (simp add: unat_of_nat)
  then show "c = d" by simp
qed simp

lemma strBytes_inject: "strBytes s = strBytes t \<longleftrightarrow> s = t"
  unfolding strBytes_def by (rule inj_map_eq_map) (simp add: inj_def of_char_byte_inject)

section \<open>Packets and groups\<close>

definition U16_MAX :: nat where "U16_MAX = 65535"

definition U32_MAX :: nat where "U32_MAX = 4294967295"

record pkt_input =
  pkt_strSenderId :: string
  pkt_u64ChainId :: u64
  pkt_u32IntervalIndex :: u32
  pkt_u32PacketIndex :: u32
  pkt_arrMessage :: block

definition mkAuthenticationPacketInput ::
  "string \<Rightarrow> u64 \<Rightarrow> u32 \<Rightarrow> u32 \<Rightarrow> block \<Rightarrow> pkt_input result" where
  "mkAuthenticationPacketInput strSenderId u64ChainId u32IntervalIndex u32PacketIndex arrMessage =
     (if strSenderId = [] then Inl (InvalidArgument ''Sender ID must not be empty'')
      else if length strSenderId > U16_MAX then Inl (InvalidArgument ''Sender ID is too long'')
      else if u32IntervalIndex = 0 \<or> u32PacketIndex = 0
      then Inl (InvalidArgument ''Interval and packet indexes must start at one'')
      else Inr \<lparr>pkt_strSenderId = strSenderId, pkt_u64ChainId = u64ChainId,
                pkt_u32IntervalIndex = u32IntervalIndex, pkt_u32PacketIndex = u32PacketIndex,
                pkt_arrMessage = arrMessage\<rparr>)"

record grp_input =
  grp_strSenderId :: string
  grp_u64ChainId :: u64
  grp_u32IntervalIndex :: u32
  grp_u32GroupIndex :: u32
  grp_u32FirstPacketIndex :: u32
  grp_vecPacketSlots :: "pkt_input option list"

definition validateSlot :: "grp_input \<Rightarrow> nat \<Rightarrow> unit result" where
  "validateSlot grp nPosition =
     (case grp_vecPacketSlots grp ! nPosition of
        None \<Rightarrow> Inr ()
      | Some pktCurrent \<Rightarrow>
          if pkt_strSenderId pktCurrent \<noteq> grp_strSenderId grp
             \<or> pkt_u64ChainId pktCurrent \<noteq> grp_u64ChainId grp
             \<or> pkt_u32IntervalIndex pktCurrent \<noteq> grp_u32IntervalIndex grp
          then Inl (InvalidArgument ''All group packets must share one authentication context'')
          else
            (let u64ExpectedPacketIndex =
                   (ucast (grp_u32FirstPacketIndex grp) :: u64) + of_nat nPosition
             in if u64ExpectedPacketIndex > of_nat U32_MAX
                   \<or> ucast (pkt_u32PacketIndex pktCurrent) \<noteq> u64ExpectedPacketIndex
                then Inl (InvalidArgument ''Packet index does not match its fixed group slot'')
                else Inr ()))"

definition validatePacketSlots :: "grp_input \<Rightarrow> unit result" where
  "validatePacketSlots grp =
     foldE (\<lambda>nPosition _. validateSlot grp nPosition) [0..<length (grp_vecPacketSlots grp)] ()"

definition mkAuthenticationGroupInput ::
  "string \<Rightarrow> u64 \<Rightarrow> u32 \<Rightarrow> u32 \<Rightarrow> u32 \<Rightarrow> pkt_input option list \<Rightarrow> grp_input result" where
  "mkAuthenticationGroupInput strSenderId u64ChainId u32IntervalIndex u32GroupIndex
       u32FirstPacketIndex vecPacketSlots =
     (let grp = \<lparr>grp_strSenderId = strSenderId, grp_u64ChainId = u64ChainId,
                 grp_u32IntervalIndex = u32IntervalIndex, grp_u32GroupIndex = u32GroupIndex,
                 grp_u32FirstPacketIndex = u32FirstPacketIndex,
                 grp_vecPacketSlots = vecPacketSlots\<rparr>
      in if strSenderId = [] then Inl (InvalidArgument ''Group Sender ID must not be empty'')
         else if length strSenderId > U16_MAX
         then Inl (InvalidArgument ''Group Sender ID is too long'')
         else if u32IntervalIndex = 0 \<or> u32GroupIndex = 0 \<or> u32FirstPacketIndex = 0
         then Inl (InvalidArgument ''Group and packet indexes must start at one'')
         else if vecPacketSlots = []
         then Inl (InvalidArgument ''Authentication group must contain packet slots'')
         else if length vecPacketSlots > U32_MAX
         then Inl (InvalidArgument ''Authentication group is too large'')
         else andThen (validatePacketSlots grp) (\<lambda>_. Inr grp))"

definition bHasMissingPackets :: "grp_input \<Rightarrow> bool" where
  "bHasMissingPackets grp = list_ex (\<lambda>optPacket. optPacket = None) (grp_vecPacketSlots grp)"

definition nPacketSlotCount :: "grp_input \<Rightarrow> nat" where
  "nPacketSlotCount grp = length (grp_vecPacketSlots grp)"

text \<open>What the constructors have established for every object that exists.\<close>

definition pkt_ok :: "pkt_input \<Rightarrow> bool" where
  "pkt_ok p \<longleftrightarrow> pkt_strSenderId p \<noteq> [] \<and> length (pkt_strSenderId p) \<le> U16_MAX
     \<and> pkt_u32IntervalIndex p \<noteq> 0 \<and> pkt_u32PacketIndex p \<noteq> 0"

definition slot_ok :: "grp_input \<Rightarrow> nat \<Rightarrow> pkt_input \<Rightarrow> bool" where
  "slot_ok g i p \<longleftrightarrow> pkt_strSenderId p = grp_strSenderId g \<and> pkt_u64ChainId p = grp_u64ChainId g
     \<and> pkt_u32IntervalIndex p = grp_u32IntervalIndex g
     \<and> unat (pkt_u32PacketIndex p) = unat (grp_u32FirstPacketIndex g) + i"

definition grp_ok :: "grp_input \<Rightarrow> bool" where
  "grp_ok g \<longleftrightarrow> grp_strSenderId g \<noteq> [] \<and> length (grp_strSenderId g) \<le> U16_MAX
     \<and> grp_u32IntervalIndex g \<noteq> 0 \<and> grp_u32GroupIndex g \<noteq> 0 \<and> grp_u32FirstPacketIndex g \<noteq> 0
     \<and> grp_vecPacketSlots g \<noteq> [] \<and> length (grp_vecPacketSlots g) \<le> U32_MAX
     \<and> (\<forall>i p. i < length (grp_vecPacketSlots g) \<and> grp_vecPacketSlots g ! i = Some p
          \<longrightarrow> slot_ok g i p)"

lemma mkAuthenticationPacketInput_Inr:
  "mkAuthenticationPacketInput s c iv ix m = Inr p \<longleftrightarrow>
     p = \<lparr>pkt_strSenderId = s, pkt_u64ChainId = c, pkt_u32IntervalIndex = iv,
          pkt_u32PacketIndex = ix, pkt_arrMessage = m\<rparr> \<and> pkt_ok p"
  by (auto simp: mkAuthenticationPacketInput_def pkt_ok_def)

text \<open>The 64-bit comparison of the expected index is exact: no slot position wraps.\<close>

lemma expected_index_exact:
  assumes "i < length xs" "length xs \<le> U32_MAX"
  shows "(\<not> ((ucast (f :: u32) :: u64) + of_nat i > of_nat U32_MAX
      \<or> ucast (x :: u32) \<noteq> (ucast f :: u64) + of_nat i)) \<longleftrightarrow> unat x = unat f + i"
proof -
  have f: "unat (ucast f :: u64) = unat f" "unat (ucast x :: u64) = unat x"
    by (simp_all add: unat_ucast_u64)
  have i: "unat (of_nat i :: u64) = i"
    using assms by (simp add: unat_of_nat U32_MAX_def)
  have "unat f + i < 2 ^ LENGTH(64)"
    using add_less_le_mono [OF unat_lt_u32 [of f], of i U32_MAX] assms by (simp add: U32_MAX_def)
  then have sum: "unat ((ucast f :: u64) + of_nat i) = unat f + i"
    using f i by (subst unat_plus_no_wrap) auto
  have m: "unat (of_nat U32_MAX :: u64) = U32_MAX" by (simp add: U32_MAX_def)
  have "((ucast f :: u64) + of_nat i > of_nat U32_MAX) = (unat f + i > U32_MAX)"
    by (simp only: word_less_nat_alt sum m)
  moreover have "(ucast x = (ucast f :: u64) + of_nat i) = (unat x = unat f + i)"
    using f sum by (metis word_unat_eq_iff)
  moreover have "unat x \<le> U32_MAX" using less_imp_le [OF unat_lt_u32 [of x]] unat_lt_u32 [of x]
    unfolding U32_MAX_def by linarith
  ultimately show ?thesis by (metis not_less)
qed

lemma foldE_unit_Inr:
  "foldE (\<lambda>x _. f x) xs () = Inr () \<longleftrightarrow> (\<forall>x \<in> set xs. f x = Inr ())"
  by (induction xs) (auto simp: andThen_Inr_iff)

lemma validatePacketSlots_Inr:
  assumes "length (grp_vecPacketSlots g) \<le> U32_MAX"
  shows "validatePacketSlots g = Inr () \<longleftrightarrow>
    (\<forall>i p. i < length (grp_vecPacketSlots g) \<and> grp_vecPacketSlots g ! i = Some p \<longrightarrow> slot_ok g i p)"
proof -
  have "validateSlot g i = Inr () \<longleftrightarrow>
      (\<forall>p. grp_vecPacketSlots g ! i = Some p \<longrightarrow> slot_ok g i p)"
    if "i < length (grp_vecPacketSlots g)" for i
  proof (cases "grp_vecPacketSlots g ! i")
    case None
    then show ?thesis by (simp add: validateSlot_def)
  next
    case (Some p)
    from expected_index_exact [OF that assms, of "grp_u32FirstPacketIndex g" "pkt_u32PacketIndex p"]
    show ?thesis using Some by (auto simp: validateSlot_def slot_ok_def Let_def)
  qed
  then show ?thesis unfolding validatePacketSlots_def foldE_unit_Inr by fastforce
qed

lemma mkAuthenticationGroupInput_Inr:
  "mkAuthenticationGroupInput s c iv gi fi slots = Inr g \<longleftrightarrow>
     g = \<lparr>grp_strSenderId = s, grp_u64ChainId = c, grp_u32IntervalIndex = iv,
          grp_u32GroupIndex = gi, grp_u32FirstPacketIndex = fi, grp_vecPacketSlots = slots\<rparr>
     \<and> grp_ok g"
proof -
  let ?g = "\<lparr>grp_strSenderId = s, grp_u64ChainId = c, grp_u32IntervalIndex = iv,
          grp_u32GroupIndex = gi, grp_u32FirstPacketIndex = fi, grp_vecPacketSlots = slots\<rparr>"
  show ?thesis
    using validatePacketSlots_Inr [of ?g]
    by (auto simp: mkAuthenticationGroupInput_def Let_def grp_ok_def andThen_Inr_iff not_less)
qed

section \<open>Canonical encodings\<close>

text \<open>
  The encoder has its own byte-order helpers, written as loops over the shift; they agree
  with the ones of the packet codec.
\<close>

definition enc_appendUint16 :: "byte list \<Rightarrow> u16 \<Rightarrow> byte list" where
  "enc_appendUint16 vecOutput u16Value =
     (vecOutput @ [ucast (drop_bit 8 u16Value AND 0xFF)]) @ [ucast (u16Value AND 0xFF)]"

definition enc_appendUint32 :: "byte list \<Rightarrow> u32 \<Rightarrow> byte list" where
  "enc_appendUint32 vecOutput u32Value =
     fold (\<lambda>nShift out. out @ [ucast (drop_bit nShift u32Value AND 0xFF)]) [24, 16, 8, 0] vecOutput"

definition enc_appendUint64 :: "byte list \<Rightarrow> u64 \<Rightarrow> byte list" where
  "enc_appendUint64 vecOutput u64Value =
     fold (\<lambda>nShift out. out @ [ucast (drop_bit nShift u64Value AND 0xFF)])
       [56, 48, 40, 32, 24, 16, 8, 0] vecOutput"

definition enc_appendBytes :: "byte list \<Rightarrow> byte list \<Rightarrow> byte list" where
  "enc_appendBytes vecOutput pData = vecOutput @ pData"

definition appendSenderId :: "byte list \<Rightarrow> string \<Rightarrow> byte list" where
  "appendSenderId vecOutput strSenderId =
     enc_appendBytes (enc_appendUint16 vecOutput (of_nat (length strSenderId))) (strBytes strSenderId)"

definition vecEncodePacketMacInput :: "pkt_input \<Rightarrow> byte list" where
  "vecEncodePacketMacInput pktInput =
     (let vecOutput = appendSenderId [] (pkt_strSenderId pktInput);
          vecOutput = enc_appendUint64 vecOutput (pkt_u64ChainId pktInput);
          vecOutput = enc_appendUint32 vecOutput (pkt_u32IntervalIndex pktInput);
          vecOutput = enc_appendUint32 vecOutput (pkt_u32PacketIndex pktInput)
      in enc_appendBytes vecOutput (block_bytes (pkt_arrMessage pktInput)))"

definition encodeSlot :: "pkt_input option \<Rightarrow> byte list \<Rightarrow> byte list" where
  "encodeSlot optPacket vecOutput =
     (case optPacket of
        None \<Rightarrow> vecOutput
      | Some pktCurrent \<Rightarrow>
          enc_appendBytes (enc_appendUint32 vecOutput (pkt_u32PacketIndex pktCurrent))
            (block_bytes (pkt_arrMessage pktCurrent)))"

definition vecEncodeFastGroupInput :: "grp_input \<Rightarrow> block list \<Rightarrow> byte list result" where
  "vecEncodeFastGroupInput grpInput vecSamdTau =
     (if bHasMissingPackets grpInput
      then Inl (InvalidArgument ''Fast-group input requires every packet slot'')
      else if length vecSamdTau > U32_MAX
      then Inl (InvalidArgument ''SAMD tag vector is too large'')
      else
        (let vecOutput = appendSenderId [] (grp_strSenderId grpInput);
             vecOutput = enc_appendUint64 vecOutput (grp_u64ChainId grpInput);
             vecOutput = enc_appendUint32 vecOutput (grp_u32IntervalIndex grpInput);
             vecOutput = enc_appendUint32 vecOutput (grp_u32GroupIndex grpInput);
             vecOutput = enc_appendUint32 vecOutput (of_nat (nPacketSlotCount grpInput));
             vecOutput = fold encodeSlot (grp_vecPacketSlots grpInput) vecOutput;
             vecOutput = enc_appendUint32 vecOutput (of_nat (length vecSamdTau))
         in Inr (fold (\<lambda>digTau out. enc_appendBytes out (block_bytes digTau)) vecSamdTau vecOutput)))"

lemma enc_append_eq [code]:
  "enc_appendUint16 = appendUint16" "enc_appendUint32 = appendUint32"
  "enc_appendUint64 = appendUint64" "enc_appendBytes = appendBytes"
  by (simp_all add: fun_eq_iff enc_appendUint16_def appendUint16_def enc_appendUint32_def
    appendUint32_def enc_appendUint64_def appendUint64_def enc_appendBytes_def appendBytes_def)

lemma enc_split:
  "appendUint32 out v = out @ appendUint32 [] v" "appendUint64 out w = out @ appendUint64 [] w"
  "appendBytes out xs = out @ xs" "appendSenderId out s = out @ appendSenderId [] s"
  by (simp_all add: append_into_empty(3) [of out] append_into_empty(4) [of out] appendBytes_def
    appendSenderId_def enc_append_eq append_into_empty(2) [of out] del: append_into_empty)

lemma u16_step_of_bytes:
  "u16_step (u16_step 0 (ucast (drop_bit 8 v))) (ucast v) = v"
proof (rule bit_word_eqI, goal_cases)
  case (1 n)
  then show ?case
    by (cases "n < 8") (auto simp: u16_step_def bit_simps not_less dest: bit_imp_le_length)
qed

lemma u16_bytes_inject:
  "appendUint16 [] v = appendUint16 [] w \<Longrightarrow> v = w"
  unfolding appendUint16_def low_byte_mask by simp (metis u16_step_of_bytes)

text \<open>The length prefix separates the sender from what follows it.\<close>

lemma appendSenderId_prefix:
  assumes "appendSenderId [] s @ xs = appendSenderId [] t @ ys"
    and "length s \<le> U16_MAX" "length t \<le> U16_MAX"
  shows "s = t \<and> xs = ys"
proof -
  have p: "appendUint16 [] (of_nat (length s)) @ strBytes s @ xs
      = appendUint16 [] (of_nat (length t)) @ strBytes t @ ys"
    using assms(1) by (simp add: appendSenderId_def enc_append_eq appendBytes_def)
  then have "appendUint16 [] (of_nat (length s)) = appendUint16 [] (of_nat (length t))"
    and rest: "strBytes s @ xs = strBytes t @ ys"
    by (simp_all add: append_eq_append_conv)
  then have "(of_nat (length s) :: u16) = of_nat (length t)" by (blast dest: u16_bytes_inject)
  then have "unat (of_nat (length s) :: u16) = unat (of_nat (length t) :: u16)" by simp
  then have "length s = length t"
    using assms(2,3) by (simp add: unat_of_nat U16_MAX_def)
  with rest show ?thesis by (simp add: append_eq_append_conv strBytes_inject)
qed

lemma u32_prefix: "appendUint32 [] v @ xs = appendUint32 [] w @ ys \<longleftrightarrow> v = w \<and> xs = ys"
  using u32f.put_inject by (auto simp: append_eq_append_conv)

lemma u64_prefix: "appendUint64 [] v @ xs = appendUint64 [] w @ ys \<longleftrightarrow> v = w \<and> xs = ys"
  using u64f.put_inject by (auto simp: append_eq_append_conv)

lemma block_prefix: "block_bytes v @ xs = block_bytes w @ ys \<longleftrightarrow> v = w \<and> xs = ys"
  by (auto simp: append_eq_append_conv block_bytes_eq_iff)

lemma of_nat_u32_eq:
  "m \<le> U32_MAX \<Longrightarrow> n \<le> U32_MAX \<Longrightarrow> (of_nat m :: u32) = of_nat n \<longleftrightarrow> m = n"
  by (auto simp: U32_MAX_def word_unat_eq_iff unat_of_nat)

lemma vecEncodePacketMacInput_eq:
  "vecEncodePacketMacInput p = appendSenderId [] (pkt_strSenderId p)
     @ appendUint64 [] (pkt_u64ChainId p) @ appendUint32 [] (pkt_u32IntervalIndex p)
     @ appendUint32 [] (pkt_u32PacketIndex p) @ block_bytes (pkt_arrMessage p)"
  unfolding vecEncodePacketMacInput_def Let_def enc_append_eq
  by (subst enc_split(3), subst enc_split(1), subst enc_split(1), subst enc_split(2)) simp

lemma vecEncodePacketMacInput_inject:
  assumes "pkt_ok p" "pkt_ok p'" "vecEncodePacketMacInput p = vecEncodePacketMacInput p'"
  shows "p = p'"
proof -
  from assms(3) have "pkt_strSenderId p = pkt_strSenderId p'
      \<and> appendUint64 [] (pkt_u64ChainId p) @ appendUint32 [] (pkt_u32IntervalIndex p)
     @ appendUint32 [] (pkt_u32PacketIndex p) @ block_bytes (pkt_arrMessage p)
     = appendUint64 [] (pkt_u64ChainId p') @ appendUint32 [] (pkt_u32IntervalIndex p')
     @ appendUint32 [] (pkt_u32PacketIndex p') @ block_bytes (pkt_arrMessage p')"
    unfolding vecEncodePacketMacInput_eq
    by (rule appendSenderId_prefix) (use assms(1,2) in \<open>auto simp: pkt_ok_def\<close>)
  then show ?thesis by (auto simp: u32_prefix u64_prefix block_bytes_eq_iff)
qed


subsection \<open>Groups\<close>

definition slot_bytes :: "pkt_input option \<Rightarrow> byte list" where
  "slot_bytes s = encodeSlot s []"

lemma fold_encodeSlot: "fold encodeSlot ss out = out @ concat (map slot_bytes ss)"
proof (induction ss arbitrary: out)
  case Nil
  then show ?case by simp
next
  case (Cons s ss)
  have "encodeSlot s out = out @ slot_bytes s"
    by (cases s) (simp_all add: encodeSlot_def slot_bytes_def enc_append_eq enc_split(3)
      append_into_empty(3) [of out] del: append_into_empty)
  with Cons show ?case by simp
qed

lemma fold_appendTau:
  "fold (\<lambda>d out. enc_appendBytes out (block_bytes d)) ds out = out @ concat (map block_bytes ds)"
  by (induction ds arbitrary: out) (simp_all add: enc_appendBytes_def)

lemma bHasMissingPackets_iff: "\<not> bHasMissingPackets g \<longleftrightarrow> None \<notin> set (grp_vecPacketSlots g)"
  by (auto simp: bHasMissingPackets_def list_ex_iff)

lemma vecEncodeFastGroupInput_eq:
  "vecEncodeFastGroupInput g taus = Inr out \<longleftrightarrow>
     \<not> bHasMissingPackets g \<and> length taus \<le> U32_MAX \<and>
     out = appendSenderId [] (grp_strSenderId g) @ appendUint64 [] (grp_u64ChainId g)
       @ appendUint32 [] (grp_u32IntervalIndex g) @ appendUint32 [] (grp_u32GroupIndex g)
       @ appendUint32 [] (of_nat (length (grp_vecPacketSlots g)))
       @ concat (map slot_bytes (grp_vecPacketSlots g))
       @ appendUint32 [] (of_nat (length taus)) @ concat (map block_bytes taus)"
proof -
  have *: "appendUint32 (appendUint32 (appendUint32 (appendUint64 x c) a) b) d
     = x @ appendUint64 [] c @ appendUint32 [] a @ appendUint32 [] b @ appendUint32 [] d" for x a b c d
    by (subst enc_split(1), subst enc_split(1), subst enc_split(1), subst enc_split(2)) simp
  have **: "appendUint32 (x @ y) a = x @ y @ appendUint32 [] a" for x y a
    by (subst enc_split(1)) simp
  show ?thesis
    unfolding vecEncodeFastGroupInput_def Let_def fold_encodeSlot fold_appendTau
    by (auto simp: enc_append_eq nPacketSlotCount_def * **)
qed

lemma slots_prefix:
  assumes "concat (map slot_bytes ss) @ xs = concat (map slot_bytes ss') @ ys"
    and "length ss = length ss'" "None \<notin> set ss" "None \<notin> set ss'"
  shows "map (\<lambda>s. (pkt_u32PacketIndex (the s), pkt_arrMessage (the s))) ss
       = map (\<lambda>s. (pkt_u32PacketIndex (the s), pkt_arrMessage (the s))) ss' \<and> xs = ys"
  using assms(2,1,3,4)
proof (induction ss ss' rule: list_induct2)
  case Nil
  then show ?case by simp
next
  case (Cons s ss s' ss')
  then obtain p p' where "s = Some p" "s' = Some p'" by force
  with Cons show ?case
    by (auto simp: slot_bytes_def encodeSlot_def enc_append_eq enc_split(3) u32_prefix block_prefix)
qed

lemma blocks_inject:
  "concat (map block_bytes xs) = concat (map block_bytes ys) \<Longrightarrow> xs = ys"
proof (induction xs arbitrary: ys)
  case Nil
  then show ?case by (cases ys) auto
next
  case (Cons x xs)
  then show ?case by (cases ys) (auto simp: block_prefix)
qed

text \<open>
  Group slots carry no fields of their own beyond index and message: the constructor ties the
  others to the group, so equal encodings mean equal groups.
\<close>

lemma slots_determined:
  assumes "grp_ok g" "grp_ok g'" "grp_strSenderId g = grp_strSenderId g'"
    "grp_u64ChainId g = grp_u64ChainId g'" "grp_u32IntervalIndex g = grp_u32IntervalIndex g'"
    and n: "None \<notin> set (grp_vecPacketSlots g)" "None \<notin> set (grp_vecPacketSlots g')"
    and eq: "map (\<lambda>s. (pkt_u32PacketIndex (the s), pkt_arrMessage (the s))) (grp_vecPacketSlots g)
       = map (\<lambda>s. (pkt_u32PacketIndex (the s), pkt_arrMessage (the s))) (grp_vecPacketSlots g')"
  shows "grp_vecPacketSlots g = grp_vecPacketSlots g'"
    and "grp_u32FirstPacketIndex g = grp_u32FirstPacketIndex g'"
proof -
  let ?s = "grp_vecPacketSlots g" and ?s' = "grp_vecPacketSlots g'"
  from eq have len: "length ?s = length ?s'" by (rule map_eq_imp_length_eq)
  have get: "\<exists>p p'. ?s ! i = Some p \<and> ?s' ! i = Some p' \<and> slot_ok g i p \<and> slot_ok g' i p'
      \<and> pkt_u32PacketIndex p = pkt_u32PacketIndex p' \<and> pkt_arrMessage p = pkt_arrMessage p'"
    if i: "i < length ?s" for i
  proof -
    have "?s ! i \<noteq> None" "?s' ! i \<noteq> None" using n i len nth_mem by metis+
    then obtain p p' where p: "?s ! i = Some p" "?s' ! i = Some p'" by blast
    from arg_cong [OF eq, of "\<lambda>l. l ! i"] i len p
    have "pkt_u32PacketIndex p = pkt_u32PacketIndex p' \<and> pkt_arrMessage p = pkt_arrMessage p'" by simp
    with p i len assms(1,2) show ?thesis by (auto simp: grp_ok_def)
  qed
  show "?s = ?s'"
  proof (rule nth_equalityI [OF len])
    fix i assume "i < length ?s"
    from get [OF this] assms(3-5) show "?s ! i = ?s' ! i" by (auto simp: slot_ok_def)
  qed
  have "0 < length ?s" using assms(1) by (simp add: grp_ok_def)
  from get [OF this] show "grp_u32FirstPacketIndex g = grp_u32FirstPacketIndex g'"
    by (auto simp: slot_ok_def word_unat_eq_iff)
qed

lemma vecEncodeFastGroupInput_inject:
  assumes ok: "grp_ok g" "grp_ok g'"
    and enc: "vecEncodeFastGroupInput g taus = Inr out" "vecEncodeFastGroupInput g' taus' = Inr out"
  shows "g = g' \<and> taus = taus'"
proof -
  note e = enc [unfolded vecEncodeFastGroupInput_eq]
  have len: "length (grp_vecPacketSlots g) \<le> U32_MAX" "length (grp_vecPacketSlots g') \<le> U32_MAX"
    "length (grp_strSenderId g) \<le> U16_MAX" "length (grp_strSenderId g') \<le> U16_MAX"
    using ok by (simp_all add: grp_ok_def)
  let ?tl = "\<lambda>g taus. appendUint64 [] (grp_u64ChainId g)
       @ appendUint32 [] (grp_u32IntervalIndex g) @ appendUint32 [] (grp_u32GroupIndex g)
       @ appendUint32 [] (of_nat (length (grp_vecPacketSlots g)))
       @ concat (map slot_bytes (grp_vecPacketSlots g))
       @ appendUint32 [] (of_nat (length taus)) @ concat (map block_bytes taus)"
  have "appendSenderId [] (grp_strSenderId g) @ ?tl g taus
      = appendSenderId [] (grp_strSenderId g') @ ?tl g' taus'"
    using e by metis
  from appendSenderId_prefix [OF this len(3,4)]
  have hd: "grp_strSenderId g = grp_strSenderId g'"
    "grp_u64ChainId g = grp_u64ChainId g'" "grp_u32IntervalIndex g = grp_u32IntervalIndex g'"
    "grp_u32GroupIndex g = grp_u32GroupIndex g'"
    "length (grp_vecPacketSlots g) = length (grp_vecPacketSlots g')"
    and tl: "concat (map slot_bytes (grp_vecPacketSlots g)) @
        (appendUint32 [] (of_nat (length taus)) @ concat (map block_bytes taus))
      = concat (map slot_bytes (grp_vecPacketSlots g')) @
        (appendUint32 [] (of_nat (length taus')) @ concat (map block_bytes taus'))"
    by (simp_all add: u32_prefix u64_prefix of_nat_u32_eq len)
  have n: "None \<notin> set (grp_vecPacketSlots g)" "None \<notin> set (grp_vecPacketSlots g')"
    using e by (simp_all add: bHasMissingPackets_iff)
  note s = slots_prefix [OF tl hd(5) n]
  from slots_determined [OF ok hd(1-3) n] s hd have "g = g'" by simp
  moreover have "taus = taus'" using s by (auto simp: u32_prefix dest: blocks_inject)
  ultimately show ?thesis by simp
qed

section \<open>MACs and tags\<close>

definition digDerivePacketMacKey :: "crypto_provider \<Rightarrow> block \<Rightarrow> block result" where
  "digDerivePacketMacKey crpProvider digKey = digHash crpProvider (vecToByteBuffer digKey)"

definition digDeriveFastGroupKey :: "crypto_provider \<Rightarrow> block \<Rightarrow> block result" where
  "digDeriveFastGroupKey crpProvider digKey =
     andThen (digDerivePacketMacKey crpProvider digKey) (\<lambda>digPacketMacKey.
       digHmac crpProvider (vecToByteBuffer digPacketMacKey) (strBytes ''FAST_GROUP_TAG''))"

definition digComputePacketMac :: "crypto_provider \<Rightarrow> block \<Rightarrow> pkt_input \<Rightarrow> block result" where
  "digComputePacketMac crpProvider digKey pktInput =
     andThen (digDerivePacketMacKey crpProvider digKey) (\<lambda>digPacketMacKey.
       digHmac crpProvider (vecToByteBuffer digPacketMacKey) (vecEncodePacketMacInput pktInput))"

definition digComputeFastGroupTag ::
  "crypto_provider \<Rightarrow> block \<Rightarrow> grp_input \<Rightarrow> block list \<Rightarrow> block result" where
  "digComputeFastGroupTag crpProvider digKey grpInput vecSamdTau =
     andThen (digDeriveFastGroupKey crpProvider digKey) (\<lambda>digFastGroupKey.
       andThen (vecEncodeFastGroupInput grpInput vecSamdTau) (\<lambda>vecFastGroupInput.
         digHmac crpProvider (vecToByteBuffer digFastGroupKey) vecFastGroupInput))"

text \<open>
  Two different inputs with one MAC are a collision of the keyed function itself: the encoding
  adds none. \<open>mac_collision crp k\<close> says which inputs collide under \<open>k\<close>.
\<close>

definition mac_collision :: "crypto_provider \<Rightarrow> block \<Rightarrow> byte list \<Rightarrow> byte list \<Rightarrow> bool" where
  "mac_collision crp k xs ys \<longleftrightarrow> xs \<noteq> ys \<and>
     (\<exists>d. digHmac crp (vecToByteBuffer k) xs = Inr d \<and> digHmac crp (vecToByteBuffer k) ys = Inr d)"

lemma packet_mac_binds:
  assumes "pkt_ok p" "pkt_ok p'" "p \<noteq> p'"
    and "digComputePacketMac crp k p = Inr d" "digComputePacketMac crp k p' = Inr d"
  shows "\<exists>mk. digDerivePacketMacKey crp k = Inr mk
    \<and> mac_collision crp mk (vecEncodePacketMacInput p) (vecEncodePacketMacInput p')"
  using assms vecEncodePacketMacInput_inject [OF assms(1,2)]
  by (auto simp: digComputePacketMac_def mac_collision_def)

lemma fast_tag_binds:
  assumes "grp_ok g" "grp_ok g'" "(g, taus) \<noteq> (g', taus')"
    and "digComputeFastGroupTag crp k g taus = Inr d" "digComputeFastGroupTag crp k g' taus' = Inr d"
  shows "\<exists>fk e e'. digDeriveFastGroupKey crp k = Inr fk \<and> vecEncodeFastGroupInput g taus = Inr e
    \<and> vecEncodeFastGroupInput g' taus' = Inr e' \<and> mac_collision crp fk e e'"
proof -
  from assms(4,5) obtain fk e e' where *: "digDeriveFastGroupKey crp k = Inr fk"
    "vecEncodeFastGroupInput g taus = Inr e" "vecEncodeFastGroupInput g' taus' = Inr e'"
    "digHmac crp (vecToByteBuffer fk) e = Inr d" "digHmac crp (vecToByteBuffer fk) e' = Inr d"
    by (auto simp: digComputeFastGroupTag_def)
  moreover have "e \<noteq> e'"
    using vecEncodeFastGroupInput_inject [OF assms(1,2) *(2)] *(3) assms(3) by auto
  ultimately show ?thesis by (auto simp: mac_collision_def)
qed

end
