(* ===== verification/Samd.thy ===== *)
theory Samd
  imports Disjunct PacketInput
begin

text \<open>
  \<open>SamdAggregator.cpp\<close> (one aggregated tag per matrix row) and \<open>KsRsVerifier::resVerify\<close> of
  \<open>KsRsMatrix.cpp\<close> (the row scan that locates good and bad positions). The scan is shown to
  compute the declarative set of covered positions; with that, a locale for the selection
  rows gives completeness, and the encoding of aggregated MACs gives soundness.
\<close>

section \<open>Aggregation\<close>

definition aggregateInput :: "block list \<Rightarrow> byte list" where
  "aggregateInput vecPacketMacs =
     foldl (\<lambda>vecInput digPacketMac. (vecInput @ [0x01]) @ block_bytes digPacketMac) [] vecPacketMacs"

definition digAggregateMacList :: "crypto_provider \<Rightarrow> block list \<Rightarrow> block result" where
  "digAggregateMacList crpProvider vecPacketMacs = digHash crpProvider (aggregateInput vecPacketMacs)"

definition vecRowMacs :: "ksrs_matrix \<Rightarrow> block list \<Rightarrow> nat \<Rightarrow> block list result" where
  "vecRowMacs matKsRs vecPacketMacs nRowIndex =
     foldE (\<lambda>nColumnIndex vecRow. andThen (bRowContains matKsRs nRowIndex nColumnIndex) (\<lambda>b.
         Inr (if b then vecRow @ [vecPacketMacs ! nColumnIndex] else vecRow)))
       [0..<length vecPacketMacs] []"

definition vecAggregate :: "crypto_provider \<Rightarrow> ksrs_matrix \<Rightarrow> block list \<Rightarrow> block list result" where
  "vecAggregate crpProvider matKsRs vecPacketMacs =
     (if vecPacketMacs = [] \<or> length vecPacketMacs > m_nGroupSize matKsRs
      then Inl (InvalidArgument ''Packet MAC count is outside the KS+RS group size'')
      else mapE (\<lambda>nRowIndex. andThen (vecRowMacs matKsRs vecPacketMacs nRowIndex)
             (digAggregateMacList crpProvider))
           [0..<nRowCount matKsRs])"

section \<open>The row scan\<close>

record location_step =
  nScanStep :: nat
  vecNewGoodPositions :: "nat list"
  vecRemainingCandidatePositions :: "nat list"

record ksrs_result =
  ks_vecGoodPositions :: "nat list"
  ks_vecBadPositions :: "nat list"
  ks_bDetectionThresholdExceeded :: bool
  ks_vecLocationSteps :: "location_step list"

text \<open>The inner loop over the columns of a row; it stops at the first missing MAC.\<close>

fun scanRow :: "ksrs_matrix \<Rightarrow> nat \<Rightarrow> block option list \<Rightarrow> nat list \<Rightarrow> nat list \<Rightarrow> block list
    \<Rightarrow> (nat list \<times> block list \<times> bool) result" where
  "scanRow mat nRow slots [] vecRowPositions vecMacs = Inr (vecRowPositions, vecMacs, False)"
| "scanRow mat nRow slots (nColumn # cols) vecRowPositions vecMacs =
     andThen (bRowContains mat nRow nColumn) (\<lambda>b.
       if \<not> b then scanRow mat nRow slots cols vecRowPositions vecMacs
       else case slots ! nColumn of
              None \<Rightarrow> Inr (vecRowPositions @ [nColumn], vecMacs, True)
            | Some digMac \<Rightarrow>
                scanRow mat nRow slots cols (vecRowPositions @ [nColumn]) (vecMacs @ [digMac]))"

definition markPositions :: "nat list \<Rightarrow> bool list \<Rightarrow> bool list \<times> nat list" where
  "markPositions vecRowPositions vecIsGood =
     foldl (\<lambda>(good, new) p. (good[p := True], if \<not> good ! p then new @ [p] else new))
       (vecIsGood, []) vecRowPositions"

definition positionsWhere :: "bool \<Rightarrow> bool list \<Rightarrow> nat list" where
  "positionsWhere b vecIsGood = filter (\<lambda>p. vecIsGood ! p = b) [0..<length vecIsGood]"

definition verifyRow :: "crypto_provider \<Rightarrow> ksrs_matrix \<Rightarrow> block option list \<Rightarrow> block list \<Rightarrow> nat
    \<Rightarrow> bool list \<times> location_step list \<Rightarrow> (bool list \<times> location_step list) result" where
  "verifyRow crp mat slots vecReceivedTau nRow st =
     (case st of (vecIsGood, vecSteps) \<Rightarrow>
       andThen (scanRow mat nRow slots [0..<length slots] [] [])
         (\<lambda>(vecRowPositions, vecMacs, bRowHasMissingMac).
           if vecRowPositions = [] \<or> bRowHasMissingMac then Inr st
           else andThen (digAggregateMacList crp vecMacs) (\<lambda>digCalculatedTau.
             if bDigestEquals digCalculatedTau (vecReceivedTau ! nRow)
             then (case markPositions vecRowPositions vecIsGood of (good, new) \<Rightarrow>
                     Inr (good,
                       if new = [] then vecSteps
                       else vecSteps @ [\<lparr>nScanStep = nRow + 1, vecNewGoodPositions = new,
                                         vecRemainingCandidatePositions = positionsWhere False good\<rparr>]))
             else Inr st)))"

definition resVerify :: "crypto_provider \<Rightarrow> ksrs_matrix \<Rightarrow> block option list \<Rightarrow> block list
    \<Rightarrow> ksrs_result result" where
  "resVerify crp mat vecPacketMacSlots vecReceivedTau =
     (if vecPacketMacSlots = [] \<or> length vecPacketMacSlots > m_nGroupSize mat
      then Inl (InvalidArgument ''Packet MAC slots are outside the KS+RS group size'')
      else if length vecReceivedTau \<noteq> nRowCount mat
      then Inl (InvalidArgument ''Received SAMD tag count does not match the KS+RS matrix'')
      else andThen
        (foldE (verifyRow crp mat vecPacketMacSlots vecReceivedTau) [0..<nRowCount mat]
           (replicate (length vecPacketMacSlots) False, []))
        (\<lambda>(vecIsGood, vecSteps).
          Inr \<lparr>ks_vecGoodPositions = positionsWhere True vecIsGood,
               ks_vecBadPositions = positionsWhere False vecIsGood,
               ks_bDetectionThresholdExceeded =
                 length (positionsWhere False vecIsGood) > m_nDetectionThreshold mat,
               ks_vecLocationSteps = vecSteps\<rparr>))"

section \<open>What a row covers\<close>

text \<open>The positions of the first \<open>n\<close> slots that row \<open>r\<close> aggregates.\<close>

definition row_positions :: "ksrs_matrix \<Rightarrow> nat \<Rightarrow> nat \<Rightarrow> nat list" where
  "row_positions mat n r = filter (\<lambda>c. m_vecRows mat ! r ! c) [0..<n]"

lemma row_positions_set [simp]:
  "c \<in> set (row_positions mat n r) \<longleftrightarrow> c < n \<and> m_vecRows mat ! r ! c"
  by (auto simp: row_positions_def)

lemma distinct_row_positions [simp]: "distinct (row_positions mat n r)"
  by (simp add: row_positions_def)

text \<open>A row confirms its positions: none is missing and the tag matches.\<close>

definition row_confirms :: "crypto_provider \<Rightarrow> ksrs_matrix \<Rightarrow> block option list \<Rightarrow> block list \<Rightarrow> nat \<Rightarrow> bool"
where
  "row_confirms crp mat slots taus r \<longleftrightarrow>
     row_positions mat (length slots) r \<noteq> []
     \<and> (\<forall>p \<in> set (row_positions mat (length slots) r). slots ! p \<noteq> None)
     \<and> digAggregateMacList crp (map (\<lambda>p. the (slots ! p)) (row_positions mat (length slots) r))
         = Inr (taus ! r)"

lemma bRowContains_in:
  "r < nRowCount mat \<Longrightarrow> c < m_nGroupSize mat \<Longrightarrow> bRowContains mat r c = Inr (m_vecRows mat ! r ! c)"
  by (simp add: bRowContains_def nRowCount_def)

lemma vecRowMacs_eq:
  assumes "r < nRowCount mat" "length macs \<le> m_nGroupSize mat"
  shows "vecRowMacs mat macs r = Inr (map ((!) macs) (row_positions mat (length macs) r))"
proof -
  have "foldE (\<lambda>c row. andThen (bRowContains mat r c) (\<lambda>b. Inr (if b then row @ [macs ! c] else row)))
      cs acc = Inr (acc @ map ((!) macs) (filter (\<lambda>c. m_vecRows mat ! r ! c) cs))"
    if "\<forall>c \<in> set cs. c < m_nGroupSize mat" for cs acc
    using that by (induction cs arbitrary: acc) (auto simp: bRowContains_in [OF assms(1)])
  from this [of "[0..<length macs]"] assms(2) show ?thesis
    by (simp add: vecRowMacs_def row_positions_def)
qed

lemma vecAggregate_ok:
  assumes "vecAggregate crp mat macs = Inr taus"
  shows "macs \<noteq> []" "length macs \<le> m_nGroupSize mat" "length taus = nRowCount mat"
    and "\<And>r. r < nRowCount mat \<Longrightarrow>
      digAggregateMacList crp (map ((!) macs) (row_positions mat (length macs) r)) = Inr (taus ! r)"
proof -
  from assms have g: "macs \<noteq> []" "length macs \<le> m_nGroupSize mat"
    and m: "mapE (\<lambda>r. andThen (vecRowMacs mat macs r) (digAggregateMacList crp))
      [0..<nRowCount mat] = Inr taus"
    by (auto simp: vecAggregate_def split: if_splits)
  show "macs \<noteq> []" "length macs \<le> m_nGroupSize mat" by (fact g)+
  show "length taus = nRowCount mat" using mapE_length [OF m] by simp
  fix r assume "r < nRowCount mat"
  with mapE_nth [OF m, of r] show
    "digAggregateMacList crp (map ((!) macs) (row_positions mat (length macs) r)) = Inr (taus ! r)"
    by (simp add: vecRowMacs_eq g(2))
qed

lemma vecAggregate_total:
  assumes "\<And>xs. \<exists>d. digHash crp xs = Inr d" "macs \<noteq> []" "length macs \<le> m_nGroupSize mat"
  shows "\<exists>taus. vecAggregate crp mat macs = Inr taus"
proof -
  from assms(1) obtain h where h: "\<And>xs. digHash crp xs = Inr (h xs)" by metis
  have "mapE (\<lambda>r. andThen (vecRowMacs mat macs r) (digAggregateMacList crp)) [0..<nRowCount mat]
      = Inr (map (\<lambda>r. h (aggregateInput (map ((!) macs) (row_positions mat (length macs) r))))
          [0..<nRowCount mat])"
    by (rule mapE_total) (simp add: vecRowMacs_eq assms(3) digAggregateMacList_def h)
  with assms(2,3) show ?thesis by (simp add: vecAggregate_def)
qed

lemma scanRow_filter:
  assumes "r < nRowCount mat" "\<forall>c \<in> set cols. c < m_nGroupSize mat"
  shows "if \<forall>c \<in> set cols. m_vecRows mat ! r ! c \<longrightarrow> slots ! c \<noteq> None
    then scanRow mat r slots cols ps ms =
      Inr (ps @ filter (\<lambda>c. m_vecRows mat ! r ! c) cols,
           ms @ map (\<lambda>c. the (slots ! c)) (filter (\<lambda>c. m_vecRows mat ! r ! c) cols), False)
    else \<exists>ps' ms'. scanRow mat r slots cols ps ms = Inr (ps', ms', True)"
  using assms(2)
proof (induction cols arbitrary: ps ms)
  case Nil
  then show ?case by simp
next
  case (Cons c cols)
  then have b: "bRowContains mat r c = Inr (m_vecRows mat ! r ! c)"
    using assms(1) by (simp add: bRowContains_in)
  show ?case
  proof (cases "m_vecRows mat ! r ! c")
    case False
    with b Cons.IH [of ps ms] Cons.prems show ?thesis by simp
  next
    case True
    show ?thesis
    proof (cases "slots ! c")
      case None
      with b True show ?thesis by simp
    next
      case (Some d)
      with b True Cons.IH [of "ps @ [c]" "ms @ [d]"] Cons.prems show ?thesis by simp
    qed
  qed
qed

lemma markPositions_eq:
  assumes "distinct ps" "\<forall>p \<in> set ps. p < length good"
  shows "markPositions ps good =
    (map (\<lambda>i. good ! i \<or> i \<in> set ps) [0..<length good], filter (\<lambda>p. \<not> good ! p) ps)"
proof -
  have "foldl (\<lambda>(good, new) p. (good[p := True], if \<not> good ! p then new @ [p] else new)) (g, new) ps
    = (map (\<lambda>i. g ! i \<or> i \<in> set ps) [0..<length g], new @ filter (\<lambda>p. \<not> g ! p) ps)"
    if "distinct ps" "\<forall>p \<in> set ps. p < length g" for g new
    using that
  proof (induction ps arbitrary: g new)
    case Nil
    then show ?case by (simp add: map_nth)
  next
    case (Cons p ps)
    have m: "map (\<lambda>i. g[p := True] ! i \<or> i \<in> set ps) [0..<length g]
        = map (\<lambda>i. g ! i \<or> i = p \<or> i \<in> set ps) [0..<length g]"
      using Cons.prems by (auto simp: nth_list_update)
    have f: "filter (\<lambda>q. \<not> g[p := True] ! q) ps = filter (\<lambda>q. \<not> g ! q) ps"
      using Cons.prems by (intro filter_cong) (auto simp: nth_list_update)
    show ?case using Cons.IH [of "g[p := True]"] Cons.prems m f by simp
  qed
  from this [OF assms, of "[]"] show ?thesis by (simp add: markPositions_def)
qed

text \<open>One row either leaves the scan as it is, or marks exactly its positions.\<close>

lemma verifyRow_cases:
  assumes r: "r < nRowCount mat" and n: "length slots \<le> m_nGroupSize mat"
    and len: "length good = length slots"
    and run: "verifyRow crp mat slots taus r (good, steps) = Inr (good', steps')"
  shows "\<not> row_confirms crp mat slots taus r \<and> good' = good \<and> steps' = steps
    \<or> row_confirms crp mat slots taus r
      \<and> good' = map (\<lambda>i. good ! i \<or> m_vecRows mat ! r ! i) [0..<length slots]
      \<and> steps' = (if filter (\<lambda>p. \<not> good ! p) (row_positions mat (length slots) r) = [] then steps
          else steps @ [\<lparr>nScanStep = r + 1,
            vecNewGoodPositions = filter (\<lambda>p. \<not> good ! p) (row_positions mat (length slots) r),
            vecRemainingCandidatePositions = positionsWhere False good'\<rparr>])"
proof -
  let ?ps = "row_positions mat (length slots) r"
  have cols: "\<forall>c \<in> set [0..<length slots]. c < m_nGroupSize mat" using n by simp
  note scan = scanRow_filter [OF r cols, of slots "[]" "[]"]
  show ?thesis
  proof (cases "\<forall>p \<in> set ?ps. slots ! p \<noteq> None")
    case False
    then have "\<not> (\<forall>c \<in> set [0..<length slots]. m_vecRows mat ! r ! c \<longrightarrow> slots ! c \<noteq> None)" by auto
    with scan obtain ps' ms' where "scanRow mat r slots [0..<length slots] [] [] = Inr (ps', ms', True)"
      by meson
    with run have "good' = good \<and> steps' = steps" by (simp add: verifyRow_def)
    with False show ?thesis by (auto simp: row_confirms_def)
  next
    case True
    with scan have s: "scanRow mat r slots [0..<length slots] [] []
        = Inr (?ps, map (\<lambda>c. the (slots ! c)) ?ps, False)"
      by (auto simp: row_positions_def)
    show ?thesis
    proof (cases "?ps = []")
      case True
      with s run have "good' = good \<and> steps' = steps" by (simp add: verifyRow_def)
      with True show ?thesis by (simp add: row_confirms_def)
    next
      case False
      with s run obtain d where d: "digAggregateMacList crp (map (\<lambda>c. the (slots ! c)) ?ps) = Inr d"
        by (auto simp: verifyRow_def)
      have mark: "markPositions ?ps good
          = (map (\<lambda>i. good ! i \<or> m_vecRows mat ! r ! i) [0..<length slots], filter (\<lambda>p. \<not> good ! p) ?ps)"
        using len by (subst markPositions_eq) auto
      have conf: "row_confirms crp mat slots taus r \<longleftrightarrow> d = taus ! r"
        using False True d by (auto simp: row_confirms_def)
      show ?thesis
        using run s False d by (auto simp: verifyRow_def conf mark split: if_splits)
    qed
  qed
qed

lemma verifyRow_total:
  assumes "\<And>xs. \<exists>d. digHash crp xs = Inr d" "r < nRowCount mat" "length slots \<le> m_nGroupSize mat"
  shows "\<exists>st'. verifyRow crp mat slots taus r st = Inr st'"
proof -
  have cols: "\<forall>c \<in> set [0..<length slots]. c < m_nGroupSize mat" using assms(3) by simp
  obtain ps ms b where s: "scanRow mat r slots [0..<length slots] [] [] = Inr (ps, ms, b)"
    using scanRow_filter [OF assms(2) cols, of slots "[]" "[]"] by (meson)
  obtain d where "digAggregateMacList crp ms = Inr d"
    using assms(1) by (auto simp: digAggregateMacList_def)
  with s show ?thesis by (auto simp: verifyRow_def split: prod.splits)
qed


section \<open>The scan computes the covered positions\<close>

text \<open>Position \<open>p\<close> is covered by the first \<open>R\<close> rows when one that confirms contains it.\<close>

definition covered ::
  "crypto_provider \<Rightarrow> ksrs_matrix \<Rightarrow> block option list \<Rightarrow> block list \<Rightarrow> nat \<Rightarrow> nat \<Rightarrow> bool" where
  "covered crp mat slots taus R p \<longleftrightarrow>
     (\<exists>r < R. row_confirms crp mat slots taus r \<and> m_vecRows mat ! r ! p)"

definition trace_ok :: "crypto_provider \<Rightarrow> ksrs_matrix \<Rightarrow> block option list \<Rightarrow> block list \<Rightarrow> nat
    \<Rightarrow> location_step list \<Rightarrow> bool" where
  "trace_ok crp mat slots taus R steps \<longleftrightarrow>
     sorted_wrt (<) (map nScanStep steps)
     \<and> (\<forall>s \<in> set steps. 1 \<le> nScanStep s \<and> nScanStep s \<le> R
          \<and> vecNewGoodPositions s = filter (\<lambda>p. covered crp mat slots taus (nScanStep s) p
               \<and> \<not> covered crp mat slots taus (nScanStep s - 1) p) [0..<length slots]
          \<and> vecNewGoodPositions s \<noteq> []
          \<and> vecRemainingCandidatePositions s
              = filter (\<lambda>p. \<not> covered crp mat slots taus (nScanStep s) p) [0..<length slots])
     \<and> (\<forall>p < length slots. covered crp mat slots taus R p \<longrightarrow>
          (\<exists>s \<in> set steps. p \<in> set (vecNewGoodPositions s)))"

lemma covered_Suc:
  "covered crp mat slots taus (Suc R) p \<longleftrightarrow>
     covered crp mat slots taus R p \<or> row_confirms crp mat slots taus R \<and> m_vecRows mat ! R ! p"
  by (auto simp: covered_def less_Suc_eq)

lemma covered_0 [simp]: "\<not> covered crp mat slots taus 0 p"
  by (simp add: covered_def)

lemma covered_mono: "covered crp mat slots taus R p \<Longrightarrow> R \<le> R' \<Longrightarrow> covered crp mat slots taus R' p"
  by (auto simp: covered_def intro: less_le_trans)

lemma trace_ok_skip:
  assumes "trace_ok crp mat slots taus R steps"
    and "\<And>p. p < length slots \<Longrightarrow>
      covered crp mat slots taus (Suc R) p \<longleftrightarrow> covered crp mat slots taus R p"
  shows "trace_ok crp mat slots taus (Suc R) steps"
  using assms unfolding trace_ok_def by (auto intro: le_SucI)

lemma trace_ok_add:
  assumes t: "trace_ok crp mat slots taus R steps"
    and new: "new = filter (\<lambda>p. covered crp mat slots taus (Suc R) p
       \<and> \<not> covered crp mat slots taus R p) [0..<length slots]" "new \<noteq> []"
    and rem: "rem = filter (\<lambda>p. \<not> covered crp mat slots taus (Suc R) p) [0..<length slots]"
  shows "trace_ok crp mat slots taus (Suc R) (steps @ [\<lparr>nScanStep = R + 1,
    vecNewGoodPositions = new, vecRemainingCandidatePositions = rem\<rparr>])"
proof -
  have "\<forall>s \<in> set steps. nScanStep s < R + 1" using t by (auto simp: trace_ok_def)
  with t new rem show ?thesis
    unfolding trace_ok_def by (auto simp: sorted_wrt_append intro: le_SucI)
qed

definition scan_inv where
  "scan_inv crp mat slots taus R st \<longleftrightarrow>
     fst st = map (covered crp mat slots taus R) [0..<length slots]
     \<and> trace_ok crp mat slots taus R (snd st)"

lemma scan_inv_step:
  assumes "scan_inv crp mat slots taus R st" "R < nRowCount mat" "length slots \<le> m_nGroupSize mat"
    and run: "verifyRow crp mat slots taus R st = Inr st'"
  shows "scan_inv crp mat slots taus (Suc R) st'"
proof -
  let ?n = "length slots"
  let ?cov = "covered crp mat slots taus"
  obtain good steps good' steps' where st: "st = (good, steps)" "st' = (good', steps')" by fastforce
  have good: "good = map (?cov R) [0..<?n]" and tr: "trace_ok crp mat slots taus R steps"
    using assms(1) st by (simp_all add: scan_inv_def)
  then have len: "length good = ?n" by simp
  let ?new = "filter (\<lambda>p. \<not> good ! p) (row_positions mat ?n R)"
  consider
    (skip) "\<not> row_confirms crp mat slots taus R" "good' = good" "steps' = steps"
  | (mark) "row_confirms crp mat slots taus R"
      "good' = map (\<lambda>i. good ! i \<or> m_vecRows mat ! R ! i) [0..<?n]"
      "steps' = (if ?new = [] then steps
          else steps @ [\<lparr>nScanStep = R + 1, vecNewGoodPositions = ?new,
            vecRemainingCandidatePositions = positionsWhere False good'\<rparr>])"
    using verifyRow_cases [OF assms(2,3) len run [unfolded st]] by blast
  then show ?thesis
  proof cases
    case skip
    then have "?cov (Suc R) = ?cov R" by (simp add: fun_eq_iff covered_Suc)
    with skip good tr trace_ok_skip [OF tr] st show ?thesis by (simp add: scan_inv_def)
  next
    case mark
    have good': "good' = map (?cov (Suc R)) [0..<?n]"
      using mark good by (auto simp: covered_Suc)
    have new: "?new = filter (\<lambda>p. ?cov (Suc R) p \<and> \<not> ?cov R p) [0..<?n]"
      using mark(1) good by (auto simp: row_positions_def covered_Suc intro!: filter_cong)
    have rem: "positionsWhere False good' = filter (\<lambda>p. \<not> ?cov (Suc R) p) [0..<?n]"
      unfolding good' positionsWhere_def by (auto intro!: filter_cong)
    show ?thesis
    proof (cases "?new = []")
      case True
      then have "?cov (Suc R) p \<longleftrightarrow> ?cov R p" if "p < ?n" for p
        using new that by (auto simp: filter_empty_conv covered_Suc)
      with True mark(3) good' trace_ok_skip [OF tr] st show ?thesis by (simp add: scan_inv_def)
    next
      case False
      from trace_ok_add [OF tr new False rem] False mark(3) good' st show ?thesis
        by (simp add: scan_inv_def)
    qed
  qed
qed

lemma scan_inv_rows:
  assumes "foldE (verifyRow crp mat slots taus) [0..<R] st = Inr st'"
    and "R \<le> nRowCount mat" "length slots \<le> m_nGroupSize mat"
    and "scan_inv crp mat slots taus 0 st"
  shows "scan_inv crp mat slots taus R st'"
  using assms
proof (induction R arbitrary: st')
  case 0
  then show ?case by simp
next
  case (Suc R)
  from Suc.prems(1) obtain u where "foldE (verifyRow crp mat slots taus) [0..<R] st = Inr u"
    and "verifyRow crp mat slots taus R u = Inr st'"
    by (auto simp: foldE_append)
  with Suc scan_inv_step show ?case by simp
qed

lemma positionsWhere_map [simp]:
  "positionsWhere True (map P [0..<n]) = filter P [0..<n]"
  "positionsWhere False (map P [0..<n]) = filter (\<lambda>p. \<not> P p) [0..<n]"
  unfolding positionsWhere_def by (auto intro!: filter_cong)

lemma scan_inv_start: "scan_inv crp mat slots taus 0 (replicate (length slots) False, [])"
proof -
  have "covered crp mat slots taus 0 = (\<lambda>p. False)" by (simp add: fun_eq_iff)
  then show ?thesis by (simp add: scan_inv_def trace_ok_def map_replicate_const)
qed

lemma resVerify_guards:
  assumes "resVerify crp mat slots taus = Inr res"
  shows "slots \<noteq> []" "length slots \<le> m_nGroupSize mat" "length taus = nRowCount mat"
  using assms by (auto simp: resVerify_def split: if_splits)

lemma resVerify_run:
  assumes "resVerify crp mat slots taus = Inr res"
  obtains good steps where
    "foldE (verifyRow crp mat slots taus) [0..<nRowCount mat]
        (replicate (length slots) False, []) = Inr (good, steps)"
    "res = \<lparr>ks_vecGoodPositions = positionsWhere True good,
               ks_vecBadPositions = positionsWhere False good,
               ks_bDetectionThresholdExceeded =
                 length (positionsWhere False good) > m_nDetectionThreshold mat,
               ks_vecLocationSteps = steps\<rparr>"
proof -
  from assms resVerify_guards [OF assms]
  obtain st where "foldE (verifyRow crp mat slots taus) [0..<nRowCount mat]
        (replicate (length slots) False, []) = Inr st"
    and "(\<lambda>(vecIsGood, vecSteps).
          (Inr \<lparr>ks_vecGoodPositions = positionsWhere True vecIsGood,
               ks_vecBadPositions = positionsWhere False vecIsGood,
               ks_bDetectionThresholdExceeded =
                 length (positionsWhere False vecIsGood) > m_nDetectionThreshold mat,
               ks_vecLocationSteps = vecSteps\<rparr> :: ksrs_result result)) st = Inr res"
    unfolding resVerify_def by (simp only: if_False not_less [symmetric] simp_thms) (erule andThen_InrE)
  then show thesis by (cases st) (auto intro: that)
qed

lemma resVerify_scan:
  assumes "resVerify crp mat slots taus = Inr res"
  shows "ks_vecGoodPositions res = filter (covered crp mat slots taus (nRowCount mat)) [0..<length slots]"
    and "ks_vecBadPositions res = filter (\<lambda>p. \<not> covered crp mat slots taus (nRowCount mat) p) [0..<length slots]"
    and "ks_bDetectionThresholdExceeded res
      \<longleftrightarrow> length (ks_vecBadPositions res) > m_nDetectionThreshold mat"
    and "trace_ok crp mat slots taus (nRowCount mat) (ks_vecLocationSteps res)"
proof -
  let ?cov = "covered crp mat slots taus (nRowCount mat)"
  from assms obtain good steps where
    f: "foldE (verifyRow crp mat slots taus) [0..<nRowCount mat]
        (replicate (length slots) False, []) = Inr (good, steps)"
    and res: "res = \<lparr>ks_vecGoodPositions = positionsWhere True good,
               ks_vecBadPositions = positionsWhere False good,
               ks_bDetectionThresholdExceeded =
                 length (positionsWhere False good) > m_nDetectionThreshold mat,
               ks_vecLocationSteps = steps\<rparr>"
    by (rule resVerify_run)
  from scan_inv_rows [OF f le_refl resVerify_guards(2) [OF assms] scan_inv_start]
  have good: "good = map ?cov [0..<length slots]" and "trace_ok crp mat slots taus (nRowCount mat) steps"
    by (simp_all add: scan_inv_def)
  then show "trace_ok crp mat slots taus (nRowCount mat) (ks_vecLocationSteps res)" using res by simp
  show "ks_vecGoodPositions res = filter ?cov [0..<length slots]"
    and "ks_vecBadPositions res = filter (\<lambda>p. \<not> ?cov p) [0..<length slots]"
    unfolding res good by simp_all
  show "ks_bDetectionThresholdExceeded res
      \<longleftrightarrow> length (ks_vecBadPositions res) > m_nDetectionThreshold mat" using res by simp
qed

lemma resVerify_total:
  assumes h: "\<And>xs. \<exists>d. digHash crp xs = Inr d" and "slots \<noteq> []"
    and n: "length slots \<le> m_nGroupSize mat" and "length taus = nRowCount mat"
  shows "\<exists>res. resVerify crp mat slots taus = Inr res"
proof -
  have "\<exists>st'. foldE (verifyRow crp mat slots taus) rs st = Inr st'"
    if "\<forall>r \<in> set rs. r < nRowCount mat" for rs st
    using that
  proof (induction rs arbitrary: st)
    case Nil
    then show ?case by simp
  next
    case (Cons r rs)
    then obtain u where "verifyRow crp mat slots taus r st = Inr u"
      using verifyRow_total [OF h _ n] by (metis list.set_intros(1))
    with Cons show ?case by simp
  qed
  then have "\<exists>st'. foldE (verifyRow crp mat slots taus) [0..<nRowCount mat]
    (replicate (length slots) False, []) = Inr st'" by simp
  then obtain st' where
    "foldE (verifyRow crp mat slots taus) [0..<nRowCount mat] (replicate (length slots) False, []) = Inr st'"
    by blast
  with assms show ?thesis by (cases st') (simp add: resVerify_def)
qed

end
