(* ===== verification/Locate.thy ===== *)
theory Locate
  imports Samd
begin

text \<open>
  What the row scan promises. A locale states the property of the selection rows that locating
  needs (any bounded set of positions is avoided by some row through any other position) and
  derives completeness; it is interpreted on the matrix \<open>KsRsMatrix\<close> builds, whose capacity is
  computed here. Soundness comes from the aggregation: a position located as good carries the
  sender's MAC, unless the hash collides.
\<close>

section \<open>Rows that separate\<close>

locale row_selection =
  fixes covers :: "nat \<Rightarrow> nat \<Rightarrow> bool"
    and rows n d :: nat
  assumes separates: "c < n \<Longrightarrow> c \<notin> B \<Longrightarrow> B \<subseteq> {..<n} \<Longrightarrow> card B \<le> d \<Longrightarrow>
    \<exists>r < rows. covers r c \<and> (\<forall>b \<in> B. \<not> covers r b)"
begin

lemma locates:
  assumes "B \<subseteq> {..<n}" "card B \<le> d"
    and "\<And>r c. r < rows \<Longrightarrow> c < m \<Longrightarrow> covers r c \<Longrightarrow> \<forall>b \<in> B. \<not> covers r b \<Longrightarrow> confirms r"
    and "c < m" "m \<le> n" "c \<notin> B"
  shows "\<exists>r < rows. confirms r \<and> covers r c"
  using separates [of c B] assms by (meson less_le_trans)

lemma unlocated_bounded:
  assumes B: "B \<subseteq> {..<n}" "card B \<le> d"
    and c: "\<And>r c. r < rows \<Longrightarrow> c < m \<Longrightarrow> covers r c \<Longrightarrow> \<forall>b \<in> B. \<not> covers r b \<Longrightarrow> confirms r"
    and "m \<le> n"
  shows "card {c. c < m \<and> \<not> (\<exists>r < rows. confirms r \<and> covers r c)} \<le> card B"
proof (rule card_mono)
  show "finite B" using B(1) finite_subset by blast
  show "{c. c < m \<and> \<not> (\<exists>r < rows. confirms r \<and> covers r c)} \<subseteq> B"
    using locates [of B m confirms] B c assms(4) by blast
qed

end

text \<open>
  How many bad positions the chosen parameters can really separate: the largest \<open>d\<close> with
  \<open>d * (k - 1) < L\<close>. For messages of one symbol there is no limit but the group.
\<close>

definition location_capacity :: "nat \<Rightarrow> ks_params \<Rightarrow> nat" where
  "location_capacity n prm =
     (if nMessageLength prm \<le> 1 then n else (nCodeLength prm - 1) div (nMessageLength prm - 1))"

definition matrix_or_none :: "nat \<Rightarrow> nat \<Rightarrow> (ksrs_matrix \<times> ks_params) option" where
  "matrix_or_none n t =
     (case mkKsRsMatrix n t of Inl _ \<Rightarrow> None
      | Inr mat \<Rightarrow> (case findBestParameters n t of Inl _ \<Rightarrow> None | Inr prm \<Rightarrow> Some (mat, prm)))"

lemma mkKsRsMatrix_Inr:
  assumes "mkKsRsMatrix n t = Inr mat"
  obtains prm where "findBestParameters n t = Inr prm" "valid_params n t prm" "0 < t" "t < n"
    "mat = \<lparr>m_nGroupSize = n, m_nDetectionThreshold = t, m_vecRows = buildMatrix n prm\<rparr>"
    "nRowCount mat = nParamRowCount prm"
proof -
  from assms obtain prm where p: "findBestParameters n t = Inr prm" "0 < t" "t < n"
    and m: "mat = \<lparr>m_nGroupSize = n, m_nDetectionThreshold = t, m_vecRows = buildMatrix n prm\<rparr>"
    by (auto simp: mkKsRsMatrix_def split: if_splits)
  moreover note v = findBestParameters_valid(1) [OF p(1)]
  moreover have "nRowCount mat = nParamRowCount prm"
    using shape_buildMatrix [OF v] m by (simp add: nRowCount_def shape_def)
  ultimately show thesis using that by blast
qed

lemma capacity_separates:
  assumes "valid_params n t prm" "c < n" "c \<notin> B" "B \<subseteq> {..<n}" "card B \<le> location_capacity n prm"
  shows "\<exists>r < nParamRowCount prm. buildMatrix n prm ! r ! c \<and> (\<forall>b \<in> B. \<not> buildMatrix n prm ! r ! b)"
proof -
  let ?k = "nMessageLength prm" and ?L = "nCodeLength prm"
  have L: "0 < ?L" using assms(1) by (simp add: valid_params_def)
  have "card B * (?k - 1) < ?L"
  proof (cases "?k \<le> 1")
    case True
    with L show ?thesis by simp
  next
    case False
    with assms(5) have "card B \<le> (?L - 1) div (?k - 1)" by (simp add: location_capacity_def)
    then have "card B * (?k - 1) \<le> (?L - 1) div (?k - 1) * (?k - 1)" by (rule mult_le_mono1)
    also have "\<dots> \<le> ?L - 1" by (rule div_times_less_eq_dividend)
    finally show ?thesis using L by simp
  qed
  from private_row [OF assms(1-4) this] show ?thesis by metis
qed

interpretation matrix_sel: row_selection
  "\<lambda>r c. case matrix_or_none n t of None \<Rightarrow> False | Some (mat, prm) \<Rightarrow> m_vecRows mat ! r ! c"
  "case matrix_or_none n t of None \<Rightarrow> 0 | Some (mat, prm) \<Rightarrow> nRowCount mat"
  "case matrix_or_none n t of None \<Rightarrow> 0 | Some (mat, prm) \<Rightarrow> m_nGroupSize mat"
  "case matrix_or_none n t of None \<Rightarrow> 0 | Some (mat, prm) \<Rightarrow> location_capacity n prm"
  for n t
proof (unfold_locales, goal_cases)
  case (1 c B)
  then obtain mat prm where mp: "matrix_or_none n t = Some (mat, prm)"
    by (auto split: option.splits)
  then have mk: "mkKsRsMatrix n t = Inr mat" and fb: "findBestParameters n t = Inr prm"
    by (auto simp: matrix_or_none_def split: sum.splits)
  from mkKsRsMatrix_Inr [OF mk] fb have v: "valid_params n t prm"
    and m: "mat = \<lparr>m_nGroupSize = n, m_nDetectionThreshold = t, m_vecRows = buildMatrix n prm\<rparr>"
    and R: "nRowCount mat = nParamRowCount prm"
    by (metis sum.inject(2))+
  from 1 mp m have "c < n" "c \<notin> B" "B \<subseteq> {..<n}" "card B \<le> location_capacity n prm" by auto
  from capacity_separates [OF v this] mp m R show ?case by simp
qed

section \<open>Completeness\<close>

text \<open>Positions whose received MAC is not the one the sender aggregated.\<close>

definition altered :: "block list \<Rightarrow> block option list \<Rightarrow> nat set" where
  "altered macs slots = {p. p < length slots \<and> slots ! p \<noteq> Some (macs ! p)}"

lemma unaltered_row_confirms:
  assumes agg: "vecAggregate crp mat macs = Inr taus" and len: "length slots = length macs"
    and r: "r < nRowCount mat" and c: "c < length slots" "m_vecRows mat ! r ! c"
    and clean: "\<forall>b \<in> altered macs slots. \<not> m_vecRows mat ! r ! b"
  shows "row_confirms crp mat slots taus r"
proof -
  let ?ps = "row_positions mat (length slots) r"
  have eq: "slots ! p = Some (macs ! p)" if "p \<in> set ?ps" for p
    using that clean by (auto simp: altered_def)
  have "?ps \<noteq> []" using c by (metis emptyE list.set(1) row_positions_set)
  moreover have "map (\<lambda>p. the (slots ! p)) ?ps = map ((!) macs) ?ps"
    using eq by (intro map_cong refl) (metis option.sel)
  moreover have "digAggregateMacList crp (map ((!) macs) ?ps) = Inr (taus ! r)"
    using vecAggregate_ok(4) [OF agg r] by (simp only: len)
  moreover have "\<forall>p \<in> set ?ps. slots ! p \<noteq> None" using eq by (metis option.distinct(1))
  ultimately show ?thesis
    unfolding row_confirms_def by (simp only: simp_thms)
qed

lemma resVerify_complete:
  assumes mk: "mkKsRsMatrix n t = Inr mat" and prm: "findBestParameters n t = Inr prm"
    and agg: "vecAggregate crp mat macs = Inr taus" and len: "length slots = length macs"
    and few: "card (altered macs slots) \<le> location_capacity n prm"
    and run: "resVerify crp mat slots taus = Inr res"
  shows "\<And>p. p < length slots \<Longrightarrow> p \<notin> altered macs slots \<Longrightarrow> p \<in> set (ks_vecGoodPositions res)"
    and "length (ks_vecBadPositions res) \<le> card (altered macs slots)"
proof -
  have mp: "matrix_or_none n t = Some (mat, prm)" using mk prm by (simp add: matrix_or_none_def)
  have n: "m_nGroupSize mat = n" using mk by (auto elim: mkKsRsMatrix_Inr)
  note le = resVerify_guards(2) [OF run]
  have B: "altered macs slots \<subseteq> {..<m_nGroupSize mat}" using le by (auto simp: altered_def)
  have conf: "row_confirms crp mat slots taus r"
    if "r < nRowCount mat" "c < length slots" "m_vecRows mat ! r ! c"
      "\<forall>b \<in> altered macs slots. \<not> m_vecRows mat ! r ! b" for r c
    using unaltered_row_confirms [OF agg len that] .
  show "p \<in> set (ks_vecGoodPositions res)" if "p < length slots" "p \<notin> altered macs slots" for p
    using matrix_sel.locates [of "altered macs slots" n t "length slots"
        "row_confirms crp mat slots taus" p] B few conf le that
    by (auto simp: mp resVerify_scan(1) [OF run] covered_def)
  have "card {c. c < length slots \<and>
      \<not> (\<exists>r < nRowCount mat. row_confirms crp mat slots taus r \<and> m_vecRows mat ! r ! c)}
    \<le> card (altered macs slots)"
    using matrix_sel.unlocated_bounded [of "altered macs slots" n t "length slots"
        "row_confirms crp mat slots taus"] B few conf le by (simp add: mp)
  moreover have "length (ks_vecBadPositions res) = card (set (ks_vecBadPositions res))"
    by (rule distinct_card [symmetric]) (simp add: resVerify_scan(2) [OF run])
  moreover have "set (ks_vecBadPositions res) = {c. c < length slots \<and>
      \<not> (\<exists>r < nRowCount mat. row_confirms crp mat slots taus r \<and> m_vecRows mat ! r ! c)}"
    by (auto simp: resVerify_scan(2) [OF run] covered_def)
  ultimately show "length (ks_vecBadPositions res) \<le> card (altered macs slots)" by simp
qed

text \<open>The threshold itself is within capacity for short messages, hence for moderate groups.\<close>

lemma capacity_short_message:
  assumes "valid_params n t prm" "nMessageLength prm \<le> 3" "t < n"
  shows "t \<le> location_capacity n prm"
proof (cases "nMessageLength prm \<le> 1")
  case True
  with assms(3) show ?thesis by (simp add: location_capacity_def)
next
  case False
  have k: "nMessageLength prm = 2 \<or> nMessageLength prm = 3" using False assms(2) by auto
  have L: "nCodeLength prm = nMessageLength prm + 2 * t" using assms(1) by (simp add: valid_params_def)
  from k show ?thesis by (auto simp: location_capacity_def L)
qed

lemma message_length_min:
  assumes "findBestParameters n t = Inr prm"
  shows "nMessageLength prm = nMinExponent n (nFieldSize prm)"
proof -
  obtain best rows where loop: "findBest_loop n t (nNextPrime (2 * t + 1))
     \<lparr>nFieldSize = 0, nCodeLength = 0, nMessageLength = 0, nParamRowCount = 0\<rparr> SIZE_MAX = (best, rows)"
    by fastforce
  with assms have "rows \<noteq> SIZE_MAX" "prm = best"
    by (auto simp: findBestParameters_def split: if_splits)
  with findBestParameters_search [OF loop]
  have v: "valid_params n t prm" "nParamRowCount prm = rows" "usable_rows n t (nFieldSize prm) = Some rows"
    by (auto simp: search_inv_def)
  then have "(nMessageLength prm + 2 * t) * nFieldSize prm
      = (nMinExponent n (nFieldSize prm) + 2 * t) * nFieldSize prm" "0 < nFieldSize prm"
    by (auto simp: usable_rows_def valid_params_def Let_def is_prime_def split: if_splits)
  then show ?thesis by simp
qed

lemma capacity_moderate_group:
  assumes "findBestParameters n t = Inr prm" "t < n" "n \<le> (2 * t + 1) ^ 3"
  shows "t \<le> location_capacity n prm"
proof (rule capacity_short_message)
  show v: "valid_params n t prm" by (rule findBestParameters_valid [OF assms(1)])
  let ?q = "nFieldSize prm"
  have "(2 * t + 1) ^ 3 \<le> ?q ^ 3" using v by (intro power_mono) (auto simp: valid_params_def)
  with assms(3) have "n \<le> ?q ^ 3" by (rule le_trans)
  moreover have "?q ^ j < n" if "j < nMessageLength prm" for j
    using nMinExponent_pos(2) [of n ?q "nMessageLength prm" j] message_length_min [OF assms(1)] v that
    by (simp add: valid_params_def)
  ultimately show "nMessageLength prm \<le> 3" by (meson not_less)
qed (fact assms(2))

section \<open>Soundness\<close>

definition digest_collision :: "crypto_provider \<Rightarrow> byte list \<Rightarrow> byte list \<Rightarrow> bool" where
  "digest_collision crp xs ys \<longleftrightarrow>
     xs \<noteq> ys \<and> (\<exists>d. digHash crp xs = Inr d \<and> digHash crp ys = Inr d)"

lemma aggregateInput_eq: "aggregateInput ms = concat (map (\<lambda>m. 0x01 # block_bytes m) ms)"
proof -
  have "foldl (\<lambda>v m. (v @ [0x01]) @ block_bytes m) acc ms
      = acc @ concat (map (\<lambda>m. 0x01 # block_bytes m) ms)" for acc
    by (induction ms arbitrary: acc) auto
  then show ?thesis by (simp add: aggregateInput_def)
qed

lemma aggregateInput_inject: "aggregateInput xs = aggregateInput ys \<Longrightarrow> xs = ys"
  unfolding aggregateInput_eq
proof (induction xs arbitrary: ys)
  case Nil
  then show ?case by (cases ys) auto
next
  case (Cons x xs)
  then show ?case by (cases ys) (auto simp: block_prefix)
qed

lemma resVerify_sound:
  assumes agg: "vecAggregate crp mat macs = Inr taus" and len: "length slots = length macs"
    and run: "resVerify crp mat slots taus = Inr res"
    and p: "p \<in> set (ks_vecGoodPositions res)" "slots ! p \<noteq> Some (macs ! p)"
  shows "\<exists>r < nRowCount mat. m_vecRows mat ! r ! p \<and> None \<notin> (!) slots ` set (row_positions mat (length slots) r)
    \<and> digest_collision crp (aggregateInput (map (\<lambda>p. the (slots ! p)) (row_positions mat (length slots) r)))
        (aggregateInput (map ((!) macs) (row_positions mat (length macs) r)))"
proof -
  from p(1) obtain r where r: "r < nRowCount mat" "row_confirms crp mat slots taus r"
    and pr: "p < length slots" "m_vecRows mat ! r ! p"
    by (auto simp: resVerify_scan(1) [OF run] covered_def)
  let ?ps = "row_positions mat (length slots) r"
  let ?a = "map (\<lambda>p. the (slots ! p)) ?ps" and ?b = "map ((!) macs) ?ps"
  have in_row: "p \<in> set ?ps" using pr by simp
  have "digAggregateMacList crp ?a = Inr (taus ! r)" "digAggregateMacList crp ?b = Inr (taus ! r)"
    using r vecAggregate_ok(4) [OF agg r(1)] len by (simp_all add: row_confirms_def)
  moreover have "?a \<noteq> ?b"
  proof
    assume "?a = ?b"
    then have "the (slots ! p) = macs ! p" using in_row by (simp add: map_eq_conv)
    moreover have "slots ! p \<noteq> None" using r(2) in_row by (auto simp: row_confirms_def)
    ultimately show False using p(2) by auto
  qed
  ultimately have "digest_collision crp (aggregateInput ?a) (aggregateInput ?b)"
    unfolding digest_collision_def digAggregateMacList_def using aggregateInput_inject by blast
  moreover have "None \<notin> (!) slots ` set ?ps" using r(2) by (auto simp: row_confirms_def)
  ultimately show ?thesis using r(1) pr(2) len by auto
qed

section \<open>Where the threshold is not reached\<close>

text \<open>
  The code length \<open>k + 2 * t\<close> guarantees \<open>t\<close> bad positions only for \<open>k \<le> 3\<close>. A group of 3000
  packets with threshold 4 gets messages of four symbols over a field of 13 and capacity 3;
  the columns 2743, 2745, 2749 and 2752 together meet every row of column 0.
\<close>

lemma prime_13: "is_prime 13" and prime_17: "is_prime 17"
  by (simp_all add: bIsPrime_iff [symmetric] bIsPrime_def bIsPrime_loop.simps)

lemma next_primes: "nNextPrime 9 = 11" "nNextPrime 12 = 13" "nNextPrime 14 = 17" "nNextPrime 18 = 19"
proof -
  have p: "is_prime 11" "is_prime 19"
    by (simp_all add: bIsPrime_iff [symmetric] bIsPrime_def bIsPrime_loop.simps)
  have np: "\<not> is_prime 9" "\<not> is_prime 10" "\<not> is_prime 12" "\<not> is_prime 14" "\<not> is_prime 15"
    "\<not> is_prime 16" "\<not> is_prime 18"
    by (simp_all add: bIsPrime_iff [symmetric] bIsPrime_def bIsPrime_loop.simps)
  have c: "9 \<le> i \<Longrightarrow> i < 11 \<Longrightarrow> i = 9 \<or> i = 10" "12 \<le> i \<Longrightarrow> i < 13 \<Longrightarrow> i = 12"
    "14 \<le> i \<Longrightarrow> i < 17 \<Longrightarrow> i = 14 \<or> i = 15 \<or> i = 16" "18 \<le> i \<Longrightarrow> i < 19 \<Longrightarrow> i = 18" for i :: nat
    by linarith+
  show "nNextPrime 9 = 11" by (rule nNextPrime_eqI) (use p np c in auto)
  show "nNextPrime 12 = 13" by (rule nNextPrime_eqI) (use prime_13 np(3) c(2) in \<open>auto dest: le_antisym simp: less_Suc_eq eval_nat_numeral\<close>)
  show "nNextPrime 14 = 17" by (rule nNextPrime_eqI) (use prime_17 np c in auto)
  show "nNextPrime 18 = 19"
    by (rule nNextPrime_eqI) (use p(2) np(7) c(4) in \<open>auto dest: le_antisym simp: less_Suc_eq eval_nat_numeral\<close>)
qed

lemma exponents_3000:
  "nMinExponent 3000 11 = 4" "nMinExponent 3000 13 = 4" "nMinExponent 3000 17 = 3"
  by (simp_all add: nMinExponent_def nMinExponent_loop.simps MAX_MESSAGE_LENGTH_def SIZE_MAX_def)

definition prm_3000_4 :: ks_params where
  "prm_3000_4 = \<lparr>nFieldSize = 13, nCodeLength = 12, nMessageLength = 4, nParamRowCount = 156\<rparr>"

lemma parameters_3000_4: "findBestParameters 3000 4 = Inr prm_3000_4"
proof -
  let ?z = "\<lparr>nFieldSize = 0, nCodeLength = 0, nMessageLength = 0, nParamRowCount = 0\<rparr>"
  have "findBest_loop 3000 4 11 ?z SIZE_MAX = findBest_loop 3000 4 13 ?z SIZE_MAX"
    by (simp add: findBest_loop.simps [of 3000 4 11] MAX_FIELD_SIZE_def exponents_3000 next_primes)
  also have "\<dots> = findBest_loop 3000 4 17 prm_3000_4 156"
    by (simp add: findBest_loop.simps [of 3000 4 13] MAX_FIELD_SIZE_def exponents_3000 next_primes
      SIZE_MAX_def prm_3000_4_def)
  also have "\<dots> = findBest_loop 3000 4 19 prm_3000_4 156"
    by (simp add: findBest_loop.simps [of 3000 4 17] MAX_FIELD_SIZE_def exponents_3000 next_primes)
  also have "\<dots> = (prm_3000_4, 156)" by (rule findBest_loop_done) simp
  finally show ?thesis
    by (simp add: findBestParameters_def next_primes SIZE_MAX_def)
qed

lemma symbol_of_cubic:
  "1 < q \<Longrightarrow> nSymbolAt q [a, b, c, d] e = (a + b * e + c * e ^ 2 + d * e ^ 3) mod q"
  apply (simp add: nSymbolAt_def nPowMod_eq upt_conv_Cons mod_simps eval_nat_numeral)
  apply (intro mod_add_cong mod_mult_cong refl mod_mod_trivial)
  done

lemma numeral_4: "(4 :: nat) = Suc (Suc (Suc (Suc 0)))"
  by simp

definition cubic_13 :: "nat \<Rightarrow> nat \<Rightarrow> nat" where
  "cubic_13 a e = (a + 3 * e + 3 * e ^ 2 + 1 * e ^ 3) mod 13"

lemma rows_3000_4:
  "row_at prm_3000_4 0 e = e * 13"
  "row_at prm_3000_4 2743 e = e * 13 + cubic_13 0 e"
  "row_at prm_3000_4 2745 e = e * 13 + cubic_13 2 e"
  "row_at prm_3000_4 2749 e = e * 13 + cubic_13 6 e"
  "row_at prm_3000_4 2752 e = e * 13 + cubic_13 9 e"
proof -
  have c: "vecCoefficients 13 4 0 = [0, 0, 0, 0]" "vecCoefficients 13 4 2743 = [0, 3, 3, 1]"
    "vecCoefficients 13 4 2745 = [2, 3, 3, 1]" "vecCoefficients 13 4 2749 = [6, 3, 3, 1]"
    "vecCoefficients 13 4 2752 = [9, 3, 3, 1]"
    unfolding numeral_4 vecCoefficients.simps by simp_all
  have p: "nFieldSize prm_3000_4 = 13" "nMessageLength prm_3000_4 = 4" "1 < (13 :: nat)"
    by (simp_all add: prm_3000_4_def)
  show "row_at prm_3000_4 0 e = e * 13"
    unfolding row_at_def p(1,2) c symbol_of_cubic [OF p(3)] by simp
  show "row_at prm_3000_4 2743 e = e * 13 + cubic_13 0 e"
    "row_at prm_3000_4 2745 e = e * 13 + cubic_13 2 e"
    "row_at prm_3000_4 2749 e = e * 13 + cubic_13 6 e"
    "row_at prm_3000_4 2752 e = e * 13 + cubic_13 9 e"
    unfolding row_at_def p(1,2) c symbol_of_cubic [OF p(3)] cubic_13_def by (rule refl)+
qed

lemma cubic_roots:
  assumes "e < 12"
  shows "cubic_13 0 e = 0 \<or> cubic_13 2 e = 0 \<or> cubic_13 6 e = 0 \<or> cubic_13 9 e = 0"
proof -
  have "\<forall>e \<in> set [0..<12]. cubic_13 0 e = 0 \<or> cubic_13 2 e = 0 \<or> cubic_13 6 e = 0 \<or> cubic_13 9 e = 0"
    by code_simp
  moreover have "e \<in> set [0..<12]" using assms by simp
  ultimately show ?thesis by (rule bspec)
qed

lemma cover_3000_4:
  assumes "e < 12"
  shows "\<exists>b \<in> {2743, 2745, 2749, 2752}. row_at prm_3000_4 0 e = row_at prm_3000_4 b e"
  using cubic_roots [OF assms] by (auto simp: rows_3000_4)

text \<open>No row through position 0 avoids the four others, so it cannot be located without them.\<close>

lemma uncovered_3000_4:
  assumes mk: "mkKsRsMatrix 3000 4 = Inr mat" and run: "resVerify crp mat slots taus = Inr res"
    and len: "length slots = 3000" and lost: "\<forall>b \<in> {2743, 2745, 2749, 2752}. slots ! b = None"
  shows "{0, 2743, 2745, 2749, 2752} \<subseteq> set (ks_vecBadPositions res)"
proof -
  obtain prm where prm: "findBestParameters 3000 4 = Inr prm" "valid_params 3000 4 prm"
    "mat = \<lparr>m_nGroupSize = 3000, m_nDetectionThreshold = 4, m_vecRows = buildMatrix 3000 prm\<rparr>"
    "nRowCount mat = nParamRowCount prm"
    by (rule mkKsRsMatrix_Inr [OF mk])
  have "prm = prm_3000_4" using prm(1) parameters_3000_4 by simp
  then have v: "valid_params 3000 4 prm_3000_4" and m: "m_vecRows mat = buildMatrix 3000 prm_3000_4"
    and R: "nRowCount mat = 156"
    using prm by (simp_all add: prm_3000_4_def)
  have prm: "nCodeLength prm_3000_4 = 12" "nParamRowCount prm_3000_4 = 156"
    by (simp_all add: prm_3000_4_def)
  have none: "\<not> covered crp mat slots taus 156 c"
    if "c \<in> {0, 2743, 2745, 2749, 2752}" for c
  proof
    assume "covered crp mat slots taus 156 c"
    then obtain r where r: "r < 156" "row_confirms crp mat slots taus r" "m_vecRows mat ! r ! c"
      by (auto simp: covered_def)
    have "\<exists>b \<in> {2743, 2745, 2749, 2752}. m_vecRows mat ! r ! b"
    proof (cases "c = 0")
      case True
      then obtain e where e: "e < 12" "r = row_at prm_3000_4 0 e"
        using r buildMatrix_nth [OF v, of r 0] by (auto simp: m prm)
      from cover_3000_4 [OF e(1)] obtain b where
        b: "b \<in> {2743, 2745, 2749, 2752}" "r = row_at prm_3000_4 b e" using e(2) by metis
      then have "b < 3000" by auto
      with b e r(1) buildMatrix_nth [OF v, of r b] have "m_vecRows mat ! r ! b" by (auto simp: m prm)
      with b(1) show ?thesis by blast
    next
      case False
      with that r(3) show ?thesis by blast
    qed
    then obtain b where b: "b \<in> {2743, 2745, 2749, 2752}" "m_vecRows mat ! r ! b" by blast
    then have "b \<in> set (row_positions mat (length slots) r)" using len by auto
    moreover have "slots ! b = None" using lost b(1) by (rule bspec)
    ultimately show False using r(2) unfolding row_confirms_def by blast
  qed
  show ?thesis
  proof
    fix c assume c: "c \<in> {0, 2743, 2745, 2749, 2752 :: nat}"
    then have "c < length slots" using len by auto
    with none [OF c] show "c \<in> set (ks_vecBadPositions res)"
      by (simp add: resVerify_scan(2) [OF run] R)
  qed
qed

lemma matrix_3000_4: "\<exists>mat. mkKsRsMatrix 3000 4 = Inr mat"
  by (simp add: mkKsRsMatrix_def parameters_3000_4)

end
