(* ===== verification/Strategies.thy ===== *)
theory Strategies
  imports Locate
begin

text \<open>
  The two authentication strategies: \<open>NativeTeslaStrategy.cpp\<close> (one MAC per packet) and
  \<open>ImprovedTeslaStrategy.cpp\<close> (SAMD tags with a fast group tag and KS+RS fallback), with their
  detail types. The virtual interface \<open>TeslaStrategy\<close> is a locale, interpreted on both.
  Sampling is reduced to which positions are measured: \<open>bMeasure\<close> says that a sampler and a
  handler were given, and the result lists the positions the handler was called with.
\<close>

section \<open>Details and results\<close>

datatype NativePacketStatus = Passed | MacFailed | MissingPacket | MissingMac

datatype ImprovedVerificationPath = FastGroupPass | KsRsFallback | IncompleteGroupTags

datatype auth_details =
    NativeAuthenticationDetails (vecPacketMacs: "block option list")
  | ImprovedAuthenticationDetails (vecSamdTau: "block list") (optFastGroupTag: "block option")

record improved_verification =
  m_pathVerification :: ImprovedVerificationPath
  m_bFastGroupTagMatched :: bool
  m_vecAuthenticatedPositions :: "nat list"
  m_vecRejectedPositions :: "nat list"
  m_bDetectionThresholdExceeded :: bool
  m_vecLocationSteps :: "location_step list"

datatype verification_details =
    NativeVerificationDetails "NativePacketStatus list"
  | ImprovedVerificationDetails improved_verification

record verification_result =
  m_bPassed :: bool
  m_varDetails :: verification_details

definition mkNativeAuthenticationDetails :: "block option list \<Rightarrow> auth_details result" where
  "mkNativeAuthenticationDetails macs =
     (if macs = []
      then Inl (InvalidArgument ''Native authentication details require packet MAC slots'')
      else Inr (NativeAuthenticationDetails macs))"

definition mkNativeVerificationDetails :: "NativePacketStatus list \<Rightarrow> verification_details result" where
  "mkNativeVerificationDetails statuses =
     (if statuses = []
      then Inl (InvalidArgument ''Native verification details require packet statuses'')
      else Inr (NativeVerificationDetails statuses))"

section \<open>Native strategy\<close>

text \<open>\<open>std::optional::value\<close> throws when empty; the guard before the loop excludes that.\<close>

definition optValue :: "'a option \<Rightarrow> 'a result" where
  "optValue o' = (case o' of None \<Rightarrow> Inl (LogicError ''bad optional access'') | Some x \<Rightarrow> Inr x)"

definition native_mac_slot :: "crypto_provider \<Rightarrow> block \<Rightarrow> pkt_input option \<Rightarrow> block option result" where
  "native_mac_slot crp digKey optPacket =
     andThen (optValue optPacket) (\<lambda>pkt.
       andThen (digComputePacketMac crp digKey pkt) (\<lambda>digMac. Inr (Some digMac)))"

definition native_create :: "crypto_provider \<Rightarrow> grp_input \<Rightarrow> block \<Rightarrow> auth_details result" where
  "native_create crp grpInput digKey =
     (if bHasMissingPackets grpInput
      then Inl (InvalidArgument ''Native Sender input must not contain missing packets'')
      else andThen
        (mapE (native_mac_slot crp digKey) (grp_vecPacketSlots grpInput))
        mkNativeAuthenticationDetails)"

fun native_slots :: "crypto_provider \<Rightarrow> block \<Rightarrow> bool \<Rightarrow> nat \<Rightarrow> pkt_input option list \<Rightarrow> block option list
    \<Rightarrow> (bool \<times> NativePacketStatus list \<times> nat list) \<Rightarrow> (bool \<times> NativePacketStatus list \<times> nat list) result"
where
  "native_slots crp key bMeasure nPos (None # slots) (m # macs) (ok, sts, ms) =
     native_slots crp key bMeasure (Suc nPos) slots macs (False, sts @ [MissingPacket], ms)"
| "native_slots crp key bMeasure nPos (Some pkt # slots) (None # macs) (ok, sts, ms) =
     native_slots crp key bMeasure (Suc nPos) slots macs (False, sts @ [MissingMac], ms)"
| "native_slots crp key bMeasure nPos (Some pkt # slots) (Some mac # macs) (ok, sts, ms) =
     andThen (digComputePacketMac crp key pkt) (\<lambda>digCalculatedMac.
       let ms' = (if bMeasure then ms @ [nPos] else ms) in
       if bDigestEquals digCalculatedMac mac
       then native_slots crp key bMeasure (Suc nPos) slots macs (ok, sts @ [Passed], ms')
       else native_slots crp key bMeasure (Suc nPos) slots macs (False, sts @ [MacFailed], ms'))"
| "native_slots crp key bMeasure nPos [] macs st = Inr st"
| "native_slots crp key bMeasure nPos slots [] st = Inr st"

definition native_verify :: "crypto_provider \<Rightarrow> grp_input \<Rightarrow> auth_details \<Rightarrow> block \<Rightarrow> bool
    \<Rightarrow> (verification_result \<times> nat list) result" where
  "native_verify crp grpInput varReceivedDetails digKey bMeasure =
     (case varReceivedDetails of
        ImprovedAuthenticationDetails _ _ \<Rightarrow>
          Inl (InvalidArgument ''Native strategy received improved authentication details'')
      | NativeAuthenticationDetails macs \<Rightarrow>
          if length macs \<noteq> nPacketSlotCount grpInput
          then Inl (InvalidArgument ''Native MAC slots do not match packet slots'')
          else andThen (native_slots crp digKey bMeasure 0 (grp_vecPacketSlots grpInput) macs (True, [], []))
            (\<lambda>(bAllPassed, vecPacketStatuses, measured).
              andThen (mkNativeVerificationDetails vecPacketStatuses) (\<lambda>details.
                Inr (\<lparr>m_bPassed = bAllPassed, m_varDetails = details\<rparr>, measured))))"

section \<open>Improved strategy\<close>

definition mkImprovedTeslaStrategy :: "nat \<Rightarrow> nat \<Rightarrow> ksrs_matrix result" where
  "mkImprovedTeslaStrategy nGroupSize nThreshold = mkKsRsMatrix nGroupSize nThreshold"

definition vecComputePacketMacSlots ::
  "crypto_provider \<Rightarrow> grp_input \<Rightarrow> block \<Rightarrow> block option list result" where
  "vecComputePacketMacSlots crp grpInput digKey =
     mapE (\<lambda>optPacket. case optPacket of
         None \<Rightarrow> Inr None
       | Some pkt \<Rightarrow> andThen (digComputePacketMac crp digKey pkt) (\<lambda>digMac. Inr (Some digMac)))
       (grp_vecPacketSlots grpInput)"

definition improved_create :: "crypto_provider \<Rightarrow> ksrs_matrix \<Rightarrow> grp_input \<Rightarrow> block \<Rightarrow> auth_details result"
where
  "improved_create crp mat grpInput digKey =
     (if bHasMissingPackets grpInput
      then Inl (InvalidArgument ''Improved Sender input must not contain missing packets'')
      else if nPacketSlotCount grpInput > m_nGroupSize mat
      then Inl (InvalidArgument ''Improved group exceeds configured KS+RS group size'')
      else andThen (vecComputePacketMacSlots crp grpInput digKey) (\<lambda>vecPacketMacSlots.
        andThen (mapE optValue vecPacketMacSlots) (\<lambda>macs.
          andThen (vecAggregate crp mat macs) (\<lambda>taus.
            andThen (digComputeFastGroupTag crp digKey grpInput taus) (\<lambda>tag.
              Inr (ImprovedAuthenticationDetails taus (Some tag)))))))"

definition improved_fallback :: "crypto_provider \<Rightarrow> ksrs_matrix \<Rightarrow> grp_input \<Rightarrow> block list \<Rightarrow> block
    \<Rightarrow> verification_result result" where
  "improved_fallback crp mat grpInput taus digKey =
     andThen (vecComputePacketMacSlots crp grpInput digKey) (\<lambda>vecPacketMacSlots.
       andThen (resVerify crp mat vecPacketMacSlots taus) (\<lambda>resKsRs.
         Inr \<lparr>m_bPassed = False, m_varDetails = ImprovedVerificationDetails
               \<lparr>m_pathVerification = KsRsFallback, m_bFastGroupTagMatched = False,
                m_vecAuthenticatedPositions = ks_vecGoodPositions resKsRs,
                m_vecRejectedPositions = ks_vecBadPositions resKsRs,
                m_bDetectionThresholdExceeded = ks_bDetectionThresholdExceeded resKsRs,
                m_vecLocationSteps = ks_vecLocationSteps resKsRs\<rparr>\<rparr>))"

definition fast_pass_result :: "nat \<Rightarrow> verification_result" where
  "fast_pass_result nSlots =
     \<lparr>m_bPassed = True, m_varDetails = ImprovedVerificationDetails
       \<lparr>m_pathVerification = FastGroupPass, m_bFastGroupTagMatched = True,
        m_vecAuthenticatedPositions = [0..<nSlots], m_vecRejectedPositions = [],
        m_bDetectionThresholdExceeded = False, m_vecLocationSteps = []\<rparr>\<rparr>"

definition incomplete_tags_result :: verification_result where
  "incomplete_tags_result =
     \<lparr>m_bPassed = False, m_varDetails = ImprovedVerificationDetails
       \<lparr>m_pathVerification = IncompleteGroupTags, m_bFastGroupTagMatched = False,
        m_vecAuthenticatedPositions = [], m_vecRejectedPositions = [],
        m_bDetectionThresholdExceeded = False, m_vecLocationSteps = []\<rparr>\<rparr>"

definition improved_verify :: "crypto_provider \<Rightarrow> ksrs_matrix \<Rightarrow> grp_input \<Rightarrow> auth_details \<Rightarrow> block \<Rightarrow> bool
    \<Rightarrow> (verification_result \<times> nat list) result" where
  "improved_verify crp mat grpInput varReceivedDetails digKey bMeasure =
     (let measured = (if bMeasure then [0] else []) in
      case varReceivedDetails of
        NativeAuthenticationDetails _ \<Rightarrow>
          Inl (InvalidArgument ''Improved strategy received native authentication details'')
      | ImprovedAuthenticationDetails taus optTag \<Rightarrow>
          if nPacketSlotCount grpInput > m_nGroupSize mat
          then Inl (InvalidArgument ''Improved group exceeds configured KS+RS group size'')
          else case (length taus = nRowCount mat, optTag) of
            (False, _) \<Rightarrow> Inr (incomplete_tags_result, measured)
          | (True, None) \<Rightarrow> Inr (incomplete_tags_result, measured)
          | (True, Some tag) \<Rightarrow>
              andThen
                (if \<not> bHasMissingPackets grpInput
                 then andThen (digComputeFastGroupTag crp digKey grpInput taus) (\<lambda>digCalculated.
                        Inr (bDigestEquals digCalculated tag))
                 else Inr False)
                (\<lambda>bFast.
                  if bFast then Inr (fast_pass_result (nPacketSlotCount grpInput), measured)
                  else andThen (improved_fallback crp mat grpInput taus digKey) (\<lambda>res.
                    Inr (res, measured))))"

section \<open>Lemmas on the MAC slots\<close>

lemma vecComputePacketMacSlots_ok:
  assumes "vecComputePacketMacSlots crp g key = Inr ms"
  shows "length ms = length (grp_vecPacketSlots g)"
    and "\<And>i. i < length ms \<Longrightarrow> grp_vecPacketSlots g ! i = None \<Longrightarrow> ms ! i = None"
    and "\<And>i p. i < length ms \<Longrightarrow> grp_vecPacketSlots g ! i = Some p \<Longrightarrow>
      \<exists>d. ms ! i = Some d \<and> digComputePacketMac crp key p = Inr d"
proof -
  note a = assms [unfolded vecComputePacketMacSlots_def]
  show len: "length ms = length (grp_vecPacketSlots g)" using mapE_length [OF a] .
  show "ms ! i = None" if "i < length ms" "grp_vecPacketSlots g ! i = None" for i
    using mapE_nth [OF a, of i] that len by simp
  show "\<exists>d. ms ! i = Some d \<and> digComputePacketMac crp key p = Inr d"
    if "i < length ms" "grp_vecPacketSlots g ! i = Some p" for i p
    using mapE_nth [OF a, of i] that len by (auto simp: andThen_Inr_iff)
qed

lemma mapE_optValue: "mapE optValue xs = Inr ys \<longleftrightarrow> xs = map Some ys"
proof (induction xs arbitrary: ys)
  case Nil
  then show ?case by auto
next
  case (Cons x xs)
  then show ?case by (cases x; cases ys) (auto simp: optValue_def andThen_Inr_iff)
qed

definition native_status :: "crypto_provider \<Rightarrow> block \<Rightarrow> pkt_input option \<Rightarrow> block option \<Rightarrow> NativePacketStatus"
where
  "native_status crp key s m =
     (case s of None \<Rightarrow> MissingPacket
      | Some p \<Rightarrow> (case m of None \<Rightarrow> MissingMac
          | Some d \<Rightarrow> if digComputePacketMac crp key p = Inr d then Passed else MacFailed))"

lemma native_slots_spec:
  assumes "length slots = length macs"
    and "native_slots crp key bM nPos slots macs (ok, sts, ms) = Inr (ok', sts', ms')"
  shows "sts' = sts @ map2 (native_status crp key) slots macs
    \<and> (ok' \<longleftrightarrow> ok \<and> (\<forall>s \<in> set (map2 (native_status crp key) slots macs). s = Passed))"
  using assms
proof (induction slots macs arbitrary: nPos ok sts ms rule: list_induct2)
  case Nil
  then show ?case by simp
next
  case (Cons s slots m macs)
  have step: ?case if "native_slots crp key bM (Suc nPos) slots macs
      (ok \<and> native_status crp key s m = Passed, sts @ [native_status crp key s m], ms2)
      = Inr (ok', sts', ms')" for ms2
    using Cons.IH [OF that] by auto
  show ?case
  proof (cases s)
    case None
    with Cons.prems show ?thesis by (intro step [of ms]) (auto simp: native_status_def)
  next
    case (Some p)
    show ?thesis
    proof (cases m)
      case None
      with Some Cons.prems show ?thesis by (intro step [of ms]) (auto simp: native_status_def)
    next
      case m: (Some d)
      from Some m Cons.prems obtain d' where d': "digComputePacketMac crp key p = Inr d'" by auto
      have "native_slots crp key bM (Suc nPos) slots macs
          (ok \<and> d' = d, sts @ [if d' = d then Passed else MacFailed], if bM then ms @ [nPos] else ms)
        = Inr (ok', sts', ms')"
        using Cons.prems Some m d' by (cases "d' = d") (simp_all add: Let_def)
      with d' Some m show ?thesis
        by (intro step [of "if bM then ms @ [nPos] else ms"]) (cases "d' = d"; simp add: native_status_def)
    qed
  qed
qed

lemma native_slots_total:
  assumes "length slots = length macs"
    and "\<And>p. Some p \<in> set slots \<Longrightarrow> \<exists>d. digComputePacketMac crp key p = Inr d"
  shows "\<exists>st'. native_slots crp key bM nPos slots macs (ok, sts, ms) = Inr st'"
  using assms
proof (induction slots macs arbitrary: nPos ok sts ms rule: list_induct2)
  case Nil
  then show ?case by simp
next
  case (Cons s slots m macs)
  note IH = Cons.IH [OF Cons.prems]
  show ?case
  proof (cases s)
    case None
    then show ?thesis using IH by simp
  next
    case (Some p)
    with Cons.prems obtain d where "digComputePacketMac crp key p = Inr d" by fastforce
    with Some IH show ?thesis by (cases m) (auto simp: Let_def)
  qed
qed

section \<open>The strategy contract\<close>

text \<open>The slot positions a result vouches for.\<close>

definition accepted :: "verification_result \<Rightarrow> nat set" where
  "accepted res =
     (case m_varDetails res of
        NativeVerificationDetails sts \<Rightarrow> {i. i < length sts \<and> sts ! i = Passed}
      | ImprovedVerificationDetails d \<Rightarrow> set (m_vecAuthenticatedPositions d))"

locale tesla_strategy =
  fixes create :: "grp_input \<Rightarrow> block \<Rightarrow> auth_details result"
    and verify :: "grp_input \<Rightarrow> auth_details \<Rightarrow> block \<Rightarrow> bool \<Rightarrow> (verification_result \<times> nat list) result"
  assumes create_complete: "create g k = Inr d \<Longrightarrow> None \<notin> set (grp_vecPacketSlots g)"
    and create_verifies: "create g k = Inr d \<Longrightarrow> \<exists>res ms. verify g d k b = Inr (res, ms) \<and> m_bPassed res"
    and passed_accepts_all: "verify g d k b = Inr (res, ms) \<Longrightarrow> m_bPassed res \<Longrightarrow>
      accepted res = {..<length (grp_vecPacketSlots g)}"
    and accepts_present: "verify g d k b = Inr (res, ms) \<Longrightarrow> i \<in> accepted res \<Longrightarrow>
      i < length (grp_vecPacketSlots g) \<and> grp_vecPacketSlots g ! i \<noteq> None"
    and measures_slots: "verify g d k b = Inr (res, ms) \<Longrightarrow>
      (b \<or> ms = []) \<and> (\<forall>i \<in> set ms. i < length (grp_vecPacketSlots g) \<or> i = 0)"
begin

lemma round_trip:
  assumes "create g k = Inr d"
  shows "\<exists>res ms. verify g d k b = Inr (res, ms) \<and> m_bPassed res
    \<and> accepted res = {..<length (grp_vecPacketSlots g)}"
  using create_verifies [OF assms, of b] passed_accepts_all by blast

lemma missing_packet_not_passed:
  assumes "verify g d k b = Inr (res, ms)" "None \<in> set (grp_vecPacketSlots g)"
  shows "\<not> m_bPassed res"
proof
  assume "m_bPassed res"
  from assms(2) obtain i where i: "i < length (grp_vecPacketSlots g)" "grp_vecPacketSlots g ! i = None"
    by (auto simp: in_set_conv_nth)
  then have "i \<in> accepted res" using passed_accepts_all [OF assms(1) \<open>m_bPassed res\<close>] by simp
  from accepts_present [OF assms(1) this] i show False by simp
qed

end

subsection \<open>The native strategy meets it\<close>

lemma native_verify_Inr:
  "native_verify crp g d key b = Inr (res, ms) \<longleftrightarrow>
   (\<exists>macs ok sts. d = NativeAuthenticationDetails macs
      \<and> length macs = length (grp_vecPacketSlots g)
      \<and> native_slots crp key b 0 (grp_vecPacketSlots g) macs (True, [], []) = Inr (ok, sts, ms)
      \<and> sts \<noteq> [] \<and> res = \<lparr>m_bPassed = ok, m_varDetails = NativeVerificationDetails sts\<rparr>)"
proof (cases d)
  case (NativeAuthenticationDetails macs)
  then show ?thesis
    by (cases "native_slots crp key b 0 (grp_vecPacketSlots g) macs (True, [], [])")
      (auto simp: native_verify_def nPacketSlotCount_def mkNativeVerificationDetails_def split: if_splits)
qed (simp add: native_verify_def)

lemma native_verify_spec:
  assumes "native_verify crp g d key b = Inr (res, ms)"
  obtains macs sts where "d = NativeAuthenticationDetails macs"
    "length macs = length (grp_vecPacketSlots g)" "sts \<noteq> []"
    "res = \<lparr>m_bPassed = (\<forall>s \<in> set sts. s = Passed), m_varDetails = NativeVerificationDetails sts\<rparr>"
    "sts = map2 (native_status crp key) (grp_vecPacketSlots g) macs"
proof -
  from assms obtain macs ok sts where d: "d = NativeAuthenticationDetails macs"
    and len: "length macs = length (grp_vecPacketSlots g)"
    and run: "native_slots crp key b 0 (grp_vecPacketSlots g) macs (True, [], []) = Inr (ok, sts, ms)"
    and ne: "sts \<noteq> []" and res: "res = \<lparr>m_bPassed = ok, m_varDetails = NativeVerificationDetails sts\<rparr>"
    unfolding native_verify_Inr by blast
  from native_slots_spec [OF len [symmetric] run]
  have st: "sts = map2 (native_status crp key) (grp_vecPacketSlots g) macs"
    and ok: "ok \<longleftrightarrow> (\<forall>s \<in> set sts. s = Passed)" by simp_all
  show thesis by (rule that [OF d len ne _ st]) (simp only: res ok)
qed

lemma native_slots_measures:
  "native_slots crp key bM n slots macs (ok, sts, ms) = Inr (ok', sts', ms') \<Longrightarrow>
   (\<not> bM \<longrightarrow> ms' = ms) \<and> set ms' \<subseteq> set ms \<union> {n..<n + length slots}"
proof (induction slots arbitrary: n macs ok sts ms)
  case Nil
  then show ?case by simp
next
  case (Cons s slots)
  have step: ?case if "native_slots crp key bM (Suc n) slots macs2 (ok2, sts2, ms2) = Inr (ok', sts', ms')"
    and "ms2 = ms \<or> bM \<and> ms2 = ms @ [n]" for macs2 ok2 sts2 ms2
  proof -
    have "set ms2 \<union> {Suc n..<Suc n + length slots} \<subseteq> set ms \<union> {n..<n + length (s # slots)}"
      using that(2) by auto
    with Cons.IH [OF that(1)] that(2) show ?thesis by blast
  qed
  show ?case
  proof (cases macs)
    case Nil
    with Cons.prems show ?thesis by (cases s) auto
  next
    case (Cons m macs2)
    note prem = Cons.prems [unfolded Cons]
    show ?thesis
    proof (cases s)
      case None
      show ?thesis by (rule step) (use prem None in auto)
    next
      case (Some p)
      show ?thesis
      proof (cases m)
        case None
        show ?thesis by (rule step) (use prem Some None in auto)
      next
        case m: (Some d)
        with prem Some obtain d' where d': "digComputePacketMac crp key p = Inr d'" by auto
        show ?thesis
          by (cases bM; cases "d' = d"; rule step) (use prem Some m d' in \<open>auto simp: Let_def\<close>)
      qed
    qed
  qed
qed

lemma native_mac_slot_Inr:
  "native_mac_slot crp key (Some p) = Inr m \<longleftrightarrow> (\<exists>d. digComputePacketMac crp key p = Inr d \<and> m = Some d)"
  by (auto simp: native_mac_slot_def optValue_def andThen_Inr_iff)

lemma native_create_ok:
  assumes "native_create crp g key = Inr d"
  obtains macs where "d = NativeAuthenticationDetails macs" "macs \<noteq> []" "None \<notin> set (grp_vecPacketSlots g)"
    "length macs = length (grp_vecPacketSlots g)"
    "\<And>i p. i < length macs \<Longrightarrow> grp_vecPacketSlots g ! i = Some p \<Longrightarrow>
      \<exists>m. macs ! i = Some m \<and> digComputePacketMac crp key p = Inr m"
proof -
  have n: "None \<notin> set (grp_vecPacketSlots g)"
    using assms
    by (cases "bHasMissingPackets g") (simp_all add: native_create_def bHasMissingPackets_iff)
  from assms obtain macs where m: "mapE (native_mac_slot crp key) (grp_vecPacketSlots g) = Inr macs"
    and mk: "mkNativeAuthenticationDetails macs = Inr d"
    by (cases "bHasMissingPackets g") (auto simp: native_create_def)
  show thesis
  proof (rule that)
    show "d = NativeAuthenticationDetails macs" "macs \<noteq> []"
      using mk by (auto simp: mkNativeAuthenticationDetails_def split: if_splits)
    show "None \<notin> set (grp_vecPacketSlots g)" by (fact n)
    show "length macs = length (grp_vecPacketSlots g)" using mapE_length [OF m] .
    show "\<exists>m. macs ! i = Some m \<and> digComputePacketMac crp key p = Inr m"
      if "i < length macs" "grp_vecPacketSlots g ! i = Some p" for i p
      using mapE_nth [OF m, of i] mapE_length [OF m] that by (auto simp: native_mac_slot_Inr)
  qed
qed

lemma native_create_verifies:
  assumes "native_create crp g k = Inr d"
  shows "\<exists>res ms. native_verify crp g d k b = Inr (res, ms) \<and> m_bPassed res"
proof -
  from assms obtain macs where m: "d = NativeAuthenticationDetails macs" "macs \<noteq> []"
    "None \<notin> set (grp_vecPacketSlots g)" "length macs = length (grp_vecPacketSlots g)"
    and eq: "\<And>i p. i < length macs \<Longrightarrow> grp_vecPacketSlots g ! i = Some p \<Longrightarrow>
      \<exists>m. macs ! i = Some m \<and> digComputePacketMac crp k p = Inr m"
    by (rule native_create_ok) blast
  have "\<exists>d. digComputePacketMac crp k p = Inr d" if p: "Some p \<in> set (grp_vecPacketSlots g)" for p
  proof -
    from p obtain i where "i < length macs" "grp_vecPacketSlots g ! i = Some p"
      using m(4) by (metis in_set_conv_nth)
    with eq show ?thesis by blast
  qed
  then obtain st where
    "native_slots crp k b 0 (grp_vecPacketSlots g) macs (True, [], []) = Inr st"
    using native_slots_total [OF m(4) [symmetric], of crp k b 0 True "[]" "[]"] by blast
  then obtain ok sts ms where
    run: "native_slots crp k b 0 (grp_vecPacketSlots g) macs (True, [], []) = Inr (ok, sts, ms)"
    by (cases st) auto
  note sp = native_slots_spec [OF m(4) [symmetric] run]
  have "native_status crp k s c = Passed" if sc: "(s, c) \<in> set (zip (grp_vecPacketSlots g) macs)" for s c
  proof -
    from sc obtain i where i: "i < length macs" "grp_vecPacketSlots g ! i = s" "macs ! i = c"
      by (auto simp: in_set_zip)
    then have "s \<noteq> None" using m(3,4) by (metis nth_mem)
    then obtain p where "s = Some p" by blast
    with eq [OF i(1)] i show ?thesis by (auto simp: native_status_def)
  qed
  then have "ok" using sp by auto
  moreover have "sts \<noteq> []" using sp m(2,4) by auto
  ultimately have "native_verify crp g d k b
      = Inr (\<lparr>m_bPassed = True, m_varDetails = NativeVerificationDetails sts\<rparr>, ms)"
    using m(1,4) run unfolding native_verify_Inr by blast
  then show ?thesis by (metis verification_result.select_convs(1))
qed

lemma native_accepted:
  assumes "native_verify crp g d key b = Inr (res, ms)" "d = NativeAuthenticationDetails macs"
  shows "accepted res = {i. i < length macs \<and>
    native_status crp key (grp_vecPacketSlots g ! i) (macs ! i) = Passed}"
  using assms by (elim native_verify_spec) (auto simp: accepted_def)

interpretation native: tesla_strategy "native_create crp" "native_verify crp" for crp
proof (unfold_locales, goal_cases)
  case (1 g k d)
  then show ?case by (rule native_create_ok)
next
  case (2 g k d b)
  then show ?case by (rule native_create_verifies)
next
  case (3 g d k b res ms)
  from 3(1) show ?case
  proof (rule native_verify_spec)
    fix macs sts
    assume *: "length macs = length (grp_vecPacketSlots g)"
      "res = \<lparr>m_bPassed = (\<forall>s \<in> set sts. s = Passed), m_varDetails = NativeVerificationDetails sts\<rparr>"
      "sts = map2 (native_status crp k) (grp_vecPacketSlots g) macs"
    then have "length sts = length (grp_vecPacketSlots g)" by simp
    moreover have "\<forall>i < length sts. sts ! i = Passed" using 3(2) *(2) by simp
    ultimately show ?thesis using *(2) by (auto simp: accepted_def)
  qed
next
  case (4 g d k b res ms i)
  from 4(1) show ?case
  proof (rule native_verify_spec)
    fix macs sts
    assume *: "d = NativeAuthenticationDetails macs" "length macs = length (grp_vecPacketSlots g)"
    from 4(2) native_accepted [OF 4(1) *(1)] *(2) show ?thesis
      by (auto simp: native_status_def)
  qed
next
  case (5 g d k b res ms)
  then obtain macs ok sts where
    "native_slots crp k b 0 (grp_vecPacketSlots g) macs (True, [], []) = Inr (ok, sts, ms)"
    unfolding native_verify_Inr by blast
  from native_slots_measures [OF this] show ?case by auto
qed

subsection \<open>So does the improved strategy\<close>

lemma vecComputePacketMacSlots_complete:
  assumes "vecComputePacketMacSlots crp g key = Inr slots" "None \<notin> set (grp_vecPacketSlots g)"
  shows "\<exists>macs. slots = map Some macs"
proof -
  have "slots ! i \<noteq> None" if "i < length slots" for i
  proof -
    have "grp_vecPacketSlots g ! i \<noteq> None"
      using assms(2) vecComputePacketMacSlots_ok(1) [OF assms(1)] that by (metis nth_mem)
    then obtain p where "grp_vecPacketSlots g ! i = Some p" by blast
    with vecComputePacketMacSlots_ok(3) [OF assms(1) that] show ?thesis by auto
  qed
  then have "map Some (map the slots) = slots" by (intro nth_equalityI) auto
  then show ?thesis by metis
qed

lemma improved_create_ok:
  assumes "improved_create crp mat g key = Inr d"
  obtains macs taus tag where "d = ImprovedAuthenticationDetails taus (Some tag)"
    "None \<notin> set (grp_vecPacketSlots g)" "length (grp_vecPacketSlots g) \<le> m_nGroupSize mat"
    "vecComputePacketMacSlots crp g key = Inr (map Some macs)" "vecAggregate crp mat macs = Inr taus"
    "digComputeFastGroupTag crp key g taus = Inr tag"
proof -
  have g: "\<not> bHasMissingPackets g" "length (grp_vecPacketSlots g) \<le> m_nGroupSize mat"
    using assms by (auto simp: improved_create_def nPacketSlotCount_def split: if_splits)
  from assms g obtain slots macs taus tag where "vecComputePacketMacSlots crp g key = Inr slots"
    "mapE optValue slots = Inr macs" "vecAggregate crp mat macs = Inr taus"
    "digComputeFastGroupTag crp key g taus = Inr tag"
    "d = ImprovedAuthenticationDetails taus (Some tag)"
    by (auto simp: improved_create_def nPacketSlotCount_def)
  with g that show thesis by (auto simp: mapE_optValue bHasMissingPackets_iff)
qed

text \<open>Every way \<open>vfyVerify\<close> of the improved strategy can return.\<close>

lemma improved_verify_cases:
  assumes "improved_verify crp mat g d key b = Inr (res, ms)"
  obtains
    (incomplete) taus optTag where "d = ImprovedAuthenticationDetails taus optTag"
      "length taus \<noteq> nRowCount mat \<or> optTag = None" "res = incomplete_tags_result"
  | (fast) taus tag where "d = ImprovedAuthenticationDetails taus (Some tag)"
      "length taus = nRowCount mat" "None \<notin> set (grp_vecPacketSlots g)"
      "digComputeFastGroupTag crp key g taus = Inr tag"
      "res = fast_pass_result (length (grp_vecPacketSlots g))"
  | (fallback) taus tag where "d = ImprovedAuthenticationDetails taus (Some tag)"
      "length taus = nRowCount mat"
      "None \<in> set (grp_vecPacketSlots g) \<or> digComputeFastGroupTag crp key g taus \<noteq> Inr tag"
      "improved_fallback crp mat g taus key = Inr res"
proof -
  obtain taus optTag where d: "d = ImprovedAuthenticationDetails taus optTag"
    using assms by (cases d) (simp_all add: improved_verify_def)
  with assms have n: "\<not> nPacketSlotCount g > m_nGroupSize mat"
    by (auto simp: improved_verify_def)
  note v = assms [unfolded improved_verify_def d Let_def auth_details.case if_not_P [OF n]]
  show thesis
  proof (cases "length taus = nRowCount mat \<and> (\<exists>tag. optTag = Some tag)")
    case False
    with v have "res = incomplete_tags_result" by (cases optTag) (auto split: bool.splits)
    with d False show thesis by (intro incomplete) auto
  next
    case True
    then obtain tag where t: "length taus = nRowCount mat" "optTag = Some tag" by blast
    show thesis
    proof (cases "bHasMissingPackets g")
      case miss: True
      with v t have "improved_fallback crp mat g taus key = Inr res" by auto
      with d t miss show thesis by (intro fallback) (auto simp: bHasMissingPackets_iff [symmetric])
    next
      case full: False
      with v t obtain tag' where tag': "digComputeFastGroupTag crp key g taus = Inr tag'" by auto
      show thesis
      proof (cases "tag' = tag")
        case True
        with v t full tag' have "res = fast_pass_result (length (grp_vecPacketSlots g))"
          by (auto simp: nPacketSlotCount_def)
        with d t full tag' True show thesis by (intro fast) (auto simp: bHasMissingPackets_iff)
      next
        case False
        with v t full tag' have "improved_fallback crp mat g taus key = Inr res" by auto
        with d t tag' False show thesis by (intro fallback) auto
      qed
    qed
  qed
qed

lemma improved_fallback_ok:
  assumes "improved_fallback crp mat g taus key = Inr res"
  obtains slots ks where "vecComputePacketMacSlots crp g key = Inr slots"
    "resVerify crp mat slots taus = Inr ks" "\<not> m_bPassed res"
    "m_varDetails res = ImprovedVerificationDetails
               \<lparr>m_pathVerification = KsRsFallback, m_bFastGroupTagMatched = False,
                m_vecAuthenticatedPositions = ks_vecGoodPositions ks,
                m_vecRejectedPositions = ks_vecBadPositions ks,
                m_bDetectionThresholdExceeded = ks_bDetectionThresholdExceeded ks,
                m_vecLocationSteps = ks_vecLocationSteps ks\<rparr>"
    "accepted res = set (ks_vecGoodPositions ks)"
  using assms by (auto simp: improved_fallback_def accepted_def)

lemma good_positions_present:
  assumes "resVerify crp mat slots taus = Inr ks" "i \<in> set (ks_vecGoodPositions ks)"
  shows "i < length slots \<and> slots ! i \<noteq> None"
  using assms(2) unfolding resVerify_scan(1) [OF assms(1)]
  by (auto simp: covered_def row_confirms_def)

interpretation improved: tesla_strategy "improved_create crp mat" "improved_verify crp mat" for crp mat
proof (unfold_locales, goal_cases)
  case (1 g k d)
  then show ?case by (rule improved_create_ok)
next
  case (2 g k d b)
  then obtain macs taus tag where d: "d = ImprovedAuthenticationDetails taus (Some tag)"
    and full: "None \<notin> set (grp_vecPacketSlots g)" "length (grp_vecPacketSlots g) \<le> m_nGroupSize mat"
    and agg: "vecAggregate crp mat macs = Inr taus"
    and tag: "digComputeFastGroupTag crp k g taus = Inr tag"
    by (rule improved_create_ok) blast
  have "improved_verify crp mat g d k b
      = Inr (fast_pass_result (length (grp_vecPacketSlots g)), if b then [0] else [])"
    using d full tag vecAggregate_ok(3) [OF agg]
    by (simp add: improved_verify_def Let_def nPacketSlotCount_def bHasMissingPackets_iff)
  then show ?case by (auto simp: fast_pass_result_def)
next
  case (3 g d k b res ms)
  from 3(1) show ?case
  proof (cases rule: improved_verify_cases)
    case incomplete
    with 3(2) show ?thesis by (simp add: incomplete_tags_result_def)
  next
    case fast
    then show ?thesis by (auto simp: accepted_def fast_pass_result_def)
  next
    case (fallback taus tag)
    from fallback(4) 3(2) show ?thesis by (auto elim: improved_fallback_ok)
  qed
next
  case (4 g d k b res ms i)
  from 4(1) show ?case
  proof (cases rule: improved_verify_cases)
    case incomplete
    with 4(2) show ?thesis by (simp add: accepted_def incomplete_tags_result_def)
  next
    case fast
    with 4(2) have "i < length (grp_vecPacketSlots g)" by (auto simp: accepted_def fast_pass_result_def)
    with fast(3) show ?thesis by (metis nth_mem)
  next
    case (fallback taus tag)
    from fallback(4) obtain slots ks where s: "vecComputePacketMacSlots crp g k = Inr slots"
      and "resVerify crp mat slots taus = Inr ks" "accepted res = set (ks_vecGoodPositions ks)"
      by (rule improved_fallback_ok)
    with 4(2) good_positions_present have i: "i < length slots" "slots ! i \<noteq> None" by blast+
    with vecComputePacketMacSlots_ok(1,2) [OF s] show ?thesis by metis
  qed
next
  case (5 g d k b res ms)
  have "ms = (if b then [0] else [])"
    using 5 by (cases d) (auto simp: improved_verify_def Let_def split: if_splits bool.splits option.splits)
  then show ?case by simp
qed

end
