(* ===== verification/EndToEnd.thy ===== *)
theory EndToEnd
  imports Strategies
begin

text \<open>
  From the sender's group to the receiver's verdict: what an accepted position means. The
  sender's details are those of \<open>native_create\<close> or \<open>improved_create\<close>; the receiver's group may
  hold other packets or none. An accepted packet that is not the sender's exhibits a collision
  of the hash or of the authentication code between two inputs of this very run; the three
  predicates say between which, and the lemmas find it.
\<close>

text \<open>The two packets of slot \<open>i\<close> have different encodings with one code under the packet key
  derived from the interval's key.\<close>

definition packetsCollide :: "crypto_provider \<Rightarrow> block \<Rightarrow> grp_input \<Rightarrow> grp_input \<Rightarrow> nat \<Rightarrow> bool" where
  "packetsCollide crp k g g' i \<longleftrightarrow>
     (\<exists>p q mk. grp_vecPacketSlots g ! i = Some p \<and> grp_vecPacketSlots g' ! i = Some q
        \<and> digDerivePacketMacKey crp k = Inr mk
        \<and> mac_collision crp mk (vecEncodePacketMacInput p) (vecEncodePacketMacInput q))"

text \<open>The two groups, with the row tags of the details, have different encodings with one tag under
  the group key derived from the interval's key.\<close>

definition groupsCollide :: "crypto_provider \<Rightarrow> block \<Rightarrow> auth_details \<Rightarrow> grp_input \<Rightarrow> grp_input \<Rightarrow> bool" where
  "groupsCollide crp k d g g' \<longleftrightarrow>
     (\<exists>taus optTag fk e e'. d = ImprovedAuthenticationDetails taus optTag \<and> digDeriveFastGroupKey crp k = Inr fk
        \<and> vecEncodeFastGroupInput g taus = Inr e \<and> vecEncodeFastGroupInput g' taus = Inr e'
        \<and> mac_collision crp fk e e')"

text \<open>In a row of the matrix that tests position \<open>i\<close> and whose packets have all come, the codes of the received packets and those of the
  sent packets aggregate from different inputs to one digest.\<close>

definition rowsCollide :: "crypto_provider \<Rightarrow> ksrs_matrix \<Rightarrow> block \<Rightarrow> grp_input \<Rightarrow> grp_input \<Rightarrow> nat \<Rightarrow> bool" where
  "rowsCollide crp mat k g g' i \<longleftrightarrow>
     (\<exists>macs slots r. vecComputePacketMacSlots crp g k = Inr (map Some macs)
        \<and> vecComputePacketMacSlots crp g' k = Inr slots \<and> r < nRowCount mat \<and> m_vecRows mat ! r ! i
        \<and> None \<notin> (!) slots ` set (row_positions mat (length slots) r)
        \<and> digest_collision crp (aggregateInput (map (\<lambda>p. the (slots ! p)) (row_positions mat (length slots) r)))
            (aggregateInput (map ((!) macs) (row_positions mat (length macs) r))))"

lemma group_packet_ok:
  assumes "grp_ok g" "i < length (grp_vecPacketSlots g)" "grp_vecPacketSlots g ! i = Some p"
  shows "pkt_ok p"
proof -
  from assms have "slot_ok g i p" by (simp add: grp_ok_def)
  with assms(1) show ?thesis
    by (auto simp: grp_ok_def slot_ok_def pkt_ok_def unat_eq_zero)
qed

lemma same_packet_mac:
  assumes "grp_ok g" "grp_ok g'" "i < length (grp_vecPacketSlots g)" "i < length (grp_vecPacketSlots g')"
    and "grp_vecPacketSlots g ! i = Some p" "grp_vecPacketSlots g' ! i = Some q"
    and "digComputePacketMac crp k p = Inr d" "digComputePacketMac crp k q = Inr d"
  shows "grp_vecPacketSlots g' ! i = grp_vecPacketSlots g ! i \<or> packetsCollide crp k g g' i"
proof (cases "p = q")
  case False
  from packet_mac_binds [OF group_packet_ok [OF assms(1,3,5)] group_packet_ok [OF assms(2,4,6)] this assms(7,8)]
  show ?thesis using assms(5,6) by (auto simp: packetsCollide_def)
qed (simp add: assms(5,6))

text \<open>Accepted by its own code (Native TESLA).\<close>

lemma native_accepts_sent:
  assumes create: "native_create crp g k = Inr d" and verify: "native_verify crp g' d k b = Inr (res, ms)"
    and ok: "grp_ok g" "grp_ok g'" and i: "i \<in> accepted res"
  shows "grp_vecPacketSlots g' ! i = grp_vecPacketSlots g ! i \<or> packetsCollide crp k g g' i"
proof -
  obtain macs where macs: "d = NativeAuthenticationDetails macs" "None \<notin> set (grp_vecPacketSlots g)"
    "length macs = length (grp_vecPacketSlots g)"
    "\<And>i p. i < length macs \<Longrightarrow> grp_vecPacketSlots g ! i = Some p \<Longrightarrow>
      \<exists>m. macs ! i = Some m \<and> digComputePacketMac crp k p = Inr m"
    using native_create_ok [OF create] by metis
  from i native_accepted [OF verify macs(1)] have
    "i < length macs" and st: "native_status crp k (grp_vecPacketSlots g' ! i) (macs ! i) = Passed"
    by simp_all
  obtain p where p: "grp_vecPacketSlots g ! i = Some p"
    using macs(2,3) \<open>i < length macs\<close> by (metis nth_mem not_None_eq)
  from macs(4) [OF \<open>i < length macs\<close> p] obtain m where
    m: "macs ! i = Some m" "digComputePacketMac crp k p = Inr m" by blast
  from st m obtain q where q: "grp_vecPacketSlots g' ! i = Some q" "digComputePacketMac crp k q = Inr m"
    by (auto simp: native_status_def split: option.splits if_splits)
  have i': "i < length (grp_vecPacketSlots g')" "i < length (grp_vecPacketSlots g)"
    using native.accepts_present [OF verify i] macs(3) \<open>i < length macs\<close> by simp_all
  show ?thesis by (rule same_packet_mac [OF ok i'(2,1) p q(1) m(2) q(2)])
qed

text \<open>Accepted by the group tag (Improved TESLA): the whole group is the sender's.\<close>

lemma fast_pass_same_group:
  assumes "grp_ok g" "grp_ok g'" "digComputeFastGroupTag crp k g taus = Inr tag"
    "digComputeFastGroupTag crp k g' taus = Inr tag"
  shows "g = g' \<or> groupsCollide crp k (ImprovedAuthenticationDetails taus optTag) g g'"
  using fast_tag_binds [OF assms(1,2) _ assms(3,4)] by (auto simp: groupsCollide_def)

text \<open>Accepted through a row of the matrix.\<close>

lemma fallback_same_packet:
  assumes macs: "vecComputePacketMacSlots crp g k = Inr (map Some macs)"
    and agg: "vecAggregate crp mat macs = Inr taus"
    and slots: "vecComputePacketMacSlots crp g' k = Inr slots" and run: "resVerify crp mat slots taus = Inr ks"
    and ok: "grp_ok g" "grp_ok g'" and len: "length (grp_vecPacketSlots g') = length (grp_vecPacketSlots g)"
    and i: "i \<in> set (ks_vecGoodPositions ks)"
  shows "grp_vecPacketSlots g' ! i = grp_vecPacketSlots g ! i \<or> packetsCollide crp k g g' i
    \<or> rowsCollide crp mat k g g' i"
proof -
  note S = vecComputePacketMacSlots_ok [OF macs] and R = vecComputePacketMacSlots_ok [OF slots]
  have ls: "length slots = length macs" using S(1) R(1) len by simp
  from good_positions_present [OF run i] obtain m where
    "i < length slots" and m: "slots ! i = Some m" by blast
  show ?thesis
  proof (cases "m = macs ! i")
    case False
    with m have "slots ! i \<noteq> Some (macs ! i)" by simp
    with resVerify_sound [OF agg ls run i] macs slots show ?thesis unfolding rowsCollide_def by blast
  next
    case True
    have j: "i < length (grp_vecPacketSlots g)" "i < length (grp_vecPacketSlots g')"
      using \<open>i < length slots\<close> R(1) len by simp_all
    obtain q where q: "grp_vecPacketSlots g' ! i = Some q"
      using R(2) [OF \<open>i < length slots\<close>] m by (cases "grp_vecPacketSlots g' ! i") auto
    obtain p where p: "grp_vecPacketSlots g ! i = Some p"
      using S(2) [of i] \<open>i < length slots\<close> ls by (cases "grp_vecPacketSlots g ! i") auto
    have "digComputePacketMac crp k q = Inr m" "digComputePacketMac crp k p = Inr m"
      using R(3) [OF \<open>i < length slots\<close> q] S(3) [OF _ p] m True \<open>i < length slots\<close> ls by auto
    from same_packet_mac [OF ok j p q this(2,1)] show ?thesis by blast
  qed
qed

lemma improved_accepts_sent:
  assumes create: "improved_create crp mat g k = Inr d"
    and verify: "improved_verify crp mat g' d k b = Inr (res, ms)"
    and ok: "grp_ok g" "grp_ok g'" and len: "length (grp_vecPacketSlots g') = length (grp_vecPacketSlots g)"
    and i: "i \<in> accepted res"
  shows "grp_vecPacketSlots g' ! i = grp_vecPacketSlots g ! i \<or> packetsCollide crp k g g' i
    \<or> groupsCollide crp k d g g' \<or> rowsCollide crp mat k g g' i"
proof -
  obtain macs taus tag where d: "d = ImprovedAuthenticationDetails taus (Some tag)"
    "vecComputePacketMacSlots crp g k = Inr (map Some macs)" "vecAggregate crp mat macs = Inr taus"
    "digComputeFastGroupTag crp k g taus = Inr tag"
    using improved_create_ok [OF create] by metis
  from verify show ?thesis
  proof (cases rule: improved_verify_cases)
    case (incomplete taus' optTag)
    with i show ?thesis by (simp add: accepted_def incomplete_tags_result_def)
  next
    case (fast taus' tag')
    with d have "digComputeFastGroupTag crp k g' taus = Inr tag" by simp
    from fast_pass_same_group [OF ok d(4) this, of "Some tag"] d(1) show ?thesis by auto
  next
    case (fallback taus' tag')
    with d(1) have fb: "improved_fallback crp mat g' taus k = Inr res" by simp
    obtain slots ks where f: "vecComputePacketMacSlots crp g' k = Inr slots"
      "resVerify crp mat slots taus = Inr ks" "accepted res = set (ks_vecGoodPositions ks)"
      using improved_fallback_ok [OF fb] by metis
    from i f(3) have "i \<in> set (ks_vecGoodPositions ks)" by simp
    from fallback_same_packet [OF d(2,3) f(1,2) ok len this] show ?thesis by blast
  qed
qed

text \<open>Forging a disclosed key needs a collision of the chain's hash on the way from the keys to the commitment.\<close>

lemma two_keys_one_commitment:
  assumes "bVerifyDisclosedKey crp a n c = Inr True" "bVerifyDisclosedKey crp b n c = Inr True"
  shows "a = b \<or> (\<exists>j < n. \<exists>x y. hashTimes crp j a = Inr x \<and> hashTimes crp j b = Inr y \<and> hash_collision crp x y)"
proof -
  from assms have "hashTimes crp n a = Inr c" "hashTimes crp n b = Inr c"
    by (auto simp: bVerifyDisclosedKey_def)
  then show ?thesis using hashTimes_collision by blast
qed

end
