(* ===== verification/Machines.thy ===== *)
theory Machines
  imports Prelude
begin

text \<open>
  The contract of a stateful object whose operations either do their work or throw and leave the
  object as it was. \<open>run_ops\<close> is a history of calls whose exceptions the caller has caught. The
  locale \<open>guarded_machine\<close> proves once that such a history keeps the object's invariant and that
  the refused calls could as well not have been made.
\<close>

fun run_ops :: "('op \<Rightarrow> 's \<Rightarrow> 'r result \<times> 's) \<Rightarrow> 'op list \<Rightarrow> 's \<Rightarrow> 's" where
  "run_ops step [] s = s"
| "run_ops step (op # ops) s = run_ops step ops (snd (step op s))"

text \<open>The calls of a history that returned.\<close>

fun returned_ops :: "('op \<Rightarrow> 's \<Rightarrow> 'r result \<times> 's) \<Rightarrow> 'op list \<Rightarrow> 's \<Rightarrow> 'op list" where
  "returned_ops step [] s = []"
| "returned_ops step (op # ops) s =
     (case step op s of
        (Inl _, s') \<Rightarrow> returned_ops step ops s'
      | (Inr _, s') \<Rightarrow> op # returned_ops step ops s')"

lemma run_ops_append: "run_ops step (xs @ ys) s = run_ops step ys (run_ops step xs s)"
  by (induction xs arbitrary: s) simp_all

locale guarded_machine =
  fixes step :: "'op \<Rightarrow> 's \<Rightarrow> 'r result \<times> 's"
    and inv :: "'s \<Rightarrow> bool"
    and start :: 's
  assumes inv_start: "inv start"
    and step_inv: "inv s \<Longrightarrow> inv (snd (step op s))"
    and error_keeps: "inv s \<Longrightarrow> fst (step op s) = Inl e \<Longrightarrow> snd (step op s) = s"
begin

lemma run_inv_from: "inv s \<Longrightarrow> inv (run_ops step ops s)"
  by (induction ops arbitrary: s) (simp_all add: step_inv)

lemma run_inv: "inv (run_ops step ops start)"
  by (rule run_inv_from [OF inv_start])

lemma refused_invisible_from:
  "inv s \<Longrightarrow> run_ops step (returned_ops step ops s) s = run_ops step ops s"
proof (induction ops arbitrary: s)
  case Nil
  then show ?case by simp
next
  case (Cons op ops)
  have inv': "inv (snd (step op s))" by (rule step_inv [OF Cons.prems])
  obtain r s' where r: "step op s = (r, s')" by (cases "step op s")
  show ?case
  proof (cases r)
    case (Inl e)
    with error_keeps [OF Cons.prems, of op e] r have "s' = s" by simp
    with Cons.IH [OF Cons.prems] r Inl show ?thesis by simp
  next
    case (Inr x)
    with Cons.IH [of s'] inv' r show ?thesis by simp
  qed
qed

lemma refused_invisible: "run_ops step (returned_ops step ops start) start = run_ops step ops start"
  by (rule refused_invisible_from [OF inv_start])

end

end
