(* ===== verification/Codec.thy ===== *)
theory Codec
  imports Bytes
begin

text \<open>
  \<open>ProtocolTypes.h\<close>: the structured decode errors every protocol decoder returns, and the
  contract of a codec that is a bijection between well-formed values and the byte strings it
  accepts. Both wire formats of the program (TCP frames, UDP authentication packets) are
  shown to meet it.
\<close>

datatype ProtocolDecodeErrorCode =
    InvalidFrameLength
  | FrameTooLarge
  | UnsupportedFrameType
  | InvalidJsonPayload
  | InvalidFileChunk
  | InvalidControlMessage
  | InvalidDiscoveryMessage
  | DatagramTooShort
  | DatagramLengthMismatch
  | InvalidAuthenticationContext
  | InvalidPacketIndex
  | InvalidIntervalIndex
  | InvalidAuthenticationFields

record decode_error =
  m_errCode :: ProtocolDecodeErrorCode
  m_strMessage :: string

type_synonym 'a decoded = "decode_error + 'a"

definition errCreate :: "ProtocolDecodeErrorCode \<Rightarrow> string \<Rightarrow> 'a decoded" where
  "errCreate errCode strMessage = Inl \<lparr>m_errCode = errCode, m_strMessage = strMessage\<rparr>"

lemma errCreate_not_Inr [simp]: "errCreate c m \<noteq> Inr x" "Inr x \<noteq> errCreate c m"
  by (simp_all add: errCreate_def)

text \<open>The handlers around the decoders: which exceptions become which decode error.\<close>

definition catchOutOfRange :: "'a decoded result \<Rightarrow> 'a decoded \<Rightarrow> 'a decoded result" where
  "catchOutOfRange m onError =
     (case m of Inl (OutOfRange _) \<Rightarrow> Inr onError | Inl e \<Rightarrow> Inl e | Inr x \<Rightarrow> Inr x)"

definition catchInvalidArgument :: "'a decoded result \<Rightarrow> (string \<Rightarrow> 'a decoded) \<Rightarrow> 'a decoded result" where
  "catchInvalidArgument m onError =
     (case m of Inl (InvalidArgument w) \<Rightarrow> Inr (onError w) | Inl e \<Rightarrow> Inl e | Inr x \<Rightarrow> Inr x)"

lemma catch_simps [simp]:
  "catchOutOfRange (Inr x) h = Inr x" "catchOutOfRange (Inl (OutOfRange w)) h = Inr h"
  "catchInvalidArgument (Inr x) k = Inr x" "catchInvalidArgument (Inl (InvalidArgument w)) k = Inr (k w)"
  by (simp_all add: catchOutOfRange_def catchInvalidArgument_def)

lemma catchOutOfRange_decoded:
  "catchOutOfRange m (errCreate c w) = Inr (Inr x) \<longleftrightarrow> m = Inr (Inr x)"
  by (auto simp: catchOutOfRange_def split: sum.splits exn.splits)

lemma catchInvalidArgument_decoded:
  "catchInvalidArgument m (errCreate c) = Inr (Inr x) \<longleftrightarrow> m = Inr (Inr x)"
  by (auto simp: catchInvalidArgument_def split: sum.splits exn.splits)

locale codec =
  fixes wf :: "'v \<Rightarrow> bool"
    and encode :: "'v \<Rightarrow> byte list result"
    and decode :: "byte list \<Rightarrow> 'v decoded result"
  assumes decode_encode: "wf v \<Longrightarrow> encode v = Inr bs \<Longrightarrow> decode bs = Inr (Inr v)"
    and encode_decode: "decode bs = Inr (Inr v) \<Longrightarrow> wf v \<and> encode v = Inr bs"
    and decode_total: "\<exists>d. decode bs = Inr d"
begin

lemma encode_inject: "wf v \<Longrightarrow> wf w \<Longrightarrow> encode v = Inr bs \<Longrightarrow> encode w = Inr bs \<Longrightarrow> v = w"
  using decode_encode by (metis sum.inject(2))

lemma decode_inject: "decode bs = Inr (Inr v) \<Longrightarrow> decode bs' = Inr (Inr v) \<Longrightarrow> bs = bs'"
  using encode_decode by (metis sum.inject(2))

lemma accepts_iff: "decode bs = Inr (Inr v) \<longleftrightarrow> wf v \<and> encode v = Inr bs"
  using decode_encode encode_decode by blast

lemma rejects_iff:
  "(\<exists>e. decode bs = Inr (Inl e)) \<longleftrightarrow> \<not> (\<exists>v. wf v \<and> encode v = Inr bs)"
proof -
  obtain d where "decode bs = Inr d" using decode_total by blast
  then show ?thesis using accepts_iff [of bs] by (cases d) auto
qed

end

end
