(* ===== verification/TcpFraming.thy ===== *)
theory TcpFraming
  imports Codec PacketInput
begin

text \<open>
  \<open>TcpFrame.cpp\<close>: control and file-chunk frames, their codec, and the stream decoder that
  reassembles frames from arbitrary \<open>recv\<close> fragments. \<open>bJsonObject\<close> stands for the JSON parser
  (nlohmann): whether the bytes are one JSON object. The codec is a bijection onto the frames
  that exist, and the decoder's output does not depend on how the stream was cut.
\<close>

section \<open>Frames\<close>

record file_chunk =
  m_u64ChainId :: u64
  m_u32ChunkIndex :: u32
  m_vecData :: "byte list"

datatype tcp_frame =
    JsonControlFrame "byte list"
  | FileChunkFrame file_chunk

definition mkJsonControlFramePayload :: "(byte list \<Rightarrow> bool) \<Rightarrow> byte list \<Rightarrow> byte list result" where
  "mkJsonControlFramePayload bJsonObject strJson =
     (if \<not> bJsonObject strJson
      then Inl (InvalidArgument ''JSON control payload must be one valid object'')
      else Inr strJson)"

definition mkFileBinaryChunk :: "u64 \<Rightarrow> u32 \<Rightarrow> byte list \<Rightarrow> file_chunk result" where
  "mkFileBinaryChunk u64ChainId u32ChunkIndex vecData =
     (if u64ChainId = 0 then Inl (InvalidArgument ''File chunk chain ID must not be zero'')
      else if u32ChunkIndex = 0 then Inl (InvalidArgument ''File chunk index must start at one'')
      else if vecData = [] then Inl (InvalidArgument ''File chunk data must not be empty'')
      else if length vecData > U32_MAX then Inl (InvalidArgument ''File chunk data is too large'')
      else Inr \<lparr>m_u64ChainId = u64ChainId, m_u32ChunkIndex = u32ChunkIndex, m_vecData = vecData\<rparr>)"

fun frame_type :: "tcp_frame \<Rightarrow> byte" where
  "frame_type (JsonControlFrame _) = 0x01"
| "frame_type (FileChunkFrame _) = 0x02"

fun framePayload :: "tcp_frame \<Rightarrow> byte list" where
  "framePayload (JsonControlFrame json) = json"
| "framePayload (FileChunkFrame chk) =
     (let vecPayload = appendUint64 [] (m_u64ChainId chk);
          vecPayload = appendUint32 vecPayload (m_u32ChunkIndex chk);
          vecPayload = appendUint32 vecPayload (of_nat (length (m_vecData chk)))
      in appendBytes vecPayload (m_vecData chk))"

definition LENGTH_PREFIX_SIZE :: nat where "LENGTH_PREFIX_SIZE = 4"

definition TYPE_SIZE :: nat where "TYPE_SIZE = 1"

definition tcp_vecEncode :: "tcp_frame \<Rightarrow> byte list result" where
  "tcp_vecEncode frmFrame =
     (let vecPayload = framePayload frmFrame in
      if length vecPayload > U32_MAX - TYPE_SIZE
      then Inl (LengthError ''TCP frame payload is too large'')
      else
        (let vecFrame = appendUint32 [] (of_nat (TYPE_SIZE + length vecPayload));
             vecFrame = vecFrame @ [frame_type frmFrame]
         in Inr (appendBytes vecFrame vecPayload)))"

definition decodeFileChunk :: "byte list \<Rightarrow> tcp_frame decoded result" where
  "decodeFileChunk vecPayload =
     (if length vecPayload < 16
      then Inr (errCreate InvalidFileChunk ''TCP file chunk is shorter than its fixed header'')
      else
        andThen (u64Read (BinaryReader vecPayload)) (\<lambda>(u64ChainId, rdr).
          andThen (u32Read rdr) (\<lambda>(u32ChunkIndex, rdr).
            andThen (u32Read rdr) (\<lambda>(u32DataLength, rdr).
              if unat u32DataLength \<noteq> nRemaining rdr
              then Inr (errCreate InvalidFileChunk
                     ''TCP file chunk data length does not match its payload'')
              else catchInvalidArgument
                (andThen (vecRead (unat u32DataLength) rdr) (\<lambda>(vecData, rdr).
                   andThen (mkFileBinaryChunk u64ChainId u32ChunkIndex vecData) (\<lambda>chk.
                     Inr (Inr (FileChunkFrame chk)))))
                (errCreate InvalidFileChunk)))))"

definition tcp_resDecode :: "(byte list \<Rightarrow> bool) \<Rightarrow> byte list \<Rightarrow> tcp_frame decoded result" where
  "tcp_resDecode bJsonObject vecFrameBytes =
     (if length vecFrameBytes < LENGTH_PREFIX_SIZE + TYPE_SIZE
      then Inr (errCreate InvalidFrameLength
             ''TCP frame is shorter than its length prefix and type'')
      else catchOutOfRange
        (andThen (u32Read (BinaryReader vecFrameBytes)) (\<lambda>(u32FrameLength, rdr).
           if unat u32FrameLength < TYPE_SIZE
              \<or> unat u32FrameLength \<noteq> length vecFrameBytes - LENGTH_PREFIX_SIZE
           then Inr (errCreate InvalidFrameLength
                  ''TCP frame length prefix does not match the supplied bytes'')
           else
             andThen (arrRead1 rdr) (\<lambda>(u8FrameType, rdr).
               andThen (vecRead (nRemaining rdr) rdr) (\<lambda>(vecPayload, rdr).
                 if u8FrameType = 0x01
                 then catchInvalidArgument
                   (andThen (mkJsonControlFramePayload bJsonObject vecPayload) (\<lambda>json.
                      Inr (Inr (JsonControlFrame json))))
                   (\<lambda>_. errCreate InvalidJsonPayload
                      ''TCP JSON control payload is not one valid object'')
                 else if u8FrameType \<noteq> 0x02
                 then Inr (errCreate UnsupportedFrameType ''TCP frame type is not supported'')
                 else decodeFileChunk vecPayload))))
        (errCreate InvalidFrameLength ''TCP frame ended inside a declared field''))"

section \<open>The codec is exact\<close>

definition chunk_ok :: "file_chunk \<Rightarrow> bool" where
  "chunk_ok c \<longleftrightarrow> m_u64ChainId c \<noteq> 0 \<and> m_u32ChunkIndex c \<noteq> 0 \<and> m_vecData c \<noteq> []
     \<and> length (m_vecData c) \<le> U32_MAX"

fun frame_ok :: "(byte list \<Rightarrow> bool) \<Rightarrow> tcp_frame \<Rightarrow> bool" where
  "frame_ok jsn (JsonControlFrame json) = jsn json"
| "frame_ok jsn (FileChunkFrame c) = chunk_ok c"

lemma mkFileBinaryChunk_Inr:
  "mkFileBinaryChunk a b xs = Inr c \<longleftrightarrow>
     c = \<lparr>m_u64ChainId = a, m_u32ChunkIndex = b, m_vecData = xs\<rparr> \<and> chunk_ok c"
  by (auto simp: mkFileBinaryChunk_def chunk_ok_def)

lemma mkFileBinaryChunk_total:
  "(\<exists>c. mkFileBinaryChunk a b xs = Inr c) \<or> (\<exists>w. mkFileBinaryChunk a b xs = Inl (InvalidArgument w))"
  by (auto simp: mkFileBinaryChunk_def)

lemma chunk_payload:
  "framePayload (FileChunkFrame c) = appendUint64 [] (m_u64ChainId c)
     @ appendUint32 [] (m_u32ChunkIndex c) @ appendUint32 [] (of_nat (length (m_vecData c))) @ m_vecData c"
proof -
  have "appendUint32 (appendUint32 x a) b = x @ appendUint32 [] a @ appendUint32 [] b" for x a b
    by (subst append_into_empty(3), subst append_into_empty(3)) simp
  then show ?thesis by (simp add: Let_def appendBytes_def)
qed

lemma tcp_vecEncode_Inr:
  "tcp_vecEncode f = Inr bs \<longleftrightarrow> length (framePayload f) < U32_MAX
     \<and> bs = appendUint32 [] (of_nat (Suc (length (framePayload f)))) @ frame_type f # framePayload f"
  by (auto simp: tcp_vecEncode_def Let_def TYPE_SIZE_def U32_MAX_def appendBytes_def)

lemma unat_u32_of_nat: "n \<le> U32_MAX \<Longrightarrow> unat (of_nat n :: u32) = n"
  by (simp add: unat_of_nat U32_MAX_def)

lemma vecRead_all: "n = nRemaining r \<Longrightarrow> \<exists>r'. vecRead n r = Inr (rest r, r')"
  by (simp add: vecRead_def ensureAvailable_eq nRemaining_rest rest_def)

lemma decodeFileChunk_total: "\<exists>d. decodeFileChunk xs = Inr d"
proof (cases "length xs < 16")
  case True
  then show ?thesis by (simp add: decodeFileChunk_def)
next
  case False
  let ?r = "BinaryReader xs"
  have "8 \<le> length (rest ?r)" using False by simp
  then obtain a r1 where a: "u64Read ?r = Inr (a, r1)" using u64f.get_total by blast
  then have l1: "length (rest r1) = length xs - 8" using u64f.put_get [OF a] by simp
  moreover have "4 \<le> length xs - 8" "4 \<le> length xs - 12" using False by simp_all
  ultimately obtain b r2 where b: "u32Read r1 = Inr (b, r2)" using u32f.get_total [of r1] by auto
  then have l2: "length (rest r2) = length xs - 12" using u32f.put_get [OF b] l1 by simp
  then obtain n r3 where n: "u32Read r2 = Inr (n, r3)"
    using u32f.get_total [of r2] \<open>4 \<le> length xs - 12\<close> by auto
  show ?thesis
  proof (cases "unat n = nRemaining r3")
    case False
    with \<open>\<not> length xs < 16\<close> a b n show ?thesis by (simp add: decodeFileChunk_def)
  next
    case True
    then obtain r4 where "vecRead (unat n) r3 = Inr (rest r3, r4)" using vecRead_all by blast
    with mkFileBinaryChunk_total [of a b "rest r3"] \<open>\<not> length xs < 16\<close> a b n True show ?thesis
      by (auto simp: decodeFileChunk_def)
  qed
qed

lemma decodeFileChunk_decoded:
  "decodeFileChunk xs = Inr (Inr f) \<longleftrightarrow>
     (\<exists>c. f = FileChunkFrame c \<and> chunk_ok c \<and> xs = framePayload (FileChunkFrame c))"
proof
  assume d: "decodeFileChunk xs = Inr (Inr f)"
  then have n16: "\<not> length xs < 16" by (auto simp: decodeFileChunk_def)
  with d obtain a r1 b r2 n r3 where a: "u64Read (BinaryReader xs) = Inr (a, r1)"
    and b: "u32Read r1 = Inr (b, r2)" and n: "u32Read r2 = Inr (n, r3)"
    and fin: "(if unat n \<noteq> nRemaining r3
         then Inr (errCreate InvalidFileChunk ''TCP file chunk data length does not match its payload'')
         else catchInvalidArgument
           (andThen (vecRead (unat n) r3) (\<lambda>(vecData, rdr).
              andThen (mkFileBinaryChunk a b vecData) (\<lambda>chk. Inr (Inr (FileChunkFrame chk)))))
           (errCreate InvalidFileChunk)) = Inr (Inr f)"
    unfolding decodeFileChunk_def by (simp only: if_False) (elim andThen_InrE; fastforce)
  have len: "unat n = nRemaining r3" using fin by (auto split: if_splits)
  obtain r4 where v: "vecRead (unat n) r3 = Inr (rest r3, r4)" using vecRead_all [OF len] by blast
  with fin len obtain c where c: "mkFileBinaryChunk a b (rest r3) = Inr c" "f = FileChunkFrame c"
    by (auto simp: catchInvalidArgument_decoded andThen_Inr_iff)
  then have ok: "c = \<lparr>m_u64ChainId = a, m_u32ChunkIndex = b, m_vecData = rest r3\<rparr>" "chunk_ok c"
    by (auto simp: mkFileBinaryChunk_Inr)
  have "xs = appendUint64 [] a @ appendUint32 [] b @ appendUint32 [] n @ rest r3"
    using u64f.put_get [OF a] u32f.put_get [OF b] u32f.put_get [OF n] by simp
  moreover have "n = of_nat (length (rest r3))"
    using len by (metis nRemaining_rest of_nat_unat ucast_id)
  ultimately have "xs = framePayload (FileChunkFrame c)" using ok(1) chunk_payload [of c] by simp
  with c(2) ok(2) show "\<exists>c. f = FileChunkFrame c \<and> chunk_ok c \<and> xs = framePayload (FileChunkFrame c)"
    by blast
next
  assume "\<exists>c. f = FileChunkFrame c \<and> chunk_ok c \<and> xs = framePayload (FileChunkFrame c)"
  then obtain c where c: "f = FileChunkFrame c" "chunk_ok c" and xs: "xs = framePayload (FileChunkFrame c)"
    by blast
  note p = xs [unfolded chunk_payload]
  obtain r1 where a: "u64Read (BinaryReader xs) = Inr (m_u64ChainId c, r1)"
    and r1: "rest r1 = appendUint32 [] (m_u32ChunkIndex c)
      @ appendUint32 [] (of_nat (length (m_vecData c))) @ m_vecData c"
    using u64f.get_put [of "BinaryReader xs"] p by (metis rest_BinaryReader)
  obtain r2 where b: "u32Read r1 = Inr (m_u32ChunkIndex c, r2)"
    and r2: "rest r2 = appendUint32 [] (of_nat (length (m_vecData c))) @ m_vecData c"
    using u32f.get_put [OF r1] by metis
  obtain r3 where n: "u32Read r2 = Inr (of_nat (length (m_vecData c)), r3)" and r3: "rest r3 = m_vecData c"
    using u32f.get_put [OF r2] by metis
  have len: "unat (of_nat (length (m_vecData c)) :: u32) = nRemaining r3"
    using c(2) by (simp add: nRemaining_rest r3 unat_u32_of_nat chunk_ok_def)
  then obtain r4 where "vecRead (unat (of_nat (length (m_vecData c)) :: u32)) r3 = Inr (m_vecData c, r4)"
    using vecRead_all r3 by metis
  moreover have "mkFileBinaryChunk (m_u64ChainId c) (m_u32ChunkIndex c) (m_vecData c) = Inr c"
    using c(2) by (simp add: mkFileBinaryChunk_Inr)
  moreover have "\<not> length xs < 16" unfolding p by simp
  ultimately show "decodeFileChunk xs = Inr (Inr f)"
    using a b n len c(1) by (simp add: decodeFileChunk_def)
qed

text \<open>What the decoder does once the length prefix has been read and matches.\<close>

definition decodeBody :: "(byte list \<Rightarrow> bool) \<Rightarrow> byte \<Rightarrow> byte list \<Rightarrow> tcp_frame decoded result" where
  "decodeBody jsn u8FrameType vecPayload =
     (if u8FrameType = 0x01
      then if jsn vecPayload then Inr (Inr (JsonControlFrame vecPayload))
           else Inr (errCreate InvalidJsonPayload ''TCP JSON control payload is not one valid object'')
      else if u8FrameType \<noteq> 0x02
      then Inr (errCreate UnsupportedFrameType ''TCP frame type is not supported'')
      else decodeFileChunk vecPayload)"

lemma json_branch:
  "catchInvalidArgument
      (andThen (mkJsonControlFramePayload jsn xs) (\<lambda>json. Inr (Inr (JsonControlFrame json))))
      (\<lambda>_. errCreate InvalidJsonPayload ''TCP JSON control payload is not one valid object'')
    = (if jsn xs then Inr (Inr (JsonControlFrame xs))
       else Inr (errCreate InvalidJsonPayload ''TCP JSON control payload is not one valid object''))"
  by (simp add: mkJsonControlFramePayload_def)

lemma decodeBody_total: "\<exists>d. decodeBody jsn t xs = Inr d"
  using decodeFileChunk_total [of xs] by (auto simp: decodeBody_def)

definition frame_length_error :: "tcp_frame decoded" where
  "frame_length_error =
     errCreate InvalidFrameLength ''TCP frame length prefix does not match the supplied bytes''"

lemma split_frame:
  assumes "5 \<le> length bs"
  obtains n r1 t r2 where "u32Read (BinaryReader bs) = Inr (n, r1)" "arrRead1 r1 = Inr (t, r2)"
    "bs = appendUint32 [] n @ t # rest r2"
proof -
  let ?r = "BinaryReader bs"
  have "4 \<le> length (rest ?r)" using assms by simp
  then obtain n r1 where n: "u32Read ?r = Inr (n, r1)" using u32f.get_total by blast
  have bs: "bs = appendUint32 [] n @ rest r1" using u32f.put_get [OF n] by simp
  have "length bs = 4 + length (rest r1)" by (subst bs) simp
  then have "1 \<le> length (rest r1)" using assms by simp
  then obtain t r2 where t: "arrRead1 r1 = Inr (t, r2)" using bytef.get_total by blast
  have "rest r1 = t # rest r2" using bytef.put_get [OF t] by simp
  with bs n t that show thesis by simp
qed

lemma tcp_resDecode_read:
  assumes n: "u32Read (BinaryReader bs) = Inr (n, r1)" and t: "arrRead1 r1 = Inr (t, r2)"
    and len: "5 \<le> length bs"
  shows "tcp_resDecode jsn bs =
    (if unat n \<noteq> length bs - 4 then Inr frame_length_error else decodeBody jsn t (rest r2))"
proof -
  have len5: "\<not> length bs < LENGTH_PREFIX_SIZE + TYPE_SIZE"
    using len by (simp add: LENGTH_PREFIX_SIZE_def TYPE_SIZE_def)
  have cond: "(unat n < TYPE_SIZE \<or> unat n \<noteq> length bs - LENGTH_PREFIX_SIZE) = (unat n \<noteq> length bs - 4)"
    using len by (auto simp: LENGTH_PREFIX_SIZE_def TYPE_SIZE_def)
  obtain r3 where p: "vecRead (nRemaining r2) r2 = Inr (rest r2, r3)" using vecRead_all by blast
  obtain d where d: "decodeBody jsn t (rest r2) = Inr d" using decodeBody_total by blast
  have "tcp_resDecode jsn bs = catchOutOfRange
      (if unat n \<noteq> length bs - 4 then Inr frame_length_error else decodeBody jsn t (rest r2))
      (errCreate InvalidFrameLength ''TCP frame ended inside a declared field'')"
    unfolding tcp_resDecode_def if_not_P [OF len5] n t p andThen_simps prod.case cond json_branch
      decodeBody_def frame_length_error_def ..
  then show ?thesis using d by simp
qed

lemma tcp_resDecode_eq:
  assumes "5 \<le> length bs"
  obtains n t p where "bs = appendUint32 [] n @ t # p" "length bs = 5 + length p"
    "tcp_resDecode jsn bs =
      (if unat n \<noteq> Suc (length p) then Inr frame_length_error else decodeBody jsn t p)"
proof -
  obtain n r1 t r2 where r: "u32Read (BinaryReader bs) = Inr (n, r1)" "arrRead1 r1 = Inr (t, r2)"
    and bs: "bs = appendUint32 [] n @ t # rest r2" by (rule split_frame [OF assms])
  have len: "length bs = 5 + length (rest r2)" by (subst bs) simp
  from tcp_resDecode_read [OF r assms, of jsn] len bs show thesis by (intro that) simp_all
qed

lemma tcp_resDecode_short: "length bs < 5 \<Longrightarrow> tcp_resDecode jsn bs = Inr (errCreate InvalidFrameLength
    ''TCP frame is shorter than its length prefix and type'')"
  by (simp add: tcp_resDecode_def LENGTH_PREFIX_SIZE_def TYPE_SIZE_def)

lemma decodeBody_decoded:
  "decodeBody jsn t p = Inr (Inr f) \<longleftrightarrow> frame_ok jsn f \<and> t = frame_type f \<and> p = framePayload f"
proof (cases f)
  case (JsonControlFrame json)
  then show ?thesis by (auto simp: decodeBody_def decodeFileChunk_decoded)
next
  case (FileChunkFrame c)
  then show ?thesis by (auto simp: decodeBody_def decodeFileChunk_decoded)
qed

lemma tcp_resDecode_total: "\<exists>d. tcp_resDecode jsn bs = Inr d"
proof (cases "5 \<le> length bs")
  case True
  then show ?thesis
  proof (rule tcp_resDecode_eq [of bs jsn])
    fix n t p
    assume "tcp_resDecode jsn bs =
      (if unat n \<noteq> Suc (length p) then Inr frame_length_error else decodeBody jsn t p)"
    then show ?thesis using decodeBody_total [of jsn t p] by auto
  qed
next
  case False
  then show ?thesis by (simp add: tcp_resDecode_short)
qed

lemma frame_length_error_not_Inr [simp]: "frame_length_error \<noteq> Inr f"
  by (simp add: frame_length_error_def)

lemma tcp_decode_iff: "tcp_resDecode jsn bs = Inr (Inr f) \<longleftrightarrow> frame_ok jsn f \<and> tcp_vecEncode f = Inr bs"
proof (cases "5 \<le> length bs")
  case False
  then have "length bs < 5" by simp
  then show ?thesis by (auto simp: tcp_resDecode_short tcp_vecEncode_Inr)
next
  case True
  obtain n t p where bs: "bs = appendUint32 [] n @ t # p" and
    r: "tcp_resDecode jsn bs =
      (if unat n \<noteq> Suc (length p) then Inr frame_length_error else decodeBody jsn t p)"
    by (rule tcp_resDecode_eq [OF True])
  have "tcp_vecEncode f = Inr bs \<longleftrightarrow> unat n = Suc (length p) \<and> t = frame_type f \<and> p = framePayload f"
  proof
    assume e: "tcp_vecEncode f = Inr bs"
    then have l: "length (framePayload f) < U32_MAX"
      and "n = of_nat (Suc (length (framePayload f))) \<and> t = frame_type f \<and> p = framePayload f"
      using bs by (auto simp: tcp_vecEncode_Inr u32_prefix simp del: of_nat_Suc)
    with l show "unat n = Suc (length p) \<and> t = frame_type f \<and> p = framePayload f"
      by (simp add: unat_u32_of_nat del: of_nat_Suc)
  next
    assume n: "unat n = Suc (length p) \<and> t = frame_type f \<and> p = framePayload f"
    then have "n = of_nat (Suc (length p))" by (metis of_nat_unat ucast_id)
    moreover have "Suc (length p) \<le> U32_MAX"
      using n less_imp_le [OF unat_lt_u32 [of n]] unat_lt_u32 [of n] unfolding U32_MAX_def by linarith
    ultimately show "tcp_vecEncode f = Inr bs" using n bs by (simp add: tcp_vecEncode_Inr del: of_nat_Suc)
  qed
  then show ?thesis by (auto simp: r decodeBody_decoded)
qed

interpretation tcp: codec "frame_ok jsn" tcp_vecEncode "tcp_resDecode jsn" for jsn
  by unfold_locales (auto simp: tcp_decode_iff tcp_resDecode_total)

section \<open>The stream decoder\<close>

record tcp_stream =
  m_nMaximumFrameLength :: nat
  m_vecPendingBytes :: "byte list"

definition mkTcpFrameStreamDecoder :: "nat \<Rightarrow> tcp_stream result" where
  "mkTcpFrameStreamDecoder nMaximumFrameLength =
     (if nMaximumFrameLength < TYPE_SIZE
      then Inl (InvalidArgument ''Maximum TCP frame length must include its type byte'')
      else Inr \<lparr>m_nMaximumFrameLength = nMaximumFrameLength, m_vecPendingBytes = []\<rparr>)"

definition tcp_reset :: "tcp_stream \<Rightarrow> tcp_stream" where
  "tcp_reset dec = dec\<lparr>m_vecPendingBytes := []\<rparr>"

record tcp_batch =
  m_vecFrames :: "tcp_frame list"
  m_optError :: "decode_error option"

text \<open>The loop of \<open>batConsume\<close>: frames so far, the error that ended it, the bytes left.\<close>

function consumeLoop :: "(byte list \<Rightarrow> bool) \<Rightarrow> nat \<Rightarrow> byte list \<Rightarrow> tcp_frame list
    \<Rightarrow> (tcp_frame list \<times> decode_error option \<times> byte list) result" where
  "consumeLoop jsn nMaximum vecPending vecFrames =
     (if length vecPending \<ge> LENGTH_PREFIX_SIZE
      then andThen (u32Read (BinaryReader (take LENGTH_PREFIX_SIZE vecPending))) (\<lambda>(u32FrameLength, rdr).
        if unat u32FrameLength < TYPE_SIZE
        then Inr (vecFrames, Some \<lparr>m_errCode = InvalidFrameLength,
               m_strMessage = ''TCP stream declared a frame without a type byte''\<rparr>, [])
        else if unat u32FrameLength > nMaximum
        then Inr (vecFrames, Some \<lparr>m_errCode = FrameTooLarge,
               m_strMessage = ''TCP stream frame exceeds the configured safety limit''\<rparr>, [])
        else
          (let nTotalLength = LENGTH_PREFIX_SIZE + unat u32FrameLength in
           if length vecPending < nTotalLength then Inr (vecFrames, None, vecPending)
           else andThen (tcp_resDecode jsn (take nTotalLength vecPending)) (\<lambda>resFrame.
             case resFrame of
               Inl errDecode \<Rightarrow> Inr (vecFrames, Some errDecode, [])
             | Inr frm \<Rightarrow>
                 consumeLoop jsn nMaximum (drop nTotalLength vecPending) (vecFrames @ [frm]))))
      else Inr (vecFrames, None, vecPending))"
  by pat_completeness auto
termination
  by (relation "measure (\<lambda>(_, _, p, _). length p)") (auto simp: LENGTH_PREFIX_SIZE_def)

declare consumeLoop.simps [simp del]

definition batConsume :: "(byte list \<Rightarrow> bool) \<Rightarrow> byte list \<Rightarrow> tcp_stream \<Rightarrow> (tcp_batch \<times> tcp_stream) result"
where
  "batConsume jsn vecBytes dec =
     andThen (consumeLoop jsn (m_nMaximumFrameLength dec) (m_vecPendingBytes dec @ vecBytes) [])
       (\<lambda>(vecFrames, optError, vecPending).
         Inr (\<lparr>m_vecFrames = vecFrames, m_optError = optError\<rparr>,
              dec\<lparr>m_vecPendingBytes := vecPending\<rparr>))"

subsection \<open>One turn of the loop\<close>

lemma prefix_read:
  assumes "4 \<le> length p"
  obtains n r where "p = appendUint32 [] n @ r" "\<exists>rdr. u32Read (BinaryReader (take 4 p)) = Inr (n, rdr)"
proof -
  have l: "4 \<le> length (rest (BinaryReader (take 4 p)))" using assms by simp
  then obtain n rdr where n: "u32Read (BinaryReader (take 4 p)) = Inr (n, rdr)"
    using u32f.get_total by blast
  have e: "take 4 p = appendUint32 [] n @ rest rdr" using u32f.put_get [OF n] by simp
  have "length (take 4 p) = 4" using assms by simp
  then have "rest rdr = []" unfolding e by simp
  then have "p = appendUint32 [] n @ drop 4 p" using e by (metis append_Nil2 append_take_drop_id)
  with n that show thesis by blast
qed

lemma prefix_read_eq:
  "\<exists>rdr. u32Read (BinaryReader (take 4 (appendUint32 [] n @ r))) = Inr (n, rdr)"
proof -
  have "rest (BinaryReader (take 4 (appendUint32 [] n @ r))) = appendUint32 [] n @ []" by simp
  then show ?thesis by (rule u32f.get_put) blast
qed

lemma consumeLoop_short: "length p < 4 \<Longrightarrow> consumeLoop jsn mx p fs = Inr (fs, None, p)"
  by (subst consumeLoop.simps) (simp add: LENGTH_PREFIX_SIZE_def)

lemma consumeLoop_turn:
  "consumeLoop jsn mx (appendUint32 [] n @ r) fs =
     (if unat n < 1
      then Inr (fs, Some \<lparr>m_errCode = InvalidFrameLength,
               m_strMessage = ''TCP stream declared a frame without a type byte''\<rparr>, [])
      else if unat n > mx
      then Inr (fs, Some \<lparr>m_errCode = FrameTooLarge,
               m_strMessage = ''TCP stream frame exceeds the configured safety limit''\<rparr>, [])
      else if length r < unat n then Inr (fs, None, appendUint32 [] n @ r)
      else case projr (tcp_resDecode jsn (appendUint32 [] n @ take (unat n) r)) of
             Inl e \<Rightarrow> Inr (fs, Some e, [])
           | Inr f \<Rightarrow> consumeLoop jsn mx (drop (unat n) r) (fs @ [f]))"
proof -
  have tk: "take 4 (appendUint32 [] n @ r) = appendUint32 [] n" by simp
  obtain rdr where rd: "u32Read (BinaryReader (appendUint32 [] n)) = Inr (n, rdr)"
    using prefix_read_eq [of n r] unfolding tk by blast
  obtain d where d: "tcp_resDecode jsn (appendUint32 [] n @ take (unat n) r) = Inr d"
    using tcp_resDecode_total by blast
  have td: "take (4 + unat n) (appendUint32 [] n @ r) = appendUint32 [] n @ take (unat n) r"
    "drop (4 + unat n) (appendUint32 [] n @ r) = drop (unat n) r" by simp_all
  show ?thesis
    by (subst consumeLoop.simps)
      (simp add: LENGTH_PREFIX_SIZE_def TYPE_SIZE_def tk rd d td Let_def del: take_append drop_append)
qed

lemma pending_cases:
  obtains (short) "length (p :: byte list) < 4" | (full) n r where "p = appendUint32 [] n @ r"
proof (cases "length p < 4")
  case False
  then have "4 \<le> length p" by simp
  then show thesis using full by (rule prefix_read)
qed (rule short)

lemma consumeLoop_total: "\<exists>o'. consumeLoop jsn mx p fs = Inr o'"
proof (induction p arbitrary: fs rule: length_induct)
  case (1 p)
  show ?case
  proof (cases p rule: pending_cases)
    case short
    then show ?thesis by (simp add: consumeLoop_short)
  next
    case (full n r)
    have "\<exists>o'. consumeLoop jsn mx (drop (unat n) r) fs' = Inr o'" for fs'
      using 1 full by simp
    then show ?thesis unfolding full consumeLoop_turn by (auto split: sum.splits)
  qed
qed

subsection \<open>Fragmentation does not matter\<close>

lemma consumeLoop_more:
  assumes "consumeLoop jsn mx p fs = Inr (fs', None, p')"
  shows "consumeLoop jsn mx (p @ b) fs = consumeLoop jsn mx (p' @ b) fs'"
  using assms
proof (induction p arbitrary: fs rule: length_induct)
  case (1 p)
  show ?case
  proof (cases p rule: pending_cases)
    case short
    with 1(2) show ?thesis by (simp add: consumeLoop_short)
  next
    case (full n r)
    have ok: "\<not> unat n < 1" "\<not> unat n > mx"
      using 1(2) unfolding full consumeLoop_turn by (auto split: if_splits)
    show ?thesis
    proof (cases "length r < unat n")
      case True
      with ok 1(2) show ?thesis unfolding full consumeLoop_turn by auto
    next
      case False
      let ?d = "projr (tcp_resDecode jsn (appendUint32 [] n @ take (unat n) r))"
      from 1(2) ok False obtain f where f: "?d = Inr f"
        and rec: "consumeLoop jsn mx (drop (unat n) r) (fs @ [f]) = Inr (fs', None, p')"
        unfolding full consumeLoop_turn by (auto split: sum.splits)
      have "length (drop (unat n) r) < length p" using full by simp
      with 1(1) rec have "consumeLoop jsn mx (drop (unat n) r @ b) (fs @ [f])
          = consumeLoop jsn mx (p' @ b) fs'" by blast
      with ok False f show ?thesis
        unfolding full by (simp add: consumeLoop_turn)
    qed
  qed
qed

lemma consumeLoop_error_final:
  assumes "consumeLoop jsn mx p fs = Inr (fs', Some e, p')"
  shows "consumeLoop jsn mx (p @ b) fs = Inr (fs', Some e, p') \<and> p' = []"
  using assms
proof (induction p arbitrary: fs rule: length_induct)
  case (1 p)
  show ?case
  proof (cases p rule: pending_cases)
    case short
    with 1(2) show ?thesis by (simp add: consumeLoop_short)
  next
    case (full n r)
    show ?thesis
    proof (cases "unat n < 1 \<or> unat n > mx")
      case True
      with 1(2) show ?thesis unfolding full by (auto simp: consumeLoop_turn)
    next
      case ok: False
      have len: "\<not> length r < unat n"
        using 1(2) ok unfolding full consumeLoop_turn by (auto split: if_splits)
      let ?d = "projr (tcp_resDecode jsn (appendUint32 [] n @ take (unat n) r))"
      show ?thesis
      proof (cases ?d)
        case (Inl e')
        with 1(2) ok len show ?thesis unfolding full by (simp add: consumeLoop_turn)
      next
        case (Inr f)
        with 1(2) ok len have "consumeLoop jsn mx (drop (unat n) r) (fs @ [f]) = Inr (fs', Some e, p')"
          unfolding full by (simp add: consumeLoop_turn)
        moreover have "length (drop (unat n) r) < length p" using full by simp
        ultimately have "consumeLoop jsn mx (drop (unat n) r @ b) (fs @ [f]) = Inr (fs', Some e, p') \<and> p' = []"
          using 1(1) by blast
        with Inr ok len show ?thesis unfolding full by (simp add: consumeLoop_turn)
      qed
    qed
  qed
qed

lemma consumeLoop_pending:
  "consumeLoop jsn mx p fs = Inr (fs', None, p') \<Longrightarrow> length p' < 4 + mx \<or> length p' < 4"
proof (induction p arbitrary: fs rule: length_induct)
  case (1 p)
  show ?case
  proof (cases p rule: pending_cases)
    case short
    with 1(2) show ?thesis by (simp add: consumeLoop_short)
  next
    case (full n r)
    have ok: "\<not> unat n < 1" "\<not> unat n > mx"
      using 1(2) unfolding full consumeLoop_turn by (auto split: if_splits)
    show ?thesis
    proof (cases "length r < unat n")
      case True
      with ok 1(2) have "p' = appendUint32 [] n @ r" unfolding full consumeLoop_turn by auto
      with True ok show ?thesis by simp
    next
      case False
      with 1(2) ok obtain f where "consumeLoop jsn mx (drop (unat n) r) (fs @ [f]) = Inr (fs', None, p')"
        unfolding full consumeLoop_turn by (auto split: sum.splits)
      moreover have "length (drop (unat n) r) < length p" using full by simp
      ultimately show ?thesis using 1(1) by blast
    qed
  qed
qed

text \<open>Encoded frames come out as they went in.\<close>

lemma consumeLoop_frame:
  assumes "frame_ok jsn f" "tcp_vecEncode f = Inr bs" "length bs - 4 \<le> mx"
  shows "consumeLoop jsn mx (bs @ ys) fs = consumeLoop jsn mx ys (fs @ [f])"
proof -
  let ?p = "framePayload f" and ?n = "of_nat (Suc (length (framePayload f))) :: u32"
  from assms(2) have l: "length ?p < U32_MAX" and bs: "bs = appendUint32 [] ?n @ frame_type f # ?p"
    by (auto simp: tcp_vecEncode_Inr)
  have n: "unat ?n = Suc (length ?p)" using l by (simp add: unat_u32_of_nat del: of_nat_Suc)
  have "Suc (length ?p) \<le> mx" using assms(3) bs by simp
  moreover have "tcp_resDecode jsn (appendUint32 [] ?n @ frame_type f # ?p) = Inr (Inr f)"
    using assms(1,2) bs by (simp add: tcp_decode_iff)
  ultimately show ?thesis unfolding bs append_assoc consumeLoop_turn n by (simp del: of_nat_Suc)
qed

lemma consumeLoop_frames:
  assumes "list_all2 (\<lambda>f bs. frame_ok jsn f \<and> tcp_vecEncode f = Inr bs \<and> length bs - 4 \<le> mx) frames bss"
  shows "consumeLoop jsn mx (concat bss @ ys) fs = consumeLoop jsn mx ys (fs @ frames)"
  using assms
proof (induction frames bss arbitrary: fs rule: list_all2_induct)
  case Nil
  then show ?case by simp
next
  case (Cons f fr bs bss)
  then show ?case using consumeLoop_frame [of jsn f bs mx "concat bss @ ys" fs] by simp
qed

subsection \<open>Batches\<close>

text \<open>The frames found so far only grow at the end.\<close>

lemma consumeLoop_frames_prefix:
  "consumeLoop jsn mx p fs = map_sum id (\<lambda>(fs', e, p'). (fs @ fs', e, p')) (consumeLoop jsn mx p [])"
proof (induction "length p" arbitrary: p fs rule: less_induct)
  case less
  show ?case
  proof (cases p rule: pending_cases)
    case short
    then show ?thesis by (simp add: consumeLoop_short)
  next
    case (full n r)
    have shorter: "length (drop (unat n) r) < length p" using full by simp
    show ?thesis
      using less [OF shorter, of "fs @ [f]" for f] less [OF shorter, of "[f]" for f]
      unfolding full consumeLoop_turn
      by (auto split: sum.splits simp: sum.map_comp o_def split_def map_sum.compositionality id_def)
  qed
qed

lemma batConsume_append:
  assumes a: "batConsume jsn a dec = Inr (bat, dec')" and e: "m_optError bat = None"
    and b: "batConsume jsn b dec' = Inr (bat', dec'')"
  shows "batConsume jsn (a @ b) dec
    = Inr (\<lparr>m_vecFrames = m_vecFrames bat @ m_vecFrames bat', m_optError = m_optError bat'\<rparr>, dec'')"
proof -
  let ?mx = "m_nMaximumFrameLength dec"
  from a e obtain fs p where
    a': "consumeLoop jsn ?mx (m_vecPendingBytes dec @ a) [] = Inr (fs, None, p)"
    and bat: "bat = \<lparr>m_vecFrames = fs, m_optError = None\<rparr>" and dec': "dec' = dec\<lparr>m_vecPendingBytes := p\<rparr>"
    by (auto simp: batConsume_def)
  from b dec' obtain fs' o' p' where
    b': "consumeLoop jsn ?mx (p @ b) [] = Inr (fs', o', p')"
    and bat': "bat' = \<lparr>m_vecFrames = fs', m_optError = o'\<rparr>" and dec'': "dec'' = dec'\<lparr>m_vecPendingBytes := p'\<rparr>"
    by (auto simp: batConsume_def)
  have "consumeLoop jsn ?mx ((m_vecPendingBytes dec @ a) @ b) [] = consumeLoop jsn ?mx (p @ b) fs"
    by (rule consumeLoop_more [OF a'])
  also have "\<dots> = Inr (fs @ fs', o', p')"
    by (subst consumeLoop_frames_prefix) (simp add: b')
  finally show ?thesis by (simp add: batConsume_def bat bat' dec' dec'')
qed

lemma batConsume_bounded:
  assumes "batConsume jsn bs dec = Inr (bat, dec')"
  shows "case m_optError bat of
     Some e \<Rightarrow> m_vecPendingBytes dec' = []
   | None \<Rightarrow> length (m_vecPendingBytes dec') < 4 + max 1 (m_nMaximumFrameLength dec)"
proof -
  from assms obtain fs o' p where
    run: "consumeLoop jsn (m_nMaximumFrameLength dec) (m_vecPendingBytes dec @ bs) [] = Inr (fs, o', p)"
    and res: "bat = \<lparr>m_vecFrames = fs, m_optError = o'\<rparr>" "dec' = dec\<lparr>m_vecPendingBytes := p\<rparr>"
    by (auto simp: batConsume_def)
  show ?thesis
  proof (cases o')
    case None
    from consumeLoop_pending [OF run [unfolded None]] show ?thesis
      by (auto simp: res None max_def)
  next
    case (Some e)
    from consumeLoop_error_final [OF run [unfolded Some], of "[]"] show ?thesis by (simp add: res Some)
  qed
qed

end
