(* ===== verification/Workload.thy ===== *)
theory Workload
  imports PacketInput
begin

text \<open>
  The two workloads: \<open>TextWorkload.cpp\<close> (one UTF-8 text of at most 32 bytes, sent repeatedly)
  and \<open>FileWorkload.cpp\<close> (a file cut into 32-byte messages). UTF-8 validation is shown to accept
  exactly the encodings of sequences of Unicode scalar values, and recovering a file from its
  messages to give the file back. A locale states what the sender needs of any workload.
\<close>

section \<open>UTF-8 validation\<close>

definition bIsContinuationByte :: "byte \<Rightarrow> bool" where
  "bIsContinuationByte u8Value \<longleftrightarrow> u8Value AND 0xC0 = 0x80"

text \<open>Sequence length, the lead's bits of the code point and the least code point allowed.\<close>

definition classifyLead :: "byte \<Rightarrow> (nat \<times> u32 \<times> u32) option" where
  "classifyLead u8Lead =
     (if u8Lead AND 0xE0 = 0xC0 then Some (2, ucast (u8Lead AND 0x1F), 0x80)
      else if u8Lead AND 0xF0 = 0xE0 then Some (3, ucast (u8Lead AND 0x0F), 0x800)
      else if u8Lead AND 0xF8 = 0xF0 then Some (4, ucast (u8Lead AND 0x07), 0x10000)
      else None)"

fun continuationLoop :: "byte list \<Rightarrow> u32 \<Rightarrow> u32 result" where
  "continuationLoop [] u32CodePoint = Inr u32CodePoint"
| "continuationLoop (u8Continuation # bs) u32CodePoint =
     (if \<not> bIsContinuationByte u8Continuation
      then Inl (InvalidArgument ''Text payload has an invalid UTF-8 continuation byte'')
      else continuationLoop bs (push_bit 6 u32CodePoint OR ucast (u8Continuation AND 0x3F)))"

text \<open>The outer loop; its argument is the text from \<open>nIndex\<close> on.\<close>

function validateUtf8 :: "byte list \<Rightarrow> unit result" where
  "validateUtf8 text =
     (case text of
        [] \<Rightarrow> Inr ()
      | u8Lead # rest' \<Rightarrow>
          if u8Lead \<le> 0x7F then validateUtf8 rest'
          else case classifyLead u8Lead of
            None \<Rightarrow> Inl (InvalidArgument ''Text payload is not valid UTF-8'')
          | Some (nSequenceLength, u32CodePoint, u32MinimumCodePoint) \<Rightarrow>
              if nSequenceLength > length text
              then Inl (InvalidArgument ''Text payload ends inside a UTF-8 sequence'')
              else andThen
                (continuationLoop (take (nSequenceLength - 1) rest') u32CodePoint)
                (\<lambda>cp. if cp < u32MinimumCodePoint \<or> cp > 0x10FFFF \<or> (cp \<ge> 0xD800 \<and> cp \<le> 0xDFFF)
                   then Inl (InvalidArgument ''Text payload contains an invalid UTF-8 code point'')
                   else validateUtf8 (drop nSequenceLength text)))"
  by pat_completeness auto
termination
  by (relation "measure length") (auto simp: classifyLead_def split: if_splits)

declare validateUtf8.simps [simp del]

section \<open>Text workload\<close>

definition MESSAGE_SIZE :: nat where "MESSAGE_SIZE = 32"

record text_payload =
  m_strUtf8Text :: string
  m_arrMessage :: block

definition mkTextPayload :: "string \<Rightarrow> text_payload result" where
  "mkTextPayload strUtf8Text =
     (if strUtf8Text = [] \<or> length strUtf8Text > MESSAGE_SIZE
      then Inl (InvalidArgument ''Text payload must contain between 1 and 32 UTF-8 bytes'')
      else if 0 \<in> set (strBytes strUtf8Text)
      then Inl (InvalidArgument ''Manual text payload must not contain a zero byte'')
      else andThen (validateUtf8 (strBytes strUtf8Text)) (\<lambda>_.
        Inr \<lparr>m_strUtf8Text = strUtf8Text, m_arrMessage = block_of (strBytes strUtf8Text)\<rparr>))"

record text_workload =
  m_pldPayload :: text_payload
  m_u32TextPacketCount :: u32

definition mkTextWorkload :: "text_payload \<Rightarrow> u32 \<Rightarrow> text_workload result" where
  "mkTextWorkload pldPayload u32PacketCount =
     (if u32PacketCount = 0
      then Inl (InvalidArgument ''Text workload packet count must be positive'')
      else Inr \<lparr>m_pldPayload = pldPayload, m_u32TextPacketCount = u32PacketCount\<rparr>)"

definition text_arrMessage :: "text_workload \<Rightarrow> u32 \<Rightarrow> block result" where
  "text_arrMessage w u32PacketIndex =
     (if u32PacketIndex = 0 \<or> u32PacketIndex > m_u32TextPacketCount w
      then Inl (OutOfRange ''Text workload packet index is outside the round'')
      else Inr (m_arrMessage (m_pldPayload w)))"

section \<open>File workload\<close>

definition MAXIMUM_PACKET_COUNT :: nat where "MAXIMUM_PACKET_COUNT = 200000"

definition MAXIMUM_FILE_SIZE :: nat where "MAXIMUM_FILE_SIZE = MESSAGE_SIZE * MAXIMUM_PACKET_COUNT"

definition u32PacketCountFor :: "nat \<Rightarrow> u32 result" where
  "u32PacketCountFor u64ByteCount =
     (if u64ByteCount = 0 then Inl (InvalidArgument ''File workload must not be empty'')
      else if u64ByteCount > MAXIMUM_FILE_SIZE
      then Inl (InvalidArgument ''File workload exceeds the bounded file size'')
      else Inr (of_nat ((u64ByteCount + MESSAGE_SIZE - 1) div MESSAGE_SIZE)))"

record file_workload =
  m_vecFileBytes :: "byte list"
  m_u32FilePacketCount :: u32

definition mkFileWorkload :: "byte list \<Rightarrow> file_workload result" where
  "mkFileWorkload vecFileBytes =
     andThen (u32PacketCountFor (length vecFileBytes)) (\<lambda>u32PacketCount.
       Inr \<lparr>m_vecFileBytes = vecFileBytes, m_u32FilePacketCount = u32PacketCount\<rparr>)"

definition file_arrMessage :: "file_workload \<Rightarrow> u32 \<Rightarrow> block result" where
  "file_arrMessage w u32PacketIndex =
     (if u32PacketIndex = 0 \<or> u32PacketIndex > m_u32FilePacketCount w
      then Inl (OutOfRange ''File workload packet index is outside the file'')
      else
        (let nOffset = unat (u32PacketIndex - 1) * MESSAGE_SIZE;
             nCopySize = min MESSAGE_SIZE (length (m_vecFileBytes w) - nOffset)
         in Inr (block_of (take nCopySize (drop nOffset (m_vecFileBytes w))))))"

definition vecRecover :: "block list \<Rightarrow> nat \<Rightarrow> byte list result" where
  "vecRecover vecMessages u64OriginalByteCount =
     andThen (u32PacketCountFor u64OriginalByteCount) (\<lambda>u32ExpectedPacketCount.
       if length vecMessages \<noteq> unat u32ExpectedPacketCount
       then Inl (InvalidArgument ''Recovered file message count does not match the original size'')
       else
         (let vecRecovered = foldl (\<lambda>out arrMessage. out @ block_bytes arrMessage) [] vecMessages
          in Inr (take u64OriginalByteCount (vecRecovered @ replicate u64OriginalByteCount 0))))"

section \<open>What every workload gives\<close>

definition packet_indexes :: "u32 \<Rightarrow> u32 list" where
  "packet_indexes n = map of_nat [1..<Suc (unat n)]"

lemma length_packet_indexes [simp]: "length (packet_indexes n) = unat n"
  by (simp add: packet_indexes_def)

lemma packet_indexes_nth: "i < unat n \<Longrightarrow> packet_indexes n ! i = of_nat (Suc i)"
  by (simp add: packet_indexes_def del: upt_Suc)

lemma packet_indexes_unat:
  assumes "i < unat n"
  shows "unat (packet_indexes n ! i) = Suc i"
proof -
  have "Suc i < 2 ^ LENGTH(32)"
    using le_less_trans [OF Suc_leI [OF assms] unsigned_less [of n]] by simp
  with assms show ?thesis by (simp add: packet_indexes_nth unat_of_nat del: of_nat_Suc)
qed

locale workload_source =
  fixes wf :: "'w \<Rightarrow> bool"
    and count :: "'w \<Rightarrow> u32"
    and message :: "'w \<Rightarrow> u32 \<Rightarrow> block result"
  assumes count_pos: "wf w \<Longrightarrow> count w \<noteq> 0"
    and message_defined: "wf w \<Longrightarrow> i \<noteq> 0 \<Longrightarrow> i \<le> count w \<Longrightarrow> \<exists>m. message w i = Inr m"
    and message_error: "i = 0 \<or> i > count w \<Longrightarrow> \<exists>s. message w i = Inl (OutOfRange s)"
begin

lemma message_iff: "wf w \<Longrightarrow> (\<exists>m. message w i = Inr m) \<longleftrightarrow> i \<noteq> 0 \<and> i \<le> count w"
  using message_defined [of w i] message_error [of i w] by (cases "i = 0 \<or> i > count w") force+

lemma all_messages:
  assumes "wf w"
  shows "\<exists>ms. mapE (message w) (packet_indexes (count w)) = Inr ms \<and> length ms = unat (count w)
    \<and> ms \<noteq> []"
proof -
  have "\<exists>m. message w i = Inr m" if i: "i \<in> set (packet_indexes (count w))" for i
  proof -
    from i obtain j where j: "j < unat (count w)" "i = packet_indexes (count w) ! j"
      by (metis in_set_conv_nth length_packet_indexes)
    then have "unat i = Suc j" by (simp add: packet_indexes_unat)
    with j have "i \<noteq> 0" "i \<le> count w" by (auto simp: word_le_nat_alt)
    with message_defined [OF assms] show ?thesis by blast
  qed
  then have "message w i = Inr (projr (message w i))" if "i \<in> set (packet_indexes (count w))" for i
    using that by force
  then have "mapE (message w) (packet_indexes (count w))
      = Inr (map (\<lambda>i. projr (message w i)) (packet_indexes (count w)))"
    by (rule mapE_total)
  moreover have "unat (count w) \<noteq> 0" using count_pos [OF assms] by (simp add: unat_eq_0)
  ultimately show ?thesis by (metis length_0_conv length_map length_packet_indexes)
qed

end

lemma mkTextWorkload_Inr:
  "mkTextWorkload p n = Inr w \<longleftrightarrow> n \<noteq> 0 \<and> w = \<lparr>m_pldPayload = p, m_u32TextPacketCount = n\<rparr>"
  by (auto simp: mkTextWorkload_def)

interpretation text_source: workload_source "\<lambda>w. m_u32TextPacketCount w \<noteq> 0" m_u32TextPacketCount text_arrMessage
  by unfold_locales (auto simp: text_arrMessage_def)

lemma u32PacketCountFor_Inr:
  assumes "u32PacketCountFor n = Inr k"
  shows "unat k = (n + 31) div 32" "0 < n" "n \<le> 6400000" "k \<noteq> 0"
proof -
  have n: "0 < n" "n \<le> 6400000" and k: "k = of_nat ((31 + n) div 32)"
    using assms by (auto simp: u32PacketCountFor_def MESSAGE_SIZE_def MAXIMUM_FILE_SIZE_def
      MAXIMUM_PACKET_COUNT_def split: if_splits)
  then show "0 < n" "n \<le> 6400000" by simp_all
  have "(31 + n) div 32 \<le> 31 + n" by (rule div_le_dividend)
  then have "(31 + n) div 32 < 2 ^ LENGTH(32)" using n(2) by simp
  then show u: "unat k = (n + 31) div 32"
    unfolding k unat_of_nat by (simp only: mod_less add.commute)
  have "32 \<le> n + 31" using n(1) by linarith
  then have "0 < (n + 31) div 32" by (simp only: div_greater_zero_iff) simp
  then have "0 < unat k" unfolding u .
  then show "k \<noteq> 0" by (rule unat_gt_0_iff [THEN iffD1])
qed

lemma mkFileWorkload_Inr:
  "mkFileWorkload xs = Inr w \<longleftrightarrow> m_vecFileBytes w = xs
     \<and> u32PacketCountFor (length xs) = Inr (m_u32FilePacketCount w)"
  by (cases w) (auto simp: mkFileWorkload_def andThen_Inr_iff)

interpretation file_source: workload_source
  "\<lambda>w. mkFileWorkload (m_vecFileBytes w) = Inr w" m_u32FilePacketCount file_arrMessage
  by unfold_locales (auto simp: file_arrMessage_def Let_def mkFileWorkload_Inr dest: u32PacketCountFor_Inr(4))

section \<open>Files survive the cutting\<close>

lemma chunks_concat:
  assumes "n \<le> 32 * k"
    and "length ms = k" "\<And>i. i < k \<Longrightarrow> block_bytes (ms ! i) = block_bytes (block_of (take 32 (drop (i * 32) xs)))"
    and "length xs = n"
  shows "take n (concat (map block_bytes ms)) = xs"
  using assms
proof (induction k arbitrary: n ms xs)
  case 0
  then show ?case by simp
next
  case (Suc k)
  then obtain m ms' where ms: "ms = m # ms'" "length ms' = k" by (cases ms) auto
  have m: "block_bytes m = block_bytes (block_of (take 32 xs))" using Suc.prems(3) [of 0] ms by simp
  show ?case
  proof (cases "n \<le> 32")
    case True
    then have "take n (block_bytes m) = xs"
      using m Suc.prems(4) by (simp add: block_bytes_block_of)
    with ms True show ?thesis by simp
  next
    case False
    have "take (n - 32) (concat (map block_bytes ms')) = drop 32 xs"
    proof (rule Suc.IH)
      show "n - 32 \<le> 32 * k" using Suc.prems(1) by simp
      show "length ms' = k" by (fact ms(2))
      show "length (drop 32 xs) = n - 32" using Suc.prems(4) by simp
      show "block_bytes (ms' ! i) = block_bytes (block_of (take 32 (drop (i * 32) (drop 32 xs))))"
        if "i < k" for i
        using Suc.prems(3) [of "Suc i"] that ms by (simp add: add.commute)
    qed
    moreover have "block_bytes m = take 32 xs" using m False Suc.prems(4) by (simp add: block_bytes_block_of)
    moreover have "take n (block_bytes m) = block_bytes m" using False by simp
    moreover have "take 32 xs @ drop 32 xs = xs" by simp
    ultimately show ?thesis using ms False Suc.prems(4) by (simp del: append_take_drop_id)
  qed
qed

lemma foldl_block_bytes: "foldl (\<lambda>out m. out @ block_bytes m) acc ms = acc @ concat (map block_bytes ms)"
  by (induction ms arbitrary: acc) auto

lemma file_recovered:
  assumes w: "mkFileWorkload xs = Inr w"
    and ms: "mapE (file_arrMessage w) (packet_indexes (m_u32FilePacketCount w)) = Inr ms"
  shows "vecRecover ms (length xs) = Inr xs"
proof -
  from w have xs: "m_vecFileBytes w = xs" and k: "u32PacketCountFor (length xs) = Inr (m_u32FilePacketCount w)"
    by (auto simp: mkFileWorkload_Inr)
  note c = u32PacketCountFor_Inr [OF k]
  let ?k = "unat (m_u32FilePacketCount w)"
  have len: "length ms = ?k" using mapE_length [OF ms] by simp
  have m: "ms ! i = block_of (take 32 (drop (i * 32) xs))" if i: "i < ?k" for i
  proof -
    let ?j = "packet_indexes (m_u32FilePacketCount w) ! i"
    have j: "unat ?j = Suc i" using packet_indexes_unat [OF i] .
    then have nz: "?j \<noteq> 0" by auto
    then have "unat (?j - 1) = i" using j by (simp add: unat_minus_one_pos)
    moreover have "\<not> ?j > m_u32FilePacketCount w" using i j by (simp add: word_less_nat_alt)
    moreover have "file_arrMessage w ?j = Inr (ms ! i)" using mapE_nth [OF ms, of i] i by simp
    ultimately have "ms ! i = block_of (take (min 32 (length xs - i * 32)) (drop (i * 32) xs))"
      using nz by (simp add: file_arrMessage_def Let_def xs MESSAGE_SIZE_def)
    then show ?thesis by (simp add: min_def split: if_splits)
  qed
  have n: "length xs \<le> 32 * ?k" using c(1) by simp
  have "take (length xs) (concat (map block_bytes ms)) = xs"
    by (rule chunks_concat [OF n len]) (simp_all add: m)
  moreover have "length (concat (map block_bytes ms)) = 32 * length ms"
    by (induction ms) auto
  ultimately show ?thesis
    using k n len by (simp add: vecRecover_def Let_def foldl_block_bytes)
qed

section \<open>UTF-8 validation is exact\<close>

text \<open>The encoding of a Unicode scalar value, as the standard gives it.\<close>

definition scalar_value :: "nat \<Rightarrow> bool" where
  "scalar_value cp \<longleftrightarrow> cp \<le> 0x10FFFF \<and> \<not> (0xD800 \<le> cp \<and> cp \<le> 0xDFFF)"

definition utf8_encode :: "nat \<Rightarrow> byte list" where
  "utf8_encode cp =
     (if cp < 0x80 then [of_nat cp]
      else if cp < 0x800 then [of_nat (0xC0 + cp div 64), of_nat (0x80 + cp mod 64)]
      else if cp < 0x10000
      then [of_nat (0xE0 + cp div 4096), of_nat (0x80 + cp div 64 mod 64), of_nat (0x80 + cp mod 64)]
      else [of_nat (0xF0 + cp div 262144), of_nat (0x80 + cp div 4096 mod 64),
            of_nat (0x80 + cp div 64 mod 64), of_nat (0x80 + cp mod 64)])"

lemma byte_forall: "(\<forall>n \<in> set [0..<256]. P (word_of_nat n :: byte)) \<Longrightarrow> P b"
proof -
  assume "\<forall>n \<in> set [0..<256]. P (word_of_nat n :: byte)"
  moreover have "unat b < 256" using unsigned_less [of b, where 'a = nat] by simp
  ultimately have "P (word_of_nat (unat b))" by (metis atLeastLessThan_iff le0 set_upt)
  then show ?thesis by simp
qed

lemma continuation_iff: "bIsContinuationByte b \<longleftrightarrow> 128 \<le> unat b \<and> unat b < 192"
  unfolding bIsContinuationByte_def by (rule byte_forall) code_simp

lemma classifyLead_eq:
  "classifyLead b =
     (if 192 \<le> unat b \<and> unat b < 224 then Some (2, of_nat (unat b mod 32), 0x80)
      else if 224 \<le> unat b \<and> unat b < 240 then Some (3, of_nat (unat b mod 16), 0x800)
      else if 240 \<le> unat b \<and> unat b < 248 then Some (4, of_nat (unat b mod 8), 0x10000)
      else None)"
  unfolding classifyLead_def by (rule byte_forall) code_simp

lemma continuation_low: "unat (ucast (b AND 0x3F) :: u32) = unat (b :: byte) mod 64"
  by (rule byte_forall [of _ b]) code_simp

lemma continuation_step:
  assumes "unat cp * 64 + 63 < 2 ^ 32"
  shows "unat (push_bit 6 cp OR ucast (b AND 0x3F) :: u32) = unat cp * 64 + unat (b :: byte) mod 64"
proof -
  let ?x = "ucast (b AND 0x3F) :: u32"
  have x: "unat ?x = unat b mod 64" by (rule continuation_low)
  have m: "(0x3F :: byte) = mask 6" by (simp add: mask_eq_exp_minus_1)
  have "push_bit 6 cp AND ?x = 0"
    unfolding m by (rule bit_word_eqI) (auto simp: bit_simps dest: bit_imp_le_length)
  then have "push_bit 6 cp OR ?x = push_bit 6 cp + ?x"
    by (rule disjunctive_add_eq_or [symmetric])
  then have "push_bit 6 cp OR ?x = cp * 64 + ?x" by (simp add: push_bit_eq_mult)
  moreover have "unat (cp * 64 + ?x) = unat cp * 64 + unat b mod 64"
  proof -
    have "unat (cp * 64) = unat cp * 64"
      using assms by (simp add: unat_word_ariths)
    moreover have "unat b mod 64 < 64" by simp
    ultimately show ?thesis using assms x
      by (subst unat_plus_no_wrap) auto
  qed
  ultimately show ?thesis by simp
qed

lemma byte_of_nat_eq: "n < 256 \<Longrightarrow> (of_nat n :: byte) = b \<longleftrightarrow> unat b = n"
  by (auto simp: word_unat_eq_iff unat_of_nat)

lemma unat_byte_of_nat: "n < 256 \<Longrightarrow> unat (of_nat n :: byte) = n"
  by (simp add: unat_of_nat)

text \<open>The code point read from a lead value and continuation bytes.\<close>

definition cont_value :: "nat \<Rightarrow> byte list \<Rightarrow> nat" where
  "cont_value v bs = foldl (\<lambda>a c. a * 64 + unat c mod 64) v bs"

lemma cont_value_bound: "v < 2 ^ m \<Longrightarrow> cont_value v bs < 2 ^ (m + 6 * length bs)"
proof (induction bs arbitrary: v m)
  case Nil
  then show ?case by (simp add: cont_value_def)
next
  case (Cons b bs)
  have "unat b mod 64 < 64" by simp
  moreover have "(v + 1) * 64 \<le> 2 ^ m * 64" using Cons.prems by (intro mult_le_mono1) simp
  ultimately have "v * 64 + unat b mod 64 < 2 ^ (m + 6)" by (simp add: power_add)
  from Cons.IH [OF this] show ?case by (simp add: cont_value_def add.assoc)
qed

lemma continuationLoop_Inr:
  assumes "unat v < 2 ^ m" "m + 6 * length bs \<le> 32"
  shows "continuationLoop bs v = Inr cp \<longleftrightarrow>
    (\<forall>b \<in> set bs. bIsContinuationByte b) \<and> unat cp = cont_value (unat v) bs"
  using assms
proof (induction bs arbitrary: v m)
  case Nil
  then show ?case by (auto simp: cont_value_def word_unat_eq_iff)
next
  case (Cons b bs)
  let ?v = "push_bit 6 v OR ucast (b AND 0x3F) :: u32"
  have le: "(2 :: nat) ^ (m + 6) \<le> 2 ^ 32" using Cons.prems(2) by (intro power_increasing) auto
  have "(unat v + 1) * 64 \<le> 2 ^ m * 64" using Cons.prems(1) by (intro mult_le_mono1) simp
  then have b: "unat v * 64 + 63 < 2 ^ (m + 6)" by (simp add: power_add)
  then have v: "unat ?v = unat v * 64 + unat b mod 64"
    using le by (intro continuation_step) (rule less_le_trans)
  have "unat b mod 64 \<le> 63" by (simp add: less_Suc_eq_le [symmetric])
  with b v have "unat ?v < 2 ^ (m + 6)" by simp
  from Cons.IH [OF this] Cons.prems(2) v show ?case by (simp add: cont_value_def)
qed

lemma bIsContinuationByte_of_nat: "n < 64 \<Longrightarrow> bIsContinuationByte (of_nat (128 + n))"
  by (simp add: continuation_iff unat_byte_of_nat del: of_nat_add)

lemma add_128_mod: "n < 64 \<Longrightarrow> (128 + n) mod 64 = n" for n :: nat
  using mod_mult_self2 [of n 64 2] by (simp add: add.commute)

lemma cont_value_of_nat:
  "n < 64 \<Longrightarrow> cont_value v (of_nat (128 + n) # bs) = cont_value (v * 64 + n) bs"
  by (simp add: cont_value_def unat_byte_of_nat add_128_mod del: of_nat_add)

lemma continuation_of_nat:
  assumes "bIsContinuationByte b"
  shows "b = of_nat (128 + unat b mod 64)"
proof -
  obtain k where k: "unat b = 128 + k" "k < 64"
    using assms that [of "unat b - 128"] by (simp add: continuation_iff less_diff_conv2)
  with add_128_mod [of k] have "unat b = 128 + unat b mod 64" by simp
  then show ?thesis by (metis of_nat_unat ucast_id)
qed

lemma validateUtf8_ascii: "b \<le> 0x7F \<Longrightarrow> validateUtf8 (b # xs) = validateUtf8 xs"
  by (subst validateUtf8.simps) simp

lemma validateUtf8_multi:
  assumes "\<not> b \<le> 0x7F"
  shows "validateUtf8 (b # xs) = Inr () \<longleftrightarrow>
    (\<exists>n v lo cp. classifyLead b = Some (n, v, lo) \<and> n \<le> Suc (length xs)
       \<and> continuationLoop (take (n - 1) xs) v = Inr cp
       \<and> \<not> (cp < lo \<or> cp > 0x10FFFF \<or> (cp \<ge> 0xD800 \<and> cp \<le> 0xDFFF))
       \<and> validateUtf8 (drop n (b # xs)) = Inr ())"
proof (cases "classifyLead b")
  case None
  with assms show ?thesis by (subst validateUtf8.simps) simp
next
  case (Some t)
  obtain n v lo where t: "t = (n, v, lo)" by (cases t)
  show ?thesis
  proof (cases "n \<le> Suc (length xs)")
    case True
    with Some t assms show ?thesis
      by (subst validateUtf8.simps) (auto simp: andThen_Inr_iff)
  next
    case False
    with Some t assms show ?thesis by (subst validateUtf8.simps) simp
  qed
qed

lemma digit_64: "w < 64 \<Longrightarrow> (b * 64 + w) div 64 = b" "w < 64 \<Longrightarrow> (b * 64 + w) mod 64 = w" for b w :: nat
  by simp_all

lemma div_4096: "n div 4096 = n div 64 div 64" "n div 262144 = n div 64 div 64 div 64" for n :: nat
  by (simp_all add: div_mult2_eq [symmetric])

lemmas digits_64 = div_4096 digit_64 mod_less_divisor zero_less_numeral

lemma bound_64: "a < 16 \<Longrightarrow> x < 64 \<Longrightarrow> y < 64 \<Longrightarrow> (a * 64 + x) * 64 + y < 65536" for a x y :: nat
  by (simp add: add_mult_distrib)

text \<open>What an accepted multi-byte sequence looks like, by its lead byte.\<close>

lemma accepted_is_encoding:
  assumes lead: "classifyLead b = Some (n, v, lo)" and len: "n \<le> Suc (length xs)"
    and cont: "continuationLoop (take (n - 1) xs) v = Inr cp" and range: "\<not> cp < lo"
  shows "b # take (n - 1) xs = utf8_encode (unat cp)"
proof -
  let ?cs = "take (n - 1) xs"
  have b: "unat b < 256" using unsigned_less [of b, where 'a = nat] by simp
  have bytes: "c = of_nat (128 + unat c mod 64)" if "c \<in> set ?cs" "\<forall>c \<in> set ?cs. bIsContinuationByte c" for c
    using that continuation_of_nat by blast
  consider (two) "n = 2" "192 \<le> unat b" "unat b < 224" "v = of_nat (unat b mod 32)" "lo = 0x80"
    | (three) "n = 3" "224 \<le> unat b" "unat b < 240" "v = of_nat (unat b mod 16)" "lo = 0x800"
    | (four) "n = 4" "240 \<le> unat b" "unat b < 248" "v = of_nat (unat b mod 8)" "lo = 0x10000"
    using lead unfolding classifyLead_eq by (auto split: if_splits)
  then show ?thesis
  proof cases
    case two
    obtain x where cs: "?cs = [x]" using two(1) len by (cases xs) auto
    obtain a where a: "unat b = 192 + a" "a < 32" using two(2,3) that [of "unat b - 192"] by auto
    have am: "unat b mod 32 = a" using a mod_mult_self2 [of a 32 6] by (simp add: add.commute)
    have v: "unat v < 2 ^ 5" "unat v = a" using two(4) am a(2) by (simp_all add: unat_of_nat)
    from continuationLoop_Inr [OF v(1), of "[x]"] cont cs v(2)
    have c: "bIsContinuationByte x" "unat cp = a * 64 + unat x mod 64" by (auto simp: cont_value_def)
    have "0x80 \<le> unat cp" using range two(5) by (simp add: word_less_nat_alt)
    moreover have "unat cp < 0x800" using c(2) a(2) mod_less_divisor [of 64 "unat x"] by linarith
    moreover have "b = of_nat (192 + a)" using a(1) by (metis of_nat_unat ucast_id)
    moreover have "x = of_nat (128 + unat x mod 64)" by (rule continuation_of_nat [OF c(1)])
    ultimately show ?thesis unfolding cs utf8_encode_def
      by (simp add: c(2) digits_64 del: of_nat_add)
  next
    case three
    obtain x y where cs: "?cs = [x, y]" using three(1) len by (cases xs; cases "tl xs") auto
    obtain a where a: "unat b = 224 + a" "a < 16" using three(2,3) that [of "unat b - 224"] by auto
    have am: "unat b mod 16 = a" using a mod_mult_self2 [of a 16 14] by (simp add: add.commute)
    have v: "unat v < 2 ^ 4" "unat v = a" using three(4) am a(2) by (simp_all add: unat_of_nat)
    from continuationLoop_Inr [OF v(1), of "[x, y]"] cont cs v(2)
    have c: "bIsContinuationByte x" "bIsContinuationByte y"
      "unat cp = (a * 64 + unat x mod 64) * 64 + unat y mod 64" by (auto simp: cont_value_def)
    have "0x800 \<le> unat cp" using range three(5) by (simp add: word_less_nat_alt)
    moreover have "unat cp < 0x10000"
      unfolding c(3) using a(2) by (intro bound_64) simp_all
    moreover have "b = of_nat (224 + a)" using a(1) by (metis of_nat_unat ucast_id)
    moreover note continuation_of_nat [OF c(1)] continuation_of_nat [OF c(2)]
    moreover have "unat cp div 4096 = a" "unat cp div 64 mod 64 = unat x mod 64"
      "unat cp mod 64 = unat y mod 64"
      unfolding c(3) by (simp_all only: digits_64)
    ultimately show ?thesis unfolding cs utf8_encode_def
      by (simp del: of_nat_add)
  next
    case four
    obtain x y z where cs: "?cs = [x, y, z]"
      using four(1) len by (cases xs; cases "tl xs"; cases "tl (tl xs)") auto
    obtain a where a: "unat b = 240 + a" "a < 8" using four(2,3) that [of "unat b - 240"] by auto
    have am: "unat b mod 8 = a" using a mod_mult_self2 [of a 8 30] by (simp add: add.commute)
    have v: "unat v < 2 ^ 3" "unat v = a" using four(4) am a(2) by (simp_all add: unat_of_nat)
    from continuationLoop_Inr [OF v(1), of "[x, y, z]"] cont cs v(2)
    have c: "bIsContinuationByte x" "bIsContinuationByte y" "bIsContinuationByte z"
      "unat cp = ((a * 64 + unat x mod 64) * 64 + unat y mod 64) * 64 + unat z mod 64"
      by (auto simp: cont_value_def)
    have "0x10000 \<le> unat cp" using range four(5) by (simp add: word_less_nat_alt)
    moreover have "b = of_nat (240 + a)" using a(1) by (metis of_nat_unat ucast_id)
    moreover note continuation_of_nat [OF c(1)] continuation_of_nat [OF c(2)] continuation_of_nat [OF c(3)]
    moreover have "unat cp div 262144 = a" "unat cp div 4096 mod 64 = unat x mod 64"
      "unat cp div 64 mod 64 = unat y mod 64" "unat cp mod 64 = unat z mod 64"
      unfolding c(4) by (simp_all only: digits_64)
    ultimately show ?thesis unfolding cs utf8_encode_def
      by (simp del: of_nat_add)
  qed
qed

lemma encoding_accepted:
  assumes sc: "scalar_value cp" and ys: "validateUtf8 ys = Inr ()"
  shows "validateUtf8 (utf8_encode cp @ ys) = Inr ()"
proof -
  have multi: "validateUtf8 ((of_nat l # cs) @ ys) = Inr ()"
    if lead: "classifyLead (of_nat l) = Some (n, of_nat v, lo)" "n = Suc (length cs)" "128 \<le> l" "l < 256"
      and v: "v < 2 ^ m" "m + 6 * length cs \<le> 21"
      and cs: "\<forall>b \<in> set cs. bIsContinuationByte b" "cont_value v cs = cp" and lo: "unat lo \<le> cp"
    for l cs v lo m n
  proof -
    have m: "(2 :: nat) ^ m \<le> 2 ^ 32" using v(2) by (intro power_increasing) auto
    with v(1) have uv: "unat (of_nat v :: u32) = v" by (simp add: unat_of_nat)
    have u: "unat (of_nat cp :: u32) = cp" using sc by (simp add: scalar_value_def unat_of_nat)
    have "continuationLoop cs (of_nat v) = Inr (of_nat cp)"
      using continuationLoop_Inr [of "of_nat v" m cs "of_nat cp"] v cs uv u by simp
    moreover have "\<not> (of_nat cp < lo \<or> (of_nat cp :: u32) > 0x10FFFF
        \<or> (of_nat cp :: u32) \<ge> 0xD800 \<and> (of_nat cp :: u32) \<le> 0xDFFF)"
      using sc lo u by (simp add: scalar_value_def word_less_nat_alt word_le_nat_alt)
    moreover have "\<not> (of_nat l :: byte) \<le> 0x7F"
      using lead(3,4) by (simp add: word_le_nat_alt unat_of_nat)
    ultimately show ?thesis using lead(1,2) ys by (simp add: validateUtf8_multi)
  qed
  have c: "cp \<le> 0x10FFFF" using sc by (simp add: scalar_value_def)
  let ?x = "cp mod 64" and ?y = "cp div 64 mod 64" and ?z = "cp div 4096 mod 64"
  have q: "cp div 4096 = cp div 64 div 64" "cp div 262144 = cp div 64 div 64 div 64"
    by (simp_all add: div_mult2_eq [symmetric])
  consider "cp < 0x80" | "0x80 \<le> cp" "cp < 0x800" | "0x800 \<le> cp" "cp < 0x10000" | "0x10000 \<le> cp"
    by linarith
  then show ?thesis
  proof cases
    case 1
    then have "(of_nat cp :: byte) \<le> 0x7F" by (simp add: word_le_nat_alt unat_of_nat)
    with 1 ys show ?thesis by (simp add: utf8_encode_def validateUtf8_ascii)
  next
    case 2
    let ?a = "cp div 64"
    have a: "?a < 32" using 2 by (simp add: less_mult_imp_div_less)
    have "(192 + ?a) mod 32 = ?a" using a mod_mult_self2 [of ?a 32 6] by (simp add: add.commute)
    with a have "classifyLead (of_nat (192 + ?a)) = Some (2, of_nat ?a, 0x80)"
      by (simp add: classifyLead_eq unat_byte_of_nat del: of_nat_add)
    then have "validateUtf8 ((of_nat (192 + ?a) # [of_nat (128 + ?x)]) @ ys) = Inr ()"
      by (rule multi [where m = 5])
        (use a 2 in \<open>simp_all add: bIsContinuationByte_of_nat cont_value_of_nat cont_value_def [of _ "[]"]
          del: of_nat_add\<close>)
    with 2 show ?thesis by (simp add: utf8_encode_def del: of_nat_add)
  next
    case 3
    let ?a = "cp div 4096"
    have a: "?a < 16" using 3 by (simp add: less_mult_imp_div_less)
    have "(224 + ?a) mod 16 = ?a" using a mod_mult_self2 [of ?a 16 14] by (simp add: add.commute)
    with a have lead: "classifyLead (of_nat (224 + ?a)) = Some (3, of_nat ?a, 0x800)"
      by (simp add: classifyLead_eq unat_byte_of_nat del: of_nat_add)
    have sum: "(?a * 64 + ?y) * 64 + ?x = cp" by (simp add: q)
    have "validateUtf8 ((of_nat (224 + ?a) # [of_nat (128 + ?y), of_nat (128 + ?x)]) @ ys) = Inr ()"
      by (rule multi [where m = 4, OF lead])
        (use a 3 sum in \<open>simp_all add: bIsContinuationByte_of_nat cont_value_of_nat cont_value_def [of _ "[]"]
          del: of_nat_add\<close>)
    with 3 show ?thesis by (simp add: utf8_encode_def del: of_nat_add)
  next
    case 4
    let ?a = "cp div 262144"
    have a: "?a < 8" using c by (simp add: less_mult_imp_div_less)
    have "(240 + ?a) mod 8 = ?a" using a mod_mult_self2 [of ?a 8 30] by (simp add: add.commute)
    with a have lead: "classifyLead (of_nat (240 + ?a)) = Some (4, of_nat ?a, 0x10000)"
      by (simp add: classifyLead_eq unat_byte_of_nat del: of_nat_add)
    have sum: "((?a * 64 + ?z) * 64 + ?y) * 64 + ?x = cp" by (simp add: q)
    have "validateUtf8 ((of_nat (240 + ?a) #
        [of_nat (128 + ?z), of_nat (128 + ?y), of_nat (128 + ?x)]) @ ys) = Inr ()"
      by (rule multi [where m = 3, OF lead])
        (use a 4 sum in \<open>simp_all add: bIsContinuationByte_of_nat cont_value_of_nat cont_value_def [of _ "[]"]
          del: of_nat_add\<close>)
    with 4 show ?thesis by (simp add: utf8_encode_def del: of_nat_add)
  qed
qed

lemma accepted_starts_with_encoding:
  assumes "validateUtf8 (b # xs) = Inr ()"
  shows "\<exists>cp ys. scalar_value cp \<and> b # xs = utf8_encode cp @ ys \<and> validateUtf8 ys = Inr ()"
proof (cases "b \<le> 0x7F")
  case True
  then have u: "unat b < 0x80" by (simp add: word_le_nat_alt)
  then have "utf8_encode (unat b) = [b]" by (simp add: utf8_encode_def)
  moreover have "scalar_value (unat b)" using u by (simp add: scalar_value_def)
  ultimately show ?thesis using assms True by (metis append_Cons append_Nil validateUtf8_ascii)
next
  case False
  with assms obtain n v lo cp where s: "classifyLead b = Some (n, v, lo)" "n \<le> Suc (length xs)"
    "continuationLoop (take (n - 1) xs) v = Inr cp"
    and r: "\<not> (cp < lo \<or> cp > 0x10FFFF \<or> (cp \<ge> 0xD800 \<and> cp \<le> 0xDFFF))"
    and ys: "validateUtf8 (drop n (b # xs)) = Inr ()"
    unfolding validateUtf8_multi [OF False] by blast
  have n: "1 \<le> n" using s(1) by (auto simp: classifyLead_def split: if_splits)
  have "b # take (n - 1) xs = utf8_encode (unat cp)" using accepted_is_encoding [OF s] r by blast
  moreover have "b # xs = (b # take (n - 1) xs) @ drop n (b # xs)" using n by (cases n) auto
  moreover have "scalar_value (unat cp)"
    using r by (auto simp: scalar_value_def word_less_nat_alt word_le_nat_alt)
  ultimately show ?thesis using ys by metis
qed

lemma validateUtf8_complete:
  "\<forall>cp \<in> set cps. scalar_value cp \<Longrightarrow> validateUtf8 (concat (map utf8_encode cps)) = Inr ()"
proof (induction cps)
  case Nil
  then show ?case by (subst validateUtf8.simps) simp
next
  case (Cons cp cps)
  then show ?case using encoding_accepted by simp
qed

lemma validateUtf8_sound:
  "validateUtf8 xs = Inr () \<Longrightarrow>
   \<exists>cps. (\<forall>cp \<in> set cps. scalar_value cp) \<and> xs = concat (map utf8_encode cps)"
proof (induction xs rule: length_induct)
  case (1 xs)
  show ?case
  proof (cases xs)
    case Nil
    then show ?thesis by (metis concat.simps(1) empty_iff list.set(1) list.simps(8))
  next
    case (Cons b r)
    from accepted_starts_with_encoding [of b r] 1(2) Cons obtain cp ys where
      cp: "scalar_value cp" "xs = utf8_encode cp @ ys" "validateUtf8 ys = Inr ()" by blast
    have "utf8_encode cp \<noteq> []" by (simp add: utf8_encode_def)
    with cp(2) have "length ys < length xs" by simp
    with 1(1) cp(3) obtain cps where "\<forall>cp \<in> set cps. scalar_value cp" "ys = concat (map utf8_encode cps)"
      by blast
    with cp have "(\<forall>c \<in> set (cp # cps). scalar_value c) \<and> xs = concat (map utf8_encode (cp # cps))" by simp
    then show ?thesis by blast
  qed
qed

end
