(* ===== verification/FileUpload.thy ===== *)
theory FileUpload
  imports Machines TcpFraming Workload
begin

text \<open>
  The upload of a file over a management connection: \<open>FileUploadSession.cpp\<close>. Every operation
  returns its result or exception together with the session after it. The lemmas: the session's
  invariant, and that a transfer completes exactly for the 64 KiB pieces of a file of the declared
  size, in order, with the bytes of the file as the workload.
\<close>

section \<open>The session\<close>

definition MAXIMUM_CHUNK_SIZE :: nat where "MAXIMUM_CHUNK_SIZE = 64 * 1024"

record upload_session =
  m_bActive :: bool
  m_strRequestId :: string
  m_u64UploadChainId :: u64
  m_u64OriginalByteCount :: u64
  m_u32NextChunkIndex :: u32
  m_vecUploadBytes :: "byte list"

definition upload_reset :: "upload_session \<Rightarrow> upload_session" where
  "upload_reset up = up\<lparr>m_bActive := False, m_strRequestId := [], m_u64UploadChainId := 0,
     m_u64OriginalByteCount := 0, m_u32NextChunkIndex := 1, m_vecUploadBytes := []\<rparr>"

definition new_upload :: upload_session where
  "new_upload = \<lparr>m_bActive = False, m_strRequestId = [], m_u64UploadChainId = 0,
     m_u64OriginalByteCount = 0, m_u32NextChunkIndex = 1, m_vecUploadBytes = []\<rparr>"

definition u32ReceivedChunkCount :: "upload_session \<Rightarrow> u32" where
  "u32ReceivedChunkCount up = m_u32NextChunkIndex up - 1"

definition u64ReceivedByteCount :: "upload_session \<Rightarrow> u64" where
  "u64ReceivedByteCount up = of_nat (length (m_vecUploadBytes up))"

definition upload_begin :: "string \<Rightarrow> u64 \<Rightarrow> u64 \<Rightarrow> upload_session \<Rightarrow> unit result \<times> upload_session" where
  "upload_begin strRequestId u64ChainId u64OriginalByteCount up =
     (if m_bActive up
      then (Inl (LogicError ''A file upload is already active on this connection''), up)
      else if strRequestId = [] \<or> u64ChainId = 0
      then (Inl (InvalidArgument ''File upload request ID and chain ID must be valid''), up)
      else if u64OriginalByteCount = 0 \<or> unat u64OriginalByteCount > MAXIMUM_FILE_SIZE
      then (Inl (InvalidArgument ''File upload size is outside the bounded range''), up)
      else (Inr (), up\<lparr>m_bActive := True, m_strRequestId := strRequestId,
              m_u64UploadChainId := u64ChainId, m_u64OriginalByteCount := u64OriginalByteCount,
              m_u32NextChunkIndex := 1, m_vecUploadBytes := []\<rparr>))"

definition nExpectedChunkSize :: "upload_session \<Rightarrow> nat" where
  "nExpectedChunkSize up =
     min MAXIMUM_CHUNK_SIZE (unat (m_u64OriginalByteCount up - of_nat (length (m_vecUploadBytes up))))"

definition upload_append :: "file_chunk \<Rightarrow> upload_session \<Rightarrow> unit result \<times> upload_session" where
  "upload_append chk up =
     (if \<not> m_bActive up
      then (Inl (LogicError ''File chunk arrived without an active upload''), up)
      else if m_u64ChainId chk \<noteq> m_u64UploadChainId up
      then (Inl (InvalidArgument ''File chunk chain ID does not match the upload''), up)
      else if m_u32ChunkIndex chk \<noteq> m_u32NextChunkIndex up
      then (Inl (InvalidArgument ''File chunks must arrive once in continuous order''), up)
      else if length (m_vecData chk) \<noteq> nExpectedChunkSize up
      then (Inl (InvalidArgument ''File upload chunk size does not match the 64 KiB transfer policy''), up)
      else (Inr (), up\<lparr>m_vecUploadBytes := m_vecUploadBytes up @ m_vecData chk,
              m_u32NextChunkIndex := m_u32NextChunkIndex up + 1\<rparr>))"

definition wrkComplete :: "string \<Rightarrow> u64 \<Rightarrow> u32 \<Rightarrow> u64 \<Rightarrow> upload_session
    \<Rightarrow> file_workload result \<times> upload_session" where
  "wrkComplete strRequestId u64ChainId u32ChunkCount u64TransferredByteCount up =
     (if \<not> m_bActive up
      then (Inl (LogicError ''File upload end arrived without an active upload''), up)
      else if strRequestId \<noteq> m_strRequestId up \<or> u64ChainId \<noteq> m_u64UploadChainId up
      then (Inl (InvalidArgument ''File upload end request ID or chain ID does not match''), up)
      else if u32ChunkCount \<noteq> u32ReceivedChunkCount up
      then (Inl (InvalidArgument ''File upload end chunk count does not match''), up)
      else if u64TransferredByteCount \<noteq> of_nat (length (m_vecUploadBytes up))
         \<or> u64TransferredByteCount \<noteq> m_u64OriginalByteCount up
      then (Inl (InvalidArgument ''File upload end byte count does not match''), up)
      else (mkFileWorkload (m_vecUploadBytes up), upload_reset up))"

section \<open>The session as a machine\<close>

datatype upload_op =
    UploadBegin string u64 u64
  | UploadAppend u64 u32 "byte list"
  | UploadEnd string u64 u32 u64
  | UploadReset

fun upload_step :: "upload_op \<Rightarrow> upload_session \<Rightarrow> file_workload option result \<times> upload_session" where
  "upload_step (UploadBegin r c n) up = map_prod (map_sum id (\<lambda>_. None)) id (upload_begin r c n up)"
| "upload_step (UploadAppend c i xs) up =
     (case mkFileBinaryChunk c i xs of
        Inl e \<Rightarrow> (Inl e, up)
      | Inr chk \<Rightarrow> map_prod (map_sum id (\<lambda>_. None)) id (upload_append chk up))"
| "upload_step (UploadEnd r c k n) up = map_prod (map_sum id Some) id (wrkComplete r c k n up)"
| "upload_step UploadReset up = (Inr None, upload_reset up)"

text \<open>
  Idle sessions hold nothing. In an active one the bytes received are within the declared size,
  and all chunks so far were full ones unless the file is complete.
\<close>

definition upload_inv :: "upload_session \<Rightarrow> bool" where
  "upload_inv up \<longleftrightarrow>
     (if m_bActive up
      then m_strRequestId up \<noteq> [] \<and> m_u64UploadChainId up \<noteq> 0
        \<and> 0 < unat (m_u64OriginalByteCount up) \<and> unat (m_u64OriginalByteCount up) \<le> MAXIMUM_FILE_SIZE
        \<and> length (m_vecUploadBytes up) \<le> unat (m_u64OriginalByteCount up)
        \<and> 1 \<le> unat (m_u32NextChunkIndex up)
        \<and> (if length (m_vecUploadBytes up) < unat (m_u64OriginalByteCount up)
           then length (m_vecUploadBytes up) = (unat (m_u32NextChunkIndex up) - 1) * MAXIMUM_CHUNK_SIZE
           else unat (m_u32NextChunkIndex up) - 1
                  = (unat (m_u64OriginalByteCount up) + MAXIMUM_CHUNK_SIZE - 1) div MAXIMUM_CHUNK_SIZE)
      else up = new_upload)"

lemma file_size_bound: "n \<le> MAXIMUM_FILE_SIZE \<longleftrightarrow> n \<le> 6400000"
  by (simp add: MAXIMUM_FILE_SIZE_def MESSAGE_SIZE_def MAXIMUM_PACKET_COUNT_def)

lemma remaining_bytes:
  assumes "length xs \<le> unat (n :: u64)"
  shows "unat (n - of_nat (length xs)) = unat n - length xs"
proof -
  have "length xs < 2 ^ 64" using le_less_trans [OF assms unat_lt_u64] by simp
  then have "unat (of_nat (length xs) :: u64) = length xs" by (simp add: unat_of_nat)
  with assms show ?thesis by (simp add: unat_sub word_le_nat_alt)
qed

lemma expected_chunk_size:
  assumes "upload_inv up" "m_bActive up"
  shows "nExpectedChunkSize up
    = min MAXIMUM_CHUNK_SIZE (unat (m_u64OriginalByteCount up) - length (m_vecUploadBytes up))"
  using assms by (simp add: nExpectedChunkSize_def upload_inv_def remaining_bytes)

lemma upload_inv_length:
  "upload_inv up \<Longrightarrow> m_bActive up \<Longrightarrow> length (m_vecUploadBytes up) \<le> unat (m_u64OriginalByteCount up)"
  by (simp add: upload_inv_def)

lemma chunks_arith:
  assumes "b = k * s" "b < n" "0 < (s :: nat)"
  shows "b + min s (n - b) \<le> n"
    and "b + min s (n - b) < n \<Longrightarrow> b + min s (n - b) = (k + 1) * s"
    and "\<not> b + min s (n - b) < n \<Longrightarrow> k + 1 = (n + s - 1) div s"
proof -
  show "b + min s (n - b) \<le> n" using assms(2) by simp
  show "b + min s (n - b) = (k + 1) * s" if "b + min s (n - b) < n"
    using that assms(1) by (simp add: min_def split: if_splits)
  show "k + 1 = (n + s - 1) div s" if "\<not> b + min s (n - b) < n"
  proof -
    have n: "k * s < n" "n \<le> k * s + s" using that assms(1,2) by (simp_all add: min_def split: if_splits)
    then have lo: "(k + 1) * s \<le> n + s - 1" and hi: "n + s - 1 < (k + 2) * s"
      using assms(3) by (simp_all add: algebra_simps)
    from div_le_mono [OF lo, of s] have a: "k + 1 \<le> (n + s - 1) div s"
      using assms(3) by (metis nonzero_mult_div_cancel_right less_not_refl)
    from hi have b: "(n + s - 1) div s < k + 2" by (simp add: less_mult_imp_div_less)
    from a b show ?thesis by linarith
  qed
qed

lemma upload_append_inv:
  assumes inv: "upload_inv up" and chk: "m_vecData chk \<noteq> []"
  shows "upload_inv (snd (upload_append chk up))"
proof (cases "fst (upload_append chk up)")
  case (Inl e)
  then have "snd (upload_append chk up) = up" by (simp add: upload_append_def split: if_splits)
  with inv show ?thesis by simp
next
  case (Inr u)
  let ?b = "length (m_vecUploadBytes up)" and ?n = "unat (m_u64OriginalByteCount up)"
    and ?i = "unat (m_u32NextChunkIndex up)" and ?s = MAXIMUM_CHUNK_SIZE
  from Inr have act: "m_bActive up" and len: "length (m_vecData chk) = nExpectedChunkSize up"
    and snd: "snd (upload_append chk up) = up\<lparr>m_vecUploadBytes := m_vecUploadBytes up @ m_vecData chk,
              m_u32NextChunkIndex := m_u32NextChunkIndex up + 1\<rparr>"
    by (simp_all add: upload_append_def split: if_splits)
  note I = inv [unfolded upload_inv_def if_P [OF act]]
  have size: "length (m_vecData chk) = min ?s (?n - ?b)"
    using len expected_chunk_size [OF inv act] by simp
  with chk I have less: "?b < ?n" by (cases "m_vecData chk") auto
  with I have b: "?b = (?i - 1) * ?s" and i1: "1 \<le> ?i" and n: "?n \<le> 6400000"
    by (simp_all add: file_size_bound)
  have "(?i - 1) * 65536 < 6400000" using less n b by (simp add: MAXIMUM_CHUNK_SIZE_def)
  then have i: "unat (m_u32NextChunkIndex up + 1) = ?i + 1"
    by (intro unat_Suc_no_wrap) simp
  have s: "0 < ?s" by (simp add: MAXIMUM_CHUNK_SIZE_def)
  note A = chunks_arith [OF b less s]
  let ?b' = "?b + length (m_vecData chk)"
  have "?b' \<le> ?n" using A(1) size by simp
  moreover have "?b' = ?i * ?s" if "?b' < ?n"
    using A(2) that size i1 by simp
  moreover have "?i = (?n + ?s - 1) div ?s" if "\<not> ?b' < ?n"
  proof -
    from that have "\<not> ?b + min ?s (?n - ?b) < ?n" unfolding size .
    from A(3) [OF this] have "?i - 1 + 1 = (?n + ?s - 1) div ?s" .
    with i1 show ?thesis by simp
  qed
  ultimately show ?thesis
    unfolding snd upload_inv_def using I by (auto simp: i act)
qed

lemma upload_step_inv: "upload_inv up \<Longrightarrow> upload_inv (snd (upload_step op up))"
proof (cases op)
  case (UploadBegin r c n)
  moreover assume "upload_inv up"
  ultimately show ?thesis
    by (auto simp: upload_begin_def upload_inv_def unat_gt_0_iff MAXIMUM_CHUNK_SIZE_def)
next
  case (UploadAppend c i xs)
  moreover assume "upload_inv up"
  moreover have "m_vecData chk \<noteq> []" if "mkFileBinaryChunk c i xs = Inr chk" for chk
    using that by (auto simp: mkFileBinaryChunk_Inr chunk_ok_def)
  ultimately show ?thesis
    using upload_append_inv by (auto split: sum.splits)
next
  case (UploadEnd r c k n)
  moreover assume "upload_inv up"
  moreover have "upload_inv (upload_reset up)" by (simp add: upload_inv_def upload_reset_def new_upload_def)
  ultimately show ?thesis by (simp add: wrkComplete_def)
next
  case UploadReset
  then show ?thesis by (simp add: upload_inv_def upload_reset_def new_upload_def)
qed

lemma completed_workload:
  assumes "upload_inv up" "m_bActive up" "of_nat (length (m_vecUploadBytes up)) = m_u64OriginalByteCount up"
  shows "\<exists>w. mkFileWorkload (m_vecUploadBytes up) = Inr w"
proof -
  have "length (m_vecUploadBytes up) \<le> unat (m_u64OriginalByteCount up)"
    using assms(1,2) by (simp add: upload_inv_def)
  from le_less_trans [OF this unat_lt_u64] have "length (m_vecUploadBytes up) < 2 ^ 64" by simp
  then have "length (m_vecUploadBytes up) = unat (m_u64OriginalByteCount up)"
    unfolding assms(3) [symmetric] by (simp add: unat_of_nat)
  with assms(1,2) show ?thesis
    by (simp add: mkFileWorkload_def u32PacketCountFor_def upload_inv_def)
qed

lemma upload_error_keeps:
  assumes "upload_inv up" "fst (upload_step op up) = Inl e"
  shows "snd (upload_step op up) = up"
proof (cases op)
  case (UploadBegin r c n)
  with assms(2) show ?thesis by (auto simp: upload_begin_def split: if_splits)
next
  case (UploadAppend c i xs)
  with assms(2) show ?thesis by (auto simp: upload_append_def split: if_splits sum.splits)
next
  case (UploadEnd r c k n)
  from assms(2) UploadEnd completed_workload [OF assms(1)] show ?thesis
    by (auto simp: wrkComplete_def split: if_splits)
next
  case UploadReset
  with assms(2) show ?thesis by simp
qed

interpretation upload: guarded_machine upload_step upload_inv new_upload
proof
  show "upload_inv new_upload" by (simp add: upload_inv_def new_upload_def)
qed (use upload_step_inv upload_error_keeps in blast)+

section \<open>A whole transfer\<close>

fun appendAll :: "file_chunk list \<Rightarrow> upload_session \<Rightarrow> unit result \<times> upload_session" where
  "appendAll [] up = (Inr (), up)"
| "appendAll (chk # chks) up =
     (case upload_append chk up of (Inl e, up') \<Rightarrow> (Inl e, up') | (Inr _, up') \<Rightarrow> appendAll chks up')"

definition upload_transfer :: "string \<Rightarrow> u64 \<Rightarrow> u64 \<Rightarrow> file_chunk list \<Rightarrow> string \<Rightarrow> u64 \<Rightarrow> u32 \<Rightarrow> u64
    \<Rightarrow> file_workload result" where
  "upload_transfer r c n chks r' c' k m =
     (case upload_begin r c n new_upload of
        (Inl e, _) \<Rightarrow> Inl e
      | (Inr _, up) \<Rightarrow> (case appendAll chks up of
          (Inl e, _) \<Rightarrow> Inl e
        | (Inr _, up') \<Rightarrow> fst (wrkComplete r' c' k m up')))"

text \<open>The chunks a file is cut into, numbered from \<open>i\<close>.\<close>

function file_chunks :: "u64 \<Rightarrow> u32 \<Rightarrow> byte list \<Rightarrow> file_chunk list" where
  "file_chunks c i xs =
     (if xs = [] then []
      else \<lparr>m_u64ChainId = c, m_u32ChunkIndex = i, m_vecData = take MAXIMUM_CHUNK_SIZE xs\<rparr>
             # file_chunks c (i + 1) (drop MAXIMUM_CHUNK_SIZE xs))"
  by auto
termination
  by (relation "measure (\<lambda>(_, _, xs). length xs)") (auto simp: MAXIMUM_CHUNK_SIZE_def)

declare file_chunks.simps [simp del]

lemma file_chunks_Nil [simp]: "file_chunks c i [] = []"
  by (subst file_chunks.simps) simp

lemma file_chunks_piece:
  assumes "p \<noteq> []" "length p = min MAXIMUM_CHUNK_SIZE (length (p @ ys))"
  shows "file_chunks c i (p @ ys) = \<lparr>m_u64ChainId = c, m_u32ChunkIndex = i, m_vecData = p\<rparr> # file_chunks c (i + 1) ys"
proof -
  have "take MAXIMUM_CHUNK_SIZE (p @ ys) = p" "drop MAXIMUM_CHUNK_SIZE (p @ ys) = ys"
    using assms(2) by (auto simp: min_def split: if_splits)
  with assms(1) show ?thesis by (subst file_chunks.simps) simp
qed

lemma file_chunks_head:
  assumes "chk # chks = file_chunks c i xs"
  shows "m_u64ChainId chk = c" "m_u32ChunkIndex chk = i"
    "length (m_vecData chk) = min MAXIMUM_CHUNK_SIZE (length xs)"
proof -
  have "xs \<noteq> []" using assms by (cases xs) auto
  then have "chk = \<lparr>m_u64ChainId = c, m_u32ChunkIndex = i, m_vecData = take MAXIMUM_CHUNK_SIZE xs\<rparr>"
    using assms file_chunks.simps [of c i xs] by simp
  then show "m_u64ChainId chk = c" "m_u32ChunkIndex chk = i"
    "length (m_vecData chk) = min MAXIMUM_CHUNK_SIZE (length xs)"
    by (simp_all add: min.commute)
qed

lemma file_chunks_concat: "concat (map m_vecData (file_chunks c i xs)) = xs"
  by (induction c i xs rule: file_chunks.induct) (subst file_chunks.simps, simp)

lemma file_chunks_nonempty: "\<forall>chk \<in> set (file_chunks c i xs). m_vecData chk \<noteq> []"
  by (induction c i xs rule: file_chunks.induct)
    (subst file_chunks.simps, simp add: MAXIMUM_CHUNK_SIZE_def)

lemma appended_session:
  assumes "upload_append chk up = (Inr u, up')"
  shows "m_bActive up'" "m_strRequestId up' = m_strRequestId up" "m_u64UploadChainId up' = m_u64UploadChainId up"
    "m_u64OriginalByteCount up' = m_u64OriginalByteCount up"
    "m_vecUploadBytes up' = m_vecUploadBytes up @ m_vecData chk"
    "m_u32NextChunkIndex up' = m_u32NextChunkIndex up + 1"
  using assms by (auto simp: upload_append_def split: if_splits)

text \<open>From any session, the appends that complete the file are exactly its remaining pieces.\<close>

lemma appendAll_exact:
  assumes "upload_inv up" "m_bActive up" "\<forall>chk \<in> set chks. m_vecData chk \<noteq> []"
    and "length (m_vecUploadBytes up) + length (concat (map m_vecData chks)) = unat (m_u64OriginalByteCount up)"
  shows "(\<exists>up'. appendAll chks up = (Inr (), up'))
    \<longleftrightarrow> chks = file_chunks (m_u64UploadChainId up) (m_u32NextChunkIndex up) (concat (map m_vecData chks))"
  using assms
proof (induction chks arbitrary: up)
  case Nil
  then show ?case by simp
next
  case (Cons chk chks)
  let ?ys = "concat (map m_vecData chks)"
  have size: "nExpectedChunkSize up = min MAXIMUM_CHUNK_SIZE (length (m_vecData chk @ ?ys))"
    using Cons.prems(4) expected_chunk_size [OF Cons.prems(1,2)] by simp
  show ?case
  proof (cases "upload_append chk up")
    case (Pair r up')
    show ?thesis
    proof (cases r)
      case (Inl e)
      then have no: "\<not> (m_u64ChainId chk = m_u64UploadChainId up
          \<and> m_u32ChunkIndex chk = m_u32NextChunkIndex up \<and> length (m_vecData chk) = nExpectedChunkSize up)"
        using Pair Cons.prems(2) by (auto simp: upload_append_def split: if_splits)
      have "chk # chks \<noteq> file_chunks (m_u64UploadChainId up) (m_u32NextChunkIndex up) (m_vecData chk @ ?ys)"
      proof
        assume "chk # chks = file_chunks (m_u64UploadChainId up) (m_u32NextChunkIndex up) (m_vecData chk @ ?ys)"
        from file_chunks_head [OF this] no show False unfolding size by blast
      qed
      with Pair Inl show ?thesis by simp
    next
      case (Inr u)
      note app = Pair [unfolded Inr]
      have ok: "m_u64ChainId chk = m_u64UploadChainId up" "m_u32ChunkIndex chk = m_u32NextChunkIndex up"
        "length (m_vecData chk) = nExpectedChunkSize up"
        using app by (auto simp: upload_append_def split: if_splits)
      note up' = appended_session [OF app]
      have "upload_inv up'"
        using upload_append_inv [OF Cons.prems(1), of chk] Cons.prems(3) app by simp
      moreover have "length (m_vecUploadBytes up') + length ?ys = unat (m_u64OriginalByteCount up')"
        using Cons.prems(4) up' by simp
      ultimately have IH: "(\<exists>up''. appendAll chks up' = (Inr (), up''))
          \<longleftrightarrow> chks = file_chunks (m_u64UploadChainId up) (m_u32NextChunkIndex up + 1) ?ys"
        using Cons.IH [of up'] Cons.prems(3) up' by simp
      have "file_chunks (m_u64UploadChainId up) (m_u32NextChunkIndex up) (m_vecData chk @ ?ys)
          = chk # file_chunks (m_u64UploadChainId up) (m_u32NextChunkIndex up + 1) ?ys"
      proof -
        have "m_vecData chk \<noteq> []" using Cons.prems(3) by simp
        then have "file_chunks (m_u64ChainId chk) (m_u32ChunkIndex chk) (m_vecData chk @ ?ys)
            = \<lparr>m_u64ChainId = m_u64ChainId chk, m_u32ChunkIndex = m_u32ChunkIndex chk, m_vecData = m_vecData chk\<rparr>
                # file_chunks (m_u64ChainId chk) (m_u32ChunkIndex chk + 1) ?ys"
          using ok(3) unfolding size by (rule file_chunks_piece)
        then show ?thesis unfolding ok(1,2) by (simp flip: ok(1,2))
      qed
      with IH app show ?thesis by simp
    qed
  qed
qed

lemma appendAll_session:
  assumes "appendAll chks up = (Inr (), up')" "upload_inv up" "m_bActive up" "\<forall>chk \<in> set chks. m_vecData chk \<noteq> []"
  shows "upload_inv up' \<and> m_bActive up' \<and> m_strRequestId up' = m_strRequestId up
    \<and> m_u64UploadChainId up' = m_u64UploadChainId up \<and> m_u64OriginalByteCount up' = m_u64OriginalByteCount up
    \<and> m_vecUploadBytes up' = m_vecUploadBytes up @ concat (map m_vecData chks)
    \<and> m_u32NextChunkIndex up' = m_u32NextChunkIndex up + of_nat (length chks)"
  using assms
proof (induction chks arbitrary: up)
  case Nil
  then show ?case by simp
next
  case (Cons chk chks)
  obtain u up1 where app: "upload_append chk up = (Inr u, up1)"
    using Cons.prems(1) by (cases "upload_append chk up"; cases "fst (upload_append chk up)") auto
  have "upload_inv up1"
    using upload_append_inv [OF Cons.prems(2), of chk] Cons.prems(4) app by simp
  moreover have "appendAll chks up1 = (Inr (), up')" using Cons.prems(1) app by simp
  ultimately show ?case
    using Cons.IH [of up1] Cons.prems(4) appended_session [OF app] by (simp add: algebra_simps)
qed

text \<open>
  A transfer as the two ends of the connection see it: it yields a workload exactly when the chunks
  are the pieces of a file of the announced size.
\<close>

lemma u64_length: "length xs = unat (n :: u64) \<Longrightarrow> of_nat (length xs) = n"
  by simp

lemma transfer_sound:
  assumes chks: "\<forall>chk \<in> set chks. m_vecData chk \<noteq> []"
    and ok: "upload_transfer r c n chks r' c' k m = Inr w"
  defines "xs \<equiv> concat (map m_vecData chks)"
  shows "mkFileWorkload xs = Inr w" "r \<noteq> []" "c \<noteq> 0" "length xs = unat n"
    "chks = file_chunks c 1 xs" "r' = r" "c' = c" "k = of_nat (length chks)" "m = n"
proof -
  obtain up where b: "upload_begin r c n new_upload = (Inr (), up)"
    using ok by (auto simp: upload_transfer_def split: prod.splits sum.splits)
  obtain up' where a: "appendAll chks up = (Inr (), up')"
    using ok b by (auto simp: upload_transfer_def split: prod.splits sum.splits)
  have e: "fst (wrkComplete r' c' k m up') = Inr w"
    using ok a b by (simp add: upload_transfer_def)
  have up: "up = new_upload\<lparr>m_bActive := True, m_strRequestId := r, m_u64UploadChainId := c,
      m_u64OriginalByteCount := n, m_u32NextChunkIndex := 1, m_vecUploadBytes := []\<rparr>"
    and rc: "r \<noteq> []" "c \<noteq> 0"
    using b by (auto simp: upload_begin_def split: if_splits)
  have act: "m_bActive up" by (simp add: up)
  have inv: "upload_inv up"
    using upload.step_inv [OF upload.inv_start, of "UploadBegin r c n"] b by simp
  note S = appendAll_session [OF a inv act chks]
  have bytes: "m_vecUploadBytes up' = xs" and cnt: "m_u32NextChunkIndex up' = 1 + of_nat (length chks)"
    and fields: "m_strRequestId up' = r" "m_u64UploadChainId up' = c" "m_u64OriginalByteCount up' = n"
    using S by (simp_all add: up xs_def)
  have E: "r' = r" "c' = c" "k = of_nat (length chks)" "m = n" "of_nat (length xs) = n"
    "mkFileWorkload xs = Inr w"
    using e by (simp_all add: wrkComplete_def u32ReceivedChunkCount_def bytes cnt fields split: if_splits)
  have "length (m_vecUploadBytes up') \<le> unat (m_u64OriginalByteCount up')"
    using S upload_inv_length by blast
  then have "length xs \<le> unat n" unfolding bytes fields .
  from le_less_trans [OF this unat_lt_u64] have "length xs < 2 ^ 64" by simp
  then have len: "length xs = unat n" using E(5) unat_of_nat [of "length xs", where 'a = 64] by simp
  have "chks = file_chunks c 1 xs"
    using appendAll_exact [OF inv act chks] a len by (simp add: up xs_def)
  with E rc len show "mkFileWorkload xs = Inr w" "r \<noteq> []" "c \<noteq> 0" "length xs = unat n"
    "chks = file_chunks c 1 xs" "r' = r" "c' = c" "k = of_nat (length chks)" "m = n"
    by blast+
qed

lemma transfer_complete:
  assumes w: "mkFileWorkload xs = Inr w" and rc: "r \<noteq> []" "c \<noteq> 0" and n: "length xs = unat n"
  shows "upload_transfer r c n (file_chunks c 1 xs) r c (of_nat (length (file_chunks c 1 xs))) n = Inr w"
proof -
  let ?cs = "file_chunks c 1 xs"
  define up where "up = new_upload\<lparr>m_bActive := True, m_strRequestId := r, m_u64UploadChainId := c,
      m_u64OriginalByteCount := n, m_u32NextChunkIndex := 1, m_vecUploadBytes := []\<rparr>"
  have "0 < unat n \<and> unat n \<le> MAXIMUM_FILE_SIZE"
    using w unfolding n [symmetric] by (auto simp: mkFileWorkload_def u32PacketCountFor_def split: if_splits)
  then have b: "upload_begin r c n new_upload = (Inr (), up)"
    using rc by (auto simp: upload_begin_def up_def new_upload_def)
  have act: "m_bActive up" by (simp add: up_def)
  have inv: "upload_inv up"
    using upload.step_inv [OF upload.inv_start, of "UploadBegin r c n"] b by simp
  have full: "concat (map m_vecData ?cs) = xs" and ne: "\<forall>chk \<in> set ?cs. m_vecData chk \<noteq> []"
    by (simp_all add: file_chunks_concat file_chunks_nonempty)
  obtain up' where a: "appendAll ?cs up = (Inr (), up')"
    using appendAll_exact [OF inv act ne] full n by (auto simp: up_def)
  note S = appendAll_session [OF a inv act ne, unfolded full]
  have "fst (wrkComplete r c (of_nat (length ?cs)) n up') = mkFileWorkload xs"
    using S by (simp add: wrkComplete_def u32ReceivedChunkCount_def up_def u64_length [OF n])
  with a b w show ?thesis by (simp add: upload_transfer_def)
qed

text \<open>C37. The upload of the workload file, as a whole: a transfer of non-empty chunks between a
  begin and a complete message yields a workload exactly when the chunks are the pieces of a file of
  the announced size in their order, under the announced chain; every other transfer is refused.\<close>

theorem upload_exact:
  assumes "\<forall>chk \<in> set chks. m_vecData chk \<noteq> []"
  shows "upload_transfer r c n chks r' c' k m = Inr w \<longleftrightarrow>
    (\<exists>xs. mkFileWorkload xs = Inr w \<and> r \<noteq> [] \<and> c \<noteq> 0 \<and> length xs = unat n \<and> chks = file_chunks c 1 xs
       \<and> r' = r \<and> c' = c \<and> k = of_nat (length chks) \<and> m = n)"
proof
  assume "upload_transfer r c n chks r' c' k m = Inr w"
  note S = transfer_sound [OF assms this]
  show "\<exists>xs. mkFileWorkload xs = Inr w \<and> r \<noteq> [] \<and> c \<noteq> 0 \<and> length xs = unat n \<and> chks = file_chunks c 1 xs
      \<and> r' = r \<and> c' = c \<and> k = of_nat (length chks) \<and> m = n"
    by (intro exI conjI) (fact S)+
next
  assume "\<exists>xs. mkFileWorkload xs = Inr w \<and> r \<noteq> [] \<and> c \<noteq> 0 \<and> length xs = unat n \<and> chks = file_chunks c 1 xs
      \<and> r' = r \<and> c' = c \<and> k = of_nat (length chks) \<and> m = n"
  then show "upload_transfer r c n chks r' c' k m = Inr w" using transfer_complete by blast
qed

theorem upload_exact_witness:
  "\<exists>w. mkFileWorkload [1, 2, 3] = Inr w
     \<and> upload_transfer ''r'' 7 3 [\<lparr>m_u64ChainId = 7, m_u32ChunkIndex = 1, m_vecData = [1, 2, 3]\<rparr>] ''r'' 7 1 3 = Inr w"
proof -
  let ?chk = "\<lparr>m_u64ChainId = 7, m_u32ChunkIndex = 1, m_vecData = [1, 2, 3]\<rparr>"
  obtain w where w: "mkFileWorkload [1, 2, 3] = Inr w"
    by (simp add: mkFileWorkload_def u32PacketCountFor_def MAXIMUM_FILE_SIZE_def MESSAGE_SIZE_def MAXIMUM_PACKET_COUNT_def)
  have "file_chunks 7 1 [1, 2, 3] = [?chk]" by (simp add: file_chunks.simps MAXIMUM_CHUNK_SIZE_def)
  then have "upload_transfer ''r'' 7 3 [?chk] ''r'' 7 1 3 = Inr w"
    using upload_exact [of "[?chk]" "''r''" 7 3 "''r''" 7 1 3 w] w by force
  with w show ?thesis by blast
qed

end
