(* ===== verification/UdpPacket.thy ===== *)
theory UdpPacket
  imports Codec PacketInput
begin

text \<open>
  \<open>UdpAuthenticationPacket.cpp\<close>: the header, the trusted context that determines which
  conditional fields a packet has, the data and disclosure packets, and the mapping to the
  algorithm's input (\<open>UdpAuthenticationInputMapper.cpp\<close>). The lemmas describe what a context
  that exists guarantees: no index or schedule computation of it wraps.
\<close>

section \<open>Types and constructors\<close>

datatype UdpAuthenticationMode = Native | Improved

record udp_header =
  hdr_u64ChainId :: u64
  hdr_u32IntervalIndex :: u32
  hdr_u32PacketIndex :: u32

definition mkUdpHeader :: "u64 \<Rightarrow> u32 \<Rightarrow> u32 \<Rightarrow> udp_header result" where
  "mkUdpHeader u64ChainId u32IntervalIndex u32PacketIndex =
     (if u64ChainId = 0 \<or> u32IntervalIndex = 0
      then Inl (InvalidArgument ''UDP authentication header identity is invalid'')
      else Inr \<lparr>hdr_u64ChainId = u64ChainId, hdr_u32IntervalIndex = u32IntervalIndex,
                hdr_u32PacketIndex = u32PacketIndex\<rparr>)"

record udp_context =
  ctx_mode :: UdpAuthenticationMode
  ctx_u32PacketsPerInterval :: u32
  ctx_u32DisclosureDelay :: u32
  ctx_u32TotalPacketCount :: u32
  ctx_u32GroupSize :: u32
  ctx_nTauCount :: nat

definition MAX_SAFE_TAU_COUNT :: nat where "MAX_SAFE_TAU_COUNT = 2043"

definition mkUdpContext ::
  "UdpAuthenticationMode \<Rightarrow> u32 \<Rightarrow> u32 \<Rightarrow> u32 \<Rightarrow> u32 \<Rightarrow> nat \<Rightarrow> udp_context result" where
  "mkUdpContext mode u32PacketsPerInterval u32DisclosureDelay u32TotalPacketCount u32GroupSize nTauCount =
     (let ctx = \<lparr>ctx_mode = mode, ctx_u32PacketsPerInterval = u32PacketsPerInterval,
                 ctx_u32DisclosureDelay = u32DisclosureDelay,
                 ctx_u32TotalPacketCount = u32TotalPacketCount,
                 ctx_u32GroupSize = u32GroupSize, ctx_nTauCount = nTauCount\<rparr>;
          u32FinalInterval = (u32TotalPacketCount - 1) div u32PacketsPerInterval + 1
      in if u32PacketsPerInterval = 0 \<or> u32TotalPacketCount = 0
         then Inl (InvalidArgument ''UDP context packet counts must be positive'')
         else if u32DisclosureDelay = 0
         then Inl (InvalidArgument ''TESLA disclosure delay must be positive'')
         else if u32DisclosureDelay > 0xFFFFFFFF - u32FinalInterval
         then Inl (InvalidArgument ''Disclosure schedule exceeds the interval index range'')
         else if mode = Native
         then if u32GroupSize \<noteq> 0 \<or> nTauCount \<noteq> 0
              then Inl (InvalidArgument ''Native UDP context must not define improved-mode fields'')
              else Inr ctx
         else if u32GroupSize = 0 \<or> nTauCount = 0
         then Inl (InvalidArgument ''Improved UDP context requires group size and tau count'')
         else if u32PacketsPerInterval mod u32GroupSize \<noteq> 0
         then Inl (InvalidArgument ''Packets per interval must be divisible by group size'')
         else if nTauCount > MAX_SAFE_TAU_COUNT
         then Inl (InvalidArgument ''Tau count exceeds the protocol safety limit'')
         else Inr ctx)"

definition u32ExpectedInterval :: "udp_context \<Rightarrow> u32 \<Rightarrow> u32 result" where
  "u32ExpectedInterval ctx u32PacketIndex =
     (if u32PacketIndex = 0 \<or> u32PacketIndex > ctx_u32TotalPacketCount ctx
      then Inl (OutOfRange ''Data packet index is outside the configured round'')
      else Inr ((u32PacketIndex - 1) div ctx_u32PacketsPerInterval ctx + 1))"

definition bPacketCarriesDisclosedKey :: "udp_context \<Rightarrow> u32 \<Rightarrow> u32 \<Rightarrow> bool" where
  "bPacketCarriesDisclosedKey ctx u32IntervalIndex u32PacketIndex \<longleftrightarrow>
     u32PacketIndex > 0 \<and> u32IntervalIndex > ctx_u32DisclosureDelay ctx
     \<and> (u32PacketIndex - 1) mod ctx_u32PacketsPerInterval ctx = 0"

definition bIsImprovedGroupEnd :: "udp_context \<Rightarrow> u32 \<Rightarrow> bool" where
  "bIsImprovedGroupEnd ctx u32PacketIndex =
     (if ctx_mode ctx \<noteq> Improved \<or> u32PacketIndex = 0 then False
      else u32PacketIndex mod ctx_u32GroupSize ctx = 0
           \<or> u32PacketIndex = ctx_u32TotalPacketCount ctx)"

record udp_group_details =
  ugd_vecSamdTau :: "block list"
  ugd_arrFastGroupTag :: block

definition mkImprovedUdpGroupDetails :: "block list \<Rightarrow> block \<Rightarrow> udp_group_details result" where
  "mkImprovedUdpGroupDetails vecSamdTau arrFastGroupTag =
     (if vecSamdTau = []
      then Inl (InvalidArgument ''Improved UDP group details require at least one tau'')
      else Inr \<lparr>ugd_vecSamdTau = vecSamdTau, ugd_arrFastGroupTag = arrFastGroupTag\<rparr>)"

datatype udp_auth =
    NativeUdpDetails block
  | ImprovedUdpDetails "udp_group_details option"

record udp_data =
  ud_u64ChainId :: u64
  ud_u32IntervalIndex :: u32
  ud_u32PacketIndex :: u32
  ud_arrMessage :: block
  ud_optDisclosedKey :: "block option"
  ud_varAuthenticationDetails :: udp_auth

definition mkUdpDataPacket ::
  "u64 \<Rightarrow> u32 \<Rightarrow> u32 \<Rightarrow> block \<Rightarrow> block option \<Rightarrow> udp_auth \<Rightarrow> udp_data result" where
  "mkUdpDataPacket u64ChainId u32IntervalIndex u32PacketIndex arrMessage optDisclosedKey det =
     (if u64ChainId = 0 then Inl (InvalidArgument ''UDP data packet chain ID must not be zero'')
      else if u32IntervalIndex = 0 \<or> u32PacketIndex = 0
      then Inl (InvalidArgument ''UDP data packet indexes must start at one'')
      else Inr \<lparr>ud_u64ChainId = u64ChainId, ud_u32IntervalIndex = u32IntervalIndex,
                ud_u32PacketIndex = u32PacketIndex, ud_arrMessage = arrMessage,
                ud_optDisclosedKey = optDisclosedKey, ud_varAuthenticationDetails = det\<rparr>)"

record udp_disclosure =
  udis_u64ChainId :: u64
  udis_u32IntervalIndex :: u32
  udis_arrDisclosedKey :: block

definition mkUdpDisclosurePacket :: "u64 \<Rightarrow> u32 \<Rightarrow> block \<Rightarrow> udp_disclosure result" where
  "mkUdpDisclosurePacket u64ChainId u32IntervalIndex arrDisclosedKey =
     (if u64ChainId = 0 \<or> u32IntervalIndex = 0
      then Inl (InvalidArgument ''UDP disclosure packet requires non-zero chain and interval'')
      else Inr \<lparr>udis_u64ChainId = u64ChainId, udis_u32IntervalIndex = u32IntervalIndex,
                udis_arrDisclosedKey = arrDisclosedKey\<rparr>)"

datatype udp_packet = UdpData udp_data | UdpDisclosure udp_disclosure

fun bIsDataPacket :: "udp_packet \<Rightarrow> bool" where
  "bIsDataPacket (UdpData _) = True"
| "bIsDataPacket (UdpDisclosure _) = False"

definition pktMapDataPacket :: "string \<Rightarrow> udp_data \<Rightarrow> pkt_input result" where
  "pktMapDataPacket strSenderId d =
     mkAuthenticationPacketInput strSenderId (ud_u64ChainId d) (ud_u32IntervalIndex d)
       (ud_u32PacketIndex d) (ud_arrMessage d)"

section \<open>What a context guarantees\<close>

definition final_interval :: "udp_context \<Rightarrow> nat" where
  "final_interval ctx =
     (unat (ctx_u32TotalPacketCount ctx) - 1) div unat (ctx_u32PacketsPerInterval ctx) + 1"

definition context_ok :: "udp_context \<Rightarrow> bool" where
  "context_ok ctx \<longleftrightarrow>
     ctx_u32PacketsPerInterval ctx \<noteq> 0 \<and> ctx_u32TotalPacketCount ctx \<noteq> 0
     \<and> ctx_u32DisclosureDelay ctx \<noteq> 0
     \<and> unat (ctx_u32DisclosureDelay ctx) + final_interval ctx \<le> U32_MAX
     \<and> (case ctx_mode ctx of
          Native \<Rightarrow> ctx_u32GroupSize ctx = 0 \<and> ctx_nTauCount ctx = 0
        | Improved \<Rightarrow> ctx_u32GroupSize ctx \<noteq> 0 \<and> 0 < ctx_nTauCount ctx
            \<and> unat (ctx_u32GroupSize ctx) dvd unat (ctx_u32PacketsPerInterval ctx)
            \<and> ctx_nTauCount ctx \<le> MAX_SAFE_TAU_COUNT)"

lemma unat_le_U32_MAX: "unat (w :: u32) \<le> U32_MAX"
  using unat_lt_u32 [of w] unfolding U32_MAX_def by linarith

lemma unat_all_ones: "unat (0xFFFFFFFF - w :: u32) = U32_MAX - unat w"
proof -
  have m: "unat (0xFFFFFFFF :: u32) = U32_MAX" by (simp add: U32_MAX_def)
  have "w \<le> 0xFFFFFFFF" unfolding word_le_nat_alt m by (rule unat_le_U32_MAX)
  then show ?thesis by (simp only: unat_sub m)
qed

lemma interval_arith:
  assumes "i \<noteq> 0" "p \<noteq> 0"
  shows "unat ((i - 1) div p) = (unat i - 1) div unat p"
    and "unat ((i - 1) div p + 1 :: u32) = (unat i - 1) div unat p + 1"
proof -
  show d: "unat ((i - 1) div p) = (unat i - 1) div unat p"
    using assms(1) by (simp add: unat_div unat_minus_one_pos)
  have "(unat i - 1) div unat p \<le> unat i - 1" by (rule div_le_dividend)
  moreover have "unat i < 2 ^ LENGTH(32)" "0 < unat i"
    using unsigned_less [of i, where 'a = nat] assms(1) by (simp_all add: unat_gt_0)
  ultimately have "unat ((i - 1) div p) + 1 < 2 ^ LENGTH(32)" unfolding d by linarith
  then show "unat ((i - 1) div p + 1 :: u32) = (unat i - 1) div unat p + 1"
    unfolding d [symmetric] by (rule unat_Suc_no_wrap)
qed

lemma mkUdpContext_Inr:
  "mkUdpContext mode ppi delay tot gs tau = Inr ctx \<longleftrightarrow>
     ctx = \<lparr>ctx_mode = mode, ctx_u32PacketsPerInterval = ppi, ctx_u32DisclosureDelay = delay,
            ctx_u32TotalPacketCount = tot, ctx_u32GroupSize = gs, ctx_nTauCount = tau\<rparr>
     \<and> context_ok ctx"
proof (cases "ppi = 0 \<or> tot = 0 \<or> delay = 0")
  case True
  then show ?thesis by (auto simp: mkUdpContext_def context_ok_def Let_def)
next
  case False
  let ?c = "\<lparr>ctx_mode = mode, ctx_u32PacketsPerInterval = ppi, ctx_u32DisclosureDelay = delay,
            ctx_u32TotalPacketCount = tot, ctx_u32GroupSize = gs, ctx_nTauCount = tau\<rparr>"
  have fin: "unat ((tot - 1) div ppi + 1) = final_interval ?c"
    using interval_arith(2) [of tot ppi] False by (simp add: final_interval_def)
  have le: "final_interval ?c \<le> U32_MAX"
    unfolding fin [symmetric] by (rule unat_le_U32_MAX)
  have sched: "delay > 0xFFFFFFFF - ((tot - 1) div ppi + 1) \<longleftrightarrow> \<not> unat delay + final_interval ?c \<le> U32_MAX"
    unfolding word_less_nat_alt unat_all_ones fin using le by auto
  have dv: "ppi mod gs = 0 \<longleftrightarrow> unat gs dvd unat ppi"
    by (simp add: word_unat_eq_iff unat_mod mod_eq_0_iff_dvd)
  have ok: "context_ok ?c \<longleftrightarrow> unat delay + final_interval ?c \<le> U32_MAX \<and>
     (case mode of Native \<Rightarrow> gs = 0 \<and> tau = 0
      | Improved \<Rightarrow> gs \<noteq> 0 \<and> 0 < tau \<and> ppi mod gs = 0 \<and> tau \<le> MAX_SAFE_TAU_COUNT)"
    unfolding dv using False by (auto simp: context_ok_def split: UdpAuthenticationMode.split)
  have "mkUdpContext mode ppi delay tot gs tau = Inr ctx \<longleftrightarrow> ctx = ?c \<and> context_ok ?c"
    unfolding ok mkUdpContext_def Let_def sched using False by (cases mode) auto
  then show ?thesis by auto
qed

lemma expected_interval_ok:
  assumes "context_ok ctx" "u32ExpectedInterval ctx i = Inr v"
  shows "unat v = (unat i - 1) div unat (ctx_u32PacketsPerInterval ctx) + 1"
    and "1 \<le> unat v" "unat v \<le> final_interval ctx" "v \<noteq> 0"
proof -
  from assms have i: "i \<noteq> 0" "i \<le> ctx_u32TotalPacketCount ctx"
    and v: "v = (i - 1) div ctx_u32PacketsPerInterval ctx + 1" "ctx_u32PacketsPerInterval ctx \<noteq> 0"
    by (auto simp: u32ExpectedInterval_def context_ok_def split: if_splits)
  show u: "unat v = (unat i - 1) div unat (ctx_u32PacketsPerInterval ctx) + 1"
    unfolding v(1) by (rule interval_arith(2) [OF i(1) v(2)])
  then show "1 \<le> unat v" by simp
  then show "v \<noteq> 0" by auto
  show "unat v \<le> final_interval ctx"
    unfolding u final_interval_def using i(2) by (simp add: word_le_nat_alt div_le_mono diff_le_mono)
qed

lemma expected_interval_defined:
  "i \<noteq> 0 \<Longrightarrow> i \<le> ctx_u32TotalPacketCount ctx \<Longrightarrow> \<exists>v. u32ExpectedInterval ctx i = Inr v"
  by (auto simp: u32ExpectedInterval_def)

lemma final_interval_word:
  assumes "context_ok ctx"
  shows "\<exists>v. u32ExpectedInterval ctx (ctx_u32TotalPacketCount ctx) = Inr v \<and> unat v = final_interval ctx
    \<and> unat (v + ctx_u32DisclosureDelay ctx) = final_interval ctx + unat (ctx_u32DisclosureDelay ctx)"
proof -
  have "ctx_u32TotalPacketCount ctx \<noteq> 0" using assms by (simp add: context_ok_def)
  then obtain v where v: "u32ExpectedInterval ctx (ctx_u32TotalPacketCount ctx) = Inr v"
    using expected_interval_defined by fastforce
  have u: "unat v = final_interval ctx"
    using expected_interval_ok(1) [OF assms v] by (simp add: final_interval_def)
  moreover have "unat (v + ctx_u32DisclosureDelay ctx) = unat v + unat (ctx_u32DisclosureDelay ctx)"
    using assms u by (intro unat_plus_no_wrap) (simp add: context_ok_def U32_MAX_def)
  ultimately show ?thesis using v by auto
qed

lemma group_end_last: "context_ok ctx \<Longrightarrow> ctx_mode ctx = Improved \<Longrightarrow>
    bIsImprovedGroupEnd ctx (ctx_u32TotalPacketCount ctx)"
  by (simp add: bIsImprovedGroupEnd_def context_ok_def)

end
