(* ===== verification/UdpCodec.thy ===== *)
theory UdpCodec
  imports UdpPacket
begin

text \<open>
  \<open>UdpAuthenticationPacketCodec.cpp\<close>: encoding with the checks a sender makes, the header
  decoder and the strict decoder. The conditional fields (disclosed key, MAC, group tags) are
  determined by the trusted context alone; the codec is a bijection between the packets that
  fit the context and the datagrams it accepts.
\<close>

section \<open>Encoding\<close>

definition validateDataPacketForEncoding :: "udp_data \<Rightarrow> udp_context \<Rightarrow> unit result" where
  "validateDataPacketForEncoding udpData ctx =
     (if ud_u32PacketIndex udpData > ctx_u32TotalPacketCount ctx
      then Inl (InvalidArgument ''UDP data packet index exceeds the configured round'')
      else andThen (u32ExpectedInterval ctx (ud_u32PacketIndex udpData)) (\<lambda>u32Expected.
        if ud_u32IntervalIndex udpData \<noteq> u32Expected
        then Inl (InvalidArgument ''UDP data packet interval does not match its packet index'')
        else if (ud_optDisclosedKey udpData \<noteq> None) \<noteq>
            bPacketCarriesDisclosedKey ctx (ud_u32IntervalIndex udpData) (ud_u32PacketIndex udpData)
        then Inl (InvalidArgument ''UDP data packet disclosed-key presence is invalid'')
        else case ctx_mode ctx of
          Native \<Rightarrow>
            (case ud_varAuthenticationDetails udpData of
               NativeUdpDetails _ \<Rightarrow> Inr ()
             | ImprovedUdpDetails _ \<Rightarrow>
                 Inl (InvalidArgument ''Native UDP context requires native packet details''))
        | Improved \<Rightarrow>
            (case ud_varAuthenticationDetails udpData of
               NativeUdpDetails _ \<Rightarrow>
                 Inl (InvalidArgument ''Improved UDP context requires improved packet details'')
             | ImprovedUdpDetails optGroup \<Rightarrow>
                 (let bNeedsGroupDetails = bIsImprovedGroupEnd ctx (ud_u32PacketIndex udpData) in
                  if (optGroup \<noteq> None) \<noteq> bNeedsGroupDetails
                  then Inl (InvalidArgument
                    ''Improved UDP group details are missing or appear off-group-end'')
                  else if bNeedsGroupDetails
                    \<and> length (ugd_vecSamdTau (the optGroup)) \<noteq> ctx_nTauCount ctx
                  then Inl (InvalidArgument ''Improved UDP tau count does not match trusted context'')
                  else Inr ()))))"

definition FIXED_HEADER_SIZE :: nat where "FIXED_HEADER_SIZE = 16"
definition DATA_PREFIX_SIZE :: nat where "DATA_PREFIX_SIZE = FIXED_HEADER_SIZE + 32"
definition DISCLOSURE_PACKET_SIZE :: nat where "DISCLOSURE_PACKET_SIZE = FIXED_HEADER_SIZE + 32"

definition appendHeader :: "u64 \<Rightarrow> u32 \<Rightarrow> u32 \<Rightarrow> byte list" where
  "appendHeader u64ChainId u32IntervalIndex u32PacketIndex =
     appendUint32 (appendUint32 (appendUint64 [] u64ChainId) u32IntervalIndex) u32PacketIndex"

definition appendDetails :: "byte list \<Rightarrow> udp_auth \<Rightarrow> byte list" where
  "appendDetails vecDatagram det =
     (case det of
        NativeUdpDetails arrPacketMac \<Rightarrow> appendBlock vecDatagram arrPacketMac
      | ImprovedUdpDetails None \<Rightarrow> vecDatagram
      | ImprovedUdpDetails (Some detGroup) \<Rightarrow>
          appendBlock (foldl appendBlock vecDatagram (ugd_vecSamdTau detGroup))
            (ugd_arrFastGroupTag detGroup))"

definition encodeDisclosure :: "udp_disclosure \<Rightarrow> udp_context \<Rightarrow> byte list result" where
  "encodeDisclosure udpDisclosure ctx =
     andThen (u32ExpectedInterval ctx (ctx_u32TotalPacketCount ctx)) (\<lambda>u32FinalDataInterval.
       if udis_u32IntervalIndex udpDisclosure \<le> ctx_u32DisclosureDelay ctx
          \<or> udis_u32IntervalIndex udpDisclosure > u32FinalDataInterval + ctx_u32DisclosureDelay ctx
       then Inl (InvalidArgument ''UDP disclosure interval is outside the configured round'')
       else Inr (appendBlock
         (appendHeader (udis_u64ChainId udpDisclosure) (udis_u32IntervalIndex udpDisclosure) 0)
         (udis_arrDisclosedKey udpDisclosure)))"

definition encodeData :: "udp_data \<Rightarrow> udp_context \<Rightarrow> byte list result" where
  "encodeData udpData ctx =
     andThen (validateDataPacketForEncoding udpData ctx) (\<lambda>_.
       let vecDatagram = appendHeader (ud_u64ChainId udpData) (ud_u32IntervalIndex udpData)
                           (ud_u32PacketIndex udpData);
           vecDatagram = appendBlock vecDatagram (ud_arrMessage udpData);
           vecDatagram = (case ud_optDisclosedKey udpData of
               None \<Rightarrow> vecDatagram | Some key \<Rightarrow> appendBlock vecDatagram key)
       in Inr (appendDetails vecDatagram (ud_varAuthenticationDetails udpData)))"

definition udp_vecEncode :: "udp_packet \<Rightarrow> udp_context \<Rightarrow> byte list result" where
  "udp_vecEncode udpPacket ctx =
     (case udpPacket of
        UdpDisclosure udpDisclosure \<Rightarrow> encodeDisclosure udpDisclosure ctx
      | UdpData udpData \<Rightarrow> encodeData udpData ctx)"

section \<open>Decoding\<close>

definition udp_resDecodeHeader :: "byte list \<Rightarrow> udp_header decoded" where
  "udp_resDecodeHeader vecDatagram =
     (if length vecDatagram < FIXED_HEADER_SIZE
      then errCreate DatagramTooShort ''UDP authentication datagram is shorter than its fixed header''
      else case andThen (u64Read (BinaryReader vecDatagram)) (\<lambda>(u64ChainId, rdr).
               andThen (u32Read rdr) (\<lambda>(u32IntervalIndex, rdr).
                 andThen (u32Read rdr) (\<lambda>(u32PacketIndex, rdr).
                   mkUdpHeader u64ChainId u32IntervalIndex u32PacketIndex))) of
             Inl exError \<Rightarrow> errCreate InvalidAuthenticationFields (exn_what exError)
           | Inr hdr \<Rightarrow> Inr hdr)"

definition expectedLength :: "udp_context \<Rightarrow> u32 \<Rightarrow> u32 \<Rightarrow> nat" where
  "expectedLength ctx u32IntervalIndex u32PacketIndex =
     (let nExpectedLength = DATA_PREFIX_SIZE;
          nExpectedLength =
            (if bPacketCarriesDisclosedKey ctx u32IntervalIndex u32PacketIndex
             then nExpectedLength + 32 else nExpectedLength)
      in if ctx_mode ctx = Native then nExpectedLength + 32
         else if bIsImprovedGroupEnd ctx u32PacketIndex
         then nExpectedLength + (ctx_nTauCount ctx + 1) * 32
         else nExpectedLength)"

definition readKey :: "bool \<Rightarrow> reader \<Rightarrow> (block option \<times> reader) result" where
  "readKey bHasDisclosedKey rdr =
     (if bHasDisclosedKey then andThen (arrRead32 rdr) (\<lambda>(key, rdr). Inr (Some key, rdr))
      else Inr (None, rdr))"

definition readDetails :: "udp_context \<Rightarrow> u32 \<Rightarrow> reader \<Rightarrow> (udp_auth \<times> reader) result" where
  "readDetails ctx u32PacketIndex rdr =
     (if ctx_mode ctx = Native
      then andThen (arrRead32 rdr) (\<lambda>(mac, rdr). Inr (NativeUdpDetails mac, rdr))
      else if bIsImprovedGroupEnd ctx u32PacketIndex
      then andThen (readMany arrRead32 (ctx_nTauCount ctx) rdr) (\<lambda>(taus, rdr).
             andThen (arrRead32 rdr) (\<lambda>(tag, rdr).
               andThen (mkImprovedUdpGroupDetails taus tag) (\<lambda>g.
                 Inr (ImprovedUdpDetails (Some g), rdr))))
      else Inr (ImprovedUdpDetails None, rdr))"

definition decodeDisclosure :: "udp_context \<Rightarrow> nat \<Rightarrow> u64 \<Rightarrow> u32 \<Rightarrow> reader \<Rightarrow> udp_packet decoded result" where
  "decodeDisclosure ctx nSize u64ChainId u32IntervalIndex rdr =
     (if nSize \<noteq> DISCLOSURE_PACKET_SIZE
      then Inr (errCreate DatagramLengthMismatch
             ''UDP disclosure packet must contain exactly one 32-byte key'')
      else andThen (u32ExpectedInterval ctx (ctx_u32TotalPacketCount ctx)) (\<lambda>u32FinalDataInterval.
        if u32IntervalIndex \<le> ctx_u32DisclosureDelay ctx
           \<or> u32IntervalIndex > u32FinalDataInterval + ctx_u32DisclosureDelay ctx
        then Inr (errCreate InvalidIntervalIndex
               ''UDP disclosure interval is outside the configured round'')
        else andThen (arrRead32 rdr) (\<lambda>(key, rdr).
          andThen (mkUdpDisclosurePacket u64ChainId u32IntervalIndex key) (\<lambda>p.
            Inr (Inr (UdpDisclosure p))))))"

definition decodeData :: "udp_context \<Rightarrow> nat \<Rightarrow> u64 \<Rightarrow> u32 \<Rightarrow> u32 \<Rightarrow> reader \<Rightarrow> udp_packet decoded result" where
  "decodeData ctx nSize u64ChainId u32IntervalIndex u32PacketIndex rdr =
     (if u32PacketIndex > ctx_u32TotalPacketCount ctx
      then Inr (errCreate InvalidPacketIndex ''UDP data packet index exceeds the configured round'')
      else andThen (u32ExpectedInterval ctx u32PacketIndex) (\<lambda>u32Expected.
        if u32IntervalIndex \<noteq> u32Expected
        then Inr (errCreate InvalidIntervalIndex
               ''UDP data packet interval does not match its packet index'')
        else if nSize \<noteq> expectedLength ctx u32IntervalIndex u32PacketIndex
        then Inr (errCreate DatagramLengthMismatch
               ''UDP authentication datagram length does not match conditional fields'')
        else andThen (arrRead32 rdr) (\<lambda>(arrMessage, rdr).
          andThen (readKey (bPacketCarriesDisclosedKey ctx u32IntervalIndex u32PacketIndex) rdr)
            (\<lambda>(optKey, rdr).
              andThen (readDetails ctx u32PacketIndex rdr) (\<lambda>(det, rdr).
                andThen (mkUdpDataPacket u64ChainId u32IntervalIndex u32PacketIndex arrMessage optKey det)
                  (\<lambda>p. Inr (Inr (UdpData p))))))))"

definition decodePacket :: "udp_context \<Rightarrow> nat \<Rightarrow> reader \<Rightarrow> udp_packet decoded result" where
  "decodePacket ctx nSize rdr =
     andThen (u64Read rdr) (\<lambda>(u64ChainId, rdr).
       andThen (u32Read rdr) (\<lambda>(u32IntervalIndex, rdr).
         andThen (u32Read rdr) (\<lambda>(u32PacketIndex, rdr).
           if u64ChainId = 0
           then Inr (errCreate InvalidAuthenticationContext
                  ''UDP authentication datagram contains a zero chain ID'')
           else if u32IntervalIndex = 0
           then Inr (errCreate InvalidIntervalIndex
                  ''UDP authentication datagram interval must start at one'')
           else if u32PacketIndex = 0
           then decodeDisclosure ctx nSize u64ChainId u32IntervalIndex rdr
           else decodeData ctx nSize u64ChainId u32IntervalIndex u32PacketIndex rdr)))"

definition udp_resDecode :: "byte list \<Rightarrow> udp_context \<Rightarrow> udp_packet decoded result" where
  "udp_resDecode vecDatagram ctx =
     (if length vecDatagram < FIXED_HEADER_SIZE
      then Inr (errCreate DatagramTooShort
             ''UDP authentication datagram is shorter than its fixed header'')
      else catchInvalidArgument
        (catchOutOfRange (decodePacket ctx (length vecDatagram) (BinaryReader vecDatagram))
          (errCreate DatagramTooShort ''UDP authentication datagram ended inside a declared field''))
        (errCreate InvalidAuthenticationFields))"

section \<open>Layout of the conditional fields\<close>

definition details_ok :: "udp_context \<Rightarrow> u32 \<Rightarrow> udp_auth \<Rightarrow> bool" where
  "details_ok ctx i det \<longleftrightarrow>
     (case det of
        NativeUdpDetails _ \<Rightarrow> ctx_mode ctx = Native
      | ImprovedUdpDetails None \<Rightarrow> ctx_mode ctx = Improved \<and> \<not> bIsImprovedGroupEnd ctx i
      | ImprovedUdpDetails (Some g) \<Rightarrow> ctx_mode ctx = Improved \<and> bIsImprovedGroupEnd ctx i
          \<and> length (ugd_vecSamdTau g) = ctx_nTauCount ctx \<and> ugd_vecSamdTau g \<noteq> [])"

definition putKey :: "block option \<Rightarrow> byte list" where
  "putKey k = (case k of None \<Rightarrow> [] | Some b \<Rightarrow> appendBlock [] b)"

definition putDetails :: "udp_auth \<Rightarrow> byte list" where
  "putDetails det = (case det of
      NativeUdpDetails mac \<Rightarrow> appendBlock [] mac
    | ImprovedUdpDetails None \<Rightarrow> []
    | ImprovedUdpDetails (Some g) \<Rightarrow>
        concat (map (appendBlock []) (ugd_vecSamdTau g)) @ appendBlock [] (ugd_arrFastGroupTag g))"

fun packet_ok :: "udp_packet \<Rightarrow> bool" where
  "packet_ok (UdpDisclosure p) \<longleftrightarrow> udis_u64ChainId p \<noteq> 0 \<and> udis_u32IntervalIndex p \<noteq> 0"
| "packet_ok (UdpData p) \<longleftrightarrow> ud_u64ChainId p \<noteq> 0 \<and> ud_u32IntervalIndex p \<noteq> 0 \<and> ud_u32PacketIndex p \<noteq> 0
     \<and> (case ud_varAuthenticationDetails p of
          ImprovedUdpDetails (Some g) \<Rightarrow> ugd_vecSamdTau g \<noteq> [] | _ \<Rightarrow> True)"

lemma block_append: "appendBlock out b = out @ appendBlock [] b"
  by (simp add: appendBlock_def appendBytes_def)

lemma foldl_appendBlock: "foldl appendBlock out bs = out @ concat (map (appendBlock []) bs)"
proof (induction bs arbitrary: out)
  case Nil
  then show ?case by simp
next
  case (Cons b bs)
  then show ?case using block_append [of out b] by simp
qed

lemma appendDetails_eq: "appendDetails out det = out @ putDetails det"
proof (cases det)
  case (NativeUdpDetails mac)
  then show ?thesis using block_append [of out] by (simp add: appendDetails_def putDetails_def)
next
  case (ImprovedUdpDetails og)
  then show ?thesis
  proof (cases og)
    case (Some g)
    with ImprovedUdpDetails show ?thesis
      by (simp add: appendDetails_def putDetails_def foldl_appendBlock)
        (subst block_append, simp)
  qed (simp add: appendDetails_def putDetails_def)
qed

lemma appendHeader_eq: "appendHeader c v i = appendUint64 [] c @ appendUint32 [] v @ appendUint32 [] i"
  unfolding appendHeader_def
  by (subst append_into_empty(3), subst append_into_empty(3)) simp

lemma length_put:
  "length (putKey k) = (if k = None then 0 else 32)"
  "details_ok ctx i det \<Longrightarrow> length (putDetails det) =
     (if ctx_mode ctx = Native then 32
      else if bIsImprovedGroupEnd ctx i then (ctx_nTauCount ctx + 1) * 32 else 0)"
proof -
  show "length (putKey k) = (if k = None then 0 else 32)" by (cases k) (simp_all add: putKey_def)
  have c: "length (concat (map (appendBlock []) bs)) = 32 * length bs" for bs
    by (induction bs) auto
  show "length (putDetails det) = (if ctx_mode ctx = Native then 32
      else if bIsImprovedGroupEnd ctx i then (ctx_nTauCount ctx + 1) * 32 else 0)"
    if "details_ok ctx i det"
    using that
    by (cases det) (auto simp: details_ok_def putDetails_def c algebra_simps split: option.splits)
qed

lemma mode_cases: "m \<noteq> Native \<longleftrightarrow> m = Improved"
  by (cases m) auto

lemma validate_iff:
  "validateDataPacketForEncoding d ctx = Inr () \<longleftrightarrow>
     u32ExpectedInterval ctx (ud_u32PacketIndex d) = Inr (ud_u32IntervalIndex d)
     \<and> (ud_optDisclosedKey d \<noteq> None)
        = bPacketCarriesDisclosedKey ctx (ud_u32IntervalIndex d) (ud_u32PacketIndex d)
     \<and> (details_ok ctx (ud_u32PacketIndex d) (ud_varAuthenticationDetails d)
        \<or> (\<exists>g. ud_varAuthenticationDetails d = ImprovedUdpDetails (Some g) \<and> ctx_mode ctx = Improved
             \<and> bIsImprovedGroupEnd ctx (ud_u32PacketIndex d)
             \<and> ugd_vecSamdTau g = [] \<and> ctx_nTauCount ctx = 0))"
proof (cases "u32ExpectedInterval ctx (ud_u32PacketIndex d) = Inr (ud_u32IntervalIndex d)")
  case False
  then show ?thesis
    by (cases "u32ExpectedInterval ctx (ud_u32PacketIndex d)")
      (auto simp: validateDataPacketForEncoding_def)
next
  case True
  then have le: "\<not> ud_u32PacketIndex d > ctx_u32TotalPacketCount ctx"
    by (auto simp: u32ExpectedInterval_def split: if_splits)
  show ?thesis
  proof (cases "ud_varAuthenticationDetails d")
    case (NativeUdpDetails mac)
    with True le show ?thesis
      by (cases "ctx_mode ctx") (auto simp: validateDataPacketForEncoding_def details_ok_def)
  next
    case (ImprovedUdpDetails og)
    with True le show ?thesis
      by (cases "ctx_mode ctx"; cases og)
        (auto simp: validateDataPacketForEncoding_def details_ok_def Let_def)
  qed
qed

section \<open>Reading inverts the layout\<close>

lemma readKey_Inr:
  "readKey b r = Inr (k, r') \<Longrightarrow> (k \<noteq> None) = b \<and> rest r = putKey k @ rest r'"
  by (auto simp: readKey_def putKey_def dest: blockf.put_get split: if_splits)

lemma readKey_put:
  assumes "rest r = putKey k @ ys"
  obtains r' where "readKey (k \<noteq> None) r = Inr (k, r')" "rest r' = ys"
proof (cases k)
  case None
  with assms that show thesis by (simp add: readKey_def putKey_def)
next
  case (Some b)
  with assms have "rest r = appendBlock [] b @ ys" by (simp add: putKey_def)
  then obtain r' where "arrRead32 r = Inr (b, r')" "rest r' = ys" by (rule blockf.get_put)
  with Some that show thesis by (simp add: readKey_def)
qed

lemma readDetails_Inr:
  assumes "readDetails ctx i r = Inr (det, r')"
  shows "details_ok ctx i det \<and> rest r = putDetails det @ rest r'"
proof (cases "ctx_mode ctx = Native")
  case True
  with assms show ?thesis
    by (auto simp: readDetails_def details_ok_def putDetails_def dest: blockf.put_get)
next
  case mode: False
  show ?thesis
  proof (cases "bIsImprovedGroupEnd ctx i")
    case False
    with assms mode show ?thesis
      by (auto simp: readDetails_def details_ok_def putDetails_def mode_cases)
  next
    case True
    with assms mode obtain taus r1 tag g where t: "readMany arrRead32 (ctx_nTauCount ctx) r = Inr (taus, r1)"
      and b: "arrRead32 r1 = Inr (tag, r')" and g: "mkImprovedUdpGroupDetails taus tag = Inr g"
      and det: "det = ImprovedUdpDetails (Some g)"
      by (auto simp: readDetails_def)
    from g have "g = \<lparr>ugd_vecSamdTau = taus, ugd_arrFastGroupTag = tag\<rparr>" "taus \<noteq> []"
      by (auto simp: mkImprovedUdpGroupDetails_def split: if_splits)
    with blockf.put_readMany [OF t] blockf.put_get [OF b] det True mode show ?thesis
      by (simp add: details_ok_def putDetails_def mode_cases)
  qed
qed

lemma readDetails_put:
  assumes ok: "details_ok ctx i det" and r: "rest r = putDetails det @ ys"
  obtains r' where "readDetails ctx i r = Inr (det, r')" "rest r' = ys"
proof (cases det)
  case (NativeUdpDetails mac)
  with r have "rest r = appendBlock [] mac @ ys" by (simp add: putDetails_def)
  then obtain r' where "arrRead32 r = Inr (mac, r')" "rest r' = ys" by (rule blockf.get_put)
  with NativeUdpDetails ok that show thesis by (simp add: readDetails_def details_ok_def)
next
  case (ImprovedUdpDetails og)
  show thesis
  proof (cases og)
    case None
    with ImprovedUdpDetails ok r that show thesis
      by (simp add: readDetails_def details_ok_def putDetails_def)
  next
    case (Some g)
    let ?t = "ugd_vecSamdTau g"
    have l: "length ?t = ctx_nTauCount ctx" "?t \<noteq> []" "bIsImprovedGroupEnd ctx i" "ctx_mode ctx = Improved"
      using ok ImprovedUdpDetails Some by (auto simp: details_ok_def)
    have "rest r = concat (map (appendBlock []) ?t) @ (appendBlock [] (ugd_arrFastGroupTag g) @ ys)"
      using r ImprovedUdpDetails Some by (simp add: putDetails_def)
    then obtain r1 where r1: "readMany arrRead32 (length ?t) r = Inr (?t, r1)"
      "rest r1 = appendBlock [] (ugd_arrFastGroupTag g) @ ys" by (rule blockf.readMany_put)
    from r1(2) obtain r' where r': "arrRead32 r1 = Inr (ugd_arrFastGroupTag g, r')" "rest r' = ys"
      by (rule blockf.get_put)
    have "mkImprovedUdpGroupDetails ?t (ugd_arrFastGroupTag g) = Inr g"
      using l(2) by (simp add: mkImprovedUdpGroupDetails_def)
    with r1(1) r' l ImprovedUdpDetails Some that show thesis by (simp add: readDetails_def)
  qed
qed

section \<open>Data packets\<close>

definition data_fits :: "udp_context \<Rightarrow> udp_data \<Rightarrow> bool" where
  "data_fits ctx d \<longleftrightarrow>
     u32ExpectedInterval ctx (ud_u32PacketIndex d) = Inr (ud_u32IntervalIndex d)
     \<and> (ud_optDisclosedKey d \<noteq> None)
        = bPacketCarriesDisclosedKey ctx (ud_u32IntervalIndex d) (ud_u32PacketIndex d)
     \<and> details_ok ctx (ud_u32PacketIndex d) (ud_varAuthenticationDetails d)"

definition data_body :: "udp_data \<Rightarrow> byte list" where
  "data_body d = appendBlock [] (ud_arrMessage d) @ putKey (ud_optDisclosedKey d)
     @ putDetails (ud_varAuthenticationDetails d)"

lemma encodeData_Inr:
  assumes "packet_ok (UdpData d)"
  shows "encodeData d ctx = Inr bs \<longleftrightarrow> data_fits ctx d \<and>
    bs = appendHeader (ud_u64ChainId d) (ud_u32IntervalIndex d) (ud_u32PacketIndex d) @ data_body d"
proof -
  have "validateDataPacketForEncoding d ctx = Inr () \<longleftrightarrow> data_fits ctx d"
    using assms by (auto simp: validate_iff data_fits_def)
  moreover have "(case ud_optDisclosedKey d of None \<Rightarrow> out | Some key \<Rightarrow> appendBlock out key)
      = out @ putKey (ud_optDisclosedKey d)" for out
    using block_append [of out] by (simp add: putKey_def split: option.split)
  ultimately show ?thesis
    unfolding encodeData_def Let_def andThen_Inr_iff appendDetails_eq data_body_def
    using block_append [of "appendHeader (ud_u64ChainId d) (ud_u32IntervalIndex d) (ud_u32PacketIndex d)"]
    by auto
qed

lemma length_data_body:
  "data_fits ctx d \<Longrightarrow>
   16 + length (data_body d) = expectedLength ctx (ud_u32IntervalIndex d) (ud_u32PacketIndex d)"
  using length_put(2) [of ctx "ud_u32PacketIndex d" "ud_varAuthenticationDetails d"]
  by (auto simp: length_put(1) data_fits_def data_body_def expectedLength_def Let_def DATA_PREFIX_SIZE_def
    FIXED_HEADER_SIZE_def)

lemma decodeData_Inr:
  assumes n: "nSize = 16 + length (rest rdr)"
  shows "decodeData ctx nSize c iv ix rdr = Inr (Inr p) \<longleftrightarrow>
    (\<exists>d. p = UdpData d \<and> packet_ok p \<and> data_fits ctx d \<and> rest rdr = data_body d
       \<and> ud_u64ChainId d = c \<and> ud_u32IntervalIndex d = iv \<and> ud_u32PacketIndex d = ix)"
proof
  assume dec: "decodeData ctx nSize c iv ix rdr = Inr (Inr p)"
  then have iv: "u32ExpectedInterval ctx ix = Inr iv" and len: "nSize = expectedLength ctx iv ix"
    by (auto simp: decodeData_def split: if_splits)
  let ?b = "bPacketCarriesDisclosedKey ctx iv ix"
  from dec obtain m r1 k r2 det r3 d where m: "arrRead32 rdr = Inr (m, r1)"
    and k: "readKey ?b r1 = Inr (k, r2)" and det: "readDetails ctx ix r2 = Inr (det, r3)"
    and mk: "mkUdpDataPacket c iv ix m k det = Inr d" and p: "p = UdpData d"
    by (auto simp: decodeData_def split: if_splits)
  from mk have d: "d = \<lparr>ud_u64ChainId = c, ud_u32IntervalIndex = iv, ud_u32PacketIndex = ix,
      ud_arrMessage = m, ud_optDisclosedKey = k, ud_varAuthenticationDetails = det\<rparr>"
    and nz: "c \<noteq> 0" "iv \<noteq> 0" "ix \<noteq> 0"
    by (auto simp: mkUdpDataPacket_def split: if_splits)
  have fits: "data_fits ctx d"
    using iv readKey_Inr [OF k] readDetails_Inr [OF det] by (simp add: data_fits_def d)
  have rest: "rest rdr = data_body d @ rest r3"
    using blockf.put_get [OF m] readKey_Inr [OF k] readDetails_Inr [OF det] by (simp add: data_body_def d)
  have "length (rest rdr) = length (data_body d)"
    using length_data_body [OF fits] len n by (simp add: d)
  with rest have "rest rdr = data_body d" by simp
  moreover have "packet_ok p"
    using nz readDetails_Inr [OF det] by (auto simp: p d details_ok_def split: udp_auth.splits option.splits)
  ultimately show "\<exists>d. p = UdpData d \<and> packet_ok p \<and> data_fits ctx d \<and> rest rdr = data_body d
       \<and> ud_u64ChainId d = c \<and> ud_u32IntervalIndex d = iv \<and> ud_u32PacketIndex d = ix"
    using p fits by (simp add: d)
next
  assume "\<exists>d. p = UdpData d \<and> packet_ok p \<and> data_fits ctx d \<and> rest rdr = data_body d
       \<and> ud_u64ChainId d = c \<and> ud_u32IntervalIndex d = iv \<and> ud_u32PacketIndex d = ix"
  then obtain d where p: "p = UdpData d" "packet_ok p" and fits: "data_fits ctx d"
    and rest: "rest rdr = data_body d"
    and f: "ud_u64ChainId d = c" "ud_u32IntervalIndex d = iv" "ud_u32PacketIndex d = ix" by blast
  have e: "u32ExpectedInterval ctx ix = Inr iv" using fits f by (simp add: data_fits_def)
  then have le: "\<not> ix > ctx_u32TotalPacketCount ctx"
    by (auto simp: u32ExpectedInterval_def split: if_splits)
  have len: "nSize = expectedLength ctx iv ix" using length_data_body [OF fits] n rest f by simp
  from rest obtain r1 where m: "arrRead32 rdr = Inr (ud_arrMessage d, r1)"
    and r1: "rest r1 = putKey (ud_optDisclosedKey d) @ putDetails (ud_varAuthenticationDetails d)"
    unfolding data_body_def by (rule blockf.get_put)
  from r1 obtain r2 where k: "readKey (ud_optDisclosedKey d \<noteq> None) r1 = Inr (ud_optDisclosedKey d, r2)"
    and r2: "rest r2 = putDetails (ud_varAuthenticationDetails d) @ []"
    by (metis append_Nil2 readKey_put)
  have key: "(ud_optDisclosedKey d \<noteq> None) = bPacketCarriesDisclosedKey ctx iv ix"
    and det_ok: "details_ok ctx ix (ud_varAuthenticationDetails d)"
    using fits f by (simp_all add: data_fits_def)
  from det_ok r2 obtain r3 where det: "readDetails ctx ix r2 = Inr (ud_varAuthenticationDetails d, r3)"
    by (rule readDetails_put)
  have "mkUdpDataPacket c iv ix (ud_arrMessage d) (ud_optDisclosedKey d) (ud_varAuthenticationDetails d) = Inr d"
    using p f by (auto simp: mkUdpDataPacket_def)
  then show "decodeData ctx nSize c iv ix rdr = Inr (Inr p)"
    using e le len m k [unfolded key] det p(1) by (simp add: decodeData_def)
qed

section \<open>Disclosure packets\<close>

definition disclosure_fits :: "udp_context \<Rightarrow> udp_disclosure \<Rightarrow> bool" where
  "disclosure_fits ctx d \<longleftrightarrow>
     (\<exists>fin. u32ExpectedInterval ctx (ctx_u32TotalPacketCount ctx) = Inr fin
        \<and> ctx_u32DisclosureDelay ctx < udis_u32IntervalIndex d
        \<and> udis_u32IntervalIndex d \<le> fin + ctx_u32DisclosureDelay ctx)"

lemma encodeDisclosure_Inr:
  "encodeDisclosure d ctx = Inr bs \<longleftrightarrow> disclosure_fits ctx d \<and>
    bs = appendHeader (udis_u64ChainId d) (udis_u32IntervalIndex d) 0 @ appendBlock [] (udis_arrDisclosedKey d)"
proof (cases "u32ExpectedInterval ctx (ctx_u32TotalPacketCount ctx)")
  case (Inl e)
  then show ?thesis by (simp add: encodeDisclosure_def disclosure_fits_def)
next
  case (Inr fin)
  show ?thesis
    unfolding encodeDisclosure_def disclosure_fits_def Inr andThen_simps
    by (subst block_append) (auto simp: not_less not_le)
qed

lemma decodeDisclosure_sound:
  assumes n: "nSize = 16 + length (rest rdr)"
    and dec: "decodeDisclosure ctx nSize c iv rdr = Inr (Inr p)"
  shows "\<exists>d. p = UdpDisclosure d \<and> packet_ok p \<and> disclosure_fits ctx d
       \<and> rest rdr = appendBlock [] (udis_arrDisclosedKey d)
       \<and> udis_u64ChainId d = c \<and> udis_u32IntervalIndex d = iv"
proof -
  from dec have len48: "\<not> nSize \<noteq> DISCLOSURE_PACKET_SIZE"
    by (cases "nSize = DISCLOSURE_PACKET_SIZE") (simp_all add: decodeDisclosure_def)
  then have len: "nSize = 48" by (simp add: DISCLOSURE_PACKET_SIZE_def FIXED_HEADER_SIZE_def)
  from dec obtain fin where fin: "u32ExpectedInterval ctx (ctx_u32TotalPacketCount ctx) = Inr fin"
    unfolding decodeDisclosure_def if_not_P [OF len48]
    by (cases "u32ExpectedInterval ctx (ctx_u32TotalPacketCount ctx)") simp_all
  have iv: "\<not> (iv \<le> ctx_u32DisclosureDelay ctx \<or> iv > fin + ctx_u32DisclosureDelay ctx)"
  proof
    assume "iv \<le> ctx_u32DisclosureDelay ctx \<or> iv > fin + ctx_u32DisclosureDelay ctx"
    with dec show False
      unfolding decodeDisclosure_def if_not_P [OF len48] fin andThen_simps by simp
  qed
  from dec obtain k r1 d where k: "arrRead32 rdr = Inr (k, r1)"
    and mk: "mkUdpDisclosurePacket c iv k = Inr d" and p: "p = UdpDisclosure d"
    unfolding decodeDisclosure_def if_not_P [OF len48] fin andThen_simps if_not_P [OF iv]
    by (auto simp: andThen_Inr_iff)
  have rest: "rest rdr = appendBlock [] k @ rest r1" using blockf.put_get [OF k] .
  then have "rest r1 = []" using n len by simp
  moreover from mk have d: "d = \<lparr>udis_u64ChainId = c, udis_u32IntervalIndex = iv, udis_arrDisclosedKey = k\<rparr>"
    and nz: "c \<noteq> 0" "iv \<noteq> 0"
    by (auto simp: mkUdpDisclosurePacket_def split: if_splits)
  ultimately have "rest rdr = appendBlock [] (udis_arrDisclosedKey d)" "packet_ok p"
    "udis_u64ChainId d = c" "udis_u32IntervalIndex d = iv"
    using p rest by simp_all
  moreover from this have "disclosure_fits ctx d"
    using fin iv by (simp add: disclosure_fits_def not_less not_le)
  ultimately show "\<exists>d. p = UdpDisclosure d \<and> packet_ok p \<and> disclosure_fits ctx d
       \<and> rest rdr = appendBlock [] (udis_arrDisclosedKey d)
       \<and> udis_u64ChainId d = c \<and> udis_u32IntervalIndex d = iv"
    using p by blast
qed

lemma decodeDisclosure_complete:
  assumes n: "nSize = 16 + length (rest rdr)" and p: "p = UdpDisclosure d" "packet_ok p"
    and fits: "disclosure_fits ctx d" and rest: "rest rdr = appendBlock [] (udis_arrDisclosedKey d)"
    and f: "udis_u64ChainId d = c" "udis_u32IntervalIndex d = iv"
  shows "decodeDisclosure ctx nSize c iv rdr = Inr (Inr p)"
proof -
  from fits obtain fin where fin: "u32ExpectedInterval ctx (ctx_u32TotalPacketCount ctx) = Inr fin"
      "ctx_u32DisclosureDelay ctx < udis_u32IntervalIndex d"
      "udis_u32IntervalIndex d \<le> fin + ctx_u32DisclosureDelay ctx"
    unfolding disclosure_fits_def by blast
  have "rest rdr = appendBlock [] (udis_arrDisclosedKey d) @ []" using rest by simp
  then obtain r1 where "arrRead32 rdr = Inr (udis_arrDisclosedKey d, r1)" by (rule blockf.get_put)
  moreover have "\<not> nSize \<noteq> DISCLOSURE_PACKET_SIZE"
    using n rest by (simp add: DISCLOSURE_PACKET_SIZE_def FIXED_HEADER_SIZE_def)
  moreover have "mkUdpDisclosurePacket c iv (udis_arrDisclosedKey d) = Inr d"
    using p f by (auto simp: mkUdpDisclosurePacket_def)
  ultimately show "decodeDisclosure ctx nSize c iv rdr = Inr (Inr p)"
    using fin f p(1) by (simp add: decodeDisclosure_def not_less not_le)
qed

section \<open>The codec is exact\<close>

lemma header_split:
  assumes "16 \<le> length bs"
  obtains c r1 iv r2 ix r3 where "u64Read (BinaryReader bs) = Inr (c, r1)" "u32Read r1 = Inr (iv, r2)"
    "u32Read r2 = Inr (ix, r3)" "bs = appendHeader c iv ix @ rest r3"
proof -
  have l: "8 \<le> length (rest (BinaryReader bs))" using assms by simp
  then obtain c r1 where c: "u64Read (BinaryReader bs) = Inr (c, r1)" using u64f.get_total by blast
  have bs1: "bs = appendUint64 [] c @ rest r1" using u64f.put_get [OF c] by simp
  have "length bs = 8 + length (rest r1)" by (subst bs1) simp
  then have "4 \<le> length (rest r1)" using assms by linarith
  then obtain iv r2 where iv: "u32Read r1 = Inr (iv, r2)" using u32f.get_total by blast
  have bs2: "rest r1 = appendUint32 [] iv @ rest r2" using u32f.put_get [OF iv] .
  have "length (rest r1) = 4 + length (rest r2)" by (subst bs2) simp
  then have "4 \<le> length (rest r2)" using assms \<open>length bs = 8 + length (rest r1)\<close> by linarith
  then obtain ix r3 where ix: "u32Read r2 = Inr (ix, r3)" using u32f.get_total by blast
  have "rest r2 = appendUint32 [] ix @ rest r3" using u32f.put_get [OF ix] .
  with bs1 bs2 have "bs = appendHeader c iv ix @ rest r3" unfolding appendHeader_eq by simp
  with c iv ix show thesis by (rule that)
qed

lemma decodePacket_read:
  assumes "u64Read r0 = Inr (c, r1)" "u32Read r1 = Inr (iv, r2)" "u32Read r2 = Inr (ix, r3)"
  shows "decodePacket ctx n r0 =
    (if c = 0 then Inr (errCreate InvalidAuthenticationContext
                  ''UDP authentication datagram contains a zero chain ID'')
     else if iv = 0 then Inr (errCreate InvalidIntervalIndex
                  ''UDP authentication datagram interval must start at one'')
     else if ix = 0 then decodeDisclosure ctx n c iv r3
     else decodeData ctx n c iv ix r3)"
  unfolding decodePacket_def assms andThen_simps prod.case ..

lemma header_prefix:
  "appendHeader c v i @ xs = appendHeader c' v' i' @ ys \<longleftrightarrow> c = c' \<and> v = v' \<and> i = i' \<and> xs = ys"
  unfolding appendHeader_eq by (auto simp: u32_prefix u64_prefix)

lemma length_appendHeader [simp]: "length (appendHeader c v i) = 16"
  unfolding appendHeader_eq by simp

lemma fixed_sizes: "FIXED_HEADER_SIZE = 16" "DATA_PREFIX_SIZE = 48" "DISCLOSURE_PACKET_SIZE = 48"
  by (simp_all add: FIXED_HEADER_SIZE_def DATA_PREFIX_SIZE_def DISCLOSURE_PACKET_SIZE_def)

lemma udp_resDecode_Inr:
  "udp_resDecode bs ctx = Inr (Inr p) \<longleftrightarrow>
     16 \<le> length bs \<and> decodePacket ctx (length bs) (BinaryReader bs) = Inr (Inr p)"
  unfolding udp_resDecode_def fixed_sizes
  by (auto simp: catchOutOfRange_decoded catchInvalidArgument_decoded)

lemma data_fits_index: "data_fits ctx d \<Longrightarrow> ud_u32PacketIndex d \<noteq> 0"
  by (auto simp: data_fits_def u32ExpectedInterval_def split: if_splits)

lemma udp_decode_sound:
  assumes "udp_resDecode bs ctx = Inr (Inr p)"
  shows "packet_ok p \<and> udp_vecEncode p ctx = Inr bs"
proof -
  from assms have len: "16 \<le> length bs" and dec: "decodePacket ctx (length bs) (BinaryReader bs) = Inr (Inr p)"
    by (simp_all add: udp_resDecode_Inr)
  from len obtain c r1 iv r2 ix r3 where rd: "u64Read (BinaryReader bs) = Inr (c, r1)"
    "u32Read r1 = Inr (iv, r2)" "u32Read r2 = Inr (ix, r3)" and bs: "bs = appendHeader c iv ix @ rest r3"
    by (rule header_split)
  have n: "length bs = 16 + length (rest r3)" by (subst bs) simp
  from dec [unfolded decodePacket_read [OF rd]] consider
    (dis) "ix = 0" "decodeDisclosure ctx (length bs) c iv r3 = Inr (Inr p)"
  | (data) "decodeData ctx (length bs) c iv ix r3 = Inr (Inr p)"
    by (auto split: if_splits)
  then show ?thesis
  proof cases
    case dis
    from decodeDisclosure_sound [OF n dis(2)] obtain d where d: "p = UdpDisclosure d" "packet_ok p"
      "disclosure_fits ctx d" "rest r3 = appendBlock [] (udis_arrDisclosedKey d)"
      "udis_u64ChainId d = c" "udis_u32IntervalIndex d = iv" by blast
    then have "encodeDisclosure d ctx = Inr bs" using bs dis(1) by (simp add: encodeDisclosure_Inr)
    with d show ?thesis by (simp add: udp_vecEncode_def)
  next
    case data
    from data [unfolded decodeData_Inr [OF n]] obtain d where d: "p = UdpData d" "packet_ok p"
      "data_fits ctx d" "rest r3 = data_body d" "ud_u64ChainId d = c" "ud_u32IntervalIndex d = iv"
      "ud_u32PacketIndex d = ix" by blast
    have ok: "packet_ok (UdpData d)" using d(1,2) by (simp only:)
    have "encodeData d ctx = Inr bs" unfolding encodeData_Inr [OF ok] using d bs by simp
    with d show ?thesis by (simp add: udp_vecEncode_def)
  qed
qed

lemma udp_decode_complete:
  assumes ok: "packet_ok p" and enc: "udp_vecEncode p ctx = Inr bs"
  shows "udp_resDecode bs ctx = Inr (Inr p)"
proof (cases p)
  case (UdpDisclosure d)
  with enc have f: "disclosure_fits ctx d"
    and bs: "bs = appendHeader (udis_u64ChainId d) (udis_u32IntervalIndex d) 0 @ appendBlock [] (udis_arrDisclosedKey d)"
    by (simp_all add: udp_vecEncode_def encodeDisclosure_Inr)
  have len: "16 \<le> length bs" unfolding bs by simp
  from len obtain c r1 iv r2 ix r3 where rd: "u64Read (BinaryReader bs) = Inr (c, r1)"
    "u32Read r1 = Inr (iv, r2)" "u32Read r2 = Inr (ix, r3)" and hd: "bs = appendHeader c iv ix @ rest r3"
    by (rule header_split)
  have n: "length bs = 16 + length (rest r3)" by (subst hd) simp
  from hd bs have h: "udis_u64ChainId d = c" "udis_u32IntervalIndex d = iv" "ix = 0"
    "rest r3 = appendBlock [] (udis_arrDisclosedKey d)" by (auto simp: header_prefix)
  have nz: "c \<noteq> 0" "iv \<noteq> 0" using ok UdpDisclosure h by auto
  from decodeDisclosure_complete [OF n UdpDisclosure ok f h(4,1,2)] nz h(3) len show ?thesis
    unfolding udp_resDecode_Inr decodePacket_read [OF rd] by simp
next
  case (UdpData d)
  have okd: "packet_ok (UdpData d)" using ok UdpData by (simp only:)
  from enc UdpData have f: "data_fits ctx d" and
    bs: "bs = appendHeader (ud_u64ChainId d) (ud_u32IntervalIndex d) (ud_u32PacketIndex d) @ data_body d"
    by (simp_all add: udp_vecEncode_def encodeData_Inr [OF okd])
  have len: "16 \<le> length bs" unfolding bs by simp
  from len obtain c r1 iv r2 ix r3 where rd: "u64Read (BinaryReader bs) = Inr (c, r1)"
    "u32Read r1 = Inr (iv, r2)" "u32Read r2 = Inr (ix, r3)" and hd: "bs = appendHeader c iv ix @ rest r3"
    by (rule header_split)
  have n: "length bs = 16 + length (rest r3)" by (subst hd) simp
  from hd bs have h: "ud_u64ChainId d = c" "ud_u32IntervalIndex d = iv" "ud_u32PacketIndex d = ix"
    "rest r3 = data_body d" by (auto simp: header_prefix)
  have nz: "c \<noteq> 0" "iv \<noteq> 0" "ix \<noteq> 0" using okd h by auto
  have "decodeData ctx (length bs) c iv ix r3 = Inr (Inr p)"
    unfolding decodeData_Inr [OF n] using UdpData ok f h by blast
  with nz len show ?thesis unfolding udp_resDecode_Inr decodePacket_read [OF rd] by simp
qed

text \<open>Whatever the datagram, the decoder returns: it throws only what its handlers catch.\<close>

definition caught :: "'a result \<Rightarrow> bool" where
  "caught m \<longleftrightarrow> (\<forall>e. m = Inl e \<longrightarrow> (\<exists>w. e = OutOfRange w \<or> e = InvalidArgument w))"

named_theorems caught_intros \<open>computations that throw only out_of_range or invalid_argument\<close>

lemma caught_basic [caught_intros]: "caught (Inr x)" "caught (Inl (OutOfRange w))" "caught (Inl (InvalidArgument w))"
  by (simp_all add: caught_def)

lemma caught_andThen [caught_intros]: "caught m \<Longrightarrow> (\<And>x. m = Inr x \<Longrightarrow> caught (f x)) \<Longrightarrow> caught (andThen m f)"
  by (cases m) (auto simp: caught_def)

lemma caught_if [caught_intros]: "caught a \<Longrightarrow> caught b \<Longrightarrow> caught (if P then a else b)"
  by simp

lemma caught_prod [caught_intros]: "(\<And>a b. caught (f a b)) \<Longrightarrow> caught (case x of (a, b) \<Rightarrow> f a b)"
  by (cases x) simp

lemma caught_readMany:
  assumes "\<And>r. caught (get r)"
  shows "caught (readMany get n r)"
proof (induction n arbitrary: r)
  case 0
  show ?case by (simp add: caught_basic)
next
  case (Suc n)
  show ?case
    unfolding readMany.simps by (intro caught_intros assms Suc)
qed

lemma caught_reads [caught_intros]:
  "caught (u64Read r)" "caught (u32Read r)" "caught (arrRead32 r)"
  "caught (readMany arrRead32 n r)" "caught (readKey b r)"
  "caught (u32ExpectedInterval ctx i)" "caught (mkImprovedUdpGroupDetails t g)"
  "caught (mkUdpDataPacket c v i m k d)" "caught (mkUdpDisclosurePacket c v kk)"
proof -
  show "caught (u64Read r)" "caught (u32Read r)" for r
    by (auto simp: u64Read_def u32Read_def ensureAvailable_eq caught_basic)
  show a: "caught (arrRead32 r)" for r by (auto simp: arrRead32_def ensureAvailable_eq caught_basic)
  show "caught (readMany arrRead32 n r)" by (rule caught_readMany [OF a])
  show "caught (readKey b r)" by (auto simp: readKey_def intro!: caught_andThen a caught_basic)
  show "caught (u32ExpectedInterval ctx i)" "caught (mkImprovedUdpGroupDetails t g)"
    "caught (mkUdpDataPacket c v i m k d)" "caught (mkUdpDisclosurePacket c v kk)"
    by (auto simp: u32ExpectedInterval_def mkImprovedUdpGroupDetails_def mkUdpDataPacket_def
      mkUdpDisclosurePacket_def caught_basic)
qed

lemma caught_decoders:
  "caught (readDetails ctx i r)" "caught (decodeDisclosure ctx n c v r)"
  "caught (decodeData ctx n c v i r)" "caught (decodePacket ctx n r)"
proof -
  show d: "caught (readDetails ctx i r)" for i r
    unfolding readDetails_def by (intro caught_intros)
  show dd: "caught (decodeDisclosure ctx n c v r)" for n c v r
    unfolding decodeDisclosure_def by (intro caught_intros)
  show da: "caught (decodeData ctx n c v i r)" for n c v i r
    unfolding decodeData_def by (intro caught_intros d)
  show "caught (decodePacket ctx n r)"
    unfolding decodePacket_def by (intro caught_intros dd da)
qed

lemma udp_resDecode_total: "\<exists>d. udp_resDecode bs ctx = Inr d"
proof -
  have "\<exists>d. catchInvalidArgument (catchOutOfRange m e) h = Inr d" if "caught m"
    for m :: "udp_packet decoded result" and e h
    using that by (cases m) (auto simp: caught_def catchOutOfRange_def catchInvalidArgument_def)
  from this [OF caught_decoders(4)] show ?thesis by (auto simp: udp_resDecode_def)
qed

interpretation udp: codec packet_ok "\<lambda>p. udp_vecEncode p ctx" "\<lambda>bs. udp_resDecode bs ctx" for ctx
proof (unfold_locales, goal_cases)
  case (1 p bs)
  then show ?case by (rule udp_decode_complete)
next
  case (2 bs p)
  then show ?case by (rule udp_decode_sound)
next
  case (3 bs)
  show ?case by (rule udp_resDecode_total)
qed

text \<open>Every encodable packet fits into one UDP datagram.\<close>

lemma udp_encode_size:
  assumes ctx: "context_ok ctx" and ok: "packet_ok p" and enc: "udp_vecEncode p ctx = Inr bs"
  shows "48 \<le> length bs" "length bs \<le> 65507"
proof -
  have "48 \<le> length bs \<and> length bs \<le> 65507"
  proof (cases p)
    case (UdpDisclosure d)
    with enc show ?thesis by (auto simp: udp_vecEncode_def encodeDisclosure_Inr)
  next
    case (UdpData d)
    have okd: "packet_ok (UdpData d)" using ok UdpData by (simp only:)
    from enc UdpData have f: "data_fits ctx d" and l: "length bs = 16 + length (data_body d)"
      by (simp_all add: udp_vecEncode_def encodeData_Inr [OF okd])
    have t: "ctx_nTauCount ctx \<le> 2043" if "ctx_mode ctx \<noteq> Native"
      using ctx that by (auto simp: context_ok_def MAX_SAFE_TAU_COUNT_def split: UdpAuthenticationMode.splits)
    show ?thesis unfolding l length_data_body [OF f] expectedLength_def Let_def fixed_sizes
      using t by auto
  qed
  then show "48 \<le> length bs" "length bs \<le> 65507" by simp_all
qed

end
