(* ===== verification/Contexts.thy ===== *)
theory Contexts
  imports Matrix Crypto Workload
begin

text \<open>
  A round's configuration and who holds it: \<open>AuthenticationRoundParameters.cpp\<close>,
  \<open>SenderAuthenticationContext.cpp\<close>, \<open>ReceiverAuthenticationContextStore.cpp\<close>,
  \<open>AuthenticationAuthority.cpp\<close> (issuing unique chains) and the value types of
  \<open>LocalSenderKeyChainObservation.cpp\<close>. The random source is a parameter with its state passed
  on. The lemmas: what the authority issues is unique and verifies at the sender; the
  receiver's store is replaced atomically and finds exactly the contexts it was given.
\<close>

section \<open>Round parameters\<close>

datatype TeslaAuthenticationMode = ModeNative | ModeImproved

datatype AuthenticationPayloadMode = PayloadText | PayloadFile

record improved_parameters =
  imp_u32GroupSize :: u32
  imp_u32DetectionThreshold :: u32
  imp_nTauCount :: nat

definition mkImprovedTeslaParameters :: "u32 \<Rightarrow> u32 \<Rightarrow> improved_parameters result" where
  "mkImprovedTeslaParameters u32GroupSize u32DetectionThreshold =
     andThen (mkKsRsMatrix (unat u32GroupSize) (unat u32DetectionThreshold)) (\<lambda>mat.
       Inr \<lparr>imp_u32GroupSize = u32GroupSize, imp_u32DetectionThreshold = u32DetectionThreshold,
            imp_nTauCount = nRowCount mat\<rparr>)"

record round_parameters =
  prm_algCryptoAlgorithm :: CryptoAlgorithm
  prm_modeAuthentication :: TeslaAuthenticationMode
  prm_u32TotalPacketCount :: u32
  prm_u32PacketsPerInterval :: u32
  prm_u32DisclosureDelay :: u32
  prm_u32IntervalMilliseconds :: u32
  prm_u64StartTimestampMilliseconds :: u64
  prm_nDataIntervalCount :: nat
  prm_optImprovedParameters :: "improved_parameters option"
  prm_modePayload :: AuthenticationPayloadMode

definition mkRoundParameters :: "CryptoAlgorithm \<Rightarrow> TeslaAuthenticationMode \<Rightarrow> u32 \<Rightarrow> u32 \<Rightarrow> u32 \<Rightarrow> u32
    \<Rightarrow> u64 \<Rightarrow> improved_parameters option \<Rightarrow> AuthenticationPayloadMode \<Rightarrow> round_parameters result" where
  "mkRoundParameters alg mode u32Total u32PerInterval u32Delay u32IntervalMs u64Start optImproved payload =
     (if u32Total = 0 \<or> u32PerInterval = 0
      then Inl (InvalidArgument ''Authentication packet counts must be positive'')
      else if u32Delay = 0 \<or> u32IntervalMs = 0
      then Inl (InvalidArgument ''Authentication timing parameters must be positive'')
      else
        (let nDataIntervalCount = (unat u32Total - 1) div unat u32PerInterval + 1;
             prm = \<lparr>prm_algCryptoAlgorithm = alg, prm_modeAuthentication = mode,
                    prm_u32TotalPacketCount = u32Total, prm_u32PacketsPerInterval = u32PerInterval,
                    prm_u32DisclosureDelay = u32Delay, prm_u32IntervalMilliseconds = u32IntervalMs,
                    prm_u64StartTimestampMilliseconds = u64Start,
                    prm_nDataIntervalCount = nDataIntervalCount,
                    prm_optImprovedParameters = optImproved, prm_modePayload = payload\<rparr>
         in if nDataIntervalCount \<ge> U32_MAX
            then Inl (InvalidArgument ''Authentication key-chain length exceeds uint32 range'')
            else case mode of
              ModeNative \<Rightarrow>
                if optImproved \<noteq> None
                then Inl (InvalidArgument ''Native TESLA must not contain improved parameters'')
                else Inr prm
            | ModeImproved \<Rightarrow>
                (case optImproved of
                   None \<Rightarrow> Inl (InvalidArgument ''Improved TESLA requires grouping parameters'')
                 | Some imp \<Rightarrow>
                     if u32PerInterval mod imp_u32GroupSize imp \<noteq> 0
                     then Inl (InvalidArgument
                       ''Packets per interval must be divisible by improved group size'')
                     else Inr prm)))"

definition u32ChainLength :: "round_parameters \<Rightarrow> u32" where
  "u32ChainLength prm = of_nat (prm_nDataIntervalCount prm + 1)"

section \<open>The sender's material and context\<close>

definition CHAIN_SEED_SIZE :: nat where "CHAIN_SEED_SIZE = 32"

record sender_material =
  mat_strSenderId :: string
  mat_u64ChainId :: u64
  mat_vecChainSeed :: "byte list"
  mat_digCommitmentKey :: block
  mat_prmRoundParameters :: round_parameters

definition mkSenderMaterial ::
  "string \<Rightarrow> u64 \<Rightarrow> byte list \<Rightarrow> block \<Rightarrow> round_parameters \<Rightarrow> sender_material result" where
  "mkSenderMaterial strSenderId u64ChainId vecChainSeed digCommitment prm =
     (if strSenderId = [] then Inl (InvalidArgument ''Sender ID must not be empty'')
      else if u64ChainId = 0 then Inl (InvalidArgument ''Chain ID must not be zero'')
      else if length vecChainSeed \<noteq> CHAIN_SEED_SIZE
      then Inl (InvalidArgument ''Sender key-chain seed must contain exactly 32 bytes'')
      else Inr \<lparr>mat_strSenderId = strSenderId, mat_u64ChainId = u64ChainId,
                mat_vecChainSeed = vecChainSeed, mat_digCommitmentKey = digCommitment,
                mat_prmRoundParameters = prm\<rparr>)"

record sender_context =
  snd_matMaterial :: sender_material
  snd_keyChain :: key_chain

definition ctxCreateVerified :: "sender_material \<Rightarrow> crypto_provider \<Rightarrow> sender_context result" where
  "ctxCreateVerified matMaterial crpProvider =
     (if algAlgorithm crpProvider \<noteq> prm_algCryptoAlgorithm (mat_prmRoundParameters matMaterial)
      then Inl (InvalidArgument
        ''Sender crypto provider does not match authentication configuration'')
      else andThen (keyCreate crpProvider (mat_vecChainSeed matMaterial)
             (prm_nDataIntervalCount (mat_prmRoundParameters matMaterial))) (\<lambda>kc.
        if \<not> bDigestEquals (digCommitmentKey kc) (mat_digCommitmentKey matMaterial)
        then Inl (InvalidArgument ''Sender key-chain commitment does not match supplied K0'')
        else Inr \<lparr>snd_matMaterial = matMaterial, snd_keyChain = kc\<rparr>))"

record local_key_chain_snapshot =
  lks_strSenderId :: string
  lks_u64ChainId :: u64
  lks_u32DisclosureDelay :: u32
  lks_vecKeys :: "block list"

definition mkLocalSenderKeyChainSnapshot ::
  "string \<Rightarrow> u64 \<Rightarrow> u32 \<Rightarrow> block list \<Rightarrow> local_key_chain_snapshot result" where
  "mkLocalSenderKeyChainSnapshot s c d ks =
     (if s = [] \<or> c = 0 \<or> d = 0 \<or> length ks < 2
      then Inl (InvalidArgument ''Local sender key-chain snapshot is invalid'')
      else Inr \<lparr>lks_strSenderId = s, lks_u64ChainId = c, lks_u32DisclosureDelay = d,
                lks_vecKeys = ks\<rparr>)"

record local_key_chain_progress =
  lkp_strRoundId :: string
  lkp_u64ChainId :: u64
  lkp_u32CurrentDataKeyIndex :: u32
  lkp_u32DisclosedThroughKeyIndex :: u32
  lkp_bCompleted :: bool

definition mkLocalSenderKeyChainProgress ::
  "string \<Rightarrow> u64 \<Rightarrow> u32 \<Rightarrow> u32 \<Rightarrow> bool \<Rightarrow> local_key_chain_progress result" where
  "mkLocalSenderKeyChainProgress r c cur dis done' =
     (if r = [] \<or> c = 0
      then Inl (InvalidArgument ''Local sender key-chain progress is invalid'')
      else Inr \<lparr>lkp_strRoundId = r, lkp_u64ChainId = c, lkp_u32CurrentDataKeyIndex = cur,
                lkp_u32DisclosedThroughKeyIndex = dis, lkp_bCompleted = done'\<rparr>)"

section \<open>The receiver's contexts\<close>

datatype receiver_payload =
    TextReceiverPayloadDetails u32
  | FileReceiverPayloadDetails u64

definition mkTextReceiverPayloadDetails :: "u32 \<Rightarrow> receiver_payload result" where
  "mkTextReceiverPayloadDetails u32RepeatCount =
     (if u32RepeatCount = 0
      then Inl (InvalidArgument ''Text Receiver repeat count must be positive'')
      else Inr (TextReceiverPayloadDetails u32RepeatCount))"

definition mkFileReceiverPayloadDetails :: "u64 \<Rightarrow> receiver_payload result" where
  "mkFileReceiverPayloadDetails u64OriginalByteCount =
     (if u64OriginalByteCount = 0 \<or> unat u64OriginalByteCount > MAXIMUM_FILE_SIZE
      then Inl (InvalidArgument ''File Receiver byte count is outside the bounded range'')
      else Inr (FileReceiverPayloadDetails u64OriginalByteCount))"

record receiver_context =
  rcv_strSenderId :: string
  rcv_strSenderIpAddress :: string
  rcv_u64ChainId :: u64
  rcv_digCommitmentKey :: block
  rcv_prmRoundParameters :: round_parameters
  rcv_varPayloadDetails :: receiver_payload

fun payloadMatches :: "receiver_payload \<Rightarrow> round_parameters \<Rightarrow> unit result" where
  "payloadMatches (TextReceiverPayloadDetails u32RepeatCount) prm =
     (if prm_modePayload prm \<noteq> PayloadText \<or> u32RepeatCount \<noteq> prm_u32TotalPacketCount prm
      then Inl (InvalidArgument ''Text Receiver payload does not match its round parameters'')
      else Inr ())"
| "payloadMatches (FileReceiverPayloadDetails u64OriginalByteCount) prm =
     (let u64PacketCount = (u64OriginalByteCount + 31) div 32 in
      if prm_modePayload prm \<noteq> PayloadFile \<or> u64PacketCount \<noteq> ucast (prm_u32TotalPacketCount prm)
      then Inl (InvalidArgument ''File Receiver payload does not match its round parameters'')
      else Inr ())"

definition mkReceiverContext :: "string \<Rightarrow> string \<Rightarrow> u64 \<Rightarrow> block \<Rightarrow> round_parameters \<Rightarrow> receiver_payload
    \<Rightarrow> receiver_context result" where
  "mkReceiverContext strSenderId strIp u64ChainId digCommitment prm payload =
     (if strSenderId = [] then Inl (InvalidArgument ''Receiver context sender ID must not be empty'')
      else if strIp = []
      then Inl (InvalidArgument ''Receiver context sender IP address must not be empty'')
      else if u64ChainId = 0
      then Inl (InvalidArgument ''Receiver context chain ID must not be zero'')
      else andThen (payloadMatches payload prm) (\<lambda>_.
        Inr \<lparr>rcv_strSenderId = strSenderId, rcv_strSenderIpAddress = strIp,
             rcv_u64ChainId = u64ChainId, rcv_digCommitmentKey = digCommitment,
             rcv_prmRoundParameters = prm, rcv_varPayloadDetails = payload\<rparr>))"

record context_store =
  m_mapSenderIdByIpAddress :: "string \<rightharpoonup> string"
  m_mapIpAddressBySenderId :: "string \<rightharpoonup> string"
  m_mapContextBySenderChain :: "string \<times> u64 \<rightharpoonup> receiver_context"

definition empty_store :: context_store where
  "empty_store = \<lparr>m_mapSenderIdByIpAddress = Map.empty, m_mapIpAddressBySenderId = Map.empty,
                  m_mapContextBySenderChain = Map.empty\<rparr>"

text \<open>\<open>std::map::emplace\<close>: keeps what is there; the flag says whether it inserted.\<close>

definition emplace :: "'k \<Rightarrow> 'v \<Rightarrow> ('k \<rightharpoonup> 'v) \<Rightarrow> ('k \<rightharpoonup> 'v) \<times> 'v \<times> bool" where
  "emplace k v m = (case m k of None \<Rightarrow> (m(k \<mapsto> v), v, True) | Some w \<Rightarrow> (m, w, False))"

definition addContext :: "receiver_context \<Rightarrow> context_store \<Rightarrow> context_store result" where
  "addContext ctx st =
     (let sid = rcv_strSenderId ctx; ip = rcv_strSenderIpAddress ctx in
      case emplace ip sid (m_mapSenderIdByIpAddress st) of (mapIp, sid', bIpInserted) \<Rightarrow>
        if \<not> bIpInserted \<and> sid' \<noteq> sid
        then Inl (InvalidArgument ''One source IP address cannot map to multiple sender IDs'')
        else case emplace sid ip (m_mapIpAddressBySenderId st) of (mapSender, ip', bSenderInserted) \<Rightarrow>
          if \<not> bSenderInserted \<and> ip' \<noteq> ip
          then Inl (InvalidArgument ''One sender ID cannot map to multiple source IP addresses'')
          else case emplace (sid, rcv_u64ChainId ctx) ctx (m_mapContextBySenderChain st) of
            (mapCtx, _, bContextInserted) \<Rightarrow>
              if \<not> bContextInserted
              then Inl (InvalidArgument
                ''Receiver authentication contexts contain a duplicate sender-chain pair'')
              else Inr \<lparr>m_mapSenderIdByIpAddress = mapIp, m_mapIpAddressBySenderId = mapSender,
                        m_mapContextBySenderChain = mapCtx\<rparr>)"

text \<open>The maps are built aside and swapped in at the end; a throw leaves the store as it was.\<close>

definition replaceAll :: "receiver_context list \<Rightarrow> context_store \<Rightarrow> unit result \<times> context_store" where
  "replaceAll vecContexts st =
     (case foldE addContext vecContexts empty_store of
        Inl e \<Rightarrow> (Inl e, st)
      | Inr st' \<Rightarrow> (Inr (), st'))"

datatype lookup_error = UnknownSourceIp | UnknownChainId

definition resFind :: "string \<Rightarrow> u64 \<Rightarrow> context_store \<Rightarrow> lookup_error + receiver_context" where
  "resFind strSourceIpAddress u64ChainId st =
     (case m_mapSenderIdByIpAddress st strSourceIpAddress of
        None \<Rightarrow> Inl UnknownSourceIp
      | Some sid \<Rightarrow> (case m_mapContextBySenderChain st (sid, u64ChainId) of
            None \<Rightarrow> Inl UnknownChainId
          | Some ctx \<Rightarrow> Inr ctx))"

section \<open>The authority\<close>

record authority =
  m_setIssuedChainIds :: "u64 set"
  m_setIssuedSeeds :: "byte list set"
  m_setIssuedCommitmentKeys :: "block set"

definition CHAIN_ID_BYTE_COUNT :: nat where "CHAIN_ID_BYTE_COUNT = 8"
definition MAX_RANDOM_ATTEMPTS :: nat where "MAX_RANDOM_ATTEMPTS = 128"

definition u64DecodeChainId :: "byte list \<Rightarrow> u64 result" where
  "u64DecodeChainId vecChainIdBytes =
     (if length vecChainIdBytes \<noteq> CHAIN_ID_BYTE_COUNT
      then Inl (RuntimeError ''Secure random provider returned an invalid chain ID byte count'')
      else Inr (foldl (\<lambda>v b. push_bit 8 v OR ucast b) 0 vecChainIdBytes))"

type_synonym 'g rng = "nat \<Rightarrow> 'g \<Rightarrow> byte list result \<times> 'g"

text \<open>The attempts that are left; each draws a chain id and, unless it is taken, a seed.\<close>

fun issueLoop :: "'g rng \<Rightarrow> crypto_provider \<Rightarrow> string \<Rightarrow> round_parameters \<Rightarrow> nat \<Rightarrow> authority \<Rightarrow> 'g
    \<Rightarrow> sender_material result \<times> authority \<times> 'g" where
  "issueLoop rng crp strSenderId prm 0 ca g =
     (Inl (RuntimeError ''Unable to issue unique authentication material from secure random source''),
      ca, g)"
| "issueLoop rng crp strSenderId prm (Suc n) ca g =
     (case rng CHAIN_ID_BYTE_COUNT g of
        (Inl e, g) \<Rightarrow> (Inl e, ca, g)
      | (Inr vecChainIdBytes, g) \<Rightarrow>
        (case u64DecodeChainId vecChainIdBytes of
           Inl e \<Rightarrow> (Inl e, ca, g)
         | Inr u64ChainId \<Rightarrow>
           if u64ChainId = 0 \<or> u64ChainId \<in> m_setIssuedChainIds ca
           then issueLoop rng crp strSenderId prm n ca g
           else case rng CHAIN_SEED_SIZE g of
             (Inl e, g) \<Rightarrow> (Inl e, ca, g)
           | (Inr vecSeed, g) \<Rightarrow>
             if length vecSeed \<noteq> CHAIN_SEED_SIZE
             then (Inl (RuntimeError
                     ''Secure random provider returned an invalid key-chain seed size''), ca, g)
             else if vecSeed \<in> m_setIssuedSeeds ca
             then issueLoop rng crp strSenderId prm n ca g
             else case keyCreate crp vecSeed (prm_nDataIntervalCount prm) of
               Inl e \<Rightarrow> (Inl e, ca, g)
             | Inr kc \<Rightarrow>
               if digCommitmentKey kc \<in> m_setIssuedCommitmentKeys ca
               then issueLoop rng crp strSenderId prm n ca g
               else (mkSenderMaterial strSenderId u64ChainId vecSeed (digCommitmentKey kc) prm,
                     ca\<lparr>m_setIssuedChainIds := insert u64ChainId (m_setIssuedChainIds ca),
                        m_setIssuedSeeds := insert vecSeed (m_setIssuedSeeds ca),
                        m_setIssuedCommitmentKeys :=
                          insert (digCommitmentKey kc) (m_setIssuedCommitmentKeys ca)\<rparr>, g)))"

definition matIssueSenderMaterial :: "'h openssl \<Rightarrow> 'g rng \<Rightarrow> string \<Rightarrow> round_parameters \<Rightarrow> authority \<Rightarrow> 'g
    \<Rightarrow> sender_material result \<times> authority \<times> 'g" where
  "matIssueSenderMaterial ssl rng strSenderId prm ca g =
     issueLoop rng (OpenSslCryptoProvider ssl (prm_algCryptoAlgorithm prm)) strSenderId prm
       MAX_RANDOM_ATTEMPTS ca g"

definition ctxCreateReceiverContext ::
  "sender_material \<Rightarrow> string \<Rightarrow> receiver_payload \<Rightarrow> receiver_context result" where
  "ctxCreateReceiverContext mat strIp payload =
     mkReceiverContext (mat_strSenderId mat) strIp (mat_u64ChainId mat) (mat_digCommitmentKey mat)
       (mat_prmRoundParameters mat) payload"

definition ctxCreateTextReceiverContext :: "sender_material \<Rightarrow> string \<Rightarrow> receiver_context result" where
  "ctxCreateTextReceiverContext mat strIp =
     (if prm_modePayload (mat_prmRoundParameters mat) \<noteq> PayloadText
      then Inl (InvalidArgument ''File Receiver context requires its original byte count'')
      else andThen (mkTextReceiverPayloadDetails (prm_u32TotalPacketCount (mat_prmRoundParameters mat)))
        (ctxCreateReceiverContext mat strIp))"

section \<open>Lemmas on the parameters\<close>

lemma mkRoundParameters_Inr:
  assumes "mkRoundParameters alg mode tot ppi delay ms start imp payload = Inr prm"
  shows "tot \<noteq> 0" "ppi \<noteq> 0" "delay \<noteq> 0" "ms \<noteq> 0"
    and "prm_nDataIntervalCount prm = (unat tot - 1) div unat ppi + 1" "prm_nDataIntervalCount prm < U32_MAX"
    and "prm_u32TotalPacketCount prm = tot" "prm_u32PacketsPerInterval prm = ppi"
    and "prm_algCryptoAlgorithm prm = alg"
    and "mode = ModeImproved \<longleftrightarrow> imp \<noteq> None"
  using assms
  by (auto simp: mkRoundParameters_def Let_def split: if_splits TeslaAuthenticationMode.splits option.splits)

text \<open>The chain length the control message carries does not wrap.\<close>

lemma chain_length_exact:
  "prm_nDataIntervalCount prm < U32_MAX \<Longrightarrow> unat (u32ChainLength prm) = prm_nDataIntervalCount prm + 1"
  by (simp add: u32ChainLength_def unat_of_nat U32_MAX_def del: of_nat_Suc of_nat_add)

section \<open>The store\<close>

definition contexts_consistent :: "receiver_context list \<Rightarrow> bool" where
  "contexts_consistent cs \<longleftrightarrow>
     (\<forall>x \<in> set cs. \<forall>y \<in> set cs.
        rcv_strSenderIpAddress x = rcv_strSenderIpAddress y \<longleftrightarrow> rcv_strSenderId x = rcv_strSenderId y)
     \<and> distinct (map (\<lambda>x. (rcv_strSenderId x, rcv_u64ChainId x)) cs)"

definition store_of :: "receiver_context list \<Rightarrow> context_store \<Rightarrow> bool" where
  "store_of cs st \<longleftrightarrow>
     (\<forall>ip s. m_mapSenderIdByIpAddress st ip = Some s \<longleftrightarrow>
        (\<exists>x \<in> set cs. rcv_strSenderIpAddress x = ip \<and> rcv_strSenderId x = s))
     \<and> (\<forall>s ip. m_mapIpAddressBySenderId st s = Some ip \<longleftrightarrow>
        (\<exists>x \<in> set cs. rcv_strSenderIpAddress x = ip \<and> rcv_strSenderId x = s))
     \<and> (\<forall>s c x. m_mapContextBySenderChain st (s, c) = Some x \<longleftrightarrow>
        x \<in> set cs \<and> rcv_strSenderId x = s \<and> rcv_u64ChainId x = c)"

lemma emplace_cases:
  "emplace k v m = (m', w, b) \<longleftrightarrow>
     (m k = None \<and> m' = m(k \<mapsto> v) \<and> w = v \<and> b) \<or> (m k = Some w \<and> m' = m \<and> \<not> b)"
  by (auto simp: emplace_def split: option.splits)

lemma addContext_Inr:
  "addContext x st = Inr st' \<longleftrightarrow>
     (\<forall>s. m_mapSenderIdByIpAddress st (rcv_strSenderIpAddress x) = Some s \<longrightarrow> s = rcv_strSenderId x)
     \<and> (\<forall>ip. m_mapIpAddressBySenderId st (rcv_strSenderId x) = Some ip \<longrightarrow> ip = rcv_strSenderIpAddress x)
     \<and> m_mapContextBySenderChain st (rcv_strSenderId x, rcv_u64ChainId x) = None
     \<and> st' = \<lparr>m_mapSenderIdByIpAddress =
                (m_mapSenderIdByIpAddress st)(rcv_strSenderIpAddress x \<mapsto> rcv_strSenderId x),
              m_mapIpAddressBySenderId =
                (m_mapIpAddressBySenderId st)(rcv_strSenderId x \<mapsto> rcv_strSenderIpAddress x),
              m_mapContextBySenderChain =
                (m_mapContextBySenderChain st)((rcv_strSenderId x, rcv_u64ChainId x) \<mapsto> x)\<rparr>"
  by (auto simp: addContext_def Let_def emplace_def fun_upd_idem split: option.splits)

lemma store_ofD:
  assumes "store_of cs st"
  shows "m_mapSenderIdByIpAddress st ip = Some s \<longleftrightarrow>
      (\<exists>x \<in> set cs. rcv_strSenderIpAddress x = ip \<and> rcv_strSenderId x = s)"
    and "m_mapIpAddressBySenderId st s = Some ip \<longleftrightarrow>
      (\<exists>x \<in> set cs. rcv_strSenderIpAddress x = ip \<and> rcv_strSenderId x = s)"
    and "m_mapContextBySenderChain st (s, c) = Some x \<longleftrightarrow>
      x \<in> set cs \<and> rcv_strSenderId x = s \<and> rcv_u64ChainId x = c"
  using assms unfolding store_of_def by blast+

lemma store_of_fresh:
  assumes "store_of cs st"
  shows "m_mapContextBySenderChain st (s, c) = None \<longleftrightarrow>
    (\<forall>y \<in> set cs. \<not> (rcv_strSenderId y = s \<and> rcv_u64ChainId y = c))"
proof -
  have "m_mapContextBySenderChain st (s, c) = None \<longleftrightarrow> (\<forall>y. m_mapContextBySenderChain st (s, c) \<noteq> Some y)"
    by (cases "m_mapContextBySenderChain st (s, c)") simp_all
  then show ?thesis unfolding store_ofD(3) [OF assms] by blast
qed

lemma contexts_consistent_snoc:
  assumes "contexts_consistent cs"
  shows "contexts_consistent (cs @ [x]) \<longleftrightarrow>
      (\<forall>y \<in> set cs. rcv_strSenderIpAddress y = rcv_strSenderIpAddress x \<longrightarrow> rcv_strSenderId y = rcv_strSenderId x)
      \<and> (\<forall>y \<in> set cs. rcv_strSenderId y = rcv_strSenderId x \<longrightarrow> rcv_strSenderIpAddress y = rcv_strSenderIpAddress x)
      \<and> (\<forall>y \<in> set cs. \<not> (rcv_strSenderId y = rcv_strSenderId x \<and> rcv_u64ChainId y = rcv_u64ChainId x))"
proof -
  have "(rcv_strSenderId x, rcv_u64ChainId x) \<notin> (\<lambda>x. (rcv_strSenderId x, rcv_u64ChainId x)) ` set cs \<longleftrightarrow>
    (\<forall>y \<in> set cs. \<not> (rcv_strSenderId y = rcv_strSenderId x \<and> rcv_u64ChainId y = rcv_u64ChainId x))"
    by (simp add: image_iff) metis
  moreover have "(\<forall>y \<in> insert x (set cs). \<forall>z \<in> insert x (set cs).
      (rcv_strSenderIpAddress y = rcv_strSenderIpAddress z \<longleftrightarrow> rcv_strSenderId y = rcv_strSenderId z))
    \<longleftrightarrow> (\<forall>y \<in> set cs. rcv_strSenderIpAddress y = rcv_strSenderIpAddress x \<longleftrightarrow> rcv_strSenderId y = rcv_strSenderId x)"
    using assms unfolding contexts_consistent_def by auto
  ultimately show ?thesis
    using assms unfolding contexts_consistent_def by simp blast
qed

text \<open>The three maps after the call, whenever it is accepted.\<close>

abbreviation (input) added :: "receiver_context \<Rightarrow> context_store \<Rightarrow> context_store" where
  "added x st \<equiv> \<lparr>m_mapSenderIdByIpAddress =
                (m_mapSenderIdByIpAddress st)(rcv_strSenderIpAddress x \<mapsto> rcv_strSenderId x),
              m_mapIpAddressBySenderId =
                (m_mapIpAddressBySenderId st)(rcv_strSenderId x \<mapsto> rcv_strSenderIpAddress x),
              m_mapContextBySenderChain =
                (m_mapContextBySenderChain st)((rcv_strSenderId x, rcv_u64ChainId x) \<mapsto> x)\<rparr>"

lemma addContext_iff:
  assumes "store_of cs st" "contexts_consistent cs"
  shows "addContext x st = Inr st' \<longleftrightarrow> contexts_consistent (cs @ [x]) \<and> st' = added x st"
  unfolding addContext_Inr contexts_consistent_snoc [OF assms(2)] store_of_fresh [OF assms(1)]
    store_ofD(1,2) [OF assms(1)]
  by blast

lemma store_of_added:
  assumes st: "store_of cs st" and c: "contexts_consistent cs" and c': "contexts_consistent (cs @ [x])"
  shows "store_of (cs @ [x]) (added x st)"
proof -
  note cc = c' [unfolded contexts_consistent_snoc [OF c]]
  have d: "set (cs @ [x]) = insert x (set cs)" by simp
  have 1: "((m_mapSenderIdByIpAddress st)(rcv_strSenderIpAddress x \<mapsto> rcv_strSenderId x)) i = Some s
    \<longleftrightarrow> (\<exists>y \<in> insert x (set cs). rcv_strSenderIpAddress y = i \<and> rcv_strSenderId y = s)" for i s
    using conjunct1 [OF cc] store_ofD(1) [OF st, of i s] by (cases "i = rcv_strSenderIpAddress x") auto
  have 2: "((m_mapIpAddressBySenderId st)(rcv_strSenderId x \<mapsto> rcv_strSenderIpAddress x)) s = Some i
    \<longleftrightarrow> (\<exists>y \<in> insert x (set cs). rcv_strSenderIpAddress y = i \<and> rcv_strSenderId y = s)" for i s
    using conjunct1 [OF conjunct2 [OF cc]] store_ofD(2) [OF st, of s i]
    by (cases "s = rcv_strSenderId x") auto
  have 3: "((m_mapContextBySenderChain st)((rcv_strSenderId x, rcv_u64ChainId x) \<mapsto> x)) (s, k) = Some y
    \<longleftrightarrow> y \<in> insert x (set cs) \<and> rcv_strSenderId y = s \<and> rcv_u64ChainId y = k" for s k y
    using conjunct2 [OF conjunct2 [OF cc]] store_ofD(3) [OF st, of s k y]
    by (cases "s = rcv_strSenderId x \<and> k = rcv_u64ChainId x") auto
  show ?thesis
    unfolding store_of_def d by (simp only: context_store.simps 1 2 3) simp
qed

lemma addContext_store_of:
  assumes "store_of cs st" "contexts_consistent cs"
  shows "(\<exists>st'. addContext x st = Inr st') \<longleftrightarrow> contexts_consistent (cs @ [x])"
    and "addContext x st = Inr st' \<Longrightarrow> store_of (cs @ [x]) st'"
  unfolding addContext_iff [OF assms] using store_of_added [OF assms] by blast+

lemma foldE_addContext:
  "store_of cs st \<Longrightarrow> contexts_consistent cs \<Longrightarrow>
   ((\<exists>st'. foldE addContext ys st = Inr st') \<longleftrightarrow> contexts_consistent (cs @ ys))
   \<and> (\<forall>st'. foldE addContext ys st = Inr st' \<longrightarrow> store_of (cs @ ys) st')"
proof (induction ys arbitrary: cs st)
  case Nil
  then show ?case by simp
next
  case (Cons y ys)
  note add = addContext_store_of [OF Cons.prems, of y]
  show ?case
  proof (cases "addContext y st")
    case (Inl e)
    with add(1) have "\<not> contexts_consistent (cs @ [y])" by auto
    then have "\<not> contexts_consistent (cs @ y # ys)" by (auto simp: contexts_consistent_def)
    with Inl show ?thesis by simp
  next
    case (Inr st1)
    with add have "store_of (cs @ [y]) st1" "contexts_consistent (cs @ [y])" by blast+
    from Cons.IH [OF this] Inr show ?thesis by simp
  qed
qed

lemma replaceAll_spec:
  shows "fst (replaceAll cs st) = Inr () \<longleftrightarrow> contexts_consistent cs"
    and "fst (replaceAll cs st) = Inr () \<Longrightarrow> store_of cs (snd (replaceAll cs st))"
    and "fst (replaceAll cs st) \<noteq> Inr () \<Longrightarrow> snd (replaceAll cs st) = st"
proof -
  have "store_of [] empty_store" "contexts_consistent []"
    by (simp_all add: store_of_def empty_store_def contexts_consistent_def)
  from foldE_addContext [OF this, of cs]
  have f: "(\<exists>st'. foldE addContext cs empty_store = Inr st') \<longleftrightarrow> contexts_consistent cs"
    "\<forall>st'. foldE addContext cs empty_store = Inr st' \<longrightarrow> store_of cs st'" by simp_all
  show "fst (replaceAll cs st) = Inr () \<longleftrightarrow> contexts_consistent cs"
    "fst (replaceAll cs st) = Inr () \<Longrightarrow> store_of cs (snd (replaceAll cs st))"
    "fst (replaceAll cs st) \<noteq> Inr () \<Longrightarrow> snd (replaceAll cs st) = st"
    using f by (auto simp: replaceAll_def split: sum.splits)
qed

lemma resFind_store_of:
  assumes "store_of cs st" "contexts_consistent cs"
  shows "resFind ip chain st = Inr x \<longleftrightarrow>
    x \<in> set cs \<and> rcv_strSenderIpAddress x = ip \<and> rcv_u64ChainId x = chain"
proof -
  have ip: "m_mapSenderIdByIpAddress st ip = Some s \<longleftrightarrow>
      (\<exists>x \<in> set cs. rcv_strSenderIpAddress x = ip \<and> rcv_strSenderId x = s)" for s
    using assms(1) by (auto simp: store_of_def)
  have cx: "m_mapContextBySenderChain st (s, c) = Some x \<longleftrightarrow>
        x \<in> set cs \<and> rcv_strSenderId x = s \<and> rcv_u64ChainId x = c" for s c
    using assms(1) by (auto simp: store_of_def)
  have same: "y \<in> set cs \<Longrightarrow> z \<in> set cs \<Longrightarrow>
      rcv_strSenderIpAddress y = rcv_strSenderIpAddress z \<longleftrightarrow> rcv_strSenderId y = rcv_strSenderId z" for y z
    using assms(2) by (simp add: contexts_consistent_def)
  have "resFind ip chain st = Inr x \<longleftrightarrow>
      (\<exists>s. m_mapSenderIdByIpAddress st ip = Some s \<and> m_mapContextBySenderChain st (s, chain) = Some x)"
    by (auto simp: resFind_def split: option.splits)
  also have "\<dots> \<longleftrightarrow> x \<in> set cs \<and> rcv_strSenderIpAddress x = ip \<and> rcv_u64ChainId x = chain"
    unfolding ip cx using same by blast
  finally show ?thesis .
qed

section \<open>What the authority issues\<close>

definition authority_extends :: "authority \<Rightarrow> authority \<Rightarrow> bool" where
  "authority_extends ca ca' \<longleftrightarrow> m_setIssuedChainIds ca \<subseteq> m_setIssuedChainIds ca'
     \<and> m_setIssuedSeeds ca \<subseteq> m_setIssuedSeeds ca'
     \<and> m_setIssuedCommitmentKeys ca \<subseteq> m_setIssuedCommitmentKeys ca'"

lemma issueLoop_ok:
  assumes "issueLoop rng crp sid prm n ca g = (Inr mat, ca', g')"
  shows "mat_u64ChainId mat \<notin> m_setIssuedChainIds ca \<and> mat_vecChainSeed mat \<notin> m_setIssuedSeeds ca
    \<and> mat_digCommitmentKey mat \<notin> m_setIssuedCommitmentKeys ca
    \<and> ca' = ca\<lparr>m_setIssuedChainIds := insert (mat_u64ChainId mat) (m_setIssuedChainIds ca),
               m_setIssuedSeeds := insert (mat_vecChainSeed mat) (m_setIssuedSeeds ca),
               m_setIssuedCommitmentKeys :=
                 insert (mat_digCommitmentKey mat) (m_setIssuedCommitmentKeys ca)\<rparr>
    \<and> mat_strSenderId mat = sid \<and> mat_prmRoundParameters mat = prm
    \<and> mat_u64ChainId mat \<noteq> 0 \<and> length (mat_vecChainSeed mat) = 32
    \<and> (\<exists>kc. keyCreate crp (mat_vecChainSeed mat) (prm_nDataIntervalCount prm) = Inr kc
         \<and> digCommitmentKey kc = mat_digCommitmentKey mat)"
  using assms
proof (induction n arbitrary: g)
  case 0
  then show ?case by simp
next
  case (Suc n)
  from Suc.prems show ?case
    by (auto simp: mkSenderMaterial_def CHAIN_SEED_SIZE_def split: sum.splits prod.splits if_splits
      dest: Suc.IH)
qed

lemma issueLoop_extends: "issueLoop rng crp sid prm n ca g = (r, ca', g') \<Longrightarrow> authority_extends ca ca'"
proof (induction n arbitrary: g)
  case 0
  then show ?case by (simp add: authority_extends_def)
next
  case (Suc n)
  from Suc.prems show ?case
    by (auto simp: authority_extends_def split: sum.splits prod.splits if_splits
      dest!: Suc.IH [unfolded authority_extends_def])
qed

text \<open>The commitment the authority publishes is the one the sender recomputes.\<close>

lemma issued_material_verifies:
  assumes "matIssueSenderMaterial ssl rng sid prm ca g = (Inr mat, ca', g')"
  shows "\<exists>ctx. ctxCreateVerified mat (OpenSslCryptoProvider ssl (prm_algCryptoAlgorithm prm)) = Inr ctx
    \<and> snd_matMaterial ctx = mat \<and> length (m_vecKeys (snd_keyChain ctx)) = prm_nDataIntervalCount prm + 1"
proof -
  let ?crp = "OpenSslCryptoProvider ssl (prm_algCryptoAlgorithm prm)"
  from issueLoop_ok [OF assms [unfolded matIssueSenderMaterial_def]] obtain kc where
    kc: "keyCreate ?crp (mat_vecChainSeed mat) (prm_nDataIntervalCount prm) = Inr kc"
      "digCommitmentKey kc = mat_digCommitmentKey mat" and p: "mat_prmRoundParameters mat = prm"
    by blast
  have "algAlgorithm ?crp = prm_algCryptoAlgorithm prm" by (simp add: OpenSslCryptoProvider_def)
  with kc p keyCreate_ok(1) [OF kc(1)] show ?thesis by (simp add: ctxCreateVerified_def)
qed

text \<open>A run of the authority over a list of requests, failures included.\<close>

fun issueAll :: "'h openssl \<Rightarrow> 'g rng \<Rightarrow> (string \<times> round_parameters) list \<Rightarrow> authority \<Rightarrow> 'g
    \<Rightarrow> sender_material list \<times> authority \<times> 'g" where
  "issueAll ssl rng [] ca g = ([], ca, g)"
| "issueAll ssl rng ((sid, prm) # reqs) ca g =
     (case matIssueSenderMaterial ssl rng sid prm ca g of (r, ca, g) \<Rightarrow>
        case issueAll ssl rng reqs ca g of (mats, ca, g) \<Rightarrow>
          (case r of Inl _ \<Rightarrow> mats | Inr mat \<Rightarrow> mat # mats, ca, g))"

lemma issueAll_unique:
  assumes "issueAll ssl rng reqs ca g = (mats, ca', g')"
  shows "distinct (map mat_u64ChainId mats) \<and> distinct (map mat_vecChainSeed mats)
    \<and> distinct (map mat_digCommitmentKey mats)
    \<and> set (map mat_u64ChainId mats) \<inter> m_setIssuedChainIds ca = {}
    \<and> set (map mat_vecChainSeed mats) \<inter> m_setIssuedSeeds ca = {}
    \<and> set (map mat_digCommitmentKey mats) \<inter> m_setIssuedCommitmentKeys ca = {}"
  using assms
proof (induction reqs arbitrary: ca g mats ca' g')
  case Nil
  then show ?case by simp
next
  case (Cons req reqs)
  obtain sid prm where req: "req = (sid, prm)" by (cases req)
  obtain r ca1 g1 where r: "matIssueSenderMaterial ssl rng sid prm ca g = (r, ca1, g1)"
    by (cases "matIssueSenderMaterial ssl rng sid prm ca g") auto
  obtain ms ca2 g2 where ms: "issueAll ssl rng reqs ca1 g1 = (ms, ca2, g2)"
    by (cases "issueAll ssl rng reqs ca1 g1") auto
  have IH: "distinct (map mat_u64ChainId ms)" "distinct (map mat_vecChainSeed ms)"
    "distinct (map mat_digCommitmentKey ms)"
    "set (map mat_u64ChainId ms) \<inter> m_setIssuedChainIds ca1 = {}"
    "set (map mat_vecChainSeed ms) \<inter> m_setIssuedSeeds ca1 = {}"
    "set (map mat_digCommitmentKey ms) \<inter> m_setIssuedCommitmentKeys ca1 = {}"
    using Cons.IH [OF ms] by blast+
  note ext = issueLoop_extends [OF r [unfolded matIssueSenderMaterial_def], unfolded authority_extends_def]
  show ?case
  proof (cases r)
    case (Inl e)
    then have "mats = ms" using Cons.prems req r ms by simp
    with IH ext show ?thesis by blast
  next
    case (Inr mat)
    then have mats: "mats = mat # ms" using Cons.prems req r ms by simp
    note ok = issueLoop_ok [OF r [unfolded matIssueSenderMaterial_def Inr]]
    have "m_setIssuedChainIds ca1 = insert (mat_u64ChainId mat) (m_setIssuedChainIds ca)"
      "m_setIssuedSeeds ca1 = insert (mat_vecChainSeed mat) (m_setIssuedSeeds ca)"
      "m_setIssuedCommitmentKeys ca1 = insert (mat_digCommitmentKey mat) (m_setIssuedCommitmentKeys ca)"
      using ok by simp_all
    with IH ok show ?thesis unfolding mats by auto
  qed
qed

end
