(* ===== verification/Samples.thy ===== *)
theory Samples
  imports Locate Strategies Workload TcpFraming UdpCodec Contexts "HOL-Library.Code_Target_Nat"
begin

text \<open>
  Concrete inputs: two crypto providers, a group of packets, matrices, contexts and round
  parameters on which the properties of the root theory are evaluated.
\<close>

section \<open>Providers\<close>

text \<open>One hash that keeps the first 32 bytes with a byte sum as its code, one that forgets everything.\<close>

definition prefix_provider :: crypto_provider where
  "prefix_provider = \<lparr>algAlgorithm = Sha256, digHash = \<lambda>xs. Inr (block_of xs),
     digHmac = \<lambda>k xs. Inr (block_of [foldl (+) 0 xs])\<rparr>"

definition flat_provider :: crypto_provider where
  "flat_provider = \<lparr>algAlgorithm = Sha256, digHash = \<lambda>xs. Inr (block_of []),
     digHmac = \<lambda>k xs. Inr (block_of [])\<rparr>"

lemma prefix_total: "\<exists>d. digHash prefix_provider xs = Inr d"
  by (simp add: prefix_provider_def)

section \<open>A group\<close>

definition sample_packet :: "u32 \<Rightarrow> byte \<Rightarrow> pkt_input" where
  "sample_packet i b = \<lparr>pkt_strSenderId = ''S'', pkt_u64ChainId = 7, pkt_u32IntervalIndex = 1,
     pkt_u32PacketIndex = i, pkt_arrMessage = block_of [b]\<rparr>"

definition sample_group :: "byte \<Rightarrow> byte \<Rightarrow> grp_input" where
  "sample_group a b = \<lparr>grp_strSenderId = ''S'', grp_u64ChainId = 7, grp_u32IntervalIndex = 1,
     grp_u32GroupIndex = 1, grp_u32FirstPacketIndex = 1,
     grp_vecPacketSlots = [Some (sample_packet 1 a), Some (sample_packet 2 b)]\<rparr>"

lemma sample_group_slots [simp]: "length (grp_vecPacketSlots (sample_group a b)) = 2"
  by (simp add: sample_group_def)

lemma sample_group_ok: "grp_ok (sample_group a b)"
proof -
  have "slot_ok (sample_group a b) 0 (sample_packet 1 a)" "slot_ok (sample_group a b) 1 (sample_packet 2 b)"
    by (simp_all add: slot_ok_def sample_group_def sample_packet_def)
  then have "\<forall>i p. i < 2 \<and> grp_vecPacketSlots (sample_group a b) ! i = Some p \<longrightarrow> slot_ok (sample_group a b) i p"
    by (auto simp: sample_group_def less_2_cases_iff)
  then show ?thesis
    unfolding grp_ok_def sample_group_slots by (simp add: sample_group_def U16_MAX_def U32_MAX_def)
qed

definition diagonal_matrix :: ksrs_matrix where
  "diagonal_matrix = \<lparr>m_nGroupSize = 2, m_nDetectionThreshold = 1,
     m_vecRows = [[True, False], [False, True]]\<rparr>"

definition sample_key :: block where
  "sample_key = block_of [1, 2, 3]"

definition sample_improved :: auth_details where
  "sample_improved = projr (improved_create prefix_provider diagonal_matrix (sample_group 5 6) sample_key)"

definition sample_native :: auth_details where
  "sample_native = projr (native_create prefix_provider (sample_group 5 6) sample_key)"

lemma sample_improved_create:
  "improved_create prefix_provider diagonal_matrix (sample_group 5 6) sample_key = Inr sample_improved"
  by code_simp

lemma sample_native_create:
  "native_create prefix_provider (sample_group 5 6) sample_key = Inr sample_native"
  by code_simp

text \<open>The receiver's copy of the group, with its second packet replaced.\<close>

lemma sample_improved_verify:
  "improved_verify prefix_provider diagonal_matrix (sample_group 5 9) sample_improved sample_key False
     = Inr (\<lparr>m_bPassed = False, m_varDetails = ImprovedVerificationDetails
         \<lparr>m_pathVerification = KsRsFallback, m_bFastGroupTagMatched = False,
          m_vecAuthenticatedPositions = [0], m_vecRejectedPositions = [1],
          m_bDetectionThresholdExceeded = False,
          m_vecLocationSteps = [\<lparr>nScanStep = 1, vecNewGoodPositions = [0],
            vecRemainingCandidatePositions = [1]\<rparr>]\<rparr>\<rparr>, [])"
  by code_simp

lemma sample_native_verify:
  "native_verify prefix_provider (sample_group 5 9) sample_native sample_key False
     = Inr (\<lparr>m_bPassed = False, m_varDetails = NativeVerificationDetails [Passed, MacFailed]\<rparr>, [])"
  by code_simp

lemma sample_lost_code:
  "native_verify flat_provider (sample_group 1 2) (NativeAuthenticationDetails [None, Some (block_of [])])
       sample_key False
     = Inr (\<lparr>m_bPassed = False, m_varDetails = NativeVerificationDetails [MissingMac, Passed]\<rparr>, [])"
  by code_simp

section \<open>Matrices\<close>

definition prm_4_1 :: ks_params where
  "prm_4_1 = \<lparr>nFieldSize = 5, nCodeLength = 3, nMessageLength = 1, nParamRowCount = 15\<rparr>"

lemma small_next_primes: "nNextPrime 3 = 3" "nNextPrime 4 = 5" "nNextPrime 6 = 7"
proof -
  have p: "is_prime 3" "is_prime 5" "is_prime 7" "\<not> is_prime 4" "\<not> is_prime 6"
    by (simp_all add: bIsPrime_iff [symmetric] bIsPrime_def bIsPrime_loop.simps)
  have c: "4 \<le> i \<Longrightarrow> i < 5 \<Longrightarrow> i = 4" "6 \<le> i \<Longrightarrow> i < 7 \<Longrightarrow> i = 6" for i :: nat
    by linarith+
  show "nNextPrime 3 = 3" by (rule nNextPrime_eqI) (use p in auto)
  show "nNextPrime 4 = 5" by (rule nNextPrime_eqI) (use p c(1) in blast, simp, use p c(1) in blast)
  show "nNextPrime 6 = 7" by (rule nNextPrime_eqI) (use p c(2) in blast, simp, use p c(2) in blast)
qed

lemma parameters_4_1: "findBestParameters 4 1 = Inr prm_4_1"
proof -
  let ?z = "\<lparr>nFieldSize = 0, nCodeLength = 0, nMessageLength = 0, nParamRowCount = 0\<rparr>"
  have e: "nMinExponent 4 3 = 2" "nMinExponent 4 5 = 1"
    by (simp_all add: nMinExponent_def nMinExponent_loop.simps MAX_MESSAGE_LENGTH_def SIZE_MAX_def)
  have "findBest_loop 4 1 3 ?z SIZE_MAX = findBest_loop 4 1 5 ?z SIZE_MAX"
    by (simp add: findBest_loop.simps [of 4 1 3] MAX_FIELD_SIZE_def e small_next_primes del: One_nat_def)
  also have "\<dots> = findBest_loop 4 1 7 prm_4_1 15"
    by (simp add: findBest_loop.simps [of 4 1 5] MAX_FIELD_SIZE_def e small_next_primes
      SIZE_MAX_def prm_4_1_def del: One_nat_def)
  also have "\<dots> = (prm_4_1, 15)" by (rule findBest_loop_done) simp
  finally show ?thesis
    by (simp add: findBestParameters_def small_next_primes SIZE_MAX_def del: One_nat_def)
qed

lemma matrix_4_1:
  obtains mat where "mkKsRsMatrix 4 1 = Inr mat" "m_nGroupSize mat = 4"
  by (simp add: mkKsRsMatrix_def parameters_4_1 del: One_nat_def)

lemma matrix_3000_4_size:
  obtains mat where "mkKsRsMatrix 3000 4 = Inr mat" "m_nGroupSize mat = 3000"
  by (simp add: mkKsRsMatrix_def parameters_3000_4)

text \<open>With a hash that never fails, the sender's tags exist and the scan returns.\<close>

lemma prefix_scan:
  assumes "macs \<noteq> []" "length macs \<le> m_nGroupSize mat" "length slots = length macs"
  obtains taus res where "vecAggregate prefix_provider mat macs = Inr taus"
    "resVerify prefix_provider mat slots taus = Inr res"
proof -
  obtain taus where taus: "vecAggregate prefix_provider mat macs = Inr taus"
    using vecAggregate_total [OF prefix_total assms(1,2)] by blast
  have "slots \<noteq> []" "length slots \<le> m_nGroupSize mat" using assms by auto
  from resVerify_total [OF prefix_total this vecAggregate_ok(3) [OF taus]] obtain res where
    "resVerify prefix_provider mat slots taus = Inr res" by blast
  with taus show ?thesis by (rule that)
qed

section \<open>Frames, datagrams and contexts\<close>

definition sample_frame :: tcp_frame where
  "sample_frame = FileChunkFrame \<lparr>m_u64ChainId = 7, m_u32ChunkIndex = 1, m_vecData = [9]\<rparr>"

definition sample_stream :: tcp_stream where
  "sample_stream = \<lparr>m_nMaximumFrameLength = 64, m_vecPendingBytes = []\<rparr>"

definition sample_frame_bytes :: "byte list" where
  "sample_frame_bytes = projr (tcp_vecEncode sample_frame)"

lemma sample_frame_encoded:
  "frame_ok jsn sample_frame" "tcp_vecEncode sample_frame = Inr sample_frame_bytes"
  "length sample_frame_bytes = 22"
proof -
  show "frame_ok jsn sample_frame" by (simp add: sample_frame_def chunk_ok_def U32_MAX_def)
  show "tcp_vecEncode sample_frame = Inr sample_frame_bytes" "length sample_frame_bytes = 22"
    by code_simp+
qed

lemma sample_stream_total: "\<exists>bat dec'. batConsume jsn bs dec = Inr (bat, dec')"
  using consumeLoop_total [of jsn "m_nMaximumFrameLength dec" "m_vecPendingBytes dec @ bs" "[]"]
  by (auto simp: batConsume_def)

definition sample_context :: udp_context where
  "sample_context = \<lparr>ctx_mode = Native, ctx_u32PacketsPerInterval = 2, ctx_u32DisclosureDelay = 1,
     ctx_u32TotalPacketCount = 5, ctx_u32GroupSize = 0, ctx_nTauCount = 0\<rparr>"

lemma sample_context_made: "mkUdpContext Native 2 1 5 0 0 = Inr sample_context"
  by code_simp

lemma sample_context_ok: "context_ok sample_context"
  using sample_context_made by (simp add: mkUdpContext_Inr)

definition sample_datagram :: udp_packet where
  "sample_datagram = UdpData \<lparr>ud_u64ChainId = 7, ud_u32IntervalIndex = 2, ud_u32PacketIndex = 3,
     ud_arrMessage = block_of [5], ud_optDisclosedKey = Some (block_of [6]),
     ud_varAuthenticationDetails = NativeUdpDetails (block_of [8])\<rparr>"

lemma sample_datagram_encoded:
  "packet_ok sample_datagram" "\<exists>bs. udp_vecEncode sample_datagram sample_context = Inr bs"
proof -
  show "packet_ok sample_datagram" by (simp add: sample_datagram_def)
  have "isl (udp_vecEncode sample_datagram sample_context) = False" by code_simp
  then show "\<exists>bs. udp_vecEncode sample_datagram sample_context = Inr bs"
    by (cases "udp_vecEncode sample_datagram sample_context") simp_all
qed

definition sample_round :: round_parameters where
  "sample_round = \<lparr>prm_algCryptoAlgorithm = Sha256, prm_modeAuthentication = ModeNative,
     prm_u32TotalPacketCount = 5, prm_u32PacketsPerInterval = 2, prm_u32DisclosureDelay = 1,
     prm_u32IntervalMilliseconds = 100, prm_u64StartTimestampMilliseconds = 1000,
     prm_nDataIntervalCount = 3, prm_optImprovedParameters = None, prm_modePayload = PayloadText\<rparr>"

lemma sample_round_made:
  "mkRoundParameters Sha256 ModeNative 5 2 1 100 1000 None PayloadText = Inr sample_round"
  by code_simp

text \<open>OpenSSL answering every request, and a random source that counts up.\<close>

definition sample_ssl :: "nat openssl" where
  "sample_ssl = \<lparr>EVP_Digest = \<lambda>alg xs. (1, 32, take 32 (xs @ replicate 32 0)),
     HMAC = \<lambda>alg k xs. (True, 32, take 32 (xs @ replicate 32 0)),
     RAND_bytes = \<lambda>g n. ((1, replicate (n - 1) 0 @ [of_nat g]), Suc g)\<rparr>"

definition no_authority :: authority where
  "no_authority = \<lparr>m_setIssuedChainIds = {}, m_setIssuedSeeds = {}, m_setIssuedCommitmentKeys = {}\<rparr>"

definition sample_context_of :: "string \<Rightarrow> string \<Rightarrow> u64 \<Rightarrow> receiver_context" where
  "sample_context_of sid ip c = \<lparr>rcv_strSenderId = sid, rcv_strSenderIpAddress = ip, rcv_u64ChainId = c,
     rcv_digCommitmentKey = sample_key, rcv_prmRoundParameters = sample_round,
     rcv_varPayloadDetails = TextReceiverPayloadDetails 5\<rparr>"

definition sample_random :: "nat rng" where
  "sample_random = OpenSsl_vecGenerateBytes sample_ssl"

lemma sample_issue:
  "\<exists>mat ca g. matIssueSenderMaterial sample_ssl sample_random ''S'' sample_round no_authority 1 = (Inr mat, ca, g)"
proof -
  have "isl (fst (matIssueSenderMaterial sample_ssl sample_random ''S'' sample_round no_authority 1)) = False"
    by code_simp
  then show ?thesis
    by (cases "matIssueSenderMaterial sample_ssl sample_random ''S'' sample_round no_authority 1";
        cases "fst (matIssueSenderMaterial sample_ssl sample_random ''S'' sample_round no_authority 1)") auto
qed

lemma sample_issue_two:
  "length (fst (issueAll sample_ssl sample_random [(''S'', sample_round), (''T'', sample_round)] no_authority 1)) = 2"
  by code_simp

end
