(* ===== verification/Actions.thy ===== *)
theory Actions
  imports Prelude
begin

text \<open>
  Methods of an object that change its members and may throw: what was changed before the throw
  stays changed. An \<open>act\<close> takes the members to the returned value or the exception, and the
  members after it. The locale \<open>members_relation\<close> proves, for any reflexive and transitive
  relation of the members before and after, that it holds across a composite when it holds across
  the parts; the runtimes interpret it on the relations their safety rests on.
\<close>

type_synonym ('s, 'a) act = "'s \<Rightarrow> 'a result \<times> 's"

definition retA :: "'a \<Rightarrow> ('s, 'a) act" where "retA x s = (Inr x, s)"

definition throwA :: "exn \<Rightarrow> ('s, 'a) act" where "throwA e s = (Inl e, s)"

text \<open>A computation that may throw and touches no member.\<close>

definition liftA :: "'a result \<Rightarrow> ('s, 'a) act" where "liftA r s = (r, s)"

definition getA :: "('s \<Rightarrow> 'a) \<Rightarrow> ('s, 'a) act" where "getA f s = (Inr (f s), s)"

definition modifyA :: "('s \<Rightarrow> 's) \<Rightarrow> ('s, unit) act" where "modifyA f s = (Inr (), f s)"

definition bindA :: "('s, 'a) act \<Rightarrow> ('a \<Rightarrow> ('s, 'b) act) \<Rightarrow> ('s, 'b) act" where
  "bindA m f s = (case m s of (Inl e, s') \<Rightarrow> (Inl e, s') | (Inr x, s') \<Rightarrow> f x s')"

definition thenA :: "('s, 'a) act \<Rightarrow> ('s, 'b) act \<Rightarrow> ('s, 'b) act" where
  "thenA m n = bindA m (\<lambda>_. n)"

definition whenA :: "bool \<Rightarrow> ('s, unit) act \<Rightarrow> ('s, unit) act" where
  "whenA b m = (if b then m else retA ())"

text \<open>\<open>try { m } catch (...) { h }\<close>: the members keep what \<open>m\<close> did before it threw.\<close>

definition catchA :: "('s, 'a) act \<Rightarrow> ('s, 'a) act \<Rightarrow> ('s, 'a) act" where
  "catchA m h s = (case m s of (Inl _, s') \<Rightarrow> h s' | (Inr x, s') \<Rightarrow> (Inr x, s'))"

text \<open>A \<open>for\<close> loop over a sequence that is fixed before the loop.\<close>

fun forA :: "('a \<Rightarrow> ('s, unit) act) \<Rightarrow> 'a list \<Rightarrow> ('s, unit) act" where
  "forA f [] = retA ()"
| "forA f (x # xs) = thenA (f x) (forA f xs)"

text \<open>An action on one part of the members.\<close>

definition zoomA :: "('s \<Rightarrow> 't) \<Rightarrow> ('t \<Rightarrow> 's \<Rightarrow> 's) \<Rightarrow> ('t, 'a) act \<Rightarrow> ('s, 'a) act" where
  "zoomA get put m s = (case m (get s) of (r, t) \<Rightarrow> (r, put t s))"

named_theorems act_simps \<open>equations that run an action\<close>

lemma act_run [act_simps]:
  "retA x s = (Inr x, s)"
  "throwA e s = (Inl e, s)"
  "liftA r s = (r, s)"
  "getA f s = (Inr (f s), s)"
  "modifyA g s = (Inr (), g s)"
  by (simp_all add: retA_def throwA_def liftA_def getA_def modifyA_def)

lemma bindA_cases:
  "bindA m f s = (case fst (m s) of Inl e \<Rightarrow> (Inl e, snd (m s)) | Inr x \<Rightarrow> f x (snd (m s)))"
  by (simp add: bindA_def split: prod.splits sum.splits)

lemma bindA_run [act_simps]:
  "bindA (retA x) f s = f x s"
  "bindA (throwA e) f s = (Inl e, s)"
  "bindA (liftA (Inl e)) f s = (Inl e, s)"
  "bindA (liftA (Inr x)) f s = f x s"
  "bindA (getA g) f s = f (g s) s"
  by (simp_all add: bindA_def act_run)

lemma bindA_lift: "bindA (liftA (Inl e)) f = throwA e" "bindA (liftA (Inr x)) f = f x"
  by (rule ext, simp add: bindA_run act_run)+

lemma bindA_modify [act_simps]: "bindA (modifyA h) f s = f () (h s)"
  by (simp add: bindA_def act_run)

lemma thenA_run [act_simps]:
  "thenA (retA x) n s = n s"
  "thenA (throwA e) n s = (Inl e, s)"
  by (simp_all add: thenA_def bindA_run)

lemma thenA_modify [act_simps]: "thenA (modifyA h) n s = n (h s)"
  by (simp add: thenA_def bindA_modify)

lemma whenA_run [act_simps]: "whenA True m = m" "whenA False m = retA ()"
  by (simp_all add: whenA_def)

lemma bindA_assoc: "bindA (bindA m f) g = bindA m (\<lambda>x. bindA (f x) g)"
  by (rule ext) (simp add: bindA_def split: prod.splits sum.splits)

lemma thenA_assoc: "thenA (thenA m n) p = thenA m (thenA n p)"
  by (simp add: thenA_def bindA_assoc)

text \<open>What follows from the parts of a composite that returned.\<close>

lemma bindA_Inr:
  "bindA m f s = (Inr y, s') \<longleftrightarrow> (\<exists>x s1. m s = (Inr x, s1) \<and> f x s1 = (Inr y, s'))"
  by (auto simp: bindA_def split: prod.splits sum.splits)

locale members_relation =
  fixes rel :: "'s \<Rightarrow> 's \<Rightarrow> bool"
  assumes rel_refl: "rel s s"
    and rel_trans: "rel s t \<Longrightarrow> rel t u \<Longrightarrow> rel s u"
begin

lemma ret: "rel s (snd (retA x s))" and throw: "rel s (snd (throwA e s))"
  and lift: "rel s (snd (liftA r s))" and get: "rel s (snd (getA f s))"
  by (simp_all add: act_run rel_refl)

lemma modify: "rel s (f s) \<Longrightarrow> rel s (snd (modifyA f s))"
  by (simp add: act_run)

lemma bind:
  assumes "rel s (snd (m s))" "\<And>x t. m s = (Inr x, t) \<Longrightarrow> rel t (snd (f x t))"
  shows "rel s (snd (bindA m f s))"
proof (cases "m s")
  case (Pair r t)
  with assms show ?thesis by (cases r) (auto simp: bindA_def intro: rel_trans)
qed

lemma seq:
  assumes "rel s (snd (m s))" "\<And>x t. m s = (Inr x, t) \<Longrightarrow> rel t (snd (n t))"
  shows "rel s (snd (thenA m n s))"
  unfolding thenA_def using assms by (rule bind)

lemma cond: "(b \<Longrightarrow> rel s (snd (m s))) \<Longrightarrow> rel s (snd (whenA b m s))"
  by (simp add: whenA_def ret)

lemma catch:
  assumes "rel s (snd (m s))" "\<And>e t. m s = (Inl e, t) \<Longrightarrow> rel t (snd (h t))"
  shows "rel s (snd (catchA m h s))"
proof (cases "m s")
  case (Pair r t)
  with assms show ?thesis by (cases r) (auto simp: catchA_def intro: rel_trans)
qed

lemma for_loop:
  assumes "\<And>x t. x \<in> set xs \<Longrightarrow> rel t (snd (f x t))"
  shows "rel s (snd (forA f xs s))"
  using assms
proof (induction xs arbitrary: s)
  case Nil
  then show ?case by (simp add: act_run rel_refl)
next
  case (Cons x xs)
  have "rel s (snd (thenA (f x) (forA f xs) s))"
    using Cons.prems by (intro seq) (auto intro: Cons.IH)
  then show ?case by simp
qed

end

text \<open>Two relations every runtime uses: an invariant is kept, a part is left alone.\<close>

interpretation keeps: members_relation "\<lambda>s t. P s \<longrightarrow> P t" for P :: "'s \<Rightarrow> bool"
  by unfold_locales auto

interpretation frame: members_relation "\<lambda>s t. f s = f t" for f :: "'s \<Rightarrow> 't"
  by unfold_locales auto

text \<open>What holds after an action that starts with \<open>P\<close>, as a rule for one action after another.\<close>

lemma bindA_keeps:
  assumes "P s" "\<And>r t. m s = (r, t) \<Longrightarrow> P t" "\<And>x t. m s = (Inr x, t) \<Longrightarrow> P t \<Longrightarrow> P (snd (f x t))"
  shows "P (snd (bindA m f s))"
  using keeps.bind [of P s m f] assms by (cases "m s") auto

end
