(* ===== verification/Monitor.thy ===== *)
theory Monitor
  imports UdpPacket Crypto Contexts
begin

text \<open>
  What a runtime reports to its node: the observation values of \<open>MonitorControl.cpp\<close>, the
  mapping of \<open>AuthenticationObservationFactory.cpp\<close> and the results of
  \<open>AuthenticationRuntimeTypes.cpp\<close>. Each constructor initialises its members and then checks
  them; the model's constructor takes the initialised members and returns them or the exception.
\<close>

section \<open>Observation values\<close>

datatype PacketObservationDirection = Tx | Rx

datatype PacketSourceType = NormalSender | AttackInjection | UnknownSource

datatype PacketAuthenticationStatus = AuthGenerated | AuthPending | AuthPassed | AuthFailed

datatype AuthenticationFailureType =
    FailMacFailed | FailTamperedVariant | FailFastGroupFailed | FailGroupTauFailed
  | FailDetectionThresholdExceeded | FailReplayDuplicate | FailReplayLate | FailReplayExpiredChain
  | FailMissingPacket | FailIncompleteGroupTags | FailUnverifiableMissingBaseline
  | FailUnknownContext | FailProtocolError | FailInvalidSchedulingOverrun
  | FailAbnormalRecordLimitReached

datatype ObservationSeverity = SevInformation | SevWarning | SevError

datatype GroupVerificationPath = PathFastGroupPass | PathKsRsFallback | PathIncompleteGroupTags

datatype AuthenticationCryptoAlgorithm = AlgSha256 | AlgSm3 | AlgSha3_256

definition validateText :: "string \<Rightarrow> string \<Rightarrow> bool \<Rightarrow> unit result" where
  "validateText strValue strName bAllowEmpty =
     (if (\<not> bAllowEmpty \<and> strValue = []) \<or> length strValue > 2048
      then Inl (InvalidArgument (strName @ '' has an invalid length''))
      else Inr ())"

datatype mode_observation =
    NativePacketObservationDetails block
  | ImprovedPacketObservationDetails "block list" "block option"

definition mkImprovedPacketObservationDetails :: "block list \<Rightarrow> block option \<Rightarrow> mode_observation result" where
  "mkImprovedPacketObservationDetails vecTau optTag =
     (if (vecTau = []) \<noteq> (optTag = None)
      then Inl (InvalidArgument ''Improved packet observation must contain both group fields or neither'')
      else Inr (ImprovedPacketObservationDetails vecTau optTag))"

datatype payload_observation =
    DataPacketObservationDetails block "block option" mode_observation
  | DisclosurePacketObservationDetails block

fun isDataObservation :: "payload_observation \<Rightarrow> bool" where
  "isDataObservation (DataPacketObservationDetails _ _ _) = True"
| "isDataObservation (DisclosurePacketObservationDetails _) = False"

record packet_observation =
  po_u64EventId :: u64
  po_u64TimestampMilliseconds :: u64
  po_strRoundId :: string
  po_strSenderId :: string
  po_strSenderIp :: string
  po_strActualSourceIp :: string
  po_strPeer :: string
  po_dirDirection :: PacketObservationDirection
  po_typeSource :: PacketSourceType
  po_u64ChainId :: u64
  po_u32IntervalIndex :: u32
  po_u32PacketIndex :: u32
  po_u32PacketsPerInterval :: u32
  po_u32DisclosureDelay :: u32
  po_algCryptoAlgorithm :: AuthenticationCryptoAlgorithm
  po_modeAuthentication :: UdpAuthenticationMode
  po_statusAuthentication :: PacketAuthenticationStatus
  po_strCandidateHash :: string
  po_u32DuplicateCount :: u32
  po_strReason :: string
  po_varPayloadDetails :: payload_observation
  po_vecRawDatagram :: "byte list"

definition mkPacketObservation :: "packet_observation \<Rightarrow> packet_observation result" where
  "mkPacketObservation po =
     andThen (validateText (po_strRoundId po) ''Observation round ID'' False) (\<lambda>_.
     andThen (validateText (po_strSenderId po) ''Observation sender ID'' False) (\<lambda>_.
     andThen (validateText (po_strSenderIp po) ''Observation sender IP'' True) (\<lambda>_.
     andThen (validateText (po_strActualSourceIp po) ''Observation actual source IP'' True) (\<lambda>_.
     andThen (validateText (po_strPeer po) ''Observation peer'' False) (\<lambda>_.
     andThen (validateText (po_strCandidateHash po) ''Observation candidate hash'' False) (\<lambda>_.
     andThen (validateText (po_strReason po) ''Observation reason'' True) (\<lambda>_.
       if po_u64EventId po = 0 \<or> po_u64TimestampMilliseconds po = 0 \<or> po_u64ChainId po = 0
          \<or> po_u32IntervalIndex po = 0 \<or> po_u32PacketsPerInterval po = 0
          \<or> po_u32DisclosureDelay po = 0 \<or> po_u32DuplicateCount po = 0 \<or> po_vecRawDatagram po = []
       then Inl (InvalidArgument ''Packet observation contains an invalid value'')
       else if isDataObservation (po_varPayloadDetails po) \<noteq> (po_u32PacketIndex po \<noteq> 0)
       then Inl (InvalidArgument ''Packet observation index does not match DATA/DISCLOSE details'')
       else Inr po)))))))"

record packet_failure =
  pf_u64EventId :: u64
  pf_u64PacketEventId :: u64
  pf_u64TimestampMilliseconds :: u64
  pf_sevSeverity :: ObservationSeverity
  pf_typeFailure :: AuthenticationFailureType
  pf_strRoundId :: string
  pf_strSenderId :: string
  pf_strSenderIp :: string
  pf_strActualSourceIp :: string
  pf_u64ChainId :: u64
  pf_u32IntervalIndex :: u32
  pf_u32PacketIndex :: u32
  pf_optGroupIndex :: "u32 option"
  pf_strCandidateHash :: string
  pf_strReason :: string
  pf_strReceivedTagDigest :: string
  pf_strCalculatedTagDigest :: string
  pf_vecLocatedPacketIndexes :: "u32 list"
  pf_u32DuplicateCount :: u32

definition mkPacketFailure :: "packet_failure \<Rightarrow> packet_failure result" where
  "mkPacketFailure pf =
     andThen (validateText (pf_strRoundId pf) ''Failure round ID'' True) (\<lambda>_.
     andThen (validateText (pf_strSenderId pf) ''Failure sender ID'' True) (\<lambda>_.
     andThen (validateText (pf_strSenderIp pf) ''Failure sender IP'' True) (\<lambda>_.
     andThen (validateText (pf_strActualSourceIp pf) ''Failure source IP'' True) (\<lambda>_.
     andThen (validateText (pf_strCandidateHash pf) ''Failure candidate hash'' True) (\<lambda>_.
     andThen (validateText (pf_strReason pf) ''Failure reason'' False) (\<lambda>_.
     andThen (validateText (pf_strReceivedTagDigest pf) ''Received tag digest'' True) (\<lambda>_.
     andThen (validateText (pf_strCalculatedTagDigest pf) ''Calculated tag digest'' True) (\<lambda>_.
       if pf_u64EventId pf = 0 \<or> pf_u64TimestampMilliseconds pf = 0 \<or> pf_u32DuplicateCount pf = 0
       then Inl (InvalidArgument ''Failure event contains an invalid value'')
       else Inr pf))))))))"

record matrix_step =
  ms_u32StepIndex :: u32
  ms_strOperation :: string
  ms_vecNewGoodPacketIndexes :: "u32 list"
  ms_vecRemainingCandidateIndexes :: "u32 list"

definition mkMatrixLocationStep :: "u32 \<Rightarrow> string \<Rightarrow> u32 list \<Rightarrow> u32 list \<Rightarrow> matrix_step result" where
  "mkMatrixLocationStep u32StepIndex strOperation vecNewGood vecRemaining =
     andThen (validateText strOperation ''Matrix location operation'' False) (\<lambda>_.
       Inr \<lparr>ms_u32StepIndex = u32StepIndex, ms_strOperation = strOperation,
            ms_vecNewGoodPacketIndexes = vecNewGood, ms_vecRemainingCandidateIndexes = vecRemaining\<rparr>)"

record group_observation =
  go_u64EventId :: u64
  go_u64TimestampMilliseconds :: u64
  go_strRoundId :: string
  go_strSenderId :: string
  go_u64ChainId :: u64
  go_u32GroupIndex :: u32
  go_u32FirstPacketIndex :: u32
  go_u32LastPacketIndex :: u32
  go_u32DetectionThreshold :: u32
  go_pathVerification :: GroupVerificationPath
  go_bFastGroupTagMatched :: bool
  go_bDetectionThresholdExceeded :: bool
  go_vecLocatedPacketIndexes :: "u32 list"
  go_vecLocationSteps :: "matrix_step list"

definition mkGroupObservation :: "group_observation \<Rightarrow> group_observation result" where
  "mkGroupObservation go =
     andThen (validateText (go_strRoundId go) ''Group observation round ID'' False) (\<lambda>_.
     andThen (validateText (go_strSenderId go) ''Group observation sender ID'' False) (\<lambda>_.
       if go_u64EventId go = 0 \<or> go_u64TimestampMilliseconds go = 0 \<or> go_u64ChainId go = 0
          \<or> go_u32GroupIndex go = 0 \<or> go_u32FirstPacketIndex go = 0
          \<or> go_u32LastPacketIndex go < go_u32FirstPacketIndex go \<or> go_u32DetectionThreshold go = 0
       then Inl (InvalidArgument ''Group observation contains an invalid value'')
       else if go_pathVerification go = PathFastGroupPass
            \<and> (go_vecLocatedPacketIndexes go \<noteq> [] \<or> go_vecLocationSteps go \<noteq> [])
       then Inl (InvalidArgument ''Fast group pass must not contain matrix location details'')
       else Inr go))"

record dos_summary =
  ds_u64TimestampMilliseconds :: u64
  ds_u32WindowMilliseconds :: u32
  ds_u64InvalidPacketCount :: u64
  ds_u64RateLimitedDropCount :: u64
  ds_u64LegitimatePacketCount :: u64
  ds_u64ReceiveQueueOverflowCount :: u64

definition mkDosSummary :: "dos_summary \<Rightarrow> dos_summary result" where
  "mkDosSummary ds =
     (if ds_u64TimestampMilliseconds ds = 0 \<or> ds_u32WindowMilliseconds ds = 0
      then Inl (InvalidArgument ''DoS summary window is invalid'')
      else Inr ds)"

record abnormal_snapshot =
  as_strRequestId :: string
  as_u32Sequence :: u32
  as_bFinalBatch :: bool
  as_vecPacketEvents :: "packet_observation list"
  as_vecFailureEvents :: "packet_failure list"

definition mkAbnormalEventSnapshot :: "abnormal_snapshot \<Rightarrow> abnormal_snapshot result" where
  "mkAbnormalEventSnapshot as =
     andThen (validateText (as_strRequestId as) ''Abnormal snapshot request ID'' False) (\<lambda>_.
       if as_u32Sequence as = 0 \<or> length (as_vecPacketEvents as) > 64
          \<or> length (as_vecFailureEvents as) > 64
       then Inl (InvalidArgument ''Abnormal snapshot batch is invalid'')
       else Inr as)"

datatype observation =
    ObsPacket packet_observation
  | ObsFailure packet_failure
  | ObsGroup group_observation
  | ObsDosSummary dos_summary

section \<open>Mapping packets to observations\<close>

definition HEX_DIGITS :: string where "HEX_DIGITS = ''0123456789abcdef''"

definition strHex :: "byte list \<Rightarrow> string" where
  "strHex vecBytes = concat (map (\<lambda>b. [HEX_DIGITS ! unat (drop_bit 4 b AND 0x0F),
      HEX_DIGITS ! unat (b AND 0x0F)]) vecBytes)"

definition strCandidateHash :: "'g openssl \<Rightarrow> byte list \<Rightarrow> string result" where
  "strCandidateHash ssl vecRawDatagram =
     andThen (OpenSsl_digHash ssl Sha256 vecRawDatagram) (\<lambda>dig. Inr (strHex (block_bytes dig)))"

fun varModeDetails :: "udp_auth \<Rightarrow> mode_observation result" where
  "varModeDetails (NativeUdpDetails arrPacketMac) = Inr (NativePacketObservationDetails arrPacketMac)"
| "varModeDetails (ImprovedUdpDetails None) = mkImprovedPacketObservationDetails [] None"
| "varModeDetails (ImprovedUdpDetails (Some det)) =
     mkImprovedPacketObservationDetails (ugd_vecSamdTau det) (Some (ugd_arrFastGroupTag det))"

fun varPayloadDetails :: "udp_packet \<Rightarrow> payload_observation result" where
  "varPayloadDetails (UdpDisclosure d) =
     Inr (DisclosurePacketObservationDetails (udis_arrDisclosedKey d))"
| "varPayloadDetails (UdpData d) =
     andThen (varModeDetails (ud_varAuthenticationDetails d)) (\<lambda>mode.
       Inr (DataPacketObservationDetails (ud_arrMessage d) (ud_optDisclosedKey d) mode))"

fun algMap :: "CryptoAlgorithm \<Rightarrow> AuthenticationCryptoAlgorithm" where
  "algMap Sha256 = AlgSha256"
| "algMap Sm3 = AlgSm3"
| "algMap Sha3_256 = AlgSha3_256"

definition modeMap :: "TeslaAuthenticationMode \<Rightarrow> UdpAuthenticationMode" where
  "modeMap mode = (if mode = ModeNative then Native else Improved)"

section \<open>Results\<close>

record time_synchronization =
  m_bSynchronized :: bool
  m_u32ToleranceMilliseconds :: u32
  m_strSynchronizationMessage :: string

definition mkTimeSynchronizationStatus :: "bool \<Rightarrow> u32 \<Rightarrow> string \<Rightarrow> time_synchronization result" where
  "mkTimeSynchronizationStatus bSynchronized u32Tolerance strMessage =
     (if strMessage = []
      then Inl (InvalidArgument ''Time synchronization status requires a message'')
      else if bSynchronized \<and> u32Tolerance = 0
      then Inl (InvalidArgument ''Synchronized clock status requires a positive safety tolerance'')
      else Inr \<lparr>m_bSynchronized = bSynchronized, m_u32ToleranceMilliseconds = u32Tolerance,
                m_strSynchronizationMessage = strMessage\<rparr>)"

datatype AuthenticationRuntimeResultStatus =
    Completed | AuthenticationFailed | VerificationTimeout | InvalidSchedulingOverrun | Stopped
  | ProtocolIncomplete | TimeUnsynchronized

datatype result_details =
    TextResultDetails string
  | FileSenderResultDetails u64
  | FileReceiverResultDetails u64 "byte list" "block option"

definition mkFileSenderResultDetails :: "u64 \<Rightarrow> result_details result" where
  "mkFileSenderResultDetails u64OriginalByteCount =
     (if u64OriginalByteCount = 0
      then Inl (InvalidArgument ''File Sender result size must be positive'')
      else Inr (FileSenderResultDetails u64OriginalByteCount))"

definition mkFileReceiverResultDetails :: "u64 \<Rightarrow> byte list \<Rightarrow> block option \<Rightarrow> result_details result" where
  "mkFileReceiverResultDetails u64OriginalByteCount vecRecovered optSha256 =
     (if u64OriginalByteCount = 0
         \<or> (vecRecovered = [] \<and> optSha256 \<noteq> None)
         \<or> (vecRecovered \<noteq> [] \<and> optSha256 = None)
         \<or> (vecRecovered \<noteq> [] \<and> length vecRecovered \<noteq> unat u64OriginalByteCount)
      then Inl (InvalidArgument ''File Receiver result details are inconsistent'')
      else Inr (FileReceiverResultDetails u64OriginalByteCount vecRecovered optSha256))"

record runtime_result =
  res_strRoundId :: string
  res_strSenderId :: string
  res_u64ChainId :: u64
  res_statusResult :: AuthenticationRuntimeResultStatus
  res_u32ExpectedPacketCount :: u32
  res_u32ReceivedPacketCount :: u32
  res_u32AuthenticatedPacketCount :: u32
  res_u32FailedPacketCount :: u32
  res_u32MissingPacketCount :: u32
  res_varResultDetails :: result_details
  res_strMessage :: string

definition mkAuthenticationRuntimeResult :: "runtime_result \<Rightarrow> runtime_result result" where
  "mkAuthenticationRuntimeResult r =
     (if res_strRoundId r = [] \<or> res_strSenderId r = [] \<or> res_u64ChainId r = 0
      then Inl (InvalidArgument ''Authentication runtime result identity is invalid'')
      else if res_u32ExpectedPacketCount r = 0
         \<or> res_u32ReceivedPacketCount r > res_u32ExpectedPacketCount r
         \<or> res_u32AuthenticatedPacketCount r > res_u32ReceivedPacketCount r
         \<or> res_u32FailedPacketCount r > res_u32ReceivedPacketCount r
         \<or> res_u32MissingPacketCount r > res_u32ExpectedPacketCount r
      then Inl (InvalidArgument ''Authentication runtime result counts are invalid'')
      else if res_strMessage r = []
      then Inl (InvalidArgument ''Authentication runtime result requires a message'')
      else Inr r)"

end
