(* ===== verification/Receiver.thy ===== *)
theory Receiver
  imports Actions Monitor UdpCodec Strategies
begin

text \<open>
  The receiver runtime, first part: the state of \<open>AuthenticationReceiverRuntime::Impl\<close>, its
  timeline, the queueing of observations, and the verification of one interval in either mode.

  The runtime is modelled without a metric handler (the constructor's third argument, empty by
  default), so the branches on \<open>optMetricCollector\<close> are those of an empty one and the members
  only they use are left out. An operation reads the system clock once; \<open>env_u64Now\<close> is what it
  reads. The members an operation on one receiver works on are a \<open>focus\<close>: that receiver's state
  and the queue of observations with its next event id.
\<close>

section \<open>State\<close>

type_synonym ctx_key = "string \<times> u64"

definition MAX_QUEUED_DATAGRAMS :: nat where "MAX_QUEUED_DATAGRAMS = 8192"
definition MAX_CANDIDATE_VERSIONS_PER_PACKET :: nat where "MAX_CANDIDATE_VERSIONS_PER_PACKET = 4"
definition MAX_AUTHENTICATION_PACKET_COUNT :: u32 where "MAX_AUTHENTICATION_PACKET_COUNT = 200000"

datatype PacketStatus = StatusEmpty | StatusPending | StatusPassed | StatusFailed

record packet_record =
  rec_optPacket :: "udp_data option"
  rec_statusPacket :: PacketStatus
  rec_vecRawDatagram :: "byte list"
  rec_u64ReceiveTimestampMilliseconds :: u64
  rec_u64ObservationEventId :: u64
  rec_strCandidateHash :: string
  rec_u32DuplicateCount :: u32
  rec_strActualSourceIp :: string
  rec_typeSource :: PacketSourceType

definition empty_record :: packet_record where
  "empty_record = \<lparr>rec_optPacket = None, rec_statusPacket = StatusEmpty, rec_vecRawDatagram = [],
     rec_u64ReceiveTimestampMilliseconds = 0, rec_u64ObservationEventId = 0,
     rec_strCandidateHash = [], rec_u32DuplicateCount = 0, rec_strActualSourceIp = [],
     rec_typeSource = NormalSender\<rparr>"

record candidate_record =
  cand_udpPacket :: udp_data
  cand_vecRawDatagram :: "byte list"
  cand_u64ReceiveTimestampMilliseconds :: u64
  cand_u64ObservationEventId :: u64
  cand_strCandidateHash :: string
  cand_u32DuplicateCount :: u32
  cand_statusPacket :: PacketStatus
  cand_strActualSourceIp :: string
  cand_typeSource :: PacketSourceType

record timeline_segment =
  seg_u32FirstLogicalInterval :: u32
  seg_u64StartTimestampMilliseconds :: u64

record receiver_state =
  rs_ctxContext :: receiver_context
  rs_strRoundId :: string
  rs_vecPacketRecords :: "packet_record list"
  rs_mapAdditionalCandidates :: "u32 \<rightharpoonup> candidate_record list"
  rs_mapDisclosedKeys :: "u32 \<rightharpoonup> block"
  rs_setVerifiedIntervals :: "u32 set"
  rs_vecTimeline :: "timeline_segment list"
  rs_optPauseAfterInterval :: "u32 option"
  rs_u64PauseTimestampMilliseconds :: u64
  rs_u32ClockToleranceMilliseconds :: u32
  rs_u32ReceivedPacketCount :: u32
  rs_bActive :: bool
  rs_bPaused :: bool
  rs_bProtocolIncomplete :: bool
  rs_bResultReported :: bool

abbreviation rs_prm :: "receiver_state \<Rightarrow> round_parameters" where
  "rs_prm rs \<equiv> rcv_prmRoundParameters (rs_ctxContext rs)"

definition mkReceiverState :: "receiver_context \<Rightarrow> receiver_state" where
  "mkReceiverState ctx =
     \<lparr>rs_ctxContext = ctx, rs_strRoundId = [], rs_vecPacketRecords = [],
      rs_mapAdditionalCandidates = Map.empty, rs_mapDisclosedKeys = Map.empty,
      rs_setVerifiedIntervals = {}, rs_vecTimeline = [], rs_optPauseAfterInterval = None,
      rs_u64PauseTimestampMilliseconds = 0, rs_u32ClockToleranceMilliseconds = 0,
      rs_u32ReceivedPacketCount = 0, rs_bActive = False, rs_bPaused = False,
      rs_bProtocolIncomplete = False, rs_bResultReported = False\<rparr>"

record queued_datagram =
  que_keyContext :: ctx_key
  que_vecDatagram :: "byte list"
  que_u64ReceiveTimestampMilliseconds :: u64
  que_strActualSourceIp :: string
  que_typeSource :: PacketSourceType

record monitor =
  mon_vecPendingObservations :: "observation list"
  mon_u64NextObservationEventId :: u64

text \<open>What an operation is given besides the members: OpenSSL, whether there is an observation
  handler, and the clock.\<close>

record 'g runtime_env =
  env_ssl :: "'g openssl"
  env_bObserve :: bool
  env_u64Now :: u64

type_synonym focus = "receiver_state \<times> monitor"

definition rsA :: "(receiver_state \<Rightarrow> 'a) \<Rightarrow> (focus, 'a) act" where
  "rsA f = getA (\<lambda>(rs, _). f rs)"

definition updA :: "(receiver_state \<Rightarrow> receiver_state) \<Rightarrow> (focus, unit) act" where
  "updA f = modifyA (\<lambda>(rs, mon). (f rs, mon))"

definition pushObservation :: "observation \<Rightarrow> (focus, unit) act" where
  "pushObservation ob = modifyA (\<lambda>(rs, mon).
     (rs, mon\<lparr>mon_vecPendingObservations := mon_vecPendingObservations mon @ [ob]\<rparr>))"

definition setRecord :: "nat \<Rightarrow> packet_record \<Rightarrow> receiver_state \<Rightarrow> receiver_state" where
  "setRecord n rec rs = rs\<lparr>rs_vecPacketRecords := (rs_vecPacketRecords rs)[n := rec]\<rparr>"

definition setIncomplete :: "receiver_state \<Rightarrow> receiver_state" where
  "setIncomplete rs = rs\<lparr>rs_bProtocolIncomplete := True\<rparr>"

text \<open>\<open>mapAdditionalCandidates[u32PacketIndex]\<close>\<close>

definition candidatesOf :: "receiver_state \<Rightarrow> u32 \<Rightarrow> candidate_record list" where
  "candidatesOf rs u32PacketIndex =
     (case rs_mapAdditionalCandidates rs u32PacketIndex of None \<Rightarrow> [] | Some cs \<Rightarrow> cs)"

definition setCandidates :: "u32 \<Rightarrow> candidate_record list \<Rightarrow> receiver_state \<Rightarrow> receiver_state" where
  "setCandidates u32PacketIndex cs rs =
     rs\<lparr>rs_mapAdditionalCandidates := (rs_mapAdditionalCandidates rs)(u32PacketIndex \<mapsto> cs)\<rparr>"

section \<open>Timeline\<close>

text \<open>The last segment before the first one that starts after the interval.\<close>

fun segmentFor :: "u32 \<Rightarrow> timeline_segment list \<Rightarrow> timeline_segment option \<Rightarrow> timeline_segment option" where
  "segmentFor u32LogicalInterval [] pSegment = pSegment"
| "segmentFor u32LogicalInterval (seg # segs) pSegment =
     (if seg_u32FirstLogicalInterval seg > u32LogicalInterval then pSegment
      else segmentFor u32LogicalInterval segs (Some seg))"

definition optIntervalStartTimestamp :: "receiver_state \<Rightarrow> u32 \<Rightarrow> u64 option" where
  "optIntervalStartTimestamp rs u32LogicalInterval =
     (case segmentFor u32LogicalInterval (rs_vecTimeline rs) None of
        None \<Rightarrow> None
      | Some seg \<Rightarrow>
          if (case rs_optPauseAfterInterval rs of None \<Rightarrow> False
              | Some p \<Rightarrow> u32LogicalInterval > p \<and> seg_u32FirstLogicalInterval seg \<le> p)
          then None
          else Some (seg_u64StartTimestampMilliseconds seg
            + ucast (u32LogicalInterval - seg_u32FirstLogicalInterval seg)
              * ucast (prm_u32IntervalMilliseconds (rs_prm rs))))"

definition bIsPacketTimeSafe :: "receiver_state \<Rightarrow> u32 \<Rightarrow> u64 \<Rightarrow> bool" where
  "bIsPacketTimeSafe rs u32DataIntervalIndex u64ReceiveTimestamp =
     (case optIntervalStartTimestamp rs (u32DataIntervalIndex + prm_u32DisclosureDelay (rs_prm rs)) of
        None \<Rightarrow> True
      | Some u64Disclosure \<Rightarrow>
          u64ReceiveTimestamp + ucast (rs_u32ClockToleranceMilliseconds rs) < u64Disclosure)"

section \<open>Queueing observations\<close>

fun statusMap :: "PacketStatus \<Rightarrow> PacketAuthenticationStatus" where
  "statusMap StatusEmpty = AuthPending"
| "statusMap StatusPending = AuthPending"
| "statusMap StatusPassed = AuthPassed"
| "statusMap StatusFailed = AuthFailed"

definition nextObservationEventId :: "(focus, u64) act" where
  "nextObservationEventId = bindA (getA (\<lambda>(_, mon). mon_u64NextObservationEventId mon)) (\<lambda>u64EventId.
     thenA (modifyA (\<lambda>(rs, mon). (rs, mon\<lparr>mon_u64NextObservationEventId := u64EventId + 1\<rparr>)))
       (retA u64EventId))"

fun observedIndexes :: "udp_packet \<Rightarrow> u32 \<times> u32" where
  "observedIndexes (UdpData d) = (ud_u32IntervalIndex d, ud_u32PacketIndex d)"
| "observedIndexes (UdpDisclosure d) = (udis_u32IntervalIndex d, 0)"

definition actualSource :: "receiver_state \<Rightarrow> string \<Rightarrow> string" where
  "actualSource rs strActualSourceIp =
     (if strActualSourceIp = [] then rcv_strSenderIpAddress (rs_ctxContext rs) else strActualSourceIp)"

definition queuePacketObservation :: "'g runtime_env \<Rightarrow> udp_packet \<Rightarrow> byte list \<Rightarrow> u64 \<Rightarrow> u64 \<Rightarrow> u32
    \<Rightarrow> PacketAuthenticationStatus \<Rightarrow> string \<Rightarrow> string \<Rightarrow> PacketSourceType \<Rightarrow> (focus, unit) act" where
  "queuePacketObservation env udp vecRaw u64Received u64EventId u32Duplicates status strReason strIp source =
     whenA (env_bObserve env)
      (bindA (rsA id) (\<lambda>rs.
       bindA (liftA (strCandidateHash (env_ssl env) vecRaw)) (\<lambda>strHash.
       bindA (liftA (varPayloadDetails udp)) (\<lambda>varPayload.
       bindA (liftA (mkPacketObservation
         \<lparr>po_u64EventId = u64EventId, po_u64TimestampMilliseconds = u64Received,
          po_strRoundId = rs_strRoundId rs, po_strSenderId = rcv_strSenderId (rs_ctxContext rs),
          po_strSenderIp = rcv_strSenderIpAddress (rs_ctxContext rs),
          po_strActualSourceIp = actualSource rs strIp, po_strPeer = actualSource rs strIp,
          po_dirDirection = Rx, po_typeSource = source,
          po_u64ChainId = rcv_u64ChainId (rs_ctxContext rs),
          po_u32IntervalIndex = fst (observedIndexes udp),
          po_u32PacketIndex = snd (observedIndexes udp),
          po_u32PacketsPerInterval = prm_u32PacketsPerInterval (rs_prm rs),
          po_u32DisclosureDelay = prm_u32DisclosureDelay (rs_prm rs),
          po_algCryptoAlgorithm = algMap (prm_algCryptoAlgorithm (rs_prm rs)),
          po_modeAuthentication = modeMap (prm_modeAuthentication (rs_prm rs)),
          po_statusAuthentication = status, po_strCandidateHash = strHash,
          po_u32DuplicateCount = u32Duplicates, po_strReason = strReason,
          po_varPayloadDetails = varPayload, po_vecRawDatagram = vecRaw\<rparr>))
        (\<lambda>po. pushObservation (ObsPacket po))))))"

record failure_report =
  fr_typeFailure :: AuthenticationFailureType
  fr_u64PacketEventId :: u64
  fr_u32IntervalIndex :: u32
  fr_u32PacketIndex :: u32
  fr_optGroupIndex :: "u32 option"
  fr_strCandidateHash :: string
  fr_strReason :: string
  fr_strReceivedTagDigest :: string
  fr_strCalculatedTagDigest :: string
  fr_vecLocated :: "u32 list"
  fr_u32DuplicateCount :: u32
  fr_sevSeverity :: ObservationSeverity
  fr_strActualSourceIp :: string

text \<open>A report with the arguments most calls pass; the callers update the others.\<close>

definition report :: "AuthenticationFailureType \<Rightarrow> u64 \<Rightarrow> u32 \<Rightarrow> u32 \<Rightarrow> string \<Rightarrow> string \<Rightarrow> failure_report" where
  "report typeFailure u64PacketEventId u32Interval u32Packet strHash strReason =
     \<lparr>fr_typeFailure = typeFailure, fr_u64PacketEventId = u64PacketEventId,
      fr_u32IntervalIndex = u32Interval, fr_u32PacketIndex = u32Packet, fr_optGroupIndex = None,
      fr_strCandidateHash = strHash, fr_strReason = strReason, fr_strReceivedTagDigest = [],
      fr_strCalculatedTagDigest = [], fr_vecLocated = [], fr_u32DuplicateCount = 1,
      fr_sevSeverity = SevError, fr_strActualSourceIp = []\<rparr>"

definition queueFailure :: "'g runtime_env \<Rightarrow> failure_report \<Rightarrow> (focus, unit) act" where
  "queueFailure env fr =
     whenA (env_bObserve env)
      (bindA (rsA id) (\<lambda>rs.
       bindA nextObservationEventId (\<lambda>u64EventId.
       bindA (liftA (mkPacketFailure
         \<lparr>pf_u64EventId = u64EventId, pf_u64PacketEventId = fr_u64PacketEventId fr,
          pf_u64TimestampMilliseconds = env_u64Now env, pf_sevSeverity = fr_sevSeverity fr,
          pf_typeFailure = fr_typeFailure fr, pf_strRoundId = rs_strRoundId rs,
          pf_strSenderId = rcv_strSenderId (rs_ctxContext rs),
          pf_strSenderIp = rcv_strSenderIpAddress (rs_ctxContext rs),
          pf_strActualSourceIp = actualSource rs (fr_strActualSourceIp fr),
          pf_u64ChainId = rcv_u64ChainId (rs_ctxContext rs),
          pf_u32IntervalIndex = fr_u32IntervalIndex fr, pf_u32PacketIndex = fr_u32PacketIndex fr,
          pf_optGroupIndex = fr_optGroupIndex fr, pf_strCandidateHash = fr_strCandidateHash fr,
          pf_strReason = fr_strReason fr, pf_strReceivedTagDigest = fr_strReceivedTagDigest fr,
          pf_strCalculatedTagDigest = fr_strCalculatedTagDigest fr,
          pf_vecLocatedPacketIndexes = fr_vecLocated fr,
          pf_u32DuplicateCount = fr_u32DuplicateCount fr\<rparr>))
        (\<lambda>pf. pushObservation (ObsFailure pf)))))"

end
