(* ===== verification/ReceiverVerify.thy ===== *)
theory ReceiverVerify
  imports Receiver
begin

text \<open>
  The receiver runtime, second part: what happens to an interval whose key is known.
  \<open>verifyNativeIntervalLocked\<close> and \<open>verifyImprovedIntervalLocked\<close> rebuild the sender's groups from
  the packet slots, run the strategy, write the verdicts into the slots and report them; candidates
  from an attack source are judged aside and never touch a slot. \<open>verifyIntervalLocked\<close> does so
  once per interval, whatever is thrown.
\<close>

section \<open>Groups from the slots\<close>

text \<open>The indexes of \<open>for (j = first; j <= last; ++j)\<close>, for \<open>last\<close> below the largest \<open>uint32\<close>.\<close>

definition indexRange :: "u32 \<Rightarrow> u32 \<Rightarrow> u32 list" where
  "indexRange u32First u32Last = map of_nat [unat u32First..<Suc (unat u32Last)]"

definition recordAt :: "receiver_state \<Rightarrow> u32 \<Rightarrow> packet_record" where
  "recordAt rs u32PacketIndex = rs_vecPacketRecords rs ! unat u32PacketIndex"

definition mapSlot :: "receiver_state \<Rightarrow> udp_data \<Rightarrow> pkt_input option result" where
  "mapSlot rs d =
     andThen (pktMapDataPacket (rcv_strSenderId (rs_ctxContext rs)) d) (\<lambda>pkt. Inr (Some pkt))"

definition receivedSlot :: "receiver_state \<Rightarrow> u32 \<Rightarrow> pkt_input option result" where
  "receivedSlot rs j =
     (case rec_optPacket (recordAt rs j) of None \<Rightarrow> Inr None | Some d \<Rightarrow> mapSlot rs d)"

definition grpFromSlots :: "receiver_state \<Rightarrow> u32 \<Rightarrow> u32 \<Rightarrow> u32 \<Rightarrow> pkt_input option list \<Rightarrow> grp_input result" where
  "grpFromSlots rs u32Interval u32Group u32First vecSlots =
     mkAuthenticationGroupInput (rcv_strSenderId (rs_ctxContext rs)) (rcv_u64ChainId (rs_ctxContext rs))
       u32Interval u32Group u32First vecSlots"

definition grpCreateReceived :: "receiver_state \<Rightarrow> u32 \<Rightarrow> u32 \<Rightarrow> u32 \<Rightarrow> u32 \<Rightarrow> grp_input result" where
  "grpCreateReceived rs u32Interval u32Group u32First u32Last =
     andThen (mapE (receivedSlot rs) (indexRange u32First u32Last))
       (grpFromSlots rs u32Interval u32Group u32First)"

definition attackCandidate :: "receiver_state \<Rightarrow> u32 \<Rightarrow> candidate_record option" where
  "attackCandidate rs j = find (\<lambda>c. cand_typeSource c = AttackInjection) (candidatesOf rs j)"

definition attackSlot :: "receiver_state \<Rightarrow> u32 \<Rightarrow> pkt_input option result" where
  "attackSlot rs j =
     (case attackCandidate rs j of Some c \<Rightarrow> mapSlot rs (cand_udpPacket c) | None \<Rightarrow> receivedSlot rs j)"

definition grpCreateAttackCandidate :: "receiver_state \<Rightarrow> u32 \<Rightarrow> u32 \<Rightarrow> u32 \<Rightarrow> u32
    \<Rightarrow> (grp_input \<times> u32 list) result" where
  "grpCreateAttackCandidate rs u32Interval u32Group u32First u32Last =
     andThen (mapE (attackSlot rs) (indexRange u32First u32Last)) (\<lambda>vecSlots.
     andThen (grpFromSlots rs u32Interval u32Group u32First vecSlots) (\<lambda>grp.
       Inr (grp, filter (\<lambda>j. attackCandidate rs j \<noteq> None) (indexRange u32First u32Last))))"

definition computeMac :: "receiver_state \<Rightarrow> crypto_provider \<Rightarrow> block \<Rightarrow> udp_data \<Rightarrow> block result" where
  "computeMac rs crp key d =
     andThen (pktMapDataPacket (rcv_strSenderId (rs_ctxContext rs)) d) (digComputePacketMac crp key)"

fun nativeMac :: "udp_auth \<Rightarrow> block option" where
  "nativeMac (NativeUdpDetails arrPacketMac) = Some arrPacketMac"
| "nativeMac (ImprovedUdpDetails _) = None"

definition macHex :: "udp_auth \<Rightarrow> string" where
  "macHex det = (case nativeMac det of None \<Rightarrow> [] | Some mac \<Rightarrow> strHex (block_bytes mac))"

section \<open>Native TESLA\<close>

text \<open>The packets of interval \<open>i\<close>.\<close>

definition intervalFirst :: "round_parameters \<Rightarrow> u32 \<Rightarrow> u32" where
  "intervalFirst prm i = (i - 1) * prm_u32PacketsPerInterval prm + 1"

definition intervalLast :: "round_parameters \<Rightarrow> u32 \<Rightarrow> u32" where
  "intervalLast prm i = min (prm_u32TotalPacketCount prm) (i * prm_u32PacketsPerInterval prm)"

definition queueRecord :: "'g runtime_env \<Rightarrow> packet_record \<Rightarrow> udp_data \<Rightarrow> string \<Rightarrow> (focus, unit) act" where
  "queueRecord env rec d strReason =
     queuePacketObservation env (UdpData d) (rec_vecRawDatagram rec)
       (rec_u64ReceiveTimestampMilliseconds rec) (rec_u64ObservationEventId rec)
       (rec_u32DuplicateCount rec) (statusMap (rec_statusPacket rec)) strReason
       (rec_strActualSourceIp rec) (rec_typeSource rec)"

definition queueCandidate :: "'g runtime_env \<Rightarrow> candidate_record \<Rightarrow> PacketAuthenticationStatus \<Rightarrow> string
    \<Rightarrow> (focus, unit) act" where
  "queueCandidate env c status strReason =
     queuePacketObservation env (UdpData (cand_udpPacket c)) (cand_vecRawDatagram c)
       (cand_u64ReceiveTimestampMilliseconds c) (cand_u64ObservationEventId c)
       (cand_u32DuplicateCount c) status strReason (cand_strActualSourceIp c) (cand_typeSource c)"

definition nativeBaseline :: "'g runtime_env \<Rightarrow> crypto_provider \<Rightarrow> u32 \<Rightarrow> block \<Rightarrow> nat
    \<Rightarrow> NativePacketStatus \<Rightarrow> (focus, unit) act" where
  "nativeBaseline env crp i key n status =
     bindA (rsA (\<lambda>rs. rs_vecPacketRecords rs ! n)) (\<lambda>rec0.
     case rec_optPacket rec0 of
       None \<Rightarrow> retA ()
     | Some d \<Rightarrow>
       (let bPassed = (status = NativePacketStatus.Passed);
            rec = rec0\<lparr>rec_statusPacket := (if bPassed then StatusPassed else StatusFailed)\<rparr>
        in thenA (updA (setRecord n rec))
          (thenA (queueRecord env rec d
             (if bPassed then ''Native packet MAC passed'' else ''Native packet MAC failed''))
          (whenA (\<not> bPassed)
            (bindA (rsA id) (\<lambda>rs.
             bindA (liftA (computeMac rs crp key d)) (\<lambda>digCalculated.
               queueFailure env ((report FailMacFailed (rec_u64ObservationEventId rec) i
                   (ud_u32PacketIndex d) (rec_strCandidateHash rec)
                   ''Message recalculated MAC differs from the received MAC'')
                 \<lparr>fr_strReceivedTagDigest := macHex (ud_varAuthenticationDetails d),
                  fr_strCalculatedTagDigest := strHex (block_bytes digCalculated),
                  fr_u32DuplicateCount := rec_u32DuplicateCount rec,
                  fr_strActualSourceIp := rec_strActualSourceIp rec\<rparr>))))))))"

definition nativeCandidate :: "'g runtime_env \<Rightarrow> crypto_provider \<Rightarrow> u32 \<Rightarrow> block \<Rightarrow> u32 \<Rightarrow> nat
    \<Rightarrow> (focus, unit) act" where
  "nativeCandidate env crp i key j n =
     bindA (rsA id) (\<lambda>rs.
     let cand0 = candidatesOf rs j ! n; d = cand_udpPacket cand0 in
     bindA (liftA (computeMac rs crp key d)) (\<lambda>digCalculated.
     let bPassed = (nativeMac (ud_varAuthenticationDetails d) = Some digCalculated);
         cand = cand0\<lparr>cand_statusPacket := (if bPassed then StatusPassed else StatusFailed)\<rparr>;
         bAttackDetected = (rec_statusPacket (recordAt rs j) = StatusPassed \<and> \<not> bPassed)
     in thenA (updA (setCandidates j ((candidatesOf rs j)[n := cand])))
       (thenA (queueCandidate env cand (statusMap (cand_statusPacket cand))
          (if bAttackDetected then ''TAMPERED_VARIANT: baseline passed and conflicting MAC failed''
           else if bPassed then ''Conflicting candidate MAC passed''
           else ''Conflicting candidate MAC failed''))
       (whenA (\<not> bPassed)
         (queueFailure env ((report
             (if cand_typeSource cand = AttackInjection then FailTamperedVariant else FailMacFailed)
             (cand_u64ObservationEventId cand) i j (cand_strCandidateHash cand)
             (if bAttackDetected then ''ATTACK_DETECTED: legal baseline passed and attack candidate failed''
              else ''Conflicting candidate failed native MAC verification''))
           \<lparr>fr_strReceivedTagDigest := macHex (ud_varAuthenticationDetails d),
            fr_strCalculatedTagDigest := strHex (block_bytes digCalculated),
            fr_u32DuplicateCount := cand_u32DuplicateCount cand,
            fr_strActualSourceIp := cand_strActualSourceIp cand\<rparr>))))))"

definition nativeCandidates :: "'g runtime_env \<Rightarrow> crypto_provider \<Rightarrow> u32 \<Rightarrow> block \<Rightarrow> u32 \<Rightarrow> (focus, unit) act"
where
  "nativeCandidates env crp i key j =
     bindA (rsA (\<lambda>rs. length (candidatesOf rs j))) (\<lambda>nCount.
       forA (nativeCandidate env crp i key j) [0..<nCount])"

definition receivedMac :: "receiver_state \<Rightarrow> u32 \<Rightarrow> block option" where
  "receivedMac rs j =
     (case rec_optPacket (recordAt rs j) of
        None \<Rightarrow> None | Some d \<Rightarrow> nativeMac (ud_varAuthenticationDetails d))"

definition nativeVerdict :: "crypto_provider \<Rightarrow> receiver_state \<Rightarrow> u32 \<Rightarrow> u32 \<Rightarrow> u32 \<Rightarrow> block
    \<Rightarrow> NativePacketStatus list result" where
  "nativeVerdict crp rs i u32First u32Last key =
     andThen (grpCreateReceived rs i i u32First u32Last) (\<lambda>grp.
     andThen (mkNativeAuthenticationDetails (map (receivedMac rs) (indexRange u32First u32Last))) (\<lambda>det.
     andThen (native_verify crp grp det key False) (\<lambda>(vfyResult, _).
       case m_varDetails vfyResult of
         NativeVerificationDetails statuses \<Rightarrow> Inr statuses
       | ImprovedVerificationDetails _ \<Rightarrow> Inl (LogicError ''bad variant access''))))"

definition verifyNativeInterval :: "'g runtime_env \<Rightarrow> u32 \<Rightarrow> block \<Rightarrow> (focus, unit) act" where
  "verifyNativeInterval env i key =
     bindA (rsA id) (\<lambda>rs.
     let crp = OpenSslCryptoProvider (env_ssl env) (prm_algCryptoAlgorithm (rs_prm rs));
         u32First = intervalFirst (rs_prm rs) i; u32Last = intervalLast (rs_prm rs) i in
     bindA (liftA (nativeVerdict crp rs i u32First u32Last key)) (\<lambda>statuses.
     thenA (forA (\<lambda>(nPosition, status). nativeBaseline env crp i key (unat u32First + nPosition) status)
         (enumerate 0 statuses))
       (forA (nativeCandidates env crp i key) (indexRange u32First u32Last))))"

section \<open>Improved TESLA\<close>

definition tagsAt :: "receiver_state \<Rightarrow> u32 \<Rightarrow> block list \<times> block option" where
  "tagsAt rs u32Last =
     (case rec_optPacket (recordAt rs u32Last) of
        None \<Rightarrow> ([], None)
      | Some d \<Rightarrow> (case ud_varAuthenticationDetails d of
          ImprovedUdpDetails (Some det) \<Rightarrow> (ugd_vecSamdTau det, Some (ugd_arrFastGroupTag det))
        | _ \<Rightarrow> ([], None)))"

fun observedPath :: "ImprovedVerificationPath \<Rightarrow> GroupVerificationPath" where
  "observedPath FastGroupPass = PathFastGroupPass"
| "observedPath KsRsFallback = PathKsRsFallback"
| "observedPath IncompleteGroupTags = PathIncompleteGroupTags"

definition packetIndexes :: "u32 \<Rightarrow> nat list \<Rightarrow> u32 list" where
  "packetIndexes u32First vecPositions = map (\<lambda>nPosition. u32First + of_nat nPosition) vecPositions"

definition scanSteps :: "u32 \<Rightarrow> u32 \<Rightarrow> string \<Rightarrow> location_step list \<Rightarrow> matrix_step list result" where
  "scanSteps u32First u32StepIndex strOperation steps =
     mapE (\<lambda>(n, step). mkMatrixLocationStep (u32StepIndex + of_nat n) strOperation
         (packetIndexes u32First (vecNewGoodPositions step))
         (packetIndexes u32First (vecRemainingCandidatePositions step)))
       (enumerate 0 steps)"

definition fallbackSteps :: "u32 \<Rightarrow> u32 \<Rightarrow> u32 list \<Rightarrow> location_step list \<Rightarrow> matrix_step list result" where
  "fallbackSteps u32First u32Last vecLocated steps =
     andThen (mkMatrixLocationStep 1 ''Initialize all packet slots as candidates'' []
       (indexRange u32First u32Last)) (\<lambda>stepFirst.
     andThen (scanSteps u32First 2 ''Scan a verified test row and exclude proven-good packets'' steps)
       (\<lambda>vecScan.
     andThen (mkMatrixLocationStep (2 + of_nat (length steps))
       ''Finish row scan and retain final bad-packet candidates'' [] vecLocated) (\<lambda>stepLast.
       Inr (stepFirst # vecScan @ [stepLast]))))"

definition setStatus :: "PacketStatus \<Rightarrow> nat \<Rightarrow> (focus, unit) act" where
  "setStatus status n =
     updA (\<lambda>rs. let rec = rs_vecPacketRecords rs ! n in
       if rec_optPacket rec = None then rs else setRecord n (rec\<lparr>rec_statusPacket := status\<rparr>) rs)"

definition pushGroupObservation :: "'g runtime_env \<Rightarrow> u32 \<Rightarrow> u32 \<Rightarrow> u32 \<Rightarrow> GroupVerificationPath
    \<Rightarrow> improved_verification \<Rightarrow> u32 list \<Rightarrow> matrix_step list \<Rightarrow> (focus, unit) act" where
  "pushGroupObservation env u32Group u32First u32Last path det vecLocated vecSteps =
     bindA (rsA id) (\<lambda>rs.
     bindA nextObservationEventId (\<lambda>u64EventId.
     bindA (liftA (mkGroupObservation
       \<lparr>go_u64EventId = u64EventId, go_u64TimestampMilliseconds = env_u64Now env,
        go_strRoundId = rs_strRoundId rs, go_strSenderId = rcv_strSenderId (rs_ctxContext rs),
        go_u64ChainId = rcv_u64ChainId (rs_ctxContext rs), go_u32GroupIndex = u32Group,
        go_u32FirstPacketIndex = u32First, go_u32LastPacketIndex = u32Last,
        go_u32DetectionThreshold = (case prm_optImprovedParameters (rs_prm rs) of
            Some imp \<Rightarrow> imp_u32DetectionThreshold imp | None \<Rightarrow> 0),
        go_pathVerification = path, go_bFastGroupTagMatched = m_bFastGroupTagMatched det,
        go_bDetectionThresholdExceeded = m_bDetectionThresholdExceeded det,
        go_vecLocatedPacketIndexes = vecLocated, go_vecLocationSteps = vecSteps\<rparr>))
      (\<lambda>go. pushObservation (ObsGroup go))))"

definition improvedVerdict :: "crypto_provider \<Rightarrow> ksrs_matrix \<Rightarrow> grp_input \<Rightarrow> block list \<times> block option
    \<Rightarrow> block \<Rightarrow> (bool \<times> improved_verification) result" where
  "improvedVerdict crp mat grp tags key =
     andThen (improved_verify crp mat grp (ImprovedAuthenticationDetails (fst tags) (snd tags)) key False)
       (\<lambda>(vfyResult, _). case m_varDetails vfyResult of
          ImprovedVerificationDetails det \<Rightarrow> Inr (m_bPassed vfyResult, det)
        | NativeVerificationDetails _ \<Rightarrow> Inl (LogicError ''bad variant access''))"

text \<open>The verdicts of a group, written into its slots.\<close>

definition writeVerdict :: "u32 \<Rightarrow> u32 \<Rightarrow> bool \<Rightarrow> improved_verification \<Rightarrow> (focus, unit) act" where
  "writeVerdict u32First u32Last bPassed det =
     thenA (forA (\<lambda>n. setStatus StatusPassed (unat u32First + n)) (m_vecAuthenticatedPositions det))
     (thenA (forA (\<lambda>n. setStatus StatusFailed (unat u32First + n)) (m_vecRejectedPositions det))
     (whenA bPassed
       (forA (\<lambda>j. setStatus StatusPassed (unat j)) (indexRange u32First u32Last))))"

definition observeGroupPacket :: "'g runtime_env \<Rightarrow> u32 \<Rightarrow> (focus, unit) act" where
  "observeGroupPacket env j =
     bindA (rsA (\<lambda>rs. recordAt rs j)) (\<lambda>rec.
     case rec_optPacket rec of
       None \<Rightarrow> retA ()
     | Some d \<Rightarrow> queueRecord env rec d
         (if rec_statusPacket rec = StatusPassed then ''Improved group authentication passed''
          else ''Improved group authentication rejected this packet''))"

definition groupReport :: "AuthenticationFailureType \<Rightarrow> packet_record \<Rightarrow> u32 \<Rightarrow> u32 \<Rightarrow> u32 \<Rightarrow> string
    \<Rightarrow> failure_report" where
  "groupReport typeFailure recEnd i u32First u32Group strReason =
     (report typeFailure (rec_u64ObservationEventId recEnd) i u32First (rec_strCandidateHash recEnd)
       strReason)\<lparr>fr_optGroupIndex := Some u32Group\<rparr>"

definition observeGroup :: "'g runtime_env \<Rightarrow> u32 \<Rightarrow> u32 \<Rightarrow> u32 \<Rightarrow> u32 \<Rightarrow> improved_verification
    \<Rightarrow> (focus, unit) act" where
  "observeGroup env i u32Group u32First u32Last det =
     (let path = observedPath (m_pathVerification det);
          vecLocated = packetIndexes u32First (m_vecRejectedPositions det) in
      bindA (liftA (if path = PathKsRsFallback
          then fallbackSteps u32First u32Last vecLocated (m_vecLocationSteps det) else Inr []))
      (\<lambda>vecSteps.
      thenA (pushGroupObservation env u32Group u32First u32Last path det vecLocated vecSteps)
      (thenA (forA (observeGroupPacket env) (indexRange u32First u32Last))
      (bindA (rsA (\<lambda>rs. recordAt rs u32Last)) (\<lambda>recEnd.
      thenA (if path = PathKsRsFallback
         then queueFailure env ((groupReport FailFastGroupFailed recEnd i u32First u32Group
             ''FastGroupTag failed and KS+RS fallback was executed'')\<lparr>fr_vecLocated := vecLocated\<rparr>)
         else whenA (path = PathIncompleteGroupTags)
           (queueFailure env (groupReport FailIncompleteGroupTags recEnd i u32First u32Group
             ''Improved group did not contain a complete tau/FastGroupTag set'')))
      (whenA (m_bDetectionThresholdExceeded det)
         (queueFailure env ((groupReport FailDetectionThresholdExceeded recEnd i u32First u32Group
             ''Located bad-packet candidates exceed the configured threshold'')
            \<lparr>fr_vecLocated := vecLocated, fr_sevSeverity := SevWarning\<rparr>))))))))"

section \<open>Improved TESLA: candidates from an attack source\<close>

definition unverifiableAttack :: "'g runtime_env \<Rightarrow> u32 \<Rightarrow> u32 \<Rightarrow> u32 \<Rightarrow> (focus, unit) act" where
  "unverifiableAttack env i u32Group j =
     bindA (rsA (\<lambda>rs. attackCandidate rs j)) (\<lambda>optAttack.
     case optAttack of
       None \<Rightarrow> retA ()
     | Some c \<Rightarrow> queueFailure env ((report FailUnverifiableMissingBaseline
           (cand_u64ObservationEventId c) i j (cand_strCandidateHash c)
           ''Attack candidate cannot be judged because the normal group did not pass FastGroupTag'')
         \<lparr>fr_optGroupIndex := Some u32Group, fr_u32DuplicateCount := cand_u32DuplicateCount c,
          fr_strActualSourceIp := cand_strActualSourceIp c\<rparr>))"

fun failFirstAttack :: "candidate_record list \<Rightarrow> candidate_record list" where
  "failFirstAttack [] = []"
| "failFirstAttack (c # cs) =
     (if cand_typeSource c = AttackInjection then c\<lparr>cand_statusPacket := StatusFailed\<rparr> # cs
      else c # failFirstAttack cs)"

definition failAttack :: "'g runtime_env \<Rightarrow> u32 \<Rightarrow> u32 \<Rightarrow> improved_verification \<Rightarrow> u32 list \<Rightarrow> u32
    \<Rightarrow> (focus, unit) act" where
  "failAttack env i u32Group detAttack vecLocated j =
     bindA (rsA (\<lambda>rs. attackCandidate rs j)) (\<lambda>optAttack.
     case optAttack of
       None \<Rightarrow> retA ()
     | Some c \<Rightarrow>
       thenA (updA (\<lambda>rs. setCandidates j (failFirstAttack (candidatesOf rs j)) rs))
       (thenA (queueCandidate env c AuthFailed
          ''TAMPERED_VARIANT: attack group failed FastGroupTag and entered KS+RS'')
       (queueFailure env ((report FailTamperedVariant (cand_u64ObservationEventId c) i j
            (cand_strCandidateHash c)
            (if m_bDetectionThresholdExceeded detAttack
             then ''ATTACK_DETECTED; DETECTION_THRESHOLD_EXCEEDED''
             else ''ATTACK_DETECTED; attack candidate located by KS+RS fallback''))
          \<lparr>fr_optGroupIndex := Some u32Group, fr_vecLocated := vecLocated,
           fr_u32DuplicateCount := cand_u32DuplicateCount c,
           fr_sevSeverity := (if m_bDetectionThresholdExceeded detAttack then SevWarning else SevError),
           fr_strActualSourceIp := cand_strActualSourceIp c\<rparr>))))"

definition judgeAttack :: "'g runtime_env \<Rightarrow> crypto_provider \<Rightarrow> ksrs_matrix \<Rightarrow> u32 \<Rightarrow> u32 \<Rightarrow> u32 \<Rightarrow> u32
    \<Rightarrow> block list \<times> block option \<Rightarrow> block \<Rightarrow> ImprovedVerificationPath \<Rightarrow> (focus, unit) act" where
  "judgeAttack env crp mat i u32Group u32First u32Last tags key path =
     bindA (rsA id) (\<lambda>rs.
     bindA (liftA (grpCreateAttackCandidate rs i u32Group u32First u32Last)) (\<lambda>(grpAttack, vecReplaced).
     if vecReplaced = [] then retA ()
     else if path \<noteq> FastGroupPass then forA (unverifiableAttack env i u32Group) vecReplaced
     else bindA (liftA (improvedVerdict crp mat grpAttack tags key)) (\<lambda>(_, detAttack).
       let vecLocated = packetIndexes u32First (m_vecRejectedPositions detAttack) in
       bindA (liftA (scanSteps u32First 1 ''Attack candidate KS+RS row scan'' (m_vecLocationSteps detAttack)))
       (\<lambda>vecSteps.
       thenA (pushGroupObservation env u32Group u32First u32Last PathKsRsFallback detAttack vecLocated vecSteps)
         (forA (failAttack env i u32Group detAttack vecLocated) vecReplaced)))))"

section \<open>Improved TESLA: an interval\<close>

definition verifyImprovedGroup :: "'g runtime_env \<Rightarrow> crypto_provider \<Rightarrow> ksrs_matrix \<Rightarrow> u32 \<Rightarrow> u32 \<Rightarrow> block
    \<Rightarrow> u32 \<times> u32 \<Rightarrow> (focus, unit) act" where
  "verifyImprovedGroup env crp mat u32GroupSize i key =
     (\<lambda>(u32First, u32Last).
      bindA (rsA id) (\<lambda>rs.
      let u32Group = (u32First - 1) div u32GroupSize + 1; tags = tagsAt rs u32Last in
      bindA (liftA (grpCreateReceived rs i u32Group u32First u32Last)) (\<lambda>grp.
      bindA (liftA (improvedVerdict crp mat grp tags key)) (\<lambda>(bPassed, det).
      thenA (whenA (m_pathVerification det = IncompleteGroupTags) (updA setIncomplete))
      (thenA (writeVerdict u32First u32Last bPassed det)
      (thenA (observeGroup env i u32Group u32First u32Last det)
        (judgeAttack env crp mat i u32Group u32First u32Last tags key (m_pathVerification det))))))))"

text \<open>
  The groups the \<open>while\<close> loop visits, as its variable evolves. A round goes on after an interval
  of the largest group size, so \<open>first + size - 1\<close> stays within the interval; each turn covers at
  least one packet, so as many turns as packets suffice (\<open>groupBounds_cover\<close>).
\<close>

fun groupBounds :: "nat \<Rightarrow> u32 \<Rightarrow> u32 \<Rightarrow> u32 \<Rightarrow> (u32 \<times> u32) list" where
  "groupBounds 0 u32GroupSize u32Last u32First = []"
| "groupBounds (Suc nTurns) u32GroupSize u32Last u32First =
     (if u32First \<le> u32Last
      then (let u32GroupLast = min u32Last (u32First + u32GroupSize - 1)
            in (u32First, u32GroupLast) # groupBounds nTurns u32GroupSize u32Last (u32GroupLast + 1))
      else [])"

definition optParameters :: "round_parameters \<Rightarrow> improved_parameters result" where
  "optParameters prm = optValue (prm_optImprovedParameters prm)"

definition verifyImprovedInterval :: "'g runtime_env \<Rightarrow> u32 \<Rightarrow> block \<Rightarrow> (focus, unit) act" where
  "verifyImprovedInterval env i key =
     bindA (rsA id) (\<lambda>rs.
     let crp = OpenSslCryptoProvider (env_ssl env) (prm_algCryptoAlgorithm (rs_prm rs));
         u32First = intervalFirst (rs_prm rs) i; u32Last = intervalLast (rs_prm rs) i in
     bindA (liftA (optParameters (rs_prm rs))) (\<lambda>imp.
     bindA (liftA (mkImprovedTeslaStrategy (unat (imp_u32GroupSize imp))
         (unat (imp_u32DetectionThreshold imp)))) (\<lambda>mat.
       forA (verifyImprovedGroup env crp mat (imp_u32GroupSize imp) i key)
         (groupBounds (Suc (unat u32Last) - unat u32First) (imp_u32GroupSize imp) u32Last u32First))))"

section \<open>Once per interval\<close>

definition verifyInterval :: "'g runtime_env \<Rightarrow> u32 \<Rightarrow> (focus, unit) act" where
  "verifyInterval env i =
     bindA (rsA id) (\<lambda>rs.
     if i \<in> rs_setVerifiedIntervals rs then retA ()
     else case rs_mapDisclosedKeys rs i of
       None \<Rightarrow> retA ()
     | Some key \<Rightarrow>
       thenA (catchA
          (if prm_modeAuthentication (rs_prm rs) = ModeNative
           then verifyNativeInterval env i key else verifyImprovedInterval env i key)
          (updA setIncomplete))
        (updA (\<lambda>rs. rs\<lparr>rs_setVerifiedIntervals := insert i (rs_setVerifiedIntervals rs)\<rparr>)))"

end
