(* ===== verification/ReceiverProcess.thy ===== *)
theory ReceiverProcess
  imports ReceiverVerify
begin

text \<open>
  The receiver runtime, third part: what a queued datagram does to its receiver. Decoding under
  the trusted context, the time-safety check, the slot with its alternative versions, disclosed
  keys, and the result of a round.
\<close>

section \<open>Counting and recovering\<close>

definition nCountStatus :: "receiver_state \<Rightarrow> PacketStatus \<Rightarrow> u32" where
  "nCountStatus rs status =
     of_nat (length (filter (\<lambda>rec. rec_statusPacket rec = status) (tl (rs_vecPacketRecords rs))))"

definition bytesString :: "byte list \<Rightarrow> string" where
  "bytesString xs = map (\<lambda>b. char_of (unat b)) xs"

definition strDecodeText :: "block \<Rightarrow> string" where
  "strDecodeText arrMessage = bytesString (rev (dropWhile (\<lambda>b. b = 0) (rev (block_bytes arrMessage))))"

fun recoverTextLoop :: "receiver_state \<Rightarrow> packet_record list \<Rightarrow> string \<Rightarrow> string result" where
  "recoverTextLoop rs [] strText = Inr strText"
| "recoverTextLoop rs (rec # recs) strText =
     (case (rec_statusPacket rec = StatusPassed, rec_optPacket rec) of
        (True, Some d) \<Rightarrow>
          andThen (pktMapDataPacket (rcv_strSenderId (rs_ctxContext rs)) d) (\<lambda>pkt.
            let strCurrent = strDecodeText (pkt_arrMessage pkt) in
            if strText = [] then recoverTextLoop rs recs strCurrent
            else if strText \<noteq> strCurrent then Inr []
            else recoverTextLoop rs recs strText)
      | _ \<Rightarrow> recoverTextLoop rs recs strText)"

definition strRecoveredText :: "receiver_state \<Rightarrow> string result" where
  "strRecoveredText rs = recoverTextLoop rs (tl (rs_vecPacketRecords rs)) []"

definition u64FileByteCount :: "receiver_state \<Rightarrow> u64 result" where
  "u64FileByteCount rs =
     (case rcv_varPayloadDetails (rs_ctxContext rs) of
        FileReceiverPayloadDetails u64OriginalByteCount \<Rightarrow> Inr u64OriginalByteCount
      | TextReceiverPayloadDetails _ \<Rightarrow> Inl (LogicError ''bad variant access''))"

definition varIncompletePayloadDetails :: "receiver_state \<Rightarrow> result_details result" where
  "varIncompletePayloadDetails rs =
     (if prm_modePayload (rs_prm rs) = PayloadText
      then andThen (strRecoveredText rs) (\<lambda>strText. Inr (TextResultDetails strText))
      else andThen (u64FileByteCount rs) (\<lambda>u64OriginalByteCount.
        mkFileReceiverResultDetails u64OriginalByteCount [] None))"

definition recoverMessage :: "receiver_state \<Rightarrow> packet_record \<Rightarrow> block result" where
  "recoverMessage rs rec =
     (case (rec_statusPacket rec = StatusPassed, rec_optPacket rec) of
        (True, Some d) \<Rightarrow>
          andThen (pktMapDataPacket (rcv_strSenderId (rs_ctxContext rs)) d) (\<lambda>pkt. Inr (pkt_arrMessage pkt))
      | _ \<Rightarrow> Inl (LogicError ''File recovery encountered a non-authenticated slot''))"

definition varRecoverFileDetails :: "'g runtime_env \<Rightarrow> receiver_state \<Rightarrow> result_details result" where
  "varRecoverFileDetails env rs =
     andThen (u64FileByteCount rs) (\<lambda>u64OriginalByteCount.
     andThen (mapE (recoverMessage rs) (tl (rs_vecPacketRecords rs))) (\<lambda>vecMessages.
     andThen (vecRecover vecMessages (unat u64OriginalByteCount)) (\<lambda>vecRecovered.
     andThen (OpenSsl_digHash (env_ssl env) Sha256 vecRecovered) (\<lambda>digSha256.
       mkFileReceiverResultDetails u64OriginalByteCount vecRecovered (Some digSha256)))))"

text \<open>The recovered payload, and whether the code counts it as recovered.\<close>

definition recoverPayload :: "'g runtime_env \<Rightarrow> receiver_state \<Rightarrow> (result_details \<times> bool) result" where
  "recoverPayload env rs =
     (if prm_modePayload (rs_prm rs) = PayloadText
      then andThen (strRecoveredText rs) (\<lambda>strText. Inr (TextResultDetails strText, strText \<noteq> []))
      else andThen (varRecoverFileDetails env rs) (\<lambda>det. Inr (det, True)))"

section \<open>Results\<close>

definition u32MissingCount :: "receiver_state \<Rightarrow> u32" where
  "u32MissingCount rs = prm_u32TotalPacketCount (rs_prm rs) - rs_u32ReceivedPacketCount rs"

definition missingFailure :: "'g runtime_env \<Rightarrow> u32 \<Rightarrow> (focus, unit) act" where
  "missingFailure env j =
     bindA (rsA id) (\<lambda>rs.
       whenA (rec_optPacket (recordAt rs j) = None)
         (queueFailure env ((report FailMissingPacket 0
              ((j - 1) div prm_u32PacketsPerInterval (rs_prm rs) + 1) j []
              ''Expected packet slot was not received'')
            \<lparr>fr_optGroupIndex := (if prm_modeAuthentication (rs_prm rs) = ModeImproved
               then map_option (\<lambda>imp. (j - 1) div imp_u32GroupSize imp + 1)
                 (prm_optImprovedParameters (rs_prm rs))
               else None)\<rparr>)))"

definition queueMissingPacketFailures :: "'g runtime_env \<Rightarrow> (focus, unit) act" where
  "queueMissingPacketFailures env =
     bindA (rsA (\<lambda>rs. prm_u32TotalPacketCount (rs_prm rs))) (\<lambda>u32Total.
       forA (missingFailure env) (indexRange 1 u32Total))"

definition resultOf :: "receiver_state \<Rightarrow> AuthenticationRuntimeResultStatus \<Rightarrow> result_details \<Rightarrow> string
    \<Rightarrow> runtime_result result" where
  "resultOf rs status det strMessage =
     mkAuthenticationRuntimeResult
       \<lparr>res_strRoundId = rs_strRoundId rs, res_strSenderId = rcv_strSenderId (rs_ctxContext rs),
        res_u64ChainId = rcv_u64ChainId (rs_ctxContext rs), res_statusResult = status,
        res_u32ExpectedPacketCount = prm_u32TotalPacketCount (rs_prm rs),
        res_u32ReceivedPacketCount = rs_u32ReceivedPacketCount rs,
        res_u32AuthenticatedPacketCount = nCountStatus rs StatusPassed,
        res_u32FailedPacketCount = nCountStatus rs StatusFailed,
        res_u32MissingPacketCount = u32MissingCount rs, res_varResultDetails = det,
        res_strMessage = strMessage\<rparr>"

definition resCreateResult :: "receiver_state \<Rightarrow> AuthenticationRuntimeResultStatus \<Rightarrow> string
    \<Rightarrow> runtime_result result" where
  "resCreateResult rs status strMessage =
     andThen (varIncompletePayloadDetails rs) (\<lambda>det. resultOf rs status det strMessage)"

definition bAllAuthenticated :: "receiver_state \<Rightarrow> bool" where
  "bAllAuthenticated rs \<longleftrightarrow> nCountStatus rs StatusPassed = prm_u32TotalPacketCount (rs_prm rs)
     \<and> nCountStatus rs StatusFailed = 0 \<and> u32MissingCount rs = 0"

definition finalStatus :: "receiver_state \<Rightarrow> bool \<Rightarrow> AuthenticationRuntimeResultStatus \<times> string" where
  "finalStatus rs bPayloadRecovered =
     (let bText = (prm_modePayload (rs_prm rs) = PayloadText) in
      if rs_bProtocolIncomplete rs
      then (ProtocolIncomplete, ''Receiver detected incomplete or inconsistent protocol data'')
      else if \<not> bAllAuthenticated rs \<or> \<not> bPayloadRecovered
      then (AuthenticationFailed, if bText then ''Receiver did not authenticate every expected text packet''
        else ''Receiver did not authenticate every expected file packet'')
      else (Completed, if bText then ''Receiver authenticated the complete text round''
        else ''Receiver authenticated and recovered the complete file''))"

definition tryRecover :: "'g runtime_env \<Rightarrow> result_details \<Rightarrow> (focus, result_details \<times> bool) act" where
  "tryRecover env detIncomplete =
     bindA (rsA id) (\<lambda>rs.
       if bAllAuthenticated rs \<and> \<not> rs_bProtocolIncomplete rs
       then catchA (liftA (recoverPayload env rs))
              (thenA (updA setIncomplete) (retA (detIncomplete, False)))
       else retA (detIncomplete, False))"

text \<open>\<open>finalizeLocked\<close>; \<open>updateGlobalRunningLocked\<close>, which only reads \<open>bActive\<close>, is left to the
  caller.\<close>

definition finalize :: "'g runtime_env \<Rightarrow> (focus, runtime_result) act" where
  "finalize env =
     bindA (rsA (\<lambda>rs. prm_nDataIntervalCount (rs_prm rs))) (\<lambda>nDataIntervalCount.
     thenA (forA (verifyInterval env) (map of_nat [1..<Suc nDataIntervalCount]))
     (thenA (queueMissingPacketFailures env)
     (thenA (updA (\<lambda>rs. rs\<lparr>rs_bActive := False, rs_bResultReported := True\<rparr>))
     (bindA (rsA id) (\<lambda>rs.
      bindA (liftA (varIncompletePayloadDetails rs)) (\<lambda>detIncomplete.
      bindA (tryRecover env detIncomplete) (\<lambda>(det, bPayloadRecovered).
      bindA (rsA id) (\<lambda>rs.
      case finalStatus rs bPayloadRecovered of (status, strMessage) \<Rightarrow>
        liftA (resultOf rs status det strMessage)))))))))"

section \<open>Disclosed keys\<close>

definition incompleteA :: "'a \<Rightarrow> (focus, 'a) act" where
  "incompleteA x = thenA (updA setIncomplete) (retA x)"

text \<open>From the disclosed key down the chain; \<open>False\<close> when an older key contradicts it.\<close>

fun recoverKeys :: "'g runtime_env \<Rightarrow> crypto_provider \<Rightarrow> nat \<Rightarrow> block \<Rightarrow> (focus, bool) act" where
  "recoverKeys env crp 0 digCurrent = retA True"
| "recoverKeys env crp (Suc n) digCurrent =
     bindA (rsA (\<lambda>rs. rs_mapDisclosedKeys rs)) (\<lambda>mapKeys.
     let i = of_nat (Suc n) in
     case mapKeys i of
       Some digExisting \<Rightarrow>
         if \<not> bDigestEquals digExisting digCurrent then incompleteA False
         else thenA (verifyInterval env i)
           (bindA (liftA (digHash crp (vecToByteBuffer digCurrent))) (recoverKeys env crp n))
     | None \<Rightarrow>
         thenA (updA (\<lambda>rs. rs\<lparr>rs_mapDisclosedKeys := (rs_mapDisclosedKeys rs)(i \<mapsto> digCurrent)\<rparr>))
         (thenA (verifyInterval env i)
           (bindA (liftA (digHash crp (vecToByteBuffer digCurrent))) (recoverKeys env crp n))))"

definition processDisclosedKey :: "'g runtime_env \<Rightarrow> u32 \<Rightarrow> block \<Rightarrow> (focus, bool \<times> runtime_result list) act"
where
  "processDisclosedKey env u32DisclosureInterval arrDisclosedKey =
     bindA (rsA id) (\<lambda>rs.
     let prm = rs_prm rs; u32KeyIndex = u32DisclosureInterval - prm_u32DisclosureDelay prm;
         crp = OpenSslCryptoProvider (env_ssl env) (prm_algCryptoAlgorithm prm) in
     if u32DisclosureInterval \<le> prm_u32DisclosureDelay prm then incompleteA (False, [])
     else if unat u32KeyIndex > prm_nDataIntervalCount prm then incompleteA (False, [])
     else bindA (liftA (bVerifyDisclosedKey crp arrDisclosedKey (unat u32KeyIndex)
         (rcv_digCommitmentKey (rs_ctxContext rs)))) (\<lambda>bKeyVerified.
       if \<not> bKeyVerified then incompleteA (False, [])
       else bindA (recoverKeys env crp (unat u32KeyIndex) arrDisclosedKey) (\<lambda>bConsistent.
         if \<not> bConsistent then retA (False, [])
         else if unat u32KeyIndex = prm_nDataIntervalCount prm
         then bindA (finalize env) (\<lambda>res. retA (True, [res]))
         else retA (True, []))))"

section \<open>A datagram\<close>

definition ctxCreatePacketContext :: "round_parameters \<Rightarrow> udp_context result" where
  "ctxCreatePacketContext prm =
     (if prm_modeAuthentication prm = ModeNative
      then mkUdpContext Native (prm_u32PacketsPerInterval prm) (prm_u32DisclosureDelay prm)
        (prm_u32TotalPacketCount prm) 0 0
      else andThen (optParameters prm) (\<lambda>imp.
        mkUdpContext Improved (prm_u32PacketsPerInterval prm) (prm_u32DisclosureDelay prm)
          (prm_u32TotalPacketCount prm) (imp_u32GroupSize imp) (imp_nTauCount imp)))"

definition queueDatagram :: "'g runtime_env \<Rightarrow> queued_datagram \<Rightarrow> udp_packet \<Rightarrow> u64
    \<Rightarrow> PacketAuthenticationStatus \<Rightarrow> string \<Rightarrow> (focus, unit) act" where
  "queueDatagram env que udp u64EventId status strReason =
     queuePacketObservation env udp (que_vecDatagram que) (que_u64ReceiveTimestampMilliseconds que)
       u64EventId 1 status strReason (que_strActualSourceIp que) (que_typeSource que)"

definition processDisclosure :: "'g runtime_env \<Rightarrow> queued_datagram \<Rightarrow> udp_disclosure
    \<Rightarrow> (focus, runtime_result list) act" where
  "processDisclosure env que d =
     bindA (processDisclosedKey env (udis_u32IntervalIndex d) (udis_arrDisclosedKey d))
     (\<lambda>(bAccepted, vecResults).
     bindA nextObservationEventId (\<lambda>u64EventId.
     thenA (queueDatagram env que (UdpDisclosure d) u64EventId
        (if bAccepted then AuthPassed else AuthFailed)
        (if bAccepted then ''Disclosed key accepted'' else ''Disclosed key rejected''))
     (thenA (whenA (\<not> bAccepted)
        (bindA (liftA (strCandidateHash (env_ssl env) (que_vecDatagram que))) (\<lambda>strHash.
          queueFailure env (report FailProtocolError u64EventId (udis_u32IntervalIndex d) 0 strHash
            ''Disclosed key does not match the configured commitment chain''))))
     (retA vecResults))))"

definition rejectLate :: "'g runtime_env \<Rightarrow> queued_datagram \<Rightarrow> udp_data \<Rightarrow> (focus, unit) act" where
  "rejectLate env que d =
     thenA (updA setIncomplete)
     (bindA nextObservationEventId (\<lambda>u64EventId.
      thenA (queueDatagram env que (UdpData d) u64EventId AuthFailed
         ''Packet arrived after its safe authentication window'')
      (bindA (liftA (strCandidateHash (env_ssl env) (que_vecDatagram que))) (\<lambda>strHash.
        queueFailure env ((report FailReplayLate u64EventId (ud_u32IntervalIndex d)
            (ud_u32PacketIndex d) strHash ''Packet arrived after its disclosed-key safety deadline'')
          \<lparr>fr_strActualSourceIp := que_strActualSourceIp que\<rparr>)))))"

definition duplicateOfSlot :: "'g runtime_env \<Rightarrow> udp_data \<Rightarrow> string \<Rightarrow> packet_record \<Rightarrow> udp_data
    \<Rightarrow> (focus, unit) act" where
  "duplicateOfSlot env d strHash rec0 dStored =
     (let rec = rec0\<lparr>rec_u32DuplicateCount := rec_u32DuplicateCount rec0 + 1\<rparr> in
      thenA (updA (setRecord (unat (ud_u32PacketIndex d)) rec))
      (thenA (queueRecord env rec dStored ''Identical datagram received again'')
      (queueFailure env ((report FailReplayDuplicate (rec_u64ObservationEventId rec)
          (ud_u32IntervalIndex d) (ud_u32PacketIndex d) strHash
          ''Identical candidate datagram was received repeatedly'')
        \<lparr>fr_u32DuplicateCount := rec_u32DuplicateCount rec, fr_sevSeverity := SevWarning,
         fr_strActualSourceIp := rec_strActualSourceIp rec\<rparr>))))"

text \<open>The position of the first candidate with the hash.\<close>

fun findCandidate :: "string \<Rightarrow> candidate_record list \<Rightarrow> nat option" where
  "findCandidate strHash [] = None"
| "findCandidate strHash (c # cs) =
     (if cand_strCandidateHash c = strHash then Some 0 else map_option Suc (findCandidate strHash cs))"

definition countDuplicate :: "u32 \<Rightarrow> candidate_record list \<Rightarrow> nat \<Rightarrow> (focus, candidate_record) act" where
  "countDuplicate j cs n =
     (let c = (cs ! n)\<lparr>cand_u32DuplicateCount := cand_u32DuplicateCount (cs ! n) + 1\<rparr> in
      thenA (updA (setCandidates j (cs[n := c]))) (retA c))"

definition newCandidate :: "queued_datagram \<Rightarrow> udp_data \<Rightarrow> u64 \<Rightarrow> string \<Rightarrow> candidate_record" where
  "newCandidate que d u64EventId strHash =
     \<lparr>cand_udpPacket = d, cand_vecRawDatagram = que_vecDatagram que,
      cand_u64ReceiveTimestampMilliseconds = que_u64ReceiveTimestampMilliseconds que,
      cand_u64ObservationEventId = u64EventId, cand_strCandidateHash = strHash,
      cand_u32DuplicateCount = 1, cand_statusPacket = StatusPending,
      cand_strActualSourceIp = que_strActualSourceIp que, cand_typeSource = que_typeSource que\<rparr>"

text \<open>A datagram for a slot that holds a different one.\<close>

definition conflictingCandidate :: "'g runtime_env \<Rightarrow> queued_datagram \<Rightarrow> udp_data \<Rightarrow> string \<Rightarrow> (focus, unit) act"
where
  "conflictingCandidate env que d strHash =
     (let i = ud_u32IntervalIndex d; j = ud_u32PacketIndex d in
      bindA (rsA (\<lambda>rs. candidatesOf rs j)) (\<lambda>cs.
      case findCandidate strHash cs of
        Some n \<Rightarrow> bindA (countDuplicate j cs n) (\<lambda>c.
          thenA (queueCandidate env c AuthFailed ''Conflicting candidate duplicate received'')
          (queueFailure env ((report FailReplayDuplicate (cand_u64ObservationEventId c) i j strHash
              ''Identical conflicting candidate was received repeatedly'')
            \<lparr>fr_u32DuplicateCount := cand_u32DuplicateCount c, fr_sevSeverity := SevWarning,
             fr_strActualSourceIp := cand_strActualSourceIp c\<rparr>)))
      | None \<Rightarrow>
          if length cs + 1 \<ge> MAX_CANDIDATE_VERSIONS_PER_PACKET
          then queueFailure env (report FailTamperedVariant 0 i j strHash
            ''Per-packet candidate version limit reached'')
          else bindA nextObservationEventId (\<lambda>u64EventId.
            thenA (updA (setCandidates j (cs @ [newCandidate que d u64EventId strHash])))
            (thenA (queueDatagram env que (UdpData d) u64EventId AuthPending
               ''Conflicting candidate retained without replacing the baseline'')
            (queueFailure env (report FailTamperedVariant u64EventId i j strHash
               ''Same sender, chain and packet index carried a different datagram''))))))"

text \<open>An attack copy for an empty slot: it must not take the place of the sender's packet.\<close>

definition earlyAttack :: "'g runtime_env \<Rightarrow> queued_datagram \<Rightarrow> udp_data \<Rightarrow> string \<Rightarrow> (focus, unit) act" where
  "earlyAttack env que d strHash =
     (let i = ud_u32IntervalIndex d; j = ud_u32PacketIndex d in
      bindA (rsA (\<lambda>rs. candidatesOf rs j)) (\<lambda>cs.
      case findCandidate strHash cs of
        Some n \<Rightarrow> bindA (countDuplicate j cs n) (\<lambda>c.
          queueCandidate env c (statusMap (cand_statusPacket c)) ''Early attack candidate duplicate received'')
      | None \<Rightarrow>
          if length cs + 1 \<ge> MAX_CANDIDATE_VERSIONS_PER_PACKET
          then queueFailure env (report FailTamperedVariant 0 i j strHash
            ''Attack candidate arrived before baseline and hit the version limit'')
          else bindA nextObservationEventId (\<lambda>u64EventId.
            thenA (updA (setCandidates j (cs @ [newCandidate que d u64EventId strHash])))
            (queueDatagram env que (UdpData d) u64EventId AuthPending
               ''Attack candidate retained while waiting for normal baseline''))))"

definition newRecord :: "queued_datagram \<Rightarrow> udp_data \<Rightarrow> u64 \<Rightarrow> string \<Rightarrow> packet_record" where
  "newRecord que d u64EventId strHash =
     \<lparr>rec_optPacket = Some d, rec_statusPacket = StatusPending,
      rec_vecRawDatagram = que_vecDatagram que,
      rec_u64ReceiveTimestampMilliseconds = que_u64ReceiveTimestampMilliseconds que,
      rec_u64ObservationEventId = u64EventId, rec_strCandidateHash = strHash,
      rec_u32DuplicateCount = 1, rec_strActualSourceIp = que_strActualSourceIp que,
      rec_typeSource = que_typeSource que\<rparr>"

text \<open>What follows the writing of the slot: the count, the report and the key it carries.\<close>

definition packetStored :: "'g runtime_env \<Rightarrow> packet_record \<Rightarrow> udp_data \<Rightarrow> (focus, runtime_result list) act"
where
  "packetStored env rec d =
     thenA (updA (\<lambda>rs. rs\<lparr>rs_u32ReceivedPacketCount := rs_u32ReceivedPacketCount rs + 1\<rparr>))
     (thenA (queueRecord env rec d ''Waiting for disclosed key'')
     (case ud_optDisclosedKey d of
        None \<Rightarrow> retA []
      | Some digKey \<Rightarrow>
          bindA (processDisclosedKey env (ud_u32IntervalIndex d) digKey) (\<lambda>(_, vecResults).
            retA vecResults)))"

definition storePacket :: "'g runtime_env \<Rightarrow> queued_datagram \<Rightarrow> udp_data \<Rightarrow> string
    \<Rightarrow> (focus, runtime_result list) act" where
  "storePacket env que d strHash =
     bindA nextObservationEventId (\<lambda>u64EventId.
     let rec = newRecord que d u64EventId strHash in
     thenA (updA (setRecord (unat (ud_u32PacketIndex d)) rec)) (packetStored env rec d))"

definition processData :: "'g runtime_env \<Rightarrow> queued_datagram \<Rightarrow> udp_data \<Rightarrow> (focus, runtime_result list) act"
where
  "processData env que d =
     bindA (rsA id) (\<lambda>rs.
     if \<not> bIsPacketTimeSafe rs (ud_u32IntervalIndex d) (que_u64ReceiveTimestampMilliseconds que)
     then thenA (rejectLate env que d) (retA [])
     else bindA (liftA (strCandidateHash (env_ssl env) (que_vecDatagram que))) (\<lambda>strHash.
       let rec = recordAt rs (ud_u32PacketIndex d) in
       case rec_optPacket rec of
         Some dStored \<Rightarrow>
           thenA (if rec_strCandidateHash rec = strHash then duplicateOfSlot env d strHash rec dStored
                  else conflictingCandidate env que d strHash) (retA [])
       | None \<Rightarrow>
           if que_typeSource que = AttackInjection
           then thenA (earlyAttack env que d strHash) (retA [])
           else storePacket env que d strHash))"

definition processDatagram :: "'g runtime_env \<Rightarrow> queued_datagram \<Rightarrow> (focus, runtime_result list) act" where
  "processDatagram env que =
     bindA (rsA id) (\<lambda>rs.
     if \<not> rs_bActive rs \<or> rs_bResultReported rs then retA []
     else bindA (liftA (ctxCreatePacketContext (rs_prm rs))) (\<lambda>ctx.
       bindA (liftA (udp_resDecode (que_vecDatagram que) ctx)) (\<lambda>resPacket.
       case resPacket of
         Inl _ \<Rightarrow>
           thenA (updA setIncomplete)
           (thenA (queueFailure env ((report FailProtocolError 0 0 0 []
                ''UDP authentication payload failed context-aware decoding'')
              \<lparr>fr_strActualSourceIp := que_strActualSourceIp que\<rparr>))
           (retA []))
       | Inr (UdpDisclosure d) \<Rightarrow> processDisclosure env que d
       | Inr (UdpData d) \<Rightarrow> processData env que d)))"

end
