(* ===== verification/ReceiverRuntime.thy ===== *)
theory ReceiverRuntime
  imports ReceiverProcess "HOL-Library.List_Lexorder" "HOL-Library.Char_ord" "HOL-Library.Product_Lexorder"
begin

text \<open>
  The receiver runtime, last part: the object with its receivers, its bounded queue and its public
  operations. The operations run under one mutex, so each is one step; \<open>workerStep\<close> is one turn of
  the worker's loop, which takes at most one datagram. \<open>m_mapStates\<close> is a \<open>std::map\<close>, iterated in
  the order of its keys: an association list sorted by them. What a step hands to the callbacks is
  its returned value. A throw out of \<open>workerStep\<close> leaves the thread's function and ends the
  process, as does one out of \<open>stop\<close>, which is \<open>noexcept\<close>.
\<close>

section \<open>Members\<close>

record attack_source_mapping =
  asm_strRoundId :: string
  asm_strTargetSenderId :: string
  asm_strTargetSenderIp :: string
  asm_strAttackSourceIp :: string
  asm_u64ChainId :: u64
  asm_u64ExpiresAtMilliseconds :: u64

record receiver_runtime =
  rt_mapStates :: "(ctx_key \<times> receiver_state) list"
  rt_mapAttackSourceMappings :: "ctx_key \<rightharpoonup> attack_source_mapping"
  rt_deqDatagrams :: "queued_datagram list"
  rt_monitor :: monitor
  rt_strRoundId :: string
  rt_nDroppedQueueDatagramCount :: nat
  rt_u64DosWindowStartMilliseconds :: u64
  rt_u64InvalidWindowCount :: u64
  rt_u64RateLimitedWindowCount :: u64
  rt_u64LegitimateWindowCount :: u64
  rt_u64QueueOverflowWindowCount :: u64
  rt_u32DetailedInvalidWindowCount :: u32
  rt_bConfigured :: bool
  rt_bRunning :: bool
  rt_bPaused :: bool

text \<open>Event ids start at \<open>1ULL << 40U\<close>.\<close>

definition new_receiver_runtime :: receiver_runtime where
  "new_receiver_runtime =
     \<lparr>rt_mapStates = [], rt_mapAttackSourceMappings = Map.empty, rt_deqDatagrams = [],
      rt_monitor = \<lparr>mon_vecPendingObservations = [], mon_u64NextObservationEventId = 0x10000000000\<rparr>,
      rt_strRoundId = [], rt_nDroppedQueueDatagramCount = 0, rt_u64DosWindowStartMilliseconds = 0,
      rt_u64InvalidWindowCount = 0, rt_u64RateLimitedWindowCount = 0,
      rt_u64LegitimateWindowCount = 0, rt_u64QueueOverflowWindowCount = 0,
      rt_u32DetailedInvalidWindowCount = 0, rt_bConfigured = False, rt_bRunning = False,
      rt_bPaused = False\<rparr>"

definition mapStates :: "(receiver_state \<Rightarrow> receiver_state) \<Rightarrow> receiver_runtime \<Rightarrow> receiver_runtime" where
  "mapStates f rt = rt\<lparr>rt_mapStates := map (apsnd f) (rt_mapStates rt)\<rparr>"

definition setState :: "ctx_key \<Rightarrow> receiver_state \<Rightarrow> receiver_runtime \<Rightarrow> receiver_runtime" where
  "setState k rs rt = rt\<lparr>rt_mapStates :=
     map (\<lambda>(k', rs'). (k', if k' = k then rs else rs')) (rt_mapStates rt)\<rparr>"

definition findState :: "receiver_runtime \<Rightarrow> ctx_key \<Rightarrow> receiver_state option" where
  "findState rt k = map_of (rt_mapStates rt) k"

text \<open>An operation on the receiver of a key; nothing when there is none.\<close>

definition onReceiver :: "ctx_key \<Rightarrow> 'a \<Rightarrow> (focus, 'a) act \<Rightarrow> (receiver_runtime, 'a) act" where
  "onReceiver k none m rt =
     (case findState rt k of
        None \<Rightarrow> (Inr none, rt)
      | Some rs \<Rightarrow> (case m (rs, rt_monitor rt) of
          (r, rs', mon) \<Rightarrow> (r, setState k rs' (rt\<lparr>rt_monitor := mon\<rparr>))))"

section \<open>stop\<close>

fun stopResults :: "(ctx_key \<times> receiver_state) list
    \<Rightarrow> runtime_result list result \<times> (ctx_key \<times> receiver_state) list" where
  "stopResults [] = (Inr [], [])"
| "stopResults ((k, rs) # states) =
     (if rs_bActive rs \<and> \<not> rs_bResultReported rs
      then case resCreateResult rs Stopped ''Receiver round stopped'' of
          Inl e \<Rightarrow> (Inl e, (k, rs) # states)
        | Inr res \<Rightarrow> (case stopResults states of (r, states') \<Rightarrow>
            (andThen r (\<lambda>vec. Inr (res # vec)), (k, rs\<lparr>rs_bResultReported := True\<rparr>) # states'))
      else case stopResults states of (r, states') \<Rightarrow> (r, (k, rs) # states'))"

definition stopRuntime :: "bool \<Rightarrow> (receiver_runtime, runtime_result list) act" where
  "stopRuntime bReportResults rt =
     (case (if bReportResults then stopResults (rt_mapStates rt) else (Inr [], rt_mapStates rt)) of
        (Inl e, states) \<Rightarrow> (Inl e, rt\<lparr>rt_mapStates := states\<rparr>)
      | (Inr vecResults, states) \<Rightarrow>
          (Inr vecResults,
           mapStates (\<lambda>rs. rs\<lparr>rs_bActive := False, rs_bPaused := False\<rparr>) (rt\<lparr>rt_mapStates := states\<rparr>)
             \<lparr>rt_bRunning := False, rt_bPaused := False, rt_deqDatagrams := [],
              rt_mapAttackSourceMappings := Map.empty\<rparr>))"

section \<open>configure\<close>

text \<open>\<open>std::map::emplace\<close>; \<open>None\<close> when the key is there.\<close>

fun mapEmplace :: "ctx_key \<Rightarrow> 'v \<Rightarrow> (ctx_key \<times> 'v) list \<Rightarrow> (ctx_key \<times> 'v) list option" where
  "mapEmplace k v [] = Some [(k, v)]"
| "mapEmplace k v ((k', v') # m) =
     (if k = k' then None
      else if k < k' then Some ((k, v) # (k', v') # m)
      else map_option (Cons (k', v')) (mapEmplace k v m))"

definition addReceiver :: "receiver_context
    \<Rightarrow> (ctx_key \<times> receiver_state) list \<times> (string \<rightharpoonup> string)
    \<Rightarrow> ((ctx_key \<times> receiver_state) list \<times> (string \<rightharpoonup> string)) result" where
  "addReceiver ctx = (\<lambda>(mapCandidate, mapSenderByIp).
     if prm_u32TotalPacketCount (rcv_prmRoundParameters ctx) > MAX_AUTHENTICATION_PACKET_COUNT
     then Inl (InvalidArgument ''Receiver packet count exceeds the bounded runtime'')
     else case emplace (rcv_strSenderIpAddress ctx) (rcv_strSenderId ctx) mapSenderByIp of
       (mapSenderByIp', strSenderId, bInserted) \<Rightarrow>
         if \<not> bInserted \<and> strSenderId \<noteq> rcv_strSenderId ctx
         then Inl (InvalidArgument ''Receiver contexts map one source IP to multiple senders'')
         else case mapEmplace (rcv_strSenderIpAddress ctx, rcv_u64ChainId ctx) (mkReceiverState ctx)
             mapCandidate of
           None \<Rightarrow> Inl (InvalidArgument ''Receiver context key is duplicated'')
         | Some mapCandidate' \<Rightarrow> Inr (mapCandidate', mapSenderByIp'))"

definition configure :: "receiver_context list \<Rightarrow> (receiver_runtime, unit) act" where
  "configure vecContexts =
     bindA (stopRuntime False) (\<lambda>_.
     bindA (liftA (foldE addReceiver vecContexts ([], Map.empty))) (\<lambda>(mapCandidate, _).
       if mapCandidate = []
       then throwA (InvalidArgument ''Receiver runtime requires at least one context'')
       else modifyA (\<lambda>rt. rt\<lparr>rt_mapStates := mapCandidate, rt_deqDatagrams := [],
         rt_bConfigured := True\<rparr>)))"

section \<open>start, requestPause, resume\<close>

definition startReceiver :: "string \<Rightarrow> u64 \<Rightarrow> u32 \<Rightarrow> receiver_state \<Rightarrow> receiver_state" where
  "startReceiver strRoundId u64Start u32Tolerance rs =
     rs\<lparr>rs_strRoundId := strRoundId,
        rs_vecPacketRecords :=
          replicate (unat (prm_u32TotalPacketCount (rs_prm rs)) + 1) empty_record,
        rs_mapAdditionalCandidates := Map.empty, rs_mapDisclosedKeys := Map.empty,
        rs_setVerifiedIntervals := {},
        rs_vecTimeline := [\<lparr>seg_u32FirstLogicalInterval = 1, seg_u64StartTimestampMilliseconds = u64Start\<rparr>],
        rs_optPauseAfterInterval := None, rs_u64PauseTimestampMilliseconds := 0,
        rs_u32ClockToleranceMilliseconds := u32Tolerance, rs_u32ReceivedPacketCount := 0,
        rs_bActive := True, rs_bPaused := False, rs_bProtocolIncomplete := False,
        rs_bResultReported := False\<rparr>"

definition startRuntime :: "'g runtime_env \<Rightarrow> string \<Rightarrow> u64 \<Rightarrow> u32 \<Rightarrow> (receiver_runtime, unit) act" where
  "startRuntime env strRoundId u64Start u32Tolerance =
     (if strRoundId = [] \<or> u64Start = 0 \<or> u64Start \<le> env_u64Now env + 100 \<or> u32Tolerance = 0
      then throwA (InvalidArgument ''Receiver start schedule is invalid'')
      else bindA (getA rt_bConfigured) (\<lambda>bConfigured.
        if \<not> bConfigured then throwA (LogicError ''Receiver runtime is not configured'')
        else modifyA (\<lambda>rt. mapStates (startReceiver strRoundId u64Start u32Tolerance) rt
          \<lparr>rt_strRoundId := strRoundId, rt_bRunning := True, rt_bPaused := False\<rparr>)))"

definition validateActiveRound :: "string \<Rightarrow> (receiver_runtime, unit) act" where
  "validateActiveRound strRoundId =
     bindA (getA (\<lambda>rt. rt_bRunning rt \<and> rt_strRoundId rt = strRoundId)) (\<lambda>bActive.
       if bActive then retA () else throwA (LogicError ''Receiver round is not active''))"

definition u32LastLogicalInterval :: "round_parameters \<Rightarrow> u32" where
  "u32LastLogicalInterval prm = of_nat (prm_nDataIntervalCount prm) + prm_u32DisclosureDelay prm"

text \<open>The loops over the receivers: what is done before a throw stays done.\<close>

fun forStates :: "(receiver_state \<Rightarrow> receiver_state result) \<Rightarrow> (ctx_key \<times> receiver_state) list
    \<Rightarrow> unit result \<times> (ctx_key \<times> receiver_state) list" where
  "forStates f [] = (Inr (), [])"
| "forStates f ((k, rs) # states) =
     (case f rs of
        Inl e \<Rightarrow> (Inl e, (k, rs) # states)
      | Inr rs' \<Rightarrow> (case forStates f states of (r, states') \<Rightarrow> (r, (k, rs') # states')))"

definition statesA :: "(receiver_state \<Rightarrow> receiver_state result) \<Rightarrow> (receiver_runtime, unit) act" where
  "statesA f rt = (case forStates f (rt_mapStates rt) of (r, states) \<Rightarrow> (r, rt\<lparr>rt_mapStates := states\<rparr>))"

definition pauseReceiver :: "u32 \<Rightarrow> u64 \<Rightarrow> receiver_state \<Rightarrow> receiver_state result" where
  "pauseReceiver u32PauseAfter u64Pause rs =
     (if \<not> rs_bActive rs then Inr rs
      else if u32PauseAfter \<ge> u32LastLogicalInterval (rs_prm rs)
      then Inl (InvalidArgument ''Receiver pause boundary is outside the active round'')
      else Inr (rs\<lparr>rs_optPauseAfterInterval := Some u32PauseAfter,
                  rs_u64PauseTimestampMilliseconds := u64Pause\<rparr>))"

definition requestPause :: "'g runtime_env \<Rightarrow> string \<Rightarrow> u32 \<Rightarrow> u64 \<Rightarrow> (receiver_runtime, unit) act" where
  "requestPause env strRoundId u32PauseAfter u64Pause =
     thenA (validateActiveRound strRoundId)
      (if u32PauseAfter = 0 \<or> u64Pause \<le> env_u64Now env
       then throwA (InvalidArgument ''Receiver pause schedule is invalid'')
       else statesA (pauseReceiver u32PauseAfter u64Pause))"

definition resumeReceiver :: "u64 \<Rightarrow> u32 \<Rightarrow> u64 \<Rightarrow> receiver_state \<Rightarrow> receiver_state result" where
  "resumeReceiver u64Now u32ResumeInterval u64Resume rs =
     (if \<not> rs_bActive rs then Inr rs
      else if (case rs_optPauseAfterInterval rs of None \<Rightarrow> True | Some p \<Rightarrow> u32ResumeInterval \<noteq> p + 1)
         \<or> u64Resume \<le> rs_u64PauseTimestampMilliseconds rs \<or> u64Resume \<le> u64Now + 100
      then Inl (InvalidArgument ''Receiver resume interval does not follow the pause'')
      else Inr (rs\<lparr>rs_vecTimeline := rs_vecTimeline rs @
              [\<lparr>seg_u32FirstLogicalInterval = u32ResumeInterval,
                seg_u64StartTimestampMilliseconds = u64Resume\<rparr>],
            rs_bPaused := False\<rparr>))"

definition resume :: "'g runtime_env \<Rightarrow> string \<Rightarrow> u32 \<Rightarrow> u64 \<Rightarrow> (receiver_runtime, unit) act" where
  "resume env strRoundId u32ResumeInterval u64Resume =
     thenA (validateActiveRound strRoundId)
      (thenA (statesA (resumeReceiver (env_u64Now env) u32ResumeInterval u64Resume))
        (modifyA (\<lambda>rt. rt\<lparr>rt_bPaused := False\<rparr>)))"

section \<open>Attack source mappings\<close>

datatype AttackSourceMappingAction = InstallMapping | ClearMapping

record attack_source_mapping_control =
  asc_strRequestId :: string
  asc_strRoundId :: string
  asc_actAction :: AttackSourceMappingAction
  asc_strTargetSenderId :: string
  asc_strTargetSenderIp :: string
  asc_strAttackSourceIp :: string
  asc_u64ChainId :: u64
  asc_u64ExpiresAtMilliseconds :: u64

definition experimentText :: "string \<Rightarrow> string \<Rightarrow> unit result" where
  "experimentText strValue strName =
     (if strValue = [] \<or> length strValue > 1024
      then Inl (InvalidArgument (strName @ '' has an invalid length'')) else Inr ())"

definition mkAttackSourceMapping :: "attack_source_mapping_control \<Rightarrow> attack_source_mapping_control result" where
  "mkAttackSourceMapping asc =
     andThen (experimentText (asc_strRequestId asc) ''Attack source mapping request ID'') (\<lambda>_.
     andThen (experimentText (asc_strRoundId asc) ''Attack source mapping round ID'') (\<lambda>_.
     andThen (experimentText (asc_strTargetSenderId asc) ''Attack source mapping sender ID'') (\<lambda>_.
     andThen (experimentText (asc_strTargetSenderIp asc) ''Attack source mapping sender IP'') (\<lambda>_.
     andThen (experimentText (asc_strAttackSourceIp asc) ''Attack source mapping attacker IP'') (\<lambda>_.
       if asc_strTargetSenderIp asc = asc_strAttackSourceIp asc \<or> asc_u64ChainId asc = 0
       then Inl (InvalidArgument ''Attack source mapping identity is invalid'')
       else if asc_actAction asc = InstallMapping \<and> asc_u64ExpiresAtMilliseconds asc = 0
       then Inl (InvalidArgument ''Installed attack source mapping requires expiry'')
       else Inr asc)))))"

definition applyAttackSourceMapping :: "'g runtime_env \<Rightarrow> attack_source_mapping_control
    \<Rightarrow> (receiver_runtime, unit) act" where
  "applyAttackSourceMapping env det =
     bindA (getA id) (\<lambda>rt.
     let keyAttack = (asc_strAttackSourceIp det, asc_u64ChainId det) in
     if (case findState rt (asc_strTargetSenderIp det, asc_u64ChainId det) of
           None \<Rightarrow> True
         | Some rs \<Rightarrow> rcv_strSenderId (rs_ctxContext rs) \<noteq> asc_strTargetSenderId det)
     then throwA (InvalidArgument ''Attack source mapping target does not match a receiver context'')
     else if asc_actAction det = ClearMapping
     then modifyA (\<lambda>rt. rt\<lparr>rt_mapAttackSourceMappings := (rt_mapAttackSourceMappings rt)(keyAttack := None)\<rparr>)
     else if rt_bRunning rt \<or> asc_u64ExpiresAtMilliseconds det \<le> env_u64Now env
     then throwA (LogicError ''Attack source mapping must be installed before start with a future expiry'')
     else if rt_mapAttackSourceMappings rt keyAttack \<noteq> None
     then throwA (LogicError ''Only one attack source mapping may target a sender round'')
     else modifyA (\<lambda>rt. rt\<lparr>rt_mapAttackSourceMappings := (rt_mapAttackSourceMappings rt)(keyAttack \<mapsto>
         \<lparr>asm_strRoundId = asc_strRoundId det, asm_strTargetSenderId = asc_strTargetSenderId det,
          asm_strTargetSenderIp = asc_strTargetSenderIp det,
          asm_strAttackSourceIp = asc_strAttackSourceIp det, asm_u64ChainId = asc_u64ChainId det,
          asm_u64ExpiresAtMilliseconds = asc_u64ExpiresAtMilliseconds det\<rparr>)\<rparr>))"

definition clearAttackSourceMappings :: "(receiver_runtime, unit) act" where
  "clearAttackSourceMappings = modifyA (\<lambda>rt. rt\<lparr>rt_mapAttackSourceMappings := Map.empty\<rparr>)"

section \<open>bEnqueueDatagram\<close>

definition queueUnscopedFailure :: "'g runtime_env \<Rightarrow> AuthenticationFailureType \<Rightarrow> u64 \<Rightarrow> string \<Rightarrow> u64
    \<Rightarrow> string \<Rightarrow> (receiver_runtime, unit) act" where
  "queueUnscopedFailure env typeFailure u64Timestamp strActualSourceIp u64ChainId strReason =
     whenA (env_bObserve env)
      (bindA (getA (\<lambda>rt. mon_u64NextObservationEventId (rt_monitor rt))) (\<lambda>u64EventId.
       thenA (modifyA (\<lambda>rt. rt\<lparr>rt_monitor := (rt_monitor rt)
           \<lparr>mon_u64NextObservationEventId := u64EventId + 1\<rparr>\<rparr>))
       (bindA (liftA (mkPacketFailure
         \<lparr>pf_u64EventId = u64EventId, pf_u64PacketEventId = 0,
          pf_u64TimestampMilliseconds = u64Timestamp, pf_sevSeverity = SevWarning,
          pf_typeFailure = typeFailure, pf_strRoundId = [], pf_strSenderId = [], pf_strSenderIp = [],
          pf_strActualSourceIp = strActualSourceIp, pf_u64ChainId = u64ChainId,
          pf_u32IntervalIndex = 0, pf_u32PacketIndex = 0, pf_optGroupIndex = None,
          pf_strCandidateHash = [], pf_strReason = strReason, pf_strReceivedTagDigest = [],
          pf_strCalculatedTagDigest = [], pf_vecLocatedPacketIndexes = [], pf_u32DuplicateCount = 1\<rparr>))
        (\<lambda>pf. modifyA (\<lambda>rt. rt\<lparr>rt_monitor := (rt_monitor rt)\<lparr>mon_vecPendingObservations :=
            mon_vecPendingObservations (rt_monitor rt) @ [ObsFailure pf]\<rparr>\<rparr>)))))"

definition rejectDatagram :: "'g runtime_env \<Rightarrow> AuthenticationFailureType \<Rightarrow> u64 \<Rightarrow> string \<Rightarrow> u64 \<Rightarrow> string
    \<Rightarrow> (receiver_runtime, bool) act" where
  "rejectDatagram env typeFailure u64Timestamp strSourceIp u64ChainId strReason =
     thenA (modifyA (\<lambda>rt. rt\<lparr>rt_u64InvalidWindowCount := rt_u64InvalidWindowCount rt + 1\<rparr>))
     (bindA (getA rt_u32DetailedInvalidWindowCount) (\<lambda>u32Detailed.
      thenA
       (if u32Detailed < 16
        then thenA (modifyA (\<lambda>rt. rt\<lparr>rt_u32DetailedInvalidWindowCount := u32Detailed + 1\<rparr>))
          (queueUnscopedFailure env typeFailure u64Timestamp strSourceIp u64ChainId strReason)
        else modifyA (\<lambda>rt. rt\<lparr>rt_u64RateLimitedWindowCount := rt_u64RateLimitedWindowCount rt + 1\<rparr>))
       (retA False)))"

text \<open>The receiver a source is mapped to: its own, or the one its attack mapping targets.\<close>

definition routeDatagram :: "receiver_runtime \<Rightarrow> ctx_key \<Rightarrow> u64 \<Rightarrow> ctx_key \<times> PacketSourceType" where
  "routeDatagram rt keyContext u64Timestamp =
     (case findState rt keyContext of
        Some _ \<Rightarrow> (keyContext, NormalSender)
      | None \<Rightarrow> (case rt_mapAttackSourceMappings rt keyContext of
          None \<Rightarrow> (keyContext, NormalSender)
        | Some mapping \<Rightarrow>
            if asm_strRoundId mapping = rt_strRoundId rt
               \<and> asm_u64ExpiresAtMilliseconds mapping \<ge> u64Timestamp
            then ((asm_strTargetSenderIp mapping, asm_u64ChainId mapping), AttackInjection)
            else (keyContext, NormalSender)))"

definition bEnqueueDatagram :: "'g runtime_env \<Rightarrow> string \<Rightarrow> byte list \<Rightarrow> u64 \<Rightarrow> (receiver_runtime, bool) act"
where
  "bEnqueueDatagram env strSourceIp vecDatagram u64Timestamp =
     (case udp_resDecodeHeader vecDatagram of
        Inl err \<Rightarrow> rejectDatagram env FailProtocolError u64Timestamp strSourceIp 0 (m_strMessage err)
      | Inr hdr \<Rightarrow>
          bindA (getA id) (\<lambda>rt.
          case routeDatagram rt (strSourceIp, hdr_u64ChainId hdr) u64Timestamp of (keyContext, source) \<Rightarrow>
          if \<not> rt_bRunning rt \<or> (case findState rt keyContext of None \<Rightarrow> True | Some rs \<Rightarrow> \<not> rs_bActive rs)
          then rejectDatagram env FailUnknownContext u64Timestamp strSourceIp (hdr_u64ChainId hdr)
            ''UDP source and chain ID do not match an active trusted context''
          else if length (rt_deqDatagrams rt) \<ge> MAX_QUEUED_DATAGRAMS
          then thenA (modifyA (\<lambda>rt.
              rt\<lparr>rt_nDroppedQueueDatagramCount := rt_nDroppedQueueDatagramCount rt + 1,
                 rt_u64RateLimitedWindowCount := rt_u64RateLimitedWindowCount rt + 1,
                 rt_u64QueueOverflowWindowCount := rt_u64QueueOverflowWindowCount rt + 1\<rparr>)) (retA False)
          else thenA (modifyA (\<lambda>rt.
              rt\<lparr>rt_deqDatagrams := rt_deqDatagrams rt @
                   [\<lparr>que_keyContext = keyContext, que_vecDatagram = vecDatagram,
                     que_u64ReceiveTimestampMilliseconds = u64Timestamp,
                     que_strActualSourceIp = strSourceIp, que_typeSource = source\<rparr>],
                 rt_u64LegitimateWindowCount := rt_u64LegitimateWindowCount rt + 1\<rparr>)) (retA True)))"

definition rt_resFindContext :: "receiver_runtime \<Rightarrow> string \<Rightarrow> u64 \<Rightarrow> lookup_error + receiver_context" where
  "rt_resFindContext rt strSourceIp u64ChainId =
     (case findState rt (strSourceIp, u64ChainId) of
        Some rs \<Rightarrow> Inr (rs_ctxContext rs)
      | None \<Rightarrow> if list_ex (\<lambda>((ip, _), _). ip = strSourceIp) (rt_mapStates rt)
          then Inl UnknownChainId else Inl UnknownSourceIp)"

section \<open>The worker\<close>

definition updateGlobalRunning :: "(receiver_runtime, unit) act" where
  "updateGlobalRunning =
     modifyA (\<lambda>rt. rt\<lparr>rt_bRunning := list_ex (\<lambda>(_, rs). rs_bActive rs) (rt_mapStates rt)\<rparr>)"

definition checkPaused :: "'g runtime_env \<Rightarrow> receiver_state \<Rightarrow> bool" where
  "checkPaused env rs =
     (case rs_optPauseAfterInterval rs of
        None \<Rightarrow> False
      | Some p \<Rightarrow> seg_u32FirstLogicalInterval (last (rs_vecTimeline rs)) \<le> p
          \<and> env_u64Now env \<ge> rs_u64PauseTimestampMilliseconds rs)"

definition bTimedOut :: "'g runtime_env \<Rightarrow> receiver_state \<Rightarrow> bool" where
  "bTimedOut env rs =
     (case optIntervalStartTimestamp rs (u32LastLogicalInterval (rs_prm rs)) of
        None \<Rightarrow> False
      | Some u64LastStart \<Rightarrow> env_u64Now env > u64LastStart
          + ucast (prm_u32IntervalMilliseconds (rs_prm rs)) + ucast (rs_u32ClockToleranceMilliseconds rs))"

text \<open>The turn of the loop for one receiver: whether it is paused now, and its timeout result.\<close>

definition checkReceiver :: "'g runtime_env \<Rightarrow> (focus, bool \<times> runtime_result list) act" where
  "checkReceiver env =
     bindA (rsA id) (\<lambda>rs.
     if \<not> rs_bActive rs \<or> rs_bResultReported rs then retA (False, [])
     else
       let bPausedNow = checkPaused env rs in
       thenA (whenA bPausedNow (updA (\<lambda>rs. rs\<lparr>rs_bPaused := True\<rparr>)))
       (if \<not> bTimedOut env rs then retA (bPausedNow, [])
        else thenA (queueMissingPacketFailures env)
          (thenA (updA (\<lambda>rs. rs\<lparr>rs_bActive := False, rs_bResultReported := True\<rparr>))
          (bindA (rsA id) (\<lambda>rs.
           bindA (liftA (resCreateResult rs VerificationTimeout
             ''Receiver timed out waiting for the final disclosed key'')) (\<lambda>res.
             retA (bPausedNow, [res])))))))"

fun checkReceivers :: "'g runtime_env \<Rightarrow> ctx_key list \<Rightarrow> (receiver_runtime, bool \<times> runtime_result list) act"
where
  "checkReceivers env [] = retA (False, [])"
| "checkReceivers env (k # ks) =
     bindA (onReceiver k (False, []) (checkReceiver env)) (\<lambda>(bPaused, vec).
     bindA (checkReceivers env ks) (\<lambda>(bPaused', vec').
       retA (bPaused \<or> bPaused', vec @ vec')))"

definition checkPauseAndTimeouts :: "'g runtime_env \<Rightarrow> (receiver_runtime, runtime_result list) act" where
  "checkPauseAndTimeouts env =
     bindA (getA (\<lambda>rt. map fst (rt_mapStates rt))) (\<lambda>keys.
     bindA (checkReceivers env keys) (\<lambda>(bAnyPaused, vecResults).
     thenA (modifyA (\<lambda>rt. rt\<lparr>rt_bPaused := bAnyPaused\<rparr>))
     (thenA updateGlobalRunning (retA vecResults))))"

definition DOS_WINDOW_MILLISECONDS :: u32 where "DOS_WINDOW_MILLISECONDS = 1000"

definition queueDosSummaryIfDue :: "'g runtime_env \<Rightarrow> (receiver_runtime, unit) act" where
  "queueDosSummaryIfDue env =
     bindA (getA id) (\<lambda>rt.
     if rt_u64DosWindowStartMilliseconds rt = 0
     then modifyA (\<lambda>rt. rt\<lparr>rt_u64DosWindowStartMilliseconds := env_u64Now env\<rparr>)
     else if env_u64Now env - rt_u64DosWindowStartMilliseconds rt < ucast DOS_WINDOW_MILLISECONDS
     then retA ()
     else thenA (whenA (env_bObserve env \<and> (rt_u64InvalidWindowCount rt > 0
           \<or> rt_u64RateLimitedWindowCount rt > 0 \<or> rt_u64LegitimateWindowCount rt > 0
           \<or> rt_u64QueueOverflowWindowCount rt > 0))
         (bindA (liftA (mkDosSummary
            \<lparr>ds_u64TimestampMilliseconds = env_u64Now env,
             ds_u32WindowMilliseconds = DOS_WINDOW_MILLISECONDS,
             ds_u64InvalidPacketCount = rt_u64InvalidWindowCount rt,
             ds_u64RateLimitedDropCount = rt_u64RateLimitedWindowCount rt,
             ds_u64LegitimatePacketCount = rt_u64LegitimateWindowCount rt,
             ds_u64ReceiveQueueOverflowCount = rt_u64QueueOverflowWindowCount rt\<rparr>))
           (\<lambda>ds. modifyA (\<lambda>rt. rt\<lparr>rt_monitor := (rt_monitor rt)\<lparr>mon_vecPendingObservations :=
              mon_vecPendingObservations (rt_monitor rt) @ [ObsDosSummary ds]\<rparr>\<rparr>))))
       (modifyA (\<lambda>rt. rt\<lparr>rt_u64DosWindowStartMilliseconds := env_u64Now env,
          rt_u64InvalidWindowCount := 0, rt_u64RateLimitedWindowCount := 0,
          rt_u64LegitimateWindowCount := 0, rt_u64QueueOverflowWindowCount := 0,
          rt_u32DetailedInvalidWindowCount := 0\<rparr>)))"

definition takeDatagram :: "'g runtime_env \<Rightarrow> (receiver_runtime, runtime_result list) act" where
  "takeDatagram env =
     bindA (getA rt_deqDatagrams) (\<lambda>deq.
     case deq of
       [] \<Rightarrow> retA []
     | que # deq' \<Rightarrow>
       thenA (modifyA (\<lambda>rt. rt\<lparr>rt_deqDatagrams := deq'\<rparr>))
       (bindA (onReceiver (que_keyContext que) [] (processDatagram env que)) (\<lambda>vecResults.
        thenA (whenA (vecResults \<noteq> []) updateGlobalRunning) (retA vecResults))))"

text \<open>One turn: the observations and the results handed to the callbacks.\<close>

definition workerStep :: "'g runtime_env \<Rightarrow> (receiver_runtime, observation list \<times> runtime_result list) act"
where
  "workerStep env =
     bindA (takeDatagram env) (\<lambda>vecFromDatagram.
     bindA (checkPauseAndTimeouts env) (\<lambda>vecTimeouts.
     thenA (queueDosSummaryIfDue env)
     (bindA (getA (\<lambda>rt. mon_vecPendingObservations (rt_monitor rt))) (\<lambda>vecObservations.
      thenA (modifyA (\<lambda>rt. rt\<lparr>rt_monitor := (rt_monitor rt)\<lparr>mon_vecPendingObservations := []\<rparr>\<rparr>))
        (retA (if env_bObserve env then vecObservations else [], vecFromDatagram @ vecTimeouts))))))"

section \<open>The object as a machine\<close>

datatype runtime_op =
    RtConfigure "receiver_context list"
  | RtStart string u64 u32
  | RtRequestPause string u32 u64
  | RtResume string u32 u64
  | RtStop
  | RtApplyMapping attack_source_mapping_control
  | RtClearMappings
  | RtEnqueue string "byte list" u64
  | RtWork

text \<open>What an operation hands out: the results it reports.\<close>

fun runtime_step :: "'g runtime_env \<Rightarrow> runtime_op \<Rightarrow> (receiver_runtime, runtime_result list) act" where
  "runtime_step env (RtConfigure vecContexts) = thenA (configure vecContexts) (retA [])"
| "runtime_step env (RtStart r t c) = thenA (startRuntime env r t c) (retA [])"
| "runtime_step env (RtRequestPause r i t) = thenA (requestPause env r i t) (retA [])"
| "runtime_step env (RtResume r i t) = thenA (resume env r i t) (retA [])"
| "runtime_step env RtStop = stopRuntime True"
| "runtime_step env (RtApplyMapping det) = thenA (applyAttackSourceMapping env det) (retA [])"
| "runtime_step env RtClearMappings = thenA clearAttackSourceMappings (retA [])"
| "runtime_step env (RtEnqueue ip xs t) = thenA (bEnqueueDatagram env ip xs t) (retA [])"
| "runtime_step env RtWork = bindA (workerStep env) (\<lambda>(_, vecResults). retA vecResults)"

end
