(* ===== verification/ReceiverFrames.thy ===== *)
theory ReceiverFrames
  imports ReceiverRuntime
begin

text \<open>
  Which members of a receiver the parts of the runtime leave alone: reporting changes none,
  writing verdicts changes no packet and no key, and the slots an interval's verification writes
  are the interval's own.
\<close>

section \<open>Reporting\<close>

definition leaves :: "(receiver_state \<Rightarrow> 'b) \<Rightarrow> (focus, 'a) act \<Rightarrow> bool" where
  "leaves f m \<longleftrightarrow> (\<forall>s. f (fst (snd (m s))) = f (fst s))"

lemma leavesD: "leaves f m \<Longrightarrow> f (fst (snd (m s))) = f (fst s)"
  unfolding leaves_def by blast

lemma leaves_run: "leaves f m \<Longrightarrow> m s = (r, t) \<Longrightarrow> f (fst t) = f (fst s)"
  using leavesD [of f m s] by simp

lemma fst_updA [simp]: "fst (snd (updA f s)) = f (fst s)"
  by (simp add: updA_def act_run split: prod.splits)

lemma fst_pushObservation [simp]: "fst (snd (pushObservation ob s)) = fst s"
  by (simp add: pushObservation_def act_run split: prod.splits)

lemma fst_rsA [simp]: "snd (rsA f s) = s" "fst (rsA f s) = Inr (f (fst s))"
  by (simp_all add: rsA_def act_run split: prod.splits)

lemma rsA_run [act_simps]: "rsA f s = (Inr (f (fst s)), s)"
  by (simp add: rsA_def act_run split: prod.splits)

lemma bind_rsA [act_simps]: "bindA (rsA f) g s = g (f (fst s)) s"
  by (simp add: bindA_def rsA_run)

lemma updA_run [act_simps]: "updA f s = (Inr (), (f (fst s), snd s))"
  by (simp add: updA_def act_run split: prod.splits)

lemma then_updA [act_simps]: "thenA (updA f) n s = n (f (fst s), snd s)"
  by (simp add: thenA_def bindA_def updA_run)

lemma fst_nextObservationEventId [simp]: "fst (snd (nextObservationEventId s)) = fst s"
  by (cases s) (simp add: nextObservationEventId_def thenA_def bindA_def act_run)

text \<open>Frames compose.\<close>

lemma leaves_intros:
  "leaves f (retA x)" "leaves f (throwA e)" "leaves f (liftA r)" "leaves f (rsA g)"
  "leaves f nextObservationEventId" "leaves f (pushObservation ob)"
  by (simp_all add: leaves_def act_run rsA_run)

lemma leaves_bind: "leaves f m \<Longrightarrow> (\<And>x. leaves f (g x)) \<Longrightarrow> leaves f (bindA m g)"
  using frame.bind [of "\<lambda>s. f (fst s)"] unfolding leaves_def by metis

lemma leaves_then: "leaves f m \<Longrightarrow> leaves f n \<Longrightarrow> leaves f (thenA m n)"
  unfolding thenA_def by (rule leaves_bind) auto

lemma leaves_when: "(b \<Longrightarrow> leaves f m) \<Longrightarrow> leaves f (whenA b m)"
  by (simp add: whenA_def leaves_intros)

lemma leaves_catch: "leaves f m \<Longrightarrow> leaves f n \<Longrightarrow> leaves f (catchA m n)"
  using frame.catch [of "\<lambda>s. f (fst s)"] unfolding leaves_def by metis

lemma leaves_for: "(\<And>x. x \<in> set xs \<Longrightarrow> leaves f (g x)) \<Longrightarrow> leaves f (forA g xs)"
  using frame.for_loop [of xs "\<lambda>s. f (fst s)" g] unfolding leaves_def by metis

lemma leaves_upd: "(\<And>rs. f (h rs) = f rs) \<Longrightarrow> leaves f (updA h)"
  by (simp add: leaves_def)

lemma leaves_branches:
  "(b \<Longrightarrow> leaves f m) \<Longrightarrow> (\<not> b \<Longrightarrow> leaves f n) \<Longrightarrow> leaves f (if b then m else n)"
  "leaves f m \<Longrightarrow> (\<And>x. leaves f (g x)) \<Longrightarrow> leaves f (case opt of None \<Rightarrow> m | Some x \<Rightarrow> g x)"
  "(\<And>x y. leaves f (h x y)) \<Longrightarrow> leaves f (case pr of (x, y) \<Rightarrow> h x y)"
  "(\<And>x. leaves f (g x)) \<Longrightarrow> leaves f (Let y g)"
  by (auto split: option.split prod.split)

lemma leaves_via:
  assumes "leaves g m" "\<And>rs. f (g rs) = f rs"
  shows "leaves f m"
  unfolding leaves_def
proof
  fix s
  from leavesD [OF assms(1), of s] have "f (g (fst (snd (m s)))) = f (g (fst s))" by simp
  then show "f (fst (snd (m s))) = f (fst s)" by (simp only: assms(2))
qed

lemma leaves_after_upd: "leaves id n \<Longrightarrow> fst (snd (thenA (updA f) n s)) = f (fst s)"
  using leavesD [of id n "(f (fst s), snd s)"] by (simp add: then_updA)

named_theorems leaves_rules \<open>which members an action leaves alone\<close>
declare leaves_intros [leaves_rules] leaves_bind [leaves_rules] leaves_then [leaves_rules]
  leaves_when [leaves_rules] leaves_catch [leaves_rules] leaves_for [leaves_rules]
  leaves_branches [leaves_rules]

lemma queuePacketObservation_leaves [leaves_rules]:
  "leaves f (queuePacketObservation env udp raw ts ev n st reason ip src)"
  unfolding queuePacketObservation_def by (intro leaves_rules)

lemma queueFailure_leaves [leaves_rules]: "leaves f (queueFailure env fr)"
  unfolding queueFailure_def by (intro leaves_rules)

lemma queueRecord_leaves [leaves_rules]: "leaves f (queueRecord env rec d reason)"
  unfolding queueRecord_def by (intro leaves_rules)

lemma queueCandidate_leaves [leaves_rules]: "leaves f (queueCandidate env c st reason)"
  unfolding queueCandidate_def by (intro leaves_rules)

lemma queueDatagram_leaves [leaves_rules]: "leaves f (queueDatagram env que udp ev st reason)"
  unfolding queueDatagram_def by (intro leaves_rules)

lemma pushGroupObservation_leaves [leaves_rules]:
  "leaves f (pushGroupObservation env g a b path det loc steps)"
  unfolding pushGroupObservation_def by (intro leaves_rules)

end
