(* ===== verification/ReceiverSafety.thy ===== *)
theory ReceiverSafety
  imports ReceiverFrames
begin

text \<open>
  What a verdict written into a packet slot rests on. \<open>genuine\<close> says that the stored packet's own
  authentication data verify under a key; \<open>advances\<close> says how a receiver's slots may change while
  its round goes on. The lemmas follow the runtime from the verification of an interval up to a
  turn of the worker.
\<close>

section \<open>Slots\<close>

definition packetAt :: "receiver_state \<Rightarrow> nat \<Rightarrow> udp_data option" where
  "packetAt rs n = rec_optPacket (rs_vecPacketRecords rs ! n)"

definition statusAt :: "receiver_state \<Rightarrow> nat \<Rightarrow> PacketStatus" where
  "statusAt rs n = rec_statusPacket (rs_vecPacketRecords rs ! n)"

definition slotCount :: "receiver_state \<Rightarrow> nat" where
  "slotCount rs = length (rs_vecPacketRecords rs)"

definition rs_crp :: "'g openssl \<Rightarrow> receiver_state \<Rightarrow> crypto_provider" where
  "rs_crp ssl rs = OpenSslCryptoProvider ssl (prm_algCryptoAlgorithm (rs_prm rs))"

text \<open>The interval a slot belongs to.\<close>

definition slotInterval :: "round_parameters \<Rightarrow> nat \<Rightarrow> u32" where
  "slotInterval prm n = of_nat ((n - 1) div unat (prm_u32PacketsPerInterval prm) + 1)"

text \<open>What the constructors and the runtime's limit give for every configured round.\<close>

definition prm_ok :: "round_parameters \<Rightarrow> bool" where
  "prm_ok prm \<longleftrightarrow> prm_u32TotalPacketCount prm \<noteq> 0 \<and> prm_u32PacketsPerInterval prm \<noteq> 0
     \<and> prm_u32TotalPacketCount prm \<le> MAX_AUTHENTICATION_PACKET_COUNT
     \<and> prm_nDataIntervalCount prm = (unat (prm_u32TotalPacketCount prm) - 1)
          div unat (prm_u32PacketsPerInterval prm) + 1
     \<and> (\<forall>imp. prm_optImprovedParameters prm = Some imp \<longrightarrow>
          unat (imp_u32GroupSize imp) dvd unat (prm_u32PacketsPerInterval prm))"

lemma prm_ok_bounds:
  assumes "prm_ok prm"
  shows "0 < unat (prm_u32TotalPacketCount prm)" "unat (prm_u32TotalPacketCount prm) \<le> 200000"
    "0 < unat (prm_u32PacketsPerInterval prm)" "prm_nDataIntervalCount prm \<le> 200000"
proof -
  show t: "0 < unat (prm_u32TotalPacketCount prm)" "0 < unat (prm_u32PacketsPerInterval prm)"
    using assms by (simp_all add: prm_ok_def unat_gt_0)
  show b: "unat (prm_u32TotalPacketCount prm) \<le> 200000"
    using assms by (simp add: prm_ok_def MAX_AUTHENTICATION_PACKET_COUNT_def word_le_nat_alt)
  have "(unat (prm_u32TotalPacketCount prm) - 1) div unat (prm_u32PacketsPerInterval prm)
      \<le> unat (prm_u32TotalPacketCount prm) - 1" by (rule div_le_dividend)
  moreover have "prm_nDataIntervalCount prm
      = (unat (prm_u32TotalPacketCount prm) - 1) div unat (prm_u32PacketsPerInterval prm) + 1"
    using assms by (simp add: prm_ok_def)
  ultimately show "prm_nDataIntervalCount prm \<le> 200000" using b t by linarith
qed

text \<open>The bounds of an interval do not wrap.\<close>

lemma interval_bounds:
  assumes "prm_ok prm" "1 \<le> unat i" "unat i \<le> prm_nDataIntervalCount prm"
  defines "p \<equiv> unat (prm_u32PacketsPerInterval prm)" and "t \<equiv> unat (prm_u32TotalPacketCount prm)"
  shows "unat (intervalFirst prm i) = (unat i - 1) * p + 1" "unat (intervalLast prm i) = min t (unat i * p)"
    "(unat i - 1) * p + 1 \<le> min t (unat i * p)" "unat i * p < 2 ^ 32"
proof -
  note B = prm_ok_bounds [OF assms(1), folded p_def t_def]
  have cnt: "prm_nDataIntervalCount prm = (t - 1) div p + 1"
    using assms(1) by (simp add: prm_ok_def p_def t_def)
  have "unat i - 1 \<le> (t - 1) div p" using assms(3) cnt by simp
  then have "(unat i - 1) * p \<le> (t - 1) div p * p" by (rule mult_le_mono1)
  also have "\<dots> \<le> t - 1" by simp
  finally have lo: "(unat i - 1) * p \<le> t - 1" .
  have i0: "i \<noteq> 0" using assms(2) by auto
  have "unat ((i - 1) * prm_u32PacketsPerInterval prm) = (unat i - 1) * p"
    using lo B by (simp add: unat_mult_lem [THEN iffD1] unat_minus_one_pos [OF i0] p_def t_def)
  then show "unat (intervalFirst prm i) = (unat i - 1) * p + 1"
    unfolding intervalFirst_def using lo B by (subst unat_Suc_no_wrap) simp_all
  have hi: "unat i * p < 4294967296"
  proof (cases "unat i = 1")
    case True
    then show ?thesis by (simp add: p_def)
  next
    case False
    with assms(2) have "2 \<le> unat i" by simp
    then have "unat i * p \<le> 2 * ((unat i - 1) * p)" by (cases "unat i") auto
    with lo B show ?thesis by linarith
  qed
  then show "unat i * p < 2 ^ 32" by simp
  from hi have "unat (i * prm_u32PacketsPerInterval prm) = unat i * p"
    by (simp add: unat_mult_lem [THEN iffD1] p_def)
  then show "unat (intervalLast prm i) = min t (unat i * p)"
    by (simp add: intervalLast_def t_def min_def word_le_nat_alt)
  have "(unat i - 1) * p + 1 \<le> unat i * p" using assms(2) B(3) by (cases "unat i") auto
  then show "(unat i - 1) * p + 1 \<le> min t (unat i * p)" using lo B by simp
qed

lemma slotInterval_eq:
  assumes "prm_ok prm" "1 \<le> unat i" "unat i \<le> prm_nDataIntervalCount prm"
    and "unat (intervalFirst prm i) \<le> n" "n \<le> unat (intervalLast prm i)"
  shows "slotInterval prm n = i"
proof -
  note B = interval_bounds [OF assms(1-3)]
  have n: "(unat i - 1) * unat (prm_u32PacketsPerInterval prm) \<le> n - 1"
    "n - 1 < (unat i - 1 + 1) * unat (prm_u32PacketsPerInterval prm)"
    using assms(2,4,5) B by (simp_all, linarith)
  have "(n - 1) div unat (prm_u32PacketsPerInterval prm) = unat i - 1"
    by (rule div_nat_eqI) (use n in \<open>simp_all add: mult.commute\<close>)
  then show ?thesis using assms(2) by (simp add: slotInterval_def of_nat_diff)
qed

lemma indexRange_set: "unat ` set (indexRange a b) = {unat a..unat b}"
proof -
  have "unat (of_nat n :: u32) = n" if "n \<le> unat b" for n
    using le_less_trans [OF that unat_lt_u32] by (simp add: unat_of_nat)
  then show ?thesis by (force simp: indexRange_def image_image)
qed

lemma indexRange_nth:
  assumes "n < length (indexRange a b)"
  shows "indexRange a b ! n = a + of_nat n" "unat (indexRange a b ! n) = unat a + n"
    "unat a + n \<le> unat b"
proof -
  show b: "unat a + n \<le> unat b" using assms by (simp add: indexRange_def del: upt_Suc)
  show e: "indexRange a b ! n = a + of_nat n"
    using assms by (simp add: indexRange_def del: upt_Suc)
  have "unat a + n < 4294967296" using le_less_trans [OF b unat_lt_u32] .
  then show "unat (indexRange a b ! n) = unat a + n"
    unfolding e by (simp add: unat_word_ariths unat_of_nat)
qed

lemma length_indexRange: "length (indexRange a b) = Suc (unat b) - unat a"
  by (simp add: indexRange_def del: upt_Suc)

section \<open>Genuine packets\<close>

text \<open>
  The packet stored in slot \<open>n\<close> verifies under \<open>key\<close>. Native: its own code is the MAC of its
  contents. Improved: it stands in a group of consecutive slots, and the strategy, given the packets
  of those slots and the tags that the packet of the last one carries, accepts it.
\<close>

definition holdsInput :: "receiver_state \<Rightarrow> nat \<Rightarrow> pkt_input \<Rightarrow> bool" where
  "holdsInput rs n pkt \<longleftrightarrow>
     (\<exists>d. packetAt rs n = Some d \<and> pktMapDataPacket (rcv_strSenderId (rs_ctxContext rs)) d = Inr pkt)"

definition groupAccepts :: "crypto_provider \<Rightarrow> receiver_state \<Rightarrow> block \<Rightarrow> nat \<Rightarrow> bool" where
  "groupAccepts crp rs key n \<longleftrightarrow>
     (\<exists>imp mat grp a b taus tag res ms. prm_optImprovedParameters (rs_prm rs) = Some imp
        \<and> mkImprovedTeslaStrategy (unat (imp_u32GroupSize imp)) (unat (imp_u32DetectionThreshold imp)) = Inr mat
        \<and> grp_ok grp \<and> grp_strSenderId grp = rcv_strSenderId (rs_ctxContext rs)
        \<and> grp_u64ChainId grp = rcv_u64ChainId (rs_ctxContext rs)
        \<and> a \<le> n \<and> n \<le> b \<and> b \<le> unat (prm_u32TotalPacketCount (rs_prm rs))
        \<and> length (grp_vecPacketSlots grp) = Suc b - a
        \<and> (\<forall>j < Suc b - a. \<forall>pkt. grp_vecPacketSlots grp ! j = Some pkt \<longrightarrow>
              a + j < slotCount rs \<longrightarrow> holdsInput rs (a + j) pkt)
        \<and> (b < slotCount rs \<longrightarrow> (\<exists>det. map_option ud_varAuthenticationDetails (packetAt rs b)
                = Some (ImprovedUdpDetails (Some det)) \<and> taus = ugd_vecSamdTau det \<and> tag = ugd_arrFastGroupTag det))
        \<and> improved_verify crp mat grp (ImprovedAuthenticationDetails taus (Some tag)) key False = Inr (res, ms)
        \<and> n - a \<in> accepted res)"

definition genuine :: "'g openssl \<Rightarrow> receiver_state \<Rightarrow> block \<Rightarrow> nat \<Rightarrow> bool" where
  "genuine ssl rs key n \<longleftrightarrow>
     (\<exists>d pkt. packetAt rs n = Some d
        \<and> pktMapDataPacket (rcv_strSenderId (rs_ctxContext rs)) d = Inr pkt
        \<and> (if prm_modeAuthentication (rs_prm rs) = ModeNative
           then \<exists>mac. nativeMac (ud_varAuthenticationDetails d) = Some mac
             \<and> digComputePacketMac (rs_crp ssl rs) key pkt = Inr mac
           else groupAccepts (rs_crp ssl rs) rs key n))"

text \<open>A receiver that goes on keeps the packets it has.\<close>

definition keepsPackets :: "receiver_state \<Rightarrow> receiver_state \<Rightarrow> bool" where
  "keepsPackets s t \<longleftrightarrow> rs_ctxContext s = rs_ctxContext t \<and> slotCount s = slotCount t
     \<and> (\<forall>n < slotCount s. packetAt s n \<noteq> None \<longrightarrow> packetAt t n = packetAt s n)"

lemma keepsPacketsD: "keepsPackets s t \<Longrightarrow> n < slotCount s \<Longrightarrow> packetAt s n = Some d \<Longrightarrow> packetAt t n = Some d"
  by (simp add: keepsPackets_def)

lemma holdsInput_mono: "keepsPackets s t \<Longrightarrow> n < slotCount s \<Longrightarrow> holdsInput s n pkt \<Longrightarrow> holdsInput t n pkt"
  using keepsPacketsD [of s t n] by (auto simp: holdsInput_def keepsPackets_def)

lemma groupAccepts_mono:
  assumes k: "keepsPackets s t" and g: "groupAccepts crp s key n"
  shows "groupAccepts crp t key n"
proof -
  obtain imp mat grp a b taus tag res ms where
    1: "prm_optImprovedParameters (rs_prm s) = Some imp"
      "mkImprovedTeslaStrategy (unat (imp_u32GroupSize imp)) (unat (imp_u32DetectionThreshold imp)) = Inr mat"
      "grp_ok grp" "grp_strSenderId grp = rcv_strSenderId (rs_ctxContext s)"
      "grp_u64ChainId grp = rcv_u64ChainId (rs_ctxContext s)"
      "a \<le> n" "n \<le> b" "b \<le> unat (prm_u32TotalPacketCount (rs_prm s))"
      "length (grp_vecPacketSlots grp) = Suc b - a"
    and 2: "\<forall>j < Suc b - a. \<forall>pkt. grp_vecPacketSlots grp ! j = Some pkt \<longrightarrow>
              a + j < slotCount s \<longrightarrow> holdsInput s (a + j) pkt"
    and 3: "b < slotCount s \<longrightarrow> (\<exists>det. map_option ud_varAuthenticationDetails (packetAt s b)
                = Some (ImprovedUdpDetails (Some det)) \<and> taus = ugd_vecSamdTau det \<and> tag = ugd_arrFastGroupTag det)"
    and 4: "improved_verify crp mat grp (ImprovedAuthenticationDetails taus (Some tag)) key False = Inr (res, ms)"
      "n - a \<in> accepted res"
    using g unfolding groupAccepts_def by blast
  have E: "rs_ctxContext t = rs_ctxContext s" "slotCount t = slotCount s" using k by (simp_all add: keepsPackets_def)
  have "\<forall>j < Suc b - a. \<forall>pkt. grp_vecPacketSlots grp ! j = Some pkt \<longrightarrow>
      a + j < slotCount t \<longrightarrow> holdsInput t (a + j) pkt"
    using 2 holdsInput_mono [OF k] E(2) by simp
  moreover have "b < slotCount t \<longrightarrow> (\<exists>det. map_option ud_varAuthenticationDetails (packetAt t b)
      = Some (ImprovedUdpDetails (Some det)) \<and> taus = ugd_vecSamdTau det \<and> tag = ugd_arrFastGroupTag det)"
    using 3 keepsPacketsD [OF k, of b] E(2) by auto
  ultimately show ?thesis
    unfolding groupAccepts_def using 1 4 E(1) by (intro exI conjI) (assumption | simp)+
qed

lemma genuine_mono:
  assumes "keepsPackets s t" "n < slotCount s" "genuine ssl s key n"
  shows "genuine ssl t key n"
proof -
  have "rs_ctxContext t = rs_ctxContext s" using assms(1) by (simp add: keepsPackets_def)
  with assms keepsPacketsD [OF assms(1,2)] groupAccepts_mono [OF assms(1)] show ?thesis
    unfolding genuine_def rs_crp_def by (auto split: if_splits)
qed

section \<open>Writing verdicts\<close>

text \<open>A receiver without its verdicts, its alternative versions and what was verified.\<close>

definition settled :: "receiver_state \<Rightarrow> receiver_state" where
  "settled rs = rs\<lparr>rs_vecPacketRecords := map (\<lambda>rec. rec\<lparr>rec_statusPacket := StatusEmpty\<rparr>) (rs_vecPacketRecords rs),
     rs_mapAdditionalCandidates := Map.empty, rs_bProtocolIncomplete := False,
     rs_setVerifiedIntervals := {}\<rparr>"

lemma settled_updates [simp]:
  "settled (setCandidates j cs rs) = settled rs" "settled (setIncomplete rs) = settled rs"
  by (simp_all add: settled_def setCandidates_def setIncomplete_def)

lemma map_unseen_update: "(\<And>x. f (g x) = f x) \<Longrightarrow> map f (xs[n := g (xs ! n)]) = map f xs"
  by (cases "n < length xs") (auto intro!: nth_equalityI simp: nth_list_update list_update_beyond)

lemma settled_setStatus [simp]:
  "settled (setRecord n ((rs_vecPacketRecords rs ! n)\<lparr>rec_statusPacket := st\<rparr>) rs) = settled rs"
proof -
  have "map (\<lambda>rec. rec\<lparr>rec_statusPacket := StatusEmpty\<rparr>)
      ((rs_vecPacketRecords rs)[n := (rs_vecPacketRecords rs ! n)\<lparr>rec_statusPacket := st\<rparr>])
    = map (\<lambda>rec. rec\<lparr>rec_statusPacket := StatusEmpty\<rparr>) (rs_vecPacketRecords rs)"
    by (rule map_unseen_update) simp
  then show ?thesis by (simp add: settled_def setRecord_def)
qed

lemma settled_eq:
  assumes "settled s = settled t"
  shows "rs_ctxContext s = rs_ctxContext t" "slotCount s = slotCount t" "rs_mapDisclosedKeys s = rs_mapDisclosedKeys t"
    "rs_bActive s = rs_bActive t" "rs_bResultReported s = rs_bResultReported t"
    "rs_u32ReceivedPacketCount s = rs_u32ReceivedPacketCount t" "rs_strRoundId s = rs_strRoundId t"
    "n < slotCount t \<Longrightarrow> packetAt s n = packetAt t n"
proof -
  have "map (\<lambda>rec. rec\<lparr>rec_statusPacket := StatusEmpty\<rparr>) (rs_vecPacketRecords s)
      = map (\<lambda>rec. rec\<lparr>rec_statusPacket := StatusEmpty\<rparr>) (rs_vecPacketRecords t)"
    using arg_cong [OF assms, of rs_vecPacketRecords] by (simp add: settled_def)
  then show len: "slotCount s = slotCount t" unfolding slotCount_def by (rule map_eq_imp_length_eq)
  show "packetAt s n = packetAt t n" if "n < slotCount t"
  proof -
    have "map rec_optPacket (rs_vecPacketRecords s) = map rec_optPacket (rs_vecPacketRecords t)"
      using arg_cong [OF assms, of "\<lambda>r. map rec_optPacket (rs_vecPacketRecords r)"]
      by (simp add: settled_def comp_def)
    with that len show ?thesis unfolding packetAt_def slotCount_def by (metis nth_map)
  qed
  show "rs_ctxContext s = rs_ctxContext t" "rs_mapDisclosedKeys s = rs_mapDisclosedKeys t"
    "rs_bActive s = rs_bActive t" "rs_bResultReported s = rs_bResultReported t"
    "rs_u32ReceivedPacketCount s = rs_u32ReceivedPacketCount t" "rs_strRoundId s = rs_strRoundId t"
    using arg_cong [OF assms, of rs_ctxContext] arg_cong [OF assms, of rs_mapDisclosedKeys]
      arg_cong [OF assms, of rs_bActive] arg_cong [OF assms, of rs_bResultReported]
      arg_cong [OF assms, of rs_u32ReceivedPacketCount] arg_cong [OF assms, of rs_strRoundId]
    by (simp_all add: settled_def)
qed

text \<open>Only slots that satisfy \<open>good\<close> come to be passed.\<close>

definition marks :: "(nat \<Rightarrow> bool) \<Rightarrow> receiver_state \<Rightarrow> receiver_state \<Rightarrow> bool" where
  "marks good s t \<longleftrightarrow> settled s = settled t \<and> rs_setVerifiedIntervals s = rs_setVerifiedIntervals t
     \<and> (\<forall>n < slotCount s. statusAt t n = StatusPassed \<longrightarrow> statusAt s n = StatusPassed
          \<or> good n \<and> packetAt s n \<noteq> None)"

lemma marks_refl: "marks good s s"
  by (simp add: marks_def)

lemma marks_trans: "marks good s t \<Longrightarrow> marks good t u \<Longrightarrow> marks good s u"
  unfolding marks_def using settled_eq(2,8) by metis

interpretation mark: members_relation "\<lambda>s t. marks good (fst s) (fst t)" for good
  by unfold_locales (rule marks_refl, rule marks_trans)

lemma marks_same: "rs_vecPacketRecords s = rs_vecPacketRecords t \<Longrightarrow> settled s = settled t
    \<Longrightarrow> rs_setVerifiedIntervals s = rs_setVerifiedIntervals t \<Longrightarrow> marks good s t"
  by (simp add: marks_def statusAt_def)

lemma marks_frame:
  assumes "leaves id m"
  shows "marks good (fst s) (fst (snd (m s)))"
  using leavesD [OF assms, of s] by (simp add: marks_refl)

lemma marks_mono: "marks g s t \<Longrightarrow> (\<And>n. n < slotCount s \<Longrightarrow> g n \<Longrightarrow> h n) \<Longrightarrow> marks h s t"
  by (auto simp: marks_def)

lemma marks_setRecord:
  assumes "st = StatusPassed \<Longrightarrow> good n \<and> packetAt rs n \<noteq> None"
  shows "marks good rs (setRecord n ((rs_vecPacketRecords rs ! n)\<lparr>rec_statusPacket := st\<rparr>) rs)"
proof -
  have "statusAt (setRecord n ((rs_vecPacketRecords rs ! n)\<lparr>rec_statusPacket := st\<rparr>) rs) m = StatusPassed
      \<Longrightarrow> statusAt rs m = StatusPassed \<or> good m \<and> packetAt rs m \<noteq> None" if "m < slotCount rs" for m
    using that assms
    by (cases "m = n") (auto simp: statusAt_def slotCount_def setRecord_def nth_list_update)
  then show ?thesis by (simp add: marks_def) (simp add: setRecord_def)
qed

text \<open>Frames of the larger reporting steps; judging an attack touches candidates only.\<close>

lemma observeGroupPacket_leaves [leaves_rules]: "leaves f (observeGroupPacket env j)"
  unfolding observeGroupPacket_def by (intro leaves_rules)

lemma observeGroup_leaves [leaves_rules]: "leaves f (observeGroup env i g a b det)"
  unfolding observeGroup_def by (intro leaves_rules)

lemma unverifiableAttack_leaves [leaves_rules]: "leaves f (unverifiableAttack env i g j)"
  unfolding unverifiableAttack_def by (intro leaves_rules)

lemma failAttack_leaves:
  assumes "\<And>j cs rs. f (setCandidates j cs rs) = f rs"
  shows "leaves f (failAttack env i g det loc j)"
  unfolding failAttack_def by (intro leaves_rules leaves_upd assms)

lemma judgeAttack_leaves:
  assumes "\<And>j cs rs. f (setCandidates j cs rs) = f rs"
  shows "leaves f (judgeAttack env crp mat i g a b tags key path)"
  unfolding judgeAttack_def by (intro leaves_rules failAttack_leaves assms)

lemma nativeCandidates_leaves:
  assumes "\<And>j cs rs. f (setCandidates j cs rs) = f rs"
  shows "leaves f (nativeCandidates env crp i key j)"
  unfolding nativeCandidates_def nativeCandidate_def by (intro leaves_rules leaves_upd assms)

section \<open>An interval of Native TESLA\<close>

lemma settled_keeps: "settled s = settled t \<Longrightarrow> keepsPackets s t"
  using settled_eq [of s t] by (simp add: keepsPackets_def)

lemma settled_genuine:
  assumes "settled s = settled t" "n < slotCount t"
  shows "genuine ssl s key n = genuine ssl t key n"
  using genuine_mono [OF settled_keeps [OF assms(1)]] genuine_mono [OF settled_keeps [OF assms(1) [symmetric]]]
    settled_eq(2) [OF assms(1)] assms(2) by auto

lemma nativeBaseline_marks:
  assumes "status = NativePacketStatus.Passed \<Longrightarrow> good n"
  shows "marks good (fst s) (fst (snd (nativeBaseline env crp i key n status s)))"
proof (cases "rec_optPacket (rs_vecPacketRecords (fst s) ! n)")
  case None
  then show ?thesis by (simp add: nativeBaseline_def act_simps marks_refl)
next
  case (Some d)
  let ?st = "if status = NativePacketStatus.Passed then StatusPassed else StatusFailed"
  let ?rs = "setRecord n ((rs_vecPacketRecords (fst s) ! n)\<lparr>rec_statusPacket := ?st\<rparr>) (fst s)"
  have "marks good (fst s) ?rs"
    by (rule marks_setRecord) (use assms Some in \<open>simp add: packetAt_def split: if_splits\<close>)
  moreover have "fst (snd (nativeBaseline env crp i key n status s)) = ?rs"
    unfolding nativeBaseline_def
    by (subst bind_rsA, unfold Some option.case Let_def) (intro leaves_after_upd leaves_rules)
  ultimately show ?thesis by simp
qed

text \<open>The slots a verdict of an interval passes.\<close>

definition nativePassed :: "NativePacketStatus list \<Rightarrow> u32 \<Rightarrow> nat \<Rightarrow> bool" where
  "nativePassed statuses u32First n \<longleftrightarrow> unat u32First \<le> n \<and> n - unat u32First < length statuses
     \<and> statuses ! (n - unat u32First) = NativePacketStatus.Passed"

lemma verifyNativeInterval_marks:
  assumes "nativeVerdict (rs_crp (env_ssl env) (fst s)) (fst s) i (intervalFirst (rs_prm (fst s)) i)
      (intervalLast (rs_prm (fst s)) i) key = Inr statuses"
  shows "marks (nativePassed statuses (intervalFirst (rs_prm (fst s)) i)) (fst s)
    (fst (snd (verifyNativeInterval env i key s)))"
proof -
  let ?f = "intervalFirst (rs_prm (fst s)) i" and ?l = "intervalLast (rs_prm (fst s)) i"
  let ?crp = "OpenSslCryptoProvider (env_ssl env) (prm_algCryptoAlgorithm (rs_prm (fst s)))"
  have run: "verifyNativeInterval env i key s =
      thenA (forA (\<lambda>(nPosition, status). nativeBaseline env ?crp i key (unat ?f + nPosition) status)
         (enumerate 0 statuses)) (forA (nativeCandidates env ?crp i key) (indexRange ?f ?l)) s"
    using assms by (simp add: verifyNativeInterval_def act_simps Let_def rs_crp_def)
  show ?thesis unfolding run
  proof (rule mark.seq)
    show "marks (nativePassed statuses ?f) (fst s) (fst (snd (forA (\<lambda>(nPosition, status).
        nativeBaseline env ?crp i key (unat ?f + nPosition) status) (enumerate 0 statuses) s)))"
    proof (rule mark.for_loop)
      fix x :: "nat \<times> NativePacketStatus" and t :: focus
      assume "x \<in> set (enumerate 0 statuses)"
      then obtain n where "x = (n, statuses ! n)" "n < length statuses"
        by (auto simp: set_conv_nth nth_enumerate_eq)
      then show "marks (nativePassed statuses ?f) (fst t) (fst (snd ((\<lambda>(nPosition, status).
        nativeBaseline env ?crp i key (unat ?f + nPosition) status) x t)))"
        by (auto intro!: nativeBaseline_marks simp: nativePassed_def)
    qed
    show "marks (nativePassed statuses ?f) (fst t) (fst (snd (forA (nativeCandidates env ?crp i key)
        (indexRange ?f ?l) t)))" for t
    proof (rule marks_same)
      have "leaves f (forA (nativeCandidates env ?crp i key) (indexRange ?f ?l))"
        if "\<And>j cs rs. f (setCandidates j cs rs) = f rs" for f :: "receiver_state \<Rightarrow> 'c"
        by (intro leaves_rules nativeCandidates_leaves that)
      note L = leavesD [OF this, of _ t]
      show "rs_vecPacketRecords (fst t) = rs_vecPacketRecords (fst (snd (forA (nativeCandidates env ?crp i key)
        (indexRange ?f ?l) t)))"
        "rs_setVerifiedIntervals (fst t) = rs_setVerifiedIntervals (fst (snd (forA (nativeCandidates env ?crp i key)
        (indexRange ?f ?l) t)))"
        by (rule L [symmetric]; simp add: setCandidates_def)+
      show "settled (fst t) = settled (fst (snd (forA (nativeCandidates env ?crp i key)
        (indexRange ?f ?l) t)))"
        by (rule L [symmetric]) simp
    qed
  qed
qed

lemma receivedSlot_Some:
  assumes "receivedSlot rs j = Inr (Some pkt)"
  obtains d where "packetAt rs (unat j) = Some d"
    "pktMapDataPacket (rcv_strSenderId (rs_ctxContext rs)) d = Inr pkt"
  using assms
  by (auto simp: receivedSlot_def mapSlot_def packetAt_def recordAt_def andThen_Inr_iff split: option.splits)

lemma nativePassed_genuine:
  assumes verdict: "nativeVerdict (rs_crp ssl rs) rs i a b key = Inr statuses"
    and mode: "prm_modeAuthentication (rs_prm rs) = ModeNative"
    and n: "nativePassed statuses a n"
  shows "genuine ssl rs key n" "unat a \<le> n" "n \<le> unat b"
proof -
  let ?crp = "rs_crp ssl rs" and ?R = "indexRange a b" and ?macs = "map (receivedMac rs) (indexRange a b)"
  obtain slots grp res ms where
    slots: "mapE (receivedSlot rs) ?R = Inr slots" and grp: "grpFromSlots rs i i a slots = Inr grp"
    and vfy: "native_verify ?crp grp (NativeAuthenticationDetails ?macs) key False = Inr (res, ms)"
    and det: "m_varDetails res = NativeVerificationDetails statuses"
  proof -
    obtain res ms slots grp where *: "mapE (receivedSlot rs) ?R = Inr slots" "grpFromSlots rs i i a slots = Inr grp"
      "native_verify ?crp grp (NativeAuthenticationDetails ?macs) key False = Inr (res, ms)"
      "(case m_varDetails res of NativeVerificationDetails statuses \<Rightarrow> Inr statuses
        | ImprovedVerificationDetails _ \<Rightarrow> Inl (LogicError ''bad variant access'')) = Inr statuses"
      using verdict
      by (auto simp: nativeVerdict_def grpCreateReceived_def mkNativeAuthenticationDetails_def andThen_Inr_iff
          simp del: verification_details.case split: if_splits)
    then show ?thesis by (cases "m_varDetails res") (auto intro: that)
  qed
  have g: "grp_vecPacketSlots grp = slots"
    using grp by (auto simp: grpFromSlots_def mkAuthenticationGroupInput_Inr)
  let ?k = "n - unat a"
  have k: "?k < length statuses" "statuses ! ?k = NativePacketStatus.Passed" "unat a \<le> n"
    using n by (simp_all add: nativePassed_def)
  then have "?k \<in> accepted res" by (simp add: accepted_def det)
  then have kr: "?k < length ?R" and st: "native_status ?crp key (slots ! ?k) (?macs ! ?k) = NativePacketStatus.Passed"
    unfolding native_accepted [OF vfy refl] g by (simp_all only: mem_Collect_eq length_map)
  note J = indexRange_nth [OF kr]
  have un: "unat (?R ! ?k) = n" using J(2) k(3) by simp
  obtain pkt mac where p: "slots ! ?k = Some pkt" "?macs ! ?k = Some mac" "digComputePacketMac ?crp key pkt = Inr mac"
    using st by (auto simp: native_status_def split: option.splits if_splits)
  have "receivedSlot rs (?R ! ?k) = Inr (Some pkt)" using mapE_nth [OF slots kr] p(1) by simp
  from receivedSlot_Some [OF this] obtain d where
    d: "packetAt rs n = Some d" "pktMapDataPacket (rcv_strSenderId (rs_ctxContext rs)) d = Inr pkt"
    unfolding un by blast
  have "nativeMac (ud_varAuthenticationDetails d) = Some mac"
    using p(2) kr d(1) un by (simp add: receivedMac_def packetAt_def recordAt_def)
  with d p(3) mode show "genuine ssl rs key n" by (auto simp: genuine_def)
  show "unat a \<le> n" "n \<le> unat b" using J(3) k(3) by simp_all
qed

section \<open>An interval of Improved TESLA\<close>

lemma setStatus_marks:
  assumes "st = StatusPassed \<Longrightarrow> good n"
  shows "marks good (fst s) (fst (snd (setStatus st n s)))"
proof (cases "rec_optPacket (rs_vecPacketRecords (fst s) ! n)")
  case None
  then show ?thesis by (simp add: setStatus_def updA_run Let_def marks_refl)
next
  case (Some d)
  then have "fst (snd (setStatus st n s))
      = setRecord n ((rs_vecPacketRecords (fst s) ! n)\<lparr>rec_statusPacket := st\<rparr>) (fst s)"
    by (simp add: setStatus_def updA_run Let_def)
  with assms Some show ?thesis by (simp add: marks_setRecord packetAt_def)
qed

text \<open>The slots the verdict of a group passes.\<close>

definition groupPassed :: "u32 \<Rightarrow> u32 \<Rightarrow> bool \<Rightarrow> improved_verification \<Rightarrow> nat \<Rightarrow> bool" where
  "groupPassed a b bPassed det n \<longleftrightarrow> unat a \<le> n \<and>
     (n - unat a \<in> set (m_vecAuthenticatedPositions det) \<or> bPassed \<and> n \<le> unat b)"

lemma writeVerdict_marks: "marks (groupPassed a b bPassed det) (fst s) (fst (snd (writeVerdict a b bPassed det s)))"
  unfolding writeVerdict_def
proof (intro mark.seq mark.cond mark.for_loop setStatus_marks)
  show "groupPassed a b bPassed det (unat a + n)" if "n \<in> set (m_vecAuthenticatedPositions det)" for n
    using that by (simp add: groupPassed_def)
  show "groupPassed a b bPassed det (unat j)" if bPassed "j \<in> set (indexRange a b)" for j
  proof -
    have "unat j \<in> {unat a..unat b}" using indexRange_set that(2) by blast
    with that(1) show ?thesis by (simp add: groupPassed_def)
  qed
qed simp

lemma improvedVerdict_Inr:
  assumes "improvedVerdict crp mat grp tags key = Inr (bPassed, det)"
  obtains res ms where "improved_verify crp mat grp (ImprovedAuthenticationDetails (fst tags) (snd tags)) key False
      = Inr (res, ms)" "m_bPassed res = bPassed" "accepted res = set (m_vecAuthenticatedPositions det)"
proof -
  obtain res ms where v: "improved_verify crp mat grp (ImprovedAuthenticationDetails (fst tags) (snd tags)) key False
      = Inr (res, ms)" and c: "(case m_varDetails res of
          ImprovedVerificationDetails det \<Rightarrow> Inr (m_bPassed res, det)
        | NativeVerificationDetails _ \<Rightarrow> Inl (LogicError ''bad variant access'')) = Inr (bPassed, det)"
    using assms by (auto simp: improvedVerdict_def andThen_Inr_iff simp del: verification_details.case)
  from c have "m_varDetails res = ImprovedVerificationDetails det \<and> m_bPassed res = bPassed"
    by (cases "m_varDetails res") auto
  with that [OF v] show ?thesis by (simp add: accepted_def)
qed

lemma grpCreateReceived_Inr:
  assumes "grpCreateReceived rs i g a b = Inr grp"
  shows "grp_ok grp" "grp_strSenderId grp = rcv_strSenderId (rs_ctxContext rs)"
    "grp_u64ChainId grp = rcv_u64ChainId (rs_ctxContext rs)"
    "length (grp_vecPacketSlots grp) = length (indexRange a b)"
    "\<And>k. k < length (indexRange a b) \<Longrightarrow> receivedSlot rs (indexRange a b ! k) = Inr (grp_vecPacketSlots grp ! k)"
proof -
  obtain slots where s: "mapE (receivedSlot rs) (indexRange a b) = Inr slots"
    "grpFromSlots rs i g a slots = Inr grp"
    using assms by (auto simp: grpCreateReceived_def andThen_Inr_iff)
  then have g: "grp_vecPacketSlots grp = slots" "grp_ok grp" "grp_strSenderId grp = rcv_strSenderId (rs_ctxContext rs)"
    "grp_u64ChainId grp = rcv_u64ChainId (rs_ctxContext rs)"
    by (auto simp: grpFromSlots_def mkAuthenticationGroupInput_Inr)
  then show "grp_ok grp" "grp_strSenderId grp = rcv_strSenderId (rs_ctxContext rs)"
    "grp_u64ChainId grp = rcv_u64ChainId (rs_ctxContext rs)" by simp_all
  show "length (grp_vecPacketSlots grp) = length (indexRange a b)" using mapE_length [OF s(1)] g(1) by simp
  show "receivedSlot rs (indexRange a b ! k) = Inr (grp_vecPacketSlots grp ! k)"
    if "k < length (indexRange a b)" for k using mapE_nth [OF s(1) that] g(1) by simp
qed

lemma improved_no_tag:
  "improved_verify crp mat grp (ImprovedAuthenticationDetails taus None) key bM = Inr (res, ms) \<Longrightarrow> accepted res = {}"
  by (auto simp: improved_verify_def Let_def incomplete_tags_result_def accepted_def split: if_splits bool.splits)

lemma groupPassed_genuine:
  assumes grp: "grpCreateReceived rs i g a b = Inr grp"
    and verdict: "improvedVerdict (rs_crp ssl rs) mat grp tags key = Inr (bPassed, det)"
    and mode: "prm_modeAuthentication (rs_prm rs) \<noteq> ModeNative"
    and imp: "prm_optImprovedParameters (rs_prm rs) = Some imp"
      "mkImprovedTeslaStrategy (unat (imp_u32GroupSize imp)) (unat (imp_u32DetectionThreshold imp)) = Inr mat"
    and tags: "tags = tagsAt rs b" and b: "unat b \<le> unat (prm_u32TotalPacketCount (rs_prm rs))"
    and n: "groupPassed a b bPassed det n"
  shows "genuine ssl rs key n" "unat a \<le> n" "n \<le> unat b"
proof -
  let ?k = "n - unat a"
  note G = grpCreateReceived_Inr [OF grp]
  obtain res ms where v: "improved_verify (rs_crp ssl rs) mat grp
      (ImprovedAuthenticationDetails (fst tags) (snd tags)) key False = Inr (res, ms)"
    "m_bPassed res = bPassed" "accepted res = set (m_vecAuthenticatedPositions det)"
    using improvedVerdict_Inr [OF verdict] by metis
  have "?k \<in> accepted res"
  proof (cases bPassed)
    case True
    have "accepted res = {..<length (grp_vecPacketSlots grp)}"
      by (rule improved.passed_accepts_all [OF v(1)]) (simp add: v(2) True)
    moreover have "n - unat a < length (grp_vecPacketSlots grp)" if "n \<le> unat b"
    proof -
      have "unat a \<le> n" using n by (simp add: groupPassed_def)
      with that show ?thesis unfolding G(4) length_indexRange by linarith
    qed
    ultimately show ?thesis using n v(3) by (auto simp: groupPassed_def)
  qed (use n v(3) in \<open>simp add: groupPassed_def\<close>)
  note P = improved.accepts_present [OF v(1) this]
  then have kr: "?k < length (indexRange a b)" using G(4) by simp
  obtain pkt where pkt: "grp_vecPacketSlots grp ! ?k = Some pkt" using P by blast
  have un: "unat (indexRange a b ! ?k) = n" and le: "n \<le> unat b"
    using indexRange_nth(2,3) [OF kr] n by (simp_all add: groupPassed_def)
  from G(5) [OF kr] obtain d where d: "packetAt rs n = Some d"
    "pktMapDataPacket (rcv_strSenderId (rs_ctxContext rs)) d = Inr pkt"
    unfolding pkt by (metis receivedSlot_Some un)
  have an: "unat a \<le> n" using n by (simp add: groupPassed_def)
  have held: "holdsInput rs (unat a + j) pkt'"
    if "j < Suc (unat b) - unat a" "grp_vecPacketSlots grp ! j = Some pkt'" for j pkt'
  proof -
    have "j < length (indexRange a b)" using that(1) by (simp add: length_indexRange)
    from G(5) [OF this] indexRange_nth(2) [OF this] that(2) show ?thesis
      by (auto simp: holdsInput_def elim!: receivedSlot_Some)
  qed
  obtain tag where tag: "snd tags = Some tag"
    using v(1) \<open>?k \<in> accepted res\<close> improved_no_tag by (cases "snd tags") auto
  then obtain e where e: "map_option ud_varAuthenticationDetails (packetAt rs (unat b))
      = Some (ImprovedUdpDetails (Some e))" "fst tags = ugd_vecSamdTau e" "tag = ugd_arrFastGroupTag e"
    unfolding tags tagsAt_def packetAt_def recordAt_def by (auto split: option.splits udp_auth.splits)
  have "length (grp_vecPacketSlots grp) = Suc (unat b) - unat a" unfolding G(4) length_indexRange ..
  with v(1) have "groupAccepts (rs_crp ssl rs) rs key n"
    unfolding groupAccepts_def
    using imp G(1-3) an le b held e tag \<open>?k \<in> accepted res\<close>
    by - (rule exI [of _ imp], rule exI [of _ mat], rule exI [of _ grp], rule exI [of _ "unat a"],
        rule exI [of _ "unat b"], rule exI [of _ "fst tags"], rule exI [of _ tag], rule exI [of _ res],
        rule exI [of _ ms], auto)
  with d mode show "genuine ssl rs key n" by (auto simp: genuine_def)
  show "unat a \<le> n" by (rule an)
  show "n \<le> unat b" by (rule le)
qed

lemma incomplete_marks: "marks good (fst s) (fst (snd (whenA b (updA setIncomplete) s)))"
proof (cases b)
  case True
  have "marks good (fst s) (setIncomplete (fst s))"
    by (rule marks_same) (simp_all, simp_all add: setIncomplete_def)
  with True show ?thesis by (simp add: act_simps)
qed (simp add: act_simps marks_refl)

lemma judgeAttack_marks: "marks good (fst s) (fst (snd (judgeAttack env crp mat i g a b tags key path s)))"
proof (rule marks_same)
  note L = leavesD [OF judgeAttack_leaves, of _ env crp mat i g a b tags key path s]
  show "rs_vecPacketRecords (fst s) = rs_vecPacketRecords (fst (snd (judgeAttack env crp mat i g a b tags key path s)))"
    "rs_setVerifiedIntervals (fst s) = rs_setVerifiedIntervals (fst (snd (judgeAttack env crp mat i g a b tags key path s)))"
    by (rule L [symmetric]; simp add: setCandidates_def)+
  show "settled (fst s) = settled (fst (snd (judgeAttack env crp mat i g a b tags key path s)))"
    by (rule L [symmetric]) simp
qed

lemma verifyImprovedGroup_marks:
  assumes mode: "prm_modeAuthentication (rs_prm rs) \<noteq> ModeNative"
    and imp: "prm_optImprovedParameters (rs_prm rs) = Some imp"
      "mkImprovedTeslaStrategy (unat (imp_u32GroupSize imp)) (unat (imp_u32DetectionThreshold imp)) = Inr mat"
    and s: "settled (fst s) = settled rs" and crp: "crp = rs_crp (env_ssl env) rs"
    and b: "unat b \<le> unat (prm_u32TotalPacketCount (rs_prm rs))"
  shows "marks (\<lambda>n. genuine (env_ssl env) rs key n \<and> unat a \<le> n \<and> n \<le> unat b) (fst s)
    (fst (snd (verifyImprovedGroup env crp mat gs i key (a, b) s)))"
proof -
  note E = settled_eq [OF s]
  let ?g = "(a - 1) div gs + 1" and ?tags = "tagsAt (fst s) b"
  show ?thesis
  proof (cases "grpCreateReceived (fst s) i ?g a b")
    case (Inl e)
    then show ?thesis by (simp add: verifyImprovedGroup_def act_simps Let_def marks_refl)
  next
    case (Inr grp)
    note grp = this
    show ?thesis
    proof (cases "improvedVerdict crp mat grp ?tags key")
      case (Inl e)
      with grp show ?thesis by (simp add: verifyImprovedGroup_def act_simps Let_def marks_refl)
    next
      case (Inr v)
      obtain bPassed det where v: "v = (bPassed, det)" by (cases v)
      have crp': "crp = rs_crp (env_ssl env) (fst s)" using crp E(1) by (simp add: rs_crp_def)
      have good: "genuine (env_ssl env) rs key n \<and> unat a \<le> n \<and> n \<le> unat b"
        if "n < slotCount (fst s)" "groupPassed a b bPassed det n" for n
      proof -
        have "genuine (env_ssl env) (fst s) key n \<and> unat a \<le> n \<and> n \<le> unat b"
          using groupPassed_genuine [OF grp _ _ _ _ refl _ that(2)] Inr v mode imp crp' E(1) b by metis
        then show ?thesis using settled_genuine [OF s] that(1) E(2) by metis
      qed
      have run: "verifyImprovedGroup env crp mat gs i key (a, b) s =
         thenA (whenA (m_pathVerification det = IncompleteGroupTags) (updA setIncomplete))
         (thenA (writeVerdict a b bPassed det)
         (thenA (observeGroup env i ?g a b det)
           (judgeAttack env crp mat i ?g a b ?tags key (m_pathVerification det)))) s"
        using grp Inr v by (simp add: verifyImprovedGroup_def act_simps Let_def)
      have "marks (groupPassed a b bPassed det) (fst s)
          (fst (snd (verifyImprovedGroup env crp mat gs i key (a, b) s)))"
        unfolding run
        by (intro mark.seq incomplete_marks writeVerdict_marks judgeAttack_marks marks_frame observeGroup_leaves)
      from marks_mono [OF this good] show ?thesis .
    qed
  qed
qed

text \<open>
  The groups of an interval partition it. \<open>E\<close> is where the interval would end were it full; the
  group size divides it, so no group's bound wraps.
\<close>

lemma group_step:
  assumes "gs dvd e" "gs dvd a - 1" "1 \<le> a" "a \<le> (b :: nat)" "b \<le> e"
  shows "a - 1 + gs \<le> e"
proof -
  obtain m k where "e = gs * m" "a - 1 = gs * k" using assms(1,2) by (auto elim!: dvdE)
  moreover have "a - 1 < e" using assms(3-5) by linarith
  ultimately have "k < m" by simp
  then have "gs * (k + 1) \<le> gs * m" by (intro mult_le_mono2) simp
  with \<open>e = gs * m\<close> \<open>a - 1 = gs * k\<close> show ?thesis by simp
qed

lemma groupBounds_cover:
  assumes "unat gs dvd E" "E < 2 ^ 32" "unat b \<le> E" "unat b + 1 < 2 ^ 32" "gs \<noteq> 0" "1 \<le> unat a"
    and "a \<le> b \<Longrightarrow> unat gs dvd unat a - 1" "Suc (unat b) - unat a \<le> m"
  shows "concat (map (\<lambda>(x, y). [unat x..<Suc (unat y)]) (groupBounds m gs b a)) = [unat a..<Suc (unat b)]"
  using assms
proof (induction m gs b a rule: groupBounds.induct)
  case (1 gs b a)
  then show ?case by simp
next
  case (2 m gs b a)
  show ?case
  proof (cases "a \<le> b")
    case False
    then show ?thesis by (simp add: word_le_nat_alt)
  next
    case True
    define l where "l = min b (a + gs - 1)"
    have ab: "unat a \<le> unat b" using True by (simp add: word_le_nat_alt)
    have gs: "0 < unat gs" using 2(6) by (simp add: unat_gt_0)
    have step: "unat a - 1 + unat gs \<le> E"
      using group_step [OF 2(2) 2(8) [OF True] 2(7) ab 2(4)] .
    have "unat (a - 1 + gs) = unat a - 1 + unat gs"
    proof -
      have "a \<noteq> 0" using 2(7) by auto
      then show ?thesis using step 2(3) by (simp add: unat_word_ariths(1) unat_minus_one_pos)
    qed
    then have last: "unat (a + gs - 1) = unat a - 1 + unat gs" by (simp add: algebra_simps)
    then have l: "unat l = min (unat b) (unat a - 1 + unat gs)"
      by (simp add: l_def min_def word_le_nat_alt)
    have l1: "unat (l + 1) = unat l + 1"
      using l 2(5) by (intro unat_Suc_no_wrap) simp
    have le: "unat a \<le> unat l" using l ab gs 2(7) by linarith
    have "concat (map (\<lambda>(x, y). [unat x..<Suc (unat y)]) (groupBounds m gs b (l + 1))) = [unat (l + 1)..<Suc (unat b)]"
    proof (rule 2(1) [OF True l_def 2(2-6)])
      show "1 \<le> unat (l + 1)" using l1 by simp
      show "unat gs dvd unat (l + 1) - 1" if "l + 1 \<le> b"
      proof -
        have "unat l + 1 \<le> unat b" using that l1 by (simp add: word_le_nat_alt)
        then have "unat l = unat a - 1 + unat gs" using l by linarith
        then show ?thesis using 2(8) [OF True] l1 by simp
      qed
      show "Suc (unat b) - unat (l + 1) \<le> m" using 2(9) l1 le by linarith
    qed
    moreover have "groupBounds (Suc m) gs b a = (a, l) # groupBounds m gs b (l + 1)"
      using True by (simp add: l_def Let_def)
    moreover have "[unat a..<Suc (unat b)] = [unat a..<Suc (unat l)] @ [Suc (unat l)..<Suc (unat b)]"
    proof -
      have "Suc (unat l) + (unat b - unat l) = Suc (unat b)" using l by simp
      then show ?thesis using upt_add_eq_append [of "unat a" "Suc (unat l)" "unat b - unat l"] le by simp
    qed
    ultimately show ?thesis by (simp only: l1 list.map concat.simps prod.case Suc_eq_plus1)
  qed
qed

section \<open>An interval, once\<close>

text \<open>
  How a receiver may change while its round goes on. A slot comes to be passed only while its
  interval is verified for the first time, under that interval's disclosed key.
\<close>

definition advances :: "'g openssl \<Rightarrow> receiver_state \<Rightarrow> receiver_state \<Rightarrow> bool" where
  "advances ssl s t \<longleftrightarrow> rs_ctxContext s = rs_ctxContext t \<and> slotCount s = slotCount t
     \<and> rs_mapDisclosedKeys s \<subseteq>\<^sub>m rs_mapDisclosedKeys t
     \<and> rs_setVerifiedIntervals s \<subseteq> rs_setVerifiedIntervals t
     \<and> (\<forall>n < slotCount s. packetAt s n \<noteq> None \<longrightarrow> packetAt t n = packetAt s n)
     \<and> (\<forall>n < slotCount s. statusAt t n = StatusPassed \<longrightarrow> statusAt s n = StatusPassed
          \<or> slotInterval (rs_prm s) n \<notin> rs_setVerifiedIntervals s
            \<and> slotInterval (rs_prm s) n \<in> rs_setVerifiedIntervals t
            \<and> (\<exists>key. rs_mapDisclosedKeys t (slotInterval (rs_prm s) n) = Some key \<and> genuine ssl t key n))"

lemma advances_refl: "advances ssl s s"
  by (simp add: advances_def map_le_def)

lemma genuine_persists:
  assumes "genuine ssl s key n" "n < slotCount s" "advances ssl s t"
  shows "genuine ssl t key n"
  using genuine_mono [of s t, OF _ assms(2,1)] assms(3) by (simp add: advances_def keepsPackets_def)

lemma advances_trans:
  assumes "advances ssl s t" "advances ssl t u"
  shows "advances ssl s u"
  unfolding advances_def
proof (intro conjI allI impI)
  note A = assms [unfolded advances_def]
  show "rs_ctxContext s = rs_ctxContext u" "slotCount s = slotCount u"
    "rs_setVerifiedIntervals s \<subseteq> rs_setVerifiedIntervals u" using A by auto
  show "rs_mapDisclosedKeys s \<subseteq>\<^sub>m rs_mapDisclosedKeys u" using A map_le_trans by blast
  fix n assume n: "n < slotCount s"
  then have nt: "n < slotCount t" using A by simp
  show "packetAt u n = packetAt s n" if "packetAt s n \<noteq> None"
    using A n nt that by metis
  let ?i = "slotInterval (rs_prm s) n"
  have i: "?i = slotInterval (rs_prm t) n" using A(1) by simp
  assume "statusAt u n = StatusPassed"
  then consider "statusAt t n = StatusPassed"
    | "?i \<notin> rs_setVerifiedIntervals t" "?i \<in> rs_setVerifiedIntervals u"
      "\<exists>key. rs_mapDisclosedKeys u ?i = Some key \<and> genuine ssl u key n"
    using A(2) nt unfolding i by blast
  then show "statusAt s n = StatusPassed \<or> ?i \<notin> rs_setVerifiedIntervals s \<and> ?i \<in> rs_setVerifiedIntervals u
      \<and> (\<exists>key. rs_mapDisclosedKeys u ?i = Some key \<and> genuine ssl u key n)"
  proof cases
    case 1
    then consider "statusAt s n = StatusPassed"
      | key where "?i \<notin> rs_setVerifiedIntervals s" "?i \<in> rs_setVerifiedIntervals t"
        "rs_mapDisclosedKeys t ?i = Some key" "genuine ssl t key n"
      using A(1) n by blast
    then show ?thesis
    proof cases
      case 2
      have "rs_mapDisclosedKeys u ?i = Some key" using A(2) 2(3) by (auto simp: map_le_def dom_def)
      moreover have "genuine ssl u key n" using genuine_persists [OF 2(4) nt assms(2)] .
      moreover have "?i \<in> rs_setVerifiedIntervals u" using A(2) 2(2) by blast
      ultimately show ?thesis using 2(1) by blast
    qed blast
  next
    case 2
    moreover have "?i \<notin> rs_setVerifiedIntervals s" using A(1) 2(1) by blast
    ultimately show ?thesis by blast
  qed
qed

interpretation adv: members_relation "\<lambda>s t. advances ssl (fst s) (fst t)" for ssl
  by unfold_locales (rule advances_refl, rule advances_trans)

lemma advances_frame: "leaves id m \<Longrightarrow> advances ssl (fst s) (fst (snd (m s)))"
  using leavesD [of id m s] by (simp add: advances_refl)

text \<open>An update that touches neither the slots nor what is verified, and keeps the keys.\<close>

lemma advances_same:
  assumes "rs_ctxContext s = rs_ctxContext t" "rs_vecPacketRecords s = rs_vecPacketRecords t"
    "rs_mapDisclosedKeys s \<subseteq>\<^sub>m rs_mapDisclosedKeys t" "rs_setVerifiedIntervals s = rs_setVerifiedIntervals t"
  shows "advances ssl s t"
  using assms by (simp add: advances_def slotCount_def packetAt_def statusAt_def)

lemma mark_from_trans:
  assumes "settled s = settled rs \<longrightarrow> marks good s t" "settled t = settled rs \<longrightarrow> marks good t u"
  shows "settled s = settled rs \<longrightarrow> marks good s u"
  using assms by (metis marks_def marks_trans)

interpretation mark_from: members_relation
  "\<lambda>s t. settled (fst s) = settled rs \<longrightarrow> marks good (fst s) (fst t)" for rs good
  by unfold_locales (simp add: marks_refl, erule (1) mark_from_trans)

text \<open>The slots of an interval that verify under its key.\<close>

definition inInterval :: "receiver_state \<Rightarrow> u32 \<Rightarrow> nat \<Rightarrow> bool" where
  "inInterval rs i n \<longleftrightarrow> unat (intervalFirst (rs_prm rs) i) \<le> n \<and> n \<le> unat (intervalLast (rs_prm rs) i)"

lemma verifyNativeInterval_good:
  assumes "prm_modeAuthentication (rs_prm (fst s)) = ModeNative"
  shows "marks (\<lambda>n. genuine (env_ssl env) (fst s) key n \<and> inInterval (fst s) i n) (fst s)
    (fst (snd (verifyNativeInterval env i key s)))"
proof (cases "nativeVerdict (rs_crp (env_ssl env) (fst s)) (fst s) i (intervalFirst (rs_prm (fst s)) i)
      (intervalLast (rs_prm (fst s)) i) key")
  case (Inl e)
  then show ?thesis by (simp add: verifyNativeInterval_def act_simps Let_def rs_crp_def marks_refl)
next
  case (Inr statuses)
  show ?thesis
    by (rule marks_mono [OF verifyNativeInterval_marks [OF Inr]])
      (use nativePassed_genuine [OF Inr assms] in \<open>simp add: inInterval_def\<close>)
qed

lemma mkImprovedTeslaStrategy_positive: "mkImprovedTeslaStrategy 0 d \<noteq> Inr mat"
  by (simp add: mkImprovedTeslaStrategy_def mkKsRsMatrix_def)

lemma interval_groups:
  assumes prm: "prm_ok prm" and i: "1 \<le> unat i" "unat i \<le> prm_nDataIntervalCount prm"
    and imp: "prm_optImprovedParameters prm = Some imp" "imp_u32GroupSize imp \<noteq> 0"
  defines "a \<equiv> intervalFirst prm i" and "b \<equiv> intervalLast prm i"
  shows "concat (map (\<lambda>(x, y). [unat x..<Suc (unat y)])
      (groupBounds (Suc (unat b) - unat a) (imp_u32GroupSize imp) b a)) = [unat a..<Suc (unat b)]"
proof (rule groupBounds_cover)
  let ?p = "unat (prm_u32PacketsPerInterval prm)" and ?g = "unat (imp_u32GroupSize imp)"
  note B = interval_bounds [OF prm i, folded a_def b_def] and P = prm_ok_bounds [OF prm]
  have dvd: "?g dvd ?p" using prm imp(1) by (simp add: prm_ok_def)
  show "?g dvd unat i * ?p" using dvd by simp
  show "unat i * ?p < 2 ^ 32" by (rule B(4))
  show "unat b \<le> unat i * ?p" using B(2) by simp
  have "unat b \<le> 200000" using B(2) P(2) by simp
  then show "unat b + 1 < 2 ^ 32" by simp
  show "imp_u32GroupSize imp \<noteq> 0" by (rule imp(2))
  show "1 \<le> unat a" using B(1) by simp
  show "?g dvd unat a - 1" using B(1) dvd by simp
qed simp

lemma group_in_interval:
  assumes "concat (map (\<lambda>(x, y). [unat x..<Suc (unat y)]) bounds) = [a..<Suc b]" "(x, y) \<in> set bounds"
    "unat x \<le> n" "n \<le> unat y"
  shows "a \<le> n \<and> n \<le> b"
proof -
  have "n \<in> set (concat (map (\<lambda>(x, y). [unat x..<Suc (unat y)]) bounds))"
    using assms(2-4) by (auto intro!: bexI [of _ "(x, y)"])
  then have "n \<in> set [a..<Suc b]" unfolding assms(1) .
  then show ?thesis unfolding set_upt by (simp add: less_Suc_eq_le)
qed

lemma groupBounds_last: "(u, v) \<in> set (groupBounds m gs b a) \<Longrightarrow> unat v \<le> unat b"
  by (induction m gs b a rule: groupBounds.induct)
    (auto simp: Let_def word_le_nat_alt min_def split: if_splits)

lemma intervalLast_total: "unat (intervalLast prm i) \<le> unat (prm_u32TotalPacketCount prm)"
  by (simp add: intervalLast_def min_def word_le_nat_alt)

lemma verifyImprovedInterval_good:
  assumes mode: "prm_modeAuthentication (rs_prm (fst s)) \<noteq> ModeNative"
    and prm: "prm_ok (rs_prm (fst s))" and i: "1 \<le> unat i" "unat i \<le> prm_nDataIntervalCount (rs_prm (fst s))"
  shows "marks (\<lambda>n. genuine (env_ssl env) (fst s) key n \<and> inInterval (fst s) i n) (fst s)
    (fst (snd (verifyImprovedInterval env i key s)))"
proof (cases "prm_optImprovedParameters (rs_prm (fst s))")
  case None
  then show ?thesis
    by (simp add: verifyImprovedInterval_def act_simps Let_def optParameters_def optValue_def marks_refl)
next
  case (Some imp)
  let ?rs = "fst s" and ?a = "intervalFirst (rs_prm (fst s)) i" and ?b = "intervalLast (rs_prm (fst s)) i"
  let ?mk = "mkImprovedTeslaStrategy (unat (imp_u32GroupSize imp)) (unat (imp_u32DetectionThreshold imp))"
  show ?thesis
  proof (cases ?mk)
    case (Inl e)
    with Some show ?thesis
      by (simp add: verifyImprovedInterval_def act_simps Let_def optParameters_def optValue_def marks_refl)
  next
    case (Inr mat)
    have "imp_u32GroupSize imp \<noteq> 0" using Inr mkImprovedTeslaStrategy_positive by auto
    note cover = interval_groups [OF prm i Some this]
    let ?bounds = "groupBounds (Suc (unat ?b) - unat ?a) (imp_u32GroupSize imp) ?b ?a"
    let ?good = "\<lambda>n. genuine (env_ssl env) ?rs key n \<and> inInterval ?rs i n"
    have run: "verifyImprovedInterval env i key s
        = forA (verifyImprovedGroup env (rs_crp (env_ssl env) ?rs) mat (imp_u32GroupSize imp) i key) ?bounds s"
      using Some Inr
      by (simp add: verifyImprovedInterval_def act_simps Let_def optParameters_def optValue_def rs_crp_def)
    have "settled (fst s) = settled ?rs \<longrightarrow> marks ?good (fst s) (fst (snd (forA
        (verifyImprovedGroup env (rs_crp (env_ssl env) ?rs) mat (imp_u32GroupSize imp) i key) ?bounds s)))"
    proof (rule mark_from.for_loop, rule impI)
      fix x :: "u32 \<times> u32" and t :: focus
      assume x: "x \<in> set ?bounds" and t: "settled (fst t) = settled ?rs"
      obtain u v where uv: "x = (u, v)" by (cases x)
      have "inInterval ?rs i n" if "unat u \<le> n" "n \<le> unat v" for n
        using group_in_interval [OF cover, of u v n] x uv that by (simp add: inInterval_def)
      then show "marks ?good (fst t) (fst (snd (verifyImprovedGroup env (rs_crp (env_ssl env) ?rs) mat
          (imp_u32GroupSize imp) i key x t)))"
        unfolding uv using order_trans [OF groupBounds_last intervalLast_total, OF x [unfolded uv]]
        by (intro marks_mono [OF verifyImprovedGroup_marks [OF mode Some Inr t refl]]) simp_all
    qed
    then show ?thesis unfolding run by simp
  qed
qed

lemma advances_verified:
  assumes m: "marks (\<lambda>n. genuine ssl s key n \<and> inInterval s i n) s t"
    and prm: "prm_ok (rs_prm s)" "1 \<le> unat i" "unat i \<le> prm_nDataIntervalCount (rs_prm s)"
    and key: "rs_mapDisclosedKeys s i = Some key" and new: "i \<notin> rs_setVerifiedIntervals s"
  shows "advances ssl s (t\<lparr>rs_setVerifiedIntervals := insert i (rs_setVerifiedIntervals t)\<rparr>)"
    (is "advances ssl s ?t")
proof -
  have st: "settled s = settled t" and ver: "rs_setVerifiedIntervals s = rs_setVerifiedIntervals t"
    and pass: "\<And>n. n < slotCount s \<Longrightarrow> statusAt t n = StatusPassed \<Longrightarrow> statusAt s n \<noteq> StatusPassed
      \<Longrightarrow> genuine ssl s key n \<and> inInterval s i n"
    using m by (auto simp: marks_def)
  note E = settled_eq [OF st]
  have pk: "packetAt ?t n = packetAt s n" if "n < slotCount s" for n
    using E(8) [of n] that E(2) by (simp add: packetAt_def)
  have ctx: "rs_ctxContext s = rs_ctxContext ?t" using E(1) by simp
  show ?thesis
    unfolding advances_def
  proof (intro conjI allI impI)
    show "rs_ctxContext s = rs_ctxContext ?t" by (rule ctx)
    show "slotCount s = slotCount ?t" using E(2) by (simp add: slotCount_def)
    show "rs_mapDisclosedKeys s \<subseteq>\<^sub>m rs_mapDisclosedKeys ?t" using E(3) by simp
    show "rs_setVerifiedIntervals s \<subseteq> rs_setVerifiedIntervals ?t" using ver by auto
    fix n assume n: "n < slotCount s"
    show "packetAt ?t n = packetAt s n" by (rule pk [OF n])
    assume "statusAt ?t n = StatusPassed"
    then have tp: "statusAt t n = StatusPassed" by (simp add: statusAt_def)
    show "statusAt s n = StatusPassed
      \<or> slotInterval (rs_prm s) n \<notin> rs_setVerifiedIntervals s
        \<and> slotInterval (rs_prm s) n \<in> rs_setVerifiedIntervals ?t
        \<and> (\<exists>key. rs_mapDisclosedKeys ?t (slotInterval (rs_prm s) n) = Some key \<and> genuine ssl ?t key n)"
    proof (cases "statusAt s n = StatusPassed")
      case False
      from pass [OF n tp this] have g: "genuine ssl s key n" and iv: "inInterval s i n" by simp_all
      have "slotInterval (rs_prm s) n = i"
        using slotInterval_eq [OF prm] iv by (simp add: inInterval_def)
      moreover have "keepsPackets s ?t" using ctx E(2) pk by (simp add: keepsPackets_def slotCount_def)
      then have "genuine ssl ?t key n" using genuine_mono n g by blast
      moreover have "rs_mapDisclosedKeys ?t i = Some key" using key E(3) by simp
      ultimately show ?thesis using new by simp
    qed simp
  qed
qed

lemma verifyInterval_advances:
  assumes prm: "prm_ok (rs_prm (fst s))" "1 \<le> unat i" "unat i \<le> prm_nDataIntervalCount (rs_prm (fst s))"
  shows "advances (env_ssl env) (fst s) (fst (snd (verifyInterval env i s)))"
proof (cases "i \<in> rs_setVerifiedIntervals (fst s)")
  case True
  then show ?thesis by (simp add: verifyInterval_def act_simps advances_refl)
next
  case new: False
  show ?thesis
  proof (cases "rs_mapDisclosedKeys (fst s) i")
    case None
    with new show ?thesis by (simp add: verifyInterval_def act_simps advances_refl)
  next
    case (Some key)
    let ?m = "if prm_modeAuthentication (rs_prm (fst s)) = ModeNative
           then verifyNativeInterval env i key else verifyImprovedInterval env i key"
    let ?good = "\<lambda>n. genuine (env_ssl env) (fst s) key n \<and> inInterval (fst s) i n"
    have m: "marks ?good (fst s) (fst (snd (?m s)))"
      using verifyNativeInterval_good [of s env key i] verifyImprovedInterval_good [OF _ prm] by auto
    have c: "marks ?good (fst s) (fst (snd (catchA ?m (updA setIncomplete) s)))"
    proof (rule mark.catch)
      show "marks ?good (fst s) (fst (snd (?m s)))" by (rule m)
      show "marks ?good (fst t) (fst (snd (updA setIncomplete t)))" for t
        using incomplete_marks [of _ t True] by (simp add: whenA_def)
    qed
    obtain t where t: "catchA ?m (updA setIncomplete) s = (Inr (), t)"
      by (cases "?m s"; cases "fst (?m s)") (auto simp: catchA_def updA_run)
    have "fst (snd (verifyInterval env i s))
        = (fst t)\<lparr>rs_setVerifiedIntervals := insert i (rs_setVerifiedIntervals (fst t))\<rparr>"
      using new Some t by (simp add: verifyInterval_def act_simps thenA_def bindA_def)
    then show ?thesis using advances_verified [OF _ prm Some new, of "env_ssl env" "fst t"] c t by simp
  qed
qed

section \<open>A datagram\<close>

text \<open>Within one round every step is of this kind.\<close>

definition advA :: "'g openssl \<Rightarrow> receiver_context \<Rightarrow> (focus, 'a) act \<Rightarrow> bool" where
  "advA ssl ctx m \<longleftrightarrow> (\<forall>s. rs_ctxContext (fst s) = ctx \<longrightarrow> advances ssl (fst s) (fst (snd (m s))))"

lemma adv_from_trans:
  assumes "rs_ctxContext s = ctx \<longrightarrow> advances ssl s t" "rs_ctxContext t = ctx \<longrightarrow> advances ssl t u"
  shows "rs_ctxContext s = ctx \<longrightarrow> advances ssl s u"
  using assms by (metis advances_def advances_trans)

interpretation adv_from: members_relation
  "\<lambda>s t. rs_ctxContext (fst s) = ctx \<longrightarrow> advances ssl (fst s) (fst t)" for ssl ctx
  by unfold_locales (simp add: advances_refl, erule (1) adv_from_trans)

named_theorems adv_rules \<open>steps within a round\<close>

lemma advA_basic [adv_rules]:
  "advA ssl ctx (retA x)" "advA ssl ctx (throwA e)" "advA ssl ctx (liftA r)" "advA ssl ctx (rsA g)"
  by (simp_all add: advA_def act_run rsA_run advances_refl)

lemma advA_bind [adv_rules]: "advA ssl ctx m \<Longrightarrow> (\<And>x. advA ssl ctx (g x)) \<Longrightarrow> advA ssl ctx (bindA m g)"
  unfolding advA_def using adv_from.bind by metis

lemma advAD: "advA ssl ctx m \<Longrightarrow> rs_ctxContext (fst s) = ctx \<Longrightarrow> advances ssl (fst s) (fst (snd (m s)))"
  unfolding advA_def by blast

text \<open>What is read is read from a receiver of this context.\<close>

lemma advA_read:
  assumes "\<And>rs. rs_ctxContext rs = ctx \<Longrightarrow> advA ssl ctx (g (f rs))"
  shows "advA ssl ctx (bindA (rsA f) g)"
  unfolding advA_def
proof (intro allI impI)
  fix s :: focus
  assume c: "rs_ctxContext (fst s) = ctx"
  from advAD [OF assms [OF c] c] show "advances ssl (fst s) (fst (snd (bindA (rsA f) g s)))"
    by (simp add: bind_rsA)
qed

lemma advA_then [adv_rules]: "advA ssl ctx m \<Longrightarrow> advA ssl ctx n \<Longrightarrow> advA ssl ctx (thenA m n)"
  unfolding thenA_def by (rule advA_bind) auto

lemma advA_when [adv_rules]: "(b \<Longrightarrow> advA ssl ctx m) \<Longrightarrow> advA ssl ctx (whenA b m)"
  by (simp add: whenA_def advA_basic)

lemma advA_catch [adv_rules]: "advA ssl ctx m \<Longrightarrow> advA ssl ctx n \<Longrightarrow> advA ssl ctx (catchA m n)"
  unfolding advA_def using adv_from.catch by metis

lemma advA_for [adv_rules]: "(\<And>x. x \<in> set xs \<Longrightarrow> advA ssl ctx (g x)) \<Longrightarrow> advA ssl ctx (forA g xs)"
  unfolding advA_def using adv_from.for_loop by metis

lemma advA_branches [adv_rules]:
  "(b \<Longrightarrow> advA ssl ctx m) \<Longrightarrow> (\<not> b \<Longrightarrow> advA ssl ctx n) \<Longrightarrow> advA ssl ctx (if b then m else n)"
  "advA ssl ctx m \<Longrightarrow> (\<And>x. advA ssl ctx (g x)) \<Longrightarrow> advA ssl ctx (case opt of None \<Rightarrow> m | Some x \<Rightarrow> g x)"
  "(\<And>x y. advA ssl ctx (h x y)) \<Longrightarrow> advA ssl ctx (case pr of (x, y) \<Rightarrow> h x y)"
  "(\<And>x. advA ssl ctx (g x)) \<Longrightarrow> advA ssl ctx (Let y g)"
  by (auto split: option.split prod.split)

lemma advA_leaves: "leaves id m \<Longrightarrow> advA ssl ctx m"
  unfolding advA_def using advances_frame by blast

lemma advA_reports [adv_rules]:
  "advA ssl ctx nextObservationEventId" "advA ssl ctx (pushObservation ob)"
  "advA ssl ctx (queuePacketObservation env udp raw ts ev n st reason ip src)"
  "advA ssl ctx (queueFailure env fr)" "advA ssl ctx (queueRecord env rec d reason)"
  "advA ssl ctx (queueCandidate env c st reason)" "advA ssl ctx (queueDatagram env que udp ev st reason)"
  by (intro advA_leaves leaves_rules)+

lemma advA_upd:
  assumes "\<And>rs. rs_ctxContext (h rs) = rs_ctxContext rs" "\<And>rs. rs_vecPacketRecords (h rs) = rs_vecPacketRecords rs"
    "\<And>rs. rs_mapDisclosedKeys (h rs) = rs_mapDisclosedKeys rs"
    "\<And>rs. rs_setVerifiedIntervals (h rs) = rs_setVerifiedIntervals rs"
  shows "advA ssl ctx (updA h)"
  unfolding advA_def by (auto simp: updA_run assms intro!: advances_same)

lemma advA_updates [adv_rules]:
  "advA ssl ctx (updA setIncomplete)" "advA ssl ctx (updA (setCandidates j cs))"
  "advA ssl ctx (updA (\<lambda>rs. rs\<lparr>rs_bActive := b1, rs_bResultReported := b2\<rparr>))"
  "advA ssl ctx (updA (\<lambda>rs. rs\<lparr>rs_bPaused := b1\<rparr>))"
  "advA ssl ctx (updA (\<lambda>rs. rs\<lparr>rs_u32ReceivedPacketCount := rs_u32ReceivedPacketCount rs + 1\<rparr>))"
  by (intro advA_upd; simp add: setIncomplete_def setCandidates_def)+

lemma advA_verifyInterval [adv_rules]:
  assumes "prm_ok (rcv_prmRoundParameters ctx)" "1 \<le> unat i" "unat i \<le> prm_nDataIntervalCount (rcv_prmRoundParameters ctx)"
  shows "advA (env_ssl env) ctx (verifyInterval env i)"
  unfolding advA_def using verifyInterval_advances assms by blast

lemma advA_missing [adv_rules]: "advA ssl ctx (queueMissingPacketFailures env)"
  unfolding queueMissingPacketFailures_def missingFailure_def by (intro adv_rules)

text \<open>A key that was not known is added.\<close>

lemma advA_newKey:
  "rs_ctxContext (fst s) = ctx \<Longrightarrow> rs_mapDisclosedKeys (fst s) i = None \<Longrightarrow>
   advances ssl (fst s) ((fst s)\<lparr>rs_mapDisclosedKeys := (rs_mapDisclosedKeys (fst s))(i \<mapsto> k)\<rparr>)"
  by (rule advances_same) (auto simp: map_le_def dom_def)

lemma unat_interval_index:
  assumes "prm_ok prm" "n \<le> prm_nDataIntervalCount prm"
  shows "unat (of_nat n :: u32) = n"
  using prm_ok_bounds(4) [OF assms(1)] assms(2) by (simp add: unat_of_nat)

lemma advA_recoverKeys:
  assumes prm: "prm_ok (rcv_prmRoundParameters ctx)" and n: "n \<le> prm_nDataIntervalCount (rcv_prmRoundParameters ctx)"
  shows "advA (env_ssl env) ctx (recoverKeys env crp n dig)"
  using n
proof (induction n arbitrary: dig)
  case 0
  then show ?case by (simp add: advA_basic)
next
  case (Suc n)
  let ?i = "of_nat (Suc n) :: u32"
  have i: "unat ?i = Suc n" using unat_interval_index [OF prm Suc.prems] .
  let ?rest = "thenA (verifyInterval env ?i)
    (bindA (liftA (digHash crp (vecToByteBuffer dig))) (recoverKeys env crp n))"
  have rest: "advA (env_ssl env) ctx ?rest"
    using Suc.IH Suc.prems i by (intro adv_rules prm) (simp_all del: of_nat_Suc)
  show ?case
    unfolding advA_def
  proof (intro allI impI)
    fix s :: focus
    assume c: "rs_ctxContext (fst s) = ctx"
    show "advances (env_ssl env) (fst s) (fst (snd (recoverKeys env crp (Suc n) dig s)))"
    proof (cases "rs_mapDisclosedKeys (fst s) ?i")
      case (Some old)
      have "advA (env_ssl env) ctx (if \<not> bDigestEquals old dig then incompleteA False else ?rest)"
      proof (cases "bDigestEquals old dig")
        case True
        then show ?thesis using rest by (simp del: of_nat_Suc)
      next
        case False
        then show ?thesis by (simp add: incompleteA_def adv_rules)
      qed
      from advAD [OF this c] Some show ?thesis by (simp add: act_simps Let_def del: of_nat_Suc split del: if_split)
    next
      case None
      let ?s = "((fst s)\<lparr>rs_mapDisclosedKeys := (rs_mapDisclosedKeys (fst s))(?i \<mapsto> dig)\<rparr>, snd s)"
      have "recoverKeys env crp (Suc n) dig s = ?rest ?s"
        using None by (simp add: act_simps Let_def del: of_nat_Suc)
      moreover have "advances (env_ssl env) (fst ?s) (fst (snd (?rest ?s)))"
        using rest c by (simp add: advA_def del: of_nat_Suc)
      moreover have "advances (env_ssl env) (fst s) (fst ?s)" using advA_newKey [OF c None] by simp
      ultimately show ?thesis using advances_trans by metis
    qed
  qed
qed

lemma advA_finalize:
  assumes prm: "prm_ok (rcv_prmRoundParameters ctx)"
  shows "advA (env_ssl env) ctx (finalize env)"
  unfolding finalize_def
proof (rule advA_read)
  fix rs :: receiver_state
  assume c: "rs_ctxContext rs = ctx"
  have "advA (env_ssl env) ctx (verifyInterval env x)"
    if "x \<in> set (map of_nat [1..<Suc (prm_nDataIntervalCount (rs_prm rs))])" for x
  proof -
    from that obtain k where "x = of_nat k" "1 \<le> k" "k \<le> prm_nDataIntervalCount (rcv_prmRoundParameters ctx)"
      using c by auto
    then show ?thesis
      using unat_interval_index [OF prm] by (intro advA_verifyInterval prm) simp_all
  qed
  then show "advA (env_ssl env) ctx
    (thenA (forA (verifyInterval env) (map of_nat [1..<Suc (prm_nDataIntervalCount (rs_prm rs))]))
     (thenA (queueMissingPacketFailures env)
     (thenA (updA (\<lambda>rs. rs\<lparr>rs_bActive := False, rs_bResultReported := True\<rparr>))
     (bindA (rsA id) (\<lambda>rs.
      bindA (liftA (varIncompletePayloadDetails rs)) (\<lambda>detIncomplete.
      bindA (tryRecover env detIncomplete) (\<lambda>(det, bPayloadRecovered).
      bindA (rsA id) (\<lambda>rs.
      case finalStatus rs bPayloadRecovered of (status, strMessage) \<Rightarrow>
        liftA (resultOf rs status det strMessage)))))))))"
    unfolding tryRecover_def
    by (intro advA_then advA_for advA_bind advA_basic advA_branches advA_catch advA_missing advA_updates)
qed

lemma advA_processDisclosedKey:
  assumes prm: "prm_ok (rcv_prmRoundParameters ctx)"
  shows "advA (env_ssl env) ctx (processDisclosedKey env i key)"
  unfolding processDisclosedKey_def incompleteA_def Let_def
  by (rule advA_read)
    (intro advA_bind advA_then advA_basic advA_branches advA_updates advA_finalize advA_recoverKeys prm, simp)

text \<open>A packet takes an empty slot.\<close>

lemma slot_setRecord:
  assumes "m < slotCount rs"
  shows "packetAt (setRecord n rec rs) m = (if m = n then rec_optPacket rec else packetAt rs m)"
    "statusAt (setRecord n rec rs) m = (if m = n then rec_statusPacket rec else statusAt rs m)"
  using assms by (auto simp: packetAt_def statusAt_def setRecord_def slotCount_def)

lemma setRecord_fields [simp]:
  "rs_ctxContext (setRecord n rec rs) = rs_ctxContext rs" "slotCount (setRecord n rec rs) = slotCount rs"
  "rs_mapDisclosedKeys (setRecord n rec rs) = rs_mapDisclosedKeys rs"
  "rs_setVerifiedIntervals (setRecord n rec rs) = rs_setVerifiedIntervals rs"
  by (simp_all add: setRecord_def slotCount_def)

lemma advances_store:
  assumes "packetAt rs n = None" "rec_statusPacket rec = StatusPending"
  shows "advances ssl rs (setRecord n rec rs)"
  using assms by (auto simp: advances_def slot_setRecord split: if_splits)

lemma advances_recount:
  "advances ssl rs (setRecord n ((rs_vecPacketRecords rs ! n)\<lparr>rec_u32DuplicateCount := c\<rparr>) rs)"
  by (auto simp: advances_def slot_setRecord packetAt_def [symmetric] statusAt_def [symmetric] split: if_splits)

lemma nextObservationEventId_run:
  obtains ev t where "nextObservationEventId s = (Inr ev, t)" "fst t = fst s"
  by (cases s) (auto simp: nextObservationEventId_def thenA_def bindA_def act_run)

text \<open>The ways a data packet can go.\<close>

lemma processData_cases:
  fixes d que env s
  defines "j \<equiv> unat (ud_u32PacketIndex d)"
  obtains
    (late) "\<not> bIsPacketTimeSafe (fst s) (ud_u32IntervalIndex d) (que_u64ReceiveTimestampMilliseconds que)"
      "processData env que d s = thenA (rejectLate env que d) (retA []) s"
  | (hash_failed) e where "processData env que d s = (Inl e, s)"
  | (duplicate) c where "packetAt (fst s) j \<noteq> None" "fst (snd (processData env que d s))
      = setRecord j ((rs_vecPacketRecords (fst s) ! j)\<lparr>rec_u32DuplicateCount := c\<rparr>) (fst s)"
  | (conflict) h where "processData env que d s = thenA (conflictingCandidate env que d h) (retA []) s"
  | (attack) h where "processData env que d s = thenA (earlyAttack env que d h) (retA []) s"
  | (store) h ev t where "packetAt (fst s) j = None" "que_typeSource que \<noteq> AttackInjection"
      "bIsPacketTimeSafe (fst s) (ud_u32IntervalIndex d) (que_u64ReceiveTimestampMilliseconds que)"
      "strCandidateHash (env_ssl env) (que_vecDatagram que) = Inr h"
      "nextObservationEventId s = (Inr ev, t)" "fst t = fst s"
      "processData env que d s
        = packetStored env (newRecord que d ev h) d (setRecord j (newRecord que d ev h) (fst s), snd t)"
proof (cases "bIsPacketTimeSafe (fst s) (ud_u32IntervalIndex d) (que_u64ReceiveTimestampMilliseconds que)")
  case False
  moreover from this have "processData env que d s = thenA (rejectLate env que d) (retA []) s"
    by (simp add: processData_def act_simps)
  ultimately show thesis by (rule late)
next
  case safe: True
  show thesis
  proof (cases "strCandidateHash (env_ssl env) (que_vecDatagram que)")
    case (Inl e)
    with safe show thesis by (intro hash_failed) (simp add: processData_def act_simps)
  next
    case (Inr h)
    let ?rec = "recordAt (fst s) (ud_u32PacketIndex d)"
    show thesis
    proof (cases "rec_optPacket ?rec")
      case (Some old)
      show thesis
      proof (cases "rec_strCandidateHash ?rec = h")
        case True
        have "fst (snd (thenA (duplicateOfSlot env d h ?rec old) (retA ([] :: runtime_result list)) s))
            = setRecord j (?rec\<lparr>rec_u32DuplicateCount := rec_u32DuplicateCount ?rec + 1\<rparr>) (fst s)"
          unfolding duplicateOfSlot_def Let_def thenA_assoc j_def by (intro leaves_after_upd leaves_rules)
        then show thesis
          using Some True safe Inr
          by (intro duplicate) (simp_all add: processData_def act_simps Let_def recordAt_def packetAt_def j_def)
      qed (use Some safe Inr in \<open>intro conflict, simp add: processData_def act_simps Let_def\<close>)
    next
      case None
      show thesis
      proof (cases "que_typeSource que = AttackInjection")
        case True
        with None safe Inr show thesis by (intro attack) (simp add: processData_def act_simps Let_def)
      next
        case False
        obtain ev t where ev: "nextObservationEventId s = (Inr ev, t)" "fst t = fst s"
          using nextObservationEventId_run .
        have "processData env que d s
            = packetStored env (newRecord que d ev h) d (setRecord j (newRecord que d ev h) (fst s), snd t)"
          using False None safe Inr ev
          by (simp add: processData_def storePacket_def act_simps Let_def j_def bindA_def [of nextObservationEventId])
        with False None safe Inr ev show thesis
          by (intro store) (simp_all add: packetAt_def recordAt_def j_def)
      qed
    qed
  qed
qed

lemma advA_processData:
  assumes prm: "prm_ok (rcv_prmRoundParameters ctx)"
  shows "advA (env_ssl env) ctx (processData env que d)"
  unfolding advA_def
proof (intro allI impI)
  fix s :: focus
  assume c: "rs_ctxContext (fst s) = ctx"
  show "advances (env_ssl env) (fst s) (fst (snd (processData env que d s)))"
  proof (cases rule: processData_cases [where d = d and que = que and env = env and s = s])
    case late
    have "advA (env_ssl env) ctx (thenA (rejectLate env que d) (retA ([] :: runtime_result list)))"
      unfolding rejectLate_def by (intro adv_rules)
    from advAD [OF this c] late(2) show ?thesis by simp
  next
    case (conflict h)
    have "advA (env_ssl env) ctx (thenA (conflictingCandidate env que d h) (retA ([] :: runtime_result list)))"
      unfolding conflictingCandidate_def countDuplicate_def by (intro adv_rules)
    from advAD [OF this c] conflict show ?thesis by simp
  next
    case (attack h)
    have "advA (env_ssl env) ctx (thenA (earlyAttack env que d h) (retA ([] :: runtime_result list)))"
      unfolding earlyAttack_def countDuplicate_def by (intro adv_rules)
    from advAD [OF this c] attack show ?thesis by simp
  next
    case (store h ev t)
    let ?rec = "newRecord que d ev h"
    have "advances (env_ssl env) (fst s) (setRecord (unat (ud_u32PacketIndex d)) ?rec (fst s))"
      by (rule advances_store [OF store(1)]) (simp add: newRecord_def)
    moreover have "advA (env_ssl env) ctx (packetStored env ?rec d)"
      unfolding packetStored_def by (intro adv_rules advA_processDisclosedKey prm)
    from advAD [OF this, of "(setRecord (unat (ud_u32PacketIndex d)) ?rec (fst s), snd t)"] store(7) c
    have "advances (env_ssl env) (setRecord (unat (ud_u32PacketIndex d)) ?rec (fst s))
        (fst (snd (processData env que d s)))" by simp
    ultimately show ?thesis by (rule advances_trans)
  qed (simp_all add: advances_refl advances_recount)
qed

lemma advA_processDatagram:
  assumes prm: "prm_ok (rcv_prmRoundParameters ctx)"
  shows "advA (env_ssl env) ctx (processDatagram env que)"
proof -
  have "advA (env_ssl env) ctx (processDisclosure env que d)" for d
    unfolding processDisclosure_def by (intro adv_rules advA_processDisclosedKey prm)
  moreover note advA_processData [OF prm]
  ultimately have "advA (env_ssl env) ctx (case p of UdpDisclosure d \<Rightarrow> processDisclosure env que d
      | UdpData d \<Rightarrow> processData env que d)" for p
    by (cases p) auto
  then show ?thesis
    unfolding processDatagram_def
    by (intro advA_bind advA_basic advA_branches) (auto split: sum.split udp_packet.split_asm intro!: adv_rules)
qed

lemma advA_checkReceiver: "advA ssl ctx (checkReceiver env)"
  unfolding checkReceiver_def by (intro adv_rules)

end
