(* ===== verification/ReceiverInvariants.thy ===== *)
theory ReceiverInvariants
  imports ReceiverSafety Machines
begin

text \<open>
  The invariants of a receiver and of the runtime that holds it. \<open>base_ok\<close>: the slots, the keys
  and the count of received packets are consistent; \<open>passed_ok\<close>: a passed slot is genuine under
  the disclosed key of its interval; \<open>candidates_ok\<close>: at most three alternative versions per slot.
  \<open>runtime_ok\<close> lifts them to the runtime, whose operations keep it.
\<close>

section \<open>Properties an action keeps\<close>

definition keepA :: "(receiver_state \<Rightarrow> bool) \<Rightarrow> (focus, 'a) act \<Rightarrow> bool" where
  "keepA P m \<longleftrightarrow> (\<forall>s. P (fst s) \<longrightarrow> P (fst (snd (m s))))"

lemma keepAD: "keepA P m \<Longrightarrow> P (fst s) \<Longrightarrow> P (fst (snd (m s)))"
  unfolding keepA_def by blast

named_theorems keep_rules \<open>actions that keep a property of the receiver\<close>

lemma keepA_basic [keep_rules]:
  "keepA P (retA x)" "keepA P (throwA e)" "keepA P (liftA r)" "keepA P (rsA g)"
  by (simp_all add: keepA_def act_run rsA_run)

lemma keepA_bind [keep_rules]: "keepA P m \<Longrightarrow> (\<And>x. keepA P (g x)) \<Longrightarrow> keepA P (bindA m g)"
  unfolding keepA_def using keeps.bind [of "\<lambda>s. P (fst s)"] by metis

lemma keepA_read:
  assumes "\<And>rs. P rs \<Longrightarrow> keepA P (g (f rs))"
  shows "keepA P (bindA (rsA f) g)"
  unfolding keepA_def
proof (intro allI impI)
  fix s :: focus
  assume c: "P (fst s)"
  from keepAD [of P "g (f (fst s))" s, OF assms [OF c] c] show "P (fst (snd (bindA (rsA f) g s)))"
    by (simp add: bind_rsA)
qed

lemma keepA_then [keep_rules]: "keepA P m \<Longrightarrow> keepA P n \<Longrightarrow> keepA P (thenA m n)"
  unfolding thenA_def by (rule keepA_bind) auto

lemma keepA_when [keep_rules]: "(b \<Longrightarrow> keepA P m) \<Longrightarrow> keepA P (whenA b m)"
  by (simp add: whenA_def keepA_basic)

lemma keepA_catch [keep_rules]: "keepA P m \<Longrightarrow> keepA P n \<Longrightarrow> keepA P (catchA m n)"
  unfolding keepA_def using keeps.catch [of "\<lambda>s. P (fst s)"] by metis

lemma keepA_for [keep_rules]: "(\<And>x. x \<in> set xs \<Longrightarrow> keepA P (g x)) \<Longrightarrow> keepA P (forA g xs)"
  unfolding keepA_def using keeps.for_loop [of xs "\<lambda>s. P (fst s)"] by metis

lemma keepA_branches [keep_rules]:
  "(b \<Longrightarrow> keepA P m) \<Longrightarrow> (\<not> b \<Longrightarrow> keepA P n) \<Longrightarrow> keepA P (if b then m else n)"
  "keepA P m \<Longrightarrow> (\<And>x. keepA P (g x)) \<Longrightarrow> keepA P (case opt of None \<Rightarrow> m | Some x \<Rightarrow> g x)"
  "(\<And>x y. keepA P (h x y)) \<Longrightarrow> keepA P (case pr of (x, y) \<Rightarrow> h x y)"
  "(\<And>x. keepA P (g x)) \<Longrightarrow> keepA P (Let y g)"
  by (auto split: option.split prod.split)

lemma keepA_leaves: "leaves id m \<Longrightarrow> keepA P m"
  unfolding keepA_def using leavesD [of id m] by simp

lemma keepA_reports [keep_rules]:
  "keepA P nextObservationEventId" "keepA P (pushObservation ob)"
  "keepA P (queuePacketObservation env udp raw ts ev n st reason ip src)"
  "keepA P (queueFailure env fr)" "keepA P (queueRecord env rec d reason)"
  "keepA P (queueCandidate env c st reason)" "keepA P (queueDatagram env que udp ev st reason)"
  "keepA P (queueMissingPacketFailures env)"
  by (intro keepA_leaves leaves_rules | simp add: queueMissingPacketFailures_def missingFailure_def)+

lemma keepA_upd: "(\<And>rs. P rs \<Longrightarrow> P (h rs)) \<Longrightarrow> keepA P (updA h)"
  by (simp add: keepA_def updA_run)

section \<open>What verification leaves alone\<close>

text \<open>Verifying an interval writes verdicts and candidates; the rest is settled.\<close>

lemma marks_leaves:
  assumes "\<And>s. marks (\<lambda>_. True) (fst s) (fst (snd (m s)))"
  shows "leaves settled m"
  using assms by (simp add: leaves_def marks_def)

lemma verifyInterval_settled: "leaves settled (verifyInterval env i)"
proof -
  have nb: "leaves settled (nativeBaseline env crp i key n st)" for crp key n st
    by (rule marks_leaves) (rule nativeBaseline_marks, simp)
  have wv: "leaves settled (writeVerdict a b p det)" for a b p det
    by (rule marks_leaves) (rule marks_mono [OF writeVerdict_marks], simp)
  have ja: "leaves settled (judgeAttack env crp mat i g a b tags key path)" for crp mat g a b tags key path
    by (rule judgeAttack_leaves) simp
  have nc: "leaves settled (nativeCandidates env crp i key j)" for crp key j
    by (rule nativeCandidates_leaves) simp
  have si: "leaves settled (updA setIncomplete)" by (rule leaves_upd) simp
  have ver: "leaves settled (updA (\<lambda>rs. rs\<lparr>rs_setVerifiedIntervals := insert i (rs_setVerifiedIntervals rs)\<rparr>))"
    by (rule leaves_upd) (simp add: settled_def)
  show ?thesis
    unfolding verifyInterval_def verifyNativeInterval_def verifyImprovedInterval_def verifyImprovedGroup_def
    by (intro leaves_rules nb wv ja nc si ver)
qed

lemma keepA_verifyInterval:
  assumes "\<And>s t. settled s = settled t \<Longrightarrow> P s \<Longrightarrow> P t"
  shows "keepA P (verifyInterval env i)"
  unfolding keepA_def using leavesD [OF verifyInterval_settled] assms by metis

section \<open>Consistent slots, keys and counts\<close>

definition slots_ok :: "receiver_state \<Rightarrow> bool" where
  "slots_ok rs \<longleftrightarrow>
     (slotCount rs = 0 \<and> \<not> rs_bActive rs \<or> slotCount rs = unat (prm_u32TotalPacketCount (rs_prm rs)) + 1)
     \<and> (\<forall>n < slotCount rs. \<forall>d. packetAt rs n = Some d \<longrightarrow> n \<noteq> 0 \<and> unat (ud_u32PacketIndex d) = n
          \<and> ud_u32IntervalIndex d = slotInterval (rs_prm rs) n)
     \<and> unat (rs_u32ReceivedPacketCount rs) = card {n. n < slotCount rs \<and> packetAt rs n \<noteq> None}"

definition keys_ok :: "'g openssl \<Rightarrow> receiver_state \<Rightarrow> bool" where
  "keys_ok ssl rs \<longleftrightarrow> (\<forall>i key. rs_mapDisclosedKeys rs i = Some key \<longrightarrow>
     1 \<le> unat i \<and> unat i \<le> prm_nDataIntervalCount (rs_prm rs)
     \<and> hashTimes (rs_crp ssl rs) (unat i) key = Inr (rcv_digCommitmentKey (rs_ctxContext rs)))"

definition base_ok :: "'g openssl \<Rightarrow> receiver_state \<Rightarrow> bool" where
  "base_ok ssl rs \<longleftrightarrow> prm_ok (rs_prm rs) \<and> slots_ok rs \<and> keys_ok ssl rs"

lemma base_ok_settled:
  assumes "settled s = settled t" "base_ok ssl s"
  shows "base_ok ssl t"
proof -
  note E = settled_eq [OF assms(1)]
  have "{n. n < slotCount t \<and> packetAt s n \<noteq> None} = {n. n < slotCount t \<and> packetAt t n \<noteq> None}"
    using E(8) by auto
  then show ?thesis
    using assms(2) E by (simp add: base_ok_def slots_ok_def keys_ok_def rs_crp_def)
qed

text \<open>Of a round with a given context.\<close>

definition in_round :: "'g openssl \<Rightarrow> receiver_context \<Rightarrow> receiver_state \<Rightarrow> bool" where
  "in_round ssl ctx rs \<longleftrightarrow> base_ok ssl rs \<and> rs_ctxContext rs = ctx"

lemma in_round_settled: "settled s = settled t \<Longrightarrow> in_round ssl ctx s \<Longrightarrow> in_round ssl ctx t"
  using base_ok_settled settled_eq(1) unfolding in_round_def by metis

lemma in_round_upd:
  assumes "\<And>rs. rs_ctxContext (h rs) = rs_ctxContext rs" "\<And>rs. rs_vecPacketRecords (h rs) = rs_vecPacketRecords rs"
    "\<And>rs. rs_mapDisclosedKeys (h rs) = rs_mapDisclosedKeys rs"
    "\<And>rs. rs_u32ReceivedPacketCount (h rs) = rs_u32ReceivedPacketCount rs"
    "\<And>rs. rs_bActive (h rs) \<Longrightarrow> rs_bActive rs"
  shows "in_round ssl ctx rs \<Longrightarrow> in_round ssl ctx (h rs)"
  using assms
  by (auto simp: in_round_def base_ok_def slots_ok_def keys_ok_def rs_crp_def slotCount_def packetAt_def)

lemma in_round_updates [keep_rules]:
  "keepA (in_round ssl ctx) (updA setIncomplete)" "keepA (in_round ssl ctx) (updA (setCandidates j cs))"
  "keepA (in_round ssl ctx) (updA (\<lambda>rs. rs\<lparr>rs_bActive := False, rs_bResultReported := b2\<rparr>))"
  "keepA (in_round ssl ctx) (updA (\<lambda>rs. rs\<lparr>rs_bPaused := b1\<rparr>))"
  by (intro keepA_upd; erule in_round_upd [rotated -1]; simp add: setIncomplete_def setCandidates_def)+

lemma in_round_verify [keep_rules]: "keepA (in_round ssl ctx) (verifyInterval env i)"
  by (rule keepA_verifyInterval) (rule in_round_settled)

lemma in_round_newKey:
  assumes "in_round ssl ctx rs" "1 \<le> unat i" "unat i \<le> prm_nDataIntervalCount (rcv_prmRoundParameters ctx)"
    "hashTimes (OpenSslCryptoProvider ssl (prm_algCryptoAlgorithm (rcv_prmRoundParameters ctx))) (unat i) key
      = Inr (rcv_digCommitmentKey ctx)"
  shows "in_round ssl ctx (rs\<lparr>rs_mapDisclosedKeys := (rs_mapDisclosedKeys rs)(i \<mapsto> key)\<rparr>)"
  using assms by (auto simp: in_round_def base_ok_def slots_ok_def keys_ok_def rs_crp_def slotCount_def packetAt_def)

lemma in_round_recoverKeys:
  assumes crp: "crp = OpenSslCryptoProvider ssl (prm_algCryptoAlgorithm (rcv_prmRoundParameters ctx))"
    and prm: "prm_ok (rcv_prmRoundParameters ctx)"
  shows "n \<le> prm_nDataIntervalCount (rcv_prmRoundParameters ctx) \<Longrightarrow> hashTimes crp n dig = Inr (rcv_digCommitmentKey ctx)
    \<Longrightarrow> keepA (in_round ssl ctx) (recoverKeys env crp n dig)"
proof (induction n arbitrary: dig)
  case 0
  then show ?case by (simp add: keepA_basic)
next
  case (Suc n)
  let ?i = "of_nat (Suc n) :: u32"
  have i: "unat ?i = Suc n" using unat_interval_index [OF prm Suc.prems(1)] .
  obtain dig' where nx: "digHash crp (vecToByteBuffer dig) = Inr dig'" "hashTimes crp n dig' = Inr (rcv_digCommitmentKey ctx)"
    using Suc.prems(2) by (auto simp: andThen_Inr_iff)
  let ?rest = "thenA (verifyInterval env ?i)
    (bindA (liftA (digHash crp (vecToByteBuffer dig))) (recoverKeys env crp n))"
  have rest: "keepA (in_round ssl ctx) ?rest"
    using Suc.IH [of dig'] Suc.prems(1) nx by (intro keepA_then in_round_verify) (simp add: bindA_lift)
  have put: "keepA (in_round ssl ctx) (updA (\<lambda>rs. rs\<lparr>rs_mapDisclosedKeys := (rs_mapDisclosedKeys rs)(?i \<mapsto> dig)\<rparr>))"
    using Suc.prems i crp by (intro keepA_upd in_round_newKey) (simp_all del: of_nat_Suc)
  have keep_if: "keepA (in_round ssl ctx) (if \<not> bDigestEquals old dig then incompleteA False else ?rest)" for old
    using rest by (simp add: incompleteA_def keep_rules del: of_nat_Suc)
  show ?case
    unfolding recoverKeys.simps Let_def
    by (intro keepA_bind keepA_basic keepA_branches(2) keep_if keepA_then [OF put] rest)
qed

lemma bVerifyDisclosedKey_True:
  "bVerifyDisclosedKey crp d n c = Inr True \<Longrightarrow> hashTimes crp n d = Inr c"
  by (auto simp: bVerifyDisclosedKey_def andThen_Inr_iff)

lemma in_round_finalize: "keepA (in_round ssl ctx) (finalize env)"
  unfolding finalize_def tryRecover_def by (intro keep_rules)

lemma in_round_processDisclosedKey:
  assumes "prm_ok (rcv_prmRoundParameters ctx)"
  shows "keepA (in_round (env_ssl env) ctx) (processDisclosedKey env i key)"
  unfolding processDisclosedKey_def
proof (rule keepA_read, unfold Let_def id_def, intro keepA_branches(1))
  fix rs
  assume rs: "in_round (env_ssl env) ctx rs"
  let ?prm = "rcv_prmRoundParameters ctx"
  have prm: "rs_prm rs = ?prm" "rs_ctxContext rs = ctx" using rs by (simp_all add: in_round_def)
  show "keepA (in_round (env_ssl env) ctx) (incompleteA (False, [] :: runtime_result list))"
    "keepA (in_round (env_ssl env) ctx) (incompleteA (False, [] :: runtime_result list))"
    unfolding incompleteA_def by (intro keep_rules)+
  let ?k = "unat (i - prm_u32DisclosureDelay (rs_prm rs))"
  let ?crp = "OpenSslCryptoProvider (env_ssl env) (prm_algCryptoAlgorithm (rs_prm rs))"
  assume k: "\<not> prm_nDataIntervalCount (rs_prm rs) < ?k"
  show "keepA (in_round (env_ssl env) ctx) (bindA (liftA (bVerifyDisclosedKey ?crp key ?k
         (rcv_digCommitmentKey (rs_ctxContext rs)))) (\<lambda>bKeyVerified.
       if \<not> bKeyVerified then incompleteA (False, [])
       else bindA (recoverKeys env ?crp ?k key) (\<lambda>bConsistent.
         if \<not> bConsistent then retA (False, [])
         else if ?k = prm_nDataIntervalCount (rs_prm rs)
         then bindA (finalize env) (\<lambda>res. retA (True, [res]))
         else retA (True, []))))"
  proof (cases "bVerifyDisclosedKey ?crp key ?k (rcv_digCommitmentKey (rs_ctxContext rs))")
    case (Inl e)
    then show ?thesis by (simp add: keepA_def act_simps)
  next
    case (Inr b)
    have rk: "keepA (in_round (env_ssl env) ctx) (recoverKeys env ?crp ?k key)" if b
    proof (rule in_round_recoverKeys [OF _ assms])
      show "hashTimes ?crp ?k key = Inr (rcv_digCommitmentKey ctx)"
        using bVerifyDisclosedKey_True Inr that prm(2) by metis
    qed (use k in \<open>simp_all add: prm\<close>)
    show ?thesis
      unfolding Inr incompleteA_def bindA_lift
      by (intro keepA_branches(1) keepA_bind keepA_then keepA_basic in_round_updates in_round_finalize rk, simp)
  qed
qed

section \<open>A packet in its slot\<close>

lemma in_round_store:
  assumes rs: "in_round ssl ctx rs" and n: "n = unat (ud_u32PacketIndex d)" "n \<noteq> 0" "n < slotCount rs"
    and iv: "ud_u32IntervalIndex d = slotInterval (rcv_prmRoundParameters ctx) n"
    and empty: "packetAt rs n = None" and rec: "rec_optPacket rec = Some d"
  shows "in_round ssl ctx (setRecord n rec rs\<lparr>rs_u32ReceivedPacketCount := rs_u32ReceivedPacketCount rs + 1\<rparr>)"
proof -
  let ?S = "{m. m < slotCount rs \<and> packetAt rs m \<noteq> None}"
  let ?t = "setRecord n rec rs\<lparr>rs_u32ReceivedPacketCount := rs_u32ReceivedPacketCount rs + 1\<rparr>"
  have pk: "packetAt ?t m = (if m = n then Some d else packetAt rs m)" if "m < slotCount rs" for m
    using slot_setRecord(1) [OF that, of n rec] rec by (simp add: packetAt_def)
  have sc: "slotCount ?t = slotCount rs" using setRecord_fields(2) [of n rec rs] by (simp add: slotCount_def)
  have "{m. m < slotCount rs \<and> packetAt ?t m \<noteq> None} = insert n ?S" using pk n(3) by auto
  moreover have "n \<notin> ?S" using empty by simp
  ultimately have card: "card {m. m < slotCount rs \<and> packetAt ?t m \<noteq> None} = card ?S + 1" by simp
  have S: "slots_ok rs" "prm_ok (rcv_prmRoundParameters ctx)" "rs_ctxContext rs = ctx" "keys_ok ssl rs"
    using rs by (auto simp: in_round_def base_ok_def)
  have "?S \<subseteq> {m. m < slotCount rs} - {n}" using empty by auto
  then have "card ?S \<le> card ({m. m < slotCount rs} - {n})" by (intro card_mono) auto
  also have "\<dots> < slotCount rs" using n(3) by simp
  finally have "card ?S < slotCount rs" .
  moreover have "slotCount rs \<le> 200001"
    using S(1,3) prm_ok_bounds(2) [OF S(2)] by (auto simp: slots_ok_def)
  moreover have cnt: "unat (rs_u32ReceivedPacketCount rs) = card ?S" using S(1) by (simp add: slots_ok_def)
  ultimately have "unat (rs_u32ReceivedPacketCount rs + 1) = card ?S + 1"
    by (subst unat_Suc_no_wrap) simp_all
  with card have c: "unat (rs_u32ReceivedPacketCount ?t) = card {m. m < slotCount ?t \<and> packetAt ?t m \<noteq> None}"
    by (simp add: sc)
  have "slots_ok ?t"
    unfolding slots_ok_def
  proof (intro conjI c allI impI)
    show "slotCount ?t = 0 \<and> \<not> rs_bActive ?t \<or> slotCount ?t = unat (prm_u32TotalPacketCount (rs_prm ?t)) + 1"
      using S(1) n(3) by (simp add: sc slots_ok_def)
    fix m e
    assume m: "m < slotCount ?t" and e: "packetAt ?t m = Some e"
    have "m \<noteq> 0 \<and> unat (ud_u32PacketIndex e) = m \<and> ud_u32IntervalIndex e = slotInterval (rs_prm rs) m"
    proof (cases "m = n")
      case True
      then show ?thesis using e m pk [of m] n iv S(3) sc by simp
    next
      case False
      then show ?thesis using e m pk [of m] S(1) sc by (simp add: slots_ok_def)
    qed
    then show "m \<noteq> 0" "unat (ud_u32PacketIndex e) = m" "ud_u32IntervalIndex e = slotInterval (rs_prm ?t) m"
      by simp_all
  qed
  then show ?thesis
    using S by (simp add: in_round_def base_ok_def keys_ok_def rs_crp_def)
qed

text \<open>What decoding under the round's context establishes.\<close>

lemma decoded_data_index:
  assumes u: "ctxCreatePacketContext prm = Inr uctx" and dec: "udp_resDecode bs uctx = Inr (Inr (UdpData d))"
    and prm: "prm_ok prm"
  shows "ud_u32PacketIndex d \<noteq> 0" "ud_u32PacketIndex d \<le> prm_u32TotalPacketCount prm"
    "ud_u32IntervalIndex d = slotInterval prm (unat (ud_u32PacketIndex d))"
proof -
  have ctx: "context_ok uctx" "ctx_u32PacketsPerInterval uctx = prm_u32PacketsPerInterval prm"
    "ctx_u32TotalPacketCount uctx = prm_u32TotalPacketCount prm"
    using u by (auto simp: ctxCreatePacketContext_def mkUdpContext_Inr andThen_Inr_iff split: if_splits)
  have "encodeData d uctx = Inr bs" using udp_decode_sound [OF dec] by (simp add: udp_vecEncode_def)
  then have iv: "u32ExpectedInterval uctx (ud_u32PacketIndex d) = Inr (ud_u32IntervalIndex d)"
    using encodeData_Inr [of d uctx bs] udp_decode_sound [OF dec] by (auto simp: data_fits_def)
  then show "ud_u32PacketIndex d \<noteq> 0" "ud_u32PacketIndex d \<le> prm_u32TotalPacketCount prm"
    using ctx(3) by (auto simp: u32ExpectedInterval_def split: if_splits)
  have "unat (ud_u32IntervalIndex d) = (unat (ud_u32PacketIndex d) - 1) div unat (prm_u32PacketsPerInterval prm) + 1"
    using expected_interval_ok(1) [OF ctx(1) iv] ctx(2) by simp
  then have "of_nat (unat (ud_u32IntervalIndex d)) = slotInterval prm (unat (ud_u32PacketIndex d))"
    unfolding slotInterval_def by simp
  then show "ud_u32IntervalIndex d = slotInterval prm (unat (ud_u32PacketIndex d))" by simp
qed

lemma in_round_recount:
  "in_round ssl ctx rs \<Longrightarrow>
   in_round ssl ctx (setRecord n ((rs_vecPacketRecords rs ! n)\<lparr>rec_u32DuplicateCount := c\<rparr>) rs)"
proof -
  let ?t = "setRecord n ((rs_vecPacketRecords rs ! n)\<lparr>rec_u32DuplicateCount := c\<rparr>) rs"
  assume rs: "in_round ssl ctx rs"
  have pk: "packetAt ?t m = packetAt rs m" if "m < slotCount rs" for m
    using slot_setRecord(1) [OF that] by (simp add: packetAt_def)
  then have "{m. m < slotCount rs \<and> packetAt ?t m \<noteq> None} = {m. m < slotCount rs \<and> packetAt rs m \<noteq> None}"
    by auto
  moreover have "rs_bActive ?t = rs_bActive rs" "rs_u32ReceivedPacketCount ?t = rs_u32ReceivedPacketCount rs"
    by (simp_all add: setRecord_def)
  ultimately show ?thesis
    using rs pk by (auto simp: in_round_def base_ok_def slots_ok_def keys_ok_def rs_crp_def)
qed

lemma in_round_processData:
  assumes prm: "prm_ok (rcv_prmRoundParameters ctx)"
    and d: "ud_u32PacketIndex d \<noteq> 0" "ud_u32PacketIndex d \<le> prm_u32TotalPacketCount (rcv_prmRoundParameters ctx)"
      "ud_u32IntervalIndex d = slotInterval (rcv_prmRoundParameters ctx) (unat (ud_u32PacketIndex d))"
    and s: "in_round (env_ssl env) ctx (fst s)" "rs_bActive (fst s)"
  shows "in_round (env_ssl env) ctx (fst (snd (processData env que d s)))"
proof (cases rule: processData_cases [where d = d and que = que and env = env and s = s])
  case late
  have "keepA (in_round (env_ssl env) ctx) (thenA (rejectLate env que d) (retA ([] :: runtime_result list)))"
    unfolding rejectLate_def by (intro keep_rules)
  from keepAD [OF this s(1)] late(2) show ?thesis by simp
next
  case (conflict h)
  have "keepA (in_round (env_ssl env) ctx) (thenA (conflictingCandidate env que d h) (retA ([] :: runtime_result list)))"
    unfolding conflictingCandidate_def countDuplicate_def Let_def by (intro keep_rules in_round_updates)
  from keepAD [OF this s(1)] conflict show ?thesis by simp
next
  case (attack h)
  have "keepA (in_round (env_ssl env) ctx) (thenA (earlyAttack env que d h) (retA ([] :: runtime_result list)))"
    unfolding earlyAttack_def countDuplicate_def Let_def by (intro keep_rules in_round_updates)
  from keepAD [OF this s(1)] attack show ?thesis by simp
next
  case (store h ev t)
  let ?j = "unat (ud_u32PacketIndex d)" and ?rec = "newRecord que d ev h"
  let ?s = "(setRecord ?j ?rec (fst s), snd t)"
  let ?next = "thenA (queueRecord env ?rec d ''Waiting for disclosed key'')
     (case ud_optDisclosedKey d of None \<Rightarrow> retA []
      | Some digKey \<Rightarrow> bindA (processDisclosedKey env (ud_u32IntervalIndex d) digKey) (\<lambda>(_, vecResults).
            retA vecResults))"
  have "?j < slotCount (fst s)" "?j \<noteq> 0"
    using s d(1,2) by (auto simp: in_round_def base_ok_def slots_ok_def word_le_nat_alt unat_eq_0)
  from in_round_store [OF s(1) refl this(2,1) d(3) store(1), of ?rec]
  have put: "in_round (env_ssl env) ctx (setRecord ?j ?rec (fst s)
      \<lparr>rs_u32ReceivedPacketCount := rs_u32ReceivedPacketCount (fst s) + 1\<rparr>)"
    by (simp add: newRecord_def)
  have run: "processData env que d s = ?next (setRecord ?j ?rec (fst s)
      \<lparr>rs_u32ReceivedPacketCount := rs_u32ReceivedPacketCount (fst s) + 1\<rparr>, snd t)"
    using store(7) by (simp add: packetStored_def then_updA setRecord_def)
  have K: "keepA (in_round (env_ssl env) ctx) ?next"
    by (intro keepA_then keepA_branches keepA_bind keepA_basic keepA_reports in_round_processDisclosedKey prm)
  show ?thesis unfolding run by (rule keepAD [OF K]) (simp add: put)
qed (use s in_round_recount in auto)

lemma in_round_processDatagram:
  assumes prm: "prm_ok (rcv_prmRoundParameters ctx)"
  shows "keepA (in_round (env_ssl env) ctx) (processDatagram env que)"
  unfolding keepA_def
proof (intro allI impI)
  fix s :: focus
  let ?P = "in_round (env_ssl env) ctx"
  assume P: "?P (fst s)"
  then have c: "rs_ctxContext (fst s) = ctx" by (simp add: in_round_def)
  let ?t = "fst (snd (processDatagram env que s))"
  show "?P ?t"
  proof (cases "\<not> rs_bActive (fst s) \<or> rs_bResultReported (fst s)")
    case True
    with P show ?thesis by (simp add: processDatagram_def act_simps)
  next
    case act: False
    show ?thesis
    proof (cases "ctxCreatePacketContext (rcv_prmRoundParameters ctx)")
      case (Inl e)
      with P act c show ?thesis by (simp add: processDatagram_def act_simps)
    next
      case (Inr uctx)
      obtain dec where dec: "udp_resDecode (que_vecDatagram que) uctx = Inr dec"
        using udp_resDecode_total by blast
      have run: "processDatagram env que s = (case dec of
         Inl _ \<Rightarrow>
           thenA (updA setIncomplete)
           (thenA (queueFailure env ((report FailProtocolError 0 0 0 []
                ''UDP authentication payload failed context-aware decoding'')
              \<lparr>fr_strActualSourceIp := que_strActualSourceIp que\<rparr>))
           (retA []))
       | Inr (UdpDisclosure d) \<Rightarrow> processDisclosure env que d
       | Inr (UdpData d) \<Rightarrow> processData env que d) s"
        using act Inr dec c by (simp add: processDatagram_def act_simps)
      have dis: "keepA ?P (processDisclosure env que d)" for d
        unfolding processDisclosure_def by (intro keep_rules in_round_processDisclosedKey prm)
      show ?thesis
      proof (cases dec)
        case (Inl e)
        have "keepA ?P (thenA (updA setIncomplete)
           (thenA (queueFailure env ((report FailProtocolError 0 0 0 []
                ''UDP authentication payload failed context-aware decoding'')
              \<lparr>fr_strActualSourceIp := que_strActualSourceIp que\<rparr>))
           (retA ([] :: runtime_result list))))"
          by (intro keep_rules)
        from keepAD [OF this P] run Inl show ?thesis by simp
      next
        case (Inr p)
        show ?thesis
        proof (cases p)
          case (UdpDisclosure d)
          with keepAD [OF dis P] run Inr show ?thesis by simp
        next
          case (UdpData d)
          note D = decoded_data_index [OF \<open>ctxCreatePacketContext _ = Inr uctx\<close> _ prm]
          have "udp_resDecode (que_vecDatagram que) uctx = Inr (Inr (UdpData d))" using dec Inr UdpData by simp
          note D = D [OF this]
          from in_round_processData [OF prm D P] act have "?P (fst (snd (processData env que d s)))" by simp
          with run Inr UdpData show ?thesis by simp
        qed
      qed
    qed
  qed
qed

lemma in_round_checkReceiver: "keepA (in_round ssl ctx) (checkReceiver env)"
  unfolding checkReceiver_def by (intro keep_rules)

section \<open>Bounded alternative versions\<close>

definition candidates_ok :: "receiver_state \<Rightarrow> bool" where
  "candidates_ok rs \<longleftrightarrow> (\<forall>j. length (candidatesOf rs j) < MAX_CANDIDATE_VERSIONS_PER_PACKET)"

lemma candidates_ok_same:
  "rs_mapAdditionalCandidates s = rs_mapAdditionalCandidates t \<Longrightarrow> candidates_ok s \<Longrightarrow> candidates_ok t"
  by (simp add: candidates_ok_def candidatesOf_def)

lemma candidates_ok_set:
  "candidates_ok rs \<Longrightarrow> length cs < MAX_CANDIDATE_VERSIONS_PER_PACKET \<Longrightarrow> candidates_ok (setCandidates j cs rs)"
  by (simp add: candidates_ok_def candidatesOf_def setCandidates_def)

lemma keepA_leaves_candidates: "leaves rs_mapAdditionalCandidates m \<Longrightarrow> keepA candidates_ok m"
  unfolding keepA_def using leavesD [of rs_mapAdditionalCandidates m] candidates_ok_same by metis

lemma setRecord_candidates: "rs_mapAdditionalCandidates (setRecord n rec rs) = rs_mapAdditionalCandidates rs"
  by (simp add: setRecord_def)

lemma verdict_leaves_candidates:
  "leaves rs_mapAdditionalCandidates (nativeBaseline env crp i key n st)"
  "leaves rs_mapAdditionalCandidates (writeVerdict a b p det)"
  "leaves rs_mapAdditionalCandidates (updA setIncomplete)"
  unfolding nativeBaseline_def writeVerdict_def setStatus_def
  by (intro leaves_rules leaves_upd; simp add: setRecord_candidates setIncomplete_def Let_def)+

lemma length_failFirstAttack [simp]: "length (failFirstAttack cs) = length cs"
  by (induction cs) simp_all

lemma nativeCandidates_keep: "keepA candidates_ok (nativeCandidates env crp i key j)"
proof -
  have upd: "keepA candidates_ok (updA (setCandidates j ((candidatesOf rs j)[n := c])))"
    if "candidates_ok rs" for rs n c
    using that by (intro keepA_upd candidates_ok_set) (simp_all add: candidates_ok_def)
  have "keepA candidates_ok (nativeCandidate env crp i key j n)" for n
    unfolding nativeCandidate_def Let_def
    by (rule keepA_read, unfold id_def) (intro keep_rules upd)
  then show ?thesis unfolding nativeCandidates_def by (intro keep_rules)
qed

lemma judgeAttack_keep: "keepA candidates_ok (judgeAttack env crp mat i g a b tags key path)"
proof -
  have "keepA candidates_ok (updA (\<lambda>rs. setCandidates j (failFirstAttack (candidatesOf rs j)) rs))" for j
    by (intro keepA_upd candidates_ok_set) (simp_all add: candidates_ok_def)
  then have f: "keepA candidates_ok (failAttack env i g det loc j)" for det loc j
    unfolding failAttack_def by (intro keep_rules)
  have "keepA candidates_ok (pushGroupObservation env g a b p det loc st)" for p det loc st
    by (intro keepA_leaves leaves_rules)
  moreover have "keepA candidates_ok (unverifiableAttack env i g j)" for j
    by (intro keepA_leaves leaves_rules)
  ultimately show ?thesis unfolding judgeAttack_def Let_def by (intro keep_rules f)
qed

lemma verifyInterval_candidates: "keepA candidates_ok (verifyInterval env i)"
proof -
  note L = verdict_leaves_candidates [THEN keepA_leaves_candidates]
  have "keepA candidates_ok (observeGroup env i g a b det)" for g a b det
    by (intro keepA_leaves leaves_rules)
  moreover have "keepA candidates_ok (updA setIncomplete)" by (rule L)
  moreover have "keepA candidates_ok (updA (\<lambda>rs. rs\<lparr>rs_setVerifiedIntervals := insert i (rs_setVerifiedIntervals rs)\<rparr>))"
    by (intro keepA_upd) (erule candidates_ok_same [rotated], simp)
  ultimately show ?thesis
    unfolding verifyInterval_def verifyNativeInterval_def verifyImprovedInterval_def verifyImprovedGroup_def Let_def
    by (intro keep_rules L nativeCandidates_keep judgeAttack_keep)
qed

lemma candidates_updates:
  "keepA candidates_ok (updA setIncomplete)"
  "keepA candidates_ok (updA (\<lambda>rs. rs\<lparr>rs_bActive := b1, rs_bResultReported := b2\<rparr>))"
  "keepA candidates_ok (updA (\<lambda>rs. rs\<lparr>rs_bPaused := b1\<rparr>))"
  "keepA candidates_ok (updA (\<lambda>rs. rs\<lparr>rs_mapDisclosedKeys := (rs_mapDisclosedKeys rs)(j \<mapsto> k)\<rparr>))"
  "keepA candidates_ok (updA (\<lambda>rs. rs\<lparr>rs_u32ReceivedPacketCount := rs_u32ReceivedPacketCount rs + 1\<rparr>))"
  "keepA candidates_ok (updA (setRecord n rec))"
  by (intro keepA_upd; erule candidates_ok_same [rotated]; simp add: setIncomplete_def setRecord_candidates)+

lemma recoverKeys_candidates: "keepA candidates_ok (recoverKeys env crp n dig)"
  by (induction n arbitrary: dig)
    (auto simp: Let_def incompleteA_def simp del: of_nat_Suc
      intro!: keep_rules verifyInterval_candidates candidates_updates)

lemma processDisclosedKey_candidates: "keepA candidates_ok (processDisclosedKey env i key)"
  unfolding processDisclosedKey_def incompleteA_def finalize_def tryRecover_def Let_def
  by (intro keep_rules recoverKeys_candidates verifyInterval_candidates candidates_updates)

lemma processDatagram_candidates: "keepA candidates_ok (processDatagram env que)"
proof -
  have set: "keepA candidates_ok (updA (setCandidates j cs))" if "length cs < MAX_CANDIDATE_VERSIONS_PER_PACKET" for j cs
    using that by (intro keepA_upd candidates_ok_set)
  have len: "length (candidatesOf rs j) < MAX_CANDIDATE_VERSIONS_PER_PACKET" if "candidates_ok rs" for rs j
    using that by (simp add: candidates_ok_def)
  have conflict: "keepA candidates_ok (conflictingCandidate env que d h)" for d h
    unfolding conflictingCandidate_def Let_def countDuplicate_def
    by (rule keepA_read, intro keep_rules set) (auto dest: len)
  have attack: "keepA candidates_ok (earlyAttack env que d h)" for d h
    unfolding earlyAttack_def Let_def countDuplicate_def
    by (rule keepA_read, intro keep_rules set) (auto dest: len)
  have "keepA candidates_ok (processData env que d)" for d
    unfolding processData_def rejectLate_def duplicateOfSlot_def storePacket_def packetStored_def Let_def
    by (intro keep_rules conflict attack processDisclosedKey_candidates candidates_updates)
  moreover have "keepA candidates_ok (processDisclosure env que d)" for d
    unfolding processDisclosure_def by (intro keep_rules processDisclosedKey_candidates)
  ultimately have "keepA candidates_ok (case p of UdpDisclosure d \<Rightarrow> processDisclosure env que d
      | UdpData d \<Rightarrow> processData env que d)" for p by (cases p) auto
  then show ?thesis
    unfolding processDatagram_def
    by (intro keepA_bind keepA_basic keepA_branches)
      (auto split: sum.split udp_packet.split_asm intro!: keep_rules candidates_updates)
qed

lemma checkReceiver_candidates: "keepA candidates_ok (checkReceiver env)"
  unfolding checkReceiver_def Let_def by (intro keep_rules candidates_updates)

end
