(* ===== verification/ReceiverLive.thy ===== *)
theory ReceiverLive
  imports ReceiverInvariants
begin

text \<open>
  What a result of a round is built from: \<open>live_ok\<close> says that a slot without a packet has no status
  and that the context and the round of an active receiver are named. Every datagram and every
  timeout check keeps it.
\<close>

section \<open>What a result is built from\<close>

text \<open>A slot without a packet has no status; the context and the round of an active receiver are named.\<close>

definition slot_filled :: "packet_record \<Rightarrow> bool" where
  "slot_filled rec \<longleftrightarrow> (rec_optPacket rec = None \<longrightarrow> rec_statusPacket rec = StatusEmpty)"

definition ctx_ok :: "receiver_context \<Rightarrow> bool" where
  "ctx_ok ctx \<longleftrightarrow> rcv_strSenderId ctx \<noteq> [] \<and> rcv_u64ChainId ctx \<noteq> 0
     \<and> (prm_modePayload (rcv_prmRoundParameters ctx) = PayloadText
        \<or> (\<exists>b. b \<noteq> 0 \<and> rcv_varPayloadDetails ctx = FileReceiverPayloadDetails b))"

definition live_ok :: "receiver_state \<Rightarrow> bool" where
  "live_ok rs \<longleftrightarrow> list_all slot_filled (rs_vecPacketRecords rs) \<and> ctx_ok (rs_ctxContext rs)
     \<and> (rs_bActive rs \<longrightarrow> rs_strRoundId rs \<noteq> [])"

definition liveParts :: "receiver_state \<Rightarrow> packet_record list \<times> receiver_context \<times> bool \<times> string" where
  "liveParts rs = (rs_vecPacketRecords rs, rs_ctxContext rs, rs_bActive rs, rs_strRoundId rs)"

lemma live_ok_set: "live_ok rs \<Longrightarrow> slot_filled rec \<Longrightarrow> live_ok (setRecord n rec rs)"
  using set_update_subset_insert [of "rs_vecPacketRecords rs" n rec]
  by (auto simp: live_ok_def setRecord_def list_all_iff)

lemma keepA_live: "leaves liveParts m \<Longrightarrow> keepA live_ok m"
  unfolding keepA_def live_ok_def using leavesD [of liveParts m] by (simp add: liveParts_def)

lemma live_updates:
  "keepA live_ok (updA setIncomplete)" "keepA live_ok (updA (setCandidates j cs))"
  "keepA live_ok (updA (\<lambda>rs. rs\<lparr>rs_bActive := False, rs_bResultReported := b2\<rparr>))"
  "keepA live_ok (updA (\<lambda>rs. rs\<lparr>rs_bPaused := b1\<rparr>))"
  "keepA live_ok (updA (\<lambda>rs. rs\<lparr>rs_u32ReceivedPacketCount := rs_u32ReceivedPacketCount rs + 1\<rparr>))"
  "keepA live_ok (updA (\<lambda>rs. rs\<lparr>rs_mapDisclosedKeys := (rs_mapDisclosedKeys rs)(i \<mapsto> key)\<rparr>))"
  "keepA live_ok (updA (\<lambda>rs. rs\<lparr>rs_setVerifiedIntervals := insert i (rs_setVerifiedIntervals rs)\<rparr>))"
  by (intro keepA_upd; simp add: live_ok_def setIncomplete_def setCandidates_def)+

lemma live_set: "rec_optPacket rec \<noteq> None \<Longrightarrow> keepA live_ok (updA (setRecord n rec))"
  by (intro keepA_upd live_ok_set) (auto simp: slot_filled_def)

lemma keepA_option:
  "(opt = None \<Longrightarrow> keepA P m) \<Longrightarrow> (\<And>x. opt = Some x \<Longrightarrow> keepA P (g x))
    \<Longrightarrow> keepA P (case opt of None \<Rightarrow> m | Some x \<Rightarrow> g x)"
  by (cases opt) auto

lemma nativeBaseline_live: "keepA live_ok (nativeBaseline env crp i key n st)"
  unfolding nativeBaseline_def Let_def
  by (rule keepA_read, rule keepA_option) (intro keep_rules live_set; simp)+

lemma setStatus_live: "keepA live_ok (setStatus st n)"
  unfolding setStatus_def Let_def
  by (intro keepA_upd) (auto intro!: live_ok_set simp: slot_filled_def)

lemma verifyInterval_live: "keepA live_ok (verifyInterval env i)"
proof -
  have cand: "keepA live_ok (nativeCandidates env crp i key j)" for crp key j
    by (intro keepA_live nativeCandidates_leaves) (simp add: setCandidates_def liveParts_def)
  have att: "keepA live_ok (judgeAttack env crp mat i g a b tags key path)" for crp mat g a b tags key path
    by (intro keepA_live judgeAttack_leaves) (simp add: setCandidates_def liveParts_def)
  have obs: "keepA live_ok (observeGroup env i g a b det)" for g a b det
    by (intro keepA_leaves leaves_rules)
  have wv: "keepA live_ok (writeVerdict a b p det)" for a b p det
    unfolding writeVerdict_def by (intro keep_rules setStatus_live)
  show ?thesis
    unfolding verifyInterval_def verifyNativeInterval_def verifyImprovedInterval_def verifyImprovedGroup_def Let_def
    by (intro keep_rules cand att obs wv nativeBaseline_live live_updates)
qed

lemma processDisclosedKey_live: "keepA live_ok (processDisclosedKey env i key)"
proof -
  have "keepA live_ok (recoverKeys env crp n dig)" for crp n dig
    by (induction n arbitrary: dig)
      (auto simp: Let_def incompleteA_def simp del: of_nat_Suc
        intro!: keep_rules verifyInterval_live live_updates)
  then show ?thesis
    unfolding processDisclosedKey_def incompleteA_def finalize_def tryRecover_def Let_def
    by (intro keep_rules verifyInterval_live live_updates)
qed

lemma processDatagram_live: "keepA live_ok (processDatagram env que)"
proof -
  have dup: "keepA live_ok (duplicateOfSlot env d h rec0 dS)" if "rec_optPacket rec0 \<noteq> None" for d h rec0 dS
    unfolding duplicateOfSlot_def Let_def using that by (intro keep_rules live_set) simp
  have store: "keepA live_ok (storePacket env que d h)" for d h
    unfolding storePacket_def packetStored_def Let_def
    by (intro keep_rules live_set live_updates processDisclosedKey_live) (simp add: newRecord_def)
  have others: "keepA live_ok (rejectLate env que d)" "keepA live_ok (conflictingCandidate env que d h)"
    "keepA live_ok (earlyAttack env que d h)" for d h
    unfolding rejectLate_def conflictingCandidate_def earlyAttack_def countDuplicate_def Let_def
    by (intro keep_rules live_updates)+
  have dat: "keepA live_ok (processData env que d)" for d
    unfolding processData_def Let_def
    by (intro keepA_read keepA_branches(1) keepA_bind keepA_option keepA_then keepA_basic others store dup) simp
  have dis: "keepA live_ok (processDisclosure env que d)" for d
    unfolding processDisclosure_def by (intro keep_rules processDisclosedKey_live)
  have "keepA live_ok (case p of UdpDisclosure d \<Rightarrow> processDisclosure env que d
      | UdpData d \<Rightarrow> processData env que d)" for p by (cases p) (simp_all add: dat dis)
  then show ?thesis
    unfolding processDatagram_def
    by (intro keepA_bind keepA_basic keepA_branches)
      (auto split: sum.split udp_packet.split_asm intro!: keep_rules live_updates)
qed

lemma checkReceiver_live: "keepA live_ok (checkReceiver env)"
  unfolding checkReceiver_def Let_def by (intro keep_rules live_updates)

end
