(* ===== verification/RuntimeInvariants.thy ===== *)
theory RuntimeInvariants
  imports ReceiverLive ReceiverRuntime
begin

text \<open>
  The runtime with its receivers: \<open>receiver_ok\<close> collects the invariants of one receiver,
  \<open>runtime_ok\<close> lifts them to all of them and bounds the queue. Every public operation and every
  turn of the worker keeps \<open>runtime_ok\<close>, also one that throws; so does every history of calls.
\<close>

section \<open>One receiver\<close>

definition passed_ok :: "'g openssl \<Rightarrow> receiver_state \<Rightarrow> bool" where
  "passed_ok ssl rs \<longleftrightarrow> (\<forall>n < slotCount rs. statusAt rs n = StatusPassed \<longrightarrow>
     slotInterval (rs_prm rs) n \<in> rs_setVerifiedIntervals rs
     \<and> (\<exists>key. rs_mapDisclosedKeys rs (slotInterval (rs_prm rs) n) = Some key \<and> genuine ssl rs key n))"

definition receiver_ok :: "'g openssl \<Rightarrow> receiver_state \<Rightarrow> bool" where
  "receiver_ok ssl rs \<longleftrightarrow> base_ok ssl rs \<and> passed_ok ssl rs \<and> candidates_ok rs \<and> live_ok rs"

lemma passed_ok_advances:
  assumes p: "passed_ok ssl s" and a: "advances ssl s t"
  shows "passed_ok ssl t"
  unfolding passed_ok_def
proof (intro allI impI)
  note A = a [unfolded advances_def]
  fix n
  assume n: "n < slotCount t" and st: "statusAt t n = StatusPassed"
  have ns: "n < slotCount s" and iv: "slotInterval (rs_prm t) n = slotInterval (rs_prm s) n" using A n by simp_all
  let ?i = "slotInterval (rs_prm s) n"
  have "?i \<in> rs_setVerifiedIntervals t
      \<and> (\<exists>key. rs_mapDisclosedKeys t ?i = Some key \<and> genuine ssl t key n)"
  proof (cases "statusAt s n = StatusPassed")
    case True
    then obtain key where k: "?i \<in> rs_setVerifiedIntervals s" "rs_mapDisclosedKeys s ?i = Some key" "genuine ssl s key n"
      using p ns by (auto simp: passed_ok_def)
    moreover have "rs_mapDisclosedKeys t ?i = Some key"
      using A k(2) by (auto simp: map_le_def dom_def)
    ultimately show ?thesis using genuine_persists [OF _ ns a] A by auto
  next
    case False
    with A ns st show ?thesis by blast
  qed
  then show "slotInterval (rs_prm t) n \<in> rs_setVerifiedIntervals t
      \<and> (\<exists>key. rs_mapDisclosedKeys t (slotInterval (rs_prm t) n) = Some key \<and> genuine ssl t key n)"
    unfolding iv .
qed

text \<open>An action on a receiver keeps its invariant.\<close>

lemma receiver_ok_step:
  assumes "keepA (in_round ssl ctx) m" "advA ssl ctx m" "keepA candidates_ok m" "keepA live_ok m"
    and "receiver_ok ssl (fst s)" "rs_ctxContext (fst s) = ctx"
  shows "receiver_ok ssl (fst (snd (m s)))"
proof -
  have "in_round ssl ctx (fst (snd (m s)))"
    by (rule keepAD [OF assms(1)]) (use assms(5,6) in \<open>simp add: in_round_def receiver_ok_def\<close>)
  moreover have "passed_ok ssl (fst (snd (m s)))"
    by (rule passed_ok_advances [OF _ advAD [OF assms(2,6)]]) (use assms(5) in \<open>simp add: receiver_ok_def\<close>)
  moreover have "candidates_ok (fst (snd (m s)))"
    by (rule keepAD [OF assms(3)]) (use assms(5) in \<open>simp add: receiver_ok_def\<close>)
  moreover have "live_ok (fst (snd (m s)))"
    by (rule keepAD [OF assms(4)]) (use assms(5) in \<open>simp add: receiver_ok_def\<close>)
  ultimately show ?thesis by (simp add: in_round_def receiver_ok_def)
qed

lemma receiver_ok_prm: "receiver_ok ssl rs \<Longrightarrow> prm_ok (rs_prm rs)"
  by (simp add: receiver_ok_def base_ok_def)

lemma processDatagram_receiver_ok:
  assumes "receiver_ok (env_ssl env) (fst s)"
  shows "receiver_ok (env_ssl env) (fst (snd (processDatagram env que s)))"
  using receiver_ok_step [OF in_round_processDatagram advA_processDatagram processDatagram_candidates
      processDatagram_live assms refl] receiver_ok_prm [OF assms] by blast

lemma checkReceiver_receiver_ok:
  "receiver_ok ssl (fst s) \<Longrightarrow> receiver_ok ssl (fst (snd (checkReceiver env s)))"
  by (rule receiver_ok_step [OF in_round_checkReceiver advA_checkReceiver checkReceiver_candidates checkReceiver_live _ refl])

text \<open>A new receiver, one that starts a round, and the members verification does not depend on.\<close>

lemma receiver_ok_new: "prm_ok (rcv_prmRoundParameters ctx) \<Longrightarrow> ctx_ok ctx \<Longrightarrow> receiver_ok ssl (mkReceiverState ctx)"
  by (simp add: receiver_ok_def base_ok_def slots_ok_def keys_ok_def passed_ok_def candidates_ok_def
      live_ok_def mkReceiverState_def slotCount_def candidatesOf_def MAX_CANDIDATE_VERSIONS_PER_PACKET_def)

lemma receiver_ok_start:
  "strRoundId \<noteq> [] \<Longrightarrow> receiver_ok ssl rs \<Longrightarrow> receiver_ok ssl (startReceiver strRoundId u64Start u32Tolerance rs)"
proof -
  assume id: "strRoundId \<noteq> []" and rs: "receiver_ok ssl rs"
  then have prm: "prm_ok (rs_prm rs)" by (intro receiver_ok_prm)
  let ?t = "startReceiver strRoundId u64Start u32Tolerance rs"
  have n: "slotCount ?t = unat (prm_u32TotalPacketCount (rs_prm rs)) + 1" "rs_ctxContext ?t = rs_ctxContext rs"
    by (simp_all add: startReceiver_def slotCount_def)
  have none: "packetAt ?t n = None" "statusAt ?t n \<noteq> StatusPassed" if "n < slotCount ?t" for n
    using that by (simp_all add: n, simp_all add: startReceiver_def packetAt_def statusAt_def empty_record_def
        del: replicate_Suc)
  have "slots_ok ?t"
    using none by (simp add: slots_ok_def n) (simp add: startReceiver_def)
  moreover have "keys_ok ssl ?t" "candidates_ok ?t"
    by (simp_all add: keys_ok_def candidates_ok_def startReceiver_def candidatesOf_def
        MAX_CANDIDATE_VERSIONS_PER_PACKET_def)
  moreover have "live_ok ?t"
    using id rs by (simp add: receiver_ok_def live_ok_def startReceiver_def list_all_iff slot_filled_def
        empty_record_def del: replicate_Suc)
  ultimately show ?thesis using none prm by (simp add: receiver_ok_def base_ok_def passed_ok_def n)
qed

lemma receiver_ok_same:
  assumes "rs_ctxContext t = rs_ctxContext s" "rs_vecPacketRecords t = rs_vecPacketRecords s"
    "rs_mapAdditionalCandidates t = rs_mapAdditionalCandidates s" "rs_mapDisclosedKeys t = rs_mapDisclosedKeys s"
    "rs_setVerifiedIntervals t = rs_setVerifiedIntervals s" "rs_u32ReceivedPacketCount t = rs_u32ReceivedPacketCount s"
    "rs_strRoundId t = rs_strRoundId s"
    "rs_bActive t \<Longrightarrow> rs_bActive s" "receiver_ok ssl s"
  shows "receiver_ok ssl t"
proof -
  have "packetAt t n = packetAt s n" "statusAt t n = statusAt s n" "slotCount t = slotCount s" for n
    using assms(2) by (simp_all add: packetAt_def statusAt_def slotCount_def)
  moreover have "keepsPackets s t" using assms(1) calculation by (simp add: keepsPackets_def)
  then have "genuine ssl t key n" if "n < slotCount t" "genuine ssl s key n" for key n
    using genuine_mono that calculation(3) by metis
  ultimately show ?thesis
    using assms by (auto simp: receiver_ok_def base_ok_def slots_ok_def keys_ok_def passed_ok_def
        candidates_ok_def candidatesOf_def rs_crp_def live_ok_def)
qed

section \<open>The runtime\<close>

definition runtime_ok :: "'g openssl \<Rightarrow> receiver_runtime \<Rightarrow> bool" where
  "runtime_ok ssl rt \<longleftrightarrow> (\<forall>(k, rs) \<in> set (rt_mapStates rt). receiver_ok ssl rs)
     \<and> length (rt_deqDatagrams rt) \<le> MAX_QUEUED_DATAGRAMS"

lemma runtime_ok_states: "runtime_ok ssl rt \<Longrightarrow> (k, rs) \<in> set (rt_mapStates rt) \<Longrightarrow> receiver_ok ssl rs"
  by (auto simp: runtime_ok_def)

lemma runtime_ok_find: "runtime_ok ssl rt \<Longrightarrow> findState rt k = Some rs \<Longrightarrow> receiver_ok ssl rs"
  unfolding findState_def by (auto dest: map_of_SomeD runtime_ok_states)

lemma runtime_ok_new: "runtime_ok ssl new_receiver_runtime"
  by (simp add: runtime_ok_def new_receiver_runtime_def)

lemma runtime_ok_mapStates:
  "(\<And>rs. receiver_ok ssl rs \<Longrightarrow> receiver_ok ssl (f rs)) \<Longrightarrow> runtime_ok ssl rt \<Longrightarrow> runtime_ok ssl (mapStates f rt)"
  by (auto simp: runtime_ok_def mapStates_def)

lemma runtime_ok_same:
  "rt_mapStates t = rt_mapStates s \<Longrightarrow> rt_deqDatagrams t = rt_deqDatagrams s \<Longrightarrow> runtime_ok ssl s \<Longrightarrow> runtime_ok ssl t"
  by (simp add: runtime_ok_def)

definition keepR :: "(receiver_runtime \<Rightarrow> bool) \<Rightarrow> (receiver_runtime, 'a) act \<Rightarrow> bool" where
  "keepR P m \<longleftrightarrow> (\<forall>s. P s \<longrightarrow> P (snd (m s)))"

named_theorems runtime_rules \<open>actions that keep a property of the runtime\<close>

lemma keepRD: "keepR P m \<Longrightarrow> P s \<Longrightarrow> P (snd (m s))"
  by (simp add: keepR_def)

lemma keepR_basic [runtime_rules]:
  "keepR P (retA x)" "keepR P (throwA e)" "keepR P (liftA r)" "keepR P (getA g)"
  by (simp_all add: keepR_def act_run)

lemma keepR_modify: "(\<And>rt. P rt \<Longrightarrow> P (h rt)) \<Longrightarrow> keepR P (modifyA h)"
  by (simp add: keepR_def act_run)

lemma keepR_bind [runtime_rules]: "keepR P m \<Longrightarrow> (\<And>x. keepR P (g x)) \<Longrightarrow> keepR P (bindA m g)"
  unfolding keepR_def using keeps.bind [of P] by metis

lemma keepR_then [runtime_rules]: "keepR P m \<Longrightarrow> keepR P n \<Longrightarrow> keepR P (thenA m n)"
  unfolding thenA_def by (rule keepR_bind) auto

lemma keepR_when [runtime_rules]: "(b \<Longrightarrow> keepR P m) \<Longrightarrow> keepR P (whenA b m)"
  by (simp add: whenA_def keepR_basic)

lemma keepR_branches [runtime_rules]:
  "(b \<Longrightarrow> keepR P m) \<Longrightarrow> (\<not> b \<Longrightarrow> keepR P n) \<Longrightarrow> keepR P (if b then m else n)"
  "keepR P m \<Longrightarrow> (\<And>x. keepR P (g x)) \<Longrightarrow> keepR P (case opt of None \<Rightarrow> m | Some x \<Rightarrow> g x)"
  "(\<And>x y. keepR P (h x y)) \<Longrightarrow> keepR P (case pr of (x, y) \<Rightarrow> h x y)"
  "(\<And>x. keepR P (g x)) \<Longrightarrow> keepR P (Let y g)"
  "(\<And>x. keepR P (l x)) \<Longrightarrow> (\<And>x. keepR P (r x)) \<Longrightarrow> keepR P (case sm of Inl x \<Rightarrow> l x | Inr x \<Rightarrow> r x)"
  by (auto split: option.split prod.split sum.split)

lemma keepR_onReceiver:
  assumes "\<And>s. receiver_ok ssl (fst s) \<Longrightarrow> receiver_ok ssl (fst (snd (m s)))"
  shows "keepR (runtime_ok ssl) (onReceiver k none m)"
  unfolding keepR_def
proof (intro allI impI)
  fix rt
  assume rt: "runtime_ok ssl rt"
  show "runtime_ok ssl (snd (onReceiver k none m rt))"
  proof (cases "findState rt k")
    case None
    with rt show ?thesis by (simp add: onReceiver_def)
  next
    case (Some rs)
    obtain r rs' mon where m: "m (rs, rt_monitor rt) = (r, rs', mon)" by (cases "m (rs, rt_monitor rt)") auto
    have "receiver_ok ssl rs'"
      using assms [of "(rs, rt_monitor rt)"] runtime_ok_find [OF rt Some] m by simp
    with rt show ?thesis by (auto simp: onReceiver_def Some m setState_def runtime_ok_def)
  qed
qed

section \<open>configure and stop\<close>

text \<open>A context the program can hand to \<open>configure\<close>: it, its parameters and its payload details come
  from their constructors.\<close>

fun built_payload :: "receiver_payload \<Rightarrow> bool" where
  "built_payload (TextReceiverPayloadDetails n) \<longleftrightarrow>
     mkTextReceiverPayloadDetails n = Inr (TextReceiverPayloadDetails n)"
| "built_payload (FileReceiverPayloadDetails b) \<longleftrightarrow>
     mkFileReceiverPayloadDetails b = Inr (FileReceiverPayloadDetails b)"

definition built_context :: "receiver_context \<Rightarrow> bool" where
  "built_context ctx \<longleftrightarrow>
     mkReceiverContext (rcv_strSenderId ctx) (rcv_strSenderIpAddress ctx) (rcv_u64ChainId ctx)
       (rcv_digCommitmentKey ctx) (rcv_prmRoundParameters ctx) (rcv_varPayloadDetails ctx) = Inr ctx
     \<and> built_payload (rcv_varPayloadDetails ctx)
     \<and> (\<exists>alg mode tot ppi delay ms start imp payload.
       mkRoundParameters alg mode tot ppi delay ms start imp payload = Inr (rcv_prmRoundParameters ctx))"

lemma built_context_ok:
  assumes "built_context ctx"
  shows "ctx_ok ctx"
proof -
  have mk: "mkReceiverContext (rcv_strSenderId ctx) (rcv_strSenderIpAddress ctx) (rcv_u64ChainId ctx)
       (rcv_digCommitmentKey ctx) (rcv_prmRoundParameters ctx) (rcv_varPayloadDetails ctx) = Inr ctx"
    and pay: "built_payload (rcv_varPayloadDetails ctx)"
    using assms by (simp_all add: built_context_def)
  have "rcv_strSenderId ctx \<noteq> []" "rcv_u64ChainId ctx \<noteq> 0"
    "payloadMatches (rcv_varPayloadDetails ctx) (rcv_prmRoundParameters ctx) = Inr ()"
    using mk by (auto simp: mkReceiverContext_def andThen_Inr_iff split: if_splits)
  with pay show ?thesis
    by (cases "rcv_varPayloadDetails ctx")
      (auto simp: ctx_ok_def Let_def mkFileReceiverPayloadDetails_def split: if_splits)
qed

lemma mkRoundParameters_prm_ok:
  assumes "mkRoundParameters alg mode tot ppi delay ms start imp payload = Inr prm"
    and "prm_u32TotalPacketCount prm \<le> MAX_AUTHENTICATION_PACKET_COUNT"
  shows "prm_ok prm"
proof -
  note P = mkRoundParameters_Inr [OF assms(1)]
  have "unat (imp_u32GroupSize i) dvd unat ppi" if "prm_optImprovedParameters prm = Some i" for i
  proof -
    have "prm_optImprovedParameters prm = imp"
      using assms(1)
      by (auto simp: mkRoundParameters_def Let_def split: if_splits TeslaAuthenticationMode.splits option.splits)
    then have "imp = Some i" "mode = ModeImproved" using that P(10) by auto
    then have "ppi mod imp_u32GroupSize i = 0"
      using assms(1) by (simp add: mkRoundParameters_def Let_def split: if_split_asm)
    then have "unat (ppi mod imp_u32GroupSize i) = 0" by (simp only: unat_0)
    then have "unat ppi mod unat (imp_u32GroupSize i) = 0" by (simp add: unat_mod_distrib)
    then show ?thesis by (rule mod_0_imp_dvd)
  qed
  with P assms(2) show ?thesis by (simp add: prm_ok_def)
qed

lemma mapEmplace_set: "mapEmplace k v m = Some m' \<Longrightarrow> set m' = insert (k, v) (set m)"
  by (induction m arbitrary: m') (auto split: if_splits)

lemma addReceiver_states:
  assumes "addReceiver ctx (m, ips) = Inr (m', ips')" "built_context ctx"
    and "\<forall>(k, rs) \<in> set m. receiver_ok ssl rs"
  shows "\<forall>(k, rs) \<in> set m'. receiver_ok ssl rs"
proof -
  from assms(1) have lim: "prm_u32TotalPacketCount (rcv_prmRoundParameters ctx) \<le> MAX_AUTHENTICATION_PACKET_COUNT"
    and m': "mapEmplace (rcv_strSenderIpAddress ctx, rcv_u64ChainId ctx) (mkReceiverState ctx) m = Some m'"
    by (auto simp: addReceiver_def split: if_splits option.splits prod.splits)
  obtain alg mode tot ppi delay ms start imp payload where
    "mkRoundParameters alg mode tot ppi delay ms start imp payload = Inr (rcv_prmRoundParameters ctx)"
    using assms(2) by (auto simp: built_context_def)
  from receiver_ok_new [OF mkRoundParameters_prm_ok [OF this lim] built_context_ok [OF assms(2)]] assms(3) mapEmplace_set [OF m']
  show ?thesis by auto
qed

lemma addReceivers_states:
  "foldE addReceiver ctxs (m, ips) = Inr (m', ips') \<Longrightarrow> \<forall>ctx \<in> set ctxs. built_context ctx
    \<Longrightarrow> \<forall>(k, rs) \<in> set m. receiver_ok ssl rs \<Longrightarrow> \<forall>(k, rs) \<in> set m'. receiver_ok ssl rs"
proof (induction ctxs arbitrary: m ips)
  case Nil
  then show ?case by simp
next
  case (Cons ctx ctxs)
  then obtain m1 ips1 where a: "addReceiver ctx (m, ips) = Inr (m1, ips1)"
    and f: "foldE addReceiver ctxs (m1, ips1) = Inr (m', ips')"
    by (auto simp: andThen_Inr_iff)
  from Cons.IH [OF f _ addReceiver_states [OF a _ Cons.prems(3)]] Cons.prems(2) show ?case by simp
qed

lemma stopResults_ok:
  "stopResults states = (r, states') \<Longrightarrow> \<forall>(k, rs) \<in> set states. receiver_ok ssl rs
    \<Longrightarrow> \<forall>(k, rs) \<in> set states'. receiver_ok ssl rs"
proof (induction states arbitrary: r states')
  case Nil
  then show ?case by simp
next
  case (Cons p states)
  obtain k rs where p: "p = (k, rs)" by (cases p)
  obtain r1 st1 where st: "stopResults states = (r1, st1)" by (cases "stopResults states")
  have "receiver_ok ssl rs" using Cons.prems(2) p by simp
  then have "receiver_ok ssl (rs\<lparr>rs_bResultReported := True\<rparr>)" by (rule receiver_ok_same [rotated -1]) simp_all
  moreover have "\<forall>(k, rs) \<in> set st1. receiver_ok ssl rs" using Cons.IH [OF st] Cons.prems(2) by simp
  ultimately show ?case
    using Cons.prems by (auto simp: p st split: if_splits sum.splits)
qed

lemma keepR_stop: "keepR (runtime_ok ssl) (stopRuntime b)"
  unfolding keepR_def
proof (intro allI impI)
  fix rt
  assume rt: "runtime_ok ssl rt"
  obtain r states where res: "(if b then stopResults (rt_mapStates rt) else (Inr [], rt_mapStates rt)) = (r, states)"
    by (cases "if b then stopResults (rt_mapStates rt) else (Inr [], rt_mapStates rt)")
  then have states: "\<forall>(k, rs) \<in> set states. receiver_ok ssl rs"
    using stopResults_ok [of "rt_mapStates rt" r states ssl] rt by (auto simp: runtime_ok_def split: if_splits)
  have stop: "receiver_ok ssl rs \<Longrightarrow> receiver_ok ssl (rs\<lparr>rs_bActive := False, rs_bPaused := False\<rparr>)" for rs
    by (erule receiver_ok_same [rotated -1]) simp_all
  have "runtime_ok ssl (rt\<lparr>rt_mapStates := states\<rparr>)" using rt states by (simp add: runtime_ok_def)
  note one = this and all = runtime_ok_mapStates [OF stop this]
  show "runtime_ok ssl (snd (stopRuntime b rt))"
  proof (cases r)
    case (Inl e)
    with one show ?thesis by (simp add: stopRuntime_def res)
  next
    case (Inr res)
    with all show ?thesis unfolding stopRuntime_def \<open>_ = (r, states)\<close> by (simp add: runtime_ok_def)
  qed
qed

lemma keepR_configure:
  assumes "\<forall>ctx \<in> set vecContexts. built_context ctx"
  shows "keepR (runtime_ok ssl) (configure vecContexts)"
  unfolding configure_def
proof (rule keepR_bind [OF keepR_stop])
  show "keepR (runtime_ok ssl) (bindA (liftA (foldE addReceiver vecContexts ([], Map.empty))) (\<lambda>(mapCandidate, _).
       if mapCandidate = []
       then throwA (InvalidArgument ''Receiver runtime requires at least one context'')
       else modifyA (\<lambda>rt. rt\<lparr>rt_mapStates := mapCandidate, rt_deqDatagrams := [],
         rt_bConfigured := True\<rparr>)))"
  proof (cases "foldE addReceiver vecContexts ([], Map.empty)")
    case (Inl e)
    show ?thesis unfolding Inl bindA_lift by (rule keepR_basic)
  next
    case (Inr mm)
    obtain m ips where mm: "mm = (m, ips)" by (cases mm)
    have "foldE addReceiver vecContexts ([], Map.empty) = Inr (m, ips)" using Inr mm by (simp only:)
    from addReceivers_states [OF this assms] have "\<forall>(k, rs) \<in> set m. receiver_ok ssl rs" by simp
    then have "keepR (runtime_ok ssl) (modifyA (\<lambda>rt. rt\<lparr>rt_mapStates := m, rt_deqDatagrams := [],
         rt_bConfigured := True\<rparr>))"
      by (intro keepR_modify) (simp add: runtime_ok_def)
    then show ?thesis unfolding Inr mm bindA_lift prod.case by (intro keepR_branches keepR_basic)
  qed
qed

section \<open>The other operations\<close>

lemma forStates_ok:
  assumes f: "\<And>rs rs'. f rs = Inr rs' \<Longrightarrow> receiver_ok ssl rs \<Longrightarrow> receiver_ok ssl rs'"
  shows "forStates f states = (r, states') \<Longrightarrow> \<forall>(k, rs) \<in> set states. receiver_ok ssl rs
    \<Longrightarrow> \<forall>(k, rs) \<in> set states'. receiver_ok ssl rs"
proof (induction states arbitrary: r states')
  case Nil
  then show ?case by simp
next
  case (Cons p states)
  obtain k rs where p: "p = (k, rs)" by (cases p)
  obtain r1 st1 where st: "forStates f states = (r1, st1)" by (cases "forStates f states")
  then have "\<forall>(k, rs) \<in> set st1. receiver_ok ssl rs" using Cons.IH [OF st] Cons.prems(2) by simp
  then show ?case
    using Cons.prems f [of rs] by (auto simp: p st split: sum.splits)
qed

lemma keepR_states:
  assumes "\<And>rs rs'. f rs = Inr rs' \<Longrightarrow> receiver_ok ssl rs \<Longrightarrow> receiver_ok ssl rs'"
  shows "keepR (runtime_ok ssl) (statesA f)"
  unfolding keepR_def
proof (intro allI impI)
  fix rt
  assume rt: "runtime_ok ssl rt"
  obtain r states where f: "forStates f (rt_mapStates rt) = (r, states)" by (cases "forStates f (rt_mapStates rt)")
  with forStates_ok [OF assms f] rt show "runtime_ok ssl (snd (statesA f rt))"
    by (simp add: statesA_def runtime_ok_def)
qed

lemma pauseReceiver_ok: "pauseReceiver i t rs = Inr rs' \<Longrightarrow> receiver_ok ssl rs \<Longrightarrow> receiver_ok ssl rs'"
  by (auto simp: pauseReceiver_def split: if_splits elim!: receiver_ok_same [rotated -1])

lemma resumeReceiver_ok: "resumeReceiver t i u rs = Inr rs' \<Longrightarrow> receiver_ok ssl rs \<Longrightarrow> receiver_ok ssl rs'"
  unfolding resumeReceiver_def
  by (erule if_split_asm [THEN iffD1, elim_format])
    (auto split: if_split_asm elim!: receiver_ok_same [rotated -1])

lemma keepR_same:
  "(\<And>rt. rt_mapStates (h rt) = rt_mapStates rt) \<Longrightarrow> (\<And>rt. rt_deqDatagrams (h rt) = rt_deqDatagrams rt)
    \<Longrightarrow> keepR (runtime_ok ssl) (modifyA h)"
  by (intro keepR_modify) (erule runtime_ok_same [rotated -1]; simp)

lemma keepR_start: "keepR (runtime_ok ssl) (startRuntime env r u c)"
proof -
  have "runtime_ok ssl (mapStates (startReceiver r u c) rt
      \<lparr>rt_strRoundId := r, rt_bRunning := True, rt_bPaused := False\<rparr>)" if "r \<noteq> []" "runtime_ok ssl rt" for rt
    by (rule runtime_ok_same [OF _ _ runtime_ok_mapStates [OF receiver_ok_start [OF that(1)] that(2)]]) simp_all
  then show ?thesis unfolding startRuntime_def by (intro runtime_rules keepR_modify) simp
qed

lemma keepR_validate: "keepR (runtime_ok ssl) (validateActiveRound r)"
  unfolding validateActiveRound_def by (intro runtime_rules)

lemma keepR_pause: "keepR (runtime_ok ssl) (requestPause env r i u)"
  unfolding requestPause_def by (intro runtime_rules keepR_validate keepR_states [OF pauseReceiver_ok])

lemma keepR_resume: "keepR (runtime_ok ssl) (resume env r i u)"
proof -
  have "keepR (runtime_ok ssl) (modifyA (\<lambda>rt. rt\<lparr>rt_bPaused := False\<rparr>))" by (rule keepR_same) simp_all
  then show ?thesis unfolding resume_def by (intro runtime_rules keepR_validate keepR_states [OF resumeReceiver_ok])
qed

lemma keepR_mapping:
  "keepR (runtime_ok ssl) (modifyA (\<lambda>rt. rt\<lparr>rt_mapAttackSourceMappings := f rt\<rparr>))"
  by (rule keepR_same) simp_all

lemma keepR_mappings:
  "keepR (runtime_ok ssl) (applyAttackSourceMapping env det)" "keepR (runtime_ok ssl) clearAttackSourceMappings"
  unfolding applyAttackSourceMapping_def clearAttackSourceMappings_def
  by (intro runtime_rules keepR_mapping)+

text \<open>Reading a datagram off the network appends at most one to a queue that has room.\<close>

lemma keepR_reject: "keepR (runtime_ok ssl) (rejectDatagram env f t ip c reason)"
proof -
  have "keepR (runtime_ok ssl) (queueUnscopedFailure env f t ip c reason)"
    unfolding queueUnscopedFailure_def by (intro runtime_rules keepR_same; simp)
  then show ?thesis unfolding rejectDatagram_def by (intro runtime_rules keepR_same; simp)
qed

lemma keepR_read:
  assumes "\<And>rt. P rt \<Longrightarrow> P (snd (g (f rt) rt))"
  shows "keepR P (bindA (getA f) g)"
  using assms by (simp add: keepR_def act_simps)

lemma keepR_enqueue: "keepR (runtime_ok ssl) (bEnqueueDatagram env ip xs t)"
proof (cases "udp_resDecodeHeader xs")
  case (Inl e)
  then show ?thesis by (simp add: bEnqueueDatagram_def keepR_reject)
next
  case (Inr hdr)
  show ?thesis unfolding bEnqueueDatagram_def Inr sum.case
  proof (rule keepR_read, unfold id_def, goal_cases)
    case (1 rt)
    obtain k src where k: "routeDatagram rt (ip, hdr_u64ChainId hdr) t = (k, src)" by fastforce
    have "runtime_ok ssl (snd (rejectDatagram env f t ip c reason rt))" for f c reason
      by (rule keepRD [OF keepR_reject 1])
    with 1 show ?case
      by (simp add: k act_simps) (auto simp: runtime_ok_def)
  qed
qed

section \<open>The worker, and histories of calls\<close>

lemma keepR_take: "keepR (runtime_ok (env_ssl env)) (takeDatagram env)"
  unfolding takeDatagram_def
proof (rule keepR_read, goal_cases)
  case (1 rt)
  let ?P = "runtime_ok (env_ssl env)"
  have run: "updateGlobalRunning = modifyA (\<lambda>rt. rt\<lparr>rt_bRunning := list_ex (\<lambda>(_, rs). rs_bActive rs) (rt_mapStates rt)\<rparr>)"
    by (rule updateGlobalRunning_def)
  have glob: "keepR ?P updateGlobalRunning" unfolding run by (rule keepR_same) simp_all
  show ?case
  proof (cases "rt_deqDatagrams rt")
    case Nil
    with 1 show ?thesis by (simp add: act_simps)
  next
    case (Cons que deq)
    have "?P (rt\<lparr>rt_deqDatagrams := deq\<rparr>)" using 1 Cons by (simp add: runtime_ok_def)
    moreover have "keepR ?P (bindA (onReceiver (que_keyContext que) [] (processDatagram env que)) (\<lambda>vecResults.
        thenA (whenA (vecResults \<noteq> []) updateGlobalRunning) (retA vecResults)))"
      by (intro runtime_rules keepR_onReceiver glob processDatagram_receiver_ok)
    ultimately show ?thesis using keepRD by (simp add: Cons thenA_modify)
  qed
qed

lemma keepR_checks: "keepR (runtime_ok ssl) (checkPauseAndTimeouts env)"
proof -
  have "keepR (runtime_ok ssl) (onReceiver k (False, []) (checkReceiver env))" for k
    by (rule keepR_onReceiver) (rule checkReceiver_receiver_ok)
  then have "keepR (runtime_ok ssl) (checkReceivers env ks)" for ks
    by (induction ks) (auto intro!: runtime_rules)
  then show ?thesis
    unfolding checkPauseAndTimeouts_def updateGlobalRunning_def by (intro runtime_rules keepR_same; simp)
qed

lemma keepR_worker: "keepR (runtime_ok (env_ssl env)) (workerStep env)"
proof -
  have "keepR (runtime_ok ssl) (queueDosSummaryIfDue env)" for ssl
    unfolding queueDosSummaryIfDue_def by (intro runtime_rules keepR_same; simp)
  then show ?thesis
    unfolding workerStep_def by (intro runtime_rules keepR_take keepR_checks keepR_same; simp)
qed

text \<open>A call with the clock reading it makes; only built contexts are configured.\<close>

fun built_op :: "runtime_op \<Rightarrow> bool" where
  "built_op (RtConfigure vecContexts) \<longleftrightarrow> (\<forall>ctx \<in> set vecContexts. built_context ctx)"
| "built_op _ \<longleftrightarrow> True"

definition timed_step :: "'g openssl \<Rightarrow> bool \<Rightarrow> u64 \<times> runtime_op \<Rightarrow> (receiver_runtime, runtime_result list) act"
where
  "timed_step ssl bObserve = (\<lambda>(u64Now, op). runtime_step
     \<lparr>env_ssl = ssl, env_bObserve = bObserve, env_u64Now = u64Now\<rparr> op)"

lemma runtime_step_ok:
  assumes "built_op op"
  shows "keepR (runtime_ok (env_ssl env)) (runtime_step env op)"
proof (cases op)
  case (RtConfigure ctxs)
  with assms have "keepR (runtime_ok (env_ssl env)) (configure ctxs)" by (intro keepR_configure) simp
  then show ?thesis by (simp add: RtConfigure keepR_then keepR_basic)
next
  case (RtStart r u c)
  show ?thesis unfolding RtStart runtime_step.simps by (intro keepR_then keepR_start keepR_basic)
next
  case (RtRequestPause r i u)
  show ?thesis unfolding RtRequestPause runtime_step.simps by (intro keepR_then keepR_pause keepR_basic)
next
  case (RtResume r i u)
  show ?thesis unfolding RtResume runtime_step.simps by (intro keepR_then keepR_resume keepR_basic)
next
  case RtStop
  show ?thesis unfolding RtStop runtime_step.simps by (rule keepR_stop)
next
  case (RtApplyMapping det)
  show ?thesis unfolding RtApplyMapping runtime_step.simps by (intro keepR_then keepR_mappings keepR_basic)
next
  case RtClearMappings
  show ?thesis unfolding RtClearMappings runtime_step.simps by (intro keepR_then keepR_mappings keepR_basic)
next
  case (RtEnqueue ip xs u)
  show ?thesis unfolding RtEnqueue runtime_step.simps by (intro keepR_then keepR_enqueue keepR_basic)
next
  case RtWork
  show ?thesis unfolding RtWork runtime_step.simps by (intro keepR_bind keepR_worker keepR_branches keepR_basic)
qed

lemma timed_step_ok: "built_op (snd call) \<Longrightarrow> keepR (runtime_ok ssl) (timed_step ssl obs call)"
  using runtime_step_ok [of "snd call" "\<lparr>env_ssl = ssl, env_bObserve = obs, env_u64Now = fst call\<rparr>"]
  by (simp add: timed_step_def split_beta)

lemma run_keeps:
  assumes "\<And>op. op \<in> set ops \<Longrightarrow> keepR P (step op)" "P s"
  shows "P (run_ops step ops s)"
  using assms by (induction ops arbitrary: s) (auto dest: keepRD)

lemma runtime_history_ok:
  "list_all (built_op \<circ> snd) ops \<Longrightarrow> runtime_ok ssl (run_ops (timed_step ssl obs) ops new_receiver_runtime)"
  using run_keeps [of ops "runtime_ok ssl" "timed_step ssl obs", OF timed_step_ok runtime_ok_new]
  by (auto simp: list_all_iff)

end
