(* ===== verification/RuntimeRounds.thy ===== *)
theory RuntimeRounds
  imports RuntimeInvariants
begin

text \<open>
  The runtime between two starts. \<open>progresses\<close>: every receiver advances, so stored packets, known
  keys and verdicts stay. \<open>waiting\<close> counts the receivers without a result. A packet enters a slot
  only by \<open>processData\<close>, before its key is due.
\<close>

section \<open>Every call of a round advances every receiver\<close>

fun in_round_op :: "runtime_op \<Rightarrow> bool" where
  "in_round_op (RtConfigure _) \<longleftrightarrow> False"
| "in_round_op (RtStart _ _ _) \<longleftrightarrow> False"
| "in_round_op _ \<longleftrightarrow> True"

definition progresses :: "'g openssl \<Rightarrow> receiver_runtime \<Rightarrow> receiver_runtime \<Rightarrow> bool" where
  "progresses ssl rt rt' \<longleftrightarrow> (runtime_ok ssl rt \<longrightarrow> runtime_ok ssl rt' \<and>
     (\<forall>k rs. findState rt k = Some rs \<longrightarrow> (\<exists>rs'. findState rt' k = Some rs' \<and> advances ssl rs rs')))"

lemma progresses_refl: "progresses ssl rt rt"
  using advances_refl by (auto simp: progresses_def)

lemma progresses_trans: "progresses ssl a b \<Longrightarrow> progresses ssl b c \<Longrightarrow> progresses ssl a c"
  unfolding progresses_def using advances_trans by meson

interpretation prog: members_relation "progresses ssl" for ssl
  by unfold_locales (rule progresses_refl, rule progresses_trans)

definition progA :: "'g openssl \<Rightarrow> (receiver_runtime, 'a) act \<Rightarrow> bool" where
  "progA ssl m \<longleftrightarrow> (\<forall>s. progresses ssl s (snd (m s)))"

named_theorems prog_rules \<open>actions in which every receiver advances\<close>

lemma progA_basic [prog_rules]:
  "progA ssl (retA x)" "progA ssl (throwA e)" "progA ssl (liftA r)" "progA ssl (getA g)"
  by (simp_all add: progA_def act_run progresses_refl)

lemma progA_bind [prog_rules]: "progA ssl m \<Longrightarrow> (\<And>x. progA ssl (g x)) \<Longrightarrow> progA ssl (bindA m g)"
  unfolding progA_def using prog.bind by metis

lemma progA_then [prog_rules]: "progA ssl m \<Longrightarrow> progA ssl n \<Longrightarrow> progA ssl (thenA m n)"
  unfolding thenA_def by (rule progA_bind) auto

lemma progA_when [prog_rules]: "(b \<Longrightarrow> progA ssl m) \<Longrightarrow> progA ssl (whenA b m)"
  by (simp add: whenA_def progA_basic)

lemma progA_branches [prog_rules]:
  "(b \<Longrightarrow> progA ssl m) \<Longrightarrow> (\<not> b \<Longrightarrow> progA ssl n) \<Longrightarrow> progA ssl (if b then m else n)"
  "(\<And>x y. progA ssl (h x y)) \<Longrightarrow> progA ssl (case pr of (x, y) \<Rightarrow> h x y)"
  "progA ssl m \<Longrightarrow> (\<And>x xs. progA ssl (c x xs)) \<Longrightarrow> progA ssl (case ys of [] \<Rightarrow> m | x # xs \<Rightarrow> c x xs)"
  by (auto split: prod.split list.split)

text \<open>A change that leaves the receivers alone, and one that changes their flags only.\<close>

lemma progA_keep:
  assumes "keepR (runtime_ok ssl) m" "\<And>s. rt_mapStates (snd (m s)) = rt_mapStates s"
  shows "progA ssl m"
  using assms advances_refl by (auto simp: progA_def progresses_def keepR_def findState_def)

lemma map_of_related:
  assumes "list_all2 (\<lambda>(k, rs) (k', rs'). k = k' \<and> R rs rs') xs ys" "map_of xs k = Some rs"
  shows "\<exists>rs'. map_of ys k = Some rs' \<and> R rs rs'"
  using assms by (induction xs ys rule: list_all2_induct) (auto split: if_splits)

definition flags_only :: "receiver_state \<Rightarrow> receiver_state \<Rightarrow> bool" where
  "flags_only s t \<longleftrightarrow> rs_ctxContext s = rs_ctxContext t \<and> rs_vecPacketRecords s = rs_vecPacketRecords t
     \<and> rs_mapDisclosedKeys s = rs_mapDisclosedKeys t \<and> rs_setVerifiedIntervals s = rs_setVerifiedIntervals t"

lemma flags_only_advances: "flags_only s t \<Longrightarrow> advances ssl s t"
  by (simp add: flags_only_def advances_def slotCount_def packetAt_def statusAt_def)

lemma flags_only_refl [simp]: "flags_only s s"
  by (simp add: flags_only_def)

definition same_keys :: "(ctx_key \<times> receiver_state) list \<Rightarrow> (ctx_key \<times> receiver_state) list \<Rightarrow> bool" where
  "same_keys = list_all2 (\<lambda>(k, s) (k', t). k = k' \<and> flags_only s t)"

lemma same_keys_refl: "same_keys xs xs"
  unfolding same_keys_def by (rule list.rel_refl) auto

lemma same_keys_trans: "same_keys xs ys \<Longrightarrow> same_keys ys zs \<Longrightarrow> same_keys xs zs"
  by (simp add: same_keys_def list_all2_conv_all_nth split_beta flags_only_def)

lemma stopResults_same: "stopResults xs = (r, ys) \<Longrightarrow> same_keys xs ys"
proof (induction xs arbitrary: r ys)
  case Nil
  then show ?case by (simp add: same_keys_def)
next
  case (Cons p xs)
  obtain k rs where p: "p = (k, rs)" by (cases p)
  obtain r1 zs where z: "stopResults xs = (r1, zs)" by (cases "stopResults xs")
  have "same_keys xs xs" "same_keys xs zs" using Cons.IH [OF z] same_keys_refl by blast+
  moreover have "flags_only rs (rs\<lparr>rs_bResultReported := True\<rparr>)" by (simp add: flags_only_def)
  ultimately show ?case
    using Cons.prems by (auto simp: p z same_keys_def split: if_split_asm sum.split_asm)
qed

lemma forStates_same:
  assumes "\<And>rs rs'. f rs = Inr rs' \<Longrightarrow> flags_only rs rs'"
  shows "forStates f xs = (r, ys) \<Longrightarrow> same_keys xs ys"
proof (induction xs arbitrary: r ys)
  case Nil
  then show ?case by (simp add: same_keys_def)
next
  case (Cons p xs)
  obtain k rs where p: "p = (k, rs)" by (cases p)
  obtain r1 zs where z: "forStates f xs = (r1, zs)" by (cases "forStates f xs")
  have "same_keys xs xs" "same_keys xs zs" using Cons.IH [OF z] same_keys_refl by blast+
  then show ?case
    using Cons.prems assms by (auto simp: p z same_keys_def split: sum.split_asm)
qed

lemma progA_flags:
  assumes "keepR (runtime_ok ssl) m" "\<And>s. same_keys (rt_mapStates s) (rt_mapStates (snd (m s)))"
  shows "progA ssl m"
proof -
  have "\<exists>rs'. map_of (rt_mapStates (snd (m s))) k = Some rs' \<and> advances ssl rs rs'"
    if "map_of (rt_mapStates s) k = Some rs" for s k rs
    using map_of_related [OF assms(2) [unfolded same_keys_def] that] flags_only_advances by blast
  with assms(1) show ?thesis by (auto simp: progA_def progresses_def keepR_def findState_def)
qed

lemma progA_stop: "progA ssl (stopRuntime b)"
proof (rule progA_flags [OF keepR_stop])
  fix rt :: receiver_runtime
  obtain r states where res: "(if b then stopResults (rt_mapStates rt) else (Inr [], rt_mapStates rt)) = (r, states)"
    by (cases "if b then stopResults (rt_mapStates rt) else (Inr [], rt_mapStates rt)")
  then have one: "same_keys (rt_mapStates rt) states"
    using stopResults_same same_keys_refl by (auto split: if_splits)
  have "same_keys states (map (apsnd (\<lambda>rs. rs\<lparr>rs_bActive := False, rs_bPaused := False\<rparr>)) states)"
    unfolding same_keys_def by (simp add: list.rel_map, rule list.rel_refl) (auto simp: flags_only_def)
  note all = same_keys_trans [OF one this]
  show "same_keys (rt_mapStates rt) (rt_mapStates (snd (stopRuntime b rt)))"
  proof (cases r)
    case (Inl e)
    with one show ?thesis unfolding stopRuntime_def res by simp
  next
    case (Inr v)
    with all show ?thesis unfolding stopRuntime_def res by (simp add: mapStates_def)
  qed
qed

lemma progA_states:
  assumes "keepR (runtime_ok ssl) (statesA f)" "\<And>rs rs'. f rs = Inr rs' \<Longrightarrow> flags_only rs rs'"
  shows "progA ssl (statesA f)"
  by (rule progA_flags [OF assms(1)]) (auto simp: statesA_def split: prod.split intro: forStates_same [OF assms(2)])

lemma findState_setState:
  "findState (setState k rs rt) k' = (if k' = k then map_option (\<lambda>_. rs) (findState rt k) else findState rt k')"
proof -
  have "map_of (map (\<lambda>(k1, rs1). (k1, if k1 = k then rs else rs1)) xs) k'
      = (if k' = k then map_option (\<lambda>_. rs) (map_of xs k) else map_of xs k')" for xs
    by (induction xs) auto
  then show ?thesis by (simp add: findState_def setState_def)
qed

lemma findState_monitor [simp]: "findState (rt\<lparr>rt_monitor := mon\<rparr>) k = findState rt k"
  by (simp add: findState_def)

lemma progA_onReceiver:
  assumes "\<And>s. receiver_ok ssl (fst s) \<Longrightarrow> receiver_ok ssl (fst (snd (m s)))"
    and "\<And>s. receiver_ok ssl (fst s) \<Longrightarrow> advances ssl (fst s) (fst (snd (m s)))"
  shows "progA ssl (onReceiver k none m)"
  unfolding progA_def progresses_def
proof (intro allI impI conjI)
  fix rt
  assume rt: "runtime_ok ssl rt"
  show "runtime_ok ssl (snd (onReceiver k none m rt))" by (rule keepRD [OF keepR_onReceiver [OF assms(1)] rt])
  fix k' rs
  assume f: "findState rt k' = Some rs"
  show "\<exists>rs'. findState (snd (onReceiver k none m rt)) k' = Some rs' \<and> advances ssl rs rs'"
  proof (cases "findState rt k")
    case None
    with f advances_refl show ?thesis by (auto simp: onReceiver_def)
  next
    case (Some rs0)
    obtain r t mon where m: "m (rs0, rt_monitor rt) = (r, t, mon)" by (cases "m (rs0, rt_monitor rt)") auto
    have "advances ssl rs0 t" using assms(2) [of "(rs0, rt_monitor rt)"] runtime_ok_find [OF rt Some] m by simp
    moreover have "snd (onReceiver k none m rt) = setState k t (rt\<lparr>rt_monitor := mon\<rparr>)"
      by (simp add: onReceiver_def Some m)
    ultimately show ?thesis
      using f Some advances_refl by (cases "k' = k") (auto simp: findState_setState)
  qed
qed

text \<open>What leaves the receivers alone altogether.\<close>

definition untouched :: "(receiver_runtime, 'a) act \<Rightarrow> bool" where
  "untouched m \<longleftrightarrow> (\<forall>s. rt_mapStates (snd (m s)) = rt_mapStates s)"

lemma untouched_rules:
  "untouched (retA x)" "untouched (throwA e)" "untouched (liftA r)" "untouched (getA g)"
  "untouched p \<Longrightarrow> (\<And>x. untouched (h x)) \<Longrightarrow> untouched (bindA p h)"
  "untouched q1 \<Longrightarrow> untouched q2 \<Longrightarrow> untouched (thenA q1 q2)"
  "untouched n \<Longrightarrow> untouched (whenA b n)"
  "untouched p1 \<Longrightarrow> untouched p2 \<Longrightarrow> untouched (if b then p1 else p2)"
  "(\<And>x y. untouched (l x y)) \<Longrightarrow> untouched (case pr of (x, y) \<Rightarrow> l x y)"
  by (auto simp: untouched_def act_run whenA_def thenA_def bindA_cases split: sum.split prod.split)

lemma untouched_modify: "(\<And>rt. rt_mapStates (f rt) = rt_mapStates rt) \<Longrightarrow> untouched (modifyA f)"
  by (simp add: untouched_def act_run)

lemma progA_untouched: "keepR (runtime_ok ssl) m \<Longrightarrow> untouched m \<Longrightarrow> progA ssl m"
  by (rule progA_keep) (simp_all add: untouched_def)

lemma untouched_operations:
  "untouched (validateActiveRound r)" "untouched (applyAttackSourceMapping env det)"
  "untouched clearAttackSourceMappings" "untouched updateGlobalRunning" "untouched (queueDosSummaryIfDue env)"
  unfolding validateActiveRound_def applyAttackSourceMapping_def clearAttackSourceMappings_def
    updateGlobalRunning_def queueDosSummaryIfDue_def Let_def
  by (intro untouched_rules untouched_modify; simp)+

lemma untouched_enqueue: "untouched (bEnqueueDatagram env ip xs t)"
proof -
  have rej: "untouched (rejectDatagram env f t ip c reason)" for f c reason
    unfolding rejectDatagram_def queueUnscopedFailure_def by (intro untouched_rules untouched_modify; simp)
  show ?thesis
  proof (cases "udp_resDecodeHeader xs")
    case (Inl e)
    show ?thesis unfolding bEnqueueDatagram_def Inl sum.case by (rule rej)
  next
    case (Inr hdr)
    show ?thesis unfolding bEnqueueDatagram_def Inr sum.case by (intro untouched_rules untouched_modify rej; simp)
  qed
qed

lemma progA_checks: "progA ssl (checkPauseAndTimeouts env)"
proof -
  have "progA ssl (onReceiver k (False, []) (checkReceiver env))" for k
    by (rule progA_onReceiver [OF checkReceiver_receiver_ok]) (auto intro: advAD [OF advA_checkReceiver refl])
  then have "progA ssl (checkReceivers env ks)" for ks
    by (induction ks) (auto intro!: prog_rules)
  moreover have "progA ssl updateGlobalRunning" "progA ssl (modifyA (\<lambda>rt. rt\<lparr>rt_bPaused := b\<rparr>))" for b
    unfolding updateGlobalRunning_def by (intro progA_untouched keepR_same untouched_modify; simp)+
  ultimately show ?thesis unfolding checkPauseAndTimeouts_def by (intro prog_rules)
qed

lemma progA_take: "progA (env_ssl env) (takeDatagram env)"
  unfolding progA_def
proof
  fix rt :: receiver_runtime
  let ?P = "progA (env_ssl env)"
  have "?P updateGlobalRunning"
    unfolding updateGlobalRunning_def by (intro progA_untouched keepR_same untouched_modify; simp)
  moreover have "?P (onReceiver k [] (processDatagram env que))" for k que
    by (rule progA_onReceiver [OF processDatagram_receiver_ok])
      (auto intro: advAD [OF advA_processDatagram refl] receiver_ok_prm)
  ultimately have step: "?P (bindA (onReceiver k [] (processDatagram env que)) (\<lambda>vecResults.
        thenA (whenA (vecResults \<noteq> []) updateGlobalRunning) (retA vecResults)))" for k que
    by (intro prog_rules)
  show "progresses (env_ssl env) rt (snd (takeDatagram env rt))"
  proof (cases "rt_deqDatagrams rt")
    case Nil
    then show ?thesis by (simp add: takeDatagram_def act_simps progresses_refl)
  next
    case (Cons que deq)
    let ?rt = "rt\<lparr>rt_deqDatagrams := deq\<rparr>"
    have "progresses (env_ssl env) rt ?rt"
      using Cons advances_refl by (auto simp: progresses_def runtime_ok_def findState_def)
    moreover have "progresses (env_ssl env) ?rt (snd (takeDatagram env rt))"
      using step [of "que_keyContext que" que] by (simp add: takeDatagram_def Cons act_simps progA_def)
    ultimately show ?thesis by (rule progresses_trans)
  qed
qed

lemma progA_worker: "progA (env_ssl env) (workerStep env)"
proof -
  have "progA ssl (queueDosSummaryIfDue env)" for ssl
    unfolding queueDosSummaryIfDue_def
    by (intro progA_untouched untouched_rules untouched_modify runtime_rules keepR_same; simp)
  moreover have "progA ssl (modifyA (\<lambda>rt. rt\<lparr>rt_monitor := f rt\<rparr>))" for ssl f
    by (intro progA_untouched keepR_same untouched_modify; simp)
  ultimately show ?thesis unfolding workerStep_def by (intro prog_rules progA_take progA_checks)
qed

lemma runtime_step_progresses:
  assumes "in_round_op op"
  shows "progA (env_ssl env) (runtime_step env op)"
proof -
  let ?P = "progA (env_ssl env)"
  have val: "?P (validateActiveRound r)" for r by (intro progA_untouched keepR_validate untouched_operations)
  show ?thesis
  proof (cases op)
    case (RtRequestPause r i u)
    have "?P (statesA (pauseReceiver i u))"
      by (intro progA_states keepR_states [OF pauseReceiver_ok])
        (auto simp: pauseReceiver_def flags_only_def split: if_splits)
    then show ?thesis unfolding RtRequestPause runtime_step.simps requestPause_def by (intro prog_rules val)
  next
    case (RtResume r i u)
    have "?P (statesA (resumeReceiver (env_u64Now env) i u))"
      by (intro progA_states keepR_states [OF resumeReceiver_ok])
        (auto simp: resumeReceiver_def flags_only_def split: if_split_asm)
    moreover have "?P (modifyA (\<lambda>rt. rt\<lparr>rt_bPaused := False\<rparr>))"
      by (intro progA_untouched keepR_same untouched_modify; simp)
    ultimately show ?thesis unfolding RtResume runtime_step.simps resume_def by (intro prog_rules val)
  next
    case RtStop
    show ?thesis unfolding RtStop runtime_step.simps by (rule progA_stop)
  next
    case (RtApplyMapping det)
    show ?thesis unfolding RtApplyMapping runtime_step.simps
      by (intro progA_then progA_basic progA_untouched keepR_mappings untouched_operations)
  next
    case RtClearMappings
    show ?thesis unfolding RtClearMappings runtime_step.simps
      by (intro progA_then progA_basic progA_untouched keepR_mappings untouched_operations)
  next
    case (RtEnqueue ip xs u)
    show ?thesis unfolding RtEnqueue runtime_step.simps
      by (intro progA_then progA_basic progA_untouched keepR_enqueue untouched_enqueue)
  next
    case RtWork
    show ?thesis unfolding RtWork runtime_step.simps by (intro prog_rules progA_worker)
  qed (use assms in simp_all)
qed

lemma round_progresses:
  "list_all (in_round_op \<circ> snd) ops \<Longrightarrow> progresses ssl rt (run_ops (timed_step ssl obs) ops rt)"
proof (induction ops arbitrary: rt)
  case Nil
  then show ?case by (simp add: progresses_refl)
next
  case (Cons call ops)
  have "progresses ssl rt (snd (timed_step ssl obs call rt))"
    using runtime_step_progresses [of "snd call" "\<lparr>env_ssl = ssl, env_bObserve = obs, env_u64Now = fst call\<rparr>"]
      Cons.prems by (simp add: timed_step_def split_beta progA_def)
  with Cons.IH Cons.prems progresses_trans show ?case by (simp, blast)
qed

section \<open>A slot is filled by a packet in time\<close>

definition packetsOf :: "receiver_state \<Rightarrow> udp_data option list" where
  "packetsOf rs = map rec_optPacket (rs_vecPacketRecords rs)"

lemma packetsOf_nth: "n < slotCount rs \<Longrightarrow> packetsOf rs ! n = packetAt rs n"
  by (simp add: packetsOf_def slotCount_def packetAt_def)

lemma verifyInterval_packets: "leaves packetsOf (verifyInterval env i)"
  by (rule leaves_via [OF verifyInterval_settled]) (simp add: packetsOf_def settled_def comp_def)

lemma packets_updates:
  "leaves packetsOf (updA setIncomplete)" "leaves packetsOf (updA (setCandidates j cs))"
  "leaves packetsOf (updA (\<lambda>rs. rs\<lparr>rs_bActive := False, rs_bResultReported := True\<rparr>))"
  "leaves packetsOf (updA (\<lambda>rs. rs\<lparr>rs_bPaused := True\<rparr>))"
  "leaves packetsOf (updA (\<lambda>rs. rs\<lparr>rs_u32ReceivedPacketCount := rs_u32ReceivedPacketCount rs + 1\<rparr>))"
  "leaves packetsOf (updA (\<lambda>rs. rs\<lparr>rs_mapDisclosedKeys := (rs_mapDisclosedKeys rs)(j2 \<mapsto> key)\<rparr>))"
  by (intro leaves_upd; simp add: packetsOf_def setIncomplete_def setCandidates_def)+

lemma missing_leaves: "leaves f (queueMissingPacketFailures env)"
  unfolding queueMissingPacketFailures_def missingFailure_def by (intro leaves_rules)

lemma processDisclosedKey_packets: "leaves packetsOf (processDisclosedKey env i key)"
proof -
  have "leaves packetsOf (recoverKeys env crp n dig)" for crp n dig
    by (induction n arbitrary: dig)
      (auto simp: Let_def incompleteA_def simp del: of_nat_Suc intro!: leaves_rules verifyInterval_packets packets_updates)
  then show ?thesis
    unfolding processDisclosedKey_def incompleteA_def finalize_def tryRecover_def Let_def
    by (intro leaves_rules verifyInterval_packets packets_updates missing_leaves)
qed

lemma processData_packets:
  assumes "n < slotCount (fst s)" "packetAt (fst s) n = None"
    "packetAt (fst (snd (processData env que d s))) n \<noteq> None"
  shows "n = unat (ud_u32PacketIndex d)" "que_typeSource que \<noteq> AttackInjection"
    "bIsPacketTimeSafe (fst s) (ud_u32IntervalIndex d) (que_u64ReceiveTimestampMilliseconds que)"
    "packetAt (fst (snd (processData env que d s))) n = Some d"
proof -
  let ?t = "fst (snd (processData env que d s))"
  have same: False if "packetsOf ?t = packetsOf (fst s)"
  proof -
    from map_eq_imp_length_eq [OF that [unfolded packetsOf_def]] have "slotCount ?t = slotCount (fst s)"
      by (simp add: slotCount_def)
    with that assms show False using packetsOf_nth [of n ?t] packetsOf_nth [of n "fst s"] by simp
  qed
  have "n = unat (ud_u32PacketIndex d) \<and> que_typeSource que \<noteq> AttackInjection
    \<and> bIsPacketTimeSafe (fst s) (ud_u32IntervalIndex d) (que_u64ReceiveTimestampMilliseconds que)
    \<and> packetAt ?t n = Some d"
  proof (cases rule: processData_cases [where d = d and que = que and env = env and s = s])
    case late
    have "leaves packetsOf (thenA (rejectLate env que d) (retA ([] :: runtime_result list)))"
      unfolding rejectLate_def by (intro leaves_rules packets_updates)
    from leavesD [OF this, of s] late(2) same show ?thesis by simp
  next
    case (conflict h)
    have "leaves packetsOf (thenA (conflictingCandidate env que d h) (retA ([] :: runtime_result list)))"
      unfolding conflictingCandidate_def countDuplicate_def Let_def by (intro leaves_rules packets_updates)
    from leavesD [OF this, of s] conflict same show ?thesis by simp
  next
    case (attack h)
    have "leaves packetsOf (thenA (earlyAttack env que d h) (retA ([] :: runtime_result list)))"
      unfolding earlyAttack_def countDuplicate_def Let_def by (intro leaves_rules packets_updates)
    from leavesD [OF this, of s] attack same show ?thesis by simp
  next
    case (store h ev t)
    let ?rec = "newRecord que d ev h"
    let ?rs = "setRecord (unat (ud_u32PacketIndex d)) ?rec (fst s)"
    have "leaves packetsOf (packetStored env ?rec d)"
      unfolding packetStored_def by (intro leaves_rules packets_updates processDisclosedKey_packets)
    from leavesD [OF this, of "(?rs, snd t)"] store(7) have eq: "packetsOf ?t = packetsOf ?rs" by simp
    from map_eq_imp_length_eq [OF eq [unfolded packetsOf_def]] have "slotCount ?t = slotCount (fst s)"
      by (simp add: slotCount_def setRecord_def)
    with assms(1) eq have "packetAt ?t n = packetAt ?rs n"
      using packetsOf_nth [of n ?t] packetsOf_nth [of n ?rs] by simp
    with slot_setRecord(1) [OF assms(1), of "unat (ud_u32PacketIndex d)" ?rec] assms(2,3) store(2,3)
    show ?thesis by (simp add: newRecord_def split: if_splits)
  next
    case (hash_failed e)
    with same show ?thesis by simp
  next
    case (duplicate c)
    let ?j = "unat (ud_u32PacketIndex d)"
    have "packetsOf ?t = packetsOf (fst s)"
      unfolding duplicate(2) packetsOf_def setRecord_def by (simp add: map_unseen_update)
    with same show ?thesis by blast
  qed
  then show "n = unat (ud_u32PacketIndex d)" "que_typeSource que \<noteq> AttackInjection"
    "bIsPacketTimeSafe (fst s) (ud_u32IntervalIndex d) (que_u64ReceiveTimestampMilliseconds que)"
    "packetAt ?t n = Some d" by blast+
qed

lemma processDatagram_packets:
  assumes "n < slotCount (fst s)" "packetAt (fst s) n = None"
    "packetAt (fst (snd (processDatagram env que s))) n = Some d"
  shows "n = unat (ud_u32PacketIndex d) \<and> que_typeSource que \<noteq> AttackInjection
    \<and> bIsPacketTimeSafe (fst s) (ud_u32IntervalIndex d) (que_u64ReceiveTimestampMilliseconds que)
    \<and> (\<exists>uctx. ctxCreatePacketContext (rs_prm (fst s)) = Inr uctx
        \<and> udp_resDecode (que_vecDatagram que) uctx = Inr (Inr (UdpData d)))"
proof -
  let ?t = "fst (snd (processDatagram env que s))"
  have same: False if "packetsOf ?t = packetsOf (fst s)"
  proof -
    from map_eq_imp_length_eq [OF that [unfolded packetsOf_def]] have "slotCount ?t = slotCount (fst s)"
      by (simp add: slotCount_def)
    with that assms show False using packetsOf_nth [of n ?t] packetsOf_nth [of n "fst s"] by simp
  qed
  have act: "rs_bActive (fst s) \<and> \<not> rs_bResultReported (fst s)"
    by (rule ccontr) (use same in \<open>auto simp: processDatagram_def act_simps\<close>)
  obtain uctx where u: "ctxCreatePacketContext (rs_prm (fst s)) = Inr uctx"
    using act same by (cases "ctxCreatePacketContext (rs_prm (fst s))") (auto simp: processDatagram_def act_simps)
  obtain dec where dec: "udp_resDecode (que_vecDatagram que) uctx = Inr dec"
    using udp_resDecode_total by blast
  let ?bad = "thenA (updA setIncomplete)
      (thenA (queueFailure env ((report FailProtocolError 0 0 0 []
            ''UDP authentication payload failed context-aware decoding'')
          \<lparr>fr_strActualSourceIp := que_strActualSourceIp que\<rparr>))
       (retA ([] :: runtime_result list)))"
  have run: "processDatagram env que s = (case dec of Inl _ \<Rightarrow> ?bad
      | Inr (UdpDisclosure d) \<Rightarrow> processDisclosure env que d | Inr (UdpData d) \<Rightarrow> processData env que d) s"
    using act u dec by (simp add: processDatagram_def act_simps)
  show ?thesis
  proof (cases dec)
    case (Inl e)
    have "leaves packetsOf ?bad" by (intro leaves_rules packets_updates)
    from leavesD [OF this, of s] run Inl same show ?thesis by simp
  next
    case (Inr p)
    show ?thesis
    proof (cases p)
      case (UdpDisclosure d')
      have "leaves packetsOf (processDisclosure env que d')"
        unfolding processDisclosure_def by (intro leaves_rules processDisclosedKey_packets)
      from leavesD [OF this, of s] run Inr UdpDisclosure same show ?thesis by simp
    next
      case (UdpData d')
      then have r: "processDatagram env que s = processData env que d' s" using run Inr by simp
      have "packetAt (fst (snd (processData env que d' s))) n \<noteq> None" using assms(3) r by simp
      note D = processData_packets [OF assms(1,2) this]
      from D(4) assms(3) r have "d' = d" by simp
      with D(1-3) u dec Inr UdpData show ?thesis by blast
    qed
  qed
qed

text \<open>A turn of the worker, seen from one receiver.\<close>

lemma findState_rt_updates [simp]:
  "findState (rt\<lparr>rt_deqDatagrams := x1\<rparr>) k = findState rt k" "findState (rt\<lparr>rt_bPaused := x2\<rparr>) k = findState rt k"
  "findState (rt\<lparr>rt_bRunning := x3\<rparr>) k = findState rt k"
  by (simp_all add: findState_def)

lemma untouched_find: "untouched m \<Longrightarrow> findState (snd (m rt)) k = findState rt k"
  by (simp add: untouched_def findState_def)

text \<open>What an action leaves alone of every receiver.\<close>

definition leavesAll :: "(receiver_state \<Rightarrow> 'b) \<Rightarrow> (receiver_runtime, 'a) act \<Rightarrow> bool" where
  "leavesAll f m \<longleftrightarrow> (\<forall>rt. (\<lambda>k. map_option f (findState (snd (m rt)) k)) = (\<lambda>k. map_option f (findState rt k)))"

lemma leavesAllD: "leavesAll f m \<Longrightarrow> map_option f (findState (snd (m rt)) k) = map_option f (findState rt k)"
  unfolding leavesAll_def by metis

lemma leavesAll_untouched: "untouched m \<Longrightarrow> leavesAll f m"
  by (simp add: leavesAll_def untouched_find)

lemma leavesAll_bind:
  assumes "leavesAll f m" "\<And>x. leavesAll f (g x)"
  shows "leavesAll f (bindA m g)"
  using frame.bind [of "\<lambda>rt k. map_option f (findState rt k)" _ m g] assms
  unfolding leavesAll_def by metis

lemma leavesAll_then: "leavesAll f m \<Longrightarrow> leavesAll f n \<Longrightarrow> leavesAll f (thenA m n)"
  unfolding thenA_def by (rule leavesAll_bind) auto

lemma leavesAll_pair: "(\<And>x y. leavesAll f (h x y)) \<Longrightarrow> leavesAll f (case pr of (x, y) \<Rightarrow> h x y)"
  by (simp split: prod.split)

lemma onReceiver_run:
  assumes "findState rt k = Some rs" "m (rs, rt_monitor rt) = (r, rs', mon)"
  shows "onReceiver k none m rt = (r, setState k rs' (rt\<lparr>rt_monitor := mon\<rparr>))"
  using assms by (simp add: onReceiver_def)

lemma findState_onReceiver:
  "findState (snd (onReceiver k none m rt)) k' =
     (if k' = k then map_option (\<lambda>rs. fst (snd (m (rs, rt_monitor rt)))) (findState rt k) else findState rt k')"
proof (cases "findState rt k")
  case None
  then show ?thesis by (simp add: onReceiver_def)
next
  case (Some rs)
  obtain r rs' mon where m: "m (rs, rt_monitor rt) = (r, rs', mon)" by (cases "m (rs, rt_monitor rt)") auto
  show ?thesis
    using onReceiver_run [of rt k rs m r rs' mon none] Some m by (simp add: findState_setState)
qed

lemma leavesAll_onReceiver: "leaves f m \<Longrightarrow> leavesAll f (onReceiver k none m)"
proof -
  assume "leaves f m"
  then have "f (fst (snd (m (rs, mon)))) = f rs" for rs mon using leavesD [of f m "(rs, mon)"] by simp
  then show ?thesis
    unfolding leavesAll_def by (auto simp: findState_onReceiver fun_eq_iff option.map_comp comp_def)
qed

lemma leavesAll_checks:
  assumes "leaves f (checkReceiver env)"
  shows "leavesAll f (checkPauseAndTimeouts env)"
proof -
  have "leavesAll f (checkReceivers env ks)" for ks
  proof (induction ks)
    case Nil
    show ?case by (simp add: leavesAll_untouched untouched_rules)
  next
    case (Cons k ks)
    show ?case unfolding checkReceivers.simps
      by (intro leavesAll_bind leavesAll_pair leavesAll_onReceiver assms Cons.IH leavesAll_untouched untouched_rules)
  qed
  moreover have "untouched (modifyA (\<lambda>rt. rt\<lparr>rt_bPaused := b\<rparr>))" for b by (rule untouched_modify) simp
  ultimately show ?thesis
    unfolding checkPauseAndTimeouts_def
    by (intro leavesAll_bind leavesAll_then leavesAll_pair)
      (auto intro: leavesAll_untouched untouched_rules untouched_operations)
qed

text \<open>The rest of a turn after the datagram is taken.\<close>

lemma leavesAll_worker_rest:
  assumes "leaves f (checkReceiver env)" "\<And>vec. untouched (fin vec)"
  shows "leavesAll f (bindA (checkPauseAndTimeouts env) fin)"
  using assms by (intro leavesAll_bind leavesAll_checks leavesAll_untouched)

lemma workerStep_leaves:
  assumes f: "leaves f (checkReceiver env)" and rt: "findState rt k = Some rs"
    and rt': "findState (snd (workerStep env rt)) k = Some rs'"
  shows "f rs' = f rs \<or> (\<exists>que deq. rt_deqDatagrams rt = que # deq \<and> que_keyContext que = k
      \<and> f rs' = f (fst (snd (processDatagram env que (rs, rt_monitor rt)))))"
proof -
  have fin: "untouched (thenA (queueDosSummaryIfDue env)
     (bindA (getA (\<lambda>rt. mon_vecPendingObservations (rt_monitor rt))) (\<lambda>vecObservations.
      thenA (modifyA (\<lambda>rt. rt\<lparr>rt_monitor := (rt_monitor rt)\<lparr>mon_vecPendingObservations := []\<rparr>\<rparr>))
        (retA (if env_bObserve env then vecObservations else [], v)))))" for v :: "runtime_result list"
    by (intro untouched_rules untouched_operations untouched_modify; simp)
  then have rest: "leavesAll f (bindA (checkPauseAndTimeouts env) (\<lambda>vecTimeouts.
     thenA (queueDosSummaryIfDue env)
     (bindA (getA (\<lambda>rt. mon_vecPendingObservations (rt_monitor rt))) (\<lambda>vecObservations.
      thenA (modifyA (\<lambda>rt. rt\<lparr>rt_monitor := (rt_monitor rt)\<lparr>mon_vecPendingObservations := []\<rparr>\<rparr>))
        (retA (if env_bObserve env then vecObservations else [], v @ vecTimeouts))))))" for v
    by (intro leavesAll_worker_rest f fin)
  let ?t = "snd (takeDatagram env rt)"
  have E: "map_option f (findState (snd (workerStep env rt)) k) = map_option f (findState ?t k)"
    unfolding workerStep_def bindA_cases [of "takeDatagram env"]
    by (cases "fst (takeDatagram env rt)") (simp_all add: leavesAllD [OF rest])
  have glob: "findState (snd (thenA (whenA b updateGlobalRunning) (retA v) rt2)) k = findState rt2 k"
    for b v rt2 by (rule untouched_find) (intro untouched_rules untouched_operations)
  show ?thesis
  proof (cases "rt_deqDatagrams rt")
    case Nil
    then have "findState ?t k = Some rs" using rt by (simp add: takeDatagram_def act_simps)
    with E rt' show ?thesis by simp
  next
    case (Cons que deq)
    let ?rt = "rt\<lparr>rt_deqDatagrams := deq\<rparr>"
    have "?t = snd (bindA (onReceiver (que_keyContext que) [] (processDatagram env que)) (\<lambda>vecResults.
        thenA (whenA (vecResults \<noteq> []) updateGlobalRunning) (retA vecResults)) ?rt)"
      by (simp add: takeDatagram_def Cons act_simps)
    then have "findState ?t k = findState (snd (onReceiver (que_keyContext que) [] (processDatagram env que) ?rt)) k"
      by (simp add: bindA_cases glob split: sum.split)
    then have "findState ?t k = (if k = que_keyContext que
        then Some (fst (snd (processDatagram env que (rs, rt_monitor rt)))) else Some rs)"
      using rt by (cases "k = que_keyContext que") (simp_all add: findState_onReceiver)
    with E rt' Cons show ?thesis by (auto split: if_splits)
  qed
qed

lemma checkReceiver_packets: "leaves packetsOf (checkReceiver env)"
  unfolding checkReceiver_def Let_def by (intro leaves_rules packets_updates missing_leaves)

end
