(* ===== verification/RuntimeResults.thy ===== *)
theory RuntimeResults
  imports RuntimeRounds
begin

text \<open>
  How many results a round reports, and for whom. A receiver waits while it is active and has not
  reported; \<open>waitingIn\<close> counts those of some senders' chains, and \<open>countIn\<close> the results that name
  them. Every call of a round that returns hands out, for each sender's chain, as many results as
  its receivers stop waiting in it.
\<close>

section \<open>One receiver\<close>

definition waiting :: "receiver_state \<Rightarrow> bool" where
  "waiting rs \<longleftrightarrow> rs_bActive rs \<and> \<not> rs_bResultReported rs"

text \<open>Started on a waiting receiver that holds \<open>n\<close> results, \<open>m\<close> returns one more, and the
  receiver waits no longer, or the same number.\<close>

definition accounts :: "nat \<Rightarrow> ('a \<Rightarrow> nat) \<Rightarrow> (focus, 'a) act \<Rightarrow> bool" where
  "accounts n sz m \<longleftrightarrow> (\<forall>s x t. m s = (Inr x, t) \<longrightarrow>
     sz x + of_bool (waiting (fst t)) = n + of_bool (waiting (fst s)))"

lemma accountsD: "accounts n sz m \<Longrightarrow> m s = (Inr x, t) \<Longrightarrow>
    sz x + of_bool (waiting (fst t)) = n + of_bool (waiting (fst s))"
  unfolding accounts_def by blast

lemma accounts_bind:
  assumes "accounts n sz m" "\<And>x. accounts (sz x) sz' (g x)"
  shows "accounts n sz' (bindA m g)"
  unfolding accounts_def
proof (intro allI impI)
  fix s y u
  assume "bindA m g s = (Inr y, u)"
  then obtain x t where "m s = (Inr x, t)" "g x t = (Inr y, u)" unfolding bindA_Inr by blast
  from accountsD [OF assms(1) this(1)] accountsD [OF assms(2) this(2)]
  show "sz' y + of_bool (waiting (fst u)) = n + of_bool (waiting (fst s))" by simp
qed

lemma accounts_then: "accounts n (\<lambda>_. k) m \<Longrightarrow> accounts k sz p \<Longrightarrow> accounts n sz (thenA m p)"
  unfolding thenA_def by (rule accounts_bind)

lemma accounts_leaves: "leaves waiting m \<Longrightarrow> accounts n (\<lambda>_. n) m"
  unfolding accounts_def by (metis leaves_run)

lemma accounts_ret: "sz x = n \<Longrightarrow> accounts n sz (retA x)"
  by (simp add: accounts_def act_run)

lemma accounts_branches:
  "(b \<Longrightarrow> accounts n sz p) \<Longrightarrow> (\<not> b \<Longrightarrow> accounts n sz q) \<Longrightarrow> accounts n sz (if b then p else q)"
  "accounts n sz p \<Longrightarrow> (\<And>x. accounts n sz (g x)) \<Longrightarrow> accounts n sz (case opt of None \<Rightarrow> p | Some x \<Rightarrow> g x)"
  by (auto split: option.split)

lemma waiting_updates:
  "leaves waiting (updA setIncomplete)" "leaves waiting (updA (setCandidates j cs))"
  "leaves waiting (updA (setRecord n rec))"
  "leaves waiting (updA (\<lambda>rs. rs\<lparr>rs_bPaused := True\<rparr>))"
  "leaves waiting (updA (\<lambda>rs. rs\<lparr>rs_u32ReceivedPacketCount := rs_u32ReceivedPacketCount rs + 1\<rparr>))"
  "leaves waiting (updA (\<lambda>rs. rs\<lparr>rs_mapDisclosedKeys := (rs_mapDisclosedKeys rs)(i \<mapsto> key)\<rparr>))"
  by (intro leaves_upd; simp add: waiting_def setIncomplete_def setCandidates_def setRecord_def)+

lemma verifyInterval_waiting: "leaves waiting (verifyInterval env i)"
  by (rule leaves_via [OF verifyInterval_settled]) (simp add: waiting_def settled_def)

lemma recoverKeys_waiting: "leaves waiting (recoverKeys env crp n dig)"
  by (induction n arbitrary: dig)
    (auto simp: Let_def incompleteA_def simp del: of_nat_Suc
      intro!: leaves_rules verifyInterval_waiting waiting_updates)

text \<open>Started on a waiting receiver: one result when it stops waiting, none otherwise.\<close>

definition reports :: "('a \<Rightarrow> nat) \<Rightarrow> (focus, 'a) act \<Rightarrow> bool" where
  "reports sz m \<longleftrightarrow> (\<forall>s x t. waiting (fst s) \<longrightarrow> m s = (Inr x, t) \<longrightarrow> sz x + of_bool (waiting (fst t)) = 1)"

lemma reportsD: "reports sz m \<Longrightarrow> waiting (fst s) \<Longrightarrow> m s = (Inr x, t) \<Longrightarrow> sz x + of_bool (waiting (fst t)) = 1"
  unfolding reports_def by blast

lemma reports_accounts: "accounts 0 sz m \<Longrightarrow> reports sz m"
  by (auto simp: reports_def dest: accountsD)

lemma reports_bind:
  assumes "reports sz m" "\<And>x. accounts (sz x) sz' (g x)"
  shows "reports sz' (bindA m g)"
  unfolding reports_def
proof (intro allI impI)
  fix s y u
  assume w: "waiting (fst s)" and "bindA m g s = (Inr y, u)"
  then obtain x t where "m s = (Inr x, t)" "g x t = (Inr y, u)" unfolding bindA_Inr by blast
  from reportsD [OF assms(1) w this(1)] accountsD [OF assms(2) this(2)]
  show "sz' y + of_bool (waiting (fst u)) = 1" by simp
qed

lemma reports_after:
  assumes "leaves waiting m" "\<And>x. reports sz (g x)"
  shows "reports sz (bindA m g)"
  unfolding reports_def
proof (intro allI impI)
  fix s y u
  assume w: "waiting (fst s)" and "bindA m g s = (Inr y, u)"
  then obtain x t where r: "m s = (Inr x, t)" "g x t = (Inr y, u)" unfolding bindA_Inr by blast
  from leaves_run [OF assms(1) r(1)] w have "waiting (fst t)" by simp
  from reportsD [OF assms(2) this r(2)] show "sz y + of_bool (waiting (fst u)) = 1" .
qed

lemma reports_branches:
  "(b \<Longrightarrow> reports sz p) \<Longrightarrow> (\<not> b \<Longrightarrow> reports sz q) \<Longrightarrow> reports sz (if b then p else q)"
  "reports sz p' \<Longrightarrow> (\<And>x. reports sz (g x)) \<Longrightarrow> reports sz (case opt of None \<Rightarrow> p' | Some x \<Rightarrow> g x)"
  by (auto split: option.split)

lemma reports_then: "leaves waiting m \<Longrightarrow> reports sz n \<Longrightarrow> reports sz (thenA m n)"
  unfolding thenA_def by (rule reports_after)

text \<open>Finalising ends the wait with one result.\<close>

lemma finalize_reports: "reports (\<lambda>_. 1) (finalize env)"
proof -
  let ?stop = "updA (\<lambda>rs. rs\<lparr>rs_bActive := False, rs_bResultReported := True\<rparr>)"
  let ?rest = "bindA (rsA id) (\<lambda>rs.
      bindA (liftA (varIncompletePayloadDetails rs)) (\<lambda>detIncomplete.
      bindA (tryRecover env detIncomplete) (\<lambda>(det, bPayloadRecovered).
      bindA (rsA id) (\<lambda>rs.
      case finalStatus rs bPayloadRecovered of (status, strMessage) \<Rightarrow>
        liftA (resultOf rs status det strMessage)))))"
  have "leaves waiting ?rest"
    unfolding tryRecover_def by (intro leaves_rules waiting_updates)
  from leaves_run [OF this] have rest: "reports (\<lambda>_. 1) (thenA ?stop ?rest)"
    by (auto simp: reports_def then_updA waiting_def)
  have verify: "leaves waiting (forA (verifyInterval env) xs)" for xs
    by (intro leaves_rules verifyInterval_waiting)
  show ?thesis
    unfolding finalize_def
    by (rule reports_after [OF leaves_intros(4)], rule reports_then [OF verify],
        rule reports_then [OF missing_leaves], rule rest)
qed

lemma processDisclosedKey_reports:
  "reports (\<lambda>(_, vecResults). length vecResults) (processDisclosedKey env i key)"
proof -
  let ?sz = "\<lambda>(_ :: bool, vecResults :: runtime_result list). length vecResults"
  have none: "reports ?sz (incompleteA (False, []))"
    unfolding incompleteA_def by (intro reports_then waiting_updates reports_accounts accounts_ret) simp
  have ret: "reports ?sz (retA (b, []))" for b by (intro reports_accounts accounts_ret) simp
  have fin: "reports ?sz (bindA (finalize env) (\<lambda>res. retA (True, [res])))"
    by (rule reports_bind [OF finalize_reports]) (simp add: accounts_ret)
  show ?thesis
    unfolding processDisclosedKey_def Let_def
    by (intro reports_after leaves_rules reports_branches none ret fin recoverKeys_waiting)
qed

lemma processDatagram_reports: "reports length (processDatagram env que)"
proof -
  have quiet: "leaves waiting m \<Longrightarrow> reports length (thenA m (retA ([] :: runtime_result list)))"
    for m :: "(focus, unit) act"
    by (intro reports_then reports_accounts accounts_ret) simp_all
  have "accounts (length vec) length (bindA nextObservationEventId (\<lambda>u64EventId. thenA (r u64EventId)
      (thenA (q u64EventId) (retA vec))))"
    if "\<And>x. leaves waiting (r x)" "\<And>x. leaves waiting (q x)" for vec :: "runtime_result list" and r q
    by (intro accounts_bind [OF accounts_leaves] accounts_then [OF accounts_leaves] leaves_rules that accounts_ret refl)
  note tail = this
  have dis: "reports length (processDisclosure env que d)" for d
    unfolding processDisclosure_def
    by (rule reports_bind [OF processDisclosedKey_reports])
      (auto intro!: tail leaves_rules split: prod.split)
  have rec: "reports length (bindA (processDisclosedKey env i key) (\<lambda>(_, vecResults). retA vecResults))" for i key
    by (rule reports_bind [OF processDisclosedKey_reports]) (auto intro: accounts_ret split: prod.split)
  have dat: "reports length (processData env que d)" for d
    unfolding processData_def rejectLate_def storePacket_def packetStored_def Let_def
      duplicateOfSlot_def conflictingCandidate_def earlyAttack_def countDuplicate_def
    by (intro reports_after reports_branches quiet reports_then rec leaves_rules waiting_updates
        reports_accounts accounts_ret) simp_all
  have pkt: "reports length (case p of UdpDisclosure d \<Rightarrow> processDisclosure env que d
      | UdpData d \<Rightarrow> processData env que d)" for p by (cases p) (simp_all add: dis dat)
  have bad: "reports length (thenA (updA setIncomplete) (thenA (queueFailure env fr) (retA ([] :: runtime_result list))))"
    for fr by (intro reports_then quiet leaves_rules waiting_updates)
  have dec: "reports length (case dec of Inl _ \<Rightarrow>
        thenA (updA setIncomplete)
           (thenA (queueFailure env ((report FailProtocolError 0 0 0 []
                ''UDP authentication payload failed context-aware decoding'')
              \<lparr>fr_strActualSourceIp := que_strActualSourceIp que\<rparr>))
           (retA []))
      | Inr (UdpDisclosure d) \<Rightarrow> processDisclosure env que d | Inr (UdpData d) \<Rightarrow> processData env que d)"
    for dec :: "decode_error + udp_packet"
    by (cases dec) (simp_all only: sum.case bad pkt)
  have "reports length (retA ([] :: runtime_result list))" by (intro reports_accounts accounts_ret) simp
  then show ?thesis
    unfolding processDatagram_def by (intro reports_after reports_branches leaves_rules dec)
qed

lemma processDatagram_accounts: "accounts 0 length (processDatagram env que)"
  unfolding accounts_def
proof (intro allI impI)
  fix s x t
  assume run: "processDatagram env que s = (Inr x, t)"
  show "length x + of_bool (waiting (fst t)) = 0 + of_bool (waiting (fst s))"
  proof (cases "waiting (fst s)")
    case True
    with reportsD [OF processDatagram_reports True run] show ?thesis by simp
  next
    case False
    then have "processDatagram env que s = (Inr [], s)"
      by (auto simp: processDatagram_def waiting_def act_simps)
    with run show ?thesis by simp
  qed
qed

lemma checkReceiver_idle: "\<not> waiting (fst s) \<Longrightarrow> checkReceiver env s = (Inr (False, []), s)"
  by (auto simp: checkReceiver_def waiting_def act_simps)

lemma checkReceiver_accounts: "accounts 0 (\<lambda>(_, vecResults). length vecResults) (checkReceiver env)"
proof -
  let ?sz = "\<lambda>(_ :: bool, vecResults :: runtime_result list). length vecResults"
  have ret: "reports ?sz (retA (b, []))" for b by (intro reports_accounts accounts_ret) simp
  let ?stop = "updA (\<lambda>rs. rs\<lparr>rs_bActive := False, rs_bResultReported := True\<rparr>)"
  have stop: "reports ?sz (thenA ?stop (bindA (rsA id) (\<lambda>rs. bindA (liftA (resCreateResult rs VerificationTimeout
             ''Receiver timed out waiting for the final disclosed key'')) (\<lambda>res. retA (b, [res])))))" for b
    unfolding reports_def then_updA bindA_Inr by (auto simp: act_run rsA_run waiting_def)
  have "reports ?sz (checkReceiver env)"
    unfolding checkReceiver_def Let_def
    by (intro reports_after [OF leaves_intros(4)] reports_branches ret reports_then [OF missing_leaves stop]
        reports_then [OF leaves_when [OF waiting_updates(4)]])
  from reportsD [OF this] show ?thesis
    using checkReceiver_idle [of _ env] by (fastforce simp: accounts_def)
qed

section \<open>Deadlines\<close>

text \<open>A datagram does not move the deadline of its receiver.\<close>

definition deadlineParts :: "receiver_state \<Rightarrow> receiver_context \<times> timeline_segment list \<times> u32 option \<times> u32" where
  "deadlineParts rs = (rs_ctxContext rs, rs_vecTimeline rs, rs_optPauseAfterInterval rs,
     rs_u32ClockToleranceMilliseconds rs)"

lemma bTimedOut_parts: "deadlineParts s = deadlineParts t \<Longrightarrow> bTimedOut env s = bTimedOut env t"
  by (simp add: deadlineParts_def bTimedOut_def optIntervalStartTimestamp_def cong: option.case_cong if_cong)

lemma deadline_updates:
  "leaves deadlineParts (updA setIncomplete)" "leaves deadlineParts (updA (setCandidates j cs))"
  "leaves deadlineParts (updA (setRecord n rec))"
  "leaves deadlineParts (updA (\<lambda>rs. rs\<lparr>rs_bActive := False, rs_bResultReported := True\<rparr>))"
  "leaves deadlineParts (updA (\<lambda>rs. rs\<lparr>rs_u32ReceivedPacketCount := rs_u32ReceivedPacketCount rs + 1\<rparr>))"
  "leaves deadlineParts (updA (\<lambda>rs. rs\<lparr>rs_mapDisclosedKeys := (rs_mapDisclosedKeys rs)(i \<mapsto> key)\<rparr>))"
  by (intro leaves_upd; simp add: deadlineParts_def setIncomplete_def setCandidates_def setRecord_def)+

lemma processDisclosedKey_deadline: "leaves deadlineParts (processDisclosedKey env i key)"
proof -
  have ver: "leaves deadlineParts (verifyInterval env i)" for i
    by (rule leaves_via [OF verifyInterval_settled]) (simp add: deadlineParts_def settled_def)
  have "leaves deadlineParts (recoverKeys env crp n dig)" for crp n dig
    by (induction n arbitrary: dig)
      (auto simp: Let_def incompleteA_def simp del: of_nat_Suc intro!: leaves_rules ver deadline_updates)
  then show ?thesis
    unfolding processDisclosedKey_def incompleteA_def finalize_def tryRecover_def Let_def
    by (intro leaves_rules ver deadline_updates missing_leaves)
qed

lemma leaves_sum:
  "(\<And>x. leaves f (l x)) \<Longrightarrow> (\<And>x. leaves f (r x)) \<Longrightarrow> leaves f (case sm of Inl x \<Rightarrow> l x | Inr x \<Rightarrow> r x)"
  by (cases sm) auto

lemma leaves_packet:
  "(\<And>x. leaves f (l x)) \<Longrightarrow> (\<And>x. leaves f (r x))
    \<Longrightarrow> leaves f (case p of UdpData x \<Rightarrow> l x | UdpDisclosure x \<Rightarrow> r x)"
  by (cases p) auto

lemma processDatagram_deadline: "leaves deadlineParts (processDatagram env que)"
  unfolding processDatagram_def processDisclosure_def processData_def rejectLate_def duplicateOfSlot_def
    conflictingCandidate_def earlyAttack_def countDuplicate_def storePacket_def packetStored_def Let_def
  by (intro leaves_rules leaves_sum leaves_packet processDisclosedKey_deadline deadline_updates)

section \<open>Whose result it is\<close>

definition owner :: "receiver_state \<Rightarrow> string \<times> u64" where
  "owner rs = (rcv_strSenderId (rs_ctxContext rs), rcv_u64ChainId (rs_ctxContext rs))"

definition resultOwner :: "runtime_result \<Rightarrow> string \<times> u64" where
  "resultOwner res = (res_strSenderId res, res_u64ChainId res)"

lemma owner_parts: "leaves deadlineParts m \<Longrightarrow> leaves owner m"
  by (auto simp: leaves_def deadlineParts_def owner_def)

text \<open>Started on the receiver of sender and chain \<open>ow\<close>, every result that \<open>m\<close> returns names them.\<close>

definition carried :: "string \<times> u64 \<Rightarrow> ('a \<Rightarrow> runtime_result list) \<Rightarrow> (focus, 'a) act \<Rightarrow> bool" where
  "carried ow v m \<longleftrightarrow> (\<forall>s x t. owner (fst s) = ow \<longrightarrow> m s = (Inr x, t) \<longrightarrow>
     owner (fst t) = ow \<and> (\<forall>res \<in> set (v x). resultOwner res = ow))"

lemma carriedD:
  assumes "carried ow v m" "owner (fst s) = ow" "m s = (Inr x, t)"
  shows "owner (fst t) = ow" "\<forall>res \<in> set (v x). resultOwner res = ow"
  using assms unfolding carried_def by blast+

lemma carried_bind:
  assumes "carried ow v m" "\<And>x. \<forall>res \<in> set (v x). resultOwner res = ow \<Longrightarrow> carried ow w (g x)"
  shows "carried ow w (bindA m g)"
  unfolding carried_def
proof (intro allI impI)
  fix s y u
  assume o: "owner (fst s) = ow" and "bindA m g s = (Inr y, u)"
  then obtain x t where r: "m s = (Inr x, t)" "g x t = (Inr y, u)" unfolding bindA_Inr by blast
  note M = carriedD [OF assms(1) o r(1)]
  from carriedD [OF assms(2) [OF M(2)] M(1) r(2)]
  show "owner (fst u) = ow \<and> (\<forall>res \<in> set (w y). resultOwner res = ow)" by blast
qed

lemma carried_leaves: "leaves owner m \<Longrightarrow> carried ow (\<lambda>_. []) m"
  unfolding carried_def by (metis empty_iff empty_set leaves_run)

lemma carried_after:
  "leaves owner m \<Longrightarrow> (\<And>x. carried ow v (g x)) \<Longrightarrow> carried ow v (bindA m g)"
  "leaves owner m \<Longrightarrow> carried ow v p \<Longrightarrow> carried ow v (thenA m p)"
  unfolding thenA_def by (auto intro: carried_bind [OF carried_leaves])

lemma carried_read:
  assumes "\<And>rs. owner rs = ow \<Longrightarrow> carried ow v (g rs)"
  shows "carried ow v (bindA (rsA id) g)"
  unfolding carried_def bind_rsA id_apply
proof (intro allI impI)
  fix s x t
  assume o: "owner (fst s) = ow" and "g (fst s) s = (Inr x, t)"
  from carriedD [OF assms [OF o] this]
  show "owner (fst t) = ow \<and> (\<forall>res \<in> set (v x). resultOwner res = ow)" by blast
qed

lemma carried_ret: "\<forall>res \<in> set (v x). resultOwner res = ow \<Longrightarrow> carried ow v (retA x)"
  by (simp add: carried_def act_run)

lemma carried_branches:
  "(b \<Longrightarrow> carried ow v p) \<Longrightarrow> (\<not> b \<Longrightarrow> carried ow v q) \<Longrightarrow> carried ow v (if b then p else q)"
  "carried ow v p \<Longrightarrow> (\<And>x. carried ow v (g x)) \<Longrightarrow> carried ow v (case opt of None \<Rightarrow> p | Some x \<Rightarrow> g x)"
  "(\<And>x. carried ow v (l x)) \<Longrightarrow> (\<And>x. carried ow v (r x)) \<Longrightarrow> carried ow v (case sm of Inl x \<Rightarrow> l x | Inr x \<Rightarrow> r x)"
  "(\<And>d. carried ow v (h d)) \<Longrightarrow> (\<And>d. carried ow v (k d)) \<Longrightarrow>
    carried ow v (case pk of UdpData d \<Rightarrow> h d | UdpDisclosure d \<Rightarrow> k d)"
  by (auto split: option.split sum.split udp_packet.split)

lemma resultOf_owner: "resultOf rs st det msg = Inr res \<Longrightarrow> resultOwner res = owner rs"
  by (auto simp: resultOf_def mkAuthenticationRuntimeResult_def resultOwner_def owner_def split: if_splits)

lemma carried_result:
  "owner rs = ow \<Longrightarrow> carried ow (\<lambda>res. [res]) (liftA (resultOf rs st det msg))"
  "owner rs = ow \<Longrightarrow> carried ow (\<lambda>res. [res]) (liftA (resCreateResult rs st msg))"
  by (auto simp: carried_def resCreateResult_def andThen_Inr_iff liftA_def resultOf_owner split: sum.splits)

lemma owner_verifies: "leaves owner (verifyInterval env i)"
  by (rule leaves_via [OF verifyInterval_settled]) (simp add: owner_def settled_def)

lemma owner_updates:
  "leaves owner (updA setIncomplete)" "leaves owner (updA (setCandidates j cs))"
  "leaves owner (updA (setRecord n rec))" "leaves owner (updA (\<lambda>rs. rs\<lparr>rs_bPaused := True\<rparr>))"
  "leaves owner (updA (\<lambda>rs. rs\<lparr>rs_bActive := False, rs_bResultReported := True\<rparr>))"
  "leaves owner (updA (\<lambda>rs. rs\<lparr>rs_u32ReceivedPacketCount := rs_u32ReceivedPacketCount rs + 1\<rparr>))"
  "leaves owner (updA (\<lambda>rs. rs\<lparr>rs_mapDisclosedKeys := (rs_mapDisclosedKeys rs)(i \<mapsto> key)\<rparr>))"
  by (intro leaves_upd; simp add: owner_def setIncomplete_def setCandidates_def setRecord_def)+

lemma recoverKeys_owner: "leaves owner (recoverKeys env crp n dig)"
  by (induction n arbitrary: dig)
    (auto simp: Let_def incompleteA_def simp del: of_nat_Suc
      intro!: leaves_rules owner_verifies owner_updates)

lemma processDatagram_owner: "leaves owner (processDatagram env que)"
  by (rule owner_parts [OF processDatagram_deadline])

lemma checkReceiver_owner: "leaves owner (checkReceiver env)"
  unfolding checkReceiver_def Let_def by (intro leaves_rules owner_updates missing_leaves)

lemma finalize_carried: "carried ow (\<lambda>res. [res]) (finalize env)"
proof -
  have "carried ow (\<lambda>res. [res]) (case st of (status, strMessage) \<Rightarrow> liftA (resultOf rs status det strMessage))"
    if "owner rs = ow" for st rs det
    using that by (cases st) (simp add: carried_result)
  then have fin: "carried ow (\<lambda>res. [res]) (case db of (det, b) \<Rightarrow> bindA (rsA id) (\<lambda>rs.
      case finalStatus rs b of (status, strMessage) \<Rightarrow> liftA (resultOf rs status det strMessage)))" for db
    by (cases db) (auto intro!: carried_read split: prod.split)
  have "leaves owner (tryRecover env det)" for det
    unfolding tryRecover_def by (intro leaves_rules owner_updates)
  then show ?thesis
    unfolding finalize_def
    by (intro carried_after fin leaves_rules owner_verifies owner_updates missing_leaves)
qed

lemma processDisclosedKey_carried: "carried ow snd (processDisclosedKey env i key)"
proof -
  have ret: "carried ow snd (retA (b, []))" for b :: bool by (rule carried_ret) simp
  have fin: "carried ow snd (bindA (finalize env) (\<lambda>res. retA (True, [res])))"
    by (rule carried_bind [OF finalize_carried]) (simp add: carried_ret)
  show ?thesis
    unfolding processDisclosedKey_def incompleteA_def Let_def
    by (intro carried_after carried_branches ret fin leaves_rules owner_updates recoverKeys_owner)
qed

lemma processDatagram_carried: "carried ow (\<lambda>vec. vec) (processDatagram env que)"
proof -
  have none: "carried ow (\<lambda>vec. vec) (retA [])" by (rule carried_ret) simp
  have dis: "carried ow (\<lambda>vec. vec) (bindA (processDisclosedKey env i key) f)"
    if "\<And>x. \<forall>res \<in> set (snd x). resultOwner res = ow \<Longrightarrow> carried ow (\<lambda>vec. vec) (f x)" for i key f
    by (rule carried_bind [OF processDisclosedKey_carried]) (rule that)
  show ?thesis
    unfolding processDatagram_def processDisclosure_def processData_def rejectLate_def duplicateOfSlot_def
      conflictingCandidate_def earlyAttack_def countDuplicate_def storePacket_def packetStored_def Let_def split_beta
    by (intro dis carried_after carried_branches none carried_ret leaves_rules leaves_sum leaves_packet
        owner_updates; assumption?)
qed

lemma checkReceiver_carried: "carried ow snd (checkReceiver env)"
proof -
  have ret: "carried ow snd (retA (b, []))" for b :: bool by (rule carried_ret) simp
  have out: "carried ow snd (bindA (liftA (resCreateResult rs VerificationTimeout msg)) (\<lambda>res. retA (b, [res])))"
    if "owner rs = ow" for rs msg and b :: bool
    by (rule carried_bind [OF carried_result(2) [OF that]]) (simp add: carried_ret)
  show ?thesis
    unfolding checkReceiver_def Let_def
    by (intro carried_read carried_after(2) carried_branches ret out leaves_rules owner_updates missing_leaves)
qed

section \<open>The runtime\<close>

definition waitingCount :: "receiver_runtime \<Rightarrow> nat" where
  "waitingCount rt = length (filter (\<lambda>(_, rs). waiting rs) (rt_mapStates rt))"

text \<open>Of the senders' chains in \<open>I\<close>: the receivers, those of them that wait, and the results that name them.\<close>

definition receiversIn :: "(string \<times> u64) set \<Rightarrow> receiver_runtime \<Rightarrow> nat" where
  "receiversIn I rt = length (filter (\<lambda>(_, rs). owner rs \<in> I) (rt_mapStates rt))"

definition waitingIn :: "(string \<times> u64) set \<Rightarrow> receiver_runtime \<Rightarrow> nat" where
  "waitingIn I rt = length (filter (\<lambda>(_, rs). waiting rs \<and> owner rs \<in> I) (rt_mapStates rt))"

definition countIn :: "(string \<times> u64) set \<Rightarrow> runtime_result list \<Rightarrow> nat" where
  "countIn I vec = length (filter (\<lambda>res. resultOwner res \<in> I) vec)"

lemma countIn_simps [simp]:
  "countIn I [] = 0" "countIn I (xs @ ys) = countIn I xs + countIn I ys"
  "countIn I (res # xs) = of_bool (resultOwner res \<in> I) + countIn I xs"
  by (simp_all add: countIn_def)

lemma countIn_owned: "\<forall>res \<in> set vec. resultOwner res = ow \<Longrightarrow> countIn I vec = (if ow \<in> I then length vec else 0)"
  by (induction vec) auto

lemma everybody: "receiversIn UNIV rt = length (rt_mapStates rt)" "waitingIn UNIV rt = waitingCount rt"
  "countIn UNIV vec = length vec"
  by (simp_all add: receiversIn_def waitingIn_def waitingCount_def countIn_def split_beta)

definition keysOf :: "receiver_runtime \<Rightarrow> ctx_key list" where
  "keysOf rt = map fst (rt_mapStates rt)"

definition accountsAll :: "(string \<times> u64) set \<Rightarrow> nat \<Rightarrow> ('a \<Rightarrow> nat) \<Rightarrow> (receiver_runtime, 'a) act \<Rightarrow> bool" where
  "accountsAll I n sz m \<longleftrightarrow> (\<forall>s r t. distinct (keysOf s) \<longrightarrow> m s = (r, t) \<longrightarrow>
     keysOf t = keysOf s \<and> waitingIn I t \<le> waitingIn I s
     \<and> (\<forall>x. r = Inr x \<longrightarrow> sz x + waitingIn I t = n + waitingIn I s))"

lemma accountsAllD:
  assumes "accountsAll I n sz m" "distinct (keysOf s)" "m s = (r, t)"
  shows "keysOf t = keysOf s" "waitingIn I t \<le> waitingIn I s"
    "r = Inr x \<Longrightarrow> sz x + waitingIn I t = n + waitingIn I s"
  using assms unfolding accountsAll_def by blast+

lemma accountsAll_bind:
  assumes "accountsAll I n sz m" "\<And>x. accountsAll I (sz x) sz' (g x)"
  shows "accountsAll I n sz' (bindA m g)"
  unfolding accountsAll_def
proof (intro allI impI)
  fix s r u
  assume d: "distinct (keysOf s)" and run: "bindA m g s = (r, u)"
  obtain r1 t where m: "m s = (r1, t)" by (cases "m s")
  note M = accountsAllD [OF assms(1) d m]
  show "keysOf u = keysOf s \<and> waitingIn I u \<le> waitingIn I s
     \<and> (\<forall>x. r = Inr x \<longrightarrow> sz' x + waitingIn I u = n + waitingIn I s)"
  proof (cases r1)
    case (Inl e)
    with m run have "u = t" "r = Inl e" by (simp_all add: bindA_def)
    with M(1,2) show ?thesis by simp
  next
    case (Inr x)
    with m run have g: "g x t = (r, u)" by (simp add: bindA_def)
    have "distinct (keysOf t)" using M(1) d by simp
    note G = accountsAllD [OF assms(2) this g]
    show ?thesis using M(1,2) M(3) [OF Inr] G by auto
  qed
qed

lemma accountsAll_then: "accountsAll I n (\<lambda>_. k) m \<Longrightarrow> accountsAll I k sz p \<Longrightarrow> accountsAll I n sz (thenA m p)"
  unfolding thenA_def by (rule accountsAll_bind)

lemma accountsAll_basic:
  "sz x = n \<Longrightarrow> accountsAll I n sz (retA x)" "accountsAll I n sz (throwA e)"
  by (simp_all add: accountsAll_def act_run)

lemma accountsAll_untouched: "untouched m \<Longrightarrow> accountsAll I n (\<lambda>_. n) m"
proof -
  assume "untouched m"
  then have "rt_mapStates t = rt_mapStates s" if "m s = (r, t)" for s r t
    using that unfolding untouched_def by (metis snd_conv)
  then show ?thesis by (simp add: accountsAll_def keysOf_def waitingIn_def)
qed

lemma count_setState:
  assumes "distinct (map fst xs)" "map_of xs k = Some rs"
  shows "length (filter (\<lambda>(_, rs). P rs) (map (\<lambda>(k', rs'). (k', if k' = k then t else rs')) xs)) + of_bool (P rs)
    = length (filter (\<lambda>(_, rs). P rs) xs) + of_bool (P t)"
  using assms
proof (induction xs)
  case Nil
  then show ?case by simp
next
  case (Cons p xs)
  obtain k1 rs1 where p: "p = (k1, rs1)" by (cases p)
  show ?case
  proof (cases "k1 = k")
    case True
    with Cons.prems p have "k \<notin> fst ` set xs" by simp
    then have "map (\<lambda>(k', rs'). (k', if k' = k then t else rs')) xs = xs"
      by (intro map_idI) force
    with True Cons.prems(2) p show ?thesis by simp
  next
    case False
    with Cons p show ?thesis by auto
  qed
qed

lemma accountsAll_onReceiver:
  assumes acc: "accounts 0 (\<lambda>x. length (v x)) m" and own: "\<And>ow. carried ow v m" "leaves owner m"
    and idle: "\<And>s. \<not> waiting (fst s) \<Longrightarrow> fst (snd (m s)) = fst s"
    and none: "v none = []"
  shows "accountsAll I 0 (\<lambda>x. countIn I (v x)) (onReceiver k none m)"
  unfolding accountsAll_def
proof (intro allI impI)
  fix rt r t
  assume d: "distinct (keysOf rt)" and run: "onReceiver k none m rt = (r, t)"
  show "keysOf t = keysOf rt \<and> waitingIn I t \<le> waitingIn I rt
     \<and> (\<forall>x. r = Inr x \<longrightarrow> countIn I (v x) + waitingIn I t = 0 + waitingIn I rt)"
  proof (cases "findState rt k")
    case None
    with run none show ?thesis by (auto simp: onReceiver_def)
  next
    case (Some rs)
    obtain r1 u mon where m: "m (rs, rt_monitor rt) = (r1, u, mon)" by (cases "m (rs, rt_monitor rt)") auto
    with run Some have rt: "r = r1" "t = setState k u (rt\<lparr>rt_monitor := mon\<rparr>)" by (simp_all add: onReceiver_def)
    have same: "owner u = owner rs" using leaves_run [OF own(2) m] by simp
    have cnt: "waitingIn I t + of_bool (waiting rs \<and> owner rs \<in> I) = waitingIn I rt + of_bool (waiting u \<and> owner rs \<in> I)"
      using count_setState [of "rt_mapStates rt" k rs "\<lambda>rs. waiting rs \<and> owner rs \<in> I" u] d Some rt(2) same
      by (simp add: waitingIn_def setState_def keysOf_def findState_def)
    have "keysOf t = keysOf rt" by (simp add: rt(2) keysOf_def setState_def split_beta comp_def)
    moreover have "waiting u \<Longrightarrow> waiting rs" using idle [of "(rs, rt_monitor rt)"] m by auto
    moreover have "length (v x) + of_bool (waiting u) = of_bool (waiting rs)"
      "countIn I (v x) = (if owner rs \<in> I then length (v x) else 0)" if "r = Inr x" for x
      using accountsD [OF acc, of "(rs, rt_monitor rt)" x "(u, mon)"]
        countIn_owned [OF carriedD(2) [OF own(1) refl, of "(rs, rt_monitor rt)" x "(u, mon)"]] m that rt(1) by simp_all
    ultimately show ?thesis using cnt by (cases "waiting rs"; cases "waiting u"; cases "owner rs \<in> I") auto
  qed
qed

lemma accountsAll_shift: "accountsAll I n sz m \<Longrightarrow> accountsAll I (k + n) (\<lambda>x. k + sz x) m"
  unfolding accountsAll_def by fastforce

lemma accountsAll_checks: "accountsAll I n (\<lambda>vec. n + countIn I vec) (checkPauseAndTimeouts env)"
proof -
  let ?sz = "\<lambda>(_ :: bool, vec :: runtime_result list). countIn I vec"
  have one: "accountsAll I 0 ?sz (onReceiver k (False, []) (checkReceiver env))" for k
    unfolding split_beta
    by (rule accountsAll_onReceiver [OF checkReceiver_accounts [unfolded split_beta] checkReceiver_carried checkReceiver_owner])
      (auto simp: checkReceiver_idle [where env = env])
  have all: "accountsAll I 0 ?sz (checkReceivers env ks)" for ks
  proof (induction ks)
    case Nil
    show ?case unfolding checkReceivers.simps by (rule accountsAll_basic) simp
  next
    case (Cons k ks)
    have "accountsAll I (countIn I vec) ?sz (bindA (checkReceivers env ks) (\<lambda>(b', vec'). retA (b \<or> b', vec @ vec')))" for b vec
      by (rule accountsAll_bind [OF accountsAll_shift [OF Cons.IH, of "countIn I vec", simplified]])
        (auto intro!: accountsAll_basic)
    then show ?case unfolding checkReceivers.simps
      by (intro accountsAll_bind [OF one]) (auto split: prod.split)
  qed
  have "untouched (modifyA (\<lambda>rt. rt\<lparr>rt_bPaused := b\<rparr>))" for b by (rule untouched_modify) simp
  then have fin: "accountsAll I (countIn I vec) (countIn I)
      (thenA (modifyA (\<lambda>rt. rt\<lparr>rt_bPaused := b\<rparr>)) (thenA updateGlobalRunning (retA vec)))"
    for b and vec :: "runtime_result list"
    by (intro accountsAll_then [OF accountsAll_untouched] untouched_operations accountsAll_basic refl)
  have "accountsAll I 0 (countIn I) (checkPauseAndTimeouts env)"
    unfolding checkPauseAndTimeouts_def
    by (intro accountsAll_bind [OF accountsAll_untouched [OF untouched_rules(4)]] accountsAll_bind [OF all])
      (auto split: prod.split intro: fin)
  from accountsAll_shift [OF this, of n] show ?thesis by simp
qed

lemma accountsAll_take: "accountsAll I 0 (countIn I) (takeDatagram env)"
proof -
  have one: "accountsAll I 0 (countIn I) (onReceiver k [] (processDatagram env que))" for k que
  proof (rule accountsAll_onReceiver [OF processDatagram_accounts processDatagram_carried processDatagram_owner])
    show "fst (snd (processDatagram env que s)) = fst s" if "\<not> waiting (fst s)" for s
      using that by (auto simp: processDatagram_def waiting_def act_simps)
  qed simp
  have "untouched (modifyA (\<lambda>rt. rt\<lparr>rt_deqDatagrams := deq\<rparr>))" for deq by (rule untouched_modify) simp
  moreover have "accountsAll I 0 (countIn I) (bindA (onReceiver (que_keyContext que) [] (processDatagram env que)) (\<lambda>vecResults.
        thenA (whenA (vecResults \<noteq> []) updateGlobalRunning) (retA vecResults)))" for que
    by (rule accountsAll_bind [OF one])
      (intro accountsAll_then [OF accountsAll_untouched] untouched_rules untouched_operations accountsAll_basic refl)
  ultimately have "accountsAll I 0 (countIn I) (case deq of
       [] \<Rightarrow> retA []
     | que # deq' \<Rightarrow>
       thenA (modifyA (\<lambda>rt. rt\<lparr>rt_deqDatagrams := deq'\<rparr>))
       (bindA (onReceiver (que_keyContext que) [] (processDatagram env que)) (\<lambda>vecResults.
        thenA (whenA (vecResults \<noteq> []) updateGlobalRunning) (retA vecResults))))" for deq
    by (cases deq)
      (auto intro!: accountsAll_basic accountsAll_then [OF accountsAll_untouched])
  then show ?thesis
    unfolding takeDatagram_def by (intro accountsAll_bind [OF accountsAll_untouched [OF untouched_rules(4)]])
qed

lemma accountsAll_worker: "accountsAll I 0 (\<lambda>(_, vecResults). countIn I vecResults) (workerStep env)"
proof -
  let ?out = "\<lambda>v :: runtime_result list. thenA (queueDosSummaryIfDue env)
     (bindA (getA (\<lambda>rt. mon_vecPendingObservations (rt_monitor rt))) (\<lambda>vecObservations.
      thenA (modifyA (\<lambda>rt. rt\<lparr>rt_monitor := (rt_monitor rt)\<lparr>mon_vecPendingObservations := []\<rparr>\<rparr>))
        (retA (if env_bObserve env then vecObservations else [], v))))"
  have "untouched (modifyA (\<lambda>rt. rt\<lparr>rt_monitor := f rt\<rparr>))" for f by (rule untouched_modify) simp
  then have out: "accountsAll I (countIn I v) (\<lambda>(_, vecResults). countIn I vecResults) (?out v)" for v
    by (intro accountsAll_then [OF accountsAll_untouched] accountsAll_bind [OF accountsAll_untouched]
        untouched_operations untouched_rules accountsAll_basic) simp_all
  have "accountsAll I (countIn I v) (\<lambda>(_, vecResults). countIn I vecResults)
      (bindA (checkPauseAndTimeouts env) (\<lambda>vecTimeouts. ?out (v @ vecTimeouts)))" for v
    using out [of "v @ _"] by (intro accountsAll_bind [OF accountsAll_checks]) simp
  then show ?thesis
    unfolding workerStep_def by (intro accountsAll_bind [OF accountsAll_take])
qed

lemma stopResults_count:
  "stopResults xs = (r, ys) \<Longrightarrow> map fst ys = map fst xs
     \<and> length (filter (\<lambda>(_, rs). waiting rs \<and> owner rs \<in> I) ys) \<le> length (filter (\<lambda>(_, rs). waiting rs \<and> owner rs \<in> I) xs)
     \<and> (\<forall>v. r = Inr v \<longrightarrow> countIn I v = length (filter (\<lambda>(_, rs). waiting rs \<and> owner rs \<in> I) xs))"
proof (induction xs arbitrary: r ys)
  case Nil
  then show ?case by auto
next
  case (Cons p xs)
  obtain k rs where p: "p = (k, rs)" by (cases p)
  obtain r1 zs where z: "stopResults xs = (r1, zs)" by (cases "stopResults xs")
  note IH = Cons.IH [OF z]
  show ?case
  proof (cases "waiting rs")
    case False
    with Cons.prems z IH show ?thesis by (auto simp: p waiting_def split: if_split_asm)
  next
    case True
    show ?thesis
    proof (cases "resCreateResult rs Stopped ''Receiver round stopped''")
      case (Inl e)
      with Cons.prems True show ?thesis by (auto simp: p waiting_def)
    next
      case (Inr res)
      then have "resultOwner res = owner rs" by (auto simp: resCreateResult_def andThen_Inr_iff resultOf_owner)
      moreover from Inr Cons.prems True z have "r = andThen r1 (\<lambda>vec. Inr (res # vec))"
        "ys = (k, rs\<lparr>rs_bResultReported := True\<rparr>) # zs" by (auto simp: p waiting_def)
      ultimately show ?thesis using IH True by (auto simp: p waiting_def andThen_Inr_iff)
    qed
  qed
qed

lemma accountsAll_stop: "accountsAll I 0 (countIn I) (stopRuntime True)"
  unfolding accountsAll_def
proof (intro allI impI)
  fix s r t
  assume run: "stopRuntime True s = (r, t)"
  obtain r1 states where st: "stopResults (rt_mapStates s) = (r1, states)" by (cases "stopResults (rt_mapStates s)")
  note C = stopResults_count [OF st, of I]
  show "keysOf t = keysOf s \<and> waitingIn I t \<le> waitingIn I s
     \<and> (\<forall>x. r = Inr x \<longrightarrow> countIn I x + waitingIn I t = 0 + waitingIn I s)"
  proof (cases r1)
    case (Inl e)
    with run st have "r = Inl e" "t = s\<lparr>rt_mapStates := states\<rparr>" by (simp_all add: stopRuntime_def)
    with C show ?thesis by (simp add: keysOf_def waitingIn_def)
  next
    case (Inr v)
    with run st have "r = Inr v" "rt_mapStates t = map (apsnd (\<lambda>rs. rs\<lparr>rs_bActive := False, rs_bPaused := False\<rparr>)) states"
      by (auto simp: stopRuntime_def mapStates_def)
    moreover from this have "waitingIn I t = 0" by (auto simp: waitingIn_def waiting_def filter_empty_conv)
    ultimately show ?thesis using C Inr by (auto simp: keysOf_def waitingIn_def comp_def)
  qed
qed

lemma forStates_count:
  assumes "\<And>rs rs'. f rs = Inr rs' \<Longrightarrow> waiting rs' = waiting rs \<and> owner rs' = owner rs"
  shows "forStates f xs = (r, ys) \<Longrightarrow> map fst ys = map fst xs
     \<and> length (filter (\<lambda>(_, rs). waiting rs \<and> owner rs \<in> I) ys) = length (filter (\<lambda>(_, rs). waiting rs \<and> owner rs \<in> I) xs)"
proof (induction xs arbitrary: r ys)
  case Nil
  then show ?case by simp
next
  case (Cons p xs)
  obtain k rs where p: "p = (k, rs)" by (cases p)
  obtain r1 zs where z: "forStates f xs = (r1, zs)" by (cases "forStates f xs")
  from Cons.IH [OF z] Cons.prems show ?case
    by (auto simp: p z assms split: sum.split_asm)
qed

lemma accountsAll_states:
  assumes "\<And>rs rs'. f rs = Inr rs' \<Longrightarrow> waiting rs' = waiting rs \<and> owner rs' = owner rs"
  shows "accountsAll I n (\<lambda>_. n) (statesA f)"
  using forStates_count [OF assms]
  by (auto simp: accountsAll_def statesA_def keysOf_def waitingIn_def split: prod.split_asm)

lemma runtime_step_accounts:
  assumes "in_round_op op"
  shows "accountsAll I 0 (countIn I) (runtime_step env op)"
proof -
  have pause: "accountsAll I 0 (\<lambda>_. 0) (requestPause env r i u)" for r i u
    unfolding requestPause_def
    by (intro accountsAll_then [OF accountsAll_untouched] untouched_operations)
      (auto intro!: accountsAll_basic accountsAll_states simp: pauseReceiver_def waiting_def owner_def split: if_split_asm)
  have resume: "accountsAll I 0 (\<lambda>_. 0) (resume env r i u)" for r i u
    unfolding resume_def
    by (intro accountsAll_then [OF accountsAll_untouched] accountsAll_then [OF accountsAll_states]
        accountsAll_untouched untouched_operations untouched_modify)
      (auto simp: resumeReceiver_def waiting_def owner_def split: if_split_asm)
  show ?thesis
  proof (cases op)
    case (RtRequestPause r i u)
    show ?thesis unfolding RtRequestPause runtime_step.simps
      by (rule accountsAll_then [OF pause]) (simp add: accountsAll_basic)
  next
    case (RtResume r i u)
    show ?thesis unfolding RtResume runtime_step.simps
      by (rule accountsAll_then [OF resume]) (simp add: accountsAll_basic)
  next
    case RtStop
    show ?thesis unfolding RtStop runtime_step.simps by (rule accountsAll_stop)
  next
    case (RtApplyMapping det)
    show ?thesis unfolding RtApplyMapping runtime_step.simps
      by (intro accountsAll_then [OF accountsAll_untouched] untouched_operations) (simp add: accountsAll_basic)
  next
    case RtClearMappings
    show ?thesis unfolding RtClearMappings runtime_step.simps
      by (intro accountsAll_then [OF accountsAll_untouched] untouched_operations) (simp add: accountsAll_basic)
  next
    case (RtEnqueue ip xs u)
    show ?thesis unfolding RtEnqueue runtime_step.simps
      by (intro accountsAll_then [OF accountsAll_untouched] untouched_enqueue) (simp add: accountsAll_basic)
  next
    case RtWork
    show ?thesis unfolding RtWork runtime_step.simps
      by (rule accountsAll_bind [OF accountsAll_worker]) (auto intro: accountsAll_basic split: prod.split)
  qed (use assms in simp_all)
qed

section \<open>Histories\<close>

text \<open>What the calls of a history handed out, and whether all of them returned.\<close>

fun run_results :: "('op \<Rightarrow> 's \<Rightarrow> 'r list result \<times> 's) \<Rightarrow> 'op list \<Rightarrow> 's \<Rightarrow> 'r list" where
  "run_results step [] s = []"
| "run_results step (op # ops) s =
     (case step op s of
        (Inl _, s') \<Rightarrow> run_results step ops s'
      | (Inr rs, s') \<Rightarrow> rs @ run_results step ops s')"

fun all_return :: "('op \<Rightarrow> 's \<Rightarrow> 'r result \<times> 's) \<Rightarrow> 'op list \<Rightarrow> 's \<Rightarrow> bool" where
  "all_return step [] s \<longleftrightarrow> True"
| "all_return step (op # ops) s \<longleftrightarrow>
     (case step op s of (Inl _, _) \<Rightarrow> False | (Inr _, s') \<Rightarrow> all_return step ops s')"

lemma results_counted:
  assumes "list_all (in_round_op \<circ> snd) ops" "distinct (keysOf rt)"
  shows "countIn I (run_results (timed_step ssl obs) ops rt) + waitingIn I (run_ops (timed_step ssl obs) ops rt)
      \<le> waitingIn I rt"
    and "all_return (timed_step ssl obs) ops rt \<Longrightarrow>
      countIn I (run_results (timed_step ssl obs) ops rt) + waitingIn I (run_ops (timed_step ssl obs) ops rt)
      = waitingIn I rt"
proof -
  have "countIn I (run_results (timed_step ssl obs) ops rt) + waitingIn I (run_ops (timed_step ssl obs) ops rt)
      \<le> waitingIn I rt \<and> (all_return (timed_step ssl obs) ops rt \<longrightarrow>
      countIn I (run_results (timed_step ssl obs) ops rt) + waitingIn I (run_ops (timed_step ssl obs) ops rt)
      = waitingIn I rt)"
    using assms
  proof (induction ops arbitrary: rt)
    case Nil
    then show ?case by simp
  next
    case (Cons call ops)
    have acc: "accountsAll I 0 (countIn I) (timed_step ssl obs call)"
      using Cons.prems(1) runtime_step_accounts [of "snd call"] by (simp add: timed_step_def split_beta)
    obtain r t where run: "timed_step ssl obs call rt = (r, t)" by (cases "timed_step ssl obs call rt")
    note A = accountsAllD [OF acc Cons.prems(2) run]
    have "distinct (keysOf t)" using A(1) Cons.prems(2) by simp
    note IH = Cons.IH [OF _ this]
    show ?case
    proof (cases r)
      case (Inl e)
      with IH Cons.prems(1) A(2) run show ?thesis by simp
    next
      case (Inr x)
      with IH Cons.prems(1) A(3) [OF Inr] run show ?thesis by auto
    qed
  qed
  then show "countIn I (run_results (timed_step ssl obs) ops rt) + waitingIn I (run_ops (timed_step ssl obs) ops rt)
      \<le> waitingIn I rt"
    and "all_return (timed_step ssl obs) ops rt \<Longrightarrow>
      countIn I (run_results (timed_step ssl obs) ops rt) + waitingIn I (run_ops (timed_step ssl obs) ops rt)
      = waitingIn I rt" by blast+
qed

text \<open>The receivers of a reachable runtime have different keys.\<close>

lemma mapEmplace_sorted:
  "sorted_wrt (<) (map fst m) \<Longrightarrow> mapEmplace k v m = Some m' \<Longrightarrow> sorted_wrt (<) (map fst m')"
proof (induction m arbitrary: m')
  case Nil
  then show ?case by auto
next
  case (Cons p m)
  obtain k1 v1 where p: "p = (k1, v1)" by (cases p)
  show ?case
  proof (cases "k < k1")
    case True
    with Cons.prems have "m' = (k, v) # p # m" by (auto simp: p split: if_splits)
    with True Cons.prems(1) show ?thesis by (auto simp: p)
  next
    case False
    with Cons.prems(2) obtain m1 where m1: "mapEmplace k v m = Some m1" "m' = p # m1" "k \<noteq> k1"
      by (auto simp: p split: if_splits)
    from False m1(3) have "k1 < k" by simp
    with Cons.IH [OF _ m1(1)] Cons.prems(1) mapEmplace_set [OF m1(1)] m1(2) show ?thesis by (auto simp: p)
  qed
qed

lemma addReceivers_sorted:
  "foldE addReceiver ctxs (m, ips) = Inr (m', ips') \<Longrightarrow> sorted_wrt (<) (map fst m) \<Longrightarrow> sorted_wrt (<) (map fst m')"
proof (induction ctxs arbitrary: m ips)
  case Nil
  then show ?case by simp
next
  case (Cons ctx ctxs)
  then obtain m1 ips1 where a: "addReceiver ctx (m, ips) = Inr (m1, ips1)"
    and f: "foldE addReceiver ctxs (m1, ips1) = Inr (m', ips')"
    by (auto simp: andThen_Inr_iff)
  from a have "mapEmplace (rcv_strSenderIpAddress ctx, rcv_u64ChainId ctx) (mkReceiverState ctx) m = Some m1"
    by (auto simp: addReceiver_def split: if_splits option.splits prod.splits)
  from Cons.IH [OF f mapEmplace_sorted [OF Cons.prems(2) this]] show ?case .
qed

lemma keysOf_mapStates [simp]: "keysOf (mapStates f rt) = keysOf rt"
  by (simp add: keysOf_def mapStates_def comp_def)

lemma keysOf_updates [simp]:
  "keysOf (rt\<lparr>rt_strRoundId := r, rt_bRunning := b1, rt_bPaused := b2\<rparr>) = keysOf rt"
  "keysOf (rt\<lparr>rt_bRunning := b1, rt_bPaused := b2, rt_deqDatagrams := d, rt_mapAttackSourceMappings := m\<rparr>) = keysOf rt"
  "keysOf (rt\<lparr>rt_mapStates := s, rt_deqDatagrams := d, rt_bConfigured := b1\<rparr>) = map fst s"
  "keysOf (rt\<lparr>rt_mapStates := rt_mapStates rt\<rparr>) = keysOf rt"
  by (simp_all add: keysOf_def)

lemma keepR_distinct_configure: "keepR (\<lambda>rt. distinct (keysOf rt)) (configure ctxs)"
  unfolding configure_def
proof (rule keepR_bind)
  show "keepR (\<lambda>rt. distinct (keysOf rt)) (stopRuntime False)"
    by (simp add: keepR_def stopRuntime_def)
  show "keepR (\<lambda>rt. distinct (keysOf rt))
      (bindA (liftA (foldE addReceiver ctxs ([], Map.empty))) (\<lambda>(mapCandidate, _).
       if mapCandidate = []
       then throwA (InvalidArgument ''Receiver runtime requires at least one context'')
       else modifyA (\<lambda>rt. rt\<lparr>rt_mapStates := mapCandidate, rt_deqDatagrams := [],
         rt_bConfigured := True\<rparr>)))" for x
  proof (cases "foldE addReceiver ctxs ([], Map.empty)")
    case (Inl e)
    show ?thesis unfolding Inl bindA_lift by (rule keepR_basic)
  next
    case (Inr mm)
    obtain m ips where mm: "mm = (m, ips)" by (cases mm)
    have "foldE addReceiver ctxs ([], Map.empty) = Inr (m, ips)" using Inr mm by (simp only:)
    from addReceivers_sorted [OF this] have "distinct (map fst m)" by (simp add: strict_sorted_iff)
    then have "keepR (\<lambda>rt. distinct (keysOf rt)) (modifyA (\<lambda>rt. rt\<lparr>rt_mapStates := m, rt_deqDatagrams := [],
         rt_bConfigured := True\<rparr>))"
      by (intro keepR_modify) simp
    then show ?thesis unfolding Inr mm bindA_lift prod.case by (intro keepR_branches keepR_basic)
  qed
qed

lemma runtime_step_distinct: "keepR (\<lambda>rt. distinct (keysOf rt)) (runtime_step env op)"
proof (cases "in_round_op op")
  case True
  show ?thesis
    unfolding keepR_def
  proof (intro allI impI)
    fix rt
    assume d: "distinct (keysOf rt)"
    obtain r t where run: "runtime_step env op rt = (r, t)" by (cases "runtime_step env op rt")
    from accountsAllD(1) [OF runtime_step_accounts [OF True] d run] d run
    show "distinct (keysOf (snd (runtime_step env op rt)))" by simp
  qed
next
  case False
  then consider ctxs where "op = RtConfigure ctxs" | r t c where "op = RtStart r t c" by (cases op) auto
  then show ?thesis
  proof cases
    case 1
    show ?thesis unfolding 1 runtime_step.simps by (intro keepR_then keepR_distinct_configure keepR_basic)
  next
    case 2
    have "keepR (\<lambda>rt. distinct (keysOf rt)) (startRuntime env r t c)"
      unfolding startRuntime_def by (intro runtime_rules keepR_modify) simp
    then show ?thesis unfolding 2 runtime_step.simps by (intro keepR_then keepR_basic)
  qed
qed

lemma runtime_history_distinct: "distinct (keysOf (run_ops (timed_step ssl obs) ops new_receiver_runtime))"
proof -
  have "keepR (\<lambda>rt. distinct (keysOf rt)) (timed_step ssl obs call)" for call
    by (simp add: timed_step_def split_beta runtime_step_distinct)
  from run_keeps [of ops "\<lambda>rt. distinct (keysOf rt)", OF this] show ?thesis
    by (simp add: new_receiver_runtime_def keysOf_def)
qed

text \<open>After a start that returned every receiver waits.\<close>

lemma started_waiting:
  assumes "startRuntime env r u c rt = (Inr (), rt')"
  shows "waitingIn I rt' = receiversIn I rt'" "keysOf rt' = keysOf rt"
proof -
  have "rt' = mapStates (startReceiver r u c) rt\<lparr>rt_strRoundId := r, rt_bRunning := True, rt_bPaused := False\<rparr>"
    using assms by (auto simp: startRuntime_def act_simps split: if_split_asm)
  then show "waitingIn I rt' = receiversIn I rt'" "keysOf rt' = keysOf rt"
    by (simp_all add: waitingIn_def receiversIn_def keysOf_def mapStates_def waiting_def startReceiver_def owner_def
        split_beta comp_def)
qed

end
