(* ===== verification/RuntimeLiveness.thy ===== *)
theory RuntimeLiveness
  imports RuntimeResults
begin

text \<open>
  A round ends. The result of a receiver can always be built: the counts of its slots are
  consistent and the payload of passed packets decodes. So \<open>stop\<close> never throws, nor does the timeout
  check when what it tells the observer can be built, and a receiver whose deadline has passed is
  reported at the next turn of the worker.
\<close>

section \<open>A result can be built\<close>

lemma recoverTextLoop_returns:
  assumes "\<And>rec d. rec \<in> set recs \<Longrightarrow> rec_statusPacket rec = StatusPassed \<Longrightarrow> rec_optPacket rec = Some d
    \<Longrightarrow> \<exists>pkt. pktMapDataPacket (rcv_strSenderId (rs_ctxContext rs)) d = Inr pkt"
  shows "\<exists>out. recoverTextLoop rs recs strText = Inr out"
  using assms
proof (induction recs arbitrary: strText)
  case Nil
  then show ?case by simp
next
  case (Cons rec recs)
  have IH: "\<exists>out. recoverTextLoop rs recs strCurrent = Inr out" for strCurrent
    by (rule Cons.IH) (use Cons.prems in auto)
  show ?case
  proof (cases "rec_statusPacket rec = StatusPassed \<and> rec_optPacket rec \<noteq> None")
    case True
    then obtain d where d: "rec_optPacket rec = Some d" by auto
    with Cons.prems [of rec d] True obtain pkt where
      "pktMapDataPacket (rcv_strSenderId (rs_ctxContext rs)) d = Inr pkt" by auto
    with True d IH show ?thesis by (simp add: Let_def)
  next
    case False
    with IH show ?thesis by (auto split: option.split bool.split)
  qed
qed

lemma passed_packet_maps:
  assumes ok: "receiver_ok ssl rs" and rec: "rec \<in> set (rs_vecPacketRecords rs)"
    and st: "rec_statusPacket rec = StatusPassed" "rec_optPacket rec = Some d"
  shows "\<exists>pkt. pktMapDataPacket (rcv_strSenderId (rs_ctxContext rs)) d = Inr pkt"
proof -
  obtain n where n: "n < slotCount rs" "rec = rs_vecPacketRecords rs ! n"
    using rec by (auto simp: in_set_conv_nth slotCount_def)
  with ok st have "\<exists>key. genuine ssl rs key n"
    by (auto simp: receiver_ok_def passed_ok_def statusAt_def)
  with n st show ?thesis by (auto simp: genuine_def packetAt_def)
qed

lemma strRecoveredText_returns: "receiver_ok ssl rs \<Longrightarrow> \<exists>txt. strRecoveredText rs = Inr txt"
  unfolding strRecoveredText_def
  by (cases "rs_vecPacketRecords rs") (auto intro!: recoverTextLoop_returns passed_packet_maps)

lemma incomplete_details_return:
  assumes "receiver_ok ssl rs" "live_ok rs"
  shows "\<exists>det. varIncompletePayloadDetails rs = Inr det"
proof (cases "prm_modePayload (rs_prm rs) = PayloadText")
  case True
  with strRecoveredText_returns [OF assms(1)] show ?thesis by (auto simp: varIncompletePayloadDetails_def)
next
  case False
  with assms(2) obtain b where "b \<noteq> 0" "rcv_varPayloadDetails (rs_ctxContext rs) = FileReceiverPayloadDetails b"
    by (auto simp: live_ok_def ctx_ok_def)
  with False show ?thesis
    by (simp add: varIncompletePayloadDetails_def u64FileByteCount_def mkFileReceiverResultDetails_def)
qed

text \<open>The counts of a result are consistent.\<close>

lemma counts_consistent:
  assumes ok: "receiver_ok ssl rs" and live: "live_ok rs" and act: "slotCount rs \<noteq> 0"
  shows "rs_u32ReceivedPacketCount rs \<le> prm_u32TotalPacketCount (rs_prm rs)"
    "st \<noteq> StatusEmpty \<Longrightarrow> nCountStatus rs st \<le> rs_u32ReceivedPacketCount rs"
    "u32MissingCount rs \<le> prm_u32TotalPacketCount (rs_prm rs)"
proof -
  let ?T = "prm_u32TotalPacketCount (rs_prm rs)" and ?xs = "rs_vecPacketRecords rs"
  have S: "slotCount rs = unat ?T + 1" "unat (rs_u32ReceivedPacketCount rs) = card {n. n < slotCount rs \<and> packetAt rs n \<noteq> None}"
    "\<And>n d. n < slotCount rs \<Longrightarrow> packetAt rs n = Some d \<Longrightarrow> n \<noteq> 0"
    using ok act by (auto simp: receiver_ok_def base_ok_def slots_ok_def)
  have "{n. n < slotCount rs \<and> packetAt rs n \<noteq> None} \<subseteq> {1..unat ?T}"
  proof
    fix n
    assume "n \<in> {n. n < slotCount rs \<and> packetAt rs n \<noteq> None}"
    then obtain d where "n < slotCount rs" "packetAt rs n = Some d" by auto
    with S(1) S(3) [OF this] show "n \<in> {1..unat ?T}" by simp
  qed
  then have "card {n. n < slotCount rs \<and> packetAt rs n \<noteq> None} \<le> unat ?T"
    using card_mono [of "{1..unat ?T}"] by simp
  then show le: "rs_u32ReceivedPacketCount rs \<le> ?T" using S(2) by (simp add: word_le_nat_alt)
  show "u32MissingCount rs \<le> ?T"
    using le by (simp add: u32MissingCount_def word_le_nat_alt unat_sub)
  show "nCountStatus rs st \<le> rs_u32ReceivedPacketCount rs" if "st \<noteq> StatusEmpty"
  proof -
    have "length (filter (\<lambda>rec. rec_statusPacket rec = st) (tl ?xs))
        \<le> length (filter (\<lambda>rec. rec_statusPacket rec = st) ?xs)"
      by (cases ?xs) auto
    also have "\<dots> = card {n. n < length ?xs \<and> rec_statusPacket (?xs ! n) = st}"
      by (rule length_filter_conv_card)
    also have "\<dots> \<le> card {n. n < slotCount rs \<and> packetAt rs n \<noteq> None}"
    proof (rule card_mono)
      show "{n. n < length ?xs \<and> rec_statusPacket (?xs ! n) = st} \<subseteq> {n. n < slotCount rs \<and> packetAt rs n \<noteq> None}"
        using live that by (auto simp: live_ok_def list_all_length slot_filled_def slotCount_def packetAt_def)
    qed simp
    finally have cnt: "length (filter (\<lambda>rec. rec_statusPacket rec = st) (tl ?xs)) \<le> unat (rs_u32ReceivedPacketCount rs)"
      using S(2) by simp
    have "unat (nCountStatus rs st) \<le> length (filter (\<lambda>rec. rec_statusPacket rec = st) (tl ?xs))"
      by (simp add: nCountStatus_def unat_of_nat)
    with cnt show ?thesis by (simp add: word_le_nat_alt)
  qed
qed

lemma resCreateResult_returns:
  assumes "receiver_ok ssl rs" "live_ok rs" "slotCount rs \<noteq> 0" "rs_strRoundId rs \<noteq> []" "strMessage \<noteq> []"
  shows "\<exists>res. resCreateResult rs status strMessage = Inr res \<and> res_statusResult res = status
    \<and> res_strSenderId res = rcv_strSenderId (rs_ctxContext rs) \<and> res_u64ChainId res = rcv_u64ChainId (rs_ctxContext rs)"
proof -
  obtain det where "varIncompletePayloadDetails rs = Inr det"
    using incomplete_details_return [OF assms(1,2)] by blast
  moreover note counts_consistent [OF assms(1-3)]
  moreover have "ctx_ok (rs_ctxContext rs)" "prm_u32TotalPacketCount (rs_prm rs) \<noteq> 0"
    using assms(2) receiver_ok_prm [OF assms(1)] by (simp_all add: live_ok_def prm_ok_def)
  ultimately show ?thesis
    using assms(4,5)
    by (simp add: resCreateResult_def resultOf_def mkAuthenticationRuntimeResult_def ctx_ok_def not_less [symmetric])
qed

section \<open>The timeout check\<close>

text \<open>
  What the reports to an observer need, in a state with \<open>n\<close> receivers still to be checked: a clock that
  has a time, texts of at most 2048 characters, and that the event numbers neither are nor become 0, for
  which the packets of the receivers, at most \<open>2 ^ 32\<close> each, must be left.
\<close>

abbreviation nextEvent :: "monitor \<Rightarrow> nat" where
  "nextEvent mon \<equiv> unat (mon_u64NextObservationEventId mon)"

definition textsFit :: "receiver_state \<Rightarrow> bool" where
  "textsFit rs \<longleftrightarrow> length (rs_strRoundId rs) \<le> 2048 \<and> length (rcv_strSenderId (rs_ctxContext rs)) \<le> 2048
     \<and> length (rcv_strSenderIpAddress (rs_ctxContext rs)) \<le> 2048"

definition reportsFit :: "'g runtime_env \<Rightarrow> nat \<Rightarrow> receiver_runtime \<Rightarrow> bool" where
  "reportsFit env n rt \<longleftrightarrow> (env_bObserve env \<longrightarrow> env_u64Now env \<noteq> 0
     \<and> 0 < nextEvent (rt_monitor rt) \<and> nextEvent (rt_monitor rt) + 2 ^ 32 * n < 2 ^ 64
     \<and> (\<forall>k rs. findState rt k = Some rs \<and> waiting rs \<longrightarrow> textsFit rs))"

definition mayReport :: "'g runtime_env \<Rightarrow> receiver_state \<Rightarrow> monitor \<Rightarrow> nat \<Rightarrow> bool" where
  "mayReport env rs mon n \<longleftrightarrow> (env_bObserve env \<longrightarrow> env_u64Now env \<noteq> 0 \<and> textsFit rs
     \<and> 0 < nextEvent mon \<and> nextEvent mon + n < 2 ^ 64)"

lemma validateText_returns: "(b \<or> s \<noteq> []) \<Longrightarrow> length s \<le> 2048 \<Longrightarrow> validateText s name b = Inr ()"
  by (auto simp: validateText_def)

lemma missingFailure_returns:
  assumes "mayReport env rs mon (Suc n)"
  obtains mon' where "missingFailure env j (rs, mon) = (Inr (), (rs, mon'))" "mayReport env rs mon' n"
    "nextEvent mon \<le> nextEvent mon'" "nextEvent mon' \<le> nextEvent mon + 1"
proof (cases "rec_optPacket (recordAt rs j) = None \<and> env_bObserve env")
  case False
  then have "missingFailure env j (rs, mon) = (Inr (), (rs, mon))"
    by (auto simp: missingFailure_def queueFailure_def whenA_def bind_rsA act_run)
  then show thesis by (rule that) (use assms in \<open>auto simp: mayReport_def\<close>)
next
  case True
  define eid where "eid = mon_u64NextObservationEventId mon"
  with assms True have e: "0 < unat eid" "unat eid + Suc n < 2 ^ 64" "env_u64Now env \<noteq> 0" "textsFit rs"
    by (simp_all add: mayReport_def)
  then have nz: "eid \<noteq> 0" and suc: "unat (eid + 1) = unat eid + 1" by (auto simp: unat_word_ariths)
  have num: "nextObservationEventId (rs, mon) = (Inr eid, (rs, mon\<lparr>mon_u64NextObservationEventId := eid + 1\<rparr>))"
    by (simp add: nextObservationEventId_def eid_def act_simps)
  have ex: "\<exists>ob. missingFailure env j (rs, mon) = (Inr (), (rs, mon\<lparr>mon_u64NextObservationEventId := eid + 1,
      mon_vecPendingObservations := mon_vecPendingObservations mon @ [ob]\<rparr>))"
    using True nz e(3,4)
    by (auto simp: missingFailure_def queueFailure_def whenA_def bind_rsA bindA_def [of nextObservationEventId] num bindA_lift
        mkPacketFailure_def report_def actualSource_def pushObservation_def textsFit_def validateText_returns act_run)
  then obtain ob where "missingFailure env j (rs, mon) = (Inr (), (rs, mon\<lparr>mon_u64NextObservationEventId := eid + 1,
      mon_vecPendingObservations := mon_vecPendingObservations mon @ [ob]\<rparr>))" by blast
  then show thesis by (rule that) (use e suc in \<open>auto simp: mayReport_def eid_def\<close>)
qed

lemma missing_returns:
  assumes "mayReport env rs mon (length js)"
  shows "\<exists>mon'. forA (missingFailure env) js (rs, mon) = (Inr (), (rs, mon'))
    \<and> nextEvent mon \<le> nextEvent mon' \<and> nextEvent mon' \<le> nextEvent mon + length js"
  using assms
proof (induction js arbitrary: mon)
  case Nil
  then show ?case by (simp add: act_run)
next
  case (Cons j js)
  obtain mon1 where 1: "missingFailure env j (rs, mon) = (Inr (), (rs, mon1))" "mayReport env rs mon1 (length js)"
    "nextEvent mon \<le> nextEvent mon1" "nextEvent mon1 \<le> nextEvent mon + 1"
    using missingFailure_returns Cons.prems by (metis length_Cons)
  from Cons.IH [OF 1(2)] 1 show ?case by (auto simp: thenA_def bindA_def)
qed

lemma queueMissing_returns:
  assumes "mayReport env rs mon (2 ^ 32)"
  obtains mon' where "queueMissingPacketFailures env (rs, mon) = (Inr (), (rs, mon'))"
    "nextEvent mon \<le> nextEvent mon'" "nextEvent mon' \<le> nextEvent mon + 2 ^ 32"
proof -
  let ?js = "indexRange 1 (prm_u32TotalPacketCount (rs_prm rs))"
  have len: "length ?js < 2 ^ 32" using unat_lt_u32 [of "prm_u32TotalPacketCount (rs_prm rs)"] by (simp add: length_indexRange)
  with assms have "mayReport env rs mon (length ?js)" by (auto simp: mayReport_def)
  from missing_returns [OF this] len show thesis
    using that by (auto simp: queueMissingPacketFailures_def bind_rsA)
qed

lemma waiting_slots: "receiver_ok ssl rs \<Longrightarrow> waiting rs \<Longrightarrow> slotCount rs \<noteq> 0"
  by (auto simp: receiver_ok_def base_ok_def slots_ok_def waiting_def)

lemma checkReceiver_run:
  assumes fit: "mayReport env rs mon (2 ^ 32)" and ok: "receiver_ok ssl rs" "live_ok rs" and w: "waiting rs"
  obtains b where "\<not> bTimedOut env rs"
      "checkReceiver env (rs, mon) = (Inr (b, []), (if b then rs\<lparr>rs_bPaused := True\<rparr> else rs, mon))"
  | b res mon' where "bTimedOut env rs" "res_statusResult res = VerificationTimeout"
      "res_strSenderId res = rcv_strSenderId (rs_ctxContext rs)" "res_u64ChainId res = rcv_u64ChainId (rs_ctxContext rs)"
      "checkReceiver env (rs, mon) = (Inr (b, [res]),
         ((if b then rs\<lparr>rs_bPaused := True\<rparr> else rs)\<lparr>rs_bActive := False, rs_bResultReported := True\<rparr>, mon'))"
      "nextEvent mon \<le> nextEvent mon'" "nextEvent mon' \<le> nextEvent mon + 2 ^ 32"
proof -
  let ?b = "checkPaused env rs"
  let ?rs = "if ?b then rs\<lparr>rs_bPaused := True\<rparr> else rs"
  let ?stopped = "?rs\<lparr>rs_bActive := False, rs_bResultReported := True\<rparr>"
  have pause: "whenA ?b (updA (\<lambda>rs. rs\<lparr>rs_bPaused := True\<rparr>)) (rs, mon) = (Inr (), (?rs, mon))"
    by (simp add: whenA_def updA_run act_run)
  have "mayReport env ?rs mon (2 ^ 32)" using fit by (simp add: mayReport_def textsFit_def)
  then obtain mon' where q: "queueMissingPacketFailures env (?rs, mon) = (Inr (), (?rs, mon'))"
    "nextEvent mon \<le> nextEvent mon'" "nextEvent mon' \<le> nextEvent mon + 2 ^ 32"
    by (rule queueMissing_returns)
  have run: "checkReceiver env (rs, mon) = (if \<not> bTimedOut env rs then (Inr (?b, []), (?rs, mon))
      else bindA (liftA (resCreateResult ?stopped VerificationTimeout
             ''Receiver timed out waiting for the final disclosed key'')) (\<lambda>res. retA (?b, [res])) (?stopped, mon'))"
    using w
    by (simp add: checkReceiver_def waiting_def Let_def bind_rsA thenA_def bindA_def [of "whenA _ _"] pause
        bindA_def [of "queueMissingPacketFailures _"] q(1) bindA_def [of "updA _"] updA_run act_run
        del: if_split split: if_split_asm)
  show thesis
  proof (cases "bTimedOut env rs")
    case False
    then have "checkReceiver env (rs, mon) = (Inr (?b, []), (?rs, mon))" unfolding run by (simp only: if_True not_False_eq_True)
    with False show thesis by (rule that(1))
  next
    case True
    have "receiver_ok ssl ?stopped" by (rule receiver_ok_same [rotated -1, OF ok(1)]) auto
    moreover have "live_ok ?stopped" using ok(2) by (simp add: live_ok_def)
    moreover have "slotCount ?stopped \<noteq> 0" using waiting_slots [OF ok(1) w] by (simp add: slotCount_def)
    moreover have "rs_strRoundId ?stopped \<noteq> []" using ok(2) w by (simp add: live_ok_def waiting_def)
    ultimately obtain res where "resCreateResult ?stopped VerificationTimeout
             ''Receiver timed out waiting for the final disclosed key'' = Inr res"
      "res_statusResult res = VerificationTimeout" "res_strSenderId res = rcv_strSenderId (rs_ctxContext ?stopped)"
      "res_u64ChainId res = rcv_u64ChainId (rs_ctxContext ?stopped)"
      using resCreateResult_returns [of ssl ?stopped] by blast
    note res = this
    have "checkReceiver env (rs, mon) = (Inr (?b, [res]), (?stopped, mon'))"
      using True unfolding run res(1) bindA_lift act_run by (simp only: not_True_eq_False if_False)
    from that(2) [OF True res(2) _ _ this q(2,3)] res(3,4) show thesis by (simp split: if_split_asm)
  qed
qed

section \<open>All receivers\<close>

definition timeoutOf :: "receiver_state \<Rightarrow> runtime_result \<Rightarrow> bool" where
  "timeoutOf rs res \<longleftrightarrow> res_statusResult res = VerificationTimeout
     \<and> res_strSenderId res = rcv_strSenderId (rs_ctxContext rs) \<and> res_u64ChainId res = rcv_u64ChainId (rs_ctxContext rs)"

text \<open>Receivers only stop waiting, each with its result among \<open>vec\<close>; one that goes on waiting keeps
  its deadline.\<close>

definition receiver_expires :: "receiver_state \<Rightarrow> receiver_state \<Rightarrow> runtime_result list \<Rightarrow> bool" where
  "receiver_expires rs rs' vec \<longleftrightarrow> rs_ctxContext rs' = rs_ctxContext rs
     \<and> (waiting rs' \<longrightarrow> waiting rs \<and> deadlineParts rs' = deadlineParts rs)
     \<and> (waiting rs \<and> \<not> waiting rs' \<longrightarrow> list_ex (timeoutOf rs) vec)"

definition expires :: "receiver_runtime \<Rightarrow> receiver_runtime \<Rightarrow> runtime_result list \<Rightarrow> bool" where
  "expires rt rt' vec \<longleftrightarrow> (\<forall>k. case findState rt k of
       None \<Rightarrow> findState rt' k = None
     | Some rs \<Rightarrow> (\<exists>rs'. findState rt' k = Some rs' \<and> receiver_expires rs rs' vec))"

lemma expiresD:
  assumes "expires rt rt' vec"
  shows "findState rt k = None \<Longrightarrow> findState rt' k = None"
    "findState rt k = Some rs \<Longrightarrow> \<exists>rs'. findState rt' k = Some rs' \<and> receiver_expires rs rs' vec"
  using assms [unfolded expires_def, THEN spec, of k] by simp_all

lemma receiver_expires_refl: "receiver_expires rs rs vec"
  by (simp add: receiver_expires_def)

lemma expires_trans:
  assumes "expires a b v" "expires b c w"
  shows "expires a c (v @ w)"
  unfolding expires_def
proof
  fix k
  show "case findState a k of None \<Rightarrow> findState c k = None
      | Some rs \<Rightarrow> \<exists>rs'. findState c k = Some rs' \<and> receiver_expires rs rs' (v @ w)"
  proof (cases "findState a k")
    case None
    with expiresD(1) [OF assms(1)] expiresD(1) [OF assms(2)] show ?thesis by simp
  next
    case (Some rs)
    from expiresD(2) [OF assms(1) this] obtain rs1 where 1: "findState b k = Some rs1" "receiver_expires rs rs1 v"
      by blast
    from expiresD(2) [OF assms(2) 1(1)] obtain rs2 where 2: "findState c k = Some rs2" "receiver_expires rs1 rs2 w"
      by blast
    have "timeoutOf rs1 = timeoutOf rs" using 1(2) by (auto simp: receiver_expires_def timeoutOf_def)
    with 1(2) 2(2) have "receiver_expires rs rs2 (v @ w)" by (auto simp: receiver_expires_def)
    with 2(1) Some show ?thesis by simp
  qed
qed

lemma expires_same:
  assumes e: "expires rt rt' vec" and same: "\<And>k. findState rt'' k = findState rt' k"
  shows "expires rt rt'' vec"
proof -
  from same have "findState rt'' = findState rt'" by (rule ext)
  with e show ?thesis unfolding expires_def by (simp only: simp_thms)
qed

lemma onReceiver_check:
  assumes fit: "reportsFit env (Suc n) rt" and ok: "runtime_ok ssl rt"
  obtains b vec rt' where "onReceiver k (False, []) (checkReceiver env) rt = (Inr (b, vec), rt')"
    "runtime_ok ssl rt'" "reportsFit env n rt'" "expires rt rt' vec"
    "\<And>rs'. findState rt' k = Some rs' \<Longrightarrow> waiting rs' \<Longrightarrow> \<not> bTimedOut env rs'"
proof (cases "findState rt k")
  note finish = that
  case None
  then have run: "onReceiver k (False, []) (checkReceiver env) rt = (Inr (False, []), rt)" by (simp add: onReceiver_def)
  have "expires rt rt []" using receiver_expires_refl by (auto simp: expires_def split: option.split)
  moreover have "reportsFit env n rt" using fit by (auto simp: reportsFit_def)
  ultimately show thesis using finish [OF run ok] None by simp
next
  note finish = that
  case (Some rs)
  note rok = runtime_ok_find [OF ok Some]
  have live: "live_ok rs" using rok by (simp add: receiver_ok_def)
  have fin: thesis if m: "checkReceiver env (rs, rt_monitor rt) = (Inr (b, vec), (rs', mon))"
    and ex: "receiver_expires rs rs' vec" and late: "waiting rs' \<Longrightarrow> \<not> bTimedOut env rs'"
    and room: "nextEvent (rt_monitor rt) \<le> nextEvent mon" "nextEvent mon \<le> nextEvent (rt_monitor rt) + 2 ^ 32"
      "waiting rs' \<Longrightarrow> textsFit rs' = textsFit rs" for b vec rs' mon
  proof -
    let ?rt = "setState k rs' (rt\<lparr>rt_monitor := mon\<rparr>)"
    have run: "onReceiver k (False, []) (checkReceiver env) rt = (Inr (b, vec), ?rt)"
      by (simp add: onReceiver_def Some m)
    have "runtime_ok ssl (snd (onReceiver k (False, []) (checkReceiver env) rt))"
      by (rule keepRD [OF keepR_onReceiver [OF checkReceiver_receiver_ok] ok])
    then have "runtime_ok ssl ?rt" unfolding run by simp
    moreover have "expires rt ?rt vec"
      using ex receiver_expires_refl Some by (auto simp: expires_def findState_setState split: option.split)
    have "waiting rs' \<Longrightarrow> waiting rs" using ex by (simp add: receiver_expires_def)
    moreover have "findState ?rt k' = (if k' = k then Some rs' else findState rt k')" for k'
      using Some by (simp add: findState_setState)
    moreover have "rt_monitor ?rt = mon" by (simp add: setState_def)
    ultimately have "reportsFit env n ?rt"
      using fit room Some by (auto simp: reportsFit_def)
    moreover note \<open>runtime_ok ssl ?rt\<close> \<open>expires rt ?rt vec\<close>
    ultimately show thesis using finish [OF run] late Some by (auto simp: findState_setState)
  qed
  show thesis
  proof (cases "waiting rs")
    case False
    from checkReceiver_idle [of "(rs, rt_monitor rt)" env] False
    have "checkReceiver env (rs, rt_monitor rt) = (Inr (False, []), (rs, rt_monitor rt))" by simp
    from fin [OF this receiver_expires_refl] False show thesis by simp
  next
    case w: True
    have may: "mayReport env rs (rt_monitor rt) (2 ^ 32)" using fit Some w
      by (auto simp: mayReport_def reportsFit_def simp del: split_paired_All)
    show thesis
    proof (cases rule: checkReceiver_run [OF may rok live w])
      case (1 b)
      let ?rs = "if b then rs\<lparr>rs_bPaused := True\<rparr> else rs"
      have d: "deadlineParts ?rs = deadlineParts rs" by (simp add: deadlineParts_def)
      then have "receiver_expires rs ?rs []" using w by (auto simp: receiver_expires_def waiting_def)
      from fin [OF 1(2) this] bTimedOut_parts [OF d, of env] 1(1) show thesis by (simp add: textsFit_def)
    next
      case (2 b res mon')
      let ?rs = "(if b then rs\<lparr>rs_bPaused := True\<rparr> else rs)\<lparr>rs_bActive := False, rs_bResultReported := True\<rparr>"
      have nw: "\<not> waiting ?rs" by (simp add: waiting_def)
      have "timeoutOf rs res" using 2(2-4) by (simp add: timeoutOf_def)
      with nw have "receiver_expires rs ?rs [res]" by (auto simp: receiver_expires_def)
      from fin [OF 2(5) this _ 2(6,7)] nw show thesis by blast
    qed
  qed
qed

lemma checkReceivers_returns:
  shows "reportsFit env (length ks) rt \<Longrightarrow> runtime_ok ssl rt \<Longrightarrow>
    \<exists>b vec rt'. checkReceivers env ks rt = (Inr (b, vec), rt') \<and> runtime_ok ssl rt'
    \<and> expires rt rt' vec \<and> (\<forall>k \<in> set ks. \<forall>rs'. findState rt' k = Some rs' \<and> waiting rs' \<longrightarrow> \<not> bTimedOut env rs')"
proof (induction ks arbitrary: rt)
  case Nil
  then show ?case using receiver_expires_refl by (auto simp: act_run expires_def split: option.split)
next
  case (Cons k ks)
  obtain b vec rt1 where 1: "onReceiver k (False, []) (checkReceiver env) rt = (Inr (b, vec), rt1)"
    "runtime_ok ssl rt1" "reportsFit env (length ks) rt1" "expires rt rt1 vec"
    "\<And>rs'. findState rt1 k = Some rs' \<Longrightarrow> waiting rs' \<Longrightarrow> \<not> bTimedOut env rs'"
    using onReceiver_check [OF Cons.prems [unfolded length_Cons], of k] by metis
  from Cons.IH [OF 1(3,2)] obtain b2 vec2 rt2 where 2: "checkReceivers env ks rt1 = (Inr (b2, vec2), rt2)"
    "runtime_ok ssl rt2" "expires rt1 rt2 vec2"
    "\<forall>k \<in> set ks. \<forall>rs'. findState rt2 k = Some rs' \<and> waiting rs' \<longrightarrow> \<not> bTimedOut env rs'" by blast
  have "checkReceivers env (k # ks) rt = (Inr (b \<or> b2, vec @ vec2), rt2)"
    using 1(1) 2(1) by (simp add: bindA_def act_run)
  moreover have "\<not> bTimedOut env rs'" if f: "findState rt2 k = Some rs'" and w: "waiting rs'" for rs'
  proof (cases "findState rt1 k")
    case None
    with expiresD(1) [OF 2(3)] f show ?thesis by simp
  next
    case (Some rs1)
    from expiresD(2) [OF 2(3) this] f have "receiver_expires rs1 rs' vec2" by simp
    with w have "waiting rs1" "deadlineParts rs' = deadlineParts rs1" by (auto simp: receiver_expires_def)
    with 1(5) [OF Some] bTimedOut_parts show ?thesis by metis
  qed
  ultimately show ?case using 2(2,4) expires_trans [OF 1(4) 2(3)] by auto
qed

section \<open>A turn of the worker\<close>

lemma takeDatagram_deadline: "leavesAll deadlineParts (takeDatagram env)"
proof -
  have "leavesAll deadlineParts (thenA (modifyA (\<lambda>rt. rt\<lparr>rt_deqDatagrams := deq\<rparr>))
       (bindA (onReceiver (que_keyContext que) [] (processDatagram env que)) (\<lambda>vecResults.
        thenA (whenA (vecResults \<noteq> []) updateGlobalRunning) (retA vecResults))))" for que deq
    by (intro leavesAll_then leavesAll_bind leavesAll_onReceiver processDatagram_deadline
        leavesAll_untouched untouched_rules untouched_operations untouched_modify; simp)
  then show ?thesis
    unfolding takeDatagram_def
    by (intro leavesAll_bind) (auto intro!: leavesAll_untouched untouched_rules split: list.split)
qed

text \<open>What follows the datagram returns, and expires the receivers that are late.\<close>

lemma checkPauseAndTimeouts_returns:
  assumes fit: "reportsFit env (length (rt_mapStates rt)) rt" and ok: "runtime_ok ssl rt"
  obtains vec rt' where "checkPauseAndTimeouts env rt = (Inr vec, rt')" "expires rt rt' vec"
    "\<And>k rs'. findState rt' k = Some rs' \<Longrightarrow> waiting rs' \<Longrightarrow> \<not> bTimedOut env rs'"
proof -
  let ?keys = "map fst (rt_mapStates rt)"
  obtain b vec rt1 where 1: "checkReceivers env ?keys rt = (Inr (b, vec), rt1)" "expires rt rt1 vec"
    "\<forall>k \<in> set ?keys. \<forall>rs'. findState rt1 k = Some rs' \<and> waiting rs' \<longrightarrow> \<not> bTimedOut env rs'"
    using checkReceivers_returns [of env ?keys rt ssl] fit ok by auto
  let ?rt = "snd (updateGlobalRunning (rt1\<lparr>rt_bPaused := b\<rparr>))"
  have run: "checkPauseAndTimeouts env rt = (Inr vec, ?rt)"
    using 1(1) by (simp add: checkPauseAndTimeouts_def bindA_run bindA_def [of "checkReceivers env ?keys"]
        thenA_modify updateGlobalRunning_def act_run)
  have f: "findState ?rt k = findState rt1 k" for k
    using untouched_find [OF untouched_operations(4), of "rt1\<lparr>rt_bPaused := b\<rparr>" k] by simp
  have "\<not> bTimedOut env rs'" if "findState ?rt k = Some rs'" "waiting rs'" for k rs'
  proof -
    have "findState rt k \<noteq> None" using expiresD(1) [OF 1(2), of k] that(1) f by auto
    then have "k \<in> set ?keys" by (auto simp: findState_def map_of_eq_None_iff)
    from bspec [OF 1(3) this] that f show ?thesis by simp
  qed
  moreover have "expires rt ?rt vec" by (rule expires_same [OF 1(2) f])
  ultimately show thesis using that [OF run] by blast
qed

lemma workerStep_returns:
  assumes fit: "reportsFit env (length (rt_mapStates rt1)) rt1" and ok: "runtime_ok (env_ssl env) rt"
    and take: "takeDatagram env rt = (Inr v, rt1)"
  obtains obs vec rt' where "workerStep env rt = (Inr (obs, v @ vec), rt')" "expires rt1 rt' vec"
    "\<And>k rs'. findState rt' k = Some rs' \<Longrightarrow> waiting rs' \<Longrightarrow> \<not> bTimedOut env rs'"
proof -
  have ok1: "runtime_ok (env_ssl env) rt1" using keepRD [OF keepR_take ok] take by simp
  obtain vec rt2 where 2: "checkPauseAndTimeouts env rt1 = (Inr vec, rt2)" "expires rt1 rt2 vec"
    "\<And>k rs'. findState rt2 k = Some rs' \<Longrightarrow> waiting rs' \<Longrightarrow> \<not> bTimedOut env rs'"
    using checkPauseAndTimeouts_returns [OF fit ok1] by metis
  have "env_bObserve env \<longrightarrow> env_u64Now env \<noteq> 0" using fit by (simp add: reportsFit_def)
  then have "fst (queueDosSummaryIfDue env rt2) = Inr ()"
    by (simp add: queueDosSummaryIfDue_def mkDosSummary_def DOS_WINDOW_MILLISECONDS_def bindA_def thenA_def act_run whenA_def)
  then obtain rt3 where dos: "queueDosSummaryIfDue env rt2 = (Inr (), rt3)" by (metis prod.collapse)
  then have same: "findState rt3 k = findState rt2 k" for k
    using untouched_find [OF untouched_operations(5), of env rt2 k] by simp
  let ?rt = "rt3\<lparr>rt_monitor := (rt_monitor rt3)\<lparr>mon_vecPendingObservations := []\<rparr>\<rparr>"
  let ?obs = "if env_bObserve env then mon_vecPendingObservations (rt_monitor rt3) else []"
  have "workerStep env rt = (Inr (?obs, v @ vec), ?rt)"
    by (simp add: workerStep_def bindA_def take 2(1) thenA_def dos act_run)
  moreover have same: "findState ?rt k = findState rt2 k" for k using same by (simp add: findState_def)
  moreover have "expires rt1 ?rt vec" by (rule expires_same [OF 2(2) same])
  ultimately show thesis using that [of ?obs vec ?rt] 2(3) by metis
qed

text \<open>A receiver whose deadline has passed does not wait after the next turn.\<close>

lemma late_receiver_stops:
  assumes fit: "reportsFit env (length (rt_mapStates rt1)) rt1" and ok: "runtime_ok (env_ssl env) rt"
    and take: "takeDatagram env rt = (Inr v, rt1)"
    and rs: "findState rt k = Some rs" "waiting rs" "bTimedOut env rs"
  shows "\<exists>obs vec rt' rs1 rs'. workerStep env rt = (Inr (obs, v @ vec), rt')
    \<and> findState rt1 k = Some rs1 \<and> findState rt' k = Some rs' \<and> \<not> waiting rs'
    \<and> (waiting rs1 \<longrightarrow> list_ex (timeoutOf rs) vec)"
proof -
  obtain obs vec rt' where w: "workerStep env rt = (Inr (obs, v @ vec), rt')" "expires rt1 rt' vec"
    "\<And>k rs'. findState rt' k = Some rs' \<Longrightarrow> waiting rs' \<Longrightarrow> \<not> bTimedOut env rs'"
    using workerStep_returns [OF fit ok take] by metis
  from leavesAllD [OF takeDatagram_deadline, of env rt k] take rs(1)
  obtain rs1 where 1: "findState rt1 k = Some rs1" "deadlineParts rs1 = deadlineParts rs" by auto
  from expiresD(2) [OF w(2) 1(1)] obtain rs' where 2: "findState rt' k = Some rs'" "receiver_expires rs1 rs' vec"
    by blast
  have stop: "\<not> waiting rs'"
  proof
    assume wt: "waiting rs'"
    with 2(2) 1(2) have "deadlineParts rs' = deadlineParts rs" by (simp add: receiver_expires_def)
    from bTimedOut_parts [OF this, of env] rs(3) w(3) [OF 2(1) wt] show False by simp
  qed
  have "timeoutOf rs1 = timeoutOf rs" using 1(2) by (auto simp: deadlineParts_def timeoutOf_def)
  with 2(2) stop have "waiting rs1 \<longrightarrow> list_ex (timeoutOf rs) vec" by (simp add: receiver_expires_def)
  with w(1) 1(1) 2(1) stop show ?thesis by blast
qed

end
