(* ===== verification/ReceiverSamples.thy ===== *)
theory ReceiverSamples
  imports Samples RuntimeLiveness
begin

text \<open>
  A round of one packet run through the receiver runtime: configured, started, fed the packet and
  the disclosed key, and worked to its result. Every step is evaluated, so that the theorems about
  histories of the runtime can be applied to it.
\<close>

section \<open>The round\<close>

definition one_round :: round_parameters where
  "one_round = \<lparr>prm_algCryptoAlgorithm = Sha256, prm_modeAuthentication = ModeNative,
     prm_u32TotalPacketCount = 1, prm_u32PacketsPerInterval = 1, prm_u32DisclosureDelay = 1,
     prm_u32IntervalMilliseconds = 100, prm_u64StartTimestampMilliseconds = 1000,
     prm_nDataIntervalCount = 1, prm_optImprovedParameters = None, prm_modePayload = PayloadText\<rparr>"

text \<open>Under the sample OpenSSL a block is its own digest, so the key is its own commitment.\<close>

definition one_context :: receiver_context where
  "one_context = \<lparr>rcv_strSenderId = ''S'', rcv_strSenderIpAddress = ''10.0.0.1'', rcv_u64ChainId = 7,
     rcv_digCommitmentKey = sample_key, rcv_prmRoundParameters = one_round,
     rcv_varPayloadDetails = TextReceiverPayloadDetails 1\<rparr>"

definition one_key :: ctx_key where "one_key = (''10.0.0.1'', 7)"

definition one_datagram :: "byte list" where
  "one_datagram = [0, 0, 0, 0, 0, 0, 0, 7, 0, 0, 0, 1, 0, 0, 0, 1, 65, 0, 0, 0, 0, 0, 0, 0,
   0, 0, 0, 0, 0, 0, 0, 0, 0, 0, 0, 0, 0, 0, 0, 0, 0, 0, 0, 0, 0, 0, 0, 0,
   0, 1, 83, 0, 0, 0, 0, 0, 0, 0, 7, 0, 0, 0, 1, 0, 0, 0, 1, 65, 0, 0, 0, 0,
   0, 0, 0, 0, 0, 0, 0, 0]"

definition one_disclosure :: "byte list" where
  "one_disclosure = [0, 0, 0, 0, 0, 0, 0, 7, 0, 0, 0, 2, 0, 0, 0, 0, 1, 2, 3, 0, 0, 0, 0, 0,
   0, 0, 0, 0, 0, 0, 0, 0, 0, 0, 0, 0, 0, 0, 0, 0, 0, 0, 0, 0, 0, 0, 0, 0]"

abbreviation one_env :: "u64 \<Rightarrow> nat runtime_env" where
  "one_env u64Now \<equiv> \<lparr>env_ssl = sample_ssl, env_bObserve = False, env_u64Now = u64Now\<rparr>"

definition one_setup :: "(u64 \<times> runtime_op) list" where
  "one_setup = [(0, RtConfigure [one_context]), (0, RtStart ''r'' 1000 5)]"

definition one_calls :: "(u64 \<times> runtime_op) list" where
  "one_calls = [(1010, RtEnqueue ''10.0.0.1'' one_datagram 1010), (1010, RtWork),
     (1110, RtEnqueue ''10.0.0.1'' one_disclosure 1110), (1110, RtWork)]"

definition one_run :: "nat \<Rightarrow> receiver_runtime" where
  "one_run n = run_ops (timed_step sample_ssl False) (take n (one_setup @ one_calls)) new_receiver_runtime"

lemma one_round_made:
  "mkRoundParameters Sha256 ModeNative 1 1 1 100 1000 None PayloadText = Inr one_round"
  by code_simp

lemma one_context_built: "built_context one_context"
proof -
  have "mkReceiverContext (rcv_strSenderId one_context) (rcv_strSenderIpAddress one_context)
      (rcv_u64ChainId one_context) (rcv_digCommitmentKey one_context) (rcv_prmRoundParameters one_context)
      (rcv_varPayloadDetails one_context) = Inr one_context"
    by code_simp
  moreover have "built_payload (rcv_varPayloadDetails one_context)" by code_simp
  moreover have "rcv_prmRoundParameters one_context = one_round" by (simp add: one_context_def)
  ultimately show ?thesis unfolding built_context_def using one_round_made by metis
qed

lemma one_ops_built: "list_all (built_op \<circ> snd) (one_setup @ one_calls)"
  by (simp add: one_setup_def one_calls_def one_context_built)

section \<open>Its steps\<close>

definition one_at :: "nat \<Rightarrow> receiver_runtime \<Rightarrow> (receiver_state \<Rightarrow> bool) \<Rightarrow> bool" where
  "one_at n rt P = (case findState rt one_key of None \<Rightarrow> False | Some rs \<Rightarrow> slotCount rs = n \<and> P rs)"

definition one_trace :: bool where
  "one_trace =
     (let step = timed_step sample_ssl False;
          s1 = snd (step (0, RtConfigure [one_context]) new_receiver_runtime);
          p2 = step (0, RtStart ''r'' 1000 5) s1; s2 = snd p2;
          p3 = step (1010, RtEnqueue ''10.0.0.1'' one_datagram 1010) s2;
          p4 = step (1010, RtWork) (snd p3);
          p5 = step (1110, RtEnqueue ''10.0.0.1'' one_disclosure 1110) (snd p4);
          p6 = step (1110, RtWork) (snd p5)
      in fst p2 = Inr [] \<and> length (rt_mapStates s1) = 1 \<and> waitingCount s2 = 1 \<and> rt_deqDatagrams s2 = []
        \<and> one_at 2 s2 (\<lambda>rs. waiting rs \<and> bTimedOut (one_env 5000) rs)
        \<and> list_all (\<lambda>(_, rs). textsFit rs) (rt_mapStates s2)
        \<and> mon_u64NextObservationEventId (rt_monitor s2) = 0x10000000000
        \<and> fst p3 = Inr [] \<and> fst p4 = Inr [] \<and> fst p5 = Inr []
        \<and> (case fst p6 of Inl _ \<Rightarrow> False | Inr res \<Rightarrow> map res_statusResult res = [Completed])
        \<and> one_at 2 (snd p3) (\<lambda>rs. packetAt rs 1 = None)
        \<and> one_at 2 (snd p4) (\<lambda>rs. packetAt rs 1 \<noteq> None \<and> statusAt rs 1 = StatusPending
             \<and> rs_setVerifiedIntervals rs = {})
        \<and> one_at 2 (snd p6) (\<lambda>rs. statusAt rs 1 = StatusPassed))"

lemma one_traced: one_trace by code_simp

text \<open>The runtime after each of the first calls, and what the calls hand out.\<close>

definition one_result :: "nat \<Rightarrow> runtime_result list result \<times> receiver_runtime" where
  "one_result n = timed_step sample_ssl False (one_calls ! n) (one_run (n + 2))"

lemma one_run_start: "one_run 2 = run_ops (timed_step sample_ssl False) one_setup new_receiver_runtime"
  by (simp add: one_run_def one_setup_def one_calls_def)

lemma one_states:
  "one_run 3 = snd (one_result 0)" "one_run 4 = snd (one_result 1)"
  "one_run 5 = snd (one_result 2)" "one_run 6 = snd (one_result 3)"
  by (simp_all add: one_run_def one_result_def one_setup_def one_calls_def)

lemma one_traced_results:
  "one_trace = (fst (timed_step sample_ssl False (0, RtStart ''r'' 1000 5) (one_run 1)) = Inr []
     \<and> length (rt_mapStates (one_run 1)) = 1 \<and> waitingCount (one_run 2) = 1 \<and> rt_deqDatagrams (one_run 2) = []
     \<and> one_at 2 (one_run 2) (\<lambda>rs. waiting rs \<and> bTimedOut (one_env 5000) rs)
     \<and> list_all (\<lambda>(_, rs). textsFit rs) (rt_mapStates (one_run 2))
     \<and> mon_u64NextObservationEventId (rt_monitor (one_run 2)) = 0x10000000000
     \<and> fst (one_result 0) = Inr [] \<and> fst (one_result 1) = Inr [] \<and> fst (one_result 2) = Inr []
     \<and> (case fst (one_result 3) of Inl _ \<Rightarrow> False | Inr res \<Rightarrow> map res_statusResult res = [Completed])
     \<and> one_at 2 (one_run 3) (\<lambda>rs. packetAt rs 1 = None)
     \<and> one_at 2 (one_run 4) (\<lambda>rs. packetAt rs 1 \<noteq> None \<and> statusAt rs 1 = StatusPending
          \<and> rs_setVerifiedIntervals rs = {})
     \<and> one_at 2 (one_run 6) (\<lambda>rs. statusAt rs 1 = StatusPassed))"
proof -
  have r: "one_result 0 = timed_step sample_ssl False (1010, RtEnqueue ''10.0.0.1'' one_datagram 1010) (one_run 2)"
    "one_result 1 = timed_step sample_ssl False (1010, RtWork) (one_run 3)"
    "one_result 2 = timed_step sample_ssl False (1110, RtEnqueue ''10.0.0.1'' one_disclosure 1110) (one_run 4)"
    "one_result 3 = timed_step sample_ssl False (1110, RtWork) (one_run 5)"
    by (simp_all add: one_result_def one_calls_def eval_nat_numeral)
  have s: "one_run 2 = snd (timed_step sample_ssl False (0, RtStart ''r'' 1000 5) (one_run 1))"
    "one_run 1 = snd (timed_step sample_ssl False (0, RtConfigure [one_context]) new_receiver_runtime)"
    by (simp_all add: one_run_def one_setup_def)
  show ?thesis
    unfolding one_trace_def Let_def one_states r s ..
qed

lemma one_results:
  "fst (one_result 0) = Inr []" "fst (one_result 1) = Inr []" "fst (one_result 2) = Inr []"
  "\<exists>res. fst (one_result 3) = Inr [res] \<and> res_statusResult res = Completed"
  and one_started: "fst (timed_step sample_ssl False (0, RtStart ''r'' 1000 5) (one_run 1)) = Inr []"
    "length (rt_mapStates (one_run 1)) = 1"
  and one_start: "waitingCount (one_run 2) = 1" "rt_deqDatagrams (one_run 2) = []"
    "one_at 2 (one_run 2) (\<lambda>rs. waiting rs \<and> bTimedOut (one_env 5000) rs)"
    "list_all (\<lambda>(_, rs). textsFit rs) (rt_mapStates (one_run 2))"
    "mon_u64NextObservationEventId (rt_monitor (one_run 2)) = 0x10000000000"
  and one_slots: "one_at 2 (one_run 3) (\<lambda>rs. packetAt rs 1 = None)"
    "one_at 2 (one_run 4) (\<lambda>rs. packetAt rs 1 \<noteq> None \<and> statusAt rs 1 = StatusPending \<and> rs_setVerifiedIntervals rs = {})"
    "one_at 2 (one_run 6) (\<lambda>rs. statusAt rs 1 = StatusPassed)"
  using one_traced unfolding one_traced_results by (auto simp: map_eq_Cons_conv split: sum.splits)

lemma one_atD: "one_at n rt P \<Longrightarrow> \<exists>rs. findState rt one_key = Some rs \<and> slotCount rs = n \<and> P rs"
  by (simp add: one_at_def split: option.splits)

end
