(* ===== verification/ReceiverTheorems.thy ===== *)
theory ReceiverTheorems
  imports ReceiverSamples
begin

text \<open>
  What the receiver runtime guarantees, over every history of calls. Each theorem is applied to the
  sample round of \<open>ReceiverSamples\<close>.
\<close>

section \<open>Passed packets\<close>

text \<open>
  \<open>genuine\<close> for a receiver whose slots are allocated: the group stands in the slots, and its tags
  are those of the packet stored in its last slot.
\<close>

definition authentic :: "'g openssl \<Rightarrow> receiver_state \<Rightarrow> block \<Rightarrow> nat \<Rightarrow> bool" where
  "authentic ssl rs key n \<longleftrightarrow>
     (\<exists>d pkt. packetAt rs n = Some d \<and> unat (ud_u32PacketIndex d) = n
        \<and> pktMapDataPacket (rcv_strSenderId (rs_ctxContext rs)) d = Inr pkt
        \<and> (if prm_modeAuthentication (rs_prm rs) = ModeNative
           then \<exists>mac. nativeMac (ud_varAuthenticationDetails d) = Some mac
             \<and> digComputePacketMac (rs_crp ssl rs) key pkt = Inr mac
           else \<exists>imp mat grp a b e det res ms. prm_optImprovedParameters (rs_prm rs) = Some imp
             \<and> mkImprovedTeslaStrategy (unat (imp_u32GroupSize imp)) (unat (imp_u32DetectionThreshold imp)) = Inr mat
             \<and> grp_ok grp \<and> grp_strSenderId grp = rcv_strSenderId (rs_ctxContext rs)
             \<and> grp_u64ChainId grp = rcv_u64ChainId (rs_ctxContext rs)
             \<and> a \<le> n \<and> n \<le> b \<and> b < slotCount rs \<and> length (grp_vecPacketSlots grp) = Suc b - a
             \<and> (\<forall>j < Suc b - a. \<forall>p. grp_vecPacketSlots grp ! j = Some p \<longrightarrow> holdsInput rs (a + j) p)
             \<and> packetAt rs b = Some e \<and> ud_varAuthenticationDetails e = ImprovedUdpDetails (Some det)
             \<and> improved_verify (rs_crp ssl rs) mat grp
                 (ImprovedAuthenticationDetails (ugd_vecSamdTau det) (Some (ugd_arrFastGroupTag det))) key False
               = Inr (res, ms)
             \<and> n - a \<in> accepted res))"

lemma genuine_authentic:
  assumes ok: "base_ok ssl rs" and n: "n < slotCount rs" and g: "genuine ssl rs key n"
  shows "authentic ssl rs key n"
proof -
  have cnt: "slotCount rs = unat (prm_u32TotalPacketCount (rs_prm rs)) + 1"
    using ok n by (auto simp: base_ok_def slots_ok_def)
  obtain d pkt where d: "packetAt rs n = Some d" "pktMapDataPacket (rcv_strSenderId (rs_ctxContext rs)) d = Inr pkt"
    and c: "if prm_modeAuthentication (rs_prm rs) = ModeNative
       then \<exists>mac. nativeMac (ud_varAuthenticationDetails d) = Some mac \<and> digComputePacketMac (rs_crp ssl rs) key pkt = Inr mac
       else groupAccepts (rs_crp ssl rs) rs key n"
    using g unfolding genuine_def by blast
  have i: "unat (ud_u32PacketIndex d) = n" using ok n d(1) by (simp add: base_ok_def slots_ok_def)
  show ?thesis
  proof (cases "prm_modeAuthentication (rs_prm rs) = ModeNative")
    case True
    with c d i show ?thesis by (simp add: authentic_def)
  next
    case False
    with c have "groupAccepts (rs_crp ssl rs) rs key n" by simp
    then obtain imp mat grp a b taus tag res ms where
      1: "prm_optImprovedParameters (rs_prm rs) = Some imp"
        "mkImprovedTeslaStrategy (unat (imp_u32GroupSize imp)) (unat (imp_u32DetectionThreshold imp)) = Inr mat"
        "grp_ok grp" "grp_strSenderId grp = rcv_strSenderId (rs_ctxContext rs)"
        "grp_u64ChainId grp = rcv_u64ChainId (rs_ctxContext rs)"
        "a \<le> n" "n \<le> b" "b \<le> unat (prm_u32TotalPacketCount (rs_prm rs))"
        "length (grp_vecPacketSlots grp) = Suc b - a"
      and 2: "\<forall>j < Suc b - a. \<forall>pkt. grp_vecPacketSlots grp ! j = Some pkt \<longrightarrow>
              a + j < slotCount rs \<longrightarrow> holdsInput rs (a + j) pkt"
      and 3: "b < slotCount rs \<longrightarrow> (\<exists>det. map_option ud_varAuthenticationDetails (packetAt rs b)
                = Some (ImprovedUdpDetails (Some det)) \<and> taus = ugd_vecSamdTau det \<and> tag = ugd_arrFastGroupTag det)"
      and 4: "improved_verify (rs_crp ssl rs) mat grp (ImprovedAuthenticationDetails taus (Some tag)) key False
          = Inr (res, ms)" "n - a \<in> accepted res"
      unfolding groupAccepts_def by blast
    have b: "b < slotCount rs" using 1(8) cnt by simp
    with 3 obtain e det where e: "packetAt rs b = Some e" "ud_varAuthenticationDetails e = ImprovedUdpDetails (Some det)"
      "taus = ugd_vecSamdTau det" "tag = ugd_arrFastGroupTag det" by auto
    have "\<forall>j < Suc b - a. \<forall>p. grp_vecPacketSlots grp ! j = Some p \<longrightarrow> holdsInput rs (a + j) p"
      using 2 b by simp
    then show ?thesis
      unfolding authentic_def using False d i 1 b e 4 by (simp only: if_False) blast
  qed
qed

text \<open>C30. Whatever is called on the receiver runtime, and in whatever order, a packet it has marked
  as passed is one it holds, in the slot of its own index; the key of its interval was disclosed and
  hashes to the commitment of the sender's chain; and under that key the packet carries its own MAC
  (Native) or stands in a group of held packets that the strategy accepts, at its place, with the
  tags that the last packet of the group carries (Improved).\<close>

theorem passed_packets_genuine:
  assumes ops: "list_all (built_op \<circ> snd) ops"
    and rs: "findState (run_ops (timed_step ssl obs) ops new_receiver_runtime) k = Some rs"
    and n: "n < slotCount rs" "statusAt rs n = StatusPassed"
  shows "\<exists>key. rs_mapDisclosedKeys rs (slotInterval (rs_prm rs) n) = Some key
    \<and> hashTimes (rs_crp ssl rs) (unat (slotInterval (rs_prm rs) n)) key = Inr (rcv_digCommitmentKey (rs_ctxContext rs))
    \<and> authentic ssl rs key n"
proof -
  have ok: "receiver_ok ssl rs" using runtime_ok_find [OF runtime_history_ok [OF ops] rs] .
  then obtain key where "rs_mapDisclosedKeys rs (slotInterval (rs_prm rs) n) = Some key" "genuine ssl rs key n"
    using n by (auto simp: receiver_ok_def passed_ok_def)
  with ok n genuine_authentic [of ssl rs n key] show ?thesis
    by (auto simp: receiver_ok_def base_ok_def keys_ok_def)
qed

theorem passed_packets_genuine_witness:
  "\<exists>rs key. findState (one_run 6) one_key = Some rs \<and> authentic sample_ssl rs key 1"
proof -
  obtain rs where rs: "findState (one_run 6) one_key = Some rs" "slotCount rs = 2" "statusAt rs 1 = StatusPassed"
    using one_atD [OF one_slots(3)] by blast
  have "one_run 6 = run_ops (timed_step sample_ssl False) (one_setup @ one_calls) new_receiver_runtime"
    by (simp add: one_run_def one_setup_def one_calls_def)
  from passed_packets_genuine [OF one_ops_built rs(1) [unfolded this], of 1] rs show ?thesis by auto
qed

section \<open>Verdicts are final\<close>

text \<open>C31. Between two starts of a round, whatever the calls: a receiver keeps its context and its
  slots, the packets it holds, the keys it knows and the intervals it has verified; and once an
  interval is verified, no further packet of it comes to be passed.\<close>

theorem verdicts_final:
  assumes before: "list_all (built_op \<circ> snd) ops" and ops: "list_all (in_round_op \<circ> snd) calls"
    and rs: "findState (run_ops (timed_step ssl obs) ops new_receiver_runtime) k = Some rs"
  shows "\<exists>rs'. findState (run_ops (timed_step ssl obs) (ops @ calls) new_receiver_runtime) k = Some rs'
    \<and> rs_ctxContext rs' = rs_ctxContext rs \<and> slotCount rs' = slotCount rs
    \<and> rs_mapDisclosedKeys rs \<subseteq>\<^sub>m rs_mapDisclosedKeys rs'
    \<and> rs_setVerifiedIntervals rs \<subseteq> rs_setVerifiedIntervals rs'
    \<and> (\<forall>n < slotCount rs. packetAt rs n \<noteq> None \<longrightarrow> packetAt rs' n = packetAt rs n)
    \<and> (\<forall>n < slotCount rs. slotInterval (rs_prm rs) n \<in> rs_setVerifiedIntervals rs
         \<longrightarrow> statusAt rs' n = StatusPassed \<longrightarrow> statusAt rs n = StatusPassed)"
proof -
  obtain rs' where "findState (run_ops (timed_step ssl obs) (ops @ calls) new_receiver_runtime) k = Some rs'"
    "advances ssl rs rs'"
    using round_progresses [OF ops] runtime_history_ok [OF before] rs unfolding progresses_def run_ops_append
    by metis
  then show ?thesis unfolding advances_def by (intro exI [of _ rs']) auto
qed

lemma one_calls_round: "list_all (in_round_op \<circ> snd) one_calls" "list_all (built_op \<circ> snd) one_setup"
  by (simp_all add: one_calls_def one_setup_def one_context_built)

theorem verdicts_final_witness:
  "\<exists>rs rs'. findState (one_run 2) one_key = Some rs \<and> findState (one_run 6) one_key = Some rs'
     \<and> slotCount rs' = slotCount rs \<and> rs_ctxContext rs' = rs_ctxContext rs"
proof -
  obtain rs where rs: "findState (one_run 2) one_key = Some rs" using one_atD [OF one_start(3)] by blast
  from verdicts_final [OF one_calls_round(2,1) rs [unfolded one_run_start]] rs show ?thesis
    by (auto simp: one_run_def one_calls_def one_setup_def)
qed

section \<open>A slot is filled in time\<close>

text \<open>C32. In a turn of the worker an empty slot is filled only by the datagram at the head of the
  queue, addressed to this receiver and not sent from a mapped attack source; it decodes under the
  packet context of the round, to a data packet of the slot's index, and it was received while the
  key of its interval could not have been disclosed yet.\<close>

theorem slot_filled_in_time:
  assumes before: "findState rt k = Some rs" and after: "findState (snd (workerStep env rt)) k = Some rs'"
    and n: "n < slotCount rs" "packetAt rs n = None" "packetAt rs' n = Some d" "slotCount rs' = slotCount rs"
  shows "\<exists>que deq uctx. rt_deqDatagrams rt = que # deq \<and> que_keyContext que = k
    \<and> que_typeSource que \<noteq> AttackInjection \<and> n = unat (ud_u32PacketIndex d)
    \<and> ctxCreatePacketContext (rs_prm rs) = Inr uctx
    \<and> udp_resDecode (que_vecDatagram que) uctx = Inr (Inr (UdpData d))
    \<and> bIsPacketTimeSafe rs (ud_u32IntervalIndex d) (que_u64ReceiveTimestampMilliseconds que)"
proof -
  have at: "packetAt r n = packetsOf r ! n" if "slotCount r = slotCount rs" for r
    using packetsOf_nth n(1) that by simp
  have "packetsOf rs' \<noteq> packetsOf rs" using at n by force
  then obtain que deq where q: "rt_deqDatagrams rt = que # deq" "que_keyContext que = k"
    "packetsOf rs' = packetsOf (fst (snd (processDatagram env que (rs, rt_monitor rt))))"
    using workerStep_leaves [OF checkReceiver_packets before after] by blast
  let ?t = "fst (snd (processDatagram env que (rs, rt_monitor rt)))"
  have "slotCount ?t = slotCount rs"
    using arg_cong [OF q(3), of length] n(4) by (simp add: packetsOf_def slotCount_def)
  then have "packetAt ?t n = Some d" using at n(3,4) q(3) by metis
  from processDatagram_packets [of n "(rs, rt_monitor rt)", OF _ _ this] n q show ?thesis by auto
qed

lemma work_runtime: "snd (timed_step ssl obs (u64Now, RtWork) rt)
    = snd (workerStep \<lparr>env_ssl = ssl, env_bObserve = obs, env_u64Now = u64Now\<rparr> rt)"
  by (simp add: timed_step_def bindA_cases retA_def split: sum.split prod.split)

theorem slot_filled_in_time_witness:
  "\<exists>que deq d uctx. rt_deqDatagrams (one_run 3) = que # deq \<and> que_typeSource que \<noteq> AttackInjection
     \<and> udp_resDecode (que_vecDatagram que) uctx = Inr (Inr (UdpData d))"
proof -
  obtain rs where rs: "findState (one_run 3) one_key = Some rs" "slotCount rs = 2" "packetAt rs 1 = None"
    using one_atD [OF one_slots(1)] by blast
  obtain rs' where rs': "findState (one_run 4) one_key = Some rs'" "slotCount rs' = 2" "packetAt rs' 1 \<noteq> None"
    using one_atD [OF one_slots(2)] by blast
  obtain d where d: "packetAt rs' 1 = Some d" using rs'(3) by blast
  have "one_run 4 = snd (workerStep (one_env 1010) (one_run 3))"
    unfolding one_states(2) one_result_def by (simp add: one_calls_def work_runtime numeral_3_eq_3)
  from slot_filled_in_time [OF rs(1) rs'(1) [unfolded this], of 1 d] rs(2,3) rs'(2) d
  show ?thesis by simp blast
qed

section \<open>Results\<close>

lemma start_states:
  assumes "timed_step ssl obs (u64Now, RtStart r u64Start u32Tolerance) rt = (Inr v, rt')"
  shows "startRuntime \<lparr>env_ssl = ssl, env_bObserve = obs, env_u64Now = u64Now\<rparr> r u64Start u32Tolerance rt = (Inr (), rt')"
    "length (rt_mapStates rt') = length (rt_mapStates rt)"
proof -
  show s: "startRuntime \<lparr>env_ssl = ssl, env_bObserve = obs, env_u64Now = u64Now\<rparr> r u64Start u32Tolerance rt = (Inr (), rt')"
    using assms by (auto simp: timed_step_def thenA_def bindA_def retA_def split: prod.splits sum.splits)
  have "length (keysOf rt') = length (keysOf rt)" using started_waiting(2) [OF s] by simp
  then show "length (rt_mapStates rt') = length (rt_mapStates rt)" by (simp add: keysOf_def)
qed

lemma one_begun:
  "timed_step sample_ssl False (0, RtStart ''r'' 1000 5) (one_run 1) = (Inr [], one_run 2)"
  "length (rt_mapStates (one_run 2)) = 1"
proof -
  have "one_run 2 = snd (timed_step sample_ssl False (0, RtStart ''r'' 1000 5) (one_run 1))"
    by (simp add: one_run_def one_setup_def)
  with one_started(1) show s: "timed_step sample_ssl False (0, RtStart ''r'' 1000 5) (one_run 1) = (Inr [], one_run 2)"
    by (metis prod.collapse)
  show "length (rt_mapStates (one_run 2)) = 1" using start_states(2) [OF s] one_started(2) by simp
qed

text \<open>C33. After a start of the round that returned, the calls until the next one hand out for each
  sender's chain, and for any set \<open>I\<close> of them, at most as many results as receivers are configured for it,
  less those that still wait: at most one for a chain with one receiver. They hand out exactly that many when
  all of the calls return; a call that throws may lose the results it had.\<close>

theorem one_result_per_receiver:
  assumes start: "timed_step ssl obs (u64Now, RtStart r u64Start u32Tolerance)
        (run_ops (timed_step ssl obs) ops new_receiver_runtime) = (Inr v, rt)"
    and calls: "list_all (in_round_op \<circ> snd) calls"
  defines "vec \<equiv> run_results (timed_step ssl obs) calls rt" and "rt' \<equiv> run_ops (timed_step ssl obs) calls rt"
  shows "countIn I vec + waitingIn I rt' \<le> receiversIn I rt
    \<and> (all_return (timed_step ssl obs) calls rt \<longrightarrow> countIn I vec + waitingIn I rt' = receiversIn I rt)"
proof -
  note s = start_states(1) [OF start]
  have "distinct (keysOf rt)" using started_waiting(2) [OF s] runtime_history_distinct [of ssl obs ops] by simp
  from results_counted [OF calls this] show ?thesis unfolding vec_def rt'_def started_waiting(1) [OF s, symmetric] by blast
qed

theorem one_result_per_receiver_witness:
  "\<exists>who. countIn {who} (run_results (timed_step sample_ssl False) one_calls (one_run 2)) + waitingIn {who} (one_run 6) \<le> 1
     \<and> who = (rcv_strSenderId one_context, rcv_u64ChainId one_context)"
proof -
  let ?I = "{(rcv_strSenderId one_context, rcv_u64ChainId one_context)}"
  have r: "one_run 1 = run_ops (timed_step sample_ssl False) [(0, RtConfigure [one_context])] new_receiver_runtime"
    "one_run 6 = run_ops (timed_step sample_ssl False) one_calls (one_run 2)"
    by (simp_all add: one_run_def one_setup_def one_calls_def)
  have "receiversIn ?I (one_run 2) \<le> 1"
    using one_begun(2) unfolding receiversIn_def by (metis length_filter_le)
  with one_result_per_receiver [OF one_begun(1) [unfolded r(1)] one_calls_round(1), of ?I] r(2) show ?thesis by simp
qed

text \<open>C34. When the worker takes its turn after the end of a waiting receiver's round and the tolerance, with
  or without an observer, then the turn returns and the receiver no longer waits; if it still waited after
  the datagram taken first, the results of the turn hold its verification timeout. Two things are assumed: that
  the datagram at the head of the queue is processed without an exception, and that the reports to an observer can be
  built, that is (\<open>reportsFit\<close>) the clock has a time, the names of the waiting receivers have at most 2048
  characters (a node's control messages allow 1024), and the 64-bit numbers of the reports do not run out
  in this turn.\<close>

theorem late_receiver_reported:
  assumes ops: "list_all (built_op \<circ> snd) ops"
    and rt: "rt = run_ops (timed_step ssl obs) ops new_receiver_runtime"
    and env: "env_ssl env = ssl"
    and take: "takeDatagram env rt = (Inr v, rt1)" and fit: "reportsFit env (length (rt_mapStates rt1)) rt1"
    and rs: "findState rt k = Some rs" "waiting rs" "bTimedOut env rs"
  shows "\<exists>vecObservations vec rt' rs1 rs'. workerStep env rt = (Inr (vecObservations, v @ vec), rt')
    \<and> findState rt1 k = Some rs1 \<and> findState rt' k = Some rs' \<and> \<not> waiting rs'
    \<and> (waiting rs1 \<longrightarrow> (\<exists>res \<in> set vec. timeoutOf rs res))"
proof -
  have "runtime_ok (env_ssl env) rt" using runtime_history_ok [OF ops] rt env by simp
  from late_receiver_stops [OF fit this take rs] show ?thesis by (simp add: list_ex_iff)
qed

theorem late_receiver_reported_witness:
  "\<exists>vecObservations vec rt' rs rs'. workerStep (one_env 5000\<lparr>env_bObserve := True\<rparr>) (one_run 2)
       = (Inr (vecObservations, vec), rt')
     \<and> findState (one_run 2) one_key = Some rs \<and> (\<exists>res \<in> set vec. timeoutOf rs res)
     \<and> findState rt' one_key = Some rs' \<and> \<not> waiting rs'"
proof -
  let ?env = "one_env 5000\<lparr>env_bObserve := True\<rparr>"
  obtain rs where rs: "findState (one_run 2) one_key = Some rs" "waiting rs" "bTimedOut (one_env 5000) rs"
    using one_atD [OF one_start(3)] by blast
  have late: "bTimedOut ?env rs" using rs(3) by (simp add: bTimedOut_def cong: option.case_cong if_cong)
  have "textsFit rs'" if "findState (one_run 2) k = Some rs'" for k rs'
    using one_start(4) map_of_SomeD [OF that [unfolded findState_def]] by (auto simp: list_all_iff)
  then have fit: "reportsFit ?env (length (rt_mapStates (one_run 2))) (one_run 2)"
    using one_start(5) one_begun(2) by (auto simp: reportsFit_def simp del: split_paired_All)
  have take: "takeDatagram ?env (one_run 2) = (Inr [], one_run 2)"
    using one_start(2) by (simp add: takeDatagram_def act_simps)
  from late_receiver_reported [OF one_calls_round(2) one_run_start _ take fit rs(1,2) late] rs show ?thesis
    by auto
qed

section \<open>Bounds\<close>

lemma received_le_total:
  assumes "receiver_ok ssl rs"
  shows "rs_u32ReceivedPacketCount rs \<le> prm_u32TotalPacketCount (rs_prm rs)"
proof -
  let ?filled = "{n. n < slotCount rs \<and> packetAt rs n \<noteq> None}"
  have ok: "slots_ok rs" using assms by (simp add: receiver_ok_def base_ok_def)
  have "n \<in> {1..unat (prm_u32TotalPacketCount (rs_prm rs))}" if "n \<in> ?filled" for n
  proof -
    from that have "n \<noteq> 0" "slotCount rs = unat (prm_u32TotalPacketCount (rs_prm rs)) + 1" "n < slotCount rs"
      using ok by (auto simp: slots_ok_def)
    then show ?thesis by simp
  qed
  then have "card ?filled \<le> card {1..unat (prm_u32TotalPacketCount (rs_prm rs))}" by (intro card_mono) auto
  then show ?thesis using ok by (simp add: slots_ok_def word_le_nat_alt)
qed

text \<open>C35. In every reachable runtime the queue holds at most 8192 datagrams; each receiver keeps at
  most three alternative versions of a packet, and counts as received exactly the slots it has
  filled, at most the packets of the round.\<close>

theorem receiver_bounds:
  assumes ops: "list_all (built_op \<circ> snd) ops"
    and rt: "rt = run_ops (timed_step ssl obs) ops new_receiver_runtime"
  shows "length (rt_deqDatagrams rt) \<le> 8192
    \<and> (\<forall>k. case findState rt k of None \<Rightarrow> True | Some rs \<Rightarrow>
         (\<forall>j. length (candidatesOf rs j) \<le> 3)
         \<and> unat (rs_u32ReceivedPacketCount rs) = card {n. n < slotCount rs \<and> packetAt rs n \<noteq> None}
         \<and> rs_u32ReceivedPacketCount rs \<le> prm_u32TotalPacketCount (rs_prm rs))"
proof (intro conjI allI)
  have ok: "runtime_ok ssl rt" unfolding rt by (rule runtime_history_ok [OF ops])
  then show "length (rt_deqDatagrams rt) \<le> 8192" by (simp add: runtime_ok_def MAX_QUEUED_DATAGRAMS_def)
  fix k
  show "case findState rt k of None \<Rightarrow> True | Some rs \<Rightarrow> (\<forall>j. length (candidatesOf rs j) \<le> 3)
      \<and> unat (rs_u32ReceivedPacketCount rs) = card {n. n < slotCount rs \<and> packetAt rs n \<noteq> None}
      \<and> rs_u32ReceivedPacketCount rs \<le> prm_u32TotalPacketCount (rs_prm rs)"
  proof (cases "findState rt k")
    case (Some rs)
    then have rs: "receiver_ok ssl rs" using runtime_ok_find [OF ok] by blast
    have "length (candidatesOf rs j) \<le> 3" for j
    proof -
      have "length (candidatesOf rs j) < 4"
        using rs by (simp add: receiver_ok_def candidates_ok_def MAX_CANDIDATE_VERSIONS_PER_PACKET_def)
      then show ?thesis by linarith
    qed
    moreover have "unat (rs_u32ReceivedPacketCount rs) = card {n. n < slotCount rs \<and> packetAt rs n \<noteq> None}"
      using rs by (simp add: receiver_ok_def base_ok_def slots_ok_def)
    moreover have "rs_u32ReceivedPacketCount rs \<le> prm_u32TotalPacketCount (rs_prm rs)"
      by (rule received_le_total [OF rs])
    ultimately show ?thesis using Some by simp
  qed simp
qed

theorem receiver_bounds_witness: "length (rt_deqDatagrams (one_run 2)) \<le> 8192"
  using receiver_bounds [OF one_calls_round(2) one_run_start] by blast

text \<open>C36. Every receiver of a reachable runtime is well formed: it has no slots, and is not active,
  or one slot per packet of its round and the unused slot 0; a slot holds a packet of its own index
  and interval; every key it knows is of an interval of the round and hashes to the commitment.\<close>

theorem receiver_well_formed:
  assumes ops: "list_all (built_op \<circ> snd) ops"
    and rs: "findState (run_ops (timed_step ssl obs) ops new_receiver_runtime) k = Some rs"
  shows "(slotCount rs = 0 \<and> \<not> rs_bActive rs \<or> slotCount rs = unat (prm_u32TotalPacketCount (rs_prm rs)) + 1)
    \<and> (\<forall>n < slotCount rs. \<forall>d. packetAt rs n = Some d \<longrightarrow> n \<noteq> 0 \<and> unat (ud_u32PacketIndex d) = n
         \<and> ud_u32IntervalIndex d = slotInterval (rs_prm rs) n)
    \<and> (\<forall>i key. rs_mapDisclosedKeys rs i = Some key \<longrightarrow>
         1 \<le> unat i \<and> unat i \<le> prm_nDataIntervalCount (rs_prm rs)
         \<and> hashTimes (rs_crp ssl rs) (unat i) key = Inr (rcv_digCommitmentKey (rs_ctxContext rs)))"
  using runtime_ok_find [OF runtime_history_ok [OF ops] rs]
  by (simp add: receiver_ok_def base_ok_def slots_ok_def keys_ok_def)

theorem receiver_well_formed_witness:
  "\<exists>rs. findState (one_run 2) one_key = Some rs \<and> slotCount rs = unat (prm_u32TotalPacketCount (rs_prm rs)) + 1"
proof -
  obtain rs where rs: "findState (one_run 2) one_key = Some rs" "slotCount rs = 2"
    using one_atD [OF one_start(3)] by blast
  from receiver_well_formed [OF one_calls_round(2) rs(1) [unfolded one_run_start]] rs show ?thesis by auto
qed

end
