(* ===== verification/SenderBuild.thy ===== *)
theory SenderBuild
  imports ReceiverSafety
begin

text \<open>
  The datagrams of a round as the sender builds them before it starts: \<open>buildDatagrams\<close> and
  \<open>validateScheduling\<close> of \<open>AuthenticationSenderRuntime.cpp\<close>. The lemmas: what each datagram of an
  interval decodes to, that a receiver that holds the packets of an interval and its key passes
  them all, and that a round whose disclosure delay exceeds its data intervals cannot be built.
\<close>

section \<open>The workload\<close>

datatype sender_workload =
    TextSenderWorkload text_workload
  | FileSenderWorkload file_workload

fun arrWorkloadMessage :: "sender_workload \<Rightarrow> u32 \<Rightarrow> block result" where
  "arrWorkloadMessage (TextSenderWorkload wrk) j = text_arrMessage wrk j"
| "arrWorkloadMessage (FileSenderWorkload wrk) j = file_arrMessage wrk j"

fun u32WorkloadPacketCount :: "sender_workload \<Rightarrow> u32" where
  "u32WorkloadPacketCount (TextSenderWorkload wrk) = m_u32TextPacketCount wrk"
| "u32WorkloadPacketCount (FileSenderWorkload wrk) = m_u32FilePacketCount wrk"

fun bTextWorkload :: "sender_workload \<Rightarrow> bool" where
  "bTextWorkload (TextSenderWorkload _) = True"
| "bTextWorkload (FileSenderWorkload _) = False"

section \<open>The packets of an interval\<close>

record interval_datagrams =
  int_vecDatagrams :: "byte list list"
  int_u32DataPacketCount :: u32

definition no_datagrams :: interval_datagrams where
  "no_datagrams = \<lparr>int_vecDatagrams = [], int_u32DataPacketCount = 0\<rparr>"

definition snd_prm :: "sender_context \<Rightarrow> round_parameters" where
  "snd_prm ctx = mat_prmRoundParameters (snd_matMaterial ctx)"

definition workloadSlot :: "sender_context \<Rightarrow> sender_workload \<Rightarrow> u32 \<Rightarrow> u32 \<Rightarrow> pkt_input option result" where
  "workloadSlot ctx load i j =
     andThen (arrWorkloadMessage load j) (\<lambda>arrMessage.
     andThen (mkAuthenticationPacketInput (mat_strSenderId (snd_matMaterial ctx))
         (mat_u64ChainId (snd_matMaterial ctx)) i j arrMessage) (\<lambda>pkt. Inr (Some pkt)))"

definition grpCreate :: "sender_context \<Rightarrow> sender_workload \<Rightarrow> u32 \<Rightarrow> u32 \<Rightarrow> u32 \<Rightarrow> u32 \<Rightarrow> grp_input result" where
  "grpCreate ctx load i u32Group u32First u32Last =
     andThen (mapE (workloadSlot ctx load i) (indexRange u32First u32Last)) (\<lambda>vecSlots.
       mkAuthenticationGroupInput (mat_strSenderId (snd_matMaterial ctx)) (mat_u64ChainId (snd_matMaterial ctx))
         i u32Group u32First vecSlots)"

text \<open>\<open>f\<close> is the first packet of the interval.\<close>

definition optDisclosureForPacket :: "sender_context \<Rightarrow> u32 \<Rightarrow> u32 \<Rightarrow> u32 \<Rightarrow> block option result" where
  "optDisclosureForPacket ctx i j f =
     (let u32Delay = prm_u32DisclosureDelay (snd_prm ctx) in
      if j \<noteq> f \<or> i \<le> u32Delay then Inr None
      else andThen (digDataKey (snd_keyChain ctx) (unat (i - u32Delay))) (\<lambda>key. Inr (Some key)))"

definition vecEncodeDataPacket :: "sender_context \<Rightarrow> sender_workload \<Rightarrow> udp_context \<Rightarrow> u32 \<Rightarrow> u32 \<Rightarrow> u32
    \<Rightarrow> udp_auth \<Rightarrow> byte list result" where
  "vecEncodeDataPacket ctx load uctx i f j auth =
     andThen (arrWorkloadMessage load j) (\<lambda>arrMessage.
     andThen (optDisclosureForPacket ctx i j f) (\<lambda>optKey.
     andThen (mkUdpDataPacket (mat_u64ChainId (snd_matMaterial ctx)) i j arrMessage optKey auth) (\<lambda>d.
       udp_vecEncode (UdpData d) uctx)))"

definition nativeDatagram :: "sender_context \<Rightarrow> sender_workload \<Rightarrow> udp_context \<Rightarrow> u32 \<Rightarrow> u32 \<Rightarrow> block option list
    \<Rightarrow> u32 \<Rightarrow> byte list result" where
  "nativeDatagram ctx load uctx i u32First macs j =
     andThen (optValue (macs ! unat (j - u32First))) (\<lambda>digMac.
       vecEncodeDataPacket ctx load uctx i u32First j (NativeUdpDetails digMac))"

definition buildNativeInterval :: "sender_context \<Rightarrow> sender_workload \<Rightarrow> crypto_provider \<Rightarrow> udp_context
    \<Rightarrow> u32 \<Rightarrow> u32 \<Rightarrow> u32 \<Rightarrow> byte list list result" where
  "buildNativeInterval ctx load crp uctx i u32First u32Last =
     andThen (grpCreate ctx load i i u32First u32Last) (\<lambda>grpInterval.
     andThen (digDataKey (snd_keyChain ctx) (unat i)) (\<lambda>key.
     andThen (native_create crp grpInterval key) (\<lambda>det.
       case det of
         NativeAuthenticationDetails macs \<Rightarrow>
           mapE (nativeDatagram ctx load uctx i u32First macs) (indexRange u32First u32Last)
       | ImprovedAuthenticationDetails _ _ \<Rightarrow> Inl (LogicError ''bad variant access''))))"

definition groupDetails :: "u32 \<Rightarrow> u32 \<Rightarrow> block list \<Rightarrow> block option \<Rightarrow> udp_auth result" where
  "groupDetails j u32GroupLast taus optTag =
     (if j = u32GroupLast
      then andThen (optValue optTag) (\<lambda>tag.
           andThen (mkImprovedUdpGroupDetails taus tag) (\<lambda>g. Inr (ImprovedUdpDetails (Some g))))
      else Inr (ImprovedUdpDetails None))"

definition buildGroup :: "sender_context \<Rightarrow> sender_workload \<Rightarrow> crypto_provider \<Rightarrow> ksrs_matrix \<Rightarrow> udp_context
    \<Rightarrow> u32 \<Rightarrow> u32 \<Rightarrow> u32 \<Rightarrow> u32 \<times> u32 \<Rightarrow> byte list list result" where
  "buildGroup ctx load crp mat uctx u32GroupSize i u32First = (\<lambda>(u32GroupFirst, u32GroupLast).
     andThen (grpCreate ctx load i ((u32GroupFirst - 1) div u32GroupSize + 1) u32GroupFirst u32GroupLast) (\<lambda>grp.
     andThen (digDataKey (snd_keyChain ctx) (unat i)) (\<lambda>key.
     andThen (improved_create crp mat grp key) (\<lambda>det.
       case det of
         ImprovedAuthenticationDetails taus optTag \<Rightarrow>
           mapE (\<lambda>j. andThen (groupDetails j u32GroupLast taus optTag)
               (vecEncodeDataPacket ctx load uctx i u32First j))
             (indexRange u32GroupFirst u32GroupLast)
       | NativeAuthenticationDetails _ \<Rightarrow> Inl (LogicError ''bad variant access'')))))"

definition buildImprovedInterval :: "sender_context \<Rightarrow> sender_workload \<Rightarrow> crypto_provider \<Rightarrow> udp_context
    \<Rightarrow> u32 \<Rightarrow> u32 \<Rightarrow> u32 \<Rightarrow> byte list list result" where
  "buildImprovedInterval ctx load crp uctx i u32First u32Last =
     andThen (optParameters (snd_prm ctx)) (\<lambda>imp.
     andThen (mkImprovedTeslaStrategy (unat (imp_u32GroupSize imp)) (unat (imp_u32DetectionThreshold imp))) (\<lambda>mat.
     andThen (mapE (buildGroup ctx load crp mat uctx (imp_u32GroupSize imp) i u32First)
         (groupBounds (Suc (unat u32Last) - unat u32First) (imp_u32GroupSize imp) u32Last u32First)) (\<lambda>vecGroups.
       Inr (concat vecGroups))))"

definition buildDataInterval :: "sender_context \<Rightarrow> sender_workload \<Rightarrow> crypto_provider \<Rightarrow> udp_context
    \<Rightarrow> u32 \<Rightarrow> interval_datagrams result" where
  "buildDataInterval ctx load crp uctx i =
     (let u32First = intervalFirst (snd_prm ctx) i; u32Last = intervalLast (snd_prm ctx) i in
      andThen ((if prm_modeAuthentication (snd_prm ctx) = ModeNative
          then buildNativeInterval else buildImprovedInterval) ctx load crp uctx i u32First u32Last) (\<lambda>vecDatagrams.
        Inr \<lparr>int_vecDatagrams = vecDatagrams, int_u32DataPacketCount = u32Last - u32First + 1\<rparr>))"

section \<open>The datagrams of a round\<close>

definition buildTail :: "sender_context \<Rightarrow> udp_context \<Rightarrow> u32 \<Rightarrow> interval_datagrams result" where
  "buildTail ctx uctx u32LogicalInterval =
     (let u32DisclosedKeyIndex = u32LogicalInterval - prm_u32DisclosureDelay (snd_prm ctx) in
      andThen (digDataKey (snd_keyChain ctx) (unat u32DisclosedKeyIndex)) (\<lambda>key.
      andThen (mkUdpDisclosurePacket (mat_u64ChainId (snd_matMaterial ctx)) u32LogicalInterval key) (\<lambda>d.
      andThen (udp_vecEncode (UdpDisclosure d) uctx) (\<lambda>vecDatagram.
        Inr \<lparr>int_vecDatagrams = [vecDatagram], int_u32DataPacketCount = 0\<rparr>))))"

text \<open>Interval \<open>k\<close> is at index \<open>k\<close>, after an empty one.\<close>

definition buildDatagrams :: "'g openssl \<Rightarrow> sender_context \<Rightarrow> sender_workload \<Rightarrow> interval_datagrams list result"
where
  "buildDatagrams ssl ctx load =
     (let prm = snd_prm ctx; u32DataIntervalCount = of_nat (prm_nDataIntervalCount prm) :: u32;
          u32TotalLogicalIntervals = u32DataIntervalCount + prm_u32DisclosureDelay prm;
          crp = OpenSslCryptoProvider ssl (prm_algCryptoAlgorithm prm) in
      andThen (ctxCreatePacketContext prm) (\<lambda>uctx.
      andThen (mapE (buildDataInterval ctx load crp uctx) (indexRange 1 u32DataIntervalCount)) (\<lambda>vecData.
      andThen (mapE (buildTail ctx uctx) (indexRange (u32DataIntervalCount + 1) u32TotalLogicalIntervals)) (\<lambda>vecTail.
        Inr (no_datagrams # vecData @ vecTail)))))"

text \<open>Durations in nanoseconds; the measured generation time is an argument.\<close>

definition validateScheduling :: "round_parameters \<Rightarrow> interval_datagrams list \<Rightarrow> int \<Rightarrow> unit result" where
  "validateScheduling prm vecIntervals durWorstGeneration =
     (let durInterval = int (unat (prm_u32IntervalMilliseconds prm)) * 1000000;
          durSafetyMargin = max 1000000 (durInterval div 10);
          nWorstDatagramCount = fold (\<lambda>ivl n. max n (length (int_vecDatagrams ivl))) (tl vecIntervals) 0;
          durSendBudget = 250000 * int nWorstDatagramCount
      in if durWorstGeneration + durSendBudget + durSafetyMargin \<ge> durInterval
         then Inl (InvalidArgument
           ''Authentication schedule cannot fit measured generation, send budget and safety margin'')
         else Inr ())"

section \<open>What the datagrams decode to\<close>

text \<open>
  The key due in packet \<open>j\<close> of interval \<open>i\<close>, whose first packet is \<open>f\<close>: the data key of the interval
  the disclosure delay before \<open>i\<close>, in the first packet of every interval that has such a one, and
  nothing in the others.
\<close>

definition dueKey :: "sender_context \<Rightarrow> u32 \<Rightarrow> u32 \<Rightarrow> u32 \<Rightarrow> block option \<Rightarrow> bool" where
  "dueKey ctx i j f optKey \<longleftrightarrow>
     (let n = unat i; d = unat (prm_u32DisclosureDelay (snd_prm ctx))
      in if j = f \<and> d < n then (\<exists>key. optKey = Some key \<and> digDataKey (snd_keyChain ctx) (n - d) = Inr key)
         else optKey = None)"

lemma optDisclosureForPacket_due:
  "optDisclosureForPacket ctx i j f = Inr optKey \<Longrightarrow> dueKey ctx i j f optKey"
  by (auto simp: optDisclosureForPacket_def dueKey_def Let_def andThen_Inr_iff word_le_nat_alt word_less_nat_alt
      unat_sub not_le split: if_splits)

definition carriesData :: "sender_context \<Rightarrow> sender_workload \<Rightarrow> udp_context \<Rightarrow> u32 \<Rightarrow> u32 \<Rightarrow> u32 \<Rightarrow> udp_auth
    \<Rightarrow> byte list \<Rightarrow> bool" where
  "carriesData ctx load uctx i f j auth bs \<longleftrightarrow>
     (\<exists>d. udp_resDecode bs uctx = Inr (Inr (UdpData d)) \<and> ud_u64ChainId d = mat_u64ChainId (snd_matMaterial ctx)
        \<and> ud_u32IntervalIndex d = i \<and> ud_u32PacketIndex d = j
        \<and> arrWorkloadMessage load j = Inr (ud_arrMessage d)
        \<and> dueKey ctx i j f (ud_optDisclosedKey d)
        \<and> ud_varAuthenticationDetails d = auth)"

lemma vecEncodeDataPacket_carries:
  assumes "vecEncodeDataPacket ctx load uctx i f j auth = Inr bs"
    and "\<And>g. auth = ImprovedUdpDetails (Some g) \<Longrightarrow> ugd_vecSamdTau g \<noteq> []"
  shows "carriesData ctx load uctx i f j auth bs"
proof -
  obtain msg key d where m: "arrWorkloadMessage load j = Inr msg" "optDisclosureForPacket ctx i j f = Inr key"
    and d: "mkUdpDataPacket (mat_u64ChainId (snd_matMaterial ctx)) i j msg key auth = Inr d"
    and e: "udp_vecEncode (UdpData d) uctx = Inr bs"
    using assms(1) by (auto simp: vecEncodeDataPacket_def andThen_Inr_iff)
  have d': "d = \<lparr>ud_u64ChainId = mat_u64ChainId (snd_matMaterial ctx), ud_u32IntervalIndex = i,
      ud_u32PacketIndex = j, ud_arrMessage = msg, ud_optDisclosedKey = key, ud_varAuthenticationDetails = auth\<rparr>"
    and ok: "packet_ok (UdpData d)"
    using d assms(2) by (auto simp: mkUdpDataPacket_def split: if_splits udp_auth.splits option.splits)
  from ok e have "udp_resDecode bs uctx = Inr (Inr (UdpData d))" by (simp add: udp.accepts_iff)
  with m(1) optDisclosureForPacket_due [OF m(2)] show ?thesis
    unfolding carriesData_def by (intro exI [of _ d]) (simp add: d')
qed

lemma groupDetails_ok:
  assumes "groupDetails j l taus (Some tag) = Inr auth"
  shows "auth = ImprovedUdpDetails (if j = l then Some \<lparr>ugd_vecSamdTau = taus, ugd_arrFastGroupTag = tag\<rparr> else None)"
    "j = l \<Longrightarrow> taus \<noteq> []"
  using assms by (auto simp: groupDetails_def optValue_def mkImprovedUdpGroupDetails_def split: if_splits)

text \<open>A Native interval: each packet with its MAC.\<close>

lemma buildNativeInterval_ok:
  assumes "buildNativeInterval ctx load crp uctx i a b = Inr bss"
  obtains grp key macs where "grpCreate ctx load i i a b = Inr grp" "digDataKey (snd_keyChain ctx) (unat i) = Inr key"
    "native_create crp grp key = Inr (NativeAuthenticationDetails macs)" "length macs = length (indexRange a b)"
    "length bss = length (indexRange a b)"
    "\<And>k. k < length bss \<Longrightarrow> \<exists>mac. macs ! k = Some mac
       \<and> carriesData ctx load uctx i a (indexRange a b ! k) (NativeUdpDetails mac) (bss ! k)"
proof -
  obtain grp key det where g: "grpCreate ctx load i i a b = Inr grp" "digDataKey (snd_keyChain ctx) (unat i) = Inr key"
    and c: "native_create crp grp key = Inr det"
    and m: "(case det of
         NativeAuthenticationDetails macs \<Rightarrow> mapE (nativeDatagram ctx load uctx i a macs) (indexRange a b)
       | ImprovedAuthenticationDetails _ _ \<Rightarrow> Inl (LogicError ''bad variant access'')) = Inr bss"
    using assms by (auto simp: buildNativeInterval_def andThen_Inr_iff)
  obtain macs where det: "det = NativeAuthenticationDetails macs" "length macs = length (grp_vecPacketSlots grp)"
    using native_create_ok [OF c] by metis
  with m have bss: "mapE (nativeDatagram ctx load uctx i a macs) (indexRange a b) = Inr bss" by simp
  have "length (grp_vecPacketSlots grp) = length (indexRange a b)"
    using g(1) by (auto simp: grpCreate_def andThen_Inr_iff mkAuthenticationGroupInput_Inr dest: mapE_length)
  moreover have "\<exists>mac. macs ! k = Some mac
       \<and> carriesData ctx load uctx i a (indexRange a b ! k) (NativeUdpDetails mac) (bss ! k)"
    if "k < length bss" for k
  proof -
    have k: "k < length (indexRange a b)" using that mapE_length [OF bss] by simp
    have "unat (indexRange a b ! k - a) = k"
      using indexRange_nth(1,2) [OF k] unat_lt_u32 [of "indexRange a b ! k"] by (simp add: unat_of_nat)
    with mapE_nth [OF bss k] obtain mac where "macs ! k = Some mac"
      "vecEncodeDataPacket ctx load uctx i a (indexRange a b ! k) (NativeUdpDetails mac) = Inr (bss ! k)"
      by (auto simp: nativeDatagram_def andThen_Inr_iff optValue_def split: option.splits)
    then show ?thesis by (auto intro: vecEncodeDataPacket_carries)
  qed
  ultimately show thesis using that [OF g] c det mapE_length [OF bss] by simp
qed

text \<open>A group of Improved TESLA: its last packet carries the tags.\<close>

lemma buildGroup_ok:
  assumes "buildGroup ctx load crp mat uctx gs i f (a, b) = Inr bss"
  obtains grp key taus tag where "grpCreate ctx load i ((a - 1) div gs + 1) a b = Inr grp"
    "digDataKey (snd_keyChain ctx) (unat i) = Inr key"
    "improved_create crp mat grp key = Inr (ImprovedAuthenticationDetails taus (Some tag))"
    "length bss = length (indexRange a b)"
    "\<And>k. k < length bss \<Longrightarrow> carriesData ctx load uctx i f (indexRange a b ! k)
       (ImprovedUdpDetails (if indexRange a b ! k = b
          then Some \<lparr>ugd_vecSamdTau = taus, ugd_arrFastGroupTag = tag\<rparr> else None)) (bss ! k)"
proof -
  obtain grp key det where g: "grpCreate ctx load i ((a - 1) div gs + 1) a b = Inr grp"
    "digDataKey (snd_keyChain ctx) (unat i) = Inr key"
    and c: "improved_create crp mat grp key = Inr det"
    and m: "(case det of
         ImprovedAuthenticationDetails taus optTag \<Rightarrow>
           mapE (\<lambda>j. andThen (groupDetails j b taus optTag) (vecEncodeDataPacket ctx load uctx i f j))
             (indexRange a b)
       | NativeAuthenticationDetails _ \<Rightarrow> Inl (LogicError ''bad variant access'')) = Inr bss"
    using assms by (auto simp: buildGroup_def andThen_Inr_iff)
  obtain taus tag where det: "det = ImprovedAuthenticationDetails taus (Some tag)"
    using improved_create_ok [OF c] by metis
  with m have bss: "mapE (\<lambda>j. andThen (groupDetails j b taus (Some tag)) (vecEncodeDataPacket ctx load uctx i f j))
      (indexRange a b) = Inr bss" by simp
  have "carriesData ctx load uctx i f (indexRange a b ! k)
       (ImprovedUdpDetails (if indexRange a b ! k = b
          then Some \<lparr>ugd_vecSamdTau = taus, ugd_arrFastGroupTag = tag\<rparr> else None)) (bss ! k)"
    if "k < length bss" for k
  proof -
    let ?j = "indexRange a b ! k"
    have "k < length (indexRange a b)" using that mapE_length [OF bss] by simp
    from mapE_nth [OF bss this] obtain auth where "groupDetails ?j b taus (Some tag) = Inr auth"
      "vecEncodeDataPacket ctx load uctx i f ?j auth = Inr (bss ! k)" by (auto simp: andThen_Inr_iff)
    note D = groupDetails_ok [OF this(1)] and E = this(2)
    have "carriesData ctx load uctx i f ?j auth (bss ! k)"
      by (rule vecEncodeDataPacket_carries [OF E]) (use D in \<open>auto split: if_splits\<close>)
    then show ?thesis unfolding D(1) .
  qed
  with that [OF g] c det mapE_length [OF bss] show thesis by simp
qed

section \<open>An interval\<close>

lemma list_all2_concat:
  "list_all2 (\<lambda>x ys. list_all2 P (f x) ys) xs yss \<Longrightarrow> list_all2 P (concat (map f xs)) (concat yss)"
  by (induction rule: list_all2_induct) (auto intro: list_all2_appendI)

lemma indexRange_groups:
  assumes "concat (map (\<lambda>(x, y). [unat x..<Suc (unat y)]) bounds) = [unat a..<Suc (unat b)]"
  shows "concat (map (\<lambda>(x, y). indexRange x y) bounds) = indexRange a b"
proof -
  have "map of_nat (concat (map (\<lambda>(x, y). [unat x..<Suc (unat y)]) bounds))
      = concat (map (\<lambda>(x, y). indexRange x y) bounds)"
    unfolding map_concat map_map by (rule arg_cong [of _ _ concat]) (auto simp: indexRange_def)
  then show ?thesis using assms by (simp add: indexRange_def)
qed

text \<open>The groups of an interval, as built.\<close>

lemma buildImprovedInterval_ok:
  assumes "buildImprovedInterval ctx load crp uctx i a b = Inr bss"
  obtains imp mat vecGroups where "prm_optImprovedParameters (snd_prm ctx) = Some imp" "imp_u32GroupSize imp \<noteq> 0"
    "mkImprovedTeslaStrategy (unat (imp_u32GroupSize imp)) (unat (imp_u32DetectionThreshold imp)) = Inr mat"
    "list_all2 (\<lambda>g bs. buildGroup ctx load crp mat uctx (imp_u32GroupSize imp) i a g = Inr bs)
       (groupBounds (Suc (unat b) - unat a) (imp_u32GroupSize imp) b a) vecGroups"
    "bss = concat vecGroups"
proof -
  obtain imp mat vecGroups where *: "optParameters (snd_prm ctx) = Inr imp"
    "mkImprovedTeslaStrategy (unat (imp_u32GroupSize imp)) (unat (imp_u32DetectionThreshold imp)) = Inr mat"
    "mapE (buildGroup ctx load crp mat uctx (imp_u32GroupSize imp) i a)
      (groupBounds (Suc (unat b) - unat a) (imp_u32GroupSize imp) b a) = Inr vecGroups" "bss = concat vecGroups"
    using assms by (auto simp: buildImprovedInterval_def andThen_Inr_iff)
  have "imp_u32GroupSize imp \<noteq> 0" using *(2) mkImprovedTeslaStrategy_positive by auto
  with * that show thesis by (auto simp: optParameters_def optValue_def mapE_Inr_iff split: option.splits)
qed

definition carriesInterval :: "sender_context \<Rightarrow> sender_workload \<Rightarrow> udp_context \<Rightarrow> u32 \<Rightarrow> byte list list \<Rightarrow> bool"
where
  "carriesInterval ctx load uctx i bss \<longleftrightarrow>
     list_all2 (\<lambda>j bs. \<exists>auth. carriesData ctx load uctx i (intervalFirst (snd_prm ctx) i) j auth bs)
       (indexRange (intervalFirst (snd_prm ctx) i) (intervalLast (snd_prm ctx) i)) bss"

lemma buildDataInterval_carries:
  assumes prm: "prm_ok (snd_prm ctx)" "1 \<le> unat i" "unat i \<le> prm_nDataIntervalCount (snd_prm ctx)"
    and ivl: "buildDataInterval ctx load crp uctx i = Inr ivl"
  shows "carriesInterval ctx load uctx i (int_vecDatagrams ivl)"
proof -
  let ?a = "intervalFirst (snd_prm ctx) i" and ?b = "intervalLast (snd_prm ctx) i"
  let ?P = "\<lambda>j bs. \<exists>auth. carriesData ctx load uctx i ?a j auth bs"
  show ?thesis
  proof (cases "prm_modeAuthentication (snd_prm ctx) = ModeNative")
    case True
    with ivl have "buildNativeInterval ctx load crp uctx i ?a ?b = Inr (int_vecDatagrams ivl)"
      by (auto simp: buildDataInterval_def Let_def andThen_Inr_iff)
    then show ?thesis
      unfolding carriesInterval_def
      by (rule buildNativeInterval_ok) (auto simp: list_all2_conv_all_nth)
  next
    case False
    with ivl have "buildImprovedInterval ctx load crp uctx i ?a ?b = Inr (int_vecDatagrams ivl)"
      by (auto simp: buildDataInterval_def Let_def andThen_Inr_iff)
    then obtain imp mat vecGroups where
      imp: "prm_optImprovedParameters (snd_prm ctx) = Some imp" "imp_u32GroupSize imp \<noteq> 0"
      and g: "list_all2 (\<lambda>g bs. buildGroup ctx load crp mat uctx (imp_u32GroupSize imp) i ?a g = Inr bs)
        (groupBounds (Suc (unat ?b) - unat ?a) (imp_u32GroupSize imp) ?b ?a) vecGroups"
      and bss: "int_vecDatagrams ivl = concat vecGroups"
      by (rule buildImprovedInterval_ok)
    have "list_all2 ?P (indexRange x y) bs"
      if "buildGroup ctx load crp mat uctx (imp_u32GroupSize imp) i ?a (x, y) = Inr bs" for x y bs
      using that by (rule buildGroup_ok) (auto simp: list_all2_conv_all_nth)
    with g have "list_all2 (\<lambda>g bs. list_all2 ?P ((\<lambda>(x, y). indexRange x y) g) bs)
        (groupBounds (Suc (unat ?b) - unat ?a) (imp_u32GroupSize imp) ?b ?a) vecGroups"
      by (auto elim!: list_all2_mono)
    from list_all2_concat [OF this] show ?thesis
      unfolding carriesInterval_def bss indexRange_groups [OF interval_groups [OF prm imp]] .
  qed
qed

section \<open>A round\<close>

definition carriesKey :: "sender_context \<Rightarrow> udp_context \<Rightarrow> nat \<Rightarrow> u32 \<Rightarrow> byte list list \<Rightarrow> bool" where
  "carriesKey ctx uctx n u32Logical bss \<longleftrightarrow>
     (\<exists>bs key. bss = [bs] \<and> digDataKey (snd_keyChain ctx) n = Inr key
        \<and> udp_resDecode bs uctx = Inr (Inr (UdpDisclosure \<lparr>udis_u64ChainId = mat_u64ChainId (snd_matMaterial ctx),
            udis_u32IntervalIndex = u32Logical, udis_arrDisclosedKey = key\<rparr>)))"

lemma buildTail_carries:
  assumes "buildTail ctx uctx l = Inr ivl"
  shows "carriesKey ctx uctx (unat (l - prm_u32DisclosureDelay (snd_prm ctx))) l (int_vecDatagrams ivl)"
proof -
  obtain key d bs where k: "digDataKey (snd_keyChain ctx) (unat (l - prm_u32DisclosureDelay (snd_prm ctx))) = Inr key"
    and d: "mkUdpDisclosurePacket (mat_u64ChainId (snd_matMaterial ctx)) l key = Inr d"
    and e: "udp_vecEncode (UdpDisclosure d) uctx = Inr bs" and ivl: "int_vecDatagrams ivl = [bs]"
    using assms by (auto simp: buildTail_def Let_def andThen_Inr_iff)
  have "d = \<lparr>udis_u64ChainId = mat_u64ChainId (snd_matMaterial ctx), udis_u32IntervalIndex = l,
      udis_arrDisclosedKey = key\<rparr>" and "packet_ok (UdpDisclosure d)"
    using d by (auto simp: mkUdpDisclosurePacket_def split: if_splits)
  with k e ivl show ?thesis by (simp add: carriesKey_def udp.accepts_iff)
qed

lemma ctxCreatePacketContext_ok:
  assumes "ctxCreatePacketContext prm = Inr uctx"
  shows "context_ok uctx" "ctx_u32DisclosureDelay uctx = prm_u32DisclosureDelay prm"
    "ctx_u32TotalPacketCount uctx = prm_u32TotalPacketCount prm"
    "ctx_u32PacketsPerInterval uctx = prm_u32PacketsPerInterval prm"
  using assms by (auto simp: ctxCreatePacketContext_def andThen_Inr_iff mkUdpContext_Inr split: if_splits)

lemma round_lengths:
  assumes prm: "prm_ok prm" and ctx: "ctxCreatePacketContext prm = Inr uctx"
  defines "n \<equiv> prm_nDataIntervalCount prm" and "d \<equiv> unat (prm_u32DisclosureDelay prm)"
  shows "unat (of_nat n :: u32) = n" "n + d < 2 ^ 32" "0 < n" "0 < d"
    "unat (of_nat n + prm_u32DisclosureDelay prm :: u32) = n + d"
proof -
  have "final_interval uctx = n"
    using prm ctxCreatePacketContext_ok(3,4) [OF ctx] by (simp add: final_interval_def prm_ok_def n_def)
  then have le: "d + n \<le> U32_MAX" and d: "prm_u32DisclosureDelay prm \<noteq> 0"
    using ctxCreatePacketContext_ok(1,2) [OF ctx] by (simp_all add: context_ok_def d_def)
  show n: "unat (of_nat n :: u32) = n" using unat_interval_index [OF prm, of n] by (simp add: n_def)
  show lt: "n + d < 2 ^ 32" using le by (simp add: U32_MAX_def)
  show "0 < n" using prm by (simp add: prm_ok_def n_def)
  show "0 < d" using d by (simp add: d_def unat_gt_0)
  show "unat (of_nat n + prm_u32DisclosureDelay prm :: u32) = n + d"
    using n lt unat_add_lem [of "of_nat n :: u32" "prm_u32DisclosureDelay prm"] by (simp add: d_def)
qed

lemma buildDatagrams_ok:
  assumes prm: "prm_ok (snd_prm ctx)" and ints: "buildDatagrams ssl ctx load = Inr ints"
  defines "n \<equiv> prm_nDataIntervalCount (snd_prm ctx)" and "d \<equiv> unat (prm_u32DisclosureDelay (snd_prm ctx))"
  obtains uctx where "ctxCreatePacketContext (snd_prm ctx) = Inr uctx" "length ints = n + d + 1" "ints ! 0 = no_datagrams"
    "\<And>i. 1 \<le> i \<Longrightarrow> i \<le> n \<Longrightarrow> buildDataInterval ctx load
       (OpenSslCryptoProvider ssl (prm_algCryptoAlgorithm (snd_prm ctx))) uctx (of_nat i) = Inr (ints ! i)"
    "\<And>l. n < l \<Longrightarrow> l \<le> n + d \<Longrightarrow> buildTail ctx uctx (of_nat l) = Inr (ints ! l)"
proof -
  let ?crp = "OpenSslCryptoProvider ssl (prm_algCryptoAlgorithm (snd_prm ctx))"
  let ?n = "of_nat n :: u32" and ?t = "of_nat n + prm_u32DisclosureDelay (snd_prm ctx) :: u32"
  obtain uctx vecData vecTail where u: "ctxCreatePacketContext (snd_prm ctx) = Inr uctx"
    and dat: "mapE (buildDataInterval ctx load ?crp uctx) (indexRange 1 ?n) = Inr vecData"
    and tail: "mapE (buildTail ctx uctx) (indexRange (?n + 1) ?t) = Inr vecTail"
    and ints': "ints = no_datagrams # vecData @ vecTail"
    using ints by (auto simp: buildDatagrams_def Let_def n_def andThen_Inr_iff)
  note L = round_lengths [OF prm u, folded n_def d_def]
  have n1: "unat (?n + 1) = n + 1" using L(1,2,4) by (simp add: unat_Suc_no_wrap)
  have ld: "length vecData = n" using mapE_length [OF dat] L(1) by (simp add: length_indexRange)
  have lt: "length vecTail = d" using mapE_length [OF tail] L(5) n1 by (simp add: length_indexRange)
  show thesis
  proof (rule that [OF u])
    show "length ints = n + d + 1" using ints' ld lt by simp
    show "ints ! 0 = no_datagrams" by (simp add: ints')
    show "buildDataInterval ctx load ?crp uctx (of_nat i) = Inr (ints ! i)" if "1 \<le> i" "i \<le> n" for i
    proof -
      have "i - 1 < length (indexRange 1 ?n)" using that L(1) by (simp add: length_indexRange)
      from mapE_nth [OF dat this] indexRange_nth(1) [OF this] that ld show ?thesis
        by (cases i) (simp_all add: ints' nth_append)
    qed
    show "buildTail ctx uctx (of_nat l) = Inr (ints ! l)" if "n < l" "l \<le> n + d" for l
    proof -
      have "l - n - 1 < length (indexRange (?n + 1) ?t)" using that L(5) n1 by (simp add: length_indexRange)
      from mapE_nth [OF tail this] indexRange_nth(1) [OF this]
      have "buildTail ctx uctx (?n + 1 + of_nat (l - n - 1)) = Inr (vecTail ! (l - n - 1))" by simp
      moreover have "?n + 1 + of_nat (l - n - 1) = (of_nat l :: u32)"
      proof -
        have "of_nat l = (of_nat (n + 1 + (l - n - 1)) :: u32)" using that by simp
        also have "\<dots> = ?n + 1 + of_nat (l - n - 1)" by (simp only: of_nat_add of_nat_1)
        finally show ?thesis by simp
      qed
      moreover have "ints ! l = vecTail ! (l - n - 1)" using that ld by (cases l) (simp_all add: ints' nth_append)
      ultimately show ?thesis by simp
    qed
  qed
qed

text \<open>The chain of a verified context has a key for every data interval.\<close>

lemma ctxCreateVerified_ok:
  assumes "ctxCreateVerified mat crp = Inr ctx"
  shows "snd_matMaterial ctx = mat" "length (m_vecKeys (snd_keyChain ctx)) = prm_nDataIntervalCount (snd_prm ctx) + 1"
proof -
  from assms obtain kc where kc: "keyCreate crp (mat_vecChainSeed mat) (prm_nDataIntervalCount (mat_prmRoundParameters mat)) = Inr kc"
    and ctx: "ctx = \<lparr>snd_matMaterial = mat, snd_keyChain = kc\<rparr>"
    by (auto simp: ctxCreateVerified_def andThen_Inr_iff split: if_splits)
  from keyCreate_ok(1) [OF kc] show "snd_matMaterial ctx = mat"
    "length (m_vecKeys (snd_keyChain ctx)) = prm_nDataIntervalCount (snd_prm ctx) + 1"
    by (simp_all add: ctx snd_prm_def)
qed

lemma mod_sum_wrap:
  fixes x y a N :: nat
  assumes "(x + y) mod N = a" "x < N" "y < N" "a < y"
  shows "x + y = a + N"
proof -
  have ge: "N \<le> x + y" using assms(1,4) by (metis mod_less not_le_imp_less not_less trans_le_add2 nat_less_le)
  then have "(x + y) mod N = x + y - N" using assms(2,3) by (simp add: le_mod_geq)
  with assms(1) ge show ?thesis by linarith
qed

lemma unat_sub_wrap:
  fixes a b :: u32
  assumes "unat a < unat b"
  shows "unat (a - b) + unat b = unat a + 2 ^ 32"
proof -
  have m: "(unat (a - b) + unat b) mod 4294967296 = unat a"
    using unat_word_ariths(1) [of "a - b" b] by simp
  show ?thesis using mod_sum_wrap [OF m unat_lt_u32 unat_lt_u32 assms] by simp
qed

text \<open>The first datagram after the data discloses key \<open>n + 1 - d\<close>; without one nothing is built.\<close>

lemma built_delay_fits:
  assumes prm: "prm_ok (snd_prm ctx)" and ints: "buildDatagrams ssl ctx load = Inr ints"
    and keys: "length (m_vecKeys (snd_keyChain ctx)) = prm_nDataIntervalCount (snd_prm ctx) + 1"
  shows "unat (prm_u32DisclosureDelay (snd_prm ctx)) \<le> prm_nDataIntervalCount (snd_prm ctx)"
proof (rule ccontr)
  let ?n = "prm_nDataIntervalCount (snd_prm ctx)" and ?w = "prm_u32DisclosureDelay (snd_prm ctx)"
  let ?d = "unat ?w" and ?l = "of_nat (Suc ?n) :: u32"
  assume "\<not> ?d \<le> ?n"
  then have nd: "?n < ?d" by simp
  obtain uctx where u: "ctxCreatePacketContext (snd_prm ctx) = Inr uctx"
    and tail: "\<And>l. ?n < l \<Longrightarrow> l \<le> ?n + ?d \<Longrightarrow> buildTail ctx uctx (of_nat l) = Inr (ints ! l)"
    using buildDatagrams_ok [OF prm ints] by metis
  note L = round_lengths [OF prm u]
  have "buildTail ctx uctx ?l = Inr (ints ! Suc ?n)" by (rule tail) (use L(3,4) in simp_all)
  then have "unat (?l - ?w) \<noteq> 0" "unat (?l - ?w) < ?n + 1"
    using keys by (auto simp: buildTail_def Let_def andThen_Inr_iff digDataKey_def split: if_splits)
  moreover have ln: "unat ?l = Suc ?n" using L(2,4) by (simp add: unat_of_nat del: of_nat_Suc)
  ultimately have w: "?l \<noteq> ?w" "?l - ?w \<noteq> 0" by (auto simp del: of_nat_Suc)
  then have lt: "unat ?l < ?d" using nd ln by (metis Suc_lessI word_unat_eq_iff)
  have "unat (?l - ?w) + ?d = unat ?l + 2 ^ 32"
    using unat_sub_wrap [OF lt] by (simp del: of_nat_Suc)
  with \<open>unat (?l - ?w) < ?n + 1\<close> ln L(2) show False by simp
qed

section \<open>At a receiver\<close>

text \<open>The receiver holds the packets of these datagrams in their slots.\<close>

definition holdsDatagrams :: "receiver_state \<Rightarrow> udp_context \<Rightarrow> byte list list \<Rightarrow> bool" where
  "holdsDatagrams rs uctx bss \<longleftrightarrow>
     (\<forall>bs \<in> set bss. \<forall>d. udp_resDecode bs uctx = Inr (Inr (UdpData d)) \<longrightarrow> packetAt rs (unat (ud_u32PacketIndex d)) = Some d)"

definition sameSource :: "sender_context \<Rightarrow> receiver_state \<Rightarrow> bool" where
  "sameSource ctx rs \<longleftrightarrow> rcv_strSenderId (rs_ctxContext rs) = mat_strSenderId (snd_matMaterial ctx)
     \<and> rcv_u64ChainId (rs_ctxContext rs) = mat_u64ChainId (snd_matMaterial ctx) \<and> rs_prm rs = snd_prm ctx"

lemma carriesData_held:
  assumes "carriesData ctx load uctx i f j auth bs" "holdsDatagrams rs uctx bss" "bs \<in> set bss" "sameSource ctx rs"
  shows "receivedSlot rs j = workloadSlot ctx load i j"
    "\<exists>d. rec_optPacket (recordAt rs j) = Some d \<and> ud_varAuthenticationDetails d = auth"
proof -
  obtain d where d: "udp_resDecode bs uctx = Inr (Inr (UdpData d))" "ud_u64ChainId d = mat_u64ChainId (snd_matMaterial ctx)"
    "ud_u32IntervalIndex d = i" "ud_u32PacketIndex d = j" "arrWorkloadMessage load j = Inr (ud_arrMessage d)"
    "ud_varAuthenticationDetails d = auth"
    using assms(1) unfolding carriesData_def by blast
  have at: "rec_optPacket (recordAt rs j) = Some d"
    using assms(2,3) d(1,4) by (auto simp: holdsDatagrams_def packetAt_def recordAt_def)
  then show "receivedSlot rs j = workloadSlot ctx load i j"
    using d assms(4) by (simp add: receivedSlot_def mapSlot_def workloadSlot_def pktMapDataPacket_def sameSource_def)
  from at d(6) show "\<exists>d. rec_optPacket (recordAt rs j) = Some d \<and> ud_varAuthenticationDetails d = auth" by blast
qed

lemma mapE_cong: "(\<And>x. x \<in> set xs \<Longrightarrow> f x = g x) \<Longrightarrow> mapE f xs = mapE g xs"
  by (induction xs) simp_all

lemma improved_verify_details:
  "improved_verify crp mat g d key b = Inr (res, ms) \<Longrightarrow> \<exists>det. m_varDetails res = ImprovedVerificationDetails det"
  by (erule improved_verify_cases)
    (auto simp: incomplete_tags_result_def fast_pass_result_def improved_fallback_def andThen_Inr_iff)

lemma same_group:
  assumes "\<And>j. j \<in> set (indexRange a b) \<Longrightarrow> receivedSlot rs j = workloadSlot ctx load i j" "sameSource ctx rs"
  shows "grpCreateReceived rs i g a b = grpCreate ctx load i g a b"
proof -
  have "mapE (receivedSlot rs) (indexRange a b) = mapE (workloadSlot ctx load i) (indexRange a b)"
    using assms(1) by (rule mapE_cong)
  moreover have "grpFromSlots rs i g a = mkAuthenticationGroupInput (mat_strSenderId (snd_matMaterial ctx))
      (mat_u64ChainId (snd_matMaterial ctx)) i g a"
    using assms(2) by (intro ext) (simp add: grpFromSlots_def sameSource_def)
  ultimately show ?thesis by (simp add: grpCreateReceived_def grpCreate_def)
qed

lemma native_interval_passes:
  assumes build: "buildNativeInterval ctx load crp uctx i a b = Inr bss"
    and key: "digDataKey (snd_keyChain ctx) (unat i) = Inr key"
    and held: "holdsDatagrams rs uctx bss" "sameSource ctx rs"
  shows "nativeVerdict crp rs i a b key = Inr (replicate (length bss) Passed)"
  using build
proof (rule buildNativeInterval_ok)
  fix grp key' macs
  assume g: "grpCreate ctx load i i a b = Inr grp" and key': "digDataKey (snd_keyChain ctx) (unat i) = Inr key'"
    and c: "native_create crp grp key' = Inr (NativeAuthenticationDetails macs)"
    and len: "length macs = length (indexRange a b)" "length bss = length (indexRange a b)"
    and carry: "\<And>k. k < length bss \<Longrightarrow> \<exists>mac. macs ! k = Some mac
       \<and> carriesData ctx load uctx i a (indexRange a b ! k) (NativeUdpDetails mac) (bss ! k)"
  have slot: "receivedSlot rs (indexRange a b ! k) = workloadSlot ctx load i (indexRange a b ! k)
      \<and> receivedMac rs (indexRange a b ! k) = macs ! k" if k: "k < length (indexRange a b)" for k
  proof -
    from carry [of k] k len obtain mac where m: "macs ! k = Some mac"
      "carriesData ctx load uctx i a (indexRange a b ! k) (NativeUdpDetails mac) (bss ! k)" by auto
    have "bss ! k \<in> set bss" using k len by simp
    note H = carriesData_held [OF m(2) held(1) this held(2)]
    from H(2) have "receivedMac rs (indexRange a b ! k) = Some mac" by (auto simp: receivedMac_def)
    with H(1) m(1) show ?thesis by simp
  qed
  have grp: "grpCreateReceived rs i i a b = Inr grp"
    using same_group [OF _ held(2), of a b load i i] slot g by (metis in_set_conv_nth)
  have macs: "map (receivedMac rs) (indexRange a b) = macs" by (rule nth_equalityI) (use len slot in auto)
  have ne: "macs \<noteq> []" using native_create_ok [OF c] by auto
  obtain res ms where v: "native_verify crp grp (NativeAuthenticationDetails macs) key' False = Inr (res, ms)"
    "m_bPassed res" "accepted res = {..<length (grp_vecPacketSlots grp)}"
    using native.round_trip [OF c, of False] by blast
  from v(1) show "nativeVerdict crp rs i a b key = Inr (replicate (length bss) Passed)"
  proof (rule native_verify_spec)
    fix macs' sts
    assume m': "NativeAuthenticationDetails macs = NativeAuthenticationDetails macs'" "length macs' = length (grp_vecPacketSlots grp)"
      and res: "res = \<lparr>m_bPassed = (\<forall>s \<in> set sts. s = Passed), m_varDetails = NativeVerificationDetails sts\<rparr>"
      and sts: "sts = map2 (native_status crp key') (grp_vecPacketSlots grp) macs'"
    have "sts = replicate (length bss) Passed"
      by (rule replicate_eqI) (use v(2) res sts m' len in auto)
    with grp macs ne v(1) res key key' show ?thesis
      by (simp add: nativeVerdict_def mkNativeAuthenticationDetails_def)
  qed
qed

lemma group_passes:
  assumes build: "buildGroup ctx load crp mat uctx gs i f (a, b) = Inr bss" and ab: "unat a \<le> unat b"
    and key: "digDataKey (snd_keyChain ctx) (unat i) = Inr key"
    and held: "holdsDatagrams rs uctx bss" "sameSource ctx rs"
  shows "\<exists>grp det. grpCreateReceived rs i ((a - 1) div gs + 1) a b = Inr grp
    \<and> improvedVerdict crp mat grp (tagsAt rs b) key = Inr (True, det)"
  using build
proof (rule buildGroup_ok)
  fix grp key' taus tag
  assume g: "grpCreate ctx load i ((a - 1) div gs + 1) a b = Inr grp" and key': "digDataKey (snd_keyChain ctx) (unat i) = Inr key'"
    and c: "improved_create crp mat grp key' = Inr (ImprovedAuthenticationDetails taus (Some tag))"
    and len: "length bss = length (indexRange a b)"
    and carry: "\<And>k. k < length bss \<Longrightarrow> carriesData ctx load uctx i f (indexRange a b ! k)
       (ImprovedUdpDetails (if indexRange a b ! k = b
          then Some \<lparr>ugd_vecSamdTau = taus, ugd_arrFastGroupTag = tag\<rparr> else None)) (bss ! k)"
  have in_bss: "bss ! k \<in> set bss" if "k < length (indexRange a b)" for k using that len by simp
  note H = carriesData_held [OF carry held(1) in_bss held(2)]
  have slot: "receivedSlot rs (indexRange a b ! k) = workloadSlot ctx load i (indexRange a b ! k)"
    if "k < length (indexRange a b)" for k
    using H(1) [of k] that len by simp
  have grp: "grpCreateReceived rs i ((a - 1) div gs + 1) a b = Inr grp"
    using same_group [OF _ held(2), of a b load i "(a - 1) div gs + 1"] slot g by (metis in_set_conv_nth)
  let ?k = "unat b - unat a"
  have k: "?k < length (indexRange a b)" using ab by (simp add: length_indexRange)
  have b: "indexRange a b ! ?k = b" using indexRange_nth(2) [OF k] ab by (simp add: word_unat_eq_iff)
  from H(2) [of ?k] k len b have tags: "tagsAt rs b = (taus, Some tag)" by (auto simp: tagsAt_def)
  obtain res ms where v: "improved_verify crp mat grp (ImprovedAuthenticationDetails taus (Some tag)) key' False = Inr (res, ms)"
    "m_bPassed res"
    using improved.round_trip [OF c, of False] by blast
  have "\<exists>det. improvedVerdict crp mat grp (tagsAt rs b) key = Inr (True, det)"
    using v key key' tags improved_verify_details [OF v(1)] by (auto simp: improvedVerdict_def)
  with grp show ?thesis by blast
qed

lemma list_all2_in_left: "list_all2 P xs ys \<Longrightarrow> x \<in> set xs \<Longrightarrow> \<exists>y \<in> set ys. P x y"
  by (induction rule: list_all2_induct) auto

lemma holdsDatagrams_concat: "holdsDatagrams rs uctx (concat gs) \<Longrightarrow> bss \<in> set gs \<Longrightarrow> holdsDatagrams rs uctx bss"
  by (auto simp: holdsDatagrams_def)

lemma built_group_order:
  assumes "buildGroup ctx load crp mat uctx gs i f (a, b) = Inr bss"
  shows "unat a \<le> unat b"
proof -
  obtain grp where "grpCreate ctx load i ((a - 1) div gs + 1) a b = Inr grp"
    using assms by (auto simp: buildGroup_def andThen_Inr_iff)
  then have "indexRange a b \<noteq> []"
    by (auto simp: grpCreate_def andThen_Inr_iff mkAuthenticationGroupInput_def Let_def split: if_splits)
  then show ?thesis by (simp add: indexRange_def split: if_splits)
qed

lemma improved_interval_passes:
  assumes build: "buildImprovedInterval ctx load crp uctx i a b = Inr bss"
    and key: "digDataKey (snd_keyChain ctx) (unat i) = Inr key"
    and held: "holdsDatagrams rs uctx bss" "sameSource ctx rs"
  shows "\<exists>imp mat. prm_optImprovedParameters (snd_prm ctx) = Some imp
    \<and> mkImprovedTeslaStrategy (unat (imp_u32GroupSize imp)) (unat (imp_u32DetectionThreshold imp)) = Inr mat
    \<and> (\<forall>(x, y) \<in> set (groupBounds (Suc (unat b) - unat a) (imp_u32GroupSize imp) b a). \<exists>grp det.
         grpCreateReceived rs i ((x - 1) div imp_u32GroupSize imp + 1) x y = Inr grp
         \<and> improvedVerdict crp mat grp (tagsAt rs y) key = Inr (True, det))"
  using build
proof (rule buildImprovedInterval_ok)
  fix imp mat vecGroups
  assume imp: "prm_optImprovedParameters (snd_prm ctx) = Some imp"
    "mkImprovedTeslaStrategy (unat (imp_u32GroupSize imp)) (unat (imp_u32DetectionThreshold imp)) = Inr mat"
    and g: "list_all2 (\<lambda>g bs. buildGroup ctx load crp mat uctx (imp_u32GroupSize imp) i a g = Inr bs)
       (groupBounds (Suc (unat b) - unat a) (imp_u32GroupSize imp) b a) vecGroups"
    and bss: "bss = concat vecGroups"
  have "\<exists>grp det. grpCreateReceived rs i ((x - 1) div imp_u32GroupSize imp + 1) x y = Inr grp
         \<and> improvedVerdict crp mat grp (tagsAt rs y) key = Inr (True, det)"
    if xy: "(x, y) \<in> set (groupBounds (Suc (unat b) - unat a) (imp_u32GroupSize imp) b a)" for x y
  proof -
    obtain gss where "gss \<in> set vecGroups" "buildGroup ctx load crp mat uctx (imp_u32GroupSize imp) i a (x, y) = Inr gss"
      using list_all2_in_left [OF g xy] by blast
    with holdsDatagrams_concat [OF held(1) [unfolded bss]] show ?thesis
      by (intro group_passes [OF _ built_group_order key _ held(2)])
  qed
  with imp show ?thesis by blast
qed

end
