(* ===== verification/Faults.thy ===== *)
theory Faults
  imports SenderBuild "HOL-Library.Log_Nat" "HOL-Library.Multiset"
begin

text \<open>
  Fault injection at the sender: the details of a fault with the checks of their constructors
  (\<open>ExperimentControl.cpp\<close>) and the three policies (\<open>AuthenticationFaultInjection.cpp\<close>) that decide
  for each datagram whether it is sent, when, or dropped. The lemmas: how many packets the loss policy
  drops and which, and which packets no policy drops.
\<close>

section \<open>Floating point\<close>

text \<open>
  A \<open>double\<close> is finite, with a rational value, or not a number or infinite. Arithmetic rounds the
  exact result to 53 significant bits, ties to the even neighbour, at exponents down to -1074; the
  results here are far below the largest finite value.
\<close>

datatype double = Finite rat | NotFinite

definition pow2 :: "int \<Rightarrow> rat" where
  "pow2 e = (if 0 \<le> e then 2 ^ nat e else 1 / 2 ^ nat (- e))"

definition floorLog2 :: "rat \<Rightarrow> int" where
  "floorLog2 q =
     (case quotient_of q of (a, b) \<Rightarrow>
        let k = bitlen a - bitlen b in if pow2 k \<le> q then k else k - 1)"

definition roundHalfEven :: "rat \<Rightarrow> int" where
  "roundHalfEven q =
     (let n = \<lfloor>q\<rfloor>; r = q - of_int n in if r < 1 / 2 \<or> (r = 1 / 2 \<and> even n) then n else n + 1)"

definition roundDouble :: "rat \<Rightarrow> rat" where
  "roundDouble q =
     (if q = 0 then 0
      else let e = max (floorLog2 \<bar>q\<bar> - 52) (-1074) in of_int (roundHalfEven (q / pow2 e)) * pow2 e)"

definition llround :: "rat \<Rightarrow> int" where
  "llround q = (if q < 0 then - \<lfloor>1 / 2 - q\<rfloor> else \<lfloor>q + 1 / 2\<rfloor>)"

section \<open>The details of a fault\<close>

record loss_details =
  loss_dLossRatePercent :: double
  loss_u64RandomSeed :: u64
  loss_u32ProtectedGroupSize :: u32

record disconnect_details =
  dis_u32StartPacketIndex :: u32
  dis_u32DurationMilliseconds :: u32
  dis_u32ProtectedGroupSize :: u32

datatype fault_details =
    PacketLossFault loss_details
  | LogicalDisconnectFault disconnect_details
  | FixedDelayFault u32

fun bInvalidPercent :: "double \<Rightarrow> bool" where
  "bInvalidPercent NotFinite = True"
| "bInvalidPercent (Finite q) = (q < 0 \<or> q > 100)"

definition mkPacketLossFaultDetails :: "double \<Rightarrow> u64 \<Rightarrow> u32 \<Rightarrow> loss_details result" where
  "mkPacketLossFaultDetails dLossRatePercent u64RandomSeed u32ProtectedGroupSize =
     (if bInvalidPercent dLossRatePercent \<or> u64RandomSeed = 0 \<or> u32ProtectedGroupSize = 0
      then Inl (InvalidArgument ''Packet loss fault parameters are invalid'')
      else Inr \<lparr>loss_dLossRatePercent = dLossRatePercent, loss_u64RandomSeed = u64RandomSeed,
                loss_u32ProtectedGroupSize = u32ProtectedGroupSize\<rparr>)"

definition mkLogicalDisconnectFaultDetails :: "u32 \<Rightarrow> u32 \<Rightarrow> u32 \<Rightarrow> disconnect_details result" where
  "mkLogicalDisconnectFaultDetails u32StartPacketIndex u32DurationMilliseconds u32ProtectedGroupSize =
     (if u32StartPacketIndex = 0 \<or> u32DurationMilliseconds = 0 \<or> u32ProtectedGroupSize = 0
      then Inl (InvalidArgument ''Logical disconnect parameters are invalid'')
      else Inr \<lparr>dis_u32StartPacketIndex = u32StartPacketIndex,
                dis_u32DurationMilliseconds = u32DurationMilliseconds,
                dis_u32ProtectedGroupSize = u32ProtectedGroupSize\<rparr>)"

definition mkFixedDelayFaultDetails :: "u32 \<Rightarrow> u32 result" where
  "mkFixedDelayFaultDetails u32DelayMilliseconds =
     (if u32DelayMilliseconds > 10000
      then Inl (InvalidArgument ''Fixed delay exceeds the internal safe limit'')
      else Inr u32DelayMilliseconds)"

section \<open>The policies\<close>

datatype fault_disposition = Send | Drop

record fault_decision =
  dec_dspDisposition :: fault_disposition
  dec_u32DelayMilliseconds :: u32
  dec_strReason :: string

definition mkDatagramFaultDecision :: "fault_disposition \<Rightarrow> u32 \<Rightarrow> string \<Rightarrow> fault_decision result" where
  "mkDatagramFaultDecision dspDisposition u32DelayMilliseconds strReason =
     (if strReason = [] \<or> (dspDisposition = Drop \<and> u32DelayMilliseconds \<noteq> 0)
      then Inl (InvalidArgument ''Datagram fault decision is inconsistent'')
      else Inr \<lparr>dec_dspDisposition = dspDisposition, dec_u32DelayMilliseconds = u32DelayMilliseconds,
                dec_strReason = strReason\<rparr>)"

text \<open>The members of \<open>FaultPolicyBase\<close>, shared by two of the policies.\<close>

record fault_base =
  flt_prmRound :: round_parameters
  flt_u32ProtectedGroupSize :: u32

record loss_policy = fault_base +
  flt_setDroppedPacketIndexes :: "u32 set"

record disconnect_policy = fault_base +
  flt_u32StartPacketIndex :: u32
  flt_u32DurationMilliseconds :: u32
  flt_optWindowStartMilliseconds :: "u64 option"

datatype fault_policy =
    PacketLossFaultPolicy loss_policy
  | LogicalDisconnectFaultPolicy disconnect_policy
  | FixedDelayFaultPolicy u32

definition checkProtectedGroupSize :: "round_parameters \<Rightarrow> u32 \<Rightarrow> unit result" where
  "checkProtectedGroupSize prm u32ProtectedGroupSize =
     (if u32ProtectedGroupSize = 0 \<or> u32ProtectedGroupSize > prm_u32PacketsPerInterval prm
      then Inl (InvalidArgument ''Fault protected group size is outside the sender interval'')
      else Inr ())"

definition optPacketIndex :: "byte list \<Rightarrow> u32 option" where
  "optPacketIndex vecDatagram =
     (case udp_resDecodeHeader vecDatagram of
        Inl _ \<Rightarrow> None
      | Inr hdr \<Rightarrow> if hdr_u32PacketIndex hdr = 0 then None else Some (hdr_u32PacketIndex hdr))"

definition bIsProtectedGroupEnd :: "round_parameters \<Rightarrow> u32 \<Rightarrow> u32 \<Rightarrow> bool" where
  "bIsProtectedGroupEnd prm u32ProtectedGroupSize u32PacketIndex =
     (let u32PacketsPerInterval = prm_u32PacketsPerInterval prm;
          u32IntervalIndex = (u32PacketIndex - 1) div u32PacketsPerInterval + 1;
          u32IntervalFirst = (u32IntervalIndex - 1) * u32PacketsPerInterval + 1;
          u32IntervalLast = min (prm_u32TotalPacketCount prm) (u32IntervalIndex * u32PacketsPerInterval);
          u32GroupOffset = (u32PacketIndex - u32IntervalFirst) div u32ProtectedGroupSize;
          u32GroupEnd = min u32IntervalLast (u32IntervalFirst + (u32GroupOffset + 1) * u32ProtectedGroupSize - 1)
      in u32PacketIndex = u32GroupEnd)"

text \<open>
  \<open>std::shuffle\<close> with a \<open>std::mt19937_64\<close> seeded from the details: the standard fixes the generator
  but not what the shuffle does with it, so the shuffle of a seed is a parameter.
\<close>

type_synonym shuffle = "u64 \<Rightarrow> u32 list \<Rightarrow> u32 list"

fun nDropCount :: "double \<Rightarrow> nat \<Rightarrow> nat" where
  "nDropCount (Finite dLossRatePercent) nEligible =
     nat (llround (roundDouble (roundDouble (dLossRatePercent * of_nat nEligible) / 100)))"
| "nDropCount NotFinite nEligible = 0"

definition vecEligibleIndexes :: "round_parameters \<Rightarrow> u32 \<Rightarrow> u32 list" where
  "vecEligibleIndexes prm u32ProtectedGroupSize =
     filter (\<lambda>j. \<not> bIsProtectedGroupEnd prm u32ProtectedGroupSize j) (indexRange 1 (prm_u32TotalPacketCount prm))"

definition mkPacketLossFaultPolicy :: "shuffle \<Rightarrow> loss_details \<Rightarrow> round_parameters \<Rightarrow> loss_policy result" where
  "mkPacketLossFaultPolicy shuffle det prm =
     andThen (checkProtectedGroupSize prm (loss_u32ProtectedGroupSize det)) (\<lambda>_.
       let vecEligible = vecEligibleIndexes prm (loss_u32ProtectedGroupSize det);
           vecShuffled = shuffle (loss_u64RandomSeed det) vecEligible;
           nDrop = nDropCount (loss_dLossRatePercent det) (length vecShuffled)
       in Inr \<lparr>flt_prmRound = prm, flt_u32ProtectedGroupSize = loss_u32ProtectedGroupSize det,
               flt_setDroppedPacketIndexes = set (take (min nDrop (length vecShuffled)) vecShuffled)\<rparr>)"

definition mkLogicalDisconnectFaultPolicy :: "disconnect_details \<Rightarrow> round_parameters \<Rightarrow> disconnect_policy result"
where
  "mkLogicalDisconnectFaultPolicy det prm =
     andThen (checkProtectedGroupSize prm (dis_u32ProtectedGroupSize det)) (\<lambda>_.
       if dis_u32StartPacketIndex det > prm_u32TotalPacketCount prm
       then Inl (InvalidArgument ''Logical disconnect starts after the final data packet'')
       else Inr \<lparr>flt_prmRound = prm, flt_u32ProtectedGroupSize = dis_u32ProtectedGroupSize det,
                 flt_u32StartPacketIndex = dis_u32StartPacketIndex det,
                 flt_u32DurationMilliseconds = dis_u32DurationMilliseconds det,
                 flt_optWindowStartMilliseconds = None\<rparr>)"

fun ptrCreateAuthenticationFaultPolicy :: "shuffle \<Rightarrow> fault_details \<Rightarrow> round_parameters \<Rightarrow> fault_policy result"
where
  "ptrCreateAuthenticationFaultPolicy shuffle (PacketLossFault det) prm =
     andThen (mkPacketLossFaultPolicy shuffle det prm) (\<lambda>pol. Inr (PacketLossFaultPolicy pol))"
| "ptrCreateAuthenticationFaultPolicy shuffle (LogicalDisconnectFault det) prm =
     andThen (mkLogicalDisconnectFaultPolicy det prm) (\<lambda>pol. Inr (LogicalDisconnectFaultPolicy pol))"
| "ptrCreateAuthenticationFaultPolicy shuffle (FixedDelayFault u32Delay) prm = Inr (FixedDelayFaultPolicy u32Delay)"

section \<open>The decision on a datagram\<close>

text \<open>The decision, and the policy after it.\<close>

definition loss_decDecide :: "loss_policy \<Rightarrow> byte list \<Rightarrow> fault_decision result" where
  "loss_decDecide pol vecDatagram =
     (case optPacketIndex vecDatagram of
        Some j \<Rightarrow> if j \<in> flt_setDroppedPacketIndexes pol
          then mkDatagramFaultDecision Drop 0 ''PACKET_LOSS_INJECTED''
          else mkDatagramFaultDecision Send 0 ''FAULT_PASS''
      | None \<Rightarrow> mkDatagramFaultDecision Send 0 ''FAULT_PASS'')"

definition openWindow :: "disconnect_policy \<Rightarrow> u32 \<Rightarrow> u64 \<Rightarrow> disconnect_policy" where
  "openWindow pol j u64Planned =
     (if flt_optWindowStartMilliseconds pol = None \<and> j \<ge> flt_u32StartPacketIndex pol
      then pol\<lparr>flt_optWindowStartMilliseconds := Some u64Planned\<rparr> else pol)"

definition bInsideWindow :: "disconnect_policy \<Rightarrow> u64 \<Rightarrow> bool" where
  "bInsideWindow pol u64Planned =
     (case flt_optWindowStartMilliseconds pol of
        None \<Rightarrow> False
      | Some u64Start \<Rightarrow> u64Planned < u64Start + ucast (flt_u32DurationMilliseconds pol))"

definition disconnect_decDecide :: "disconnect_policy \<Rightarrow> byte list \<Rightarrow> u64
    \<Rightarrow> fault_decision result \<times> disconnect_policy" where
  "disconnect_decDecide pol vecDatagram u64Planned =
     (case optPacketIndex vecDatagram of
        None \<Rightarrow> (mkDatagramFaultDecision Send 0 ''FAULT_PASS'', pol)
      | Some j \<Rightarrow>
          let pol = openWindow pol j u64Planned; bInside = bInsideWindow pol u64Planned
          in (if bInside \<and> \<not> bIsProtectedGroupEnd (flt_prmRound pol) (flt_u32ProtectedGroupSize pol) j
              then mkDatagramFaultDecision Drop 0 ''LOGICAL_DISCONNECT_INJECTED''
              else mkDatagramFaultDecision Send 0 (if bInside then ''PROTECTED_GROUP_END'' else ''FAULT_PASS''),
              pol))"

definition delay_decDecide :: "u32 \<Rightarrow> fault_decision result" where
  "delay_decDecide u32Delay =
     mkDatagramFaultDecision Send u32Delay (if u32Delay = 0 then ''FAULT_PASS'' else ''FIXED_DELAY_INJECTED'')"

fun decDecide :: "fault_policy \<Rightarrow> byte list \<Rightarrow> u64 \<Rightarrow> fault_decision result \<times> fault_policy" where
  "decDecide (PacketLossFaultPolicy pol) vecDatagram u64Planned =
     (loss_decDecide pol vecDatagram, PacketLossFaultPolicy pol)"
| "decDecide (LogicalDisconnectFaultPolicy pol) vecDatagram u64Planned =
     (case disconnect_decDecide pol vecDatagram u64Planned of
        (dec, pol) \<Rightarrow> (dec, LogicalDisconnectFaultPolicy pol))"
| "decDecide (FixedDelayFaultPolicy u32Delay) vecDatagram u64Planned =
     (delay_decDecide u32Delay, FixedDelayFaultPolicy u32Delay)"

section \<open>How many packets the loss policy drops\<close>

lemma pow2_powi: "pow2 e = 2 powi e"
  by (simp add: pow2_def power_int_def power_one_over)

lemma pow2_pos [simp]: "0 < pow2 e"
  by (simp add: pow2_powi)

lemma floorLog2_le:
  assumes "0 < q"
  shows "pow2 (floorLog2 q) \<le> q"
proof -
  obtain a b where ab: "quotient_of q = (a, b)" by fastforce
  have b: "0 < b" using quotient_of_denom_pos [OF ab] .
  have q: "q = of_int a / of_int b" using quotient_of_div [OF ab] .
  with assms b have a: "0 < a" by (simp add: zero_less_divide_iff)
  let ?k = "bitlen a - bitlen b"
  have "pow2 (?k - 1) \<le> q"
  proof -
    have A: "2 ^ nat (bitlen a - 1) \<le> a" and B: "b < 2 ^ nat (bitlen b)"
      using bitlen_bounds [OF a] bitlen_bounds [OF b] by auto
    have "bitlen a \<noteq> 0" using bitlen_bounds [OF a] by auto
    then have A0: "0 \<le> bitlen a - 1" using bitlen_nonneg [of a] by linarith
    have "pow2 (?k - 1) = pow2 (bitlen a - 1) / pow2 (bitlen b)"
      by (simp add: pow2_powi power_int_diff [symmetric] algebra_simps)
    also have "pow2 (bitlen a - 1) = of_int (2 ^ nat (bitlen a - 1))"
      using A0 by (simp add: pow2_def)
    also have "pow2 (bitlen b) = of_int (2 ^ nat (bitlen b))"
      using bitlen_nonneg [of b] by (simp add: pow2_def)
    also have "of_int (2 ^ nat (bitlen a - 1)) / of_int (2 ^ nat (bitlen b)) \<le> (of_int a / of_int b :: rat)"
    proof (rule frac_le)
      show "(of_int (2 ^ nat (bitlen a - 1)) :: rat) \<le> of_int a" using A by (simp only: of_int_le_iff)
      show "(of_int b :: rat) \<le> of_int (2 ^ nat (bitlen b))" using B by (simp only: of_int_le_iff less_imp_le)
    qed (use a b in simp_all)
    finally show ?thesis by (simp add: q)
  qed
  then show ?thesis using ab by (simp add: floorLog2_def Let_def)
qed

lemma roundHalfEven_le: "q \<le> of_int n \<Longrightarrow> roundHalfEven q \<le> n"
  by (simp add: roundHalfEven_def Let_def) linarith

lemma roundHalfEven_ge: "of_int n \<le> q \<Longrightarrow> n \<le> roundHalfEven q"
  by (simp add: roundHalfEven_def Let_def) linarith

lemma roundHalfEven_near: "\<bar>of_int (roundHalfEven q) - q\<bar> \<le> 1 / 2"
  unfolding roundHalfEven_def Let_def abs_le_iff by (cases "q - of_int \<lfloor>q\<rfloor> < 1 / 2") (simp_all, linarith+)

text \<open>Below \<open>2 ^ 53\<close> the spacing of the doubles is at most 1.\<close>

definition ulpExponent :: "rat \<Rightarrow> int" where
  "ulpExponent q = max (floorLog2 \<bar>q\<bar> - 52) (-1074)"

lemma roundDouble_eq: "q \<noteq> 0 \<Longrightarrow> roundDouble q = of_int (roundHalfEven (q / pow2 (ulpExponent q))) * pow2 (ulpExponent q)"
  by (simp add: roundDouble_def ulpExponent_def Let_def)

lemma ulpExponent_bound:
  assumes "0 < q" "q < pow2 m" "-1000 \<le> m"
  shows "ulpExponent q \<le> m - 53"
proof -
  have "pow2 (floorLog2 q) < pow2 m" using floorLog2_le [OF assms(1)] assms(2) by linarith
  then have "floorLog2 q < m"
    by (metis pow2_powi power_int_increasing one_le_numeral not_le)
  with assms show ?thesis by (simp add: ulpExponent_def)
qed

lemma roundDouble_near:
  assumes "0 \<le> q" "q < pow2 m" "-1000 \<le> m"
  shows "\<bar>roundDouble q - q\<bar> \<le> pow2 (m - 54)"
proof (cases "q = 0")
  case True
  then show ?thesis by (simp add: roundDouble_def less_imp_le)
next
  case False
  let ?e = "ulpExponent q"
  have e: "?e \<le> m - 53" using False assms by (intro ulpExponent_bound) simp_all
  have "roundDouble q - q = (of_int (roundHalfEven (q / pow2 ?e)) - q / pow2 ?e) * pow2 ?e"
    using less_imp_neq [OF pow2_pos, of ?e] unfolding roundDouble_eq [OF False] by (simp add: left_diff_distrib)
  then have "\<bar>roundDouble q - q\<bar> = \<bar>of_int (roundHalfEven (q / pow2 ?e)) - q / pow2 ?e\<bar> * pow2 ?e"
    by (simp add: abs_mult less_imp_le)
  also have "\<dots> \<le> 1 / 2 * pow2 ?e"
    by (rule mult_right_mono [OF roundHalfEven_near]) (simp add: less_imp_le)
  also have "\<dots> = pow2 (?e - 1)" by (simp add: pow2_powi power_int_diff)
  also have "\<dots> \<le> pow2 (m - 54)" using e by (simp add: pow2_powi power_int_increasing)
  finally show ?thesis .
qed

lemma roundDouble_le:
  assumes "0 \<le> q" "q \<le> of_nat n" "n < 2 ^ 53"
  shows "roundDouble q \<le> of_nat n"
proof (cases "q = 0")
  case True
  then show ?thesis by (simp add: roundDouble_def)
next
  case False
  let ?e = "ulpExponent q"
  have "q < pow2 53"
  proof -
    have "(of_nat n :: rat) < of_nat (2 ^ 53)" using assms(3) by (simp only: of_nat_less_iff)
    with assms(2) show ?thesis by (simp add: pow2_def)
  qed
  then have e: "?e \<le> 0" using ulpExponent_bound [of q 53] False assms(1) by simp
  have p: "pow2 ?e = 1 / 2 ^ nat (- ?e)" using e by (cases "?e = 0") (simp_all add: pow2_def)
  have "q / pow2 ?e \<le> of_int (int n * 2 ^ nat (- ?e))"
    using assms(2) by (simp add: p)
  from roundHalfEven_le [OF this]
  have "of_int (roundHalfEven (q / pow2 ?e)) \<le> (of_int (int n * 2 ^ nat (- ?e)) :: rat)" by (simp only: of_int_le_iff)
  then have "of_int (roundHalfEven (q / pow2 ?e)) * pow2 ?e \<le> of_int (int n * 2 ^ nat (- ?e)) * pow2 ?e"
    by (rule mult_right_mono) (simp add: less_imp_le)
  also have "\<dots> = of_nat n" by (simp add: p)
  finally show ?thesis unfolding roundDouble_eq [OF False] .
qed

lemma roundDouble_nonneg:
  assumes "0 \<le> q"
  shows "0 \<le> roundDouble q"
proof (cases "q = 0")
  case False
  have "0 \<le> roundHalfEven (q / pow2 (ulpExponent q))"
    using assms by (intro roundHalfEven_ge) (simp add: less_imp_le)
  then show ?thesis unfolding roundDouble_eq [OF False] by (simp add: less_imp_le)
qed (simp add: roundDouble_def)

lemma near_sum:
  fixes x y z t :: rat
  assumes "\<bar>y - x\<bar> \<le> 1 / 2 ^ 29" "\<bar>z - y / 100\<bar> \<le> 1 / 2 ^ 36" "\<bar>t - z\<bar> \<le> 1 / 2"
  shows "\<bar>t - x / 100\<bar> \<le> 1 / 2 + 1 / 1000000"
  using assms unfolding abs_le_iff by simp

text \<open>The number of packets dropped: within rounding of the rate's share, and never more than there are.\<close>

lemma nDropCount_bounds:
  assumes p: "0 \<le> p" "p \<le> 100" and n: "n \<le> 200000"
  shows "nDropCount (Finite p) n \<le> n"
    "\<bar>of_nat (nDropCount (Finite p) n) - p * of_nat n / 100\<bar> \<le> 1 / 2 + 1 / 1000000"
proof -
  let ?x = "p * of_nat n" let ?y = "roundDouble ?x" let ?z = "roundDouble (?y / 100)"
  have x: "0 \<le> ?x" using p by simp
  have xn: "?x \<le> of_nat (100 * n)"
    using mult_right_mono [OF p(2), of "of_nat n :: rat"] by simp
  have y: "0 \<le> ?y" "?y \<le> of_nat (100 * n)"
    using roundDouble_nonneg [OF x] roundDouble_le [OF x xn] n by simp_all
  have z: "0 \<le> ?z" "?z \<le> of_nat n"
    using roundDouble_nonneg [of "?y / 100"] roundDouble_le [of "?y / 100" n] y n by simp_all
  have l: "llround ?z = \<lfloor>?z + 1 / 2\<rfloor>" "0 \<le> \<lfloor>?z + 1 / 2\<rfloor>" using z(1) by (simp_all add: llround_def)
  have "\<lfloor>?z + 1 / 2\<rfloor> \<le> int n" using z(2) by linarith
  then show "nDropCount (Finite p) n \<le> n" using l by simp
  have n': "(of_nat n :: rat) \<le> 200000" using n by (metis of_nat_le_iff of_nat_numeral)
  then have "?x < pow2 25" using xn by (simp add: pow2_def)
  from roundDouble_near [OF x this] have 1: "\<bar>?y - ?x\<bar> \<le> 1 / 2 ^ 29" by (simp add: pow2_def)
  have "?y / 100 < pow2 18" using y(2) n' by (simp add: pow2_def)
  from roundDouble_near [OF _ this] y have 2: "\<bar>?z - ?y / 100\<bar> \<le> 1 / 2 ^ 36" by (simp add: pow2_def)
  have 3: "\<bar>of_int \<lfloor>?z + 1 / 2\<rfloor> - ?z\<bar> \<le> 1 / 2" by linarith
  have "(of_nat (nDropCount (Finite p) n) :: rat) = of_int \<lfloor>?z + 1 / 2\<rfloor>" using l by simp
  then show "\<bar>of_nat (nDropCount (Finite p) n) - ?x / 100\<bar> \<le> 1 / 2 + 1 / 1000000"
    using near_sum [OF 1 2 3] by simp
qed

section \<open>Which packets no policy drops\<close>

lemma multiple_of_group:
  fixes o' s :: nat
  assumes "0 < s"
  shows "o' + 1 \<le> (o' div s + 1) * s" "o' + 1 = (o' div s + 1) * s \<longleftrightarrow> s dvd o' + 1"
proof -
  show "o' + 1 \<le> (o' div s + 1) * s"
    using assms by (metis Suc_eq_plus1 Suc_leI dividend_less_div_times add.commute mult.commute mult_Suc_right)
  show "o' + 1 = (o' div s + 1) * s \<longleftrightarrow> s dvd o' + 1"
  proof
    assume "s dvd o' + 1"
    then obtain k where k: "o' + 1 = k * s" by (metis dvd_def mult.commute)
    then obtain m where m: "k = Suc m" by (cases k) simp_all
    have "o' div s = m" by (rule div_nat_eqI) (use k m assms in \<open>simp_all add: mult.commute\<close>, linarith?)
    with k m show "o' + 1 = (o' div s + 1) * s" by simp
  qed simp
qed

lemma group_fits:
  fixes q p o' s N :: nat
  assumes "s \<le> p" "p < N" "q * p + o' < M" "2 * M \<le> N"
  shows "q * p + (o' div s + 1) * s < N"
proof (cases "q = 0 \<and> o' div s = 0")
  case True
  with assms show ?thesis by simp
next
  case False
  have os: "o' div s * s \<le> o'" by simp
  have "s \<le> q * p + o'"
  proof (cases "q = 0")
    case True
    with False have "1 * s \<le> o' div s * s" by (intro mult_le_mono1) simp
    with os show ?thesis by linarith
  next
    case False
    then have "1 * p \<le> q * p" by (intro mult_le_mono1) simp
    with assms(1) show ?thesis by linarith
  qed
  then show ?thesis using os assms(3,4) unfolding add_mult_distrib mult_1 by linarith
qed

text \<open>The group the code computes for packet \<open>j\<close>, as natural numbers.\<close>

lemma protected_group:
  assumes prm: "prm_ok prm" and s: "checkProtectedGroupSize prm s = Inr ()"
    and j: "1 \<le> unat j" "unat j \<le> unat (prm_u32TotalPacketCount prm)"
  defines "p \<equiv> unat (prm_u32PacketsPerInterval prm)" and "i \<equiv> (j - 1) div prm_u32PacketsPerInterval prm + 1"
  defines "q \<equiv> (unat j - 1) div p" and "o' \<equiv> (unat j - 1) mod p"
  shows "unat (intervalLast prm i) = min (unat (prm_u32TotalPacketCount prm)) ((q + 1) * p)"
    "unat (intervalFirst prm i + ((j - intervalFirst prm i) div s + 1) * s - 1) = q * p + (o' div unat s + 1) * unat s"
proof -
  let ?t = "unat (prm_u32TotalPacketCount prm)"
  note P = prm_ok_bounds [OF prm, folded p_def]
  have s0: "0 < unat s" "unat s \<le> p"
    using s by (auto simp: checkProtectedGroupSize_def unat_gt_0 word_le_nat_alt not_less p_def split: if_splits)
  have j': "unat j - 1 = q * p + o'" by (simp add: q_def o'_def)
  have jm: "unat (j - 1) = unat j - 1" using j(1) by (intro unat_minus_one_pos) auto
  have qle: "q + 1 \<le> prm_nDataIntervalCount prm"
    using prm j(2) unfolding q_def by (simp add: prm_ok_def p_def div_le_mono)
  have ui: "unat i = q + 1"
    using qle P(4) unfolding i_def by (subst unat_Suc_no_wrap) (simp_all add: unat_div jm q_def p_def)
  note B = interval_bounds [OF prm, of i, unfolded ui, folded p_def]
  have first: "unat (intervalFirst prm i) = q * p + 1" using B qle by simp
  show "unat (intervalLast prm i) = min ?t ((q + 1) * p)" using B qle by simp
  have jf: "unat (j - intervalFirst prm i) = o'"
    using j' j(1) first by (subst unat_sub) (simp_all add: word_le_nat_alt)
  let ?off = "(j - intervalFirst prm i) div s"
  have ot: "q * p + o' < 200000" using j' j P(2) by linarith
  have wrap: "q * p + (o' div unat s + 1) * unat s < 4294967296"
    by (rule group_fits [OF s0(2) _ ot]) (simp_all add: p_def)
  have "o' div unat s + 1 < 4294967296" using ot div_le_dividend [of o' "unat s"] by linarith
  then have u: "unat (?off + 1) = o' div unat s + 1" by (subst unat_Suc_no_wrap) (simp_all add: unat_div jf)
  have "unat (?off + 1) * unat s < 2 ^ LENGTH(32)" unfolding u using wrap by simp
  from unat_mult_lem [THEN iffD1, OF this]
  have m: "unat ((?off + 1) * s) = (o' div unat s + 1) * unat s" unfolding u .
  have e: "intervalFirst prm i + (?off + 1) * s - 1 = (intervalFirst prm i - 1) + (?off + 1) * s" by simp
  have f1: "unat (intervalFirst prm i - 1) = q * p" using first by (subst unat_minus_one_pos) auto
  have "unat (intervalFirst prm i - 1) + unat ((?off + 1) * s) < 2 ^ LENGTH(32)"
    unfolding f1 m using wrap by simp
  from unat_add_lem [THEN iffD1, OF this]
  show "unat (intervalFirst prm i + (?off + 1) * s - 1) = q * p + (o' div unat s + 1) * unat s"
    unfolding e f1 m .
qed

text \<open>The protected packets: the last of each group of \<open>s\<close> in an interval, of each interval and of all.\<close>

lemma protected_end_nat:
  assumes prm: "prm_ok prm" and s: "checkProtectedGroupSize prm s = Inr ()"
    and j: "1 \<le> unat j" "unat j \<le> unat (prm_u32TotalPacketCount prm)"
  defines "o' \<equiv> (unat j - 1) mod unat (prm_u32PacketsPerInterval prm)"
  shows "bIsProtectedGroupEnd prm s j \<longleftrightarrow> unat s dvd o' + 1 \<or> o' + 1 = unat (prm_u32PacketsPerInterval prm)
    \<or> j = prm_u32TotalPacketCount prm"
proof -
  let ?p = "unat (prm_u32PacketsPerInterval prm)" and ?t = "unat (prm_u32TotalPacketCount prm)"
  let ?q = "(unat j - 1) div ?p"
  note G = protected_group [OF prm s j, folded o'_def]
  have j': "unat j - 1 = ?q * ?p + o'" "o' < ?p" using prm_ok_bounds(3) [OF prm] by (simp_all add: o'_def)
  have s0: "0 < unat s" using s by (auto simp: checkProtectedGroupSize_def unat_gt_0 split: if_splits)
  have "bIsProtectedGroupEnd prm s j
      \<longleftrightarrow> unat j = min (min ?t ((?q + 1) * ?p)) (?q * ?p + (o' div unat s + 1) * unat s)"
    unfolding bIsProtectedGroupEnd_def Let_def intervalFirst_def [symmetric] intervalLast_def [symmetric]
    using G by (simp add: word_unat_eq_iff min_def word_le_nat_alt)
  also have "\<dots> \<longleftrightarrow> unat s dvd o' + 1 \<or> o' + 1 = ?p \<or> unat j = ?t"
    using multiple_of_group [OF s0, of o'] j j' by (auto simp: min_def)
  finally show ?thesis by (simp add: word_unat_eq_iff)
qed

lemma tag_carrier_protected:
  assumes prm: "prm_ok prm" and s: "checkProtectedGroupSize prm s = Inr ()"
    and j: "1 \<le> unat j" "unat j \<le> unat (prm_u32TotalPacketCount prm)"
    and dvd: "unat s dvd g" "g dvd unat (prm_u32PacketsPerInterval prm)"
    and "g dvd unat j \<or> j = prm_u32TotalPacketCount prm"
  shows "bIsProtectedGroupEnd prm s j"
proof (cases "j = prm_u32TotalPacketCount prm")
  case False
  let ?p = "unat (prm_u32PacketsPerInterval prm)"
  have "unat s dvd unat j" "unat s dvd ?p" using assms(7) dvd False by (auto intro: dvd_trans)
  moreover have "unat j = (unat j - 1) div ?p * ?p + ((unat j - 1) mod ?p + 1)" using j(1) by simp
  ultimately have "unat s dvd (unat j - 1) mod ?p + 1" by (metis dvd_add_right_iff dvd_mult)
  then show ?thesis by (simp add: protected_end_nat [OF prm s j])
qed (use protected_end_nat [OF prm s j] in blast)

section \<open>What the decisions depend on\<close>

text \<open>A datagram that decodes has a header the fault policies read the packet index from.\<close>

definition packetIndexOf :: "udp_packet \<Rightarrow> u32" where
  "packetIndexOf p = (case p of UdpData d \<Rightarrow> ud_u32PacketIndex d | UdpDisclosure _ \<Rightarrow> 0)"

lemma decodeDisclosure_kind: "decodeDisclosure ctx n c i r = Inr (Inr p) \<Longrightarrow> packetIndexOf p = 0"
  by (auto simp: decodeDisclosure_def errCreate_def packetIndexOf_def andThen_Inr_iff mkUdpDisclosurePacket_def
      split: if_splits)

lemma decodeData_kind: "decodeData ctx n c i j r = Inr (Inr p) \<Longrightarrow> packetIndexOf p = j"
  by (auto simp: decodeData_def errCreate_def packetIndexOf_def andThen_Inr_iff mkUdpDataPacket_def split: if_splits)

lemma optPacketIndex_decoded:
  assumes "udp_resDecode bs ctx = Inr (Inr p)"
  shows "optPacketIndex bs = (if packetIndexOf p = 0 then None else Some (packetIndexOf p))"
proof -
  have len: "\<not> length bs < FIXED_HEADER_SIZE"
    using assms by (auto simp: udp_resDecode_def errCreate_def)
  with assms have dec: "decodePacket ctx (length bs) (BinaryReader bs) = Inr (Inr p)"
    by (simp add: udp_resDecode_def catchOutOfRange_decoded catchInvalidArgument_decoded)
  from dec obtain c r1 i r2 j r3 where r: "u64Read (BinaryReader bs) = Inr (c, r1)" "u32Read r1 = Inr (i, r2)"
      "u32Read r2 = Inr (j, r3)"
    and k: "(if c = 0 then Inr (errCreate InvalidAuthenticationContext ''UDP authentication datagram contains a zero chain ID'')
      else if i = 0 then Inr (errCreate InvalidIntervalIndex ''UDP authentication datagram interval must start at one'')
      else if j = 0 then decodeDisclosure ctx (length bs) c i r3 else decodeData ctx (length bs) c i j r3) = Inr (Inr p)"
    unfolding decodePacket_def by (auto simp: andThen_Inr_iff)
  then have h: "udp_resDecodeHeader bs = Inr \<lparr>hdr_u64ChainId = c, hdr_u32IntervalIndex = i, hdr_u32PacketIndex = j\<rparr>"
    using len by (auto simp: udp_resDecodeHeader_def mkUdpHeader_def errCreate_def split: if_splits)
  have "packetIndexOf p = j"
    using k by (auto simp: errCreate_def dest: decodeDisclosure_kind decodeData_kind split: if_splits)
  with h show ?thesis by (simp add: optPacketIndex_def)
qed

text \<open>The protected group size of a fault; the fixed delay has none and protects every packet.\<close>

fun protectedSize :: "fault_details \<Rightarrow> u32" where
  "protectedSize (PacketLossFault det) = loss_u32ProtectedGroupSize det"
| "protectedSize (LogicalDisconnectFault det) = dis_u32ProtectedGroupSize det"
| "protectedSize (FixedDelayFault _) = 1"

fun policy_ok :: "round_parameters \<Rightarrow> u32 \<Rightarrow> fault_policy \<Rightarrow> bool" where
  "policy_ok prm s (PacketLossFaultPolicy pol) \<longleftrightarrow> checkProtectedGroupSize prm s = Inr ()
     \<and> (\<forall>j \<in> flt_setDroppedPacketIndexes pol. \<not> bIsProtectedGroupEnd prm s j)"
| "policy_ok prm s (LogicalDisconnectFaultPolicy pol) \<longleftrightarrow> checkProtectedGroupSize prm s = Inr ()
     \<and> flt_prmRound pol = prm \<and> flt_u32ProtectedGroupSize pol = s"
| "policy_ok prm s (FixedDelayFaultPolicy _) \<longleftrightarrow> True"

lemma created_policy_ok:
  assumes "ptrCreateAuthenticationFaultPolicy shuffle det prm = Inr pol"
    and "\<And>seed xs. mset (shuffle seed xs) = mset xs"
  shows "policy_ok prm (protectedSize det) pol"
proof (cases det)
  case (PacketLossFault d)
  have "set (shuffle seed xs) = set xs" for seed xs using assms(2) by (metis mset_eq_setD)
  with assms(1) PacketLossFault show ?thesis
    by (auto simp: mkPacketLossFaultPolicy_def Let_def vecEligibleIndexes_def andThen_Inr_iff
        dest!: in_set_takeD)
next
  case (LogicalDisconnectFault d)
  with assms(1) show ?thesis by (auto simp: mkLogicalDisconnectFaultPolicy_def andThen_Inr_iff split: if_splits)
qed (use assms(1) in auto)

lemma openWindow_members [simp]:
  "flt_prmRound (openWindow pol j t) = flt_prmRound pol"
  "flt_u32ProtectedGroupSize (openWindow pol j t) = flt_u32ProtectedGroupSize pol"
  by (simp_all add: openWindow_def)

lemma policy_ok_decide: "policy_ok prm s pol \<Longrightarrow> policy_ok prm s (snd (decDecide pol bs t))"
  by (cases pol) (auto simp: disconnect_decDecide_def Let_def split: option.splits)

text \<open>Every decision is well-formed, and a drop is of an unprotected packet of this index.\<close>

lemma decDecide_ok:
  assumes "policy_ok prm s pol"
  shows "\<exists>dec. fst (decDecide pol bs t) = Inr dec \<and> (dec_dspDisposition dec = Drop \<longrightarrow>
    (\<exists>j. optPacketIndex bs = Some j \<and> \<not> bIsProtectedGroupEnd prm s j \<and> checkProtectedGroupSize prm s = Inr ()))"
proof (cases pol)
  case (PacketLossFaultPolicy p)
  with assms show ?thesis
    by (cases "optPacketIndex bs") (simp_all add: loss_decDecide_def mkDatagramFaultDecision_def)
next
  case (LogicalDisconnectFaultPolicy p)
  with assms show ?thesis
    by (cases "optPacketIndex bs")
      (simp_all add: disconnect_decDecide_def mkDatagramFaultDecision_def Let_def)
qed (simp add: delay_decDecide_def mkDatagramFaultDecision_def)

text \<open>The decisions of one policy on a sequence of datagrams with their planned times.\<close>

fun decisions :: "fault_policy \<Rightarrow> (byte list \<times> u64) list \<Rightarrow> fault_decision result list" where
  "decisions pol [] = []"
| "decisions pol ((bs, t) # calls) = (case decDecide pol bs t of (dec, pol) \<Rightarrow> dec # decisions pol calls)"

lemma decisions_nth:
  assumes "policy_ok prm s pol" "k < length calls"
  shows "\<exists>pol'. policy_ok prm s pol' \<and> decisions pol calls ! k = fst (decDecide pol' (fst (calls ! k)) (snd (calls ! k)))"
  using assms
proof (induction pol calls arbitrary: k rule: decisions.induct)
  case (2 pol bs t calls)
  obtain dec pol1 where d: "decDecide pol bs t = (dec, pol1)" by fastforce
  with policy_ok_decide [OF "2.prems"(1), of bs t] have ok: "policy_ok prm s pol1" by simp
  show ?case
  proof (cases k)
    case 0
    with d "2.prems"(1) show ?thesis by auto
  next
    case (Suc k')
    with "2.IH" [OF d [symmetric] ok, of k'] "2.prems"(2) d show ?thesis by simp
  qed
qed simp

end
