(* ===== verification/SenderTheorems.thy ===== *)
theory SenderTheorems
  imports SenderBuild ReceiverSamples
begin

text \<open>
  What the built datagrams guarantee, and the sample round of \<open>ReceiverSamples\<close> built by its sender.
\<close>

section \<open>The sample sender\<close>

definition one_material :: sender_material where
  "one_material = \<lparr>mat_strSenderId = ''S'', mat_u64ChainId = 7, mat_vecChainSeed = block_bytes sample_key,
     mat_digCommitmentKey = sample_key, mat_prmRoundParameters = one_round\<rparr>"

definition one_sender :: sender_context where
  "one_sender = \<lparr>snd_matMaterial = one_material, snd_keyChain = \<lparr>m_vecKeys = [sample_key, sample_key]\<rparr>\<rparr>"

definition one_workload :: sender_workload where
  "one_workload = TextSenderWorkload \<lparr>m_pldPayload = \<lparr>m_strUtf8Text = ''A'', m_arrMessage = block_of [65]\<rparr>,
     m_u32TextPacketCount = 1\<rparr>"

definition built_as :: "interval_datagrams list result \<Rightarrow> byte list list list \<Rightarrow> bool" where
  "built_as r xs = (case r of Inl _ \<Rightarrow> False | Inr ints \<Rightarrow> map int_vecDatagrams ints = xs)"

lemma one_verified: "ctxCreateVerified one_material (OpenSslCryptoProvider sample_ssl Sha256) = Inr one_sender"
  by code_simp

lemma one_built: "built_as (buildDatagrams sample_ssl one_sender one_workload) [[], [one_datagram], [one_disclosure]]"
  by code_simp

lemma one_sender_ok: "prm_ok (snd_prm one_sender)" "snd_prm one_sender = one_round"
  by (simp_all add: prm_ok_def snd_prm_def one_sender_def one_material_def one_round_def
      MAX_AUTHENTICATION_PACKET_COUNT_def)

lemma one_builtE:
  obtains ints where "buildDatagrams sample_ssl one_sender one_workload = Inr ints"
    "map int_vecDatagrams ints = [[], [one_datagram], [one_disclosure]]"
  using one_built by (auto simp: built_as_def split: sum.splits)

section \<open>The datagrams of a round\<close>

text \<open>C38. When the sender's datagrams are built, the disclosure delay \<open>d\<close> is at most the number
  \<open>n\<close> of data intervals, and in the packet context both ends derive from the round: the datagrams of
  data interval \<open>i\<close> decode, one after the other, to the packets of its indexes, with the workload's
  messages, the first of them with the data key of interval \<open>i - d\<close> when \<open>d < i\<close>, and no other with
  a key, so none is disclosed before its delay is over; each of the \<open>d\<close> intervals after the data has
  one datagram, which decodes to the disclosure of the next key.\<close>

theorem sender_stream_exact:
  assumes verified: "ctxCreateVerified mat crp = Inr ctx" and prm: "prm_ok (snd_prm ctx)"
    and ints: "buildDatagrams ssl ctx load = Inr ints"
    and n: "n = prm_nDataIntervalCount (snd_prm ctx)" and d: "d = unat (prm_u32DisclosureDelay (snd_prm ctx))"
  shows "d \<le> n \<and> length ints = n + d + 1 \<and> (\<exists>uctx. ctxCreatePacketContext (snd_prm ctx) = Inr uctx
    \<and> (\<forall>i \<in> {1..n}. carriesInterval ctx load uctx (of_nat i) (int_vecDatagrams (ints ! i)))
    \<and> (\<forall>l \<in> {n<..n + d}. carriesKey ctx uctx (l - d) (of_nat l) (int_vecDatagrams (ints ! l))))"
proof -
  note keys = ctxCreateVerified_ok(2) [OF verified]
  obtain uctx where u: "ctxCreatePacketContext (snd_prm ctx) = Inr uctx" and len: "length ints = n + d + 1"
    and dat: "\<And>i. 1 \<le> i \<Longrightarrow> i \<le> n \<Longrightarrow> buildDataInterval ctx load
       (OpenSslCryptoProvider ssl (prm_algCryptoAlgorithm (snd_prm ctx))) uctx (of_nat i) = Inr (ints ! i)"
    and tail: "\<And>l. n < l \<Longrightarrow> l \<le> n + d \<Longrightarrow> buildTail ctx uctx (of_nat l) = Inr (ints ! l)"
    using buildDatagrams_ok [OF prm ints] unfolding n d by metis
  note L = round_lengths [OF prm u, folded n d]
  have dn: "d \<le> n" using built_delay_fits [OF prm ints keys] by (simp add: n d)
  have idx: "unat (of_nat l :: u32) = l" if "l \<le> n + d" for l using that L(2) by (simp add: unat_of_nat)
  have "carriesInterval ctx load uctx (of_nat i) (int_vecDatagrams (ints ! i))" if "i \<in> {1..n}" for i
    using that idx [of i] n by (intro buildDataInterval_carries [OF prm _ _ dat]) simp_all
  moreover have "carriesKey ctx uctx (l - d) (of_nat l) (int_vecDatagrams (ints ! l))" if l: "l \<in> {n<..n + d}" for l
  proof -
    have "unat (of_nat l - prm_u32DisclosureDelay (snd_prm ctx) :: u32) = l - d"
      using l dn idx [of l] unat_sub [of "prm_u32DisclosureDelay (snd_prm ctx)" "of_nat l :: u32"]
      by (simp add: d word_le_nat_alt)
    with buildTail_carries [OF tail, of l] l show ?thesis by simp
  qed
  ultimately show ?thesis using dn len u by blast
qed

theorem sender_stream_exact_witness:
  "\<exists>ints uctx. buildDatagrams sample_ssl one_sender one_workload = Inr ints \<and> length ints = 3
     \<and> carriesInterval one_sender one_workload uctx 1 (int_vecDatagrams (ints ! 1))
     \<and> carriesKey one_sender uctx 1 2 (int_vecDatagrams (ints ! 2))"
proof -
  obtain ints where b: "buildDatagrams sample_ssl one_sender one_workload = Inr ints"
    by (rule one_builtE)
  have "1 = prm_nDataIntervalCount (snd_prm one_sender)" "1 = unat (prm_u32DisclosureDelay (snd_prm one_sender))"
    by (simp_all add: one_sender_ok(2) one_round_def)
  from sender_stream_exact [OF one_verified one_sender_ok(1) b this] obtain uctx where
    "length ints = 1 + 1 + 1" "\<forall>i \<in> {1..1}. carriesInterval one_sender one_workload uctx (of_nat i) (int_vecDatagrams (ints ! i))"
    and tail: "\<forall>l \<in> {1<..1 + 1}. carriesKey one_sender uctx (l - 1) (of_nat l) (int_vecDatagrams (ints ! l))"
    by blast
  with b bspec [OF tail, of 2] show ?thesis by (auto simp: numeral_3_eq_3)
qed

section \<open>An interval that arrives passes\<close>

text \<open>C39. A receiver of the sender's chain that holds the packets of an interval as the sender built
  them passes all of them under the interval's key: in Native TESLA every packet status is passed, in
  Improved TESLA every group passes as a whole.\<close>

theorem sent_interval_passes:
  assumes build: "buildDataInterval ctx load crp uctx i = Inr ivl"
    and key: "digDataKey (snd_keyChain ctx) (unat i) = Inr key"
    and held: "holdsDatagrams rs uctx (int_vecDatagrams ivl)" and same: "sameSource ctx rs"
    and a: "a = intervalFirst (rs_prm rs) i" and b: "b = intervalLast (rs_prm rs) i"
  shows "if prm_modeAuthentication (rs_prm rs) = ModeNative
    then nativeVerdict crp rs i a b key = Inr (replicate (length (int_vecDatagrams ivl)) Passed)
    else \<exists>imp mat. prm_optImprovedParameters (rs_prm rs) = Some imp
      \<and> mkImprovedTeslaStrategy (unat (imp_u32GroupSize imp)) (unat (imp_u32DetectionThreshold imp)) = Inr mat
      \<and> (\<forall>(x, y) \<in> set (groupBounds (Suc (unat b) - unat a) (imp_u32GroupSize imp) b a). \<exists>grp det.
           grpCreateReceived rs i ((x - 1) div imp_u32GroupSize imp + 1) x y = Inr grp
           \<and> improvedVerdict crp mat grp (tagsAt rs y) key = Inr (True, det))"
proof -
  have prm: "rs_prm rs = snd_prm ctx" using same by (simp add: sameSource_def)
  show ?thesis
  proof (cases "prm_modeAuthentication (rs_prm rs) = ModeNative")
    case True
    with build have "buildNativeInterval ctx load crp uctx i a b = Inr (int_vecDatagrams ivl)"
      by (auto simp: buildDataInterval_def Let_def andThen_Inr_iff a b prm)
    from native_interval_passes [OF this key held same] True show ?thesis by simp
  next
    case False
    with build have "buildImprovedInterval ctx load crp uctx i a b = Inr (int_vecDatagrams ivl)"
      by (auto simp: buildDataInterval_def Let_def andThen_Inr_iff a b prm)
    from improved_interval_passes [OF this key held same] False show ?thesis unfolding prm by simp
  qed
qed

text \<open>The sample receiver, holding the sample packet.\<close>

definition one_receiver :: "udp_data \<Rightarrow> receiver_state" where
  "one_receiver d = setRecord 1 (empty_record\<lparr>rec_optPacket := Some d\<rparr>)
     (startReceiver ''r'' 1000 5 (mkReceiverState one_context))"

lemma one_receiver_ok:
  "packetAt (one_receiver d) 1 = Some d" "sameSource one_sender (one_receiver d)" "rs_prm (one_receiver d) = one_round"
  by (simp_all add: one_receiver_def sameSource_def packetAt_def setRecord_def startReceiver_def mkReceiverState_def
      one_context_def one_sender_def one_material_def snd_prm_def one_round_def nth_list_update)

theorem sent_interval_passes_witness:
  "\<exists>rs. nativeVerdict (OpenSslCryptoProvider sample_ssl Sha256) rs 1 1 1 sample_key = Inr [Passed]"
proof -
  obtain ints where ints: "buildDatagrams sample_ssl one_sender one_workload = Inr ints"
    "map int_vecDatagrams ints = [[], [one_datagram], [one_disclosure]]" by (rule one_builtE)
  have n: "prm_nDataIntervalCount (snd_prm one_sender) = 1" "prm_algCryptoAlgorithm (snd_prm one_sender) = Sha256"
    by (simp_all add: one_sender_ok(2) one_round_def)
  obtain uctx where build: "buildDataInterval one_sender one_workload (OpenSslCryptoProvider sample_ssl Sha256) uctx 1 = Inr (ints ! 1)"
    using buildDatagrams_ok [OF one_sender_ok(1) ints(1)] n by (metis le_refl of_nat_1)
  have dg: "int_vecDatagrams (ints ! 1) = [one_datagram]"
    using ints(2) by (auto simp: map_eq_Cons_conv)
  have "carriesInterval one_sender one_workload uctx 1 [one_datagram]"
    using buildDataInterval_carries [OF one_sender_ok(1) _ _ build] dg n by simp
  then obtain d where d: "udp_resDecode one_datagram uctx = Inr (Inr (UdpData d))" "ud_u32PacketIndex d = 1"
    by (auto simp: carriesInterval_def carriesData_def one_sender_ok(2) one_round_def intervalFirst_def
        intervalLast_def indexRange_def)
  have held: "holdsDatagrams (one_receiver d) uctx (int_vecDatagrams (ints ! 1))"
    using d one_receiver_ok(1) [of d] unfolding dg holdsDatagrams_def by simp
  have "digDataKey (snd_keyChain one_sender) (unat (1 :: u32)) = Inr sample_key"
    by (simp add: one_sender_def digDataKey_def)
  from sent_interval_passes [OF build this held one_receiver_ok(2) refl refl, unfolded dg] show ?thesis
    by (auto simp: one_receiver_ok(3) one_round_def intervalFirst_def intervalLast_def)
qed

end
