(* ===== verification/FaultTheorems.thy ===== *)
theory FaultTheorems
  imports Faults SenderTheorems
begin

text \<open>
  What fault injection may drop, and a sample round of Improved TESLA: two packets in one group.
\<close>

section \<open>The sample round\<close>

definition two_round :: round_parameters where
  "two_round = \<lparr>prm_algCryptoAlgorithm = Sha256, prm_modeAuthentication = ModeImproved,
     prm_u32TotalPacketCount = 2, prm_u32PacketsPerInterval = 2, prm_u32DisclosureDelay = 1,
     prm_u32IntervalMilliseconds = 100, prm_u64StartTimestampMilliseconds = 1000,
     prm_nDataIntervalCount = 1,
     prm_optImprovedParameters = Some \<lparr>imp_u32GroupSize = 2, imp_u32DetectionThreshold = 1, imp_nTauCount = 1\<rparr>,
     prm_modePayload = PayloadText\<rparr>"

definition two_context :: udp_context where
  "two_context = \<lparr>ctx_mode = Improved, ctx_u32PacketsPerInterval = 2, ctx_u32DisclosureDelay = 1,
     ctx_u32TotalPacketCount = 2, ctx_u32GroupSize = 2, ctx_nTauCount = 1\<rparr>"

definition two_packet :: udp_data where
  "two_packet = \<lparr>ud_u64ChainId = 7, ud_u32IntervalIndex = 1, ud_u32PacketIndex = 2, ud_arrMessage = sample_key,
     ud_optDisclosedKey = None, ud_varAuthenticationDetails =
       ImprovedUdpDetails (Some \<lparr>ugd_vecSamdTau = [sample_key], ugd_arrFastGroupTag = sample_key\<rparr>)\<rparr>"

lemma two_round_ok: "prm_ok two_round" "ctxCreatePacketContext two_round = Inr two_context"
proof -
  show "prm_ok two_round" by (simp add: prm_ok_def two_round_def MAX_AUTHENTICATION_PACKET_COUNT_def)
  show "ctxCreatePacketContext two_round = Inr two_context" by code_simp
qed

lemma two_datagram: "\<exists>bs. udp_resDecode bs two_context = Inr (Inr (UdpData two_packet))"
proof -
  have "\<not> isl (udp_vecEncode (UdpData two_packet) two_context)" by code_simp
  then obtain bs where "udp_vecEncode (UdpData two_packet) two_context = Inr bs"
    by (cases "udp_vecEncode (UdpData two_packet) two_context") auto
  then have "udp_resDecode bs two_context = Inr (Inr (UdpData two_packet))"
    by (simp add: udp.accepts_iff two_packet_def)
  then show ?thesis ..
qed

section \<open>Tags and disclosures are spared\<close>

lemma decoded_data:
  assumes "udp_resDecode bs uctx = Inr (Inr (UdpData d))"
  shows "ud_u32PacketIndex d \<noteq> 0" "ud_u32PacketIndex d \<le> ctx_u32TotalPacketCount uctx"
    "details_ok uctx (ud_u32PacketIndex d) (ud_varAuthenticationDetails d)"
proof -
  have ok: "packet_ok (UdpData d)" and "udp_vecEncode (UdpData d) uctx = Inr bs"
    using assms by (simp_all add: udp.accepts_iff)
  then have "data_fits uctx d" using encodeData_Inr [OF ok] by (simp add: udp_vecEncode_def)
  then show "ud_u32PacketIndex d \<le> ctx_u32TotalPacketCount uctx"
    "details_ok uctx (ud_u32PacketIndex d) (ud_varAuthenticationDetails d)"
    by (auto simp: data_fits_def u32ExpectedInterval_def split: if_splits)
  show "ud_u32PacketIndex d \<noteq> 0" using ok by simp
qed

lemma tagged_packet_protected:
  assumes prm: "prm_ok prm" and s: "checkProtectedGroupSize prm s = Inr ()"
    and uctx: "ctxCreatePacketContext prm = Inr uctx" "context_ok uctx"
    and dec: "udp_resDecode bs uctx = Inr (Inr (UdpData d))"
    and tags: "ud_varAuthenticationDetails d = ImprovedUdpDetails (Some g)"
    and dvd: "unat s dvd unat (ctx_u32GroupSize uctx)"
  shows "bIsProtectedGroupEnd prm s (ud_u32PacketIndex d)"
proof -
  note D = decoded_data [OF dec]
  have t: "ctx_u32TotalPacketCount uctx = prm_u32TotalPacketCount prm"
    "ctx_u32PacketsPerInterval uctx = prm_u32PacketsPerInterval prm"
    using ctxCreatePacketContext_ok [OF uctx(1)] by simp_all
  from D(3) tags have m: "ctx_mode uctx = Improved" and e: "bIsImprovedGroupEnd uctx (ud_u32PacketIndex d)"
    by (auto simp: details_ok_def)
  have g: "unat (ctx_u32GroupSize uctx) dvd unat (prm_u32PacketsPerInterval prm)"
    using uctx(2) m t by (simp add: context_ok_def)
  have j: "unat (ctx_u32GroupSize uctx) dvd unat (ud_u32PacketIndex d) \<or> ud_u32PacketIndex d = prm_u32TotalPacketCount prm"
    using e t by (auto simp: bIsImprovedGroupEnd_def word_unat_eq_iff unat_mod mod_eq_0_iff_dvd split: if_splits)
  show ?thesis
    by (rule tag_carrier_protected [OF prm s _ _ dvd g j])
      (use D(1,2) t in \<open>simp_all add: word_le_nat_alt unat_gt_0 Suc_le_eq\<close>)
qed

text \<open>C11. A fault policy made for a round decides on every datagram without throwing, whatever it
  decided before, and it always sends the datagrams that disclose a key after the data and, when the
  protected group size of the fault divides the round's group size, those that carry the tags of a
  group of Improved TESLA.\<close>

theorem faults_spare_tags:
  assumes prm: "prm_ok prm" and uctx: "ctxCreatePacketContext prm = Inr uctx"
    and pol: "ptrCreateAuthenticationFaultPolicy shuffle det prm = Inr pol"
    and shuffle: "\<And>seed xs. mset (shuffle seed xs) = mset xs"
    and k: "k < length calls" and dec: "udp_resDecode (fst (calls ! k)) uctx = Inr (Inr p)"
  shows "\<exists>dec. decisions pol calls ! k = Inr dec \<and> (dec_dspDisposition dec = Drop \<longrightarrow> (\<exists>d. p = UdpData d
    \<and> (unat (protectedSize det) dvd unat (ctx_u32GroupSize uctx)
        \<longrightarrow> (\<nexists>g. ud_varAuthenticationDetails d = ImprovedUdpDetails (Some g)))))"
proof -
  have ok: "policy_ok prm (protectedSize det) pol" by (rule created_policy_ok [OF pol shuffle])
  obtain pol' where ok': "policy_ok prm (protectedSize det) pol'"
    and d: "decisions pol calls ! k = fst (decDecide pol' (fst (calls ! k)) (snd (calls ! k)))"
    using decisions_nth [OF ok k] by blast
  obtain dcn where dcn: "decisions pol calls ! k = Inr dcn" and drop: "dec_dspDisposition dcn = Drop \<Longrightarrow>
      \<exists>j. optPacketIndex (fst (calls ! k)) = Some j \<and> \<not> bIsProtectedGroupEnd prm (protectedSize det) j
        \<and> checkProtectedGroupSize prm (protectedSize det) = Inr ()"
    using decDecide_ok [OF ok', of "fst (calls ! k)" "snd (calls ! k)"] d by auto
  have "\<exists>d. p = UdpData d \<and> (unat (protectedSize det) dvd unat (ctx_u32GroupSize uctx)
      \<longrightarrow> (\<nexists>g. ud_varAuthenticationDetails d = ImprovedUdpDetails (Some g)))" if "dec_dspDisposition dcn = Drop"
  proof -
    from drop [OF that] have j: "packetIndexOf p \<noteq> 0" "\<not> bIsProtectedGroupEnd prm (protectedSize det) (packetIndexOf p)"
      "checkProtectedGroupSize prm (protectedSize det) = Inr ()"
      by (auto simp: optPacketIndex_decoded [OF dec] split: if_splits)
    then obtain d where p: "p = UdpData d" by (cases p) (simp_all add: packetIndexOf_def)
    with tagged_packet_protected [OF prm j(3) uctx ctxCreatePacketContext_ok(1) [OF uctx]] dec j(2)
    show ?thesis by (auto simp: packetIndexOf_def)
  qed
  with dcn show ?thesis by blast
qed

text \<open>A loss of all that may be lost spares the packet with the tags.\<close>

definition all_lost :: fault_details where
  "all_lost = PacketLossFault \<lparr>loss_dLossRatePercent = Finite 100, loss_u64RandomSeed = 1, loss_u32ProtectedGroupSize = 1\<rparr>"

theorem faults_spare_tags_witness:
  "\<exists>pol bs dec. ptrCreateAuthenticationFaultPolicy (\<lambda>_ xs. rev xs) all_lost two_round = Inr pol
     \<and> udp_resDecode bs two_context = Inr (Inr (UdpData two_packet))
     \<and> decisions pol [(bs, 1000), (bs, 1050)] ! 1 = Inr dec \<and> dec_dspDisposition dec = Send"
proof -
  obtain bs where bs: "udp_resDecode bs two_context = Inr (Inr (UdpData two_packet))" using two_datagram by blast
  obtain pol where pol: "ptrCreateAuthenticationFaultPolicy (\<lambda>_ xs. rev xs) all_lost two_round = Inr pol"
    by (simp add: all_lost_def mkPacketLossFaultPolicy_def checkProtectedGroupSize_def two_round_def Let_def)
  have "1 < length [(bs, 1000 :: u64), (bs, 1050)]"
    "udp_resDecode (fst ([(bs, 1000 :: u64), (bs, 1050)] ! 1)) two_context = Inr (Inr (UdpData two_packet))"
    using bs by simp_all
  from faults_spare_tags [OF two_round_ok pol _ this] obtain dec where
    "decisions pol [(bs, 1000), (bs, 1050)] ! 1 = Inr dec" "dec_dspDisposition dec = Drop \<Longrightarrow>
      \<nexists>g. ud_varAuthenticationDetails two_packet = ImprovedUdpDetails (Some g)"
    by (auto simp: all_lost_def)
  moreover have "\<exists>g. ud_varAuthenticationDetails two_packet = ImprovedUdpDetails (Some g)"
    by (simp add: two_packet_def)
  ultimately have "dec_dspDisposition dec = Send" by (metis fault_disposition.exhaust)
  with bs pol \<open>decisions pol [(bs, 1000), (bs, 1050)] ! 1 = Inr dec\<close> show ?thesis by blast
qed

section \<open>The packets lost\<close>

lemma distinct_indexRange: "distinct (indexRange a b)"
  unfolding distinct_conv_nth by (metis indexRange_nth(2) add_left_cancel)

text \<open>C15. The loss policy drops, of the packets that are not protected, a number that is the configured
  share of them up to rounding (and so never more than there are, all of them at 100 percent and none
  at 0), chosen once per round; it drops a datagram exactly when it carries one of them.\<close>

theorem loss_exact:
  assumes prm: "prm_ok prm" and det: "mkPacketLossFaultDetails (Finite p) seed s = Inr det"
    and pol: "mkPacketLossFaultPolicy shuffle det prm = Inr pol"
    and shuffle: "\<And>seed xs. mset (shuffle seed xs) = mset xs"
  shows "flt_setDroppedPacketIndexes pol \<subseteq> set (vecEligibleIndexes prm s)
    \<and> \<bar>of_nat (card (flt_setDroppedPacketIndexes pol)) - p * of_nat (card (set (vecEligibleIndexes prm s))) / 100\<bar>
        \<le> 1 / 2 + 1 / 1000000
    \<and> (\<exists>reason. decDecide (PacketLossFaultPolicy pol) bs t =
        (Inr \<lparr>dec_dspDisposition = (if \<exists>j \<in> flt_setDroppedPacketIndexes pol. optPacketIndex bs = Some j then Drop else Send),
              dec_u32DelayMilliseconds = 0, dec_strReason = reason\<rparr>, PacketLossFaultPolicy pol))"
proof -
  let ?el = "vecEligibleIndexes prm s"
  have p: "0 \<le> p" "p \<le> 100" and d: "det = \<lparr>loss_dLossRatePercent = Finite p, loss_u64RandomSeed = seed,
      loss_u32ProtectedGroupSize = s\<rparr>"
    using det by (auto simp: mkPacketLossFaultDetails_def split: if_splits)
  have len: "length (shuffle seed ?el) = length ?el" and set: "set (shuffle seed ?el) = set ?el"
    using shuffle by (metis size_mset, metis mset_eq_setD)
  have dist: "distinct ?el"
    unfolding vecEligibleIndexes_def by (rule distinct_filter [OF distinct_indexRange])
  then have dist': "distinct (shuffle seed ?el)" using shuffle by (metis mset_eq_imp_distinct_iff)
  have n: "length ?el \<le> 200000"
  proof -
    have "length ?el \<le> length (indexRange 1 (prm_u32TotalPacketCount prm))"
      unfolding vecEligibleIndexes_def by (rule length_filter_le)
    with prm_ok_bounds(2) [OF prm] show ?thesis by (simp add: length_indexRange)
  qed
  let ?n = "nDropCount (Finite p) (length ?el)"
  note N = nDropCount_bounds [OF p n]
  have drop: "flt_setDroppedPacketIndexes pol = set (take ?n (shuffle seed ?el))"
    using pol N(1) by (auto simp: mkPacketLossFaultPolicy_def d andThen_Inr_iff Let_def len min_def)
  have "card (flt_setDroppedPacketIndexes pol) = ?n"
    unfolding drop using distinct_card [OF distinct_take [OF dist']] N(1) by (simp add: len)
  moreover have "card (set ?el) = length ?el" by (rule distinct_card [OF dist])
  moreover have "flt_setDroppedPacketIndexes pol \<subseteq> set ?el"
    unfolding drop using set by (auto dest: in_set_takeD)
  ultimately show ?thesis
    using N(2) by (auto simp: loss_decDecide_def mkDatagramFaultDecision_def split: option.splits)
qed

theorem loss_exact_witness:
  "\<exists>det pol. mkPacketLossFaultDetails (Finite 100) 1 2 = Inr det
     \<and> mkPacketLossFaultPolicy (\<lambda>_ xs. rev xs) det two_round = Inr pol
     \<and> card (flt_setDroppedPacketIndexes pol) = 1"
proof -
  obtain det where det: "mkPacketLossFaultDetails (Finite 100) 1 2 = Inr det"
    by (simp add: mkPacketLossFaultDetails_def)
  then obtain pol where pol: "mkPacketLossFaultPolicy (\<lambda>_ xs. rev xs) det two_round = Inr pol"
    by (auto simp: mkPacketLossFaultPolicy_def mkPacketLossFaultDetails_def checkProtectedGroupSize_def two_round_def Let_def)
  have "card (set (vecEligibleIndexes two_round 2)) = 1" by code_simp
  with loss_exact [OF two_round_ok(1) det pol, of "[]" 0]
  have "\<bar>of_nat (card (flt_setDroppedPacketIndexes pol)) - 1 :: rat\<bar> \<le> 1 / 2 + 1 / 1000000" by simp
  then have "card (flt_setDroppedPacketIndexes pol) = 1"
    by (cases "card (flt_setDroppedPacketIndexes pol)") (auto simp: abs_le_iff)
  with det pol show ?thesis by blast
qed

section \<open>What the protected size must be\<close>

text \<open>A protected group size of 3 is accepted for groups of 2 packets in intervals of 6, and then packet
  2, which carries the tags of the first group, may be dropped.\<close>

lemma tag_carrier_unprotected:
  assumes "prm_u32PacketsPerInterval prm = 6" "prm_u32TotalPacketCount prm = 6"
    and "ctx_mode uctx = Improved" "ctx_u32GroupSize uctx = 2"
  shows "checkProtectedGroupSize prm 3 = Inr ()" "bIsImprovedGroupEnd uctx 2" "\<not> bIsProtectedGroupEnd prm 3 2"
  using assms by (simp_all add: checkProtectedGroupSize_def bIsImprovedGroupEnd_def bIsProtectedGroupEnd_def Let_def)

end
