(* ===== verification/CommunicationCost.thy ===== *)
theory CommunicationCost
  imports Actions
begin

text \<open>
  \<open>CommunicationCost.cpp\<close> and the communication cost values of \<open>AuthenticationMetrics.cpp\<close>: the
  number of bytes the algorithm's fields of a round take, by a closed formula and accumulated datagram
  by datagram. \<open>std::overflow_error\<close> is a \<open>std::runtime_error\<close>.
\<close>

datatype AuthenticationMetricMode = MetricNative | MetricImproved

datatype communication_cost =
    NativeCommunicationCost u64 u64 u64
  | ImprovedCommunicationCost u64 u64 u64 u64

record cost_summary =
  cs_u64TimestampMilliseconds :: u64
  cs_strRoundId :: string
  cs_strSenderId :: string
  cs_u64ChainId :: u64
  cs_varDetails :: communication_cost

definition mkCommunicationCostMetricSummary :: "u64 \<Rightarrow> string \<Rightarrow> string \<Rightarrow> u64 \<Rightarrow> communication_cost \<Rightarrow> cost_summary result"
where
  "mkCommunicationCostMetricSummary u64Timestamp strRoundId strSenderId u64ChainId varDetails =
     (if u64Timestamp = 0 \<or> strRoundId = [] \<or> strSenderId = []
      then Inl (InvalidArgument ''Communication cost metric summary is invalid'')
      else Inr \<lparr>cs_u64TimestampMilliseconds = u64Timestamp, cs_strRoundId = strRoundId,
                cs_strSenderId = strSenderId, cs_u64ChainId = u64ChainId, cs_varDetails = varDetails\<rparr>)"

fun cs_modeAuthentication :: "communication_cost \<Rightarrow> AuthenticationMetricMode" where
  "cs_modeAuthentication (NativeCommunicationCost _ _ _) = MetricNative"
| "cs_modeAuthentication (ImprovedCommunicationCost _ _ _ _) = MetricImproved"

fun u64TotalBytes :: "communication_cost \<Rightarrow> u64" where
  "u64TotalBytes (NativeCommunicationCost u64Message u64Key u64Mac) = u64Message + u64Key + u64Mac"
| "u64TotalBytes (ImprovedCommunicationCost u64Message u64Key u64Tau u64Fast) = u64Message + u64Key + u64Tau + u64Fast"

section \<open>The closed formula\<close>

definition ALGORITHM_FIELD_SIZE :: u64 where "ALGORITHM_FIELD_SIZE = 32"

definition u64MultiplyFieldCount :: "u64 \<Rightarrow> u64 result" where
  "u64MultiplyFieldCount u64FieldCount =
     (if u64FieldCount > 0xFFFFFFFFFFFFFFFF div ALGORITHM_FIELD_SIZE
      then Inl (RuntimeError ''Communication cost field count overflows'')
      else Inr (u64FieldCount * ALGORITHM_FIELD_SIZE))"

definition sumNative :: "u64 \<Rightarrow> string \<Rightarrow> string \<Rightarrow> u64 \<Rightarrow> u64 \<Rightarrow> u64 \<Rightarrow> cost_summary result" where
  "sumNative u64Timestamp strRoundId strSenderId u64ChainId u64PacketCount u64DataIntervalCount =
     andThen (u64MultiplyFieldCount u64PacketCount) (\<lambda>u64MessageBytes.
     andThen (u64MultiplyFieldCount u64DataIntervalCount) (\<lambda>u64KeyBytes.
     andThen (u64MultiplyFieldCount u64PacketCount) (\<lambda>u64MacBytes.
       mkCommunicationCostMetricSummary u64Timestamp strRoundId strSenderId u64ChainId
         (NativeCommunicationCost u64MessageBytes u64KeyBytes u64MacBytes))))"

definition sumImproved :: "u64 \<Rightarrow> string \<Rightarrow> string \<Rightarrow> u64 \<Rightarrow> u64 \<Rightarrow> u64 \<Rightarrow> u64 \<Rightarrow> u64 \<Rightarrow> cost_summary result"
where
  "sumImproved u64Timestamp strRoundId strSenderId u64ChainId u64PacketCount u64DataIntervalCount u64TauCount
      u64GroupCount =
     andThen (u64MultiplyFieldCount u64PacketCount) (\<lambda>u64MessageBytes.
     andThen (u64MultiplyFieldCount u64DataIntervalCount) (\<lambda>u64KeyBytes.
     andThen (u64MultiplyFieldCount u64TauCount) (\<lambda>u64TauBytes.
     andThen (u64MultiplyFieldCount u64GroupCount) (\<lambda>u64FastBytes.
       mkCommunicationCostMetricSummary u64Timestamp strRoundId strSenderId u64ChainId
         (ImprovedCommunicationCost u64MessageBytes u64KeyBytes u64TauBytes u64FastBytes)))))"

definition u64NativeDataPacketBytes :: u64 where
  "u64NativeDataPacketBytes = ALGORITHM_FIELD_SIZE * 2"

definition u64ImprovedDataPacketBytes :: "nat \<Rightarrow> bool \<Rightarrow> u64 result" where
  "u64ImprovedDataPacketBytes nTauCount bHasFastGroupTag =
     u64MultiplyFieldCount (1 + of_nat nTauCount + (if bHasFastGroupTag then 1 else 0))"

definition u64DisclosedKeyBytes :: u64 where
  "u64DisclosedKeyBytes = ALGORITHM_FIELD_SIZE"

section \<open>The accumulator\<close>

record cost_accumulator =
  acc_modeAuthentication :: AuthenticationMetricMode
  acc_u64MessageBytes :: u64
  acc_u64KeyBytes :: u64
  acc_u64MacBytes :: u64
  acc_u64TauBytes :: u64
  acc_u64FastGroupTagBytes :: u64

definition mkCommunicationCostAccumulator :: "AuthenticationMetricMode \<Rightarrow> cost_accumulator" where
  "mkCommunicationCostAccumulator mode =
     \<lparr>acc_modeAuthentication = mode, acc_u64MessageBytes = 0, acc_u64KeyBytes = 0, acc_u64MacBytes = 0,
      acc_u64TauBytes = 0, acc_u64FastGroupTagBytes = 0\<rparr>"

definition addNativeDataPacket :: "(cost_accumulator, unit) act" where
  "addNativeDataPacket = bindA (getA acc_modeAuthentication) (\<lambda>mode.
     if mode \<noteq> MetricNative
     then throwA (LogicError ''Native packet cannot enter an improved accumulator'')
     else modifyA (\<lambda>acc. acc\<lparr>acc_u64MessageBytes := acc_u64MessageBytes acc + ALGORITHM_FIELD_SIZE,
       acc_u64MacBytes := acc_u64MacBytes acc + ALGORITHM_FIELD_SIZE\<rparr>))"

definition addImprovedDataPacket :: "nat \<Rightarrow> bool \<Rightarrow> (cost_accumulator, unit) act" where
  "addImprovedDataPacket nTauCount bHasFastGroupTag = bindA (getA acc_modeAuthentication) (\<lambda>mode.
     if mode \<noteq> MetricImproved
     then throwA (LogicError ''Improved packet cannot enter a native accumulator'')
     else thenA (modifyA (\<lambda>acc. acc\<lparr>acc_u64MessageBytes := acc_u64MessageBytes acc + ALGORITHM_FIELD_SIZE\<rparr>))
       (bindA (liftA (u64MultiplyFieldCount (of_nat nTauCount))) (\<lambda>u64TauBytes.
        thenA (modifyA (\<lambda>acc. acc\<lparr>acc_u64TauBytes := acc_u64TauBytes acc + u64TauBytes\<rparr>))
          (whenA bHasFastGroupTag (modifyA (\<lambda>acc.
             acc\<lparr>acc_u64FastGroupTagBytes := acc_u64FastGroupTagBytes acc + ALGORITHM_FIELD_SIZE\<rparr>))))))"

definition addDisclosedKey :: "(cost_accumulator, unit) act" where
  "addDisclosedKey = modifyA (\<lambda>acc. acc\<lparr>acc_u64KeyBytes := acc_u64KeyBytes acc + ALGORITHM_FIELD_SIZE\<rparr>)"

definition acc_varDetails :: "cost_accumulator \<Rightarrow> communication_cost" where
  "acc_varDetails acc =
     (if acc_modeAuthentication acc = MetricNative
      then NativeCommunicationCost (acc_u64MessageBytes acc) (acc_u64KeyBytes acc) (acc_u64MacBytes acc)
      else ImprovedCommunicationCost (acc_u64MessageBytes acc) (acc_u64KeyBytes acc) (acc_u64TauBytes acc)
        (acc_u64FastGroupTagBytes acc))"

definition sumCreate :: "cost_accumulator \<Rightarrow> u64 \<Rightarrow> string \<Rightarrow> string \<Rightarrow> u64 \<Rightarrow> cost_summary result" where
  "sumCreate acc u64Timestamp strRoundId strSenderId u64ChainId =
     mkCommunicationCostMetricSummary u64Timestamp strRoundId strSenderId u64ChainId (acc_varDetails acc)"

end
