(* ===== verification/SenderRuntime.thy ===== *)
theory SenderRuntime
  imports Faults CommunicationCost Machines
begin

text \<open>
  The sender runtime, \<open>AuthenticationSenderRuntime.cpp\<close>: its members, the calls of its interface and
  its worker thread \<open>run()\<close>. The worker is a state machine: its program counter is the point between
  two sections in which it holds the lock or waits, and a step runs to the next one. What leaves the
  runtime through its callbacks is appended to \<open>sn_out\<close>. Time is an argument: a step reads the system
  clock in milliseconds and the steady clock in nanoseconds.
\<close>

section \<open>State\<close>

datatype key_chain_observation =
    ObsKeyChainSnapshot local_key_chain_snapshot
  | ObsKeyChainProgress local_key_chain_progress

text \<open>
  \<open>EvSent i n bs bSent t\<close> is the call of the datagram callback with datagram \<open>n\<close> of interval \<open>i\<close> at
  system time \<open>t\<close> and what it returned. Two events leave no trace outside and are kept to state what
  the worker did: \<open>EvDropped\<close>, a datagram the fault policy dropped, and \<open>EvSegment i t\<close>, the start of a
  run of intervals from \<open>i\<close> once the system clock reached \<open>t\<close>.
\<close>

datatype sender_event =
    EvSent u32 nat "byte list" bool u64
  | EvDropped u32 nat "byte list"
  | EvSegment u32 u64
  | EvObservation observation
  | EvKeyChain key_chain_observation
  | EvMetric cost_summary
  | EvResult runtime_result

datatype sender_pc =
    PcIdle
  | PcWaitStart
  | PcLoop u32
  | PcWaitInterval u32
  | PcDatagram u32 nat
  | PcDelayed u32 nat fault_decision
  | PcAfter u32
  | PcCheckPause u32
  | PcWaitPause u32 u64
  | PcEnterPause u32
  | PcPaused u32
  | PcWaitResume u32 u32 u64
  | PcEnd bool
  | PcFinish
  | PcTerminated

record sender_runtime =
  sn_optSenderContext :: "sender_context option"
  sn_optPayloadWorkload :: "sender_workload option"
  sn_optFaultDetails :: "fault_details option"
  sn_ptrFaultPolicy :: "fault_policy option"
  sn_optCommunicationAccumulator :: "cost_accumulator option"
  sn_vecIntervals :: "interval_datagrams list"
  sn_strRoundId :: string
  sn_u64StartTimestampMilliseconds :: u64
  sn_u64PauseTimestampMilliseconds :: u64
  sn_u64ResumeTimestampMilliseconds :: u64
  sn_optPauseAfterInterval :: "u32 option"
  sn_optResumeInterval :: "u32 option"
  sn_u32CurrentInterval :: u32
  sn_u32SentDataPacketCount :: u32
  sn_durWorstGeneration :: int
  sn_durWorstObservedSend :: int
  sn_bConfigured :: bool
  sn_bRunning :: bool
  sn_bPaused :: bool
  sn_bStopRequested :: bool
  sn_bCommunicationMetricEmitted :: bool
  sn_u64NextObservationEventId :: u64
  sn_pc :: sender_pc
  sn_tpSegmentStart :: int
  sn_u32SegmentFirstInterval :: u32
  sn_out :: "sender_event list"

definition sender_initial :: sender_runtime where
  "sender_initial = \<lparr>sn_optSenderContext = None, sn_optPayloadWorkload = None, sn_optFaultDetails = None,
     sn_ptrFaultPolicy = None, sn_optCommunicationAccumulator = None, sn_vecIntervals = [], sn_strRoundId = [],
     sn_u64StartTimestampMilliseconds = 0, sn_u64PauseTimestampMilliseconds = 0,
     sn_u64ResumeTimestampMilliseconds = 0, sn_optPauseAfterInterval = None, sn_optResumeInterval = None,
     sn_u32CurrentInterval = 0, sn_u32SentDataPacketCount = 0, sn_durWorstGeneration = 0,
     sn_durWorstObservedSend = 0, sn_bConfigured = False, sn_bRunning = False, sn_bPaused = False,
     sn_bStopRequested = False, sn_bCommunicationMetricEmitted = False, sn_u64NextObservationEventId = 1,
     sn_pc = PcIdle, sn_tpSegmentStart = 0, sn_u32SegmentFirstInterval = 1, sn_out = []\<rparr>"

text \<open>What the runtime is built with: OpenSSL, the shuffle, which handlers there are, its address.\<close>

record 'g sender_env =
  se_ssl :: "'g openssl"
  se_shuffle :: shuffle
  se_bObserve :: bool
  se_bKeyChain :: bool
  se_bMetrics :: bool
  se_strLocalIpAddress :: string

text \<open>What a step is given: the clocks, and of the datagram callback the answer and the steady time after it.\<close>

record sender_tick =
  tk_u64Now :: u64
  tk_tpNow :: int
  tk_bSent :: bool
  tk_tpAfter :: int

definition logEvent :: "sender_event \<Rightarrow> sender_runtime \<Rightarrow> sender_runtime" where
  "logEvent ev rt = rt\<lparr>sn_out := sn_out rt @ [ev]\<rparr>"

definition goto :: "sender_pc \<Rightarrow> sender_runtime \<Rightarrow> sender_runtime" where
  "goto pc rt = rt\<lparr>sn_pc := pc\<rparr>"

text \<open>\<open>m_optSenderContext->...\<close>, where the code has checked that there is one.\<close>

abbreviation sn_ctx :: "sender_runtime \<Rightarrow> sender_context" where
  "sn_ctx rt \<equiv> the (sn_optSenderContext rt)"

abbreviation sn_prm :: "sender_runtime \<Rightarrow> round_parameters" where
  "sn_prm rt \<equiv> snd_prm (sn_ctx rt)"

section \<open>What the worker reports\<close>

text \<open>A \<open>noexcept\<close> reporting function with its \<open>try { m } catch (...) {}\<close>.\<close>

definition quietly :: "(sender_runtime, unit) act \<Rightarrow> sender_runtime \<Rightarrow> sender_runtime" where
  "quietly m rt = snd (catchA m (retA ()) rt)"

definition takeEventId :: "(sender_runtime, u64) act" where
  "takeEventId = bindA (getA sn_u64NextObservationEventId) (\<lambda>u64EventId.
     thenA (modifyA (\<lambda>rt. rt\<lparr>sn_u64NextObservationEventId := u64EventId + 1\<rparr>)) (retA u64EventId))"

definition packetObservation :: "'g sender_env \<Rightarrow> sender_runtime \<Rightarrow> byte list \<Rightarrow> udp_packet \<Rightarrow> bool \<Rightarrow> u64 \<Rightarrow> string
    \<Rightarrow> u64 \<Rightarrow> packet_observation result" where
  "packetObservation env rt vecDatagram udp bSent u64Timestamp strReason u64EventId =
     andThen (strCandidateHash (se_ssl env) vecDatagram) (\<lambda>strHash.
     andThen (varPayloadDetails udp) (\<lambda>varPayload.
       mkPacketObservation
         \<lparr>po_u64EventId = u64EventId, po_u64TimestampMilliseconds = u64Timestamp,
          po_strRoundId = sn_strRoundId rt, po_strSenderId = mat_strSenderId (snd_matMaterial (sn_ctx rt)),
          po_strSenderIp = se_strLocalIpAddress env, po_strActualSourceIp = se_strLocalIpAddress env,
          po_strPeer = ''TESLA_MULTICAST'', po_dirDirection = Tx, po_typeSource = NormalSender,
          po_u64ChainId = mat_u64ChainId (snd_matMaterial (sn_ctx rt)),
          po_u32IntervalIndex = fst (observedIndexes udp), po_u32PacketIndex = snd (observedIndexes udp),
          po_u32PacketsPerInterval = prm_u32PacketsPerInterval (sn_prm rt),
          po_u32DisclosureDelay = prm_u32DisclosureDelay (sn_prm rt),
          po_algCryptoAlgorithm = algMap (prm_algCryptoAlgorithm (sn_prm rt)),
          po_modeAuthentication = modeMap (prm_modeAuthentication (sn_prm rt)),
          po_statusAuthentication = (if bSent then AuthGenerated else AuthFailed),
          po_strCandidateHash = strHash, po_u32DuplicateCount = 1, po_strReason = strReason,
          po_varPayloadDetails = varPayload, po_vecRawDatagram = vecDatagram\<rparr>))"

text \<open>The round's own packet context decodes what the sender sends.\<close>

definition resDecodeOwn :: "sender_runtime \<Rightarrow> byte list \<Rightarrow> udp_packet decoded result" where
  "resDecodeOwn rt vecDatagram =
     andThen (ctxCreatePacketContext (sn_prm rt)) (\<lambda>uctx. udp_resDecode vecDatagram uctx)"

definition emitPacketObservation :: "'g sender_env \<Rightarrow> byte list \<Rightarrow> bool \<Rightarrow> u64 \<Rightarrow> string
    \<Rightarrow> sender_runtime \<Rightarrow> sender_runtime" where
  "emitPacketObservation env vecDatagram bSent u64Timestamp strReason rt =
     (if \<not> se_bObserve env \<or> sn_optSenderContext rt = None then rt
      else quietly
        (bindA (liftA (resDecodeOwn rt vecDatagram)) (\<lambda>resPacket.
         case resPacket of
           Inl _ \<Rightarrow> retA ()
         | Inr udp \<Rightarrow>
             bindA takeEventId (\<lambda>u64EventId.
             bindA (liftA (packetObservation env rt vecDatagram udp bSent u64Timestamp strReason u64EventId)) (\<lambda>po.
               modifyA (logEvent (EvObservation (ObsPacket po))))))) rt)"

definition accumulateA :: "(cost_accumulator, unit) act \<Rightarrow> (sender_runtime, unit) act" where
  "accumulateA m rt =
     (case sn_optCommunicationAccumulator rt of
        None \<Rightarrow> (Inr (), rt)
      | Some acc \<Rightarrow> (case m acc of (r, acc) \<Rightarrow> (r, rt\<lparr>sn_optCommunicationAccumulator := Some acc\<rparr>)))"

fun accumulatePacket :: "udp_packet \<Rightarrow> (cost_accumulator, unit) act" where
  "accumulatePacket (UdpDisclosure _) = addDisclosedKey"
| "accumulatePacket (UdpData d) =
     thenA (whenA (ud_optDisclosedKey d \<noteq> None) addDisclosedKey)
       (case ud_varAuthenticationDetails d of
          NativeUdpDetails _ \<Rightarrow> addNativeDataPacket
        | ImprovedUdpDetails optGroup \<Rightarrow>
            addImprovedDataPacket (case optGroup of None \<Rightarrow> 0 | Some det \<Rightarrow> length (ugd_vecSamdTau det))
              (optGroup \<noteq> None))"

definition recordSentAuthenticationFields :: "byte list \<Rightarrow> sender_runtime \<Rightarrow> sender_runtime" where
  "recordSentAuthenticationFields vecDatagram rt =
     (if sn_optCommunicationAccumulator rt = None \<or> sn_optSenderContext rt = None then rt
      else quietly
        (bindA (liftA (resDecodeOwn rt vecDatagram)) (\<lambda>resPacket.
         case resPacket of
           Inl _ \<Rightarrow> retA ()
         | Inr udp \<Rightarrow> accumulateA (accumulatePacket udp))) rt)"

definition emitLocalKeyChainObservation :: "'g sender_env \<Rightarrow> key_chain_observation \<Rightarrow> sender_runtime \<Rightarrow> sender_runtime"
where
  "emitLocalKeyChainObservation env ob rt =
     (if \<not> se_bKeyChain env then rt else logEvent (EvKeyChain ob) rt)"

definition keyChainProgress :: "sender_runtime \<Rightarrow> u32 \<Rightarrow> bool \<Rightarrow> local_key_chain_progress result" where
  "keyChainProgress rt u32LogicalInterval bCompleted =
     (let u32DataIntervalCount = of_nat (prm_nDataIntervalCount (sn_prm rt)) :: u32;
          u32DisclosureDelay = prm_u32DisclosureDelay (sn_prm rt);
          u32CurrentKeyIndex =
            (if u32LogicalInterval \<le> u32DataIntervalCount \<and> \<not> bCompleted then u32LogicalInterval else 0);
          u32DisclosedThrough =
            (if u32LogicalInterval > u32DisclosureDelay
             then min u32DataIntervalCount (u32LogicalInterval - u32DisclosureDelay) else 0)
      in mkLocalSenderKeyChainProgress (sn_strRoundId rt) (mat_u64ChainId (snd_matMaterial (sn_ctx rt)))
           u32CurrentKeyIndex (if bCompleted then u32DataIntervalCount else u32DisclosedThrough) bCompleted)"

definition emitKeyChainProgress :: "'g sender_env \<Rightarrow> u32 \<Rightarrow> bool \<Rightarrow> sender_runtime \<Rightarrow> sender_runtime" where
  "emitKeyChainProgress env u32LogicalInterval bCompleted rt =
     (if \<not> se_bKeyChain env \<or> sn_optSenderContext rt = None then rt
      else quietly (bindA (liftA (keyChainProgress rt u32LogicalInterval bCompleted)) (\<lambda>progress.
        modifyA (emitLocalKeyChainObservation env (ObsKeyChainProgress progress)))) rt)"

definition schedulingFailure :: "sender_runtime \<Rightarrow> u64 \<Rightarrow> u64 \<Rightarrow> packet_failure result" where
  "schedulingFailure rt u64Now u64EventId =
     mkPacketFailure
       \<lparr>pf_u64EventId = u64EventId, pf_u64PacketEventId = 0, pf_u64TimestampMilliseconds = u64Now,
        pf_sevSeverity = SevError, pf_typeFailure = FailInvalidSchedulingOverrun,
        pf_strRoundId = sn_strRoundId rt, pf_strSenderId = mat_strSenderId (snd_matMaterial (sn_ctx rt)),
        pf_strSenderIp = [], pf_strActualSourceIp = [],
        pf_u64ChainId = mat_u64ChainId (snd_matMaterial (sn_ctx rt)),
        pf_u32IntervalIndex = sn_u32CurrentInterval rt, pf_u32PacketIndex = sn_u32SentDataPacketCount rt + 1,
        pf_optGroupIndex = None, pf_strCandidateHash = [],
        pf_strReason = ''Authentication interval exceeded its runtime deadline; remaining datagrams were not sent'',
        pf_strReceivedTagDigest = [], pf_strCalculatedTagDigest = [], pf_vecLocatedPacketIndexes = [],
        pf_u32DuplicateCount = 1\<rparr>"

definition emitSchedulingFailure :: "'g sender_env \<Rightarrow> u64 \<Rightarrow> sender_runtime \<Rightarrow> sender_runtime" where
  "emitSchedulingFailure env u64Now rt =
     (if \<not> se_bObserve env \<or> sn_optSenderContext rt = None then rt
      else quietly (bindA takeEventId (\<lambda>u64EventId.
        bindA (liftA (schedulingFailure rt u64Now u64EventId)) (\<lambda>pf.
          modifyA (logEvent (EvObservation (ObsFailure pf)))))) rt)"

definition resultDetails :: "sender_runtime \<Rightarrow> result_details result" where
  "resultDetails rt =
     (case sn_optPayloadWorkload rt of
        Some (FileSenderWorkload wrk) \<Rightarrow> mkFileSenderResultDetails (of_nat (length (m_vecFileBytes wrk)))
      | _ \<Rightarrow> Inr (TextResultDetails []))"

text \<open>The communication summary, created at most once per round.\<close>

definition takeSummary :: "'g sender_env \<Rightarrow> u64 \<Rightarrow> (sender_runtime, cost_summary option) act" where
  "takeSummary env u64Now rt =
     (case sn_optCommunicationAccumulator rt of
        Some acc \<Rightarrow>
          if se_bMetrics env \<and> \<not> sn_bCommunicationMetricEmitted rt
          then bindA (liftA (sumCreate acc u64Now (sn_strRoundId rt) (mat_strSenderId (snd_matMaterial (sn_ctx rt)))
                 (mat_u64ChainId (snd_matMaterial (sn_ctx rt))))) (\<lambda>cs.
               thenA (modifyA (\<lambda>rt. rt\<lparr>sn_bCommunicationMetricEmitted := True\<rparr>)) (retA (Some cs))) rt
          else (Inr None, rt)
      | None \<Rightarrow> (Inr None, rt))"

definition senderResult :: "sender_runtime \<Rightarrow> AuthenticationRuntimeResultStatus \<Rightarrow> string \<Rightarrow> result_details
    \<Rightarrow> runtime_result result" where
  "senderResult rt statusResult strMessage varDetails =
     (let u32Expected = prm_u32TotalPacketCount (sn_prm rt);
          u32Sent = min (sn_u32SentDataPacketCount rt) u32Expected
      in mkAuthenticationRuntimeResult
        \<lparr>res_strRoundId = sn_strRoundId rt, res_strSenderId = mat_strSenderId (snd_matMaterial (sn_ctx rt)),
         res_u64ChainId = mat_u64ChainId (snd_matMaterial (sn_ctx rt)), res_statusResult = statusResult,
         res_u32ExpectedPacketCount = u32Expected, res_u32ReceivedPacketCount = u32Sent,
         res_u32AuthenticatedPacketCount = (if statusResult = Completed then u32Sent else 0),
         res_u32FailedPacketCount = 0, res_u32MissingPacketCount = u32Expected - u32Sent,
         res_varResultDetails = varDetails, res_strMessage = strMessage\<rparr>)"

definition emitResult :: "'g sender_env \<Rightarrow> u64 \<Rightarrow> AuthenticationRuntimeResultStatus \<Rightarrow> string
    \<Rightarrow> sender_runtime \<Rightarrow> sender_runtime" where
  "emitResult env u64Now statusResult strMessage rt =
     (if sn_optSenderContext rt = None then rt
      else quietly
        (bindA (takeSummary env u64Now) (\<lambda>optSummary.
         bindA (liftA (resultDetails rt)) (\<lambda>varDetails.
         thenA (case optSummary of None \<Rightarrow> retA () | Some cs \<Rightarrow> modifyA (logEvent (EvMetric cs)))
           (bindA (liftA (senderResult rt statusResult strMessage varDetails)) (\<lambda>res.
              modifyA (logEvent (EvResult res))))))) rt)"

section \<open>The worker\<close>

text \<open>A wait on the condition variable: over when a stop is requested or the time has come.\<close>

definition waitFor :: "bool \<Rightarrow> sender_pc \<Rightarrow> (sender_runtime \<Rightarrow> sender_runtime) \<Rightarrow> sender_runtime \<Rightarrow> sender_runtime"
where
  "waitFor bReached pcStopped fnReached rt =
     (if sn_bStopRequested rt then goto pcStopped rt else if bReached then fnReached rt else rt)"

definition sn_durInterval :: "sender_runtime \<Rightarrow> int" where
  "sn_durInterval rt = int (unat (prm_u32IntervalMilliseconds (sn_prm rt))) * 1000000"

text \<open>The difference of the interval indexes is of \<open>uint32\<close>.\<close>

definition tpIntervalStart :: "sender_runtime \<Rightarrow> u32 \<Rightarrow> int" where
  "tpIntervalStart rt i =
     sn_tpSegmentStart rt + sn_durInterval rt * int (unat (i - sn_u32SegmentFirstInterval rt))"

definition intervalAt :: "sender_runtime \<Rightarrow> u32 \<Rightarrow> interval_datagrams" where
  "intervalAt rt i = sn_vecIntervals rt ! unat i"

definition durPacketGap :: "sender_runtime \<Rightarrow> u32 \<Rightarrow> int" where
  "durPacketGap rt i =
     (let n = length (int_vecDatagrams (intervalAt rt i)) in if n > 1 then sn_durInterval rt div int n else 0)"

definition tpSendTarget :: "sender_runtime \<Rightarrow> u32 \<Rightarrow> nat \<Rightarrow> int" where
  "tpSendTarget rt i n = tpIntervalStart rt i + durPacketGap rt i * int n"

definition durFaultDelay :: "fault_decision \<Rightarrow> int" where
  "durFaultDelay dec = int (unat (dec_u32DelayMilliseconds dec)) * 1000000"

definition NORMAL_SEND :: fault_decision where
  "NORMAL_SEND = \<lparr>dec_dspDisposition = Send, dec_u32DelayMilliseconds = 0, dec_strReason = ''NORMAL_SEND''\<rparr>"

definition decideFault :: "sender_runtime \<Rightarrow> byte list \<Rightarrow> u64 \<Rightarrow> fault_decision result \<times> sender_runtime" where
  "decideFault rt vecDatagram u64Now =
     (case sn_ptrFaultPolicy rt of
        None \<Rightarrow> (Inr NORMAL_SEND, rt)
      | Some pol \<Rightarrow> (case decDecide pol vecDatagram u64Now of (dec, pol) \<Rightarrow> (dec, rt\<lparr>sn_ptrFaultPolicy := Some pol\<rparr>)))"

definition sendDatagram :: "'g sender_env \<Rightarrow> sender_tick \<Rightarrow> u32 \<Rightarrow> nat \<Rightarrow> fault_decision \<Rightarrow> sender_runtime
    \<Rightarrow> sender_runtime" where
  "sendDatagram env tick i n dec rt =
     (let vecDatagram = int_vecDatagrams (intervalAt rt i) ! n; bSent = tk_bSent tick;
          rt = logEvent (EvSent i n vecDatagram bSent (tk_u64Now tick)) rt;
          rt = (if bSent then recordSentAuthenticationFields vecDatagram rt else rt);
          rt = emitPacketObservation env vecDatagram bSent (tk_u64Now tick)
                 (if bSent then dec_strReason dec else ''DATAGRAM_SEND_FAILED'') rt;
          rt = rt\<lparr>sn_durWorstObservedSend := max (sn_durWorstObservedSend rt) (tk_tpAfter tick - tk_tpNow tick)\<rparr>
      in if \<not> bSent \<or> tk_tpAfter tick \<ge> tpIntervalStart rt i + sn_durInterval rt + durFaultDelay dec
         then goto (PcEnd True) rt
         else if n < unat (int_u32DataPacketCount (intervalAt rt i))
         then goto (PcDatagram i (n + 1)) (rt\<lparr>sn_u32SentDataPacketCount := sn_u32SentDataPacketCount rt + 1\<rparr>)
         else goto (PcDatagram i (n + 1)) rt)"

text \<open>Once the datagram's time has come: what the fault policy decides on it.\<close>

definition decideDatagram :: "'g sender_env \<Rightarrow> sender_tick \<Rightarrow> u32 \<Rightarrow> nat \<Rightarrow> sender_runtime \<Rightarrow> sender_runtime" where
  "decideDatagram env tick i n rt =
     (let vecDatagram = int_vecDatagrams (intervalAt rt i) ! n in
      case decideFault rt vecDatagram (tk_u64Now tick) of
        (Inl _, rt) \<Rightarrow> goto PcTerminated rt
      | (Inr dec, rt) \<Rightarrow>
          if dec_dspDisposition dec = Drop
          then goto (PcDatagram i (n + 1)) (emitPacketObservation env vecDatagram False (tk_u64Now tick)
                 (dec_strReason dec) (logEvent (EvDropped i n vecDatagram) rt))
          else if dec_u32DelayMilliseconds dec > 0 then goto (PcDelayed i n dec) rt
          else sendDatagram env tick i n dec rt)"

definition startSegment :: "sender_tick \<Rightarrow> u32 \<Rightarrow> u64 \<Rightarrow> sender_runtime \<Rightarrow> sender_runtime" where
  "startSegment tick i u64Timestamp rt =
     logEvent (EvSegment i u64Timestamp)
       (rt\<lparr>sn_tpSegmentStart := tk_tpNow tick, sn_u32SegmentFirstInterval := i\<rparr>)"

definition finishRun :: "'g sender_env \<Rightarrow> sender_tick \<Rightarrow> bool \<Rightarrow> sender_runtime \<Rightarrow> sender_runtime" where
  "finishRun env tick bOverrun rt =
     (if bOverrun
      then emitResult env (tk_u64Now tick) InvalidSchedulingOverrun
             ''Authentication interval exceeded its runtime deadline''
             (emitSchedulingFailure env (tk_u64Now tick) rt)
      else if \<not> sn_bStopRequested rt
      then emitResult env (tk_u64Now tick) Completed ''Sender completed all data and disclosure intervals''
             (emitKeyChainProgress env (of_nat (length (sn_vecIntervals rt) - 1)) True rt)
      else rt)"

definition sender_step :: "'g sender_env \<Rightarrow> sender_tick \<Rightarrow> sender_runtime \<Rightarrow> sender_runtime" where
  "sender_step env tick rt =
     (case sn_pc rt of
        PcIdle \<Rightarrow> rt
      | PcWaitStart \<Rightarrow>
          waitFor (tk_u64Now tick \<ge> sn_u64StartTimestampMilliseconds rt) PcFinish
            (\<lambda>rt. goto (PcLoop 1) (startSegment tick 1 (sn_u64StartTimestampMilliseconds rt) rt)) rt
      | PcLoop i \<Rightarrow>
          if \<not> unat i < length (sn_vecIntervals rt) \<or> sn_bStopRequested rt then goto (PcEnd False) rt
          else goto (PcWaitInterval i) (rt\<lparr>sn_u32CurrentInterval := i\<rparr>)
      | PcWaitInterval i \<Rightarrow>
          waitFor (tk_tpNow tick \<ge> tpIntervalStart rt i) (PcEnd False) (goto (PcDatagram i 0)) rt
      | PcDatagram i n \<Rightarrow>
          if \<not> n < length (int_vecDatagrams (intervalAt rt i)) then goto (PcAfter i) rt
          else waitFor (tk_tpNow tick \<ge> tpSendTarget rt i n) (PcAfter i) (decideDatagram env tick i n) rt
      | PcDelayed i n dec \<Rightarrow>
          waitFor (tk_tpNow tick \<ge> tpSendTarget rt i n + durFaultDelay dec) (PcAfter i)
            (sendDatagram env tick i n dec) rt
      | PcAfter i \<Rightarrow>
          if sn_bStopRequested rt then goto (PcEnd False) rt
          else goto (PcCheckPause i) (emitKeyChainProgress env i False rt)
      | PcCheckPause i \<Rightarrow>
          if sn_optPauseAfterInterval rt = Some i
          then goto (PcWaitPause i (sn_u64PauseTimestampMilliseconds rt)) rt
          else goto (PcLoop (i + 1)) rt
      | PcWaitPause i u64Timestamp \<Rightarrow>
          waitFor (tk_u64Now tick \<ge> u64Timestamp) (PcEnd False) (goto (PcEnterPause i)) rt
      | PcEnterPause i \<Rightarrow> goto (PcPaused i) (rt\<lparr>sn_bPaused := True\<rparr>)
      | PcPaused i \<Rightarrow>
          if sn_bStopRequested rt then goto (PcEnd False) rt
          else (case sn_optResumeInterval rt of
              None \<Rightarrow> rt
            | Some r \<Rightarrow> goto (PcWaitResume i r (sn_u64ResumeTimestampMilliseconds rt)) (rt\<lparr>sn_bPaused := False\<rparr>))
      | PcWaitResume i r u64Timestamp \<Rightarrow>
          waitFor (tk_u64Now tick \<ge> u64Timestamp) (PcEnd False)
            (\<lambda>rt. goto (PcLoop (i + 1)) (startSegment tick r u64Timestamp
               (rt\<lparr>sn_optPauseAfterInterval := None, sn_optResumeInterval := None\<rparr>))) rt
      | PcEnd bOverrun \<Rightarrow> goto PcFinish (finishRun env tick bOverrun rt)
      | PcFinish \<Rightarrow> goto PcIdle (rt\<lparr>sn_bRunning := False, sn_bPaused := False\<rparr>)
      | PcTerminated \<Rightarrow> rt)"

section \<open>The calls of the interface\<close>

text \<open>
  \<open>join\<close>: with a stop requested the worker ends its waits at once, and five steps are enough for it to
  return from any point (\<open>join_returns\<close>).
\<close>

definition joinWorker :: "'g sender_env \<Rightarrow> sender_tick \<Rightarrow> sender_runtime \<Rightarrow> sender_runtime" where
  "joinWorker env tick rt = ((sender_step env tick) ^^ 5) rt"

definition stopSender :: "'g sender_env \<Rightarrow> sender_tick \<Rightarrow> bool \<Rightarrow> sender_runtime \<Rightarrow> sender_runtime" where
  "stopSender env tick bReportResult rt =
     (let bWasRunning = sn_bRunning rt;
          rt = joinWorker env tick (rt\<lparr>sn_bStopRequested := True\<rparr>);
          rt = (if bReportResult \<and> bWasRunning
                then emitResult env (tk_u64Now tick) Stopped ''Round stopped'' rt else rt)
      in rt\<lparr>sn_bRunning := False, sn_bPaused := False\<rparr>)"

definition chainSnapshot :: "sender_context \<Rightarrow> local_key_chain_snapshot result" where
  "chainSnapshot ctx =
     andThen (mapE (digDataKey (snd_keyChain ctx)) [1..<keyChain_nDataIntervalCount (snd_keyChain ctx) + 1]) (\<lambda>vecKeys.
       mkLocalSenderKeyChainSnapshot (mat_strSenderId (snd_matMaterial ctx)) (mat_u64ChainId (snd_matMaterial ctx))
         (prm_u32DisclosureDelay (snd_prm ctx)) (digCommitmentKey (snd_keyChain ctx) # vecKeys))"

text \<open>The checks of \<open>configure\<close> and what it builds; the measured generation time is an argument.\<close>

definition prepareRound :: "'g sender_env \<Rightarrow> sender_context \<Rightarrow> sender_workload \<Rightarrow> int
    \<Rightarrow> (interval_datagrams list \<times> local_key_chain_snapshot) result" where
  "prepareRound env ctx load durWorstGeneration =
     (let prm = snd_prm ctx in
      if (prm_modePayload prm = PayloadText) \<noteq> bTextWorkload load
      then Inl (InvalidArgument ''Sender workload type does not match the configured payload mode'')
      else if u32WorkloadPacketCount load \<noteq> prm_u32TotalPacketCount prm
      then Inl (InvalidArgument ''Workload packet count does not match sender configuration'')
      else if u32WorkloadPacketCount load > MAX_AUTHENTICATION_PACKET_COUNT
      then Inl (InvalidArgument ''Authentication packet count exceeds the bounded runtime'')
      else andThen (buildDatagrams (se_ssl env) ctx load) (\<lambda>vecIntervals.
           andThen (validateScheduling prm vecIntervals durWorstGeneration) (\<lambda>_.
           andThen (chainSnapshot ctx) (\<lambda>snp. Inr (vecIntervals, snp)))))"

definition sn_configure :: "'g sender_env \<Rightarrow> sender_tick \<Rightarrow> sender_context \<Rightarrow> sender_workload \<Rightarrow> int
    \<Rightarrow> (sender_runtime, unit) act" where
  "sn_configure env tick ctx load durWorstGeneration =
     thenA (modifyA (stopSender env tick False))
       (bindA (liftA (prepareRound env ctx load durWorstGeneration)) (\<lambda>(vecIntervals, snp).
        thenA (modifyA (\<lambda>rt. rt\<lparr>sn_optSenderContext := Some ctx, sn_optPayloadWorkload := Some load,
            sn_vecIntervals := vecIntervals, sn_durWorstGeneration := durWorstGeneration,
            sn_bConfigured := True, sn_bRunning := False, sn_bPaused := False\<rparr>))
          (modifyA (emitLocalKeyChainObservation env (ObsKeyChainSnapshot snp)))))"

definition sn_resetConfiguration :: "'g sender_env \<Rightarrow> sender_tick \<Rightarrow> (sender_runtime, unit) act" where
  "sn_resetConfiguration env tick =
     thenA (modifyA (stopSender env tick False))
       (modifyA (\<lambda>rt. rt\<lparr>sn_optSenderContext := None, sn_optPayloadWorkload := None, sn_optFaultDetails := None,
          sn_ptrFaultPolicy := None, sn_vecIntervals := [], sn_strRoundId := [], sn_bConfigured := False,
          sn_bRunning := False, sn_bPaused := False\<rparr>))"

definition sn_configureFault :: "'g sender_env \<Rightarrow> fault_details \<Rightarrow> (sender_runtime, unit) act" where
  "sn_configureFault env det rt =
     (if sn_bRunning rt \<or> sn_optSenderContext rt = None
      then throwA (LogicError ''Sender fault configuration requires an idle configured sender'') rt
      else bindA (liftA (ptrCreateAuthenticationFaultPolicy (se_shuffle env) det (sn_prm rt))) (\<lambda>pol.
        modifyA (\<lambda>rt. rt\<lparr>sn_optFaultDetails := Some det, sn_ptrFaultPolicy := Some pol\<rparr>)) rt)"

definition sn_clearFault :: "(sender_runtime, unit) act" where
  "sn_clearFault = modifyA (\<lambda>rt.
     if sn_bRunning rt then rt else rt\<lparr>sn_optFaultDetails := None, sn_ptrFaultPolicy := None\<rparr>)"

definition metricMode :: "round_parameters \<Rightarrow> AuthenticationMetricMode" where
  "metricMode prm = (if prm_modeAuthentication prm = ModeNative then MetricNative else MetricImproved)"

text \<open>The members of a new round, as \<open>start\<close> sets them before it makes the fault policy.\<close>

definition beginRound :: "string \<Rightarrow> u64 \<Rightarrow> sender_runtime \<Rightarrow> sender_runtime" where
  "beginRound strRoundId u64Start rt =
     rt\<lparr>sn_strRoundId := strRoundId, sn_u64StartTimestampMilliseconds := u64Start, sn_bStopRequested := False,
        sn_bRunning := True, sn_bPaused := False, sn_optPauseAfterInterval := None, sn_optResumeInterval := None,
        sn_u32CurrentInterval := 0, sn_u32SentDataPacketCount := 0, sn_bCommunicationMetricEmitted := False\<rparr>"

definition renewFaultPolicy :: "'g sender_env \<Rightarrow> (sender_runtime, unit) act" where
  "renewFaultPolicy env rt =
     (case sn_optFaultDetails rt of
        None \<Rightarrow> (Inr (), rt)
      | Some det \<Rightarrow> bindA (liftA (ptrCreateAuthenticationFaultPolicy (se_shuffle env) det (sn_prm rt))) (\<lambda>pol.
          modifyA (\<lambda>rt. rt\<lparr>sn_ptrFaultPolicy := Some pol\<rparr>)) rt)"

definition sn_start :: "'g sender_env \<Rightarrow> sender_tick \<Rightarrow> string \<Rightarrow> u64 \<Rightarrow> (sender_runtime, unit) act" where
  "sn_start env tick strRoundId u64Start =
     thenA (modifyA (stopSender env tick False)) (bindA (getA id) (\<lambda>rt.
       if \<not> sn_bConfigured rt \<or> sn_optSenderContext rt = None \<or> sn_optPayloadWorkload rt = None
       then throwA (LogicError ''Sender runtime is not fully configured'')
       else if strRoundId = [] then throwA (InvalidArgument ''Sender round ID must not be empty'')
       else if u64Start \<le> tk_u64Now tick + 100
       then throwA (InvalidArgument ''Sender round start timestamp must leave preparation time'')
       else thenA (modifyA (beginRound strRoundId u64Start))
         (thenA (renewFaultPolicy env)
         (modifyA (\<lambda>rt. goto PcWaitStart (rt\<lparr>sn_optCommunicationAccumulator :=
            (if se_bMetrics env then Some (mkCommunicationCostAccumulator (metricMode (sn_prm rt))) else None)\<rparr>))))))"

definition validateActiveSenderRound :: "string \<Rightarrow> sender_runtime \<Rightarrow> unit result" where
  "validateActiveSenderRound strRoundId rt =
     (if \<not> sn_bRunning rt \<or> sn_strRoundId rt \<noteq> strRoundId
      then Inl (LogicError ''Sender round is not active'') else Inr ())"

definition sn_requestPause :: "sender_tick \<Rightarrow> string \<Rightarrow> u32 \<Rightarrow> u64 \<Rightarrow> (sender_runtime, unit) act" where
  "sn_requestPause tick strRoundId u32PauseAfterInterval u64PauseTimestamp = bindA (getA id) (\<lambda>rt.
     thenA (liftA (validateActiveSenderRound strRoundId rt))
      (if u32PauseAfterInterval = 0 \<or> u32PauseAfterInterval < sn_u32CurrentInterval rt
          \<or> u64PauseTimestamp \<le> tk_u64Now tick
       then throwA (InvalidArgument ''Sender pause boundary is already invalid'')
       else if unat u32PauseAfterInterval \<ge> length (sn_vecIntervals rt)
       then throwA (InvalidArgument ''Sender pause boundary is outside the round'')
       else modifyA (\<lambda>rt. rt\<lparr>sn_optPauseAfterInterval := Some u32PauseAfterInterval,
         sn_u64PauseTimestampMilliseconds := u64PauseTimestamp\<rparr>)))"

definition sn_resume :: "sender_tick \<Rightarrow> string \<Rightarrow> u32 \<Rightarrow> u64 \<Rightarrow> (sender_runtime, unit) act" where
  "sn_resume tick strRoundId u32ResumeInterval u64ResumeTimestamp = bindA (getA id) (\<lambda>rt.
     thenA (liftA (validateActiveSenderRound strRoundId rt))
      (if (case sn_optPauseAfterInterval rt of None \<Rightarrow> True | Some p \<Rightarrow> u32ResumeInterval \<noteq> p + 1)
          \<or> u64ResumeTimestamp \<le> tk_u64Now tick + 100
          \<or> u64ResumeTimestamp \<le> sn_u64PauseTimestampMilliseconds rt
       then throwA (InvalidArgument ''Sender resume schedule does not follow the pause'')
       else modifyA (\<lambda>rt. rt\<lparr>sn_optResumeInterval := Some u32ResumeInterval,
         sn_u64ResumeTimestampMilliseconds := u64ResumeTimestamp\<rparr>)))"

text \<open>A history: calls and steps of the worker, in any order. Exceptions go back to the caller.\<close>

datatype sender_op =
    SnConfigure sender_context sender_workload int
  | SnResetConfiguration
  | SnConfigureFault fault_details
  | SnClearFault
  | SnStart string u64
  | SnRequestPause string u32 u64
  | SnResume string u32 u64
  | SnStop
  | SnWorker

fun sender_op_act :: "'g sender_env \<Rightarrow> sender_tick \<Rightarrow> sender_op \<Rightarrow> (sender_runtime, unit) act" where
  "sender_op_act env tick (SnConfigure ctx load durWorstGeneration) = sn_configure env tick ctx load durWorstGeneration"
| "sender_op_act env tick SnResetConfiguration = sn_resetConfiguration env tick"
| "sender_op_act env tick (SnConfigureFault det) = sn_configureFault env det"
| "sender_op_act env tick SnClearFault = sn_clearFault"
| "sender_op_act env tick (SnStart strRoundId u64Start) = sn_start env tick strRoundId u64Start"
| "sender_op_act env tick (SnRequestPause strRoundId i t) = sn_requestPause tick strRoundId i t"
| "sender_op_act env tick (SnResume strRoundId i t) = sn_resume tick strRoundId i t"
| "sender_op_act env tick SnStop = modifyA (stopSender env tick True)"
| "sender_op_act env tick SnWorker = modifyA (sender_step env tick)"

definition sender_call :: "'g sender_env \<Rightarrow> sender_tick \<times> sender_op \<Rightarrow> sender_runtime \<Rightarrow> unit result \<times> sender_runtime" where
  "sender_call env = (\<lambda>(tick, op). sender_op_act env tick op)"

definition run_sender :: "'g sender_env \<Rightarrow> (sender_tick \<times> sender_op) list \<Rightarrow> sender_runtime \<Rightarrow> sender_runtime" where
  "run_sender env = run_ops (sender_call env)"

end
