(* ===== verification/SenderRun.thy ===== *)
theory SenderRun
  imports SenderRuntime "HOL-Library.Sublist"
begin

text \<open>
  What the worker of the sender runtime does over a round: reporting changes nothing it depends on, a
  stop ends it in a few steps, and the datagrams it has decided on are at every point the first ones of
  the round's stream.
\<close>

section \<open>Reporting\<close>

fun isReport :: "(runtime_result \<Rightarrow> bool) \<Rightarrow> sender_event \<Rightarrow> bool" where
  "isReport P (EvObservation _) = True"
| "isReport P (EvKeyChain _) = True"
| "isReport P (EvMetric _) = True"
| "isReport P (EvResult res) = P res"
| "isReport P (EvSent _ _ _ _ _) = False"
| "isReport P (EvDropped _ _ _) = False"
| "isReport P (EvSegment _ _) = False"

text \<open>Events are appended, and besides them only the members of the reports change.\<close>

definition reported :: "(runtime_result \<Rightarrow> bool) \<Rightarrow> sender_runtime \<Rightarrow> sender_runtime \<Rightarrow> bool" where
  "reported P s t \<longleftrightarrow> (\<exists>evs eid acc em. t = s\<lparr>sn_out := sn_out s @ evs, sn_u64NextObservationEventId := eid,
     sn_optCommunicationAccumulator := acc, sn_bCommunicationMetricEmitted := em\<rparr> \<and> list_all (isReport P) evs)"

lemma reported_refl: "reported P s s"
  unfolding reported_def
  by (rule exI [of _ "[]"], rule exI [of _ "sn_u64NextObservationEventId s"],
      rule exI [of _ "sn_optCommunicationAccumulator s"], rule exI [of _ "sn_bCommunicationMetricEmitted s"]) simp

lemma reported_trans:
  assumes "reported P s t" "reported P t u"
  shows "reported P s u"
proof -
  obtain evs eid acc em where t: "t = s\<lparr>sn_out := sn_out s @ evs, sn_u64NextObservationEventId := eid,
     sn_optCommunicationAccumulator := acc, sn_bCommunicationMetricEmitted := em\<rparr>" "list_all (isReport P) evs"
    using assms(1) unfolding reported_def by blast
  obtain evs' eid' acc' em' where u: "u = t\<lparr>sn_out := sn_out t @ evs', sn_u64NextObservationEventId := eid',
     sn_optCommunicationAccumulator := acc', sn_bCommunicationMetricEmitted := em'\<rparr>" "list_all (isReport P) evs'"
    using assms(2) unfolding reported_def by blast
  show ?thesis
    unfolding reported_def
    by (rule exI [of _ "evs @ evs'"], rule exI [of _ eid'], rule exI [of _ acc'], rule exI [of _ em'])
      (use t u in simp)
qed

interpretation report: members_relation "reported P" for P
  by unfold_locales (rule reported_refl, rule reported_trans)

lemma reported_log: "isReport P ev \<Longrightarrow> reported P s (logEvent ev s)"
  unfolding reported_def logEvent_def
  by (rule exI [of _ "[ev]"], rule exI [of _ "sn_u64NextObservationEventId s"],
      rule exI [of _ "sn_optCommunicationAccumulator s"], rule exI [of _ "sn_bCommunicationMetricEmitted s"]) simp

lemma reported_members:
  "reported P s (s\<lparr>sn_u64NextObservationEventId := eid\<rparr>)"
  "reported P s (s\<lparr>sn_optCommunicationAccumulator := acc\<rparr>)"
  "reported P s (s\<lparr>sn_bCommunicationMetricEmitted := em\<rparr>)"
proof -
  show "reported P s (s\<lparr>sn_u64NextObservationEventId := eid\<rparr>)"
    unfolding reported_def
    by (rule exI [of _ "[]"], rule exI [of _ eid], rule exI [of _ "sn_optCommunicationAccumulator s"],
        rule exI [of _ "sn_bCommunicationMetricEmitted s"]) simp
  show "reported P s (s\<lparr>sn_optCommunicationAccumulator := acc\<rparr>)"
    unfolding reported_def
    by (rule exI [of _ "[]"], rule exI [of _ "sn_u64NextObservationEventId s"], rule exI [of _ acc],
        rule exI [of _ "sn_bCommunicationMetricEmitted s"]) simp
  show "reported P s (s\<lparr>sn_bCommunicationMetricEmitted := em\<rparr>)"
    unfolding reported_def
    by (rule exI [of _ "[]"], rule exI [of _ "sn_u64NextObservationEventId s"],
        rule exI [of _ "sn_optCommunicationAccumulator s"], rule exI [of _ em]) simp
qed

lemmas report_rules = report.bind report.seq report.modify report.ret report.lift report.get reported_refl
  reported_log reported_members

lemma reported_quietly: "reported P s (snd (m s)) \<Longrightarrow> reported P s (quietly m s)"
  unfolding quietly_def by (rule report.catch) (simp_all add: report_rules)

lemma reported_take: "reported P s (snd (takeEventId s))"
  unfolding takeEventId_def by (intro report_rules)

lemma reported_packet: "reported P s (emitPacketObservation env bs b t r s)"
  unfolding emitPacketObservation_def
  by (auto intro!: report_rules reported_quietly reported_take split: sum.split)

lemma reported_accumulate: "reported P s (snd (accumulateA m s))"
  by (auto simp: accumulateA_def intro!: report_rules split: option.split prod.split)

lemma reported_record: "reported P s (recordSentAuthenticationFields bs s)"
  unfolding recordSentAuthenticationFields_def
  by (auto intro!: report_rules reported_quietly reported_accumulate split: sum.split)

lemma reported_key_chain: "reported P s (emitLocalKeyChainObservation env ob s)"
  by (simp add: emitLocalKeyChainObservation_def report_rules)

lemma reported_progress: "reported P s (emitKeyChainProgress env i b s)"
  unfolding emitKeyChainProgress_def
  by (auto intro!: report_rules reported_quietly reported_key_chain)

lemma reported_failure: "reported P s (emitSchedulingFailure env t s)"
  unfolding emitSchedulingFailure_def
  by (auto intro!: report_rules reported_quietly reported_take)

lemma reported_summary: "reported P s (snd (takeSummary env t s))"
  by (auto simp: takeSummary_def intro!: report_rules split: option.split)

lemma reported_result: "reported (\<lambda>r. res_statusResult r = st) s (emitResult env t st msg s)"
proof -
  have "res_statusResult r = st" if "senderResult s' st msg det = Inr r" for s' det r
    using that by (auto simp: senderResult_def Let_def mkAuthenticationRuntimeResult_def split: if_splits)
  then show ?thesis
    unfolding emitResult_def
    by (auto intro!: report_rules reported_quietly reported_summary simp: act_simps split: option.split)
qed

lemma reported_mono: "reported P s t \<Longrightarrow> (\<And>r. P r \<Longrightarrow> Q r) \<Longrightarrow> reported Q s t"
proof -
  assume r: "reported P s t" and pq: "\<And>r. P r \<Longrightarrow> Q r"
  have "isReport Q ev" if "isReport P ev" for ev using that pq by (cases ev) auto
  then have "list_all (isReport Q) evs" if "list_all (isReport P) evs" for evs
    using that by (auto simp: list_all_iff)
  with r show ?thesis unfolding reported_def by blast
qed

text \<open>What a step keeps while it reports.\<close>

lemma reportedD:
  assumes "reported P s t"
  shows "\<exists>evs. sn_out t = sn_out s @ evs \<and> list_all (isReport P) evs" "sn_pc t = sn_pc s"
    "sn_vecIntervals t = sn_vecIntervals s" "sn_bStopRequested t = sn_bStopRequested s"
    "sn_tpSegmentStart t = sn_tpSegmentStart s" "sn_u32SegmentFirstInterval t = sn_u32SegmentFirstInterval s"
    "sn_ptrFaultPolicy t = sn_ptrFaultPolicy s" "sn_optSenderContext t = sn_optSenderContext s"
    "sn_bRunning t = sn_bRunning s" "sn_bConfigured t = sn_bConfigured s" "sn_strRoundId t = sn_strRoundId s"
    "sn_u64StartTimestampMilliseconds t = sn_u64StartTimestampMilliseconds s"
    "sn_optFaultDetails t = sn_optFaultDetails s" "sn_optPayloadWorkload t = sn_optPayloadWorkload s"
  using assms by (auto simp: reported_def)

lemma goto_members [simp]:
  "sn_pc (goto pc rt) = pc" "sn_out (goto pc rt) = sn_out rt" "sn_vecIntervals (goto pc rt) = sn_vecIntervals rt"
  "sn_bStopRequested (goto pc rt) = sn_bStopRequested rt" "sn_ptrFaultPolicy (goto pc rt) = sn_ptrFaultPolicy rt"
  "sn_optSenderContext (goto pc rt) = sn_optSenderContext rt" "sn_tpSegmentStart (goto pc rt) = sn_tpSegmentStart rt"
  "sn_u32SegmentFirstInterval (goto pc rt) = sn_u32SegmentFirstInterval rt"
  "sn_bRunning (goto pc rt) = sn_bRunning rt" "sn_bConfigured (goto pc rt) = sn_bConfigured rt"
  "sn_u64StartTimestampMilliseconds (goto pc rt) = sn_u64StartTimestampMilliseconds rt"
  "sn_optFaultDetails (goto pc rt) = sn_optFaultDetails rt" "sn_optPayloadWorkload (goto pc rt) = sn_optPayloadWorkload rt"
  by (simp_all add: goto_def)

lemma logEvent_members [simp]:
  "sn_pc (logEvent ev rt) = sn_pc rt" "sn_out (logEvent ev rt) = sn_out rt @ [ev]"
  "sn_vecIntervals (logEvent ev rt) = sn_vecIntervals rt" "sn_bStopRequested (logEvent ev rt) = sn_bStopRequested rt"
  "sn_ptrFaultPolicy (logEvent ev rt) = sn_ptrFaultPolicy rt" "sn_optSenderContext (logEvent ev rt) = sn_optSenderContext rt"
  "sn_tpSegmentStart (logEvent ev rt) = sn_tpSegmentStart rt"
  "sn_u32SegmentFirstInterval (logEvent ev rt) = sn_u32SegmentFirstInterval rt"
  "sn_bRunning (logEvent ev rt) = sn_bRunning rt" "sn_bConfigured (logEvent ev rt) = sn_bConfigured rt"
  "sn_optFaultDetails (logEvent ev rt) = sn_optFaultDetails rt"
  "sn_optPayloadWorkload (logEvent ev rt) = sn_optPayloadWorkload rt"
  by (simp_all add: logEvent_def)

text \<open>The members that only the calls of the interface change: the configuration of the round.\<close>

definition sameRound :: "sender_runtime \<Rightarrow> sender_runtime \<Rightarrow> bool" where
  "sameRound s t \<longleftrightarrow> sn_vecIntervals t = sn_vecIntervals s \<and> sn_optSenderContext t = sn_optSenderContext s
     \<and> sn_bConfigured t = sn_bConfigured s \<and> sn_optPayloadWorkload t = sn_optPayloadWorkload s"

lemma sameRound_refl: "sameRound s s" and sameRound_trans: "sameRound s t \<Longrightarrow> sameRound t u \<Longrightarrow> sameRound s u"
  by (simp_all add: sameRound_def)

lemma reported_sameRound: "reported P s t \<Longrightarrow> sameRound s t"
  by (simp add: sameRound_def reportedD)

section \<open>One step\<close>

text \<open>Handing out a datagram.\<close>

lemma sendDatagram_form:
  assumes t_def: "t = sendDatagram env tick i n dec rt"
  shows "\<exists>evs. sn_out t = sn_out rt @ EvSent i n (int_vecDatagrams (intervalAt rt i) ! n) (tk_bSent tick) (tk_u64Now tick) # evs
      \<and> list_all (isReport (\<lambda>_. False)) evs"
    "sn_pc t = PcEnd True \<or> (tk_bSent tick \<and> sn_pc t = PcDatagram i (n + 1))"
    "sn_bStopRequested t = sn_bStopRequested rt" "sameRound rt t" "sn_tpSegmentStart t = sn_tpSegmentStart rt"
    "sn_u32SegmentFirstInterval t = sn_u32SegmentFirstInterval rt" "sn_ptrFaultPolicy t = sn_ptrFaultPolicy rt"
    "sn_u64StartTimestampMilliseconds t = sn_u64StartTimestampMilliseconds rt"
proof -
  let ?dg = "int_vecDatagrams (intervalAt rt i) ! n" and ?P = "\<lambda>_ :: runtime_result. False"
  let ?s0 = "logEvent (EvSent i n ?dg (tk_bSent tick) (tk_u64Now tick)) rt"
  define s1 where "s1 = (if tk_bSent tick then recordSentAuthenticationFields ?dg ?s0 else ?s0)"
  define s2 where "s2 = emitPacketObservation env ?dg (tk_bSent tick) (tk_u64Now tick)
                 (if tk_bSent tick then dec_strReason dec else ''DATAGRAM_SEND_FAILED'') s1"
  have "reported ?P ?s0 s1" by (simp add: s1_def reported_record reported_refl)
  then have r: "reported ?P ?s0 s2" unfolding s2_def by (rule reported_trans) (rule reported_packet)
  note D = reportedD [OF r]
  have t: "t = (let rt = s2\<lparr>sn_durWorstObservedSend := max (sn_durWorstObservedSend s2) (tk_tpAfter tick - tk_tpNow tick)\<rparr>
      in if \<not> tk_bSent tick \<or> tk_tpAfter tick \<ge> tpIntervalStart rt i + sn_durInterval rt + durFaultDelay dec
         then goto (PcEnd True) rt
         else if n < unat (int_u32DataPacketCount (intervalAt rt i))
         then goto (PcDatagram i (n + 1)) (rt\<lparr>sn_u32SentDataPacketCount := sn_u32SentDataPacketCount rt + 1\<rparr>)
         else goto (PcDatagram i (n + 1)) rt)"
    unfolding t_def sendDatagram_def s1_def s2_def Let_def ..
  then show "\<exists>evs. sn_out t = sn_out rt @ EvSent i n ?dg (tk_bSent tick) (tk_u64Now tick) # evs
      \<and> list_all (isReport ?P) evs"
    using D(1) by (auto simp: Let_def)
  show "sn_pc t = PcEnd True \<or> (tk_bSent tick \<and> sn_pc t = PcDatagram i (n + 1))"
    using t by (auto simp: Let_def)
  show "sn_bStopRequested t = sn_bStopRequested rt" "sameRound rt t" "sn_tpSegmentStart t = sn_tpSegmentStart rt"
    "sn_u32SegmentFirstInterval t = sn_u32SegmentFirstInterval rt" "sn_ptrFaultPolicy t = sn_ptrFaultPolicy rt"
    "sn_u64StartTimestampMilliseconds t = sn_u64StartTimestampMilliseconds rt"
    using t D by (auto simp: Let_def sameRound_def logEvent_def)
qed

text \<open>Deciding on one.\<close>

lemma decideDatagram_run:
  assumes "decideFault rt (int_vecDatagrams (intervalAt rt i) ! n) (tk_u64Now tick) = (r, rt')"
  shows "r = Inl e \<Longrightarrow> decideDatagram env tick i n rt = goto PcTerminated rt'"
    "r = Inr dec \<Longrightarrow> dec_dspDisposition dec = Drop \<Longrightarrow> decideDatagram env tick i n rt
       = goto (PcDatagram i (n + 1)) (emitPacketObservation env (int_vecDatagrams (intervalAt rt i) ! n) False
           (tk_u64Now tick) (dec_strReason dec) (logEvent (EvDropped i n (int_vecDatagrams (intervalAt rt i) ! n)) rt'))"
    "r = Inr dec \<Longrightarrow> dec_dspDisposition dec \<noteq> Drop \<Longrightarrow> decideDatagram env tick i n rt
       = (if dec_u32DelayMilliseconds dec > 0 then goto (PcDelayed i n dec) rt' else sendDatagram env tick i n dec rt')"
  using assms by (simp_all add: decideDatagram_def Let_def)

lemma decideFault_drops:
  "decideFault rt bs t = (Inr dec, rt') \<Longrightarrow> dec_dspDisposition dec = Drop \<Longrightarrow> sn_ptrFaultPolicy rt \<noteq> None"
  by (cases "sn_ptrFaultPolicy rt") (auto simp: decideFault_def NORMAL_SEND_def)

lemma decideFault_members:
  "snd (decideFault rt bs t) = rt\<lparr>sn_ptrFaultPolicy := sn_ptrFaultPolicy (snd (decideFault rt bs t))\<rparr>"
  "(sn_ptrFaultPolicy (snd (decideFault rt bs t)) = None) = (sn_ptrFaultPolicy rt = None)"
  by (auto simp: decideFault_def split: option.split prod.split)

section \<open>The stream of a round\<close>

definition streamOf :: "interval_datagrams list \<Rightarrow> byte list list" where
  "streamOf ints = concat (map int_vecDatagrams (tl ints))"

text \<open>The datagrams before the \<open>n\<close>-th of interval \<open>i\<close>.\<close>

definition before :: "interval_datagrams list \<Rightarrow> nat \<Rightarrow> nat \<Rightarrow> byte list list" where
  "before ints i n = concat (map int_vecDatagrams (take (i - 1) (tl ints))) @ take n (int_vecDatagrams (ints ! i))"

lemma before_start: "before ints 1 0 = []"
  by (simp add: before_def)

lemma before_next:
  "n < length (int_vecDatagrams (ints ! i)) \<Longrightarrow> before ints i (n + 1) = before ints i n @ [int_vecDatagrams (ints ! i) ! n]"
  by (simp add: before_def take_Suc_conv_app_nth)

lemma before_all: "\<not> i < length ints \<Longrightarrow> before ints i 0 = streamOf ints"
  by (simp add: before_def streamOf_def)

lemma before_end:
  assumes "1 \<le> i" "i < length ints" "\<not> n < length (int_vecDatagrams (ints ! i))"
  shows "before ints i n = before ints (i + 1) 0"
proof -
  obtain k where i: "i = Suc k" using assms(1) by (cases i) simp_all
  have "take i (tl ints) = take k (tl ints) @ [ints ! i]"
    using assms(2) i by (simp add: take_Suc_conv_app_nth nth_tl)
  with assms(3) i show ?thesis by (simp add: before_def)
qed

lemma before_prefix:
  assumes "1 \<le> i" "i < length ints"
  shows "prefix (before ints i n) (streamOf ints)"
proof -
  obtain k where i: "i = Suc k" using assms(1) by (cases i) simp_all
  have "tl ints = take k (tl ints) @ (ints ! i) # drop i (tl ints)"
    using assms(2) i by (metis Cons_nth_drop_Suc append_take_drop_id length_tl nth_tl Suc_less_eq2 diff_Suc_1)
  then have "streamOf ints = concat (map int_vecDatagrams (take k (tl ints))) @ int_vecDatagrams (ints ! i)
      @ concat (map int_vecDatagrams (drop i (tl ints)))"
    unfolding streamOf_def by (metis concat.simps(2) concat_append list.simps(9) map_append)
  then show ?thesis
    using i by (simp add: before_def prefix_def) (metis append_take_drop_id append.assoc)
qed

section \<open>The worker follows the stream\<close>

fun handledEvent :: "sender_event \<Rightarrow> byte list list" where
  "handledEvent (EvSent _ _ bs _ _) = [bs]"
| "handledEvent (EvDropped _ _ bs) = [bs]"
| "handledEvent _ = []"

text \<open>The datagrams the worker has decided on, in order.\<close>

definition handled :: "sender_event list \<Rightarrow> byte list list" where
  "handled evs = concat (map handledEvent evs)"

fun failedEvent :: "sender_event \<Rightarrow> bool" where
  "failedEvent (EvSent _ _ _ bSent _) = (\<not> bSent)"
| "failedEvent _ = False"

fun completedEvent :: "sender_event \<Rightarrow> bool" where
  "completedEvent (EvResult res) = (res_statusResult res = Completed)"
| "completedEvent _ = False"

lemma handled_append [simp]: "handled (xs @ ys) = handled xs @ handled ys" "handled [] = []"
  "handled (ev # evs) = handledEvent ev @ handled evs"
  by (simp_all add: handled_def)

lemma report_events:
  assumes "list_all (isReport P) evs"
  shows "handled evs = []" "\<not> list_ex failedEvent evs"
    "(\<And>r. P r \<Longrightarrow> res_statusResult r \<noteq> Completed) \<Longrightarrow> \<not> list_ex completedEvent evs"
proof -
  have "handledEvent ev = [] \<and> \<not> failedEvent ev \<and> (completedEvent ev \<longrightarrow> (\<exists>r. P r \<and> res_statusResult r = Completed))"
    if "isReport P ev" for ev using that by (cases ev) auto
  with assms show "handled evs = []" "\<not> list_ex failedEvent evs"
    "(\<And>r. P r \<Longrightarrow> res_statusResult r \<noteq> Completed) \<Longrightarrow> \<not> list_ex completedEvent evs"
    by (auto simp: handled_def list_all_iff list_ex_iff)
qed

definition validAt :: "interval_datagrams list \<Rightarrow> u32 \<Rightarrow> bool" where
  "validAt ints i \<longleftrightarrow> 1 \<le> unat i \<and> unat i < length ints"

text \<open>What has been decided on when the worker is at a point, unless it was stopped there.\<close>

fun position :: "interval_datagrams list \<Rightarrow> bool \<Rightarrow> sender_pc \<Rightarrow> byte list list \<Rightarrow> bool" where
  "position ints stop PcWaitStart h = (h = [])"
| "position ints stop (PcLoop i) h = (1 \<le> unat i \<and> h = before ints (unat i) 0)"
| "position ints stop (PcWaitInterval i) h = (validAt ints i \<and> h = before ints (unat i) 0)"
| "position ints stop (PcDatagram i n) h = (validAt ints i \<and> h = before ints (unat i) n)"
| "position ints stop (PcDelayed i n _) h = (validAt ints i \<and> n < length (int_vecDatagrams (ints ! unat i))
     \<and> h = before ints (unat i) n)"
| "position ints stop (PcAfter i) h = (validAt ints i \<and> (stop \<or> h = before ints (unat i + 1) 0))"
| "position ints stop (PcCheckPause i) h = (validAt ints i \<and> h = before ints (unat i + 1) 0)"
| "position ints stop (PcWaitPause i _) h = (validAt ints i \<and> h = before ints (unat i + 1) 0)"
| "position ints stop (PcEnterPause i) h = (validAt ints i \<and> h = before ints (unat i + 1) 0)"
| "position ints stop (PcPaused i) h = (validAt ints i \<and> h = before ints (unat i + 1) 0)"
| "position ints stop (PcWaitResume i _ _) h = (validAt ints i \<and> h = before ints (unat i + 1) 0)"
| "position ints stop (PcEnd bOverrun) h = (bOverrun \<or> stop \<or> h = streamOf ints)"
| "position ints stop _ h = True"

text \<open>\<open>lg\<close> is what the worker did in the round.\<close>

definition follows :: "interval_datagrams list \<Rightarrow> bool \<Rightarrow> sender_pc \<Rightarrow> sender_event list \<Rightarrow> bool" where
  "follows ints stop pc lg \<longleftrightarrow> position ints stop pc (handled lg) \<and> prefix (handled lg) (streamOf ints)
     \<and> (list_ex failedEvent lg \<longrightarrow> pc \<in> {PcEnd True, PcFinish, PcIdle})
     \<and> (list_ex completedEvent lg \<longrightarrow> handled lg = streamOf ints \<and> \<not> list_ex failedEvent lg \<and> pc \<in> {PcFinish, PcIdle})"

lemma follows_stop: "follows ints stop pc lg \<Longrightarrow> follows ints True pc lg"
  by (cases pc) (auto simp: follows_def)

lemma follows_report:
  assumes "follows ints stop pc lg" "list_all (isReport P) evs"
    and "\<And>r. P r \<Longrightarrow> res_statusResult r \<noteq> Completed"
  shows "follows ints stop pc (lg @ evs)"
  using assms(1) report_events [OF assms(2)] assms(3) by (auto simp: follows_def)

text \<open>Moving on without deciding on a datagram.\<close>

lemma follows_move:
  assumes "follows ints stop pc lg" "position ints stop pc' (handled lg)"
    and "pc \<notin> {PcEnd True, PcFinish, PcIdle}"
  shows "follows ints stop pc' lg"
  using assms by (auto simp: follows_def)

text \<open>Deciding on the next one.\<close>

lemma follows_handle:
  assumes f: "follows ints stop pc lg" and pc: "pc \<notin> {PcEnd True, PcFinish, PcIdle}"
    and i: "validAt ints i" "n < length (int_vecDatagrams (ints ! unat i))" and h: "handled lg = before ints (unat i) n"
    and ev: "handledEvent ev = [int_vecDatagrams (ints ! unat i) ! n]" "failedEvent ev \<Longrightarrow> pc' = PcEnd True"
    and pc': "pc' \<in> {PcEnd True, PcDatagram i (n + 1)}"
  shows "follows ints stop pc' (lg @ [ev])"
proof -
  have h': "handled (lg @ [ev]) = before ints (unat i) (n + 1)" using h ev(1) before_next [OF i(2)] by simp
  have v: "1 \<le> unat i" "unat i < length ints" using i(1) by (simp_all add: validAt_def)
  have "\<not> completedEvent ev" using ev(1) by (cases ev) auto
  with f pc ev(2) pc' i(1) before_prefix [OF v, of "n + 1"] show ?thesis
    unfolding follows_def h' by auto
qed

section \<open>Steps follow the stream\<close>

text \<open>\<open>k\<close> events had left the runtime when the round began.\<close>

definition onRound :: "nat \<Rightarrow> interval_datagrams list \<Rightarrow> sender_runtime \<Rightarrow> bool" where
  "onRound k ints rt \<longleftrightarrow> k \<le> length (sn_out rt) \<and> sn_vecIntervals rt = ints
     \<and> follows ints (sn_bStopRequested rt) (sn_pc rt) (drop k (sn_out rt))"

lemma reported_goto:
  assumes "reported P s t"
  shows "reported P (goto pc s) (goto pc t)"
proof -
  obtain evs eid acc em where t: "t = s\<lparr>sn_out := sn_out s @ evs, sn_u64NextObservationEventId := eid,
     sn_optCommunicationAccumulator := acc, sn_bCommunicationMetricEmitted := em\<rparr>" "list_all (isReport P) evs"
    using assms unfolding reported_def by blast
  show ?thesis
    unfolding reported_def goto_def
    by (rule exI [of _ evs], rule exI [of _ eid], rule exI [of _ acc], rule exI [of _ em]) (use t in simp)
qed

lemma onRound_report:
  assumes "onRound k ints s" "reported P s t" "\<And>r. P r \<Longrightarrow> res_statusResult r \<noteq> Completed"
  shows "onRound k ints t"
proof -
  obtain evs where "sn_out t = sn_out s @ evs" "list_all (isReport P) evs" using reportedD(1) [OF assms(2)] by blast
  with assms(1) follows_report [OF _ this(2) assms(3)] reportedD(2-4) [OF assms(2)] show ?thesis
    by (simp add: onRound_def)
qed

lemma onRound_position:
  "onRound k ints rt \<Longrightarrow> position ints (sn_bStopRequested rt) (sn_pc rt) (handled (drop k (sn_out rt)))"
  by (simp add: onRound_def follows_def)

text \<open>A step that moves on and logs no decision.\<close>

lemma onRound_goto:
  assumes "onRound k ints rt" "sn_pc rt \<notin> {PcEnd True, PcFinish, PcIdle}"
    and "sn_out t = sn_out rt" "sn_vecIntervals t = sn_vecIntervals rt" "sn_bStopRequested t = sn_bStopRequested rt"
    and "position ints (sn_bStopRequested rt) (sn_pc t) (handled (drop k (sn_out rt)))"
  shows "onRound k ints t"
  using assms(1,3-5) follows_move [OF _ assms(6,2)] by (simp add: onRound_def)

lemma onRound_log:
  assumes "onRound k ints rt" "handledEvent ev = []" "\<not> failedEvent ev" "\<not> completedEvent ev"
  shows "onRound k ints (logEvent ev rt)"
  using assms by (auto simp: onRound_def follows_def)

lemma onRound_decide: "onRound k ints (snd (decideFault rt bs t)) \<longleftrightarrow> onRound k ints rt"
  by (subst decideFault_members) (simp add: onRound_def)

lemma onRound_send:
  assumes o: "onRound k ints rt" and h: "handled (drop k (sn_out rt)) = before ints (unat i) n"
    and pc: "sn_pc rt \<notin> {PcEnd True, PcFinish, PcIdle}"
    and i: "validAt ints i" "n < length (int_vecDatagrams (ints ! unat i))"
  shows "onRound k ints (sendDatagram env tick i n dec rt)"
proof -
  let ?t = "sendDatagram env tick i n dec rt" and ?dg = "int_vecDatagrams (ints ! unat i) ! n"
  note F = sendDatagram_form [OF refl, where env = env and tick = tick and i = i and n = n and dec = dec and rt = rt]
  have dg: "int_vecDatagrams (intervalAt rt i) ! n = ?dg" using o by (simp add: intervalAt_def onRound_def)
  let ?ev = "EvSent i n ?dg (tk_bSent tick) (tk_u64Now tick)"
  obtain evs where evs: "sn_out ?t = sn_out rt @ ?ev # evs" "list_all (isReport (\<lambda>_. False)) evs"
    using F(1) unfolding dg by blast
  have "follows ints (sn_bStopRequested rt) (sn_pc ?t) (drop k (sn_out rt) @ [?ev])"
    by (rule follows_handle [OF _ pc i h]) (use o F(2) in \<open>auto simp: onRound_def\<close>)
  from follows_report [OF this evs(2)] show ?thesis
    using o F(3,4) evs(1) by (simp add: onRound_def sameRound_def)
qed

lemma onRound_process:
  assumes o: "onRound k ints rt" and h: "handled (drop k (sn_out rt)) = before ints (unat i) n"
    and pc: "sn_pc rt \<notin> {PcEnd True, PcFinish, PcIdle}"
    and i: "validAt ints i" "n < length (int_vecDatagrams (ints ! unat i))"
  shows "onRound k ints (decideDatagram env tick i n rt)"
proof -
  let ?dg = "int_vecDatagrams (intervalAt rt i) ! n"
  obtain r rt' where d: "decideFault rt ?dg (tk_u64Now tick) = (r, rt')" by fastforce
  have o': "onRound k ints rt'" using onRound_decide [of k ints rt ?dg "tk_u64Now tick"] o d by simp
  have out: "sn_out rt' = sn_out rt" "sn_pc rt' = sn_pc rt"
    using arg_cong [OF decideFault_members(1) [of rt ?dg "tk_u64Now tick"], of sn_out]
      arg_cong [OF decideFault_members(1) [of rt ?dg "tk_u64Now tick"], of sn_pc] d by simp_all
  note R = decideDatagram_run [OF d, of _ env]
  show ?thesis
  proof (cases r)
    case (Inl e)
    with R(1) show ?thesis
      using onRound_goto [OF o', of "goto PcTerminated rt'"] out pc by simp
  next
    case (Inr dec)
    have dg: "?dg = int_vecDatagrams (ints ! unat i) ! n" using o by (simp add: intervalAt_def onRound_def)
    show ?thesis
    proof (cases "dec_dspDisposition dec = Drop")
      case True
      let ?s = "goto (PcDatagram i (n + 1)) (logEvent (EvDropped i n ?dg) rt')"
      have "follows ints (sn_bStopRequested rt') (PcDatagram i (n + 1)) (drop k (sn_out rt') @ [EvDropped i n ?dg])"
        by (rule follows_handle [OF _ _ i]) (use o' h pc out dg in \<open>auto simp: onRound_def\<close>)
      then have "onRound k ints ?s" using o' by (simp add: onRound_def)
      moreover have "reported (\<lambda>_. False) ?s (goto (PcDatagram i (n + 1)) (emitPacketObservation env ?dg False
           (tk_u64Now tick) (dec_strReason dec) (logEvent (EvDropped i n ?dg) rt')))"
        by (rule reported_goto [OF reported_packet])
      ultimately show ?thesis
        unfolding R(2) [OF Inr True] by (rule onRound_report) simp
    next
      case False
      have s: "onRound k ints (sendDatagram env tick i n dec rt')"
        by (rule onRound_send [OF o' _ _ i]) (use h pc out in simp_all)
      have "onRound k ints (goto (PcDelayed i n dec) rt')"
        by (rule onRound_goto [OF o']) (use i h pc out in simp_all)
      with s show ?thesis unfolding R(3) [OF Inr False] by simp
    qed
  qed
qed

text \<open>A wait that is over, stopped or not.\<close>

lemma onRound_wait:
  assumes o: "onRound k ints rt" and pc: "sn_pc rt \<notin> {PcEnd True, PcFinish, PcIdle}"
    and stopped: "sn_bStopRequested rt \<Longrightarrow> position ints True pc' (handled (drop k (sn_out rt)))"
    and reached: "b \<Longrightarrow> onRound k ints (f rt)"
  shows "onRound k ints (waitFor b pc' f rt)"
proof (cases "sn_bStopRequested rt")
  case True
  with stopped show ?thesis
    using onRound_goto [OF o pc, of "goto pc' rt"] by (simp add: waitFor_def)
next
  case False
  with reached o show ?thesis by (simp add: waitFor_def)
qed

lemma onRound_start:
  assumes "onRound k ints rt" "sn_pc rt \<notin> {PcEnd True, PcFinish, PcIdle}"
    and "position ints (sn_bStopRequested rt) pc (handled (drop k (sn_out rt)))"
  shows "onRound k ints (goto pc (startSegment tick i t rt))"
proof -
  have "onRound k ints (logEvent (EvSegment i t) (goto pc (rt\<lparr>sn_tpSegmentStart := tk_tpNow tick,
      sn_u32SegmentFirstInterval := i\<rparr>)))"
    by (rule onRound_log, rule onRound_goto [OF assms(1,2)]) (use assms(3) in \<open>simp_all add: goto_def\<close>)
  moreover have "goto pc (startSegment tick i t rt) = logEvent (EvSegment i t) (goto pc (rt\<lparr>sn_tpSegmentStart :=
      tk_tpNow tick, sn_u32SegmentFirstInterval := i\<rparr>))"
    by (simp add: startSegment_def logEvent_def goto_def)
  ultimately show ?thesis by simp
qed

lemma onRound_finish:
  assumes "onRound k ints rt" "sn_pc rt = PcEnd b"
  shows "onRound k ints (goto PcFinish (finishRun env tick b rt))"
proof -
  let ?L = "drop k (sn_out rt)"
  have f: "follows ints (sn_bStopRequested rt) (PcEnd b) ?L" and k: "k \<le> length (sn_out rt)" "sn_vecIntervals rt = ints"
    using assms by (auto simp: onRound_def)
  have g: "onRound k ints (goto PcFinish rt)" using f k by (auto simp: onRound_def follows_def)
  consider (overrun) b | (complete) "\<not> b" "\<not> sn_bStopRequested rt" | (stopped) "\<not> b" "sn_bStopRequested rt" by blast
  then show ?thesis
  proof cases
    case overrun
    have "reported (\<lambda>r. res_statusResult r = InvalidSchedulingOverrun) rt (finishRun env tick b rt)"
      unfolding finishRun_def if_P [OF overrun] by (rule reported_trans [OF reported_failure reported_result])
    from onRound_report [OF g reported_goto [OF this]] show ?thesis by simp
  next
    case complete
    have r: "reported (\<lambda>r. True) rt (finishRun env tick b rt)"
      unfolding finishRun_def if_not_P [OF complete(1)] if_P [OF complete(2)]
      by (rule reported_trans [OF reported_progress reported_mono [OF reported_result]]) simp
    obtain evs where evs: "sn_out (finishRun env tick b rt) = sn_out rt @ evs" "list_all (isReport (\<lambda>_. True)) evs"
      using reportedD(1) [OF r] by blast
    have "handled ?L = streamOf ints" "\<not> list_ex failedEvent ?L" using f complete by (simp_all add: follows_def)
    then show ?thesis
      using report_events(1,2) [OF evs(2)] evs(1) k reportedD(3) [OF r] by (simp add: onRound_def follows_def)
  next
    case stopped
    with g show ?thesis by (simp add: finishRun_def)
  qed
qed

lemma index_next: "validAt ints i \<Longrightarrow> length ints < 2 ^ 32 \<Longrightarrow> unat (i + 1) = unat i + 1"
  by (rule unat_Suc_no_wrap) (simp add: validAt_def)

text \<open>A step of the worker, from every point.\<close>

lemma onRound_step:
  assumes o: "onRound k ints rt" and len: "length ints < 2 ^ 32"
  shows "onRound k ints (sender_step env tick rt)"
proof -
  note P = onRound_position [OF o] and W = onRound_wait [OF o] and G = onRound_goto [OF o]
  have ints: "sn_vecIntervals rt = ints" using o by (simp add: onRound_def)
  show ?thesis
  proof (cases "sn_pc rt")
    case PcIdle
    with o show ?thesis by (simp add: sender_step_def)
  next
    case PcWaitStart
    with P show ?thesis
      unfolding sender_step_def PcWaitStart sender_pc.case
      by (intro W onRound_start [OF o]) (simp_all add: before_def PcWaitStart)
  next
    case (PcLoop i)
    show ?thesis
    proof (cases "\<not> unat i < length ints \<or> sn_bStopRequested rt")
      case True
      have "onRound k ints (goto (PcEnd False) rt)"
        by (rule G) (use P PcLoop True in \<open>auto simp: before_all\<close>)
      with PcLoop True ints show ?thesis by (simp add: sender_step_def)
    next
      case False
      have "onRound k ints (goto (PcWaitInterval i) (rt\<lparr>sn_u32CurrentInterval := i\<rparr>))"
        by (rule G) (use P PcLoop False in \<open>auto simp: validAt_def\<close>)
      with PcLoop False ints show ?thesis by (simp add: sender_step_def)
    qed
  next
    case (PcWaitInterval i)
    with P show ?thesis
      unfolding sender_step_def PcWaitInterval sender_pc.case by (intro W G) (simp_all add: PcWaitInterval)
  next
    case (PcDatagram i n)
    show ?thesis
    proof (cases "n < length (int_vecDatagrams (intervalAt rt i))")
      case True
      have "onRound k ints (waitFor (tk_tpNow tick \<ge> tpSendTarget rt i n) (PcAfter i) (decideDatagram env tick i n) rt)"
        by (intro W onRound_process [OF o]) (use P PcDatagram True ints in \<open>auto simp: intervalAt_def\<close>)
      with PcDatagram True show ?thesis by (simp add: sender_step_def)
    next
      case False
      have "onRound k ints (goto (PcAfter i) rt)"
        by (rule G) (use P PcDatagram False ints before_end [of "unat i" ints n] in
          \<open>auto simp: intervalAt_def validAt_def\<close>)
      with PcDatagram False show ?thesis by (simp add: sender_step_def)
    qed
  next
    case (PcDelayed i n dec)
    with P show ?thesis
      unfolding sender_step_def PcDelayed sender_pc.case
      by (intro W onRound_send [OF o]) (simp_all add: PcDelayed)
  next
    case (PcAfter i)
    show ?thesis
    proof (cases "sn_bStopRequested rt")
      case True
      with PcAfter show ?thesis unfolding sender_step_def by (auto intro!: G)
    next
      case False
      have "onRound k ints (goto (PcCheckPause i) rt)" by (rule G) (use P PcAfter False in simp_all)
      from onRound_report [OF this reported_goto [OF reported_progress], of "\<lambda>_. False"] PcAfter False show ?thesis
        unfolding sender_step_def by simp
    qed
  next
    case (PcCheckPause i)
    with P show ?thesis
      unfolding sender_step_def by (auto intro!: G simp: index_next [OF _ len])
  next
    case (PcWaitPause i t)
    with P show ?thesis
      unfolding sender_step_def PcWaitPause sender_pc.case by (intro W G) (simp_all add: PcWaitPause)
  next
    case (PcEnterPause i)
    with P show ?thesis
      unfolding sender_step_def by (auto intro!: G)
  next
    case (PcPaused i)
    with P show ?thesis
      unfolding sender_step_def using o by (auto intro!: G split: option.split)
  next
    case (PcWaitResume i r t)
    let ?rt = "rt\<lparr>sn_optPauseAfterInterval := None, sn_optResumeInterval := None\<rparr>"
    have "onRound k ints ?rt" using o by (simp add: onRound_def)
    from onRound_start [OF this, of "PcLoop (i + 1)"] P PcWaitResume show ?thesis
      unfolding sender_step_def PcWaitResume sender_pc.case
      by (intro W) (simp_all add: PcWaitResume index_next [OF _ len])
  next
    case (PcEnd b)
    from onRound_finish [OF o this] PcEnd show ?thesis by (simp add: sender_step_def)
  next
    case PcFinish
    with o show ?thesis by (auto simp: sender_step_def onRound_def follows_def goto_def)
  next
    case PcTerminated
    with o show ?thesis by (simp add: sender_step_def)
  qed
qed

section \<open>A stop\<close>

lemma onRound_join:
  assumes "onRound k ints rt" "length ints < 2 ^ 32"
  shows "onRound k ints (joinWorker env tick rt)"
proof -
  have "onRound k ints ((sender_step env tick ^^ m) rt)" for m
    by (induction m) (simp_all add: assms(1) onRound_step [OF _ assms(2)])
  then show ?thesis by (simp add: joinWorker_def)
qed

lemma onRound_stop:
  assumes "onRound k ints rt" "length ints < 2 ^ 32"
  shows "onRound k ints (stopSender env tick b rt)"
proof -
  let ?j = "joinWorker env tick (rt\<lparr>sn_bStopRequested := True\<rparr>)"
  have j: "onRound k ints ?j"
    by (rule onRound_join) (use assms in \<open>auto simp: onRound_def intro: follows_stop\<close>)
  let ?e = "if b \<and> sn_bRunning rt then emitResult env (tk_u64Now tick) Stopped ''Round stopped'' ?j else ?j"
  have "onRound k ints (emitResult env (tk_u64Now tick) Stopped ''Round stopped'' ?j)"
    by (rule onRound_report [OF j reported_result]) simp
  with j have "onRound k ints ?e" by simp
  then show ?thesis by (simp add: stopSender_def Let_def onRound_def)
qed

text \<open>Five steps after a stop was requested the worker has returned.\<close>

lemma stopped_step:
  assumes "sn_bStopRequested rt"
  shows "sn_bStopRequested (sender_step env tick rt)"
    "sn_pc (sender_step env tick rt) = (case sn_pc rt of
       PcIdle \<Rightarrow> PcIdle | PcWaitStart \<Rightarrow> PcFinish | PcLoop _ \<Rightarrow> PcEnd False | PcWaitInterval _ \<Rightarrow> PcEnd False
     | PcDatagram i _ \<Rightarrow> PcAfter i | PcDelayed i _ _ \<Rightarrow> PcAfter i | PcAfter _ \<Rightarrow> PcEnd False
     | PcCheckPause i \<Rightarrow> (if sn_optPauseAfterInterval rt = Some i
         then PcWaitPause i (sn_u64PauseTimestampMilliseconds rt) else PcLoop (i + 1))
     | PcWaitPause _ _ \<Rightarrow> PcEnd False | PcEnterPause i \<Rightarrow> PcPaused i | PcPaused _ \<Rightarrow> PcEnd False
     | PcWaitResume _ _ _ \<Rightarrow> PcEnd False | PcEnd _ \<Rightarrow> PcFinish | PcFinish \<Rightarrow> PcIdle | PcTerminated \<Rightarrow> PcTerminated)"
proof -
  have "sn_bStopRequested (finishRun env tick b rt) = sn_bStopRequested rt" for b
  proof (cases b)
    case True
    have "reported (\<lambda>r. res_statusResult r = InvalidSchedulingOverrun) rt (finishRun env tick b rt)"
      unfolding finishRun_def if_P [OF True] by (rule reported_trans [OF reported_failure reported_result])
    then show ?thesis by (rule reportedD(4))
  qed (use assms in \<open>simp add: finishRun_def\<close>)
  with assms show "sn_bStopRequested (sender_step env tick rt)"
    by (cases "sn_pc rt") (simp_all add: sender_step_def waitFor_def)
  show "sn_pc (sender_step env tick rt) = (case sn_pc rt of
       PcIdle \<Rightarrow> PcIdle | PcWaitStart \<Rightarrow> PcFinish | PcLoop _ \<Rightarrow> PcEnd False | PcWaitInterval _ \<Rightarrow> PcEnd False
     | PcDatagram i _ \<Rightarrow> PcAfter i | PcDelayed i _ _ \<Rightarrow> PcAfter i | PcAfter _ \<Rightarrow> PcEnd False
     | PcCheckPause i \<Rightarrow> (if sn_optPauseAfterInterval rt = Some i
         then PcWaitPause i (sn_u64PauseTimestampMilliseconds rt) else PcLoop (i + 1))
     | PcWaitPause _ _ \<Rightarrow> PcEnd False | PcEnterPause i \<Rightarrow> PcPaused i | PcPaused _ \<Rightarrow> PcEnd False
     | PcWaitResume _ _ _ \<Rightarrow> PcEnd False | PcEnd _ \<Rightarrow> PcFinish | PcFinish \<Rightarrow> PcIdle | PcTerminated \<Rightarrow> PcTerminated)"
    using assms by (cases "sn_pc rt") (simp_all add: sender_step_def waitFor_def)
qed

text \<open>How many steps are left.\<close>

fun stepsLeft :: "sender_pc \<Rightarrow> nat" where
  "stepsLeft PcIdle = 0"
| "stepsLeft PcTerminated = 0"
| "stepsLeft PcFinish = 1"
| "stepsLeft PcWaitStart = 2"
| "stepsLeft (PcEnd _) = 2"
| "stepsLeft (PcDatagram _ _) = 4"
| "stepsLeft (PcDelayed _ _ _) = 4"
| "stepsLeft (PcCheckPause _) = 4"
| "stepsLeft (PcEnterPause _) = 4"
| "stepsLeft _ = 3"

lemma stepsLeft_down:
  "sn_bStopRequested rt \<Longrightarrow> stepsLeft (sn_pc (sender_step env tick rt)) \<le> stepsLeft (sn_pc rt) - 1"
  by (cases "sn_pc rt") (simp_all add: stopped_step)

text \<open>A worker told to stop never ends the process: it returns, unless the process had ended before.\<close>

lemma join_returns:
  assumes "sn_bStopRequested rt"
  shows "sn_pc (joinWorker env tick rt) = (if sn_pc rt = PcTerminated then PcTerminated else PcIdle)"
proof -
  have "sn_bStopRequested ((sender_step env tick ^^ m) rt)
    \<and> (sn_pc ((sender_step env tick ^^ m) rt) = PcTerminated) = (sn_pc rt = PcTerminated)
    \<and> stepsLeft (sn_pc ((sender_step env tick ^^ m) rt)) \<le> 4 - m" for m
  proof (induction m)
    case 0
    have "stepsLeft pc \<le> 4" for pc by (cases pc) simp_all
    with assms show ?case by simp
  next
    case (Suc m)
    have "(sn_pc (sender_step env tick s) = PcTerminated) = (sn_pc s = PcTerminated)"
      if "sn_bStopRequested s" for s
      using that by (cases "sn_pc s") (simp_all add: stopped_step)
    with Suc stepsLeft_down [of "(sender_step env tick ^^ m) rt" env tick] show ?case
      by (auto simp: stopped_step(1) intro: le_trans)
  qed
  from this [of 5] have "stepsLeft (sn_pc (joinWorker env tick rt)) = 0"
    and "(sn_pc (joinWorker env tick rt) = PcTerminated) = (sn_pc rt = PcTerminated)"
    by (simp_all add: joinWorker_def)
  then show ?thesis by (cases "sn_pc (joinWorker env tick rt)") simp_all
qed

end
