(* ===== verification/SenderHistories.thy ===== *)
theory SenderHistories
  imports SenderRun SenderTheorems
begin

text \<open>
  Histories of the sender runtime: any sequence of calls and worker steps. What is configured stays the
  built datagrams of a verified context, a round's log follows their stream, and its datagrams leave on
  the timeline of the start and the resumptions.
\<close>

section \<open>The configuration\<close>

definition built_sender :: "sender_context \<Rightarrow> bool" where
  "built_sender ctx \<longleftrightarrow> (\<exists>mat crp. ctxCreateVerified mat crp = Inr ctx)
     \<and> (\<exists>alg mode tot ppi delay ms start imp payload.
       mkRoundParameters alg mode tot ppi delay ms start imp payload = Inr (snd_prm ctx))"

fun built_sender_op :: "sender_op \<Rightarrow> bool" where
  "built_sender_op (SnConfigure ctx _ _) = built_sender ctx"
| "built_sender_op _ = True"

definition configured_ok :: "'g sender_env \<Rightarrow> sender_runtime \<Rightarrow> bool" where
  "configured_ok env rt \<longleftrightarrow>
     (case sn_optSenderContext rt of
        None \<Rightarrow> sn_vecIntervals rt = []
      | Some ctx \<Rightarrow> built_sender ctx \<and> prm_ok (snd_prm ctx)
          \<and> (\<exists>load. sn_optPayloadWorkload rt = Some load
               \<and> buildDatagrams (se_ssl env) ctx load = Inr (sn_vecIntervals rt)))"

lemma configured_ok_same: "sameRound s t \<Longrightarrow> configured_ok env s \<Longrightarrow> configured_ok env t"
  by (auto simp: configured_ok_def sameRound_def split: option.splits)

lemma prepareRound_ok:
  assumes "prepareRound env ctx load g = Inr (ints, snp)" "built_sender ctx"
  shows "prm_ok (snd_prm ctx)" "buildDatagrams (se_ssl env) ctx load = Inr ints"
proof -
  obtain alg mode tot ppi delay ms start imp payload where
    prm: "mkRoundParameters alg mode tot ppi delay ms start imp payload = Inr (snd_prm ctx)"
    using assms(2) unfolding built_sender_def by blast
  have "prm_u32TotalPacketCount (snd_prm ctx) \<le> MAX_AUTHENTICATION_PACKET_COUNT"
    using assms(1) by (auto simp: prepareRound_def Let_def split: if_splits)
  then show "prm_ok (snd_prm ctx)" by (rule mkRoundParameters_prm_ok [OF prm])
  show "buildDatagrams (se_ssl env) ctx load = Inr ints"
    using assms(1) by (auto simp: prepareRound_def Let_def andThen_Inr_iff split: if_splits)
qed

text \<open>The delay fits, so a round has at most 400001 intervals, the empty one included.\<close>

lemma configured_length:
  assumes "configured_ok env rt"
  shows "length (sn_vecIntervals rt) < 2 ^ 32"
proof (cases "sn_optSenderContext rt")
  case None
  with assms show ?thesis by (simp add: configured_ok_def)
next
  case (Some ctx)
  with assms obtain mat crp load where ctx: "ctxCreateVerified mat crp = Inr ctx" and prm: "prm_ok (snd_prm ctx)"
    and ints: "buildDatagrams (se_ssl env) ctx load = Inr (sn_vecIntervals rt)"
    by (auto simp: configured_ok_def built_sender_def)
  have "length (sn_vecIntervals rt) = prm_nDataIntervalCount (snd_prm ctx) + unat (prm_u32DisclosureDelay (snd_prm ctx)) + 1"
    using buildDatagrams_ok [OF prm ints] by metis
  then show ?thesis
    using built_delay_fits [OF prm ints ctxCreateVerified_ok(2) [OF ctx]] prm_ok_bounds(4) [OF prm] by simp
qed

section \<open>What a call changes\<close>

lemma sameRound_decide: "sameRound rt (snd (decideFault rt bs t))"
  by (subst decideFault_members) (simp add: sameRound_def)

lemma sameRound_goto: "sameRound s t \<Longrightarrow> sameRound s (goto pc t)"
  by (simp add: sameRound_def)

lemma sameRound_decideDatagram: "sameRound rt (decideDatagram env tick i n rt)"
proof -
  obtain r rt' where d: "decideFault rt (int_vecDatagrams (intervalAt rt i) ! n) (tk_u64Now tick) = (r, rt')" by fastforce
  have s: "sameRound rt rt'" using sameRound_decide [of rt "int_vecDatagrams (intervalAt rt i) ! n" "tk_u64Now tick"] d by simp
  note R = decideDatagram_run [OF d, of _ env]
  show ?thesis
  proof (cases r)
    case (Inl e)
    with R(1) s show ?thesis by (simp add: sameRound_goto)
  next
    case (Inr dec)
    have "sameRound rt (logEvent ev rt')" for ev using s by (simp add: sameRound_def)
    with R(2,3) [OF Inr] s show ?thesis
      by (cases "dec_dspDisposition dec = Drop")
        (auto intro!: sameRound_goto intro: sameRound_trans [OF _ reported_sameRound [OF reported_packet]]
          sameRound_trans [OF _ sendDatagram_form(4) [OF refl]])
  qed
qed

lemma sameRound_finish: "sameRound rt (finishRun env tick b rt)"
  using sameRound_trans [OF reported_sameRound [OF reported_failure] reported_sameRound [OF reported_result]]
    sameRound_trans [OF reported_sameRound [OF reported_progress] reported_sameRound [OF reported_result]]
  by (auto simp: finishRun_def sameRound_refl)

lemma sameRound_step: "sameRound rt (sender_step env tick rt)"
proof (cases "sn_pc rt")
  case (PcAfter i)
  with reported_sameRound [OF reported_progress] show ?thesis
    by (auto simp: sender_step_def sameRound_refl intro!: sameRound_goto)
qed (auto simp: sender_step_def waitFor_def startSegment_def sameRound_refl
      intro!: sameRound_goto sameRound_decideDatagram sendDatagram_form(4) [OF refl] sameRound_finish
      split: option.split, simp_all add: sameRound_def)

lemma sameRound_stop: "sameRound rt (stopSender env tick b rt)"
proof -
  have "sameRound s ((sender_step env tick ^^ m) s)" for s m
    by (induction m) (auto intro: sameRound_refl sameRound_trans sameRound_step)
  then have j: "sameRound (rt\<lparr>sn_bStopRequested := True\<rparr>) (joinWorker env tick (rt\<lparr>sn_bStopRequested := True\<rparr>))"
    by (simp add: joinWorker_def)
  have "sameRound (rt\<lparr>sn_bStopRequested := True\<rparr>) (emitResult env (tk_u64Now tick) Stopped ''Round stopped''
      (joinWorker env tick (rt\<lparr>sn_bStopRequested := True\<rparr>)))"
    by (rule sameRound_trans [OF j reported_sameRound [OF reported_result]])
  with j show ?thesis by (simp add: stopSender_def Let_def sameRound_def)
qed

lemma liftA_then: "bindA (liftA r) f s = (case r of Inl e \<Rightarrow> (Inl e, s) | Inr x \<Rightarrow> f x s)"
  by (cases r) (simp_all add: act_simps)

lemma configured_ok_call:
  assumes "configured_ok env rt" "built_sender_op op"
  shows "configured_ok env (snd (sender_call env (tick, op) rt))"
proof -
  have stop: "configured_ok env (stopSender env tick b rt)" for b
    by (rule configured_ok_same [OF sameRound_stop assms(1)])
  show ?thesis
  proof (cases op)
    case (SnConfigure ctx load g)
    show ?thesis
    proof (cases "prepareRound env ctx load g")
      case (Inl e)
      with SnConfigure stop [of False] show ?thesis
        by (simp add: sender_call_def sn_configure_def act_simps liftA_then)
    next
      case (Inr p)
      obtain ints snp where p: "p = (ints, snp)" by fastforce
      have "built_sender ctx" using assms(2) SnConfigure by simp
      with prepareRound_ok [OF Inr [unfolded p]] show ?thesis
        by (simp add: SnConfigure sender_call_def sn_configure_def act_simps liftA_then Inr p configured_ok_def
            emitLocalKeyChainObservation_def)
    qed
  next
    case SnResetConfiguration
    then show ?thesis by (simp add: sender_call_def sn_resetConfiguration_def act_simps configured_ok_def)
  next
    case (SnConfigureFault det)
    with assms(1) show ?thesis
      by (auto simp: sender_call_def sn_configureFault_def act_simps liftA_then split: sum.splits
          intro!: configured_ok_same [OF _ assms(1)]) (simp_all add: sameRound_def)
  next
    case SnClearFault
    with assms(1) show ?thesis
      by (auto simp: sender_call_def sn_clearFault_def act_simps intro!: configured_ok_same [OF _ assms(1)])
        (simp_all add: sameRound_def)
  next
    case (SnStart r t)
    let ?s = "stopSender env tick False rt"
    have "sameRound ?s (snd (renewFaultPolicy env (beginRound r t ?s)))"
      by (auto simp: renewFaultPolicy_def beginRound_def liftA_then act_simps sameRound_def split: option.split sum.split)
    with SnStart show ?thesis
      by (auto simp: sender_call_def sn_start_def act_simps thenA_def bindA_cases goto_def sameRound_def
          intro!: configured_ok_same [OF _ stop [of False]] split: sum.split)
  next
    case (SnRequestPause r i t)
    with assms(1) show ?thesis
      by (auto simp: sender_call_def sn_requestPause_def act_simps thenA_def liftA_then split: sum.split
          intro!: configured_ok_same [OF _ assms(1)]) (simp_all add: sameRound_def)
  next
    case (SnResume r i t)
    with assms(1) show ?thesis
      by (auto simp: sender_call_def sn_resume_def act_simps thenA_def liftA_then split: sum.split
          intro!: configured_ok_same [OF _ assms(1)]) (simp_all add: sameRound_def)
  next
    case SnStop
    with stop [of True] show ?thesis by (simp add: sender_call_def act_simps)
  next
    case SnWorker
    with configured_ok_same [OF sameRound_step assms(1)] show ?thesis by (simp add: sender_call_def act_simps)
  qed
qed

lemma configured_ok_run:
  assumes "list_all (built_sender_op \<circ> snd) calls" "configured_ok env rt"
  shows "configured_ok env (run_sender env calls rt)"
  using assms
proof (induction calls arbitrary: rt)
  case (Cons c calls)
  obtain tick op where c: "c = (tick, op)" by fastforce
  from Cons configured_ok_call [of env rt op tick] show ?case by (simp add: run_sender_def c)
qed (simp add: run_sender_def)

lemma configured_ok_initial: "configured_ok env sender_initial"
  by (simp add: configured_ok_def sender_initial_def)

section \<open>The calls of a round\<close>

fun in_sender_round :: "sender_op \<Rightarrow> bool" where
  "in_sender_round (SnConfigure _ _ _) = False"
| "in_sender_round SnResetConfiguration = False"
| "in_sender_round (SnStart _ _) = False"
| "in_sender_round _ = True"

text \<open>Calls of a round that are neither a stop nor a step leave its log and the worker alone.\<close>

definition sameWorker :: "sender_runtime \<Rightarrow> sender_runtime \<Rightarrow> bool" where
  "sameWorker s t \<longleftrightarrow> sameRound s t \<and> sn_out t = sn_out s \<and> sn_pc t = sn_pc s
     \<and> sn_bStopRequested t = sn_bStopRequested s \<and> sn_tpSegmentStart t = sn_tpSegmentStart s
     \<and> sn_u32SegmentFirstInterval t = sn_u32SegmentFirstInterval s
     \<and> sn_u64StartTimestampMilliseconds t = sn_u64StartTimestampMilliseconds s"

lemma call_in_round:
  assumes "in_sender_round op"
  shows "sameWorker rt (snd (sender_call env (tick, op) rt)) \<or> op = SnStop \<or> op = SnWorker"
proof (cases op)
  case (SnConfigureFault det)
  then show ?thesis
    by (auto simp: sender_call_def sn_configureFault_def act_simps liftA_then sameWorker_def sameRound_def
        split: sum.split)
next
  case SnClearFault
  then show ?thesis by (simp add: sender_call_def sn_clearFault_def act_simps sameWorker_def sameRound_def)
next
  case (SnRequestPause r i t)
  then show ?thesis
    by (auto simp: sender_call_def sn_requestPause_def act_simps thenA_def liftA_then sameWorker_def sameRound_def
        split: sum.split)
next
  case (SnResume r i t)
  then show ?thesis
    by (auto simp: sender_call_def sn_resume_def act_simps thenA_def liftA_then sameWorker_def sameRound_def
        split: sum.split)
qed (use assms in auto)

lemma onRound_call:
  assumes "onRound k ints rt" "length ints < 2 ^ 32" "in_sender_round op"
  shows "onRound k ints (snd (sender_call env (tick, op) rt))"
  using call_in_round [OF assms(3), of rt env tick]
proof (elim disjE)
  assume "sameWorker rt (snd (sender_call env (tick, op) rt))"
  with assms(1) show ?thesis by (simp add: onRound_def sameWorker_def sameRound_def)
next
  assume "op = SnStop"
  with onRound_stop [OF assms(1,2)] show ?thesis by (simp add: sender_call_def act_simps)
next
  assume "op = SnWorker"
  with onRound_step [OF assms(1,2)] show ?thesis by (simp add: sender_call_def act_simps)
qed

lemma run_sender_Cons [simp]:
  "run_sender env [] rt = rt"
  "run_sender env (c # calls) rt = run_sender env calls (snd (sender_call env c rt))"
  by (simp_all add: run_sender_def)

lemma onRound_run:
  assumes "list_all (in_sender_round \<circ> snd) calls" "onRound k ints rt" "length ints < 2 ^ 32"
  shows "onRound k ints (run_sender env calls rt)"
  using assms(1,2)
proof (induction calls arbitrary: rt)
  case (Cons c calls)
  obtain tick op where c: "c = (tick, op)" by fastforce
  with Cons onRound_call [OF Cons.prems(2) assms(3), of op env tick] show ?case by simp
qed simp

text \<open>A start that returned.\<close>

lemma started:
  assumes "sender_call env (tick, SnStart r t) rt = (Inr (), rt0)"
  shows "sn_pc rt0 = PcWaitStart" "\<not> sn_bStopRequested rt0" "sn_optSenderContext rt0 \<noteq> None"
    "sn_u64StartTimestampMilliseconds rt0 = t" "sameRound rt rt0" "sn_optResumeInterval rt0 = None"
proof -
  let ?s = "stopSender env tick False rt"
  have renew: "sameRound (beginRound r t ?s) rt1 \<and> \<not> sn_bStopRequested rt1 \<and> sn_u64StartTimestampMilliseconds rt1 = t
      \<and> sn_optResumeInterval rt1 = None"
    if "renewFaultPolicy env (beginRound r t ?s) = (x, rt1)" for x rt1
    using that
    by (auto simp: renewFaultPolicy_def beginRound_def liftA_then act_simps sameRound_def split: option.splits sum.splits)
  obtain rt1 where rt1: "renewFaultPolicy env (beginRound r t ?s) = (Inr (), rt1)"
    "rt0 = goto PcWaitStart (rt1\<lparr>sn_optCommunicationAccumulator :=
       (if se_bMetrics env then Some (mkCommunicationCostAccumulator (metricMode (sn_prm rt1))) else None)\<rparr>)"
    "sn_optSenderContext ?s \<noteq> None"
    using assms by (auto simp: sender_call_def sn_start_def act_simps thenA_def bindA_Inr split: if_splits)
  have "sameRound ?s (beginRound r t ?s)" by (simp add: beginRound_def sameRound_def)
  with renew [OF rt1(1)] sameRound_stop [of rt env tick False] have "sameRound rt rt1" by (simp add: sameRound_def)
  with rt1 renew [OF rt1(1)] show "sn_pc rt0 = PcWaitStart" "\<not> sn_bStopRequested rt0" "sn_optSenderContext rt0 \<noteq> None"
    "sn_u64StartTimestampMilliseconds rt0 = t" "sameRound rt rt0" "sn_optResumeInterval rt0 = None"
    using sameRound_stop [of rt env tick False] by (simp_all add: sameRound_def goto_def)
qed

end
