(* ===== verification/SenderRounds.thy ===== *)
theory SenderRounds
  imports SenderHistories
begin

text \<open>
  A round of the sender from its start: its log follows the stream of the configured datagrams, and
  every datagram leaves in its interval of the timeline of the start and the resumptions.
\<close>

section \<open>The timeline\<close>

text \<open>The last segment begun, and the clocks: the steady clock is the system clock less a constant.\<close>

fun lastSegment :: "(u32 \<times> u64) option \<Rightarrow> sender_event list \<Rightarrow> (u32 \<times> u64) option" where
  "lastSegment seg [] = seg"
| "lastSegment seg (EvSegment i t # evs) = lastSegment (Some (i, t)) evs"
| "lastSegment seg (_ # evs) = lastSegment seg evs"

text \<open>Every datagram leaves at its segment's time plus the intervals since, of \<open>ms\<close> each, or later.\<close>

fun inTime :: "u32 \<Rightarrow> (u32 \<times> u64) option \<Rightarrow> sender_event list \<Rightarrow> bool" where
  "inTime ms seg [] = True"
| "inTime ms seg (EvSegment i t # evs) = inTime ms (Some (i, t)) evs"
| "inTime ms seg (EvSent i _ _ _ w # evs) =
     ((case seg of None \<Rightarrow> False | Some (f, t) \<Rightarrow> unat t + unat (i - f) * unat ms \<le> unat w) \<and> inTime ms seg evs)"
| "inTime ms seg (_ # evs) = inTime ms seg evs"

definition clocksAgree :: "int \<Rightarrow> sender_tick \<Rightarrow> bool" where
  "clocksAgree c tick \<longleftrightarrow> int (unat (tk_u64Now tick)) = (tk_tpNow tick + c) div 1000000"

lemma inTime_append:
  "inTime ms seg (xs @ ys) \<longleftrightarrow> inTime ms seg xs \<and> inTime ms (lastSegment seg xs) ys"
  "lastSegment seg (xs @ ys) = lastSegment (lastSegment seg xs) ys"
proof -
  show "inTime ms seg (xs @ ys) \<longleftrightarrow> inTime ms seg xs \<and> inTime ms (lastSegment seg xs) ys"
    by (induction ms seg xs rule: inTime.induct) auto
  show "lastSegment seg (xs @ ys) = lastSegment (lastSegment seg xs) ys"
    by (induction seg xs rule: lastSegment.induct) auto
qed

fun timeless :: "sender_event \<Rightarrow> bool" where
  "timeless (EvSent _ _ _ _ _) = False"
| "timeless (EvSegment _ _) = False"
| "timeless _ = True"

lemma timeless_inTime:
  assumes "list_all timeless evs"
  shows "inTime ms seg evs" "lastSegment seg evs = seg"
proof -
  show "inTime ms seg evs" using assms by (induction ms seg evs rule: inTime.induct) auto
  show "lastSegment seg evs = seg" using assms by (induction seg evs rule: lastSegment.induct) auto
qed

lemma report_timeless: "list_all (isReport P) evs \<Longrightarrow> list_all timeless evs"
proof -
  have "isReport P ev \<Longrightarrow> timeless ev" for ev by (cases ev) simp_all
  then show "list_all (isReport P) evs \<Longrightarrow> list_all timeless evs" by (auto simp: list_all_iff)
qed

text \<open>The points at which a segment is running.\<close>

fun inSegment :: "sender_pc \<Rightarrow> bool" where
  "inSegment PcIdle = False"
| "inSegment PcWaitStart = False"
| "inSegment (PcEnd _) = False"
| "inSegment PcFinish = False"
| "inSegment PcTerminated = False"
| "inSegment _ = True"

definition onTime :: "int \<Rightarrow> nat \<Rightarrow> sender_runtime \<Rightarrow> bool" where
  "onTime c k rt \<longleftrightarrow> k \<le> length (sn_out rt)
     \<and> inTime (prm_u32IntervalMilliseconds (sn_prm rt)) None (drop k (sn_out rt))
     \<and> (inSegment (sn_pc rt) \<longrightarrow> (\<exists>f t. lastSegment None (drop k (sn_out rt)) = Some (f, t)
          \<and> f = sn_u32SegmentFirstInterval rt \<and> 1000000 * int (unat t) \<le> sn_tpSegmentStart rt + c))"

text \<open>A step that neither sends nor begins a segment.\<close>

definition quietStep :: "sender_runtime \<Rightarrow> sender_runtime \<Rightarrow> bool" where
  "quietStep s t \<longleftrightarrow> sameRound s t \<and> sn_tpSegmentStart t = sn_tpSegmentStart s
     \<and> sn_u32SegmentFirstInterval t = sn_u32SegmentFirstInterval s
     \<and> (inSegment (sn_pc t) \<longrightarrow> inSegment (sn_pc s)) \<and> (\<exists>evs. sn_out t = sn_out s @ evs \<and> list_all timeless evs)"

lemma onTime_quiet:
  assumes "onTime c k s" "quietStep s t"
  shows "onTime c k t"
proof -
  obtain evs where evs: "sn_out t = sn_out s @ evs" "list_all timeless evs" using assms(2) by (auto simp: quietStep_def)
  have "drop k (sn_out t) = drop k (sn_out s) @ evs" using assms(1) evs(1) by (simp add: onTime_def)
  with assms evs timeless_inTime [OF evs(2)] show ?thesis
    by (auto simp: onTime_def quietStep_def sameRound_def inTime_append)
qed

lemma quiet_reported: "reported P s t \<Longrightarrow> quietStep s t"
  using reportedD [of P s t] reported_sameRound [of P s t] report_timeless by (auto simp: quietStep_def)

lemma quiet_goto:
  assumes "quietStep s t" "inSegment pc \<Longrightarrow> inSegment (sn_pc s)"
  shows "quietStep s (goto pc t)"
  using assms by (simp add: quietStep_def sameRound_def)

lemma quiet_members:
  assumes "sameRound s t" "sn_out t = sn_out s" "sn_pc t = sn_pc s" "sn_tpSegmentStart t = sn_tpSegmentStart s"
    "sn_u32SegmentFirstInterval t = sn_u32SegmentFirstInterval s"
  shows "quietStep s t"
  using assms by (simp add: quietStep_def)

lemma quiet_refl: "quietStep s s"
  by (simp add: quietStep_def sameRound_def)

text \<open>Beginning a segment at its time.\<close>

lemma le_div_million: "x \<le> y div 1000000 \<longleftrightarrow> 1000000 * x \<le> y" for x y :: int
proof
  assume "1000000 * x \<le> y"
  from zdiv_mono1 [OF this, of 1000000] show "x \<le> y div 1000000" by simp
qed linarith

lemma onTime_start:
  assumes "onTime c k rt" "clocksAgree c tick" "tk_u64Now tick \<ge> t"
  shows "onTime c k (goto pc (startSegment tick f t rt))"
proof -
  have "int (unat t) \<le> (tk_tpNow tick + c) div 1000000"
    using assms(2,3) unfolding clocksAgree_def word_le_nat_alt by linarith
  then have "1000000 * int (unat t) \<le> tk_tpNow tick + c" unfolding le_div_million .
  with assms(1) show ?thesis
    by (auto simp: onTime_def startSegment_def logEvent_def goto_def inTime_append)
qed

text \<open>Sending a datagram once its slot has begun.\<close>

lemma slot_reached:
  assumes o: "onTime c k rt" "inSegment (sn_pc rt)" and tick: "clocksAgree c tick" "tk_tpNow tick \<ge> tpIntervalStart rt i"
  shows "inTime (prm_u32IntervalMilliseconds (sn_prm rt)) (lastSegment None (drop k (sn_out rt)))
    [EvSent i n bs b (tk_u64Now tick)]"
proof -
  let ?ms = "prm_u32IntervalMilliseconds (sn_prm rt)" and ?f = "sn_u32SegmentFirstInterval rt"
  obtain t where t: "lastSegment None (drop k (sn_out rt)) = Some (?f, t)"
    "1000000 * int (unat t) \<le> sn_tpSegmentStart rt + c"
    using o by (auto simp: onTime_def)
  have "1000000 * (int (unat t) + int (unat (i - ?f)) * int (unat ?ms)) \<le> tk_tpNow tick + c"
    using t(2) tick(2) by (simp add: tpIntervalStart_def sn_durInterval_def algebra_simps)
  then have "int (unat t) + int (unat (i - ?f)) * int (unat ?ms) \<le> (tk_tpNow tick + c) div 1000000"
    unfolding le_div_million .
  also have "\<dots> = int (unat (tk_u64Now tick))" using tick(1) by (simp add: clocksAgree_def)
  finally have "int (unat t + unat (i - ?f) * unat ?ms) \<le> int (unat (tk_u64Now tick))" by simp
  then have "unat t + unat (i - ?f) * unat ?ms \<le> unat (tk_u64Now tick)" by (simp only: of_nat_le_iff)
  then show ?thesis using t(1) by simp
qed

lemma onTime_send:
  assumes o: "onTime c k rt" "inSegment (sn_pc rt)" and tick: "clocksAgree c tick" "tk_tpNow tick \<ge> tpIntervalStart rt i"
  shows "onTime c k (sendDatagram env tick i n dec rt)"
proof -
  let ?t = "sendDatagram env tick i n dec rt" and ?dg = "int_vecDatagrams (intervalAt rt i) ! n"
  note F = sendDatagram_form [OF refl, where env = env and tick = tick and i = i and n = n and dec = dec and rt = rt]
  obtain evs where evs: "sn_out ?t = sn_out rt @ EvSent i n ?dg (tk_bSent tick) (tk_u64Now tick) # evs"
    "list_all (isReport (\<lambda>_. False)) evs"
    using F(1) by blast
  have d: "drop k (sn_out ?t) = drop k (sn_out rt) @ [EvSent i n ?dg (tk_bSent tick) (tk_u64Now tick)] @ evs"
    using o(1) evs(1) by (simp add: onTime_def)
  have prm: "sn_prm ?t = sn_prm rt" using F(4) by (simp add: sameRound_def)
  show ?thesis
    unfolding onTime_def prm d inTime_append
    using o slot_reached [OF o tick, of n ?dg "tk_bSent tick"] timeless_inTime [OF report_timeless [OF evs(2)]] F(5,6) evs(1)
    by (auto simp: onTime_def)
qed

lemma target_after_start: "tpIntervalStart rt i \<le> tpSendTarget rt i n"
proof -
  have "0 \<le> durPacketGap rt i"
    by (auto simp: durPacketGap_def Let_def sn_durInterval_def intro!: pos_imp_zdiv_nonneg_iff [THEN iffD2])
  then show ?thesis by (simp add: tpSendTarget_def)
qed

lemma quiet_decide: "quietStep rt (snd (decideFault rt bs t))"
proof -
  let ?t = "snd (decideFault rt bs t)"
  have "quietStep rt (rt\<lparr>sn_ptrFaultPolicy := sn_ptrFaultPolicy ?t\<rparr>)"
    by (rule quiet_members) (simp_all add: sameRound_def)
  then show ?thesis by (simp add: decideFault_members(1) [symmetric])
qed

lemma decideFault_times:
  "tpIntervalStart (snd (decideFault rt bs t)) i = tpIntervalStart rt i" "sn_pc (snd (decideFault rt bs t)) = sn_pc rt"
  by (subst decideFault_members, simp add: tpIntervalStart_def sn_durInterval_def)+

lemma onTime_decide:
  assumes o: "onTime c k rt" "inSegment (sn_pc rt)" and tick: "clocksAgree c tick" "tk_tpNow tick \<ge> tpSendTarget rt i n"
  shows "onTime c k (decideDatagram env tick i n rt)"
proof -
  let ?dg = "int_vecDatagrams (intervalAt rt i) ! n"
  obtain r rt' where d: "decideFault rt ?dg (tk_u64Now tick) = (r, rt')" by fastforce
  have o': "onTime c k rt'" using onTime_quiet [OF o(1) quiet_decide, of ?dg "tk_u64Now tick"] d by simp
  have t': "tpIntervalStart rt' i = tpIntervalStart rt i" "inSegment (sn_pc rt')"
    using decideFault_times [of rt ?dg "tk_u64Now tick"] d o(2) by simp_all
  note R = decideDatagram_run [OF d, of _ env]
  show ?thesis
  proof (cases r)
    case (Inl e)
    have "onTime c k (goto PcTerminated rt')" by (rule onTime_quiet [OF o' quiet_goto [OF quiet_refl]]) simp
    with R(1) [OF Inl] show ?thesis by simp
  next
    case (Inr dec)
    show ?thesis
    proof (cases "dec_dspDisposition dec = Drop")
      case True
      have "quietStep rt' (logEvent (EvDropped i n ?dg) rt')" by (simp add: quietStep_def sameRound_def)
      from onTime_quiet [OF onTime_quiet [OF o' this] quiet_goto [OF quiet_reported [OF reported_packet]]] t'(2)
      show ?thesis unfolding R(2) [OF Inr True] by simp
    next
      case False
      have "onTime c k (goto (PcDelayed i n dec) rt')" by (rule onTime_quiet [OF o' quiet_goto [OF quiet_refl t'(2)]])
      moreover have "onTime c k (sendDatagram env tick i n dec rt')"
        by (rule onTime_send [OF o' t'(2) tick(1)]) (use tick(2) t' target_after_start [of rt i n] in simp)
      ultimately show ?thesis unfolding R(3) [OF Inr False] by simp
    qed
  qed
qed

lemma quiet_wait:
  assumes "onTime c k rt" "inSegment pc' \<Longrightarrow> inSegment (sn_pc rt)" "b \<Longrightarrow> onTime c k (f rt)"
  shows "onTime c k (waitFor b pc' f rt)"
  using assms onTime_quiet [OF assms(1) quiet_goto [OF quiet_refl assms(2)]] by (simp add: waitFor_def)

lemma quiet_finish: "quietStep rt (goto PcFinish (finishRun env tick b rt))"
proof -
  have r: "reported (\<lambda>_. True) rt (finishRun env tick b rt)"
    unfolding finishRun_def
    by (simp add: reported_refl reported_trans [OF reported_failure reported_mono [OF reported_result]]
        reported_trans [OF reported_progress reported_mono [OF reported_result]])
  show ?thesis by (rule quiet_goto [OF quiet_reported [OF r]]) simp
qed

lemma onTime_step:
  assumes o: "onTime c k rt" and tick: "clocksAgree c tick"
  shows "onTime c k (sender_step env tick rt)"
proof -
  have move: "onTime c k (goto pc rt)" if "inSegment pc \<Longrightarrow> inSegment (sn_pc rt)" for pc
    by (rule onTime_quiet [OF o quiet_goto [OF quiet_refl that]])
  note W = quiet_wait [OF o]
  show ?thesis
  proof (cases "sn_pc rt")
    case PcIdle
    with o show ?thesis by (simp add: sender_step_def)
  next
    case PcWaitStart
    show ?thesis unfolding sender_step_def PcWaitStart sender_pc.case
      by (rule W) (simp, rule onTime_start [OF o tick])
  next
    case (PcLoop i)
    have "quietStep rt (rt\<lparr>sn_u32CurrentInterval := i\<rparr>)" by (rule quiet_members) (simp_all add: sameRound_def)
    from onTime_quiet [OF o quiet_goto [OF this]] PcLoop move show ?thesis by (simp add: sender_step_def)
  next
    case (PcWaitInterval i)
    show ?thesis unfolding sender_step_def PcWaitInterval sender_pc.case
      by (rule W) (simp_all add: move PcWaitInterval)
  next
    case (PcDatagram i n)
    have "onTime c k (waitFor (tk_tpNow tick \<ge> tpSendTarget rt i n) (PcAfter i) (decideDatagram env tick i n) rt)"
      by (rule W) (use PcDatagram onTime_decide [OF o _ tick] in simp_all)
    with PcDatagram move show ?thesis by (simp add: sender_step_def)
  next
    case (PcDelayed i n dec)
    have "0 \<le> durFaultDelay dec" by (simp add: durFaultDelay_def)
    then show ?thesis unfolding sender_step_def PcDelayed sender_pc.case
      by (intro W onTime_send [OF o _ tick]) (use PcDelayed target_after_start [of rt i n] in simp_all)
  next
    case (PcAfter i)
    have "onTime c k (goto (PcCheckPause i) (emitKeyChainProgress env i False rt))"
      by (rule onTime_quiet [OF o quiet_goto [OF quiet_reported [OF reported_progress]]]) (simp add: PcAfter)
    with PcAfter move show ?thesis by (simp add: sender_step_def)
  next
    case (PcCheckPause i)
    with move show ?thesis by (simp add: sender_step_def)
  next
    case (PcWaitPause i t)
    show ?thesis unfolding sender_step_def PcWaitPause sender_pc.case
      by (rule W) (simp_all add: move PcWaitPause)
  next
    case (PcEnterPause i)
    have "quietStep rt (rt\<lparr>sn_bPaused := True\<rparr>)" by (rule quiet_members) (simp_all add: sameRound_def)
    from onTime_quiet [OF o quiet_goto [OF this]] PcEnterPause show ?thesis by (simp add: sender_step_def)
  next
    case (PcPaused i)
    have "quietStep rt (rt\<lparr>sn_bPaused := False\<rparr>)" by (rule quiet_members) (simp_all add: sameRound_def)
    from onTime_quiet [OF o quiet_goto [OF this]] PcPaused move o show ?thesis
      by (simp add: sender_step_def split: option.split)
  next
    case (PcWaitResume i r t)
    have "quietStep rt (rt\<lparr>sn_optPauseAfterInterval := None, sn_optResumeInterval := None\<rparr>)"
      by (rule quiet_members) (simp_all add: sameRound_def)
    note o' = onTime_quiet [OF o this]
    show ?thesis unfolding sender_step_def PcWaitResume sender_pc.case
      by (rule W) (simp, rule onTime_start [OF o' tick])
  next
    case (PcEnd b)
    with onTime_quiet [OF o quiet_finish] show ?thesis by (simp add: sender_step_def)
  next
    case PcFinish
    have "quietStep rt (rt\<lparr>sn_bRunning := False, sn_bPaused := False\<rparr>)" by (rule quiet_members) (simp_all add: sameRound_def)
    have "onTime c k (goto PcIdle (rt\<lparr>sn_bRunning := False, sn_bPaused := False\<rparr>))"
      by (rule onTime_quiet [OF o quiet_goto [OF \<open>quietStep rt _\<close>]]) simp
    with PcFinish show ?thesis by (simp add: sender_step_def)
  next
    case PcTerminated
    with o show ?thesis by (simp add: sender_step_def)
  qed
qed

lemma onTime_stop:
  assumes o: "onTime c k rt" and tick: "clocksAgree c tick"
  shows "onTime c k (stopSender env tick b rt)"
proof -
  have "quietStep rt (rt\<lparr>sn_bStopRequested := True\<rparr>)"
    by (simp add: quietStep_def sameRound_def)
  note s = onTime_quiet [OF o this]
  have "onTime c k ((sender_step env tick ^^ m) (rt\<lparr>sn_bStopRequested := True\<rparr>))" for m
    by (induction m) (simp_all add: s onTime_step [OF _ tick])
  then have j: "onTime c k (joinWorker env tick (rt\<lparr>sn_bStopRequested := True\<rparr>))" by (simp add: joinWorker_def)
  let ?j = "joinWorker env tick (rt\<lparr>sn_bStopRequested := True\<rparr>)"
  let ?e = "if b \<and> sn_bRunning rt then emitResult env (tk_u64Now tick) Stopped ''Round stopped'' ?j else ?j"
  have e: "onTime c k ?e"
    using j onTime_quiet [OF j quiet_reported [OF reported_result], of env "tk_u64Now tick" Stopped "''Round stopped''"] by simp
  have "quietStep ?e (?e\<lparr>sn_bRunning := False, sn_bPaused := False\<rparr>)" by (rule quiet_members) (simp_all add: sameRound_def)
  from onTime_quiet [OF e this] show ?thesis by (simp add: stopSender_def Let_def)
qed

lemma onTime_call:
  assumes "onTime c k rt" "clocksAgree c tick" "in_sender_round op"
  shows "onTime c k (snd (sender_call env (tick, op) rt))"
  using call_in_round [OF assms(3), of rt env tick]
proof (elim disjE)
  assume "sameWorker rt (snd (sender_call env (tick, op) rt))"
  then have "quietStep rt (snd (sender_call env (tick, op) rt))" by (simp add: sameWorker_def quiet_members)
  from onTime_quiet [OF assms(1) this] show ?thesis .
next
  assume "op = SnStop"
  with onTime_stop [OF assms(1,2)] show ?thesis by (simp add: sender_call_def act_simps)
next
  assume "op = SnWorker"
  with onTime_step [OF assms(1,2)] show ?thesis by (simp add: sender_call_def act_simps)
qed

lemma onTime_run:
  assumes "list_all (in_sender_round \<circ> snd) calls" "list_all (clocksAgree c \<circ> fst) calls" "onTime c k rt"
  shows "onTime c k (run_sender env calls rt)"
  using assms
proof (induction calls arbitrary: rt)
  case (Cons x calls)
  obtain tick op where x: "x = (tick, op)" by fastforce
  with Cons onTime_call [OF Cons.prems(3), of tick op env] show ?case by simp
qed simp

section \<open>Whose segments they are\<close>

text \<open>The segments begun and those still to begin are in \<open>S\<close>.\<close>

definition segmentsIn :: "(u32 \<times> u64) set \<Rightarrow> nat \<Rightarrow> sender_runtime \<Rightarrow> bool" where
  "segmentsIn S k rt \<longleftrightarrow> k \<le> length (sn_out rt)
     \<and> (\<forall>f t. EvSegment f t \<in> set (drop k (sn_out rt)) \<longrightarrow> (f, t) \<in> S)
     \<and> (sn_pc rt = PcWaitStart \<longrightarrow> (1, sn_u64StartTimestampMilliseconds rt) \<in> S)
     \<and> (\<forall>i r t. sn_pc rt = PcWaitResume i r t \<longrightarrow> (r, t) \<in> S)
     \<and> (\<forall>r. sn_optResumeInterval rt = Some r \<longrightarrow> (r, sn_u64ResumeTimestampMilliseconds rt) \<in> S)"

fun opensSegment :: "sender_pc \<Rightarrow> bool" where
  "opensSegment PcWaitStart = True"
| "opensSegment (PcWaitResume _ _ _) = True"
| "opensSegment _ = False"

fun isSegment :: "sender_event \<Rightarrow> bool" where
  "isSegment (EvSegment _ _) = True"
| "isSegment _ = False"

definition keepsSegments :: "sender_runtime \<Rightarrow> sender_runtime \<Rightarrow> bool" where
  "keepsSegments s t \<longleftrightarrow> sn_optResumeInterval t = sn_optResumeInterval s
     \<and> sn_u64ResumeTimestampMilliseconds t = sn_u64ResumeTimestampMilliseconds s
     \<and> (\<exists>evs. sn_out t = sn_out s @ evs \<and> \<not> list_ex isSegment evs)"

lemma keepsSegments_refl: "keepsSegments s s"
  by (simp add: keepsSegments_def)

lemma keepsSegments_reported: "reported P s t \<Longrightarrow> keepsSegments s t"
proof -
  have "\<not> isSegment ev" if "isReport P ev" for ev using that by (cases ev) simp_all
  then show "reported P s t \<Longrightarrow> keepsSegments s t"
    by (auto simp: reported_def keepsSegments_def list_all_iff list_ex_iff)
qed

lemma keepsSegments_trans: "keepsSegments s t \<Longrightarrow> keepsSegments t u \<Longrightarrow> keepsSegments s u"
  by (auto simp: keepsSegments_def)

lemma keepsSegments_goto: "keepsSegments s t \<Longrightarrow> keepsSegments s (goto pc t)"
  by (simp add: keepsSegments_def goto_def)

lemma segmentsIn_keeps:
  assumes "segmentsIn S k s" "keepsSegments s t" "\<not> opensSegment (sn_pc t)"
  shows "segmentsIn S k t"
proof -
  obtain evs where evs: "sn_out t = sn_out s @ evs" "\<not> list_ex isSegment evs" using assms(2) by (auto simp: keepsSegments_def)
  then have "EvSegment f u \<notin> set evs" for f u by (auto simp: list_ex_iff)
  with assms evs(1) show ?thesis by (auto simp: segmentsIn_def keepsSegments_def)
qed

lemma keepsSegments_decide: "keepsSegments rt (snd (decideFault rt bs t))"
  by (subst decideFault_members) (simp add: keepsSegments_def)

lemma keepsSegments_send: "keepsSegments rt (sendDatagram env tick i n dec rt)"
proof -
  let ?dg = "int_vecDatagrams (intervalAt rt i) ! n"
  let ?s0 = "logEvent (EvSent i n ?dg (tk_bSent tick) (tk_u64Now tick)) rt"
  let ?s1 = "if tk_bSent tick then recordSentAuthenticationFields ?dg ?s0 else ?s0"
  let ?s2 = "emitPacketObservation env ?dg (tk_bSent tick) (tk_u64Now tick)
                 (if tk_bSent tick then dec_strReason dec else ''DATAGRAM_SEND_FAILED'') ?s1"
  have "keepsSegments rt ?s0" by (simp add: keepsSegments_def logEvent_def)
  moreover have "keepsSegments ?s0 ?s1"
    by (simp add: keepsSegments_refl keepsSegments_reported [OF reported_record])
  moreover have "keepsSegments ?s1 ?s2" by (rule keepsSegments_reported [OF reported_packet])
  ultimately have "keepsSegments rt ?s2" by (blast intro: keepsSegments_trans)
  then show ?thesis unfolding sendDatagram_def Let_def by (auto simp: keepsSegments_def goto_def)
qed

lemma keepsSegments_decideDatagram: "keepsSegments rt (decideDatagram env tick i n rt)
    \<and> \<not> opensSegment (sn_pc (decideDatagram env tick i n rt))"
proof -
  let ?dg = "int_vecDatagrams (intervalAt rt i) ! n"
  obtain r rt' where d: "decideFault rt ?dg (tk_u64Now tick) = (r, rt')" by fastforce
  have k: "keepsSegments rt rt'" using keepsSegments_decide [of rt ?dg "tk_u64Now tick"] d by simp
  note R = decideDatagram_run [OF d, of _ env]
  show ?thesis
  proof (cases r)
    case (Inl e)
    with R(1) k show ?thesis by (simp add: keepsSegments_goto)
  next
    case (Inr dec)
    have "keepsSegments rt (logEvent (EvDropped i n ?dg) rt')" using k by (auto simp: keepsSegments_def logEvent_def)
    from keepsSegments_trans [OF this keepsSegments_reported [OF reported_packet]]
    have e: "keepsSegments rt (goto (PcDatagram i (n + 1)) (emitPacketObservation env ?dg False (tk_u64Now tick)
        (dec_strReason dec) (logEvent (EvDropped i n ?dg) rt')))" by (rule keepsSegments_goto)
    have s: "keepsSegments rt (sendDatagram env tick i n dec rt')"
      by (rule keepsSegments_trans [OF k keepsSegments_send])
    have pc: "\<not> opensSegment (sn_pc (sendDatagram env tick i n dec rt'))"
      using sendDatagram_form(2) [OF refl, where env = env and tick = tick and i = i and n = n and dec = dec and rt = rt'] by auto
    show ?thesis
    proof (cases "dec_dspDisposition dec = Drop")
      case True
      with R(2) [OF Inr] e show ?thesis by simp
    next
      case False
      with R(3) [OF Inr] s pc keepsSegments_goto [OF k] show ?thesis by simp
    qed
  qed
qed

lemma segmentsIn_move:
  assumes "segmentsIn S k rt" "\<not> opensSegment pc" "keepsSegments rt t"
  shows "segmentsIn S k (goto pc t)"
  using assms by (intro segmentsIn_keeps [OF assms(1) keepsSegments_goto]) simp_all

lemma segmentsIn_wait:
  assumes "segmentsIn S k rt" "\<not> opensSegment pc'" "segmentsIn S k (f rt)"
  shows "segmentsIn S k (waitFor b pc' f rt)"
  using assms segmentsIn_move [OF assms(1,2) keepsSegments_refl] by (simp add: waitFor_def)

lemma segmentsIn_start:
  assumes "segmentsIn S k rt" "(f, t) \<in> S" "\<not> opensSegment pc"
  shows "segmentsIn S k (goto pc (startSegment tick f t (rt\<lparr>sn_optPauseAfterInterval := p, sn_optResumeInterval := None\<rparr>)))"
    "segmentsIn S k (goto pc (startSegment tick f t rt))"
  using assms by (auto simp: segmentsIn_def startSegment_def logEvent_def goto_def)

lemma keepsSegments_finish: "keepsSegments rt (finishRun env tick b rt)"
  unfolding finishRun_def
  by (simp add: keepsSegments_refl keepsSegments_trans [OF keepsSegments_reported [OF reported_failure]
      keepsSegments_reported [OF reported_result]] keepsSegments_trans [OF keepsSegments_reported [OF reported_progress]
      keepsSegments_reported [OF reported_result]])

lemma segmentsIn_step:
  assumes o: "segmentsIn S k rt"
  shows "segmentsIn S k (sender_step env tick rt)"
proof -
  note M = segmentsIn_move [OF o] and W = segmentsIn_wait [OF o]
  have upd: "keepsSegments rt (rt\<lparr>sn_u32CurrentInterval := j\<rparr>)" "keepsSegments rt (rt\<lparr>sn_bPaused := b\<rparr>)"
    "keepsSegments rt (rt\<lparr>sn_bRunning := b, sn_bPaused := b\<rparr>)" for j b
    by (simp_all add: keepsSegments_def)
  show ?thesis
  proof (cases "sn_pc rt")
    case PcWaitStart
    then have "(1, sn_u64StartTimestampMilliseconds rt) \<in> S" using o by (simp add: segmentsIn_def)
    then show ?thesis unfolding sender_step_def PcWaitStart sender_pc.case
      by (intro W segmentsIn_start [OF o]) simp_all
  next
    case (PcDatagram i n)
    have "segmentsIn S k (decideDatagram env tick i n rt)"
      using keepsSegments_decideDatagram [of rt env tick i n] by (blast intro: segmentsIn_keeps [OF o])
    then have "segmentsIn S k (waitFor (tk_tpNow tick \<ge> tpSendTarget rt i n) (PcAfter i) (decideDatagram env tick i n) rt)"
      by (intro W) simp_all
    with PcDatagram M [OF _ keepsSegments_refl] show ?thesis by (simp add: sender_step_def)
  next
    case (PcDelayed i n dec)
    have "segmentsIn S k (sendDatagram env tick i n dec rt)"
      by (rule segmentsIn_keeps [OF o keepsSegments_send])
        (use sendDatagram_form(2) [OF refl, where env = env and tick = tick and i = i and n = n and dec = dec and rt = rt] in auto)
    then show ?thesis unfolding sender_step_def PcDelayed sender_pc.case by (intro W) simp_all
  next
    case (PcAfter i)
    have "segmentsIn S k (goto (PcCheckPause i) (emitKeyChainProgress env i False rt))"
      by (rule M [OF _ keepsSegments_reported [OF reported_progress]]) simp
    with PcAfter M [OF _ keepsSegments_refl] show ?thesis by (simp add: sender_step_def)
  next
    case (PcPaused i)
    have "segmentsIn S k (goto (PcWaitResume i r (sn_u64ResumeTimestampMilliseconds rt)) (rt\<lparr>sn_bPaused := False\<rparr>))"
      if "sn_optResumeInterval rt = Some r" for r
      using o that by (simp add: segmentsIn_def goto_def)
    with PcPaused M [OF _ keepsSegments_refl] o show ?thesis by (simp add: sender_step_def split: option.split)
  next
    case (PcWaitResume i r t)
    then have "(r, t) \<in> S" using o by (simp add: segmentsIn_def)
    then show ?thesis unfolding sender_step_def PcWaitResume sender_pc.case
      by (intro W segmentsIn_start [OF o]) simp_all
  next
    case (PcEnd b)
    have "segmentsIn S k (goto PcFinish (finishRun env tick b rt))" by (rule M [OF _ keepsSegments_finish]) simp
    with PcEnd show ?thesis by (simp add: sender_step_def)
  qed (use o M [OF _ keepsSegments_refl] M [OF _ upd(1)] M [OF _ upd(2)] M [OF _ upd(3)] W in \<open>simp_all add: sender_step_def\<close>)
qed

lemma segmentsIn_members:
  assumes "segmentsIn S k s" "sn_out t = sn_out s" "sn_pc t = sn_pc s" "sn_optResumeInterval t = sn_optResumeInterval s"
    "sn_u64ResumeTimestampMilliseconds t = sn_u64ResumeTimestampMilliseconds s"
    "sn_u64StartTimestampMilliseconds t = sn_u64StartTimestampMilliseconds s"
  shows "segmentsIn S k t"
  using assms by (simp add: segmentsIn_def)

lemma segmentsIn_report: "segmentsIn S k s \<Longrightarrow> reported P s t \<Longrightarrow> segmentsIn S k t"
proof -
  have n: "\<not> isSegment ev" if "isReport P ev" for ev using that by (cases ev) simp_all
  assume "segmentsIn S k s" "reported P s t"
  with n show ?thesis by (force simp: segmentsIn_def reported_def list_all_iff)
qed

lemma segmentsIn_stop:
  assumes "segmentsIn S k rt"
  shows "segmentsIn S k (stopSender env tick b rt)"
proof -
  have s: "segmentsIn S k (rt\<lparr>sn_bStopRequested := True\<rparr>)" by (rule segmentsIn_members [OF assms]) simp_all
  have "segmentsIn S k ((sender_step env tick ^^ m) (rt\<lparr>sn_bStopRequested := True\<rparr>))" for m
    by (induction m) (simp_all add: s segmentsIn_step)
  then have j: "segmentsIn S k (joinWorker env tick (rt\<lparr>sn_bStopRequested := True\<rparr>))" by (simp add: joinWorker_def)
  let ?j = "joinWorker env tick (rt\<lparr>sn_bStopRequested := True\<rparr>)"
  let ?e = "if b \<and> sn_bRunning rt then emitResult env (tk_u64Now tick) Stopped ''Round stopped'' ?j else ?j"
  have "segmentsIn S k ?e" using j by (simp add: segmentsIn_report [OF _ reported_result])
  then have "segmentsIn S k (?e\<lparr>sn_bRunning := False, sn_bPaused := False\<rparr>)"
    by (rule segmentsIn_members) simp_all
  then show ?thesis by (simp add: stopSender_def Let_def)
qed

text \<open>The segments the calls of a round announce.\<close>

fun resumption :: "sender_op \<Rightarrow> (u32 \<times> u64) set" where
  "resumption (SnResume _ r t) = {(r, t)}"
| "resumption _ = {}"

lemma segmentsIn_call:
  assumes o: "segmentsIn S k rt" and op: "in_sender_round op" "resumption op \<subseteq> S"
  shows "segmentsIn S k (snd (sender_call env (tick, op) rt))"
proof (cases op)
  case (SnConfigureFault det)
  with o show ?thesis
    by (auto simp: sender_call_def sn_configureFault_def act_simps liftA_then split: sum.split
        intro!: segmentsIn_members [OF o])
next
  case SnClearFault
  then show ?thesis by (auto simp: sender_call_def sn_clearFault_def act_simps intro!: segmentsIn_members [OF o])
next
  case (SnRequestPause r i t)
  then show ?thesis
    by (auto simp: sender_call_def sn_requestPause_def act_simps thenA_def liftA_then split: sum.split
        intro!: segmentsIn_members [OF o])
next
  case (SnResume id' r t)
  then have "(r, t) \<in> S" using op(2) by simp
  with o SnResume show ?thesis
    by (auto simp: sender_call_def sn_resume_def act_simps thenA_def liftA_then segmentsIn_def split: sum.split)
next
  case SnStop
  with segmentsIn_stop [OF o] show ?thesis by (simp add: sender_call_def act_simps)
next
  case SnWorker
  with segmentsIn_step [OF o] show ?thesis by (simp add: sender_call_def act_simps)
qed (use op(1) in simp_all)

lemma segmentsIn_run:
  assumes "list_all (in_sender_round \<circ> snd) calls" "\<And>x. x \<in> set calls \<Longrightarrow> resumption (snd x) \<subseteq> S" "segmentsIn S k rt"
  shows "segmentsIn S k (run_sender env calls rt)"
  using assms
proof (induction calls arbitrary: rt)
  case (Cons x calls)
  obtain tick op where x: "x = (tick, op)" by fastforce
  have "segmentsIn S k (snd (sender_call env x rt))"
    using segmentsIn_call [OF Cons.prems(3), of op env tick] Cons.prems(1) Cons.prems(2) [of x] by (simp add: x)
  with Cons show ?case by simp
qed simp

section \<open>Rounds\<close>

text \<open>Nothing that left the runtime is taken back.\<close>

definition extendsLog :: "sender_runtime \<Rightarrow> sender_runtime \<Rightarrow> bool" where
  "extendsLog s t \<longleftrightarrow> prefix (sn_out s) (sn_out t)"

interpretation log: members_relation extendsLog
  by unfold_locales (auto simp: extendsLog_def)


lemma extends_keeps: "keepsSegments s t \<Longrightarrow> extendsLog s t"
  by (auto simp: keepsSegments_def extendsLog_def)

lemma extends_goto: "extendsLog s t \<Longrightarrow> extendsLog s (goto pc t)"
  by (simp add: extendsLog_def)

lemma extends_wait: "extendsLog rt (f rt) \<Longrightarrow> extendsLog rt (waitFor b pc f rt)"
  by (simp add: waitFor_def extendsLog_def)

lemma extends_same: "sn_out t = sn_out s \<Longrightarrow> extendsLog s t"
  by (simp add: extendsLog_def)

lemma extends_step: "extendsLog rt (sender_step env tick rt)"
proof -
  have seg: "extendsLog rt (goto pc (startSegment tick f t rt'))" if "sn_out rt' = sn_out rt" for pc f t rt'
    using that by (simp add: extendsLog_def startSegment_def logEvent_def)
  note K = extends_keeps [THEN extends_goto]
  show ?thesis
  proof (cases "sn_pc rt")
    case (PcDatagram i n)
    with extends_keeps [OF conjunct1 [OF keepsSegments_decideDatagram]] show ?thesis
      by (auto simp: sender_step_def extends_same intro!: extends_wait)
  next
    case (PcAfter i)
    have "extendsLog rt (goto (PcCheckPause i) (emitKeyChainProgress env i False rt))"
      by (rule K [OF keepsSegments_reported [OF reported_progress]])
    with PcAfter show ?thesis by (simp add: sender_step_def extends_same)
  next
    case (PcEnd b)
    have "extendsLog rt (goto PcFinish (finishRun env tick b rt))" by (rule K [OF keepsSegments_finish])
    with PcEnd show ?thesis by (simp add: sender_step_def)
  qed (auto simp: sender_step_def extends_same seg intro!: extends_wait extends_keeps [OF keepsSegments_send]
      split: option.split)
qed

lemma extends_stop: "extendsLog rt (stopSender env tick b rt)"
proof -
  let ?s = "rt\<lparr>sn_bStopRequested := True\<rparr>"
  let ?j = "joinWorker env tick ?s"
  have "extendsLog ?s ((sender_step env tick ^^ m) ?s)" for m
    by (induction m) (simp add: extends_same, simp, rule log.rel_trans [OF _ extends_step])
  then have j: "extendsLog ?s ?j" by (simp add: joinWorker_def)
  have "extendsLog ?s (emitResult env (tk_u64Now tick) Stopped ''Round stopped'' ?j)"
    by (rule log.rel_trans [OF j extends_keeps [OF keepsSegments_reported [OF reported_result]]])
  with j show ?thesis by (simp add: extendsLog_def stopSender_def Let_def)
qed

lemma extends_run: "list_all (in_sender_round \<circ> snd) calls \<Longrightarrow> extendsLog rt (run_sender env calls rt)"
proof (induction calls arbitrary: rt)
  case (Cons x calls)
  obtain tick op where x: "x = (tick, op)" by fastforce
  have "extendsLog rt (snd (sender_call env (tick, op) rt))"
    using call_in_round [of op rt env tick] Cons.prems extends_stop [of rt env tick True] extends_step [of rt env tick]
    by (auto simp: x sameWorker_def extends_same sender_call_def act_simps)
  with Cons show ?case by (auto simp: x intro: log.rel_trans)
qed (simp add: extends_same)

lemma sameRound_run: "list_all (in_sender_round \<circ> snd) calls \<Longrightarrow> sameRound rt (run_sender env calls rt)"
proof (induction calls arbitrary: rt)
  case (Cons x calls)
  obtain tick op where x: "x = (tick, op)" by fastforce
  have "sameRound rt (snd (sender_call env (tick, op) rt))"
    using call_in_round [of op rt env tick] Cons.prems sameRound_stop [of rt env tick True] sameRound_step [of rt env tick]
    by (auto simp: x sameWorker_def sender_call_def act_simps)
  with Cons show ?case by (auto simp: x intro: sameRound_trans)
qed (simp add: sameRound_refl)

lemma round_log:
  assumes "list_all (in_sender_round \<circ> snd) calls"
  shows "sn_out (run_sender env calls rt) = sn_out rt @ drop (length (sn_out rt)) (sn_out (run_sender env calls rt))"
  using extends_run [OF assms, of rt env] by (auto simp: extendsLog_def prefix_def)

text \<open>C40. In any history of calls, after a start that returned and before the next start or
  configuration: the datagrams the worker has sent or dropped are, in order and each once, the first ones
  of the stream of datagrams built for the configured context, and when it reports the round as completed
  they are all of them and none of them failed to be sent.\<close>

theorem sender_follows_stream:
  assumes built: "list_all (built_sender_op \<circ> snd) before_calls"
    and start: "sender_call env (tick, SnStart r t) (run_sender env before_calls sender_initial) = (Inr (), rt0)"
    and round: "list_all (in_sender_round \<circ> snd) calls"
  shows "\<exists>ctx load ints lg. sn_optSenderContext rt0 = Some ctx \<and> buildDatagrams (se_ssl env) ctx load = Inr ints
    \<and> sn_out (run_sender env calls rt0) = sn_out rt0 @ lg \<and> prefix (handled lg) (streamOf ints)
    \<and> (list_ex completedEvent lg \<longrightarrow> handled lg = streamOf ints \<and> \<not> list_ex failedEvent lg)"
proof -
  note S = started [OF start]
  have ok: "configured_ok env rt0"
    by (rule configured_ok_same [OF S(5) configured_ok_run [OF built configured_ok_initial]])
  let ?k = "length (sn_out rt0)" and ?ints = "sn_vecIntervals rt0" and ?rt = "run_sender env calls rt0"
  have "onRound ?k ?ints rt0" using S(1,2) by (simp add: onRound_def follows_def)
  from onRound_run [OF round this configured_length [OF ok], of env]
  have R: "?k \<le> length (sn_out ?rt)" "follows ?ints (sn_bStopRequested ?rt) (sn_pc ?rt) (drop ?k (sn_out ?rt))"
    by (simp_all add: onRound_def)
  have "sn_out ?rt = sn_out rt0 @ drop ?k (sn_out ?rt)" by (rule round_log [OF round])
  with R ok S(3) show ?thesis by (auto simp: configured_ok_def follows_def split: option.splits)
qed

text \<open>A round of the sample sender: one packet, then the disclosure of its key.\<close>

definition quiet_env :: "nat sender_env" where
  "quiet_env = \<lparr>se_ssl = sample_ssl, se_shuffle = (\<lambda>_ xs. xs), se_bObserve = False, se_bKeyChain = False,
     se_bMetrics = False, se_strLocalIpAddress = ''10.0.0.1''\<rparr>"

lemma quiet_env_simps [simp]:
  "se_ssl quiet_env = sample_ssl" "\<not> se_bObserve quiet_env" "\<not> se_bKeyChain quiet_env" "\<not> se_bMetrics quiet_env"
  by (simp_all add: quiet_env_def)

text \<open>The clocks at system time \<open>t\<close>, in a run in which every datagram is sent at once.\<close>

definition tick_at :: "nat \<Rightarrow> sender_tick" where
  "tick_at t = \<lparr>tk_u64Now = of_nat t, tk_tpNow = int t * 1000000, tk_bSent = True, tk_tpAfter = int t * 1000000 + 500\<rparr>"

definition one_before :: "(sender_tick \<times> sender_op) list" where
  "one_before = [(tick_at 100, SnConfigure one_sender one_workload 0)]"

definition one_steps :: "(sender_tick \<times> sender_op) list" where
  "one_steps = (tick_at 1000, SnWorker) # replicate 6 (tick_at 1000, SnWorker) @ replicate 6 (tick_at 1100, SnWorker)
     @ [(tick_at 1100, SnWorker), (tick_at 1100, SnWorker), (tick_at 1100, SnWorker)]"

lemma idle_step [simp]: "sn_pc rt = PcIdle \<Longrightarrow> sender_step env tick rt = rt"
  by (simp add: sender_step_def)

lemma idle_stop: "sn_pc rt = PcIdle \<Longrightarrow> stopSender env tick False rt
    = rt\<lparr>sn_bStopRequested := True, sn_bRunning := False, sn_bPaused := False\<rparr>"
proof -
  assume "sn_pc rt = PcIdle"
  then have "(sender_step env tick ^^ m) (rt\<lparr>sn_bStopRequested := True\<rparr>) = rt\<lparr>sn_bStopRequested := True\<rparr>" for m
    by (induction m) simp_all
  then show ?thesis by (simp add: stopSender_def joinWorker_def Let_def)
qed

definition one_prepared :: "(interval_datagrams list \<times> local_key_chain_snapshot) result \<Rightarrow> bool" where
  "one_prepared p = (case p of Inl _ \<Rightarrow> False
     | Inr (ints, _) \<Rightarrow> map int_vecDatagrams ints = [[], [one_datagram], [one_disclosure]]
         \<and> map int_u32DataPacketCount ints = [0, 1, 0])"

lemma one_prepared: "one_prepared (prepareRound quiet_env one_sender one_workload 0)"
  by code_simp

text \<open>The runtime after the start.\<close>

definition one_begun :: "interval_datagrams list \<Rightarrow> sender_runtime" where
  "one_begun ints = sender_initial\<lparr>sn_optSenderContext := Some one_sender, sn_optPayloadWorkload := Some one_workload,
     sn_vecIntervals := ints, sn_bConfigured := True, sn_strRoundId := ''r'', sn_u64StartTimestampMilliseconds := 1000,
     sn_bRunning := True, sn_pc := PcWaitStart\<rparr>"

lemma one_begins:
  obtains ints where "map int_vecDatagrams ints = [[], [one_datagram], [one_disclosure]]"
    "map int_u32DataPacketCount ints = [0, 1, 0]"
    "sender_call quiet_env (tick_at 200, SnStart ''r'' 1000) (run_sender quiet_env one_before sender_initial)
      = (Inr (), one_begun ints)"
proof -
  obtain ints snp where p: "prepareRound quiet_env one_sender one_workload 0 = Inr (ints, snp)"
    "map int_vecDatagrams ints = [[], [one_datagram], [one_disclosure]]" "map int_u32DataPacketCount ints = [0, 1, 0]"
    using one_prepared by (auto simp: one_prepared_def split: sum.splits)
  have "run_sender quiet_env one_before sender_initial = sender_initial\<lparr>sn_optSenderContext := Some one_sender,
      sn_optPayloadWorkload := Some one_workload, sn_vecIntervals := ints, sn_bConfigured := True, sn_bStopRequested := True\<rparr>"
    by (simp add: one_before_def sender_call_def sn_configure_def act_simps idle_stop sender_initial_def p(1)
        emitLocalKeyChainObservation_def liftA_then)
  then have "sender_call quiet_env (tick_at 200, SnStart ''r'' 1000) (run_sender quiet_env one_before sender_initial)
      = (Inr (), one_begun ints)"
    by (simp add: sender_call_def sn_start_def act_simps idle_stop sender_initial_def thenA_def bindA_cases
        tick_at_def renewFaultPolicy_def beginRound_def one_begun_def goto_def)
  with p(2,3) show thesis by (rule that)
qed

text \<open>The worker's steps of the round, to the end.\<close>

definition one_completed :: "sender_event list" where
  "one_completed = [EvSegment 1 1000, EvSent 1 0 one_datagram True 1000, EvSent 2 0 one_disclosure True 1100,
     EvResult \<lparr>res_strRoundId = ''r'', res_strSenderId = ''S'', res_u64ChainId = 7, res_statusResult = Completed,
       res_u32ExpectedPacketCount = 1, res_u32ReceivedPacketCount = 1, res_u32AuthenticatedPacketCount = 1,
       res_u32FailedPacketCount = 0, res_u32MissingPacketCount = 0, res_varResultDetails = TextResultDetails [],
       res_strMessage = ''Sender completed all data and disclosure intervals''\<rparr>]"

definition one_now :: "interval_datagrams list \<Rightarrow> sender_pc \<Rightarrow> u32 \<Rightarrow> u32 \<Rightarrow> int \<Rightarrow> int \<Rightarrow> sender_event list \<Rightarrow> sender_runtime" where
  "one_now ints pc cur sent worst seg lg = (one_begun ints)\<lparr>sn_pc := pc, sn_u32CurrentInterval := cur,
     sn_u32SentDataPacketCount := sent, sn_durWorstObservedSend := worst, sn_tpSegmentStart := seg, sn_out := lg\<rparr>"

lemma one_now_members [simp]:
  "sn_pc (one_now ints pc cur sent worst seg lg) = pc" "sn_vecIntervals (one_now ints pc cur sent worst seg lg) = ints"
  "\<not> sn_bStopRequested (one_now ints pc cur sent worst seg lg)" "sn_out (one_now ints pc cur sent worst seg lg) = lg"
  "sn_optPauseAfterInterval (one_now ints pc cur sent worst seg lg) = None"
  "sn_u64StartTimestampMilliseconds (one_now ints pc cur sent worst seg lg) = 1000"
  "sn_ptrFaultPolicy (one_now ints pc cur sent worst seg lg) = None"
  "sn_optSenderContext (one_now ints pc cur sent worst seg lg) = Some one_sender"
  "goto pc' (one_now ints pc cur sent worst seg lg) = one_now ints pc' cur sent worst seg lg"
  "sn_optCommunicationAccumulator (one_now ints pc cur sent worst seg lg) = None"
  "sn_optPayloadWorkload (one_now ints pc cur sent worst seg lg) = Some one_workload"
  "sn_strRoundId (one_now ints pc cur sent worst seg lg) = ''r''"
  "sn_durWorstObservedSend (one_now ints pc cur sent worst seg lg) = worst"
  "sn_u32SentDataPacketCount (one_now ints pc cur sent worst seg lg) = sent"
  "one_now ints pc cur sent worst seg lg\<lparr>sn_durWorstObservedSend := w'\<rparr> = one_now ints pc cur sent w' seg lg"
  "one_now ints pc cur sent worst seg lg\<lparr>sn_u32SentDataPacketCount := n'\<rparr> = one_now ints pc cur n' worst seg lg"
  "one_now ints pc cur sent worst seg lg\<lparr>sn_u32CurrentInterval := c'\<rparr> = one_now ints pc c' sent worst seg lg"
  by (simp_all add: one_now_def one_begun_def sender_initial_def goto_def)

lemma tick_at_simps [simp]:
  "tk_u64Now (tick_at t) = of_nat t" "tk_tpNow (tick_at t) = int t * 1000000" "tk_bSent (tick_at t)"
  "tk_tpAfter (tick_at t) = int t * 1000000 + 500"
  by (simp_all add: tick_at_def)

lemma one_start_at: "tpIntervalStart (one_now ints pc cur sent worst seg lg) i = seg + 100000000 * int (unat (i - 1))"
  by (simp add: tpIntervalStart_def sn_durInterval_def one_sender_ok(2) one_round_def)
    (simp add: one_now_def one_begun_def sender_initial_def)

lemma one_gap: "length (int_vecDatagrams (ints ! unat i)) \<le> 1 \<Longrightarrow> durPacketGap (one_now ints pc cur sent worst seg lg) i = 0"
  by (simp add: durPacketGap_def intervalAt_def Let_def)

lemma one_quiet:
  "emitKeyChainProgress quiet_env i b rt = rt" "emitPacketObservation quiet_env bs b' t r rt = rt"
  "recordSentAuthenticationFields bs (one_now ints pc cur sent worst seg lg) = one_now ints pc cur sent worst seg lg"
  "logEvent ev (one_now ints pc cur sent worst seg lg) = one_now ints pc cur sent worst seg (lg @ [ev])"
  by (simp_all add: emitKeyChainProgress_def emitPacketObservation_def recordSentAuthenticationFields_def logEvent_def
      one_now_def one_begun_def sender_initial_def)

lemma one_send:
  assumes "int_vecDatagrams (ints ! unat i) = [bs]" "seg + 100000000 * int (unat (i - 1)) \<le> int t * 1000000"
    "int t * 1000000 + 500 < seg + 100000000 * int (unat (i - 1)) + 100000000"
  shows "sender_step quiet_env (tick_at t) (one_now ints (PcDatagram i 0) cur sent worst seg lg)
    = one_now ints (PcDatagram i 1) cur (if int_u32DataPacketCount (ints ! unat i) = 0 then sent else sent + 1)
        (max worst 500) seg (lg @ [EvSent i 0 bs True (of_nat t)])"
proof -
  have g: "durPacketGap (one_now ints pc cur sent worst seg lg) i = 0" for pc by (rule one_gap) (simp add: assms(1))
  have d: "sn_durInterval (one_now ints pc cur sent w' seg lg') = 100000000" for pc w' lg'
    by (simp add: sn_durInterval_def one_sender_ok(2) one_round_def)
  have n: "0 < unat w \<longleftrightarrow> w \<noteq> 0" for w :: u32 by (simp add: unat_gt_0)
  have "decideDatagram quiet_env (tick_at t) i 0 (one_now ints (PcDatagram i 0) cur sent worst seg lg)
      = sendDatagram quiet_env (tick_at t) i 0 NORMAL_SEND (one_now ints (PcDatagram i 0) cur sent worst seg lg)"
    by (simp add: decideDatagram_def Let_def decideFault_def NORMAL_SEND_def)
  also have "\<dots> = one_now ints (PcDatagram i 1) cur (if int_u32DataPacketCount (ints ! unat i) = 0 then sent else sent + 1)
        (max worst 500) seg (lg @ [EvSent i 0 bs True (of_nat t)])"
    using assms
    by (simp add: sendDatagram_def Let_def one_quiet intervalAt_def one_start_at d durFaultDelay_def NORMAL_SEND_def n)
  finally show ?thesis
    using assms by (simp add: sender_step_def waitFor_def intervalAt_def tpSendTarget_def one_start_at g)
qed

text \<open>The other steps of an interval with one datagram.\<close>

lemma one_enter:
  "unat i < length ints \<Longrightarrow> sender_step quiet_env (tick_at t) (one_now ints (PcLoop i) cur sent worst seg lg)
     = one_now ints (PcWaitInterval i) i sent worst seg lg"
  "seg + 100000000 * int (unat (i - 1)) \<le> int t * 1000000
     \<Longrightarrow> sender_step quiet_env (tick_at t) (one_now ints (PcWaitInterval i) cur sent worst seg lg)
     = one_now ints (PcDatagram i 0) cur sent worst seg lg"
  "length (int_vecDatagrams (ints ! unat i)) = 1
     \<Longrightarrow> sender_step quiet_env (tick_at t) (one_now ints (PcDatagram i 1) cur sent worst seg lg)
     = one_now ints (PcAfter i) cur sent worst seg lg"
  "sender_step quiet_env (tick_at t) (one_now ints (PcAfter i) cur sent worst seg lg)
     = one_now ints (PcCheckPause i) cur sent worst seg lg"
  "sender_step quiet_env (tick_at t) (one_now ints (PcCheckPause i) cur sent worst seg lg)
     = one_now ints (PcLoop (i + 1)) cur sent worst seg lg"
  "\<not> unat i < length ints \<Longrightarrow> sender_step quiet_env (tick_at t) (one_now ints (PcLoop i) cur sent worst seg lg)
     = one_now ints (PcEnd False) cur sent worst seg lg"
  by (simp_all add: sender_step_def waitFor_def one_start_at one_quiet intervalAt_def)

text \<open>All the steps of an interval.\<close>

lemma one_interval:
  assumes "unat i < length ints" "int_vecDatagrams (ints ! unat i) = [bs]"
    "seg + 100000000 * int (unat (i - 1)) \<le> int t * 1000000"
    "int t * 1000000 + 500 < seg + 100000000 * int (unat (i - 1)) + 100000000"
  shows "run_sender quiet_env (replicate 6 (tick_at t, SnWorker)) (one_now ints (PcLoop i) cur sent worst seg lg)
    = one_now ints (PcLoop (i + 1)) i (if int_u32DataPacketCount (ints ! unat i) = 0 then sent else sent + 1)
        (max worst 500) seg (lg @ [EvSent i 0 bs True (of_nat t)])"
proof -
  have r: "replicate 6 x = [x, x, x, x, x, x]" for x :: "sender_tick \<times> sender_op" by (simp add: eval_nat_numeral)
  show ?thesis
    unfolding r using assms
    by (simp add: sender_call_def act_simps one_enter one_send del: One_nat_def)
qed

lemma emitResult_run:
  assumes "sn_optSenderContext rt \<noteq> None" "sn_optCommunicationAccumulator rt = None"
    "sn_optPayloadWorkload rt = Some (TextSenderWorkload wrk)"
  shows "emitResult env t st msg rt = (case senderResult rt st msg (TextResultDetails []) of
      Inl _ \<Rightarrow> rt | Inr res \<Rightarrow> logEvent (EvResult res) rt)"
  using assms
  by (cases "senderResult rt st msg (TextResultDetails [])")
    (auto simp: emitResult_def quietly_def catchA_def takeSummary_def resultDetails_def bindA_cases act_simps)

text \<open>From the start to the end of the round.\<close>

lemma one_runs:
  assumes ints: "map int_vecDatagrams ints = [[], [one_datagram], [one_disclosure]]"
    and counts: "map int_u32DataPacketCount ints = [0, 1, 0]"
  shows "sn_out (run_sender quiet_env one_steps (one_begun ints)) = one_completed"
proof -
  have i: "length ints = 3" "int_vecDatagrams (ints ! 1) = [one_datagram]" "int_vecDatagrams (ints ! 2) = [one_disclosure]"
    "int_u32DataPacketCount (ints ! 1) = 1" "int_u32DataPacketCount (ints ! 2) = 0"
    using ints counts by (auto simp: map_eq_Cons_conv)
  have 0: "sender_step quiet_env (tick_at 1000) (one_begun ints) = one_now ints (PcLoop 1) 0 0 0 1000000000 [EvSegment 1 1000]"
    by (simp add: one_begun_def one_now_def sender_initial_def sender_step_def waitFor_def startSegment_def logEvent_def goto_def)
  have 1: "run_sender quiet_env (replicate 6 (tick_at 1000, SnWorker)) (one_now ints (PcLoop 1) 0 0 0 1000000000 [EvSegment 1 1000])
      = one_now ints (PcLoop 2) 1 1 500 1000000000 [EvSegment 1 1000, EvSent 1 0 one_datagram True 1000]"
    by (subst one_interval) (use i in simp_all)
  have 2: "run_sender quiet_env (replicate 6 (tick_at 1100, SnWorker))
        (one_now ints (PcLoop 2) 1 1 500 1000000000 [EvSegment 1 1000, EvSent 1 0 one_datagram True 1000])
      = one_now ints (PcLoop 3) 2 1 500 1000000000
          [EvSegment 1 1000, EvSent 1 0 one_datagram True 1000, EvSent 2 0 one_disclosure True 1100]"
    by (subst one_interval) (use i in simp_all)
  have run: "run_sender env (xs @ ys) rt = run_sender env ys (run_sender env xs rt)" for env :: "nat sender_env" and xs ys rt
    by (simp add: run_sender_def run_ops_append)
  let ?e = "[EvSegment 1 1000, EvSent 1 0 one_datagram True 1000, EvSent 2 0 one_disclosure True 1100]"
  have 3: "finishRun quiet_env (tick_at 1100) False (one_now ints (PcEnd False) 2 1 500 1000000000 ?e)
      = one_now ints (PcEnd False) 2 1 500 1000000000 one_completed"
    by (simp add: finishRun_def one_quiet emitResult_run one_workload_def senderResult_def Let_def snd_prm_def one_round_def
        one_sender_def one_material_def mkAuthenticationRuntimeResult_def one_completed_def)
  show ?thesis
    unfolding one_steps_def run_sender_Cons run
    using i 3 by (simp add: sender_call_def act_simps 0 1 2 one_enter) (simp add: sender_step_def)
qed

lemma one_sender_built: "built_sender one_sender"
proof -
  have "snd_prm one_sender = one_round" by (rule one_sender_ok(2))
  then show ?thesis unfolding built_sender_def using one_verified one_round_made by metis
qed

theorem sender_follows_stream_witness:
  "\<exists>rt0 lg. sender_call quiet_env (tick_at 200, SnStart ''r'' 1000) (run_sender quiet_env one_before sender_initial) = (Inr (), rt0)
     \<and> sn_out (run_sender quiet_env one_steps rt0) = sn_out rt0 @ lg \<and> list_ex completedEvent lg
     \<and> handled lg = [one_datagram, one_disclosure]"
proof -
  obtain ints where ints: "map int_vecDatagrams ints = [[], [one_datagram], [one_disclosure]]"
    "map int_u32DataPacketCount ints = [0, 1, 0]"
    and start: "sender_call quiet_env (tick_at 200, SnStart ''r'' 1000) (run_sender quiet_env one_before sender_initial)
      = (Inr (), one_begun ints)"
    by (rule one_begins)
  have b: "list_all (built_sender_op \<circ> snd) one_before" by (simp add: one_before_def one_sender_built)
  have c: "list_all (in_sender_round \<circ> snd) one_steps" by (simp add: one_steps_def list_all_iff)
  have out: "sn_out (one_begun ints) = []" by (simp add: one_begun_def sender_initial_def)
  from sender_follows_stream [OF b start c] obtain ctx load ints' lg where
    lg: "sn_out (run_sender quiet_env one_steps (one_begun ints)) = sn_out (one_begun ints) @ lg"
    and all: "list_ex completedEvent lg \<longrightarrow> handled lg = streamOf ints' \<and> \<not> list_ex failedEvent lg"
    by blast
  have "lg = one_completed" using lg out one_runs [OF ints] by simp
  then have "list_ex completedEvent lg" "handled lg = [one_datagram, one_disclosure]"
    by (simp_all add: one_completed_def)
  with start lg show ?thesis by blast
qed

section \<open>The timeline of a round\<close>

text \<open>C24. When the steady clock and the system clock run alike, every datagram of a round leaves no
  earlier than its interval's time on the timeline: the time of the segment it belongs to plus the
  intervals since the segment's first. The segments are those of the start, which begins interval 1 at
  the announced time, and of the resumptions called in the round. A receiver that is given the same start
  and resumptions computes the disclosure times of its safety check from the same timeline.\<close>

theorem sender_keeps_timeline:
  assumes start: "sender_call env (tick, SnStart r t) rt = (Inr (), rt0)"
    and round: "list_all (in_sender_round \<circ> snd) calls" and clocks: "list_all (clocksAgree c \<circ> fst) calls"
  shows "\<exists>lg. sn_out (run_sender env calls rt0) = sn_out rt0 @ lg
    \<and> inTime (prm_u32IntervalMilliseconds (sn_prm rt0)) None lg
    \<and> (\<forall>f u. EvSegment f u \<in> set lg \<longrightarrow> (f, u) = (1, t) \<or> (\<exists>tick' r'. (tick', SnResume r' f u) \<in> set calls))"
proof -
  note S = started [OF start]
  let ?k = "length (sn_out rt0)" and ?rt = "run_sender env calls rt0"
  let ?S = "insert (1, t) (\<Union>x \<in> set calls. resumption (snd x))"
  have "onTime c ?k rt0" using S(1) by (simp add: onTime_def)
  from onTime_run [OF round clocks this, of env]
  have T: "inTime (prm_u32IntervalMilliseconds (sn_prm ?rt)) None (drop ?k (sn_out ?rt))" by (simp add: onTime_def)
  have "segmentsIn ?S ?k rt0" using S(1,4,6) by (simp add: segmentsIn_def)
  from segmentsIn_run [OF round _ this, of env]
  have "segmentsIn ?S ?k ?rt" by blast
  then have G: "(f, u) \<in> ?S" if "EvSegment f u \<in> set (drop ?k (sn_out ?rt))" for f u
    using that by (simp add: segmentsIn_def)
  have R: "\<exists>tick' r'. (tick', SnResume r' f u) \<in> set calls" if "x \<in> set calls" "(f, u) \<in> resumption (snd x)" for x f u
  proof -
    obtain tick' op where x: "x = (tick', op)" by fastforce
    with that(2) obtain r' where "op = SnResume r' f u" by (cases op) simp_all
    with that(1) x show ?thesis by blast
  qed
  have "sn_prm ?rt = sn_prm rt0" using sameRound_run [OF round, of rt0 env] by (simp add: sameRound_def)
  moreover have "(f, u) = (1, t) \<or> (\<exists>tick' r'. (tick', SnResume r' f u) \<in> set calls)"
    if "EvSegment f u \<in> set (drop ?k (sn_out ?rt))" for f u
    using G [OF that] R by blast
  moreover obtain lg where lg: "sn_out ?rt = sn_out rt0 @ lg" using round_log [OF round, of env rt0] by blast
  moreover have "drop ?k (sn_out ?rt) = lg" by (simp add: lg)
  ultimately show ?thesis using T by metis
qed

theorem sender_keeps_timeline_witness:
  "\<exists>rt0 lg. sn_out (run_sender quiet_env one_steps rt0) = sn_out rt0 @ lg \<and> inTime 100 None lg
     \<and> lg = one_completed"
proof -
  obtain ints where ints: "map int_vecDatagrams ints = [[], [one_datagram], [one_disclosure]]"
    "map int_u32DataPacketCount ints = [0, 1, 0]"
    and start: "sender_call quiet_env (tick_at 200, SnStart ''r'' 1000) (run_sender quiet_env one_before sender_initial)
      = (Inr (), one_begun ints)"
    by (rule one_begins)
  have c: "list_all (in_sender_round \<circ> snd) one_steps" by (simp add: one_steps_def list_all_iff)
  have k: "list_all (clocksAgree 0 \<circ> fst) one_steps" by (auto simp: one_steps_def clocksAgree_def list_all_iff)
  have out: "sn_out (one_begun ints) = []" "prm_u32IntervalMilliseconds (sn_prm (one_begun ints)) = 100"
    by (simp_all add: one_begun_def sender_initial_def one_sender_ok(2) one_round_def)
  from sender_keeps_timeline [OF start c k] obtain lg where
    lg: "sn_out (run_sender quiet_env one_steps (one_begun ints)) = sn_out (one_begun ints) @ lg"
    and t: "inTime 100 None lg"
    unfolding out(2) by blast
  have "lg = one_completed" using lg out one_runs [OF ints] by simp
  with lg t show ?thesis by blast
qed

end
