(* ===== verification/ObservationStore.thy ===== *)
theory ObservationStore
  imports Monitor Actions Machines
begin

text \<open>
  The bounded store of a node's observations, \<open>AuthenticationObservationStore.cpp\<close>. The code shares a
  stored packet between the ring of packets and the failures that refer to it, and updates it in place:
  the shared objects are a heap here, \<open>sto_vecHeap\<close>, and a \<open>shared_ptr\<close> is an index into it. A
  \<open>weak_ptr\<close> has expired when neither the ring nor a failure holds its object.
\<close>

section \<open>State\<close>

datatype ObservationStoreAppendResult = Stored | Updated | CountOnly | AbnormalLimitReached

record failure_record =
  rec_detFailure :: packet_failure
  rec_ptrPacket :: "nat option"

record observation_store =
  sto_nPacketLimit :: nat
  sto_nAbnormalLimit :: nat
  sto_nGroupLimit :: nat
  sto_nDosSummaryLimit :: nat
  sto_strCurrentRoundId :: string
  sto_strPreviousRoundId :: string
  sto_vecHeap :: "packet_observation list"
  sto_deqPackets :: "nat list"
  sto_mapPacketByEventId :: "u64 \<rightharpoonup> nat"
  sto_deqFailures :: "failure_record list"
  sto_deqGroups :: "group_observation list"
  sto_deqDosSummaries :: "dos_summary list"
  sto_mapFailureCounts :: "AuthenticationFailureType \<rightharpoonup> nat"
  sto_u64DiscardedAbnormalCount :: u64
  sto_bAbnormalLimitReported :: bool

definition mkObservationStore :: "nat \<Rightarrow> nat \<Rightarrow> nat \<Rightarrow> nat \<Rightarrow> observation_store result" where
  "mkObservationStore nPacketLimit nAbnormalLimit nGroupLimit nDosSummaryLimit =
     (if nPacketLimit = 0 \<or> nAbnormalLimit < 2 \<or> nGroupLimit = 0 \<or> nDosSummaryLimit = 0
      then Inl (InvalidArgument ''Observation store limits are invalid'')
      else Inr \<lparr>sto_nPacketLimit = nPacketLimit, sto_nAbnormalLimit = nAbnormalLimit,
        sto_nGroupLimit = nGroupLimit, sto_nDosSummaryLimit = nDosSummaryLimit,
        sto_strCurrentRoundId = [], sto_strPreviousRoundId = [], sto_vecHeap = [], sto_deqPackets = [],
        sto_mapPacketByEventId = (\<lambda>_. None), sto_deqFailures = [], sto_deqGroups = [],
        sto_deqDosSummaries = [], sto_mapFailureCounts = (\<lambda>_. None),
        sto_u64DiscardedAbnormalCount = 0, sto_bAbnormalLimitReported = False\<rparr>)"

text \<open>\<open>!expired()\<close>\<close>

definition held :: "observation_store \<Rightarrow> nat \<Rightarrow> bool" where
  "held s ptr = (ptr \<in> set (sto_deqPackets s) \<or> Some ptr \<in> set (map rec_ptrPacket (sto_deqFailures s)))"

text \<open>The entry of an event identifier, locked.\<close>

definition lockPacket :: "observation_store \<Rightarrow> u64 \<Rightarrow> nat option" where
  "lockPacket s u64EventId =
     (case sto_mapPacketByEventId s u64EventId of
        None \<Rightarrow> None
      | Some ptr \<Rightarrow> if held s ptr then Some ptr else None)"

section \<open>Operations\<close>

text \<open>\<open>while (deq.size() > limit) deq.pop_front()\<close>\<close>

definition trimFront :: "nat \<Rightarrow> 'a list \<Rightarrow> 'a list" where
  "trimFront nLimit deq = drop (length deq - nLimit) deq"

definition removeExpiredPacketIndexEntries :: "observation_store \<Rightarrow> observation_store" where
  "removeExpiredPacketIndexEntries s = s\<lparr>sto_mapPacketByEventId := lockPacket s\<rparr>"

definition bRecentRound :: "observation_store \<Rightarrow> string \<Rightarrow> bool" where
  "bRecentRound s strRoundId = (strRoundId = sto_strCurrentRoundId s \<or> strRoundId = sto_strPreviousRoundId s)"

definition removeExpiredFailures :: "observation_store \<Rightarrow> observation_store" where
  "removeExpiredFailures s =
     s\<lparr>sto_deqFailures := filter (\<lambda>rec. bRecentRound s (pf_strRoundId (rec_detFailure rec))) (sto_deqFailures s)\<rparr>"

definition removeExpiredGroups :: "observation_store \<Rightarrow> observation_store" where
  "removeExpiredGroups s = s\<lparr>sto_deqGroups := filter (\<lambda>go. bRecentRound s (go_strRoundId go)) (sto_deqGroups s)\<rparr>"

definition enterRound :: "string \<Rightarrow> observation_store \<Rightarrow> observation_store" where
  "enterRound strRoundId s = s\<lparr>sto_strPreviousRoundId := sto_strCurrentRoundId s,
     sto_strCurrentRoundId := strRoundId, sto_bAbnormalLimitReported := False\<rparr>"

definition sto_beginRound :: "string \<Rightarrow> (observation_store, unit) act" where
  "sto_beginRound strRoundId s =
     (if strRoundId = [] then throwA (InvalidArgument ''Observation round ID must not be empty'') s
      else if strRoundId = sto_strCurrentRoundId s then retA () s
      else modifyA (removeExpiredPacketIndexEntries \<circ> removeExpiredGroups \<circ> removeExpiredFailures
             \<circ> enterRound strRoundId) s)"

definition resAppendPacket :: "packet_observation \<Rightarrow> observation_store \<Rightarrow> ObservationStoreAppendResult \<times> observation_store"
where
  "resAppendPacket detPacket s =
     (case lockPacket s (po_u64EventId detPacket) of
        Some ptr \<Rightarrow> (Updated, s\<lparr>sto_vecHeap := (sto_vecHeap s)[ptr := detPacket]\<rparr>)
      | None \<Rightarrow>
          let ptr = length (sto_vecHeap s) in
          (Stored, removeExpiredPacketIndexEntries
             (s\<lparr>sto_vecHeap := sto_vecHeap s @ [detPacket],
                sto_deqPackets := trimFront (sto_nPacketLimit s) (sto_deqPackets s @ [ptr]),
                sto_mapPacketByEventId := (sto_mapPacketByEventId s)(po_u64EventId detPacket \<mapsto> ptr)\<rparr>)))"

definition countFailure :: "AuthenticationFailureType \<Rightarrow> observation_store \<Rightarrow> observation_store" where
  "countFailure typeFailure s = s\<lparr>sto_mapFailureCounts := (sto_mapFailureCounts s)(typeFailure \<mapsto>
     Suc (case sto_mapFailureCounts s typeFailure of None \<Rightarrow> 0 | Some n \<Rightarrow> n))\<rparr>"

text \<open>\<open>deq.erase(std::find_if(deq, P))\<close>, when there is one.\<close>

fun eraseFirst :: "('a \<Rightarrow> bool) \<Rightarrow> 'a list \<Rightarrow> 'a list" where
  "eraseFirst P [] = []"
| "eraseFirst P (x # xs) = (if P x then xs else x # eraseFirst P xs)"

text \<open>The first failure with the event identifier, updated.\<close>

fun updateFailure :: "packet_failure \<Rightarrow> failure_record list \<Rightarrow> failure_record list option" where
  "updateFailure detFailure [] = None"
| "updateFailure detFailure (rec # recs) =
     (if pf_u64EventId (rec_detFailure rec) = pf_u64EventId detFailure
      then Some (rec\<lparr>rec_detFailure := detFailure\<rparr> # recs)
      else (case updateFailure detFailure recs of None \<Rightarrow> None | Some recs \<Rightarrow> Some (rec # recs)))"

definition bAbnormalFull :: "observation_store \<Rightarrow> bool" where
  "bAbnormalFull s = (length (sto_deqFailures s) \<ge> sto_nAbnormalLimit s)"

text \<open>A full store gives the room of the oldest failure of the previous round to the current round.\<close>

definition makeRoom :: "packet_failure \<Rightarrow> observation_store \<Rightarrow> observation_store" where
  "makeRoom detFailure s =
     (if bAbnormalFull s \<and> sto_strCurrentRoundId s \<noteq> [] \<and> pf_strRoundId detFailure = sto_strCurrentRoundId s
      then s\<lparr>sto_deqFailures := eraseFirst (\<lambda>rec. pf_strRoundId (rec_detFailure rec) = sto_strPreviousRoundId s)
               (sto_deqFailures s)\<rparr>
      else s)"

definition limitFailure :: "observation_store \<Rightarrow> u64 \<Rightarrow> packet_failure result" where
  "limitFailure s u64Now = mkPacketFailure
     \<lparr>pf_u64EventId = 0xFFFFFFFFFFFFFFFF - sto_u64DiscardedAbnormalCount s, pf_u64PacketEventId = 0,
      pf_u64TimestampMilliseconds = u64Now, pf_sevSeverity = SevWarning,
      pf_typeFailure = FailAbnormalRecordLimitReached, pf_strRoundId = sto_strCurrentRoundId s,
      pf_strSenderId = [], pf_strSenderIp = [], pf_strActualSourceIp = [], pf_u64ChainId = 0,
      pf_u32IntervalIndex = 0, pf_u32PacketIndex = 0, pf_optGroupIndex = None, pf_strCandidateHash = [],
      pf_strReason = ''Abnormal record limit reached; later details are counted only'',
      pf_strReceivedTagDigest = [], pf_strCalculatedTagDigest = [], pf_vecLocatedPacketIndexes = [],
      pf_u32DuplicateCount = 1\<rparr>"

text \<open>The failure that finds the store full is discarded; the first one of a round to be discarded puts
  a warning in the place of the last record.\<close>

definition discardFailure :: "u64 \<Rightarrow> (observation_store, ObservationStoreAppendResult) act" where
  "discardFailure u64Now =
     thenA (modifyA (\<lambda>s. s\<lparr>sto_u64DiscardedAbnormalCount := sto_u64DiscardedAbnormalCount s + 1\<rparr>))
     (bindA (getA sto_bAbnormalLimitReported) (\<lambda>bReported.
        if bReported then retA CountOnly
        else thenA (modifyA (\<lambda>s. s\<lparr>sto_bAbnormalLimitReported := True\<rparr>))
          (bindA (getA id) (\<lambda>s. bindA (liftA (limitFailure s u64Now)) (\<lambda>detLimit.
           thenA (modifyA (countFailure FailAbnormalRecordLimitReached))
           (thenA (modifyA (\<lambda>s. s\<lparr>sto_deqFailures := (sto_deqFailures s)
                [length (sto_deqFailures s) - 1 := \<lparr>rec_detFailure = detLimit, rec_ptrPacket = None\<rparr>]\<rparr>))
           (retA AbnormalLimitReached)))))))"

definition failurePacket :: "observation_store \<Rightarrow> packet_failure \<Rightarrow> nat option" where
  "failurePacket s detFailure =
     (if pf_u64PacketEventId detFailure \<noteq> 0 then lockPacket s (pf_u64PacketEventId detFailure) else None)"

definition storeFailure :: "packet_failure \<Rightarrow> observation_store \<Rightarrow> observation_store" where
  "storeFailure detFailure s = s\<lparr>sto_deqFailures := sto_deqFailures s
     @ [\<lparr>rec_detFailure = detFailure, rec_ptrPacket = failurePacket s detFailure\<rparr>]\<rparr>"

definition resAppendFailure :: "u64 \<Rightarrow> packet_failure \<Rightarrow> (observation_store, ObservationStoreAppendResult) act" where
  "resAppendFailure u64Now detFailure s =
     (case updateFailure detFailure (sto_deqFailures s) of
        Some deqFailures \<Rightarrow> (Inr Updated, s\<lparr>sto_deqFailures := deqFailures\<rparr>)
      | None \<Rightarrow>
          thenA (modifyA (makeRoom detFailure \<circ> countFailure (pf_typeFailure detFailure)))
          (bindA (getA bAbnormalFull) (\<lambda>bFull.
             if bFull then discardFailure u64Now
             else thenA (modifyA (storeFailure detFailure)) (retA Stored))) s)"

definition resAppendGroup :: "group_observation \<Rightarrow> observation_store \<Rightarrow> ObservationStoreAppendResult \<times> observation_store" where
  "resAppendGroup detGroup s =
     (Stored, s\<lparr>sto_deqGroups := trimFront (sto_nGroupLimit s) (sto_deqGroups s @ [detGroup])\<rparr>)"

definition resAppendDosSummary :: "dos_summary \<Rightarrow> observation_store \<Rightarrow> ObservationStoreAppendResult \<times> observation_store" where
  "resAppendDosSummary detSummary s =
     (Stored, s\<lparr>sto_deqDosSummaries := trimFront (sto_nDosSummaryLimit s) (sto_deqDosSummaries s @ [detSummary])\<rparr>)"

fun resAppend :: "u64 \<Rightarrow> observation \<Rightarrow> (observation_store, ObservationStoreAppendResult) act" where
  "resAppend u64Now (ObsPacket detPacket) s = (case resAppendPacket detPacket s of (res, s) \<Rightarrow> (Inr res, s))"
| "resAppend u64Now (ObsFailure detFailure) s = resAppendFailure u64Now detFailure s"
| "resAppend u64Now (ObsGroup detGroup) s = (case resAppendGroup detGroup s of (res, s) \<Rightarrow> (Inr res, s))"
| "resAppend u64Now (ObsDosSummary detSummary) s = (case resAppendDosSummary detSummary s of (res, s) \<Rightarrow> (Inr res, s))"

definition sto_clear :: "observation_store \<Rightarrow> observation_store" where
  "sto_clear s = s\<lparr>sto_strCurrentRoundId := [], sto_strPreviousRoundId := [], sto_deqPackets := [],
     sto_mapPacketByEventId := (\<lambda>_. None), sto_deqFailures := [], sto_deqGroups := [],
     sto_deqDosSummaries := [], sto_mapFailureCounts := (\<lambda>_. None),
     sto_u64DiscardedAbnormalCount := 0, sto_bAbnormalLimitReported := False\<rparr>"

section \<open>Snapshots\<close>

definition vecPacketSnapshot :: "observation_store \<Rightarrow> packet_observation list" where
  "vecPacketSnapshot s = map (\<lambda>ptr. sto_vecHeap s ! ptr) (sto_deqPackets s)"

definition vecFailureSnapshot :: "observation_store \<Rightarrow> packet_failure list" where
  "vecFailureSnapshot s = map rec_detFailure (sto_deqFailures s)"

fun abnormalLoop :: "packet_observation list \<Rightarrow> u64 list \<Rightarrow> nat option list \<Rightarrow> packet_observation list" where
  "abnormalLoop heap vecIncluded [] = []"
| "abnormalLoop heap vecIncluded (None # ptrs) = abnormalLoop heap vecIncluded ptrs"
| "abnormalLoop heap vecIncluded (Some ptr # ptrs) =
     (let u64EventId = po_u64EventId (heap ! ptr) in
      if u64EventId \<in> set vecIncluded then abnormalLoop heap vecIncluded ptrs
      else heap ! ptr # abnormalLoop heap (u64EventId # vecIncluded) ptrs)"

definition vecAbnormalPacketSnapshot :: "observation_store \<Rightarrow> packet_observation list" where
  "vecAbnormalPacketSnapshot s = abnormalLoop (sto_vecHeap s) [] (map rec_ptrPacket (sto_deqFailures s))"

definition sto_optPacket :: "observation_store \<Rightarrow> u64 \<Rightarrow> packet_observation option" where
  "sto_optPacket s u64EventId =
     (case lockPacket s u64EventId of None \<Rightarrow> None | Some ptr \<Rightarrow> Some (sto_vecHeap s ! ptr))"

definition nFailureCount :: "observation_store \<Rightarrow> AuthenticationFailureType \<Rightarrow> nat" where
  "nFailureCount s typeFailure = (case sto_mapFailureCounts s typeFailure of None \<Rightarrow> 0 | Some n \<Rightarrow> n)"

definition sto_nPacketCount :: "observation_store \<Rightarrow> nat" where
  "sto_nPacketCount s = length (sto_deqPackets s)"

definition nStoredFailureCount :: "observation_store \<Rightarrow> nat" where
  "nStoredFailureCount s = length (sto_deqFailures s)"

section \<open>Histories\<close>

datatype store_op = StoreBeginRound string | StoreAppend u64 observation | StoreClear

fun store_op_act :: "store_op \<Rightarrow> (observation_store, unit) act" where
  "store_op_act (StoreBeginRound strRoundId) = sto_beginRound strRoundId"
| "store_op_act (StoreAppend u64Now ob) = thenA (resAppend u64Now ob) (retA ())"
| "store_op_act StoreClear = modifyA sto_clear"

end
