(* ===== verification/ObservationStoreTheorems.thy ===== *)
theory ObservationStoreTheorems
  imports ObservationStore
begin

text \<open>
  The observation store keeps within its limits, and its index finds exactly the packets that the ring
  or a stored failure holds, each in the version last appended.
\<close>

section \<open>The invariant\<close>

definition bounded_store :: "observation_store \<Rightarrow> bool" where
  "bounded_store s = (0 < sto_nPacketLimit s \<and> 2 \<le> sto_nAbnormalLimit s \<and> 0 < sto_nGroupLimit s
     \<and> 0 < sto_nDosSummaryLimit s
     \<and> length (sto_deqPackets s) \<le> sto_nPacketLimit s \<and> length (sto_deqFailures s) \<le> sto_nAbnormalLimit s
     \<and> length (sto_deqGroups s) \<le> sto_nGroupLimit s \<and> length (sto_deqDosSummaries s) \<le> sto_nDosSummaryLimit s)"

definition eventAt :: "observation_store \<Rightarrow> nat \<Rightarrow> u64" where
  "eventAt s ptr = po_u64EventId (sto_vecHeap s ! ptr)"

definition indexed_store :: "observation_store \<Rightarrow> bool" where
  "indexed_store s =
     ((\<forall>e ptr. sto_mapPacketByEventId s e = Some ptr \<longrightarrow> ptr < length (sto_vecHeap s) \<and> eventAt s ptr = e)
      \<and> (\<forall>ptr. held s ptr \<longrightarrow> ptr < length (sto_vecHeap s) \<and> sto_mapPacketByEventId s (eventAt s ptr) = Some ptr))"

definition store_ok :: "observation_store \<Rightarrow> bool" where
  "store_ok s = (bounded_store s \<and> indexed_store s)"

lemma lockPacket_Some: "lockPacket s e = Some ptr \<longleftrightarrow> sto_mapPacketByEventId s e = Some ptr \<and> held s ptr"
  by (auto simp: lockPacket_def split: option.splits)

lemma lockPacket_held:
  assumes "indexed_store s"
  shows "lockPacket s e = Some ptr \<longleftrightarrow> held s ptr \<and> eventAt s ptr = e"
  using assms by (auto simp: lockPacket_Some indexed_store_def)

text \<open>What only drops references keeps the index, also when the index is then cleaned.\<close>

lemma indexed_fewer:
  assumes "indexed_store s" "sto_vecHeap t = sto_vecHeap s" "sto_mapPacketByEventId t = sto_mapPacketByEventId s"
    and "\<And>ptr. held t ptr \<Longrightarrow> held s ptr"
  shows "indexed_store t"
  using assms by (simp add: indexed_store_def eventAt_def)

lemma indexedI:
  assumes "\<And>e ptr. sto_mapPacketByEventId s e = Some ptr \<Longrightarrow> ptr < length (sto_vecHeap s) \<and> eventAt s ptr = e"
    and "\<And>ptr. held s ptr \<Longrightarrow> ptr < length (sto_vecHeap s) \<and> sto_mapPacketByEventId s (eventAt s ptr) = Some ptr"
  shows "indexed_store s"
  using assms by (simp add: indexed_store_def)

lemma indexedD:
  assumes "indexed_store s"
  shows "sto_mapPacketByEventId s e = Some ptr \<Longrightarrow> ptr < length (sto_vecHeap s) \<and> eventAt s ptr = e"
    and "held s ptr \<Longrightarrow> ptr < length (sto_vecHeap s) \<and> sto_mapPacketByEventId s (eventAt s ptr) = Some ptr"
  using assms by (simp_all add: indexed_store_def)

lemma store_okD: "store_ok s \<Longrightarrow> bounded_store s" "store_ok s \<Longrightarrow> indexed_store s"
  by (simp_all add: store_ok_def)

lemma store_okI: "bounded_store s \<Longrightarrow> indexed_store s \<Longrightarrow> store_ok s"
  by (simp add: store_ok_def)

lemma store_fewer:
  assumes "store_ok s" "sto_vecHeap t = sto_vecHeap s" "sto_mapPacketByEventId t = sto_mapPacketByEventId s"
    and "\<And>ptr. held t ptr \<Longrightarrow> held s ptr" and "bounded_store s \<Longrightarrow> bounded_store t"
  shows "store_ok t"
  by (rule store_okI [OF assms(5) [OF store_okD(1) [OF assms(1)]]
      indexed_fewer [OF store_okD(2) [OF assms(1)] assms(2-4)]])

lemma indexed_cleaned:
  assumes s: "indexed_store s"
  shows "indexed_store (removeExpiredPacketIndexEntries s)" (is "indexed_store ?t")
proof (rule indexedI)
  have t: "sto_vecHeap ?t = sto_vecHeap s" "sto_mapPacketByEventId ?t = lockPacket s" "held ?t = held s" "eventAt ?t = eventAt s"
    by (auto simp: removeExpiredPacketIndexEntries_def held_def eventAt_def)
  show "q < length (sto_vecHeap ?t) \<and> eventAt ?t q = e" if "sto_mapPacketByEventId ?t e = Some q" for e q
    using that indexedD(1) [OF s, of e q] by (simp add: t lockPacket_Some)
  show "q < length (sto_vecHeap ?t) \<and> sto_mapPacketByEventId ?t (eventAt ?t q) = Some q" if "held ?t q" for q
    using that indexedD(2) [OF s, of q] by (simp add: t lockPacket_Some)
qed

lemma bounded_cleaned [simp]: "bounded_store (removeExpiredPacketIndexEntries s) = bounded_store s"
  by (simp add: bounded_store_def removeExpiredPacketIndexEntries_def)

lemma trimFront_length: "length (trimFront n xs) \<le> n"
  by (simp add: trimFront_def)

lemma set_trimFront: "x \<in> set (trimFront n xs) \<Longrightarrow> x \<in> set xs"
  by (auto simp: trimFront_def dest: in_set_dropD)

lemma set_eraseFirst: "x \<in> set (eraseFirst P xs) \<Longrightarrow> x \<in> set xs"
  by (induction xs) (auto split: if_splits)

lemma length_eraseFirst: "length (eraseFirst P xs) \<le> length xs"
  by (induction xs) auto

lemma updateFailure_Some:
  assumes "updateFailure f recs = Some recs'"
  shows "map rec_ptrPacket recs' = map rec_ptrPacket recs" "length recs' = length recs"
  using assms by (induction recs arbitrary: recs') (auto split: if_splits option.splits)

section \<open>Every operation keeps it\<close>

lemma beginRound_ok:
  assumes s: "store_ok s"
  shows "store_ok (snd (sto_beginRound r s))"
proof -
  let ?t = "removeExpiredGroups (removeExpiredFailures (enterRound r s))"
  have t: "store_ok ?t"
  proof (rule store_fewer [OF s])
    show "held ?t ptr \<Longrightarrow> held s ptr" for ptr
      by (auto simp: held_def removeExpiredGroups_def removeExpiredFailures_def enterRound_def)
    show "bounded_store s \<Longrightarrow> bounded_store ?t"
      by (auto simp: bounded_store_def removeExpiredGroups_def removeExpiredFailures_def enterRound_def
          intro: order_trans [OF length_filter_le])
  qed (simp_all add: removeExpiredGroups_def removeExpiredFailures_def enterRound_def)
  then have "store_ok (removeExpiredPacketIndexEntries ?t)" by (simp add: store_ok_def indexed_cleaned)
  with s show ?thesis by (simp add: sto_beginRound_def act_simps)
qed

lemma updatePacket_indexed:
  assumes s: "indexed_store s" and ptr: "held s ptr" "eventAt s ptr = po_u64EventId p"
  shows "indexed_store (s\<lparr>sto_vecHeap := (sto_vecHeap s)[ptr := p]\<rparr>)" (is "indexed_store ?t")
proof (rule indexedI)
  have ev: "eventAt ?t q = eventAt s q" for q
    using ptr indexedD(2) [OF s ptr(1)] by (cases "q = ptr") (simp_all add: eventAt_def)
  have h: "held ?t q = held s q" for q by (simp add: held_def)
  show "q < length (sto_vecHeap ?t) \<and> eventAt ?t q = e" if "sto_mapPacketByEventId ?t e = Some q" for e q
    using that indexedD(1) [OF s] ev by simp
  show "q < length (sto_vecHeap ?t) \<and> sto_mapPacketByEventId ?t (eventAt ?t q) = Some q" if "held ?t q" for q
    using that indexedD(2) [OF s] ev h by simp
qed

definition pushPacket :: "packet_observation \<Rightarrow> observation_store \<Rightarrow> observation_store" where
  "pushPacket p s = s\<lparr>sto_vecHeap := sto_vecHeap s @ [p],
      sto_deqPackets := trimFront (sto_nPacketLimit s) (sto_deqPackets s @ [length (sto_vecHeap s)]),
      sto_mapPacketByEventId := (sto_mapPacketByEventId s)(po_u64EventId p \<mapsto> length (sto_vecHeap s))\<rparr>"

lemma pushPacket_indexed:
  assumes s: "indexed_store s" and none: "lockPacket s (po_u64EventId p) = None"
  shows "indexed_store (pushPacket p s)"
proof (rule indexedI)
  let ?e = "po_u64EventId p" and ?n = "length (sto_vecHeap s)" and ?t = "pushPacket p s"
  have old: "eventAt ?t q = eventAt s q" if "q < ?n" for q using that by (simp add: eventAt_def pushPacket_def nth_append)
  have new: "eventAt ?t ?n = ?e" by (simp add: eventAt_def pushPacket_def)
  have len: "length (sto_vecHeap ?t) = Suc ?n" by (simp add: pushPacket_def)
  have fresh: "eventAt s q \<noteq> ?e" if "held s q" for q
    using none that indexedD(2) [OF s that] by (auto simp: lockPacket_def)
  show "q < length (sto_vecHeap ?t) \<and> eventAt ?t q = e" if m: "sto_mapPacketByEventId ?t e = Some q" for e q
  proof (cases "e = ?e")
    case True
    with m have "q = ?n" by (simp add: pushPacket_def)
    with True new len show ?thesis by simp
  next
    case False
    with m have "sto_mapPacketByEventId s e = Some q" by (simp add: pushPacket_def)
    with indexedD(1) [OF s this] old len show ?thesis by simp
  qed
  show "q < length (sto_vecHeap ?t) \<and> sto_mapPacketByEventId ?t (eventAt ?t q) = Some q" if h: "held ?t q" for q
  proof (cases "q = ?n")
    case True
    with new len show ?thesis by (simp add: pushPacket_def)
  next
    case False
    with h have q: "held s q" by (auto simp: held_def pushPacket_def dest!: set_trimFront)
    with indexedD(2) [OF s q] old fresh [OF q] len show ?thesis by (simp add: pushPacket_def)
  qed
qed

lemma resAppendPacket_new:
  "lockPacket s (po_u64EventId p) = None \<Longrightarrow>
     resAppendPacket p s = (Stored, removeExpiredPacketIndexEntries (pushPacket p s))"
  by (simp add: resAppendPacket_def pushPacket_def Let_def)

lemma appendPacket_ok:
  assumes s: "store_ok s"
  shows "store_ok (snd (resAppendPacket p s))"
proof (cases "lockPacket s (po_u64EventId p)")
  case (Some ptr)
  with store_okD(2) [OF s] have ptr: "held s ptr" "eventAt s ptr = po_u64EventId p"
    by (simp_all add: lockPacket_held)
  have "indexed_store (s\<lparr>sto_vecHeap := (sto_vecHeap s)[ptr := p]\<rparr>)"
    by (rule updatePacket_indexed [OF store_okD(2) [OF s] ptr])
  moreover have "bounded_store (s\<lparr>sto_vecHeap := (sto_vecHeap s)[ptr := p]\<rparr>)"
    using store_okD(1) [OF s] by (simp add: bounded_store_def)
  ultimately show ?thesis using Some by (simp add: resAppendPacket_def store_okI)
next
  case None
  have "bounded_store (pushPacket p s)"
    using store_okD(1) [OF s] by (simp add: bounded_store_def pushPacket_def trimFront_length)
  moreover have "indexed_store (pushPacket p s)" by (rule pushPacket_indexed [OF store_okD(2) [OF s] None])
  ultimately show ?thesis using None by (simp add: resAppendPacket_new store_okI indexed_cleaned)
qed

lemma makeRoom_ok:
  assumes "store_ok s"
  shows "store_ok (makeRoom f (countFailure ty s))" (is "store_ok ?t")
proof (rule store_fewer [OF assms])
  show "held ?t ptr \<Longrightarrow> held s ptr" for ptr
    by (auto simp: held_def makeRoom_def countFailure_def dest: set_eraseFirst split: if_splits)
  show "bounded_store s \<Longrightarrow> bounded_store ?t"
    by (auto simp: bounded_store_def makeRoom_def countFailure_def intro: order_trans [OF length_eraseFirst])
qed (simp_all add: makeRoom_def countFailure_def)

lemma failurePacket_held: "Some ptr = failurePacket s f \<Longrightarrow> held s ptr"
  using lockPacket_Some [of s "pf_u64PacketEventId f" ptr] by (simp add: failurePacket_def split: if_splits)

lemma storeFailure_ok:
  assumes "store_ok s" "\<not> bAbnormalFull s"
  shows "store_ok (storeFailure f s)"
proof (rule store_fewer [OF assms(1)])
  show "held (storeFailure f s) ptr \<Longrightarrow> held s ptr" for ptr
    using failurePacket_held [of ptr s f] unfolding held_def [of "storeFailure f s"]
    by (simp add: storeFailure_def) (auto simp: held_def)
  show "bounded_store s \<Longrightarrow> bounded_store (storeFailure f s)"
    using assms(2) by (simp add: bounded_store_def bAbnormalFull_def storeFailure_def)
qed (simp_all add: storeFailure_def)

definition warned :: "packet_failure \<Rightarrow> observation_store \<Rightarrow> observation_store" where
  "warned f s = (countFailure FailAbnormalRecordLimitReached s)\<lparr>sto_deqFailures :=
     (sto_deqFailures s)[length (sto_deqFailures s) - 1 := \<lparr>rec_detFailure = f, rec_ptrPacket = None\<rparr>]\<rparr>"

lemma warned_ok:
  assumes "store_ok s"
  shows "store_ok (warned f s)"
proof (rule store_fewer [OF assms])
  show "held s ptr" if "held (warned f s) ptr" for ptr
  proof (cases "ptr \<in> set (sto_deqPackets s)")
    case False
    with that obtain rec where "rec \<in> set (sto_deqFailures (warned f s))" "rec_ptrPacket rec = Some ptr"
      by (auto simp: held_def warned_def countFailure_def)
    then have "rec \<in> set (sto_deqFailures s)"
      using set_update_subset_insert [of "sto_deqFailures s" "length (sto_deqFailures s) - 1"]
      by (fastforce simp: warned_def countFailure_def)
    with \<open>rec_ptrPacket rec = Some ptr\<close> show ?thesis by (force simp: held_def)
  qed (simp add: held_def)
  show "bounded_store s \<Longrightarrow> bounded_store (warned f s)"
    by (simp add: bounded_store_def warned_def countFailure_def)
qed (simp_all add: warned_def countFailure_def)

definition discarded :: "bool \<Rightarrow> observation_store \<Rightarrow> observation_store" where
  "discarded b s = s\<lparr>sto_u64DiscardedAbnormalCount := sto_u64DiscardedAbnormalCount s + 1,
     sto_bAbnormalLimitReported := b\<rparr>"

lemma discarded_ok:
  assumes "store_ok s"
  shows "store_ok (discarded b s)"
  by (rule store_fewer [OF assms]) (simp_all add: discarded_def held_def bounded_store_def)

lemma discardFailure_cases:
  "snd (discardFailure now s) = (if sto_bAbnormalLimitReported s then discarded True s
     else case limitFailure (discarded True s) now of
       Inl _ \<Rightarrow> discarded True s | Inr f \<Rightarrow> warned f (discarded True s))"
  by (simp add: discardFailure_def discarded_def warned_def act_simps countFailure_def split: sum.splits)

lemma discard_ok: "store_ok s \<Longrightarrow> store_ok (snd (discardFailure now s))"
  by (simp add: discardFailure_cases discarded_ok warned_ok split: sum.splits)

lemma appendFailure_ok:
  assumes s: "store_ok s"
  shows "store_ok (snd (resAppendFailure now f s))"
proof (cases "updateFailure f (sto_deqFailures s)")
  case None
  let ?t = "makeRoom f (countFailure (pf_typeFailure f) s)"
  have "store_ok ?t" by (rule makeRoom_ok [OF s])
  with None discard_ok [OF this, of now] storeFailure_ok [OF this, of f] show ?thesis
    by (simp add: resAppendFailure_def act_simps)
next
  case (Some recs)
  note U = updateFailure_Some [OF Some]
  have "store_ok (s\<lparr>sto_deqFailures := recs\<rparr>)"
  proof (rule store_fewer [OF s])
    show "held (s\<lparr>sto_deqFailures := recs\<rparr>) ptr \<Longrightarrow> held s ptr" for ptr
      by (simp add: held_def U(1) del: set_map)
    show "bounded_store s \<Longrightarrow> bounded_store (s\<lparr>sto_deqFailures := recs\<rparr>)"
      using U(2) by (simp add: bounded_store_def)
  qed simp_all
  with Some show ?thesis by (simp add: resAppendFailure_def)
qed

lemma appendGroup_ok:
  assumes "store_ok s"
  shows "store_ok (snd (resAppendGroup g s))"
  by (rule store_fewer [OF assms]) (simp_all add: resAppendGroup_def held_def bounded_store_def trimFront_length)

lemma appendDosSummary_ok:
  assumes "store_ok s"
  shows "store_ok (snd (resAppendDosSummary d s))"
  by (rule store_fewer [OF assms]) (simp_all add: resAppendDosSummary_def held_def bounded_store_def trimFront_length)

lemma append_ok:
  assumes s: "store_ok s"
  shows "store_ok (snd (resAppend now ob s))"
proof (cases ob)
  case (ObsPacket p)
  with appendPacket_ok [OF s, of p] show ?thesis by (simp add: case_prod_beta)
next
  case (ObsFailure f)
  with appendFailure_ok [OF s, of now f] show ?thesis by simp
next
  case (ObsGroup g)
  with appendGroup_ok [OF s, of g] show ?thesis by (simp add: case_prod_beta)
next
  case (ObsDosSummary d)
  with appendDosSummary_ok [OF s, of d] show ?thesis by (simp add: case_prod_beta)
qed

lemma empty_indexed: "sto_mapPacketByEventId s = (\<lambda>_. None) \<Longrightarrow> sto_deqPackets s = [] \<Longrightarrow> sto_deqFailures s = []
    \<Longrightarrow> indexed_store s"
  by (rule indexedI) (simp_all add: held_def)

lemma clear_ok: "store_ok s \<Longrightarrow> store_ok (sto_clear s)"
  by (intro store_okI empty_indexed) (auto simp: sto_clear_def bounded_store_def dest: store_okD(1))

lemma store_op_ok: "store_ok s \<Longrightarrow> store_ok (snd (store_op_act op s))"
proof (cases op)
  case (StoreAppend now ob)
  assume "store_ok s"
  from append_ok [OF this, of now ob] StoreAppend show ?thesis
    by (simp add: thenA_def bindA_cases act_simps split: sum.splits)
qed (simp_all add: beginRound_ok clear_ok act_simps)

lemma new_store_ok: "mkObservationStore a b c d = Inr s \<Longrightarrow> store_ok s"
  by (intro store_okI empty_indexed) (auto simp: mkObservationStore_def bounded_store_def split: if_splits)

lemma store_run_ok: "store_ok s \<Longrightarrow> store_ok (run_ops store_op_act ops s)"
  by (induction ops arbitrary: s) (simp_all add: store_op_ok)

section \<open>What the snapshots show\<close>

definition limitsOf :: "observation_store \<Rightarrow> nat \<times> nat \<times> nat \<times> nat" where
  "limitsOf s = (sto_nPacketLimit s, sto_nAbnormalLimit s, sto_nGroupLimit s, sto_nDosSummaryLimit s)"

lemma limits_kept: "limitsOf (snd (store_op_act op s)) = limitsOf s"
proof (cases op)
  case (StoreBeginRound r)
  then show ?thesis
    by (simp add: sto_beginRound_def act_simps limitsOf_def removeExpiredPacketIndexEntries_def
        removeExpiredGroups_def removeExpiredFailures_def enterRound_def)
next
  case (StoreAppend now ob)
  have room: "limitsOf (makeRoom f (countFailure ty s)) = limitsOf s" for f ty
    by (simp add: limitsOf_def makeRoom_def countFailure_def)
  have disc: "limitsOf (snd (discardFailure now t)) = limitsOf t" for t
    by (simp add: discardFailure_cases limitsOf_def discarded_def warned_def countFailure_def split: sum.splits)
  have sf: "limitsOf (storeFailure f t) = limitsOf t" for f t by (simp add: storeFailure_def limitsOf_def)
  have "limitsOf (snd (resAppend now ob s)) = limitsOf s"
  proof (cases ob)
    case (ObsFailure f)
    then show ?thesis
      using room disc sf
      by (auto simp: resAppendFailure_def act_simps split: option.splits) (simp add: limitsOf_def)
  qed (auto simp: limitsOf_def resAppendPacket_def Let_def removeExpiredPacketIndexEntries_def resAppendGroup_def
      resAppendDosSummary_def split: option.splits)
  then show ?thesis using StoreAppend by (simp add: thenA_def bindA_cases act_simps split: sum.splits)
qed (simp add: act_simps limitsOf_def sto_clear_def)

lemma limits_run: "limitsOf (run_ops store_op_act ops s) = limitsOf s"
  by (induction ops arbitrary: s) (simp_all add: limits_kept)

lemma abnormalLoop_set:
  assumes "inj_on (\<lambda>p. po_u64EventId (heap ! p)) (S \<union> {p. Some p \<in> set ptrs})"
    and "set inc = (\<lambda>p. po_u64EventId (heap ! p)) ` S"
  shows "set (abnormalLoop heap inc ptrs) = (\<lambda>p. heap ! p) ` ({p. Some p \<in> set ptrs} - S)"
  using assms
proof (induction heap inc ptrs arbitrary: S rule: abnormalLoop.induct)
  case (1 heap inc)
  show ?case by simp
next
  case (2 heap inc ptrs)
  then show ?case by simp
next
  case (3 heap inc ptr ptrs)
  let ?e = "po_u64EventId (heap ! ptr)"
  have tl: "S \<union> {p. Some p \<in> set ptrs} \<subseteq> S \<union> {p. Some p \<in> set (Some ptr # ptrs)}" by auto
  show ?case
  proof (cases "?e \<in> set inc")
    case True
    then obtain q where q: "q \<in> S" "?e = po_u64EventId (heap ! q)" using 3(4) by auto
    with 3(3) have "ptr \<in> S" by (auto dest: inj_onD)
    moreover have "set (abnormalLoop heap inc ptrs) = (\<lambda>p. heap ! p) ` ({p. Some p \<in> set ptrs} - S)"
      by (rule 3(1) [OF refl True inj_on_subset [OF 3(3) tl] 3(4)])
    moreover have "{p. Some p \<in> set (Some ptr # ptrs)} - S = {p. Some p \<in> set ptrs} - S"
      using \<open>ptr \<in> S\<close> by auto
    ultimately show ?thesis using True by (simp add: Let_def)
  next
    case False
    then have n: "ptr \<notin> S" using 3(4) by auto
    have i: "inj_on (\<lambda>p. po_u64EventId (heap ! p)) (insert ptr S \<union> {p. Some p \<in> set ptrs})"
      by (rule inj_on_subset [OF 3(3)]) auto
    have "set (abnormalLoop heap (?e # inc) ptrs) = (\<lambda>p. heap ! p) ` ({p. Some p \<in> set ptrs} - insert ptr S)"
      by (rule 3(2) [OF refl False i]) (simp add: 3(4))
    moreover have "{p. Some p \<in> set (Some ptr # ptrs)} - S = insert ptr ({p. Some p \<in> set ptrs} - insert ptr S)"
      using n by auto
    ultimately show ?thesis using False by (simp add: Let_def)
  qed
qed

lemma abnormalLoop_distinct:
  "distinct (map po_u64EventId (abnormalLoop heap inc ptrs))
   \<and> set (map po_u64EventId (abnormalLoop heap inc ptrs)) \<inter> set inc = {}"
  by (induction heap inc ptrs rule: abnormalLoop.induct) (auto simp: Let_def)

lemma held_events:
  assumes "indexed_store s" "held s p" "held s q" "eventAt s p = eventAt s q"
  shows "p = q"
proof -
  have "Some p = sto_mapPacketByEventId s (eventAt s p)" using indexedD(2) [OF assms(1,2)] by (rule conjunct2 [THEN sym])
  also have "\<dots> = sto_mapPacketByEventId s (eventAt s q)" by (simp only: assms(4))
  also have "\<dots> = Some q" using indexedD(2) [OF assms(1,3)] by (rule conjunct2)
  finally show ?thesis by simp
qed

lemma abnormalSnapshot_set:
  assumes "indexed_store s"
  shows "set (vecAbnormalPacketSnapshot s) = (\<lambda>p. sto_vecHeap s ! p) ` {p. Some p \<in> set (map rec_ptrPacket (sto_deqFailures s))}"
  unfolding vecAbnormalPacketSnapshot_def
proof -
  let ?ptrs = "map rec_ptrPacket (sto_deqFailures s)"
  have "inj_on (\<lambda>p. po_u64EventId (sto_vecHeap s ! p)) {p. Some p \<in> set ?ptrs}"
    using held_events [OF assms] by (intro inj_onI) (simp add: held_def eventAt_def)
  then show "set (abnormalLoop (sto_vecHeap s) [] ?ptrs) = (\<lambda>p. sto_vecHeap s ! p) ` {p. Some p \<in> set ?ptrs}"
    using abnormalLoop_set [of "sto_vecHeap s" "{}" ?ptrs "[]"] by (simp only: Un_empty_left Diff_empty image_empty list.set)
qed

lemma optPacket_iff:
  assumes "indexed_store s"
  shows "sto_optPacket s e = Some p \<longleftrightarrow>
    po_u64EventId p = e \<and> p \<in> set (vecPacketSnapshot s) \<union> set (vecAbnormalPacketSnapshot s)"
proof -
  have "sto_optPacket s e = Some p \<longleftrightarrow> (\<exists>ptr. held s ptr \<and> sto_vecHeap s ! ptr = p \<and> eventAt s ptr = e)"
  proof
    assume "sto_optPacket s e = Some p"
    then obtain ptr where "lockPacket s e = Some ptr" "sto_vecHeap s ! ptr = p"
      by (auto simp: sto_optPacket_def split: option.splits)
    then show "\<exists>ptr. held s ptr \<and> sto_vecHeap s ! ptr = p \<and> eventAt s ptr = e"
      using lockPacket_held [OF assms] by metis
  next
    assume "\<exists>ptr. held s ptr \<and> sto_vecHeap s ! ptr = p \<and> eventAt s ptr = e"
    then obtain ptr where "held s ptr" "sto_vecHeap s ! ptr = p" "eventAt s ptr = e" by blast
    then have "lockPacket s e = Some ptr" using lockPacket_held [OF assms] by metis
    with \<open>sto_vecHeap s ! ptr = p\<close> show "sto_optPacket s e = Some p" by (simp add: sto_optPacket_def)
  qed
  also have "\<dots> \<longleftrightarrow> po_u64EventId p = e \<and> p \<in> (\<lambda>q. sto_vecHeap s ! q) ` {q. held s q}"
    by (auto simp: eventAt_def)
  also have "(\<lambda>q. sto_vecHeap s ! q) ` {q. held s q} = set (vecPacketSnapshot s) \<union> set (vecAbnormalPacketSnapshot s)"
    by (auto simp: abnormalSnapshot_set [OF assms] vecPacketSnapshot_def held_def)
  finally show ?thesis .
qed

lemma mem_trimFront: "0 < n \<Longrightarrow> x \<in> set (trimFront n (xs @ [x]))"
  by (simp add: trimFront_def)

lemma failures_appendPacket [simp]: "sto_deqFailures (snd (resAppendPacket p s)) = sto_deqFailures s"
  by (simp add: resAppendPacket_def Let_def removeExpiredPacketIndexEntries_def split: option.splits)

lemma optPacket_appended:
  assumes s: "store_ok s"
  shows "sto_optPacket (snd (resAppendPacket p s)) (po_u64EventId p) = Some p"
proof (cases "lockPacket s (po_u64EventId p)")
  case (Some ptr)
  with store_okD(2) [OF s] have "held s ptr" by (simp add: lockPacket_held)
  with indexedD(2) [OF store_okD(2) [OF s]] have "ptr < length (sto_vecHeap s)" by simp
  moreover have "lockPacket (s\<lparr>sto_vecHeap := h\<rparr>) = lockPacket s" for h
    by (rule ext) (simp add: lockPacket_def held_def cong: option.case_cong)
  ultimately show ?thesis using Some by (simp add: resAppendPacket_def sto_optPacket_def)
next
  case None
  let ?n = "length (sto_vecHeap s)" and ?t = "pushPacket p s"
  have "held ?t ?n"
    using store_okD(1) [OF s] by (simp add: held_def pushPacket_def bounded_store_def mem_trimFront)
  then have "lockPacket ?t (po_u64EventId p) = Some ?n" by (simp add: lockPacket_Some) (simp add: pushPacket_def)
  moreover have "lockPacket (removeExpiredPacketIndexEntries t) e = lockPacket t e" for t e
    by (simp add: lockPacket_def removeExpiredPacketIndexEntries_def held_def split: option.splits)
  ultimately show ?thesis
    using None by (simp add: resAppendPacket_new sto_optPacket_def removeExpiredPacketIndexEntries_def)
      (simp add: pushPacket_def)
qed

lemma optPacket_kept:
  assumes s: "store_ok s" and e: "e \<noteq> po_u64EventId p" "e \<in> po_u64EventId ` set (vecAbnormalPacketSnapshot s)"
  shows "sto_optPacket (snd (resAppendPacket p s)) e = sto_optPacket s e"
proof -
  let ?t = "snd (resAppendPacket p s)"
  obtain ptr where ptr: "Some ptr \<in> set (map rec_ptrPacket (sto_deqFailures s))" "eventAt s ptr = e"
    using e(2) by (auto simp: abnormalSnapshot_set [OF store_okD(2) [OF s]] eventAt_def)
  then have h: "held s ptr" "held ?t ptr" by (simp_all add: held_def)
  have len: "ptr < length (sto_vecHeap s)" using indexedD(2) [OF store_okD(2) [OF s] h(1)] by simp
  have same: "sto_vecHeap ?t ! ptr = sto_vecHeap s ! ptr"
  proof (cases "lockPacket s (po_u64EventId p)")
    case (Some q)
    then have "q \<noteq> ptr" using e(1) ptr(2) store_okD(2) [OF s] by (auto simp: lockPacket_held)
    with Some show ?thesis by (simp add: resAppendPacket_def)
  next
    case None
    with len show ?thesis by (simp add: resAppendPacket_new removeExpiredPacketIndexEntries_def)
        (simp add: pushPacket_def nth_append)
  qed
  then have "eventAt ?t ptr = e" using ptr(2) by (simp add: eventAt_def)
  then have "lockPacket ?t e = Some ptr" "lockPacket s e = Some ptr"
    using h ptr(2) store_okD(2) [OF s] store_okD(2) [OF appendPacket_ok [OF s]] by (simp_all add: lockPacket_held)
  with same show ?thesis by (simp add: sto_optPacket_def)
qed

section \<open>Any history of the store\<close>

text \<open>C10. After any sequence of rounds begun, observations appended and clearings, and whatever a refused one
  changed, the store is within the limits it was made with, an event identifier finds exactly the packet
  of that identifier that the ring or a stored failure still holds, and no packet is shown twice among the
  abnormal ones. A packet appended next is found under its identifier in the version appended, also when it
  replaces an earlier version, and a packet that a stored failure refers to stays found when it is not
  the one replaced, however many packets the ring has dropped.\<close>

theorem observations_indexed:
  assumes "mkObservationStore nPacketLimit nAbnormalLimit nGroupLimit nDosSummaryLimit = Inr s0"
    and "s = run_ops store_op_act ops s0"
  shows "length (vecPacketSnapshot s) \<le> nPacketLimit \<and> length (vecFailureSnapshot s) \<le> nAbnormalLimit
      \<and> length (sto_deqGroups s) \<le> nGroupLimit \<and> length (sto_deqDosSummaries s) \<le> nDosSummaryLimit
    \<and> (\<forall>e p. sto_optPacket s e = Some p \<longleftrightarrow>
        po_u64EventId p = e \<and> p \<in> set (vecPacketSnapshot s) \<union> set (vecAbnormalPacketSnapshot s))
    \<and> distinct (map po_u64EventId (vecAbnormalPacketSnapshot s))
    \<and> sto_optPacket (snd (resAppend now (ObsPacket p) s)) (po_u64EventId p) = Some p
    \<and> (\<forall>q \<in> set (vecAbnormalPacketSnapshot s). po_u64EventId q \<noteq> po_u64EventId p
        \<longrightarrow> sto_optPacket (snd (resAppend now (ObsPacket p) s)) (po_u64EventId q) = Some q)"
proof -
  have ok: "store_ok s" unfolding assms(2) by (rule store_run_ok [OF new_store_ok [OF assms(1)]])
  have "limitsOf s = (nPacketLimit, nAbnormalLimit, nGroupLimit, nDosSummaryLimit)"
    unfolding assms(2) limits_run using assms(1) by (auto simp: mkObservationStore_def limitsOf_def split: if_splits)
  with store_okD(1) [OF ok] have "length (vecPacketSnapshot s) \<le> nPacketLimit" "length (vecFailureSnapshot s) \<le> nAbnormalLimit"
    "length (sto_deqGroups s) \<le> nGroupLimit" "length (sto_deqDosSummaries s) \<le> nDosSummaryLimit"
    by (simp_all add: limitsOf_def bounded_store_def vecPacketSnapshot_def vecFailureSnapshot_def)
  moreover have "distinct (map po_u64EventId (vecAbnormalPacketSnapshot s))"
    using abnormalLoop_distinct by (simp add: vecAbnormalPacketSnapshot_def)
  moreover have "sto_optPacket (snd (resAppend now (ObsPacket p) s)) (po_u64EventId p) = Some p"
    using optPacket_appended [OF ok, of p] by (simp add: case_prod_beta)
  moreover have "sto_optPacket (snd (resAppend now (ObsPacket p) s)) (po_u64EventId q) = Some q"
    if "q \<in> set (vecAbnormalPacketSnapshot s)" "po_u64EventId q \<noteq> po_u64EventId p" for q
  proof -
    have "sto_optPacket s (po_u64EventId q) = Some q" using optPacket_iff [OF store_okD(2) [OF ok]] that(1) by simp
    with optPacket_kept [OF ok that(2)] that(1) show ?thesis by (simp add: case_prod_beta)
  qed
  ultimately show ?thesis using optPacket_iff [OF store_okD(2) [OF ok]] by blast
qed

text \<open>A ring of one packet: the failure keeps packet 1 when packet 2 has taken its place, and sees its update.\<close>

definition seen :: "u64 \<Rightarrow> string \<Rightarrow> packet_observation" where
  "seen e strReason = \<lparr>po_u64EventId = e, po_u64TimestampMilliseconds = 1, po_strRoundId = ''r'', po_strSenderId = ''s'',
     po_strSenderIp = [], po_strActualSourceIp = [], po_strPeer = ''p'', po_dirDirection = Rx,
     po_typeSource = NormalSender, po_u64ChainId = 1, po_u32IntervalIndex = 1, po_u32PacketIndex = 1,
     po_u32PacketsPerInterval = 1, po_u32DisclosureDelay = 1, po_algCryptoAlgorithm = AlgSha256,
     po_modeAuthentication = Native, po_statusAuthentication = AuthPending, po_strCandidateHash = ''h'',
     po_u32DuplicateCount = 1, po_strReason = strReason,
     po_varPayloadDetails = DisclosurePacketObservationDetails (block_of []), po_vecRawDatagram = [0]\<rparr>"

definition failed :: packet_failure where
  "failed = \<lparr>pf_u64EventId = 7, pf_u64PacketEventId = 1, pf_u64TimestampMilliseconds = 1, pf_sevSeverity = SevError,
     pf_typeFailure = FailMacFailed, pf_strRoundId = ''r'', pf_strSenderId = [], pf_strSenderIp = [],
     pf_strActualSourceIp = [], pf_u64ChainId = 1, pf_u32IntervalIndex = 1, pf_u32PacketIndex = 1,
     pf_optGroupIndex = None, pf_strCandidateHash = [], pf_strReason = ''MAC'', pf_strReceivedTagDigest = [],
     pf_strCalculatedTagDigest = [], pf_vecLocatedPacketIndexes = [], pf_u32DuplicateCount = 1\<rparr>"

definition seen_ops :: "store_op list" where
  "seen_ops = [StoreBeginRound ''r'', StoreAppend 5 (ObsPacket (seen 1 [])), StoreAppend 5 (ObsFailure failed),
     StoreAppend 5 (ObsPacket (seen 2 []))]"

lemma seen_store:
  assumes "mkObservationStore 1 2 1 1 = Inr s0"
  shows "vecPacketSnapshot (run_ops store_op_act seen_ops s0) = [seen 2 []]"
    "vecAbnormalPacketSnapshot (run_ops store_op_act seen_ops s0) = [seen 1 []]"
  using assms
  by (auto simp: mkObservationStore_def seen_ops_def sto_beginRound_def act_simps removeExpiredPacketIndexEntries_def
      removeExpiredGroups_def removeExpiredFailures_def enterRound_def resAppendPacket_def lockPacket_def held_def Let_def
      trimFront_def resAppendFailure_def countFailure_def makeRoom_def bAbnormalFull_def storeFailure_def failurePacket_def
      seen_def failed_def vecPacketSnapshot_def vecAbnormalPacketSnapshot_def thenA_def bindA_cases)

theorem observations_indexed_witness:
  "\<exists>s0 s. mkObservationStore 1 2 1 1 = Inr s0 \<and> s = run_ops store_op_act seen_ops s0
     \<and> sto_optPacket s 1 = Some (seen 1 [])
     \<and> sto_optPacket (snd (resAppend 6 (ObsPacket (seen 1 ''late'')) s)) 1 = Some (seen 1 ''late'')"
proof -
  obtain s0 where s0: "mkObservationStore 1 2 1 1 = Inr s0" by (simp add: mkObservationStore_def)
  note T = observations_indexed [OF s0 refl, of seen_ops 6 "seen 1 ''late''"]
  have "sto_optPacket (run_ops store_op_act seen_ops s0) (po_u64EventId (seen 1 [])) = Some (seen 1 [])"
    using T seen_store(2) [OF s0] by (metis UnI2 list.set_intros(1))
  moreover have "po_u64EventId (seen 1 r) = 1" for r by (simp add: seen_def)
  ultimately show ?thesis using s0 T by simp
qed

end
