(* ===== verification/Metrics.thy ===== *)
theory Metrics
  imports Faults CommunicationCost Machines
begin

text \<open>
  \<open>AuthenticationMetrics.cpp\<close>: what a node measures of a round. The measured samples and the summaries
  with the checks of their constructors, the energy estimate, the collector of a round and the bounded
  store of records. A \<open>double\<close> is rounded after each operation, as without fused multiplications.
\<close>

section \<open>\<open>std::to_string\<close>\<close>

fun strDecimal :: "nat \<Rightarrow> string" where
  "strDecimal n = (if n < 10 then [''0123456789'' ! n] else strDecimal (n div 10) @ [''0123456789'' ! (n mod 10)])"

declare strDecimal.simps [simp del]

text \<open>Six decimals, rounded half to even on the exact value.\<close>

fun strDouble :: "double \<Rightarrow> string" where
  "strDouble (Finite q) =
     (let n = nat (roundHalfEven (\<bar>q\<bar> * 1000000)); strFraction = strDecimal (n mod 1000000) in
      (if q < 0 then ''-'' else []) @ strDecimal (n div 1000000) @ ''.''
        @ replicate (6 - length strFraction) CHR ''0'' @ strFraction)"
| "strDouble NotFinite = ''nan''"

section \<open>Samples\<close>

definition validateIdentity :: "string \<Rightarrow> string \<Rightarrow> u32 \<Rightarrow> unit result" where
  "validateIdentity strRoundId strSenderId u32PacketCount =
     (if strRoundId = [] \<or> strSenderId = [] \<or> u32PacketCount = 0
      then Inl (InvalidArgument ''Authentication metric identity is invalid'') else Inr ())"

datatype VerificationMetricPath =
  MetricNativePacketVerify | MetricFastGroupPass | MetricKsRsFallback | MetricIncompleteGroupTags

datatype HardwareCounterStatus = CounterSupported | CounterNotSupported | CounterPermissionDenied | CounterReadFailed

record hardware_counters =
  ctr_statusCounters :: HardwareCounterStatus
  ctr_u64CpuCycles :: u64
  ctr_u64CacheReferences :: u64
  ctr_u64CacheMisses :: u64

definition doubleOf :: "u64 \<Rightarrow> rat" where
  "doubleOf u64Value = roundDouble (of_nat (unat u64Value))"

definition dCacheHitRate :: "hardware_counters \<Rightarrow> rat" where
  "dCacheHitRate ctr =
     (if ctr_statusCounters ctr \<noteq> CounterSupported \<or> ctr_u64CacheReferences ctr = 0 then 0
      else let dMissRate = roundDouble (doubleOf (ctr_u64CacheMisses ctr) / doubleOf (ctr_u64CacheReferences ctr))
           in max 0 (min 1 (roundDouble (1 - dMissRate))))"

record performance_measurement =
  mst_u64DurationNanoseconds :: u64
  mst_ctrHardware :: hardware_counters

datatype verification_details =
    NativeVerification u32 u32
  | ImprovedVerification u32 u32 u32 VerificationMetricPath

definition mkNativeVerificationMetricDetails :: "u32 \<Rightarrow> u32 \<Rightarrow> verification_details result" where
  "mkNativeVerificationMetricDetails u32IntervalIndex u32PacketIndex =
     (if u32IntervalIndex = 0 \<or> u32PacketIndex = 0
      then Inl (InvalidArgument ''Native verification metric index is invalid'')
      else Inr (NativeVerification u32IntervalIndex u32PacketIndex))"

definition mkImprovedVerificationMetricDetails :: "u32 \<Rightarrow> u32 \<Rightarrow> u32 \<Rightarrow> VerificationMetricPath \<Rightarrow> verification_details result"
where
  "mkImprovedVerificationMetricDetails u32GroupIndex u32First u32Last path =
     (if u32GroupIndex = 0 \<or> u32First = 0 \<or> u32Last < u32First \<or> path = MetricNativePacketVerify
      then Inl (InvalidArgument ''Improved verification metric details are invalid'')
      else Inr (ImprovedVerification u32GroupIndex u32First u32Last path))"

record verification_sample =
  smp_u64EventId :: u64
  smp_u64TimestampMilliseconds :: u64
  smp_strRoundId :: string
  smp_strSenderId :: string
  smp_u64ChainId :: u64
  smp_u32PacketCount :: u32
  smp_mstPerformance :: performance_measurement
  smp_varDetails :: verification_details

definition mkVerificationMetricSample :: "verification_sample \<Rightarrow> verification_sample result" where
  "mkVerificationMetricSample smp =
     andThen (validateIdentity (smp_strRoundId smp) (smp_strSenderId smp) (smp_u32PacketCount smp)) (\<lambda>_.
       if smp_u64EventId smp = 0 \<or> smp_u64TimestampMilliseconds smp = 0
       then Inl (InvalidArgument ''Verification metric event identity is invalid'') else Inr smp)"

fun smp_modeAuthentication :: "verification_details \<Rightarrow> AuthenticationMetricMode" where
  "smp_modeAuthentication (NativeVerification _ _) = MetricNative"
| "smp_modeAuthentication (ImprovedVerification _ _ _ _) = MetricImproved"

fun pathVerification :: "verification_details \<Rightarrow> VerificationMetricPath" where
  "pathVerification (NativeVerification _ _) = MetricNativePacketVerify"
| "pathVerification (ImprovedVerification _ _ _ path) = path"

definition dAveragePacketVerifyTimeMicroseconds :: "verification_sample \<Rightarrow> rat" where
  "dAveragePacketVerifyTimeMicroseconds smp =
     roundDouble (roundDouble (doubleOf (mst_u64DurationNanoseconds (smp_mstPerformance smp)) / 1000)
       / of_nat (unat (smp_u32PacketCount smp)))"

section \<open>Energy\<close>

datatype round_details =
    NativeRoundDetails u32
  | ImprovedRoundDetails u32 u32 u32

record energy_summary =
  en_u64TimestampMilliseconds :: u64
  en_strRoundId :: string
  en_strSenderId :: string
  en_u64ChainId :: u64
  en_u32PacketCount :: u32
  en_u64VerifyTimeNanoseconds :: u64
  en_u64ReceivedAuthBytes :: u64
  en_dEstimatedEnergyMicroJoule :: rat
  en_bNormalComparisonEligible :: bool
  en_varDetails :: round_details

definition mkEstimatedEnergyMetricSummary :: "energy_summary \<Rightarrow> energy_summary result" where
  "mkEstimatedEnergyMetricSummary en =
     andThen (validateIdentity (en_strRoundId en) (en_strSenderId en) (en_u32PacketCount en)) (\<lambda>_.
       if en_u64TimestampMilliseconds en = 0 \<or> en_dEstimatedEnergyMicroJoule en < 0
       then Inl (InvalidArgument ''Estimated energy metric summary is invalid'') else Inr en)"

definition dEstimatedEnergyMilliJoule :: "energy_summary \<Rightarrow> rat" where
  "dEstimatedEnergyMilliJoule en = roundDouble (en_dEstimatedEnergyMicroJoule en / 1000)"

definition dAveragePacketEnergyMicroJoule :: "energy_summary \<Rightarrow> rat" where
  "dAveragePacketEnergyMicroJoule en =
     roundDouble (en_dEstimatedEnergyMicroJoule en / of_nat (unat (en_u32PacketCount en)))"

fun en_modeAuthentication :: "round_details \<Rightarrow> AuthenticationMetricMode" where
  "en_modeAuthentication (NativeRoundDetails _) = MetricNative"
| "en_modeAuthentication (ImprovedRoundDetails _ _ _) = MetricImproved"

definition CPU_MICRO_JOULE_PER_MICROSECOND :: rat where
  "CPU_MICRO_JOULE_PER_MICROSECOND = roundDouble (181 / 1000)"

definition WIFI_MICRO_JOULE_PER_BYTE :: rat where
  "WIFI_MICRO_JOULE_PER_BYTE = roundDouble (38504 / 1000000)"

definition dEstimateMicroJoule :: "u64 \<Rightarrow> u64 \<Rightarrow> rat" where
  "dEstimateMicroJoule u64VerifyTimeNanoseconds u64ReceivedAuthBytes =
     (let dVerifyTimeMicroseconds = roundDouble (doubleOf u64VerifyTimeNanoseconds / 1000) in
      roundDouble (roundDouble (CPU_MICRO_JOULE_PER_MICROSECOND * dVerifyTimeMicroseconds)
        + roundDouble (WIFI_MICRO_JOULE_PER_BYTE * doubleOf u64ReceivedAuthBytes)))"

section \<open>The archive of a round\<close>

record archive_configuration =
  cfg_modeAuthentication :: AuthenticationMetricMode
  cfg_strCryptoAlgorithm :: string
  cfg_strPayloadHash :: string
  cfg_u32PacketCount :: u32
  cfg_u32PacketsPerInterval :: u32
  cfg_u32IntervalMilliseconds :: u32
  cfg_u32DisclosureDelay :: u32
  cfg_u32GroupSize :: u32
  cfg_u32DetectionThreshold :: u32

definition mkRoundArchiveConfiguration :: "archive_configuration \<Rightarrow> archive_configuration result" where
  "mkRoundArchiveConfiguration cfg =
     (if cfg_strCryptoAlgorithm cfg = [] \<or> cfg_u32PacketCount cfg = 0 \<or> cfg_u32PacketsPerInterval cfg = 0
         \<or> cfg_u32IntervalMilliseconds cfg = 0 \<or> cfg_u32DisclosureDelay cfg = 0
         \<or> (cfg_modeAuthentication cfg = MetricNative
            \<and> (cfg_u32GroupSize cfg \<noteq> 0 \<or> cfg_u32DetectionThreshold cfg \<noteq> 0))
         \<or> (cfg_modeAuthentication cfg = MetricImproved
            \<and> (cfg_u32GroupSize cfg = 0 \<or> cfg_u32DetectionThreshold cfg = 0))
      then Inl (InvalidArgument ''Round archive configuration is invalid'') else Inr cfg)"

record sender_archive =
  sar_u32SentPacketCount :: u32
  sar_strConfiguredFault :: string
  sar_strConfiguredFaultValue :: string
  sar_u64RandomSeed :: u64
  sar_u64FileSize :: u64

definition mkSenderRoundArchiveDetails :: "sender_archive \<Rightarrow> sender_archive result" where
  "mkSenderRoundArchiveDetails sar =
     (if sar_strConfiguredFault sar = []
      then Inl (InvalidArgument ''Sender round archive fault type is empty'') else Inr sar)"

record receiver_archive =
  rar_u32ReceivedPacketCount :: u32
  rar_u32AuthenticatedPacketCount :: u32
  rar_u32FailedPacketCount :: u32
  rar_u32MissingPacketCount :: u32
  rar_u32FallbackGroupCount :: u32
  rar_u64VerifyTimeNanoseconds :: u64
  rar_u64ReceivedAuthBytes :: u64
  rar_dEstimatedEnergyMicroJoule :: rat
  rar_u64FileSize :: u64
  rar_u64RecoveredFileSize :: u64
  rar_strRecoveredFileHash :: string

definition mkReceiverRoundArchiveDetails :: "receiver_archive \<Rightarrow> receiver_archive result" where
  "mkReceiverRoundArchiveDetails rar =
     (if rar_dEstimatedEnergyMicroJoule rar < 0 \<or> rar_u64RecoveredFileSize rar > rar_u64FileSize rar
      then Inl (InvalidArgument ''Receiver round archive details are invalid'') else Inr rar)"

datatype archive_details = SenderArchive sender_archive | ReceiverArchive receiver_archive

record archive_summary =
  arc_u64TimestampMilliseconds :: u64
  arc_strExperimentId :: string
  arc_strRunId :: string
  arc_strGitCommit :: string
  arc_strNodeId :: string
  arc_strSenderId :: string
  arc_u64ChainId :: u64
  arc_cfgConfiguration :: archive_configuration
  arc_strRoundStatus :: string
  arc_bValidSample :: bool
  arc_strInvalidReason :: string
  arc_varDetails :: archive_details

definition mkRoundArchiveSummary :: "archive_summary \<Rightarrow> archive_summary result" where
  "mkRoundArchiveSummary arc =
     (if arc_u64TimestampMilliseconds arc = 0 \<or> arc_strExperimentId arc = [] \<or> arc_strRunId arc = []
         \<or> arc_strGitCommit arc = [] \<or> arc_strNodeId arc = [] \<or> arc_strSenderId arc = []
         \<or> arc_strRoundStatus arc = [] \<or> (arc_bValidSample arc \<and> arc_strInvalidReason arc \<noteq> [])
         \<or> (\<not> arc_bValidSample arc \<and> arc_strInvalidReason arc = [])
      then Inl (InvalidArgument ''Authentication round archive identity is invalid'') else Inr arc)"

section \<open>The collector of a round\<close>

record metric_collector =
  col_strRoundId :: string
  col_strSenderId :: string
  col_u64ChainId :: u64
  col_modeAuthentication :: AuthenticationMetricMode
  col_u32PacketCount :: u32
  col_u64VerifyTimeNanoseconds :: u64
  col_u64ReceivedAuthBytes :: u64
  col_u32VerifiedPacketCount :: u32
  col_u32FastGroupCount :: u32
  col_u32FallbackGroupCount :: u32
  col_u32IncompleteGroupCount :: u32
  col_bNormalComparisonEligible :: bool

definition mkRoundMetricCollector :: "string \<Rightarrow> string \<Rightarrow> u64 \<Rightarrow> AuthenticationMetricMode \<Rightarrow> u32 \<Rightarrow> metric_collector result" where
  "mkRoundMetricCollector strRoundId strSenderId u64ChainId mode u32PacketCount =
     andThen (validateIdentity strRoundId strSenderId u32PacketCount) (\<lambda>_.
       Inr \<lparr>col_strRoundId = strRoundId, col_strSenderId = strSenderId, col_u64ChainId = u64ChainId,
         col_modeAuthentication = mode, col_u32PacketCount = u32PacketCount,
         col_u64VerifyTimeNanoseconds = 0, col_u64ReceivedAuthBytes = 0, col_u32VerifiedPacketCount = 0,
         col_u32FastGroupCount = 0, col_u32FallbackGroupCount = 0, col_u32IncompleteGroupCount = 0,
         col_bNormalComparisonEligible = True\<rparr>)"

definition addVerifyTime :: "performance_measurement \<Rightarrow> metric_collector \<Rightarrow> metric_collector" where
  "addVerifyTime mst col = col\<lparr>col_u64VerifyTimeNanoseconds :=
     col_u64VerifyTimeNanoseconds col + mst_u64DurationNanoseconds mst\<rparr>"

definition addDisclosureKeyMeasurement :: "performance_measurement \<Rightarrow> (metric_collector, unit) act" where
  "addDisclosureKeyMeasurement mst = modifyA (addVerifyTime mst)"

fun countPath :: "VerificationMetricPath \<Rightarrow> (metric_collector, unit) act" where
  "countPath MetricFastGroupPass = modifyA (\<lambda>col. col\<lparr>col_u32FastGroupCount := col_u32FastGroupCount col + 1\<rparr>)"
| "countPath MetricKsRsFallback = modifyA (\<lambda>col. col\<lparr>col_u32FallbackGroupCount := col_u32FallbackGroupCount col + 1\<rparr>)"
| "countPath MetricIncompleteGroupTags =
     modifyA (\<lambda>col. col\<lparr>col_u32IncompleteGroupCount := col_u32IncompleteGroupCount col + 1\<rparr>)"
| "countPath MetricNativePacketVerify = throwA (InvalidArgument ''Improved metric sample has a native path'')"

definition addVerificationSample :: "verification_sample \<Rightarrow> (metric_collector, unit) act" where
  "addVerificationSample smp =
     bindA (getA id) (\<lambda>col.
       if smp_strRoundId smp \<noteq> col_strRoundId col \<or> smp_strSenderId smp \<noteq> col_strSenderId col
          \<or> smp_u64ChainId smp \<noteq> col_u64ChainId col
          \<or> smp_modeAuthentication (smp_varDetails smp) \<noteq> col_modeAuthentication col
       then throwA (InvalidArgument ''Verification metric sample belongs to another round'')
       else thenA (modifyA (addVerifyTime (smp_mstPerformance smp)))
         (if col_modeAuthentication col = MetricNative
          then modifyA (\<lambda>col. col\<lparr>col_u32VerifiedPacketCount := col_u32VerifiedPacketCount col + smp_u32PacketCount smp\<rparr>)
          else countPath (pathVerification (smp_varDetails smp))))"

definition addReceivedAuthBytes :: "u64 \<Rightarrow> (metric_collector, unit) act" where
  "addReceivedAuthBytes u64ByteCount =
     modifyA (\<lambda>col. col\<lparr>col_u64ReceivedAuthBytes := col_u64ReceivedAuthBytes col + u64ByteCount\<rparr>)"

definition markNormalComparisonIneligible :: "(metric_collector, unit) act" where
  "markNormalComparisonIneligible = modifyA (\<lambda>col. col\<lparr>col_bNormalComparisonEligible := False\<rparr>)"

definition sumCreateEnergySummary :: "metric_collector \<Rightarrow> u64 \<Rightarrow> bool \<Rightarrow> energy_summary result" where
  "sumCreateEnergySummary col u64Timestamp bRoundCompleteNormally =
     (let varDetails = (if col_modeAuthentication col = MetricNative
            then NativeRoundDetails (col_u32VerifiedPacketCount col)
            else ImprovedRoundDetails (col_u32FastGroupCount col) (col_u32FallbackGroupCount col)
              (col_u32IncompleteGroupCount col));
          bPathEligible = (col_modeAuthentication col = MetricNative
            \<or> (col_u32FastGroupCount col > 0 \<and> col_u32FallbackGroupCount col = 0 \<and> col_u32IncompleteGroupCount col = 0))
      in mkEstimatedEnergyMetricSummary
        \<lparr>en_u64TimestampMilliseconds = u64Timestamp, en_strRoundId = col_strRoundId col,
         en_strSenderId = col_strSenderId col, en_u64ChainId = col_u64ChainId col,
         en_u32PacketCount = col_u32PacketCount col,
         en_u64VerifyTimeNanoseconds = col_u64VerifyTimeNanoseconds col,
         en_u64ReceivedAuthBytes = col_u64ReceivedAuthBytes col,
         en_dEstimatedEnergyMicroJoule = dEstimateMicroJoule (col_u64VerifyTimeNanoseconds col) (col_u64ReceivedAuthBytes col),
         en_bNormalComparisonEligible =
           (bRoundCompleteNormally \<and> col_bNormalComparisonEligible col \<and> bPathEligible),
         en_varDetails = varDetails\<rparr>)"

section \<open>The store of records\<close>

datatype metric_record =
    SampleRecord verification_sample
  | EnergyRecord energy_summary
  | CostRecord cost_summary
  | ArchiveRecord archive_summary

definition strU64 :: "u64 \<Rightarrow> string" where "strU64 u64Value = strDecimal (unat u64Value)"

fun strRecordKey :: "metric_record \<Rightarrow> string" where
  "strRecordKey (SampleRecord smp) = ''V:'' @ strU64 (smp_u64EventId smp)"
| "strRecordKey (EnergyRecord en) =
     ''E:'' @ en_strRoundId en @ '':'' @ en_strSenderId en @ '':'' @ strU64 (en_u64ChainId en)"
| "strRecordKey (CostRecord cs) =
     ''C:'' @ cs_strRoundId cs @ '':'' @ cs_strSenderId cs @ '':'' @ strU64 (cs_u64ChainId cs)"
| "strRecordKey (ArchiveRecord arc) =
     ''A:'' @ [case arc_varDetails arc of SenderArchive _ \<Rightarrow> CHR ''S'' | ReceiverArchive _ \<Rightarrow> CHR ''R''] @ '':''
       @ arc_strRunId arc @ '':'' @ arc_strNodeId arc @ '':'' @ arc_strSenderId arc @ '':'' @ strU64 (arc_u64ChainId arc)"

record metric_store =
  mts_nMaximumRecordCount :: nat
  mts_deqRecords :: "(string \<times> metric_record) list"
  mts_setRecordKeys :: "string set"

definition mkMetricStore :: "nat \<Rightarrow> metric_store result" where
  "mkMetricStore nMaximumRecordCount =
     (if nMaximumRecordCount = 0 then Inl (InvalidArgument ''Metric store limit must be positive'')
      else Inr \<lparr>mts_nMaximumRecordCount = nMaximumRecordCount, mts_deqRecords = [], mts_setRecordKeys = {}\<rparr>)"

text \<open>\<open>while (deq.size() > maximum)\<close>: the oldest record goes, with its key.\<close>

fun dropOldest :: "nat \<Rightarrow> (string \<times> metric_record) list \<Rightarrow> string set \<Rightarrow> (string \<times> metric_record) list \<times> string set" where
  "dropOldest nMaximum [] keys = ([], keys)"
| "dropOldest nMaximum ((strKey, rec) # deq) keys =
     (if Suc (length deq) > nMaximum then dropOldest nMaximum deq (keys - {strKey}) else ((strKey, rec) # deq, keys))"

definition mts_bAppend :: "metric_record \<Rightarrow> metric_store \<Rightarrow> bool \<times> metric_store" where
  "mts_bAppend varRecord mts =
     (let strKey = strRecordKey varRecord in
      if strKey \<in> mts_setRecordKeys mts then (False, mts)
      else case dropOldest (mts_nMaximumRecordCount mts) (mts_deqRecords mts @ [(strKey, varRecord)])
                  (insert strKey (mts_setRecordKeys mts)) of
        (deq, keys) \<Rightarrow> (True, mts\<lparr>mts_deqRecords := deq, mts_setRecordKeys := keys\<rparr>))"

definition mts_clear :: "metric_store \<Rightarrow> metric_store" where
  "mts_clear mts = mts\<lparr>mts_deqRecords := [], mts_setRecordKeys := {}\<rparr>"

definition mts_vecSnapshot :: "metric_store \<Rightarrow> metric_record list" where
  "mts_vecSnapshot mts = map snd (mts_deqRecords mts)"

definition mts_nRecordCount :: "metric_store \<Rightarrow> nat" where
  "mts_nRecordCount mts = length (mts_deqRecords mts)"

section \<open>What the store keeps\<close>

definition metric_store_ok :: "metric_store \<Rightarrow> bool" where
  "metric_store_ok mts = (0 < mts_nMaximumRecordCount mts
     \<and> length (mts_deqRecords mts) \<le> mts_nMaximumRecordCount mts
     \<and> distinct (map fst (mts_deqRecords mts)) \<and> mts_setRecordKeys mts = set (map fst (mts_deqRecords mts))
     \<and> (\<forall>(k, r) \<in> set (mts_deqRecords mts). k = strRecordKey r))"

lemma dropOldest_exact:
  assumes "distinct (map fst deq)" "keys = set (map fst deq)"
  shows "dropOldest n deq keys = (drop (length deq - n) deq, set (map fst (drop (length deq - n) deq)))"
  using assms
proof (induction n deq keys rule: dropOldest.induct)
  case (2 n k r deq keys)
  show ?case
  proof (cases "Suc (length deq) > n")
    case True
    have "dropOldest n deq (keys - {k}) = (drop (length deq - n) deq, set (map fst (drop (length deq - n) deq)))"
      using 2 True by (intro "2.IH") auto
    moreover have "Suc (length deq) - n = Suc (length deq - n)" using True by simp
    ultimately show ?thesis using True by simp
  qed (use 2 in simp)
qed simp

lemma bAppend_exact:
  assumes "metric_store_ok mts"
  shows "mts_bAppend r mts =
    (if strRecordKey r \<in> set (map fst (mts_deqRecords mts)) then (False, mts)
     else let deq = mts_deqRecords mts @ [(strRecordKey r, r)]; kept = drop (length deq - mts_nMaximumRecordCount mts) deq
          in (True, mts\<lparr>mts_deqRecords := kept, mts_setRecordKeys := set (map fst kept)\<rparr>))"
proof (cases "strRecordKey r \<in> set (map fst (mts_deqRecords mts))")
  case False
  let ?deq = "mts_deqRecords mts @ [(strRecordKey r, r)]"
  have "dropOldest (mts_nMaximumRecordCount mts) ?deq (insert (strRecordKey r) (mts_setRecordKeys mts))
      = (drop (length ?deq - mts_nMaximumRecordCount mts) ?deq,
         set (map fst (drop (length ?deq - mts_nMaximumRecordCount mts) ?deq)))"
    using assms False by (intro dropOldest_exact) (auto simp: metric_store_ok_def)
  with assms False show ?thesis by (simp add: mts_bAppend_def metric_store_ok_def Let_def)
qed (use assms in \<open>simp add: mts_bAppend_def metric_store_ok_def\<close>)

lemma bAppend_ok:
  assumes "metric_store_ok mts"
  shows "metric_store_ok (snd (mts_bAppend r mts))"
proof -
  let ?deq = "mts_deqRecords mts @ [(strRecordKey r, r)]"
  have "distinct (map fst (drop k ?deq))" if "strRecordKey r \<notin> set (map fst (mts_deqRecords mts))" for k
    using assms that by (subst drop_map [symmetric], intro distinct_drop) (simp add: metric_store_ok_def)
  then show ?thesis
    using assms by (auto simp: bAppend_exact [OF assms] metric_store_ok_def Let_def dest!: in_set_dropD)
qed

text \<open>Different rounds can have one key: the separator may occur in the names.\<close>

lemma record_keys_collide:
  assumes "en_strRoundId e = ''a:b''" "en_strSenderId e = ''c''" "en_strRoundId f = ''a''" "en_strSenderId f = ''b:c''"
    and "en_u64ChainId e = en_u64ChainId f"
  shows "strRecordKey (EnergyRecord e) = strRecordKey (EnergyRecord f)"
  using assms by simp

end
