(* ===== verification/ControlValues.thy ===== *)
theory ControlValues
  imports Metrics ReceiverRuntime
begin

text \<open>
  The messages of the management connection: the value classes of \<open>AuthenticationControl.cpp\<close>,
  \<open>ExperimentControl.cpp\<close>, \<open>MetricControl.cpp\<close> and \<open>NodeControlMessage.cpp\<close> with the checks of their
  constructors, and the hexadecimal codec of chain identifiers and blocks. A constructor is given the
  initialised members and returns them or the exception.
\<close>

section \<open>Round parameters\<close>

definition controlText :: "string \<Rightarrow> string \<Rightarrow> bool \<Rightarrow> unit result" where
  "controlText strValue strName bAllowEmpty =
     (if (\<not> bAllowEmpty \<and> strValue = []) \<or> length strValue > 1024
      then Inl (InvalidArgument (strName @ '' has an invalid length'')) else Inr ())"

datatype AuthenticationConfigTarget = TargetSender | TargetReceiver | TargetTextPayload | TargetFilePayload

datatype PayloadControlMode = ControlText | ControlFile

record improved_control =
  imc_u32GroupSize :: u32
  imc_u32DetectionThreshold :: u32

definition mkImprovedTeslaControlParameters :: "improved_control \<Rightarrow> improved_control result" where
  "mkImprovedTeslaControlParameters imc =
     (if imc_u32GroupSize imc = 0 \<or> imc_u32DetectionThreshold imc = 0
      then Inl (InvalidArgument ''Improved TESLA parameters must be positive'') else Inr imc)"

record round_control =
  rpc_algCryptoAlgorithm :: AuthenticationCryptoAlgorithm
  rpc_modeAuthentication :: UdpAuthenticationMode
  rpc_u32TotalPacketCount :: u32
  rpc_u32PacketsPerInterval :: u32
  rpc_u32DisclosureDelay :: u32
  rpc_u32IntervalMilliseconds :: u32
  rpc_u64StartTimestampMilliseconds :: u64
  rpc_u32ChainLength :: u32
  rpc_optImprovedParameters :: "improved_control option"
  rpc_modePayload :: PayloadControlMode

definition mkRoundControlParameters :: "round_control \<Rightarrow> round_control result" where
  "mkRoundControlParameters rpc =
     (if rpc_u32TotalPacketCount rpc = 0 \<or> rpc_u32PacketsPerInterval rpc = 0 \<or> rpc_u32DisclosureDelay rpc = 0
         \<or> rpc_u32IntervalMilliseconds rpc = 0 \<or> rpc_u32ChainLength rpc < 2
      then Inl (InvalidArgument ''Authentication round control values are invalid'')
      else if rpc_modeAuthentication rpc = Native \<and> rpc_optImprovedParameters rpc \<noteq> None
      then Inl (InvalidArgument ''Native TESLA control must not contain improved values'')
      else if rpc_modeAuthentication rpc = Improved \<and> rpc_optImprovedParameters rpc = None
      then Inl (InvalidArgument ''Improved TESLA control requires improved values'')
      else Inr rpc)"

section \<open>Configuration\<close>

record sender_config =
  scf_strRequestId :: string
  scf_strSenderId :: string
  scf_u64ChainId :: u64
  scf_arrChainSeed :: block
  scf_arrCommitmentKey :: block
  scf_prmRoundParameters :: round_control

definition mkSenderConfig :: "sender_config \<Rightarrow> sender_config result" where
  "mkSenderConfig scf =
     andThen (controlText (scf_strRequestId scf) ''Control request ID'' False) (\<lambda>_.
     andThen (controlText (scf_strSenderId scf) ''Sender ID'' False) (\<lambda>_.
       if scf_u64ChainId scf = 0
       then Inl (InvalidArgument ''Sender authentication chain ID must not be zero'') else Inr scf))"

datatype receiver_payload_control = TextReceiverControl u32 | FileReceiverControl u64

definition mkTextReceiverControl :: "u32 \<Rightarrow> receiver_payload_control result" where
  "mkTextReceiverControl u32RepeatCount =
     (if u32RepeatCount = 0 then Inl (InvalidArgument ''Text Receiver repeat count must be positive'')
      else Inr (TextReceiverControl u32RepeatCount))"

definition mkFileReceiverControl :: "u64 \<Rightarrow> receiver_payload_control result" where
  "mkFileReceiverControl u64OriginalByteCount =
     (if u64OriginalByteCount = 0 then Inl (InvalidArgument ''File Receiver byte count must be positive'')
      else Inr (FileReceiverControl u64OriginalByteCount))"

record receiver_context_control =
  rcc_strSenderId :: string
  rcc_strSenderIpAddress :: string
  rcc_u64ChainId :: u64
  rcc_arrCommitmentKey :: block
  rcc_prmRoundParameters :: round_control
  rcc_varPayloadDetails :: receiver_payload_control

fun controlPayloadMatches :: "receiver_payload_control \<Rightarrow> round_control \<Rightarrow> unit result" where
  "controlPayloadMatches (TextReceiverControl u32RepeatCount) rpc =
     (if rpc_modePayload rpc \<noteq> ControlText \<or> u32RepeatCount \<noteq> rpc_u32TotalPacketCount rpc
      then Inl (InvalidArgument ''Text Receiver payload details do not match round parameters'') else Inr ())"
| "controlPayloadMatches (FileReceiverControl u64OriginalByteCount) rpc =
     (let u64PacketCount = (u64OriginalByteCount + 32 - 1) div 32 in
      if rpc_modePayload rpc \<noteq> ControlFile \<or> u64PacketCount \<noteq> ucast (rpc_u32TotalPacketCount rpc)
      then Inl (InvalidArgument ''File Receiver payload details do not match round parameters'') else Inr ())"

definition mkReceiverContextControl :: "receiver_context_control \<Rightarrow> receiver_context_control result" where
  "mkReceiverContextControl rcc =
     andThen (controlText (rcc_strSenderId rcc) ''Receiver context sender ID'' False) (\<lambda>_.
     andThen (controlText (rcc_strSenderIpAddress rcc) ''Receiver context sender IP'' False) (\<lambda>_.
       if rcc_u64ChainId rcc = 0
       then Inl (InvalidArgument ''Receiver authentication chain ID must not be zero'')
       else andThen (controlPayloadMatches (rcc_varPayloadDetails rcc) (rcc_prmRoundParameters rcc)) (\<lambda>_. Inr rcc)))"

record receiver_contexts_control =
  rcs_strRequestId :: string
  rcs_vecContexts :: "receiver_context_control list"

definition mkReceiverContextsControl :: "receiver_contexts_control \<Rightarrow> receiver_contexts_control result" where
  "mkReceiverContextsControl rcs =
     andThen (controlText (rcs_strRequestId rcs) ''Control request ID'' False) (\<lambda>_.
       if rcs_vecContexts rcs = []
       then Inl (InvalidArgument ''Receiver authentication configuration must contain at least one context'')
       else Inr rcs)"

record config_ack =
  cak_strRequestId :: string
  cak_targetConfig :: AuthenticationConfigTarget
  cak_bAccepted :: bool
  cak_strErrorCode :: string
  cak_strMessage :: string

definition mkConfigAcknowledgement :: "config_ack \<Rightarrow> config_ack result" where
  "mkConfigAcknowledgement cak =
     andThen (controlText (cak_strRequestId cak) ''Control request ID'' False) (\<lambda>_.
     andThen (controlText (cak_strErrorCode cak) ''Authentication config error code'' (cak_bAccepted cak)) (\<lambda>_.
     andThen (controlText (cak_strMessage cak) ''Authentication config acknowledgement message'' False) (\<lambda>_.
       if cak_bAccepted cak \<and> cak_strErrorCode cak \<noteq> []
       then Inl (InvalidArgument ''Accepted authentication configuration must not contain an error code'')
       else Inr cak)))"

section \<open>Payloads\<close>

record text_payload_control =
  tpc_strRequestId :: string
  tpc_u64ChainId :: u64
  tpc_strUtf8Text :: string

definition mkTextPayloadControl :: "text_payload_control \<Rightarrow> text_payload_control result" where
  "mkTextPayloadControl tpc =
     andThen (controlText (tpc_strRequestId tpc) ''Control request ID'' False) (\<lambda>_.
       if tpc_u64ChainId tpc = 0 then Inl (InvalidArgument ''Text payload chain ID must not be zero'')
       else if tpc_strUtf8Text tpc = [] \<or> length (tpc_strUtf8Text tpc) > 32
       then Inl (InvalidArgument ''Text payload must contain between 1 and 32 UTF-8 bytes'')
       else if CHR 0x00 \<in> set (tpc_strUtf8Text tpc)
       then Inl (InvalidArgument ''Text payload must not contain a zero byte'')
       else Inr tpc)"

record upload_begin_control =
  ubc_strRequestId :: string
  ubc_u64ChainId :: u64
  ubc_u64OriginalByteCount :: u64

definition mkUploadBeginControl :: "upload_begin_control \<Rightarrow> upload_begin_control result" where
  "mkUploadBeginControl ubc =
     andThen (controlText (ubc_strRequestId ubc) ''Control request ID'' False) (\<lambda>_.
       if ubc_u64ChainId ubc = 0 \<or> ubc_u64OriginalByteCount ubc = 0
       then Inl (InvalidArgument ''File upload begin identity or size is invalid'') else Inr ubc)"

record upload_end_control =
  uec_strRequestId :: string
  uec_u64ChainId :: u64
  uec_u32ChunkCount :: u32
  uec_u64TransferredByteCount :: u64

definition mkUploadEndControl :: "upload_end_control \<Rightarrow> upload_end_control result" where
  "mkUploadEndControl uec =
     andThen (controlText (uec_strRequestId uec) ''Control request ID'' False) (\<lambda>_.
       if uec_u64ChainId uec = 0 \<or> uec_u32ChunkCount uec = 0 \<or> uec_u64TransferredByteCount uec = 0
       then Inl (InvalidArgument ''File upload end counts are invalid'') else Inr uec)"

section \<open>Rounds\<close>

datatype AuthenticationRoundCommand = CommandStart | CommandPause | CommandResume | CommandStop

record round_command =
  cmd_strRequestId :: string
  cmd_strRoundId :: string
  cmd_cmdCommand :: AuthenticationRoundCommand
  cmd_u64ExecutionTimestampMilliseconds :: u64
  cmd_u32LogicalIntervalIndex :: u32

definition mkRoundCommand :: "round_command \<Rightarrow> round_command result" where
  "mkRoundCommand cmd =
     andThen (controlText (cmd_strRequestId cmd) ''Control request ID'' False) (\<lambda>_.
     andThen (controlText (cmd_strRoundId cmd) ''Authentication round ID'' False) (\<lambda>_.
       if cmd_cmdCommand cmd = CommandStop
       then (if cmd_u64ExecutionTimestampMilliseconds cmd \<noteq> 0 \<or> cmd_u32LogicalIntervalIndex cmd \<noteq> 0
             then Inl (InvalidArgument ''Round stop command must not contain schedule fields'') else Inr cmd)
       else if cmd_u64ExecutionTimestampMilliseconds cmd = 0 \<or> cmd_u32LogicalIntervalIndex cmd = 0
       then Inl (InvalidArgument ''Scheduled round command requires a timestamp and logical interval'')
       else if cmd_cmdCommand cmd = CommandStart \<and> cmd_u32LogicalIntervalIndex cmd \<noteq> 1
       then Inl (InvalidArgument ''Round start command must begin at interval one'')
       else Inr cmd))"

record round_ack =
  rak_strRequestId :: string
  rak_strRoundId :: string
  rak_cmdCommand :: AuthenticationRoundCommand
  rak_bAccepted :: bool
  rak_strErrorCode :: string
  rak_strMessage :: string

definition mkRoundAcknowledgement :: "round_ack \<Rightarrow> round_ack result" where
  "mkRoundAcknowledgement rak =
     andThen (controlText (rak_strRequestId rak) ''Control request ID'' False) (\<lambda>_.
     andThen (controlText (rak_strRoundId rak) ''Authentication round ID'' False) (\<lambda>_.
     andThen (controlText (rak_strErrorCode rak) ''Round command error code'' (rak_bAccepted rak)) (\<lambda>_.
     andThen (controlText (rak_strMessage rak) ''Round command acknowledgement message'' False) (\<lambda>_.
       if rak_bAccepted rak \<and> rak_strErrorCode rak \<noteq> []
       then Inl (InvalidArgument ''Accepted round command must not contain an error code'')
       else Inr rak))))"

datatype AuthenticationRoundResultRole = RoleSender | RoleReceiver

datatype AuthenticationRoundResultStatus =
    RoundCompleted | RoundAuthenticationFailed | RoundVerificationTimeout | RoundInvalidSchedulingOverrun
  | RoundStopped | RoundProtocolIncomplete | RoundTimeUnsynchronized

datatype round_result_details =
    TextRoundResult string
  | FileSenderRoundResult u64
  | FileReceiverRoundResult u64 u64 "block option"

definition mkTextRoundResult :: "string \<Rightarrow> round_result_details result" where
  "mkTextRoundResult strText =
     andThen (controlText strText ''Recovered text'' True) (\<lambda>_. Inr (TextRoundResult strText))"

definition mkFileSenderRoundResult :: "u64 \<Rightarrow> round_result_details result" where
  "mkFileSenderRoundResult u64OriginalByteCount =
     (if u64OriginalByteCount = 0 then Inl (InvalidArgument ''File Sender result size must be positive'')
      else Inr (FileSenderRoundResult u64OriginalByteCount))"

definition mkFileReceiverRoundResult :: "u64 \<Rightarrow> u64 \<Rightarrow> block option \<Rightarrow> round_result_details result" where
  "mkFileReceiverRoundResult u64OriginalByteCount u64RecoveredByteCount optRecoveredSha256 =
     (if u64OriginalByteCount = 0
         \<or> (u64RecoveredByteCount = 0 \<and> optRecoveredSha256 \<noteq> None)
         \<or> (u64RecoveredByteCount \<noteq> 0 \<and> optRecoveredSha256 = None)
      then Inl (InvalidArgument ''File Receiver result details are inconsistent'')
      else Inr (FileReceiverRoundResult u64OriginalByteCount u64RecoveredByteCount optRecoveredSha256))"

record round_result =
  rrc_strRoundId :: string
  rrc_strSenderId :: string
  rrc_u64ChainId :: u64
  rrc_roleResult :: AuthenticationRoundResultRole
  rrc_statusResult :: AuthenticationRoundResultStatus
  rrc_u32ExpectedPacketCount :: u32
  rrc_u32ReceivedPacketCount :: u32
  rrc_u32AuthenticatedPacketCount :: u32
  rrc_u32FailedPacketCount :: u32
  rrc_u32MissingPacketCount :: u32
  rrc_varResultDetails :: round_result_details
  rrc_strMessage :: string

fun roleMatches :: "AuthenticationRoundResultRole \<Rightarrow> round_result_details \<Rightarrow> bool" where
  "roleMatches RoleSender (FileReceiverRoundResult _ _ _) = False"
| "roleMatches RoleReceiver (FileSenderRoundResult _) = False"
| "roleMatches _ _ = True"

definition mkRoundResult :: "round_result \<Rightarrow> round_result result" where
  "mkRoundResult rrc =
     andThen (controlText (rrc_strRoundId rrc) ''Authentication round ID'' False) (\<lambda>_.
     andThen (controlText (rrc_strSenderId rrc) ''Authentication result sender ID'' False) (\<lambda>_.
     andThen (controlText (rrc_strMessage rrc) ''Authentication result message'' False) (\<lambda>_.
       if rrc_u64ChainId rrc = 0 \<or> rrc_u32ExpectedPacketCount rrc = 0
       then Inl (InvalidArgument ''Authentication round result identity is invalid'')
       else if rrc_u32ReceivedPacketCount rrc > rrc_u32ExpectedPacketCount rrc
          \<or> rrc_u32AuthenticatedPacketCount rrc > rrc_u32ReceivedPacketCount rrc
          \<or> rrc_u32FailedPacketCount rrc > rrc_u32ReceivedPacketCount rrc
          \<or> rrc_u32MissingPacketCount rrc > rrc_u32ExpectedPacketCount rrc
       then Inl (InvalidArgument ''Authentication round result counts are inconsistent'')
       else if \<not> roleMatches (rrc_roleResult rrc) (rrc_varResultDetails rrc)
       then Inl (InvalidArgument ''Authentication result role does not match its payload details'')
       else Inr rrc)))"

section \<open>Experiments and metrics\<close>

record fault_control =
  fcd_strRequestId :: string
  fcd_strRoundId :: string
  fcd_strTargetSenderId :: string
  fcd_u64ChainId :: u64
  fcd_varFaultDetails :: fault_details

definition mkFaultInjectionControl :: "fault_control \<Rightarrow> fault_control result" where
  "mkFaultInjectionControl fcd =
     andThen (experimentText (fcd_strRequestId fcd) ''Fault request ID'') (\<lambda>_.
     andThen (experimentText (fcd_strRoundId fcd) ''Fault round ID'') (\<lambda>_.
     andThen (experimentText (fcd_strTargetSenderId fcd) ''Fault target sender ID'') (\<lambda>_.
       if fcd_u64ChainId fcd = 0
       then Inl (InvalidArgument ''Fault target chain ID must be positive'') else Inr fcd)))"

record experiment_ack =
  eak_strRequestId :: string
  eak_strRoundId :: string
  eak_bAccepted :: bool
  eak_strErrorCode :: string
  eak_strMessage :: string

definition mkExperimentAcknowledgement :: "experiment_ack \<Rightarrow> experiment_ack result" where
  "mkExperimentAcknowledgement eak =
     andThen (experimentText (eak_strRequestId eak) ''Experiment acknowledgement request ID'') (\<lambda>_.
     andThen (experimentText (eak_strRoundId eak) ''Experiment acknowledgement round ID'') (\<lambda>_.
     andThen (experimentText (eak_strMessage eak) ''Experiment acknowledgement message'') (\<lambda>_.
       if (eak_bAccepted eak \<and> eak_strErrorCode eak \<noteq> []) \<or> (\<not> eak_bAccepted eak \<and> eak_strErrorCode eak = [])
       then Inl (InvalidArgument ''Experiment acknowledgement result is inconsistent'') else Inr eak)))"

definition MAX_METRIC_BATCH_SIZE :: nat where "MAX_METRIC_BATCH_SIZE = 64"

definition mkMetricEvent :: "metric_record list \<Rightarrow> metric_record list result" where
  "mkMetricEvent vecRecords =
     (if vecRecords = [] \<or> length vecRecords > MAX_METRIC_BATCH_SIZE
      then Inl (InvalidArgument ''Metric event batch size is invalid'') else Inr vecRecords)"

record metric_snapshot =
  msn_strRequestId :: string
  msn_u32Sequence :: u32
  msn_bFinalBatch :: bool
  msn_vecRecords :: "metric_record list"

definition mkMetricSnapshot :: "metric_snapshot \<Rightarrow> metric_snapshot result" where
  "mkMetricSnapshot msn =
     (if msn_strRequestId msn = [] \<or> msn_u32Sequence msn = 0 \<or> length (msn_vecRecords msn) > MAX_METRIC_BATCH_SIZE
      then Inl (InvalidArgument ''Metric snapshot batch is invalid'') else Inr msn)"

section \<open>Messages\<close>

datatype TcpClientRole = Manager | MonitorClient

datatype NodeControlMessageType =
    MsgClientHello | MsgPing | MsgPong | MsgStatusRequest | MsgStatusResponse | MsgSenderAuthenticationConfig
  | MsgReceiverAuthenticationContexts | MsgTextPayloadConfig | MsgFileUploadBegin | MsgFileUploadEnd
  | MsgAuthenticationConfigAcknowledgement | MsgFaultInjectionConfig | MsgAttackSourceMapping
  | MsgExperimentControlAcknowledgement | MsgRoundStart | MsgRoundPause | MsgRoundResume | MsgRoundStop
  | MsgRoundCommandAcknowledgement | MsgRoundResult | MsgPacketObservationEvent | MsgPacketFailureEvent
  | MsgImprovedGroupObservationEvent | MsgDosSummaryEvent | MsgMetricEvent | MsgAbnormalEventSnapshotRequest
  | MsgAbnormalEventSnapshot | MsgMetricSnapshotRequest | MsgMetricSnapshot | MsgErrorResponse

record request_control =
  rqc_typeMessage :: NodeControlMessageType
  rqc_strRequestId :: string

definition mkRequestControl :: "request_control \<Rightarrow> request_control result" where
  "mkRequestControl rqc =
     (if rqc_typeMessage rqc \<noteq> MsgPing \<and> rqc_typeMessage rqc \<noteq> MsgPong \<and> rqc_typeMessage rqc \<noteq> MsgStatusRequest
         \<and> rqc_typeMessage rqc \<noteq> MsgAbnormalEventSnapshotRequest \<and> rqc_typeMessage rqc \<noteq> MsgMetricSnapshotRequest
      then Inl (InvalidArgument ''Request control details contain an unsupported type'')
      else andThen (controlText (rqc_strRequestId rqc) ''Control request ID'' False) (\<lambda>_. Inr rqc))"

record status_response =
  srs_strRequestId :: string
  srs_strNodeName :: string
  srs_bSenderRunning :: bool
  srs_bReceiverRunning :: bool
  srs_u64TimestampMilliseconds :: u64

definition mkStatusResponse :: "status_response \<Rightarrow> status_response result" where
  "mkStatusResponse srs =
     andThen (controlText (srs_strRequestId srs) ''Control request ID'' False) (\<lambda>_.
     andThen (controlText (srs_strNodeName srs) ''Node name'' False) (\<lambda>_. Inr srs))"

record error_response =
  ers_strRequestId :: string
  ers_strErrorCode :: string
  ers_strMessage :: string

definition mkErrorResponse :: "error_response \<Rightarrow> error_response result" where
  "mkErrorResponse ers =
     andThen (controlText (ers_strRequestId ers) ''Control request ID'' True) (\<lambda>_.
     andThen (controlText (ers_strErrorCode ers) ''Control error code'' False) (\<lambda>_.
     andThen (controlText (ers_strMessage ers) ''Control error message'' False) (\<lambda>_. Inr ers)))"

datatype control_message =
    ClientHelloMessage TcpClientRole
  | RequestMessage request_control
  | StatusResponseMessage status_response
  | SenderConfigMessage sender_config
  | ReceiverContextsMessage receiver_contexts_control
  | TextPayloadMessage text_payload_control
  | UploadBeginMessage upload_begin_control
  | UploadEndMessage upload_end_control
  | ConfigAckMessage config_ack
  | FaultMessage fault_control
  | MappingMessage attack_source_mapping_control
  | ExperimentAckMessage experiment_ack
  | RoundCommandMessage round_command
  | RoundAckMessage round_ack
  | RoundResultMessage round_result
  | PacketEventMessage packet_observation
  | FailureEventMessage packet_failure
  | GroupEventMessage group_observation
  | DosEventMessage dos_summary
  | MetricEventMessage "metric_record list"
  | AbnormalSnapshotMessage abnormal_snapshot
  | MetricSnapshotMessage metric_snapshot
  | ErrorMessage error_response

fun commandType :: "AuthenticationRoundCommand \<Rightarrow> NodeControlMessageType" where
  "commandType CommandStart = MsgRoundStart"
| "commandType CommandPause = MsgRoundPause"
| "commandType CommandResume = MsgRoundResume"
| "commandType CommandStop = MsgRoundStop"

fun typeMessage :: "control_message \<Rightarrow> NodeControlMessageType" where
  "typeMessage (ClientHelloMessage _) = MsgClientHello"
| "typeMessage (RequestMessage rqc) = rqc_typeMessage rqc"
| "typeMessage (StatusResponseMessage _) = MsgStatusResponse"
| "typeMessage (SenderConfigMessage _) = MsgSenderAuthenticationConfig"
| "typeMessage (ReceiverContextsMessage _) = MsgReceiverAuthenticationContexts"
| "typeMessage (TextPayloadMessage _) = MsgTextPayloadConfig"
| "typeMessage (UploadBeginMessage _) = MsgFileUploadBegin"
| "typeMessage (UploadEndMessage _) = MsgFileUploadEnd"
| "typeMessage (ConfigAckMessage _) = MsgAuthenticationConfigAcknowledgement"
| "typeMessage (FaultMessage _) = MsgFaultInjectionConfig"
| "typeMessage (MappingMessage _) = MsgAttackSourceMapping"
| "typeMessage (ExperimentAckMessage _) = MsgExperimentControlAcknowledgement"
| "typeMessage (RoundCommandMessage cmd) = commandType (cmd_cmdCommand cmd)"
| "typeMessage (RoundAckMessage _) = MsgRoundCommandAcknowledgement"
| "typeMessage (RoundResultMessage _) = MsgRoundResult"
| "typeMessage (PacketEventMessage _) = MsgPacketObservationEvent"
| "typeMessage (FailureEventMessage _) = MsgPacketFailureEvent"
| "typeMessage (GroupEventMessage _) = MsgImprovedGroupObservationEvent"
| "typeMessage (DosEventMessage _) = MsgDosSummaryEvent"
| "typeMessage (MetricEventMessage _) = MsgMetricEvent"
| "typeMessage (AbnormalSnapshotMessage _) = MsgAbnormalEventSnapshot"
| "typeMessage (MetricSnapshotMessage _) = MsgMetricSnapshot"
| "typeMessage (ErrorMessage _) = MsgErrorResponse"

section \<open>The hexadecimal codec\<close>

definition u8DecodeHexCharacter :: "char \<Rightarrow> byte result" where
  "u8DecodeHexCharacter ch =
     (let c = of_char ch :: nat in
      if 48 \<le> c \<and> c \<le> 57 then Inr (of_nat (c - 48))
      else if 97 \<le> c \<and> c \<le> 102 then Inr (of_nat (c - 97 + 10))
      else if 65 \<le> c \<and> c \<le> 70 then Inr (of_nat (c - 65 + 10))
      else Inl (InvalidArgument ''Authentication hex value contains an invalid character''))"

definition strEncodeBytes :: "byte list \<Rightarrow> string" where
  "strEncodeBytes vecBytes =
     concat (map (\<lambda>b. [''0123456789abcdef'' ! unat (drop_bit 4 b AND 0x0F),
       ''0123456789abcdef'' ! unat (b AND 0x0F)]) vecBytes)"

definition strEncodeChainId :: "u64 \<Rightarrow> string" where
  "strEncodeChainId u64ChainId =
     strEncodeBytes (map (\<lambda>nIndex. ucast (drop_bit ((8 - 1 - nIndex) * 8) u64ChainId)) [0..<8])"

fun hexLoop :: "string \<Rightarrow> u64 \<Rightarrow> u64 result" where
  "hexLoop [] u64Result = Inr u64Result"
| "hexLoop (ch # chs) u64Result =
     andThen (u8DecodeHexCharacter ch) (\<lambda>d. hexLoop chs (push_bit 4 u64Result OR ucast d))"

definition u64DecodeHexChainId :: "string \<Rightarrow> u64 result" where
  "u64DecodeHexChainId strChainId =
     (if length strChainId \<noteq> 16
      then Inl (InvalidArgument ''Authentication chain ID must contain 16 hex characters'')
      else hexLoop strChainId 0)"

definition strEncodeBlock :: "block \<Rightarrow> string" where
  "strEncodeBlock arrBlock = strEncodeBytes (block_bytes arrBlock)"

fun hexPairs :: "string \<Rightarrow> byte list result" where
  "hexPairs (hi # lo # chs) =
     andThen (u8DecodeHexCharacter hi) (\<lambda>u8High.
     andThen (u8DecodeHexCharacter lo) (\<lambda>u8Low.
     andThen (hexPairs chs) (\<lambda>rest. Inr ((push_bit 4 u8High OR u8Low) # rest))))"
| "hexPairs _ = Inr []"

definition arrDecodeBlock :: "string \<Rightarrow> block result" where
  "arrDecodeBlock strBlock =
     (if length strBlock \<noteq> 64
      then Inl (InvalidArgument ''Authentication binary block must contain exactly 64 hex characters'')
      else andThen (hexPairs strBlock) (\<lambda>bs. Inr (block_of bs)))"

end
