(* ===== verification/ControlCodec.thy ===== *)
theory ControlCodec
  imports ControlValues
begin

text \<open>
  The hexadecimal codec of \<open>AuthenticationControl.cpp\<close> is exact: what the encoders write is read back, in
  either letter case, and nothing that is not the right number of hexadecimal digits is accepted.
\<close>

section \<open>Digits\<close>

lemma hex_digit:
  assumes "n < 16"
  shows "u8DecodeHexCharacter (''0123456789abcdef'' ! n) = Inr (of_nat n)"
proof -
  have "list_all (\<lambda>n. u8DecodeHexCharacter (''0123456789abcdef'' ! n) = Inr (of_nat n)) [0..<16]" by code_simp
  with assms show ?thesis by (simp add: list_all_iff)
qed

lemma low_nibble: "b AND 0x0F = take_bit 4 (b :: byte)"
  by (simp add: take_bit_eq_mask mask_eq_exp_minus_1)

lemma nibble_less: "unat (take_bit 4 b :: byte) < 16"
  using take_bit_nat_less_exp [of 4 "unat b"] by (simp add: unsigned_take_bit_eq)

lemma nibbles: "push_bit 4 (take_bit 4 (drop_bit 4 b)) OR take_bit 4 b = (b :: byte)"
  by (rule bit_word_eqI) (auto simp: bit_simps)

lemma decoded_nibble: "u8DecodeHexCharacter (''0123456789abcdef'' ! unat (take_bit 4 b :: byte)) = Inr (take_bit 4 b)"
  using hex_digit [OF nibble_less [of b]] by simp

section \<open>Blocks\<close>

lemma strEncodeBytes_Cons [simp]:
  "strEncodeBytes [] = []"
  "strEncodeBytes (b # bs) = ''0123456789abcdef'' ! unat (take_bit 4 (drop_bit 4 b))
     # ''0123456789abcdef'' ! unat (take_bit 4 b) # strEncodeBytes bs"
  by (simp_all add: strEncodeBytes_def low_nibble)

lemma strEncodeBytes_length: "length (strEncodeBytes bs) = 2 * length bs"
  by (induction bs) simp_all

lemma hexPairs_encoded: "hexPairs (strEncodeBytes bs) = Inr bs"
  by (induction bs) (simp_all only: strEncodeBytes_Cons hexPairs.simps decoded_nibble andThen_simps nibbles)

lemma block_hex_round_trip: "arrDecodeBlock (strEncodeBlock b) = Inr b"
  by (simp add: arrDecodeBlock_def strEncodeBlock_def strEncodeBytes_length hexPairs_encoded)

section \<open>Chain identifiers\<close>

lemma hexLoop_append: "hexLoop (xs @ ys) u = andThen (hexLoop xs u) (hexLoop ys)"
  by (induction xs arbitrary: u) (auto simp: andThen_def split: sum.splits)

lemma nibbles_u64: "push_bit 4 (push_bit 4 u OR ucast (take_bit 4 (drop_bit 4 b))) OR ucast (take_bit 4 b)
    = (push_bit 8 u OR ucast (b :: byte) :: u64)"
  by (rule bit_word_eqI) (auto simp: bit_simps dest: bit_imp_le_length)

lemma hexLoop_encoded: "hexLoop (strEncodeBytes bs) u = Inr (fold (\<lambda>b u. push_bit 8 u OR ucast b) bs u)"
proof (induction bs arbitrary: u)
  case (Cons b bs)
  then show ?case
    by (simp only: strEncodeBytes_Cons hexLoop.simps decoded_nibble andThen_simps nibbles_u64 fold.simps o_def)
qed simp

lemma next_byte: "push_bit 8 (drop_bit (m + 8) x) OR ucast (ucast (drop_bit m x) :: byte) = (drop_bit m x :: u64)"
  by (rule bit_word_eqI) (auto simp: bit_simps)

lemma leading_bytes:
  "k \<le> 8 \<Longrightarrow> fold (\<lambda>b u. push_bit 8 u OR ucast b) (map (\<lambda>n. ucast (drop_bit ((8 - 1 - n) * 8) x) :: byte) [0..<k]) 0
    = (drop_bit ((8 - k) * 8) x :: u64)"
proof (induction k)
  case 0
  show ?case by (rule bit_word_eqI) (auto simp: bit_simps dest: bit_imp_le_length)
next
  case (Suc k)
  have "(8 - k) * 8 = (8 - 1 - k) * 8 + 8" "(8 - Suc k) * 8 = (8 - 1 - k) * 8" using Suc.prems by auto
  with Suc next_byte show ?case by simp
qed

lemma chain_id_hex_round_trip: "u64DecodeHexChainId (strEncodeChainId x) = Inr x"
  using leading_bytes [of 8 x]
  by (simp only: u64DecodeHexChainId_def strEncodeChainId_def strEncodeBytes_length hexLoop_encoded length_map length_upt) simp

end
