(* ===== verification/NodeRuntime.thy ===== *)
theory NodeRuntime
  imports ControlValues ObservationStore SenderHistories RuntimeInvariants
begin

text \<open>
  The node, \<open>AuthenticationNodeRuntime.cpp\<close>: the control messages a management client sends, turned into
  calls of the sender and of the receiver runtime, and the callbacks of the two, turned into observations,
  metrics and result messages. A handler runs in one step. \<open>nd_out\<close> is what the node's own callbacks are
  given; the datagrams are in the sender's log. The receiver's metric records arrive as steps of their
  own, with any content.
\<close>

section \<open>Members\<close>

record archive_context =
  arch_cfgConfiguration :: archive_configuration
  arch_strConfiguredFault :: string
  arch_strConfiguredFaultValue :: string
  arch_u64RandomSeed :: u64

datatype node_event =
    NodeControl control_message
  | NodeObservation observation
  | NodeKeyChain key_chain_observation
  | NodeMetric metric_record
  | NodeRecoveredFile string string u64 "byte list"

record node_runtime =
  nd_optSenderContext :: "sender_context option"
  nd_mapArchiveContexts :: "string \<times> u64 \<rightharpoonup> archive_context"
  nd_stoObservations :: observation_store
  nd_stoMetrics :: metric_store
  nd_runSender :: sender_runtime
  nd_runReceiver :: receiver_runtime
  nd_bTerminated :: bool
  nd_out :: "node_event list"

text \<open>What the node is built with.\<close>

record 'g node_env =
  ne_ssl :: "'g openssl"
  ne_shuffle :: shuffle
  ne_strNodeName :: string
  ne_strLocalIpAddress :: string
  ne_strGitCommit :: string
  ne_bRecoveredFile :: bool
  ne_bObserve :: bool
  ne_bKeyChain :: bool
  ne_bMetrics :: bool

text \<open>What a step is given: the clocks and the datagram callback's answer, the answers of the time
  synchronization and of the recovered file callback, and the generation time \<open>configure\<close> measures.\<close>

record node_tick =
  nt_tick :: sender_tick
  nt_stsTime :: time_synchronization
  nt_bPersisted :: bool
  nt_durWorstGeneration :: int

abbreviation nt_u64Now :: "node_tick \<Rightarrow> u64" where
  "nt_u64Now tick \<equiv> tk_u64Now (nt_tick tick)"

text \<open>The runtimes are given the node's callbacks, so all of them are there.\<close>

definition ne_sender :: "'g node_env \<Rightarrow> 'g sender_env" where
  "ne_sender env = \<lparr>se_ssl = ne_ssl env, se_shuffle = ne_shuffle env, se_bObserve = True, se_bKeyChain = True,
     se_bMetrics = True, se_strLocalIpAddress = ne_strLocalIpAddress env\<rparr>"

definition ne_receiver :: "'g node_env \<Rightarrow> node_tick \<Rightarrow> 'g runtime_env" where
  "ne_receiver env tick = \<lparr>env_ssl = ne_ssl env, env_bObserve = True, env_u64Now = nt_u64Now tick\<rparr>"

definition mkNodeRuntime :: "'g node_env \<Rightarrow> node_runtime result" where
  "mkNodeRuntime env =
     (if ne_strNodeName env = []
      then Inl (InvalidArgument ''Authentication node runtime requires identity and callbacks'')
      else andThen (mkObservationStore 5000 2000 512 120) (\<lambda>sto. andThen (mkMetricStore 8192) (\<lambda>mts.
        Inr \<lparr>nd_optSenderContext = None, nd_mapArchiveContexts = Map.empty, nd_stoObservations = sto,
          nd_stoMetrics = mts, nd_runSender = sender_initial, nd_runReceiver = new_receiver_runtime,
          nd_bTerminated = False, nd_out = []\<rparr>)))"

text \<open>\<open>try { m } catch (const std::exception& e) { h e }\<close>\<close>

definition catchWith :: "('s, 'a) act \<Rightarrow> (exn \<Rightarrow> ('s, 'a) act) \<Rightarrow> ('s, 'a) act" where
  "catchWith m h s = (case m s of (Inl e, s') \<Rightarrow> h e s' | (Inr x, s') \<Rightarrow> (Inr x, s'))"

definition nodeEvent :: "node_event \<Rightarrow> node_runtime \<Rightarrow> node_runtime" where
  "nodeEvent ev nd = nd\<lparr>nd_out := nd_out nd @ [ev]\<rparr>"

section \<open>Mapping control values\<close>

fun strCryptoAlgorithm :: "CryptoAlgorithm \<Rightarrow> string" where
  "strCryptoAlgorithm Sha256 = ''SHA-256''"
| "strCryptoAlgorithm Sm3 = ''SM3''"
| "strCryptoAlgorithm Sha3_256 = ''SHA3-256''"

definition cfgArchive :: "round_parameters \<Rightarrow> archive_configuration result" where
  "cfgArchive prm = mkRoundArchiveConfiguration
     \<lparr>cfg_modeAuthentication = (if prm_modeAuthentication prm = ModeNative then MetricNative else MetricImproved),
      cfg_strCryptoAlgorithm = strCryptoAlgorithm (prm_algCryptoAlgorithm prm), cfg_strPayloadHash = [],
      cfg_u32PacketCount = prm_u32TotalPacketCount prm, cfg_u32PacketsPerInterval = prm_u32PacketsPerInterval prm,
      cfg_u32IntervalMilliseconds = prm_u32IntervalMilliseconds prm,
      cfg_u32DisclosureDelay = prm_u32DisclosureDelay prm,
      cfg_u32GroupSize = (case prm_optImprovedParameters prm of None \<Rightarrow> 0 | Some imp \<Rightarrow> imp_u32GroupSize imp),
      cfg_u32DetectionThreshold =
        (case prm_optImprovedParameters prm of None \<Rightarrow> 0 | Some imp \<Rightarrow> imp_u32DetectionThreshold imp)\<rparr>"

definition cfgWithPayloadHash :: "archive_configuration \<Rightarrow> string \<Rightarrow> archive_configuration result" where
  "cfgWithPayloadHash cfg strPayloadHash = mkRoundArchiveConfiguration (cfg\<lparr>cfg_strPayloadHash := strPayloadHash\<rparr>)"

definition strPayloadSha256 :: "'g openssl \<Rightarrow> byte list \<Rightarrow> string result" where
  "strPayloadSha256 ssl vecPayload = andThen (OpenSsl_digHash ssl Sha256 vecPayload) (\<lambda>dig. Inr (strHex (block_bytes dig)))"

fun strArchiveStatus :: "AuthenticationRuntimeResultStatus \<Rightarrow> string" where
  "strArchiveStatus Completed = ''COMPLETED''"
| "strArchiveStatus AuthenticationFailed = ''AUTHENTICATION_FAILED''"
| "strArchiveStatus VerificationTimeout = ''VERIFICATION_TIMEOUT''"
| "strArchiveStatus InvalidSchedulingOverrun = ''INVALID_SCHEDULING_OVERRUN''"
| "strArchiveStatus Stopped = ''STOPPED''"
| "strArchiveStatus ProtocolIncomplete = ''PROTOCOL_INCOMPLETE''"
| "strArchiveStatus TimeUnsynchronized = ''TIME_UNSYNCHRONIZED''"

definition bValidArchiveSample :: "AuthenticationRuntimeResultStatus \<Rightarrow> bool" where
  "bValidArchiveSample statusResult = (statusResult = Completed \<or> statusResult = AuthenticationFailed)"

definition strU32 :: "u32 \<Rightarrow> string" where "strU32 u32Value = strDecimal (unat u32Value)"

definition strExperimentId :: "archive_configuration \<Rightarrow> string" where
  "strExperimentId cfg =
     ''tesla-'' @ (if cfg_modeAuthentication cfg = MetricNative then ''native'' else ''improved'')
       @ ''-'' @ cfg_strCryptoAlgorithm cfg @ ''-p'' @ strU32 (cfg_u32PacketCount cfg)
       @ ''-ppi'' @ strU32 (cfg_u32PacketsPerInterval cfg) @ ''-i'' @ strU32 (cfg_u32IntervalMilliseconds cfg)
       @ ''-d'' @ strU32 (cfg_u32DisclosureDelay cfg) @ ''-g'' @ strU32 (cfg_u32GroupSize cfg)
       @ ''-t'' @ strU32 (cfg_u32DetectionThreshold cfg)"

fun node_algMap :: "AuthenticationCryptoAlgorithm \<Rightarrow> CryptoAlgorithm" where
  "node_algMap AlgSha256 = Sha256"
| "node_algMap AlgSm3 = Sm3"
| "node_algMap AlgSha3_256 = Sha3_256"

definition node_modeMap :: "UdpAuthenticationMode \<Rightarrow> TeslaAuthenticationMode" where
  "node_modeMap modeControl = (if modeControl = Native then ModeNative else ModeImproved)"

definition node_modePayloadMap :: "PayloadControlMode \<Rightarrow> AuthenticationPayloadMode" where
  "node_modePayloadMap modeControl = (if modeControl = ControlText then PayloadText else PayloadFile)"

definition mapImproved :: "improved_control option \<Rightarrow> improved_parameters option result" where
  "mapImproved optControl =
     (case optControl of
        None \<Rightarrow> Inr None
      | Some imc \<Rightarrow> andThen (mkImprovedTeslaParameters (imc_u32GroupSize imc) (imc_u32DetectionThreshold imc))
          (\<lambda>imp. Inr (Some imp)))"

definition prmMap :: "round_control \<Rightarrow> round_parameters result" where
  "prmMap rpc =
     andThen (mapImproved (rpc_optImprovedParameters rpc)) (\<lambda>optImproved.
     andThen (mkRoundParameters (node_algMap (rpc_algCryptoAlgorithm rpc)) (node_modeMap (rpc_modeAuthentication rpc))
        (rpc_u32TotalPacketCount rpc) (rpc_u32PacketsPerInterval rpc) (rpc_u32DisclosureDelay rpc)
        (rpc_u32IntervalMilliseconds rpc) (rpc_u64StartTimestampMilliseconds rpc) optImproved
        (node_modePayloadMap (rpc_modePayload rpc))) (\<lambda>prm.
       if u32ChainLength prm \<noteq> rpc_u32ChainLength rpc
       then Inl (InvalidArgument ''Configured key-chain length does not match packet schedule'')
       else Inr prm))"

fun varMapReceiverPayload :: "receiver_payload_control \<Rightarrow> receiver_payload result" where
  "varMapReceiverPayload (TextReceiverControl u32RepeatCount) = mkTextReceiverPayloadDetails u32RepeatCount"
| "varMapReceiverPayload (FileReceiverControl u64OriginalByteCount) = mkFileReceiverPayloadDetails u64OriginalByteCount"

fun statusMap :: "AuthenticationRuntimeResultStatus \<Rightarrow> AuthenticationRoundResultStatus" where
  "statusMap Completed = RoundCompleted"
| "statusMap AuthenticationFailed = RoundAuthenticationFailed"
| "statusMap VerificationTimeout = RoundVerificationTimeout"
| "statusMap InvalidSchedulingOverrun = RoundInvalidSchedulingOverrun"
| "statusMap Stopped = RoundStopped"
| "statusMap ProtocolIncomplete = RoundProtocolIncomplete"
| "statusMap TimeUnsynchronized = RoundTimeUnsynchronized"

definition msgConfigAcknowledgement :: "string \<Rightarrow> AuthenticationConfigTarget \<Rightarrow> bool \<Rightarrow> string \<Rightarrow> string
    \<Rightarrow> control_message result" where
  "msgConfigAcknowledgement strRequestId targetConfig bAccepted strErrorCode strMessage =
     andThen (mkConfigAcknowledgement \<lparr>cak_strRequestId = strRequestId, cak_targetConfig = targetConfig,
       cak_bAccepted = bAccepted, cak_strErrorCode = strErrorCode, cak_strMessage = strMessage\<rparr>)
       (\<lambda>cak. Inr (ConfigAckMessage cak))"

definition msgRoundAcknowledgement :: "round_command \<Rightarrow> bool \<Rightarrow> string \<Rightarrow> string \<Rightarrow> control_message result" where
  "msgRoundAcknowledgement cmd bAccepted strErrorCode strMessage =
     andThen (mkRoundAcknowledgement \<lparr>rak_strRequestId = cmd_strRequestId cmd, rak_strRoundId = cmd_strRoundId cmd,
       rak_cmdCommand = cmd_cmdCommand cmd, rak_bAccepted = bAccepted, rak_strErrorCode = strErrorCode,
       rak_strMessage = strMessage\<rparr>) (\<lambda>rak. Inr (RoundAckMessage rak))"

definition msgExperimentAcknowledgement :: "string \<Rightarrow> string \<Rightarrow> bool \<Rightarrow> string \<Rightarrow> string \<Rightarrow> control_message result" where
  "msgExperimentAcknowledgement strRequestId strRoundId bAccepted strErrorCode strMessage =
     andThen (mkExperimentAcknowledgement \<lparr>eak_strRequestId = strRequestId, eak_strRoundId = strRoundId,
       eak_bAccepted = bAccepted, eak_strErrorCode = strErrorCode, eak_strMessage = strMessage\<rparr>)
       (\<lambda>eak. Inr (ExperimentAckMessage eak))"

section \<open>What the runtimes report\<close>

definition processObservation :: "'g node_env \<Rightarrow> u64 \<Rightarrow> observation \<Rightarrow> node_runtime \<Rightarrow> node_runtime" where
  "processObservation env u64Now ob nd =
     (case resAppend u64Now ob (nd_stoObservations nd) of
        (Inl _, sto) \<Rightarrow> nd\<lparr>nd_stoObservations := sto\<rparr>
      | (Inr _, sto) \<Rightarrow>
          let nd = nd\<lparr>nd_stoObservations := sto\<rparr> in
          if ne_bObserve env then nodeEvent (NodeObservation ob) nd else nd)"

definition processLocalKeyChainObservation :: "'g node_env \<Rightarrow> key_chain_observation \<Rightarrow> node_runtime \<Rightarrow> node_runtime"
where
  "processLocalKeyChainObservation env ob nd = (if ne_bKeyChain env then nodeEvent (NodeKeyChain ob) nd else nd)"

definition processMetric :: "'g node_env \<Rightarrow> metric_record \<Rightarrow> node_runtime \<Rightarrow> node_runtime" where
  "processMetric env varMetric nd =
     (let nd = nd\<lparr>nd_stoMetrics := snd (mts_bAppend varMetric (nd_stoMetrics nd))\<rparr> in
      if ne_bMetrics env then nodeEvent (NodeMetric varMetric) nd else nd)"

text \<open>The newest energy summary of the result's round.\<close>

fun energyOf :: "metric_record \<Rightarrow> energy_summary option" where
  "energyOf (EnergyRecord en) = Some en"
| "energyOf _ = None"

definition findEnergy :: "runtime_result \<Rightarrow> metric_record list \<Rightarrow> energy_summary option" where
  "findEnergy res vecMetrics =
     find (\<lambda>en. en_strRoundId en = res_strRoundId res \<and> en_strSenderId en = res_strSenderId res
            \<and> en_u64ChainId en = res_u64ChainId res) (List.map_filter energyOf (rev vecMetrics))"

fun fallbackGroups :: "round_details \<Rightarrow> u32" where
  "fallbackGroups (NativeRoundDetails _) = 0"
| "fallbackGroups (ImprovedRoundDetails _ u32FallbackGroupCount _) = u32FallbackGroupCount"

fun senderFileSize :: "result_details \<Rightarrow> u64" where
  "senderFileSize (FileSenderResultDetails u64OriginalByteCount) = u64OriginalByteCount"
| "senderFileSize _ = 0"

fun receiverFileSizes :: "result_details \<Rightarrow> u64 \<times> u64" where
  "receiverFileSizes (FileReceiverResultDetails u64OriginalByteCount vecRecovered _) =
     (u64OriginalByteCount, of_nat (length vecRecovered))"
| "receiverFileSizes _ = (0, 0)"

fun recoveredFileHash :: "result_details \<Rightarrow> string" where
  "recoveredFileHash (FileReceiverResultDetails _ _ (Some arrSha256)) = strEncodeBlock arrSha256"
| "recoveredFileHash _ = []"

text \<open>The hash of what was received takes the place of the hash of what was configured.\<close>

fun cfgReceived :: "'g openssl \<Rightarrow> archive_configuration \<Rightarrow> result_details \<Rightarrow> archive_configuration result" where
  "cfgReceived ssl cfg (TextResultDetails strText) =
     (if strText = [] then Inr cfg
      else andThen (strPayloadSha256 ssl (strBytes strText)) (\<lambda>strHash. cfgWithPayloadHash cfg strHash))"
| "cfgReceived ssl cfg det =
     (if recoveredFileHash det = [] then Inr cfg else cfgWithPayloadHash cfg (recoveredFileHash det))"

definition senderArchive :: "archive_context \<Rightarrow> runtime_result \<Rightarrow> archive_details result" where
  "senderArchive arch res =
     andThen (mkSenderRoundArchiveDetails
       \<lparr>sar_u32SentPacketCount = res_u32ReceivedPacketCount res, sar_strConfiguredFault = arch_strConfiguredFault arch,
        sar_strConfiguredFaultValue = arch_strConfiguredFaultValue arch, sar_u64RandomSeed = arch_u64RandomSeed arch,
        sar_u64FileSize = senderFileSize (res_varResultDetails res)\<rparr>) (\<lambda>sar. Inr (SenderArchive sar))"

definition receiverArchive :: "energy_summary option \<Rightarrow> runtime_result \<Rightarrow> archive_details result" where
  "receiverArchive optEnergy res =
     andThen (mkReceiverRoundArchiveDetails
       \<lparr>rar_u32ReceivedPacketCount = res_u32ReceivedPacketCount res,
        rar_u32AuthenticatedPacketCount = res_u32AuthenticatedPacketCount res,
        rar_u32FailedPacketCount = res_u32FailedPacketCount res,
        rar_u32MissingPacketCount = res_u32MissingPacketCount res,
        rar_u32FallbackGroupCount = (case optEnergy of None \<Rightarrow> 0 | Some en \<Rightarrow> fallbackGroups (en_varDetails en)),
        rar_u64VerifyTimeNanoseconds = (case optEnergy of None \<Rightarrow> 0 | Some en \<Rightarrow> en_u64VerifyTimeNanoseconds en),
        rar_u64ReceivedAuthBytes = (case optEnergy of None \<Rightarrow> 0 | Some en \<Rightarrow> en_u64ReceivedAuthBytes en),
        rar_dEstimatedEnergyMicroJoule =
          (case optEnergy of None \<Rightarrow> 0 | Some en \<Rightarrow> en_dEstimatedEnergyMicroJoule en),
        rar_u64FileSize = fst (receiverFileSizes (res_varResultDetails res)),
        rar_u64RecoveredFileSize = snd (receiverFileSizes (res_varResultDetails res)),
        rar_strRecoveredFileHash = recoveredFileHash (res_varResultDetails res)\<rparr>) (\<lambda>rar. Inr (ReceiverArchive rar))"

definition roundArchive :: "'g node_env \<Rightarrow> u64 \<Rightarrow> archive_context \<Rightarrow> runtime_result \<Rightarrow> archive_configuration \<Rightarrow> bool
    \<Rightarrow> string \<Rightarrow> archive_details \<Rightarrow> archive_summary result" where
  "roundArchive env u64Now arch res cfgFinal bValidSample strInvalidReason varDetails = mkRoundArchiveSummary
     \<lparr>arc_u64TimestampMilliseconds = u64Now, arc_strExperimentId = strExperimentId (arch_cfgConfiguration arch),
      arc_strRunId = res_strRoundId res, arc_strGitCommit = ne_strGitCommit env, arc_strNodeId = ne_strNodeName env,
      arc_strSenderId = res_strSenderId res, arc_u64ChainId = res_u64ChainId res, arc_cfgConfiguration = cfgFinal,
      arc_strRoundStatus = strArchiveStatus (res_statusResult res), arc_bValidSample = bValidSample,
      arc_strInvalidReason = strInvalidReason, arc_varDetails = varDetails\<rparr>"

definition optCreateArchive :: "'g node_env \<Rightarrow> u64 \<Rightarrow> runtime_result \<Rightarrow> AuthenticationRoundResultRole \<Rightarrow> node_runtime
    \<Rightarrow> archive_summary result" where
  "optCreateArchive env u64Now res roleResult nd =
     (case nd_mapArchiveContexts nd (res_strSenderId res, res_u64ChainId res) of
        None \<Rightarrow> Inl (LogicError ''Round archive configuration is missing'')
      | Some arch \<Rightarrow>
          let bValid = bValidArchiveSample (res_statusResult res);
              strReason = (if bValid then [] else res_strMessage res) in
          if roleResult = RoleSender
          then andThen (senderArchive arch res) (\<lambda>varDetails.
                 roundArchive env u64Now arch res (arch_cfgConfiguration arch) bValid strReason varDetails)
          else let optEnergy = findEnergy res (mts_vecSnapshot (nd_stoMetrics nd)) in
               andThen (cfgReceived (ne_ssl env) (arch_cfgConfiguration arch) (res_varResultDetails res)) (\<lambda>cfgFinal.
               andThen (receiverArchive optEnergy res) (\<lambda>varDetails.
                 if optEnergy = None
                 then roundArchive env u64Now arch res cfgFinal False ''METRIC_SUMMARY_UNAVAILABLE'' varDetails
                 else roundArchive env u64Now arch res cfgFinal bValid strReason varDetails)))"

text \<open>A recovered file is handed over to be stored; when that fails the round is reported as incomplete.\<close>

definition storeRecovered :: "'g node_env \<Rightarrow> node_tick \<Rightarrow> runtime_result \<Rightarrow> byte list
    \<Rightarrow> (node_runtime, AuthenticationRoundResultStatus \<times> string) act" where
  "storeRecovered env tick res vecRecovered =
     (if res_statusResult res \<noteq> Completed then retA (statusMap (res_statusResult res), res_strMessage res)
      else thenA (whenA (ne_bRecoveredFile env) (modifyA (nodeEvent
             (NodeRecoveredFile (res_strRoundId res) (res_strSenderId res) (res_u64ChainId res) vecRecovered))))
        (retA (if ne_bRecoveredFile env \<and> nt_bPersisted tick
          then (statusMap (res_statusResult res), res_strMessage res)
          else (RoundProtocolIncomplete, ''Receiver authenticated the file but atomic persistence failed''))))"

fun mapResultDetails :: "'g node_env \<Rightarrow> node_tick \<Rightarrow> runtime_result \<Rightarrow> result_details
    \<Rightarrow> (node_runtime, AuthenticationRoundResultStatus \<times> string \<times> round_result_details) act" where
  "mapResultDetails env tick res (TextResultDetails strText) =
     bindA (liftA (mkTextRoundResult strText)) (\<lambda>det. retA (statusMap (res_statusResult res), res_strMessage res, det))"
| "mapResultDetails env tick res (FileSenderResultDetails u64Count) =
     bindA (liftA (mkFileSenderRoundResult u64Count)) (\<lambda>det.
       retA (statusMap (res_statusResult res), res_strMessage res, det))"
| "mapResultDetails env tick res (FileReceiverResultDetails u64Count vecRecovered optSha256) =
     bindA (storeRecovered env tick res vecRecovered) (\<lambda>(status, strMessage).
     bindA (liftA (mkFileReceiverRoundResult u64Count (of_nat (length vecRecovered)) optSha256)) (\<lambda>det.
       retA (status, strMessage, det)))"

definition emitArchive :: "'g node_env \<Rightarrow> u64 \<Rightarrow> runtime_result \<Rightarrow> AuthenticationRoundResultRole \<Rightarrow> node_runtime
    \<Rightarrow> node_runtime" where
  "emitArchive env u64Now res roleResult nd =
     (case optCreateArchive env u64Now res roleResult nd of
        Inl _ \<Rightarrow> nd
      | Inr arc \<Rightarrow> processMetric env (ArchiveRecord arc) nd)"

definition roundResultMessage :: "runtime_result \<Rightarrow> AuthenticationRoundResultRole \<Rightarrow> AuthenticationRoundResultStatus
    \<Rightarrow> string \<Rightarrow> round_result_details \<Rightarrow> control_message result" where
  "roundResultMessage res roleResult status strMessage det =
     andThen (mkRoundResult
       \<lparr>rrc_strRoundId = res_strRoundId res, rrc_strSenderId = res_strSenderId res, rrc_u64ChainId = res_u64ChainId res,
        rrc_roleResult = roleResult, rrc_statusResult = status,
        rrc_u32ExpectedPacketCount = res_u32ExpectedPacketCount res,
        rrc_u32ReceivedPacketCount = res_u32ReceivedPacketCount res,
        rrc_u32AuthenticatedPacketCount = res_u32AuthenticatedPacketCount res,
        rrc_u32FailedPacketCount = res_u32FailedPacketCount res,
        rrc_u32MissingPacketCount = res_u32MissingPacketCount res, rrc_varResultDetails = det,
        rrc_strMessage = strMessage\<rparr>) (\<lambda>rrc. Inr (RoundResultMessage rrc))"

definition node_emitResult :: "'g node_env \<Rightarrow> node_tick \<Rightarrow> AuthenticationRoundResultRole \<Rightarrow> runtime_result \<Rightarrow> node_runtime
    \<Rightarrow> node_runtime" where
  "node_emitResult env tick roleResult res nd = snd (catchA
     (bindA (mapResultDetails env tick res (res_varResultDetails res)) (\<lambda>(status, strMessage, det).
      thenA (modifyA (emitArchive env (nt_u64Now tick) res roleResult))
      (bindA (liftA (roundResultMessage res roleResult status strMessage det)) (\<lambda>msg.
        modifyA (nodeEvent (NodeControl msg))))))
     (retA ()) nd)"

text \<open>The callbacks of the sender, in the order of its log.\<close>

fun senderCallback :: "'g node_env \<Rightarrow> node_tick \<Rightarrow> sender_event \<Rightarrow> node_runtime \<Rightarrow> node_runtime" where
  "senderCallback env tick (EvObservation ob) = processObservation env (nt_u64Now tick) ob"
| "senderCallback env tick (EvKeyChain ob) = processLocalKeyChainObservation env ob"
| "senderCallback env tick (EvMetric cs) = processMetric env (CostRecord cs)"
| "senderCallback env tick (EvResult res) = node_emitResult env tick RoleSender res"
| "senderCallback env tick _ = id"

definition senderCall :: "'g node_env \<Rightarrow> node_tick \<Rightarrow> sender_op \<Rightarrow> (node_runtime, unit) act" where
  "senderCall env tick op nd =
     (case sender_call (ne_sender env) (nt_tick tick, op) (nd_runSender nd) of (r, run) \<Rightarrow>
        (r, fold (senderCallback env tick) (drop (length (sn_out (nd_runSender nd))) (sn_out run))
              (nd\<lparr>nd_runSender := run\<rparr>)))"

definition receiverCall :: "'g node_env \<Rightarrow> node_tick \<Rightarrow> (receiver_runtime, 'a) act \<Rightarrow> (node_runtime, 'a) act" where
  "receiverCall env tick m = zoomA nd_runReceiver (\<lambda>run nd. nd\<lparr>nd_runReceiver := run\<rparr>) m"

text \<open>\<open>stop()\<close> is \<open>noexcept\<close>, and a throw out of the worker's function ends the process too.\<close>

definition receiverStop :: "'g node_env \<Rightarrow> node_tick \<Rightarrow> (node_runtime, unit) act" where
  "receiverStop env tick =
     catchWith (bindA (receiverCall env tick (stopRuntime True)) (\<lambda>vecResults.
       modifyA (fold (node_emitResult env tick RoleReceiver) vecResults)))
     (\<lambda>_. modifyA (\<lambda>nd. nd\<lparr>nd_bTerminated := True\<rparr>))"

definition receiverWork :: "'g node_env \<Rightarrow> node_tick \<Rightarrow> (node_runtime, unit) act" where
  "receiverWork env tick =
     catchWith (bindA (receiverCall env tick (workerStep (ne_receiver env tick))) (\<lambda>(vecObservations, vecResults).
       thenA (modifyA (fold (processObservation env (nt_u64Now tick)) vecObservations))
         (modifyA (fold (node_emitResult env tick RoleReceiver) vecResults))))
     (\<lambda>_. modifyA (\<lambda>nd. nd\<lparr>nd_bTerminated := True\<rparr>))"

section \<open>Configuration messages\<close>

definition setArchive :: "string \<times> u64 \<Rightarrow> archive_context \<Rightarrow> node_runtime \<Rightarrow> node_runtime" where
  "setArchive key arch nd = nd\<lparr>nd_mapArchiveContexts := (nd_mapArchiveContexts nd)(key \<mapsto> arch)\<rparr>"

definition ctxCandidate :: "'g node_env \<Rightarrow> sender_config \<Rightarrow> sender_context result" where
  "ctxCandidate env scf =
     andThen (prmMap (scf_prmRoundParameters scf)) (\<lambda>prm.
     andThen (mkSenderMaterial (scf_strSenderId scf) (scf_u64ChainId scf) (block_bytes (scf_arrChainSeed scf))
        (scf_arrCommitmentKey scf) prm) (\<lambda>mat.
       ctxCreateVerified mat (OpenSslCryptoProvider (ne_ssl env) (prm_algCryptoAlgorithm prm))))"

text \<open>The node keeps one chain of its own: the archives of its other chains go.\<close>

definition installSenderContext :: "sender_config \<Rightarrow> sender_context \<Rightarrow> archive_configuration \<Rightarrow> node_runtime \<Rightarrow> node_runtime"
where
  "installSenderContext scf ctx cfg nd =
     setArchive (scf_strSenderId scf, scf_u64ChainId scf)
       \<lparr>arch_cfgConfiguration = cfg, arch_strConfiguredFault = ''NONE'', arch_strConfiguredFaultValue = [],
        arch_u64RandomSeed = 0\<rparr>
       (nd\<lparr>nd_optSenderContext := Some ctx,
           nd_mapArchiveContexts := (\<lambda>(strSenderId, u64ChainId).
             if strSenderId = scf_strSenderId scf \<and> u64ChainId \<noteq> scf_u64ChainId scf then None
             else nd_mapArchiveContexts nd (strSenderId, u64ChainId))\<rparr>)"

definition msgApplySenderConfig :: "'g node_env \<Rightarrow> node_tick \<Rightarrow> sender_config \<Rightarrow> (node_runtime, control_message) act" where
  "msgApplySenderConfig env tick scf = catchWith
     (bindA (getA nd_runSender) (\<lambda>run.
        if sn_bRunning run
        then throwA (LogicError ''Sender configuration cannot change during an active round'')
        else if scf_strSenderId scf \<noteq> ne_strNodeName env
        then throwA (InvalidArgument ''Sender authentication configuration targets another node'')
        else bindA (liftA (ctxCandidate env scf)) (\<lambda>ctx.
          bindA (liftA (cfgArchive (snd_prm ctx))) (\<lambda>cfg.
          thenA (senderCall env tick SnResetConfiguration)
          (thenA (modifyA (installSenderContext scf ctx cfg))
          (liftA (msgConfigAcknowledgement (scf_strRequestId scf) TargetSender True []
             ''Sender authentication configuration accepted'')))))))
     (\<lambda>e. liftA (msgConfigAcknowledgement (scf_strRequestId scf) TargetSender False ''INVALID_AUTH_CONFIG'' (exn_what e)))"

definition ctxReceiver :: "receiver_context_control \<Rightarrow> receiver_context result" where
  "ctxReceiver rcc =
     andThen (prmMap (rcc_prmRoundParameters rcc)) (\<lambda>prm.
     andThen (varMapReceiverPayload (rcc_varPayloadDetails rcc)) (\<lambda>varPayload.
       mkReceiverContext (rcc_strSenderId rcc) (rcc_strSenderIpAddress rcc) (rcc_u64ChainId rcc)
         (rcc_arrCommitmentKey rcc) prm varPayload))"

text \<open>One turn of the loop: the context and its archive.\<close>

definition receiverContextArchive :: "receiver_context_control \<Rightarrow> (receiver_context \<times> (string \<times> u64) \<times> archive_context) result"
where
  "receiverContextArchive rcc =
     andThen (ctxReceiver rcc) (\<lambda>ctx.
     andThen (cfgArchive (rcv_prmRoundParameters ctx)) (\<lambda>cfg.
       Inr (ctx, (rcc_strSenderId rcc, rcc_u64ChainId rcc),
         \<lparr>arch_cfgConfiguration = cfg, arch_strConfiguredFault = ''NOT_DISTRIBUTED'',
          arch_strConfiguredFaultValue = [], arch_u64RandomSeed = 0\<rparr>)))"

text \<open>The archives that stay are those configured now and the one of the node's own chain.\<close>

definition installReceiverArchives :: "((string \<times> u64) \<times> archive_context) list \<Rightarrow> node_runtime \<Rightarrow> node_runtime" where
  "installReceiverArchives vecArchives nd =
     (let setActive = set (map fst vecArchives) \<union> (case nd_optSenderContext nd of
            None \<Rightarrow> {}
          | Some ctx \<Rightarrow> {(mat_strSenderId (snd_matMaterial ctx), mat_u64ChainId (snd_matMaterial ctx))})
      in fold (\<lambda>(key, arch). setArchive key arch) vecArchives
           (nd\<lparr>nd_mapArchiveContexts :=
              (\<lambda>key. if key \<in> setActive then nd_mapArchiveContexts nd key else None)\<rparr>))"

definition msgApplyReceiverConfig :: "'g node_env \<Rightarrow> node_tick \<Rightarrow> receiver_contexts_control
    \<Rightarrow> (node_runtime, control_message) act" where
  "msgApplyReceiverConfig env tick rcs = catchWith
     (bindA (getA nd_runReceiver) (\<lambda>run.
        if rt_bRunning run
        then throwA (LogicError ''Receiver configuration cannot change during an active round'')
        else bindA (liftA (mapE receiverContextArchive (rcs_vecContexts rcs))) (\<lambda>vec.
          thenA (receiverCall env tick (configure (map fst vec)))
          (thenA (modifyA (installReceiverArchives (map snd vec)))
          (liftA (msgConfigAcknowledgement (rcs_strRequestId rcs) TargetReceiver True []
             ''Receiver authentication contexts accepted''))))))
     (\<lambda>e. liftA (msgConfigAcknowledgement (rcs_strRequestId rcs) TargetReceiver False ''INVALID_AUTH_CONFIG'' (exn_what e)))"

text \<open>The archive of the node's own chain, where there is one, with the hash of the payload.\<close>

definition hashArchive :: "sender_context \<Rightarrow> string result \<Rightarrow> (node_runtime, unit) act" where
  "hashArchive ctx resHash =
     (let key = (mat_strSenderId (snd_matMaterial ctx), mat_u64ChainId (snd_matMaterial ctx)) in
      bindA (getA (\<lambda>nd. nd_mapArchiveContexts nd key)) (\<lambda>optArchive.
        case optArchive of
          None \<Rightarrow> retA ()
        | Some arch \<Rightarrow>
            bindA (liftA (andThen resHash (cfgWithPayloadHash (arch_cfgConfiguration arch)))) (\<lambda>cfg.
              modifyA (setArchive key (arch\<lparr>arch_cfgConfiguration := cfg\<rparr>)))))"

definition msgApplyTextPayload :: "'g node_env \<Rightarrow> node_tick \<Rightarrow> text_payload_control \<Rightarrow> (node_runtime, control_message) act"
where
  "msgApplyTextPayload env tick tpc = catchWith
     (bindA (getA nd_optSenderContext) (\<lambda>optContext.
        case optContext of
          None \<Rightarrow> throwA (LogicError ''Sender authentication configuration is missing'')
        | Some ctx \<Rightarrow>
            if mat_u64ChainId (snd_matMaterial ctx) \<noteq> tpc_u64ChainId tpc
            then throwA (InvalidArgument ''Text payload chain ID does not match the sender context'')
            else bindA (liftA (andThen (mkTextPayload (tpc_strUtf8Text tpc)) (\<lambda>pld.
                   mkTextWorkload pld (prm_u32TotalPacketCount (snd_prm ctx))))) (\<lambda>wrk.
              thenA (senderCall env tick (SnConfigure ctx (TextSenderWorkload wrk) (nt_durWorstGeneration tick)))
              (thenA (hashArchive ctx (strPayloadSha256 (ne_ssl env) (strBytes (tpc_strUtf8Text tpc))))
              (liftA (msgConfigAcknowledgement (tpc_strRequestId tpc) TargetTextPayload True []
                 ''Text payload accepted and sender schedule prepared''))))))
     (\<lambda>e. liftA (msgConfigAcknowledgement (tpc_strRequestId tpc) TargetTextPayload False ''INVALID_TEXT_PAYLOAD''
        (exn_what e)))"

definition msgApplyFilePayload :: "'g node_env \<Rightarrow> node_tick \<Rightarrow> TcpClientRole \<Rightarrow> string \<Rightarrow> u64 \<Rightarrow> file_workload
    \<Rightarrow> (node_runtime, control_message) act" where
  "msgApplyFilePayload env tick roleClient strRequestId u64ChainId wrkFile =
     (if roleClient = MonitorClient
      then liftA (msgConfigAcknowledgement strRequestId TargetFilePayload False ''MONITOR_FILE_FORBIDDEN''
        ''Monitor clients cannot upload authentication files'')
      else catchWith
     (bindA (getA nd_optSenderContext) (\<lambda>optContext.
        case optContext of
          None \<Rightarrow> throwA (LogicError ''Sender authentication configuration is missing'')
        | Some ctx \<Rightarrow>
            if mat_u64ChainId (snd_matMaterial ctx) \<noteq> u64ChainId
            then throwA (InvalidArgument ''File payload chain ID does not match the sender context'')
            else if prm_modePayload (snd_prm ctx) \<noteq> PayloadFile
               \<or> m_u32FilePacketCount wrkFile \<noteq> prm_u32TotalPacketCount (snd_prm ctx)
            then throwA (InvalidArgument ''File payload size does not match the sender configuration'')
            else bindA (liftA (strPayloadSha256 (ne_ssl env) (m_vecFileBytes wrkFile))) (\<lambda>strHash.
              thenA (senderCall env tick (SnConfigure ctx (FileSenderWorkload wrkFile) (nt_durWorstGeneration tick)))
              (thenA (hashArchive ctx (Inr strHash))
              (liftA (msgConfigAcknowledgement strRequestId TargetFilePayload True []
                 ''File payload accepted and sender schedule prepared''))))))
     (\<lambda>e. liftA (msgConfigAcknowledgement strRequestId TargetFilePayload False ''INVALID_FILE_PAYLOAD'' (exn_what e))))"

fun faultArchive :: "fault_details \<Rightarrow> archive_context \<Rightarrow> archive_context" where
  "faultArchive (PacketLossFault det) arch = arch\<lparr>arch_strConfiguredFault := ''PACKET_LOSS'',
     arch_strConfiguredFaultValue := ''rate='' @ strDouble (loss_dLossRatePercent det) @ '';protectedGroup=''
       @ strU32 (loss_u32ProtectedGroupSize det), arch_u64RandomSeed := loss_u64RandomSeed det\<rparr>"
| "faultArchive (LogicalDisconnectFault det) arch = arch\<lparr>arch_strConfiguredFault := ''LOGICAL_DISCONNECT'',
     arch_strConfiguredFaultValue := ''startPacket='' @ strU32 (dis_u32StartPacketIndex det) @ '';durationMs=''
       @ strU32 (dis_u32DurationMilliseconds det) @ '';protectedGroup='' @ strU32 (dis_u32ProtectedGroupSize det),
     arch_u64RandomSeed := 0\<rparr>"
| "faultArchive (FixedDelayFault u32DelayMilliseconds) arch = arch\<lparr>arch_strConfiguredFault := ''FIXED_DELAY'',
     arch_strConfiguredFaultValue := ''delayMs='' @ strU32 u32DelayMilliseconds, arch_u64RandomSeed := 0\<rparr>"

definition msgApplyFault :: "'g node_env \<Rightarrow> node_tick \<Rightarrow> fault_control \<Rightarrow> (node_runtime, control_message) act" where
  "msgApplyFault env tick fcd = catchWith
     (bindA (getA id) (\<lambda>nd.
        case nd_optSenderContext nd of
          None \<Rightarrow> throwA (LogicError ''Fault plan requires a prepared sender payload'')
        | Some ctx \<Rightarrow>
            if \<not> sn_bConfigured (nd_runSender nd)
            then throwA (LogicError ''Fault plan requires a prepared sender payload'')
            else if fcd_strTargetSenderId fcd \<noteq> mat_strSenderId (snd_matMaterial ctx)
               \<or> fcd_u64ChainId fcd \<noteq> mat_u64ChainId (snd_matMaterial ctx)
            then throwA (InvalidArgument ''Fault plan does not target this sender context'')
            else thenA (senderCall env tick (SnConfigureFault (fcd_varFaultDetails fcd)))
              (thenA (modifyA (\<lambda>nd.
                 case nd_mapArchiveContexts nd (fcd_strTargetSenderId fcd, fcd_u64ChainId fcd) of
                   None \<Rightarrow> nd
                 | Some arch \<Rightarrow> setArchive (fcd_strTargetSenderId fcd, fcd_u64ChainId fcd)
                     (faultArchive (fcd_varFaultDetails fcd) arch) nd))
              (liftA (msgExperimentAcknowledgement (fcd_strRequestId fcd) (fcd_strRoundId fcd) True []
                 ''Authentication fault plan accepted'')))))
     (\<lambda>e. liftA (msgExperimentAcknowledgement (fcd_strRequestId fcd) (fcd_strRoundId fcd) False ''FAULT_PLAN_REJECTED''
        (exn_what e)))"

definition msgApplyAttackSourceMapping :: "'g node_env \<Rightarrow> node_tick \<Rightarrow> attack_source_mapping_control
    \<Rightarrow> (node_runtime, control_message) act" where
  "msgApplyAttackSourceMapping env tick asc = catchWith
     (thenA (receiverCall env tick (applyAttackSourceMapping (ne_receiver env tick) asc))
       (liftA (msgExperimentAcknowledgement (asc_strRequestId asc) (asc_strRoundId asc) True []
          (if asc_actAction asc = InstallMapping then ''Temporary attack source mapping installed''
           else ''Temporary attack source mapping cleared''))))
     (\<lambda>e. liftA (msgExperimentAcknowledgement (asc_strRequestId asc) (asc_strRoundId asc) False
        ''ATTACK_SOURCE_MAPPING_REJECTED'' (exn_what e)))"

section \<open>Round commands\<close>

definition node_beginRound :: "string \<Rightarrow> (node_runtime, unit) act" where
  "node_beginRound strRoundId =
     zoomA nd_stoObservations (\<lambda>sto nd. nd\<lparr>nd_stoObservations := sto\<rparr>) (sto_beginRound strRoundId)"

text \<open>A start with the clock synchronized: the receiver first, then the sender, as far as they are configured.\<close>

definition startRound :: "'g node_env \<Rightarrow> node_tick \<Rightarrow> round_command \<Rightarrow> (node_runtime, unit) act" where
  "startRound env tick cmd =
     bindA (getA id) (\<lambda>nd.
       if \<not> rt_bConfigured (nd_runReceiver nd) \<and> \<not> sn_bConfigured (nd_runSender nd)
       then throwA (LogicError ''Node has no prepared sender or receiver context'')
       else thenA (node_beginRound (cmd_strRoundId cmd))
         (thenA (whenA (rt_bConfigured (nd_runReceiver nd)) (receiverCall env tick
            (startRuntime (ne_receiver env tick) (cmd_strRoundId cmd) (cmd_u64ExecutionTimestampMilliseconds cmd)
              (m_u32ToleranceMilliseconds (nt_stsTime tick)))))
         (whenA (sn_bConfigured (nd_runSender nd)) (senderCall env tick
            (SnStart (cmd_strRoundId cmd) (cmd_u64ExecutionTimestampMilliseconds cmd))))))"

definition pauseRound :: "'g node_env \<Rightarrow> node_tick \<Rightarrow> round_command \<Rightarrow> (node_runtime, unit) act" where
  "pauseRound env tick cmd =
     bindA (getA id) (\<lambda>nd.
       thenA (whenA (sn_bRunning (nd_runSender nd)) (senderCall env tick
          (SnRequestPause (cmd_strRoundId cmd) (cmd_u32LogicalIntervalIndex cmd)
            (cmd_u64ExecutionTimestampMilliseconds cmd))))
       (whenA (rt_bRunning (nd_runReceiver nd)) (receiverCall env tick
          (requestPause (ne_receiver env tick) (cmd_strRoundId cmd) (cmd_u32LogicalIntervalIndex cmd)
            (cmd_u64ExecutionTimestampMilliseconds cmd)))))"

definition resumeRound :: "'g node_env \<Rightarrow> node_tick \<Rightarrow> round_command \<Rightarrow> (node_runtime, unit) act" where
  "resumeRound env tick cmd =
     bindA (getA id) (\<lambda>nd.
       thenA (whenA (sn_bRunning (nd_runSender nd)) (senderCall env tick
          (SnResume (cmd_strRoundId cmd) (cmd_u32LogicalIntervalIndex cmd)
            (cmd_u64ExecutionTimestampMilliseconds cmd))))
       (whenA (rt_bRunning (nd_runReceiver nd)) (receiverCall env tick
          (resume (ne_receiver env tick) (cmd_strRoundId cmd) (cmd_u32LogicalIntervalIndex cmd)
            (cmd_u64ExecutionTimestampMilliseconds cmd)))))"

definition node_stop :: "'g node_env \<Rightarrow> node_tick \<Rightarrow> (node_runtime, unit) act" where
  "node_stop env tick = thenA (senderCall env tick SnStop) (receiverStop env tick)"

fun commandRound :: "'g node_env \<Rightarrow> node_tick \<Rightarrow> round_command \<Rightarrow> AuthenticationRoundCommand \<Rightarrow> (node_runtime, unit) act"
where
  "commandRound env tick cmd CommandStart = startRound env tick cmd"
| "commandRound env tick cmd CommandPause = pauseRound env tick cmd"
| "commandRound env tick cmd CommandResume = resumeRound env tick cmd"
| "commandRound env tick cmd CommandStop = thenA (node_stop env tick) (senderCall env tick SnClearFault)"

definition msgApplyRoundCommand :: "'g node_env \<Rightarrow> node_tick \<Rightarrow> round_command \<Rightarrow> (node_runtime, control_message) act"
where
  "msgApplyRoundCommand env tick cmd = catchWith
     (if cmd_cmdCommand cmd = CommandStart \<and> \<not> m_bSynchronized (nt_stsTime tick)
      then liftA (msgRoundAcknowledgement cmd False ''TIME_UNSYNCHRONIZED'' (m_strSynchronizationMessage (nt_stsTime tick)))
      else thenA (commandRound env tick cmd (cmd_cmdCommand cmd))
        (liftA (msgRoundAcknowledgement cmd True [] ''Authentication round command accepted'')))
     (\<lambda>e. thenA (whenA (cmd_cmdCommand cmd = CommandStart) (node_stop env tick))
        (liftA (msgRoundAcknowledgement cmd False ''ROUND_COMMAND_REJECTED'' (exn_what e))))"

section \<open>The interface\<close>

definition bIsMutationMessage :: "NodeControlMessageType \<Rightarrow> bool" where
  "bIsMutationMessage typeMsg \<longleftrightarrow> typeMsg \<in> {MsgSenderAuthenticationConfig, MsgReceiverAuthenticationContexts,
     MsgTextPayloadConfig, MsgFaultInjectionConfig, MsgAttackSourceMapping, MsgRoundStart, MsgRoundPause,
     MsgRoundResume, MsgRoundStop}"

text \<open>What a monitor's message is answered with; the last case is \<open>std::get\<close> on the details of a round command.\<close>

fun monitorAnswer :: "control_message \<Rightarrow> control_message result" where
  "monitorAnswer (SenderConfigMessage scf) =
     msgConfigAcknowledgement (scf_strRequestId scf) TargetSender False ''MONITOR_CONFIG_FORBIDDEN''
       ''Monitor clients cannot change sender authentication state''"
| "monitorAnswer (ReceiverContextsMessage rcs) =
     msgConfigAcknowledgement (rcs_strRequestId rcs) TargetReceiver False ''MONITOR_CONFIG_FORBIDDEN''
       ''Monitor clients cannot change receiver authentication state''"
| "monitorAnswer (TextPayloadMessage tpc) =
     msgConfigAcknowledgement (tpc_strRequestId tpc) TargetTextPayload False ''MONITOR_CONFIG_FORBIDDEN''
       ''Monitor clients cannot change the authentication payload''"
| "monitorAnswer (RoundCommandMessage cmd) =
     msgRoundAcknowledgement cmd False ''MONITOR_CONTROL_FORBIDDEN''
       ''Monitor clients cannot control authentication rounds''"
| "monitorAnswer _ = Inl (BadVariantAccess ''std::get: wrong index for variant'')"

definition unsupportedControl :: "control_message result" where
  "unsupportedControl =
     andThen (mkErrorResponse \<lparr>ers_strRequestId = [], ers_strErrorCode = ''UNSUPPORTED_AUTH_CONTROL'',
       ers_strMessage = ''Authentication runtime received an unsupported control message''\<rparr>)
       (\<lambda>ers. Inr (ErrorMessage ers))"

fun applyControl :: "'g node_env \<Rightarrow> node_tick \<Rightarrow> control_message \<Rightarrow> (node_runtime, control_message) act" where
  "applyControl env tick (SenderConfigMessage scf) = msgApplySenderConfig env tick scf"
| "applyControl env tick (ReceiverContextsMessage rcs) = msgApplyReceiverConfig env tick rcs"
| "applyControl env tick (TextPayloadMessage tpc) = msgApplyTextPayload env tick tpc"
| "applyControl env tick (FaultMessage fcd) = msgApplyFault env tick fcd"
| "applyControl env tick (MappingMessage asc) = msgApplyAttackSourceMapping env tick asc"
| "applyControl env tick (RoundCommandMessage cmd) = msgApplyRoundCommand env tick cmd"
| "applyControl env tick _ = liftA unsupportedControl"

definition msgHandleControl :: "'g node_env \<Rightarrow> node_tick \<Rightarrow> TcpClientRole \<Rightarrow> control_message
    \<Rightarrow> (node_runtime, control_message) act" where
  "msgHandleControl env tick roleClient msg =
     (if bIsMutationMessage (typeMessage msg) \<and> roleClient = MonitorClient then liftA (monitorAnswer msg)
      else applyControl env tick msg)"

definition bHandleDatagram :: "'g node_env \<Rightarrow> node_tick \<Rightarrow> string \<Rightarrow> byte list \<Rightarrow> u64 \<Rightarrow> (node_runtime, bool) act" where
  "bHandleDatagram env tick strSourceIp vecDatagram u64Timestamp =
     receiverCall env tick (bEnqueueDatagram (ne_receiver env tick) strSourceIp vecDatagram u64Timestamp)"

definition bHasSenderContext :: "node_runtime \<Rightarrow> bool" where
  "bHasSenderContext nd = (nd_optSenderContext nd \<noteq> None)"

definition optSenderChainId :: "node_runtime \<Rightarrow> u64 option" where
  "optSenderChainId nd = map_option (\<lambda>ctx. mat_u64ChainId (snd_matMaterial ctx)) (nd_optSenderContext nd)"

definition bSenderRunning :: "node_runtime \<Rightarrow> bool" where "bSenderRunning nd = sn_bRunning (nd_runSender nd)"

definition bReceiverRoundRunning :: "node_runtime \<Rightarrow> bool" where
  "bReceiverRoundRunning nd = rt_bRunning (nd_runReceiver nd)"

definition bRoundPaused :: "node_runtime \<Rightarrow> bool" where
  "bRoundPaused nd = (sn_bPaused (nd_runSender nd) \<or> rt_bPaused (nd_runReceiver nd))"

definition nReceiverContextCount :: "node_runtime \<Rightarrow> nat" where
  "nReceiverContextCount nd = length (rt_mapStates (nd_runReceiver nd))"

definition resFindReceiverContext :: "node_runtime \<Rightarrow> string \<Rightarrow> u64 \<Rightarrow> lookup_error + receiver_context" where
  "resFindReceiverContext nd strSourceIp u64ChainId = rt_resFindContext (nd_runReceiver nd) strSourceIp u64ChainId"

definition nDroppedReceiverQueueDatagramCount :: "node_runtime \<Rightarrow> nat" where
  "nDroppedReceiverQueueDatagramCount nd = rt_nDroppedQueueDatagramCount (nd_runReceiver nd)"

definition vecPacketObservationSnapshot :: "node_runtime \<Rightarrow> packet_observation list" where
  "vecPacketObservationSnapshot nd = vecPacketSnapshot (nd_stoObservations nd)"

definition vecFailureObservationSnapshot :: "node_runtime \<Rightarrow> packet_failure list" where
  "vecFailureObservationSnapshot nd = vecFailureSnapshot (nd_stoObservations nd)"

definition vecAbnormalPacketObservationSnapshot :: "node_runtime \<Rightarrow> packet_observation list" where
  "vecAbnormalPacketObservationSnapshot nd = vecAbnormalPacketSnapshot (nd_stoObservations nd)"

definition vecGroupObservationSnapshot :: "node_runtime \<Rightarrow> group_observation list" where
  "vecGroupObservationSnapshot nd = sto_deqGroups (nd_stoObservations nd)"

definition vecDosSummarySnapshot :: "node_runtime \<Rightarrow> dos_summary list" where
  "vecDosSummarySnapshot nd = sto_deqDosSummaries (nd_stoObservations nd)"

definition vecMetricSnapshot :: "node_runtime \<Rightarrow> metric_record list" where
  "vecMetricSnapshot nd = mts_vecSnapshot (nd_stoMetrics nd)"

text \<open>A history of the node: its interface, the steps of the two workers, the receiver's metric records.
  A process that has terminated does nothing.\<close>

datatype node_op =
    NodeMessage TcpClientRole control_message
  | NodeFilePayload TcpClientRole string u64 file_workload
  | NodeDatagram string "byte list" u64
  | NodeStop
  | NodeSenderWork
  | NodeReceiverWork
  | NodeReceiverMetric metric_record

fun node_op_act :: "'g node_env \<Rightarrow> node_tick \<Rightarrow> node_op \<Rightarrow> (node_runtime, control_message option) act" where
  "node_op_act env tick (NodeMessage roleClient msg) = bindA (msgHandleControl env tick roleClient msg) (\<lambda>m. retA (Some m))"
| "node_op_act env tick (NodeFilePayload roleClient strRequestId u64ChainId wrk) =
     bindA (msgApplyFilePayload env tick roleClient strRequestId u64ChainId wrk) (\<lambda>m. retA (Some m))"
| "node_op_act env tick (NodeDatagram strSourceIp vecDatagram u64Timestamp) =
     thenA (bHandleDatagram env tick strSourceIp vecDatagram u64Timestamp) (retA None)"
| "node_op_act env tick NodeStop = thenA (node_stop env tick) (retA None)"
| "node_op_act env tick NodeSenderWork = thenA (senderCall env tick SnWorker) (retA None)"
| "node_op_act env tick NodeReceiverWork = thenA (receiverWork env tick) (retA None)"
| "node_op_act env tick (NodeReceiverMetric varMetric) = thenA (modifyA (processMetric env varMetric)) (retA None)"

definition node_step :: "'g node_env \<Rightarrow> node_tick \<times> node_op \<Rightarrow> (node_runtime, control_message option) act" where
  "node_step env = (\<lambda>(tick, op) nd.
     if nd_bTerminated nd \<or> sn_pc (nd_runSender nd) = PcTerminated then (Inr None, nd) else node_op_act env tick op nd)"

end
