(* ===== verification/NodeTheorems.thy ===== *)
theory NodeTheorems
  imports NodeRuntime SenderRounds ReceiverTheorems ObservationStoreTheorems
begin

text \<open>
  What a node guarantees over any history of messages, datagrams and steps of its two workers. The node
  reaches its runtimes through calls with built arguments only, so what is proved of the histories of a
  sender and of a receiver runtime holds of those inside a node.
\<close>

section \<open>The callbacks leave the runtimes alone\<close>

definition sameRuntimes :: "node_runtime \<Rightarrow> node_runtime \<Rightarrow> bool" where
  "sameRuntimes s t \<longleftrightarrow> nd_runSender t = nd_runSender s \<and> nd_runReceiver t = nd_runReceiver s
     \<and> nd_optSenderContext t = nd_optSenderContext s \<and> nd_bTerminated t = nd_bTerminated s"

interpretation same: members_relation sameRuntimes
  by unfold_locales (auto simp: sameRuntimes_def)

lemma sameRuntimes_basic [simp]:
  "sameRuntimes s (nodeEvent ev s)" "sameRuntimes s (s\<lparr>nd_stoObservations := sto\<rparr>)"
  "sameRuntimes s (s\<lparr>nd_stoMetrics := mts\<rparr>)" "sameRuntimes s (s\<lparr>nd_mapArchiveContexts := m\<rparr>)"
  "sameRuntimes s (setArchive key arch s)"
  by (simp_all add: sameRuntimes_def nodeEvent_def setArchive_def)

lemma same_then: "sameRuntimes s t \<Longrightarrow> sameRuntimes t u \<Longrightarrow> sameRuntimes s u"
  by (rule same.rel_trans)

lemma same_processObservation [simp]: "sameRuntimes s (processObservation env t ob s)"
  by (auto simp: processObservation_def sameRuntimes_def nodeEvent_def Let_def split: prod.split sum.split)

lemma same_processMetric [simp]: "sameRuntimes s (processMetric env r s)"
  by (simp add: processMetric_def sameRuntimes_def nodeEvent_def Let_def)

lemma same_keyChain [simp]: "sameRuntimes s (processLocalKeyChainObservation env ob s)"
  by (simp add: processLocalKeyChainObservation_def same.rel_refl)

lemma same_emitArchive [simp]: "sameRuntimes s (emitArchive env t res role s)"
  by (auto simp: emitArchive_def same.rel_refl split: sum.split)

lemma same_mapResultDetails: "sameRuntimes s (snd (mapResultDetails env tick res det s))"
  by (cases det)
    (auto simp: storeRecovered_def intro!: same.bind same.seq same.lift same.ret same.cond same.modify split: prod.split)

lemma same_emitResult [simp]: "sameRuntimes s (node_emitResult env tick role res s)"
  unfolding node_emitResult_def
  by (intro same.catch same.bind same.seq)
    (auto intro!: same_mapResultDetails same.bind same.seq same.lift same.ret same.modify split: prod.split)

lemma same_senderCallback [simp]: "sameRuntimes s (senderCallback env tick ev s)"
  by (cases ev) (simp_all add: same.rel_refl)

lemma same_fold:
  assumes "\<And>x s. sameRuntimes s (f x s)"
  shows "sameRuntimes s (fold f xs s)"
proof (induction xs arbitrary: s)
  case Nil
  then show ?case by (simp add: same.rel_refl)
next
  case (Cons x xs)
  then show ?case using assms by (auto intro: same_then)
qed

lemma sameRuntimesD:
  "sameRuntimes s t \<Longrightarrow> nd_runSender t = nd_runSender s" "sameRuntimes s t \<Longrightarrow> nd_runReceiver t = nd_runReceiver s"
  "sameRuntimes s t \<Longrightarrow> nd_optSenderContext t = nd_optSenderContext s"
  "sameRuntimes s t \<Longrightarrow> nd_bTerminated t = nd_bTerminated s"
  by (simp_all add: sameRuntimes_def)

text \<open>What a call of a runtime does to the members.\<close>

lemma senderCall_members:
  assumes "senderCall env tick op nd = (r, nd')"
  shows "sender_call (ne_sender env) (nt_tick tick, op) (nd_runSender nd) = (r, nd_runSender nd')"
    "nd_runReceiver nd' = nd_runReceiver nd" "nd_optSenderContext nd' = nd_optSenderContext nd"
    "nd_bTerminated nd' = nd_bTerminated nd"
proof -
  obtain r' run where c: "sender_call (ne_sender env) (nt_tick tick, op) (nd_runSender nd) = (r', run)" by fastforce
  have "sameRuntimes (nd\<lparr>nd_runSender := run\<rparr>) nd'" and r: "r = r'"
    using assms by (auto simp: senderCall_def c intro!: same_fold)
  from sameRuntimesD [OF this(1)] c r
  show "sender_call (ne_sender env) (nt_tick tick, op) (nd_runSender nd) = (r, nd_runSender nd')"
    "nd_runReceiver nd' = nd_runReceiver nd" "nd_optSenderContext nd' = nd_optSenderContext nd"
    "nd_bTerminated nd' = nd_bTerminated nd"
    by simp_all
qed

lemma receiverCall_members:
  assumes "receiverCall env tick m nd = (r, nd')"
  shows "m (nd_runReceiver nd) = (r, nd_runReceiver nd')" "nd_runSender nd' = nd_runSender nd"
    "nd_optSenderContext nd' = nd_optSenderContext nd" "nd_bTerminated nd' = nd_bTerminated nd"
  using assms by (auto simp: receiverCall_def zoomA_def split: prod.splits)

section \<open>The calls a node makes of its runtimes\<close>

definition verifiedContext :: "node_runtime \<Rightarrow> bool" where
  "verifiedContext nd \<longleftrightarrow> (\<forall>ctx. nd_optSenderContext nd = Some ctx \<longrightarrow> built_sender ctx)
     \<and> (sn_optSenderContext (nd_runSender nd) = None
        \<or> sn_optSenderContext (nd_runSender nd) = nd_optSenderContext nd)"

definition senderPath :: "'g node_env \<Rightarrow> sender_runtime \<Rightarrow> sender_runtime \<Rightarrow> bool" where
  "senderPath env s t \<longleftrightarrow>
     (\<exists>calls. list_all (built_sender_op \<circ> snd) calls \<and> t = run_sender (ne_sender env) calls s)"

definition receiverPath :: "'g node_env \<Rightarrow> receiver_runtime \<Rightarrow> receiver_runtime \<Rightarrow> bool" where
  "receiverPath env s t \<longleftrightarrow>
     (\<exists>calls. list_all (built_op \<circ> snd) calls \<and> t = run_ops (timed_step (ne_ssl env) True) calls s)"

definition nodePath :: "'g node_env \<Rightarrow> node_runtime \<Rightarrow> node_runtime \<Rightarrow> bool" where
  "nodePath env s t \<longleftrightarrow> verifiedContext s \<longrightarrow> verifiedContext t
     \<and> senderPath env (nd_runSender s) (nd_runSender t) \<and> receiverPath env (nd_runReceiver s) (nd_runReceiver t)"

lemma senderPath_refl [simp]: "senderPath env s s"
  unfolding senderPath_def by (rule exI [of _ "[]"]) (simp add: run_sender_def)

lemma receiverPath_refl [simp]: "receiverPath env s s"
  unfolding receiverPath_def by (rule exI [of _ "[]"]) simp

lemma senderPath_trans: "senderPath env s t \<Longrightarrow> senderPath env t u \<Longrightarrow> senderPath env s u"
  unfolding senderPath_def run_sender_def by (metis list_all_append run_ops_append)

lemma receiverPath_trans: "receiverPath env s t \<Longrightarrow> receiverPath env t u \<Longrightarrow> receiverPath env s u"
  unfolding receiverPath_def by (metis list_all_append run_ops_append)

interpretation path: members_relation "nodePath env" for env
  by unfold_locales (auto simp: nodePath_def intro: senderPath_trans receiverPath_trans)

lemma senderPath_call: "built_sender_op op \<Longrightarrow> senderPath env s (snd (sender_call (ne_sender env) (tick, op) s))"
  unfolding senderPath_def by (rule exI [of _ "[(tick, op)]"]) simp

lemma receiverPath_call:
  "built_op op \<Longrightarrow> receiverPath env s (snd (runtime_step (ne_receiver env tick) op s))"
  unfolding receiverPath_def
  by (rule exI [of _ "[(nt_u64Now tick, op)]"]) (simp add: timed_step_def ne_receiver_def)

lemma path_same: "sameRuntimes s t \<Longrightarrow> nodePath env s t"
  by (simp add: nodePath_def verifiedContext_def sameRuntimes_def)

text \<open>A call of the sender keeps its context, unless it configures one or resets it.\<close>

lemma call_context:
  assumes "sender_call env (tick, op) rt = (r, rt')"
  shows "sn_optSenderContext rt' \<in> {None, sn_optSenderContext rt}
    \<union> (case op of SnConfigure ctx _ _ \<Rightarrow> {Some ctx} | _ \<Rightarrow> {})"
proof (cases "in_sender_round op")
  case True
  from call_in_round [OF True, of rt env tick] assms sameRound_stop [of rt env tick True] sameRound_step [of rt env tick]
  show ?thesis by (auto simp: sameWorker_def sameRound_def sender_call_def act_simps)
next
  case False
  then consider (conf) ctx load g where "op = SnConfigure ctx load g" | (reset) "op = SnResetConfiguration"
    | (start) r t where "op = SnStart r t" by (cases op) auto
  then show ?thesis
  proof cases
    case conf
    with assms sameRound_stop [of rt env tick False] show ?thesis
      by (auto simp: sender_call_def sn_configure_def act_simps liftA_then sameRound_def emitLocalKeyChainObservation_def
          split: sum.splits prod.splits if_splits)
  next
    case reset
    with assms show ?thesis by (auto simp: sender_call_def sn_resetConfiguration_def act_simps)
  next
    case start
    let ?s = "stopSender env tick False rt"
    have "sameRound ?s (snd (renewFaultPolicy env (beginRound r t ?s)))" for r t
      by (auto simp: renewFaultPolicy_def beginRound_def liftA_then act_simps sameRound_def split: option.split sum.split)
    with start assms sameRound_stop [of rt env tick False] show ?thesis
      by (auto simp: sender_call_def sn_start_def act_simps thenA_def bindA_cases goto_def sameRound_def
          split: sum.splits if_splits)
  qed
qed

lemma path_senderCall:
  assumes "built_sender_op op" "\<And>ctx load g. op = SnConfigure ctx load g \<Longrightarrow> nd_optSenderContext nd = Some ctx"
  shows "nodePath env nd (snd (senderCall env tick op nd))"
proof -
  obtain r nd' where c: "senderCall env tick op nd = (r, nd')" by fastforce
  note M = senderCall_members [OF c]
  have "senderPath env (nd_runSender nd) (nd_runSender nd')"
    using senderPath_call [OF assms(1), of env "nd_runSender nd" "nt_tick tick"] M(1) by simp
  moreover have "verifiedContext nd'" if "verifiedContext nd"
    using that M(3) call_context [OF M(1)] assms(2) by (cases op) (auto simp: verifiedContext_def)
  ultimately show ?thesis using M(2) c by (simp add: nodePath_def)
qed

lemma path_receiverCall:
  assumes "built_op op" "snd (m (nd_runReceiver nd)) = snd (runtime_step (ne_receiver env tick) op (nd_runReceiver nd))"
  shows "nodePath env nd (snd (receiverCall env tick m nd))"
proof -
  obtain r nd' where c: "receiverCall env tick m nd = (r, nd')" by fastforce
  note M = receiverCall_members [OF c]
  have "receiverPath env (nd_runReceiver nd) (nd_runReceiver nd')"
    using receiverPath_call [OF assms(1), of env "nd_runReceiver nd" tick] M(1) assms(2) by simp
  with M c show ?thesis by (simp add: nodePath_def verifiedContext_def)
qed

lemma thenA_ret: "snd (thenA m (retA x) s) = snd (m s)"
  by (simp add: thenA_def bindA_cases act_simps split: sum.split)

lemma path_members:
  "nd_runSender t = nd_runSender s \<Longrightarrow> nd_runReceiver t = nd_runReceiver s \<Longrightarrow>
   nd_optSenderContext t = nd_optSenderContext s \<Longrightarrow> nodePath env s t"
  by (simp add: nodePath_def verifiedContext_def)

lemma path_fold: "(\<And>x s. sameRuntimes s (f x s)) \<Longrightarrow> nodePath env s (fold f xs s)"
  by (rule path_same) (rule same_fold)

text \<open>\<open>catchWith\<close>, which hands the exception on.\<close>

lemma path_catch:
  assumes "nodePath env s (snd (m s))" "\<And>e t. m s = (Inl e, t) \<Longrightarrow> nodePath env t (snd (h e t))"
  shows "nodePath env s (snd (catchWith m h s))"
  using assms by (auto simp: catchWith_def split: prod.splits sum.splits intro: path.rel_trans)

lemmas path_rules = path.bind path.seq path.cond path.ret path.throw path.lift path.get path_catch

section \<open>What is configured is built\<close>

lemma prmMap_built:
  assumes "prmMap rpc = Inr prm"
  shows "\<exists>alg mode tot ppi delay ms start imp payload. mkRoundParameters alg mode tot ppi delay ms start imp payload = Inr prm"
  using assms by (auto simp: prmMap_def andThen_Inr_iff split: if_splits) blast

lemma ctxCandidate_built:
  assumes "ctxCandidate env scf = Inr ctx"
  shows "built_sender ctx"
proof -
  obtain prm mat where prm: "prmMap (scf_prmRoundParameters scf) = Inr prm"
    and mat: "mkSenderMaterial (scf_strSenderId scf) (scf_u64ChainId scf) (block_bytes (scf_arrChainSeed scf))
      (scf_arrCommitmentKey scf) prm = Inr mat"
    and ctx: "ctxCreateVerified mat (OpenSslCryptoProvider (ne_ssl env) (prm_algCryptoAlgorithm prm)) = Inr ctx"
    using assms by (auto simp: ctxCandidate_def andThen_Inr_iff)
  have "snd_prm ctx = prm"
    using ctx mat by (auto simp: ctxCreateVerified_def mkSenderMaterial_def snd_prm_def andThen_Inr_iff split: if_splits)
  with prmMap_built [OF prm] ctx show ?thesis unfolding built_sender_def by blast
qed

lemma varMapReceiverPayload_built: "varMapReceiverPayload det = Inr load \<Longrightarrow> built_payload load"
  by (cases det) (auto simp: mkTextReceiverPayloadDetails_def mkFileReceiverPayloadDetails_def split: if_splits)

lemma ctxReceiver_built:
  assumes "ctxReceiver rcc = Inr ctx"
  shows "built_context ctx"
proof -
  obtain prm load where prm: "prmMap (rcc_prmRoundParameters rcc) = Inr prm"
    and load: "varMapReceiverPayload (rcc_varPayloadDetails rcc) = Inr load"
    and ctx: "mkReceiverContext (rcc_strSenderId rcc) (rcc_strSenderIpAddress rcc) (rcc_u64ChainId rcc)
      (rcc_arrCommitmentKey rcc) prm load = Inr ctx"
    using assms by (auto simp: ctxReceiver_def andThen_Inr_iff)
  have m: "rcv_prmRoundParameters ctx = prm" "rcv_varPayloadDetails ctx = load"
    "rcv_strSenderId ctx = rcc_strSenderId rcc" "rcv_strSenderIpAddress ctx = rcc_strSenderIpAddress rcc"
    "rcv_u64ChainId ctx = rcc_u64ChainId rcc" "rcv_digCommitmentKey ctx = rcc_arrCommitmentKey rcc"
    using ctx by (auto simp: mkReceiverContext_def andThen_Inr_iff split: if_splits)
  show ?thesis
    unfolding built_context_def m using ctx varMapReceiverPayload_built [OF load] prmMap_built [OF prm] by blast
qed

lemma mapE_members: "mapE f xs = Inr ys \<Longrightarrow> y \<in> set ys \<Longrightarrow> \<exists>x \<in> set xs. f x = Inr y"
  by (induction xs arbitrary: ys) (auto simp: andThen_Inr_iff)

lemma receiverContexts_built:
  assumes "mapE receiverContextArchive rccs = Inr vec"
  shows "\<forall>ctx \<in> set (map fst vec). built_context ctx"
  using mapE_members [OF assms] ctxReceiver_built by (fastforce simp: receiverContextArchive_def andThen_Inr_iff)

section \<open>The handlers\<close>

lemma path_sender_simple:
  "built_sender_op op \<Longrightarrow> (\<And>ctx load g. op \<noteq> SnConfigure ctx load g) \<Longrightarrow> nodePath env nd (snd (senderCall env tick op nd))"
  by (rule path_senderCall) auto

lemma path_receiverStop: "nodePath env nd (snd (receiverStop env tick nd))"
proof -
  have "nodePath env nd (snd (receiverCall env tick (stopRuntime True) nd))"
    by (rule path_receiverCall [of RtStop]) simp_all
  then show ?thesis
    unfolding receiverStop_def
    by (intro path_catch path.bind) (auto simp: act_simps intro: path_fold path_members)
qed

lemma work_snd:
  "snd (workerStep env rt) = snd (runtime_step env RtWork rt)"
  by (simp add: bindA_cases act_simps split: sum.split prod.split)

lemma path_receiverWork: "nodePath env nd (snd (receiverWork env tick nd))"
proof -
  have "nodePath env nd (snd (receiverCall env tick (workerStep (ne_receiver env tick)) nd))"
    by (rule path_receiverCall [of RtWork]) (simp_all only: work_snd built_op.simps)
  then show ?thesis
    unfolding receiverWork_def
    by (intro path_catch path.bind)
      (auto simp: act_simps intro!: path.rel_trans [OF path_fold path_fold] intro: path_members split: prod.split)
qed

lemma path_stop: "nodePath env nd (snd (node_stop env tick nd))"
  unfolding node_stop_def by (intro path.seq path_receiverStop path_sender_simple) simp_all

lemma reset_context:
  assumes "senderCall env tick SnResetConfiguration nd = (r, nd')"
  shows "sn_optSenderContext (nd_runSender nd') = None"
proof -
  have "nd_runSender nd' = snd (sender_call (ne_sender env) (nt_tick tick, SnResetConfiguration) (nd_runSender nd))"
    using senderCall_members(1) [OF assms] by simp
  then show ?thesis by (simp add: sender_call_def sn_resetConfiguration_def act_simps)
qed

lemma path_install:
  assumes "built_sender ctx" "sn_optSenderContext (nd_runSender nd) = None"
  shows "nodePath env nd (installSenderContext scf ctx cfg nd)"
  using assms by (simp add: nodePath_def verifiedContext_def installSenderContext_def setArchive_def)

lemma path_senderConfig: "nodePath env nd (snd (msgApplySenderConfig env tick scf nd))"
  unfolding msgApplySenderConfig_def
proof (intro path_catch)
  show "nodePath env t (snd (liftA r t))" for t and r :: "control_message result" by (rule path.lift)
  show "nodePath env nd (snd (bindA (getA nd_runSender) (\<lambda>run.
        if sn_bRunning run
        then throwA (LogicError ''Sender configuration cannot change during an active round'')
        else if scf_strSenderId scf \<noteq> ne_strNodeName env
        then throwA (InvalidArgument ''Sender authentication configuration targets another node'')
        else bindA (liftA (ctxCandidate env scf)) (\<lambda>ctx.
          bindA (liftA (cfgArchive (snd_prm ctx))) (\<lambda>cfg.
          thenA (senderCall env tick SnResetConfiguration)
          (thenA (modifyA (installSenderContext scf ctx cfg))
          (liftA (msgConfigAcknowledgement (scf_strRequestId scf) TargetSender True []
             ''Sender authentication configuration accepted'')))))) nd))"
  proof (intro path.bind path.get, goal_cases)
    case (1 run t)
    show ?case
    proof (simp add: path.throw, intro impI path.bind path.lift, goal_cases)
      case (1 ctx t cfg u)
      then have b: "built_sender ctx" by (auto simp: act_simps intro: ctxCandidate_built)
      show ?case
      proof (rule path.seq)
        show "nodePath env u (snd (senderCall env tick SnResetConfiguration u))" by (rule path_sender_simple) simp_all
        fix x v assume "senderCall env tick SnResetConfiguration u = (Inr x, v)"
        from path_install [OF b reset_context [OF this]]
        show "nodePath env v (snd (thenA (modifyA (installSenderContext scf ctx cfg))
            (liftA (msgConfigAcknowledgement (scf_strRequestId scf) TargetSender True []
             ''Sender authentication configuration accepted'')) v))"
          by (simp add: act_simps)
      qed
    qed
  qed
qed

lemma setArchives_members:
  "nd_runSender (fold (\<lambda>(key, arch). setArchive key arch) xs nd) = nd_runSender nd"
  "nd_runReceiver (fold (\<lambda>(key, arch). setArchive key arch) xs nd) = nd_runReceiver nd"
  "nd_optSenderContext (fold (\<lambda>(key, arch). setArchive key arch) xs nd) = nd_optSenderContext nd"
  by (induction xs arbitrary: nd) (auto simp: setArchive_def)

lemma path_installReceiver: "nodePath env nd (installReceiverArchives vec nd)"
  by (rule path_members) (simp_all add: installReceiverArchives_def Let_def setArchives_members)

lemma path_configure:
  "\<forall>ctx \<in> set ctxs. built_context ctx \<Longrightarrow> nodePath env nd (snd (receiverCall env tick (configure ctxs) nd))"
  by (rule path_receiverCall [of "RtConfigure ctxs"]) (simp_all add: thenA_ret)

lemma path_receiverConfig: "nodePath env nd (snd (msgApplyReceiverConfig env tick rcs nd))"
  unfolding msgApplyReceiverConfig_def
  by (intro path_rules; (simp add: path.throw, intro impI path_rules)?)
    (auto simp: act_simps intro!: path_configure path_installReceiver dest: receiverContexts_built)

lemma path_hashArchive: "nodePath env nd (snd (hashArchive ctx r nd))"
  by (rule path_members)
    (auto simp: hashArchive_def Let_def act_simps setArchive_def bindA_cases split: option.split sum.split)

lemma path_knownContext:
  assumes "verifiedContext nd \<Longrightarrow> nodePath env nd t"
  shows "nodePath env nd t"
  using assms by (auto simp: nodePath_def)

lemma path_textPayload: "nodePath env nd (snd (msgApplyTextPayload env tick tpc nd))"
proof (rule path_knownContext)
  assume v: "verifiedContext nd"
  show ?thesis
    unfolding msgApplyTextPayload_def
  proof (rule path_catch, goal_cases)
    case 1
    show ?case
    proof (cases "nd_optSenderContext nd")
      case None
      then show ?thesis by (simp add: act_simps path.rel_refl)
    next
      case (Some ctx)
      with v have "built_sender ctx" by (simp add: verifiedContext_def)
      with Some show ?thesis
        by (auto simp: act_simps liftA_then path.rel_refl split: sum.split
            intro!: path.seq path_senderCall path_hashArchive path.lift)
    qed
  qed (rule path.lift)
qed

lemma path_filePayload: "nodePath env nd (snd (msgApplyFilePayload env tick role req cid wrk nd))"
proof (rule path_knownContext)
  assume v: "verifiedContext nd"
  show ?thesis
    unfolding msgApplyFilePayload_def if_distribR
  proof (simp add: path.lift, intro impI path_catch, goal_cases)
    case 1
    show ?case
    proof (cases "nd_optSenderContext nd")
      case None
      then show ?thesis by (simp add: act_simps path.rel_refl)
    next
      case (Some ctx)
      with v have "built_sender ctx" by (simp add: verifiedContext_def)
      with Some show ?thesis
        by (auto simp: act_simps liftA_then path.rel_refl split: sum.split
            intro!: path.seq path_senderCall path_hashArchive path.lift)
    qed
  qed (rule path.lift)
qed

lemma path_fault: "nodePath env nd (snd (msgApplyFault env tick fcd nd))"
  unfolding msgApplyFault_def
proof (rule path_catch, goal_cases)
  case 1
  show ?case
    by (auto simp: act_simps path.rel_refl split: option.split
        intro!: path.seq path_sender_simple path.lift path.modify path_members)
      (auto simp: setArchive_def split: option.split)
qed (rule path.lift)

lemma path_mapping: "nodePath env nd (snd (msgApplyAttackSourceMapping env tick asc nd))"
  unfolding msgApplyAttackSourceMapping_def
  by (intro path_catch path.seq path.lift path_receiverCall [of "RtApplyMapping asc"]) (simp_all add: thenA_ret)

section \<open>Round commands\<close>

lemma path_beginRound: "nodePath env nd (snd (node_beginRound r nd))"
  by (rule path_members) (simp_all add: node_beginRound_def zoomA_def split: prod.split)

lemma path_start: "nodePath env nd (snd (startRound env tick cmd nd))"
  unfolding startRound_def
  by (auto simp: act_simps path.rel_refl intro!: path.seq path_beginRound path.cond path_sender_simple
      path_receiverCall [of "RtStart r t c" for r t c] simp: thenA_ret)

lemma path_pause: "nodePath env nd (snd (pauseRound env tick cmd nd))"
  unfolding pauseRound_def
  by (auto simp: act_simps path.rel_refl intro!: path.seq path.cond path_sender_simple
      path_receiverCall [of "RtRequestPause r t c" for r t c] simp: thenA_ret)

lemma path_resume: "nodePath env nd (snd (resumeRound env tick cmd nd))"
  unfolding resumeRound_def
  by (auto simp: act_simps path.rel_refl intro!: path.seq path.cond path_sender_simple
      path_receiverCall [of "RtResume r t c" for r t c] simp: thenA_ret)

lemma path_command: "nodePath env nd (snd (commandRound env tick cmd c nd))"
  by (cases c) (auto intro!: path_start path_pause path_resume path.seq path_stop path_sender_simple)

lemma path_roundCommand: "nodePath env nd (snd (msgApplyRoundCommand env tick cmd nd))"
  unfolding msgApplyRoundCommand_def
  by (intro path_catch) (auto intro!: path.seq path.cond path_stop path_command path.lift)

lemma path_handle: "nodePath env nd (snd (msgHandleControl env tick role msg nd))"
  unfolding msgHandleControl_def
  by (cases msg) (auto simp: path.lift intro: path_senderConfig path_receiverConfig path_textPayload path_fault
      path_mapping path_roundCommand)

lemma path_metric: "nodePath env nd (processMetric env r nd)"
  by (rule path_same) simp

lemma path_datagram: "nodePath env nd (snd (bHandleDatagram env tick ip bs t nd))"
  unfolding bHandleDatagram_def by (rule path_receiverCall [of "RtEnqueue ip bs t"]) (simp_all add: thenA_ret)

lemma path_op: "nodePath env nd (snd (node_op_act env tick op nd))"
  by (cases op)
    (auto intro!: path.bind path.seq path_handle path_filePayload path_stop path_receiverWork path_sender_simple
      path.ret path.modify path_metric path_datagram)

lemma path_step: "nodePath env nd (snd (node_step env (tick, op) nd))"
  by (simp add: node_step_def path.rel_refl path_op)

lemma path_run: "nodePath env nd (run_ops (node_step env) ops nd)"
proof (induction ops arbitrary: nd)
  case Nil
  then show ?case by (simp add: path.rel_refl)
next
  case (Cons x xs)
  obtain tick op where "x = (tick, op)" by fastforce
  with path.rel_trans [OF path_step Cons.IH] show ?case by simp
qed

section \<open>Histories of a node\<close>

lemma new_node:
  assumes "mkNodeRuntime env = Inr nd"
  shows "nd_runSender nd = sender_initial" "nd_runReceiver nd = new_receiver_runtime" "verifiedContext nd"
  using assms by (auto simp: mkNodeRuntime_def andThen_Inr_iff verifiedContext_def sender_initial_def split: if_splits)

text \<open>C14. Whatever messages, files and datagrams a node is given, in any order with the steps of its two
  workers: its sender is where a history of calls takes it that only ever configures contexts verified
  against their commitment, and never one other than the node's present context; its receiver is where a
  history of calls takes it that only ever configures contexts their constructors have made. So what holds
  of all such histories of the two runtimes holds in every node.\<close>

theorem node_drives_runtimes:
  assumes "mkNodeRuntime env = Inr nd0" and "nd = run_ops (node_step env) ops nd0"
  shows "\<exists>calls recs. list_all (built_sender_op \<circ> snd) calls \<and> list_all (built_op \<circ> snd) recs
    \<and> nd_runSender nd = run_sender (ne_sender env) calls sender_initial
    \<and> nd_runReceiver nd = run_ops (timed_step (ne_ssl env) True) recs new_receiver_runtime
    \<and> (\<forall>ctx. sn_optSenderContext (nd_runSender nd) = Some ctx \<longrightarrow> nd_optSenderContext nd = Some ctx \<and> built_sender ctx)"
proof -
  note N = new_node [OF assms(1)]
  have "nodePath env nd0 nd" using path_run assms(2) by simp
  with N have "verifiedContext nd" "senderPath env sender_initial (nd_runSender nd)"
    "receiverPath env new_receiver_runtime (nd_runReceiver nd)"
    by (simp_all add: nodePath_def)
  then show ?thesis unfolding senderPath_def receiverPath_def verifiedContext_def by (metis option.distinct(1))
qed

section \<open>Monitors\<close>

text \<open>A message its constructor has made.\<close>

fun builtMessage :: "control_message \<Rightarrow> bool" where
  "builtMessage (RequestMessage rqc) = (mkRequestControl rqc = Inr rqc)"
| "builtMessage (SenderConfigMessage scf) = (mkSenderConfig scf = Inr scf)"
| "builtMessage (ReceiverContextsMessage rcs) = (mkReceiverContextsControl rcs = Inr rcs)"
| "builtMessage (TextPayloadMessage tpc) = (mkTextPayloadControl tpc = Inr tpc)"
| "builtMessage (RoundCommandMessage cmd) = (mkRoundCommand cmd = Inr cmd)"
| "builtMessage _ = True"

fun refusal :: "control_message \<Rightarrow> bool" where
  "refusal (ConfigAckMessage cak) = (\<not> cak_bAccepted cak)"
| "refusal (RoundAckMessage rak) = (\<not> rak_bAccepted rak)"
| "refusal (ErrorMessage _) = True"
| "refusal _ = False"

fun experimentMessage :: "control_message \<Rightarrow> bool" where
  "experimentMessage (FaultMessage _) = True"
| "experimentMessage (MappingMessage _) = True"
| "experimentMessage _ = False"

lemma controlText_built:
  "mkSenderConfig scf = Inr scf \<Longrightarrow> controlText (scf_strRequestId scf) n False = Inr ()"
  "mkReceiverContextsControl rcs = Inr rcs \<Longrightarrow> controlText (rcs_strRequestId rcs) n False = Inr ()"
  "mkTextPayloadControl tpc = Inr tpc \<Longrightarrow> controlText (tpc_strRequestId tpc) n False = Inr ()"
  "mkRoundCommand cmd = Inr cmd \<Longrightarrow> controlText (cmd_strRequestId cmd) n False = Inr ()"
  "mkRoundCommand cmd = Inr cmd \<Longrightarrow> controlText (cmd_strRoundId cmd) n False = Inr ()"
  by (auto simp: mkSenderConfig_def mkReceiverContextsControl_def mkTextPayloadControl_def mkRoundCommand_def
      andThen_Inr_iff controlText_def split: if_splits)

lemma monitorAnswer_refuses:
  assumes "builtMessage msg" "bIsMutationMessage (typeMessage msg)"
  shows "if experimentMessage msg then monitorAnswer msg = Inl (BadVariantAccess ''std::get: wrong index for variant'')
    else \<exists>m. monitorAnswer msg = Inr m \<and> refusal m"
proof (cases msg)
  case (RequestMessage rqc)
  with assms show ?thesis by (auto simp: mkRequestControl_def bIsMutationMessage_def split: if_splits)
qed (use assms in \<open>auto simp: bIsMutationMessage_def msgConfigAcknowledgement_def mkConfigAcknowledgement_def
    msgRoundAcknowledgement_def mkRoundAcknowledgement_def controlText_built controlText_def [of "_ # _"]\<close>)

lemma unsupported_refused: "\<exists>m. unsupportedControl = Inr m \<and> refusal m"
  by (simp add: unsupportedControl_def mkErrorResponse_def controlText_def)

lemma mutation_types:
  "bIsMutationMessage MsgSenderAuthenticationConfig" "bIsMutationMessage MsgReceiverAuthenticationContexts"
  "bIsMutationMessage MsgTextPayloadConfig" "bIsMutationMessage MsgFaultInjectionConfig"
  "bIsMutationMessage MsgAttackSourceMapping"
  by (simp_all add: bIsMutationMessage_def)

lemma mutation_command: "bIsMutationMessage (commandType c)"
  by (cases c) (simp_all add: bIsMutationMessage_def)

lemma monitor_unsupported:
  "\<not> bIsMutationMessage (typeMessage msg) \<Longrightarrow> applyControl env tick msg = liftA unsupportedControl"
  by (cases msg) (simp_all add: mutation_types mutation_command)

text \<open>C28. A monitor client changes nothing in a node: neither a control message nor a file it sends changes
  any member, and no callback is called. A well-formed message is answered with a refusal, except a fault
  plan or an attack source mapping, for which the handler reads the details of a round command that the
  message does not hold and throws out of the node.\<close>

theorem monitor_changes_nothing:
  assumes "builtMessage msg"
  shows "snd (msgHandleControl env tick MonitorClient msg nd) = nd
    \<and> snd (msgApplyFilePayload env tick MonitorClient strRequestId u64ChainId wrkFile nd) = nd
    \<and> (if experimentMessage msg
       then fst (msgHandleControl env tick MonitorClient msg nd)
         = Inl (BadVariantAccess ''std::get: wrong index for variant'')
       else \<exists>m. fst (msgHandleControl env tick MonitorClient msg nd) = Inr m \<and> refusal m)"
proof (cases "bIsMutationMessage (typeMessage msg)")
  case True
  with monitorAnswer_refuses [OF assms True] show ?thesis
    by (simp add: msgHandleControl_def msgApplyFilePayload_def act_simps split: if_split_asm)
next
  case False
  then have "\<not> experimentMessage msg" by (cases msg) (auto simp: bIsMutationMessage_def)
  with False unsupported_refused show ?thesis
    by (simp add: msgHandleControl_def msgApplyFilePayload_def monitor_unsupported act_simps)
qed

section \<open>Stopping\<close>

lemma stopResults_return:
  assumes "\<forall>(k, rs) \<in> set states. receiver_ok ssl rs"
  shows "\<exists>vec. fst (stopResults states) = Inr vec"
  using assms
proof (induction states)
  case Nil
  then show ?case by simp
next
  case (Cons x states)
  obtain k rs where x: "x = (k, rs)" by fastforce
  obtain r states' where rec: "stopResults states = (r, states')" by fastforce
  with Cons obtain vec where r: "r = Inr vec" by auto
  have ok: "receiver_ok ssl rs" "live_ok rs" using Cons.prems x by (auto simp: receiver_ok_def)
  show ?case
  proof (cases "rs_bActive rs \<and> \<not> rs_bResultReported rs")
    case True
    then have w: "waiting rs" by (simp add: waiting_def)
    have "rs_strRoundId rs \<noteq> []" using ok(2) w by (simp add: live_ok_def waiting_def)
    with resCreateResult_returns [OF ok waiting_slots [OF ok(1) w]] obtain res where
      "resCreateResult rs Stopped ''Receiver round stopped'' = Inr res" by blast
    with True x rec r show ?thesis by simp
  qed (use x rec r in auto)
qed

lemma stopRuntime_returns:
  assumes "runtime_ok ssl rt"
  shows "\<exists>vec rt'. stopRuntime True rt = (Inr vec, rt') \<and> \<not> rt_bRunning rt' \<and> \<not> rt_bPaused rt' \<and> rt_deqDatagrams rt' = []
    \<and> rt_mapAttackSourceMappings rt' = Map.empty \<and> (\<forall>(k, rs) \<in> set (rt_mapStates rt'). \<not> rs_bActive rs)"
proof -
  have "\<forall>(k, rs) \<in> set (rt_mapStates rt). receiver_ok ssl rs" using runtime_ok_states [OF assms] by auto
  from stopResults_return [OF this] obtain vec where "fst (stopResults (rt_mapStates rt)) = Inr vec" by blast
  then show ?thesis by (cases "stopResults (rt_mapStates rt)") (auto simp: stopRuntime_def mapStates_def)
qed

definition idleNode :: "node_runtime \<Rightarrow> bool" where
  "idleNode nd \<longleftrightarrow> \<not> bSenderRunning nd \<and> \<not> bReceiverRoundRunning nd \<and> \<not> bRoundPaused nd
     \<and> sn_pc (nd_runSender nd) \<in> {PcIdle, PcTerminated} \<and> rt_deqDatagrams (nd_runReceiver nd) = []
     \<and> (\<forall>(k, rs) \<in> set (rt_mapStates (nd_runReceiver nd)). \<not> rs_bActive rs)"

lemma stopSender_returns:
  "sn_pc (stopSender env tick b rt) = (if sn_pc rt = PcTerminated then PcTerminated else PcIdle)"
  "\<not> sn_bRunning (stopSender env tick b rt)"
  "\<not> sn_bPaused (stopSender env tick b rt)"
proof -
  have pc: "sn_pc (emitResult env t st msg s) = sn_pc s" for t st msg s
    using reportedD [OF reported_result [of st s env t msg]] by blast
  then show "sn_pc (stopSender env tick b rt) = (if sn_pc rt = PcTerminated then PcTerminated else PcIdle)"
    using join_returns [of "rt\<lparr>sn_bStopRequested := True\<rparr>" env tick] by (simp add: stopSender_def Let_def)
qed (simp_all add: stopSender_def Let_def)

lemma fold_emit_members:
  "nd_runSender (fold (node_emitResult env tick role) vec nd) = nd_runSender nd"
  "nd_runReceiver (fold (node_emitResult env tick role) vec nd) = nd_runReceiver nd"
  "nd_optSenderContext (fold (node_emitResult env tick role) vec nd) = nd_optSenderContext nd"
  "nd_bTerminated (fold (node_emitResult env tick role) vec nd) = nd_bTerminated nd"
  by (simp_all add: sameRuntimesD [OF same_fold [OF same_emitResult]])

lemma node_stop_returns:
  assumes "runtime_ok ssl (nd_runReceiver nd)"
  shows "\<exists>nd'. node_stop env tick nd = (Inr (), nd') \<and> idleNode nd' \<and> nd_bTerminated nd' = nd_bTerminated nd
    \<and> nd_optSenderContext nd' = nd_optSenderContext nd
    \<and> sn_pc (nd_runSender nd') = (if sn_pc (nd_runSender nd) = PcTerminated then PcTerminated else PcIdle)"
proof -
  obtain r nd1 where c: "senderCall env tick SnStop nd = (r, nd1)" by fastforce
  note M = senderCall_members [OF c]
  have run: "nd_runSender nd1 = stopSender (ne_sender env) (nt_tick tick) True (nd_runSender nd)" and r: "r = Inr ()"
    using M(1) by (simp_all add: sender_call_def act_simps)
  obtain vec rt' where s: "stopRuntime True (nd_runReceiver nd1) = (Inr vec, rt')" "\<not> rt_bRunning rt'" "\<not> rt_bPaused rt'"
    "rt_deqDatagrams rt' = []" "\<forall>(k, rs) \<in> set (rt_mapStates rt'). \<not> rs_bActive rs"
    using stopRuntime_returns [OF assms] M(2) by auto
  let ?nd = "fold (node_emitResult env tick RoleReceiver) vec (nd1\<lparr>nd_runReceiver := rt'\<rparr>)"
  have "node_stop env tick nd = (Inr (), ?nd)"
    by (simp add: node_stop_def thenA_def bindA_def c r receiverStop_def receiverCall_def zoomA_def s(1) catchWith_def act_simps)
  moreover have "idleNode ?nd"
    using s(2-5) stopSender_returns [of "ne_sender env" "nt_tick tick" True "nd_runSender nd"]
    by (simp add: idleNode_def bSenderRunning_def bReceiverRoundRunning_def bRoundPaused_def fold_emit_members run)
  ultimately show ?thesis using M by (simp add: fold_emit_members run stopSender_returns(1))
qed

lemma node_receiver_ok:
  assumes "mkNodeRuntime env = Inr nd0" "nd = run_ops (node_step env) ops nd0"
  shows "runtime_ok (ne_ssl env) (nd_runReceiver nd)"
proof -
  note N = new_node [OF assms(1)]
  have "nodePath env nd0 nd" using path_run assms(2) by simp
  with N obtain recs where "list_all (built_op \<circ> snd) recs"
    "nd_runReceiver nd = run_ops (timed_step (ne_ssl env) True) recs new_receiver_runtime"
    by (auto simp: nodePath_def receiverPath_def)
  with runtime_history_ok show ?thesis by metis
qed

text \<open>C8. In any state a node reaches, stopping it returns and does not end the process: the worker of
  the sender has returned from its function, unless its exception had ended the process before the stop;
  nothing runs or is paused, no receiver waits and no datagram is queued.\<close>

theorem node_stop_ends_rounds:
  assumes "mkNodeRuntime env = Inr nd0" and "nd = run_ops (node_step env) ops nd0"
  shows "\<exists>nd'. node_stop env tick nd = (Inr (), nd') \<and> nd_bTerminated nd' = nd_bTerminated nd
    \<and> sn_pc (nd_runSender nd') = (if sn_pc (nd_runSender nd) = PcTerminated then PcTerminated else PcIdle)
    \<and> \<not> bSenderRunning nd' \<and> \<not> bReceiverRoundRunning nd' \<and> \<not> bRoundPaused nd'
    \<and> rt_deqDatagrams (nd_runReceiver nd') = []
    \<and> (\<forall>(k, rs) \<in> set (rt_mapStates (nd_runReceiver nd')). \<not> waiting rs)"
  using node_stop_returns [OF node_receiver_ok [OF assms], of env tick] unfolding idleNode_def waiting_def by blast

section \<open>Starting\<close>

lemma roundAck_flag:
  "msgRoundAcknowledgement cmd b code msg = Inr m \<Longrightarrow> \<exists>rak. m = RoundAckMessage rak \<and> rak_bAccepted rak = b"
  by (auto simp: msgRoundAcknowledgement_def mkRoundAcknowledgement_def andThen_Inr_iff split: if_splits)

text \<open>Both runtimes, as far as they are configured, on the round of the command from its timestamp on.\<close>

definition roundStarted :: "round_command \<Rightarrow> node_runtime \<Rightarrow> bool" where
  "roundStarted cmd nd \<longleftrightarrow>
     (rt_bConfigured (nd_runReceiver nd) \<longrightarrow> rt_bRunning (nd_runReceiver nd)
        \<and> rt_strRoundId (nd_runReceiver nd) = cmd_strRoundId cmd
        \<and> (\<forall>(k, rs) \<in> set (rt_mapStates (nd_runReceiver nd)). waiting rs \<and> rs_strRoundId rs = cmd_strRoundId cmd
             \<and> rs_vecTimeline rs = [\<lparr>seg_u32FirstLogicalInterval = 1,
                 seg_u64StartTimestampMilliseconds = cmd_u64ExecutionTimestampMilliseconds cmd\<rparr>]))
     \<and> (sn_bConfigured (nd_runSender nd) \<longrightarrow> sn_bRunning (nd_runSender nd) \<and> sn_pc (nd_runSender nd) = PcWaitStart
        \<and> sn_strRoundId (nd_runSender nd) = cmd_strRoundId cmd
        \<and> sn_u64StartTimestampMilliseconds (nd_runSender nd) = cmd_u64ExecutionTimestampMilliseconds cmd)"

lemma receiver_started:
  assumes "startRuntime env r t c rt = (Inr (), rt')"
  shows "rt_bConfigured rt" "rt_bConfigured rt'" "rt_bRunning rt'" "rt_strRoundId rt' = r"
    "\<forall>(k, rs) \<in> set (rt_mapStates rt'). waiting rs \<and> rs_strRoundId rs = r \<and> rs_vecTimeline rs =
       [\<lparr>seg_u32FirstLogicalInterval = 1, seg_u64StartTimestampMilliseconds = t\<rparr>]"
  using assms by (auto simp: startRuntime_def act_simps mapStates_def startReceiver_def waiting_def split: if_splits)

lemma sender_started:
  assumes "sender_call env (tick, SnStart r t) rt = (Inr (), rt')"
  shows "sn_bConfigured rt" "sn_bRunning rt'" "sn_pc rt' = PcWaitStart" "sn_strRoundId rt' = r"
    "sn_u64StartTimestampMilliseconds rt' = t"
proof -
  let ?s = "stopSender env tick False rt"
  have renew: "sn_bRunning rt1 \<and> sn_strRoundId rt1 = r" if "renewFaultPolicy env (beginRound r t ?s) = (x, rt1)" for x rt1
    using that by (auto simp: renewFaultPolicy_def beginRound_def liftA_then act_simps split: option.splits sum.splits)
  obtain rt1 where "renewFaultPolicy env (beginRound r t ?s) = (Inr (), rt1)" "sn_bConfigured ?s"
    "rt' = goto PcWaitStart (rt1\<lparr>sn_optCommunicationAccumulator :=
       (if se_bMetrics env then Some (mkCommunicationCostAccumulator (metricMode (sn_prm rt1))) else None)\<rparr>)"
    using assms by (auto simp: sender_call_def sn_start_def act_simps thenA_def bindA_Inr split: if_splits)
  with renew sameRound_stop [of rt env tick False]
  show "sn_bConfigured rt" "sn_bRunning rt'" "sn_strRoundId rt' = r" by (auto simp: sameRound_def goto_def)
  show "sn_pc rt' = PcWaitStart" "sn_u64StartTimestampMilliseconds rt' = t" using started [OF assms] by simp_all
qed

lemma catchWith_cases:
  assumes "catchWith m h s = (r, t)"
  obtains x where "m s = (Inr x, t)" "r = Inr x" | e s' where "m s = (Inl e, s')" "h e s' = (r, t)"
  using assms by (cases "m s") (auto simp: catchWith_def split: sum.splits)

lemma startRound_started:
  assumes "startRound env tick cmd nd = (Inr (), nd')"
  shows "roundStarted cmd nd'" "rt_bConfigured (nd_runReceiver nd) \<or> sn_bConfigured (nd_runSender nd)"
    "rt_bConfigured (nd_runReceiver nd') = rt_bConfigured (nd_runReceiver nd)"
    "sn_bConfigured (nd_runSender nd') = sn_bConfigured (nd_runSender nd)"
proof -
  let ?rcv = "receiverCall env tick (startRuntime (ne_receiver env tick) (cmd_strRoundId cmd)
    (cmd_u64ExecutionTimestampMilliseconds cmd) (m_u32ToleranceMilliseconds (nt_stsTime tick)))"
  let ?snd = "senderCall env tick (SnStart (cmd_strRoundId cmd) (cmd_u64ExecutionTimestampMilliseconds cmd))"
  show conf: "rt_bConfigured (nd_runReceiver nd) \<or> sn_bConfigured (nd_runSender nd)"
    using assms by (auto simp: startRound_def act_simps split: if_splits)
  obtain x nd0 y nd1 where 0: "node_beginRound (cmd_strRoundId cmd) nd = (Inr x, nd0)"
    and 1: "whenA (rt_bConfigured (nd_runReceiver nd)) ?rcv nd0 = (Inr y, nd1)"
    and 2: "whenA (sn_bConfigured (nd_runSender nd)) ?snd nd1 = (Inr (), nd')"
    using assms conf by (auto simp: startRound_def act_simps thenA_def bindA_Inr)
  have s0: "nd_runSender nd0 = nd_runSender nd" "nd_runReceiver nd0 = nd_runReceiver nd"
    using 0 by (auto simp: node_beginRound_def zoomA_def split: prod.splits)
  have 11: "nd_runSender nd1 = nd_runSender nd"
    using 1 s0 receiverCall_members(2) by (cases "rt_bConfigured (nd_runReceiver nd)") (fastforce simp: act_simps)+
  have 12: "if rt_bConfigured (nd_runReceiver nd) then startRuntime (ne_receiver env tick) (cmd_strRoundId cmd)
      (cmd_u64ExecutionTimestampMilliseconds cmd) (m_u32ToleranceMilliseconds (nt_stsTime tick)) (nd_runReceiver nd)
        = (Inr (), nd_runReceiver nd1)
      else nd_runReceiver nd1 = nd_runReceiver nd"
    using 1 s0 receiverCall_members(1) [of env tick _ nd0 "Inr ()" nd1]
    by (cases "rt_bConfigured (nd_runReceiver nd)") (auto simp: act_simps)
  have 21: "nd_runReceiver nd' = nd_runReceiver nd1"
    using 2 senderCall_members(2) by (cases "sn_bConfigured (nd_runSender nd)") (fastforce simp: act_simps)+
  have 22: "if sn_bConfigured (nd_runSender nd)
      then sender_call (ne_sender env) (nt_tick tick, SnStart (cmd_strRoundId cmd) (cmd_u64ExecutionTimestampMilliseconds cmd))
        (nd_runSender nd) = (Inr (), nd_runSender nd')
      else nd_runSender nd' = nd_runSender nd"
    using 2 11 senderCall_members(1) [of env tick _ nd1 "Inr ()" nd']
    by (cases "sn_bConfigured (nd_runSender nd)") (auto simp: act_simps)
  show rc: "rt_bConfigured (nd_runReceiver nd') = rt_bConfigured (nd_runReceiver nd)"
    using 12 21 receiver_started(2) by (auto split: if_splits)
  show sc: "sn_bConfigured (nd_runSender nd') = sn_bConfigured (nd_runSender nd)"
    using 22 started(5) by (fastforce simp: sameRound_def split: if_splits)
  show "roundStarted cmd nd'"
    unfolding roundStarted_def rc sc 21
    using 12 22 receiver_started(3-5) [of "ne_receiver env tick"] sender_started(2-5) [of "ne_sender env"]
    by (auto split: if_splits)
qed

lemma accepted_start:
  assumes "msgApplyRoundCommand env tick cmd nd = (Inr (RoundAckMessage rak), nd')" "rak_bAccepted rak"
    "cmd_cmdCommand cmd = CommandStart"
  shows "startRound env tick cmd nd = (Inr (), nd')"
  using assms(1) unfolding msgApplyRoundCommand_def
proof (cases rule: catchWith_cases)
  case (1 x)
  with assms(2,3) show ?thesis
    by (cases "m_bSynchronized (nt_stsTime tick)") (auto simp: act_simps thenA_def bindA_Inr dest!: roundAck_flag)
next
  case (2 e s')
  with assms(2,3) show ?thesis
    by (auto simp: act_simps thenA_def bindA_Inr dest!: roundAck_flag)
qed

text \<open>C25. A start command in any state a node reaches, when it is answered with an acknowledgement. Accepted:
  the clock was synchronized, and both runtimes, as far as they are configured, of which at least one is,
  run the round of the command on one timeline, interval 1 at its timestamp. Rejected: the clock was not
  synchronized and nothing has changed, or nothing runs any more, not even a round that ran before.\<close>

theorem start_all_or_nothing:
  assumes "mkNodeRuntime env = Inr nd0" and "nd = run_ops (node_step env) ops nd0"
    and start: "cmd_cmdCommand cmd = CommandStart"
    and answer: "msgApplyRoundCommand env tick cmd nd = (Inr (RoundAckMessage rak), nd')"
  shows "if rak_bAccepted rak
    then m_bSynchronized (nt_stsTime tick) \<and> roundStarted cmd nd'
      \<and> rt_bConfigured (nd_runReceiver nd') = rt_bConfigured (nd_runReceiver nd)
      \<and> sn_bConfigured (nd_runSender nd') = sn_bConfigured (nd_runSender nd)
      \<and> (rt_bConfigured (nd_runReceiver nd) \<or> sn_bConfigured (nd_runSender nd))
    else \<not> m_bSynchronized (nt_stsTime tick) \<and> nd' = nd
      \<or> \<not> bSenderRunning nd' \<and> \<not> bReceiverRoundRunning nd'
        \<and> (\<forall>(k, rs) \<in> set (rt_mapStates (nd_runReceiver nd')). \<not> waiting rs)"
  using answer unfolding msgApplyRoundCommand_def
proof (cases rule: catchWith_cases)
  case (1 x)
  show ?thesis
  proof (cases "m_bSynchronized (nt_stsTime tick)")
    case False
    with 1 start have "msgRoundAcknowledgement cmd False ''TIME_UNSYNCHRONIZED''
        (m_strSynchronizationMessage (nt_stsTime tick)) = Inr (RoundAckMessage rak)" "nd' = nd"
      by (auto simp: act_simps)
    with roundAck_flag [OF this(1)] False show ?thesis by auto
  next
    case True
    with 1 start have "startRound env tick cmd nd = (Inr (), nd')"
      and m: "msgRoundAcknowledgement cmd True [] ''Authentication round command accepted'' = Inr (RoundAckMessage rak)"
      by (auto simp: act_simps thenA_def bindA_Inr)
    note S = startRound_started [OF this(1)]
    from roundAck_flag [OF m] S True show ?thesis by auto
  qed
next
  case (2 e s')
  have "nodePath env nd s'"
    using path_command [of env nd tick cmd CommandStart] 2(1) start
    by (auto simp: act_simps thenA_def bindA_cases path.rel_refl split: if_splits sum.splits)
  moreover have "nodePath env nd0 nd" using path_run assms(2) by simp
  ultimately have "nodePath env nd0 s'" by (rule path.rel_trans [rotated])
  with new_node [OF assms(1)] obtain recs where "list_all (built_op \<circ> snd) recs"
    "nd_runReceiver s' = run_ops (timed_step (ne_ssl env) True) recs new_receiver_runtime"
    by (auto simp: nodePath_def receiverPath_def)
  with runtime_history_ok have "runtime_ok (ne_ssl env) (nd_runReceiver s')" by metis
  from node_stop_returns [OF this] obtain t where t: "node_stop env tick s' = (Inr (), t)" "idleNode t" by blast
  with 2(2) start have "nd' = t" and m: "msgRoundAcknowledgement cmd False ''ROUND_COMMAND_REJECTED'' (exn_what e)
      = Inr (RoundAckMessage rak)"
    by (auto simp: act_simps thenA_def bindA_def)
  with t(2) roundAck_flag [OF m] show ?thesis by (auto simp: idleNode_def waiting_def)
qed

end
