(* ===== verification/NodeSamples.thy ===== *)
theory NodeSamples
  imports NodeTheorems
begin

definition one_tick :: "nat \<Rightarrow> node_tick" where
  "one_tick t = \<lparr>nt_tick = tick_at t, nt_stsTime = \<lparr>m_bSynchronized = True, m_u32ToleranceMilliseconds = 5,
     m_strSynchronizationMessage = ''synchronized''\<rparr>, nt_bPersisted = True, nt_durWorstGeneration = 0\<rparr>"

definition one_node_env :: "nat node_env" where
  "one_node_env = \<lparr>ne_ssl = sample_ssl, ne_shuffle = (\<lambda>_ xs. xs), ne_strNodeName = ''S'',
     ne_strLocalIpAddress = ''10.0.0.1'', ne_strGitCommit = ''unknown'', ne_bRecoveredFile = False, ne_bObserve = True,
     ne_bKeyChain = False, ne_bMetrics = False\<rparr>"

definition one_control :: round_control where
  "one_control = \<lparr>rpc_algCryptoAlgorithm = AlgSha256, rpc_modeAuthentication = Native, rpc_u32TotalPacketCount = 1,
     rpc_u32PacketsPerInterval = 1, rpc_u32DisclosureDelay = 1, rpc_u32IntervalMilliseconds = 100,
     rpc_u64StartTimestampMilliseconds = 1000, rpc_u32ChainLength = 2, rpc_optImprovedParameters = None,
     rpc_modePayload = ControlText\<rparr>"

definition one_config :: sender_config where
  "one_config = \<lparr>scf_strRequestId = ''q'', scf_strSenderId = ''S'', scf_u64ChainId = 7, scf_arrChainSeed = sample_key,
     scf_arrCommitmentKey = sample_key, scf_prmRoundParameters = one_control\<rparr>"

definition one_text :: text_payload_control where
  "one_text = \<lparr>tpc_strRequestId = ''q'', tpc_u64ChainId = 7, tpc_strUtf8Text = ''A''\<rparr>"

lemma one_env_sender [simp]:
  "se_ssl (ne_sender one_node_env) = sample_ssl" "se_bKeyChain (ne_sender one_node_env)" "se_bMetrics (ne_sender one_node_env)"
  "prepareRound (ne_sender one_node_env) = prepareRound quiet_env"
  by (simp_all add: ne_sender_def one_node_env_def) (intro ext, simp add: prepareRound_def Let_def)

lemma one_candidate: "ctxCandidate one_node_env one_config = Inr one_sender"
proof -
  have "prmMap one_control = Inr one_round" by code_simp
  moreover have "mkSenderMaterial ''S'' 7 (block_bytes sample_key) sample_key one_round = Inr one_material" by code_simp
  moreover have "prm_algCryptoAlgorithm one_round = Sha256" by (simp add: one_round_def)
  ultimately show ?thesis using one_verified by (simp add: ctxCandidate_def one_config_def one_node_env_def)
qed

definition one_archive :: archive_configuration where
  "one_archive = \<lparr>cfg_modeAuthentication = MetricNative, cfg_strCryptoAlgorithm = ''SHA-256'', cfg_strPayloadHash = [],
     cfg_u32PacketCount = 1, cfg_u32PacketsPerInterval = 1, cfg_u32IntervalMilliseconds = 100,
     cfg_u32DisclosureDelay = 1, cfg_u32GroupSize = 0, cfg_u32DetectionThreshold = 0\<rparr>"

lemma one_archive: "cfgArchive one_round = Inr one_archive"
  by (simp add: cfgArchive_def one_round_def mkRoundArchiveConfiguration_def one_archive_def)

definition idle_sender :: sender_runtime where
  "idle_sender = sender_initial\<lparr>sn_bStopRequested := True\<rparr>"

lemma one_reset:
  assumes "nd_runSender nd = sender_initial"
  shows "senderCall one_node_env (one_tick 100) SnResetConfiguration nd = (Inr (), nd\<lparr>nd_runSender := idle_sender\<rparr>)"
proof -
  have "sn_pc sender_initial = PcIdle" by (simp add: sender_initial_def)
  with assms show ?thesis
    by (simp add: senderCall_def sender_call_def sn_resetConfiguration_def act_simps idle_stop idle_sender_def)
      (simp add: sender_initial_def)
qed

lemma one_configured:
  assumes "nd_runSender nd = sender_initial"
  shows "\<exists>m. msgApplySenderConfig one_node_env (one_tick 100) one_config nd
    = (Inr m, installSenderContext one_config one_sender one_archive (nd\<lparr>nd_runSender := idle_sender\<rparr>))"
proof -
  have "\<exists>m. msgConfigAcknowledgement ''q'' TargetSender True [] ''Sender authentication configuration accepted'' = Inr m"
    by (simp add: msgConfigAcknowledgement_def mkConfigAcknowledgement_def controlText_def)
  moreover have "scf_strSenderId one_config = ne_strNodeName one_node_env" "scf_strRequestId one_config = ''q''"
    "\<not> sn_bRunning (nd_runSender nd)"
    using assms by (simp_all add: one_config_def one_node_env_def sender_initial_def)
  ultimately show ?thesis
    by (auto simp: msgApplySenderConfig_def catchWith_def act_simps one_candidate one_sender_ok(2) one_archive
        thenA_def bindA_def [of "senderCall _ _ _"] one_reset [OF assms])
qed

definition ready_sender :: "interval_datagrams list \<Rightarrow> local_key_chain_snapshot \<Rightarrow> sender_runtime" where
  "ready_sender ints snp = idle_sender\<lparr>sn_optSenderContext := Some one_sender, sn_optPayloadWorkload := Some one_workload,
     sn_vecIntervals := ints, sn_bConfigured := True, sn_out := [EvKeyChain (ObsKeyChainSnapshot snp)]\<rparr>"

lemma one_prepare:
  assumes p: "prepareRound quiet_env one_sender one_workload 0 = Inr (ints, snp)" and nd: "nd_runSender nd = idle_sender"
  shows "senderCall one_node_env (one_tick 100) (SnConfigure one_sender one_workload 0) nd
    = (Inr (), nd\<lparr>nd_runSender := ready_sender ints snp\<rparr>)"
proof -
  have "sn_pc idle_sender = PcIdle" by (simp add: idle_sender_def sender_initial_def)
  with nd show ?thesis
    by (simp add: senderCall_def sender_call_def sn_configure_def act_simps idle_stop liftA_then p
        emitLocalKeyChainObservation_def logEvent_def ready_sender_def processLocalKeyChainObservation_def)
      (simp add: idle_sender_def sender_initial_def processLocalKeyChainObservation_def one_node_env_def)
qed

lemma one_members:
  "snd_matMaterial one_sender = one_material" "mat_strSenderId one_material = ''S''" "mat_u64ChainId one_material = 7"
  "prm_u32TotalPacketCount one_round = 1" "nt_durWorstGeneration (one_tick 100) = 0" "ne_ssl one_node_env = sample_ssl"
  by (simp_all add: one_sender_def one_material_def one_round_def one_tick_def one_node_env_def)

lemma one_hashed:
  assumes "nd_mapArchiveContexts nd (''S'', 7) = Some arch" "arch_cfgConfiguration arch = one_archive"
  shows "\<exists>arch'. hashArchive one_sender (strPayloadSha256 sample_ssl (strBytes ''A'')) nd = (Inr (), setArchive (''S'', 7) arch' nd)"
proof -
  have "isl (strPayloadSha256 sample_ssl (strBytes ''A'')) = False" by code_simp
  then obtain h where "strPayloadSha256 sample_ssl (strBytes ''A'') = Inr h"
    by (cases "strPayloadSha256 sample_ssl (strBytes ''A'')") auto
  moreover obtain cfg where "cfgWithPayloadHash one_archive h = Inr cfg"
    by (simp add: cfgWithPayloadHash_def one_archive_def mkRoundArchiveConfiguration_def)
  ultimately show ?thesis using assms by (auto simp: hashArchive_def Let_def act_simps one_members)
qed

lemma one_texted:
  assumes p: "prepareRound quiet_env one_sender one_workload 0 = Inr (ints, snp)"
    and nd: "nd_runSender nd = idle_sender" "nd_optSenderContext nd = Some one_sender"
      "nd_mapArchiveContexts nd (''S'', 7) = Some arch" "arch_cfgConfiguration arch = one_archive"
  shows "\<exists>m arch'. msgApplyTextPayload one_node_env (one_tick 100) one_text nd
    = (Inr m, setArchive (''S'', 7) arch' (nd\<lparr>nd_runSender := ready_sender ints snp\<rparr>))"
proof -
  have "\<exists>m. msgConfigAcknowledgement ''q'' TargetTextPayload True [] ''Text payload accepted and sender schedule prepared'' = Inr m"
    by (simp add: msgConfigAcknowledgement_def mkConfigAcknowledgement_def controlText_def)
  then obtain m where m: "msgConfigAcknowledgement ''q'' TargetTextPayload True []
      ''Text payload accepted and sender schedule prepared'' = Inr m" ..
  have wrk: "andThen (mkTextPayload ''A'') (\<lambda>pld. mkTextWorkload pld 1)
      = Inr \<lparr>m_pldPayload = \<lparr>m_strUtf8Text = ''A'', m_arrMessage = block_of [65]\<rparr>, m_u32TextPacketCount = 1\<rparr>"
    by code_simp
  let ?nd = "nd\<lparr>nd_runSender := ready_sender ints snp\<rparr>"
  obtain arch' where h: "hashArchive one_sender (strPayloadSha256 sample_ssl (strBytes ''A'')) ?nd = (Inr (), setArchive (''S'', 7) arch' ?nd)"
    using one_hashed [of ?nd arch] nd(3,4) by auto
  note c = one_prepare [OF p nd(1), unfolded one_workload_def]
  have "msgApplyTextPayload one_node_env (one_tick 100) one_text nd = (Inr m, setArchive (''S'', 7) arch' ?nd)"
    using nd(2)
    by (simp add: msgApplyTextPayload_def catchWith_def act_simps one_text_def one_sender_ok(2) one_members wrk
        thenA_def bindA_def [of "senderCall _ _ _"] c bindA_def [of "hashArchive _ _"] h m)
  then show ?thesis by blast
qed

definition one_start :: round_command where
  "one_start = \<lparr>cmd_strRequestId = ''q'', cmd_strRoundId = ''r'', cmd_cmdCommand = CommandStart,
     cmd_u64ExecutionTimestampMilliseconds = 1000, cmd_u32LogicalIntervalIndex = 1\<rparr>"

definition one_node_ops :: "(node_tick \<times> node_op) list" where
  "one_node_ops = [(one_tick 100, NodeMessage Manager (SenderConfigMessage one_config)),
     (one_tick 100, NodeMessage Manager (TextPayloadMessage one_text))]"

text \<open>A node with its sender configured and the payload prepared.\<close>

definition ready_node :: "interval_datagrams list \<Rightarrow> local_key_chain_snapshot \<Rightarrow> node_runtime \<Rightarrow> bool" where
  "ready_node ints snp nd \<longleftrightarrow> nd_runSender nd = ready_sender ints snp \<and> nd_runReceiver nd = new_receiver_runtime
     \<and> nd_optSenderContext nd = Some one_sender \<and> \<not> nd_bTerminated nd"

lemma message_step:
  assumes "\<not> nd_bTerminated nd" "sn_pc (nd_runSender nd) = PcIdle" "applyControl env tick msg nd = (Inr m, nd')"
  shows "snd (node_step env (tick, NodeMessage Manager msg) nd) = nd'"
  using assms by (simp add: node_step_def msgHandleControl_def bindA_def act_simps)

lemma one_ready:
  obtains nd0 ints snp where "mkNodeRuntime one_node_env = Inr nd0"
    "ready_node ints snp (run_ops (node_step one_node_env) one_node_ops nd0)"
proof -
  obtain nd0 where nd0: "mkNodeRuntime one_node_env = Inr nd0"
    by (simp add: mkNodeRuntime_def one_node_env_def mkObservationStore_def mkMetricStore_def)
  have new: "nd_runSender nd0 = sender_initial" "nd_runReceiver nd0 = new_receiver_runtime" "\<not> nd_bTerminated nd0"
    using nd0 by (auto simp: mkNodeRuntime_def andThen_Inr_iff split: if_splits)
  obtain ints snp where p: "prepareRound quiet_env one_sender one_workload 0 = Inr (ints, snp)"
    using one_prepared by (auto simp: one_prepared_def split: sum.splits)
  let ?nd1 = "installSenderContext one_config one_sender one_archive (nd0\<lparr>nd_runSender := idle_sender\<rparr>)"
  obtain m1 where 1: "msgApplySenderConfig one_node_env (one_tick 100) one_config nd0 = (Inr m1, ?nd1)"
    using one_configured [OF new(1)] by blast
  have nd1: "nd_runSender ?nd1 = idle_sender" "nd_optSenderContext ?nd1 = Some one_sender"
    "nd_runReceiver ?nd1 = new_receiver_runtime" "\<not> nd_bTerminated ?nd1"
    using new by (simp_all add: installSenderContext_def setArchive_def)
  obtain arch where "nd_mapArchiveContexts ?nd1 (''S'', 7) = Some arch" "arch_cfgConfiguration arch = one_archive"
    by (simp add: installSenderContext_def setArchive_def one_config_def)
  with one_texted [OF p nd1(1,2)] obtain m2 arch' where 2: "msgApplyTextPayload one_node_env (one_tick 100) one_text ?nd1
      = (Inr m2, setArchive (''S'', 7) arch' (?nd1\<lparr>nd_runSender := ready_sender ints snp\<rparr>))"
    by blast
  have pc: "sn_pc sender_initial = PcIdle" "sn_pc idle_sender = PcIdle"
    by (simp_all add: idle_sender_def sender_initial_def)
  have "run_ops (node_step one_node_env) one_node_ops nd0
      = setArchive (''S'', 7) arch' (?nd1\<lparr>nd_runSender := ready_sender ints snp\<rparr>)"
    by (simp add: one_node_ops_def message_step [OF new(3) _ applyControl.simps(1) [THEN fun_cong, THEN trans, OF 1]]
        message_step [OF nd1(4) _ applyControl.simps(3) [THEN fun_cong, THEN trans, OF 2]] new(1) nd1(1) pc)
  then have "ready_node ints snp (run_ops (node_step one_node_env) one_node_ops nd0)"
    using nd1 by (simp add: ready_node_def setArchive_def)
  with nd0 show thesis by (rule that)
qed

text \<open>The start of a round in it.\<close>

lemma one_starts:
  assumes "ready_node ints snp nd"
  shows "\<exists>rak nd'. msgApplyRoundCommand one_node_env (one_tick 200) one_start nd = (Inr (RoundAckMessage rak), nd')
    \<and> rak_bAccepted rak"
proof -
  note R = assms [unfolded ready_node_def]
  have pc: "sn_pc (ready_sender ints snp) = PcIdle" "sn_bConfigured (ready_sender ints snp)"
    by (simp_all add: ready_sender_def idle_sender_def sender_initial_def)
  have "\<exists>rt. sender_call (ne_sender one_node_env) (tick_at 200, SnStart ''r'' 1000) (ready_sender ints snp) = (Inr (), rt)"
    using pc
    by (simp add: sender_call_def sn_start_def act_simps idle_stop thenA_def bindA_cases renewFaultPolicy_def beginRound_def)
      (simp add: ready_sender_def idle_sender_def sender_initial_def tick_at_def act_simps)
  then have start: "\<exists>nd2. senderCall one_node_env (one_tick 200) (SnStart ''r'' 1000) nd1 = (Inr (), nd2)"
    if "nd_runSender nd1 = ready_sender ints snp" for nd1
    using that by (auto simp: senderCall_def one_tick_def)
  have "\<exists>sto. sto_beginRound ''r'' (nd_stoObservations nd) = (Inr (), sto)"
    by (simp add: sto_beginRound_def act_simps)
  then obtain nd1 where b: "node_beginRound ''r'' nd = (Inr (), nd1)"
    by (auto simp: node_beginRound_def zoomA_def)
  then have "nd_runSender nd1 = ready_sender ints snp" using R by (auto simp: node_beginRound_def zoomA_def split: prod.splits)
  then obtain nd2 where s: "senderCall one_node_env (one_tick 200) (SnStart ''r'' 1000) nd1 = (Inr (), nd2)" using start by blast
  have "\<not> rt_bConfigured new_receiver_runtime" by (simp add: new_receiver_runtime_def)
  with R pc b s have "commandRound one_node_env (one_tick 200) one_start CommandStart nd = (Inr (), nd2)"
    by (simp add: startRound_def act_simps one_start_def thenA_def bindA_def)
  moreover have "\<exists>rak. msgRoundAcknowledgement one_start True [] ''Authentication round command accepted'' = Inr (RoundAckMessage rak)
      \<and> rak_bAccepted rak"
    by (simp add: msgRoundAcknowledgement_def mkRoundAcknowledgement_def controlText_def one_start_def)
  moreover have "cmd_cmdCommand one_start = CommandStart" "m_bSynchronized (nt_stsTime (one_tick 200))"
    by (simp_all add: one_start_def one_tick_def)
  ultimately show ?thesis
    by (auto simp: msgApplyRoundCommand_def catchWith_def thenA_def bindA_def act_simps split: if_splits)
qed

section \<open>The theorems applied to it\<close>

theorem node_drives_runtimes_witness:
  "\<exists>nd0 nd. mkNodeRuntime one_node_env = Inr nd0 \<and> nd = run_ops (node_step one_node_env) one_node_ops nd0
     \<and> sn_optSenderContext (nd_runSender nd) = Some one_sender \<and> built_sender one_sender"
proof -
  obtain nd0 ints snp where nd0: "mkNodeRuntime one_node_env = Inr nd0"
    and r: "ready_node ints snp (run_ops (node_step one_node_env) one_node_ops nd0)" by (rule one_ready)
  have "sn_optSenderContext (nd_runSender (run_ops (node_step one_node_env) one_node_ops nd0)) = Some one_sender"
    using r by (simp add: ready_node_def ready_sender_def)
  with node_drives_runtimes [OF nd0 refl, of one_node_ops] nd0 show ?thesis by blast
qed

theorem start_all_or_nothing_witness:
  "\<exists>nd rak nd'. msgApplyRoundCommand one_node_env (one_tick 200) one_start nd = (Inr (RoundAckMessage rak), nd')
     \<and> rak_bAccepted rak \<and> roundStarted one_start nd' \<and> bSenderRunning nd'"
proof -
  obtain nd0 ints snp where nd0: "mkNodeRuntime one_node_env = Inr nd0"
    and r: "ready_node ints snp (run_ops (node_step one_node_env) one_node_ops nd0)" by (rule one_ready)
  obtain rak nd' where s: "msgApplyRoundCommand one_node_env (one_tick 200) one_start
      (run_ops (node_step one_node_env) one_node_ops nd0) = (Inr (RoundAckMessage rak), nd')" and a: "rak_bAccepted rak"
    using one_starts [OF r] by blast
  have c: "cmd_cmdCommand one_start = CommandStart" by (simp add: one_start_def)
  have "sn_bConfigured (nd_runSender (run_ops (node_step one_node_env) one_node_ops nd0))"
    using r by (simp add: ready_node_def ready_sender_def)
  with start_all_or_nothing [OF nd0 refl c s] a have "roundStarted one_start nd'" "sn_bConfigured (nd_runSender nd')"
    by simp_all
  with s a show ?thesis unfolding roundStarted_def bSenderRunning_def by blast
qed

text \<open>A node stopped in a running round.\<close>

theorem node_stop_ends_rounds_witness:
  "\<exists>nd nd'. bSenderRunning nd \<and> node_stop one_node_env (one_tick 300) nd = (Inr (), nd') \<and> \<not> bSenderRunning nd'
     \<and> sn_pc (nd_runSender nd') = PcIdle"
proof -
  obtain nd0 ints snp where nd0: "mkNodeRuntime one_node_env = Inr nd0"
    and r: "ready_node ints snp (run_ops (node_step one_node_env) one_node_ops nd0)" by (rule one_ready)
  let ?nd = "run_ops (node_step one_node_env) one_node_ops nd0"
  let ?ops = "one_node_ops @ [(one_tick 200, NodeMessage Manager (RoundCommandMessage one_start))]"
  obtain rak nd1 where s: "msgApplyRoundCommand one_node_env (one_tick 200) one_start ?nd = (Inr (RoundAckMessage rak), nd1)"
    and a: "rak_bAccepted rak"
    using one_starts [OF r] by blast
  have "startRound one_node_env (one_tick 200) one_start ?nd = (Inr (), nd1)"
    using s a by (rule accepted_start) (simp add: one_start_def)
  note S = startRound_started [OF this]
  have "sn_bConfigured (nd_runSender ?nd)" using r by (simp add: ready_node_def ready_sender_def)
  with S have run: "bSenderRunning nd1" "sn_pc (nd_runSender nd1) = PcWaitStart"
    by (simp_all add: roundStarted_def bSenderRunning_def)
  have "sn_pc (nd_runSender ?nd) = PcIdle" "\<not> nd_bTerminated ?nd"
    using r by (simp_all add: ready_node_def ready_sender_def idle_sender_def sender_initial_def)
  then have "run_ops (node_step one_node_env) ?ops nd0 = nd1"
    by (simp add: run_ops_append message_step [where m = "RoundAckMessage rak"] s)
  from node_stop_ends_rounds [OF nd0 this [symmetric], of "one_tick 300"] obtain nd' where
    "node_stop one_node_env (one_tick 300) nd1 = (Inr (), nd')" "\<not> bSenderRunning nd'"
    "sn_pc (nd_runSender nd') = (if sn_pc (nd_runSender nd1) = PcTerminated then PcTerminated else PcIdle)" by blast
  with run show ?thesis by auto
qed

theorem monitor_changes_nothing_witness:
  "\<exists>nd m. mkNodeRuntime one_node_env = Inr nd \<and> fst (msgHandleControl one_node_env (one_tick 200) MonitorClient
     (SenderConfigMessage one_config) nd) = Inr m \<and> refusal m"
proof -
  obtain nd where nd: "mkNodeRuntime one_node_env = Inr nd"
    by (simp add: mkNodeRuntime_def one_node_env_def mkObservationStore_def mkMetricStore_def)
  have "builtMessage (SenderConfigMessage one_config)"
    by (simp add: mkSenderConfig_def one_config_def controlText_def)
  from monitor_changes_nothing [OF this, of one_node_env "one_tick 200" nd] nd show ?thesis by auto
qed

end
