(* ===== verification/NodeAgent.thy ===== *)
theory NodeAgent
  imports NodeRuntime FileUpload
begin

text \<open>
  The node agent: \<open>TcpManagementServer.cpp\<close>, which turns the bytes of its management clients into calls of
  the node and sends them answers and events, and \<open>NodeAgentService.cpp\<close>, which joins it to the node. A
  client connection is the server's record of it together with the locals of its \<open>clientLoop\<close>. Sockets are
  a parameter: what arrives is an argument of a step, and \<open>at_bSend\<close> answers the sends. An exception that
  leaves a thread ends the process. The codec of \<open>NodeControlJsonCodec.cpp\<close> is a parameter.
\<close>

section \<open>Members\<close>

record control_codec =
  js_bObject :: "byte list \<Rightarrow> bool"
  js_strEncode :: "control_message \<Rightarrow> byte list result"
  js_resDecode :: "byte list \<Rightarrow> control_message decoded"

record 'g agent_env =
  ae_codec :: control_codec
  ae_ssl :: "'g openssl"
  ae_shuffle :: shuffle
  ae_strNodeName :: string
  ae_strBindAddress :: string
  ae_strGitCommit :: string

text \<open>The callbacks the service gives its node: all but the one for key chains.\<close>

definition ae_node :: "'g agent_env \<Rightarrow> 'g node_env" where
  "ae_node env = \<lparr>ne_ssl = ae_ssl env, ne_shuffle = ae_shuffle env, ne_strNodeName = ae_strNodeName env,
     ne_strLocalIpAddress = ae_strBindAddress env, ne_strGitCommit = ae_strGitCommit env, ne_bRecoveredFile = True,
     ne_bObserve = True, ne_bKeyChain = False, ne_bMetrics = True\<rparr>"

text \<open>The answer of \<open>bSendAll\<close> to a client, by the number of frames it was given before.\<close>

record agent_tick =
  at_tick :: node_tick
  at_bSend :: "nat \<Rightarrow> nat \<Rightarrow> bool"

definition MAX_CLIENTS :: nat where "MAX_CLIENTS = 32"

definition MAX_MONITOR_EVENT_QUEUE :: nat where "MAX_MONITOR_EVENT_QUEUE = 4096"

definition ABNORMAL_SNAPSHOT_BATCH_SIZE :: nat where "ABNORMAL_SNAPSHOT_BATCH_SIZE = 64"

definition MAX_METRIC_EVENT_QUEUE :: nat where "MAX_METRIC_EVENT_QUEUE = 8192"

definition METRIC_BATCH_SIZE :: nat where "METRIC_BATCH_SIZE = 64"

record client_connection =
  cl_bOpen :: bool
  cl_bHelloReceived :: bool
  cl_roleClient :: TcpClientRole
  cl_uplFile :: upload_session
  cl_decStream :: tcp_stream
  cl_vecSends :: "(bool \<times> byte list) list"

definition new_client :: client_connection where
  "new_client = \<lparr>cl_bOpen = True, cl_bHelloReceived = False, cl_roleClient = MonitorClient, cl_uplFile = new_upload,
     cl_decStream = \<lparr>m_nMaximumFrameLength = 16 * 1024 * 1024, m_vecPendingBytes = []\<rparr>, cl_vecSends = []\<rparr>"

text \<open>The broadcasting thread: at its first wait, in the wait for more metrics, or not there.\<close>

datatype broadcast_pc = BcIdle | BcBatching | BcReturned

record management_server =
  srv_bRunning :: bool
  srv_vecClients :: "client_connection list"
  srv_deqMonitorQueue :: "control_message list"
  srv_deqMetricQueue :: "metric_record list"
  srv_nDroppedMonitorEventCount :: nat
  srv_bPreferMetricBatch :: bool
  srv_pc :: broadcast_pc

record node_agent =
  ag_run :: node_runtime
  ag_srv :: management_server
  ag_bRunning :: bool
  ag_bReceiverRunning :: bool
  ag_nReceivedDatagramCount :: nat
  ag_bTerminated :: bool

definition new_server :: management_server where
  "new_server = \<lparr>srv_bRunning = False, srv_vecClients = [], srv_deqMonitorQueue = [], srv_deqMetricQueue = [],
     srv_nDroppedMonitorEventCount = 0, srv_bPreferMetricBatch = True, srv_pc = BcReturned\<rparr>"

definition mkNodeAgent :: "'g agent_env \<Rightarrow> node_agent result" where
  "mkNodeAgent env =
     andThen (mkNodeRuntime (ae_node env)) (\<lambda>run.
       Inr \<lparr>ag_run = run, ag_srv = new_server, ag_bRunning = False, ag_bReceiverRunning = False,
         ag_nReceivedDatagramCount = 0, ag_bTerminated = False\<rparr>)"

section \<open>Sending\<close>

definition updClient :: "nat \<Rightarrow> (client_connection \<Rightarrow> client_connection) \<Rightarrow> management_server \<Rightarrow> management_server" where
  "updClient i f srv = srv\<lparr>srv_vecClients := (srv_vecClients srv)[i := f (srv_vecClients srv ! i)]\<rparr>"

definition closeClient :: "nat \<Rightarrow> management_server \<Rightarrow> management_server" where
  "closeClient i = updClient i (\<lambda>cl. cl\<lparr>cl_bOpen := False\<rparr>)"

definition vecEncodeControl :: "control_codec \<Rightarrow> control_message \<Rightarrow> byte list result" where
  "vecEncodeControl cdc msg =
     andThen (js_strEncode cdc msg) (\<lambda>strJson.
     andThen (mkJsonControlFramePayload (js_bObject cdc) strJson) (\<lambda>vecPayload.
       tcp_vecEncode (JsonControlFrame vecPayload)))"

definition bSendControlMessage :: "control_codec \<Rightarrow> agent_tick \<Rightarrow> nat \<Rightarrow> control_message \<Rightarrow> management_server
    \<Rightarrow> bool \<times> management_server" where
  "bSendControlMessage cdc tick i msg srv =
     (case vecEncodeControl cdc msg of
        Inl _ \<Rightarrow> (False, srv)
      | Inr vecResponse \<Rightarrow>
          let cl = srv_vecClients srv ! i in
          if \<not> cl_bOpen cl then (False, srv)
          else let bSent = at_bSend tick i (length (cl_vecSends cl)) in
            (bSent, updClient i (\<lambda>cl. cl\<lparr>cl_vecSends := cl_vecSends cl @ [(bSent, vecResponse)]\<rparr>) srv))"

definition broadcastControlMessage :: "control_codec \<Rightarrow> agent_tick \<Rightarrow> control_message \<Rightarrow> management_server
    \<Rightarrow> management_server" where
  "broadcastControlMessage cdc tick msg srv =
     fold (\<lambda>i srv. if cl_bHelloReceived (srv_vecClients srv ! i) then snd (bSendControlMessage cdc tick i msg srv) else srv)
       [0..<length (srv_vecClients srv)] srv"

definition sendToMonitors :: "control_codec \<Rightarrow> agent_tick \<Rightarrow> control_message \<Rightarrow> management_server \<Rightarrow> management_server"
where
  "sendToMonitors cdc tick msg srv =
     fold (\<lambda>i srv.
         if \<not> cl_bHelloReceived (srv_vecClients srv ! i) \<or> cl_roleClient (srv_vecClients srv ! i) \<noteq> MonitorClient then srv
         else case bSendControlMessage cdc tick i msg srv of (bSent, srv) \<Rightarrow> if bSent then srv else closeClient i srv)
       [0..<length (srv_vecClients srv)] srv"

section \<open>The queues of events\<close>

fun observationMessage :: "observation \<Rightarrow> control_message" where
  "observationMessage (ObsPacket po) = PacketEventMessage po"
| "observationMessage (ObsFailure pf) = FailureEventMessage pf"
| "observationMessage (ObsGroup go) = GroupEventMessage go"
| "observationMessage (ObsDosSummary ds) = DosEventMessage ds"

definition countDropped :: "management_server \<Rightarrow> management_server" where
  "countDropped srv = srv\<lparr>srv_nDroppedMonitorEventCount := srv_nDroppedMonitorEventCount srv + 1\<rparr>"

definition bNormalPacket :: "control_message \<Rightarrow> bool" where
  "bNormalPacket msg = (typeMessage msg = MsgPacketObservationEvent)"

text \<open>A full queue gives the room of its oldest packet event to a failure.\<close>

definition enqueueMonitorObservation :: "observation \<Rightarrow> management_server \<Rightarrow> management_server" where
  "enqueueMonitorObservation ob srv =
     (let msg = observationMessage ob; deq = srv_deqMonitorQueue srv in
      if length deq \<ge> MAX_MONITOR_EVENT_QUEUE
      then if typeMessage msg = MsgPacketFailureEvent \<and> list_ex bNormalPacket deq
        then countDropped (srv\<lparr>srv_deqMonitorQueue := eraseFirst bNormalPacket deq @ [msg]\<rparr>)
        else countDropped srv
      else srv\<lparr>srv_deqMonitorQueue := deq @ [msg]\<rparr>)"

definition enqueueMonitorMetric :: "metric_record \<Rightarrow> management_server \<Rightarrow> management_server" where
  "enqueueMonitorMetric varMetric srv =
     (if length (srv_deqMetricQueue srv) \<ge> MAX_METRIC_EVENT_QUEUE then countDropped srv
      else srv\<lparr>srv_deqMetricQueue := srv_deqMetricQueue srv @ [varMetric]\<rparr>)"

section \<open>The broadcasting thread\<close>

definition takeMetricBatch :: "(management_server, control_message) act" where
  "takeMetricBatch =
     bindA (getA srv_deqMetricQueue) (\<lambda>deq.
       thenA (modifyA (\<lambda>srv. srv\<lparr>srv_deqMetricQueue := drop METRIC_BATCH_SIZE deq, srv_pc := BcIdle\<rparr>))
       (bindA (liftA (mkMetricEvent (take METRIC_BATCH_SIZE deq))) (\<lambda>vecRecords. retA (MetricEventMessage vecRecords))))"

definition takeObservation :: "(management_server, control_message) act" where
  "takeObservation =
     bindA (getA srv_deqMonitorQueue) (\<lambda>deq.
       thenA (modifyA (\<lambda>srv. srv\<lparr>srv_deqMonitorQueue := tl deq\<rparr>)) (retA (hd deq)))"

text \<open>From the first wait: which queue is served, and whether a short metric batch waits for more.\<close>

definition chooseQueue :: "(management_server, control_message option) act" where
  "chooseQueue =
     bindA (getA id) (\<lambda>srv.
       let bHasMetrics = (srv_deqMetricQueue srv \<noteq> []); bHasObservations = (srv_deqMonitorQueue srv \<noteq> []);
           bSendMetricBatch = (bHasMetrics \<and> (\<not> bHasObservations \<or> srv_bPreferMetricBatch srv)) in
       thenA (whenA (bHasMetrics \<and> bHasObservations)
          (modifyA (\<lambda>srv. srv\<lparr>srv_bPreferMetricBatch := \<not> srv_bPreferMetricBatch srv\<rparr>)))
       (if bSendMetricBatch
        then if length (srv_deqMetricQueue srv) < METRIC_BATCH_SIZE \<and> \<not> bHasObservations \<and> srv_bRunning srv
          then thenA (modifyA (\<lambda>srv. srv\<lparr>srv_pc := BcBatching\<rparr>)) (retA None)
          else bindA takeMetricBatch (\<lambda>msg. retA (Some msg))
        else bindA takeObservation (\<lambda>msg. retA (Some msg))))"

text \<open>From one wait of the thread to the next, or to its end.\<close>

definition broadcastTurn :: "control_codec \<Rightarrow> agent_tick \<Rightarrow> (management_server, unit) act" where
  "broadcastTurn cdc tick =
     bindA (getA id) (\<lambda>srv.
       case srv_pc srv of
         BcReturned \<Rightarrow> retA ()
       | BcIdle \<Rightarrow>
           if srv_deqMonitorQueue srv = [] \<and> srv_deqMetricQueue srv = []
           then whenA (\<not> srv_bRunning srv) (modifyA (\<lambda>srv. srv\<lparr>srv_pc := BcReturned\<rparr>))
           else bindA chooseQueue (\<lambda>optMessage.
             case optMessage of None \<Rightarrow> retA () | Some msg \<Rightarrow> modifyA (sendToMonitors cdc tick msg))
       | BcBatching \<Rightarrow>
           thenA (whenA (srv_deqMonitorQueue srv \<noteq> []) (modifyA (\<lambda>srv. srv\<lparr>srv_bPreferMetricBatch := False\<rparr>)))
           (bindA takeMetricBatch (\<lambda>msg. modifyA (sendToMonitors cdc tick msg))))"

section \<open>The agent around the server\<close>

text \<open>The callbacks of the node, in the order they were called in.\<close>

fun agentCallback :: "control_codec \<Rightarrow> agent_tick \<Rightarrow> node_event \<Rightarrow> management_server \<Rightarrow> management_server" where
  "agentCallback cdc tick (NodeControl msg) = broadcastControlMessage cdc tick msg"
| "agentCallback cdc tick (NodeObservation ob) = enqueueMonitorObservation ob"
| "agentCallback cdc tick (NodeMetric varMetric) = enqueueMonitorMetric varMetric"
| "agentCallback cdc tick _ = id"

definition nodeCall :: "'g agent_env \<Rightarrow> agent_tick \<Rightarrow> (node_runtime, 'a) act \<Rightarrow> (node_agent, 'a) act" where
  "nodeCall env tick m ag =
     (case m (ag_run ag) of (r, run) \<Rightarrow>
        (r, ag\<lparr>ag_run := run, ag_srv := fold (agentCallback (ae_codec env) tick)
                (drop (length (nd_out (ag_run ag))) (nd_out run)) (ag_srv ag)\<rparr>))"

definition serverA :: "(management_server, 'a) act \<Rightarrow> (node_agent, 'a) act" where
  "serverA = zoomA ag_srv (\<lambda>srv ag. ag\<lparr>ag_srv := srv\<rparr>)"

definition clientOf :: "nat \<Rightarrow> node_agent \<Rightarrow> client_connection" where
  "clientOf i ag = srv_vecClients (ag_srv ag) ! i"

definition clientA :: "nat \<Rightarrow> (client_connection \<Rightarrow> client_connection) \<Rightarrow> (node_agent, unit) act" where
  "clientA i f = serverA (modifyA (updClient i f))"

definition uploadA :: "nat \<Rightarrow> (upload_session, 'a) act \<Rightarrow> (node_agent, 'a) act" where
  "uploadA i = zoomA (\<lambda>ag. cl_uplFile (clientOf i ag))
     (\<lambda>upl ag. ag\<lparr>ag_srv := updClient i (\<lambda>cl. cl\<lparr>cl_uplFile := upl\<rparr>) (ag_srv ag)\<rparr>)"

definition resetUpload :: "nat \<Rightarrow> (node_agent, unit) act" where
  "resetUpload i = uploadA i (modifyA upload_reset)"

text \<open>A message that is built and then sent.\<close>

definition answerA :: "'g agent_env \<Rightarrow> agent_tick \<Rightarrow> nat \<Rightarrow> control_message result \<Rightarrow> (node_agent, bool) act" where
  "answerA env tick i r = bindA (liftA r) (\<lambda>msg.
     serverA (\<lambda>srv. case bSendControlMessage (ae_codec env) tick i msg srv of (b, srv) \<Rightarrow> (Inr b, srv)))"

fun sendBatches :: "'g agent_env \<Rightarrow> agent_tick \<Rightarrow> nat \<Rightarrow> control_message result list \<Rightarrow> (node_agent, bool) act" where
  "sendBatches env tick i [] = retA True"
| "sendBatches env tick i (r # rs) =
     bindA (answerA env tick i r) (\<lambda>b. if b then sendBatches env tick i rs else retA False)"

definition errorMessage :: "string \<Rightarrow> string \<Rightarrow> string \<Rightarrow> control_message result" where
  "errorMessage strRequestId strErrorCode strMessage =
     andThen (mkErrorResponse \<lparr>ers_strRequestId = strRequestId, ers_strErrorCode = strErrorCode,
       ers_strMessage = strMessage\<rparr>) (\<lambda>ers. Inr (ErrorMessage ers))"

definition helloRequired :: "control_message result" where
  "helloRequired = errorMessage [] ''HELLO_REQUIRED'' ''CLIENT_HELLO must be the first control message''"

section \<open>Snapshots in batches\<close>

definition nBatchCount :: "nat \<Rightarrow> nat \<Rightarrow> nat" where
  "nBatchCount nSize nBatchSize = (nSize + nBatchSize - 1) div nBatchSize"

definition vecBatch :: "nat \<Rightarrow> nat \<Rightarrow> 'a list \<Rightarrow> 'a list" where
  "vecBatch nBatchSize nBatchIndex xs = take nBatchSize (drop (nBatchIndex * nBatchSize) xs)"

definition abnormalBatches :: "string \<Rightarrow> packet_observation list \<Rightarrow> packet_failure list \<Rightarrow> control_message result list" where
  "abnormalBatches strRequestId vecPackets vecFailures =
     (let nCount = max 1 (max (nBatchCount (length vecPackets) ABNORMAL_SNAPSHOT_BATCH_SIZE)
            (nBatchCount (length vecFailures) ABNORMAL_SNAPSHOT_BATCH_SIZE)) in
      map (\<lambda>n. andThen (mkAbnormalEventSnapshot
          \<lparr>as_strRequestId = strRequestId, as_u32Sequence = of_nat (n + 1), as_bFinalBatch = (n + 1 = nCount),
           as_vecPacketEvents = vecBatch ABNORMAL_SNAPSHOT_BATCH_SIZE n vecPackets,
           as_vecFailureEvents = vecBatch ABNORMAL_SNAPSHOT_BATCH_SIZE n vecFailures\<rparr>)
          (\<lambda>as. Inr (AbnormalSnapshotMessage as))) [0..<nCount])"

definition metricBatches :: "string \<Rightarrow> metric_record list \<Rightarrow> control_message result list" where
  "metricBatches strRequestId vecMetrics =
     (let nCount = max 1 (nBatchCount (length vecMetrics) METRIC_BATCH_SIZE) in
      map (\<lambda>n. andThen (mkMetricSnapshot
          \<lparr>msn_strRequestId = strRequestId, msn_u32Sequence = of_nat (n + 1), msn_bFinalBatch = (n + 1 = nCount),
           msn_vecRecords = vecBatch METRIC_BATCH_SIZE n vecMetrics\<rparr>)
          (\<lambda>msn. Inr (MetricSnapshotMessage msn))) [0..<nCount])"

section \<open>Frames of a client\<close>

definition handleChunk :: "'g agent_env \<Rightarrow> agent_tick \<Rightarrow> nat \<Rightarrow> file_chunk \<Rightarrow> (node_agent, bool) act" where
  "handleChunk env tick i chk =
     bindA (getA (clientOf i)) (\<lambda>cl.
       if \<not> cl_bHelloReceived cl then thenA (answerA env tick i helloRequired) (retA False)
       else if cl_roleClient cl = MonitorClient
       then answerA env tick i (errorMessage [] ''MONITOR_FILE_FORBIDDEN''
         ''Monitor clients cannot upload binary file chunks'')
       else catchWith (thenA (uploadA i (upload_append chk)) (retA True))
         (\<lambda>e. thenA (resetUpload i) (answerA env tick i (errorMessage [] ''INVALID_FILE_UPLOAD'' (exn_what e)))))"

fun handleHello :: "'g agent_env \<Rightarrow> agent_tick \<Rightarrow> nat \<Rightarrow> control_message \<Rightarrow> (node_agent, bool) act" where
  "handleHello env tick i (ClientHelloMessage roleClient) =
     thenA (clientA i (\<lambda>cl. cl\<lparr>cl_bHelloReceived := True, cl_roleClient := roleClient\<rparr>)) (retA True)"
| "handleHello env tick i _ = thenA (answerA env tick i helloRequired) (retA False)"

definition uploadRefused :: "string \<Rightarrow> string \<Rightarrow> string \<Rightarrow> control_message result" where
  "uploadRefused strRequestId strErrorCode strMessage =
     msgConfigAcknowledgement strRequestId TargetFilePayload False strErrorCode strMessage"

definition handleUploadBegin :: "'g agent_env \<Rightarrow> agent_tick \<Rightarrow> nat \<Rightarrow> upload_begin_control \<Rightarrow> (node_agent, bool) act" where
  "handleUploadBegin env tick i ubc =
     bindA (getA (clientOf i)) (\<lambda>cl.
       if cl_roleClient cl = MonitorClient
       then answerA env tick i (uploadRefused (ubc_strRequestId ubc) ''MONITOR_FILE_FORBIDDEN''
         ''Monitor clients cannot begin a file upload'')
       else catchWith
         (thenA (uploadA i (upload_begin (ubc_strRequestId ubc) (ubc_u64ChainId ubc) (ubc_u64OriginalByteCount ubc)))
           (retA True))
         (\<lambda>e. thenA (resetUpload i)
           (answerA env tick i (uploadRefused (ubc_strRequestId ubc) ''INVALID_FILE_UPLOAD'' (exn_what e)))))"

definition handleUploadEnd :: "'g agent_env \<Rightarrow> agent_tick \<Rightarrow> nat \<Rightarrow> upload_end_control \<Rightarrow> (node_agent, bool) act" where
  "handleUploadEnd env tick i uec =
     bindA (getA (clientOf i)) (\<lambda>cl. catchWith
       (bindA (uploadA i (wrkComplete (uec_strRequestId uec) (uec_u64ChainId uec) (uec_u32ChunkCount uec)
            (uec_u64TransferredByteCount uec))) (\<lambda>wrk.
        bindA (nodeCall env tick (msgApplyFilePayload (ae_node env) (at_tick tick) (cl_roleClient cl)
            (uec_strRequestId uec) (uec_u64ChainId uec) wrk)) (\<lambda>msg. answerA env tick i (Inr msg))))
       (\<lambda>e. thenA (resetUpload i)
         (answerA env tick i (uploadRefused (uec_strRequestId uec) ''INVALID_FILE_UPLOAD'' (exn_what e)))))"

definition unexpectedDirection :: "control_message result" where
  "unexpectedDirection = errorMessage [] ''UNEXPECTED_CONTROL_DIRECTION''
     ''This control message type is not accepted from a client''"

definition statusAnswer :: "'g agent_env \<Rightarrow> agent_tick \<Rightarrow> string \<Rightarrow> node_agent \<Rightarrow> control_message result" where
  "statusAnswer env tick strRequestId ag =
     andThen (mkStatusResponse \<lparr>srs_strRequestId = strRequestId, srs_strNodeName = ae_strNodeName env,
       srs_bSenderRunning = bSenderRunning (ag_run ag), srs_bReceiverRunning = ag_bReceiverRunning ag,
       srs_u64TimestampMilliseconds = nt_u64Now (at_tick tick)\<rparr>) (\<lambda>srs. Inr (StatusResponseMessage srs))"

definition pongAnswer :: "string \<Rightarrow> control_message result" where
  "pongAnswer strRequestId = andThen (mkRequestControl \<lparr>rqc_typeMessage = MsgPong, rqc_strRequestId = strRequestId\<rparr>)
     (\<lambda>rqc. Inr (RequestMessage rqc))"

definition handleRequest :: "'g agent_env \<Rightarrow> agent_tick \<Rightarrow> nat \<Rightarrow> request_control \<Rightarrow> (node_agent, bool) act" where
  "handleRequest env tick i rqc =
     bindA (getA id) (\<lambda>ag.
       if rqc_typeMessage rqc = MsgPing then answerA env tick i (pongAnswer (rqc_strRequestId rqc))
       else if rqc_typeMessage rqc = MsgStatusRequest
       then answerA env tick i (statusAnswer env tick (rqc_strRequestId rqc) ag)
       else if rqc_typeMessage rqc = MsgAbnormalEventSnapshotRequest
       then if cl_roleClient (clientOf i ag) \<noteq> MonitorClient
         then answerA env tick i (errorMessage (rqc_strRequestId rqc) ''SNAPSHOT_MONITOR_ONLY''
           ''Only MONITOR clients may request abnormal snapshots'')
         else sendBatches env tick i (abnormalBatches (rqc_strRequestId rqc)
           (vecAbnormalPacketObservationSnapshot (ag_run ag)) (vecFailureObservationSnapshot (ag_run ag)))
       else if rqc_typeMessage rqc = MsgMetricSnapshotRequest
       then if cl_roleClient (clientOf i ag) \<noteq> MonitorClient
         then answerA env tick i (errorMessage (rqc_strRequestId rqc) ''METRIC_SNAPSHOT_MONITOR_ONLY''
           ''Only MONITOR clients may request metric snapshots'')
         else sendBatches env tick i (metricBatches (rqc_strRequestId rqc) (vecMetricSnapshot (ag_run ag)))
       else answerA env tick i unexpectedDirection)"

text \<open>The messages the node is asked about.\<close>

definition bNodeMessage :: "NodeControlMessageType \<Rightarrow> bool" where
  "bNodeMessage typeMsg \<longleftrightarrow> typeMsg \<in> {MsgSenderAuthenticationConfig, MsgReceiverAuthenticationContexts,
     MsgTextPayloadConfig, MsgFaultInjectionConfig, MsgAttackSourceMapping, MsgRoundStart, MsgRoundPause,
     MsgRoundResume, MsgRoundStop}"

definition forwardMessage :: "'g agent_env \<Rightarrow> agent_tick \<Rightarrow> nat \<Rightarrow> control_message \<Rightarrow> (node_agent, bool) act" where
  "forwardMessage env tick i msg =
     (if bNodeMessage (typeMessage msg)
      then bindA (getA (clientOf i)) (\<lambda>cl.
        bindA (nodeCall env tick (msgHandleControl (ae_node env) (at_tick tick) (cl_roleClient cl) msg))
          (\<lambda>answer. answerA env tick i (Inr answer)))
      else answerA env tick i unexpectedDirection)"

fun handleMessage :: "'g agent_env \<Rightarrow> agent_tick \<Rightarrow> nat \<Rightarrow> control_message \<Rightarrow> (node_agent, bool) act" where
  "handleMessage env tick i (UploadBeginMessage ubc) = handleUploadBegin env tick i ubc"
| "handleMessage env tick i (UploadEndMessage uec) = handleUploadEnd env tick i uec"
| "handleMessage env tick i (RequestMessage rqc) = handleRequest env tick i rqc"
| "handleMessage env tick i msg = forwardMessage env tick i msg"

definition handleJson :: "'g agent_env \<Rightarrow> agent_tick \<Rightarrow> nat \<Rightarrow> byte list \<Rightarrow> (node_agent, bool) act" where
  "handleJson env tick i strJson =
     (case js_resDecode (ae_codec env) strJson of
        Inl err \<Rightarrow> thenA (answerA env tick i (errorMessage [] ''MALFORMED_CONTROL'' (m_strMessage err))) (retA False)
      | Inr msg \<Rightarrow> bindA (getA (clientOf i)) (\<lambda>cl.
          if \<not> cl_bHelloReceived cl then handleHello env tick i msg else handleMessage env tick i msg))"

fun bHandleFrame :: "'g agent_env \<Rightarrow> agent_tick \<Rightarrow> nat \<Rightarrow> tcp_frame \<Rightarrow> (node_agent, bool) act" where
  "bHandleFrame env tick i (FileChunkFrame chk) = handleChunk env tick i chk"
| "bHandleFrame env tick i (JsonControlFrame strJson) = handleJson env tick i strJson"

fun handleFrames :: "'g agent_env \<Rightarrow> agent_tick \<Rightarrow> nat \<Rightarrow> tcp_frame list \<Rightarrow> (node_agent, bool) act" where
  "handleFrames env tick i [] = retA True"
| "handleFrames env tick i (frm # frms) =
     bindA (bHandleFrame env tick i frm) (\<lambda>b. if b then handleFrames env tick i frms else retA False)"

text \<open>One turn of \<open>clientLoop\<close> with what \<open>recv\<close> has returned; the loop ends by closing the socket.\<close>

definition clientLoop :: "'g agent_env \<Rightarrow> agent_tick \<Rightarrow> nat \<Rightarrow> byte list \<Rightarrow> (node_agent, unit) act" where
  "clientLoop env tick i vecReceived =
     bindA (getA (clientOf i)) (\<lambda>cl.
     bindA (liftA (batConsume (js_bObject (ae_codec env)) vecReceived (cl_decStream cl))) (\<lambda>(bat, dec).
     thenA (clientA i (\<lambda>cl. cl\<lparr>cl_decStream := dec\<rparr>))
     (bindA (case m_optError bat of
         Some err \<Rightarrow> thenA (answerA env tick i (errorMessage [] ''MALFORMED_FRAME'' (m_strMessage err))) (retA False)
       | None \<Rightarrow> handleFrames env tick i (m_vecFrames bat))
       (\<lambda>bContinue. whenA (\<not> bContinue) (serverA (modifyA (closeClient i)))))))"

section \<open>The service\<close>

definition nConnectedClientCount :: "management_server \<Rightarrow> nat" where
  "nConnectedClientCount srv = length (filter cl_bOpen (srv_vecClients srv))"

text \<open>One turn of \<open>acceptLoop\<close> with a connection.\<close>

definition acceptClient :: "management_server \<Rightarrow> management_server" where
  "acceptClient srv =
     (if \<not> srv_bRunning srv \<or> nConnectedClientCount srv \<ge> MAX_CLIENTS then srv
      else srv\<lparr>srv_vecClients := srv_vecClients srv @ [new_client]\<rparr>)"

text \<open>A start whose sockets and threads can be made; the threads of an earlier start have been joined.\<close>

definition server_start :: "management_server \<Rightarrow> management_server" where
  "server_start srv =
     (if srv_bRunning srv then srv
      else srv\<lparr>srv_bRunning := True, srv_pc := BcIdle, srv_bPreferMetricBatch := True\<rparr>)"

definition agent_start :: "(node_agent, unit) act" where
  "agent_start = modifyA (\<lambda>ag.
     if ag_bRunning ag \<or> srv_pc (ag_srv ag) \<noteq> BcReturned then ag
     else ag\<lparr>ag_bRunning := True, ag_bReceiverRunning := True, ag_srv := server_start (ag_srv ag)\<rparr>)"

text \<open>\<open>stop()\<close> as far as the join of the broadcasting thread, and what follows when it has returned.\<close>

definition clearQueues :: "management_server \<Rightarrow> management_server" where
  "clearQueues srv = srv\<lparr>srv_deqMonitorQueue := [], srv_deqMetricQueue := []\<rparr>"

definition agent_stop :: "'g agent_env \<Rightarrow> agent_tick \<Rightarrow> (node_agent, unit) act" where
  "agent_stop env tick =
     thenA (modifyA (\<lambda>ag. ag\<lparr>ag_bRunning := False\<rparr>))
     (thenA (nodeCall env tick (node_stop (ae_node env) (at_tick tick)))
     (serverA (modifyA (\<lambda>srv. clearQueues (srv\<lparr>srv_bRunning := False\<rparr>)))))"

definition agent_joined :: "(node_agent, unit) act" where
  "agent_joined = modifyA (\<lambda>ag.
     if srv_bRunning (ag_srv ag) \<or> srv_pc (ag_srv ag) \<noteq> BcReturned then ag
     else ag\<lparr>ag_srv := clearQueues (ag_srv ag\<lparr>srv_vecClients := []\<rparr>), ag_bReceiverRunning := False\<rparr>)"

definition agentDatagram :: "'g agent_env \<Rightarrow> agent_tick \<Rightarrow> string \<Rightarrow> byte list \<Rightarrow> (node_agent, unit) act" where
  "agentDatagram env tick strSourceIp vecDatagram =
     thenA (modifyA (\<lambda>ag. ag\<lparr>ag_nReceivedDatagramCount := ag_nReceivedDatagramCount ag + 1\<rparr>))
     (thenA (nodeCall env tick (bHandleDatagram (ae_node env) (at_tick tick) strSourceIp vecDatagram
        (nt_u64Now (at_tick tick)))) (retA ()))"

text \<open>
  A history of the agent. \<open>AgentReceive\<close> is a turn of a client's loop, \<open>AgentHangUp\<close> the end of its stream,
  \<open>AgentWork\<close> a step of the threads of the node. A thread that throws ends the process, and a
  process that has ended does nothing.
\<close>

datatype agent_op =
    AgentStart
  | AgentStop
  | AgentJoined
  | AgentAccept
  | AgentReceive nat "byte list"
  | AgentHangUp nat
  | AgentDatagram string "byte list"
  | AgentBroadcast
  | AgentSenderWork
  | AgentReceiverWork
  | AgentReceiverMetric metric_record

definition bClientRuns :: "nat \<Rightarrow> node_agent \<Rightarrow> bool" where
  "bClientRuns i ag = (i < length (srv_vecClients (ag_srv ag)) \<and> srv_bRunning (ag_srv ag) \<and> cl_bOpen (clientOf i ag))"

definition threadA :: "(node_agent, unit) act \<Rightarrow> (node_agent, unit) act" where
  "threadA m = catchWith m (\<lambda>_. modifyA (\<lambda>ag. ag\<lparr>ag_bTerminated := True\<rparr>))"

definition nodeWork :: "'g agent_env \<Rightarrow> agent_tick \<Rightarrow> node_op \<Rightarrow> (node_agent, unit) act" where
  "nodeWork env tick op = thenA (nodeCall env tick (node_op_act (ae_node env) (at_tick tick) op)) (retA ())"

fun agent_op_act :: "'g agent_env \<Rightarrow> agent_tick \<Rightarrow> agent_op \<Rightarrow> (node_agent, unit) act" where
  "agent_op_act env tick AgentStart = agent_start"
| "agent_op_act env tick AgentStop = agent_stop env tick"
| "agent_op_act env tick AgentJoined = agent_joined"
| "agent_op_act env tick AgentAccept = serverA (modifyA acceptClient)"
| "agent_op_act env tick (AgentReceive i vecReceived) =
     bindA (getA (bClientRuns i)) (\<lambda>b. whenA b (threadA (clientLoop env tick i vecReceived)))"
| "agent_op_act env tick (AgentHangUp i) =
     bindA (getA (bClientRuns i)) (\<lambda>b. whenA b (serverA (modifyA (closeClient i))))"
| "agent_op_act env tick (AgentDatagram strSourceIp vecDatagram) = agentDatagram env tick strSourceIp vecDatagram"
| "agent_op_act env tick AgentBroadcast = threadA (serverA (broadcastTurn (ae_codec env) tick))"
| "agent_op_act env tick AgentSenderWork = nodeWork env tick NodeSenderWork"
| "agent_op_act env tick AgentReceiverWork = nodeWork env tick NodeReceiverWork"
| "agent_op_act env tick (AgentReceiverMetric varMetric) = nodeWork env tick (NodeReceiverMetric varMetric)"

definition bProcessEnded :: "node_agent \<Rightarrow> bool" where
  "bProcessEnded ag = (ag_bTerminated ag \<or> nd_bTerminated (ag_run ag) \<or> sn_pc (nd_runSender (ag_run ag)) = PcTerminated)"

definition agent_step :: "'g agent_env \<Rightarrow> agent_tick \<times> agent_op \<Rightarrow> (node_agent, unit) act" where
  "agent_step env = (\<lambda>(tick, op) ag. if bProcessEnded ag then (Inr (), ag) else agent_op_act env tick op ag)"

end
