(* ===== verification/NodeAgentTheorems.thy ===== *)
theory NodeAgentTheorems
  imports NodeAgent NodeTheorems
begin

text \<open>
  What the node agent guarantees over any history of clients, bytes, datagrams and steps of its threads. A
  relation of the states before and after a turn of a client's loop holds when it holds across the few
  primitive changes a turn makes; the locale says so once, and its instances give the properties.
\<close>

section \<open>What a turn of a client's loop is made of\<close>

abbreviation nClients :: "node_agent \<Rightarrow> nat" where "nClients ag \<equiv> length (srv_vecClients (ag_srv ag))"

lemma clientOf_updClient:
  "clientOf j (ag\<lparr>ag_srv := updClient i f (ag_srv ag)\<rparr>)
    = (if i = j \<and> i < nClients ag then f (clientOf i ag) else clientOf j ag)"
  by (cases "i < nClients ag") (auto simp: clientOf_def updClient_def nth_list_update list_update_beyond)

lemma updClient_length [simp]: "length (srv_vecClients (updClient i f srv)) = length (srv_vecClients srv)"
  by (simp add: updClient_def)

lemma uploadA_run:
  "uploadA i m ag = (fst (m (cl_uplFile (clientOf i ag))),
     ag\<lparr>ag_srv := updClient i (\<lambda>cl. cl\<lparr>cl_uplFile := snd (m (cl_uplFile (clientOf i ag)))\<rparr>) (ag_srv ag)\<rparr>)"
  by (simp add: uploadA_def zoomA_def split_beta)

lemma clientA_run: "clientA i f ag = (Inr (), ag\<lparr>ag_srv := updClient i f (ag_srv ag)\<rparr>)"
  by (simp add: clientA_def serverA_def zoomA_def act_simps)

lemma uploadA_client:
  assumes "uploadA i m ag = (r, ag')"
  shows "cl_bHelloReceived (clientOf i ag') = cl_bHelloReceived (clientOf i ag)"
    "cl_roleClient (clientOf i ag') = cl_roleClient (clientOf i ag)"
proof -
  have "ag' = ag\<lparr>ag_srv := updClient i (\<lambda>cl. cl\<lparr>cl_uplFile := snd (m (cl_uplFile (clientOf i ag)))\<rparr>) (ag_srv ag)\<rparr>"
    using assms by (simp add: uploadA_run)
  then show "cl_bHelloReceived (clientOf i ag') = cl_bHelloReceived (clientOf i ag)"
    "cl_roleClient (clientOf i ag') = cl_roleClient (clientOf i ag)"
    by (simp_all add: clientOf_updClient)
qed

lemma agent_step_run:
  "agent_step env (tick, op) ag = (if bProcessEnded ag then (Inr (), ag) else agent_op_act env tick op ag)"
  by (simp add: agent_step_def)

locale client_relation = members_relation rel for rel :: "node_agent \<Rightarrow> node_agent \<Rightarrow> bool" +
  fixes env :: "'g agent_env" and tick :: agent_tick and i :: nat
  assumes rel_send: "rel s (s\<lparr>ag_srv := snd (bSendControlMessage (ae_codec env) tick i msg (ag_srv s))\<rparr>)"
    and rel_begin: "rel s (snd (uploadA i (upload_begin r c n) s))"
    and rel_append: "rel s (snd (uploadA i (upload_append chk) s))"
    and rel_complete: "rel s (snd (uploadA i (wrkComplete r c k n) s))"
    and rel_reset: "rel s (snd (resetUpload i s))"
    and rel_hello: "\<not> cl_bHelloReceived (clientOf i s) \<Longrightarrow>
      rel s (snd (clientA i (\<lambda>cl. cl\<lparr>cl_bHelloReceived := True, cl_roleClient := role\<rparr>) s))"
    and rel_decoded: "batConsume (js_bObject (ae_codec env)) bytes (cl_decStream (clientOf i s)) = Inr (bat, dec) \<Longrightarrow>
      rel s (snd (clientA i (\<lambda>cl. cl\<lparr>cl_decStream := dec\<rparr>) s))"
    and rel_close: "rel s (s\<lparr>ag_srv := closeClient i (ag_srv s)\<rparr>)"
    and rel_message: "cl_bHelloReceived (clientOf i s) \<Longrightarrow> rel s (snd (nodeCall env tick
      (msgHandleControl (ae_node env) (at_tick tick) (cl_roleClient (clientOf i s)) msg) s))"
    and rel_file: "cl_bHelloReceived (clientOf i s) \<Longrightarrow> rel s (snd (nodeCall env tick
      (msgApplyFilePayload (ae_node env) (at_tick tick) (cl_roleClient (clientOf i s)) r c wrk) s))"
begin

lemma catch_with:
  assumes "rel s (snd (m s))" "\<And>e t. m s = (Inl e, t) \<Longrightarrow> rel t (snd (h e t))"
  shows "rel s (snd (catchWith m h s))"
  using assms by (auto simp: catchWith_def split: prod.splits sum.splits intro: rel_trans)

lemma answer: "rel s (snd (answerA env tick i r s))"
proof (cases r)
  case (Inr msg)
  obtain b srv where "bSendControlMessage (ae_codec env) tick i msg (ag_srv s) = (b, srv)" by fastforce
  with rel_send [of s msg] Inr show ?thesis by (simp add: answerA_def serverA_def zoomA_def act_simps)
qed (simp add: answerA_def act_simps rel_refl)

lemma batches: "rel s (snd (sendBatches env tick i rs s))"
proof (induction rs arbitrary: s)
  case (Cons r rs)
  show ?case unfolding sendBatches.simps by (rule bind [OF answer]) (simp add: Cons ret)
qed (simp add: ret)

lemma got: "(\<And>x. x = g s \<Longrightarrow> rel s (snd (f x s))) \<Longrightarrow> rel s (snd (bindA (getA g) f s))"
  by (simp add: act_simps)

lemma chunk: "rel s (snd (handleChunk env tick i chk s))"
  unfolding handleChunk_def
  by (rule got) (auto intro!: seq catch_with answer ret rel_append rel_reset)

lemma hello: "\<not> cl_bHelloReceived (clientOf i s) \<Longrightarrow> rel s (snd (handleHello env tick i msg s))"
  by (cases msg) (auto intro!: seq answer ret rel_hello)

lemma upload_begins: "rel s (snd (handleUploadBegin env tick i ubc s))"
  unfolding handleUploadBegin_def
  by (rule got) (auto intro!: seq catch_with answer ret rel_begin rel_reset)

lemma upload_ends:
  assumes "cl_bHelloReceived (clientOf i s)"
  shows "rel s (snd (handleUploadEnd env tick i uec s))"
  unfolding handleUploadEnd_def
proof (rule got, rule catch_with)
  fix cl assume cl: "cl = clientOf i s"
  show "rel s (snd (bindA (uploadA i (wrkComplete (uec_strRequestId uec) (uec_u64ChainId uec) (uec_u32ChunkCount uec)
            (uec_u64TransferredByteCount uec))) (\<lambda>wrk.
        bindA (nodeCall env tick (msgApplyFilePayload (ae_node env) (at_tick tick) (cl_roleClient cl)
            (uec_strRequestId uec) (uec_u64ChainId uec) wrk)) (\<lambda>msg. answerA env tick i (Inr msg))) s))"
  proof (rule bind [OF rel_complete])
    fix wrk t
    assume "uploadA i (wrkComplete (uec_strRequestId uec) (uec_u64ChainId uec) (uec_u32ChunkCount uec)
            (uec_u64TransferredByteCount uec)) s = (Inr wrk, t)"
    from uploadA_client [OF this] assms cl
    have "cl_bHelloReceived (clientOf i t)" "cl_roleClient cl = cl_roleClient (clientOf i t)" by simp_all
    then show "rel t (snd (bindA (nodeCall env tick (msgApplyFilePayload (ae_node env) (at_tick tick) (cl_roleClient cl)
            (uec_strRequestId uec) (uec_u64ChainId uec) wrk)) (\<lambda>msg. answerA env tick i (Inr msg)) t))"
      by (auto intro!: bind [OF rel_file] answer)
  qed
qed (auto intro!: seq answer rel_reset)

lemma request: "rel s (snd (handleRequest env tick i rqc s))"
  unfolding handleRequest_def by (rule got) (auto intro!: answer batches)

lemma forwarded:
  assumes "cl_bHelloReceived (clientOf i s)"
  shows "rel s (snd (forwardMessage env tick i msg s))"
  using assms unfolding forwardMessage_def by (auto intro!: got bind [OF rel_message] answer)

lemma message:
  assumes "cl_bHelloReceived (clientOf i s)"
  shows "rel s (snd (handleMessage env tick i msg s))"
  by (cases msg) (simp_all add: upload_begins upload_ends [OF assms] request forwarded [OF assms])

lemma frame_handled: "rel s (snd (bHandleFrame env tick i frm s))"
proof (cases frm)
  case (JsonControlFrame strJson)
  then show ?thesis
    by (cases "js_resDecode (ae_codec env) strJson")
      (auto simp: handleJson_def intro!: seq answer ret got hello message)
qed (simp add: chunk)

lemma frames: "rel s (snd (handleFrames env tick i frms s))"
proof (induction frms arbitrary: s)
  case (Cons frm frms)
  show ?case unfolding handleFrames.simps by (rule bind [OF frame_handled]) (simp add: Cons ret)
qed (simp add: ret)

lemma loop: "rel s (snd (clientLoop env tick i bytes s))"
  unfolding clientLoop_def
proof (rule got)
  fix cl assume cl: "cl = clientOf i s"
  show "rel s (snd (bindA (liftA (batConsume (js_bObject (ae_codec env)) bytes (cl_decStream cl))) (\<lambda>(bat, dec).
     thenA (clientA i (\<lambda>cl. cl\<lparr>cl_decStream := dec\<rparr>))
     (bindA (case m_optError bat of
         Some err \<Rightarrow> thenA (answerA env tick i (errorMessage [] ''MALFORMED_FRAME'' (m_strMessage err))) (retA False)
       | None \<Rightarrow> handleFrames env tick i (m_vecFrames bat))
       (\<lambda>bContinue. whenA (\<not> bContinue) (serverA (modifyA (closeClient i)))))) s))"
  proof (cases "batConsume (js_bObject (ae_codec env)) bytes (cl_decStream cl)")
    case (Inr p)
    obtain bat dec where p: "p = (bat, dec)" by fastforce
    have close: "rel t (snd (whenA b (serverA (modifyA (closeClient i))) t))" for b t
      using rel_close [of t] by (cases b) (simp_all add: act_simps serverA_def zoomA_def rel_refl)
    show ?thesis unfolding Inr p bindA_lift prod.case
      by (rule seq [OF rel_decoded [of bytes _ bat]], use Inr p cl in simp)
        (auto intro!: bind close frames seq answer ret split: option.split)
  qed (simp add: act_simps rel_refl)
qed

end

section \<open>Sending\<close>

text \<open>The clients but for what was sent to them.\<close>

definition clientsSent :: "management_server \<Rightarrow> management_server \<Rightarrow> bool" where
  "clientsSent s t \<longleftrightarrow> list_all2 (\<lambda>c c'. \<exists>xs. c' = c\<lparr>cl_vecSends := cl_vecSends c @ xs\<rparr>)
     (srv_vecClients s) (srv_vecClients t) \<and> srv_bRunning t = srv_bRunning s \<and> srv_pc t = srv_pc s"

lemma clientsSent_refl [simp]: "clientsSent s s"
proof -
  have "\<exists>xs. c = c\<lparr>cl_vecSends := cl_vecSends c @ xs\<rparr>" for c :: client_connection by (rule exI [of _ "[]"]) simp
  then show ?thesis by (simp add: clientsSent_def list_all2_conv_all_nth)
qed

lemma clientsSent_trans: "clientsSent s t \<Longrightarrow> clientsSent t u \<Longrightarrow> clientsSent s u"
  unfolding clientsSent_def by (fastforce simp: list_all2_conv_all_nth)

lemma bSend_sent [simp]: "clientsSent srv (snd (bSendControlMessage cdc tick i msg srv))"
proof (cases "i < length (srv_vecClients srv)")
  case True
  have id: "\<exists>xs. c = c\<lparr>cl_vecSends := cl_vecSends c @ xs\<rparr>" for c :: client_connection by (rule exI [of _ "[]"]) simp
  have "clientsSent srv (updClient i (\<lambda>cl. cl\<lparr>cl_vecSends := cl_vecSends cl @ [x]\<rparr>) srv)" for x
    using True id by (auto simp: clientsSent_def updClient_def list_all2_conv_all_nth nth_list_update)
  then show ?thesis by (auto simp: bSendControlMessage_def Let_def split: sum.split)
next
  case False
  then have "updClient i f srv = srv" for f by (simp add: updClient_def list_update_beyond)
  then show ?thesis by (auto simp: bSendControlMessage_def Let_def split: sum.split)
qed

lemma fold_sent:
  assumes "\<And>x s. clientsSent s (f x s)"
  shows "clientsSent s (fold f xs s)"
proof (induction xs arbitrary: s)
  case (Cons x xs)
  from clientsSent_trans [OF assms Cons] show ?case by simp
qed simp

lemma clientsSent_members:
  "srv_vecClients t = srv_vecClients s \<Longrightarrow> srv_bRunning t = srv_bRunning s \<Longrightarrow> srv_pc t = srv_pc s \<Longrightarrow> clientsSent s t"
  using clientsSent_refl [of s] unfolding clientsSent_def by simp

lemma broadcast_sent: "clientsSent srv (broadcastControlMessage cdc tick msg srv)"
  unfolding broadcastControlMessage_def by (rule fold_sent) simp

lemma enqueue_members:
  "srv_vecClients (enqueueMonitorObservation ob srv) = srv_vecClients srv"
  "srv_bRunning (enqueueMonitorObservation ob srv) = srv_bRunning srv"
  "srv_pc (enqueueMonitorObservation ob srv) = srv_pc srv"
  "srv_vecClients (enqueueMonitorMetric r srv) = srv_vecClients srv"
  "srv_bRunning (enqueueMonitorMetric r srv) = srv_bRunning srv" "srv_pc (enqueueMonitorMetric r srv) = srv_pc srv"
  by (simp_all add: enqueueMonitorObservation_def enqueueMonitorMetric_def countDropped_def Let_def)

lemma callback_sent: "clientsSent srv (agentCallback cdc tick ev srv)"
  by (cases ev) (simp_all add: broadcast_sent clientsSent_members enqueue_members)

lemma nodeCall_run: "nodeCall env tick m ag = (fst (m (ag_run ag)), ag\<lparr>ag_run := snd (m (ag_run ag)),
    ag_srv := fold (agentCallback (ae_codec env) tick) (drop (length (nd_out (ag_run ag))) (nd_out (snd (m (ag_run ag)))))
      (ag_srv ag)\<rparr>)"
  by (simp add: nodeCall_def split_beta)

lemma nodeCall_sent: "clientsSent (ag_srv ag) (ag_srv (snd (nodeCall env tick m ag)))"
  by (simp add: nodeCall_run fold_sent callback_sent)

lemma clientsSentD:
  assumes "clientsSent s t"
  shows "length (srv_vecClients t) = length (srv_vecClients s)" "srv_bRunning t = srv_bRunning s" "srv_pc t = srv_pc s"
    "j < length (srv_vecClients s) \<Longrightarrow> \<exists>xs. srv_vecClients t ! j
      = (srv_vecClients s ! j)\<lparr>cl_vecSends := cl_vecSends (srv_vecClients s ! j) @ xs\<rparr>"
  using assms by (auto simp: clientsSent_def list_all2_conv_all_nth)

section \<open>The node of an agent\<close>

definition agentPath :: "'g agent_env \<Rightarrow> node_agent \<Rightarrow> node_agent \<Rightarrow> bool" where
  "agentPath env s t \<longleftrightarrow> nodePath (ae_node env) (ag_run s) (ag_run t)"

interpretation apath: members_relation "agentPath env" for env
  by unfold_locales (auto simp: agentPath_def path.rel_refl intro: path.rel_trans)

lemma apath_same: "ag_run t = ag_run s \<Longrightarrow> agentPath env s t"
  by (simp add: agentPath_def path.rel_refl)

lemma apath_node: "nodePath (ae_node env) (ag_run s) (snd (m (ag_run s))) \<Longrightarrow> agentPath env s (snd (nodeCall env tick m s))"
  by (simp add: agentPath_def nodeCall_run)

interpretation apath_client: client_relation "agentPath env" env tick i for env tick i
proof unfold_locales
  fix s r c n chk k role bytes bat dec msg wrk
  show "agentPath env s (snd (resetUpload i s))" by (simp add: resetUpload_def uploadA_run apath_same)
qed (simp_all add: uploadA_run clientA_run apath_same apath_node path_handle path_filePayload)

lemma apath_serverA: "agentPath env s (snd (serverA m s))"
  by (simp add: serverA_def zoomA_def split_beta apath_same)

lemma apath_thread: "agentPath env s (snd (m s)) \<Longrightarrow> agentPath env s (snd (threadA m s))"
  by (auto simp: threadA_def catchWith_def act_simps agentPath_def split: prod.split sum.split)

lemma apath_work: "agentPath env s (snd (nodeWork env tick op s))"
  unfolding nodeWork_def by (intro apath.seq apath_node path_op apath.ret)

lemma apath_op: "agentPath env s (snd (agent_op_act env tick op s))"
proof (cases op)
  case AgentStop
  have "agentPath env s (s\<lparr>ag_bRunning := False\<rparr>)" by (simp add: apath_same)
  with AgentStop show ?thesis
    by (auto simp: agent_stop_def intro!: apath.seq apath.modify apath_serverA apath_node path_stop)
next
  case (AgentDatagram ip bs)
  have "agentPath env s (s\<lparr>ag_nReceivedDatagramCount := n\<rparr>)" for n by (simp add: apath_same)
  with AgentDatagram show ?thesis
    by (auto simp: agentDatagram_def intro!: apath.seq apath.modify apath.ret apath_node path_datagram)
qed (auto simp: act_simps agent_start_def agent_joined_def apath_same
    intro!: apath_work apath_thread apath_client.loop apath_serverA apath.cond apath.seq apath.ret)

lemma apath_run: "agentPath env s (run_ops (agent_step env) ops s)"
proof (induction ops arbitrary: s)
  case (Cons x xs)
  obtain tick op where "x = (tick, op)" by fastforce
  then have "agentPath env s (snd (agent_step env x s))" by (simp add: agent_step_def apath_op apath.rel_refl)
  with apath.rel_trans [OF this Cons.IH] show ?case by simp
qed (simp add: apath.rel_refl)

section \<open>Who may change the node\<close>

definition bManager :: "nat \<Rightarrow> node_agent \<Rightarrow> bool" where
  "bManager i ag = (cl_bHelloReceived (clientOf i ag) \<and> cl_roleClient (clientOf i ag) = Manager)"

text \<open>A client keeps its role; the node changes only for a manager; of other clients only what they were
  sent changes.\<close>

definition clientScope :: "nat \<Rightarrow> node_agent \<Rightarrow> node_agent \<Rightarrow> bool" where
  "clientScope i s t \<longleftrightarrow> nClients t = nClients s
     \<and> (i < nClients s \<longrightarrow>
         (cl_bHelloReceived (clientOf i s) \<longrightarrow> cl_bHelloReceived (clientOf i t)
            \<and> cl_roleClient (clientOf i t) = cl_roleClient (clientOf i s))
         \<and> (\<not> bManager i t \<longrightarrow> ag_run t = ag_run s)
         \<and> (\<forall>j < nClients s. j \<noteq> i \<longrightarrow>
              (\<exists>xs. clientOf j t = (clientOf j s)\<lparr>cl_vecSends := cl_vecSends (clientOf j s) @ xs\<rparr>)))"

lemma sends_refl: "\<exists>xs. c = c\<lparr>cl_vecSends := cl_vecSends c @ xs\<rparr>"
  by (rule exI [of _ "[]"]) simp

lemma sends_trans:
  "\<exists>xs. b = a\<lparr>cl_vecSends := cl_vecSends a @ xs\<rparr> \<Longrightarrow> \<exists>xs. c = b\<lparr>cl_vecSends := cl_vecSends b @ xs\<rparr>
   \<Longrightarrow> \<exists>xs. c = a\<lparr>cl_vecSends := cl_vecSends a @ xs\<rparr>"
  by auto

lemma clientScope_trans:
  assumes "clientScope i s t" "clientScope i t u"
  shows "clientScope i s u"
proof (cases "i < nClients s")
  case True
  then have "i < nClients t" using assms(1) by (simp add: clientScope_def)
  with assms True have n: "nClients t = nClients s" "nClients u = nClients t"
    and st: "cl_bHelloReceived (clientOf i s) \<longrightarrow> cl_bHelloReceived (clientOf i t)
      \<and> cl_roleClient (clientOf i t) = cl_roleClient (clientOf i s)" "\<not> bManager i t \<longrightarrow> ag_run t = ag_run s"
    and tu: "cl_bHelloReceived (clientOf i t) \<longrightarrow> cl_bHelloReceived (clientOf i u)
      \<and> cl_roleClient (clientOf i u) = cl_roleClient (clientOf i t)" "\<not> bManager i u \<longrightarrow> ag_run u = ag_run t"
    by (simp_all add: clientScope_def)
  from tu(1) have "bManager i t \<longrightarrow> bManager i u" by (simp add: bManager_def)
  moreover have "\<exists>xs. clientOf j u = (clientOf j s)\<lparr>cl_vecSends := cl_vecSends (clientOf j s) @ xs\<rparr>"
    if "j < nClients s" "j \<noteq> i" for j
    by (rule sends_trans [of "clientOf j t"]) (use assms True that n in \<open>simp_all add: clientScope_def\<close>)
  ultimately show ?thesis using n st tu by (auto simp: clientScope_def)
qed (use assms in \<open>simp add: clientScope_def\<close>)

interpretation scope: members_relation "clientScope i" for i
  by unfold_locales (simp add: clientScope_def sends_refl, rule clientScope_trans)

text \<open>A change of the client's own record that keeps its role, and one of what clients were sent.\<close>

lemma scope_client:
  assumes "\<And>cl. cl_bHelloReceived cl \<Longrightarrow> cl_bHelloReceived (f cl) \<and> cl_roleClient (f cl) = cl_roleClient cl"
  shows "clientScope i s (s\<lparr>ag_srv := updClient i f (ag_srv s)\<rparr>)"
  using assms by (auto simp: clientScope_def clientOf_updClient sends_refl)

lemma scope_sent:
  assumes "clientsSent (ag_srv s) (ag_srv t)" "\<not> bManager i s \<Longrightarrow> ag_run t = ag_run s"
  shows "clientScope i s t"
proof -
  have x: "\<exists>xs. clientOf j t = (clientOf j s)\<lparr>cl_vecSends := cl_vecSends (clientOf j s) @ xs\<rparr>" if "j < nClients s" for j
    using clientsSentD(4) [OF assms(1) that] by (simp add: clientOf_def)
  then have "bManager i t = bManager i s" "cl_bHelloReceived (clientOf i t) = cl_bHelloReceived (clientOf i s)"
    "cl_roleClient (clientOf i t) = cl_roleClient (clientOf i s)" if "i < nClients s"
    using that by (fastforce simp: bManager_def)+
  with assms(2) x clientsSentD(1) [OF assms(1)] show ?thesis by (auto simp: clientScope_def)
qed

lemma monitor_message_same: "snd (msgHandleControl env tick MonitorClient msg nd) = nd"
  by (simp add: msgHandleControl_def monitor_unsupported act_simps)

lemma monitor_file_same: "snd (msgApplyFilePayload env tick MonitorClient r c wrk nd) = nd"
  by (simp add: msgApplyFilePayload_def act_simps)

lemma scope_node:
  assumes "cl_bHelloReceived (clientOf i s)" "\<And>nd. cl_roleClient (clientOf i s) = MonitorClient \<Longrightarrow> snd (m nd) = nd"
  shows "clientScope i s (snd (nodeCall env tick m s))"
proof (rule scope_sent [OF nodeCall_sent])
  assume "\<not> bManager i s"
  with assms show "ag_run (snd (nodeCall env tick m s)) = ag_run s"
    by (cases "cl_roleClient (clientOf i s)") (simp_all add: bManager_def nodeCall_run)
qed

interpretation scope_client: client_relation "clientScope i" env tick i for env tick i
proof unfold_locales
  fix s and r :: string and c n chk k role bytes bat dec msg wrk
  show "clientScope i s (s\<lparr>ag_srv := snd (bSendControlMessage (ae_codec env) tick i msg (ag_srv s))\<rparr>)"
    by (rule scope_sent) simp_all
  show "clientScope i s (s\<lparr>ag_srv := closeClient i (ag_srv s)\<rparr>)"
    unfolding closeClient_def by (rule scope_client) simp
  show "clientScope i s (snd (resetUpload i s))" by (simp add: resetUpload_def uploadA_run scope_client)
  show "clientScope i s (snd (clientA i (\<lambda>cl. cl\<lparr>cl_bHelloReceived := True, cl_roleClient := role\<rparr>) s))"
    if "\<not> cl_bHelloReceived (clientOf i s)"
    using that by (auto simp: clientA_run clientScope_def clientOf_updClient sends_refl)
qed (auto simp: uploadA_run clientA_run monitor_message_same monitor_file_same intro!: scope_client scope_node)

lemma scope_thread: "clientScope i s (snd (m s)) \<Longrightarrow> clientScope i s (snd (threadA m s))"
  by (auto simp: threadA_def catchWith_def act_simps clientScope_def clientOf_def bManager_def split: prod.split sum.split)

lemma scope_receive: "clientScope i s (snd (agent_step env (tick, AgentReceive i bytes) s))"
  by (auto simp: agent_step_def act_simps scope.rel_refl intro!: scope.cond scope_thread scope_client.loop)

section \<open>Bounds\<close>

definition upload_bounded :: "upload_session \<Rightarrow> bool" where
  "upload_bounded up \<longleftrightarrow> length (m_vecUploadBytes up) \<le> MAXIMUM_FILE_SIZE
     \<and> (m_bActive up \<longrightarrow> length (m_vecUploadBytes up) \<le> unat (m_u64OriginalByteCount up)
          \<and> unat (m_u64OriginalByteCount up) \<le> MAXIMUM_FILE_SIZE)"

lemma upload_bounded_ops:
  assumes "upload_bounded up"
  shows "upload_bounded (snd (upload_begin r c n up))" "upload_bounded (snd (upload_append chk up))"
    "upload_bounded (snd (wrkComplete r c k n up))" "upload_bounded (upload_reset up)"
proof -
  show "upload_bounded (snd (upload_append chk up))"
  proof (cases "fst (upload_append chk up)")
    case (Inl e)
    then have "snd (upload_append chk up) = up" by (simp add: upload_append_def split: if_splits)
    with assms show ?thesis by simp
  next
    case (Inr u)
    then have a: "m_bActive up" and l: "length (m_vecData chk) = nExpectedChunkSize up"
      and s: "snd (upload_append chk up) = up\<lparr>m_vecUploadBytes := m_vecUploadBytes up @ m_vecData chk,
              m_u32NextChunkIndex := m_u32NextChunkIndex up + 1\<rparr>"
      by (auto simp: upload_append_def split: if_splits)
    from a assms have b: "length (m_vecUploadBytes up) \<le> unat (m_u64OriginalByteCount up)"
      "unat (m_u64OriginalByteCount up) \<le> MAXIMUM_FILE_SIZE" by (simp_all add: upload_bounded_def)
    with l have "length (m_vecData chk) \<le> unat (m_u64OriginalByteCount up) - length (m_vecUploadBytes up)"
      by (simp add: nExpectedChunkSize_def remaining_bytes)
    with a b show ?thesis unfolding s by (auto simp: upload_bounded_def)
  qed
qed (use assms in \<open>auto simp: upload_begin_def wrkComplete_def upload_reset_def upload_bounded_def\<close>)

definition client_ok :: "client_connection \<Rightarrow> bool" where
  "client_ok cl \<longleftrightarrow> m_nMaximumFrameLength (cl_decStream cl) = 16 * 1024 * 1024
     \<and> length (m_vecPendingBytes (cl_decStream cl)) < 4 + 16 * 1024 * 1024 \<and> upload_bounded (cl_uplFile cl)"

definition server_ok :: "management_server \<Rightarrow> bool" where
  "server_ok srv \<longleftrightarrow> length (srv_deqMonitorQueue srv) \<le> MAX_MONITOR_EVENT_QUEUE
     \<and> length (srv_deqMetricQueue srv) \<le> MAX_METRIC_EVENT_QUEUE \<and> nConnectedClientCount srv \<le> MAX_CLIENTS
     \<and> (\<forall>cl \<in> set (srv_vecClients srv). client_ok cl)
     \<and> (srv_bRunning srv \<and> srv_pc srv = BcBatching \<longrightarrow> srv_deqMetricQueue srv \<noteq> [])"

lemma filter_update_length:
  assumes "P x \<Longrightarrow> P (xs ! i)"
  shows "length (filter P (xs[i := x])) \<le> length (filter P xs)"
proof (cases "i < length xs")
  case True
  have "xs = take i xs @ xs ! i # drop (Suc i) xs" by (rule id_take_nth_drop [OF True])
  then have "length (filter P xs) = length (filter P (take i xs)) + length (filter P (xs ! i # drop (Suc i) xs))"
    by (metis filter_append length_append)
  with assms True show ?thesis by (simp add: upd_conv_take_nth_drop)
qed (simp add: list_update_beyond)

lemma ok_updClient:
  assumes "server_ok srv" "\<And>cl. client_ok cl \<Longrightarrow> client_ok (f cl)" "\<And>cl. cl_bOpen (f cl) \<Longrightarrow> cl_bOpen cl"
  shows "server_ok (updClient i f srv)"
proof (cases "i < length (srv_vecClients srv)")
  case True
  have all: "\<forall>cl \<in> set (srv_vecClients srv). client_ok cl" using assms(1) by (simp add: server_ok_def)
  with assms(2) True have "client_ok (f (srv_vecClients srv ! i))" by simp
  with all have "client_ok cl" if "cl \<in> set (srv_vecClients (updClient i f srv))" for cl
    using that set_update_subset_insert [of "srv_vecClients srv" i "f (srv_vecClients srv ! i)"]
    by (auto simp: updClient_def)
  moreover have "nConnectedClientCount (updClient i f srv) \<le> nConnectedClientCount srv"
    unfolding nConnectedClientCount_def updClient_def using assms(3) by (simp add: filter_update_length)
  ultimately show ?thesis using assms(1) by (auto simp: server_ok_def) (auto simp: updClient_def)
qed (use assms in \<open>simp add: updClient_def list_update_beyond\<close>)

lemma ok_send: "server_ok srv \<Longrightarrow> server_ok (snd (bSendControlMessage cdc tick i msg srv))"
  by (auto simp: bSendControlMessage_def Let_def client_ok_def intro!: ok_updClient split: sum.split)

lemma ok_close: "server_ok srv \<Longrightarrow> server_ok (closeClient i srv)"
  unfolding closeClient_def by (rule ok_updClient) (simp_all add: client_ok_def)

lemma ok_fold: "server_ok srv \<Longrightarrow> (\<And>x s. server_ok s \<Longrightarrow> server_ok (f x s)) \<Longrightarrow> server_ok (fold f xs srv)"
  by (induction xs arbitrary: srv) simp_all

lemma ok_broadcast: "server_ok srv \<Longrightarrow> server_ok (broadcastControlMessage cdc tick msg srv)"
  unfolding broadcastControlMessage_def by (rule ok_fold) (simp_all add: ok_send)

lemma ok_monitors: "server_ok srv \<Longrightarrow> server_ok (sendToMonitors cdc tick msg srv)"
proof -
  have "server_ok (case bSendControlMessage cdc tick i msg s of (bSent, t) \<Rightarrow> if bSent then t else closeClient i t)"
    if "server_ok s" for i s
    using ok_send [OF that] by (auto simp: ok_close split: prod.split) (metis snd_conv ok_close)+
  then show "server_ok srv \<Longrightarrow> ?thesis" unfolding sendToMonitors_def by (intro ok_fold) auto
qed

lemma eraseFirst_length: "list_ex P xs \<Longrightarrow> Suc (length (eraseFirst P xs)) = length xs"
  by (induction xs) auto

lemma ok_enqueueObservation: "server_ok srv \<Longrightarrow> server_ok (enqueueMonitorObservation ob srv)"
  using eraseFirst_length [of bNormalPacket "srv_deqMonitorQueue srv"]
  by (auto simp: enqueueMonitorObservation_def countDropped_def Let_def server_ok_def nConnectedClientCount_def
      MAX_MONITOR_EVENT_QUEUE_def)

lemma ok_enqueueMetric: "server_ok srv \<Longrightarrow> server_ok (enqueueMonitorMetric r srv)"
  by (auto simp: enqueueMonitorMetric_def countDropped_def server_ok_def nConnectedClientCount_def
      MAX_METRIC_EVENT_QUEUE_def)

lemma ok_callback: "server_ok srv \<Longrightarrow> server_ok (agentCallback cdc tick ev srv)"
  by (cases ev) (simp_all add: ok_broadcast ok_enqueueObservation ok_enqueueMetric)

lemma ok_nodeCall: "server_ok (ag_srv ag) \<Longrightarrow> server_ok (ag_srv (snd (nodeCall env tick m ag)))"
  by (simp add: nodeCall_run ok_fold ok_callback)

lemma ok_uploadA:
  assumes "\<And>up. upload_bounded up \<Longrightarrow> upload_bounded (snd (m up))" "server_ok (ag_srv s)" "i < nClients s"
  shows "server_ok (ag_srv (snd (uploadA i m s)))"
proof -
  have "upload_bounded (cl_uplFile (clientOf i s))" using assms(2,3) by (auto simp: server_ok_def client_ok_def clientOf_def)
  with assms(1) have "upload_bounded (snd (m (cl_uplFile (clientOf i s))))" by simp
  with assms(2) show ?thesis by (auto simp: uploadA_run client_ok_def intro!: ok_updClient)
qed

text \<open>What a turn of a client's loop keeps.\<close>

definition agent_ok :: "node_agent \<Rightarrow> bool" where "agent_ok ag = server_ok (ag_srv ag)"

lemma ok_uploadA':
  assumes "agent_ok s" "\<And>up. upload_bounded up \<Longrightarrow> upload_bounded (snd (m up))"
  shows "agent_ok (snd (uploadA i m s))"
proof (cases "i < nClients s")
  case True
  with assms ok_uploadA [of m s i] show ?thesis by (simp add: agent_ok_def)
qed (use assms(1) in \<open>simp add: agent_ok_def uploadA_run updClient_def list_update_beyond\<close>)

lemma decoded_ok:
  assumes "batConsume jsn bytes (cl_decStream cl) = Inr (bat, dec)" "client_ok cl"
  shows "client_ok (cl\<lparr>cl_decStream := dec\<rparr>)"
proof -
  have "m_nMaximumFrameLength dec = m_nMaximumFrameLength (cl_decStream cl)"
    using assms(1) by (auto simp: batConsume_def)
  with batConsume_bounded [OF assms(1)] assms(2) show ?thesis
    by (auto simp: client_ok_def split: option.splits)
qed

lemma ok_decoded:
  assumes "batConsume jsn bytes (cl_decStream (clientOf i s)) = Inr (bat, dec)" "agent_ok s"
  shows "agent_ok (snd (clientA i (\<lambda>cl. cl\<lparr>cl_decStream := dec\<rparr>) s))"
proof (cases "i < nClients s")
  case True
  let ?f = "\<lambda>cl. if cl = clientOf i s then cl\<lparr>cl_decStream := dec\<rparr> else cl"
  have "updClient i (\<lambda>cl. cl\<lparr>cl_decStream := dec\<rparr>) (ag_srv s) = updClient i ?f (ag_srv s)"
    by (simp add: updClient_def clientOf_def)
  moreover have "server_ok (updClient i ?f (ag_srv s))"
    using assms by (intro ok_updClient) (auto simp: agent_ok_def decoded_ok split: if_splits)
  ultimately show ?thesis by (simp add: clientA_run agent_ok_def)
qed (use assms in \<open>simp add: clientA_run agent_ok_def updClient_def list_update_beyond\<close>)

interpretation ok_client: client_relation "\<lambda>s t. agent_ok s \<longrightarrow> agent_ok t" env tick i for env tick i
proof unfold_locales
  fix s and r :: string and c n chk k role bytes bat dec msg wrk
  show "agent_ok s \<longrightarrow> agent_ok (s\<lparr>ag_srv := snd (bSendControlMessage (ae_codec env) tick i msg (ag_srv s))\<rparr>)"
    "agent_ok s \<longrightarrow> agent_ok (s\<lparr>ag_srv := closeClient i (ag_srv s)\<rparr>)"
    by (simp_all add: agent_ok_def ok_send ok_close)
  show "agent_ok s \<longrightarrow> agent_ok (snd (resetUpload i s))"
    unfolding resetUpload_def by (auto intro!: ok_uploadA' simp: act_simps upload_bounded_ops)
  show "agent_ok s \<longrightarrow> agent_ok (snd (clientA i (\<lambda>cl. cl\<lparr>cl_bHelloReceived := True, cl_roleClient := role\<rparr>) s))"
    by (auto simp: agent_ok_def clientA_run client_ok_def intro!: ok_updClient)
qed (auto simp: upload_bounded_ops agent_ok_def [of "snd (nodeCall _ _ _ _)"] agent_ok_def [of s for s]
    intro!: ok_uploadA' [unfolded agent_ok_def] ok_decoded [unfolded agent_ok_def] ok_nodeCall)

lemma ok_thread: "(agent_ok s \<longrightarrow> agent_ok (snd (m s))) \<Longrightarrow> agent_ok s \<longrightarrow> agent_ok (snd (threadA m s))"
  by (auto simp: threadA_def catchWith_def act_simps agent_ok_def split: prod.split sum.split)

lemma ok_serverA: "(server_ok (ag_srv s) \<longrightarrow> server_ok (snd (m (ag_srv s)))) \<Longrightarrow> agent_ok s \<longrightarrow> agent_ok (snd (serverA m s))"
  by (simp add: agent_ok_def serverA_def zoomA_def split_beta)

lemma new_client_ok: "client_ok new_client"
  by (simp add: client_ok_def new_client_def upload_bounded_def new_upload_def)

lemma ok_accept: "server_ok srv \<Longrightarrow> server_ok (acceptClient srv)"
  using new_client_ok by (auto simp: acceptClient_def server_ok_def nConnectedClientCount_def)

section \<open>The broadcasting thread\<close>

lemma takeMetricBatch_run:
  "takeMetricBatch srv =
     (if srv_deqMetricQueue srv = [] then Inl (InvalidArgument ''Metric event batch size is invalid'')
      else Inr (MetricEventMessage (take METRIC_BATCH_SIZE (srv_deqMetricQueue srv))),
      srv\<lparr>srv_deqMetricQueue := drop METRIC_BATCH_SIZE (srv_deqMetricQueue srv), srv_pc := BcIdle\<rparr>)"
  by (simp add: takeMetricBatch_def act_simps bindA_cases mkMetricEvent_def METRIC_BATCH_SIZE_def
      MAX_METRIC_BATCH_SIZE_def)

lemma chooseQueue_run:
  assumes "srv_deqMonitorQueue srv \<noteq> [] \<or> srv_deqMetricQueue srv \<noteq> []"
  shows "\<exists>opt. fst (chooseQueue srv) = Inr opt" "server_ok srv \<Longrightarrow> server_ok (snd (chooseQueue srv))"
  using assms
  by (auto simp: chooseQueue_def takeObservation_def act_simps bindA_cases thenA_def whenA_def Let_def takeMetricBatch_run
      server_ok_def nConnectedClientCount_def)

lemma broadcastTurn_throws:
  "fst (broadcastTurn cdc tick srv) \<noteq> Inr () \<longleftrightarrow> srv_pc srv = BcBatching \<and> srv_deqMetricQueue srv = []"
proof (cases "srv_pc srv")
  case BcIdle
  show ?thesis
  proof (cases "srv_deqMonitorQueue srv = [] \<and> srv_deqMetricQueue srv = []")
    case False
    with chooseQueue_run(1) [of srv] obtain opt t where "chooseQueue srv = (Inr opt, t)" by (metis prod.collapse)
    with BcIdle False show ?thesis
      by (auto simp: broadcastTurn_def act_simps bindA_cases split: option.split)
  qed (use BcIdle in \<open>simp add: broadcastTurn_def act_simps whenA_def\<close>)
qed (auto simp: broadcastTurn_def act_simps bindA_cases thenA_def whenA_def takeMetricBatch_run)

lemma ok_broadcastTurn: "server_ok srv \<Longrightarrow> server_ok (snd (broadcastTurn cdc tick srv))"
proof -
  assume ok: "server_ok srv"
  show ?thesis
  proof (cases "srv_pc srv")
    case BcIdle
    show ?thesis
    proof (cases "srv_deqMonitorQueue srv = [] \<and> srv_deqMetricQueue srv = []")
      case False
      with chooseQueue_run [of srv] ok obtain opt t where "chooseQueue srv = (Inr opt, t)" "server_ok t"
        by (metis prod.collapse)
      with BcIdle False show ?thesis
        by (auto simp: broadcastTurn_def act_simps bindA_cases ok_monitors split: option.split)
    next
      case True
      with BcIdle ok show ?thesis
        by (auto simp: broadcastTurn_def act_simps whenA_def server_ok_def nConnectedClientCount_def)
    qed
  next
    case BcBatching
    have "server_ok (srv\<lparr>srv_bPreferMetricBatch := b, srv_deqMetricQueue := drop k (srv_deqMetricQueue srv),
        srv_pc := BcIdle\<rparr>)" for b k
      using ok by (auto simp: server_ok_def nConnectedClientCount_def)
    moreover have "server_ok (srv\<lparr>srv_deqMetricQueue := drop k (srv_deqMetricQueue srv), srv_pc := BcIdle\<rparr>)" for k
      using ok by (auto simp: server_ok_def nConnectedClientCount_def)
    ultimately show ?thesis using BcBatching
      by (auto simp: broadcastTurn_def act_simps bindA_cases thenA_def whenA_def takeMetricBatch_run ok_monitors)
  qed (use ok in \<open>simp add: broadcastTurn_def act_simps\<close>)
qed

lemma ok_work: "agent_ok s \<longrightarrow> agent_ok (snd (nodeWork env tick op s))"
  unfolding nodeWork_def by (intro keeps.seq keeps.ret) (simp add: agent_ok_def ok_nodeCall)

lemma ok_op: "agent_ok s \<longrightarrow> agent_ok (snd (agent_op_act env tick op s))"
proof (cases op)
  case AgentStop
  have c: "server_ok srv \<Longrightarrow> server_ok (clearQueues (srv\<lparr>srv_bRunning := False\<rparr>))" for srv
    by (simp add: clearQueues_def server_ok_def nConnectedClientCount_def)
  show ?thesis
    unfolding AgentStop agent_op_act.simps agent_stop_def
    by (intro keeps.seq keeps.modify ok_serverA) (simp_all add: agent_ok_def ok_nodeCall act_simps c)
next
  case (AgentDatagram ip bs)
  show ?thesis unfolding AgentDatagram agent_op_act.simps agentDatagram_def
    by (intro keeps.seq keeps.modify keeps.ret) (simp_all add: agent_ok_def ok_nodeCall)
next
  case (AgentReceive i bytes)
  then show ?thesis by (simp add: act_simps whenA_def ok_thread ok_client.loop)
next
  case AgentBroadcast
  show ?thesis unfolding AgentBroadcast agent_op_act.simps by (intro ok_thread ok_serverA impI ok_broadcastTurn)
next
  case AgentStart
  have "srv_pc srv = BcReturned \<Longrightarrow> server_ok srv \<Longrightarrow> server_ok (server_start srv)" for srv
    by (simp add: server_start_def server_ok_def nConnectedClientCount_def)
  with AgentStart show ?thesis by (simp add: agent_start_def act_simps agent_ok_def)
next
  case AgentJoined
  have "server_ok srv \<Longrightarrow> server_ok (clearQueues (srv\<lparr>srv_vecClients := []\<rparr>))" if "\<not> srv_bRunning srv" for srv
    using that by (simp add: clearQueues_def server_ok_def nConnectedClientCount_def)
  with AgentJoined show ?thesis by (simp add: agent_joined_def act_simps agent_ok_def)
qed (auto simp: act_simps whenA_def agent_ok_def serverA_def zoomA_def ok_accept ok_close
    ok_work [unfolded agent_ok_def])

lemma ok_run: "agent_ok s \<Longrightarrow> agent_ok (run_ops (agent_step env) ops s)"
proof (induction ops arbitrary: s)
  case (Cons x xs)
  obtain tick op where "x = (tick, op)" by fastforce
  with Cons.prems have "agent_ok (snd (agent_step env x s))" by (simp add: agent_step_def ok_op [rule_format])
  with Cons.IH show ?case by simp
qed simp

lemma new_agent:
  assumes "mkNodeAgent env = Inr ag"
  shows "mkNodeRuntime (ae_node env) = Inr (ag_run ag)" "agent_ok ag" "ag_srv ag = new_server"
  using assms by (auto simp: mkNodeAgent_def andThen_Inr_iff agent_ok_def server_ok_def new_server_def
      nConnectedClientCount_def)

section \<open>Properties of every agent\<close>

lemma agent_drives_histories:
  assumes "mkNodeAgent env = Inr ag0" and "ag = run_ops (agent_step env) ops ag0"
  shows "\<exists>calls recs. list_all (built_sender_op \<circ> snd) calls \<and> list_all (built_op \<circ> snd) recs
    \<and> nd_runSender (ag_run ag) = run_sender (ne_sender (ae_node env)) calls sender_initial
    \<and> nd_runReceiver (ag_run ag) = run_ops (timed_step (ae_ssl env) True) recs new_receiver_runtime
    \<and> (\<forall>ctx. sn_optSenderContext (nd_runSender (ag_run ag)) = Some ctx \<longrightarrow>
         nd_optSenderContext (ag_run ag) = Some ctx \<and> built_sender ctx)"
proof -
  note N = new_node [OF new_agent(1) [OF assms(1)]]
  have "nodePath (ae_node env) (ag_run ag0) (ag_run ag)" using apath_run assms(2) by (simp add: agentPath_def)
  with N have "verifiedContext (ag_run ag)" "senderPath (ae_node env) sender_initial (nd_runSender (ag_run ag))"
    "receiverPath (ae_node env) new_receiver_runtime (nd_runReceiver (ag_run ag))"
    by (simp_all add: nodePath_def)
  moreover have "ne_ssl (ae_node env) = ae_ssl env" by (simp add: ae_node_def)
  ultimately show ?thesis unfolding senderPath_def receiverPath_def verifiedContext_def by (metis option.distinct(1))
qed

text \<open>The operations of an agent that may change its node, and for a client's bytes, when.\<close>

fun mayChangeNode :: "agent_op \<Rightarrow> node_agent \<Rightarrow> bool" where
  "mayChangeNode AgentStop ag = True"
| "mayChangeNode (AgentDatagram _ _) ag = True"
| "mayChangeNode AgentSenderWork ag = True"
| "mayChangeNode AgentReceiverWork ag = True"
| "mayChangeNode (AgentReceiverMetric _) ag = True"
| "mayChangeNode (AgentReceive i _) ag = bManager i ag"
| "mayChangeNode _ ag = False"

text \<open>C12. A step of the agent changes its node only if it stops the agent, delivers a datagram, is a step of the
  node's own threads, or delivers bytes of a client that has greeted as a manager by the end of the step. A client
  that has greeted keeps its role, and a client's bytes change nothing of another client but what that one is sent.\<close>

theorem only_managers_change_the_node:
  assumes "ag' = snd (agent_step env (tick, op) ag)"
  shows "(ag_run ag' \<noteq> ag_run ag \<longrightarrow> mayChangeNode op ag')
    \<and> (\<forall>i bytes. op = AgentReceive i bytes \<longrightarrow> nClients ag' = nClients ag \<and> (i < nClients ag \<longrightarrow>
         (cl_bHelloReceived (clientOf i ag) \<longrightarrow> cl_bHelloReceived (clientOf i ag')
            \<and> cl_roleClient (clientOf i ag') = cl_roleClient (clientOf i ag))
         \<and> (\<forall>j < nClients ag. j \<noteq> i \<longrightarrow>
              (\<exists>xs. clientOf j ag' = (clientOf j ag)\<lparr>cl_vecSends := cl_vecSends (clientOf j ag) @ xs\<rparr>))))"
proof (cases op)
  case (AgentReceive i bytes)
  have s: "clientScope i ag ag'" unfolding assms AgentReceive by (rule scope_receive)
  show ?thesis
  proof (cases "i < nClients ag")
    case False
    then have "ag' = ag" unfolding assms AgentReceive
      by (simp add: agent_step_def act_simps bClientRuns_def whenA_def)
    with s AgentReceive False show ?thesis by (simp add: clientScope_def)
  next
    case True
    with s AgentReceive show ?thesis by (auto simp: clientScope_def)
  qed
next
  case AgentBroadcast
  then show ?thesis unfolding assms
    by (auto simp: agent_step_def threadA_def catchWith_def serverA_def zoomA_def act_simps split: prod.splits sum.splits)
qed (auto simp: assms agent_step_def agent_start_def agent_joined_def act_simps whenA_def serverA_def zoomA_def)

text \<open>C13. In every history of an agent, whatever its clients send: the two queues of events for monitors stay within
  their limits, at most 32 clients are connected, a connection buffers less than a frame of 16 MiB with its
  length, and an upload holds no more bytes than the largest file.\<close>

theorem agent_bounded:
  assumes "mkNodeAgent env = Inr ag0" and "ag = run_ops (agent_step env) ops ag0"
  shows "length (srv_deqMonitorQueue (ag_srv ag)) \<le> 4096 \<and> length (srv_deqMetricQueue (ag_srv ag)) \<le> 8192
    \<and> nConnectedClientCount (ag_srv ag) \<le> 32
    \<and> (\<forall>cl \<in> set (srv_vecClients (ag_srv ag)). length (m_vecPendingBytes (cl_decStream cl)) < 4 + 16 * 1024 * 1024
         \<and> length (m_vecUploadBytes (cl_uplFile cl)) \<le> MAXIMUM_FILE_SIZE)"
proof -
  have "server_ok (ag_srv ag)" using ok_run [OF new_agent(2) [OF assms(1)]] assms(2) by (simp add: agent_ok_def)
  then show ?thesis
    by (auto simp: server_ok_def client_ok_def upload_bounded_def MAX_MONITOR_EVENT_QUEUE_def MAX_METRIC_EVENT_QUEUE_def
        MAX_CLIENTS_def)
qed

lemma agent_receiver_ok:
  assumes "mkNodeAgent env = Inr ag0" "ag = run_ops (agent_step env) ops ag0"
  shows "runtime_ok (ae_ssl env) (nd_runReceiver (ag_run ag))"
  using agent_drives_histories [OF assms] runtime_history_ok by metis

lemma stopped_while_batching:
  assumes "runtime_ok ssl (nd_runReceiver (ag_run ag))" "srv_pc (ag_srv ag) = BcBatching"
  shows "\<exists>t. agent_stop env tick ag = (Inr (), t) \<and> srv_pc (ag_srv t) = BcBatching \<and> srv_deqMetricQueue (ag_srv t) = []"
proof -
  let ?m = "node_stop (ae_node env) (at_tick tick)" and ?s = "ag\<lparr>ag_bRunning := False\<rparr>"
  obtain nd where nd: "?m (ag_run ag) = (Inr (), nd)" using node_stop_returns [OF assms(1)] by blast
  have "srv_pc (ag_srv (snd (nodeCall env tick ?m ?s))) = BcBatching"
    using clientsSentD(3) [OF nodeCall_sent [of ?s env tick ?m]] assms(2) by simp
  with nd show ?thesis
    by (simp add: agent_stop_def act_simps thenA_def bindA_cases nodeCall_run serverA_def zoomA_def clearQueues_def)
qed

text \<open>C21. While the server runs, the broadcasting thread never throws. But when \<open>stop()\<close> comes while this thread
  waits for more metrics to fill a batch, the queue is cleared, the thread builds the event of an empty batch, the
  exception leaves the thread and the process ends.\<close>

theorem stop_in_metric_wait_ends_process:
  assumes "mkNodeAgent env = Inr ag0" and "ag = run_ops (agent_step env) ops ag0" and "\<not> bProcessEnded ag"
  shows "(srv_bRunning (ag_srv ag) \<longrightarrow> \<not> bProcessEnded (snd (agent_step env (tick, AgentBroadcast) ag)))
    \<and> (srv_pc (ag_srv ag) = BcBatching \<longrightarrow>
        bProcessEnded (run_ops (agent_step env) [(tick', AgentStop), (tick'', AgentBroadcast)] ag))"
proof (intro conjI impI)
  have ok: "server_ok (ag_srv ag)" using ok_run [OF new_agent(2) [OF assms(1)]] assms(2) by (simp add: agent_ok_def)
  assume "srv_bRunning (ag_srv ag)"
  with ok have "fst (broadcastTurn (ae_codec env) tick (ag_srv ag)) = Inr ()"
    using broadcastTurn_throws by (fastforce simp: server_ok_def)
  with assms(3) show "\<not> bProcessEnded (snd (agent_step env (tick, AgentBroadcast) ag))"
    by (auto simp: agent_step_def threadA_def catchWith_def serverA_def zoomA_def bProcessEnded_def
        split: prod.splits sum.splits)
next
  assume pc: "srv_pc (ag_srv ag) = BcBatching"
  obtain t where t: "agent_stop env tick' ag = (Inr (), t)" "srv_pc (ag_srv t) = BcBatching"
    "srv_deqMetricQueue (ag_srv t) = []"
    using stopped_while_batching [OF agent_receiver_ok [OF assms(1,2)] pc] by blast
  obtain e where "fst (broadcastTurn (ae_codec env) tick'' (ag_srv t)) = Inl e"
    using broadcastTurn_throws [of "ae_codec env" tick'' "ag_srv t"] t
    by (cases "fst (broadcastTurn (ae_codec env) tick'' (ag_srv t))") auto
  with t(1) assms(3) show "bProcessEnded (run_ops (agent_step env) [(tick', AgentStop), (tick'', AgentBroadcast)] ag)"
    by (auto simp: agent_step_def threadA_def catchWith_def serverA_def zoomA_def act_simps bProcessEnded_def
        split: prod.splits sum.splits)
qed

section \<open>A message of a monitor\<close>

text \<open>A frame that arrives alone is handled as the message it holds.\<close>

lemma received_message:
  assumes "m_vecPendingBytes (cl_decStream (clientOf i ag)) = []"
    and "frame_ok (js_bObject (ae_codec env)) (JsonControlFrame strJson)"
    and "tcp_vecEncode (JsonControlFrame strJson) = Inr bytes"
    and "length bytes - 4 \<le> m_nMaximumFrameLength (cl_decStream (clientOf i ag))"
    and "js_resDecode (ae_codec env) strJson = Inr msg"
  shows "clientLoop env tick i bytes ag
    = bindA (if cl_bHelloReceived (clientOf i ag) then handleMessage env tick i msg else handleHello env tick i msg)
        (\<lambda>b. whenA (\<not> b) (serverA (modifyA (closeClient i)))) ag"
proof -
  let ?dec = "cl_decStream (clientOf i ag)"
  let ?handle = "if cl_bHelloReceived (clientOf i ag) then handleMessage env tick i msg else handleHello env tick i msg"
  have "batConsume (js_bObject (ae_codec env)) bytes ?dec = Inr (\<lparr>m_vecFrames = [JsonControlFrame strJson], m_optError = None\<rparr>, ?dec)"
    using consumeLoop_frame [OF assms(2,3,4), of "[]" "[]"] assms(1) by (simp add: batConsume_def consumeLoop_short)
  moreover have "updClient i (\<lambda>cl. cl\<lparr>cl_decStream := ?dec\<rparr>) (ag_srv ag) = ag_srv ag"
    by (simp add: updClient_def clientOf_def)
  moreover have "handleFrames env tick i [JsonControlFrame strJson] ag = ?handle ag"
    using assms(5) by (cases "?handle ag") (auto simp: handleJson_def act_simps bindA_cases split: sum.split if_split_asm)
  ultimately show ?thesis
    by (simp add: clientLoop_def act_simps thenA_def bindA_def [of "clientA _ _"] clientA_run
        bindA_def [of "handleMessage _ _ _ _"] bindA_def [of "handleHello _ _ _ _"] del: handleFrames.simps)
      (simp add: bindA_def)
qed

lemma monitor_forwarded:
  assumes "cl_roleClient (clientOf i ag) = MonitorClient" "builtMessage msg" "bNodeMessage (typeMessage msg)"
  shows "handleMessage env tick i msg ag = (if experimentMessage msg
      then (Inl (BadVariantAccess ''std::get: wrong index for variant''), ag)
      else answerA env tick i (monitorAnswer msg) ag)"
    and "\<not> experimentMessage msg \<Longrightarrow> \<exists>m. monitorAnswer msg = Inr m \<and> refusal m"
proof -
  have m: "bIsMutationMessage (typeMessage msg)" using assms(3) by (auto simp: bNodeMessage_def bIsMutationMessage_def)
  note r = monitorAnswer_refuses [OF assms(2) m]
  have f: "handleMessage env tick i msg = forwardMessage env tick i msg"
    using assms(2,3) by (cases msg) (auto simp: bNodeMessage_def mkRequestControl_def split: if_splits)
  have n: "nodeCall env tick (msgHandleControl (ae_node env) (at_tick tick) MonitorClient msg) ag = (monitorAnswer msg, ag)"
    using m by (simp add: nodeCall_run msgHandleControl_def act_simps)
  show "handleMessage env tick i msg ag = (if experimentMessage msg
      then (Inl (BadVariantAccess ''std::get: wrong index for variant''), ag)
      else answerA env tick i (monitorAnswer msg) ag)"
    using r assms(1,3) by (auto simp: f forwardMessage_def act_simps bindA_cases n answerA_def)
  show "\<not> experimentMessage msg \<Longrightarrow> \<exists>m. monitorAnswer msg = Inr m \<and> refusal m" using r by simp
qed

text \<open>C22. A frame of a monitor that holds a well-formed message for the node changes neither the node nor another
  client; and it ends the process exactly if the message is a fault plan or an attack source mapping, for which the
  node throws out of the client's thread instead of refusing.\<close>

theorem monitor_experiment_ends_process:
  assumes runs: "bClientRuns i ag" "\<not> bProcessEnded ag"
    and monitor: "cl_bHelloReceived (clientOf i ag)" "cl_roleClient (clientOf i ag) = MonitorClient"
    and stream: "m_vecPendingBytes (cl_decStream (clientOf i ag)) = []"
      "length bytes - 4 \<le> m_nMaximumFrameLength (cl_decStream (clientOf i ag))"
    and frame: "frame_ok (js_bObject (ae_codec env)) (JsonControlFrame strJson)"
      "tcp_vecEncode (JsonControlFrame strJson) = Inr bytes"
    and msg: "js_resDecode (ae_codec env) strJson = Inr msg" "builtMessage msg" "bNodeMessage (typeMessage msg)"
    and after: "ag' = snd (agent_step env (tick, AgentReceive i bytes) ag)"
  shows "bProcessEnded ag' = experimentMessage msg \<and> ag_run ag' = ag_run ag
    \<and> (\<forall>j < nClients ag. j \<noteq> i \<longrightarrow> clientOf j ag' = clientOf j ag)"
proof -
  note loop = received_message [OF stream(1) frame stream(2) msg(1), of tick, unfolded if_P [OF monitor(1)]]
  note f = monitor_forwarded [OF monitor(2) msg(2,3)]
  have step: "agent_step env (tick, AgentReceive i bytes) ag = threadA (clientLoop env tick i bytes) ag"
    using runs by (simp add: agent_step_def act_simps)
  show ?thesis
  proof (cases "experimentMessage msg")
    case True
    then have "agent_step env (tick, AgentReceive i bytes) ag = (Inr (), ag\<lparr>ag_bTerminated := True\<rparr>)"
      by (simp add: step threadA_def catchWith_def loop bindA_def f(1) act_simps)
    with True after show ?thesis by (simp add: bProcessEnded_def clientOf_def)
  next
    case False
    then obtain m where m: "monitorAnswer msg = Inr m" using f(2) by blast
    obtain b srv where s: "bSendControlMessage (ae_codec env) tick i m (ag_srv ag) = (b, srv)" by fastforce
    have "agent_step env (tick, AgentReceive i bytes) ag
        = (Inr (), ag\<lparr>ag_srv := if b then srv else closeClient i srv\<rparr>)"
      using False m s by (simp add: step threadA_def catchWith_def loop bindA_def [of "handleMessage _ _ _ _"] f(1)
          answerA_def act_simps serverA_def zoomA_def whenA_def)
    moreover have "srv_vecClients srv ! j = srv_vecClients (ag_srv ag) ! j" if "j \<noteq> i" for j
    proof -
      have "srv = snd (bSendControlMessage (ae_codec env) tick i m (ag_srv ag))" using s by simp
      with that show ?thesis by (auto simp: bSendControlMessage_def Let_def updClient_def split: sum.split)
    qed
    ultimately show ?thesis using after False runs(2)
      by (auto simp: bProcessEnded_def clientOf_def closeClient_def updClient_def)
  qed
qed

end
