(* ===== verification/NodeAgentUpload.thy ===== *)
theory NodeAgentUpload
  imports NodeAgentTheorems
begin

text \<open>
  The upload of a file through the agent: the frames of a transfer reach the upload session of their
  connection, however the bytes arrive, and the message that ends it hands the node the file.
\<close>

section \<open>Frames a session takes\<close>

definition setUpload :: "nat \<Rightarrow> upload_session \<Rightarrow> node_agent \<Rightarrow> node_agent" where
  "setUpload i up ag = ag\<lparr>ag_srv := updClient i (\<lambda>cl. cl\<lparr>cl_uplFile := up\<rparr>) (ag_srv ag)\<rparr>"

fun accepted_op :: "unit result \<times> upload_session \<Rightarrow> upload_session option" where
  "accepted_op (Inr _, up) = Some up"
| "accepted_op (Inl _, up) = None"

text \<open>The session after frames that begin an upload and append to it.\<close>

fun absorb :: "control_codec \<Rightarrow> tcp_frame list \<Rightarrow> upload_session \<Rightarrow> upload_session option" where
  "absorb cdc [] up = Some up"
| "absorb cdc (FileChunkFrame chk # frms) up = Option.bind (accepted_op (upload_append chk up)) (absorb cdc frms)"
| "absorb cdc (JsonControlFrame strJson # frms) up =
     (case js_resDecode cdc strJson of
        Inr (UploadBeginMessage ubc) \<Rightarrow> Option.bind
          (accepted_op (upload_begin (ubc_strRequestId ubc) (ubc_u64ChainId ubc) (ubc_u64OriginalByteCount ubc) up))
          (absorb cdc frms)
      | _ \<Rightarrow> None)"

lemma accepted_Some: "accepted_op x = Some up \<longleftrightarrow> x = (Inr (), up)"
  by (cases x rule: accepted_op.cases) auto

lemma absorb_append: "absorb cdc (fs @ gs) up = Option.bind (absorb cdc fs up) (absorb cdc gs)"
  by (induction fs up rule: absorb.induct)
    (auto split: sum.split control_message.split bind_splits)

lemma bManager_setUpload: "bManager i (setUpload i up ag) = bManager i ag"
  by (simp add: bManager_def setUpload_def clientOf_updClient)

lemma setUpload_client: "i < nClients ag \<Longrightarrow> cl_uplFile (clientOf i (setUpload i up ag)) = up"
  by (simp add: setUpload_def clientOf_updClient)

lemma setUpload_again: "setUpload i up' (setUpload i up ag) = setUpload i up' ag"
  by (cases "i < nClients ag") (simp_all add: setUpload_def updClient_def list_update_beyond)

lemma setUpload_same: "setUpload i (cl_uplFile (clientOf i ag)) ag = ag"
  by (simp add: setUpload_def updClient_def clientOf_def)

lemma nClients_setUpload: "nClients (setUpload i up ag) = nClients ag"
  by (simp add: setUpload_def)

lemma uploadA_set: "uploadA i m ag = (fst (m (cl_uplFile (clientOf i ag))), setUpload i (snd (m (cl_uplFile (clientOf i ag)))) ag)"
  by (simp add: uploadA_run setUpload_def)

lemma absorbed_frame:
  assumes "bManager i ag" "i < nClients ag" "absorb (ae_codec env) [frm] (cl_uplFile (clientOf i ag)) = Some up"
  shows "bHandleFrame env tick i frm ag = (Inr True, setUpload i up ag)"
proof (cases frm)
  case (FileChunkFrame chk)
  with assms have "upload_append chk (cl_uplFile (clientOf i ag)) = (Inr (), up)" by (simp add: bind_eq_Some_conv accepted_Some)
  with FileChunkFrame assms(1) show ?thesis
    by (simp add: handleChunk_def act_simps bManager_def catchWith_def thenA_def bindA_def [of "uploadA _ _"] uploadA_set)
next
  case (JsonControlFrame strJson)
  with assms(3) obtain ubc where u: "js_resDecode (ae_codec env) strJson = Inr (UploadBeginMessage ubc)"
    "upload_begin (ubc_strRequestId ubc) (ubc_u64ChainId ubc) (ubc_u64OriginalByteCount ubc)
       (cl_uplFile (clientOf i ag)) = (Inr (), up)"
    by (auto simp: bind_eq_Some_conv accepted_Some split: sum.splits control_message.splits)
  with JsonControlFrame assms(1) show ?thesis
    by (simp add: handleJson_def handleUploadBegin_def act_simps bManager_def catchWith_def thenA_def
        bindA_def [of "uploadA _ _"] uploadA_set)
qed

lemma absorbed_frames:
  assumes "bManager i ag" "i < nClients ag" "absorb (ae_codec env) frms (cl_uplFile (clientOf i ag)) = Some up"
  shows "handleFrames env tick i (frms @ gs) ag = handleFrames env tick i gs (setUpload i up ag)"
  using assms
proof (induction frms arbitrary: ag)
  case Nil
  then show ?case by (auto simp: setUpload_same)
next
  case (Cons frm frms)
  obtain up1 where 1: "absorb (ae_codec env) [frm] (cl_uplFile (clientOf i ag)) = Some up1"
    and 2: "absorb (ae_codec env) frms up1 = Some up"
    using Cons.prems(3) absorb_append [of "ae_codec env" "[frm]" frms] by (auto simp: bind_eq_Some_conv)
  let ?ag1 = "setUpload i up1 ag"
  have "handleFrames env tick i (frms @ gs) ?ag1 = handleFrames env tick i gs (setUpload i up ?ag1)"
    using Cons.prems(1,2) 2 by (intro Cons.IH) (simp_all add: bManager_setUpload setUpload_client nClients_setUpload)
  then show ?case
    by (simp add: bindA_def [of "bHandleFrame _ _ _ _"] absorbed_frame [OF Cons.prems(1,2) 1] setUpload_again)
qed

section \<open>The message that ends the transfer\<close>

lemma answerA_keeps: "ag_run (snd (answerA env tick i r ag)) = ag_run ag"
  by (cases r) (simp_all add: answerA_def act_simps serverA_def zoomA_def split: prod.split)

lemma answerA_returns: "\<exists>b. fst (answerA env tick i (Inr msg) ag) = Inr b"
  by (simp add: answerA_def act_simps serverA_def zoomA_def split: prod.split)

lemma resetUpload_run: "resetUpload i ag = (Inr (), setUpload i (upload_reset (cl_uplFile (clientOf i ag))) ag)"
  by (simp add: resetUpload_def uploadA_set act_simps)

lemma ag_run_setUpload: "ag_run (setUpload i up ag) = ag_run ag"
  by (simp add: setUpload_def)

lemma ended_upload:
  assumes "bManager i ag" "fst (wrkComplete (uec_strRequestId uec) (uec_u64ChainId uec) (uec_u32ChunkCount uec)
      (uec_u64TransferredByteCount uec) (cl_uplFile (clientOf i ag))) = Inr wrk"
  shows "ag_run (snd (handleUploadEnd env tick i uec ag)) = snd (msgApplyFilePayload (ae_node env) (at_tick tick) Manager
      (uec_strRequestId uec) (uec_u64ChainId uec) wrk (ag_run ag))"
proof -
  let ?m = "msgApplyFilePayload (ae_node env) (at_tick tick) Manager (uec_strRequestId uec) (uec_u64ChainId uec) wrk"
  obtain r nd where m: "?m (ag_run ag) = (r, nd)" by fastforce
  obtain up where "wrkComplete (uec_strRequestId uec) (uec_u64ChainId uec) (uec_u32ChunkCount uec)
      (uec_u64TransferredByteCount uec) (cl_uplFile (clientOf i ag)) = (Inr wrk, up)"
    using assms(2) by (metis prod.collapse)
  then have u: "uploadA i (wrkComplete (uec_strRequestId uec) (uec_u64ChainId uec) (uec_u32ChunkCount uec)
      (uec_u64TransferredByteCount uec)) ag = (Inr wrk, setUpload i up ag)" by (simp add: uploadA_set)
  obtain ag1 where n: "nodeCall env tick ?m (setUpload i up ag) = (r, ag1)" and run: "ag_run ag1 = nd"
    by (simp add: nodeCall_run ag_run_setUpload m)
  have role: "cl_roleClient (clientOf i ag) = Manager" using assms(1) by (simp add: bManager_def)
  show ?thesis
  proof (cases r)
    case (Inl e)
    with role u n run m show ?thesis
      by (simp add: handleUploadEnd_def act_simps catchWith_def bindA_def [of "uploadA _ _"] bindA_def [of "nodeCall _ _ _"]
          thenA_def bindA_def [of "resetUpload _"] resetUpload_run answerA_keeps ag_run_setUpload)
  next
    case (Inr msg)
    obtain b ag2 where "answerA env tick i (Inr msg) ag1 = (Inr b, ag2)"
      using answerA_returns [of env tick i msg ag1] by (metis prod.collapse)
    moreover from this have "ag_run ag2 = nd" using answerA_keeps [of env tick i "Inr msg" ag1] run by simp
    ultimately show ?thesis using Inr role u n m
      by (simp add: handleUploadEnd_def act_simps catchWith_def bindA_def [of "uploadA _ _"] bindA_def [of "nodeCall _ _ _"])
  qed
qed

section \<open>The transfer in pieces\<close>

text \<open>A frame that is whole leaves the buffer as a frame; no bytes are left without one.\<close>

lemma consumeLoop_nothing: "consumeLoop jsn mx p [] = Inr ([], None, p') \<Longrightarrow> p' = p"
proof (cases p rule: pending_cases)
  case (full n r)
  assume c: "consumeLoop jsn mx p [] = Inr ([], None, p')"
  have "consumeLoop jsn mx ys [f] \<noteq> Inr ([], None, p')" for ys f
    unfolding consumeLoop_frames_prefix [of jsn mx ys "[f]"]
    by (cases "consumeLoop jsn mx ys []") (auto split: prod.splits)
  with c show ?thesis unfolding full consumeLoop_turn by (auto split: if_splits sum.splits)
qed (simp add: consumeLoop_short)

lemma consumed_prefix:
  assumes "consumeLoop jsn mx (p @ a @ b) [] = Inr (frames, None, [])" "a @ b \<noteq> []" "b \<noteq> []"
  obtains fs gs q where "consumeLoop jsn mx (p @ a) [] = Inr (fs, None, q)" "frames = fs @ gs" "gs \<noteq> []"
    "consumeLoop jsn mx (q @ b) [] = Inr (gs, None, [])"
proof -
  obtain fs e q where c: "consumeLoop jsn mx (p @ a) [] = Inr (fs, e, q)"
    using consumeLoop_total [of jsn mx "p @ a" "[]"] by auto
  have e: "e = None"
  proof (cases e)
    case (Some x)
    from consumeLoop_error_final [OF c [unfolded Some], of b] assms(1) show ?thesis by simp
  qed
  from consumeLoop_more [OF c [unfolded e], of b] assms(1) have "consumeLoop jsn mx (q @ b) fs = Inr (frames, None, [])" by simp
  then obtain gs where gs: "consumeLoop jsn mx (q @ b) [] = Inr (gs, None, [])" "frames = fs @ gs"
    unfolding consumeLoop_frames_prefix [of jsn mx "q @ b" fs]
    by (cases "consumeLoop jsn mx (q @ b) []") (auto split: prod.splits)
  moreover have "gs \<noteq> []" using consumeLoop_nothing gs(1) assms(3) by fastforce
  ultimately show thesis using that c e by blast
qed

text \<open>The agent once a client's decoder keeps the bytes \<open>q\<close>.\<close>

definition setPending :: "nat \<Rightarrow> byte list \<Rightarrow> node_agent \<Rightarrow> node_agent" where
  "setPending i q ag = ag\<lparr>ag_srv := updClient i
     (\<lambda>cl. cl\<lparr>cl_decStream := (cl_decStream (clientOf i ag))\<lparr>m_vecPendingBytes := q\<rparr>\<rparr>) (ag_srv ag)\<rparr>"

lemma setPending_members:
  "nClients (setPending i q ag) = nClients ag" "bManager i (setPending i q ag) = bManager i ag"
  "cl_uplFile (clientOf i (setPending i q ag)) = cl_uplFile (clientOf i ag)" "ag_run (setPending i q ag) = ag_run ag"
  by (simp_all add: setPending_def bManager_def clientOf_updClient)

lemma received_frames:
  assumes "bClientRuns i ag" "\<not> bProcessEnded ag"
    and "consumeLoop (js_bObject (ae_codec env)) (m_nMaximumFrameLength (cl_decStream (clientOf i ag)))
      (m_vecPendingBytes (cl_decStream (clientOf i ag)) @ bytes) [] = Inr (frms, None, q)"
  shows "agent_step env (tick, AgentReceive i bytes) ag
    = threadA (bindA (handleFrames env tick i frms) (\<lambda>b. whenA (\<not> b) (serverA (modifyA (closeClient i))))) (setPending i q ag)"
  using assms by (simp add: agent_step_run act_simps clientLoop_def threadA_def catchWith_def batConsume_def thenA_def
      bindA_def [of "clientA _ _"] clientA_run setPending_def)

lemma received_absorbed:
  assumes "bClientRuns i ag" "\<not> bProcessEnded ag" "bManager i ag"
    and "consumeLoop (js_bObject (ae_codec env)) (m_nMaximumFrameLength (cl_decStream (clientOf i ag)))
      (m_vecPendingBytes (cl_decStream (clientOf i ag)) @ bytes) [] = Inr (frms, None, q)"
    and "absorb (ae_codec env) frms (cl_uplFile (clientOf i ag)) = Some up"
  shows "snd (agent_step env (tick, AgentReceive i bytes) ag) = setUpload i up (setPending i q ag)"
proof -
  have "handleFrames env tick i frms (setPending i q ag) = (Inr True, setUpload i up (setPending i q ag))"
    using absorbed_frames [of i "setPending i q ag" env frms up tick "[]"] assms(1,3,5)
    by (simp add: setPending_members bClientRuns_def act_simps)
  then show ?thesis
    by (simp add: received_frames [OF assms(1,2,4)] threadA_def catchWith_def bindA_def [of "handleFrames _ _ _ _"] act_simps)
qed

text \<open>The client and its connection after bytes that were absorbed.\<close>

lemma absorbed_client:
  assumes "bClientRuns i ag"
  shows "bClientRuns i (setUpload i up (setPending i q ag))" "bManager i (setUpload i up (setPending i q ag)) = bManager i ag"
    "bProcessEnded (setUpload i up (setPending i q ag)) = bProcessEnded ag"
    "cl_uplFile (clientOf i (setUpload i up (setPending i q ag))) = up"
    "cl_decStream (clientOf i (setUpload i up (setPending i q ag))) = (cl_decStream (clientOf i ag))\<lparr>m_vecPendingBytes := q\<rparr>"
    "ag_run (setUpload i up (setPending i q ag)) = ag_run ag"
proof -
  have i: "i < nClients ag" using assms by (simp add: bClientRuns_def)
  then have c: "clientOf i (setUpload i up (setPending i q ag)) = (clientOf i ag)\<lparr>cl_uplFile := up,
      cl_decStream := (cl_decStream (clientOf i ag))\<lparr>m_vecPendingBytes := q\<rparr>\<rparr>"
    by (simp add: setUpload_def clientOf_updClient setPending_members) (simp add: setPending_def clientOf_updClient)
  have "srv_bRunning (ag_srv (setUpload i up (setPending i q ag))) = srv_bRunning (ag_srv ag)"
    by (simp add: setUpload_def setPending_def updClient_def)
  with assms i show "bClientRuns i (setUpload i up (setPending i q ag))"
    by (simp add: bClientRuns_def c nClients_setUpload setPending_members)
  show "bProcessEnded (setUpload i up (setPending i q ag)) = bProcessEnded ag"
    by (simp add: bProcessEnded_def setUpload_def setPending_def)
qed (simp_all add: bManager_setUpload setPending_members ag_run_setUpload,
    use assms in \<open>simp_all add: bClientRuns_def setUpload_def clientOf_updClient setPending_members\<close>,
    simp add: setPending_def clientOf_updClient)

lemma received_end:
  assumes "bClientRuns i ag" "\<not> bProcessEnded ag" "bManager i ag"
    and "consumeLoop (js_bObject (ae_codec env)) (m_nMaximumFrameLength (cl_decStream (clientOf i ag)))
      (m_vecPendingBytes (cl_decStream (clientOf i ag)) @ bytes) [] = Inr (frms @ [JsonControlFrame strEnd], None, q)"
    and "absorb (ae_codec env) frms (cl_uplFile (clientOf i ag)) = Some up"
    and "js_resDecode (ae_codec env) strEnd = Inr (UploadEndMessage uec)"
    and "fst (wrkComplete (uec_strRequestId uec) (uec_u64ChainId uec) (uec_u32ChunkCount uec)
      (uec_u64TransferredByteCount uec) up) = Inr wrk"
  shows "ag_run (snd (agent_step env (tick, AgentReceive i bytes) ag))
    = snd (msgApplyFilePayload (ae_node env) (at_tick tick) Manager (uec_strRequestId uec) (uec_u64ChainId uec) wrk (ag_run ag))"
proof -
  let ?ag = "setUpload i up (setPending i q ag)" and ?frames = "frms @ [JsonControlFrame strEnd]"
  note c = absorbed_client [OF assms(1), of up q]
  have "handleFrames env tick i ?frames (setPending i q ag) = handleFrames env tick i [JsonControlFrame strEnd] ?ag"
    using assms(1,3,5) by (intro absorbed_frames) (simp_all add: setPending_members bClientRuns_def)
  moreover have "handleJson env tick i strEnd ?ag = handleUploadEnd env tick i uec ?ag"
    using assms(6) c(2) assms(3) by (simp add: handleJson_def act_simps bManager_def)
  moreover have "ag_run (snd (handleUploadEnd env tick i uec ?ag)) = snd (msgApplyFilePayload (ae_node env) (at_tick tick)
      Manager (uec_strRequestId uec) (uec_u64ChainId uec) wrk (ag_run ag))"
    using ended_upload [of i ?ag uec wrk env tick] assms(3,7) c(2,4,6) by simp
  ultimately have "ag_run (snd (handleFrames env tick i ?frames (setPending i q ag))) = snd (msgApplyFilePayload (ae_node env)
      (at_tick tick) Manager (uec_strRequestId uec) (uec_u64ChainId uec) wrk (ag_run ag))"
    by (auto simp: bindA_cases act_simps split: sum.split)
  moreover have "ag_run (snd (threadA (bindA m (\<lambda>b. whenA (\<not> b) (serverA (modifyA (closeClient i))))) s)) = ag_run (snd (m s))"
    for m s by (auto simp: threadA_def catchWith_def bindA_cases whenA_def act_simps serverA_def zoomA_def
        split: prod.splits sum.splits)
  ultimately show ?thesis by (simp only: received_frames [OF assms(1,2,4)])
qed

text \<open>The bytes of one client, in the pieces in which they come.\<close>

abbreviation receives :: "nat \<Rightarrow> (agent_tick \<times> byte list) list \<Rightarrow> (agent_tick \<times> agent_op) list" where
  "receives i parts \<equiv> map (\<lambda>(tick, bytes). (tick, AgentReceive i bytes)) parts"

lemma transfer_received:
  assumes "bClientRuns i ag" "\<not> bProcessEnded ag" "bManager i ag"
    and "consumeLoop (js_bObject (ae_codec env)) (m_nMaximumFrameLength (cl_decStream (clientOf i ag)))
      (m_vecPendingBytes (cl_decStream (clientOf i ag)) @ concat (map snd parts)) []
      = Inr (frms @ [JsonControlFrame strEnd], None, [])"
    and "absorb (ae_codec env) frms (cl_uplFile (clientOf i ag)) = Some up"
    and "js_resDecode (ae_codec env) strEnd = Inr (UploadEndMessage uec)"
    and "fst (wrkComplete (uec_strRequestId uec) (uec_u64ChainId uec) (uec_u32ChunkCount uec)
      (uec_u64TransferredByteCount uec) up) = Inr wrk"
    and "parts \<noteq> []" "\<forall>part \<in> set parts. snd part \<noteq> []"
  shows "(\<forall>n < length parts. ag_run (run_ops (agent_step env) (receives i (take n parts)) ag) = ag_run ag)
    \<and> ag_run (run_ops (agent_step env) (receives i parts) ag) = snd (msgApplyFilePayload (ae_node env)
      (at_tick (fst (last parts))) Manager (uec_strRequestId uec) (uec_u64ChainId uec) wrk (ag_run ag))"
  using assms
proof (induction parts arbitrary: ag frms)
  case (Cons part parts)
  obtain tick bytes where part: "part = (tick, bytes)" by fastforce
  show ?case
  proof (cases "parts = []")
    case True
    with Cons.prems part received_end [of i ag env bytes frms strEnd "[]" up uec wrk tick] show ?thesis by simp
  next
    case False
    let ?dec = "cl_decStream (clientOf i ag)"
    have ne: "concat (map snd parts) \<noteq> []" using False Cons.prems(9) by (cases parts) auto
    obtain fs gs q where f: "consumeLoop (js_bObject (ae_codec env)) (m_nMaximumFrameLength ?dec)
        (m_vecPendingBytes ?dec @ bytes) [] = Inr (fs, None, q)" "frms @ [JsonControlFrame strEnd] = fs @ gs" "gs \<noteq> []"
      and g: "consumeLoop (js_bObject (ae_codec env)) (m_nMaximumFrameLength ?dec) (q @ concat (map snd parts)) []
        = Inr (gs, None, [])"
      by (rule consumed_prefix [of "js_bObject (ae_codec env)" "m_nMaximumFrameLength ?dec" "m_vecPendingBytes ?dec" bytes
            "concat (map snd parts)" "frms @ [JsonControlFrame strEnd]"]) (use Cons.prems(4) part ne in auto)
    from f(2,3) obtain hs where hs: "gs = hs @ [JsonControlFrame strEnd]" "frms = fs @ hs"
      by (cases gs rule: rev_cases) auto
    with Cons.prems(5) obtain up1 where up1: "absorb (ae_codec env) fs (cl_uplFile (clientOf i ag)) = Some up1"
      "absorb (ae_codec env) hs up1 = Some up" by (auto simp: absorb_append bind_eq_Some_conv)
    let ?ag = "setUpload i up1 (setPending i q ag)"
    note c = absorbed_client [OF Cons.prems(1), of up1 q]
    have IH: "(\<forall>n < length parts. ag_run (run_ops (agent_step env) (receives i (take n parts)) ?ag) = ag_run ?ag)
      \<and> ag_run (run_ops (agent_step env) (receives i parts) ?ag) = snd (msgApplyFilePayload (ae_node env)
        (at_tick (fst (last parts))) Manager (uec_strRequestId uec) (uec_u64ChainId uec) wrk (ag_run ?ag))"
      by (rule Cons.IH) (use Cons.prems c g hs up1 False in simp_all)
    have step: "snd (agent_step env (tick, AgentReceive i bytes) ag) = ?ag"
      by (rule received_absorbed [OF Cons.prems(1,2,3) f(1) up1(1)])
    have "ag_run (run_ops (agent_step env) (receives i (take n (part # parts))) ag) = ag_run ag"
      if "n < length (part # parts)" for n
      using that IH step c(6) part by (cases n) simp_all
    then show ?thesis using False part c(6) IH step by simp
  qed
qed simp

section \<open>A file\<close>

lemma begun_upload:
  "\<not> m_bActive up \<Longrightarrow> upload_begin r c n new_upload = (Inr (), up') \<Longrightarrow> upload_begin r c n up = (Inr (), up')"
  by (auto simp: upload_begin_def new_upload_def split: if_splits)

lemma absorb_chunks: "absorb cdc (map FileChunkFrame chks) up = accepted_op (appendAll chks up)"
proof (induction chks arbitrary: up)
  case (Cons chk chks)
  obtain r up' where "upload_append chk up = (r, up')" by fastforce
  with Cons show ?case by (cases r) auto
qed simp

lemma absorbed_file:
  assumes "mkFileWorkload xs = Inr wrk" "r \<noteq> []" "c \<noteq> 0" "length xs = unat n" "\<not> m_bActive up"
    and "js_resDecode cdc strBegin = Inr (UploadBeginMessage \<lparr>ubc_strRequestId = r, ubc_u64ChainId = c,
      ubc_u64OriginalByteCount = n\<rparr>)"
  obtains up' where "absorb cdc (JsonControlFrame strBegin # map FileChunkFrame (file_chunks c 1 xs)) up = Some up'"
    "fst (wrkComplete r c (of_nat (length (file_chunks c 1 xs))) n up') = Inr wrk"
proof -
  from transfer_complete [OF assms(1-4)] obtain up0 up' where b: "upload_begin r c n new_upload = (Inr (), up0)"
    and a: "appendAll (file_chunks c 1 xs) up0 = (Inr (), up')"
    and e: "fst (wrkComplete r c (of_nat (length (file_chunks c 1 xs))) n up') = Inr wrk"
    by (auto simp: upload_transfer_def split: prod.splits sum.splits)
  from a assms(6) begun_upload [OF assms(5) b]
  have "absorb cdc (JsonControlFrame strBegin # map FileChunkFrame (file_chunks c 1 xs)) up = Some up'"
    by (simp add: absorb_chunks)
  with e show thesis by (rule that [rotated])
qed

text \<open>The frames of a file's upload: the message that begins it, the pieces of the file, the message that ends it.\<close>

definition uploadFrames :: "byte list \<Rightarrow> byte list \<Rightarrow> u64 \<Rightarrow> byte list \<Rightarrow> tcp_frame list" where
  "uploadFrames strBegin strEnd u64ChainId vecFile =
     JsonControlFrame strBegin # map FileChunkFrame (file_chunks u64ChainId 1 vecFile) @ [JsonControlFrame strEnd]"

text \<open>C5. A manager that has greeted and has no upload open sends a file: the message that begins the upload,
  the pieces of the file and the message that ends it. However the network cuts these bytes into pieces, the node is
  the same after any number of them less than all, and with the last one it is given exactly that file, under the
  request and the chain announced. The codec is only assumed to decode the two messages.\<close>

theorem file_upload_reaches_node:
  assumes client: "bClientRuns i ag" "\<not> bProcessEnded ag" "bManager i ag" "\<not> m_bActive (cl_uplFile (clientOf i ag))"
      "m_vecPendingBytes (cl_decStream (clientOf i ag)) = []"
    and workload: "mkFileWorkload vecFile = Inr wrk" "r \<noteq> []" "c \<noteq> 0" "length vecFile = unat n"
    and texts: "js_resDecode (ae_codec env) strBegin = Inr (UploadBeginMessage \<lparr>ubc_strRequestId = r, ubc_u64ChainId = c,
        ubc_u64OriginalByteCount = n\<rparr>)"
      "js_resDecode (ae_codec env) strEnd = Inr (UploadEndMessage \<lparr>uec_strRequestId = r, uec_u64ChainId = c,
        uec_u32ChunkCount = of_nat (length (file_chunks c 1 vecFile)), uec_u64TransferredByteCount = n\<rparr>)"
    and frames: "list_all2 (\<lambda>frm bytes. frame_ok (js_bObject (ae_codec env)) frm \<and> tcp_vecEncode frm = Inr bytes
        \<and> length bytes - 4 \<le> m_nMaximumFrameLength (cl_decStream (clientOf i ag))) (uploadFrames strBegin strEnd c vecFile) bss"
    and parts: "concat (map snd parts) = concat bss" "\<forall>part \<in> set parts. snd part \<noteq> []"
  shows "(\<forall>k < length parts. ag_run (run_ops (agent_step env) (receives i (take k parts)) ag) = ag_run ag)
    \<and> ag_run (run_ops (agent_step env) (receives i parts) ag)
      = snd (msgApplyFilePayload (ae_node env) (at_tick (fst (last parts))) Manager r c wrk (ag_run ag))"
proof -
  obtain up where up: "absorb (ae_codec env) (JsonControlFrame strBegin # map FileChunkFrame (file_chunks c 1 vecFile))
      (cl_uplFile (clientOf i ag)) = Some up"
    "fst (wrkComplete r c (of_nat (length (file_chunks c 1 vecFile))) n up) = Inr wrk"
    by (rule absorbed_file [OF workload client(4) texts(1)])
  have "consumeLoop (js_bObject (ae_codec env)) (m_nMaximumFrameLength (cl_decStream (clientOf i ag))) (concat bss) []
      = Inr (uploadFrames strBegin strEnd c vecFile, None, [])"
    using consumeLoop_frames [OF frames, of "[]" "[]"] by (simp add: consumeLoop_short)
  moreover from this have "concat bss \<noteq> []"
    by (cases "concat bss") (simp_all only: consumeLoop_short, simp_all add: consumeLoop_short uploadFrames_def)
  then have "parts \<noteq> []" using parts(1) by (metis concat.simps(1) list.map(1))
  ultimately show ?thesis
    using transfer_received [OF client(1-3) _ up(1) texts(2), of parts wrk] client(5) parts up(2)
    by (simp add: uploadFrames_def)
qed

end
