(* ===== verification/NodeAgentSamples.thy ===== *)
theory NodeAgentSamples
  imports NodeAgentUpload NodeSamples
begin

text \<open>
  The theorems of the agent applied to an agent with one client: a codec of three texts, the
  greeting of a manager or a monitor, one further message and the end of an upload, and the steps that lead there.
\<close>

definition one_upload_end :: upload_end_control where
  "one_upload_end = \<lparr>uec_strRequestId = ''q'', uec_u64ChainId = 7, uec_u32ChunkCount = 1, uec_u64TransferredByteCount = 3\<rparr>"

definition text_codec :: "TcpClientRole \<Rightarrow> control_message \<Rightarrow> control_codec" where
  "text_codec roleClient msg = \<lparr>js_bObject = (\<lambda>_. True), js_strEncode = (\<lambda>_. Inr [123, 125]),
     js_resDecode = (\<lambda>strJson. Inr (if strJson = [1] then ClientHelloMessage roleClient
       else if strJson = [2] then msg else UploadEndMessage one_upload_end))\<rparr>"

definition client_env :: "TcpClientRole \<Rightarrow> control_message \<Rightarrow> nat agent_env" where
  "client_env roleClient msg = \<lparr>ae_codec = text_codec roleClient msg, ae_ssl = sample_ssl,
     ae_shuffle = (\<lambda>_ xs. xs), ae_strNodeName = ''S'', ae_strBindAddress = ''10.0.0.1'', ae_strGitCommit = ''unknown''\<rparr>"

definition agent_tick_at :: "nat \<Rightarrow> agent_tick" where
  "agent_tick_at t = \<lparr>at_tick = one_tick t, at_bSend = (\<lambda>_ _. True)\<rparr>"

text \<open>The frames of the two texts.\<close>

definition hello_bytes :: "byte list" where "hello_bytes = [0, 0, 0, 2, 1, 1]"

definition message_bytes :: "byte list" where "message_bytes = [0, 0, 0, 2, 1, 2]"

lemma text_frames:
  "tcp_vecEncode (JsonControlFrame [1]) = Inr hello_bytes" "tcp_vecEncode (JsonControlFrame [2]) = Inr message_bytes"
  by code_simp+

lemma client_env_codec [simp]:
  "ae_codec (client_env r m) = text_codec r m" "js_bObject (text_codec r m) strJson"
  "js_resDecode (text_codec r m) [1] = Inr (ClientHelloMessage r)"
  "js_resDecode (text_codec r m) [2] = Inr m" "js_resDecode (text_codec r m) [3] = Inr (UploadEndMessage one_upload_end)"
  by (simp_all add: client_env_def text_codec_def)

definition greeted_ops :: "(agent_tick \<times> agent_op) list" where
  "greeted_ops = [(agent_tick_at 0, AgentStart), (agent_tick_at 0, AgentAccept), (agent_tick_at 0, AgentReceive 0 hello_bytes)]"

definition greeted_server :: "TcpClientRole \<Rightarrow> management_server" where
  "greeted_server r = new_server\<lparr>srv_bRunning := True, srv_pc := BcIdle,
     srv_vecClients := [new_client\<lparr>cl_bHelloReceived := True, cl_roleClient := r\<rparr>]\<rparr>"

lemma new_client_env:
  obtains ag0 where "mkNodeAgent (client_env r m) = Inr ag0" "\<not> bProcessEnded ag0" "\<not> ag_bRunning ag0"
    "ag_srv ag0 = new_server"
proof -
  obtain nd where nd: "mkNodeRuntime (ae_node (client_env r m)) = Inr nd"
    by (simp add: mkNodeRuntime_def ae_node_def client_env_def mkObservationStore_def mkMetricStore_def)
  then have "\<not> nd_bTerminated nd" "sn_pc (nd_runSender nd) = PcIdle"
    by (auto simp: mkNodeRuntime_def andThen_Inr_iff sender_initial_def split: if_splits)
  with nd that show thesis by (simp add: mkNodeAgent_def bProcessEnded_def)
qed

lemma greeted:
  assumes "\<not> bProcessEnded ag0" "\<not> ag_bRunning ag0" "ag_srv ag0 = new_server"
  shows "run_ops (agent_step (client_env r m)) greeted_ops ag0
    = ag0\<lparr>ag_bRunning := True, ag_bReceiverRunning := True, ag_srv := greeted_server r\<rparr>"
proof -
  let ?srv = "new_server\<lparr>srv_bRunning := True, srv_pc := BcIdle, srv_vecClients := [new_client]\<rparr>"
  let ?ag = "ag0\<lparr>ag_bRunning := True, ag_bReceiverRunning := True, ag_srv := ?srv\<rparr>"
  have s: "run_ops (agent_step (client_env r m)) [(agent_tick_at 0, AgentStart), (agent_tick_at 0, AgentAccept)] ag0 = ?ag"
    using assms by (simp add: agent_step_def agent_start_def act_simps server_start_def new_server_def bProcessEnded_def
        serverA_def zoomA_def acceptClient_def nConnectedClientCount_def MAX_CLIENTS_def)
  have c: "clientOf 0 ?ag = new_client" by (simp add: clientOf_def)
  note n = new_client_def [THEN arg_cong, of cl_decStream] new_client_def [THEN arg_cong, of cl_bHelloReceived]
  have "clientLoop (client_env r m) (agent_tick_at 0) 0 hello_bytes ?ag
      = (Inr (), ?ag\<lparr>ag_srv := greeted_server r\<rparr>)"
    by (subst received_message [OF _ _ text_frames(1), where msg = "ClientHelloMessage r"])
      (simp_all add: c n hello_bytes_def clientA_run act_simps thenA_def bindA_def whenA_def updClient_def
        greeted_server_def)
  moreover have "bClientRuns 0 ?ag" by (simp add: bClientRuns_def c) (simp add: new_client_def)
  moreover have "\<not> bProcessEnded ?ag" using assms(1) by (simp add: bProcessEnded_def)
  ultimately have "snd (agent_step (client_env r m) (agent_tick_at 0, AgentReceive 0 hello_bytes) ?ag)
      = ?ag\<lparr>ag_srv := greeted_server r\<rparr>"
    by (simp add: agent_step_def act_simps threadA_def catchWith_def)
  with s show ?thesis by (simp add: greeted_ops_def)
qed

lemma greeted_client:
  "ag_srv ag = greeted_server r \<Longrightarrow> clientOf 0 ag = new_client\<lparr>cl_bHelloReceived := True, cl_roleClient := r\<rparr>"
  "ag_srv ag = greeted_server r \<Longrightarrow> bClientRuns 0 ag" "nClients (ag0\<lparr>ag_srv := greeted_server r\<rparr>) = 1"
  by (simp_all add: greeted_server_def clientOf_def bClientRuns_def) (simp add: new_client_def)

text \<open>An agent with a client that has greeted.\<close>

lemma one_greeted:
  obtains ag0 ag where "mkNodeAgent (client_env r m) = Inr ag0" "ag = run_ops (agent_step (client_env r m)) greeted_ops ag0"
    "\<not> bProcessEnded ag" "ag_srv ag = greeted_server r"
proof -
  obtain ag0 where ag0: "mkNodeAgent (client_env r m) = Inr ag0" "\<not> bProcessEnded ag0" "\<not> ag_bRunning ag0"
    "ag_srv ag0 = new_server" by (rule new_client_env)
  have "\<not> bProcessEnded (ag0\<lparr>ag_bRunning := True, ag_bReceiverRunning := True, ag_srv := greeted_server r\<rparr>)"
    using ag0(2) by (simp add: bProcessEnded_def)
  with ag0(1) greeted [OF ag0(2-4), of r m, symmetric] show thesis by (rule that) simp
qed

section \<open>The theorems applied to it\<close>

definition one_fault :: control_message where
  "one_fault = FaultMessage \<lparr>fcd_strRequestId = ''q'', fcd_strRoundId = ''r'', fcd_strTargetSenderId = ''S'',
     fcd_u64ChainId = 7, fcd_varFaultDetails = FixedDelayFault 10\<rparr>"

theorem monitor_experiment_ends_process_witness:
  "\<exists>ag0 ag. mkNodeAgent (client_env MonitorClient one_fault) = Inr ag0 \<and> \<not> bProcessEnded ag
     \<and> ag = run_ops (agent_step (client_env MonitorClient one_fault)) greeted_ops ag0
     \<and> bProcessEnded (snd (agent_step (client_env MonitorClient one_fault)
         (agent_tick_at 1, AgentReceive 0 message_bytes) ag))"
proof -
  let ?env = "client_env MonitorClient one_fault"
  obtain ag0 ag where ag: "mkNodeAgent ?env = Inr ag0" "ag = run_ops (agent_step ?env) greeted_ops ag0"
    "\<not> bProcessEnded ag" "ag_srv ag = greeted_server MonitorClient" by (rule one_greeted)
  note c = greeted_client(1) [OF ag(4)]
  have "bProcessEnded (snd (agent_step ?env (agent_tick_at 1, AgentReceive 0 message_bytes) ag)) = experimentMessage one_fault"
    by (rule monitor_experiment_ends_process [THEN conjunct1, OF greeted_client(2) [OF ag(4)] ag(3) _ _ _ _ _ text_frames(2) _ _ _ refl])
      (simp_all add: c, simp_all add: new_client_def message_bytes_def one_fault_def bNodeMessage_def)
  with ag show ?thesis by (auto simp: one_fault_def)
qed

theorem only_managers_change_the_node_witness:
  "\<exists>ag ag'. ag' = snd (agent_step (client_env MonitorClient one_fault) (agent_tick_at 1, AgentReceive 0 message_bytes) ag)
     \<and> bClientRuns 0 ag \<and> \<not> bProcessEnded ag \<and> \<not> bManager 0 ag' \<and> ag_run ag' = ag_run ag"
proof -
  let ?env = "client_env MonitorClient one_fault"
  obtain ag0 ag where ag: "mkNodeAgent ?env = Inr ag0" "ag = run_ops (agent_step ?env) greeted_ops ag0"
    "\<not> bProcessEnded ag" "ag_srv ag = greeted_server MonitorClient" by (rule one_greeted)
  have "nClients ag = 1" "cl_bHelloReceived (clientOf 0 ag)" "cl_roleClient (clientOf 0 ag) = MonitorClient"
    using ag(4) by (simp_all add: greeted_client(1), simp add: greeted_server_def)
  with only_managers_change_the_node [OF refl, of ?env "agent_tick_at 1" "AgentReceive 0 message_bytes" ag]
  show ?thesis using ag(3) greeted_client(2) [OF ag(4)] by (auto simp: bManager_def)
qed

theorem agent_bounded_witness:
  "\<exists>ag0 ag. mkNodeAgent (client_env Manager one_fault) = Inr ag0
     \<and> ag = run_ops (agent_step (client_env Manager one_fault)) greeted_ops ag0
     \<and> nConnectedClientCount (ag_srv ag) \<in> {1..32}"
proof -
  let ?env = "client_env Manager one_fault"
  obtain ag0 ag where ag: "mkNodeAgent ?env = Inr ag0" "ag = run_ops (agent_step ?env) greeted_ops ag0"
    "ag_srv ag = greeted_server Manager" by (rule one_greeted)
  have "nConnectedClientCount (ag_srv ag) = 1" using ag(3)
    by (simp add: greeted_server_def nConnectedClientCount_def) (simp add: new_client_def)
  with agent_bounded [OF ag(1,2)] ag(1,2) show ?thesis by auto
qed

definition one_energy :: metric_record where
  "one_energy = EnergyRecord \<lparr>en_u64TimestampMilliseconds = 1, en_strRoundId = ''r'', en_strSenderId = ''S'',
     en_u64ChainId = 7, en_u32PacketCount = 1, en_u64VerifyTimeNanoseconds = 1, en_u64ReceivedAuthBytes = 1,
     en_dEstimatedEnergyMicroJoule = 1, en_bNormalComparisonEligible = True, en_varDetails = NativeRoundDetails 1\<rparr>"

text \<open>A metric has come and the broadcasting thread waits for more.\<close>

definition batching_ops :: "(agent_tick \<times> agent_op) list" where
  "batching_ops = greeted_ops @ [(agent_tick_at 1, AgentReceiverMetric one_energy), (agent_tick_at 2, AgentBroadcast)]"

lemma metric_arrives:
  assumes "ag_srv ag = greeted_server r" "\<not> bProcessEnded ag"
  shows "ag_srv (snd (agent_step (client_env r m) (tick, AgentReceiverMetric one_energy) ag))
      = enqueueMonitorMetric one_energy (greeted_server r)"
    "\<not> bProcessEnded (snd (agent_step (client_env r m) (tick, AgentReceiverMetric one_energy) ag))"
  using assms by (simp_all add: agent_step_def nodeWork_def thenA_def nodeCall_run act_simps bindA_def processMetric_def
      nodeEvent_def ae_node_def bProcessEnded_def)

lemma one_batching:
  obtains ag0 ag where "mkNodeAgent (client_env r m) = Inr ag0" "ag = run_ops (agent_step (client_env r m)) batching_ops ag0"
    "\<not> bProcessEnded ag" "srv_pc (ag_srv ag) = BcBatching" "srv_bRunning (ag_srv ag)"
proof -
  let ?env = "client_env r m"
  obtain ag0 ag where ag: "mkNodeAgent ?env = Inr ag0" "ag = run_ops (agent_step ?env) greeted_ops ag0"
    "\<not> bProcessEnded ag" "ag_srv ag = greeted_server r" by (rule one_greeted)
  let ?ag1 = "snd (agent_step ?env (agent_tick_at 1, AgentReceiverMetric one_energy) ag)"
  let ?ag2 = "snd (agent_step ?env (agent_tick_at 2, AgentBroadcast) ?ag1)"
  have "broadcastTurn (ae_codec ?env) (agent_tick_at 2) (enqueueMonitorMetric one_energy (greeted_server r))
      = (Inr (), (enqueueMonitorMetric one_energy (greeted_server r))\<lparr>srv_pc := BcBatching\<rparr>)"
    by (simp add: broadcastTurn_def chooseQueue_def act_simps bindA_def thenA_def whenA_def Let_def enqueueMonitorMetric_def
        greeted_server_def new_server_def MAX_METRIC_EVENT_QUEUE_def METRIC_BATCH_SIZE_def)
  with metric_arrives [OF ag(4,3), where m = m and tick = "agent_tick_at 1"]
  have "?ag2 = ?ag1\<lparr>ag_srv := (enqueueMonitorMetric one_energy (greeted_server r))\<lparr>srv_pc := BcBatching\<rparr>\<rparr>"
    by (simp add: agent_step_run [of _ "agent_tick_at 2"] threadA_def catchWith_def serverA_def zoomA_def)
  then have "srv_pc (ag_srv ?ag2) = BcBatching" "srv_bRunning (ag_srv ?ag2)" "\<not> bProcessEnded ?ag2"
    using metric_arrives(2) [OF ag(4,3), where m = m and tick = "agent_tick_at 1"]
    by (simp_all add: enqueue_members greeted_server_def bProcessEnded_def)
  moreover have "?ag2 = run_ops (agent_step ?env) batching_ops ag0"
    by (simp add: batching_ops_def run_ops_append ag(2))
  ultimately show thesis using that ag(1) by metis
qed

theorem stop_in_metric_wait_ends_process_witness:
  "\<exists>ag0 ag. mkNodeAgent (client_env MonitorClient one_fault) = Inr ag0 \<and> \<not> bProcessEnded ag
     \<and> ag = run_ops (agent_step (client_env MonitorClient one_fault)) batching_ops ag0
     \<and> bProcessEnded (run_ops (agent_step (client_env MonitorClient one_fault))
         [(agent_tick_at 3, AgentStop), (agent_tick_at 4, AgentBroadcast)] ag)"
proof -
  let ?env = "client_env MonitorClient one_fault"
  obtain ag0 ag where ag: "mkNodeAgent ?env = Inr ag0" "ag = run_ops (agent_step ?env) batching_ops ag0"
    "\<not> bProcessEnded ag" "srv_pc (ag_srv ag) = BcBatching" by (rule one_batching)
  from stop_in_metric_wait_ends_process [OF ag(1-3), where tick' = "agent_tick_at 3" and tick'' = "agent_tick_at 4"] ag
  show ?thesis by blast
qed

text \<open>A file of three bytes, of which the second part of the stream begins in the middle.\<close>

definition one_upload :: control_message where
  "one_upload = UploadBeginMessage \<lparr>ubc_strRequestId = ''q'', ubc_u64ChainId = 7, ubc_u64OriginalByteCount = 3\<rparr>"

definition upload_bytes :: "byte list list" where
  "upload_bytes = [message_bytes, [0, 0, 0, 20, 2, 0, 0, 0, 0, 0, 0, 0, 7, 0, 0, 0, 1, 0, 0, 0, 3, 1, 2, 3], [0, 0, 0, 2, 1, 3]]"

definition upload_parts :: "(agent_tick \<times> byte list) list" where
  "upload_parts = [(agent_tick_at 5, take 9 (concat upload_bytes)), (agent_tick_at 6, drop 9 (concat upload_bytes))]"

lemma one_file_chunks: "file_chunks 7 1 [1, 2, 3] = [\<lparr>m_u64ChainId = 7, m_u32ChunkIndex = 1, m_vecData = [1, 2, 3]\<rparr>]"
  by (simp add: file_chunks.simps MAXIMUM_CHUNK_SIZE_def)

lemma upload_bytes_encoded:
  "map tcp_vecEncode (uploadFrames [2] [3] 7 [1, 2, 3]) = map Inr upload_bytes"
  unfolding uploadFrames_def one_file_chunks by code_simp

theorem file_upload_reaches_node_witness:
  "\<exists>ag wrk. mkFileWorkload [1, 2, 3] = Inr wrk \<and> bManager 0 ag
     \<and> ag_run (run_ops (agent_step (client_env Manager one_upload)) (receives 0 (take 1 upload_parts)) ag) = ag_run ag
     \<and> ag_run (run_ops (agent_step (client_env Manager one_upload)) (receives 0 upload_parts) ag)
       = snd (msgApplyFilePayload (ae_node (client_env Manager one_upload)) (one_tick 6) Manager ''q'' 7 wrk (ag_run ag))"
proof -
  let ?env = "client_env Manager one_upload"
  obtain ag0 ag where ag: "mkNodeAgent ?env = Inr ag0" "ag = run_ops (agent_step ?env) greeted_ops ag0"
    "\<not> bProcessEnded ag" "ag_srv ag = greeted_server Manager" by (rule one_greeted)
  obtain wrk where w: "mkFileWorkload [1, 2, 3] = Inr wrk"
    by (simp add: mkFileWorkload_def u32PacketCountFor_def MAXIMUM_FILE_SIZE_def MESSAGE_SIZE_def MAXIMUM_PACKET_COUNT_def)
  note c = greeted_client(1) [OF ag(4)]
  have m: "bManager 0 ag" by (simp add: bManager_def c)
  have frames: "list_all2 (\<lambda>frm bytes. frame_ok (js_bObject (ae_codec ?env)) frm \<and> tcp_vecEncode frm = Inr bytes
      \<and> length bytes - 4 \<le> m_nMaximumFrameLength (cl_decStream (clientOf 0 ag))) (uploadFrames [2] [3] 7 [1, 2, 3]) upload_bytes"
    using upload_bytes_encoded unfolding uploadFrames_def one_file_chunks c
    by (simp add: upload_bytes_def chunk_ok_def new_client_def message_bytes_def U32_MAX_def)
  have "(\<forall>k < length upload_parts. ag_run (run_ops (agent_step ?env) (receives 0 (take k upload_parts)) ag) = ag_run ag)
      \<and> ag_run (run_ops (agent_step ?env) (receives 0 upload_parts) ag)
      = snd (msgApplyFilePayload (ae_node ?env) (at_tick (fst (last upload_parts))) Manager ''q'' 7 wrk (ag_run ag))"
    by (rule file_upload_reaches_node [OF greeted_client(2) [OF ag(4)] ag(3) m _ _ w _ _ _ _ _ frames, where n = 3])
      (simp_all add: c one_upload_def one_upload_end_def one_file_chunks,
       simp_all add: new_client_def new_upload_def upload_parts_def upload_bytes_def message_bytes_def)
  moreover have "1 < length upload_parts" "at_tick (fst (last upload_parts)) = one_tick 6"
    by (simp_all add: upload_parts_def agent_tick_at_def)
  ultimately have "ag_run (run_ops (agent_step ?env) (receives 0 (take 1 upload_parts)) ag) = ag_run ag"
    "ag_run (run_ops (agent_step ?env) (receives 0 upload_parts) ag)
      = snd (msgApplyFilePayload (ae_node ?env) (one_tick 6) Manager ''q'' 7 wrk (ag_run ag))" by auto
  with w m show ?thesis by blast
qed

end
