(* ===== verification/Spec2Isabelle.thy ===== *)
theory Spec2Isabelle
  imports EndToEnd FileUpload ReceiverTheorems FaultTheorems SenderRounds ObservationStoreTheorems
    ControlCodec NodeSamples NodeAgentSamples
begin

text \<open>
  A TESLA broadcast authentication system for small networks of nodes: senders authenticate their
  packets with keys that they disclose some intervals later, receivers store the packets and verify them
  once the key is known, in two variants. Native TESLA carries one authentication code per packet.
  Improved TESLA carries, in the last packet of each group, one fast tag over the whole group and one
  aggregated tag per row of a selection matrix (KS+RS), with which a receiver locates the bad packets of
  a group without a code per packet. The library models the C++ code under \<open>src/common\<close>; file names
  below are relative to it unless they say otherwise.

  \<^bold>\<open>Parts and theories.\<close>
  The order is that of the imports; a name in a theory is the name in the code, with its Hungarian prefix,
  unless it clashes.
  \<^item> \<open>Prelude\<close>, \<open>Actions\<close>, \<open>Machines\<close>: machine integers, exceptions as values (\<open>result\<close>), methods that change
    members and may throw (\<open>act\<close>: what was changed before the throw stays changed), histories of calls.
  \<^item> \<open>Bytes\<close>, \<open>Codec\<close>: \<open>protocol/src/BinaryCodecUtilities.h\<close> and \<open>ProtocolTypes.h\<close>, byte buffers, big-endian
    fields, the bounded reader, decode errors.
  \<^item> \<open>Crypto\<close>: \<open>crypto/src\<close>, the OpenSSL wrapper with its checks and the one-way key chain with the check of
    a disclosed key. OpenSSL is a parameter.
  \<^item> \<open>KsRs\<close>, \<open>Matrix\<close>, \<open>Disjunct\<close>: \<open>tesla/src/KsRsMatrix.cpp\<close>, the search for parameters and the matrix;
    why its columns separate packets.
  \<^item> \<open>PacketInput\<close>, \<open>Samd\<close>, \<open>Locate\<close>, \<open>Strategies\<close>, \<open>EndToEnd\<close>: the packet and group inputs
    (\<open>AuthenticationPacketInput.cpp\<close>, \<open>AuthenticationInputEncoder.cpp\<close>, \<open>TeslaMac.cpp\<close>), the aggregated tags
    and the scan that locates bad packets (\<open>SamdAggregator.cpp\<close>), the two strategies, and what acceptance
    means from the sender's group to the receiver's verdict.
  \<^item> \<open>Workload\<close>, \<open>FileUpload\<close>: texts and files as packets (\<open>workload/src\<close>), the transfer of a file in chunks
    (\<open>FileUploadSession.cpp\<close>).
  \<^item> \<open>TcpFraming\<close>, \<open>UdpPacket\<close>, \<open>UdpCodec\<close>: the frames of the management connection and the stream decoder
    (\<open>TcpFrame.cpp\<close>), the authentication datagrams with the trusted context that determines their layout.
  \<^item> \<open>Contexts\<close>: round parameters, the authority that issues chains, the sender's verified material and the
    receiver's store of contexts.
  \<^item> \<open>Monitor\<close>: the observations, failures, group reports and results with the checks of their constructors.
  \<^item> \<open>Receiver\<close>, \<open>ReceiverVerify\<close>, \<open>ReceiverProcess\<close>, \<open>ReceiverRuntime\<close>: \<open>AuthenticationReceiverRuntime.cpp\<close>. A
    receiver is a record of the members of \<open>ReceiverState\<close>, the runtime a record of the members of \<open>Impl\<close>
    with its receivers in map order. Every public operation runs under one mutex and is one step; a turn of
    the worker is \<open>workerStep\<close>.
  \<^item> \<open>Faults\<close>, \<open>CommunicationCost\<close>, \<open>SenderBuild\<close>, \<open>SenderRuntime\<close>: \<open>AuthenticationFaultInjection.cpp\<close>,
    \<open>metrics/src/CommunicationCost.cpp\<close> and \<open>AuthenticationSenderRuntime.cpp\<close>. The datagrams of a round are
    built when the sender is configured; the worker thread is a state machine whose program counter
    (\<open>sender_pc\<close>) is the point between two sections in which it holds the lock or waits, and \<open>sender_step\<close>
    runs from one to the next. What leaves through the callbacks is appended to the log \<open>sn_out\<close>.
  \<^item> \<open>ObservationStore\<close>, \<open>ObservationStoreTheorems\<close>: \<open>AuthenticationObservationStore.cpp\<close>. The shared packets are
    a heap with indexes; a packet is alive while the ring or a stored failure holds its index.
  \<^item> \<open>Metrics\<close>, \<open>ControlValues\<close>, \<open>ControlCodec\<close>: the values, the collector and the store of records of
    \<open>AuthenticationMetrics.cpp\<close>; the messages of the management connection (\<open>AuthenticationControl.cpp\<close>,
    \<open>ExperimentControl.cpp\<close>, \<open>MetricControl.cpp\<close>, \<open>NodeControlMessage.cpp\<close>) and their hexadecimal codec.
  \<^item> \<open>NodeRuntime\<close>, \<open>NodeTheorems\<close>, \<open>NodeSamples\<close>: \<open>AuthenticationNodeRuntime.cpp\<close>, every handler of a control
    message, file or datagram and every callback of the two runtimes. A handler is one step (\<open>node_step\<close>), and
    so are a step of each worker and a metric record of the receiver; \<open>nd_out\<close> is what the node's own
    callbacks are given, and the sender's callbacks are taken from what a call appends to its log.
  \<^item> \<open>NodeAgent\<close>, \<open>NodeAgentTheorems\<close>, \<open>NodeAgentUpload\<close>, \<open>NodeAgentSamples\<close>: \<open>TcpManagementServer.cpp\<close> and
    \<open>NodeAgentService.cpp\<close> under \<open>src/apps/node_agent\<close>. A client connection is the server's record of it with the
    locals of its thread; a step (\<open>agent_step\<close>) is a turn of a thread: the bytes one \<open>recv\<close> returned, one turn of the
    broadcasting thread, an accepted connection, a datagram, a step of the node's threads, a start, a stop.
    An exception that leaves a client's or the broadcasting thread ends the process.

  \<^bold>\<open>How the parts interact.\<close> The authority issues chain material; a node makes of it the sender's context,
  which must match its commitment, and of the other nodes' commitments the receiver's contexts. The
  sender's runtime encodes datagrams with \<open>udp_vecEncode\<close>; the receiver's finds the context by source
  address and chain, decodes with \<open>udp_resDecode\<close> in the same trusted context, checks that the key of the
  packet's interval cannot be disclosed yet, and verifies the interval once its key has come. Results
  and observations leave through callbacks into the node, which stores them and passes them on. The node turns
  control messages into contexts and calls of the two runtimes, and starts neither while its clock is unsynchronized. The agent
  turns the bytes of its management clients into such messages and files, and passes the node's events on to them.

  \<^bold>\<open>What the lemmas show.\<close> For every component: the values its constructors accept, what each operation
  does on every branch, and the invariant its operations keep. The properties:
  what acceptance means for both strategies and that it is not vacuous; that the scan locates up to \<open>t\<close>
  bad packets where the matrix promises it, with a counterexample beyond; the parameter search against
  its specification; the key chain; the injective encodings of what is authenticated; round trips of
  files, frames and datagrams, with the exact set of byte strings each decoder accepts; the stream decoder's
  independence of fragmentation and its bounds; the authority's uniqueness; the context store against an abstract map; for
  every history of the receiver's runtime, that a packet reported as passed rests on the disclosed key of
  its interval and was stored before that key could be disclosed, that verdicts are final, that each
  sender's chain gets at most one result per receiver of it and that a late receiver is reported; for the
  sender, that the built datagrams carry the workload and disclose each key when due and none before, that a receiver that holds an interval as sent passes it, that
  in every history a round follows the built stream and its timeline, and what fault injection may drop; for the
  node, that whatever it is given it drives both runtimes along their own histories, so that their properties hold in
  it, with contexts verified against their commitment only, that a start is all or nothing, that a stop ends every
  round, and that a monitor changes nothing; that the observation store keeps every packet a failure refers to;
  for the agent, that only a manager's bytes change the node, that an uploaded file reaches it whole however its bytes
  arrive, its bounds, and two ways in which the process ends that the code does not mean.
  Acceptance is stated up to collisions of the run itself: a theorem says that the accepted packet is the sent one, or
  that two inputs which the sender and this receiver computed a code, a tag or a digest of differ and have the same one
  (\<open>packetsCollide\<close>, \<open>groupsCollide\<close>, \<open>rowsCollide\<close>); that some collision exists would say nothing, since there
  are more inputs than digests. No cryptographic hardness is assumed.

  \<^bold>\<open>Conventions, bounds and fuel.\<close>
  \<^item> \<open>uint8_t\<close> to \<open>uint64_t\<close> are words and wrap. \<open>size_t\<close> is \<open>nat\<close>, with the code's own guards against
    overflow written out; durations of the steady clock are unbounded integers. A \<open>double\<close> is a rational
    or not finite, rounded to 53 bits after each operation.
  \<^item> One operation reads the clock once. The sender's worker steps take the two clocks and the answer of the
    datagram callback as arguments (\<open>sender_tick\<close>).
  \<^item> Third-party code is a parameter: OpenSSL's digests, HMACs and random bytes, the JSON parser, the shuffle of
    the standard library.
  \<^item> \<open>joinWorker\<close> runs the sender's worker five steps, which end it from any point once a stop is requested
    (\<open>join_returns\<close>). \<open>groupBounds\<close> has the number of packets of the interval as fuel, and a group has at least one.
    The prime search ends because a prime lies between \<open>n\<close> and \<open>n! + 1\<close>. A round has at most 400001
    intervals, since a round has at most 200000 packets and the delay is at most the number of intervals.
  \<^item> An exception that leaves a worker thread ends the process; histories that go on after one
    over-approximate the program.
  \<^item> A late receiver is reported by a turn of the worker that returns: the datagram taken first must be processed without an
    exception, and with an observer the reports must be constructible (\<open>reportsFit\<close>: a clock, texts of at most 2048
    characters, of which control messages allow 1024, and event numbers left, counting \<open>2 ^ 32\<close> for each receiver).
  \<^item> Where C++ leaves the order of evaluation of arguments open, the model takes them from left to right.

  \<^bold>\<open>Not modelled, and why.\<close>
  \<^item> The receiver's own metric collector and the hardware counters of \<open>PerformanceCounterSampler.cpp\<close>:
    measurements that no verdict depends on. The receiver is modelled as constructed without a metric handler; for the
    node, its records arrive as steps with any content.
  \<^item> \<open>AttackControl.cpp\<close> and \<open>NodeDiscoveryMessage.cpp\<close>: the values of the attack test client and of the discovery
    service, which no part modelled here uses.
  \<^item> \<open>NodeControlJsonCodec.cpp\<close>: a mapping to and from the values of a JSON library that is not part of the repository;
    the agent has it as a parameter.
  \<^item> The applications under \<open>apps\<close> but for the agent's server and service: sockets, discovery, operating system
    services and Qt windows. The agent's sends and receives are arguments of its steps, and a start
    whose sockets or threads cannot be made is left out.
  \<^item> Thread start-up, mutexes and condition variables themselves: operations under one mutex are atomic steps. A handler of the
    node is one step too, although it takes several locks one after the other; a deadlock is outside the model.
    The stop of the agent is one step as well: bytes that a client's thread holds when \<open>stop\<close> is called, and still handles
    before it is joined, come before the stop in the model.
\<close>

section \<open>What acceptance means\<close>

text \<open>C1. Improved TESLA: a position the receiver accepts holds the packet the sender created the
  group tags for, whichever of the two paths accepted it. Otherwise the run itself exhibits a
  collision: of the packet code between the two packets of the position, of the group tag between
  the two groups with the details' row tags, or of the digest between the codes of the received
  and of the sent packets of a row that tests the position.\<close>

theorem improved_accepts_only_sent:
  assumes "improved_create crp mat g k = Inr d"
    and "improved_verify crp mat g' d k b = Inr (res, ms)"
    and "grp_ok g" and "grp_ok g'" and "length (grp_vecPacketSlots g') = length (grp_vecPacketSlots g)"
    and "i \<in> accepted res"
  shows "grp_vecPacketSlots g' ! i = grp_vecPacketSlots g ! i
    \<or> packetsCollide crp k g g' i \<or> groupsCollide crp k d g g' \<or> rowsCollide crp mat k g g' i"
  using assms by (rule improved_accepts_sent)

theorem improved_accepts_only_sent_witness:
  "grp_vecPacketSlots (sample_group 5 9) ! 0 = grp_vecPacketSlots (sample_group 5 6) ! 0
    \<or> packetsCollide prefix_provider sample_key (sample_group 5 6) (sample_group 5 9) 0
    \<or> groupsCollide prefix_provider sample_key sample_improved (sample_group 5 6) (sample_group 5 9)
    \<or> rowsCollide prefix_provider diagonal_matrix sample_key (sample_group 5 6) (sample_group 5 9) 0"
  by (rule improved_accepts_only_sent [OF sample_improved_create sample_improved_verify
      sample_group_ok sample_group_ok]) (simp_all add: sample_group_def accepted_def)

text \<open>C2. Native TESLA: a packet whose slot is reported \<open>Passed\<close> is the packet the sender
  created the slot's code for, or the two packets of the slot have different encodings with one
  code under the packet key of the interval.\<close>

theorem native_accepts_only_sent:
  assumes "native_create crp g k = Inr d" and "native_verify crp g' d k b = Inr (res, ms)"
    and "grp_ok g" and "grp_ok g'" and "i \<in> accepted res"
  shows "grp_vecPacketSlots g' ! i = grp_vecPacketSlots g ! i \<or> packetsCollide crp k g g' i"
  using assms by (rule native_accepts_sent)

theorem native_accepts_only_sent_witness:
  "grp_vecPacketSlots (sample_group 5 9) ! 0 = grp_vecPacketSlots (sample_group 5 6) ! 0
    \<or> packetsCollide prefix_provider sample_key (sample_group 5 6) (sample_group 5 9) 0"
  by (rule native_accepts_only_sent [OF sample_native_create sample_native_verify
      sample_group_ok sample_group_ok]) (simp add: accepted_def)

text \<open>C3. Improved TESLA round trip: what the sender creates for a group, the receiver of the
  same group verifies as passed, with every position of the group accepted.\<close>

theorem improved_round_trip:
  assumes "improved_create crp mat g k = Inr d"
  shows "\<exists>res ms. improved_verify crp mat g d k b = Inr (res, ms) \<and> m_bPassed res
    \<and> accepted res = {..<length (grp_vecPacketSlots g)}"
  using assms by (rule improved.round_trip)

theorem improved_round_trip_witness:
  "\<exists>res ms. improved_verify prefix_provider diagonal_matrix (sample_group 5 6) sample_improved sample_key True
      = Inr (res, ms) \<and> m_bPassed res \<and> accepted res = {..<2}"
  using improved_round_trip [OF sample_improved_create, of True] by simp

text \<open>C4. Native TESLA round trip, likewise.\<close>

theorem native_round_trip:
  assumes "native_create crp g k = Inr d"
  shows "\<exists>res ms. native_verify crp g d k b = Inr (res, ms) \<and> m_bPassed res
    \<and> accepted res = {..<length (grp_vecPacketSlots g)}"
  using assms by (rule native.round_trip)

theorem native_round_trip_witness:
  "\<exists>res ms. native_verify prefix_provider (sample_group 5 6) sample_native sample_key True
      = Inr (res, ms) \<and> m_bPassed res \<and> accepted res = {..<2}"
  using native_round_trip [OF sample_native_create, of True] by simp

text \<open>Native TESLA reports, slot by slot: a lost packet as missing, a lost code as missing,
  a packet as passed exactly if its recomputed code is the received one; and the group as passed
  exactly if every slot passed.\<close>

theorem native_verify_statuses:
  assumes "native_verify crp g (NativeAuthenticationDetails macs) k b = Inr (res, ms)"
  shows "m_varDetails res
      = NativeVerificationDetails (map2 (native_status crp k) (grp_vecPacketSlots g) macs)
    \<and> m_bPassed res = (\<forall>i < length macs. native_status crp k (grp_vecPacketSlots g ! i) (macs ! i) = Passed)
    \<and> length macs = length (grp_vecPacketSlots g)"
proof -
  obtain macs' sts where macs: "NativeAuthenticationDetails macs = NativeAuthenticationDetails macs'"
    and len: "length macs' = length (grp_vecPacketSlots g)"
    and res: "res = \<lparr>m_bPassed = (\<forall>s \<in> set sts. s = Passed), m_varDetails = NativeVerificationDetails sts\<rparr>"
    and sts: "sts = map2 (native_status crp k) (grp_vecPacketSlots g) macs'"
    by (rule native_verify_spec [OF assms])
  from macs have m: "macs' = macs" by simp
  have "(\<forall>s \<in> set sts. s = Passed)
      \<longleftrightarrow> (\<forall>i < length macs. native_status crp k (grp_vecPacketSlots g ! i) (macs ! i) = Passed)"
    unfolding sts m all_set_conv_all_nth using len [unfolded m] by simp
  then show ?thesis unfolding res using sts len m by simp
qed

theorem native_verify_statuses_witness:
  "NativeVerificationDetails [MissingMac, Passed]
     = NativeVerificationDetails (map2 (native_status flat_provider sample_key)
         (grp_vecPacketSlots (sample_group 1 2)) [None, Some (block_of [])])"
  using conjunct1 [OF native_verify_statuses [OF sample_lost_code]]
  by (simp only: verification_result.select_convs)

section \<open>Locating altered packets\<close>

text \<open>C6. KS+RS location: when the group has at most \<open>(2t+1)^3\<close> packets and at most \<open>t\<close> of them
  were altered or lost, the scan of the rows authenticates every unaltered packet, rejects only
  altered ones and does not report the threshold as exceeded.\<close>

theorem altered_packets_located:
  assumes "mkKsRsMatrix n t = Inr mat" and "n \<le> (2 * t + 1) ^ 3"
    and "vecAggregate crp mat macs = Inr taus" and "length slots = length macs"
    and "card (altered macs slots) \<le> t" and "resVerify crp mat slots taus = Inr res"
  shows "{..<length slots} - altered macs slots \<subseteq> set (ks_vecGoodPositions res)
    \<and> set (ks_vecBadPositions res) \<subseteq> altered macs slots \<and> \<not> ks_bDetectionThresholdExceeded res"
proof -
  obtain prm where prm: "findBestParameters n t = Inr prm" "t < n"
    and mat: "mat = \<lparr>m_nGroupSize = n, m_nDetectionThreshold = t, m_vecRows = buildMatrix n prm\<rparr>"
    by (rule mkKsRsMatrix_Inr [OF assms(1)])
  have "card (altered macs slots) \<le> location_capacity n prm"
    using capacity_moderate_group [OF prm assms(2)] assms(5) by simp
  note located = resVerify_complete [OF assms(1) prm(1) assms(3,4) this assms(6)]
  have "set (ks_vecBadPositions res) \<subseteq> altered macs slots"
    using located(1) by (auto simp: resVerify_scan(1,2) [OF assms(6)])
  moreover have "\<not> ks_bDetectionThresholdExceeded res"
    using located(2) assms(5) by (simp add: resVerify_scan(3) [OF assms(6)] mat)
  ultimately show ?thesis using located(1) by blast
qed

theorem altered_packets_located_witness:
  "\<exists>mat taus res. mkKsRsMatrix 4 1 = Inr mat
     \<and> resVerify prefix_provider mat [Some (block_of [1]), Some (block_of [9])] taus = Inr res
     \<and> 0 \<in> set (ks_vecGoodPositions res) \<and> \<not> ks_bDetectionThresholdExceeded res"
proof -
  let ?macs = "[block_of [1], block_of [2]]" and ?slots = "[Some (block_of [1]), Some (block_of [9])]"
  obtain mat where mat: "mkKsRsMatrix 4 1 = Inr mat" "m_nGroupSize mat = 4" by (rule matrix_4_1)
  obtain taus res where run: "vecAggregate prefix_provider mat ?macs = Inr taus"
    "resVerify prefix_provider mat ?slots taus = Inr res"
    by (rule prefix_scan [of ?macs mat ?slots]) (simp_all add: mat(2))
  have a: "altered ?macs ?slots \<subseteq> {1}"
    by (rule subsetI) (auto simp: altered_def less_Suc_eq)
  then have "card (altered ?macs ?slots) \<le> card {1 :: nat}" by (rule card_mono [rotated]) simp
  then have "card (altered ?macs ?slots) \<le> 1" by simp
  note located = altered_packets_located [OF mat(1) _ run(1) _ this run(2)]
  have "{..<length ?slots} - altered ?macs ?slots \<subseteq> set (ks_vecGoodPositions res)
      \<and> \<not> ks_bDetectionThresholdExceeded res"
    using located by simp
  moreover have "0 \<in> {..<length ?slots} - altered ?macs ?slots" using a by auto
  ultimately show ?thesis using mat(1) run(2) by blast
qed

text \<open>C7. Outside that range the threshold is not a guarantee: for 3000 packets and threshold 4
  the matrix the code builds cannot confirm packet 0 once the four packets 2743, 2745, 2749 and 2752
  are lost, and the scan reports more bad packets than the threshold allows.\<close>

theorem four_losses_hide_a_packet:
  assumes "mkKsRsMatrix 3000 4 = Inr mat" and "resVerify crp mat slots taus = Inr res"
    and "length slots = 3000" and "slots ! 2743 = None" and "slots ! 2745 = None"
    and "slots ! 2749 = None" and "slots ! 2752 = None"
  shows "0 \<in> set (ks_vecBadPositions res) \<and> ks_bDetectionThresholdExceeded res"
proof -
  have sub: "{0, 2743, 2745, 2749, 2752} \<subseteq> set (ks_vecBadPositions res)"
    by (rule uncovered_3000_4 [OF assms(1,2,3)]) (simp add: assms)
  have "card {0, 2743, 2745, 2749, 2752 :: nat} \<le> card (set (ks_vecBadPositions res))"
    by (rule card_mono [OF _ sub]) simp
  also have "\<dots> \<le> length (ks_vecBadPositions res)" by (rule card_length)
  finally have "4 < length (ks_vecBadPositions res)" by simp
  moreover have "m_nDetectionThreshold mat = 4"
    by (rule mkKsRsMatrix_Inr [OF assms(1)]) simp
  ultimately show ?thesis using sub by (simp add: resVerify_scan(3) [OF assms(2)])
qed

theorem four_losses_hide_a_packet_witness:
  "\<exists>mat taus res. mkKsRsMatrix 3000 4 = Inr mat
     \<and> vecAggregate prefix_provider mat (map (\<lambda>i. block_of [of_nat i]) [0..<3000]) = Inr taus
     \<and> resVerify prefix_provider mat (map (\<lambda>i. if i \<in> {2743, 2745, 2749, 2752} then None
            else Some (block_of [of_nat i])) [0..<3000]) taus = Inr res
     \<and> 0 \<in> set (ks_vecBadPositions res) \<and> ks_bDetectionThresholdExceeded res"
proof -
  obtain mat where mat: "mkKsRsMatrix 3000 4 = Inr mat" "m_nGroupSize mat = 3000"
    by (rule matrix_3000_4_size)
  obtain taus res where run:
    "vecAggregate prefix_provider mat (map (\<lambda>i. block_of [of_nat i]) [0..<3000]) = Inr taus"
    "resVerify prefix_provider mat (map (\<lambda>i. if i \<in> {2743, 2745, 2749, 2752} then None
            else Some (block_of [of_nat i])) [0..<3000]) taus = Inr res"
    by (rule prefix_scan [of "map (\<lambda>i. block_of [of_nat i]) [0..<3000]" mat
        "map (\<lambda>i. if i \<in> {2743, 2745, 2749, 2752} then None else Some (block_of [of_nat i])) [0..<3000]"])
      (simp_all add: mat(2))
  have "0 \<in> set (ks_vecBadPositions res) \<and> ks_bDetectionThresholdExceeded res"
    by (rule four_losses_hide_a_packet [OF mat(1) run(2)]) simp_all
  with mat(1) run show ?thesis by blast
qed

text \<open>The scan reports exactly the confirmed positions as good and the others as bad, and its
  steps are the rows that confirmed new positions, in order, each with the positions it added and
  the candidates left after it.\<close>

theorem location_trace_exact:
  assumes "resVerify crp mat slots taus = Inr res"
  shows "ks_vecGoodPositions res = filter (covered crp mat slots taus (nRowCount mat)) [0..<length slots]
    \<and> ks_vecBadPositions res = filter (\<lambda>p. \<not> covered crp mat slots taus (nRowCount mat) p) [0..<length slots]
    \<and> ks_bDetectionThresholdExceeded res
        = (length (ks_vecBadPositions res) > m_nDetectionThreshold mat)
    \<and> trace_ok crp mat slots taus (nRowCount mat) (ks_vecLocationSteps res)"
  using resVerify_scan [OF assms] by blast

theorem location_trace_exact_witness:
  "\<exists>taus res. resVerify prefix_provider diagonal_matrix [Some (block_of [1]), None] taus = Inr res
     \<and> trace_ok prefix_provider diagonal_matrix [Some (block_of [1]), None] taus
         (nRowCount diagonal_matrix) (ks_vecLocationSteps res)"
proof -
  obtain taus res where "resVerify prefix_provider diagonal_matrix [Some (block_of [1]), None] taus = Inr res"
    by (rule prefix_scan [of "[block_of [1], block_of [2]]" diagonal_matrix "[Some (block_of [1]), None]"])
      (simp_all add: diagonal_matrix_def)
  with location_trace_exact [OF this] show ?thesis by blast
qed

section \<open>The matrix parameters\<close>

text \<open>C9. The parameter search returns valid KS+RS parameters with the fewest rows of all usable
  prime field sizes, and fails only if no field size is usable.\<close>

theorem parameters_minimal:
  "case findBestParameters n t of
     Inr prm \<Rightarrow> valid_params n t prm
       \<and> (\<forall>q. case usable_rows n t q of None \<Rightarrow> True | Some rows \<Rightarrow> nParamRowCount prm \<le> rows)
   | Inl e \<Rightarrow> (\<forall>q. usable_rows n t q = None)"
proof (cases "findBestParameters n t")
  case (Inl e)
  then show ?thesis using findBestParameters_error [OF Inl] by simp
next
  case (Inr prm)
  then show ?thesis using findBestParameters_valid [OF Inr] by (simp split: option.splits)
qed

text \<open>\<open>nNextPrime\<close> returns the least prime from its argument on, and its search loop
  terminates.\<close>

theorem next_prime_least:
  "nNextPrime n = (LEAST p. is_prime p \<and> n \<le> p)
   \<and> (n \<le> 2 \<or> while_option (\<lambda>c. \<not> bIsPrime c) (\<lambda>c. c + 2) (if n mod 2 = 0 then n + 1 else n)
        = Some (nNextPrime n))"
proof
  show "nNextPrime n = (LEAST p. is_prime p \<and> n \<le> p)"
    using nNextPrime_prime nNextPrime_ge nNextPrime_le by (intro Least_equality [symmetric]) auto
  show "n \<le> 2 \<or> while_option (\<lambda>c. \<not> bIsPrime c) (\<lambda>c. c + 2) (if n mod 2 = 0 then n + 1 else n)
        = Some (nNextPrime n)"
  proof (cases "n \<le> 2")
    case False
    let ?m = "if n mod 2 = 0 then n + 1 else n"
    have low: "?m \<le> p" if "is_prime p" "n \<le> p" for p
      using is_prime_odd [OF that(1)] that(2) False by (cases "p = n") (auto simp: odd_iff_mod_2_eq_one)
    have "odd ?m" "n \<le> ?m" "2 < n" using False by auto
    from nNextPrime_while [OF this low] obtain p where
      "while_option (\<lambda>c. \<not> bIsPrime c) (\<lambda>c. c + 2) ?m = Some p" by blast
    moreover from this have "nNextPrime n = p" using False by (simp add: nNextPrime_def while_def)
    ultimately show ?thesis by simp
  qed simp
qed

text \<open>Square-and-multiply computes the modular power.\<close>

theorem power_mod:
  assumes "1 < m"
  shows "nPowMod b e m = b ^ e mod m"
  using assms by (rule nPowMod_eq)

theorem power_mod_witness: "nPowMod 7 5 13 = 7 ^ 5 mod (13 :: nat)"
  by (rule power_mod) simp

section \<open>The key chain\<close>

text \<open>A chain of \<open>n\<close> intervals has a data key for exactly the intervals 1 to \<open>n\<close>, and every
  receiver that holds the commitment accepts each of them when it is disclosed.\<close>

theorem disclosed_keys_accepted:
  assumes "keyCreate crp seed n = Inr kc"
  shows "(\<exists>k. digDataKey kc i = Inr k \<and> bVerifyDisclosedKey crp k i (digCommitmentKey kc) = Inr True)
    = (1 \<le> i \<and> i \<le> n)"
  using chain.key_defined_iff [OF assms, of i] chain.disclosed_key_accepted [OF assms, of i] by blast

theorem disclosed_keys_accepted_witness:
  "\<exists>kc k. keyCreate prefix_provider [4] 2 = Inr kc \<and> digDataKey kc 2 = Inr k
     \<and> bVerifyDisclosedKey prefix_provider k 2 (digCommitmentKey kc) = Inr True"
proof -
  obtain kc where "keyCreate prefix_provider [4] 2 = Inr kc"
    using keyCreate_total [OF prefix_total, of "[4]" 2] by auto
  with disclosed_keys_accepted [OF this, of 2] show ?thesis by auto
qed

text \<open>Two different keys accepted for one interval of one chain exhibit a collision of the
  chain's hash: where their hash sequences towards the commitment meet.\<close>

theorem forged_key_is_collision:
  assumes "bVerifyDisclosedKey crp a n c = Inr True" and "bVerifyDisclosedKey crp b n c = Inr True"
  shows "a = b \<or> (\<exists>j < n. \<exists>x y. hashTimes crp j a = Inr x \<and> hashTimes crp j b = Inr y \<and> hash_collision crp x y)"
  using assms by (rule two_keys_one_commitment)

theorem forged_key_is_collision_witness:
  "block_of [1] = block_of [2] \<or> (\<exists>j < 1. \<exists>x y. hashTimes flat_provider j (block_of [1]) = Inr x
     \<and> hashTimes flat_provider j (block_of [2]) = Inr y \<and> hash_collision flat_provider x y)"
  by (rule forged_key_is_collision [of flat_provider _ 1 "block_of []"]; code_simp)

text \<open>A later key makes up for a lost disclosure: hashing it down \<open>j\<close> times gives a key that
  the same commitment accepts for the interval \<open>j\<close> earlier.\<close>

theorem later_key_recovers_earlier:
  assumes "bVerifyDisclosedKey crp k (i + j) c = Inr True"
  shows "\<exists>k'. hashTimes crp j k = Inr k' \<and> bVerifyDisclosedKey crp k' i c = Inr True"
proof -
  from assms have "hashTimes crp (j + i) k = Inr c" by (auto simp: bVerifyDisclosedKey_def add.commute)
  then show ?thesis by (auto simp: hashTimes_add bVerifyDisclosedKey_def)
qed

theorem later_key_recovers_earlier_witness:
  "\<exists>k'. hashTimes prefix_provider 1 (block_of [1]) = Inr k'
     \<and> bVerifyDisclosedKey prefix_provider k' 1 (block_of [1]) = Inr True"
  by (rule later_key_recovers_earlier [of prefix_provider "block_of [1]" 1 1]) code_simp

section \<open>What is authenticated\<close>

text \<open>The packet code's input determines the packet: sender, chain, interval, index and
  message.\<close>

theorem packet_encoding_injective:
  assumes "pkt_ok p" and "pkt_ok p'" and "vecEncodePacketMacInput p = vecEncodePacketMacInput p'"
  shows "p = p'"
  using assms by (rule vecEncodePacketMacInput_inject)

theorem packet_encoding_injective_witness:
  "vecEncodePacketMacInput (sample_packet 1 5) \<noteq> vecEncodePacketMacInput (sample_packet 1 6)"
proof
  assume "vecEncodePacketMacInput (sample_packet 1 5) = vecEncodePacketMacInput (sample_packet 1 6)"
  from packet_encoding_injective [OF _ _ this] have "sample_packet 1 5 = sample_packet 1 6"
    by (simp add: pkt_ok_def sample_packet_def U16_MAX_def)
  then have "block_of [5] = block_of [6]" by (simp add: sample_packet_def)
  moreover have "block_of [5] \<noteq> block_of [6]" by code_simp
  ultimately show False by simp
qed

text \<open>C16. The group tag's input determines the whole group and the vector of row tags.\<close>

theorem group_encoding_injective:
  assumes "grp_ok g" and "grp_ok g'"
    and "vecEncodeFastGroupInput g taus = Inr out" and "vecEncodeFastGroupInput g' taus' = Inr out"
  shows "g = g' \<and> taus = taus'"
  using assms by (rule vecEncodeFastGroupInput_inject)

theorem group_encoding_injective_witness:
  "\<exists>out. vecEncodeFastGroupInput (sample_group 1 2) [block_of [3]] = Inr out
     \<and> vecEncodeFastGroupInput (sample_group 1 2) [block_of [4]] \<noteq> Inr out"
proof -
  obtain out where out: "vecEncodeFastGroupInput (sample_group 1 2) [block_of [3]] = Inr out"
    using vecEncodeFastGroupInput_eq by (auto simp: bHasMissingPackets_def sample_group_def U32_MAX_def)
  have "block_of [3] \<noteq> block_of [4]" by code_simp
  then have "vecEncodeFastGroupInput (sample_group 1 2) [block_of [4]] \<noteq> Inr out"
    using group_encoding_injective [OF sample_group_ok sample_group_ok out] by blast
  with out show ?thesis by blast
qed

section \<open>Workloads\<close>

text \<open>C17. The text check accepts exactly the UTF-8 encodings of sequences of Unicode scalar
  values: no overlong form, no surrogate, nothing beyond \<open>0x10FFFF\<close>, nothing cut off.\<close>

theorem utf8_exact:
  "validateUtf8 xs = Inr () \<longleftrightarrow> (\<exists>cps. list_all scalar_value cps \<and> xs = concat (map utf8_encode cps))"
  using validateUtf8_sound [of xs] validateUtf8_complete by (auto simp: list_all_iff)

text \<open>C18. A file cut into 32-byte packet messages and recovered from them is the file.\<close>

theorem file_round_trip:
  assumes "mkFileWorkload xs = Inr w"
  shows "andThen (mapE (file_arrMessage w) (packet_indexes (m_u32FilePacketCount w)))
      (\<lambda>ms. vecRecover ms (length xs)) = Inr xs"
proof -
  have w: "m_vecFileBytes w = xs" using assms by (simp add: mkFileWorkload_Inr)
  have "mkFileWorkload (m_vecFileBytes w) = Inr w" using assms w by simp
  from file_source.all_messages [OF this] obtain ms where
    "mapE (file_arrMessage w) (packet_indexes (m_u32FilePacketCount w)) = Inr ms" by blast
  with file_recovered [OF assms this] show ?thesis by simp
qed

theorem file_round_trip_witness:
  "\<exists>w. mkFileWorkload (replicate 40 7) = Inr w
     \<and> andThen (mapE (file_arrMessage w) (packet_indexes (m_u32FilePacketCount w)))
         (\<lambda>ms. vecRecover ms 40) = Inr (replicate 40 7)"
proof -
  obtain w where "mkFileWorkload (replicate 40 7) = Inr w"
    by (simp add: mkFileWorkload_def u32PacketCountFor_def MAXIMUM_FILE_SIZE_def MESSAGE_SIZE_def
        MAXIMUM_PACKET_COUNT_def)
  with file_round_trip [OF this] show ?thesis by simp
qed

section \<open>The control connection\<close>

text \<open>C19. The TCP frame decoder accepts exactly the encodings of well-formed frames, and returns
  the frame encoded: whatever the JSON check is.\<close>

theorem tcp_codec_exact:
  "tcp_resDecode jsn bs = Inr (Inr f) \<longleftrightarrow> frame_ok jsn f \<and> tcp_vecEncode f = Inr bs"
  by (rule tcp.accepts_iff)

text \<open>C20. How the network fragments the stream does not matter: as long as no frame was refused,
  delivering \<open>a\<close> and then \<open>b\<close> leaves the decoder as delivering both at once does, with the same
  frames in the same order.\<close>

theorem stream_fragmentation:
  assumes "batConsume jsn a dec = Inr (bat, dec')" and "m_optError bat = None"
    and "batConsume jsn b dec' = Inr (bat', dec'')"
  shows "batConsume jsn (a @ b) dec
    = Inr (\<lparr>m_vecFrames = m_vecFrames bat @ m_vecFrames bat', m_optError = m_optError bat'\<rparr>, dec'')"
  by (rule batConsume_append [OF assms])

theorem stream_fragmentation_witness:
  "\<exists>bat bat' dec' dec''. batConsume (\<lambda>_. True) (take 10 sample_frame_bytes) sample_stream = Inr (bat, dec')
     \<and> batConsume (\<lambda>_. True) (drop 10 sample_frame_bytes) dec' = Inr (bat', dec'')
     \<and> batConsume (\<lambda>_. True) sample_frame_bytes sample_stream
       = Inr (\<lparr>m_vecFrames = m_vecFrames bat @ m_vecFrames bat', m_optError = m_optError bat'\<rparr>, dec'')"
proof -
  let ?j = "\<lambda>_ :: byte list. True"
  obtain bat dec' where a: "batConsume ?j (take 10 sample_frame_bytes) sample_stream = Inr (bat, dec')"
    using sample_stream_total by blast
  obtain bat' dec'' where b: "batConsume ?j (drop 10 sample_frame_bytes) dec' = Inr (bat', dec'')"
    using sample_stream_total by blast
  have "map_sum id (\<lambda>(bat, _). m_optError bat) (batConsume ?j (take 10 sample_frame_bytes) sample_stream)
      = Inr None"
    by code_simp
  then have "m_optError bat = None" by (simp add: a)
  from stream_fragmentation [OF a this b] a b show ?thesis by auto
qed

text \<open>A refused frame is final for its batch and leaves nothing pending; otherwise less than
  one frame of the configured maximum stays in the buffer.\<close>

theorem stream_bounded:
  assumes "batConsume jsn bs dec = Inr (bat, dec')"
  shows "case m_optError bat of
     Some e \<Rightarrow> m_vecPendingBytes dec' = []
   | None \<Rightarrow> length (m_vecPendingBytes dec') < 4 + max 1 (m_nMaximumFrameLength dec)"
  by (rule batConsume_bounded [OF assms])

theorem stream_bounded_witness:
  "\<exists>bat dec'. batConsume (\<lambda>_. True) [0, 0, 0, 0, 5] sample_stream = Inr (bat, dec')
     \<and> m_optError bat \<noteq> None \<and> m_vecPendingBytes dec' = []"
proof -
  obtain bat dec' where run: "batConsume (\<lambda>_. True) [0, 0, 0, 0, 5] sample_stream = Inr (bat, dec')"
    using sample_stream_total by blast
  have "map_sum id (\<lambda>(bat, _). m_optError bat = None)
      (batConsume (\<lambda>_. True) [0, 0, 0, 0, 5] sample_stream) = Inr False"
    by code_simp
  then have "m_optError bat \<noteq> None" by (simp add: run)
  with stream_bounded [OF run] run show ?thesis by (auto split: option.splits)
qed

text \<open>Frames sent one after the other come out of the stream in order, with the bytes of an
  unfinished frame kept.\<close>

theorem stream_delivers:
  assumes "list_all2 (\<lambda>f bs. frame_ok jsn f \<and> tcp_vecEncode f = Inr bs
      \<and> length bs - 4 \<le> m_nMaximumFrameLength dec) frames bss"
    and "m_vecPendingBytes dec = []" and "length tail < 4"
  shows "batConsume jsn (concat bss @ tail) dec
    = Inr (\<lparr>m_vecFrames = frames, m_optError = None\<rparr>, dec\<lparr>m_vecPendingBytes := tail\<rparr>)"
  using consumeLoop_frames [OF assms(1), of tail "[]"] assms(2,3)
  by (simp add: batConsume_def consumeLoop_short)

theorem stream_delivers_witness:
  "batConsume (\<lambda>_. True) (concat [sample_frame_bytes, sample_frame_bytes] @ [0, 0]) sample_stream
     = Inr (\<lparr>m_vecFrames = [sample_frame, sample_frame], m_optError = None\<rparr>,
            sample_stream\<lparr>m_vecPendingBytes := [0, 0]\<rparr>)"
  by (rule stream_delivers) (simp_all add: sample_frame_encoded sample_stream_def)

section \<open>Datagrams\<close>

text \<open>C23. In the context both ends hold, the datagram decoder accepts exactly the encodings of
  well-formed packets, and returns the packet encoded.\<close>

theorem udp_codec_exact:
  "udp_resDecode bs ctx = Inr (Inr p) \<longleftrightarrow> packet_ok p \<and> udp_vecEncode p ctx = Inr bs"
  by (rule udp.accepts_iff)

text \<open>In every context the constructor accepts, a datagram has at least 48 bytes and at most
  the 65507 a UDP datagram can carry.\<close>

theorem udp_datagram_size:
  assumes "mkUdpContext mode ppi delay tot gs tau = Inr ctx"
    and "packet_ok p" and "udp_vecEncode p ctx = Inr bs"
  shows "48 \<le> length bs \<and> length bs \<le> 65507"
proof -
  from assms(1) have "context_ok ctx" by (auto simp: mkUdpContext_Inr)
  from udp_encode_size [OF this assms(2,3)] show ?thesis by blast
qed

theorem udp_datagram_size_witness:
  "\<exists>bs. udp_vecEncode sample_datagram sample_context = Inr bs \<and> 48 \<le> length bs \<and> length bs \<le> 65507"
  using udp_datagram_size [OF sample_context_made sample_datagram_encoded(1)] sample_datagram_encoded(2)
  by blast

text \<open>The two decoders turn every byte string into a value or a decode error: no exception
  leaves them.\<close>

theorem decoders_never_throw:
  "(\<exists>d. udp_resDecode bs ctx = Inr d) \<and> (\<exists>d. tcp_resDecode jsn bs = Inr d)"
  using udp_resDecode_total tcp_resDecode_total by blast

text \<open>C26. In an accepted context the 32-bit schedule arithmetic is exact: the interval of a packet
  is the quotient it should be, lies within the round, and adding the disclosure delay does not
  wrap.\<close>

theorem schedule_exact:
  assumes "mkUdpContext mode ppi delay tot gs tau = Inr ctx" and "u32ExpectedInterval ctx i = Inr v"
  shows "unat v = (unat i - 1) div unat ppi + 1 \<and> unat v \<le> (unat tot - 1) div unat ppi + 1
    \<and> unat (v + delay) = unat v + unat delay"
proof -
  from assms(1) have ctx: "context_ok ctx" "ctx_u32PacketsPerInterval ctx = ppi"
    "ctx_u32DisclosureDelay ctx = delay" "ctx_u32TotalPacketCount ctx = tot"
    by (auto simp: mkUdpContext_Inr)
  note v = expected_interval_ok [OF ctx(1) assms(2)]
  have "unat v + unat delay \<le> U32_MAX"
    using v(3) ctx by (simp add: context_ok_def)
  then have "unat (v + delay) = unat v + unat delay"
    by (intro unat_plus_no_wrap) (simp add: U32_MAX_def)
  with v ctx show ?thesis by (simp add: final_interval_def)
qed

theorem schedule_exact_witness:
  "\<exists>v. u32ExpectedInterval sample_context 5 = Inr v \<and> unat v = 3 \<and> unat (v + 1) = unat v + 1"
proof -
  obtain v where v: "u32ExpectedInterval sample_context 5 = Inr v"
    using expected_interval_defined [of 5 sample_context] by (auto simp: sample_context_def)
  from schedule_exact [OF sample_context_made v] v show ?thesis by simp
qed

section \<open>Issuing and holding contexts\<close>

text \<open>C27. Over any run of requests, failed ones included, the authority never hands out a chain
  identifier, a seed or a commitment twice, nor one it had issued before.\<close>

theorem authority_unique:
  assumes "issueAll ssl rng reqs ca g = (mats, ca', g')"
  shows "distinct (map mat_u64ChainId mats) \<and> distinct (map mat_vecChainSeed mats)
    \<and> distinct (map mat_digCommitmentKey mats)
    \<and> set (map mat_u64ChainId mats) \<inter> m_setIssuedChainIds ca = {}"
  using issueAll_unique [OF assms] by blast

theorem authority_unique_witness:
  "\<exists>mats ca g. issueAll sample_ssl sample_random [(''S'', sample_round), (''T'', sample_round)] no_authority 1
       = (mats, ca, g) \<and> length mats = 2 \<and> distinct (map mat_u64ChainId mats)"
proof -
  obtain mats ca g where run: "issueAll sample_ssl sample_random
      [(''S'', sample_round), (''T'', sample_round)] no_authority 1 = (mats, ca, g)"
    by (cases "issueAll sample_ssl sample_random [(''S'', sample_round), (''T'', sample_round)] no_authority 1")
  with sample_issue_two authority_unique [OF run] show ?thesis by simp
qed

text \<open>Whatever the random source, material the authority issues passes the sender's check of
  the commitment, and the sender's chain has a key for every data interval of the round.\<close>

theorem issued_material_accepted:
  assumes "matIssueSenderMaterial ssl rng sid prm ca g = (Inr mat, ca', g')"
  shows "\<exists>ctx. ctxCreateVerified mat (OpenSslCryptoProvider ssl (prm_algCryptoAlgorithm prm)) = Inr ctx
    \<and> snd_matMaterial ctx = mat \<and> length (m_vecKeys (snd_keyChain ctx)) = prm_nDataIntervalCount prm + 1"
  by (rule issued_material_verifies [OF assms])

theorem issued_material_accepted_witness:
  "\<exists>mat ca g ctx. matIssueSenderMaterial sample_ssl sample_random ''S'' sample_round no_authority 1 = (Inr mat, ca, g)
     \<and> ctxCreateVerified mat (OpenSslCryptoProvider sample_ssl Sha256) = Inr ctx"
proof -
  obtain mat ca g where run:
    "matIssueSenderMaterial sample_ssl sample_random ''S'' sample_round no_authority 1 = (Inr mat, ca, g)"
    using sample_issue by blast
  from issued_material_accepted [OF run] run show ?thesis by (auto simp: sample_round_def)
qed

text \<open>C29. The receiver's store takes a set of contexts whole or not at all: it accepts exactly the
  consistent ones, a lookup by source address and chain then finds exactly the contexts given, and
  a refused set leaves the store as it was.\<close>

theorem store_replaced_atomically:
  "case replaceAll cs st of
     (Inr _, st') \<Rightarrow> contexts_consistent cs
       \<and> (\<forall>ip c x. resFind ip c st' = Inr x \<longleftrightarrow>
            x \<in> set cs \<and> rcv_strSenderIpAddress x = ip \<and> rcv_u64ChainId x = c)
   | (Inl _, st') \<Rightarrow> \<not> contexts_consistent cs \<and> st' = st"
proof (cases "replaceAll cs st")
  case (Pair r st')
  show ?thesis
  proof (cases r)
    case (Inl e)
    with Pair replaceAll_spec(1,3) [of cs st] show ?thesis by simp
  next
    case (Inr u)
    with Pair have "contexts_consistent cs" "store_of cs st'"
      using replaceAll_spec(1,2) [of cs st] by simp_all
    with resFind_store_of [OF this(2,1)] show ?thesis by (simp add: Pair Inr)
  qed
qed

end
